(* ===== verification/Prelude.thy ===== *)
theory Prelude
  imports Main "HOL-Library.Word" "HOL-Library.AList"
begin

text \<open>
  Shared vocabulary of the development: names for Rust's machine types, the saturating and
  wrapping arithmetic of the standard library, association lists that stand for Rust's
  \<open>HashMap\<close> together with an iteration order, and the string operations of \<open>str\<close> that the
  components call. The collections \<open>step_simps\<close> and \<open>inv_intros\<close> gather what the component
  proofs feed to the simplifier and to \<open>auto\<close>.
\<close>

named_theorems step_simps \<open>unfolding equations of the operations\<close>
named_theorems inv_intros \<open>introduction rules for preservation of invariants\<close>

type_synonym u8 = "8 word"
type_synonym u16 = "16 word"
type_synonym u32 = "32 word"
type_synonym u128 = "128 word"
type_synonym bytes = "u8 list"

section \<open>Machine arithmetic\<close>

text \<open>Values of Rust's signed and unsigned integer types are kept in \<open>int\<close> or \<open>nat\<close> where no
  bit is looked at; the range of the type is then written out at each operation.\<close>

definition i32_max :: int where "i32_max = 2147483647"
definition i64_max :: int where "i64_max = 9223372036854775807"
definition i64_min :: int where "i64_min = - 9223372036854775808"
definition usize_max :: nat where "usize_max = 18446744073709551615"

definition sat_i32 :: "int \<Rightarrow> int" where
  "sat_i32 x = max (- i32_max - 1) (min i32_max x)"

definition sat_i64 :: "int \<Rightarrow> int" where
  "sat_i64 x = max i64_min (min i64_max x)"

definition wrap_i32 :: "int \<Rightarrow> int" where
  "wrap_i32 x = signed_take_bit 31 x"

definition wrap_i64 :: "int \<Rightarrow> int" where
  "wrap_i64 x = signed_take_bit 63 x"

definition wrap_u32 :: "nat \<Rightarrow> nat" where
  "wrap_u32 x = x mod 4294967296"

lemma wrap_u32_less [simp]: "wrap_u32 x < 4294967296"
  by (simp add: wrap_u32_def)

lemma wrap_u32_id [simp]: "x < 4294967296 \<Longrightarrow> wrap_u32 x = x"
  by (simp add: wrap_u32_def)

lemma wrap_i64_id:
  assumes "i64_min \<le> x" "x \<le> i64_max"
  shows "wrap_i64 x = x"
  using assms unfolding wrap_i64_def i64_min_def i64_max_def
  by (intro signed_take_bit_int_eq_self) simp_all

lemma wrap_i32_id:
  assumes "- i32_max - 1 \<le> x" "x \<le> i32_max"
  shows "wrap_i32 x = x"
  using assms unfolding wrap_i32_def i32_max_def
  by (intro signed_take_bit_int_eq_self) simp_all

lemma sat_i64_id: "i64_min \<le> x \<Longrightarrow> x \<le> i64_max \<Longrightarrow> sat_i64 x = x"
  by (simp add: sat_i64_def)

definition clamp_nat :: "nat \<Rightarrow> nat \<Rightarrow> nat \<Rightarrow> nat option" where
  "clamp_nat x lo hi =
     (if hi < lo then None else Some (if x < lo then lo else if hi < x then hi else x))"

text \<open>\<open>Ord::clamp\<close> panics (\<open>None\<close>) exactly when its bounds are swapped.\<close>

lemma clamp_nat_Some [simp]: "lo \<le> hi \<Longrightarrow> clamp_nat x lo hi = Some (max lo (min hi x))"
  by (auto simp: clamp_nat_def)

lemma clamp_nat_range:
  "clamp_nat x lo hi = Some y \<Longrightarrow> lo \<le> y \<and> y \<le> hi"
  by (auto simp: clamp_nat_def split: if_splits)

lemma unat_u8_less: "unat (b :: u8) < 256"
  using unsigned_less [where ?'a = nat, of b] by simp

lemma unat_u16_less: "unat (b :: u16) < 65536"
  using unsigned_less [where ?'a = nat, of b] by simp

lemma unat_u32_less: "unat (b :: u32) < 4294967296"
  using unsigned_less [where ?'a = nat, of b] by simp

section \<open>Association lists\<close>

text \<open>A predicate on the values of an association list is kept by an update with a good value, by a
  deletion, and by rewriting the values.\<close>

definition all_vals :: "('v \<Rightarrow> bool) \<Rightarrow> ('k \<times> 'v) list \<Rightarrow> bool" where
  "all_vals P xs \<longleftrightarrow> (\<forall>x \<in> set xs. P (snd x))"

lemma all_vals_Nil [simp]: "all_vals P []"
  by (simp add: all_vals_def)

lemma all_vals_update [intro]: "all_vals P xs \<Longrightarrow> P v \<Longrightarrow> all_vals P (AList.update k v xs)"
  by (induction xs) (auto simp: all_vals_def)

lemma all_vals_delete [intro]: "all_vals P xs \<Longrightarrow> all_vals P (AList.delete k xs)"
  by (auto simp: all_vals_def AList.delete_eq)

lemma all_vals_map_of: "all_vals P xs \<Longrightarrow> map_of xs k = Some v \<Longrightarrow> P v"
  by (fastforce simp: all_vals_def dest!: map_of_SomeD)

section \<open>Vectors without repetition\<close>

text \<open>The pattern \<open>if !v.contains(&x) { v.push(x) }\<close>, and a vector filled by it.\<close>

definition push_new :: "'a \<Rightarrow> 'a list \<Rightarrow> 'a list" where
  "push_new x xs = (if x \<in> set xs then xs else xs @ [x])"

definition dedup :: "'a list \<Rightarrow> 'a list" where
  "dedup xs = fold push_new xs []"

lemma set_push_new [simp]: "set (push_new x xs) = insert x (set xs)"
  by (auto simp: push_new_def)

lemma distinct_push_new [simp]: "distinct (push_new x xs) = distinct xs"
  by (auto simp: push_new_def)

lemma set_fold_push_new: "set (fold push_new xs acc) = set acc \<union> set xs"
  by (induction xs arbitrary: acc) auto

lemma distinct_fold_push_new: "distinct (fold push_new xs acc) = distinct acc"
  by (induction xs arbitrary: acc) auto

lemma set_dedup [simp]: "set (dedup xs) = set xs"
  by (simp add: dedup_def set_fold_push_new)

lemma distinct_dedup [simp]: "distinct (dedup xs)"
  by (simp add: dedup_def distinct_fold_push_new)

lemma fold_push_new_distinct:
  "distinct xs \<Longrightarrow> set xs \<inter> set acc = {} \<Longrightarrow> fold push_new xs acc = acc @ xs"
  by (induction xs arbitrary: acc) (auto simp: push_new_def)

lemma dedup_distinct: "distinct xs \<Longrightarrow> dedup xs = xs"
  by (simp add: dedup_def fold_push_new_distinct)

lemma length_dedup: "length (dedup xs) \<le> length xs"
  by (metis card_length distinct_card distinct_dedup set_dedup)

lemma fold_push_new_map_filter:
  "fold (\<lambda>x acc. case f x of None \<Rightarrow> acc | Some y \<Rightarrow> push_new y acc) xs acc
     = fold push_new (List.map_filter f xs) acc"
  by (induction xs arbitrary: acc) (auto simp: List.map_filter_def split: option.splits)

section \<open>Splitting\<close>

text \<open>\<open>slice::split\<close> and \<open>str::split\<close> with a predicate.\<close>

fun split_on :: "('a \<Rightarrow> bool) \<Rightarrow> 'a list \<Rightarrow> 'a list list" where
  "split_on P [] = [[]]"
| "split_on P (x # xs) =
     (if P x then [] # split_on P xs
      else case split_on P xs of [] \<Rightarrow> [[x]] | p # ps \<Rightarrow> (x # p) # ps)"

lemma split_on_not_Nil [simp]: "split_on P s \<noteq> []"
  by (induction s) (auto split: list.splits)

lemma split_on_append_sep:
  "P c \<Longrightarrow> split_on P (s @ c # t) = split_on P s @ split_on P t"
  by (induction s) (auto split: list.splits)

lemma split_on_none: "(\<forall>c \<in> set s. \<not> P c) \<Longrightarrow> split_on P s = [s]"
  by (induction s) auto

lemma split_on_append_plain:
  assumes "\<forall>c \<in> set t. \<not> P c"
  shows "split_on P (s @ t) = butlast (split_on P s) @ [last (split_on P s) @ t]"
  using assms
proof (induction s)
  case (Cons x s)
  then show ?case by (cases "split_on P s") (auto split: list.splits)
qed (simp add: split_on_none)

lemma split_on_pieces: "s \<in> set (split_on P t) \<Longrightarrow> c \<in> set s \<Longrightarrow> \<not> P c \<and> c \<in> set t"
  by (induction t arbitrary: s) (auto split: list.splits if_splits, force+)

end
