(* ===== verification/BytesCodec.thy ===== *)
theory BytesCodec
  imports Prelude
begin

text \<open>
  The length-prefixed frame codec of \<^verbatim>\<open>libs/hbb_common/src/bytes_codec.rs\<close>: the codec's state, the
  header reader, the decoder and the encoder, with the buffer \<open>src\<close> passed in and out. The
  locale \<open>incremental_decoder\<close> states what a stream reader needs of a decoder (a frame once found
  is not changed by bytes that arrive later, waiting loses nothing), and its lemmas give
  independence of how the stream is cut into reads.
\<close>

unbundle bit_operations_syntax

section \<open>The codec\<close>

definition MAX_PREALLOCATED_PAYLOAD_LEN :: nat where
  "MAX_PREALLOCATED_PAYLOAD_LEN = 256 * 1024"

datatype decode_state = Head | Data nat

record bytes_codec =
  state :: decode_state
  raw :: bool
  max_packet_length :: nat

datatype io_error = InvalidData string | InvalidInput string | OtherError string

definition codec_new :: bytes_codec where
  "codec_new = \<lparr>state = Head, raw = False, max_packet_length = usize_max\<rparr>"

definition set_raw :: "bytes_codec \<Rightarrow> bytes_codec" where
  "set_raw c = c\<lparr>raw := True\<rparr>"

definition set_max_packet_length :: "bytes_codec \<Rightarrow> nat \<Rightarrow> bytes_codec" where
  "set_max_packet_length c n = c\<lparr>max_packet_length := n\<rparr>"

text \<open>\<open>decode_head\<close> answers the payload length, what is left of the buffer and the number of
  bytes \<open>src.reserve\<close> asks for.\<close>

definition head_length :: "u8 \<Rightarrow> nat" where
  "head_length b = unat ((b AND 3) + 1)"

definition head_value :: "bytes \<Rightarrow> nat" where
  "head_value src =
     (let head_len = head_length (src ! 0);
          n = unat (src ! 0);
          n = (if head_len > 1 then n OR push_bit 8 (unat (src ! 1)) else n);
          n = (if head_len > 2 then n OR push_bit 16 (unat (src ! 2)) else n);
          n = (if head_len > 3 then n OR push_bit 24 (unat (src ! 3)) else n)
      in drop_bit 2 n)"

definition decode_head :: "bytes_codec \<Rightarrow> bytes \<Rightarrow> io_error + (nat \<times> bytes \<times> nat) option" where
  "decode_head c src =
     (if src = [] then Inr None
      else let head_len = head_length (src ! 0) in
        if length src < head_len then Inr None
        else let n = head_value src in
          if n > max_packet_length c then Inl (InvalidData ''Too big packet'')
          else let src = drop head_len src in
            Inr (Some (n, src, min (n - length src) MAX_PREALLOCATED_PAYLOAD_LEN)))"

definition decode_data :: "nat \<Rightarrow> bytes \<Rightarrow> (bytes \<times> bytes) option" where
  "decode_data n src = (if length src < n then None else Some (take n src, drop n src))"

definition decode :: "bytes_codec \<Rightarrow> bytes \<Rightarrow> io_error + (bytes option \<times> bytes_codec \<times> bytes)" where
  "decode c src =
     (if raw c then
        (if src \<noteq> [] then Inr (Some src, c, []) else Inr (None, c, src))
      else
        let finish = (\<lambda>n c src. case decode_data n src of
              Some (data, src') \<Rightarrow> Inr (Some data, c\<lparr>state := Head\<rparr>, src')
            | None \<Rightarrow> Inr (None, c, src))
        in case state c of
             Head \<Rightarrow> (case decode_head c src of
                 Inl e \<Rightarrow> Inl e
               | Inr None \<Rightarrow> Inr (None, c, src)
               | Inr (Some (n, src', _)) \<Rightarrow> finish n (c\<lparr>state := Data n\<rparr>) src')
           | Data n \<Rightarrow> finish n c src)"

definition put_u8 :: "u8 \<Rightarrow> bytes" where
  "put_u8 b = [b]"

definition put_u16_le :: "u16 \<Rightarrow> bytes" where
  "put_u16_le w = [ucast w, ucast (drop_bit 8 w)]"

definition put_u32_le :: "u32 \<Rightarrow> bytes" where
  "put_u32_le w = [ucast w, ucast (drop_bit 8 w), ucast (drop_bit 16 w), ucast (drop_bit 24 w)]"

definition encode :: "bytes_codec \<Rightarrow> bytes \<Rightarrow> bytes \<Rightarrow> io_error + bytes" where
  "encode c data buf =
     (if raw c then Inr (buf @ data)
      else if length data \<le> 0x3F then
        Inr (buf @ put_u8 (word_of_nat (push_bit 2 (length data))) @ data)
      else if length data \<le> 0x3FFF then
        Inr (buf @ put_u16_le (word_of_nat (push_bit 2 (length data)) OR 1) @ data)
      else if length data \<le> 0x3FFFFF then
        (let h = (word_of_nat (push_bit 2 (length data)) :: u32) OR 2
         in Inr (buf @ put_u16_le (ucast (h AND 0xFFFF)) @ put_u8 (ucast (drop_bit 16 h)) @ data))
      else if length data \<le> 0x3FFFFFFF then
        Inr (buf @ put_u32_le (word_of_nat (push_bit 2 (length data)) OR 3) @ data)
      else Inl (InvalidInput ''Overflow''))"

section \<open>Headers\<close>

text \<open>The header an unframed payload length gets, as one list of bytes.\<close>

definition frame_head :: "nat \<Rightarrow> bytes" where
  "frame_head n =
     (if n \<le> 0x3F then put_u8 (word_of_nat (push_bit 2 n))
      else if n \<le> 0x3FFF then put_u16_le (word_of_nat (push_bit 2 n) OR 1)
      else if n \<le> 0x3FFFFF then
        (let h = (word_of_nat (push_bit 2 n) :: u32) OR 2
         in put_u16_le (ucast (h AND 0xFFFF)) @ put_u8 (ucast (drop_bit 16 h)))
      else put_u32_le (word_of_nat (push_bit 2 n) OR 3))"

lemma encode_frame:
  "\<not> raw c \<Longrightarrow> length d \<le> 0x3FFFFFFF \<Longrightarrow> encode c d buf = Inr (buf @ frame_head (length d) @ d)"
  by (auto simp: encode_def frame_head_def Let_def)

lemma encode_overflow:
  "\<not> raw c \<Longrightarrow> 0x3FFFFFFF < length d \<Longrightarrow> encode c d buf = Inl (InvalidInput ''Overflow'')"
  by (auto simp: encode_def)

lemma bytes2_value:
  "unat (ucast w :: u8) OR push_bit 8 (unat (ucast (drop_bit 8 w) :: u8)) = unat (w :: u16)"
  by (rule bit_eqI) (auto simp: bit_simps unsigned_ucast_eq not_less dest: bit_imp_le_length)

lemma bytes4_value:
  "((unat (ucast w :: u8) OR push_bit 8 (unat (ucast (drop_bit 8 w) :: u8)))
     OR push_bit 16 (unat (ucast (drop_bit 16 w) :: u8)))
     OR push_bit 24 (unat (ucast (drop_bit 24 w) :: u8)) = unat (w :: u32)"
  (is "?l = ?r")
proof (rule bit_eqI)
  fix n :: nat
  consider "n < 8" | "8 \<le> n" "n < 16" | "16 \<le> n" "n < 24" | "24 \<le> n" by linarith
  then show "bit ?l n = bit ?r n"
    by cases (auto simp: bit_simps unsigned_ucast_eq dest: bit_imp_le_length)
qed

lemma bytes3_value:
  "(unat (ucast (ucast (w AND 0xFFFF) :: u16) :: u8)
     OR push_bit 8 (unat (ucast (drop_bit 8 (ucast (w AND 0xFFFF) :: u16)) :: u8)))
     OR push_bit 16 (unat (ucast (drop_bit 16 w) :: u8)) = take_bit 24 (unat (w :: u32))"
  (is "?l = ?r")
proof (rule bit_eqI)
  have m: "(0xFFFF :: u32) = mask 16" by (simp add: mask_eq_exp_minus_1)
  fix n :: nat
  consider "n < 8" | "8 \<le> n" "n < 16" | "16 \<le> n" "n < 24" | "24 \<le> n" by linarith
  then show "bit ?l n = bit ?r n"
    unfolding m by cases (auto simp: bit_simps unsigned_ucast_eq dest: bit_imp_le_length)
qed

lemma push2_or: "k < 4 \<Longrightarrow> push_bit 2 n OR k = 4 * n + (k :: nat)"
proof -
  assume "k < 4"
  then have k: "take_bit 2 k = k" by (simp add: take_bit_nat_eq_self_iff)
  have "push_bit 2 n + take_bit 2 k = push_bit 2 n OR take_bit 2 k"
    by (rule disjunctive_add) (auto simp: bit_simps)
  then show ?thesis by (simp add: k push_bit_eq_mult)
qed

lemma unat_header_word:
  assumes "4 * n + 3 < 2 ^ LENGTH('a::len)" "k < 4"
  shows "unat ((word_of_nat (push_bit 2 n) :: 'a word) OR word_of_nat k) = 4 * n + k"
proof -
  have a: "unat (word_of_nat (push_bit 2 n) :: 'a word) = push_bit 2 n"
    using assms by (subst unat_of_nat) (simp add: push_bit_eq_mult)
  have b: "unat (word_of_nat k :: 'a word) = k"
    using assms by (simp add: unat_of_nat)
  show ?thesis using assms(2) by (simp add: unsigned_or_eq a b push2_or)
qed

lemma head_length_byte: "head_length b = unat b mod 4 + 1"
proof -
  have m: "(3 :: nat) = mask 2" by (simp add: mask_eq_exp_minus_1)
  have "unat (b AND 3) = unat b AND 3" by (simp add: unsigned_and_eq)
  also have "\<dots> = unat b mod 4" unfolding m take_bit_eq_mask [symmetric] by (simp add: take_bit_eq_mod)
  finally have "unat (b AND 3) = unat b mod 4" .
  moreover have "unat b mod 4 < 4" by simp
  ultimately show ?thesis
    by (simp add: head_length_def unat_word_ariths)
qed

lemma unat_low_byte_mod4: "LENGTH('a::len) \<ge> 8 \<Longrightarrow> unat (ucast (w :: 'a word) :: u8) mod 4 = unat w mod 4"
  by (simp add: unsigned_ucast_eq take_bit_eq_mod mod_mod_cancel)

lemma drop2_header: "k < 4 \<Longrightarrow> drop_bit 2 (4 * n + k :: nat) = n"
  by (simp add: drop_bit_eq_div)

text \<open>One equation per header size; a header word \<open>w\<close> holds \<open>4 n + k\<close> with \<open>k + 1\<close> bytes.\<close>

lemma head_value_sizes:
  "unat a mod 4 = 0 \<Longrightarrow> head_value (a # xs) = drop_bit 2 (unat a)"
  "unat a mod 4 = 1 \<Longrightarrow> head_value (a # b # xs) = drop_bit 2 (unat a OR push_bit 8 (unat b))"
  "unat a mod 4 = 2 \<Longrightarrow> head_value (a # b # c # xs)
     = drop_bit 2 ((unat a OR push_bit 8 (unat b)) OR push_bit 16 (unat c))"
  "unat a mod 4 = 3 \<Longrightarrow> head_value (a # b # c # d # xs)
     = drop_bit 2 (((unat a OR push_bit 8 (unat b)) OR push_bit 16 (unat c)) OR push_bit 24 (unat d))"
  by (simp_all add: head_value_def head_length_byte Let_def numeral_2_eq_2 numeral_3_eq_3
      del: drop_bit_or)

lemma frame_head_1:
  assumes "unat (b :: u8) = 4 * n"
  shows "head_length ((put_u8 b @ xs) ! 0) = 1" and "head_value (put_u8 b @ xs) = n"
  using assms drop2_header [of 0 n] head_value_sizes(1) [of b xs]
  by (simp_all add: put_u8_def head_length_byte)

lemma frame_head_2:
  assumes "unat (w :: u16) = 4 * n + 1"
  shows "head_length ((put_u16_le w @ xs) ! 0) = 2" and "head_value (put_u16_le w @ xs) = n"
proof -
  have l: "unat (ucast w :: u8) mod 4 = 1" by (simp add: unat_low_byte_mod4 assms)
  then show "head_length ((put_u16_le w @ xs) ! 0) = 2"
    by (simp add: put_u16_le_def head_length_byte)
  show "head_value (put_u16_le w @ xs) = n"
    by (simp only: put_u16_le_def append.simps head_value_sizes(2) [OF l] bytes2_value assms)
      (simp add: drop_bit_eq_div)
qed

lemma frame_head_3:
  assumes w: "unat (w :: u32) = 4 * n + 2" and n: "n \<le> 0x3FFFFF"
  defines "v \<equiv> ucast (w AND 0xFFFF) :: u16"
  shows "head_length ((put_u16_le v @ put_u8 (ucast (drop_bit 16 w)) @ xs) ! 0) = 3"
    and "head_value (put_u16_le v @ put_u8 (ucast (drop_bit 16 w)) @ xs) = n"
proof -
  have m: "(0xFFFF :: nat) = mask 16" by (simp add: mask_eq_exp_minus_1)
  have "unat v = take_bit 16 (unat w AND 0xFFFF)"
    unfolding v_def by (simp add: unsigned_ucast_eq unsigned_and_eq)
  then have "unat v = unat w mod 65536"
    unfolding m take_bit_eq_mask [symmetric] by (simp add: take_bit_eq_mod)
  then have "unat v mod 4 = unat w mod 4" by (simp add: mod_mod_cancel)
  then have "unat v mod 4 = 2" using w by presburger
  then have l: "unat (ucast v :: u8) mod 4 = 2" by (simp add: unat_low_byte_mod4)
  then show "head_length ((put_u16_le v @ put_u8 (ucast (drop_bit 16 w)) @ xs) ! 0) = 3"
    by (simp add: put_u16_le_def head_length_byte)
  have "take_bit 24 (unat w) = 4 * n + 2" using w n by (simp add: take_bit_nat_eq_self_iff)
  then show "head_value (put_u16_le v @ put_u8 (ucast (drop_bit 16 w)) @ xs) = n"
    using l bytes3_value [of w] unfolding v_def
    by (simp only: put_u16_le_def put_u8_def append.simps head_value_sizes(3))
      (simp add: drop_bit_eq_div del: drop_bit_or)
qed

lemma frame_head_4:
  assumes "unat (w :: u32) = 4 * n + 3"
  shows "head_length ((put_u32_le w @ xs) ! 0) = 4" and "head_value (put_u32_le w @ xs) = n"
proof -
  have l: "unat (ucast w :: u8) mod 4 = 3" by (simp add: unat_low_byte_mod4 assms)
  then show "head_length ((put_u32_le w @ xs) ! 0) = 4"
    by (simp add: put_u32_le_def head_length_byte)
  show "head_value (put_u32_le w @ xs) = n"
    by (simp only: put_u32_le_def append.simps head_value_sizes(4) [OF l] bytes4_value assms)
      (simp add: drop_bit_eq_div)
qed

lemma frame_head_parses:
  assumes n: "n \<le> 0x3FFFFFFF"
  shows "head_length ((frame_head n @ xs) ! 0) = length (frame_head n)"
    and "head_value (frame_head n @ xs) = n"
proof -
  have u: "unat ((word_of_nat (push_bit 2 n) :: u16) OR 1) = 4 * n + 1" if "n \<le> 0x3FFF"
    using that unat_header_word [where 'a = 16 and k = 1 and n = n] by simp
  have v: "unat ((word_of_nat (push_bit 2 n) :: u32) OR 2) = 4 * n + 2"
    using n unat_header_word [where 'a = 32 and k = 2 and n = n] by simp
  have w: "unat ((word_of_nat (push_bit 2 n) :: u32) OR 3) = 4 * n + 3"
    using n unat_header_word [where 'a = 32 and k = 3 and n = n] by simp
  have t: "unat (word_of_nat (push_bit 2 n) :: u8) = 4 * n" if "n \<le> 0x3F"
    using that unat_header_word [where 'a = 8 and k = 0 and n = n] by simp
  show "head_length ((frame_head n @ xs) ! 0) = length (frame_head n)"
    using frame_head_1 [OF t, of xs] frame_head_2 [OF u, of xs] frame_head_3 [OF v, of xs]
      frame_head_4 [OF w, of xs]
    by (auto simp: frame_head_def Let_def put_u8_def put_u16_le_def put_u32_le_def)
  show "head_value (frame_head n @ xs) = n"
    using frame_head_1 [OF t, of xs] frame_head_2 [OF u, of xs] frame_head_3 [OF v, of xs]
      frame_head_4 [OF w, of xs]
    by (auto simp: frame_head_def Let_def)
qed

lemma frame_head_length: "1 \<le> length (frame_head n)" "length (frame_head n) \<le> 4"
  by (auto simp: frame_head_def Let_def put_u8_def put_u16_le_def put_u32_le_def)

section \<open>Reading a stream\<close>

text \<open>How a reader uses a decoder: it appends what it read to the buffer and calls the decoder
  until it answers that no frame is complete. \<open>drains\<close> is one such round.\<close>

inductive drains ::
  "('s \<Rightarrow> bytes \<Rightarrow> 'e + ('m option \<times> 's \<times> bytes)) \<Rightarrow> 's \<Rightarrow> bytes \<Rightarrow> 'm list \<Rightarrow> 's \<Rightarrow> bytes \<Rightarrow> bool"
  for dec where
  drained: "dec s b = Inr (None, s', b') \<Longrightarrow> drains dec s b [] s' b'"
| frame: "dec s b = Inr (Some m, s1, b1) \<Longrightarrow> drains dec s1 b1 ms s' b' \<Longrightarrow>
     drains dec s b (m # ms) s' b'"

inductive reads ::
  "('s \<Rightarrow> bytes \<Rightarrow> 'e + ('m option \<times> 's \<times> bytes)) \<Rightarrow> 's \<Rightarrow> bytes \<Rightarrow> bytes list \<Rightarrow> 'm list \<Rightarrow> 's \<Rightarrow> bytes \<Rightarrow> bool"
  for dec where
  eof: "reads dec s b [] [] s b"
| chunk: "drains dec s (b @ x) ms s1 b1 \<Longrightarrow> reads dec s1 b1 xs ns s' b' \<Longrightarrow>
     reads dec s b (x # xs) (ms @ ns) s' b'"

inductive_cases drains_NilE: "drains dec s b [] s' b'"
inductive_cases drains_ConsE: "drains dec s b (m # ms) s' b'"

lemma drains_deterministic:
  "drains dec s b ms s' b' \<Longrightarrow> drains dec s b ns t' c' \<Longrightarrow> ms = ns \<and> s' = t' \<and> b' = c'"
proof (induction arbitrary: ns t' c' rule: drains.induct)
  case (drained s b s' b')
  from drained.prems drained.hyps show ?case by (cases rule: drains.cases) auto
next
  case fr: (frame s b m s1 b1 ms s' b')
  from fr.prems show ?case
  proof (cases rule: drains.cases)
    case drained
    with fr.hyps(1) show ?thesis by simp
  next
    case (frame m' s2 b2 ms')
    with fr.hyps(1) have "m' = m" "s2 = s1" "b2 = b1" by simp_all
    with frame fr.IH show ?thesis by blast
  qed
qed

locale incremental_decoder =
  fixes dec :: "'s \<Rightarrow> bytes \<Rightarrow> 'e + ('m option \<times> 's \<times> bytes)"
    and ok :: "'s \<Rightarrow> bool"
    and weight :: "'s \<Rightarrow> nat"
  assumes frame_stable: "ok s \<Longrightarrow> dec s b = Inr (Some m, s', b') \<Longrightarrow>
      dec s (b @ x) = Inr (Some m, s', b' @ x)"
    and wait_resumes: "ok s \<Longrightarrow> dec s b = Inr (None, s', b') \<Longrightarrow> dec s' (b' @ x) = dec s (b @ x)"
    and ok_step: "ok s \<Longrightarrow> dec s b = Inr (r, s', b') \<Longrightarrow> ok s'"
    and frame_progress: "ok s \<Longrightarrow> dec s b = Inr (Some m, s', b') \<Longrightarrow>
      2 * length b' + weight s' < 2 * length b + weight s"
begin

lemma drains_ok: "drains dec s b ms s' b' \<Longrightarrow> ok s \<Longrightarrow> ok s'"
proof (induction rule: drains.induct)
  case (drained s b s' b')
  then show ?case by (blast intro: ok_step)
next
  case (frame s b m s1 b1 ms s' b')
  then show ?case by (blast intro: ok_step)
qed

text \<open>Bytes that arrive after a round continue where the round stopped.\<close>

lemma drains_append:
  "drains dec s b ms s1 b1 \<Longrightarrow> ok s \<Longrightarrow> drains dec s1 (b1 @ x) ns s' b' \<Longrightarrow>
   drains dec s (b @ x) (ms @ ns) s' b'"
proof (induction arbitrary: ns s' b' rule: drains.induct)
  case (drained s b s1 b1)
  then have eq: "dec s1 (b1 @ x) = dec s (b @ x)" by (simp add: wait_resumes)
  from drained.prems(2) show ?case
    unfolding append.simps by (cases rule: drains.cases) (auto simp: eq intro: drains.intros)
next
  case (frame s b m s1 b1 ms s2 b2)
  have "ok s1" using frame.hyps(1) frame.prems(1) by (rule ok_step [rotated])
  then have "drains dec s1 (b1 @ x) (ms @ ns) s' b'" using frame.IH frame.prems by blast
  moreover have "dec s (b @ x) = Inr (Some m, s1, b1 @ x)"
    using frame.prems(1) frame.hyps(1) by (rule frame_stable)
  ultimately show ?case by (simp add: drains.frame)
qed

text \<open>Hence the frames a reader hands out do not depend on how the stream is cut: reading any
  chunks gives what one round over their concatenation gives.\<close>

lemma reads_concat:
  "reads dec s b xs ms s' b' \<Longrightarrow> ok s \<Longrightarrow> xs \<noteq> [] \<Longrightarrow> drains dec s (b @ concat xs) ms s' b'"
proof (induction rule: reads.induct)
  case (eof s b)
  then show ?case by simp
next
  case (chunk s b x ms s1 b1 xs ns s' b')
  show ?case
  proof (cases "xs = []")
    case True
    with chunk.hyps(2) have "ns = [] \<and> s' = s1 \<and> b' = b1" by (cases rule: reads.cases) auto
    with True chunk.hyps(1) show ?thesis by simp
  next
    case False
    have "ok s1" using chunk.hyps(1) chunk.prems(1) by (rule drains_ok)
    with chunk.IH False have "drains dec s1 (b1 @ concat xs) ns s' b'" by blast
    from drains_append [OF chunk.hyps(1) chunk.prems(1) this] show ?thesis by simp
  qed
qed

end

text \<open>A decoder that meets no error finishes every round, so every read returns.\<close>

locale total_decoder = incremental_decoder +
  assumes no_error: "ok s \<Longrightarrow> dec s b \<noteq> Inl e"
begin

lemma drains_terminates: "ok s \<Longrightarrow> \<exists>ms s' b'. drains dec s b ms s' b'"
proof (induction "2 * length b + weight s" arbitrary: s b rule: less_induct)
  case less
  obtain r s1 b1 where d: "dec s b = Inr (r, s1, b1)"
    using no_error [OF less.prems] by (cases "dec s b") auto
  show ?case
  proof (cases r)
    case None
    with d show ?thesis by (blast intro: drains.drained)
  next
    case (Some m)
    with d have f: "dec s b = Inr (Some m, s1, b1)" by simp
    from frame_progress [OF less.prems f] ok_step [OF less.prems d]
    obtain ms s' b' where "drains dec s1 b1 ms s' b'" using less.hyps [of b1 s1] by blast
    with f show ?thesis by (blast intro: drains.frame)
  qed
qed

lemma reads_terminates: "ok s \<Longrightarrow> \<exists>ms s' b'. reads dec s b xs ms s' b'"
proof (induction xs arbitrary: s b)
  case Nil
  show ?case by (blast intro: reads.eof)
next
  case (Cons x xs)
  obtain ms s1 b1 where d: "drains dec s (b @ x) ms s1 b1" using drains_terminates Cons.prems by blast
  have "ok s1" using d Cons.prems by (rule drains_ok)
  then obtain ns s' b' where "reads dec s1 b1 xs ns s' b'" using Cons.IH by blast
  with d show ?case by (blast intro: reads.chunk)
qed

end

section \<open>The codec as a stream decoder\<close>

definition codec_ok :: "bytes_codec \<Rightarrow> bool" where
  "codec_ok c \<longleftrightarrow> \<not> raw c"

definition codec_weight :: "bytes_codec \<Rightarrow> nat" where
  "codec_weight c = (case state c of Head \<Rightarrow> 0 | Data _ \<Rightarrow> 1)"

lemma head_length_pos: "0 < head_length b"
  by (simp add: head_length_byte)

lemma head_value_append:
  assumes "src \<noteq> []" "head_length (src ! 0) \<le> length src"
  shows "head_value (src @ x) = head_value src"
  using assms by (cases src) (auto simp: head_value_def Let_def nth_append)

lemma decode_head_append:
  "decode_head c src = Inr (Some (n, src', r)) \<Longrightarrow>
   \<exists>r'. decode_head c (src @ x) = Inr (Some (n, src' @ x, r'))"
  by (auto simp: decode_head_def Let_def head_value_append nth_append not_less split: if_splits)

lemma decode_head_error_append:
  "decode_head c src = Inl e \<Longrightarrow> decode_head c (src @ x) = Inl e"
  by (auto simp: decode_head_def Let_def head_value_append nth_append not_less split: if_splits)

lemma decode_head_shorter:
  "decode_head c src = Inr (Some (n, src', r)) \<Longrightarrow> length src' < length src"
  using head_length_pos by (auto simp: decode_head_def Let_def split: if_splits)

lemma decode_data_append:
  "decode_data n src = Some (d, src') \<Longrightarrow> decode_data n (src @ x) = Some (d, src' @ x)"
  by (auto simp: decode_data_def split: if_splits)

text \<open>\<open>decode\<close> in framing mode, one equation per state.\<close>

lemma decode_in_data:
  "\<not> raw c \<Longrightarrow> state c = Data n \<Longrightarrow> decode c src =
     (case decode_data n src of Some (d, src') \<Rightarrow> Inr (Some d, c\<lparr>state := Head\<rparr>, src')
      | None \<Rightarrow> Inr (None, c, src))"
  by (simp add: decode_def)

lemma decode_in_head:
  "\<not> raw c \<Longrightarrow> state c = Head \<Longrightarrow> decode c src =
     (case decode_head c src of Inl e \<Rightarrow> Inl e | Inr None \<Rightarrow> Inr (None, c, src)
      | Inr (Some (n, src', _)) \<Rightarrow> decode (c\<lparr>state := Data n\<rparr>) src')"
  by (auto simp: decode_def split: sum.splits option.splits)

lemma decode_frame_stable:
  assumes "codec_ok c" "decode c b = Inr (Some m, c', b')"
  shows "decode c (b @ x) = Inr (Some m, c', b' @ x)"
proof (cases "state c")
  case (Data n)
  with assms show ?thesis
    by (auto simp: codec_ok_def decode_in_data decode_data_append split: option.splits)
next
  case Head
  with assms obtain n src r where h: "decode_head c b = Inr (Some (n, src, r))"
    and d: "decode (c\<lparr>state := Data n\<rparr>) src = Inr (Some m, c', b')"
    by (auto simp: codec_ok_def decode_in_head split: sum.splits option.splits)
  have "decode (c\<lparr>state := Data n\<rparr>) (src @ x) = Inr (Some m, c', b' @ x)"
    using d assms(1) by (auto simp: codec_ok_def decode_in_data decode_data_append split: option.splits)
  with h decode_head_append [OF h, of x] Head assms(1) show ?thesis
    by (auto simp: codec_ok_def decode_in_head)
qed

lemma decode_wait_resumes:
  assumes "codec_ok c" "decode c b = Inr (None, c', b')"
  shows "decode c' (b' @ x) = decode c (b @ x)"
proof (cases "state c")
  case (Data n)
  with assms show ?thesis by (auto simp: codec_ok_def decode_in_data split: option.splits)
next
  case Head
  show ?thesis
  proof (cases "decode_head c b")
    case (Inl e)
    with assms Head show ?thesis by (simp add: codec_ok_def decode_in_head)
  next
    case (Inr v)
    show ?thesis
    proof (cases v)
      case None
      with Inr assms Head show ?thesis by (simp add: codec_ok_def decode_in_head)
    next
      case (Some t)
      obtain n src r where t: "t = (n, src, r)" by (cases t)
      with Inr Some assms Head have "decode (c\<lparr>state := Data n\<rparr>) src = Inr (None, c', b')"
        by (simp add: codec_ok_def decode_in_head)
      with assms(1) have "c' = c\<lparr>state := Data n\<rparr>" "b' = src"
        by (auto simp: codec_ok_def decode_in_data split: option.splits)
      with Inr Some t decode_head_append [of c b n src r x] assms(1) Head show ?thesis
        by (auto simp: codec_ok_def decode_in_head)
    qed
  qed
qed

lemma decode_keeps:
  "codec_ok c \<Longrightarrow> decode c b = Inr (r, c', b') \<Longrightarrow>
   codec_ok c' \<and> max_packet_length c' = max_packet_length c"
  by (auto simp: codec_ok_def decode_def Let_def split: decode_state.splits sum.splits option.splits)

lemma decode_progress:
  assumes "codec_ok c" "decode c b = Inr (Some m, c', b')"
  shows "2 * length b' + codec_weight c' < 2 * length b + codec_weight c"
proof (cases "state c")
  case (Data n)
  with assms show ?thesis
    by (auto simp: codec_ok_def codec_weight_def decode_in_data decode_data_def split: if_splits)
next
  case Head
  with assms obtain n src r where h: "decode_head c b = Inr (Some (n, src, r))"
    and d: "decode (c\<lparr>state := Data n\<rparr>) src = Inr (Some m, c', b')"
    by (auto simp: codec_ok_def decode_in_head split: sum.splits option.splits)
  with decode_head_shorter [OF h] assms(1) show ?thesis
    by (auto simp: codec_ok_def codec_weight_def decode_in_data decode_data_def split: if_splits)
qed

interpretation bc: incremental_decoder decode codec_ok codec_weight
  by unfold_locales (auto simp: decode_frame_stable decode_wait_resumes decode_progress dest: decode_keeps)

text \<open>A header announces less than \<open>2 ^ 30\<close> bytes, so with the default limit nothing is refused.\<close>

lemma or_less_exp: "a < 2 ^ k \<Longrightarrow> b < 2 ^ k \<Longrightarrow> (a OR b :: nat) < 2 ^ k"
  by (metis take_bit_nat_eq_self_iff take_bit_or)

lemma push_byte_less: "k + 8 \<le> 32 \<Longrightarrow> push_bit k (unat (b :: u8)) < 2 ^ 32"
proof -
  assume k: "k + 8 \<le> 32"
  have "push_bit k (unat b) < 2 ^ k * 2 ^ 8"
    using unsigned_less [of b] by (simp add: push_bit_eq_mult mult.commute)
  also have "\<dots> = 2 ^ (k + 8)" by (simp add: power_add)
  also have "\<dots> \<le> (2 :: nat) ^ 32" using k by (intro power_increasing) simp_all
  finally show ?thesis .
qed

lemma head_value_less: "head_value src < 2 ^ 30"
proof -
  have o: "x < 4294967296 \<Longrightarrow> y < 4294967296 \<Longrightarrow> (x OR y :: nat) < 4294967296" for x y
    using or_less_exp [of x 32 y] by simp
  have p: "k + 8 \<le> 32 \<Longrightarrow> push_bit k (unat (x :: u8)) < 4294967296" for k x
    using push_byte_less [of k x] by simp
  have b: "unat (x :: u8) < 4294967296" for x using p [of 0 x] by simp
  have d: "drop_bit 2 (n :: nat) < 2 ^ 30" if "n < 4294967296" for n
    using that by (simp add: drop_bit_eq_div less_mult_imp_div_less)
  show ?thesis
    unfolding head_value_def Let_def by (intro d) (simp add: b o p)
qed

definition codec_total :: "bytes_codec \<Rightarrow> bool" where
  "codec_total c \<longleftrightarrow> \<not> raw c \<and> 0x3FFFFFFF \<le> max_packet_length c"

lemma decode_total: "codec_total c \<Longrightarrow> decode c b \<noteq> Inl e"
  using head_value_less [of b]
  by (auto simp: codec_total_def decode_def decode_head_def Let_def
      split: decode_state.splits option.splits if_splits)

interpretation bt: total_decoder decode codec_total codec_weight
proof unfold_locales
  fix c b r c' b' assume "codec_total c" "decode c b = Inr (r, c', b')"
  then show "codec_total c'" using decode_keeps [of c b r c' b'] by (simp add: codec_total_def codec_ok_def)
qed (auto simp: codec_total_def codec_ok_def decode_total intro: bc.frame_stable bc.wait_resumes bc.frame_progress)

section \<open>Properties\<close>

lemma decode_encoded:
  assumes "\<not> raw c" "state c = Head" "length d \<le> 0x3FFFFFFF" "length d \<le> max_packet_length c"
  shows "decode c (frame_head (length d) @ d @ xs) = Inr (Some d, c, xs)"
proof -
  have "frame_head (length d) @ d @ xs \<noteq> []" using frame_head_length(1) [of "length d"] by auto
  then have "\<exists>r. decode_head c (frame_head (length d) @ d @ xs) = Inr (Some (length d, d @ xs, r))"
    using frame_head_parses [OF assms(3), of "d @ xs"] assms(4) by (simp add: decode_head_def Let_def)
  then obtain r where "decode_head c (frame_head (length d) @ d @ xs) = Inr (Some (length d, d @ xs, r))" ..
  then show ?thesis using assms(1,2) by (simp add: decode_in_head decode_in_data decode_data_def)
qed

fun encode_all :: "bytes_codec \<Rightarrow> bytes list \<Rightarrow> bytes \<Rightarrow> io_error + bytes" where
  "encode_all c [] buf = Inr buf"
| "encode_all c (d # ds) buf = (case encode c d buf of Inl e \<Rightarrow> Inl e | Inr buf' \<Rightarrow> encode_all c ds buf')"

lemma encode_all_frames:
  "\<not> raw c \<Longrightarrow> \<forall>d \<in> set ds. length d \<le> 0x3FFFFFFF \<Longrightarrow>
   encode_all c ds buf = Inr (buf @ concat (map (\<lambda>d. frame_head (length d) @ d) ds))"
  by (induction ds arbitrary: buf) (auto simp: encode_frame)

lemma drains_encoded:
  assumes "\<not> raw c" "state c = Head" "\<forall>d \<in> set ds. length d \<le> 0x3FFFFFFF \<and> length d \<le> max_packet_length c"
  shows "drains decode c (concat (map (\<lambda>d. frame_head (length d) @ d) ds)) ds c []"
  using assms(3)
proof (induction ds)
  case Nil
  show ?case using assms(1,2) by (auto intro!: drains.drained simp: decode_in_head decode_head_def)
next
  case (Cons d ds)
  then show ?case
    using decode_encoded [OF assms(1,2), of d] by (auto intro!: drains.frame)
qed

text \<open>(C9) Framing round trip over a stream: whatever payloads of at most \<open>0x3FFFFFFF\<close> bytes are
  encoded one after the other, and however the resulting bytes are cut into reads, the reader hands
  out exactly those payloads in order, ends between two frames and leaves no byte behind.\<close>

theorem stream_roundtrip:
  assumes "\<forall>d \<in> set ds. length d \<le> 0x3FFFFFFF"
  shows "\<exists>out. encode_all codec_new ds [] = Inr out \<and>
    (\<forall>xs. concat xs = out \<longrightarrow> reads decode codec_new [] xs ds codec_new [])"
proof (intro exI conjI allI impI)
  let ?out = "concat (map (\<lambda>d. frame_head (length d) @ d) ds)"
  have c: "\<not> raw codec_new" "state codec_new = Head" "codec_total codec_new"
    by (simp_all add: codec_new_def codec_total_def usize_max_def)
  have m: "\<forall>d \<in> set ds. length d \<le> 0x3FFFFFFF \<and> length d \<le> max_packet_length codec_new"
    using assms by (auto simp: codec_new_def usize_max_def)
  show "encode_all codec_new ds [] = Inr ?out" using encode_all_frames [OF c(1) assms] by simp
  fix xs assume xs: "concat xs = ?out"
  obtain ms c' b' where r: "reads decode codec_new [] xs ms c' b'" using bt.reads_terminates c(3) by blast
  show "reads decode codec_new [] xs ds codec_new []"
  proof (cases "xs = []")
    case True
    then have "ds = []" using xs frame_head_length(1) by (cases ds) (auto simp: Suc_le_eq)
    with True show ?thesis by (auto intro: reads.eof)
  next
    case False
    from bt.reads_concat [OF r c(3) False] xs have "drains decode codec_new ?out ms c' b'" by simp
    from drains_deterministic [OF this drains_encoded [OF c(1,2) m]] r show ?thesis by simp
  qed
qed

theorem stream_roundtrip_witness:
  "\<exists>out. encode_all codec_new [[1, 2, 3], [], [255]] [] = Inr out \<and>
    (\<forall>xs. concat xs = out \<longrightarrow> reads decode codec_new [] xs [[1, 2, 3], [], [255]] codec_new [])"
  by (rule stream_roundtrip) simp

text \<open>The decoder on hostile input: whatever bytes arrive, a header never makes the codec
  reserve more than 256 KiB beyond what it holds, a length above \<open>max_packet_length\<close> is refused
  before anything is consumed, and a payload that is handed out has exactly the announced length
  and was in the buffer.\<close>

theorem decode_head_bounded:
  "case decode_head c src of
     Inl e \<Rightarrow> e = InvalidData ''Too big packet'' \<and> max_packet_length c < head_value src
   | Inr None \<Rightarrow> src = [] \<or> length src < head_length (src ! 0)
   | Inr (Some (n, src', reserved)) \<Rightarrow>
       n \<le> max_packet_length c \<and> n < 2 ^ 30 \<and> reserved \<le> 256 * 1024 \<and>
       src = take (head_length (src ! 0)) src @ src'"
  using head_value_less [of src]
  by (auto simp: decode_head_def Let_def MAX_PREALLOCATED_PAYLOAD_LEN_def split: if_splits)

end
