(* ===== verification/SecureStream.thy ===== *)
theory SecureStream
  imports BytesCodec
begin

text \<open>
  The encrypted message stream of \<^verbatim>\<open>libs/hbb_common/src/tcp.rs\<close>: \<open>Encrypt\<close> (a key and one
  sequence number per direction) and the \<open>FramedStream\<close> operations that put it on top of the frame
  codec. NaCl's \<open>secretbox\<close> and \<open>box\<close> are parameters: \<open>seal\<close>, \<open>opn\<close> and \<open>box_open\<close>; the properties
  name what they use of them.
\<close>

section \<open>Encryption state\<close>

type_synonym 'k seal = "bytes \<Rightarrow> bytes \<Rightarrow> 'k \<Rightarrow> bytes"
type_synonym 'k unseal = "bytes \<Rightarrow> bytes \<Rightarrow> 'k \<Rightarrow> bytes option"

record 'k encrypt =
  enc_key :: 'k
  enc_seq :: "64 word"
  dec_seq :: "64 word"

definition encrypt_new :: "'k \<Rightarrow> 'k encrypt" where
  "encrypt_new k = \<lparr>enc_key = k, enc_seq = 0, dec_seq = 0\<rparr>"

definition u64_to_le_bytes :: "64 word \<Rightarrow> bytes" where
  "u64_to_le_bytes w = map (\<lambda>i. ucast (drop_bit (8 * i) w)) [0..<8]"

definition get_nonce :: "64 word \<Rightarrow> bytes" where
  "get_nonce seqnum = u64_to_le_bytes seqnum @ replicate 16 0"

definition enc :: "'k seal \<Rightarrow> 'k encrypt \<Rightarrow> bytes \<Rightarrow> bytes \<times> 'k encrypt" where
  "enc seal e data =
     (let e = e\<lparr>enc_seq := enc_seq e + 1\<rparr>
      in (seal data (get_nonce (enc_seq e)) (enc_key e), e))"

definition dec :: "'k unseal \<Rightarrow> 'k encrypt \<Rightarrow> bytes \<Rightarrow> (io_error + bytes) \<times> 'k encrypt" where
  "dec opn e bs =
     (if length bs \<le> 1 then (Inr bs, e)
      else let e = e\<lparr>dec_seq := dec_seq e + 1\<rparr> in
        case opn bs (get_nonce (dec_seq e)) (enc_key e) of
          Some res \<Rightarrow> (Inr res, e)
        | None \<Rightarrow> (Inl (OtherError ''decryption error''), e))"

datatype handshake_error = PkLength nat | BoxDecryption | SecretKeyLength

definition encrypt_decode ::
  "(bytes \<Rightarrow> bytes \<Rightarrow> bytes \<Rightarrow> 'sk \<Rightarrow> bytes option) \<Rightarrow> bytes \<Rightarrow> bytes \<Rightarrow> 'sk \<Rightarrow> handshake_error + bytes" where
  "encrypt_decode box_open symmetric_data their_pk_b our_sk_b =
     (if length their_pk_b \<noteq> 32 then Inl (PkLength (length their_pk_b))
      else case box_open symmetric_data (replicate 24 0) their_pk_b our_sk_b of
          None \<Rightarrow> Inl BoxDecryption
        | Some symmetric_key \<Rightarrow>
            if length symmetric_key \<noteq> 32 then Inl SecretKeyLength else Inr symmetric_key)"

section \<open>The framed stream\<close>

record 'k framed_stream =
  fs_codec :: bytes_codec
  fs_encrypt :: "'k encrypt option"
  fs_timeout :: nat

definition fs_from :: "'k framed_stream" where
  "fs_from = \<lparr>fs_codec = codec_new, fs_encrypt = None, fs_timeout = 0\<rparr>"

definition set_send_timeout :: "'k framed_stream \<Rightarrow> nat \<Rightarrow> 'k framed_stream" where
  "set_send_timeout fs ms = fs\<lparr>fs_timeout := ms\<rparr>"

definition fs_set_raw :: "'k framed_stream \<Rightarrow> 'k framed_stream" where
  "fs_set_raw fs = fs\<lparr>fs_codec := set_raw (fs_codec fs), fs_encrypt := None\<rparr>"

definition is_secured :: "'k framed_stream \<Rightarrow> bool" where
  "is_secured fs \<longleftrightarrow> fs_encrypt fs \<noteq> None"

definition set_key :: "'k framed_stream \<Rightarrow> 'k \<Rightarrow> 'k framed_stream" where
  "set_key fs k = fs\<lparr>fs_encrypt := Some (encrypt_new k)\<rparr>"

text \<open>\<open>send_raw\<close> encrypts when a key is set and hands the result to the codec; the bytes put on the
  wire are appended to \<open>wire\<close>.\<close>

definition send_bytes :: "'k framed_stream \<Rightarrow> bytes \<Rightarrow> bytes \<Rightarrow> io_error + bytes" where
  "send_bytes fs bs wire = encode (fs_codec fs) bs wire"

definition send_raw ::
  "'k seal \<Rightarrow> 'k framed_stream \<Rightarrow> bytes \<Rightarrow> bytes \<Rightarrow> (io_error + bytes) \<times> 'k framed_stream" where
  "send_raw seal fs msg wire =
     (case fs_encrypt fs of
        Some key \<Rightarrow> (let (msg, key) = enc seal key msg
                      in (send_bytes fs msg wire, fs\<lparr>fs_encrypt := Some key\<rparr>))
      | None \<Rightarrow> (send_bytes fs msg wire, fs))"

text \<open>\<open>next\<close> on what the socket has delivered so far (\<open>buf\<close>): no item yet, a codec error, or a
  frame, decrypted when a key is set.\<close>

definition fs_next ::
  "'k unseal \<Rightarrow> 'k framed_stream \<Rightarrow> bytes \<Rightarrow>
   io_error + ((io_error + bytes) option \<times> 'k framed_stream \<times> bytes)" where
  "fs_next opn fs buf =
     (case decode (fs_codec fs) buf of
        Inl e \<Rightarrow> Inl e
      | Inr (None, c, buf') \<Rightarrow> Inr (None, fs\<lparr>fs_codec := c\<rparr>, buf')
      | Inr (Some bs, c, buf') \<Rightarrow>
          (case fs_encrypt fs of
             None \<Rightarrow> Inr (Some (Inr bs), fs\<lparr>fs_codec := c\<rparr>, buf')
           | Some key \<Rightarrow> (let (res, key) = dec opn key bs
                           in Inr (Some res, fs\<lparr>fs_codec := c, fs_encrypt := Some key\<rparr>, buf'))))"

fun send_all ::
  "'k seal \<Rightarrow> 'k framed_stream \<Rightarrow> bytes list \<Rightarrow> bytes \<Rightarrow> (io_error + bytes) \<times> 'k framed_stream" where
  "send_all seal fs [] wire = (Inr wire, fs)"
| "send_all seal fs (m # ms) wire =
     (case send_raw seal fs m wire of
        (Inl e, fs') \<Rightarrow> (Inl e, fs')
      | (Inr wire', fs') \<Rightarrow> send_all seal fs' ms wire')"

section \<open>The stream as an incremental decoder\<close>

definition stream_total :: "'k framed_stream \<Rightarrow> bool" where
  "stream_total fs \<longleftrightarrow> codec_total (fs_codec fs)"

definition stream_weight :: "'k framed_stream \<Rightarrow> nat" where
  "stream_weight fs = codec_weight (fs_codec fs)"

lemma fs_next_cases:
  assumes "fs_next op fs b = Inr (r, fs', b')"
  obtains (wait) c where "decode (fs_codec fs) b = Inr (None, c, b')" "r = None" "fs' = fs\<lparr>fs_codec := c\<rparr>"
  | (item) bs c m where "decode (fs_codec fs) b = Inr (Some bs, c, b')" "r = Some m" "fs_codec fs' = c"
      "\<And>buf y. decode (fs_codec fs) buf = Inr (Some bs, c, y) \<Longrightarrow> fs_next op fs buf = Inr (Some m, fs', y)"
  using assms
  by (auto simp: fs_next_def split: sum.splits option.splits prod.splits)

interpretation ss: total_decoder "fs_next op" stream_total stream_weight
  for op :: "'k unseal"
proof unfold_locales
  fix fs :: "'k framed_stream" and b m fs' b' x
  assume ok: "stream_total fs" and n: "fs_next op fs b = Inr (Some m, fs', b')"
  from n show "fs_next op fs (b @ x) = Inr (Some m, fs', b' @ x)"
  proof (cases rule: fs_next_cases)
    case (item bs c m')
    from bt.frame_stable [OF ok [unfolded stream_total_def] item(1)] item show ?thesis by simp
  qed simp
  from n show "2 * length b' + stream_weight fs' < 2 * length b + stream_weight fs"
  proof (cases rule: fs_next_cases)
    case (item bs c m')
    with bt.frame_progress [OF ok [unfolded stream_total_def] item(1)] show ?thesis
      by (simp add: stream_weight_def)
  qed simp
next
  fix fs :: "'k framed_stream" and b fs' b' x
  assume ok: "stream_total fs" and n: "fs_next op fs b = Inr (None, fs', b')"
  from n show "fs_next op fs' (b' @ x) = fs_next op fs (b @ x)"
  proof (cases rule: fs_next_cases)
    case (wait c)
    from bt.wait_resumes [OF ok [unfolded stream_total_def] wait(1), of x] wait show ?thesis
      by (simp add: fs_next_def split: sum.splits option.splits prod.splits)
  qed simp
next
  fix fs :: "'k framed_stream" and b r fs' b'
  assume ok: "stream_total fs" and n: "fs_next op fs b = Inr (r, fs', b')"
  from n show "stream_total fs'"
    by (cases rule: fs_next_cases) (use ok in \<open>auto simp: stream_total_def dest: bt.ok_step\<close>)
next
  fix fs :: "'k framed_stream" and b e
  assume "stream_total fs"
  then show "fs_next op fs b \<noteq> Inl e"
    using bt.no_error by (auto simp: fs_next_def stream_total_def split: sum.splits option.splits prod.splits)
qed

section \<open>Nonces\<close>

lemma u64_to_le_bytes_inj: "u64_to_le_bytes s = u64_to_le_bytes t \<Longrightarrow> s = t"
proof (rule bit_word_eqI)
  fix i assume eq: "u64_to_le_bytes s = u64_to_le_bytes t" and i: "i < LENGTH(64)"
  then have "(ucast (drop_bit (8 * (i div 8)) s) :: u8) = ucast (drop_bit (8 * (i div 8)) t)"
    by (auto simp: u64_to_le_bytes_def)
  then have "bit (ucast (drop_bit (8 * (i div 8)) s) :: u8) (i mod 8)
      = bit (ucast (drop_bit (8 * (i div 8)) t) :: u8) (i mod 8)" by simp
  moreover have "i mod 8 < Suc (Suc (Suc (Suc (Suc (Suc (Suc (Suc 0)))))))"
    using mod_less_divisor [of 8 i] by linarith
  ultimately show "bit s i = bit t i" by (simp add: bit_simps add.commute)
qed

lemma get_nonce_inj: "get_nonce s = get_nonce t \<longleftrightarrow> s = t"
  using u64_to_le_bytes_inj by (auto simp: get_nonce_def)

text \<open>The nonces one side uses for its messages, read off by sealing with a function that
  returns the nonce it is given.\<close>

fun nonce_trace :: "'k encrypt \<Rightarrow> bytes list \<Rightarrow> bytes list" where
  "nonce_trace e [] = []"
| "nonce_trace e (m # ms) =
     (let (n, e') = enc (\<lambda>_ n _. n) e m in n # nonce_trace e' ms)"

lemma nonce_trace_eq:
  "nonce_trace e ms = map (\<lambda>i. get_nonce (enc_seq e + word_of_nat (Suc i))) [0..<length ms]"
proof (induction ms arbitrary: e)
  case (Cons m ms)
  have "map (\<lambda>i. get_nonce (enc_seq e + 1 + word_of_nat (Suc i))) [0..<length ms]
      = map (\<lambda>i. get_nonce (enc_seq e + word_of_nat (Suc i))) [1..<Suc (length ms)]"
    by (simp add: map_Suc_upt [symmetric] add.assoc del: upt_Suc)
  with Cons show ?case by (simp add: enc_def upt_conv_Cons del: upt_Suc)
qed simp

lemma word_of_nat_inj: "i < 2 ^ 64 \<Longrightarrow> j < 2 ^ 64 \<Longrightarrow> (word_of_nat i :: 64 word) = word_of_nat j \<Longrightarrow> i = j"
  by (simp add: word_of_nat_eq_iff take_bit_nat_eq_self)

section \<open>Sending and receiving\<close>

fun seals :: "'k seal \<Rightarrow> 'k \<Rightarrow> 64 word \<Rightarrow> bytes list \<Rightarrow> bytes list" where
  "seals seal k s [] = []"
| "seals seal k s (m # ms) = seal m (get_nonce (s + 1)) k # seals seal k (s + 1) ms"

lemma send_all_secured:
  assumes "\<not> raw (fs_codec fs)" "\<And>m n. length (seal m n k) = length m + 16"
    and "fs_encrypt fs = Some \<lparr>enc_key = k, enc_seq = s, dec_seq = t\<rparr>"
    and "\<forall>m \<in> set ms. length m + 16 \<le> 0x3FFFFFFF"
  shows "fst (send_all seal fs ms wire)
     = Inr (wire @ concat (map (\<lambda>d. frame_head (length d) @ d) (seals seal k s ms)))"
  using assms(1,3,4)
proof (induction ms arbitrary: fs s wire)
  case (Cons m ms)
  let ?c = "seal m (get_nonce (s + 1)) k"
  let ?fs = "fs\<lparr>fs_encrypt := Some \<lparr>enc_key = k, enc_seq = s + 1, dec_seq = t\<rparr>\<rparr>"
  have "send_raw seal fs m wire = (Inr (wire @ frame_head (length ?c) @ ?c), ?fs)"
    using Cons.prems by (simp add: send_raw_def enc_def send_bytes_def encode_frame assms(2))
  moreover have "fst (send_all seal ?fs ms (wire @ frame_head (length ?c) @ ?c))
      = Inr ((wire @ frame_head (length ?c) @ ?c)
         @ concat (map (\<lambda>d. frame_head (length d) @ d) (seals seal k (s + 1) ms)))"
    using Cons.prems by (intro Cons.IH) simp_all
  ultimately show ?case by simp
qed simp

lemma fs_next_sealed:
  assumes "\<And>m n. opn (seal m n k) n k = Some m" "\<And>m n. length (seal m n k) = length m + 16"
    and "fs_codec fs = codec_new" "fs_encrypt fs = Some \<lparr>enc_key = k, enc_seq = t, dec_seq = s\<rparr>"
    and "length m + 16 \<le> 0x3FFFFFFF" and c: "c = seal m (get_nonce (s + 1)) k"
  shows "fs_next opn fs (frame_head (length c) @ c @ xs)
     = Inr (Some (Inr m), fs\<lparr>fs_encrypt := Some \<lparr>enc_key = k, enc_seq = t, dec_seq = s + 1\<rparr>\<rparr>, xs)"
proof -
  have "decode codec_new (frame_head (length c) @ c @ xs) = Inr (Some c, codec_new, xs)"
    using assms(2,5) by (intro decode_encoded) (simp_all add: c codec_new_def usize_max_def)
  moreover have "dec opn \<lparr>enc_key = k, enc_seq = t, dec_seq = s\<rparr> c
      = (Inr m, \<lparr>enc_key = k, enc_seq = t, dec_seq = s + 1\<rparr>)"
    by (simp add: dec_def c assms(1,2))
  ultimately show ?thesis using assms(3,4) by (simp add: fs_next_def)
qed

lemma drains_sealed:
  assumes "\<And>m n. opn (seal m n k) n k = Some m" "\<And>m n. length (seal m n k) = length m + 16"
    and "fs_codec fs = codec_new" "fs_encrypt fs = Some \<lparr>enc_key = k, enc_seq = t, dec_seq = s\<rparr>"
    and "\<forall>m \<in> set ms. length m + 16 \<le> 0x3FFFFFFF"
  shows "drains (fs_next opn) fs (concat (map (\<lambda>d. frame_head (length d) @ d) (seals seal k s ms)))
     (map Inr ms) (fs\<lparr>fs_encrypt := Some \<lparr>enc_key = k, enc_seq = t, dec_seq = s + word_of_nat (length ms)\<rparr>\<rparr>) []"
  using assms(3,4,5)
proof (induction ms arbitrary: fs s)
  case Nil
  then have "fs_next opn fs [] = Inr (None, fs, [])"
    by (simp add: fs_next_def codec_new_def decode_in_head decode_head_def)
  with Nil show ?case by (simp add: drains.drained)
next
  case (Cons m ms)
  let ?c = "seal m (get_nonce (s + 1)) k"
  let ?fs = "fs\<lparr>fs_encrypt := Some \<lparr>enc_key = k, enc_seq = t, dec_seq = s + 1\<rparr>\<rparr>"
  let ?rest = "concat (map (\<lambda>d. frame_head (length d) @ d) (seals seal k (s + 1) ms))"
  have "fs_next opn fs (frame_head (length ?c) @ ?c @ ?rest) = Inr (Some (Inr m), ?fs, ?rest)"
    using Cons.prems by (intro fs_next_sealed) (simp_all add: assms(1,2))
  moreover have "drains (fs_next opn) ?fs ?rest (map Inr ms)
     (?fs\<lparr>fs_encrypt := Some \<lparr>enc_key = k, enc_seq = t, dec_seq = s + 1 + word_of_nat (length ms)\<rparr>\<rparr>) []"
    using Cons.prems by (intro Cons.IH) simp_all
  ultimately show ?case by (auto intro!: drains.frame simp: ac_simps)
qed

section \<open>Properties\<close>

text \<open>(C2) The secured channel delivers: two streams keyed with the same session key, any messages
  sent in order by the one, and any way the network cuts the bytes into reads, the other
  receives exactly these messages in this order, with no decryption error and with its receive
  counter at the number of messages. Of \<open>secretbox\<close> it uses that opening undoes sealing under the
  same nonce and key and that a box is 16 bytes longer than its message.\<close>

theorem secure_stream_roundtrip:
  assumes "\<And>m n. opn (seal m n k) n k = Some m" "\<And>m n. length (seal m n k) = length m + 16"
    and "\<forall>m \<in> set ms. length m + 16 \<le> 0x3FFFFFFF"
  shows "\<exists>wire. fst (send_all seal (set_key fs_from k) ms []) = Inr wire \<and>
    (\<forall>xs. concat xs = wire \<longrightarrow>
       reads (fs_next opn) (set_key fs_from k) [] xs (map Inr ms)
         ((set_key fs_from k)\<lparr>fs_encrypt :=
            Some ((encrypt_new k)\<lparr>dec_seq := word_of_nat (length ms)\<rparr>)\<rparr>) [])"
proof (intro exI conjI allI impI)
  let ?fs = "set_key fs_from k"
  let ?out = "concat (map (\<lambda>d. frame_head (length d) @ d) (seals seal k 0 ms))"
  have e: "fs_encrypt ?fs = Some \<lparr>enc_key = k, enc_seq = 0, dec_seq = 0\<rparr>" "fs_codec ?fs = codec_new"
    by (simp_all add: set_key_def encrypt_new_def fs_from_def)
  show "fst (send_all seal ?fs ms []) = Inr ?out"
    using send_all_secured [of ?fs seal k 0 0 ms "[]"] assms e by (simp add: codec_new_def)
  fix xs assume xs: "concat xs = ?out"
  have t: "stream_total ?fs" by (simp add: stream_total_def e codec_total_def codec_new_def usize_max_def)
  obtain rs fs' b' where r: "reads (fs_next opn) ?fs [] xs rs fs' b'" using ss.reads_terminates t by blast
  have d: "drains (fs_next opn) ?fs ?out (map Inr ms)
     (?fs\<lparr>fs_encrypt := Some ((encrypt_new k)\<lparr>dec_seq := word_of_nat (length ms)\<rparr>)\<rparr>) []"
    using drains_sealed [of opn seal k ?fs 0 0 ms, OF assms(1,2) e(2) e(1) assms(3)] by (simp add: encrypt_new_def)
  show "reads (fs_next opn) ?fs [] xs (map Inr ms)
     (?fs\<lparr>fs_encrypt := Some ((encrypt_new k)\<lparr>dec_seq := word_of_nat (length ms)\<rparr>)\<rparr>) []"
  proof (cases "xs = []")
    case True
    then have "ms = []" using xs frame_head_length(1) by (cases ms) (auto simp: Suc_le_eq)
    with True show ?thesis by (auto intro: reads.eof simp: encrypt_new_def set_key_def fs_from_def)
  next
    case False
    from ss.reads_concat [OF r t False] xs have "drains (fs_next opn) ?fs ?out rs fs' b'" by simp
    from drains_deterministic [OF this d] r show ?thesis by simp
  qed
qed

definition toy_seal :: "u8 seal" where
  "toy_seal m n k = map (\<lambda>x. x + k) m @ replicate 16 0"

definition toy_open :: "u8 unseal" where
  "toy_open c n k = Some (map (\<lambda>x. x - k) (take (length c - 16) c))"

theorem secure_stream_roundtrip_witness:
  "\<exists>wire. fst (send_all toy_seal (set_key fs_from 7) [[1, 2], [], [9]] []) = Inr wire \<and>
    (\<forall>xs. concat xs = wire \<longrightarrow>
       reads (fs_next toy_open) (set_key fs_from 7) [] xs (map Inr [[1, 2], [], [9]])
         ((set_key fs_from 7)\<lparr>fs_encrypt :=
            Some ((encrypt_new 7)\<lparr>dec_seq := word_of_nat (length [[1, 2], [], [9 :: u8]])\<rparr>)\<rparr>) [])"
  by (rule secure_stream_roundtrip [of toy_open toy_seal 7 "[[1, 2], [], [9]]"])
    (simp_all add: toy_seal_def toy_open_def comp_def)

text \<open>One direction never uses a nonce twice: the nonces of up to \<open>2 ^ 64 - 1\<close> messages sent
  under one key are pairwise different, none is the all-zero one, and each is 24 bytes long.\<close>

theorem send_nonces_distinct:
  assumes "length ms < 2 ^ 64"
  shows "distinct (nonce_trace (encrypt_new k) ms) \<and>
    (\<forall>n \<in> set (nonce_trace (encrypt_new k) ms). length n = 24 \<and> n \<noteq> replicate 24 0)"
proof -
  have inj: "inj_on (\<lambda>i. get_nonce (word_of_nat (Suc i) :: 64 word)) (set [0..<length ms])"
  proof (rule inj_onI)
    fix i j assume "i \<in> set [0..<length ms]" "j \<in> set [0..<length ms]"
      and eq: "get_nonce (word_of_nat (Suc i)) = get_nonce (word_of_nat (Suc j))"
    then have "Suc i < 2 ^ 64" "Suc j < 2 ^ 64" using assms by simp_all
    with eq word_of_nat_inj [of "Suc i" "Suc j"] show "i = j" unfolding get_nonce_inj by blast
  qed
  have zero: "get_nonce 0 = replicate 24 0"
    by (simp add: get_nonce_def u64_to_le_bytes_def upt_rec numeral_eq_Suc)
  have "get_nonce (word_of_nat (Suc i)) \<noteq> replicate 24 0" if "i < length ms" for i
    using that assms word_of_nat_inj [of "Suc i" 0]
    unfolding zero [symmetric] get_nonce_inj by (auto simp del: of_nat_Suc)
  moreover have "length (get_nonce s) = 24" for s by (simp add: get_nonce_def u64_to_le_bytes_def)
  ultimately show ?thesis
    using inj unfolding nonce_trace_eq by (auto simp: distinct_map encrypt_new_def simp del: of_nat_Suc)
qed

theorem send_nonces_distinct_witness:
  "distinct (nonce_trace (encrypt_new (7 :: u8)) [[1], [], [2, 3]]) \<and>
    replicate 24 0 \<notin> set (nonce_trace (encrypt_new (7 :: u8)) [[1], [], [2, 3]])"
  using send_nonces_distinct [of "[[1], [], [2, 3]]" "7 :: u8"] by (auto simp del: nonce_trace.simps)

text \<open>The two directions of a connection are not separated: both ends start from the same key
  with their counters at zero, so the message number \<open>i\<close> of the one end and the message number \<open>i\<close> of
  the other are sealed under the same key and the same nonce.\<close>

theorem directions_share_nonces:
  "nonce_trace (the (fs_encrypt (set_key client k))) ms
     = take (length ms) (nonce_trace (the (fs_encrypt (set_key server k))) (ms @ ns))"
  by (simp add: set_key_def nonce_trace_eq take_map)

text \<open>What the receiving side accepts: a frame of at most one byte is handed on as it came,
  whatever the key, and leaves the counters alone; any longer frame moves the receive counter by
  one and is either opened under the nonce of the new counter or answered by a decryption
  error. Sending never moves the receive counter, and receiving never moves the send counter.\<close>

theorem dec_acceptance:
  "(length bs \<le> 1 \<longrightarrow> dec opn e bs = (Inr bs, e)) \<and>
   (1 < length bs \<longrightarrow> dec_seq (snd (dec opn e bs)) = dec_seq e + 1 \<and>
      fst (dec opn e bs) = (case opn bs (get_nonce (dec_seq e + 1)) (enc_key e) of
         Some m \<Rightarrow> Inr m | None \<Rightarrow> Inl (OtherError ''decryption error''))) \<and>
   enc_seq (snd (dec opn e bs)) = enc_seq e \<and> enc_key (snd (dec opn e bs)) = enc_key e \<and>
   dec_seq (snd (enc seal e bs)) = dec_seq e"
  by (auto simp: dec_def enc_def Let_def split: option.splits)

theorem dec_acceptance_witness:
  "dec toy_open (encrypt_new 7) [5] = (Inr [5], encrypt_new 7) \<and>
   dec_seq (snd (dec toy_open (encrypt_new 7) [5, 6])) = 1"
  using dec_acceptance [of "[5]" toy_open "encrypt_new 7"] dec_acceptance [of "[5, 6]" toy_open "encrypt_new 7"]
  by (simp add: encrypt_new_def)

end
