(* ===== verification/Float32.thy ===== *)
theory Float32
  imports Complex_Main "HOL-Library.Log_Nat"
begin

text \<open>
  Rust's \<open>f32\<close> as far as the engine uses it: finite values are rationals, and every operation
  rounds its exact result to the nearest value with a 24 bit significand, ties to even (IEEE 754
  binary32, with gradual underflow; overflow to infinity is outside the ranges used). The lemmas
  give what the clients need of it: rounding is monotone and exact on small integers.
\<close>

section \<open>Rounding\<close>

definition round_half_even :: "rat \<Rightarrow> int" where
  "round_half_even x =
     (let f = \<lfloor>x\<rfloor>; d = x - of_int f in
      if d < 1 / 2 then f else if 1 / 2 < d then f + 1 else if even f then f else f + 1)"

text \<open>The binary exponent of a positive rational: \<open>2 powi e \<le> x < 2 powi (e + 1)\<close>.\<close>

definition binexp :: "rat \<Rightarrow> int" where
  "binexp x =
     (let (p, q) = quotient_of x; k = bitlen p - bitlen q
      in if 2 powi k \<le> x then k else k - 1)"

definition f32_round :: "rat \<Rightarrow> rat" where
  "f32_round x =
     (if x = 0 then 0
      else let e = max (binexp \<bar>x\<bar>) (- 126); q = 2 powi (e - 23)
           in of_int (round_half_even (x / q)) * q)"

section \<open>Rounding to an integer\<close>

lemma round_half_even_int [simp]: "round_half_even (of_int n) = n"
  by (simp add: round_half_even_def)

lemma round_half_even_bounds: "\<lfloor>x\<rfloor> \<le> round_half_even x" "round_half_even x \<le> \<lfloor>x\<rfloor> + 1"
  by (simp_all add: round_half_even_def Let_def)

lemma round_half_even_mono:
  assumes "x \<le> y" shows "round_half_even x \<le> round_half_even y"
proof (cases "\<lfloor>x\<rfloor> = \<lfloor>y\<rfloor>")
  case True
  with assms show ?thesis by (auto simp: round_half_even_def Let_def)
next
  case False
  then have "\<lfloor>x\<rfloor> + 1 \<le> \<lfloor>y\<rfloor>" using floor_mono [OF assms] by linarith
  then show ?thesis using round_half_even_bounds [of x] round_half_even_bounds [of y] by linarith
qed

lemma round_half_even_le: "x \<le> of_int n \<Longrightarrow> round_half_even x \<le> n"
  using round_half_even_mono [of x "of_int n"] by simp

lemma round_half_even_ge: "of_int n \<le> x \<Longrightarrow> n \<le> round_half_even x"
  using round_half_even_mono [of "of_int n" x] by simp

section \<open>The exponent\<close>

lemma powi2_pos [simp]: "0 < (2 :: rat) powi k"
  by (simp add: zero_less_power_int)

lemma powi2_less_iff: "(2 :: rat) powi j < 2 powi k \<longleftrightarrow> j < k"
proof
  assume "(2 :: rat) powi j < 2 powi k"
  then show "j < k" using power_int_increasing [of k j "2 :: rat"] by (metis leI not_le one_le_numeral)
next
  assume "j < k"
  then show "(2 :: rat) powi j < 2 powi k" by (simp add: power_int_strict_increasing)
qed

lemma bitlen_powi: "0 < p \<Longrightarrow> 2 powi (bitlen p - 1) \<le> (of_int p :: rat) \<and> of_int p < (2 :: rat) powi bitlen p"
proof -
  assume p: "0 < p"
  from bitlen_bounds [OF p] have "2 ^ nat (bitlen p - 1) \<le> p" "p < 2 ^ nat (bitlen p)" by simp_all
  then have "(2 :: rat) ^ nat (bitlen p - 1) \<le> of_int p" "of_int p < (2 :: rat) ^ nat (bitlen p)"
    by (metis of_int_le_iff of_int_power of_int_numeral, metis of_int_less_iff of_int_power of_int_numeral)
  moreover have "0 < bitlen p" using p bitlen_nonneg [of p] bitlen_eq_zero_iff [of p] by linarith
  ultimately show ?thesis by (simp add: power_int_def)
qed

lemma binexp_bounds:
  assumes x: "0 < x" shows "2 powi binexp x \<le> x" and "x < 2 powi (binexp x + 1)"
proof -
  obtain p q where pq: "quotient_of x = (p, q)" by fastforce
  have q: "0 < q" using quotient_of_denom_pos [OF pq] .
  have xq: "x = of_int p / of_int q" using quotient_of_div [OF pq] .
  have p: "0 < p" using x q by (simp add: xq zero_less_divide_iff)
  let ?k = "bitlen p - bitlen q"
  have "2 powi (bitlen p - 1) / 2 powi bitlen q < x"
    unfolding xq using bitlen_powi [OF p] bitlen_powi [OF q] q p
    by (intro frac_less2) (simp_all)
  then have lo: "2 powi (?k - 1) < x"
    by (simp add: power_int_diff power_int_add algebra_simps)
  have "x < 2 powi bitlen p / 2 powi (bitlen q - 1)"
    unfolding xq using bitlen_powi [OF p] bitlen_powi [OF q] q p
    by (intro frac_less) (simp_all)
  then have hi: "x < 2 powi (?k + 1)"
    by (simp add: power_int_diff power_int_add algebra_simps)
  from lo hi show "2 powi binexp x \<le> x" "x < 2 powi (binexp x + 1)"
    by (auto simp: binexp_def pq Let_def)
qed

lemma binexp_mono: "0 < x \<Longrightarrow> x \<le> y \<Longrightarrow> binexp x \<le> binexp y"
proof -
  assume x: "0 < x" "x \<le> y"
  then have "2 powi binexp x < (2 :: rat) powi (binexp y + 1)"
    using binexp_bounds(1) [of x] binexp_bounds(2) [of y] by linarith
  then show ?thesis by (simp add: powi2_less_iff)
qed

section \<open>Rounding to a float\<close>

definition f32_quantum :: "rat \<Rightarrow> rat" where
  "f32_quantum x = 2 powi (max (binexp x) (- 126) - 23)"

lemma f32_round_pos: "0 < x \<Longrightarrow> f32_round x = of_int (round_half_even (x / f32_quantum x)) * f32_quantum x"
  by (simp add: f32_round_def f32_quantum_def Let_def)

lemma f32_round_0 [simp]: "f32_round 0 = 0"
  by (simp add: f32_round_def)

lemma f32_quantum_pos [simp]: "0 < f32_quantum x"
  by (simp add: f32_quantum_def)

lemma f32_round_nonneg: "0 \<le> x \<Longrightarrow> 0 \<le> f32_round x"
proof (cases "x = 0")
  case False
  assume "0 \<le> x"
  with False have x: "0 < x" by simp
  have "0 \<le> round_half_even (x / f32_quantum x)"
    using x by (intro round_half_even_ge) (simp add: order_less_imp_le)
  then show ?thesis by (simp add: f32_round_pos [OF x] order_less_imp_le)
qed simp

lemma powi2_shift: "(2 :: rat) powi (e + 1) = 2 ^ 24 * 2 powi (e - 23)"
proof -
  have "(2 :: rat) powi (24 + (e - 23)) = 2 powi 24 * 2 powi (e - 23)" by (rule power_int_add) simp
  moreover have "24 + (e - 23) = e + 1" by simp
  ultimately show ?thesis by (simp add: power_int_numeral)
qed

lemma powi2_shift': "(2 :: rat) powi e = 2 ^ 23 * 2 powi (e - 23)"
proof -
  have "(2 :: rat) powi (23 + (e - 23)) = 2 powi 23 * 2 powi (e - 23)" by (rule power_int_add) simp
  moreover have "23 + (e - 23) = e" by simp
  ultimately show ?thesis by (simp add: power_int_numeral)
qed

text \<open>A rounded value stays within its binade.\<close>

lemma f32_round_upper:
  assumes x: "0 < x" shows "f32_round x \<le> 2 powi (max (binexp x) (- 126) + 1)"
proof -
  let ?e = "max (binexp x) (- 126)"
  have "x < 2 powi (?e + 1)"
    using binexp_bounds(2) [OF x] power_int_increasing [of "binexp x + 1" "?e + 1" "2 :: rat"] by simp
  then have "x / f32_quantum x \<le> of_int (2 ^ 24)"
    unfolding f32_quantum_def by (simp add: divide_le_eq powi2_shift)
  then have "round_half_even (x / f32_quantum x) \<le> 2 ^ 24" by (rule round_half_even_le)
  then have "(of_int (round_half_even (x / f32_quantum x)) :: rat) \<le> of_int (2 ^ 24)" by (simp only: of_int_le_iff)
  then have "of_int (round_half_even (x / f32_quantum x)) * f32_quantum x \<le> 2 ^ 24 * f32_quantum x"
    by (intro mult_right_mono) (simp_all add: order_less_imp_le)
  also have "\<dots> = 2 powi (?e + 1)" by (simp add: powi2_shift f32_quantum_def)
  finally show ?thesis by (simp add: f32_round_pos [OF x])
qed

lemma f32_round_lower:
  assumes x: "0 < x" and e: "- 126 \<le> binexp x" shows "2 powi binexp x \<le> f32_round x"
proof -
  have "of_int (2 ^ 23) \<le> x / f32_quantum x"
    using binexp_bounds(1) [OF x] e unfolding f32_quantum_def by (simp add: le_divide_eq powi2_shift' [of "binexp x"])
  then have "2 ^ 23 \<le> round_half_even (x / f32_quantum x)" by (rule round_half_even_ge)
  then have "(of_int (2 ^ 23) :: rat) \<le> of_int (round_half_even (x / f32_quantum x))" by (simp only: of_int_le_iff)
  then have "2 ^ 23 * f32_quantum x \<le> of_int (round_half_even (x / f32_quantum x)) * f32_quantum x"
    by (intro mult_right_mono) (simp_all add: order_less_imp_le)
  moreover have "2 ^ 23 * f32_quantum x = 2 powi binexp x"
    using e by (simp add: f32_quantum_def powi2_shift' [of "binexp x"])
  ultimately show ?thesis by (simp only: f32_round_pos [OF x])
qed

lemma f32_round_mono:
  assumes "0 \<le> x" "x \<le> y" shows "f32_round x \<le> f32_round y"
proof (cases "x = 0")
  case True
  with assms show ?thesis by (simp add: f32_round_nonneg)
next
  case False
  with assms have x: "0 < x" and y: "0 < y" by simp_all
  have m: "binexp x \<le> binexp y" using x assms(2) by (rule binexp_mono)
  show ?thesis
  proof (cases "max (binexp x) (- 126) = max (binexp y) (- 126)")
    case True
    then have q: "f32_quantum x = f32_quantum y" by (simp add: f32_quantum_def)
    have "round_half_even (x / f32_quantum y) \<le> round_half_even (y / f32_quantum y)"
      using assms(2) by (intro round_half_even_mono divide_right_mono) (simp_all add: order_less_imp_le)
    then show ?thesis
      unfolding f32_round_pos [OF x] f32_round_pos [OF y] q
      by (intro mult_right_mono) (simp_all add: order_less_imp_le)
  next
    case False
    with m have l: "max (binexp x) (- 126) + 1 \<le> binexp y" "- 126 \<le> binexp y" by linarith+
    have "f32_round x \<le> 2 powi binexp y"
      using f32_round_upper [OF x] power_int_increasing [OF l(1), of "2 :: rat"] by simp
    then show ?thesis using f32_round_lower [OF y l(2)] by simp
  qed
qed

text \<open>A value that is a multiple of its quantum is exact; so are the integers below \<open>2 ^ 24\<close> and
  the powers of two of the normal range.\<close>

lemma f32_round_exact: "0 < x \<Longrightarrow> x = of_int n * f32_quantum x \<Longrightarrow> f32_round x = x"
  by (metis f32_quantum_pos f32_round_pos nonzero_mult_div_cancel_right order_less_irrefl round_half_even_int)

lemma f32_round_of_int:
  assumes "0 \<le> n" "n < 2 ^ 24" shows "f32_round (of_int n) = of_int n"
proof (cases "n = 0")
  case False
  with assms(1) have n: "0 < (of_int n :: rat)" by simp
  let ?e = "max (binexp (of_int n)) (- 126)"
  have "(of_int n :: rat) < of_int (2 ^ 24)" using assms(2) by (simp only: of_int_less_iff)
  then have "2 powi binexp (of_int n) < (2 :: rat) powi 24"
    using binexp_bounds(1) [OF n] by (simp add: power_int_numeral)
  then have e: "?e \<le> 23" unfolding powi2_less_iff by simp
  have "(2 :: rat) powi (23 - ?e) * 2 powi (?e - 23) = 1"
    by (simp add: power_int_add [symmetric])
  then have "(of_int n :: rat) = of_int (n * 2 ^ nat (23 - ?e)) * f32_quantum (of_int n)"
    using e by (simp add: f32_quantum_def power_int_def mult.assoc split: if_splits)
  with n show ?thesis by (rule f32_round_exact)
qed simp

lemma f32_round_of_nat: "n < 2 ^ 24 \<Longrightarrow> f32_round (of_nat n) = of_nat n"
  using f32_round_of_int [of "int n"] by simp

lemma binexp_powi2: "binexp (2 powi k) = k"
proof -
  have "(2 :: rat) powi binexp (2 powi k) < 2 powi (k + 1)" "(2 :: rat) powi k < 2 powi (binexp (2 powi k) + 1)"
    using binexp_bounds [of "2 powi k"] powi2_less_iff [of k "k + 1"] by (simp_all add: order_le_less_trans)
  then show ?thesis by (simp add: powi2_less_iff)
qed

lemma f32_round_powi2: "- 126 \<le> k \<Longrightarrow> f32_round (2 powi k) = 2 powi k"
proof -
  assume "- 126 \<le> k"
  then have "f32_quantum (2 powi k) = 2 powi (k - 23)" by (simp add: f32_quantum_def binexp_powi2)
  then have "2 powi k = of_int (2 ^ 23) * f32_quantum (2 powi k)" by (simp only: powi2_shift' [of k]) simp
  then show ?thesis by (rule f32_round_exact [OF powi2_pos])
qed

lemma f32_round_half [simp]: "f32_round (1 / 2) = 1 / 2"
  using f32_round_powi2 [of "- 1"] by (simp add: power_int_def field_simps)

lemma f32_round_quarter [simp]: "f32_round (1 / 4) = 1 / 4"
  using f32_round_powi2 [of "- 2"] by (simp add: power_int_def field_simps)

lemma f32_round_eighth [simp]: "f32_round (1 / 8) = 1 / 8"
  using f32_round_powi2 [of "- 3"] by (simp add: power_int_def field_simps)

lemma f32_round_numeral [simp]: "numeral n < (16777216 :: int) \<Longrightarrow> f32_round (numeral n) = numeral n"
  using f32_round_of_int [of "numeral n"] by simp

lemma f32_round_1 [simp]: "f32_round 1 = 1"
  using f32_round_of_int [of 1] by simp

text \<open>Dividing a small integer by at least one never rounds above it.\<close>

lemma f32_div_le:
  assumes "n < 2 ^ 24" "1 \<le> r" shows "f32_round (of_nat n / f32_round r) \<le> of_nat n"
proof -
  have "1 \<le> f32_round r" using f32_round_mono [of 1 r] assms(2) by simp
  then have "of_nat n / f32_round r \<le> (of_nat n :: rat)" by (simp add: divide_le_eq mult_le_cancel_left1)
  moreover have "0 \<le> of_nat n / f32_round r" using assms(2) by (simp add: f32_round_nonneg)
  ultimately show ?thesis using f32_round_mono [of "of_nat n / f32_round r" "of_nat n"] f32_round_of_nat [OF assms(1)] by simp
qed

text \<open>Rounding a rounded value changes nothing.\<close>

lemma f32_round_idem: "0 \<le> x \<Longrightarrow> f32_round (f32_round x) = f32_round x"
proof (cases "f32_round x = 0")
  case False
  assume "0 \<le> x"
  with False have x: "0 < x" and r: "0 < f32_round x" using f32_round_nonneg [of x] by (auto simp: less_le)
  let ?e = "max (binexp x) (- 126)" and ?r = "f32_round x"
  show ?thesis
  proof (cases "?r = 2 powi (?e + 1)")
    case True
    then show ?thesis by (simp only: f32_round_powi2)
  next
    case False
    then have "?r < 2 powi (?e + 1)" using f32_round_upper [OF x] by simp
    then have "2 powi binexp ?r < (2 :: rat) powi (?e + 1)" using binexp_bounds(1) [OF r] by simp
    then have up: "binexp ?r \<le> ?e" unfolding powi2_less_iff by simp
    have "?e \<le> max (binexp ?r) (- 126)"
    proof (cases "- 126 \<le> binexp x")
      case True
      then have "2 powi ?e < (2 :: rat) powi (binexp ?r + 1)"
        using f32_round_lower [OF x] binexp_bounds(2) [OF r] by simp
      then show ?thesis unfolding powi2_less_iff by simp
    qed simp
    with up have "max (binexp ?r) (- 126) = ?e" by linarith
    then have "f32_quantum ?r = f32_quantum x" by (simp add: f32_quantum_def)
    then show ?thesis using f32_round_exact [OF r] f32_round_pos [OF x] by metis
  qed
qed simp

end
