(* ===== verification/VideoQos.thy ===== *)
theory VideoQos
  imports Prelude Float32
begin

text \<open>
  The video quality-of-service controller of \<^verbatim>\<open>src/server/video_qos.rs\<close>: round-trip estimation
  (\<open>RttCalculator\<close>), the per-user delay history, and the controller that picks the frame rate
  and the bitrate ratio for all users. A \<open>HashMap\<close> is an association list whose order is the
  map's iteration order, \<open>Instant\<close> values are milliseconds handed in as \<open>now\<close>, \<open>u32\<close> values are
  naturals with the wrap-around written out, \<open>f32\<close> values are rationals rounded by \<open>f32_round\<close>
  after each operation. An operation answers \<open>None\<close> where the code would panic (\<open>clamp\<close> with its
  bounds swapped).
\<close>

unbundle bit_operations_syntax

section \<open>Constants\<close>

definition FPS :: nat where "FPS = 30"
definition MIN_FPS :: nat where "MIN_FPS = 1"
definition MAX_FPS :: nat where "MAX_FPS = 120"
definition INIT_FPS :: nat where "INIT_FPS = 15"
definition BR_BEST :: rat where "BR_BEST = f32_round (3 / 2)"
definition BR_BALANCED :: rat where "BR_BALANCED = f32_round (67 / 100)"
definition BR_SPEED :: rat where "BR_SPEED = f32_round (1 / 2)"
definition BR_MAX :: rat where "BR_MAX = f32_round 40"
definition BR_MIN :: rat where "BR_MIN = f32_round (1 / 5)"
definition BR_MIN_HIGH_RESOLUTION :: rat where "BR_MIN_HIGH_RESOLUTION = f32_round (1 / 10)"
definition MAX_BR_MULTIPLE :: rat where "MAX_BR_MULTIPLE = f32_round 1"
definition HISTORY_DELAY_LEN :: nat where "HISTORY_DELAY_LEN = 2"
definition ADJUST_RATIO_INTERVAL :: nat where "ADJUST_RATIO_INTERVAL = 3"
definition DYNAMIC_SCREEN_THRESHOLD :: nat where "DYNAMIC_SCREEN_THRESHOLD = 2"
definition DELAY_THRESHOLD_150MS :: nat where "DELAY_THRESHOLD_150MS = 150"
definition WINDOW_SAMPLES :: nat where "WINDOW_SAMPLES = 60"
definition MIN_SAMPLES :: nat where "MIN_SAMPLES = 10"
definition ALPHA :: rat where "ALPHA = f32_round (1 / 2)"

text \<open>\<open>x as f32\<close> for an unsigned \<open>x\<close>, \<open>x as u32\<close> for a float (truncating, saturating), and
  \<open>f32::clamp\<close>, which asserts that its bounds are ordered.\<close>

definition as_f32 :: "nat \<Rightarrow> rat" where
  "as_f32 n = f32_round (of_nat n)"

definition as_u32 :: "rat \<Rightarrow> nat" where
  "as_u32 x = min 4294967295 (nat \<lfloor>x\<rfloor>)"

definition clamp_f32 :: "rat \<Rightarrow> rat \<Rightarrow> rat \<Rightarrow> rat option" where
  "clamp_f32 x lo hi =
     (if hi < lo then None else Some (if x < lo then lo else if hi < x then hi else x))"

definition list_min :: "nat list \<Rightarrow> nat option" where
  "list_min xs = (case xs of [] \<Rightarrow> None | y # ys \<Rightarrow> Some (fold min ys y))"

definition list_max :: "nat list \<Rightarrow> nat option" where
  "list_max xs = (case xs of [] \<Rightarrow> None | y # ys \<Rightarrow> Some (fold max ys y))"

section \<open>Round-trip estimation\<close>

record rtt_calculator =
  min_rtt :: "nat option"
  window_min_rtt :: "nat option"
  smoothed_rtt :: "nat option"
  samples :: "nat list"

definition rtt_default :: rtt_calculator where
  "rtt_default = \<lparr>min_rtt = None, window_min_rtt = None, smoothed_rtt = None, samples = []\<rparr>"

definition rtt_update :: "rtt_calculator \<Rightarrow> nat \<Rightarrow> rtt_calculator" where
  "rtt_update r delay =
     (let r = r\<lparr>min_rtt := (case min_rtt r of
                   Some m \<Rightarrow> if delay < m then Some delay else Some m
                 | None \<Rightarrow> Some delay)\<rparr>;
          r = (if WINDOW_SAMPLES \<le> length (samples r) then r\<lparr>samples := tl (samples r)\<rparr> else r);
          r = r\<lparr>samples := samples r @ [delay]\<rparr>;
          r = r\<lparr>window_min_rtt := list_min (samples r)\<rparr>
      in if WINDOW_SAMPLES \<le> length (samples r) then
           (case (min_rtt r, window_min_rtt r) of
              (Some mn, Some window_min) \<Rightarrow>
                r\<lparr>smoothed_rtt := Some (as_u32 (f32_round
                    (f32_round (f32_round (1 - ALPHA) * as_f32 mn) + f32_round (ALPHA * as_f32 window_min))))\<rparr>
            | _ \<Rightarrow> r)
         else r)"

definition get_rtt :: "rtt_calculator \<Rightarrow> nat option" where
  "get_rtt r =
     (case smoothed_rtt r of
        Some rtt \<Rightarrow> Some rtt
      | None \<Rightarrow> if MIN_SAMPLES \<le> length (samples r) then min_rtt r else None)"

section \<open>Users and displays\<close>

record user_delay =
  response_delayed :: bool
  delay_history :: "nat list"
  delay_fps :: "nat option"
  rtt_calc :: rtt_calculator
  quick_increase_fps_count :: nat
  increase_fps_count :: nat

definition user_delay_default :: user_delay where
  "user_delay_default = \<lparr>response_delayed = False, delay_history = [], delay_fps = None,
     rtt_calc = rtt_default, quick_increase_fps_count = 0, increase_fps_count = 0\<rparr>"

definition add_delay :: "user_delay \<Rightarrow> nat \<Rightarrow> user_delay" where
  "add_delay d delay =
     (let d = d\<lparr>rtt_calc := rtt_update (rtt_calc d) delay\<rparr>;
          d = (if HISTORY_DELAY_LEN < length (delay_history d)
               then d\<lparr>delay_history := tl (delay_history d)\<rparr> else d)
      in d\<lparr>delay_history := delay_history d @ [delay]\<rparr>)"

definition avg_delay :: "user_delay \<Rightarrow> nat" where
  "avg_delay d =
     (let len = length (delay_history d) in
      if 0 < len then
        (let avg = wrap_u32 (sum_list (delay_history d)) div len in
         case get_rtt (rtt_calc d) of
           Some rtt \<Rightarrow> if rtt < avg then avg - rtt else avg
         | None \<Rightarrow> avg)
      else DELAY_THRESHOLD_150MS)"

datatype quality = Best | Balanced | Low | Custom rat

fun quality_ratio :: "quality \<Rightarrow> rat" where
  "quality_ratio Best = BR_BEST"
| "quality_ratio Balanced = BR_BALANCED"
| "quality_ratio Low = BR_SPEED"
| "quality_ratio (Custom v) = v"

record user_data =
  auto_adjust_fps :: "nat option"
  custom_fps :: "nat option"
  user_quality :: "(int \<times> quality) option"
  delay :: user_delay
  user_rec :: bool

definition user_data_default :: user_data where
  "user_data_default = \<lparr>auto_adjust_fps = None, custom_fps = None, user_quality = None,
     delay = user_delay_default, user_rec = False\<rparr>"

record display_data =
  send_counter :: nat
  support_changing_quality :: bool

definition display_data_default :: display_data where
  "display_data_default = \<lparr>send_counter = 0, support_changing_quality = False\<rparr>"

record video_qos =
  qfps :: nat
  qratio :: rat
  users :: "(int \<times> user_data) list"
  displays :: "(string \<times> display_data) list"
  bitrate_store :: nat
  adjust_ratio_instant :: nat
  abr_config :: bool
  new_user_instant :: nat

definition qos_default :: "nat \<Rightarrow> video_qos" where
  "qos_default now = \<lparr>qfps = FPS, qratio = BR_BALANCED, users = [], displays = [], bitrate_store = 0,
     adjust_ratio_instant = now, abr_config = True, new_user_instant = now\<rparr>"

section \<open>Reading the controller\<close>

definition qos_fps :: "video_qos \<Rightarrow> nat" where
  "qos_fps q = (let f = qfps q in if MIN_FPS \<le> f \<and> f \<le> MAX_FPS then f else FPS)"

definition spf :: "video_qos \<Rightarrow> rat" where
  "spf q = f32_round (1 / as_f32 (qos_fps q))"

definition store_bitrate :: "video_qos \<Rightarrow> nat \<Rightarrow> video_qos" where
  "store_bitrate q b = q\<lparr>bitrate_store := b\<rparr>"

definition bitrate :: "video_qos \<Rightarrow> nat" where
  "bitrate q = bitrate_store q"

definition qos_ratio :: "video_qos \<Rightarrow> rat \<times> video_qos" where
  "qos_ratio q =
     (let q = (if qratio q < BR_MIN_HIGH_RESOLUTION \<or> BR_MAX < qratio q
               then q\<lparr>qratio := BR_BALANCED\<rparr> else q)
      in (qratio q, q))"

definition qos_record :: "video_qos \<Rightarrow> bool" where
  "qos_record q = list_ex (\<lambda>u. user_rec (snd u)) (users q)"

definition in_vbr_state :: "video_qos \<Rightarrow> bool" where
  "in_vbr_state q \<longleftrightarrow> abr_config q \<and> list_all (\<lambda>d. support_changing_quality (snd d)) (displays q)"

definition user_fps :: "user_data \<Rightarrow> nat" where
  "user_fps u =
     (let f = (case custom_fps u of Some c \<Rightarrow> c | None \<Rightarrow> FPS) in
      case auto_adjust_fps u of
        Some a \<Rightarrow> if f = 0 \<or> a < f then a else f
      | None \<Rightarrow> f)"

definition highest_fps :: "video_qos \<Rightarrow> nat option" where
  "highest_fps q =
     clamp_nat (case list_min (filter (\<lambda>f. MIN_FPS \<le> f) (map (\<lambda>u. user_fps (snd u)) (users q))) of
                  Some f \<Rightarrow> f | None \<Rightarrow> FPS) MIN_FPS MAX_FPS"

text \<open>\<open>max_by\<close> answers the last of several maximal elements.\<close>

fun max_by_time :: "(int \<times> quality) list \<Rightarrow> (int \<times> quality) option" where
  "max_by_time [] = None"
| "max_by_time (x # xs) =
     (case max_by_time xs of None \<Rightarrow> Some x | Some y \<Rightarrow> if fst y < fst x then Some x else Some y)"

definition latest_quality :: "video_qos \<Rightarrow> quality" where
  "latest_quality q =
     (case max_by_time (List.map_filter (\<lambda>u. user_quality (snd u)) (users q)) of
        Some (_, v) \<Rightarrow> v | None \<Rightarrow> Balanced)"

section \<open>Adjusting frame rate and ratio\<close>

definition min_ratio :: "quality \<Rightarrow> rat option \<Rightarrow> rat" where
  "min_ratio target_quality ratio_1mbps =
     (case target_quality of
        Best \<Rightarrow>
          (let mn = f32_round (BR_BEST / f32_round (5 / 2));
               mn = (case ratio_1mbps of Some r \<Rightarrow> if r < mn then r else mn | None \<Rightarrow> mn)
           in max mn BR_MIN)
      | Balanced \<Rightarrow>
          (let mn = min (f32_round (BR_BALANCED / f32_round 2)) (f32_round (2 / 5));
               mn = (case ratio_1mbps of Some r \<Rightarrow> if r < mn then r else mn | None \<Rightarrow> mn)
           in max mn BR_MIN_HIGH_RESOLUTION)
      | Low \<Rightarrow> BR_MIN_HIGH_RESOLUTION
      | Custom _ \<Rightarrow> BR_MIN_HIGH_RESOLUTION)"

definition delay_ratio :: "nat \<Rightarrow> bool \<Rightarrow> rat \<Rightarrow> rat" where
  "delay_ratio max_delay dynamic_screen current_ratio =
     (if max_delay < 50 then
        (if dynamic_screen then f32_round (current_ratio * f32_round (115 / 100)) else current_ratio)
      else if max_delay < 100 then
        (if dynamic_screen then f32_round (current_ratio * f32_round (11 / 10)) else current_ratio)
      else if max_delay < DELAY_THRESHOLD_150MS then
        (if dynamic_screen then f32_round (current_ratio * f32_round (105 / 100)) else current_ratio)
      else if max_delay < 200 then f32_round (current_ratio * f32_round (95 / 100))
      else if max_delay < 300 then f32_round (current_ratio * f32_round (9 / 10))
      else if max_delay < 500 then f32_round (current_ratio * f32_round (85 / 100))
      else f32_round (current_ratio * f32_round (8 / 10)))"

definition adjust_ratio :: "nat \<Rightarrow> bool \<Rightarrow> video_qos \<Rightarrow> video_qos option" where
  "adjust_ratio now dynamic_screen q =
     (if \<not> in_vbr_state q then Some q
      else case list_max (map (\<lambda>u. avg_delay (delay (snd u))) (users q)) of
        None \<Rightarrow> Some q
      | Some max_delay \<Rightarrow>
        (let target_quality = latest_quality q;
             target_ratio = quality_ratio (latest_quality q);
             current_ratio = qratio q;
             current_bitrate = bitrate q;
             ratio_1mbps = (if 0 < current_bitrate
               then Some (max (f32_round (f32_round (current_ratio * f32_round 1000) / as_f32 current_bitrate))
                            BR_MIN_HIGH_RESOLUTION)
               else None);
             ratio_add_150kbps = (if 0 < current_bitrate
               then Some (f32_round (f32_round (as_f32 (wrap_u32 (current_bitrate + 150)) * current_ratio)
                            / as_f32 current_bitrate))
               else None);
             mn = min_ratio target_quality ratio_1mbps;
             mx = f32_round (target_ratio * MAX_BR_MULTIPLE);
             v = delay_ratio max_delay dynamic_screen current_ratio;
             v = (case ratio_add_150kbps of
                    Some r \<Rightarrow> if r < v \<and> current_ratio < r \<and> BR_SPEED \<le> current_ratio then r else v
                  | None \<Rightarrow> v)
         in map_option (\<lambda>r. q\<lparr>qratio := r, adjust_ratio_instant := now\<rparr>) (clamp_f32 v mn mx)))"

definition adjust_fps :: "nat \<Rightarrow> video_qos \<Rightarrow> video_qos option" where
  "adjust_fps now q =
     (case highest_fps q of
        None \<Rightarrow> None
      | Some highest \<Rightarrow>
        (let fps = (case list_min (map (\<lambda>u. case delay_fps (delay (snd u)) of Some f \<Rightarrow> f | None \<Rightarrow> INIT_FPS) (users q)) of
                      Some f \<Rightarrow> f | None \<Rightarrow> INIT_FPS);
             fps = (if list_ex (\<lambda>u. response_delayed (delay (snd u))) (users q) \<and> MIN_FPS + 1 < fps
                    then MIN_FPS + 1 else fps);
             fps = (if (now - new_user_instant q) div 1000 < 1 \<and> INIT_FPS < fps then INIT_FPS else fps)
         in map_option (\<lambda>f. q\<lparr>qfps := f\<rparr>) (clamp_nat fps MIN_FPS highest)))"

section \<open>User sessions\<close>

definition on_connection_open :: "nat \<Rightarrow> string \<Rightarrow> int \<Rightarrow> video_qos \<Rightarrow> video_qos" where
  "on_connection_open now enable_abr i q =
     q\<lparr>users := AList.update i user_data_default (users q), abr_config := (enable_abr \<noteq> ''N''),
       new_user_instant := now\<rparr>"

definition on_connection_close :: "nat \<Rightarrow> int \<Rightarrow> video_qos \<Rightarrow> video_qos" where
  "on_connection_close now i q =
     (let q = q\<lparr>users := AList.delete i (users q)\<rparr>
      in if users q = [] then qos_default now else q)"

definition user_custom_fps :: "int \<Rightarrow> nat \<Rightarrow> video_qos \<Rightarrow> video_qos" where
  "user_custom_fps i fps q =
     (if fps < MIN_FPS \<or> MAX_FPS < fps then q
      else case map_of (users q) i of
        Some u \<Rightarrow> q\<lparr>users := AList.update i (u\<lparr>custom_fps := Some fps\<rparr>) (users q)\<rparr>
      | None \<Rightarrow> q)"

definition user_auto_adjust_fps :: "int \<Rightarrow> nat \<Rightarrow> video_qos \<Rightarrow> video_qos" where
  "user_auto_adjust_fps i fps q =
     (if fps < MIN_FPS \<or> MAX_FPS < fps then q
      else case map_of (users q) i of
        Some u \<Rightarrow> q\<lparr>users := AList.update i (u\<lparr>auto_adjust_fps := Some fps\<rparr>) (users q)\<rparr>
      | None \<Rightarrow> q)"

text \<open>\<open>ImageQuality\<close> of the protocol: \<open>Low = 2\<close>, \<open>Balanced = 3\<close>, \<open>Best = 4\<close>. The argument is an \<open>i32\<close>.\<close>

definition convert_quality :: "int \<Rightarrow> quality option" where
  "convert_quality v =
     (if v = 3 then Some Balanced
      else if v = 2 then Some Low
      else if v = 4 then Some Best
      else map_option Custom
        (clamp_f32 (f32_round (f32_round (of_int (((drop_bit 8 v) AND 0xFFF) * 2)) / f32_round 100)) BR_MIN BR_MAX))"

definition user_image_quality :: "int \<Rightarrow> int \<Rightarrow> int \<Rightarrow> video_qos \<Rightarrow> video_qos option" where
  "user_image_quality time i image_quality q =
     (case convert_quality image_quality of
        None \<Rightarrow> None
      | Some v \<Rightarrow>
        (case map_of (users q) i of
           Some u \<Rightarrow>
             (let q = q\<lparr>users := AList.update i (u\<lparr>user_quality := Some (time, v)\<rparr>) (users q)\<rparr>
              in Some (q\<lparr>qratio := quality_ratio (latest_quality q)\<rparr>))
         | None \<Rightarrow> Some q))"

definition user_record :: "int \<Rightarrow> bool \<Rightarrow> video_qos \<Rightarrow> video_qos" where
  "user_record i v q =
     (case map_of (users q) i of
        Some u \<Rightarrow> q\<lparr>users := AList.update i (u\<lparr>user_rec := v\<rparr>) (users q)\<rparr>
      | None \<Rightarrow> q)"

text \<open>The frame rate picked for one user from the delay just measured, before the counters that
  try a further increase.\<close>

definition min_normal_fps :: "rat \<Rightarrow> nat \<times> nat" where
  "min_normal_fps target_ratio =
     (if BR_BEST \<le> target_ratio then (8, 16)
      else if BR_BALANCED \<le> target_ratio then (10, 20)
      else (12, 24))"

definition delay_step_fps :: "nat \<Rightarrow> nat \<Rightarrow> nat \<Rightarrow> nat \<Rightarrow> user_delay \<Rightarrow> nat \<Rightarrow> nat \<times> user_delay" where
  "delay_step_fps min_fps normal_fps old_avg avg d fps =
     (if avg < 50 then
        (let d = d\<lparr>quick_increase_fps_count := quick_increase_fps_count d + 1\<rparr>;
             step = (if fps < normal_fps then 1 else 0);
             (step, d) = (if 3 \<le> quick_increase_fps_count d
                          then (5, d\<lparr>quick_increase_fps_count := 0\<rparr>) else (step, d))
         in (max min_fps (wrap_u32 (fps + step)), d))
      else if avg < 100 then
        (let step = (if avg < old_avg then (if fps < normal_fps then 1 else 0) else 0)
         in (max min_fps (wrap_u32 (fps + step)), d))
      else if avg < DELAY_THRESHOLD_150MS then (max min_fps fps, d)
      else
        (let dividend_ms = DELAY_THRESHOLD_150MS * min_fps;
             devide_fps = as_u32 (of_int \<lceil>f32_round (as_f32 fps
                 / f32_round (as_f32 avg / as_f32 DELAY_THRESHOLD_150MS))\<rceil>)
         in if avg < 200 then (max min_fps devide_fps, d)
            else if avg < 300 then (min min_fps devide_fps, d)
            else if avg < 600 then (dividend_ms div avg, d)
            else (min (dividend_ms div avg) devide_fps, d)))"

definition network_user_delay :: "nat \<Rightarrow> nat \<Rightarrow> nat \<Rightarrow> nat \<Rightarrow> user_delay \<Rightarrow> nat \<times> user_delay" where
  "network_user_delay min_fps normal_fps new_delay fps0 d0 =
     (let old_avg = avg_delay d0;
          d = add_delay d0 (max new_delay 10);
          avg = max (avg_delay d) 10;
          (fps, d) = delay_step_fps min_fps normal_fps old_avg avg d fps0;
          d = (if avg < DELAY_THRESHOLD_150MS then d\<lparr>increase_fps_count := increase_fps_count d + 1\<rparr>
               else d\<lparr>increase_fps_count := 0\<rparr>);
          (fps, d) = (if 3 \<le> increase_fps_count d
                      then (wrap_u32 (fps + 1), d\<lparr>increase_fps_count := 0\<rparr>) else (fps, d));
          d = (if 50 < avg then d\<lparr>quick_increase_fps_count := 0\<rparr> else d)
      in (fps, d))"

definition user_network_delay :: "nat \<Rightarrow> bool \<Rightarrow> int \<Rightarrow> nat \<Rightarrow> video_qos \<Rightarrow> video_qos option" where
  "user_network_delay now linux i new_delay q =
     (case highest_fps q of
        None \<Rightarrow> None
      | Some highest \<Rightarrow>
        (let (min_fps, normal_fps) = min_normal_fps (quality_ratio (latest_quality q)) in
         case map_of (users q) i of
           None \<Rightarrow> adjust_fps now q
         | Some u \<Rightarrow>
             (let (fps, d) = network_user_delay min_fps normal_fps new_delay (qfps q) (delay u)
              in case clamp_nat fps MIN_FPS highest of
                   None \<Rightarrow> None
                 | Some fps \<Rightarrow>
                   (let adjust = (delay_fps d = None);
                        d = d\<lparr>delay_fps := Some fps\<rparr>;
                        q = q\<lparr>users := AList.update i (u\<lparr>delay := d\<rparr>) (users q)\<rparr>
                    in case adjust_fps now q of
                         None \<Rightarrow> None
                       | Some q \<Rightarrow> if adjust \<and> \<not> linux then adjust_ratio now False q else Some q))))"

definition user_delay_response_elapsed :: "nat \<Rightarrow> int \<Rightarrow> nat \<Rightarrow> video_qos \<Rightarrow> video_qos option" where
  "user_delay_response_elapsed now i elapsed q =
     (case map_of (users q) i of
        None \<Rightarrow> Some q
      | Some u \<Rightarrow>
          (let d = (delay u)\<lparr>response_delayed := (2000 < elapsed)\<rparr> in
           if response_delayed d
           then adjust_fps now (q\<lparr>users := AList.update i (u\<lparr>delay := add_delay d (wrap_u32 elapsed)\<rparr>) (users q)\<rparr>)
           else Some (q\<lparr>users := AList.update i (u\<lparr>delay := d\<rparr>) (users q)\<rparr>)))"

section \<open>Displays\<close>

definition set_support_changing_quality :: "string \<Rightarrow> bool \<Rightarrow> video_qos \<Rightarrow> video_qos" where
  "set_support_changing_quality n support q =
     (case map_of (displays q) n of
        Some d \<Rightarrow> q\<lparr>displays := AList.update n (d\<lparr>support_changing_quality := support\<rparr>) (displays q)\<rparr>
      | None \<Rightarrow> q)"

definition new_display :: "string \<Rightarrow> video_qos \<Rightarrow> video_qos" where
  "new_display n q = q\<lparr>displays := AList.update n display_data_default (displays q)\<rparr>"

definition remove_display :: "string \<Rightarrow> video_qos \<Rightarrow> video_qos" where
  "remove_display n q = q\<lparr>displays := AList.delete n (displays q)\<rparr>"

definition update_display_data :: "nat \<Rightarrow> string \<Rightarrow> nat \<Rightarrow> video_qos \<Rightarrow> video_qos option" where
  "update_display_data now n counter q =
     (let q = (case map_of (displays q) n of
                 Some d \<Rightarrow> q\<lparr>displays := AList.update n (d\<lparr>send_counter := send_counter d + counter\<rparr>) (displays q)\<rparr>
               | None \<Rightarrow> q)
      in case adjust_fps now q of
           None \<Rightarrow> None
         | Some q \<Rightarrow>
             if in_vbr_state q then
               (if ADJUST_RATIO_INTERVAL \<le> (now - adjust_ratio_instant q) div 1000 then
                  (let dynamic_screen = list_ex
                         (\<lambda>d. ADJUST_RATIO_INTERVAL * DYNAMIC_SCREEN_THRESHOLD \<le> send_counter (snd d)) (displays q);
                       q = q\<lparr>displays := map (\<lambda>(m, d). (m, d\<lparr>send_counter := 0\<rparr>)) (displays q)\<rparr>
                   in adjust_ratio now dynamic_screen q)
                else Some q)
             else Some (q\<lparr>qratio := quality_ratio (latest_quality q)\<rparr>))"

section \<open>Constants and helpers\<close>

lemma list_min_Some: "list_min xs = Some m \<Longrightarrow> m \<in> set xs \<and> (\<forall>x \<in> set xs. m \<le> x)"
proof (cases xs)
  case (Cons y ys)
  assume "list_min xs = Some m"
  then have "m = Min (set xs)" using Cons Min.set_eq_fold [of y ys] by (simp add: list_min_def)
  then show ?thesis using Cons by (metis List.finite_set Min_in Min_le list.set_intros(1) empty_iff)
qed (simp add: list_min_def)

lemma list_max_Some: "list_max xs = Some m \<Longrightarrow> m \<in> set xs \<and> (\<forall>x \<in> set xs. x \<le> m)"
proof (cases xs)
  case (Cons y ys)
  assume "list_max xs = Some m"
  then have "m = Max (set xs)" using Cons Max.set_eq_fold [of y ys] by (simp add: list_max_def)
  then show ?thesis using Cons by (metis List.finite_set Max_in Max_ge list.set_intros(1) empty_iff)
qed (simp add: list_max_def)

lemma list_min_None [simp]: "list_min xs = None \<longleftrightarrow> xs = []"
  by (simp add: list_min_def split: list.splits)

lemma list_max_None [simp]: "list_max xs = None \<longleftrightarrow> xs = []"
  by (simp add: list_max_def split: list.splits)

lemma clamp_f32_Some [simp]: "lo \<le> hi \<Longrightarrow> clamp_f32 x lo hi = Some (max lo (min hi x))"
  by (auto simp: clamp_f32_def)

lemma clamp_f32_range: "clamp_f32 x lo hi = Some y \<Longrightarrow> lo \<le> y \<and> y \<le> hi"
  by (auto simp: clamp_f32_def split: if_splits)

lemma br_bounds:
  "1 \<le> BR_BEST" "BR_BEST \<le> 2" "1 / 2 \<le> BR_BALANCED" "BR_BALANCED \<le> 1" "BR_SPEED = 1 / 2"
  "BR_MAX = 40" "1 / 8 \<le> BR_MIN" "BR_MIN \<le> 1 / 4" "0 \<le> BR_MIN_HIGH_RESOLUTION" "BR_MIN_HIGH_RESOLUTION \<le> 1 / 8"
  using f32_round_mono [of 1 "3 / 2"] f32_round_mono [of "3 / 2" 2] f32_round_mono [of "1 / 2" "67 / 100"]
    f32_round_mono [of "67 / 100" 1] f32_round_mono [of "1 / 8" "1 / 5"] f32_round_mono [of "1 / 5" "1 / 4"]
    f32_round_mono [of "1 / 10" "1 / 8"] f32_round_nonneg [of "1 / 10"]
  by (simp_all add: BR_BEST_def BR_BALANCED_def BR_SPEED_def BR_MAX_def BR_MIN_def BR_MIN_HIGH_RESOLUTION_def)

lemma br_rounded:
  "f32_round BR_BEST = BR_BEST" "f32_round BR_BALANCED = BR_BALANCED" "f32_round BR_SPEED = BR_SPEED"
  "f32_round BR_MIN = BR_MIN" "f32_round BR_MAX = BR_MAX" "f32_round BR_MIN_HIGH_RESOLUTION = BR_MIN_HIGH_RESOLUTION"
  by (simp_all add: BR_BEST_def BR_BALANCED_def BR_SPEED_def BR_MIN_def BR_MAX_def
      BR_MIN_HIGH_RESOLUTION_def f32_round_idem)

lemmas fps_consts = FPS_def MIN_FPS_def MAX_FPS_def INIT_FPS_def

section \<open>The invariant\<close>

definition fps_ok :: "nat \<Rightarrow> bool" where
  "fps_ok f \<longleftrightarrow> 1 \<le> f \<and> f \<le> 120"

fun quality_ok :: "quality \<Rightarrow> bool" where
  "quality_ok (Custom v) \<longleftrightarrow> BR_MIN \<le> v \<and> v \<le> BR_MAX \<and> f32_round v = v"
| "quality_ok _ \<longleftrightarrow> True"

definition user_ok :: "user_data \<Rightarrow> bool" where
  "user_ok u \<longleftrightarrow> pred_option fps_ok (custom_fps u) \<and> pred_option fps_ok (auto_adjust_fps u) \<and>
     pred_option (\<lambda>tv. quality_ok (snd tv)) (user_quality u) \<and> pred_option fps_ok (delay_fps (delay u)) \<and>
     length (delay_history (delay u)) \<le> 3 \<and> length (samples (rtt_calc (delay u))) \<le> 60"

definition qos_inv :: "video_qos \<Rightarrow> bool" where
  "qos_inv q \<longleftrightarrow> all_vals user_ok (users q) \<and> distinct (map fst (users q)) \<and> distinct (map fst (displays q)) \<and>
     fps_ok (qfps q) \<and> BR_MIN_HIGH_RESOLUTION \<le> qratio q \<and> qratio q \<le> BR_MAX"

lemma highest_fps_ok: "\<exists>h. highest_fps q = Some h \<and> fps_ok h"
  by (auto simp: highest_fps_def fps_ok_def fps_consts)

lemma quality_ratio_ok:
  "quality_ok v \<Longrightarrow> BR_MIN \<le> quality_ratio v \<and> quality_ratio v \<le> BR_MAX \<and> f32_round (quality_ratio v) = quality_ratio v"
  using br_bounds br_rounded by (cases v) auto

lemma max_by_time_mem: "max_by_time xs = Some x \<Longrightarrow> x \<in> set xs"
  by (induction xs arbitrary: x) (auto split: option.splits if_splits)

lemma latest_quality_ok: "all_vals user_ok (users q) \<Longrightarrow> quality_ok (latest_quality q)"
  by (fastforce simp: latest_quality_def all_vals_def user_ok_def List.map_filter_def
      split: option.splits dest!: max_by_time_mem)

lemma min_ratio_bounds:
  assumes "quality_ok v"
  shows "BR_MIN_HIGH_RESOLUTION \<le> min_ratio v r" and "min_ratio v r \<le> quality_ratio v"
proof -
  have d: "f32_round (BR_BEST / f32_round (5 / 2)) \<le> 1"
  proof -
    have "2 \<le> f32_round (5 / 2)" using f32_round_mono [of 2 "5 / 2"] by simp
    then have "BR_BEST / f32_round (5 / 2) \<le> 1" using br_bounds(2) by (simp add: divide_le_eq)
    moreover have "0 \<le> BR_BEST / f32_round (5 / 2)" using br_bounds(1) f32_round_nonneg [of "5 / 2"] by simp
    ultimately show ?thesis using f32_round_mono [of _ 1] by fastforce
  qed
  have h: "f32_round (BR_BALANCED / 2) \<le> 1 / 2"
    using br_bounds(3,4) f32_round_mono [of "BR_BALANCED / 2" "1 / 2"] by simp
  show "BR_MIN_HIGH_RESOLUTION \<le> min_ratio v r"
    using br_bounds by (cases v; cases r) (auto simp: min_ratio_def Let_def)
  show "min_ratio v r \<le> quality_ratio v"
    using br_bounds d h assms by (cases v; cases r) (auto simp: min_ratio_def Let_def)
qed

section \<open>Every operation keeps the invariant and none panics\<close>

lemma adjust_fps_frame:
  assumes "all_vals user_ok (users q)"
  shows "\<exists>f. adjust_fps now q = Some (q\<lparr>qfps := f\<rparr>) \<and> fps_ok f"
proof -
  obtain h where h: "highest_fps q = Some h" "fps_ok h" using highest_fps_ok by blast
  show ?thesis using h(2) by (auto simp: adjust_fps_def h(1) Let_def fps_ok_def fps_consts)
qed

lemma adjust_fps_inv: "qos_inv q \<Longrightarrow> \<exists>q'. adjust_fps now q = Some q' \<and> qos_inv q'"
  using adjust_fps_frame [of q now] by (auto simp: qos_inv_def)

lemma max_ratio_eq: "quality_ok v \<Longrightarrow> f32_round (quality_ratio v * MAX_BR_MULTIPLE) = quality_ratio v"
  using quality_ratio_ok [of v] by (simp add: MAX_BR_MULTIPLE_def)

lemma adjust_ratio_frame:
  assumes "all_vals user_ok (users q)"
  shows "adjust_ratio now dyn q = Some q \<or>
    (\<exists>r. adjust_ratio now dyn q = Some (q\<lparr>qratio := r, adjust_ratio_instant := now\<rparr>) \<and>
      BR_MIN_HIGH_RESOLUTION \<le> r \<and> r \<le> quality_ratio (latest_quality q))"
proof -
  let ?v = "latest_quality q"
  have v: "quality_ok ?v" using assms by (rule latest_quality_ok)
  have "\<exists>r. map_option (\<lambda>r. q\<lparr>qratio := r, adjust_ratio_instant := now\<rparr>)
        (clamp_f32 x (min_ratio ?v y) (f32_round (quality_ratio ?v * MAX_BR_MULTIPLE)))
      = Some (q\<lparr>qratio := r, adjust_ratio_instant := now\<rparr>)
      \<and> BR_MIN_HIGH_RESOLUTION \<le> r \<and> r \<le> quality_ratio ?v" for x y
    using min_ratio_bounds [OF v, of y] by (auto simp: max_ratio_eq [OF v])
  then show ?thesis
    unfolding adjust_ratio_def Let_def by (simp split: option.splits)
qed

lemma adjust_ratio_inv: "qos_inv q \<Longrightarrow> \<exists>q'. adjust_ratio now dyn q = Some q' \<and> qos_inv q'"
proof -
  assume q: "qos_inv q"
  then have "quality_ratio (latest_quality q) \<le> BR_MAX"
    using quality_ratio_ok [OF latest_quality_ok] by (simp add: qos_inv_def)
  with q adjust_ratio_frame [of q now dyn] show ?thesis by (auto simp: qos_inv_def)
qed

lemma latest_ratio_inv: "qos_inv q \<Longrightarrow> qos_inv (q\<lparr>qratio := quality_ratio (latest_quality q)\<rparr>)"
  using quality_ratio_ok [OF latest_quality_ok, of q] br_bounds by (auto simp: qos_inv_def)

lemma users_update_inv:
  "qos_inv q \<Longrightarrow> user_ok u \<Longrightarrow> qos_inv (q\<lparr>users := AList.update i u (users q)\<rparr>)"
  by (auto simp: qos_inv_def AList.distinct_update)

lemma user_lookup_ok: "qos_inv q \<Longrightarrow> map_of (users q) i = Some u \<Longrightarrow> user_ok u"
  by (auto simp: qos_inv_def dest: all_vals_map_of)

lemma user_ok_default: "user_ok user_data_default"
  by (simp add: user_ok_def user_data_default_def user_delay_default_def rtt_default_def)

lemma qos_inv_default: "qos_inv (qos_default now)"
  using br_bounds by (auto simp: qos_inv_def qos_default_def fps_ok_def fps_consts)

lemma add_delay_simps [simp]:
  "delay_fps (add_delay d x) = delay_fps d" "response_delayed (add_delay d x) = response_delayed d"
  "quick_increase_fps_count (add_delay d x) = quick_increase_fps_count d"
  "increase_fps_count (add_delay d x) = increase_fps_count d"
  by (simp_all add: add_delay_def Let_def)

lemma add_delay_lengths:
  "length (delay_history d) \<le> 3 \<Longrightarrow> length (delay_history (add_delay d x)) \<le> 3"
  "length (samples (rtt_calc d)) \<le> 60 \<Longrightarrow> length (samples (rtt_calc (add_delay d x))) \<le> 60"
  by (auto simp: add_delay_def rtt_update_def Let_def HISTORY_DELAY_LEN_def WINDOW_SAMPLES_def
      split: option.splits)

lemma delay_step_frame:
  assumes "delay_step_fps a b c e d f = (f', d')"
  shows "delay_fps d' = delay_fps d" "delay_history d' = delay_history d" "rtt_calc d' = rtt_calc d"
    "increase_fps_count d' = increase_fps_count d"
  using assms by (auto simp: delay_step_fps_def Let_def split: if_splits)

lemma network_user_delay_frame:
  assumes "network_user_delay mf nf dl qf d0 = (f, d)"
  shows "delay_fps d = delay_fps d0" "delay_history d = delay_history (add_delay d0 (max dl 10))"
    "rtt_calc d = rtt_calc (add_delay d0 (max dl 10))"
proof -
  obtain f1 d1 where st: "delay_step_fps mf nf (avg_delay d0) (max (avg_delay (add_delay d0 (max dl 10))) 10)
      (add_delay d0 (max dl 10)) qf = (f1, d1)" by fastforce
  note fr = delay_step_frame [OF st]
  have "delay_fps d = delay_fps d1" "delay_history d = delay_history d1" "rtt_calc d = rtt_calc d1"
    using assms unfolding network_user_delay_def Let_def st by (auto split: if_splits)
  with fr show "delay_fps d = delay_fps d0" "delay_history d = delay_history (add_delay d0 (max dl 10))"
    "rtt_calc d = rtt_calc (add_delay d0 (max dl 10))" by simp_all
qed

lemma user_network_delay_known:
  assumes h: "highest_fps q = Some h" and m: "min_normal_fps (quality_ratio (latest_quality q)) = (mf, nf)"
    and u: "map_of (users q) i = Some u" and n: "network_user_delay mf nf dl (qfps q) (delay u) = (f, d)"
  shows "user_network_delay now linux i dl q =
     (case adjust_fps now (q\<lparr>users := AList.update i (u\<lparr>delay := d\<lparr>delay_fps := Some (max 1 (min h f))\<rparr>\<rparr>) (users q)\<rparr>) of
        None \<Rightarrow> None
      | Some q' \<Rightarrow> if delay_fps d = None \<and> \<not> linux then adjust_ratio now False q' else Some q')"
proof -
  have "1 \<le> h" using highest_fps_ok [of q] h by (auto simp: fps_ok_def)
  then show ?thesis
    by (simp add: user_network_delay_def h m u n MIN_FPS_def Let_def)
qed

lemma network_user_ok:
  assumes "user_ok u" "fps_ok h" "network_user_delay mf nf dl qf (delay u) = (f, d)"
  shows "user_ok (u\<lparr>delay := d\<lparr>delay_fps := Some (max 1 (min h f))\<rparr>\<rparr>)"
  using assms network_user_delay_frame [OF assms(3)] add_delay_lengths
  by (simp add: user_ok_def fps_ok_def min_le_iff_disj)

lemma user_network_delay_inv:
  assumes q: "qos_inv q" shows "\<exists>q'. user_network_delay now linux i dl q = Some q' \<and> qos_inv q'"
proof -
  obtain h where h: "highest_fps q = Some h" "fps_ok h" using highest_fps_ok by blast
  obtain mf nf where m: "min_normal_fps (quality_ratio (latest_quality q)) = (mf, nf)" by fastforce
  show ?thesis
  proof (cases "map_of (users q) i")
    case None
    then show ?thesis using adjust_fps_inv [OF q] by (simp add: user_network_delay_def h m)
  next
    case (Some u)
    obtain f d where n: "network_user_delay mf nf dl (qfps q) (delay u) = (f, d)" by fastforce
    have "qos_inv (q\<lparr>users := AList.update i (u\<lparr>delay := d\<lparr>delay_fps := Some (max 1 (min h f))\<rparr>\<rparr>) (users q)\<rparr>)"
      using users_update_inv [OF q network_user_ok [OF user_lookup_ok [OF q Some] h(2) n]] .
    from adjust_fps_inv [OF this, of now] adjust_ratio_inv show ?thesis
      unfolding user_network_delay_known [OF h(1) m Some n] by auto
  qed
qed

lemma user_delay_response_elapsed_inv:
  assumes q: "qos_inv q" shows "\<exists>q'. user_delay_response_elapsed now i el q = Some q' \<and> qos_inv q'"
proof (cases "map_of (users q) i")
  case (Some u)
  have u: "user_ok u" using user_lookup_ok [OF q Some] .
  have "user_ok (u\<lparr>delay := (delay u)\<lparr>response_delayed := b\<rparr>\<rparr>)" for b
    using u by (simp add: user_ok_def)
  moreover have "user_ok (u\<lparr>delay := add_delay ((delay u)\<lparr>response_delayed := True\<rparr>) x\<rparr>)" for x
    using u add_delay_lengths [of "(delay u)\<lparr>response_delayed := True\<rparr>"] by (simp add: user_ok_def)
  ultimately show ?thesis
    using Some q adjust_fps_inv users_update_inv
    by (simp add: user_delay_response_elapsed_def Let_def)
qed (simp add: user_delay_response_elapsed_def q)

lemma convert_quality_ok: "\<exists>v. convert_quality x = Some v \<and> quality_ok v"
proof -
  let ?b = "f32_round (f32_round (of_int (((drop_bit 8 x) AND 0xFFF) * 2)) / f32_round 100)"
  have b: "f32_round ?b = ?b"
    by (rule f32_round_idem) (simp add: f32_round_nonneg)
  have le: "BR_MIN \<le> BR_MAX" using br_bounds by simp
  have "f32_round (max BR_MIN (min BR_MAX ?b)) = max BR_MIN (min BR_MAX ?b)"
    using b br_rounded by (simp add: max_def min_def)
  with le have "quality_ok (Custom (max BR_MIN (min BR_MAX ?b)))" by simp
  then show ?thesis unfolding convert_quality_def using le by simp
qed

lemma user_image_quality_inv:
  assumes q: "qos_inv q" shows "\<exists>q'. user_image_quality t i v q = Some q' \<and> qos_inv q'"
proof -
  obtain w where w: "convert_quality v = Some w" "quality_ok w" using convert_quality_ok by blast
  show ?thesis
  proof (cases "map_of (users q) i")
    case (Some u)
    have "user_ok (u\<lparr>user_quality := Some (t, w)\<rparr>)"
      using user_lookup_ok [OF q Some] w(2) by (simp add: user_ok_def)
    from latest_ratio_inv [OF users_update_inv [OF q this]] show ?thesis
      by (simp add: user_image_quality_def w(1) Some Let_def)
  qed (simp add: user_image_quality_def w(1) q)
qed

lemma simple_user_inv:
  assumes q: "qos_inv q"
  shows "qos_inv (user_custom_fps i f q)" "qos_inv (user_auto_adjust_fps i f q)" "qos_inv (user_record i b q)"
    "qos_inv (on_connection_open now abr i q)" "qos_inv (on_connection_close now i q)"
    "qos_inv (store_bitrate q n)" "qos_inv (snd (qos_ratio q))"
proof -
  have fps: "\<not> (f < MIN_FPS \<or> MAX_FPS < f) \<Longrightarrow> fps_ok f" by (simp add: fps_ok_def fps_consts)
  show "qos_inv (user_custom_fps i f q)"
    using user_lookup_ok [OF q] fps
    by (auto simp: user_custom_fps_def q user_ok_def split: option.splits intro!: users_update_inv)
  show "qos_inv (user_auto_adjust_fps i f q)"
    using user_lookup_ok [OF q] fps
    by (auto simp: user_auto_adjust_fps_def q user_ok_def split: option.splits intro!: users_update_inv)
  show "qos_inv (user_record i b q)"
    using user_lookup_ok [OF q]
    by (auto simp: user_record_def q user_ok_def split: option.splits intro!: users_update_inv)
  show "qos_inv (on_connection_open now abr i q)"
    using users_update_inv [OF q user_ok_default] by (simp add: on_connection_open_def qos_inv_def)
  show "qos_inv (on_connection_close now i q)"
    using q by (auto simp: on_connection_close_def Let_def qos_inv_default)
      (auto simp: qos_inv_def AList.distinct_delete)
  show "qos_inv (store_bitrate q n)" using q by (simp add: store_bitrate_def qos_inv_def)
  show "qos_inv (snd (qos_ratio q))" using q by (auto simp: qos_ratio_def Let_def qos_inv_def)
qed

lemma displays_inv:
  "qos_inv q \<Longrightarrow> distinct (map fst ds) \<Longrightarrow> qos_inv (q\<lparr>displays := ds\<rparr>)"
  by (simp add: qos_inv_def)

lemma simple_display_inv:
  assumes q: "qos_inv q"
  shows "qos_inv (new_display n q)" "qos_inv (remove_display n q)" "qos_inv (set_support_changing_quality n b q)"
  using q by (auto simp: new_display_def remove_display_def set_support_changing_quality_def qos_inv_def
      AList.distinct_update AList.distinct_delete split: option.splits)

lemma update_display_data_inv:
  assumes q: "qos_inv q" shows "\<exists>q'. update_display_data now n c q = Some q' \<and> qos_inv q'"
proof -
  let ?q1 = "case map_of (displays q) n of
      Some d \<Rightarrow> q\<lparr>displays := AList.update n (d\<lparr>send_counter := send_counter d + c\<rparr>) (displays q)\<rparr>
    | None \<Rightarrow> q"
  have "qos_inv ?q1"
    using q by (auto split: option.splits intro!: displays_inv simp: AList.distinct_update qos_inv_def)
  then obtain q2 where a: "adjust_fps now ?q1 = Some q2" and q2: "qos_inv q2" using adjust_fps_inv by blast
  have "distinct (map fst (map (\<lambda>(m, d). (m, d\<lparr>send_counter := 0\<rparr>)) (displays q2)))"
    using q2 by (simp add: qos_inv_def case_prod_unfold comp_def)
  then have "qos_inv (q2\<lparr>displays := map (\<lambda>(m, d). (m, d\<lparr>send_counter := 0\<rparr>)) (displays q2)\<rparr>)"
    using q2 by (rule displays_inv [rotated])
  then show ?thesis
    using q2 latest_ratio_inv [OF q2] adjust_ratio_inv
    by (simp add: update_display_data_def Let_def a)
qed

section \<open>Properties\<close>

text \<open>Everything the rest of the server does to the controller, as one step.\<close>

datatype qos_op =
    Open nat string int | Close nat int | CustomFps int nat | AutoFps int nat | SetQuality int int int
  | SetRecord int bool | NetworkDelay nat bool int nat | ResponseElapsed nat int nat
  | NewDisplay string | RemoveDisplay string | SupportChanging string bool | UpdateDisplay nat string nat
  | StoreBitrate nat | ReadRatio

fun qos_step :: "qos_op \<Rightarrow> video_qos \<Rightarrow> video_qos option" where
  "qos_step (Open now abr i) q = Some (on_connection_open now abr i q)"
| "qos_step (Close now i) q = Some (on_connection_close now i q)"
| "qos_step (CustomFps i f) q = Some (user_custom_fps i f q)"
| "qos_step (AutoFps i f) q = Some (user_auto_adjust_fps i f q)"
| "qos_step (SetQuality t i v) q = user_image_quality t i v q"
| "qos_step (SetRecord i b) q = Some (user_record i b q)"
| "qos_step (NetworkDelay now linux i d) q = user_network_delay now linux i d q"
| "qos_step (ResponseElapsed now i e) q = user_delay_response_elapsed now i e q"
| "qos_step (NewDisplay n) q = Some (new_display n q)"
| "qos_step (RemoveDisplay n) q = Some (remove_display n q)"
| "qos_step (SupportChanging n b) q = Some (set_support_changing_quality n b q)"
| "qos_step (UpdateDisplay now n c) q = update_display_data now n c q"
| "qos_step (StoreBitrate b) q = Some (store_bitrate q b)"
| "qos_step ReadRatio q = Some (snd (qos_ratio q))"

fun qos_run :: "qos_op list \<Rightarrow> video_qos \<Rightarrow> video_qos option" where
  "qos_run [] q = Some q"
| "qos_run (x # xs) q = Option.bind (qos_step x q) (qos_run xs)"

lemma qos_step_inv: "qos_inv q \<Longrightarrow> \<exists>q'. qos_step x q = Some q' \<and> qos_inv q'"
  by (cases x) (simp_all add: simple_user_inv simple_display_inv user_image_quality_inv
      user_network_delay_inv user_delay_response_elapsed_inv update_display_data_inv)

text \<open>(C11) Whatever sequence of connections, measurements and settings the controller sees, no step
  panics, and afterwards the frame rate is within 1 and 120, the bitrate ratio within its limits, and
  every stored wish of a user is within range, with histories of bounded length.\<close>

theorem qos_run_safe: "\<exists>q. qos_run xs (qos_default t0) = Some q \<and> qos_inv q"
proof -
  have "qos_inv p \<Longrightarrow> \<exists>q. qos_run xs p = Some q \<and> qos_inv q" for p
  proof (induction xs arbitrary: p)
    case (Cons x xs)
    then show ?case using qos_step_inv [of p x] by auto
  qed simp
  then show ?thesis using qos_inv_default by blast
qed

lemma highest_fps_le: "highest_fps q = Some h \<Longrightarrow> u \<in> set (users q) \<Longrightarrow> 1 \<le> user_fps (snd u) \<Longrightarrow> h \<le> user_fps (snd u)"
proof -
  assume h: "highest_fps q = Some h" and u: "u \<in> set (users q)" "1 \<le> user_fps (snd u)"
  let ?xs = "filter (\<lambda>f. MIN_FPS \<le> f) (map (\<lambda>u. user_fps (snd u)) (users q))"
  have mem: "user_fps (snd u) \<in> set ?xs" using u by (auto simp: MIN_FPS_def)
  then obtain m where m: "list_min ?xs = Some m" using list_min_None [of ?xs] by fastforce
  then have "1 \<le> m" "m \<le> user_fps (snd u)" using list_min_Some [OF m] mem by (auto simp: MIN_FPS_def)
  with h m show ?thesis by (auto simp: highest_fps_def fps_consts)
qed

lemma adjust_fps_eq:
  assumes "highest_fps q = Some h" "1 \<le> h"
    and "list_min (map (\<lambda>u. case delay_fps (delay (snd u)) of Some f \<Rightarrow> f | None \<Rightarrow> INIT_FPS) (users q)) = Some m"
  shows "adjust_fps now q = Some (q\<lparr>qfps := max 1 (min h
      (let fps = (if list_ex (\<lambda>u. response_delayed (delay (snd u))) (users q) \<and> 2 < m then 2 else m)
       in if (now - new_user_instant q) div 1000 < 1 \<and> 15 < fps then 15 else fps))\<rparr>)"
proof -
  have c: "MIN_FPS = 1" "MIN_FPS + 1 = 2" by (simp_all add: MIN_FPS_def)
  show ?thesis
    unfolding adjust_fps_def assms(1,3) option.case Let_def c(2) unfolding c(1)
    using assms(2) by (simp only: clamp_nat_Some option.map(2) INIT_FPS_def)
qed

text \<open>The shared frame rate serves the slowest user: after \<open>adjust_fps\<close> it is at most what any
  connected user asked for and at most what any user's network was found to carry (15 for a user not
  measured yet), at most 2 while some user's response is overdue, and at most 15 during the first
  second after a connection opens.\<close>

theorem adjust_fps_serves_slowest:
  assumes "qos_inv q" "adjust_fps now q = Some q'" "u \<in> set (users q)"
  shows "qfps q' \<le> user_fps (snd u) \<and>
    qfps q' \<le> (case delay_fps (delay (snd u)) of Some f \<Rightarrow> f | None \<Rightarrow> 15) \<and>
    (response_delayed (delay (snd u)) \<longrightarrow> qfps q' \<le> 2) \<and>
    (now < new_user_instant q + 1000 \<longrightarrow> qfps q' \<le> 15)"
proof -
  let ?f = "\<lambda>u :: int \<times> user_data. case delay_fps (delay (snd u)) of Some f \<Rightarrow> f | None \<Rightarrow> INIT_FPS"
  have uok: "user_ok (snd u)" using assms(1,3) by (auto simp: qos_inv_def all_vals_def)
  then have one: "1 \<le> user_fps (snd u)" "1 \<le> ?f u"
    by (auto simp: user_fps_def user_ok_def fps_ok_def fps_consts Let_def split: option.splits)
  obtain h where h: "highest_fps q = Some h" "fps_ok h" using highest_fps_ok by blast
  obtain m where m: "list_min (map ?f (users q)) = Some m"
    using assms(3) list_min_None [of "map ?f (users q)"] by fastforce
  have le: "m \<le> ?f u" using list_min_Some [OF m] assms(3) by auto
  have hu: "h \<le> user_fps (snd u)" using highest_fps_le [OF h(1) assms(3) one(1)] .
  have h1: "1 \<le> h" using h(2) by (simp add: fps_ok_def)
  let ?late = "list_ex (\<lambda>u. response_delayed (delay (snd u))) (users q)"
    and ?new = "(now - new_user_instant q) div 1000 < 1"
  define x where "x = (let fps = (if ?late \<and> 2 < m then 2 else m) in if ?new \<and> 15 < fps then 15 else fps)"
  have x: "x \<le> m" "?late \<Longrightarrow> x \<le> 2" "?new \<Longrightarrow> x \<le> 15" by (simp_all add: x_def Let_def)
  have q': "qfps q' = max 1 (min h x)"
    using adjust_fps_eq [OF h(1) h1 m, of now, folded x_def] assms(2) by simp
  have "qfps q' \<le> user_fps (snd u)" unfolding q' using hu one(1) by simp
  moreover have "qfps q' \<le> ?f u" unfolding q' using x(1) le one(2) by simp
  moreover have "response_delayed (delay (snd u)) \<longrightarrow> qfps q' \<le> 2"
    using x(2) assms(3) unfolding q' by (auto simp: list_ex_iff min_le_iff_disj)
  moreover have "now < new_user_instant q + 1000 \<longrightarrow> qfps q' \<le> 15"
    using x(3) unfolding q' by (auto simp: min_le_iff_disj)
  ultimately show ?thesis unfolding INIT_FPS_def by blast
qed

theorem adjust_fps_serves_slowest_witness:
  "\<exists>q'. adjust_fps 500 (on_connection_open 0 '''' 7 (qos_default 0)) = Some q' \<and> qfps q' \<le> 15"
proof -
  let ?q = "on_connection_open 0 '''' 7 (qos_default 0)"
  have i: "qos_inv ?q" using simple_user_inv(4) [OF qos_inv_default] .
  obtain q' where q': "adjust_fps 500 ?q = Some q'" using adjust_fps_inv [OF i] by blast
  have "(7, user_data_default) \<in> set (users ?q)" by (simp add: on_connection_open_def qos_default_def)
  from adjust_fps_serves_slowest [OF i q' this] q' show ?thesis by (simp add: on_connection_open_def)
qed

lemma devide_fps_le:
  assumes "fps < 2 ^ 24" "150 \<le> avg"
  shows "as_u32 (of_int \<lceil>f32_round (as_f32 fps / f32_round (as_f32 avg / as_f32 DELAY_THRESHOLD_150MS))\<rceil>) \<le> fps"
proof -
  have "as_f32 150 = 150" by (simp add: as_f32_def)
  moreover have "150 \<le> as_f32 avg"
    using assms(2) f32_round_mono [of 150 "of_nat avg"] by (simp add: as_f32_def)
  ultimately have "1 \<le> as_f32 avg / as_f32 DELAY_THRESHOLD_150MS"
    by (simp add: DELAY_THRESHOLD_150MS_def)
  then have "f32_round (as_f32 fps / f32_round (as_f32 avg / as_f32 DELAY_THRESHOLD_150MS)) \<le> of_nat fps"
    using f32_div_le [OF assms(1)] by (simp add: as_f32_def f32_round_of_nat [OF assms(1)])
  then have "\<lceil>f32_round (as_f32 fps / f32_round (as_f32 avg / as_f32 DELAY_THRESHOLD_150MS))\<rceil> \<le> int fps"
    by (simp add: ceiling_le_iff)
  then show ?thesis by (simp add: as_u32_def)
qed

text \<open>Reaction to congestion: with a delay of 150 ms or more the rate for the user never rises
  above the larger of the current rate and the minimum rate of the chosen quality; from 200 ms on it
  is at most that minimum, from 300 ms on at most the minimum scaled down by 150 ms over the delay.
  Below 150 ms it never falls below the current rate and the minimum. All float rounding included.\<close>

theorem delay_step_fps_reacts:
  assumes "fps \<le> 120" "mf \<le> 120" "delay_step_fps mf nf old avg d fps = (f', d')"
  shows "(150 \<le> avg \<longrightarrow> f' \<le> max mf fps) \<and> (200 \<le> avg \<longrightarrow> f' \<le> mf) \<and>
    (300 \<le> avg \<longrightarrow> f' \<le> 150 * mf div avg) \<and> (avg < 150 \<longrightarrow> max mf fps \<le> f' \<and> f' \<le> max mf (fps + 5))"
proof -
  let ?v = "as_u32 (of_int \<lceil>f32_round (as_f32 fps / f32_round (as_f32 avg / as_f32 DELAY_THRESHOLD_150MS))\<rceil>)"
  have v: "?v \<le> fps" if "150 \<le> avg" using devide_fps_le [of fps avg] that assms(1) by simp
  have w: "150 * mf div avg \<le> mf" if "300 \<le> avg"
  proof -
    have "150 * mf div avg \<le> 150 * mf div 150" using that by (intro div_le_mono2) simp_all
    then show ?thesis by simp
  qed
  have hi: "f' = (if avg < 200 then max mf ?v else if avg < 300 then min mf ?v
      else if avg < 600 then 150 * mf div avg else min (150 * mf div avg) ?v)" if "150 \<le> avg"
    using assms(3) that by (auto simp: delay_step_fps_def Let_def DELAY_THRESHOLD_150MS_def)
  have lo: "max mf fps \<le> f' \<and> f' \<le> max mf (fps + 5)" if "avg < 150"
    using assms(1,3) that
    by (auto simp: delay_step_fps_def Let_def DELAY_THRESHOLD_150MS_def max_def split: if_splits)
  show ?thesis using hi lo v w by (cases "avg < 150") (auto simp: min_def max_def)
qed

theorem delay_step_fps_reacts_witness:
  "fst (delay_step_fps 10 20 150 700 user_delay_default 30) \<le> 150 * 10 div 700"
  using delay_step_fps_reacts [of 30 10 20 150 700 user_delay_default
      "fst (delay_step_fps 10 20 150 700 user_delay_default 30)" "snd (delay_step_fps 10 20 150 700 user_delay_default 30)"]
  by simp

lemma min_ratio_None: "min_ratio v r \<le> min_ratio v None"
  by (cases v; cases r) (auto simp: min_ratio_def Let_def)

lemma delay_ratio_le:
  assumes "150 \<le> max_delay" "0 \<le> r" "f32_round r = r"
  shows "delay_ratio max_delay dyn r \<le> r"
proof -
  have "f32_round (r * f32_round c) \<le> r" if "0 \<le> c" "c \<le> 1" for c
  proof -
    have "f32_round c \<le> 1" "0 \<le> f32_round c" using f32_round_mono [of c 1] f32_round_nonneg [of c] that by simp_all
    then have "r * f32_round c \<le> r" "0 \<le> r * f32_round c" using assms(2) by (simp_all add: mult_left_le)
    from f32_round_mono [OF this(2,1)] assms(3) show ?thesis by simp
  qed
  from this [of "95 / 100"] this [of "9 / 10"] this [of "85 / 100"] this [of "8 / 10"] show ?thesis
    using assms(1) by (simp add: delay_ratio_def DELAY_THRESHOLD_150MS_def)
qed

text \<open>The bitrate ratio follows the network: an adjustment with the slowest user at 150 ms or
  more never raises the ratio above its old value or the floor of the chosen quality, and no adjustment
  ever exceeds the ratio of the latest quality any user chose.\<close>

theorem adjust_ratio_follows_delay:
  assumes "qos_inv q" "f32_round (qratio q) = qratio q"
    and "adjust_ratio now dyn q = Some q'" "in_vbr_state q" "users q \<noteq> []"
  shows "qratio q' \<le> quality_ratio (latest_quality q) \<and>
    ((\<exists>u \<in> set (users q). 150 \<le> avg_delay (delay (snd u))) \<longrightarrow>
      qratio q' \<le> max (qratio q) (min_ratio (latest_quality q) None))"
proof -
  let ?ds = "map (\<lambda>u. avg_delay (delay (snd u))) (users q)" and ?v = "latest_quality q"
  obtain m where m: "list_max ?ds = Some m" using assms(5) list_max_None [of ?ds] by fastforce
  have v: "quality_ok ?v" using assms(1) latest_quality_ok by (simp add: qos_inv_def)
  have r0: "0 \<le> qratio q" using assms(1) br_bounds by (simp add: qos_inv_def)
  obtain r x where q': "qratio q' = max (min_ratio ?v r) (min (quality_ratio ?v) x)"
    and x: "x \<le> delay_ratio m dyn (qratio q)"
  proof -
    define r where "r = (if 0 < bitrate q then Some (max (f32_round (f32_round (qratio q * f32_round 1000) / as_f32 (bitrate q)))
        BR_MIN_HIGH_RESOLUTION) else None)"
    define a where "a = (if 0 < bitrate q then Some (f32_round (f32_round (as_f32 (wrap_u32 (bitrate q + 150)) * qratio q)
        / as_f32 (bitrate q))) else None)"
    define x where "x = (case a of Some r \<Rightarrow> if r < delay_ratio m dyn (qratio q) \<and> qratio q < r \<and> BR_SPEED \<le> qratio q
        then r else delay_ratio m dyn (qratio q) | None \<Rightarrow> delay_ratio m dyn (qratio q))"
    have "map_option (\<lambda>r. q\<lparr>qratio := r, adjust_ratio_instant := now\<rparr>)
        (clamp_f32 x (min_ratio ?v r) (quality_ratio ?v)) = Some q'"
      using assms(3,4) unfolding adjust_ratio_def m option.case Let_def max_ratio_eq [OF v]
        r_def [symmetric] a_def [symmetric] x_def [symmetric] by simp
    then have "qratio q' = max (min_ratio ?v r) (min (quality_ratio ?v) x)"
      using min_ratio_bounds(2) [OF v, of r] by auto
    moreover have "x \<le> delay_ratio m dyn (qratio q)" by (auto simp: x_def split: option.splits)
    ultimately show thesis by (rule that)
  qed
  have "qratio q' \<le> quality_ratio ?v" using q' min_ratio_bounds(2) [OF v, of r] by simp
  moreover have "qratio q' \<le> max (qratio q) (min_ratio ?v None)"
    if "u \<in> set (users q)" "150 \<le> avg_delay (delay (snd u))" for u
  proof -
    have "150 \<le> m" using list_max_Some [OF m] that by fastforce
    then have "x \<le> qratio q" using x delay_ratio_le [of m "qratio q" dyn] r0 assms(2) by simp
    then show ?thesis unfolding q' using min_ratio_None [of ?v r] by (auto simp: max_def min_def)
  qed
  ultimately show ?thesis by blast
qed

theorem adjust_ratio_follows_delay_witness:
  "\<exists>q'. adjust_ratio 0 False (on_connection_open 0 '''' 7 (qos_default 0)) = Some q' \<and> qratio q' \<le> BR_BALANCED"
proof -
  let ?q = "on_connection_open 0 '''' 7 (qos_default 0)"
  have i: "qos_inv ?q" using simple_user_inv(4) [OF qos_inv_default] .
  obtain q' where q': "adjust_ratio 0 False ?q = Some q'" using adjust_ratio_inv [OF i] by blast
  have "in_vbr_state ?q" "users ?q \<noteq> []" "f32_round (qratio ?q) = qratio ?q" "latest_quality ?q = Balanced"
    by (simp_all add: in_vbr_state_def on_connection_open_def qos_default_def br_rounded latest_quality_def
        user_data_default_def List.map_filter_def)
  with adjust_ratio_follows_delay [OF i _ q'] q' show ?thesis by simp
qed

text \<open>Round-trip estimation: the window keeps the last 60 delays, its minimum is the smallest
  of them, the historical minimum never rises, and no estimate is given before ten samples.\<close>

theorem rtt_update_estimates:
  assumes "length (samples r) \<le> 60"
  shows "length (samples (rtt_update r d)) = min 60 (Suc (length (samples r))) \<and>
    samples (rtt_update r d) = drop (length (samples r) - 59) (samples r) @ [d] \<and>
    window_min_rtt (rtt_update r d) = Some (Min (set (samples (rtt_update r d)))) \<and>
    (\<exists>m. min_rtt (rtt_update r d) = Some m \<and> m \<le> d \<and> (\<forall>m'. min_rtt r = Some m' \<longrightarrow> m \<le> m')) \<and>
    (smoothed_rtt r = None \<and> length (samples r) < 9 \<longrightarrow> get_rtt (rtt_update r d) = None)"
proof -
  have s: "samples (rtt_update r d) = drop (length (samples r) - 59) (samples r) @ [d]"
    using assms by (auto simp: rtt_update_def Let_def WINDOW_SAMPLES_def drop_Suc split: option.splits)
  have w: "window_min_rtt (rtt_update r d) = list_min (samples (rtt_update r d))"
    by (simp add: rtt_update_def Let_def split: option.splits)
  obtain m where m: "list_min (samples (rtt_update r d)) = Some m"
    using s list_min_None [of "samples (rtt_update r d)"] by fastforce
  then have "m = Min (set (samples (rtt_update r d)))"
    using list_min_Some [OF m] by (intro Min_eqI [symmetric]) auto
  moreover have "\<exists>m. min_rtt (rtt_update r d) = Some m \<and> m \<le> d \<and> (\<forall>m'. min_rtt r = Some m' \<longrightarrow> m \<le> m')"
    by (auto simp: rtt_update_def Let_def split: option.splits)
  moreover have "smoothed_rtt r = None \<and> length (samples r) < 9 \<longrightarrow> get_rtt (rtt_update r d) = None"
    by (auto simp: rtt_update_def get_rtt_def Let_def WINDOW_SAMPLES_def MIN_SAMPLES_def split: option.splits)
  moreover have "length (samples (rtt_update r d)) = min 60 (Suc (length (samples r)))"
    using assms by (simp add: s)
  ultimately show ?thesis using s w m by metis
qed

theorem rtt_update_estimates_witness:
  "samples (rtt_update rtt_default 25) = [25] \<and> window_min_rtt (rtt_update rtt_default 25) = Some 25"
  using rtt_update_estimates [of rtt_default 25] by (simp add: rtt_default_def)

end
