(* ===== verification/RustStr.thy ===== *)
theory RustStr
  imports Prelude
begin

text \<open>
  The string operations of Rust's standard library that the components call, on byte strings:
  trimming, splitting, decimal numbers, and IPv4 addresses as text (\<open>Ipv4Addr::to_string\<close> and
  \<open>str::parse::<Ipv4Addr>\<close>). White space is the ASCII white space.
\<close>

section \<open>Trimming and splitting\<close>

definition is_space :: "char \<Rightarrow> bool" where
  "is_space c \<longleftrightarrow> c = CHR '' '' \<or> (9 \<le> (of_char c :: nat) \<and> (of_char c :: nat) \<le> 13)"

definition trim_start :: "string \<Rightarrow> string" where
  "trim_start s = dropWhile is_space s"

definition trim_end :: "string \<Rightarrow> string" where
  "trim_end s = rev (dropWhile is_space (rev s))"

definition trim :: "string \<Rightarrow> string" where
  "trim s = trim_end (trim_start s)"

fun split_char :: "char \<Rightarrow> string \<Rightarrow> string list" where
  "split_char c [] = [[]]"
| "split_char c (x # xs) =
     (if x = c then [] # split_char c xs
      else case split_char c xs of [] \<Rightarrow> [[x]] | p # ps \<Rightarrow> (x # p) # ps)"

text \<open>\<open>str::rsplit_once\<close> with a character.\<close>

definition rsplit_once :: "char \<Rightarrow> string \<Rightarrow> (string \<times> string) option" where
  "rsplit_once c s =
     (if c \<in> set s
      then Some (rev (tl (dropWhile (\<lambda>x. x \<noteq> c) (rev s))), rev (takeWhile (\<lambda>x. x \<noteq> c) (rev s)))
      else None)"

fun split_whitespace_first :: "string \<Rightarrow> string option" where
  "split_whitespace_first s =
     (case takeWhile (\<lambda>c. \<not> is_space c) (trim_start s) of [] \<Rightarrow> None | t \<Rightarrow> Some t)"

definition str_lines :: "string \<Rightarrow> string list" where
  "str_lines s =
     (let ls = split_char (CHR 0x0A) s;
          ls = (if last ls = [] then butlast ls else ls)
      in map (\<lambda>l. if l \<noteq> [] \<and> last l = CHR 0x0D then butlast l else l) ls)"

lemma trim_no_space: "s = [] \<or> (\<not> is_space (hd s) \<and> \<not> is_space (last s)) \<Longrightarrow> trim s = s"
proof -
  assume s: "s = [] \<or> (\<not> is_space (hd s) \<and> \<not> is_space (last s))"
  then have "dropWhile is_space s = s" by (auto simp: dropWhile_eq_self_iff)
  moreover from s have "dropWhile is_space (rev s) = rev s" by (auto simp: dropWhile_eq_self_iff hd_rev)
  ultimately show ?thesis by (simp add: trim_def trim_start_def trim_end_def)
qed

lemma split_char_not_Nil [simp]: "split_char c s \<noteq> []"
  by (induction s) (auto split: list.splits)

lemma split_char_none: "c \<notin> set s \<Longrightarrow> split_char c s = [s]"
  by (induction s) auto

lemma split_char_append: "c \<notin> set p \<Longrightarrow> split_char c (p @ c # s) = p # split_char c s"
  by (induction p) auto

lemma rsplit_once_append: "c \<notin> set b \<Longrightarrow> rsplit_once c (a @ c # b) = Some (a, b)"
  by (simp add: rsplit_once_def takeWhile_tail dropWhile_append takeWhile_append) 

lemma rsplit_once_None: "rsplit_once c s = None \<longleftrightarrow> c \<notin> set s"
  by (simp add: rsplit_once_def)

section \<open>Decimal numbers\<close>

definition is_digit :: "char \<Rightarrow> bool" where
  "is_digit c \<longleftrightarrow> 48 \<le> (of_char c :: nat) \<and> (of_char c :: nat) \<le> 57"

definition digit_value :: "char \<Rightarrow> nat" where
  "digit_value c = of_char c - 48"

fun digits_value :: "nat \<Rightarrow> string \<Rightarrow> nat" where
  "digits_value n [] = n"
| "digits_value n (c # cs) = digits_value (10 * n + digit_value c) cs"

definition parse_digits :: "string \<Rightarrow> nat option" where
  "parse_digits s = (if s \<noteq> [] \<and> list_all is_digit s then Some (digits_value 0 s) else None)"

text \<open>\<open>str::parse\<close> to an unsigned type with the largest value \<open>m\<close>: an optional plus sign, then digits.\<close>

definition parse_unsigned :: "nat \<Rightarrow> string \<Rightarrow> nat option" where
  "parse_unsigned m s =
     (case parse_digits (case s of CHR ''+'' # t \<Rightarrow> t | _ \<Rightarrow> s) of
        Some n \<Rightarrow> if n \<le> m then Some n else None
      | None \<Rightarrow> None)"

text \<open>\<open>str::parse\<close> to a signed type with the largest value \<open>m\<close>.\<close>

definition parse_signed :: "nat \<Rightarrow> string \<Rightarrow> int option" where
  "parse_signed m s =
     (case s of
        CHR ''-'' # t \<Rightarrow> (case parse_digits t of
            Some n \<Rightarrow> if n \<le> m + 1 then Some (- int n) else None | None \<Rightarrow> None)
      | _ \<Rightarrow> map_option int (parse_unsigned m s))"

fun nat_to_str :: "nat \<Rightarrow> string" where
  "nat_to_str n =
     (if n < 10 then [char_of (48 + n)] else nat_to_str (n div 10) @ [char_of (48 + n mod 10)])"

declare nat_to_str.simps [simp del]

lemma digit_char [simp]: "d < 10 \<Longrightarrow> is_digit (char_of (48 + d :: nat))" "d < 10 \<Longrightarrow> digit_value (char_of (48 + d :: nat)) = d"
  by (simp_all add: is_digit_def digit_value_def)

lemma digit_chars:
  "char_of (48 :: nat) = CHR ''0''" "char_of (49 :: nat) = CHR ''1''" "char_of (50 :: nat) = CHR ''2''"
  "char_of (51 :: nat) = CHR ''3''" "char_of (52 :: nat) = CHR ''4''" "char_of (53 :: nat) = CHR ''5''"
  "char_of (54 :: nat) = CHR ''6''" "char_of (55 :: nat) = CHR ''7''" "char_of (56 :: nat) = CHR ''8''"
  "char_of (57 :: nat) = CHR ''9''"
  by (simp_all add: char_of_def bit_0)

lemma digits_value_append: "digits_value n (s @ t) = digits_value (digits_value n s) t"
  by (induction s arbitrary: n) auto

lemma nat_to_str_digits: "nat_to_str n \<noteq> [] \<and> list_all is_digit (nat_to_str n)"
proof (induction n rule: nat_to_str.induct)
  case (1 n)
  then show ?case by (subst (1 2) nat_to_str.simps) auto
qed

lemma digits_value_nat_to_str: "digits_value 0 (nat_to_str n) = n"
proof (induction n rule: nat_to_str.induct)
  case (1 n)
  then show ?case by (subst nat_to_str.simps) (auto simp: digits_value_append)
qed

lemma parse_digits_nat_to_str [simp]: "parse_digits (nat_to_str n) = Some n"
  using nat_to_str_digits [of n] by (simp add: parse_digits_def digits_value_nat_to_str)

lemma not_digit: "\<not> is_digit (CHR ''+'')" "\<not> is_digit (CHR ''-'')" "\<not> is_digit (CHR ''.'')" "\<not> is_digit (CHR '':'')"
  "is_space c \<Longrightarrow> \<not> is_digit c"
  by (auto simp: is_digit_def is_space_def)

lemma nat_to_str_chars: "c \<in> set (nat_to_str n) \<Longrightarrow> is_digit c"
  using nat_to_str_digits [of n] by (auto simp: list_all_iff)

lemma parse_unsigned_nat_to_str: "n \<le> m \<Longrightarrow> parse_unsigned m (nat_to_str n) = Some n"
proof -
  assume n: "n \<le> m"
  have "hd (nat_to_str n) \<noteq> CHR ''+''"
    using nat_to_str_chars [of "hd (nat_to_str n)" n] nat_to_str_digits [of n] not_digit(1) by (metis hd_in_set)
  then have "(case nat_to_str n of CHR ''+'' # t \<Rightarrow> t | _ \<Rightarrow> nat_to_str n) = nat_to_str n"
    by (auto split: list.splits char.splits bool.splits)
  with n show ?thesis by (simp add: parse_unsigned_def)
qed

section \<open>IPv4 addresses\<close>

definition octet :: "nat \<Rightarrow> u32 \<Rightarrow> nat" where
  "octet i a = unat (drop_bit (8 * (3 - i)) a) mod 256"

definition ipv4_to_string :: "u32 \<Rightarrow> string" where
  "ipv4_to_string a = nat_to_str (octet 0 a) @ ''.'' @ nat_to_str (octet 1 a) @ ''.'' @
     nat_to_str (octet 2 a) @ ''.'' @ nat_to_str (octet 3 a)"

definition parse_octet :: "string \<Rightarrow> nat option" where
  "parse_octet s =
     (if length s \<le> 3 \<and> (length s \<le> 1 \<or> hd s \<noteq> CHR ''0'') then
        (case parse_digits s of Some n \<Rightarrow> if n \<le> 255 then Some n else None | None \<Rightarrow> None)
      else None)"

definition parse_ipv4 :: "string \<Rightarrow> u32 option" where
  "parse_ipv4 s =
     (case split_char (CHR ''.'') s of
        [p, q, r, t] \<Rightarrow> (case (parse_octet p, parse_octet q, parse_octet r, parse_octet t) of
            (Some a, Some b, Some c, Some d) \<Rightarrow> Some (word_of_nat (((a * 256 + b) * 256 + c) * 256 + d))
          | _ \<Rightarrow> None)
      | _ \<Rightarrow> None)"

lemma nat_to_str_length: "n < 1000 \<Longrightarrow> length (nat_to_str n) \<le> 3"
proof -
  have a: "length (nat_to_str n) = 1" if "n < 10" for n using that by (subst nat_to_str.simps) simp
  have b: "length (nat_to_str n) \<le> 2" if "n < 100" for n
    using that a [of "n div 10"] a [of n] by (subst nat_to_str.simps) (auto simp: less_mult_imp_div_less)
  show "n < 1000 \<Longrightarrow> length (nat_to_str n) \<le> 3"
    using b [of "n div 10"] by (subst nat_to_str.simps) (auto simp: less_mult_imp_div_less)
qed

lemma nat_to_str_leading_zero: "hd (nat_to_str n) = CHR ''0'' \<Longrightarrow> n = 0"
proof (induction n rule: nat_to_str.induct)
  case (1 n)
  show ?case
  proof (cases "n < 10")
    case True
    with "1.prems" have "char_of (48 + n) = CHR ''0''" by (simp add: nat_to_str.simps [of n])
    then have "(of_char (char_of (48 + n) :: char) :: nat) = 48" by simp
    with True show ?thesis by simp
  next
    case False
    with "1.prems" have "hd (nat_to_str (n div 10)) = CHR ''0''"
      using nat_to_str_digits [of "n div 10"] by (simp add: nat_to_str.simps [of n])
    with "1.IH" [OF False] False show ?thesis by simp
  qed
qed

lemma parse_octet_nat_to_str: "n \<le> 255 \<Longrightarrow> parse_octet (nat_to_str n) = Some n"
  using nat_to_str_length [of n] nat_to_str_leading_zero [of n]
  by (auto simp: parse_octet_def nat_to_str.simps [of 0])

lemma no_dot_nat_to_str: "CHR ''.'' \<notin> set (nat_to_str n)"
  using nat_to_str_chars not_digit(3) by blast

lemma ipv4_to_string_split:
  "split_char (CHR ''.'') (ipv4_to_string a) = map (\<lambda>i. nat_to_str (octet i a)) [0, 1, 2, 3]"
  using split_char_append [OF no_dot_nat_to_str] split_char_none [OF no_dot_nat_to_str]
  by (simp add: ipv4_to_string_def)

lemma octets_value: "((octet 0 a * 256 + octet 1 a) * 256 + octet 2 a) * 256 + octet 3 a = unat a"
proof -
  define n where "n = unat a"
  have n: "n < 4294967296" unfolding n_def using unsigned_less [of a] by simp
  have o: "octet 0 a = n div 16777216" "octet 1 a = n div 65536 mod 256" "octet 2 a = n div 256 mod 256"
    "octet 3 a = n mod 256"
    using n by (simp_all add: octet_def n_def drop_bit_eq_div unat_div less_mult_imp_div_less)
  have "n div 256 div 256 = n div 65536" "n div 65536 div 256 = n div 16777216"
    by (simp_all add: div_mult2_eq [symmetric])
  then have "n div 16777216 * 256 + n div 65536 mod 256 = n div 65536"
    "n div 65536 * 256 + n div 256 mod 256 = n div 256"
    by (metis div_mult_mod_eq)+
  then show ?thesis unfolding o n_def [symmetric] by simp
qed

text \<open>Printing an address and parsing it gives the address back, so printing is injective.\<close>

lemma parse_ipv4_to_string [simp]: "parse_ipv4 (ipv4_to_string a) = Some a"
proof -
  have "octet i a \<le> 255" for i by (simp add: octet_def less_Suc_eq_le [symmetric])
  then have "parse_ipv4 (ipv4_to_string a)
      = Some (word_of_nat (((octet 0 a * 256 + octet 1 a) * 256 + octet 2 a) * 256 + octet 3 a))"
    by (simp add: parse_ipv4_def ipv4_to_string_split parse_octet_nat_to_str)
  then show ?thesis unfolding octets_value by simp
qed

lemma ipv4_to_string_inj [simp]: "ipv4_to_string a = ipv4_to_string b \<longleftrightarrow> a = b"
  by (metis option.inject parse_ipv4_to_string)

lemma ipv4_to_string_chars: "c \<in> set (ipv4_to_string a) \<Longrightarrow> is_digit c \<or> c = CHR ''.''"
  using nat_to_str_chars by (auto simp: ipv4_to_string_def)

lemma trim_ipv4_to_string [simp]: "trim (ipv4_to_string a) = ipv4_to_string a"
proof -
  have "ipv4_to_string a \<noteq> []" by (simp add: ipv4_to_string_def)
  moreover have "\<not> is_space (CHR ''.'')" by (simp add: is_space_def)
  then have "\<not> is_space c" if "c \<in> set (ipv4_to_string a)" for c
    using ipv4_to_string_chars [OF that] not_digit(5) by blast
  ultimately show ?thesis by (intro trim_no_space disjI2 conjI) (blast intro: hd_in_set last_in_set)+
qed

end
