(* ===== verification/NetAddr.thy ===== *)
theory NetAddr
  imports RustStr
begin

text \<open>
  Socket addresses and the address mangling of \<^verbatim>\<open>libs/hbb_common/src/lib.rs\<close> (\<open>try_into_v4\<close>,
  \<open>AddrMangle\<close>). An IPv4 address is the \<open>u32\<close> with its octets in network order, an IPv6 address the
  \<open>u128\<close>. Subtractions wrap, as the release build compiles them. The clock \<open>encode\<close> reads is its
  argument \<open>tm\<close> (microseconds, already truncated to \<open>u32\<close>).
\<close>

unbundle bit_operations_syntax

section \<open>Addresses\<close>

datatype ip_addr = IpV4 u32 | IpV6 u128

text \<open>\<open>SocketAddrV4\<close> and \<open>SocketAddrV6\<close>: the latter has a flow label and the scope of a link-local address besides.
  \<open>SocketAddr::new\<close> sets both to zero.\<close>

datatype socket_addr = SocketV4 u32 u16 | SocketV6 u128 u16 u32 u32

fun socket_addr_new :: "ip_addr \<Rightarrow> u16 \<Rightarrow> socket_addr" where
  "socket_addr_new (IpV4 a) p = SocketV4 a p"
| "socket_addr_new (IpV6 a) p = SocketV6 a p 0 0"

fun is_loopback :: "ip_addr \<Rightarrow> bool" where
  "is_loopback (IpV4 a) \<longleftrightarrow> drop_bit 24 a = 127"
| "is_loopback (IpV6 a) \<longleftrightarrow> a = 1"

text \<open>\<open>Ipv6Addr::to_ipv4\<close> accepts IPv4-compatible and IPv4-mapped addresses,
  \<open>IpAddr::to_canonical\<close> rewrites the mapped ones only.\<close>

definition v6_to_ipv4 :: "u128 \<Rightarrow> u32 option" where
  "v6_to_ipv4 a = (if drop_bit 32 a = 0 \<or> drop_bit 32 a = 0xFFFF then Some (ucast a) else None)"

fun to_canonical :: "ip_addr \<Rightarrow> ip_addr" where
  "to_canonical (IpV4 a) = IpV4 a"
| "to_canonical (IpV6 a) = (if drop_bit 32 a = 0xFFFF then IpV4 (ucast a) else IpV6 a)"

definition try_into_v4 :: "socket_addr \<Rightarrow> socket_addr" where
  "try_into_v4 addr =
     (case addr of
        SocketV6 a p _ _ \<Rightarrow>
          if \<not> is_loopback (IpV6 a) then (case v6_to_ipv4 a of Some v4 \<Rightarrow> socket_addr_new (IpV4 v4) p | None \<Rightarrow> addr) else addr
      | SocketV4 _ _ \<Rightarrow> addr)"

section \<open>Little-endian bytes\<close>

fun le_bytes :: "nat \<Rightarrow> nat \<Rightarrow> bytes" where
  "le_bytes 0 n = []"
| "le_bytes (Suc k) n = word_of_nat n # le_bytes k (n div 256)"

fun le_value :: "bytes \<Rightarrow> nat" where
  "le_value [] = 0"
| "le_value (b # bs) = unat b + 256 * le_value bs"

lemma length_le_bytes [simp]: "length (le_bytes k n) = k"
  by (induction k arbitrary: n) simp_all

lemma le_value_bytes: "n < 256 ^ k \<Longrightarrow> le_value (le_bytes k n) = n"
proof (induction k arbitrary: n)
  case (Suc k)
  then have "n div 256 < 256 ^ k" by (simp add: less_mult_imp_div_less mult.commute)
  with Suc.IH have "le_value (le_bytes k (n div 256)) = n div 256" by blast
  then show ?case by (simp add: unat_of_nat)
qed simp

lemma le_value_zeros [simp]: "le_value (bs @ replicate k 0) = le_value bs"
  by (induction bs) (simp_all, induction k, simp_all)

lemma le_bytes_value: "le_bytes (length bs) (le_value bs) = bs"
proof (induction bs)
  case (Cons b bs)
  have "(unat b + 256 * le_value bs) div 256 = le_value bs"
    using unat_u8_less [of b] by simp
  moreover have "(word_of_nat (unat b + 256 * le_value bs) :: u8) = b"
    by (simp only: word_unat_eq_iff unat_of_nat) (simp add: unat_u8_less)
  ultimately show ?case using Cons by simp
qed simp

section \<open>Mangling\<close>

definition swap_bytes :: "u32 \<Rightarrow> u32" where
  "swap_bytes a = word_of_nat (le_value (rev (le_bytes 4 (unat a))))"

definition strip_padding :: "bytes \<Rightarrow> bytes" where
  "strip_padding bs = take (length bs - length (takeWhile (\<lambda>b. b = 0) (rev bs))) bs"

definition mangle_encode :: "u32 \<Rightarrow> socket_addr \<Rightarrow> bytes" where
  "mangle_encode tm addr =
     (case try_into_v4 addr of
        SocketV4 a p \<Rightarrow>
          (let tm = ucast tm :: u128;
               ip = ucast (swap_bytes a) :: u128;
               port = ucast p :: u128;
               v = (push_bit 49 (ip + tm) OR push_bit 17 tm) OR (port + (tm AND 0xFFFF))
           in strip_padding (le_bytes 16 (unat v)))
      | SocketV6 a p _ _ \<Rightarrow> rev (le_bytes 16 (unat a)) @ le_bytes 2 (unat p))"

definition mangle_decode :: "bytes \<Rightarrow> socket_addr" where
  "mangle_decode bs =
     (if 16 < length bs then
        (if length bs \<noteq> 18 then socket_addr_new (IpV6 0) 0
         else socket_addr_new (IpV6 (word_of_nat (le_value (rev (take 16 bs))))) (word_of_nat (le_value (drop 16 bs))))
      else
        (let number = word_of_nat (le_value (bs @ replicate (16 - length bs) 0)) :: u128;
             tm = drop_bit 17 number AND 0xFFFFFFFF;
             ip = swap_bytes (ucast (drop_bit 49 number - tm));
             port = (number AND 0xFFFFFF) - (tm AND 0xFFFF)
         in SocketV4 ip (ucast port)))"

lemma swap_bytes_twice: "swap_bytes (swap_bytes a) = a"
proof -
  have a: "unat a < 256 ^ 4" using unat_u32_less [of a] by simp
  let ?r = "rev (le_bytes 4 (unat a))"
  have l: "le_value bs < 256 ^ length bs" for bs :: bytes
  proof (induction bs)
    case (Cons b bs)
    then have "le_value bs + 1 \<le> 256 ^ length bs" by simp
    then have "256 * (le_value bs + 1) \<le> 256 * 256 ^ length bs" by (intro mult_left_mono) simp_all
    then show ?case using unat_u8_less [of b] by simp
  qed simp
  have "unat (swap_bytes a) = le_value ?r"
    using l [of ?r] by (simp add: swap_bytes_def unat_of_nat)
  then have "le_bytes 4 (unat (swap_bytes a)) = ?r" using le_bytes_value [of ?r] by simp
  then show ?thesis by (simp add: swap_bytes_def [of "swap_bytes a"] le_value_bytes [OF a])
qed

lemma strip_padding_pad: "length bs \<le> 16 \<Longrightarrow>
  le_value (strip_padding bs @ replicate (16 - length (strip_padding bs)) 0) = le_value bs"
proof -
  let ?k = "length (takeWhile (\<lambda>b. b = 0) (rev bs))"
  have "rev bs = takeWhile (\<lambda>b. b = 0) (rev bs) @ dropWhile (\<lambda>b. b = 0) (rev bs)" by simp
  moreover have "takeWhile (\<lambda>b. b = 0) (rev bs) = replicate ?k 0"
    by (rule replicate_eqI) (auto dest: set_takeWhileD)
  ultimately have "bs = rev (dropWhile (\<lambda>b. b = 0) (rev bs)) @ replicate ?k 0"
    by (metis rev_append rev_replicate rev_rev_ident)
  moreover have "length (dropWhile (\<lambda>b. b = 0) (rev bs)) = length bs - ?k"
    by (metis length_drop length_rev dropWhile_eq_drop)
  ultimately have "bs = strip_padding bs @ replicate ?k 0"
    unfolding strip_padding_def by (metis append_eq_conv_conj length_rev)
  then have "le_value bs = le_value (strip_padding bs)" by (metis le_value_zeros)
  then show ?thesis by simp
qed

text \<open>The mangled number as a sum: its three fields do not overlap.\<close>

lemma mangle_number:
  fixes ip tm :: u32 and port :: u16
  defines "v \<equiv> (push_bit 49 (ucast ip + ucast tm) OR push_bit 17 (ucast tm)) OR (ucast port + (ucast tm AND 0xFFFF)) :: u128"
  shows "unat v = (unat ip + unat tm) * 2 ^ 49 + unat tm * 2 ^ 17 + (unat port + unat tm mod 65536)"
proof -
  have m: "(0xFFFF :: u128) = mask 16" by (simp add: mask_eq_exp_minus_1)
  have i: "unat ip < 2 ^ 32" and t: "unat tm < 2 ^ 32" and p: "unat port < 2 ^ 16"
    using unat_u32_less unat_u32_less unat_u16_less by simp_all
  have u: "unat (ucast ip :: u128) = unat ip" "unat (ucast tm :: u128) = unat tm" "unat (ucast port :: u128) = unat port"
    by (simp_all add: unsigned_ucast_eq take_bit_nat_eq_self_iff less_le_trans [OF i] less_le_trans [OF t] less_le_trans [OF p])
  let ?lo = "unat port + unat tm mod 65536"
  have lo: "?lo < 2 ^ 17" using p by (simp add: add_strict_mono)
  have a: "unat (ucast port + (ucast tm AND 0xFFFF) :: u128) = ?lo"
    using lo unfolding m
    by (simp add: unat_word_ariths u take_bit_eq_mask [symmetric] unsigned_take_bit_eq take_bit_eq_mod)
  have b: "unat (push_bit 17 (ucast tm) :: u128) = unat tm * 2 ^ 17"
    using t by (simp add: push_bit_eq_mult unat_word_ariths u)
  have c: "unat (push_bit 49 (ucast ip + ucast tm) :: u128) = (unat ip + unat tm) * 2 ^ 49"
    using i t by (simp add: push_bit_eq_mult unat_word_ariths u)
  have "push_bit 17 (unat tm) + take_bit 17 ?lo = push_bit 17 (unat tm) OR take_bit 17 ?lo"
    by (rule disjunctive_add) (auto simp: bit_simps)
  then have d: "push_bit 17 (unat tm) OR ?lo = unat tm * 2 ^ 17 + ?lo"
    using lo by (simp add: take_bit_nat_eq_self push_bit_eq_mult)
  let ?mid = "unat tm * 2 ^ 17 + ?lo"
  have mid: "?mid < 2 ^ 49" using t lo by simp
  have "push_bit 49 (unat ip + unat tm) + take_bit 49 ?mid = push_bit 49 (unat ip + unat tm) OR take_bit 49 ?mid"
    by (rule disjunctive_add) (auto simp: bit_simps)
  then have e: "push_bit 49 (unat ip + unat tm) OR ?mid = (unat ip + unat tm) * 2 ^ 49 + ?mid"
    using mid by (simp add: take_bit_nat_eq_self push_bit_eq_mult)
  have "unat v = ((unat ip + unat tm) * 2 ^ 49 OR unat tm * 2 ^ 17) OR ?lo"
    unfolding v_def by (simp only: unsigned_or_eq a b c)
  also have "\<dots> = push_bit 49 (unat ip + unat tm) OR (push_bit 17 (unat tm) OR ?lo)"
    by (simp only: push_bit_eq_mult or.assoc)
  finally show ?thesis unfolding d e by simp
qed

section \<open>Properties\<close>

lemma mangle_v4:
  assumes "try_into_v4 addr = SocketV4 a p"
  shows "mangle_decode (mangle_encode tm addr) = try_into_v4 addr"
proof -
  let ?ip = "swap_bytes a" and ?p = p
  define v :: u128 where
    "v = (push_bit 49 (ucast ?ip + ucast tm) OR push_bit 17 (ucast tm)) OR (ucast ?p + (ucast tm AND 0xFFFF))"
  define n where "n = unat v"
  have n: "n = (unat ?ip + unat tm) * 2 ^ 49 + unat tm * 2 ^ 17 + (unat ?p + unat tm mod 65536)"
    unfolding n_def v_def by (rule mangle_number)
  have b: "unat ?ip < 4294967296" "unat tm < 4294967296" "unat ?p < 65536" "unat tm mod 65536 < 65536"
    by (simp_all add: unat_u32_less unat_u16_less)
  have enc: "mangle_encode tm addr = strip_padding (le_bytes 16 n)"
    by (simp add: mangle_encode_def Let_def assms n_def v_def)
  have len: "length (mangle_encode tm addr) \<le> 16" unfolding enc by (simp add: strip_padding_def)
  have "n < 256 ^ 16" using unsigned_less [where ?'a = nat, of v] by (simp add: n_def)
  then have num: "(word_of_nat (le_value (mangle_encode tm addr @ replicate (16 - length (mangle_encode tm addr)) 0)) :: u128) = v"
    unfolding enc using strip_padding_pad [of "le_bytes 16 n"] by (simp add: le_value_bytes n_def)
  have dv: "unat (drop_bit k v) = n div 2 ^ k" if "k < 128" for k
    unfolding unat_drop_bit_eq n_def by (simp add: drop_bit_eq_div)
  have d49: "unat (drop_bit 49 v) = unat ?ip + unat tm"
    using b by (simp add: dv n)
  have d17: "unat (drop_bit 17 v) = (unat ?ip + unat tm) * 2 ^ 32 + unat tm"
    using b by (simp add: dv n)
  have m32: "(0xFFFFFFFF :: u128) = mask 32" and m24: "(0xFFFFFF :: u128) = mask 24" and m16: "(0xFFFF :: u128) = mask 16"
    by (simp_all add: mask_eq_exp_minus_1)
  have w32: "take_bit 32 (x * 2 ^ 32 + y) = y" if "y < 4294967296" for x y :: nat
    using that by (simp add: take_bit_eq_mod)
  have t: "unat (drop_bit 17 v AND 0xFFFFFFFF) = unat tm"
    unfolding m32 take_bit_eq_mask [symmetric] unsigned_take_bit_eq d17 by (rule w32 [OF b(2)])
  have t16: "unat ((drop_bit 17 v AND 0xFFFFFFFF) AND 0xFFFF) = unat tm mod 65536"
    unfolding m16 take_bit_eq_mask [symmetric] unsigned_take_bit_eq t by (simp add: take_bit_eq_mod)
  have "unat (v AND 0xFFFFFF) = n mod 16777216"
    unfolding m24 take_bit_eq_mask [symmetric] unsigned_take_bit_eq n_def by (simp add: take_bit_eq_mod)
  also have "\<dots> = (unat tm mod 128) * 131072 + (unat ?p + unat tm mod 65536)"
  proof -
    define q where "q = unat tm div 128"
    have "unat tm = 128 * q + unat tm mod 128" by (simp add: q_def)
    then have "n = ((unat ?ip + unat tm) * 33554432 + q) * 16777216
        + ((unat tm mod 128) * 131072 + (unat ?p + unat tm mod 65536))"
      unfolding n by simp
    moreover have "(unat tm mod 128) * 131072 + (unat ?p + unat tm mod 65536) < 16777216"
      using b mod_less_divisor [of 128 "unat tm"] by linarith
    ultimately show ?thesis by (simp only: mod_mult_self3 mod_less)
  qed
  finally have lo: "unat (v AND 0xFFFFFF) = (unat tm mod 128) * 131072 + (unat ?p + unat tm mod 65536)" .
  have ip: "(ucast (drop_bit 49 v - (drop_bit 17 v AND 0xFFFFFFFF)) :: u32) = ?ip"
  proof -
    have "unat (drop_bit 49 v - (drop_bit 17 v AND 0xFFFFFFFF)) = unat ?ip"
      by (subst unat_sub) (simp_all only: word_le_nat_alt d49 t le_add2 add_diff_cancel_right')
    then show ?thesis by (simp add: word_unat_eq_iff unsigned_ucast_eq take_bit_nat_eq_self_iff b(1))
  qed
  have "unat ((v AND 0xFFFFFF) - ((drop_bit 17 v AND 0xFFFFFFFF) AND 0xFFFF)) = (unat tm mod 128) * 131072 + unat ?p"
    by (subst unat_sub) (simp_all only: word_le_nat_alt lo t16 add.assoc [symmetric] le_add2 add_diff_cancel_right')
  then have port: "(ucast ((v AND 0xFFFFFF) - ((drop_bit 17 v AND 0xFFFFFFFF) AND 0xFFFF)) :: u16) = ?p"
    using b(3) by (simp add: word_unat_eq_iff unsigned_ucast_eq take_bit_eq_mod mod_add_left_eq [symmetric])
  have "mangle_decode (mangle_encode tm addr) = SocketV4 (swap_bytes ?ip) ?p"
    using len by (simp only: mangle_decode_def num Let_def ip port not_less [symmetric] if_False)
  also have "\<dots> = try_into_v4 addr" unfolding swap_bytes_twice assms [symmetric] by simp
  finally show ?thesis .
qed

text \<open>What an address keeps on the wire: the flow label and the scope are not sent.\<close>

fun unscoped :: "socket_addr \<Rightarrow> socket_addr" where
  "unscoped (SocketV4 a p) = SocketV4 a p"
| "unscoped (SocketV6 a p _ _) = SocketV6 a p 0 0"

lemma mangle_v6:
  assumes a: "try_into_v4 addr = SocketV6 a p f s"
  shows "mangle_decode (mangle_encode tm addr) = SocketV6 a p 0 0"
proof -
  have e: "mangle_encode tm addr = rev (le_bytes 16 (unat a)) @ le_bytes 2 (unat p)"
    by (simp add: mangle_encode_def a)
  have "unat a < 256 ^ 16" using unsigned_less [where ?'a = nat, of a] by simp
  moreover have "unat p < 256 ^ 2" using unat_u16_less by simp
  ultimately show ?thesis unfolding e by (simp add: mangle_decode_def le_value_bytes)
qed

text \<open>(C31) What mangling keeps of an address: whatever the clock says, decoding a mangled address gives the address with
  IPv4-compatible and IPv4-mapped IPv6 addresses turned into IPv4 and with the flow label and the scope of an IPv6 address
  set to zero. So an IPv4 address comes back as it was, and so does the loopback address of IPv6 without a scope; a
  link-local address with a scope comes back without it.\<close>

theorem mangle_roundtrip:
  "mangle_decode (mangle_encode tm addr) = unscoped (try_into_v4 addr) \<and>
   mangle_decode (mangle_encode tm (SocketV4 a p)) = SocketV4 a p \<and>
   mangle_decode (mangle_encode tm (SocketV6 1 p 0 0)) = SocketV6 1 p 0 0"
proof (intro conjI)
  show all: "mangle_decode (mangle_encode tm addr) = unscoped (try_into_v4 addr)" for addr
    by (cases "try_into_v4 addr") (simp_all add: mangle_v4 mangle_v6)
  show "mangle_decode (mangle_encode tm (SocketV4 a p)) = SocketV4 a p" by (simp add: all try_into_v4_def)
  show "mangle_decode (mangle_encode tm (SocketV6 1 p 0 0)) = SocketV6 1 p 0 0" by (simp add: all try_into_v4_def)
qed

end
