(* ===== verification/LanAddrs.thy ===== *)
theory LanAddrs
  imports NetAddr
begin

text \<open>
  The address side of LAN discovery, \<^verbatim>\<open>src/lan.rs\<close>: which of its addresses a host advertises
  (\<open>pick_tailscale_addrs\<close>, \<open>advertised_addrs\<close>), what a client reads back from a discovery reply or a
  login response (\<open>parse_advertised_addrs\<close>, \<open>login_addrs\<close>), and which hosts a discovery run probes
  (\<open>tailscale_peer_ips\<close>, \<open>known_tailscale_ips\<close>, \<open>scan_targets\<close>). JSON text is read and printed by
  \<open>serde_json\<close>, two parameters on the value type below; the interface list, the output of the
  \<open>tailscale\<close> command and the stored peers are arguments.
\<close>

section \<open>JSON values\<close>

text \<open>\<open>serde_json::Value\<close>; numbers keep their text, no code below looks into them.\<close>

datatype json = JNull | JBool bool | JNumber string | JString string | JArray "json list"
  | JObject "(string \<times> json) list"

fun json_get :: "json \<Rightarrow> string \<Rightarrow> json option" where
  "json_get (JObject kvs) k = map_of kvs k"
| "json_get _ k = None"

fun as_array :: "json \<Rightarrow> json list option" where
  "as_array (JArray vs) = Some vs"
| "as_array _ = None"

fun as_str :: "json \<Rightarrow> string option" where
  "as_str (JString s) = Some s"
| "as_str _ = None"

definition json_list :: "json \<Rightarrow> string \<Rightarrow> json list option" where
  "json_list v k = Option.bind (json_get v k) as_array"

section \<open>Advertised addresses\<close>

definition is_tailscale_ip :: "u32 \<Rightarrow> bool" where
  "is_tailscale_ip u \<longleftrightarrow> u AND 0xFFC00000 = 0x64400000"

fun pick_tailscale_loop :: "ip_addr option \<Rightarrow> u32 list \<Rightarrow> string list \<Rightarrow> string list" where
  "pick_tailscale_loop except [] addrs = addrs"
| "pick_tailscale_loop except (ip # ips) addrs =
     (if \<not> is_tailscale_ip ip \<or> except = Some (IpV4 ip) then pick_tailscale_loop except ips addrs
      else pick_tailscale_loop except ips (push_new (ipv4_to_string ip) addrs))"

definition pick_tailscale_addrs :: "u32 list \<Rightarrow> ip_addr option \<Rightarrow> string list" where
  "pick_tailscale_addrs ips except = pick_tailscale_loop (map_option to_canonical except) ips []"

definition host_tailscale_addrs :: "(u32 \<times> u32) list \<Rightarrow> ip_addr option \<Rightarrow> string list" where
  "host_tailscale_addrs networks except = pick_tailscale_addrs (map fst networks) except"

definition addrs_json :: "string list \<Rightarrow> json" where
  "addrs_json addrs = JObject [(''addrs'', JArray (map JString addrs))]"

definition advertised_addrs :: "(json \<Rightarrow> string) \<Rightarrow> (u32 \<times> u32) list \<Rightarrow> ip_addr \<Rightarrow> string" where
  "advertised_addrs to_str networks self_addr =
     (let addrs = host_tailscale_addrs networks (Some self_addr) in
      if addrs = [] then [] else to_str (addrs_json addrs))"

text \<open>One element of the \<open>addrs\<close> array: a string that trims to an IPv4 address.\<close>

definition addr_item :: "json \<Rightarrow> u32 option" where
  "addr_item a = Option.bind (as_str a) (\<lambda>s. parse_ipv4 (trim s))"

fun parse_addrs_loop :: "(u32 \<Rightarrow> string \<Rightarrow> bool) \<Rightarrow> json list \<Rightarrow> string list \<Rightarrow> string list" where
  "parse_addrs_loop keep [] out = out"
| "parse_addrs_loop keep (a # as) out =
     (case addr_item a of
        Some ip \<Rightarrow> parse_addrs_loop keep as
          (if keep ip (ipv4_to_string ip) then push_new (ipv4_to_string ip) out else out)
      | None \<Rightarrow> parse_addrs_loop keep as out)"

definition parse_advertised_addrs :: "(string \<Rightarrow> json option) \<Rightarrow> string \<Rightarrow> string list" where
  "parse_advertised_addrs from_str misc =
     (if misc = [] then []
      else case Option.bind (from_str misc) (\<lambda>v. json_list v ''addrs'') of
          Some list \<Rightarrow> parse_addrs_loop (\<lambda>ip _. is_tailscale_ip ip) list []
        | None \<Rightarrow> [])"

definition this_host :: "string \<Rightarrow> string" where
  "this_host this_id = trim
     (case rsplit_once (CHR '':'') this_id of
        Some (host, port) \<Rightarrow>
          if parse_unsigned 65535 port \<noteq> None \<and> CHR '']'' \<notin> set host then host else this_id
      | None \<Rightarrow> this_id)"

definition login_addrs :: "(string \<Rightarrow> json option) \<Rightarrow> string \<Rightarrow> string \<Rightarrow> string list" where
  "login_addrs from_str platform_additions this_id =
     (if platform_additions = [] then []
      else case Option.bind (from_str platform_additions) (\<lambda>v. json_list v ''addrs'') of
          Some list \<Rightarrow> parse_addrs_loop (\<lambda>ip s. is_tailscale_ip ip \<and> s \<noteq> this_host this_id) (take 16 list) []
        | None \<Rightarrow> [])"

section \<open>Scan targets\<close>

text \<open>The output of one candidate command: \<open>None\<close> when it could not be run or failed.\<close>

definition status_line_ip :: "string \<Rightarrow> u32 option" where
  "status_line_ip line = Option.bind (split_whitespace_first line)
     (\<lambda>tok. Option.bind (parse_ipv4 tok) (\<lambda>ip. if is_tailscale_ip ip then Some ip else None))"

fun tailscale_peer_ips :: "string option list \<Rightarrow> u32 list" where
  "tailscale_peer_ips [] = []"
| "tailscale_peer_ips (Some out # _) = List.map_filter status_line_ip (str_lines out)"
| "tailscale_peer_ips (None # outs) = tailscale_peer_ips outs"

definition known_push :: "string \<Rightarrow> u32 list \<Rightarrow> u32 list" where
  "known_push pid ips =
     (case parse_ipv4 (trim pid) of
        Some ip \<Rightarrow> if is_tailscale_ip ip then push_new ip ips else ips
      | None \<Rightarrow> ips)"

definition known_tailscale_ips :: "string list \<Rightarrow> string list \<Rightarrow> u32 list" where
  "known_tailscale_ips lan_ids peer_ids = fold known_push peer_ids (fold known_push lan_ids [])"

definition count_ones :: "u32 \<Rightarrow> nat" where
  "count_ones w = length (filter (bit w) [0..<32])"

type_synonym scan = "u32 set \<times> u32 list"

definition see :: "u32 \<Rightarrow> scan \<Rightarrow> scan" where
  "see h = (\<lambda>(seen, targets). if h \<in> seen then (seen, targets) else (insert h seen, targets @ [h]))"

function scan_hosts :: "u32 \<Rightarrow> u32 \<Rightarrow> u32 \<Rightarrow> scan \<Rightarrow> scan" where
  "scan_hosts addr broadcast h st =
     (if h < broadcast then scan_hosts addr broadcast (h + 1) (if h \<noteq> addr then see h st else st) else st)"
  by auto
termination
proof (relation "measure (\<lambda>(addr, broadcast, h, st). unat broadcast - unat h)")
  fix addr broadcast h :: u32 and st :: scan
  assume lt: "h < broadcast"
  then have "unat h < unat broadcast" by (simp add: word_less_nat_alt)
  moreover have "unat (h + 1) = Suc (unat h)"
    using calculation unat_u32_less [of broadcast] by (simp add: unat_word_ariths)
  ultimately show "((addr, broadcast, h + 1, if h \<noteq> addr then see h st else st), addr, broadcast, h, st)
      \<in> measure (\<lambda>(addr, broadcast, h, st). unat broadcast - unat h)"
    by simp
qed simp

declare scan_hosts.simps [simp del]

definition scannable :: "u32 \<Rightarrow> u32 \<Rightarrow> bool" where
  "scannable addr netmask \<longleftrightarrow>
     \<not> (drop_bit 24 addr = 127 \<or> addr = 0) \<and> \<not> is_tailscale_ip addr \<and>
     \<not> (netmask = 0 \<or> count_ones netmask < 22)"

definition scan_network :: "u32 \<times> u32 \<Rightarrow> scan \<Rightarrow> scan" where
  "scan_network = (\<lambda>(addr, netmask) st.
     if scannable addr netmask then
       (let network = addr AND netmask; broadcast = network OR NOT netmask
        in scan_hosts addr broadcast (network + 1) st)
     else st)"

definition scan_targets :: "(u32 \<times> u32) list \<Rightarrow> u32 list \<Rightarrow> u32 list \<Rightarrow> u32 list" where
  "scan_targets networks tailscale_ips known_ips =
     snd (fold see known_ips (fold see tailscale_ips (fold scan_network networks ({}, []))))"

section \<open>What is advertised and read back\<close>

lemma pick_tailscale_loop_eq:
  "pick_tailscale_loop except ips addrs = fold push_new
     (map ipv4_to_string (filter (\<lambda>ip. is_tailscale_ip ip \<and> except \<noteq> Some (IpV4 ip)) ips)) addrs"
  by (induction ips arbitrary: addrs) auto

lemma pick_tailscale_addrs_eq:
  "pick_tailscale_addrs ips except = dedup (map ipv4_to_string
     (filter (\<lambda>ip. is_tailscale_ip ip \<and> map_option to_canonical except \<noteq> Some (IpV4 ip)) ips))"
  by (simp add: pick_tailscale_addrs_def pick_tailscale_loop_eq dedup_def)

lemma parse_addrs_loop_eq:
  "parse_addrs_loop keep vs out = fold push_new
     (map ipv4_to_string (filter (\<lambda>ip. keep ip (ipv4_to_string ip)) (List.map_filter addr_item vs))) out"
  by (induction vs arbitrary: out) (auto simp: List.map_filter_def split: option.splits)

lemma addr_item_string [simp]: "addr_item (JString (ipv4_to_string ip)) = Some ip"
  by (simp add: addr_item_def)

lemma addr_items: "List.map_filter addr_item (map JString (map ipv4_to_string ips)) = ips"
  by (induction ips) (simp_all add: List.map_filter_def)

lemma parse_addrs_json:
  "json_list (addrs_json addrs) ''addrs'' = Some (map JString addrs)"
  by (simp add: json_list_def addrs_json_def)

lemma dedup_ipv4:
  "\<exists>l. dedup (map ipv4_to_string ips) = map ipv4_to_string l \<and> set l = set ips \<and> distinct l"
proof -
  have "\<exists>l. dedup (map ipv4_to_string ips) = map ipv4_to_string l"
    unfolding ex_map_conv by auto
  then obtain l where l: "dedup (map ipv4_to_string ips) = map ipv4_to_string l" ..
  have "inj ipv4_to_string" by (simp add: inj_def)
  moreover have "ipv4_to_string ` set l = ipv4_to_string ` set ips" by (metis l list.set_map set_dedup)
  moreover have "distinct (map ipv4_to_string l)" by (metis l distinct_dedup)
  ultimately show ?thesis using l by (metis distinct_map inj_image_eq_iff)
qed

text \<open>A client that receives the discovery reply of a host reads exactly the host's Tailscale
  addresses other than the one the reply leaves from (also when that one comes as an IPv4-mapped
  IPv6 address), each once, provided JSON text reads back as the value it was printed from.\<close>

theorem advertised_addrs_roundtrip:
  fixes networks self_addr
  defines "addrs \<equiv> host_tailscale_addrs networks (Some self_addr)"
  assumes json: "from_str (to_str (addrs_json addrs)) = Some (addrs_json addrs)"
    and nonempty: "to_str (addrs_json addrs) \<noteq> []"
  shows "parse_advertised_addrs from_str (advertised_addrs to_str networks self_addr) = addrs \<and>
    distinct addrs \<and>
    set addrs = {ipv4_to_string ip | ip mask.
      (ip, mask) \<in> set networks \<and> is_tailscale_ip ip \<and> to_canonical self_addr \<noteq> IpV4 ip}"
proof -
  let ?ips = "filter (\<lambda>ip. is_tailscale_ip ip \<and> to_canonical self_addr \<noteq> IpV4 ip) (map fst networks)"
  have a: "addrs = dedup (map ipv4_to_string ?ips)"
    by (simp add: addrs_def host_tailscale_addrs_def pick_tailscale_addrs_eq)
  obtain l where l: "addrs = map ipv4_to_string l" "set l = set ?ips" "distinct l"
    using dedup_ipv4 [of ?ips] a by metis
  have "filter is_tailscale_ip l = l" using l(2) by (auto intro!: filter_True)
  moreover have "distinct (map ipv4_to_string l)" unfolding l(1) [symmetric] a by simp
  ultimately have "parse_addrs_loop (\<lambda>ip _. is_tailscale_ip ip) (map JString addrs) [] = addrs"
    unfolding parse_addrs_loop_eq l(1) addr_items by (simp add: fold_push_new_distinct)
  then have "parse_advertised_addrs from_str (advertised_addrs to_str networks self_addr) = addrs"
    using json nonempty unfolding advertised_addrs_def Let_def parse_advertised_addrs_def addrs_def [symmetric]
    by (simp add: parse_addrs_json)
  moreover have "set addrs = {ipv4_to_string ip | ip mask.
      (ip, mask) \<in> set networks \<and> is_tailscale_ip ip \<and> to_canonical self_addr \<noteq> IpV4 ip}"
    unfolding a by (auto simp: image_iff) force
  ultimately show ?thesis by (simp add: a)
qed

theorem advertised_addrs_roundtrip_witness:
  "(let networks = [(0xC0A80173, 0xFFFFFF00), (0x64400002, 0xFFFFFFFF), (0x64400009, 0xFFFFFFFF)];
        self = IpV6 0xFFFF64400009;
        v = addrs_json [''100.64.0.2''];
        to_str = (\<lambda>_. ''{...}''); from_str = (\<lambda>s. if s = ''{...}'' then Some v else None)
    in parse_advertised_addrs from_str (advertised_addrs to_str networks self) = [''100.64.0.2''])"
proof -
  let ?nets = "[(0xC0A80173, 0xFFFFFF00), (0x64400002, 0xFFFFFFFF), (0x64400009, 0xFFFFFFFF)]"
  have h: "host_tailscale_addrs ?nets (Some (IpV6 0xFFFF64400009)) = [''100.64.0.2'']"
    by (simp add: host_tailscale_addrs_def pick_tailscale_addrs_def push_new_def is_tailscale_ip_def ipv4_to_string_def octet_def nat_to_str.simps digit_chars)
  show ?thesis
    using advertised_addrs_roundtrip [where networks = ?nets and self_addr = "IpV6 0xFFFF64400009"
        and to_str = "\<lambda>_. ''{...}''"
        and from_str = "\<lambda>s. if s = ''{...}'' then Some (addrs_json [''100.64.0.2'']) else None"]
    by (simp add: h)
qed

text \<open>Whatever a host puts into its login response, the client files at most sixteen distinct
  addresses from it, all Tailscale IPv4 addresses and none the one it is connected through.\<close>

theorem login_addrs_safe:
  "length (login_addrs from_str pa this_id) \<le> 16 \<and> distinct (login_addrs from_str pa this_id) \<and>
   set (login_addrs from_str pa this_id) \<subseteq>
     ipv4_to_string ` {ip. is_tailscale_ip ip} - {this_host this_id}"
proof (cases "pa = [] \<or> Option.bind (from_str pa) (\<lambda>v. json_list v ''addrs'') = None")
  case True
  then show ?thesis by (auto simp: login_addrs_def)
next
  case False
  then obtain vs where vs: "pa \<noteq> []" "Option.bind (from_str pa) (\<lambda>v. json_list v ''addrs'') = Some vs" by auto
  let ?l = "map ipv4_to_string (filter (\<lambda>ip. is_tailscale_ip ip \<and> ipv4_to_string ip \<noteq> this_host this_id)
    (List.map_filter addr_item (take 16 vs)))"
  have eq: "login_addrs from_str pa this_id = dedup ?l"
    using vs by (simp add: login_addrs_def parse_addrs_loop_eq dedup_def)
  have "length ?l \<le> length (List.map_filter addr_item (take 16 vs))" by simp
  also have "\<dots> \<le> length (take 16 vs)" by (simp only: List.map_filter_def length_map length_filter_le)
  finally have "length (dedup ?l) \<le> 16" using length_dedup [of ?l] by simp
  then show ?thesis unfolding eq by auto
qed

section \<open>What is probed\<close>

lemma fold_see:
  assumes "seen = set ts"
  shows "\<exists>us. fold see hs (seen, ts) = (set us, us) \<and> set us = set ts \<union> set hs \<and> (distinct ts \<longrightarrow> distinct us)"
  using assms
proof (induction hs arbitrary: seen ts)
  case (Cons h hs)
  let ?ts = "if h \<in> set ts then ts else ts @ [h]"
  have "see h (seen, ts) = (set ?ts, ?ts)" using Cons.prems by (simp add: see_def)
  moreover obtain us where "fold see hs (set ?ts, ?ts) = (set us, us)" "set us = set ?ts \<union> set hs"
    "distinct ?ts \<longrightarrow> distinct us"
    using Cons.IH [of "set ?ts" ?ts] by auto
  ultimately have "fold see (h # hs) (seen, ts) = (set us, us) \<and> set us = set ts \<union> set (h # hs) \<and>
      (distinct ts \<longrightarrow> distinct us)"
    by auto
  then show ?case ..
qed auto

lemma scan_hosts_fold:
  "scan_hosts addr b h st = fold see (filter (\<lambda>x. x \<noteq> addr) (map word_of_nat [unat h..<unat b])) st"
proof (induction addr b h st rule: scan_hosts.induct)
  case (1 addr b h st)
  show ?case
  proof (cases "h < b")
    case True
    then have lt: "unat h < unat b" by (simp add: word_less_nat_alt)
    then have "unat (h + 1) = Suc (unat h)"
      using unat_u32_less [of b] by (simp add: unat_word_ariths)
    with "1.IH" [OF True] True lt show ?thesis
      by (simp add: scan_hosts.simps [of addr b h] upt_conv_Cons)
  next
    case False
    then have "unat b \<le> unat h" by (simp add: word_less_nat_alt)
    with False show ?thesis by (simp add: scan_hosts.simps [of addr b h])
  qed
qed

text \<open>The hosts a network contributes.\<close>

definition network_hosts :: "u32 \<Rightarrow> u32 \<Rightarrow> u32 list" where
  "network_hosts addr netmask =
     (if scannable addr netmask then
        filter (\<lambda>x. x \<noteq> addr) (map word_of_nat [unat ((addr AND netmask) + 1)..<unat ((addr AND netmask) OR NOT netmask)])
      else [])"

lemma scan_network_fold: "scan_network (addr, netmask) st = fold see (network_hosts addr netmask) st"
  by (simp add: scan_network_def network_hosts_def scan_hosts_fold Let_def)

lemma set_network_hosts:
  "set (network_hosts addr netmask) =
     {h. scannable addr netmask \<and> (addr AND netmask) + 1 \<le> h \<and> h < (addr AND netmask) OR NOT netmask \<and> h \<noteq> addr}"
    (is "_ = ?R")
proof (cases "scannable addr netmask")
  case True
  let ?lo = "(addr AND netmask) + 1" and ?hi = "(addr AND netmask) OR NOT netmask"
  have "word_of_nat ` {unat ?lo..<unat ?hi} = {h. ?lo \<le> h \<and> h < ?hi}"
  proof (intro equalityI subsetI)
    fix h :: u32 assume "h \<in> word_of_nat ` {unat ?lo..<unat ?hi}"
    then obtain n where n: "h = word_of_nat n" "unat ?lo \<le> n" "n < unat ?hi" by auto
    then have "unat h = n" using unat_u32_less [of ?hi] by (simp add: unat_of_nat)
    with n show "h \<in> {h. ?lo \<le> h \<and> h < ?hi}" by (simp add: word_le_nat_alt word_less_nat_alt)
  next
    fix h :: u32 assume "h \<in> {h. ?lo \<le> h \<and> h < ?hi}"
    then have "unat h \<in> {unat ?lo..<unat ?hi}" by (simp add: word_le_nat_alt word_less_nat_alt)
    then show "h \<in> word_of_nat ` {unat ?lo..<unat ?hi}" by (intro image_eqI [of _ _ "unat h"]) simp_all
  qed
  with True show ?thesis by (auto simp: network_hosts_def)
qed (simp add: network_hosts_def)

lemma scan_targets_fold:
  "scan_targets networks ts known =
     snd (fold see (concat (map (\<lambda>(a, m). network_hosts a m) networks) @ ts @ known) ({}, []))"
proof -
  have "fold scan_network networks st = fold see (concat (map (\<lambda>(a, m). network_hosts a m) networks)) st" for st
    by (induction networks arbitrary: st) (auto simp: scan_network_fold)
  then show ?thesis by (simp add: scan_targets_def)
qed

text \<open>A discovery run probes exactly the hosts of the local networks worth scanning, other than
  the interface's own address, and the Tailscale peers it knows, each of them once.\<close>

theorem scan_targets_exact:
  "distinct (scan_targets networks ts known) \<and>
   set (scan_targets networks ts known) =
     {h. \<exists>addr mask. (addr, mask) \<in> set networks \<and> scannable addr mask \<and>
          (addr AND mask) + 1 \<le> h \<and> h < (addr AND mask) OR NOT mask \<and> h \<noteq> addr} \<union> set ts \<union> set known"
proof -
  let ?hs = "concat (map (\<lambda>(a, m). network_hosts a m) networks) @ ts @ known"
  obtain us where "fold see ?hs ({}, []) = (set us, us)" "set us = set ?hs" "distinct us"
    using fold_see [of "{}" "[]" ?hs] by auto
  then have "distinct (scan_targets networks ts known) \<and> set (scan_targets networks ts known) = set ?hs"
    by (simp add: scan_targets_fold)
  then show ?thesis by (auto simp: set_network_hosts)
qed

text \<open>A network mask is contiguous when its zeros are its low bits.\<close>

definition prefix_mask :: "nat \<Rightarrow> u32" where
  "prefix_mask k = NOT (mask (32 - k))"

lemma count_ones_prefix_mask: "k \<le> 32 \<Longrightarrow> count_ones (prefix_mask k) = k"
proof -
  assume k: "k \<le> 32"
  have "filter (bit (prefix_mask k)) [0..<32] = filter (\<lambda>i. 32 - k \<le> i) [0..<32]"
    by (rule filter_cong) (auto simp: prefix_mask_def bit_simps not_less)
  also have "\<dots> = [32 - k..<32]"
  proof -
    have "[0..<32] = [0..<32 - k] @ [32 - k..<32]" using k by (metis le0 diff_le_self le_add_diff_inverse upt_add_eq_append)
    moreover have "filter (\<lambda>i. 32 - k \<le> i) [0..<32 - k] = []" by (simp add: filter_empty_conv)
    ultimately show ?thesis by (metis append_Nil filter_True filter_append atLeastLessThan_iff set_upt)
  qed
  finally show ?thesis using k by (simp add: count_ones_def)
qed

lemma prefix_network:
  assumes k: "k \<le> 32" and a: "addr \<noteq> 0xFFFFFFFF"
  shows "unat ((addr AND prefix_mask k) OR NOT (prefix_mask k)) - unat ((addr AND prefix_mask k) + 1) \<le> 2 ^ (32 - k) - 2"
proof -
  let ?j = "32 - k"
  let ?net = "addr AND prefix_mask k"
  have "?net + take_bit ?j (NOT 0) = ?net OR take_bit ?j (NOT 0)"
    by (rule disjunctive_add) (auto simp: prefix_mask_def bit_simps)
  then have b: "?net OR NOT (prefix_mask k) = ?net + mask ?j"
    by (simp add: prefix_mask_def take_bit_minus_one_eq_mask)
  have "unat (take_bit ?j (- 1 :: u32)) = take_bit ?j (unat (- 1 :: u32))" by (rule unsigned_take_bit_eq)
  moreover have "take_bit ?j (unat (- 1 :: u32)) < 2 ^ ?j" by (rule take_bit_nat_less_exp)
  ultimately have m: "unat (mask ?j :: u32) < 2 ^ ?j" by (simp only: take_bit_minus_one_eq_mask)
  show ?thesis
  proof (cases "?net = 0xFFFFFFFF")
    case True
    have "addr = ?net OR addr" by (rule bit_eqI) (auto simp: bit_simps)
    also have "\<dots> = 0xFFFFFFFF"
    proof -
      have f: "(0xFFFFFFFF :: u32) = - 1" by simp
      show ?thesis unfolding True unfolding f by simp
    qed
    finally have "addr = 0xFFFFFFFF" .
    with a show ?thesis by simp
  next
    case False
    have f: "(0xFFFFFFFF :: u32) = - 1" by simp
    from False have "1 + ?net \<noteq> 0" unfolding f by (metis add_eq_0_iff)
    then have "unat (?net + 1) = unat ?net + 1" using unatSuc [of ?net] by (simp add: add.commute)
    moreover have "unat (?net + mask ?j) \<le> unat ?net + unat (mask ?j :: u32)"
      by (simp only: unat_word_ariths mod_less_eq_dividend)
    ultimately show ?thesis using m unfolding b by linarith
  qed
qed

text \<open>The scan is bounded: with contiguous masks (and no interface at 255.255.255.255) each
  interface contributes at most 1022 hosts, whatever its mask.\<close>

theorem scan_targets_bounded:
  assumes nets: "\<forall>(addr, mask) \<in> set networks. addr \<noteq> 0xFFFFFFFF \<and> (\<exists>k \<le> 32. mask = prefix_mask k)"
  shows "length (scan_targets networks ts known) \<le> 1022 * length networks + length ts + length known"
proof -
  have one: "length (network_hosts addr m) \<le> 1022" if net: "(addr, m) \<in> set networks" for addr m
  proof (cases "scannable addr m")
    case True
    obtain k where k: "k \<le> 32" "m = prefix_mask k" and a: "addr \<noteq> 0xFFFFFFFF" using nets net by auto
    then have "22 \<le> k" using True by (simp add: scannable_def count_ones_prefix_mask)
    then have "(2 :: nat) ^ (32 - k) \<le> 2 ^ 10" by (intro power_increasing) auto
    then have "(2 :: nat) ^ (32 - k) - 2 \<le> 1022" by simp
    then show ?thesis
      using prefix_network [OF k(1) a] unfolding network_hosts_def k(2)
      by (auto intro!: order.trans [OF length_filter_le])
  qed (simp add: network_hosts_def)
  have "length (concat (map (\<lambda>(a, m). network_hosts a m) ns)) \<le> 1022 * length ns" if "set ns \<subseteq> set networks" for ns
    using that by (induction ns) (auto dest: one)
  then have c: "length (concat (map (\<lambda>(a, m). network_hosts a m) networks)) \<le> 1022 * length networks" by simp
  have "length (snd (fold see hs (s, us))) \<le> length us + length hs" for hs s us
  proof (induction hs arbitrary: s us)
    case (Cons h hs)
    show ?case using Cons.IH [of s us] Cons.IH [of "insert h s" "us @ [h]"] by (simp add: see_def)
  qed simp
  from this [of "concat (map (\<lambda>(a, m). network_hosts a m) networks) @ ts @ known" "{}" "[]"] c
  show ?thesis unfolding scan_targets_fold length_append list.size by linarith
qed

theorem scan_targets_bounded_witness:
  "length (scan_targets [(0xC0A80105, 0xFFFFFFFC)] [0x64400007] []) \<le> 1023 \<and> (0xFFFFFFFC = prefix_mask 30)"
proof -
  have m: "prefix_mask 30 = 0xFFFFFFFC" by (simp add: prefix_mask_def mask_eq_exp_minus_1)
  then have "\<exists>k \<le> 32. 0xFFFFFFFC = prefix_mask k" by (intro exI [of _ 30]) simp
  then show ?thesis
    using scan_targets_bounded [of "[(0xC0A80105, 0xFFFFFFFC)]" "[0x64400007]" "[]"] m by simp
qed

end
