(* ===== verification/Options.thy ===== *)
theory Options
  imports RustStr
begin

text \<open>
  Options and permissions: \<open>option2bool\<close> of \<^verbatim>\<open>libs/hbb_common/src/config.rs\<close>, the permission bits a rendezvous
  server may impose (\<open>get_control_permission\<close>, \<^verbatim>\<open>src/common.rs\<close>), and the decision of
  \<^verbatim>\<open>src/server/connection.rs\<close> whether a kind of access is allowed (\<open>permission\<close>).
\<close>

unbundle bit_operations_syntax

definition starts_with :: "string \<Rightarrow> string \<Rightarrow> bool" where
  "starts_with s p \<longleftrightarrow> take (length p) s = p"

definition option2bool :: "string \<Rightarrow> string \<Rightarrow> bool" where
  "option2bool option value =
     (if starts_with option ''enable-'' then value \<noteq> ''N''
      else if starts_with option ''allow-'' \<or> option = ''stop-service'' \<or> option = ''direct-server''
        \<or> option = ''force-always-relay'' then value = ''Y''
      else value \<noteq> ''N'')"

text \<open>The host's options; \<open>ho_desktop_flutter\<close> tells a desktop build with the Flutter interface, the one
  that knows the access mode. \<open>ho_control\<close> are the imposed permission bits.\<close>

record host_options =
  ho_get :: "string \<Rightarrow> string"
  ho_desktop_flutter :: bool
  ho_control :: "64 word option"

definition get_control_permission :: "64 word \<Rightarrow> int \<Rightarrow> bool option" where
  "get_control_permission permissions index =
     (if index \<ge> 0 \<and> index < 32 then
        (let value = drop_bit (nat (index * 2)) permissions AND 3 in
         if value = 1 then Some False else if value = 2 then Some True else None)
      else None)"

definition permission_index :: "string \<Rightarrow> int option" where
  "permission_index option = map_of
     [(''enable-keyboard'', 0), (''enable-remote-printer'', 1), (''enable-clipboard'', 2), (''enable-file-transfer'', 3),
      (''enable-audio'', 4), (''enable-camera'', 5), (''enable-terminal'', 6), (''enable-tunnel'', 7),
      (''enable-remote-restart'', 8), (''enable-record-session'', 9), (''enable-block-input'', 10),
      (''enable-privacy-mode'', 12)] option"

definition is_permission_enabled_locally :: "host_options \<Rightarrow> string \<Rightarrow> bool" where
  "is_permission_enabled_locally ho option =
     (if ho_desktop_flutter ho \<and> ho_get ho ''access-mode'' = ''full'' then True
      else if ho_desktop_flutter ho \<and> ho_get ho ''access-mode'' = ''view'' then False
      else option2bool option (ho_get ho option))"

definition permission :: "host_options \<Rightarrow> string \<Rightarrow> bool" where
  "permission ho option =
     (case (case ho_control ho of
              Some bits \<Rightarrow> Option.bind (permission_index option) (get_control_permission bits)
            | None \<Rightarrow> None) of
        Some enabled \<Rightarrow> enabled
      | None \<Rightarrow> is_permission_enabled_locally ho option)"

section \<open>Properties\<close>

text \<open>Two bits per permission, written as the sum a server builds.\<close>

definition set_control :: "nat \<Rightarrow> bool \<Rightarrow> 64 word \<Rightarrow> 64 word" where
  "set_control i allow bits = (bits AND NOT (push_bit (2 * i) 3)) OR push_bit (2 * i) (if allow then 2 else 1)"

lemma get_set_control:
  assumes "i < 32" "j < 32"
  shows "get_control_permission (set_control i allow bits) (int j) =
    (if i = j then Some allow else get_control_permission bits (int j))"
proof -
  have "drop_bit (2 * j) (set_control i allow bits) AND 3 = (if i = j then (if allow then 2 else 1) else drop_bit (2 * j) bits AND 3)"
  proof (rule bit_eqI)
    fix n assume "possible_bit TYPE(64 word) n"
    have three: "bit (3 :: 64 word) k \<longleftrightarrow> k < 2" for k
      using bit_mask_iff [of 2 k, where 'a = "64 word"] by (auto simp: mask_eq_exp_minus_1 possible_bit_def)
    have two: "bit (2 :: 64 word) k \<longleftrightarrow> k = 1" for k
      using bit_exp_iff [of 1 k, where 'a = "64 word"] by (auto simp: possible_bit_def)
    have one: "bit (1 :: 64 word) k \<longleftrightarrow> k = 0" for k by (simp add: bit_1_iff)
    have len: "2 * j + n < 64" if "n < 2" using that assms(2) by linarith
    have same: "2 * j + n - 2 * i < 2 \<longleftrightarrow> i = j" if "n < 2" "2 * i \<le> 2 * j + n" using that by linarith
    have "bit (set_control i allow bits) (2 * j + n) =
        (if i = j then n = (if allow then 1 else 0) else bit bits (2 * j + n))" if n: "n < 2"
    proof (cases "2 * i \<le> 2 * j + n")
      case True
      have "bit (set_control i allow bits) (2 * j + n) \<longleftrightarrow>
          bit bits (2 * j + n) \<and> \<not> 2 * j + n - 2 * i < 2 \<or> 2 * j + n - 2 * i = (if allow then 1 else 0)"
        using True len [OF n] two [of "2 * j + n - 2 * i"] one [of "2 * j + n - 2 * i"]
        by (cases allow) (auto simp only: set_control_def bit_or_iff bit_and_iff bit_not_iff bit_push_bit_iff three
            possible_bit_word if_True if_False word_size len_of_numeral_defs)
      then show ?thesis using same [OF n True] n by auto
    next
      case False
      then have "i \<noteq> j" by auto
      moreover have "bit (set_control i allow bits) (2 * j + n) \<longleftrightarrow> bit bits (2 * j + n)"
        using False len [OF n] by (simp add: set_control_def bit_or_iff bit_and_iff bit_not_iff bit_push_bit_iff)
      ultimately show ?thesis by simp
    qed
    then show "bit (drop_bit (2 * j) (set_control i allow bits) AND 3) n =
        bit (if i = j then (if allow then 2 else 1) else drop_bit (2 * j) bits AND 3) n"
      by (auto simp only: bit_and_iff bit_drop_bit_eq o_apply three two one split: if_splits)
  qed
  moreover have "nat (int j * 2) = 2 * j" by simp
  ultimately show ?thesis using assms unfolding get_control_permission_def Let_def by (cases "i = j"; cases allow) simp_all
qed

text \<open>An imposed permission decides, and only for its own kind of access: setting the bits of one
  permission to allow or to refuse makes the host allow or refuse that access whatever its own options say,
  and changes no other decision.\<close>

theorem imposed_permission_decides:
  assumes "permission_index option = Some (int i)" and "ho_control ho = Some bits"
  shows "permission (ho\<lparr>ho_control := Some (set_control i allow bits)\<rparr>) option = allow \<and>
    (\<forall>other. permission_index other \<noteq> Some (int i) \<longrightarrow>
       permission (ho\<lparr>ho_control := Some (set_control i allow bits)\<rparr>) other = permission ho other)"
proof -
  have idx: "k < 32" if "permission_index other = Some (int k)" for other k
    using that by (auto simp: permission_index_def split: if_splits)
  have nat: "\<exists>k. permission_index other = Some (int k)" if "permission_index other = Some x" for other x
  proof -
    from that have "0 \<le> x" by (auto simp: permission_index_def split: if_splits)
    then show ?thesis using that by (intro exI [of _ "nat x"]) simp
  qed
  have "permission (ho\<lparr>ho_control := Some (set_control i allow bits)\<rparr>) other = permission ho other"
    if "permission_index other \<noteq> Some (int i)" for other
  proof (cases "permission_index other")
    case None
    then show ?thesis using assms(2) by (simp add: permission_def is_permission_enabled_locally_def)
  next
    case (Some x)
    then obtain k where k: "permission_index other = Some (int k)" using nat by blast
    then have "k \<noteq> i" "k < 32" "i < 32" using that idx assms(1) by auto
    then show ?thesis using assms(2) k
      by (cases "get_control_permission bits (int k)") (simp_all add: permission_def get_set_control is_permission_enabled_locally_def)
  qed
  moreover have "i < 32" using assms(1) by (rule idx)
  then have "permission (ho\<lparr>ho_control := Some (set_control i allow bits)\<rparr>) option = allow"
    using assms(1) by (simp add: permission_def get_set_control)
  ultimately show ?thesis by blast
qed

theorem imposed_permission_decides_witness:
  "permission \<lparr>ho_get = (\<lambda>_. ''N''), ho_desktop_flutter = True, ho_control = Some (set_control 6 True 0)\<rparr> ''enable-terminal''"
  using imposed_permission_decides [of "''enable-terminal''" 6 "\<lparr>ho_get = (\<lambda>_. ''N''), ho_desktop_flutter = True, ho_control = Some 0\<rparr>" 0 True]
  by (simp add: permission_index_def)

end
