(* ===== verification/LanDiscovery.thy ===== *)
theory LanDiscovery
  imports LanAddrs Options "HOL-Library.Multiset"
begin

text \<open>
  The discovery protocol of \<^verbatim>\<open>src/lan.rs\<close>: the answer to a ping (\<open>start_listening\<close>), the client's
  collection of pongs (\<open>wait_response\<close>), the worker pool of the port scan (\<open>spawn_port_scan\<close>), the
  peer list both feed (\<open>handle_received_peers\<close>), and the tally of a run. Datagrams are decoded by the
  generated protobuf code, a parameter \<open>parse\<close>; the sockets are bound to IPv4 addresses, so a sender
  is a \<open>u32\<close>. Instants are nanoseconds.
\<close>

section \<open>The tally of a run\<close>

record stats =
  st_run :: u32
  st_replies :: u32
  st_hits :: u32
  st_done :: bool

datatype counter = Replies | PortHits

definition discovery_stats :: "stats \<Rightarrow> u32 \<times> u32 \<times> u32 \<times> bool" where
  "discovery_stats s = (st_run s, st_replies s, st_hits s, st_done s)"

definition begin_discovery_run :: "stats \<Rightarrow> u32 \<times> stats" where
  "begin_discovery_run s =
     (let s = s\<lparr>st_done := False\<rparr>;
          s = s\<lparr>st_replies := 0\<rparr>;
          s = s\<lparr>st_hits := 0\<rparr>
      in (st_run s + 1, s\<lparr>st_run := st_run s + 1\<rparr>))"

definition is_current_run :: "stats \<Rightarrow> u32 \<Rightarrow> bool" where
  "is_current_run s run \<longleftrightarrow> st_run s = run"

fun bump :: "counter \<Rightarrow> stats \<Rightarrow> stats" where
  "bump Replies s = s\<lparr>st_replies := st_replies s + 1\<rparr>"
| "bump PortHits s = s\<lparr>st_hits := st_hits s + 1\<rparr>"

definition tally :: "counter \<Rightarrow> u32 \<Rightarrow> stats \<Rightarrow> stats" where
  "tally c run s = (if is_current_run s run then bump c s else s)"

section \<open>Messages and peers\<close>

record peer_discovery =
  pd_cmd :: string
  pd_mac :: string
  pd_id :: string
  pd_username :: string
  pd_hostname :: string
  pd_platform :: string
  pd_misc :: string

datatype rendezvous_message = PeerDiscovery peer_discovery | OtherMessage

record discovery_peer =
  dp_id :: string
  dp_username :: string
  dp_hostname :: string
  dp_platform :: string
  dp_online :: bool
  dp_machine_id :: string
  dp_ip_mac :: "string \<rightharpoonup> string"

definition is_same_peer :: "discovery_peer \<Rightarrow> discovery_peer \<Rightarrow> bool" where
  "is_same_peer p q \<longleftrightarrow> dp_id p = dp_id q \<and> dp_username p = dp_username q"

section \<open>Interfaces and the reply of a host\<close>

record interface =
  if_ipv4 :: "(u32 \<times> u32) list"
  if_ipv6 :: "u128 list"
  if_mac :: "string option"

fun has_addr :: "ip_addr \<Rightarrow> interface \<Rightarrow> bool" where
  "has_addr (IpV4 a) i \<longleftrightarrow> a \<in> fst ` set (if_ipv4 i)"
| "has_addr (IpV6 a) i \<longleftrightarrow> a \<in> set (if_ipv6 i)"

fun get_mac_by_ip :: "interface list \<Rightarrow> ip_addr \<Rightarrow> string option" where
  "get_mac_by_ip [] ip = None"
| "get_mac_by_ip (i # is) ip =
     (if has_addr ip i then (case if_mac i of Some mac \<Rightarrow> Some mac | None \<Rightarrow> get_mac_by_ip is ip)
      else get_mac_by_ip is ip)"

definition get_mac :: "interface list \<Rightarrow> ip_addr \<Rightarrow> string" where
  "get_mac is ip = (case get_mac_by_ip is ip of Some mac \<Rightarrow> mac | None \<Rightarrow> [])"

definition local_ipv4_networks :: "interface list \<Rightarrow> (u32 \<times> u32) list" where
  "local_ipv4_networks is = concat (map if_ipv4 is)"

text \<open>What a host knows about itself; \<open>env_self_addr\<close> is \<open>get_ipaddr_by_peer\<close>, the local address the
  system routes a peer through.\<close>

record host_env =
  env_id :: string
  env_lan_option :: string
  env_hostname :: string
  env_username :: string
  env_platform :: string
  env_interfaces :: "interface list"
  env_self_addr :: "u32 \<Rightarrow> ip_addr option"

definition pong :: "(json \<Rightarrow> string) \<Rightarrow> host_env \<Rightarrow> ip_addr \<Rightarrow> peer_discovery" where
  "pong to_str env self_addr =
     \<lparr>pd_cmd = ''pong'', pd_mac = get_mac (env_interfaces env) self_addr, pd_id = env_id env,
      pd_username = env_username env,
      pd_hostname = (if env_hostname env = ''localhost'' then ''unknown'' else env_hostname env),
      pd_platform = env_platform env,
      pd_misc = advertised_addrs to_str (local_ipv4_networks (env_interfaces env)) self_addr\<rparr>"

definition answer_datagram ::
    "(bytes \<Rightarrow> rendezvous_message option) \<Rightarrow> (json \<Rightarrow> string) \<Rightarrow> host_env \<Rightarrow> bytes \<Rightarrow> u32 \<Rightarrow> peer_discovery option" where
  "answer_datagram parse to_str env buf addr =
     (case parse (take 2048 buf) of
        Some (PeerDiscovery p) \<Rightarrow>
          if pd_cmd p = ''ping'' \<and> option2bool ''enable-lan-discovery'' (env_lan_option env) then
            if pd_id p = env_id env then None
            else map_option (pong to_str env) (env_self_addr env addr)
          else None
      | _ \<Rightarrow> None)"

section \<open>Collecting the replies\<close>

text \<open>One thread of \<open>wait_response\<close>: its socket's local address (\<open>None\<close> when it cannot be read), its
  cached hardware address, the time of the last reply, and what it has sent down the channel.\<close>

record waiter =
  wt_mac :: "string option"
  wt_last_recv :: nat
  wt_sent :: "discovery_peer list"

record waiter_env =
  we_parse :: "bytes \<Rightarrow> rendezvous_message option"
  we_from_str :: "string \<Rightarrow> json option"
  we_local_addr :: "ip_addr option"
  we_interfaces :: "interface list"
  we_self_addr :: "u32 \<Rightarrow> ip_addr option"
  we_run :: u32

definition is_unspecified :: "ip_addr \<Rightarrow> bool" where
  "is_unspecified ip \<longleftrightarrow> ip = IpV4 0 \<or> ip = IpV6 0"

definition try_get_ip_by_peer :: "waiter_env \<Rightarrow> bool" where
  "try_get_ip_by_peer env = (case we_local_addr env of None \<Rightarrow> True | Some ip \<Rightarrow> is_unspecified ip)"

definition local_mac :: "waiter_env \<Rightarrow> u32 \<Rightarrow> waiter \<Rightarrow> string \<times> waiter" where
  "local_mac env addr w =
     (if try_get_ip_by_peer env then
        (case we_self_addr env addr of Some self \<Rightarrow> (get_mac (we_interfaces env) self, w) | None \<Rightarrow> ([], w))
      else case wt_mac w of
          Some m \<Rightarrow> (m, w)
        | None \<Rightarrow> (let m = (case we_local_addr env of Some ip \<Rightarrow> get_mac (we_interfaces env) ip | None \<Rightarrow> [])
                  in (m, w\<lparr>wt_mac := Some m\<rparr>)))"

definition replied_peer :: "peer_discovery \<Rightarrow> string \<Rightarrow> bool \<Rightarrow> discovery_peer" where
  "replied_peer p ip online =
     \<lparr>dp_id = ip, dp_username = pd_username p, dp_hostname = pd_hostname p, dp_platform = pd_platform p,
      dp_online = online, dp_machine_id = pd_id p, dp_ip_mac = [ip \<mapsto> pd_mac p]\<rparr>"

definition reply_peers :: "(string \<Rightarrow> json option) \<Rightarrow> u32 \<Rightarrow> peer_discovery \<Rightarrow> discovery_peer list" where
  "reply_peers from_str addr p =
     replied_peer p (ipv4_to_string addr) True #
     map (\<lambda>extra. replied_peer p extra False)
       (filter (\<lambda>extra. extra \<noteq> ipv4_to_string addr) (parse_advertised_addrs from_str (pd_misc p)))"

definition on_pong :: "waiter_env \<Rightarrow> u32 \<Rightarrow> peer_discovery \<Rightarrow> waiter \<times> stats \<Rightarrow> waiter \<times> stats" where
  "on_pong env addr p = (\<lambda>(w, s).
     (let (mac, w) = local_mac env addr w in
      if mac = [] \<and> pd_mac p = [] \<or> mac \<noteq> pd_mac p then
        (w\<lparr>wt_sent := wt_sent w @ reply_peers (we_from_str env) addr p\<rparr>, tally Replies (we_run env) s)
      else (w, s)))"

definition on_datagram :: "waiter_env \<Rightarrow> nat \<Rightarrow> bytes \<times> u32 \<Rightarrow> waiter \<times> stats \<Rightarrow> waiter \<times> stats" where
  "on_datagram env now = (\<lambda>(buf, addr) (w, s).
     (case we_parse env (take 2048 buf) of
        Some (PeerDiscovery p) \<Rightarrow>
          (let w = w\<lparr>wt_last_recv := now\<rparr> in if pd_cmd p = ''pong'' then on_pong env addr p (w, s) else (w, s))
      | _ \<Rightarrow> (w, s)))"

text \<open>One turn of the loop: what \<open>recv_from\<close> gave and when, and when the silence is measured.\<close>

record turn =
  tn_recv :: "(bytes \<times> u32) option"
  tn_recv_at :: nat
  tn_check_at :: nat

fun wait_response :: "waiter_env \<Rightarrow> turn list \<Rightarrow> waiter \<times> stats \<Rightarrow> (waiter \<times> stats) \<times> bool" where
  "wait_response env [] ws = (ws, False)"
| "wait_response env (t # ts) ws =
     (let ws = (case tn_recv t of Some d \<Rightarrow> on_datagram env (tn_recv_at t) d ws | None \<Rightarrow> ws) in
      if (tn_check_at t - wt_last_recv (fst ws)) div 1000000 > 3000 then (ws, True)
      else wait_response env ts ws)"

section \<open>The peer list\<close>

record receiver =
  rc_peers :: "discovery_peer list"
  rc_responses :: "string set"
  rc_last_write :: "nat option"
  rc_stores :: "discovery_peer list list"

definition merge_peer :: "discovery_peer \<Rightarrow> discovery_peer \<Rightarrow> discovery_peer" where
  "merge_peer peer peer1 = peer\<lparr>dp_ip_mac := dp_ip_mac peer ++ dp_ip_mac peer1, dp_online := True,
     dp_machine_id := (if dp_machine_id peer = [] then dp_machine_id peer1 else dp_machine_id peer)\<rparr>"

definition place_peer :: "bool \<Rightarrow> discovery_peer \<Rightarrow> discovery_peer list \<Rightarrow> discovery_peer list" where
  "place_peer in_response_set peer peers =
     (case List.extract (\<lambda>x. is_same_peer x peer) peers of
        Some (before, peer1, after) \<Rightarrow>
          (if in_response_set then merge_peer peer peer1 else peer) # before @ after
      | None \<Rightarrow> peer # peers)"

definition receive_peer :: "nat \<Rightarrow> discovery_peer \<Rightarrow> receiver \<Rightarrow> receiver" where
  "receive_peer now peer rc =
     (let in_response_set = dp_id peer \<in> rc_responses rc;
          peers = place_peer in_response_set peer (rc_peers rc);
          rc = rc\<lparr>rc_peers := peers, rc_responses := insert (dp_id peer) (rc_responses rc)\<rparr>
      in if (case rc_last_write rc of Some t \<Rightarrow> (now - t) div 1000000 > 300 | None \<Rightarrow> True)
         then rc\<lparr>rc_stores := rc_stores rc @ [peers], rc_last_write := Some now\<rparr>
         else rc)"

definition start_receiver :: "discovery_peer list \<Rightarrow> receiver" where
  "start_receiver stored =
     \<lparr>rc_peers = map (\<lambda>p. p\<lparr>dp_online := False\<rparr>) stored, rc_responses = {}, rc_last_write = None, rc_stores = []\<rparr>"

definition finish_run :: "u32 \<Rightarrow> stats \<Rightarrow> stats" where
  "finish_run run s = (if is_current_run s run then s\<lparr>st_done := True\<rparr> else s)"

text \<open>The peers that arrive, each with its instant, until every sender is gone; \<open>s\<close> is the tally at
  that moment. The result is the tally and every list written to the peer file, the last one last.\<close>

definition handle_received_peers ::
    "u32 \<Rightarrow> discovery_peer list \<Rightarrow> (discovery_peer \<times> nat) list \<Rightarrow> stats \<Rightarrow> stats \<times> discovery_peer list list" where
  "handle_received_peers run stored arrivals s =
     (let rc = fold (\<lambda>(peer, now). receive_peer now peer) arrivals (start_receiver stored)
      in (finish_run run s, rc_stores rc @ [rc_peers rc]))"

section \<open>The port scan\<close>

definition throttled :: "nat option \<Rightarrow> nat \<Rightarrow> bool" where
  "throttled prev now = (case prev of Some t \<Rightarrow> (now - t) div 1000000000 < 4 | None \<Rightarrow> False)"

definition get_scan_port :: "string \<Rightarrow> u16" where
  "get_scan_port option = (case parse_unsigned 65535 option of Some p \<Rightarrow> word_of_nat p | None \<Rightarrow> 21118)"

definition get_broadcast_port :: u16 where
  "get_broadcast_port = 21116 + 3"

datatype worker = Idle | Probing u32 | Stopped

definition scan_peer :: "u32 \<Rightarrow> discovery_peer" where
  "scan_peer ip = \<lparr>dp_id = ipv4_to_string ip, dp_username = [], dp_hostname = ipv4_to_string ip,
     dp_platform = [], dp_online = True, dp_machine_id = [], dp_ip_mac = [ipv4_to_string ip \<mapsto> []]\<rparr>"

record scanner =
  sc_queue :: "u32 list"
  sc_workers :: "worker list"
  sc_stats :: stats
  sc_sent :: "discovery_peer list"
  sc_probed :: "(u32 \<times> bool) list"

definition start_scan :: "u32 list \<Rightarrow> stats \<Rightarrow> scanner" where
  "start_scan targets s = \<lparr>sc_queue = targets, sc_workers = (if targets = [] then [] else replicate 128 Idle),
     sc_stats = s, sc_sent = [], sc_probed = []\<rparr>"

text \<open>\<open>spawn_port_scan\<close>: nothing within four seconds of the last scan, otherwise the pool starts on the
  targets computed now.\<close>

definition spawn_port_scan :: "nat option \<Rightarrow> nat \<Rightarrow> u32 list \<Rightarrow> stats \<Rightarrow> nat option \<times> scanner option" where
  "spawn_port_scan prev now targets s =
     (if throttled prev now then (prev, None)
      else (Some now, if targets = [] then None else Some (start_scan targets s)))"

text \<open>\<open>send_unicast_pings\<close>: the targets that are pinged, all through the last socket.\<close>

definition send_unicast_pings :: "nat option \<Rightarrow> nat \<Rightarrow> 'socket list \<Rightarrow> u32 list \<Rightarrow> nat option \<times> ('socket \<times> socket_addr) list" where
  "send_unicast_pings prev now sockets targets =
     (if throttled prev now then (prev, [])
      else (Some now, if sockets = [] then []
        else map (\<lambda>ip. (last sockets, SocketV4 ip get_broadcast_port)) targets))"

text \<open>A worker's steps. That a connection is made, the tally and the sending of the entry are one step: where two workers
  succeed at the same time the program may send their entries in either order.\<close>

inductive scan_step :: "u32 \<Rightarrow> scanner \<Rightarrow> scanner \<Rightarrow> bool" for run where
  pop: "i < length (sc_workers s) \<Longrightarrow> sc_workers s ! i = Idle \<Longrightarrow> sc_queue s \<noteq> [] \<Longrightarrow>
    scan_step run s (s\<lparr>sc_workers := (sc_workers s)[i := Probing (last (sc_queue s))],
                       sc_queue := butlast (sc_queue s)\<rparr>)"
| stop: "i < length (sc_workers s) \<Longrightarrow> sc_workers s ! i = Idle \<Longrightarrow> sc_queue s = [] \<Longrightarrow>
    scan_step run s (s\<lparr>sc_workers := (sc_workers s)[i := Stopped]\<rparr>)"
| hit: "i < length (sc_workers s) \<Longrightarrow> sc_workers s ! i = Probing ip \<Longrightarrow>
    scan_step run s (s\<lparr>sc_workers := (sc_workers s)[i := Idle], sc_stats := tally PortHits run (sc_stats s),
                       sc_sent := sc_sent s @ [scan_peer ip], sc_probed := sc_probed s @ [(ip, True)]\<rparr>)"
| miss: "i < length (sc_workers s) \<Longrightarrow> sc_workers s ! i = Probing ip \<Longrightarrow>
    scan_step run s (s\<lparr>sc_workers := (sc_workers s)[i := Idle], sc_probed := sc_probed s @ [(ip, False)]\<rparr>)"

section \<open>Properties of the peer list\<close>

definition peer_key :: "discovery_peer \<Rightarrow> string \<times> string" where
  "peer_key p = (dp_id p, dp_username p)"

lemma is_same_peer_key: "is_same_peer p q \<longleftrightarrow> peer_key p = peer_key q"
  by (simp add: is_same_peer_def peer_key_def)

lemma merge_peer_simps [simp]:
  "peer_key (merge_peer p q) = peer_key p" "dp_id (merge_peer p q) = dp_id p" "dp_online (merge_peer p q)"
  "dp_machine_id (merge_peer p q) = (if dp_machine_id p = [] then dp_machine_id q else dp_machine_id p)"
  by (simp_all add: merge_peer_def peer_key_def)

text \<open>The entry a peer ends up as, and the list it is put in front of.\<close>

lemma place_peer_cases:
  obtains (new) "peer_key p \<notin> peer_key ` set ps" "place_peer b p ps = p # ps"
  | (old) before q after where "ps = before @ q # after" "peer_key q = peer_key p"
      "place_peer b p ps = (if b then merge_peer p q else p) # before @ after"
proof (cases "List.extract (\<lambda>x. is_same_peer x p) ps")
  case None
  then have "peer_key p \<notin> peer_key ` set ps" "place_peer b p ps = p # ps"
    by (force simp: extract_None_iff is_same_peer_key, simp add: place_peer_def)
  then show ?thesis by (rule new)
next
  case (Some bqa)
  obtain before q after where bqa: "bqa = (before, q, after)" by (rule prod_cases3)
  with Some have e: "List.extract (\<lambda>x. is_same_peer x p) ps = Some (before, q, after)" by simp
  then have "place_peer b p ps = (if b then merge_peer p q else p) # before @ after" by (simp add: place_peer_def)
  moreover have "ps = before @ q # after" "peer_key q = peer_key p"
    using e by (simp_all add: extract_Some_iff is_same_peer_key)
  ultimately show ?thesis using old by blast
qed

lemma place_peer_distinct:
  assumes "distinct (map peer_key ps)"
  shows "distinct (map peer_key (place_peer b p ps))"
  by (cases rule: place_peer_cases [of p ps b]) (use assms in auto)

lemma place_peer_keys: "peer_key ` set (place_peer b p ps) = insert (peer_key p) (peer_key ` set ps)"
  by (cases rule: place_peer_cases [of p ps b]) auto

lemma place_peer_online:
  "x \<in> set (place_peer b p ps) \<Longrightarrow> dp_online x \<Longrightarrow> x \<in> set ps \<or> dp_id x = dp_id p"
  by (cases rule: place_peer_cases [of p ps b]) (auto split: if_splits)

lemma place_peer_other: "x \<in> set ps \<Longrightarrow> peer_key x \<noteq> peer_key p \<Longrightarrow> x \<in> set (place_peer b p ps)"
  by (cases rule: place_peer_cases [of p ps b]) auto

lemma place_peer_head:
  obtains y where "y \<in> set (place_peer b p ps)" "peer_key y = peer_key p"
    "dp_machine_id p \<noteq> [] \<Longrightarrow> dp_machine_id y = dp_machine_id p"
    "b \<Longrightarrow> peer_key p \<in> peer_key ` set ps \<Longrightarrow> dp_online y"
proof (cases rule: place_peer_cases [of p ps b])
  case new
  then show ?thesis by (intro that [of p]) simp_all
next
  case (old before q after)
  then show ?thesis by (intro that [of "if b then merge_peer p q else p"]) simp_all
qed

text \<open>\<open>receive_peer\<close> acts on the list and the set of addresses alone; the writes only copy the list.\<close>

lemma receive_peer_simps [simp]:
  "rc_peers (receive_peer now p rc) = place_peer (dp_id p \<in> rc_responses rc) p (rc_peers rc)"
  "rc_responses (receive_peer now p rc) = insert (dp_id p) (rc_responses rc)"
  by (simp_all add: receive_peer_def Let_def)

abbreviation run_receiver :: "(discovery_peer \<times> nat) list \<Rightarrow> receiver \<Rightarrow> receiver" where
  "run_receiver arrivals \<equiv> fold (\<lambda>(peer, now). receive_peer now peer) arrivals"

lemma run_receiver_inv:
  assumes "distinct (map peer_key (rc_peers rc))"
    and "\<forall>x \<in> set (rc_peers rc). dp_online x \<longrightarrow> dp_id x \<in> rc_responses rc"
  shows "distinct (map peer_key (rc_peers (run_receiver as rc))) \<and>
    peer_key ` set (rc_peers (run_receiver as rc)) = peer_key ` set (rc_peers rc) \<union> peer_key ` fst ` set as \<and>
    (\<forall>x \<in> set (rc_peers (run_receiver as rc)). dp_online x \<longrightarrow> dp_id x \<in> rc_responses rc \<union> dp_id ` fst ` set as)"
  using assms
proof (induction as arbitrary: rc)
  case (Cons a as)
  obtain p now where a: "a = (p, now)" by fastforce
  let ?rc = "receive_peer now p rc"
  have d: "distinct (map peer_key (rc_peers ?rc))" using Cons.prems(1) by (simp add: place_peer_distinct)
  have o: "\<forall>x \<in> set (rc_peers ?rc). dp_online x \<longrightarrow> dp_id x \<in> rc_responses ?rc"
    using Cons.prems(2) by (auto dest!: place_peer_online)
  from Cons.IH [OF d o] show ?case by (simp add: a place_peer_keys Un_assoc)
qed simp

text \<open>A discovery run keeps the peer file well formed: the list it leaves has one entry for
  each pair of address and user name, an entry for every peer stored before or reported in the run and
  no other, and an entry is online only if its address was reported in this very run.\<close>

theorem discovery_run_peers:
  assumes "distinct (map peer_key stored)"
  shows "(let final = last (snd (handle_received_peers run stored arrivals s)) in
    distinct (map peer_key final) \<and>
    peer_key ` set final = peer_key ` set stored \<union> peer_key ` fst ` set arrivals \<and>
    (\<forall>x. x \<in> set final \<and> dp_online x \<longrightarrow> dp_id x \<in> dp_id ` fst ` set arrivals))"
proof -
  let ?rc = "start_receiver stored"
  have k: "peer_key (p\<lparr>dp_online := False\<rparr>) = peer_key p" for p by (simp add: peer_key_def)
  have "map peer_key (rc_peers ?rc) = map peer_key stored"
    by (simp add: start_receiver_def o_def k)
  then have d: "distinct (map peer_key (rc_peers ?rc))" and i: "peer_key ` set (rc_peers ?rc) = peer_key ` set stored"
    using assms by (simp, metis set_map)
  have o: "\<forall>x \<in> set (rc_peers ?rc). dp_online x \<longrightarrow> dp_id x \<in> rc_responses ?rc"
    by (auto simp: start_receiver_def)
  have r: "rc_responses ?rc = {}" by (simp add: start_receiver_def)
  from run_receiver_inv [OF d o, of arrivals] show ?thesis
    by (simp add: handle_received_peers_def Let_def i r)
qed

definition sample_peer :: "string \<Rightarrow> string \<Rightarrow> discovery_peer" where
  "sample_peer ip mid = \<lparr>dp_id = ip, dp_username = ''ann'', dp_hostname = ''mac'', dp_platform = ''Mac OS'',
     dp_online = False, dp_machine_id = mid, dp_ip_mac = [ip \<mapsto> ''aa'']\<rparr>"

theorem discovery_run_peers_witness:
  "(let final = last (snd (handle_received_peers 1 [sample_peer ''a'' ''7''] [(sample_peer ''b'' ''8'', 5)]
        \<lparr>st_run = 1, st_replies = 0, st_hits = 0, st_done = False\<rparr>)) in
    distinct (map peer_key final) \<and> peer_key ` set final = {(''a'', ''ann''), (''b'', ''ann'')})"
  using discovery_run_peers [of "[sample_peer ''a'' ''7'']" 1 "[(sample_peer ''b'' ''8'', 5)]"
      "\<lparr>st_run = 1, st_replies = 0, st_hits = 0, st_done = False\<rparr>"]
  by (auto simp: Let_def peer_key_def sample_peer_def)

text \<open>Within a run an identity is not lost: once an entry carries one, a later report of the same peer
  without one keeps it.\<close>

lemma run_receiver_identity:
  assumes "x \<in> set (rc_peers rc)" "peer_key x = k" "dp_machine_id x \<noteq> []" "fst k \<in> rc_responses rc"
    "distinct (map peer_key (rc_peers rc))"
  shows "\<exists>y \<in> set (rc_peers (run_receiver as rc)). peer_key y = k \<and> dp_machine_id y \<noteq> []"
  using assms
proof (induction as arbitrary: rc x)
  case (Cons a as)
  obtain p now where a: "a = (p, now)" by fastforce
  have d: "distinct (map peer_key (rc_peers (receive_peer now p rc)))"
    using Cons.prems(5) by (simp add: place_peer_distinct)
  have id: "dp_id p = fst k" if "peer_key p = k" using that by (auto simp: peer_key_def)
  have "\<exists>x' \<in> set (place_peer (dp_id p \<in> rc_responses rc) p (rc_peers rc)). peer_key x' = k \<and> dp_machine_id x' \<noteq> []"
  proof (cases rule: place_peer_cases [of p "rc_peers rc" "dp_id p \<in> rc_responses rc"])
    case new
    then show ?thesis using Cons.prems(1-3) by auto
  next
    case (old before q after)
    show ?thesis
    proof (cases "peer_key p = k")
      case True
      then have "q = x" using old(1,2) Cons.prems(1,2,5) by (auto simp: image_iff)
      then show ?thesis using True old(3) Cons.prems(3,4) id by auto
    next
      case False
      then have "x \<noteq> q" using old(2) Cons.prems(2) by auto
      then show ?thesis using Cons.prems(1-3) old by auto
    qed
  qed
  then obtain x' where "x' \<in> set (rc_peers (receive_peer now p rc))" "peer_key x' = k" "dp_machine_id x' \<noteq> []"
    by auto
  moreover have "fst k \<in> rc_responses (receive_peer now p rc)" using Cons.prems(4) by simp
  ultimately have "\<exists>y \<in> set (rc_peers (run_receiver as (receive_peer now p rc))). peer_key y = k \<and> dp_machine_id y \<noteq> []"
    by (rule Cons.IH [OF _ _ _ _ d])
  then show ?case by (simp add: a)
qed auto

text \<open>A peer that reported an identity in a run still has one when the run ends, also when the
  port scan or another reply reported the same peer without one afterwards.\<close>

theorem discovery_identity_kept:
  assumes "distinct (map peer_key stored)" and "(p, now) \<in> set arrivals" and "dp_machine_id p \<noteq> []"
  shows "\<exists>y. y \<in> set (last (snd (handle_received_peers run stored arrivals s))) \<and>
    peer_key y = peer_key p \<and> dp_machine_id y \<noteq> []"
proof -
  let ?rc0 = "start_receiver stored"
  have k: "peer_key (p\<lparr>dp_online := False\<rparr>) = peer_key p" for p by (simp add: peer_key_def)
  have d0: "distinct (map peer_key (rc_peers ?rc0))"
    using assms(1) by (simp add: start_receiver_def o_def k)
  have o0: "\<forall>x \<in> set (rc_peers ?rc0). dp_online x \<longrightarrow> dp_id x \<in> rc_responses ?rc0"
    by (auto simp: start_receiver_def)
  obtain as bs where split: "arrivals = as @ (p, now) # bs" using assms(2) by (meson split_list)
  let ?rc = "run_receiver as ?rc0"
  let ?rc1 = "receive_peer now p ?rc"
  have d: "distinct (map peer_key (rc_peers ?rc))" using run_receiver_inv [OF d0 o0] by blast
  obtain x where "x \<in> set (rc_peers ?rc1)" "peer_key x = peer_key p" "dp_machine_id x \<noteq> []"
    using assms(3) by (simp, metis place_peer_head)
  moreover have "fst (peer_key p) \<in> rc_responses ?rc1" by (simp add: peer_key_def)
  moreover have "distinct (map peer_key (rc_peers ?rc1))" using d by (simp add: place_peer_distinct)
  ultimately have "\<exists>y \<in> set (rc_peers (run_receiver bs ?rc1)). peer_key y = peer_key p \<and> dp_machine_id y \<noteq> []"
    by (rule run_receiver_identity)
  then show ?thesis by (auto simp: handle_received_peers_def Let_def split)
qed

theorem discovery_identity_kept_witness:
  "\<exists>y. y \<in> set (last (snd (handle_received_peers 1 [] [(sample_peer ''b'' ''8'', 5), (sample_peer ''b'' [], 6)]
        \<lparr>st_run = 1, st_replies = 0, st_hits = 0, st_done = False\<rparr>))) \<and>
    peer_key y = (''b'', ''ann'') \<and> dp_machine_id y \<noteq> []"
  using discovery_identity_kept [of "[]" "sample_peer ''b'' ''8''" 5
      "[(sample_peer ''b'' ''8'', 5), (sample_peer ''b'' [], 6)]" 1]
  by (simp add: peer_key_def sample_peer_def)

text \<open>A host that advertises a second address is listed as online at that address once its
  answer arrives twice in a run (a broadcast and a unicast ping reach it), although nothing probed the
  address.\<close>

theorem advertised_address_marked_online:
  assumes extra: "extra \<in> set (parse_advertised_addrs from_str (pd_misc p))" "extra \<noteq> ipv4_to_string addr"
  shows "\<exists>x. x \<in> set (last (snd (handle_received_peers run []
      (map (\<lambda>q. (q, now)) (reply_peers from_str addr p @ reply_peers from_str addr p)) s))) \<and>
    dp_id x = extra \<and> dp_online x"
proof -
  have distinct_online: "\<exists>x. x \<in> set (rc_peers (run_receiver (map (\<lambda>q. (q, now)) qs) rc)) \<and> peer_key x = k \<and> dp_online x"
    if "\<exists>x. x \<in> set (rc_peers rc) \<and> peer_key x = k \<and> (dp_online x \<or> k \<in> peer_key ` set qs)"
      "fst k \<in> rc_responses rc" for qs rc k
    using that
  proof (induction qs arbitrary: rc)
    case (Cons q qs)
    then obtain x where x: "x \<in> set (rc_peers rc)" "peer_key x = k" "dp_online x \<or> k \<in> peer_key ` set (q # qs)" by auto
    have id: "dp_id q = fst k" if "peer_key q = k" using that by (auto simp: peer_key_def)
    have "\<exists>y. y \<in> set (place_peer (dp_id q \<in> rc_responses rc) q (rc_peers rc)) \<and> peer_key y = k \<and>
        (dp_online y \<or> k \<in> peer_key ` set qs)"
    proof (cases "peer_key q = k")
      case True
      moreover have "peer_key q \<in> peer_key ` set (rc_peers rc)" using x(1,2) True by blast
      ultimately show ?thesis using id Cons.prems(2) by (metis place_peer_head)
    next
      case False
      then have "x \<in> set (place_peer (dp_id q \<in> rc_responses rc) q (rc_peers rc))"
        using x(1,2) by (intro place_peer_other) auto
      then show ?thesis using x(2,3) False by auto
    qed
    then show ?case using Cons.IH [of "receive_peer now q rc"] Cons.prems(2) by simp
  qed auto
  let ?q = "replied_peer p extra False"
  let ?rs = "reply_peers from_str addr p"
  let ?rc = "run_receiver (map (\<lambda>q. (q, now)) ?rs) (start_receiver [])"
  have q: "?q \<in> set ?rs" using extra by (simp add: reply_peers_def)
  have d: "distinct (map peer_key (rc_peers (start_receiver [])))"
    and o: "\<forall>x \<in> set (rc_peers (start_receiver [])). dp_online x \<longrightarrow> dp_id x \<in> rc_responses (start_receiver [])"
    by (simp_all add: start_receiver_def)
  have "peer_key ?q \<in> peer_key ` set (rc_peers ?rc)"
    using run_receiver_inv [OF d o, of "map (\<lambda>q. (q, now)) ?rs"] q by (auto simp: image_image)
  then have "\<exists>x. x \<in> set (rc_peers ?rc) \<and> peer_key x = peer_key ?q \<and> (dp_online x \<or> peer_key ?q \<in> peer_key ` set ?rs)"
    using q by auto
  moreover have "rc_responses (run_receiver (map (\<lambda>q. (q, now)) qs) rc) = rc_responses rc \<union> dp_id ` set qs" for qs rc
    by (induction qs arbitrary: rc) auto
  then have "fst (peer_key ?q) \<in> rc_responses ?rc" using q by (auto simp: peer_key_def)
  ultimately obtain x where "x \<in> set (rc_peers (run_receiver (map (\<lambda>q. (q, now)) ?rs) ?rc))"
    "peer_key x = peer_key ?q" "dp_online x" using distinct_online by meson
  then show ?thesis by (auto simp: handle_received_peers_def Let_def peer_key_def replied_peer_def)
qed

theorem advertised_address_marked_online_witness:
  "(let p = \<lparr>pd_cmd = ''pong'', pd_mac = [], pd_id = ''7'', pd_username = ''ann'', pd_hostname = ''mac'',
             pd_platform = ''Mac OS'', pd_misc = ''{...}''\<rparr>;
        from_str = (\<lambda>s. if s = ''{...}'' then Some (addrs_json [ipv4_to_string 0x64400002]) else None)
    in \<exists>x. x \<in> set (last (snd (handle_received_peers 1 []
          (map (\<lambda>q. (q, 9)) (reply_peers from_str 0xC0A80105 p @ reply_peers from_str 0xC0A80105 p))
          \<lparr>st_run = 1, st_replies = 2, st_hits = 0, st_done = False\<rparr>))) \<and>
      dp_id x = ipv4_to_string 0x64400002 \<and> dp_online x)"
proof -
  let ?f = "\<lambda>s. if s = ''{...}'' then Some (addrs_json [ipv4_to_string 0x64400002]) else None"
  have "parse_advertised_addrs ?f ''{...}'' = [ipv4_to_string 0x64400002]"
    by (simp add: parse_advertised_addrs_def parse_addrs_json is_tailscale_ip_def push_new_def)
  then show ?thesis unfolding Let_def
    by (intro advertised_address_marked_online) simp_all
qed

section \<open>Properties of the port scan\<close>

inductive_cases scan_stepE: "scan_step run s s'"

text \<open>Targets still queued, in a worker's hands, or probed.\<close>

definition in_hand :: "worker list \<Rightarrow> u32 multiset" where
  "in_hand ws = \<Sum>\<^sub># (image_mset (\<lambda>w. case w of Probing ip \<Rightarrow> {#ip#} | _ \<Rightarrow> {#}) (mset ws))"

definition accounted :: "scanner \<Rightarrow> u32 multiset" where
  "accounted s = mset (sc_queue s) + in_hand (sc_workers s) + image_mset fst (mset (sc_probed s))"

definition worker_load :: "worker \<Rightarrow> nat" where
  "worker_load w = (case w of Idle \<Rightarrow> 1 | Probing _ \<Rightarrow> 2 | Stopped \<Rightarrow> 0)"

definition scan_load :: "scanner \<Rightarrow> nat" where
  "scan_load s = 2 * length (sc_queue s) + sum_list (map worker_load (sc_workers s))"

lemma in_hand_update:
  "i < length ws \<Longrightarrow> in_hand (ws[i := w]) + in_hand [ws ! i] = in_hand ws + in_hand [w]"
proof (induction ws arbitrary: i)
  case (Cons v ws)
  then show ?case by (cases i) (auto simp: in_hand_def)
qed simp

lemma sum_list_update_nat:
  "i < length ws \<Longrightarrow> sum_list (map f (ws[i := w])) + f (ws ! i) = sum_list (map f ws) + (f w :: nat)"
proof (induction ws arbitrary: i)
  case (Cons v ws)
  then show ?case by (cases i) fastforce+
qed simp

lemma in_hand_simps [simp]: "in_hand [Idle] = {#}" "in_hand [Stopped] = {#}" "in_hand [Probing ip] = {#ip#}"
  by (simp_all add: in_hand_def)

lemma scan_step_accounted: "scan_step run s s' \<Longrightarrow> accounted s' = accounted s"
proof (induction rule: scan_step.induct)
  case (pop i s)
  have "mset (sc_queue s) = mset (butlast (sc_queue s)) + {#last (sc_queue s)#}"
    using pop(3) by (metis append_butlast_last_id mset_append mset_single_iff_right union_code mset.simps)
  then show ?case
    using in_hand_update [OF pop(1), of "Probing (last (sc_queue s))"] pop(2) by (simp add: accounted_def)
next
  case (stop i s)
  then show ?case using in_hand_update [OF stop(1), of Stopped] by (simp add: accounted_def)
next
  case (hit i s ip)
  then show ?case using in_hand_update [OF hit(1), of Idle] by (simp add: accounted_def)
next
  case (miss i s ip)
  then show ?case using in_hand_update [OF miss(1), of Idle] by (simp add: accounted_def)
qed

lemma scan_step_load: "scan_step run s s' \<Longrightarrow> scan_load s' < scan_load s"
proof (induction rule: scan_step.induct)
  case (pop i s)
  then show ?case using sum_list_update_nat [OF pop(1), of worker_load "Probing (last (sc_queue s))"]
    by (simp add: scan_load_def worker_load_def) (cases "sc_queue s"; simp)
next
  case (stop i s)
  then show ?case using sum_list_update_nat [OF stop(1), of worker_load Stopped]
    by (simp add: scan_load_def worker_load_def)
next
  case (hit i s ip)
  then show ?case using sum_list_update_nat [OF hit(1), of worker_load Idle]
    by (simp add: scan_load_def worker_load_def)
next
  case (miss i s ip)
  then show ?case using sum_list_update_nat [OF miss(1), of worker_load Idle]
    by (simp add: scan_load_def worker_load_def)
qed

definition hits_of :: "scanner \<Rightarrow> u32 list" where
  "hits_of s = map fst (filter snd (sc_probed s))"

lemma scan_reach:
  assumes "(scan_step run)\<^sup>*\<^sup>* (start_scan targets st) s"
  shows "accounted s = mset targets \<and> sc_sent s = map scan_peer (hits_of s) \<and>
    length (sc_workers s) = (if targets = [] then 0 else 128) \<and>
    (Stopped \<in> set (sc_workers s) \<longrightarrow> sc_queue s = [])"
  using assms
proof (induction rule: rtranclp_induct)
  case base
  have "in_hand (replicate n Idle) = {#}" for n by (induction n) (simp_all add: in_hand_def)
  then show ?case by (simp add: start_scan_def accounted_def hits_of_def in_hand_def)
next
  case (step y z)
  then have "accounted z = accounted y" by (auto dest: scan_step_accounted)
  moreover have "sc_sent z = map scan_peer (hits_of z) \<and> length (sc_workers z) = length (sc_workers y)"
    using step by (auto elim!: scan_stepE simp: hits_of_def)
  moreover have "Stopped \<in> set (sc_workers z) \<longrightarrow> sc_queue z = []"
    using step(2) step.IH by (auto elim!: scan_stepE dest!: set_update_subset_insert [THEN subsetD])
  ultimately show ?case using step.IH by simp
qed

text \<open>(C29) The worker pool probes every target exactly once and then stops: no schedule of the
  workers runs forever, a state in which no worker can move has probed precisely the targets, and the
  entries sent to the peer list are the targets that accepted the connection, in the order they did, where accepting and
  sending are one step of a worker.\<close>

theorem port_scan_exactly_once:
  "wfP (\<lambda>s' s. scan_step run s s') \<and>
   (\<forall>s. (scan_step run)\<^sup>*\<^sup>* (start_scan targets st) s \<longrightarrow> (\<nexists>s'. scan_step run s s') \<longrightarrow>
      mset (map fst (sc_probed s)) = mset targets \<and> sc_queue s = [] \<and> sc_sent s = map scan_peer (hits_of s))"
proof (intro conjI allI impI)
  show "wfP (\<lambda>s' s. scan_step run s s')"
    by (rule wfp_if_convertible_to_nat [of _ scan_load]) (simp add: scan_step_load)
next
  fix s assume reach: "(scan_step run)\<^sup>*\<^sup>* (start_scan targets st) s" and stuck: "\<nexists>s'. scan_step run s s'"
  note inv = scan_reach [OF reach]
  have "w = Stopped" if "w \<in> set (sc_workers s)" for w
  proof -
    obtain i where i: "i < length (sc_workers s)" "w = sc_workers s ! i" using \<open>w \<in> _\<close> by (metis in_set_conv_nth)
    show ?thesis using stuck scan_step.intros i by (cases w) metis+
  qed
  then have ws: "sc_workers s = replicate (length (sc_workers s)) Stopped" by (simp add: replicate_eqI)
  have "in_hand (replicate n Stopped) = {#}" for n by (induction n) (simp_all add: in_hand_def)
  then have hand: "in_hand (sc_workers s) = {#}" using ws by metis
  show q: "sc_queue s = []"
  proof (cases "targets = []")
    case True
    then show ?thesis using inv by (simp add: accounted_def)
  next
    case False
    then have "128 = length (sc_workers s)" using inv by simp
    then have "Stopped \<in> set (sc_workers s)" using ws by (metis in_set_replicate zero_neq_numeral)
    then show ?thesis using inv by blast
  qed
  show "mset (map fst (sc_probed s)) = mset targets" using inv hand q by (simp add: accounted_def)
  show "sc_sent s = map scan_peer (hits_of s)" using inv by simp
qed

theorem port_scan_exactly_once_witness:
  "\<exists>s. (scan_step 1)\<^sup>*\<^sup>* (start_scan [0x64400002, 0x64400003] \<lparr>st_run = 1, st_replies = 0, st_hits = 0, st_done = False\<rparr>) s \<and>
    mset (map fst (sc_probed s)) = {#0x64400002, 0x64400003#}"
proof -
  let ?st = "\<lparr>st_run = 1, st_replies = 0, st_hits = 0, st_done = False\<rparr>"
  let ?s0 = "start_scan [0x64400002, 0x64400003] ?st"
  note once = port_scan_exactly_once [of 1 "[0x64400002, 0x64400003]" ?st]
  have "wf {(s', s). scan_step 1 s s'}" using once by (simp add: wfp_def)
  then obtain s where "s \<in> {s. (scan_step 1)\<^sup>*\<^sup>* ?s0 s}" "\<And>s'. scan_step 1 s s' \<Longrightarrow> s' \<notin> {s. (scan_step 1)\<^sup>*\<^sup>* ?s0 s}"
    by (rule wfE_min [where x = ?s0 and Q = "{s. (scan_step 1)\<^sup>*\<^sup>* ?s0 s}"]) auto
  then have "(scan_step 1)\<^sup>*\<^sup>* ?s0 s" "\<nexists>s'. scan_step 1 s s'" by (auto intro: rtranclp.rtrancl_into_rtrancl)
  then have "(scan_step 1)\<^sup>*\<^sup>* ?s0 s \<and> mset (map fst (sc_probed s)) = {#0x64400002, 0x64400003#}"
    using once by (simp add: add_mset_commute)
  then show ?thesis by blast
qed

section \<open>Properties of the tally\<close>

text \<open>The operations on the shared tally when each runs without interruption.\<close>

datatype tally_op = Begin | Count counter u32 | Finish u32

fun tally_op_run :: "tally_op \<Rightarrow> stats \<Rightarrow> stats" where
  "tally_op_run Begin s = snd (begin_discovery_run s)"
| "tally_op_run (Count c run) s = tally c run s"
| "tally_op_run (Finish run) s = finish_run run s"

text \<open>When every operation on the tally runs as a whole, the numbers belong to the current
  run: after a run begins, only counts tagged with its number are added, and it is reported as done only
  when it finished itself.\<close>

theorem tally_counts_current_run:
  assumes "Begin \<notin> set ops"
  shows "(let (run, s0) = begin_discovery_run s; s1 = fold tally_op_run ops s0 in
    st_run s1 = run \<and>
    st_replies s1 = of_nat (count_list ops (Count Replies run)) \<and>
    st_hits s1 = of_nat (count_list ops (Count PortHits run)) \<and>
    (st_done s1 \<longleftrightarrow> Finish run \<in> set ops))"
proof -
  have "st_run (fold tally_op_run ops s0) = st_run s0 \<and>
    st_replies (fold tally_op_run ops s0) = st_replies s0 + of_nat (count_list ops (Count Replies (st_run s0))) \<and>
    st_hits (fold tally_op_run ops s0) = st_hits s0 + of_nat (count_list ops (Count PortHits (st_run s0))) \<and>
    (st_done (fold tally_op_run ops s0) \<longleftrightarrow> st_done s0 \<or> Finish (st_run s0) \<in> set ops)" for s0
    using assms
  proof (induction ops arbitrary: s0)
    case (Cons op ops)
    show ?case
    proof (cases op)
      case (Count c run)
      show ?thesis using Cons.IH [of "tally c run s0"] Cons.prems
        by (cases c) (auto simp: Count tally_def is_current_run_def algebra_simps)
    next
      case (Finish run)
      show ?thesis using Cons.IH [of "finish_run run s0"] Cons.prems
        by (auto simp: Finish finish_run_def is_current_run_def)
    qed (use Cons.prems in simp)
  qed simp
  from this [of "snd (begin_discovery_run s)"] show ?thesis
    by (simp add: begin_discovery_run_def Let_def)
qed

theorem tally_counts_current_run_witness:
  "(let (run, s0) = begin_discovery_run \<lparr>st_run = 6, st_replies = 9, st_hits = 9, st_done = True\<rparr>;
        s1 = fold tally_op_run [Count Replies 6, Count Replies 7, Finish 6] s0 in
    st_run s1 = run \<and> st_replies s1 = 1 \<and> st_hits s1 = 0 \<and> \<not> st_done s1)"
  using tally_counts_current_run [of "[Count Replies 6, Count Replies 7, Finish 6]"
      "\<lparr>st_run = 6, st_replies = 9, st_hits = 9, st_done = True\<rparr>"]
  by (simp add: begin_discovery_run_def Let_def)

text \<open>The same operations as the processor runs them: each atomic access on its own. A thread that
  is between the test and the addition of \<open>tally\<close> holds its counter.\<close>

datatype access = Clear_done | Clear_replies | Clear_hits | Next_run | Test counter u32 | Add counter

fun access_step :: "access \<Rightarrow> stats \<times> counter list \<Rightarrow> stats \<times> counter list" where
  "access_step Clear_done (s, held) = (s\<lparr>st_done := False\<rparr>, held)"
| "access_step Clear_replies (s, held) = (s\<lparr>st_replies := 0\<rparr>, held)"
| "access_step Clear_hits (s, held) = (s\<lparr>st_hits := 0\<rparr>, held)"
| "access_step Next_run (s, held) = (s\<lparr>st_run := st_run s + 1\<rparr>, held)"
| "access_step (Test c run) (s, held) = (s, if is_current_run s run then c # held else held)"
| "access_step (Add c) (s, held) = (if c \<in> set held then (bump c s, remove1 c held) else (s, held))"

definition begin_accesses :: "access list" where
  "begin_accesses = [Clear_done, Clear_replies, Clear_hits, Next_run]"

lemma begin_accesses_run: "fold access_step begin_accesses (s, held) = (snd (begin_discovery_run s), held)"
  by (simp add: begin_accesses_def begin_discovery_run_def Let_def)

text \<open>Interleaved, the tally does not keep the runs apart: a reply of the old run that is tested
  before the new run takes its number and added after the counters were cleared is counted in the new
  run. The accesses of the new run are those of \<open>begin_discovery_run\<close>, in order, and the only reply is
  tagged with the old run.\<close>

theorem late_reply_counted_in_new_run:
  "\<exists>accesses. filter (\<lambda>a. a \<noteq> Test Replies (st_run s) \<and> a \<noteq> Add Replies) accesses = begin_accesses \<and>
    (let (s', held) = fold access_step accesses (s, []) in
      held = [] \<and> st_run s' = st_run s + 1 \<and> st_replies s' = 1)"
  by (intro exI [of _ "[Clear_done, Clear_replies, Test Replies (st_run s), Add Replies, Clear_hits, Next_run]"])
    (simp add: begin_accesses_def is_current_run_def)

section \<open>Properties of the waiting threads\<close>

lemma local_mac_last_recv [simp]: "wt_last_recv (snd (local_mac env addr w)) = wt_last_recv w"
  by (auto simp: local_mac_def Let_def split: option.splits)

lemma on_datagram_last_recv:
  "wt_last_recv (fst (on_datagram env now d ws)) \<in> {wt_last_recv (fst ws), now}"
proof -
  have p: "wt_last_recv (fst (on_pong env addr p ws)) = wt_last_recv (fst ws)" for addr p ws
    using local_mac_last_recv [of env addr "fst ws"]
    by (cases ws) (auto simp: on_pong_def Let_def split: prod.splits simp del: local_mac_last_recv)
  show ?thesis by (cases ws; cases d)
      (auto simp: on_datagram_def Let_def p split: option.splits rendezvous_message.splits)
qed

text \<open>A waiting thread ends: once its socket has been checked more than three seconds after the
  last datagram, it returns, whatever was received before.\<close>

theorem wait_response_ends:
  assumes "\<forall>t \<in> set turns. tn_recv_at t \<le> silence" and "wt_last_recv w \<le> silence"
    and "t \<in> set turns" and "silence + 3001000000 \<le> tn_check_at t"
  shows "snd (wait_response env turns (w, s))"
  using assms
proof (induction turns arbitrary: w s)
  case (Cons u us)
  let ?ws = "case tn_recv u of Some d \<Rightarrow> on_datagram env (tn_recv_at u) d (w, s) | None \<Rightarrow> (w, s)"
  obtain w' s' where ws: "?ws = (w', s')" by fastforce
  have le: "wt_last_recv w' \<le> silence"
    using Cons.prems(1,2) ws on_datagram_last_recv [of env "tn_recv_at u" _ "(w, s)"]
    by (cases "tn_recv u") (auto, (metis fst_conv)+)
  show ?case
  proof (cases "(tn_check_at u - wt_last_recv w') div 1000000 > 3000")
    case False
    have "u \<noteq> t"
    proof
      assume "u = t"
      then have "3001000000 \<le> tn_check_at u - wt_last_recv w'" using Cons.prems(4) le by simp
      then have "3001000000 div 1000000 \<le> (tn_check_at u - wt_last_recv w') div 1000000" by (rule div_le_mono)
      with False show False by simp
    qed
    then show ?thesis using Cons.IH [of w' s'] Cons.prems le False ws by (simp add: Let_def)
  qed (simp add: ws Let_def)
qed simp

theorem wait_response_ends_witness:
  "snd (wait_response \<lparr>we_parse = (\<lambda>_. None), we_from_str = (\<lambda>_. None), we_local_addr = None, we_interfaces = [],
      we_self_addr = (\<lambda>_. None), we_run = 1\<rparr>
    [\<lparr>tn_recv = Some ([1], 5), tn_recv_at = 10, tn_check_at = 20\<rparr>,
     \<lparr>tn_recv = None, tn_recv_at = 30, tn_check_at = 4000000000\<rparr>]
    (\<lparr>wt_mac = None, wt_last_recv = 0, wt_sent = []\<rparr>, \<lparr>st_run = 1, st_replies = 0, st_hits = 0, st_done = False\<rparr>))"
  by (rule wait_response_ends [where silence = 30 and t = "\<lparr>tn_recv = None, tn_recv_at = 30, tn_check_at = 4000000000\<rparr>"]) simp_all

end
