(* ===== verification/Ipv6Text.thy ===== *)
theory Ipv6Text
  imports NetAddr
begin

text \<open>
  IPv6 addresses as text, as Rust's standard library reads and prints them (\<open>Ipv6Addr::from_str\<close>,
  \<open>Ipv6Addr::to_string\<close>): groups of up to four hexadecimal digits, one \<open>::\<close> for a run of zero groups, a
  trailing IPv4 address on input, the longest run of at least two zero groups compressed on output.
\<close>

section \<open>Reading\<close>

definition hex_value :: "char \<Rightarrow> nat option" where
  "hex_value c = (let n = of_char c :: nat in
     if 48 \<le> n \<and> n \<le> 57 then Some (n - 48)
     else if 97 \<le> n \<and> n \<le> 102 then Some (n - 87)
     else if 65 \<le> n \<and> n \<le> 70 then Some (n - 55) else None)"

definition is_hex :: "char \<Rightarrow> bool" where
  "is_hex c \<longleftrightarrow> hex_value c \<noteq> None"

fun hex_digits_value :: "nat \<Rightarrow> string \<Rightarrow> nat" where
  "hex_digits_value n [] = n"
| "hex_digits_value n (c # cs) = hex_digits_value (16 * n + (case hex_value c of Some d \<Rightarrow> d | None \<Rightarrow> 0)) cs"

text \<open>A group: one to four digits; a fifth one makes it fail.\<close>

definition read_group :: "string \<Rightarrow> (nat \<times> string) option" where
  "read_group s = (let ds = takeWhile is_hex s in
     if ds = [] \<or> 4 < length ds then None else Some (hex_digits_value 0 ds, dropWhile is_hex s))"

definition read_octet :: "string \<Rightarrow> (nat \<times> string) option" where
  "read_octet s = (let ds = takeWhile is_digit s in
     case parse_octet ds of Some n \<Rightarrow> Some (n, dropWhile is_digit s) | None \<Rightarrow> None)"

definition read_char :: "char \<Rightarrow> string \<Rightarrow> string option" where
  "read_char c s = (case s of x # xs \<Rightarrow> if x = c then Some xs else None | [] \<Rightarrow> None)"

text \<open>The \<open>i\<close>-th of a sequence of items: a separator comes first except before item 0.\<close>

definition read_separator :: "char \<Rightarrow> nat \<Rightarrow> (string \<Rightarrow> ('a \<times> string) option) \<Rightarrow> string \<Rightarrow> ('a \<times> string) option" where
  "read_separator c i item s = (if i = 0 then item s else Option.bind (read_char c s) item)"

fun read_octets :: "nat \<Rightarrow> nat \<Rightarrow> string \<Rightarrow> (nat \<times> string) option" where
  "read_octets 0 acc s = Some (acc, s)"
| "read_octets (Suc k) acc s =
     (case read_separator (CHR ''.'') (3 - k) read_octet s of
        Some (n, s) \<Rightarrow> read_octets k (acc * 256 + n) s
      | None \<Rightarrow> None)"

definition read_ipv4 :: "string \<Rightarrow> (nat \<times> string) option" where
  "read_ipv4 s = read_octets 4 0 s"

text \<open>\<open>read_groups\<close>: at most \<open>limit\<close> groups from position \<open>i\<close> on, the flag tells that the last two came
  from an IPv4 address.\<close>

function read_groups :: "nat \<Rightarrow> nat \<Rightarrow> nat list \<Rightarrow> string \<Rightarrow> nat list \<times> bool \<times> string" where
  "read_groups limit i acc s =
     (if limit \<le> i then (acc, False, s)
      else case (if i < limit - 1 then read_separator (CHR '':'') i read_ipv4 s else None) of
          Some (v4, s) \<Rightarrow> (acc @ [v4 div 65536, v4 mod 65536], True, s)
        | None \<Rightarrow> (case read_separator (CHR '':'') i read_group s of
              Some (g, s) \<Rightarrow> read_groups limit (Suc i) (acc @ [g]) s
            | None \<Rightarrow> (acc, False, s)))"
  by auto
termination by (relation "measure (\<lambda>(limit, i, acc, s). limit - i)") auto

definition segments_value :: "nat list \<Rightarrow> u128" where
  "segments_value gs = word_of_nat (fold (\<lambda>g v. v * 65536 + g) gs 0)"

definition parse_ipv6 :: "string \<Rightarrow> u128 option" where
  "parse_ipv6 s =
     (let (head, head_ipv4, s) = read_groups 8 0 [] s in
      if length head = 8 then (if s = [] then Some (segments_value head) else None)
      else if head_ipv4 then None
      else case Option.bind (read_char (CHR '':'') s) (read_char (CHR '':'')) of
          None \<Rightarrow> None
        | Some s \<Rightarrow> (let (tail, _, s) = read_groups (8 - (length head + 1)) 0 [] s in
            if s = [] then Some (segments_value (head @ replicate (8 - length head - length tail) 0 @ tail)) else None))"

section \<open>Printing\<close>

definition segments :: "u128 \<Rightarrow> nat list" where
  "segments a = map (\<lambda>i. unat (drop_bit (16 * (7 - i)) a) mod 65536) [0..<8]"

definition hex_digit :: "nat \<Rightarrow> char" where
  "hex_digit d = (if d < 10 then char_of (48 + d) else char_of (87 + d))"

fun nat_to_hex :: "nat \<Rightarrow> string" where
  "nat_to_hex n = (if n < 16 then [hex_digit n] else nat_to_hex (n div 16) @ [hex_digit (n mod 16)])"

declare nat_to_hex.simps [simp del]

fun join_with :: "string \<Rightarrow> string list \<Rightarrow> string" where
  "join_with sep [] = []"
| "join_with sep [s] = s"
| "join_with sep (s # t # ts) = s @ sep @ join_with sep (t # ts)"

text \<open>The first longest run of zeros, as its start and length.\<close>

fun zero_span :: "nat list \<Rightarrow> nat \<Rightarrow> nat \<times> nat \<Rightarrow> nat \<times> nat \<Rightarrow> nat \<times> nat" where
  "zero_span [] i cur best = best"
| "zero_span (g # gs) i (cs, cl) (bs, bl) =
     (if g = 0 then
        (let cur = (if cl = 0 then i else cs, cl + 1)
         in zero_span gs (i + 1) cur (if bl < snd cur then cur else (bs, bl)))
      else zero_span gs (i + 1) (0, 0) (bs, bl))"

definition ipv6_to_string :: "u128 \<Rightarrow> string" where
  "ipv6_to_string a =
     (case to_canonical (IpV6 a) of
        IpV4 v4 \<Rightarrow> ''::ffff:'' @ ipv4_to_string v4
      | IpV6 _ \<Rightarrow>
          (let gs = segments a; (start, len) = zero_span gs 0 (0, 0) (0, 0);
               show_groups = (\<lambda>gs. join_with '':'' (map nat_to_hex gs))
           in if 1 < len then show_groups (take start gs) @ ''::'' @ show_groups (drop (start + len) gs)
              else show_groups gs))"

end
