(* ===== verification/LoginGuard.thy ===== *)
theory LoginGuard
  imports Ipv6Text
begin

text \<open>
  The brute-force guards of the login path: \<^verbatim>\<open>src/server/login_failure_check.rs\<close> (back-off of operating
  system logins) and the failure tables of \<^verbatim>\<open>src/server/connection.rs\<close> (\<open>check_failure_with_scope\<close>,
  \<open>update_failure_with_scope\<close>, one table for passwords and one for two-factor codes, keyed by the peer's
  address and, for IPv6, by its /64, /56 and /48 prefixes). The clock is an argument, in milliseconds;
  what is sent to the peer or reported as an alarm is a list of effects.
\<close>

section \<open>Operating system logins\<close>

datatype failure_scope = Default | TerminalOsLogin

datatype alarm_audit_type = IpWhitelist | ExceedThirtyAttempts | SixAttemptsWithinOneMinute
  | ExceedIPv6PrefixAttempts | TerminalOsLoginBackoff | TerminalOsLoginConcurrency | SessionScopeViolation

record policy_decision =
  pd_allowed :: bool
  pd_login_error :: "string option"
  pd_audit :: "alarm_audit_type option"

record os_failure_state =
  total_failures :: int
  backoff_until_ms :: "int option"
  last_failure_ms :: "int option"

definition os_default :: os_failure_state where
  "os_default = \<lparr>total_failures = 0, backoff_until_ms = None, last_failure_ms = None\<rparr>"

definition IDLE_RESET_MS :: int where "IDLE_RESET_MS = 120 * 60 * 1000"
definition BACKOFF_BASE_SECONDS :: int where "BACKOFF_BASE_SECONDS = 15"
definition BACKOFF_MAX_SECONDS :: int where "BACKOFF_MAX_SECONDS = 30 * 60"

definition is_os_credential_scope :: "failure_scope \<Rightarrow> bool" where
  "is_os_credential_scope scope \<longleftrightarrow> scope = TerminalOsLogin"

fun backoff_audit_type_for_scope :: "failure_scope \<Rightarrow> alarm_audit_type option" where
  "backoff_audit_type_for_scope TerminalOsLogin = Some TerminalOsLoginBackoff"
| "backoff_audit_type_for_scope Default = None"

definition os_credential_login_backoff_seconds :: "int \<Rightarrow> int" where
  "os_credential_login_backoff_seconds failures =
     (if failures \<le> 2 then 0
      else let e = min (failures - 3) 7 in min (BACKOFF_BASE_SECONDS * 2 ^ nat e) BACKOFF_MAX_SECONDS)"

definition normalize_backoff :: "int \<Rightarrow> os_failure_state \<Rightarrow> os_failure_state" where
  "normalize_backoff now_ms s =
     (case backoff_until_ms s of
        Some until_ms \<Rightarrow> if until_ms \<le> now_ms then s\<lparr>backoff_until_ms := None\<rparr> else s
      | None \<Rightarrow> s)"

definition reset_totals_on_idle :: "int \<Rightarrow> os_failure_state \<Rightarrow> os_failure_state" where
  "reset_totals_on_idle now_ms s =
     (case last_failure_ms s of
        Some last_ms \<Rightarrow> if sat_i64 (now_ms - last_ms) \<ge> IDLE_RESET_MS
          then s\<lparr>total_failures := 0, backoff_until_ms := None, last_failure_ms := None\<rparr> else s
      | None \<Rightarrow> s)"

definition allow_decision :: policy_decision where
  "allow_decision = \<lparr>pd_allowed = True, pd_login_error = None, pd_audit = None\<rparr>"

definition block_decision :: "string \<Rightarrow> alarm_audit_type option \<Rightarrow> policy_decision" where
  "block_decision err alarm = \<lparr>pd_allowed = False, pd_login_error = Some err, pd_audit = alarm\<rparr>"

definition remaining_seconds :: "int \<Rightarrow> int \<Rightarrow> int" where
  "remaining_seconds until_ms now_ms = max ((max (wrap_i64 (until_ms - now_ms)) 0 + 999) div 1000) 1"

definition evaluate_os_credential_policy ::
    "failure_scope \<Rightarrow> int \<Rightarrow> os_failure_state \<Rightarrow> policy_decision \<times> os_failure_state" where
  "evaluate_os_credential_policy scope now_ms s =
     (if \<not> is_os_credential_scope scope then (allow_decision, s)
      else
        (let s = normalize_backoff now_ms (reset_totals_on_idle now_ms s) in
         case backoff_until_ms s of
           Some until_ms \<Rightarrow>
             (let secs = remaining_seconds until_ms now_ms in
              (block_decision
                 (''Please try again in '' @ nat_to_str (nat secs) @ '' '' @ (if secs = 1 then ''second'' else ''seconds'') @ ''.'')
                 (backoff_audit_type_for_scope scope), s))
         | None \<Rightarrow> (allow_decision, s)))"

definition record_os_credential_failure :: "failure_scope \<Rightarrow> int \<Rightarrow> os_failure_state \<Rightarrow> os_failure_state" where
  "record_os_credential_failure scope now_ms s =
     (if \<not> is_os_credential_scope scope then s
      else
        (let s = normalize_backoff now_ms (reset_totals_on_idle now_ms s);
             s = s\<lparr>total_failures := sat_i32 (total_failures s + 1), last_failure_ms := Some now_ms\<rparr>;
             b = os_credential_login_backoff_seconds (total_failures s)
         in if b > 0 then s\<lparr>backoff_until_ms := Some (wrap_i64 (now_ms + b * 1000))\<rparr> else s))"

section \<open>The failure tables\<close>

text \<open>An entry is the minute of the last failure, the failures in that minute, and all failures.\<close>

type_synonym entry = "int \<times> int \<times> int"
type_synonym failures = "string \<rightharpoonup> entry"

datatype effect = LoginError string | Alarm alarm_audit_type

record guard =
  gd_tables :: "failures list"
  gd_os :: os_failure_state

definition mask_u128 :: "u128 \<Rightarrow> nat \<Rightarrow> u128" where
  "mask_u128 addr prefix =
     addr AND (if prefix = 0 \<or> prefix > 128 then 0 else push_bit (128 - prefix) (NOT 0))"

definition get_ipv6_prefixes :: "string \<Rightarrow> (string \<times> string \<times> string) option" where
  "get_ipv6_prefixes ip =
     (case parse_ipv6 (trim (hd (split_char (CHR ''%'') ip))) of
        None \<Rightarrow> None
      | Some a \<Rightarrow> Some (ipv6_to_string (mask_u128 a 64) @ ''/64'', ipv6_to_string (mask_u128 a 56) @ ''/56'',
                       ipv6_to_string (mask_u128 a 48) @ ''/48''))"

definition bump_failure_entry :: "int \<Rightarrow> entry \<Rightarrow> entry" where
  "bump_failure_entry time = (\<lambda>(t, k, n).
     if t = time then (t, wrap_i32 (k + 1), wrap_i32 (n + 1)) else (time, 1, wrap_i32 (n + 1)))"

definition entry_of :: "failures \<Rightarrow> string \<Rightarrow> entry" where
  "entry_of m k = (case m k of Some e \<Rightarrow> e | None \<Rightarrow> (0, 0, 0))"

definition bump_key :: "int \<Rightarrow> string \<Rightarrow> failures \<Rightarrow> failures" where
  "bump_key time k m = m(k \<mapsto> bump_failure_entry time (entry_of m k))"

definition update_table :: "string \<Rightarrow> entry \<times> int \<Rightarrow> bool \<Rightarrow> failures \<Rightarrow> failures" where
  "update_table ip = (\<lambda>(failure, time) remove m.
     if remove then
       (if fst failure \<noteq> 0 then
          (case get_ipv6_prefixes ip of
             Some (p64, p56, p48) \<Rightarrow> m(p64 := None, p56 := None, p48 := None, ip := None)
           | None \<Rightarrow> m(ip := None))
        else m)
     else
       (case get_ipv6_prefixes ip of
          Some (p64, p56, p48) \<Rightarrow> bump_key time ip (fold (bump_key time) [p64, p56, p48] m)
        | None \<Rightarrow> bump_key time ip m))"

definition update_failure_with_scope ::
    "string \<Rightarrow> int \<Rightarrow> entry \<times> int \<Rightarrow> bool \<Rightarrow> nat \<Rightarrow> failure_scope \<Rightarrow> guard \<Rightarrow> guard" where
  "update_failure_with_scope ip now_ms failure remove i scope g =
     (if scope = TerminalOsLogin then
        (if \<not> remove then g\<lparr>gd_os := record_os_credential_failure scope now_ms (gd_os g)\<rparr> else g)
      else g\<lparr>gd_tables := (gd_tables g)[i := update_table ip failure remove (gd_tables g ! i)]\<rparr>)"

definition update_failure :: "string \<Rightarrow> int \<Rightarrow> entry \<times> int \<Rightarrow> bool \<Rightarrow> nat \<Rightarrow> guard \<Rightarrow> guard" where
  "update_failure ip now_ms failure remove i g = update_failure_with_scope ip now_ms failure remove i Default g"

definition check_failure_ipv6_prefix ::
    "failures \<Rightarrow> int \<Rightarrow> string \<Rightarrow> nat \<Rightarrow> int \<Rightarrow> (((entry \<times> int) \<times> bool) \<times> effect list) option" where
  "check_failure_ipv6_prefix m time prefix prefix_num thresh =
     (let failure_prefix = entry_of m prefix in
      if snd (snd failure_prefix) > thresh then
        Some (((failure_prefix, time), False),
              [LoginError (''Too many wrong attempts for IPv6 prefix /'' @ nat_to_str prefix_num), Alarm ExceedIPv6PrefixAttempts])
      else None)"

definition check_table :: "string \<Rightarrow> int \<Rightarrow> failures \<Rightarrow> ((entry \<times> int) \<times> bool) \<times> effect list" where
  "check_table ip time m =
     (case (case get_ipv6_prefixes ip of
              Some (p64, p56, p48) \<Rightarrow>
                (case check_failure_ipv6_prefix m time p64 64 60 of
                   Some r \<Rightarrow> Some r
                 | None \<Rightarrow> (case check_failure_ipv6_prefix m time p56 56 80 of
                     Some r \<Rightarrow> Some r
                   | None \<Rightarrow> check_failure_ipv6_prefix m time p48 48 100))
            | None \<Rightarrow> None) of
        Some r \<Rightarrow> r
      | None \<Rightarrow>
          (let failure = entry_of m ip; (t, k, n) = failure in
           if n > 30 then (((failure, time), False), [LoginError ''Too many wrong attempts'', Alarm ExceedThirtyAttempts])
           else if time = t \<and> k > 6 then
             (((failure, time), False), [LoginError ''Please try 1 minute later'', Alarm SixAttemptsWithinOneMinute])
           else (((failure, time), True), [])))"

definition check_failure_with_scope ::
    "string \<Rightarrow> int \<Rightarrow> nat \<Rightarrow> failure_scope \<Rightarrow> guard \<Rightarrow> (((entry \<times> int) \<times> bool) \<times> effect list) \<times> guard" where
  "check_failure_with_scope ip now_ms i scope g =
     (let time = wrap_i32 (now_ms div 60000) in
      if scope = TerminalOsLogin then
        (let (decision, os) = evaluate_os_credential_policy scope now_ms (gd_os g) in
         (((((0, 0, 0), time), pd_allowed decision),
           if pd_allowed decision then []
           else (case pd_login_error decision of Some e \<Rightarrow> [LoginError e] | None \<Rightarrow> []) @
                (case pd_audit decision of Some a \<Rightarrow> [Alarm a] | None \<Rightarrow> [])), g\<lparr>gd_os := os\<rparr>))
      else (check_table ip time (gd_tables g ! i), g))"

definition check_failure :: "string \<Rightarrow> int \<Rightarrow> nat \<Rightarrow> guard \<Rightarrow> (((entry \<times> int) \<times> bool) \<times> effect list) \<times> guard" where
  "check_failure ip now_ms i g = check_failure_with_scope ip now_ms i Default g"

section \<open>Properties of the back-off\<close>

lemma backoff_range:
  "0 \<le> os_credential_login_backoff_seconds n" "os_credential_login_backoff_seconds n \<le> 1800"
  "3 \<le> n \<Longrightarrow> 15 \<le> os_credential_login_backoff_seconds n"
  "10 \<le> n \<Longrightarrow> os_credential_login_backoff_seconds n = 1800"
proof -
  have p: "(1 :: int) \<le> 2 ^ k" for k :: nat by simp
  show "0 \<le> os_credential_login_backoff_seconds n" "os_credential_login_backoff_seconds n \<le> 1800"
    by (simp_all add: os_credential_login_backoff_seconds_def Let_def BACKOFF_MAX_SECONDS_def BACKOFF_BASE_SECONDS_def)
  show "3 \<le> n \<Longrightarrow> 15 \<le> os_credential_login_backoff_seconds n"
    by (simp add: os_credential_login_backoff_seconds_def Let_def BACKOFF_MAX_SECONDS_def BACKOFF_BASE_SECONDS_def)
  show "10 \<le> n \<Longrightarrow> os_credential_login_backoff_seconds n = 1800"
    by (simp add: os_credential_login_backoff_seconds_def Let_def BACKOFF_MAX_SECONDS_def BACKOFF_BASE_SECONDS_def min_def)
qed

text \<open>Instants far enough from the ends of \<open>i64\<close> for the sums below.\<close>

definition instant :: "int \<Rightarrow> bool" where
  "instant t \<longleftrightarrow> 0 \<le> t \<and> t \<le> i64_max - 1800000"

text \<open>A back-off is always the one that belongs to the number of failures and the last of them.\<close>

definition os_ok :: "os_failure_state \<Rightarrow> bool" where
  "os_ok s \<longleftrightarrow> 0 \<le> total_failures s \<and> total_failures s \<le> i32_max \<and>
     (last_failure_ms s = None \<longrightarrow> backoff_until_ms s = None) \<and>
     (\<forall>l. last_failure_ms s = Some l \<longrightarrow> instant l) \<and>
     (\<forall>u. backoff_until_ms s = Some u \<longrightarrow> 3 \<le> total_failures s \<and>
        (\<exists>l. last_failure_ms s = Some l \<and> u = l + 1000 * os_credential_login_backoff_seconds (total_failures s)))"

lemma os_ok_default: "os_ok os_default"
  by (simp add: os_ok_def os_default_def i32_max_def)

lemma os_ok_reset: "os_ok s \<Longrightarrow> os_ok (reset_totals_on_idle t s)"
  by (auto simp: reset_totals_on_idle_def os_ok_def i32_max_def split: option.splits)

lemma os_ok_normalize: "os_ok s \<Longrightarrow> os_ok (normalize_backoff t s)"
  by (auto simp: normalize_backoff_def os_ok_def split: option.splits)

lemma os_ok_evaluate: "os_ok s \<Longrightarrow> os_ok (snd (evaluate_os_credential_policy scope t s))"
  by (auto simp: evaluate_os_credential_policy_def Let_def os_ok_reset os_ok_normalize split: option.splits)

lemma wrap_instant:
  assumes "instant t"
  shows "wrap_i64 (t + os_credential_login_backoff_seconds n * 1000) = t + 1000 * os_credential_login_backoff_seconds n"
  using assms backoff_range(1,2) [of n] by (subst wrap_i64_id) (auto simp: instant_def i64_max_def i64_min_def)

lemma os_ok_record:
  assumes "os_ok s" "instant t"
  shows "os_ok (record_os_credential_failure scope t s)"
proof -
  let ?s = "normalize_backoff t (reset_totals_on_idle t s)"
  have s: "os_ok ?s" using assms(1) by (simp add: os_ok_reset os_ok_normalize)
  let ?n = "sat_i32 (total_failures ?s + 1)"
  have n: "0 \<le> ?n" "?n \<le> i32_max" using s by (auto simp: os_ok_def sat_i32_def i32_max_def)
  show ?thesis
  proof (cases "os_credential_login_backoff_seconds ?n > 0")
    case True
    then have "3 \<le> ?n" by (auto simp: os_credential_login_backoff_seconds_def split: if_splits)
    with True n assms s show ?thesis
      by (auto simp: record_os_credential_failure_def Let_def os_ok_def wrap_instant)
  next
    case False
    then have "?n \<le> 2" using backoff_range(3) [of ?n] by linarith
    then have "total_failures ?s \<le> 2" by (auto simp: sat_i32_def i32_max_def split: if_splits)
    then have "backoff_until_ms ?s = None" using s by (cases "backoff_until_ms ?s") (auto simp: os_ok_def)
    with False n assms s show ?thesis
      by (auto simp: record_os_credential_failure_def Let_def os_ok_def)
  qed
qed

text \<open>The lock-out after a failed operating system login is exact: from the moment a failure
  is recorded, attempts are refused until the back-off that belongs to the number of failures has passed
  and accepted from then on; the back-off is 15 seconds at least from the third failure on, half an hour
  from the tenth on, and never more; the forgetting of idle failures never shortens it.\<close>

theorem os_lockout_exact:
  assumes "os_ok s" and "instant t" and "instant t'" and "t \<le> t'"
  shows "(let s' = record_os_credential_failure TerminalOsLogin t s;
              b = os_credential_login_backoff_seconds (total_failures s')
          in os_ok s' \<and>
             (pd_allowed (fst (evaluate_os_credential_policy TerminalOsLogin t' s')) \<longleftrightarrow> t + 1000 * b \<le> t') \<and>
             b \<le> 1800 \<and> (3 \<le> total_failures s' \<longrightarrow> 15 \<le> b) \<and> (10 \<le> total_failures s' \<longrightarrow> b = 1800))"
proof -
  let ?s = "record_os_credential_failure TerminalOsLogin t s"
  let ?b = "os_credential_login_backoff_seconds (total_failures ?s)"
  have ok: "os_ok ?s" using assms(1,2) by (rule os_ok_record)
  have last: "last_failure_ms ?s = Some t"
    by (simp add: record_os_credential_failure_def is_os_credential_scope_def Let_def)
  have until: "backoff_until_ms ?s = (if ?b > 0 then Some (t + 1000 * ?b) else None)"
  proof (cases "?b > 0")
    case True
    then show ?thesis using assms(2)
      by (auto simp: record_os_credential_failure_def is_os_credential_scope_def Let_def wrap_instant split: if_splits)
  next
    case False
    then have "total_failures ?s < 3" using backoff_range(3) [of "total_failures ?s"] by linarith
    then have "backoff_until_ms ?s = None" using ok by (cases "backoff_until_ms ?s") (auto simp: os_ok_def)
    with False show ?thesis by simp
  qed
  have sat: "sat_i64 (t' - t) = t' - t"
    using assms(2-4) by (intro sat_i64_id) (auto simp: instant_def i64_min_def)
  have "pd_allowed (fst (evaluate_os_credential_policy TerminalOsLogin t' ?s)) \<longleftrightarrow>
      \<not> (t' - t < IDLE_RESET_MS \<and> ?b > 0 \<and> t' < t + 1000 * ?b)"
    by (auto simp: evaluate_os_credential_policy_def is_os_credential_scope_def Let_def reset_totals_on_idle_def
        normalize_backoff_def last until sat allow_decision_def block_decision_def)
  also have "\<dots> \<longleftrightarrow> t + 1000 * ?b \<le> t'"
    using backoff_range(1,2) [of "total_failures ?s"] assms(4) by (auto simp: IDLE_RESET_MS_def)
  finally show ?thesis using ok backoff_range(2-4) [of "total_failures ?s"] by (simp add: Let_def)
qed

theorem os_lockout_exact_witness:
  "(let s = \<lparr>total_failures = 2, backoff_until_ms = None, last_failure_ms = Some 500000\<rparr>;
        s' = record_os_credential_failure TerminalOsLogin 1000000 s
    in \<not> pd_allowed (fst (evaluate_os_credential_policy TerminalOsLogin 1014999 s')) \<and> total_failures s' = 3)"
proof -
  let ?s = "\<lparr>total_failures = 2, backoff_until_ms = None, last_failure_ms = Some 500000\<rparr>"
  have "os_ok ?s" by (simp add: os_ok_def i32_max_def instant_def i64_max_def)
  moreover have "total_failures (record_os_credential_failure TerminalOsLogin 1000000 ?s) = 3"
    by (simp add: record_os_credential_failure_def is_os_credential_scope_def reset_totals_on_idle_def normalize_backoff_def
        sat_i32_def sat_i64_def i32_max_def i64_max_def i64_min_def IDLE_RESET_MS_def Let_def)
  ultimately show ?thesis
    using os_lockout_exact [of ?s 1000000 1014999]
    by (simp add: Let_def instant_def i64_max_def)
qed

section \<open>Properties of the failure tables\<close>

definition minute_of :: "failures \<Rightarrow> string \<Rightarrow> int" where "minute_of m k = fst (entry_of m k)"
definition in_minute :: "failures \<Rightarrow> string \<Rightarrow> int" where "in_minute m k = fst (snd (entry_of m k))"
definition total_of :: "failures \<Rightarrow> string \<Rightarrow> int" where "total_of m k = snd (snd (entry_of m k))"

text \<open>The keys an attempt counts against, with the number of failures after which each one refuses.\<close>

definition limits :: "string \<Rightarrow> (string \<times> int) list" where
  "limits ip = (case get_ipv6_prefixes ip of
      Some (p64, p56, p48) \<Rightarrow> [(p64, 60), (p56, 80), (p48, 100)] | None \<Rightarrow> []) @ [(ip, 30)]"

lemma update_table_fail: "update_table ip f False m = fold (bump_key (snd f)) (map fst (limits ip)) m"
  by (cases f) (auto simp: update_table_def limits_def split: option.splits)

text \<open>The first limit an attempt exceeds decides.\<close>

lemma check_prefix_None: "check_failure_ipv6_prefix m time p w thresh = None \<longleftrightarrow> total_of m p \<le> thresh"
  by (auto simp: check_failure_ipv6_prefix_def total_of_def Let_def)

lemma check_prefix_Some: "check_failure_ipv6_prefix m time p w thresh = Some r \<Longrightarrow> \<not> snd (fst r) \<and> thresh < total_of m p"
  by (auto simp: check_failure_ipv6_prefix_def total_of_def Let_def split: if_splits)

lemma check_table_direct:
  assumes "\<forall>(k, thresh) \<in> set (butlast (limits ip)). total_of m k \<le> thresh"
  shows "snd (fst (check_table ip time m)) \<longleftrightarrow> total_of m ip \<le> 30 \<and> \<not> (minute_of m ip = time \<and> in_minute m ip > 6)"
    "fst (fst (check_table ip time m)) = (entry_of m ip, time)"
proof -
  obtain t k n where e: "entry_of m ip = (t, k, n)" by (cases "entry_of m ip") auto
  have "check_table ip time m =
     (if n > 30 then (((entry_of m ip, time), False), [LoginError ''Too many wrong attempts'', Alarm ExceedThirtyAttempts])
      else if time = t \<and> k > 6 then
        (((entry_of m ip, time), False), [LoginError ''Please try 1 minute later'', Alarm SixAttemptsWithinOneMinute])
      else (((entry_of m ip, time), True), []))"
  proof (cases "get_ipv6_prefixes ip")
    case (Some ps)
    obtain p q r where ps: "ps = (p, q, r)" by (rule prod_cases3)
    have "total_of m p \<le> 60" "total_of m q \<le> 80" "total_of m r \<le> 100"
      using assms by (simp_all add: limits_def Some ps)
    then have "check_failure_ipv6_prefix m time p 64 60 = None" "check_failure_ipv6_prefix m time q 56 80 = None"
      "check_failure_ipv6_prefix m time r 48 100 = None"
      by (simp_all add: check_prefix_None)
    then show ?thesis by (simp add: check_table_def Some ps e Let_def)
  qed (simp add: check_table_def e Let_def)
  then show "snd (fst (check_table ip time m)) \<longleftrightarrow> total_of m ip \<le> 30 \<and> \<not> (minute_of m ip = time \<and> in_minute m ip > 6)"
    "fst (fst (check_table ip time m)) = (entry_of m ip, time)"
    by (auto simp: total_of_def minute_of_def in_minute_def e)
qed

lemma check_table_blocked:
  assumes "\<not> (\<forall>(k, thresh) \<in> set (butlast (limits ip)). total_of m k \<le> thresh)"
  shows "\<not> snd (fst (check_table ip time m))"
proof (cases "get_ipv6_prefixes ip")
  case (Some ps)
  obtain p q r where ps: "ps = (p, q, r)" by (rule prod_cases3)
  let ?c = "check_failure_ipv6_prefix m time"
  have "\<not> (?c p 64 60 = None \<and> ?c q 56 80 = None \<and> ?c r 48 100 = None)"
    using assms by (auto simp: limits_def Some ps check_prefix_None)
  then show ?thesis
    using check_prefix_Some [of m time p 64 60] check_prefix_Some [of m time q 56 80] check_prefix_Some [of m time r 48 100]
    by (auto simp: check_table_def Some ps split: option.splits)
qed (use assms in \<open>simp add: limits_def\<close>)

lemma limits_last: "set (limits ip) = insert (ip, 30) (set (butlast (limits ip)))"
  by (auto simp: limits_def butlast_append split: option.splits)

lemma check_table_ok_iff:
  "snd (fst (check_table ip time m)) \<longleftrightarrow>
     (\<forall>(k, thresh) \<in> set (limits ip). total_of m k \<le> thresh) \<and> \<not> (minute_of m ip = time \<and> in_minute m ip > 6)"
proof (cases "\<forall>(k, thresh) \<in> set (butlast (limits ip)). total_of m k \<le> thresh")
  case True
  then show ?thesis unfolding check_table_direct(1) [OF True] limits_last by simp
next
  case False
  then show ?thesis using check_table_blocked [OF False] unfolding limits_last by auto
qed

lemma check_table_entry: "snd (fst (check_table ip time m)) \<Longrightarrow> fst (fst (check_table ip time m)) = (entry_of m ip, time)"
  using check_table_direct(2) check_table_blocked by blast

text \<open>Sane tables: no count is negative or out of bounds.\<close>

definition table_ok :: "int \<Rightarrow> failures \<Rightarrow> bool" where
  "table_ok b m \<longleftrightarrow> (\<forall>k. 0 \<le> in_minute m k \<and> in_minute m k \<le> total_of m k \<and> total_of m k \<le> b)"

lemma bump_key_simps:
  assumes "table_ok b m" "b < i32_max"
  shows "total_of (bump_key t k m) k' = total_of m k' + (if k' = k then 1 else 0)"
    "minute_of (bump_key t k m) k' = (if k' = k then t else minute_of m k')"
    "in_minute (bump_key t k m) k' =
      (if k' = k then (if minute_of m k = t then in_minute m k + 1 else 1) else in_minute m k')"
proof -
  obtain mi c n where e: "entry_of m k = (mi, c, n)" by (cases "entry_of m k") auto
  have "0 \<le> c" "c \<le> n" "n \<le> b"
    using assms(1) e unfolding table_ok_def in_minute_def total_of_def by (metis fst_conv snd_conv)+
  then have w: "wrap_i32 (n + 1) = n + 1" "wrap_i32 (c + 1) = c + 1"
    using assms(2) by (auto intro!: wrap_i32_id simp: i32_max_def)
  show "total_of (bump_key t k m) k' = total_of m k' + (if k' = k then 1 else 0)"
    "minute_of (bump_key t k m) k' = (if k' = k then t else minute_of m k')"
    "in_minute (bump_key t k m) k' =
      (if k' = k then (if minute_of m k = t then in_minute m k + 1 else 1) else in_minute m k')"
    using e w by (auto simp: bump_key_def bump_failure_entry_def total_of_def minute_of_def in_minute_def
        entry_of_def split: option.splits)
qed

lemma table_ok_bump:
  assumes "table_ok b m" "b < i32_max"
  shows "table_ok (b + 1) (bump_key t k m)"
  unfolding table_ok_def
proof
  fix k'
  have "0 \<le> in_minute m k'" "in_minute m k' \<le> total_of m k'" "total_of m k' \<le> b"
    using assms(1) by (simp_all add: table_ok_def)
  then show "0 \<le> in_minute (bump_key t k m) k' \<and> in_minute (bump_key t k m) k' \<le> total_of (bump_key t k m) k' \<and>
      total_of (bump_key t k m) k' \<le> b + 1"
    by (auto simp: bump_key_simps [OF assms])
qed

lemma bumps:
  assumes "table_ok b m" "b + int (length ks) < i32_max"
  shows "table_ok (b + int (length ks)) (fold (bump_key t) ks m) \<and>
    (\<forall>k. total_of (fold (bump_key t) ks m) k = total_of m k + int (count_list ks k)) \<and>
    (\<forall>k. minute_of (fold (bump_key t) ks m) k = (if k \<in> set ks then t else minute_of m k)) \<and>
    (\<forall>k. in_minute (fold (bump_key t) ks m) k \<ge>
        (if minute_of m k = t then in_minute m k else 0) * (if k \<in> set ks then 1 else 0) + (if k \<in> set ks then 1 else in_minute m k))"
  using assms
proof (induction ks arbitrary: b m)
  case (Cons k ks)
  have b: "b < i32_max" using Cons.prems(2) by simp
  note s = bump_key_simps [OF Cons.prems(1) b, of t k]
  have "table_ok (b + 1) (bump_key t k m)" using Cons.prems(1) b by (rule table_ok_bump)
  then have ih: "table_ok (b + 1 + int (length ks)) (fold (bump_key t) ks (bump_key t k m)) \<and>
    (\<forall>k'. total_of (fold (bump_key t) ks (bump_key t k m)) k' = total_of (bump_key t k m) k' + int (count_list ks k')) \<and>
    (\<forall>k'. minute_of (fold (bump_key t) ks (bump_key t k m)) k' = (if k' \<in> set ks then t else minute_of (bump_key t k m) k')) \<and>
    (\<forall>k'. in_minute (fold (bump_key t) ks (bump_key t k m)) k' \<ge>
      (if minute_of (bump_key t k m) k' = t then in_minute (bump_key t k m) k' else 0) * (if k' \<in> set ks then 1 else 0) +
      (if k' \<in> set ks then 1 else in_minute (bump_key t k m) k'))"
    using Cons.prems(2) by (intro Cons.IH) simp_all
  have pos: "0 \<le> in_minute m k'" for k' using Cons.prems(1) by (simp add: table_ok_def)
  show ?case
  proof (intro conjI allI)
    show "table_ok (b + int (length (k # ks))) (fold (bump_key t) (k # ks) m)" using ih by (simp add: algebra_simps)
    fix k'
    show "total_of (fold (bump_key t) (k # ks) m) k' = total_of m k' + int (count_list (k # ks) k')"
      using ih s by (simp add: algebra_simps)
    show "minute_of (fold (bump_key t) (k # ks) m) k' = (if k' \<in> set (k # ks) then t else minute_of m k')"
      using ih s by simp
    have "in_minute (fold (bump_key t) ks (bump_key t k m)) k' \<ge>
      (if minute_of (bump_key t k m) k' = t then in_minute (bump_key t k m) k' else 0) * (if k' \<in> set ks then 1 else 0) +
      (if k' \<in> set ks then 1 else in_minute (bump_key t k m) k')" using ih by blast
    then show "in_minute (fold (bump_key t) (k # ks) m) k' \<ge>
      (if minute_of m k' = t then in_minute m k' else 0) * (if k' \<in> set (k # ks) then 1 else 0) +
      (if k' \<in> set (k # ks) then 1 else in_minute m k')"
      using pos [of k'] by (auto simp: s split: if_splits)
  qed
qed simp

text \<open>An attempt with a wrong secret that no other one overlaps: it is counted when the guard lets it through. Attempts that
  overlap are in theory \<open>LoginAttempts\<close>.\<close>

definition failed_attempt :: "string \<times> int \<Rightarrow> failures \<times> (string \<times> int) list \<Rightarrow> failures \<times> (string \<times> int) list" where
  "failed_attempt = (\<lambda>(ip, time) (m, adm).
     (let ((f, ok), _) = check_table ip time m in
      if ok then (update_table ip f False m, adm @ [(ip, time)]) else (m, adm)))"

lemma failed_attempt_cases:
  obtains (refused) "failed_attempt (ip, time) (m, adm) = (m, adm)"
  | (admitted) "failed_attempt (ip, time) (m, adm) = (fold (bump_key time) (map fst (limits ip)) m, adm @ [(ip, time)])"
      "\<forall>(k, thresh) \<in> set (limits ip). total_of m k \<le> thresh" "\<not> (minute_of m ip = time \<and> in_minute m ip > 6)"
proof (cases "snd (fst (check_table ip time m))")
  case True
  then have "failed_attempt (ip, time) (m, adm) = (fold (bump_key time) (map fst (limits ip)) m, adm @ [(ip, time)])"
    using check_table_entry [of ip time m]
    by (auto simp: failed_attempt_def update_table_fail split: prod.splits)
  with True show ?thesis using admitted check_table_ok_iff by blast
next
  case False
  then have "failed_attempt (ip, time) (m, adm) = (m, adm)" by (auto simp: failed_attempt_def split: prod.splits)
  then show ?thesis by (rule refused)
qed

lemma limits_thresh: "(k, thresh) \<in> set (limits ip) \<Longrightarrow> thresh \<le> 100" "length (limits ip) \<le> 4" "(ip, 30) \<in> set (limits ip)"
  by (auto simp: limits_def split: option.splits)

text \<open>Whatever the attempts, a table holds no count above 104: a key is bumped at most four times by
  an attempt, and only while it is within its limit.\<close>

lemma failed_attempt_ok:
  assumes "table_ok 104 m"
  shows "table_ok 104 (fst (failed_attempt a (m, adm)))"
proof -
  obtain ip time where a: "a = (ip, time)" by (cases a)
  show ?thesis
  proof (cases rule: failed_attempt_cases [of ip time m adm])
    case refused
    then show ?thesis using assms a by simp
  next
    case admitted
    let ?ks = "map fst (limits ip)"
    have b: "table_ok (104 + int (length ?ks)) (fold (bump_key time) ?ks m)"
      "\<And>k. total_of (fold (bump_key time) ?ks m) k = total_of m k + int (count_list ?ks k)"
      using bumps [OF assms, of ?ks time] limits_thresh(2) [of ip] by (auto simp: i32_max_def)
    have "total_of (fold (bump_key time) ?ks m) k \<le> 104" for k
    proof (cases "k \<in> set ?ks")
      case True
      then have "total_of m k \<le> 100" using admitted(2) limits_thresh(1) by fastforce
      moreover have "count_list ?ks k \<le> 4" using count_le_length [of ?ks k] limits_thresh(2) [of ip] by simp
      ultimately show ?thesis unfolding b(2) by simp
    next
      case False
      then have "count_list ?ks k = 0" by (simp add: count_list_0_iff)
      then show ?thesis using assms unfolding b(2) by (simp add: table_ok_def)
    qed
    then show ?thesis using b(1) a admitted(1) by (simp add: table_ok_def)
  qed
qed

text \<open>Within one minute: the entry of an address counts the failures of its minute.\<close>

definition minute_inv :: "string \<Rightarrow> int \<Rightarrow> (string \<times> int) list \<Rightarrow> failures \<Rightarrow> nat \<Rightarrow> bool" where
  "minute_inv ip time attempts m n \<longleftrightarrow> table_ok 104 m \<and> n \<le> 7 \<and> (minute_of m ip = time \<longrightarrow> int n \<le> in_minute m ip) \<and>
    (0 < n \<longrightarrow> time \<le> minute_of m ip) \<and>
    (\<forall>t. (\<forall>(_, t') \<in> set attempts. t' \<le> t) \<and> 0 \<le> t \<longrightarrow> (\<forall>k. minute_of m k \<le> t))"

lemma minute_bound:
  assumes "sorted (map snd attempts)" "\<forall>(_, t) \<in> set attempts. 0 < t"
  shows "minute_inv ip time attempts (fst (fold failed_attempt attempts (Map.empty, [])))
    (length (filter (\<lambda>a. a = (ip, time)) (snd (fold failed_attempt attempts (Map.empty, [])))))"
  using assms
proof (induction attempts rule: rev_induct)
  case Nil
  then show ?case by (simp add: minute_inv_def table_ok_def total_of_def in_minute_def minute_of_def entry_of_def)
next
  case (snoc a as)
  obtain m adm where r: "fold failed_attempt as (Map.empty, []) = (m, adm)" by fastforce
  obtain ip' t where a: "a = (ip', t)" by (cases a)
  have sorted: "sorted (map snd as)" "\<forall>(_, t') \<in> set as. t' \<le> t" and "0 < t"
    using snoc.prems a by (auto simp: sorted_append)
  let ?n = "length (filter (\<lambda>a. a = (ip, time)) adm)"
  have "minute_inv ip time as m ?n" using snoc.IH [OF sorted(1)] snoc.prems(2) r by simp
  then have ih: "table_ok 104 m" "?n \<le> 7" "minute_of m ip = time \<Longrightarrow> int ?n \<le> in_minute m ip" "0 < ?n \<Longrightarrow> time \<le> minute_of m ip"
    "\<And>k t. \<forall>(_, t') \<in> set as. t' \<le> t \<Longrightarrow> 0 \<le> t \<Longrightarrow> minute_of m k \<le> t"
    unfolding minute_inv_def by blast+
  have ok: "table_ok 104 (fst (failed_attempt a (m, adm)))" using ih(1) by (rule failed_attempt_ok)
  show ?case
  proof (cases rule: failed_attempt_cases [of ip' t m adm])
    case refused
    then show ?thesis using ih r a by (auto simp: minute_inv_def)
  next
    case admitted
    let ?m = "fold (bump_key t) (map fst (limits ip')) m"
    have "length (map fst (limits ip')) \<le> 4" using limits_thresh(2) by simp
    then have b: "\<And>k. minute_of ?m k = (if k \<in> set (map fst (limits ip')) then t else minute_of m k)"
      "\<And>k. in_minute ?m k \<ge> (if minute_of m k = t then in_minute m k else 0) * (if k \<in> set (map fst (limits ip')) then 1 else 0) +
        (if k \<in> set (map fst (limits ip')) then 1 else in_minute m k)"
      using bumps [OF ih(1), of "map fst (limits ip')" t] by (simp_all add: i32_max_def)
    have le: "minute_of m k \<le> t" for k using ih(5) [OF sorted(2)] \<open>0 < t\<close> by simp
    have mem: "ip' \<in> set (map fst (limits ip'))" using limits_thresh(3) [of ip'] by force
    have pos: "0 \<le> in_minute m ip" using ih(1) by (simp add: table_ok_def)
    let ?n' = "length (filter (\<lambda>a. a = (ip, time)) (adm @ [(ip', t)]))"
    have n7: "?n' \<le> 7"
    proof (cases "(ip', t) = (ip, time)")
      case True
      have "?n \<le> 6"
      proof (rule ccontr)
        assume n: "\<not> ?n \<le> 6"
        then have "time \<le> minute_of m ip" by (intro ih(4)) linarith
        then have "minute_of m ip = time" using le [of ip] True by simp
        with n ih(3) admitted(3) True show False by auto
      qed
      with True show ?thesis by simp
    qed (use ih(2) in auto)
    have z: "?n = 0" if "minute_of m ip \<noteq> time" "minute_of m ip \<le> time" using ih(4) that by linarith
    have k: "minute_of ?m ip = time \<longrightarrow> int ?n' \<le> in_minute ?m ip"
      using ih(3) z b(1) [of ip] b(2) [of ip] mem le [of ip] pos by (auto split: if_splits)
    have w: "0 < ?n' \<longrightarrow> time \<le> minute_of ?m ip"
      using ih(4) b(1) [of ip] mem le [of ip] by (auto split: if_splits)
    have u: "\<forall>u. (\<forall>(_, t') \<in> set (as @ [a]). t' \<le> u) \<and> 0 \<le> u \<longrightarrow> (\<forall>k. minute_of ?m k \<le> u)"
      using ih(5) b(1) a by auto
    show ?thesis using r a admitted(1) ok n7 k w u by (simp add: minute_inv_def)
  qed
qed

text \<open>At most seven failing attempts of one address are let through in a minute, when they come one after the other and the
  clock does not run backwards.\<close>

theorem guesses_per_minute:
  assumes "sorted (map snd attempts)" and "\<forall>(_, t) \<in> set attempts. 0 < t"
  shows "length (filter (\<lambda>a. a = (ip, time)) (snd (fold failed_attempt attempts (Map.empty, [])))) \<le> 7"
  using minute_bound [OF assms, of ip time] by (simp add: minute_inv_def)

theorem guesses_per_minute_witness:
  "length (filter (\<lambda>a. a = (''10.0.0.9'', 28000000)) (snd (fold failed_attempt (replicate 9 (''10.0.0.9'', 28000000)) (Map.empty, [])))) \<le> 7"
  by (rule guesses_per_minute) simp_all

end
