(* ===== verification/LoginAttempts.thy ===== *)
theory LoginAttempts
  imports LoginGuard
begin

text \<open>
  The guard against guessing when attempts overlap: \<open>check_failure_with_scope\<close> and \<open>update_failure_with_scope\<close> of
  \<^verbatim>\<open>src/server/connection.rs\<close> as the steps that each take the lock of the table, for any number of connections.
\<close>

section \<open>Attempts that overlap\<close>

text \<open>
  A connection works on one attempt at a time, connections run side by side. Each look at a table and each update takes the
  lock for itself (\<open>check_failure_ipv6_prefix\<close> three times, the look at the address, \<open>update_failure_with_scope\<close>), so
  that they are the steps here: an attempt starts, looks at one limit after the other, ends when one refuses it, is let
  through after the last, and is counted later on, when its secret turned out to be wrong.
\<close>

record open_attempt =
  oa_ip :: string
  oa_time :: int
  oa_left :: "(string \<times> int) list"

record guard_state =
  gs_table :: failures
  gs_open :: "nat \<Rightarrow> open_attempt option"
  gs_admitted :: "(string \<times> int) list"

datatype guard_op = StartAttempt nat string int | ReadLimit nat | CountFailure nat

fun guard_conn :: "guard_op \<Rightarrow> nat" where
  "guard_conn (StartAttempt c _ _) = c"
| "guard_conn (ReadLimit c) = c"
| "guard_conn (CountFailure c) = c"

text \<open>The last look is at the address itself, the ones before at its prefixes.\<close>

definition read_admits :: "failures \<Rightarrow> open_attempt \<Rightarrow> bool" where
  "read_admits m a =
     (case oa_left a of
        [] \<Rightarrow> False
      | [(k, thresh)] \<Rightarrow> (case entry_of m k of (t, n, failed) \<Rightarrow> failed \<le> thresh \<and> \<not> (oa_time a = t \<and> n > 6))
      | (k, thresh) # _ \<Rightarrow> check_failure_ipv6_prefix m (oa_time a) k 0 thresh = None)"

fun guard_step :: "guard_op \<Rightarrow> guard_state \<Rightarrow> guard_state" where
  "guard_step (StartAttempt c ip time) g =
     (if gs_open g c = None then g\<lparr>gs_open := (gs_open g)(c := Some \<lparr>oa_ip = ip, oa_time = time, oa_left = limits ip\<rparr>)\<rparr> else g)"
| "guard_step (ReadLimit c) g =
     (case gs_open g c of
        Some a \<Rightarrow>
          if oa_left a = [] then g
          else if read_admits (gs_table g) a then
            g\<lparr>gs_open := (gs_open g)(c := Some (a\<lparr>oa_left := tl (oa_left a)\<rparr>)),
              gs_admitted := gs_admitted g @ (if tl (oa_left a) = [] then [(oa_ip a, oa_time a)] else [])\<rparr>
          else g\<lparr>gs_open := (gs_open g)(c := None)\<rparr>
      | None \<Rightarrow> g)"
| "guard_step (CountFailure c) g =
     (case gs_open g c of
        Some a \<Rightarrow>
          if oa_left a = [] then
            g\<lparr>gs_table := update_table (oa_ip a) (entry_of (gs_table g) (oa_ip a), oa_time a) False (gs_table g),
              gs_open := (gs_open g)(c := None)\<rparr>
          else g
      | None \<Rightarrow> g)"

definition guard_init :: guard_state where
  "guard_init = \<lparr>gs_table = Map.empty, gs_open = (\<lambda>_. None), gs_admitted = []\<rparr>"

text \<open>With nothing in between, the looks together are \<open>check_failure_with_scope\<close>.\<close>

fun looks :: "failures \<Rightarrow> string \<Rightarrow> int \<Rightarrow> (string \<times> int) list \<Rightarrow> bool" where
  "looks m ip time [] = True"
| "looks m ip time (x # xs) = (read_admits m \<lparr>oa_ip = ip, oa_time = time, oa_left = x # xs\<rparr> \<and> looks m ip time xs)"

lemma read_last: "read_admits m \<lparr>oa_ip = ip, oa_time = time, oa_left = [(k, th)]\<rparr> \<longleftrightarrow>
    total_of m k \<le> th \<and> \<not> (minute_of m k = time \<and> in_minute m k > 6)"
  by (auto simp: read_admits_def total_of_def minute_of_def in_minute_def split: prod.split)

lemma read_prefix: "xs \<noteq> [] \<Longrightarrow> read_admits m \<lparr>oa_ip = ip, oa_time = time, oa_left = (k, th) # xs\<rparr> \<longleftrightarrow> total_of m k \<le> th"
  by (cases xs) (simp_all add: read_admits_def check_prefix_None)

lemma looks_check_table: "looks m ip time (limits ip) \<longleftrightarrow> snd (fst (check_table ip time m))"
  unfolding check_table_ok_iff by (cases "get_ipv6_prefixes ip") (auto simp: limits_def read_last read_prefix)

lemma read_admits_total: "\<lbrakk>read_admits m a; oa_left a = (k, thresh) # rest\<rbrakk> \<Longrightarrow> total_of m k \<le> thresh"
  by (cases rest) (auto simp: read_admits_def check_prefix_None total_of_def split: prod.splits)

text \<open>The connections whose attempt is past a limit and not yet counted.\<close>

definition past :: "nat \<Rightarrow> (string \<Rightarrow> bool) \<Rightarrow> string \<times> int \<Rightarrow> guard_state \<Rightarrow> nat set" where
  "past p Q l g = {c \<in> {..<p}. \<exists>a. gs_open g c = Some a \<and> Q (oa_ip a) \<and> l \<notin> set (oa_left a)}"

definition let_through :: "nat \<Rightarrow> (string \<Rightarrow> bool) \<Rightarrow> guard_state \<Rightarrow> nat set" where
  "let_through p Q g = {c \<in> {..<p}. \<exists>a. gs_open g c = Some a \<and> Q (oa_ip a) \<and> oa_left a = []}"

definition past_key :: "nat \<Rightarrow> string \<Rightarrow> guard_state \<Rightarrow> nat set" where
  "past_key p k g = {c \<in> {..<p}. \<exists>a. gs_open g c = Some a \<and> k \<in> fst ` set (limits (oa_ip a)) \<and> k \<notin> fst ` set (oa_left a)}"

definition left_ok :: "guard_state \<Rightarrow> bool" where
  "left_ok g \<longleftrightarrow> (\<forall>c a. gs_open g c = Some a \<longrightarrow> set (oa_left a) \<subseteq> set (limits (oa_ip a)))"

definition admitted_of :: "(string \<Rightarrow> bool) \<Rightarrow> guard_state \<Rightarrow> int" where
  "admitted_of Q g = int (length (filter (\<lambda>(ip, _). Q ip) (gs_admitted g)))"

text \<open>No count gets out of bounds.\<close>

definition counts_ok :: "nat \<Rightarrow> guard_state \<Rightarrow> bool" where
  "counts_ok p g \<longleftrightarrow> left_ok g \<and> (\<forall>k. 0 \<le> in_minute (gs_table g) k \<and> in_minute (gs_table g) k \<le> total_of (gs_table g) k \<and>
     total_of (gs_table g) k + 4 * int (card (past_key p k g)) \<le> 100 + 4 * int p)"

lemma finite_sets [simp]: "finite (past p Q l g)" "finite (let_through p Q g)" "finite (past_key p k g)"
  by (simp_all add: past_def let_through_def past_key_def)

lemma card_bounds: "card (past p Q l g) \<le> p" "card (past_key p k g) \<le> p"
proof -
  have "past p Q l g \<subseteq> {..<p}" "past_key p k g \<subseteq> {..<p}"
    by (auto simp: past_def past_key_def)
  then show "card (past p Q l g) \<le> p" "card (past_key p k g) \<le> p"
    using card_mono[of "{..<p}"] by force+
qed

lemma counts_ok_table:
  assumes "counts_ok p g"
  shows "table_ok (100 + 4 * int p) (gs_table g)"
  unfolding table_ok_def
proof
  fix k
  have "0 \<le> int (card (past_key p k g))"
    by simp
  then show "0 \<le> in_minute (gs_table g) k \<and> in_minute (gs_table g) k \<le> total_of (gs_table g) k \<and>
      total_of (gs_table g) k \<le> 100 + 4 * int p"
    using assms unfolding counts_ok_def by (smt (verit, best))
qed

text \<open>What the update of a failed attempt does to the table.\<close>

lemma count_failure_table:
  fixes f :: entry and ip :: string and time :: int
  assumes "counts_ok p g" "p \<le> 500000000"
  defines "m' \<equiv> update_table ip (f, time) False (gs_table g)"
  shows "total_of m' k = total_of (gs_table g) k + int (count_list (map fst (limits ip)) k)"
    and "0 \<le> in_minute m' k \<and> in_minute m' k \<le> total_of m' k"
proof -
  have m': "m' = fold (bump_key time) (map fst (limits ip)) (gs_table g)"
    unfolding m'_def update_table_fail by simp
  have "100 + 4 * int p + int (length (map fst (limits ip))) < i32_max"
    using assms(2) limits_thresh(2)[of ip] by (simp add: i32_max_def)
  from bumps[OF counts_ok_table[OF assms(1)] this, of time] show "total_of m' k = total_of (gs_table g) k + int (count_list (map fst (limits ip)) k)"
    "0 \<le> in_minute m' k \<and> in_minute m' k \<le> total_of m' k"
    unfolding m' table_ok_def by blast+
qed

lemma counts_ok_step:
  assumes "counts_ok p g" "p \<le> 500000000" "guard_conn op < p"
  shows "counts_ok p (guard_step op g)"
proof -
  have lo: "left_ok g" and ok: "\<And>k. 0 \<le> in_minute (gs_table g) k \<and> in_minute (gs_table g) k \<le> total_of (gs_table g) k"
    and tot: "\<And>k. total_of (gs_table g) k + 4 * int (card (past_key p k g)) \<le> 100 + 4 * int p"
    using assms(1) by (simp_all add: counts_ok_def)
  have shrink: "counts_ok p g'" if "gs_table g' = gs_table g" "left_ok g'" "\<And>k. past_key p k g' \<subseteq> past_key p k g" for g'
  proof -
    have "card (past_key p k g') \<le> card (past_key p k g)" for k
      using that(3) by (simp add: card_mono)
    then show ?thesis
      using that(1,2) ok tot by (smt (verit) counts_ok_def of_nat_mono)
  qed
  show ?thesis
  proof (cases op)
    case (StartAttempt c ip time)
    then show ?thesis
      using assms(1) lo by (auto intro!: shrink simp: left_ok_def past_key_def split: if_splits)
  next
    case (ReadLimit c)
    show ?thesis
    proof (cases "\<exists>a. gs_open g c = Some a \<and> oa_left a \<noteq> []")
      case False
      then have "guard_step op g = g"
        using ReadLimit by (auto split: option.split)
      then show ?thesis
        using assms(1) by simp
    next
      case True
      then obtain a k0 th rest where a: "gs_open g c = Some a" "oa_left a = (k0, th) # rest"
        by (metis neq_Nil_conv surj_pair)
      show ?thesis
      proof (cases "read_admits (gs_table g) a")
        case False
        then show ?thesis
          using ReadLimit a lo by (auto intro!: shrink simp: left_ok_def past_key_def split: if_splits)
      next
        case adm: True
        let ?g = "guard_step op g"
        have g: "gs_table ?g = gs_table g" "gs_open ?g = (gs_open g)(c := Some (a\<lparr>oa_left := rest\<rparr>))"
          using ReadLimit a adm by simp_all
        have l: "left_ok ?g"
          using lo a by (force simp: left_ok_def g)
        have mem: "(k0, th) \<in> set (limits (oa_ip a))"
          using lo a by (force simp: left_ok_def)
        have "total_of (gs_table g) k + 4 * int (card (past_key p k ?g)) \<le> 100 + 4 * int p" for k
        proof (cases "k = k0")
          case True
          then have "total_of (gs_table g) k \<le> 100"
            using read_admits_total[OF adm a(2)] limits_thresh(1)[OF mem] by simp
          then show ?thesis
            using card_bounds(2)[of p k ?g] by simp
        next
          case False
          have "past_key p k ?g = past_key p k g"
            using a False by (force simp: past_key_def g)
          then show ?thesis
            using tot by simp
        qed
        then show ?thesis
          using l ok by (simp add: counts_ok_def g)
      qed
    qed
  next
    case (CountFailure c)
    show ?thesis
    proof (cases "\<exists>a. gs_open g c = Some a \<and> oa_left a = []")
      case False
      then have "guard_step op g = g"
        using CountFailure by (auto split: option.split)
      then show ?thesis
        using assms(1) by simp
    next
      case True
      then obtain a where a: "gs_open g c = Some a" "oa_left a = []"
        by blast
      let ?g = "guard_step op g"
      let ?ks = "map fst (limits (oa_ip a))"
      have g: "gs_table ?g = update_table (oa_ip a) (entry_of (gs_table g) (oa_ip a), oa_time a) False (gs_table g)"
        "gs_open ?g = (gs_open g)(c := None)"
        using CountFailure a by simp_all
      note t = count_failure_table[OF assms(1,2), where ip = "oa_ip a" and f = "entry_of (gs_table g) (oa_ip a)" and time = "oa_time a", folded g(1)]
      have p: "past_key p k ?g = past_key p k g - {c}" for k
        by (auto simp: past_key_def g)
      have "total_of (gs_table ?g) k + 4 * int (card (past_key p k ?g)) \<le> 100 + 4 * int p" for k
      proof (cases "k \<in> set ?ks")
        case True
        then have "c \<in> past_key p k g"
          using a assms(3) CountFailure by (auto simp: past_key_def)
        then have "card (past_key p k ?g) = card (past_key p k g) - 1" "0 < card (past_key p k g)"
          unfolding p by (auto simp: card_gt_0_iff)
        moreover have "count_list ?ks k \<le> 4"
          using count_le_length[of ?ks k] limits_thresh(2)[of "oa_ip a"] by simp
        ultimately show ?thesis
          unfolding t(1) using tot[of k] by linarith
      next
        case False
        then have "count_list ?ks k = 0"
          by (simp add: count_list_0_iff)
        moreover have "card (past_key p k ?g) \<le> card (past_key p k g)"
          unfolding p by (simp add: card_Diff1_le)
        ultimately show ?thesis
          unfolding t(1) using tot[of k] by linarith
      qed
      moreover have "left_ok ?g"
        using lo by (auto simp: left_ok_def g)
      ultimately show ?thesis
        using t(2) by (simp add: counts_ok_def)
    qed
  qed
qed

text \<open>Of the attempts let through, those not counted yet are open, and past the limit are at most as many as there are connections.\<close>

definition bounded :: "nat \<Rightarrow> (string \<Rightarrow> bool) \<Rightarrow> string \<Rightarrow> int \<Rightarrow> guard_state \<Rightarrow> bool" where
  "bounded p Q key th g \<longleftrightarrow>
     admitted_of Q g \<le> total_of (gs_table g) key + int (card (let_through p Q g)) \<and>
     admitted_of Q g - int (card (let_through p Q g)) + int (card (past p Q (key, th) g)) \<le> th + int p"

lemma bounded_read:
  assumes "bounded p Q key th g" "c < p" "gs_open g c = Some a" "oa_left a = (k0, th0) # rest" "read_admits (gs_table g) a"
    and "\<And>ip. Q ip \<Longrightarrow> (key, th) \<in> set (limits ip)"
  shows "bounded p Q key th (guard_step (ReadLimit c) g)"
proof -
  let ?g = "guard_step (ReadLimit c) g"
  let ?in = "Q (oa_ip a) \<and> rest = []"
  have g: "gs_table ?g = gs_table g" "gs_open ?g = (gs_open g)(c := Some (a\<lparr>oa_left := rest\<rparr>))"
    "gs_admitted ?g = gs_admitted g @ (if rest = [] then [(oa_ip a, oa_time a)] else [])"
    using assms(3-5) by simp_all
  have out: "c \<notin> let_through p Q g"
    using assms(3,4) by (simp add: let_through_def)
  have "let_through p Q ?g = let_through p Q g \<union> (if ?in then {c} else {})"
    using assms(2-4) by (auto simp: let_through_def g simp del: guard_step.simps)
  then have lt: "card (let_through p Q ?g) = card (let_through p Q g) + (if ?in then 1 else 0)"
    using out by (simp del: guard_step.simps)
  have ad: "admitted_of Q ?g = admitted_of Q g + (if ?in then 1 else 0)"
    by (simp add: admitted_of_def g(3) del: guard_step.simps)
  have "admitted_of Q ?g - int (card (let_through p Q ?g)) + int (card (past p Q (key, th) ?g)) \<le> th + int p"
  proof (cases "(k0, th0) = (key, th)")
    case True
    then have "total_of (gs_table g) key \<le> th"
      using read_admits_total[OF assms(5,4)] by simp
    then show ?thesis
      using assms(1) card_bounds(1)[of p Q "(key, th)" ?g] unfolding bounded_def lt ad by (auto simp del: guard_step.simps split: if_splits)
  next
    case False
    have "past p Q (key, th) ?g = past p Q (key, th) g"
      using assms(3,4) False by (auto simp: past_def g simp del: guard_step.simps)
    then show ?thesis
      using assms(1) unfolding bounded_def lt ad by (auto simp del: guard_step.simps split: if_splits)
  qed
  then show ?thesis
    using assms(1) unfolding bounded_def lt ad g(1) by (auto simp del: guard_step.simps split: if_splits)
qed

lemma bounded_count:
  assumes "counts_ok p g" "p \<le> 500000000" "bounded p Q key th g" "c < p" "gs_open g c = Some a" "oa_left a = []"
    and "\<And>ip. Q ip \<Longrightarrow> (key, th) \<in> set (limits ip)"
  shows "bounded p Q key th (guard_step (CountFailure c) g)"
proof -
  let ?g = "guard_step (CountFailure c) g"
  have g: "gs_table ?g = update_table (oa_ip a) (entry_of (gs_table g) (oa_ip a), oa_time a) False (gs_table g)"
    "gs_open ?g = (gs_open g)(c := None)" "gs_admitted ?g = gs_admitted g"
    using assms(5,6) by simp_all
  have sets: "let_through p Q ?g = let_through p Q g - {c}" "past p Q (key, th) ?g = past p Q (key, th) g - {c}"
    by (auto simp: let_through_def past_def g(2) simp del: guard_step.simps)
  have ad: "admitted_of Q ?g = admitted_of Q g"
    by (simp add: admitted_of_def g(3) del: guard_step.simps)
  have tot: "total_of (gs_table ?g) key = total_of (gs_table g) key + int (count_list (map fst (limits (oa_ip a))) key)"
    unfolding g(1) by (rule count_failure_table(1)[OF assms(1,2)])
  show ?thesis
  proof (cases "Q (oa_ip a)")
    case True
    then have "c \<in> let_through p Q g" "c \<in> past p Q (key, th) g"
      using assms(4-6) by (simp_all add: let_through_def past_def)
    then have "card (let_through p Q ?g) = card (let_through p Q g) - 1" "0 < card (let_through p Q g)"
      "card (past p Q (key, th) ?g) = card (past p Q (key, th) g) - 1" "0 < card (past p Q (key, th) g)"
      unfolding sets by (auto simp: card_gt_0_iff)
    moreover have "count_list (map fst (limits (oa_ip a))) key \<noteq> 0"
      unfolding count_list_0_iff using image_eqI[OF _ assms(7)[OF True], of key fst] by simp
    ultimately show ?thesis
      using assms(3) unfolding bounded_def ad tot by linarith
  next
    case False
    then have "let_through p Q ?g = let_through p Q g" "past p Q (key, th) ?g = past p Q (key, th) g"
      unfolding sets using assms(5) by (auto simp: let_through_def past_def)
    then show ?thesis
      using assms(3) unfolding bounded_def ad tot by (simp del: guard_step.simps)
  qed
qed

lemma bounded_step:
  assumes "counts_ok p g" "p \<le> 500000000" "guard_conn op < p" "bounded p Q key th g"
    and "\<And>ip. Q ip \<Longrightarrow> (key, th) \<in> set (limits ip)"
  shows "bounded p Q key th (guard_step op g)"
proof (cases op)
  case (StartAttempt c ip time)
  show ?thesis
  proof (cases "gs_open g c")
    case None
    let ?g = "guard_step op g"
    have g: "gs_open ?g = (gs_open g)(c := Some \<lparr>oa_ip = ip, oa_time = time, oa_left = limits ip\<rparr>)" "gs_table ?g = gs_table g"
      "gs_admitted ?g = gs_admitted g"
      using StartAttempt None by simp_all
    have "limits ip \<noteq> []"
      by (simp add: limits_def)
    then have "let_through p Q ?g = let_through p Q g" "past p Q (key, th) ?g = past p Q (key, th) g"
      using None assms(5) by (auto simp: let_through_def past_def g(1))
    then show ?thesis
      using assms(4) by (simp add: bounded_def admitted_of_def g)
  qed (use StartAttempt assms(4) in simp)
next
  case (ReadLimit c)
  show ?thesis
  proof (cases "\<exists>a. gs_open g c = Some a \<and> oa_left a \<noteq> []")
    case False
    then have "guard_step op g = g"
      using ReadLimit by (auto split: option.split)
    then show ?thesis
      using assms(4) by simp
  next
    case True
    then obtain a k0 th0 rest where a: "gs_open g c = Some a" "oa_left a = (k0, th0) # rest"
      by (metis neq_Nil_conv surj_pair)
    show ?thesis
    proof (cases "read_admits (gs_table g) a")
      case True
      then show ?thesis
        using bounded_read[OF assms(4) _ a True assms(5)] assms(3) ReadLimit by simp
    next
      case False
      let ?g = "guard_step op g"
      have g: "gs_open ?g = (gs_open g)(c := None)" "gs_table ?g = gs_table g" "gs_admitted ?g = gs_admitted g"
        using ReadLimit a False by simp_all
      have "let_through p Q ?g = let_through p Q g" "past p Q (key, th) ?g \<subseteq> past p Q (key, th) g"
        using a by (auto simp: let_through_def past_def g(1) split: if_splits)
      then have "let_through p Q ?g = let_through p Q g" "card (past p Q (key, th) ?g) \<le> card (past p Q (key, th) g)"
        by (simp_all add: card_mono)
      then show ?thesis
        using assms(4) by (simp add: bounded_def admitted_of_def g(2,3))
    qed
  qed
next
  case (CountFailure c)
  show ?thesis
  proof (cases "\<exists>a. gs_open g c = Some a \<and> oa_left a = []")
    case False
    then have "guard_step op g = g"
      using CountFailure by (auto split: option.split)
    then show ?thesis
      using assms(4) by simp
  next
    case True
    then show ?thesis
      using bounded_count[OF assms(1,2,4)] assms(3,5) CountFailure by fastforce
  qed
qed

lemma admitted_bound:
  assumes "p \<le> 500000000" "list_all (\<lambda>op. guard_conn op < p) ops" "0 \<le> th"
    and "\<And>ip. Q ip \<Longrightarrow> (key, th) \<in> set (limits ip)"
  shows "int (length (filter (\<lambda>(ip, _). Q ip) (gs_admitted (fold guard_step ops guard_init)))) \<le> th + int p"
proof -
  have "counts_ok p guard_init" "bounded p Q key th guard_init"
    using assms(3) by (simp_all add: counts_ok_def left_ok_def guard_init_def total_of_def in_minute_def entry_of_def past_key_def
        bounded_def admitted_of_def let_through_def past_def)
  then have "counts_ok p (fold guard_step ops guard_init) \<and> bounded p Q key th (fold guard_step ops guard_init)"
    using assms(2)
  proof (induction ops rule: rev_induct)
    case (snoc op ops)
    then show ?case
      using counts_ok_step[OF _ assms(1), of _ op] bounded_step[OF _ assms(1), of _ op Q key th] assms(4) by simp
  qed simp
  then have b: "bounded p Q key th (fold guard_step ops guard_init)" (is "bounded _ _ _ _ ?g")
    by simp
  have "let_through p Q ?g \<subseteq> past p Q (key, th) ?g"
    by (auto simp: let_through_def past_def)
  then have "card (let_through p Q ?g) \<le> card (past p Q (key, th) ?g)"
    by (simp add: card_mono)
  then show ?thesis
    using b by (simp add: bounded_def admitted_of_def)
qed

text \<open>(C6) Guessing is bounded, also when attempts overlap: when \<open>p\<close> connections make failing attempts side by side, each look at
  a table and each update being a step of its own, then however they are timed and interleaved at most \<open>30 + p\<close> attempts of one
  address are let through, and at most \<open>60 + p\<close>, \<open>80 + p\<close> and \<open>100 + p\<close> of the addresses of one IPv6 /64, /56 and /48 network; with
  one connection at a time, 31, 61, 81 and 101. Half a billion connections keep the counts within 32 bits. A login that succeeds
  clears the counts of its address and is not part of this.\<close>

theorem guesses_bounded:
  assumes "list_all (\<lambda>op. guard_conn op < p) ops" and "p \<le> 500000000"
  shows "let adm = gs_admitted (fold guard_step ops guard_init) in
    length (filter (\<lambda>(a, _). a = ip) adm) \<le> 30 + p \<and>
    length (filter (\<lambda>(a, _). \<exists>q r. get_ipv6_prefixes a = Some (net, q, r)) adm) \<le> 60 + p \<and>
    length (filter (\<lambda>(a, _). \<exists>q r. get_ipv6_prefixes a = Some (q, net, r)) adm) \<le> 80 + p \<and>
    length (filter (\<lambda>(a, _). \<exists>q r. get_ipv6_prefixes a = Some (q, r, net)) adm) \<le> 100 + p"
  unfolding Let_def
proof (intro conjI)
  note b = admitted_bound [OF assms(2,1)]
  show "length (filter (\<lambda>(a, _). a = ip) (gs_admitted (fold guard_step ops guard_init))) \<le> 30 + p"
    using b [of 30 "\<lambda>a. a = ip" ip] limits_thresh(3) by simp
  show "length (filter (\<lambda>(a, _). \<exists>q r. get_ipv6_prefixes a = Some (net, q, r)) (gs_admitted (fold guard_step ops guard_init))) \<le> 60 + p"
    using b [of 60 "\<lambda>a. \<exists>q r. get_ipv6_prefixes a = Some (net, q, r)" net] by (force simp: limits_def)
  show "length (filter (\<lambda>(a, _). \<exists>q r. get_ipv6_prefixes a = Some (q, net, r)) (gs_admitted (fold guard_step ops guard_init))) \<le> 80 + p"
    using b [of 80 "\<lambda>a. \<exists>q r. get_ipv6_prefixes a = Some (q, net, r)" net] by (force simp: limits_def)
  show "length (filter (\<lambda>(a, _). \<exists>q r. get_ipv6_prefixes a = Some (q, r, net)) (gs_admitted (fold guard_step ops guard_init))) \<le> 100 + p"
    using b [of 100 "\<lambda>a. \<exists>q r. get_ipv6_prefixes a = Some (q, r, net)" net] by (force simp: limits_def)
qed

text \<open>Two connections from one address that both look before either is counted.\<close>

definition two_attempts :: "guard_op list" where
  "two_attempts = [StartAttempt 0 ''10.0.0.9'' 28000000, StartAttempt 1 ''10.0.0.9'' 28000000, ReadLimit 0, ReadLimit 1, CountFailure 1, CountFailure 0]"

theorem guesses_bounded_witness:
  "length (filter (\<lambda>(a, _). a = ''10.0.0.9'') (gs_admitted (fold guard_step two_attempts guard_init))) \<le> 32"
proof -
  have "list_all (\<lambda>op. guard_conn op < 2) two_attempts"
    by (simp add: two_attempts_def)
  from guesses_bounded [OF this, of "''10.0.0.9''"] show ?thesis
    by (simp add: Let_def)
qed

end
