(* ===== verification/Passwords.thy ===== *)
theory Passwords
  imports Prelude
begin

text \<open>
  Stored secrets and password checks: \<^verbatim>\<open>libs/hbb_common/src/password_security.rs\<close> (encryption of stored
  values), \<^verbatim>\<open>libs/hbb_common/src/config/permanent_password.rs\<close> (the hashed permanent password), the
  functions of \<^verbatim>\<open>libs/hbb_common/src/config.rs\<close> that keep it, and the checks of
  \<^verbatim>\<open>src/server/connection.rs\<close> (\<open>validate_password\<close> and what it calls). Text is its UTF-8 bytes. The
  primitives of libsodium and SHA-256, and \<open>String::from_utf8_lossy\<close>, are parameters; random values
  (nonces, generated salts) are arguments.
\<close>

section \<open>Primitives\<close>

record crypto =
  seal :: "bytes \<Rightarrow> bytes \<Rightarrow> bytes \<Rightarrow> bytes"
  open_box :: "bytes \<Rightarrow> bytes \<Rightarrow> bytes \<Rightarrow> bytes option"
  b64_encode :: "bytes \<Rightarrow> bytes"
  b64_decode :: "bytes \<Rightarrow> bytes option"
  sha256 :: "bytes \<Rightarrow> bytes"
  utf8_lossy :: "bytes \<Rightarrow> bytes"

text \<open>What the machine holds: the value keys are made from, the public key kept for old values, and
  whether the build is for a mobile system (which has no such fallback).\<close>

record machine =
  uuid :: bytes
  existing_pk :: "bytes option"
  mobile :: bool

abbreviation MACBYTES :: nat where "MACBYTES \<equiv> 16"
abbreviation NONCEBYTES :: nat where "NONCEBYTES \<equiv> 24"
abbreviation KEYBYTES :: nat where "KEYBYTES \<equiv> 32"
abbreviation VERSION_LEN :: nat where "VERSION_LEN \<equiv> 2"
abbreviation ENCRYPT_MAX_LEN :: nat where "ENCRYPT_MAX_LEN \<equiv> 128"
abbreviation H1_LEN :: nat where "H1_LEN \<equiv> 32"

definition FORMAT_V1 :: u8 where "FORMAT_V1 = 1"
definition V00 :: bytes where "V00 = [0x30, 0x30]"
definition V01 :: bytes where "V01 = [0x30, 0x31]"

definition starts_with_bytes :: "bytes \<Rightarrow> bytes \<Rightarrow> bool" where
  "starts_with_bytes s p \<longleftrightarrow> take (length p) s = p"

text \<open>\<open>s.chars().count()\<close>: the bytes that are not UTF-8 continuation bytes.\<close>

unbundle bit_operations_syntax

definition chars_count :: "bytes \<Rightarrow> nat" where
  "chars_count s = length (filter (\<lambda>b. b AND 0xC0 \<noteq> 0x80) s)"

lemma chars_count_le: "chars_count s \<le> length s"
  by (simp add: chars_count_def)

definition box_key :: "bytes \<Rightarrow> bytes" where
  "box_key k = take KEYBYTES (k @ replicate KEYBYTES 0)"

section \<open>Encrypted values\<close>

definition open_secretbox_payload :: "crypto \<Rightarrow> bytes \<Rightarrow> bytes \<Rightarrow> bytes option" where
  "open_secretbox_payload cr data key =
     (case (if data \<noteq> [] \<and> hd data = FORMAT_V1 \<and> length data \<ge> 1 + NONCEBYTES + MACBYTES
            then open_box cr (drop (1 + NONCEBYTES) data) (take NONCEBYTES (drop 1 data)) key else None) of
        Some decrypted \<Rightarrow> Some decrypted
      | None \<Rightarrow> open_box cr data (replicate NONCEBYTES 0) key)"

definition symmetric_encrypt :: "crypto \<Rightarrow> machine \<Rightarrow> bytes \<Rightarrow> bytes \<Rightarrow> bytes" where
  "symmetric_encrypt cr m nonce data = FORMAT_V1 # nonce @ seal cr data nonce (box_key (uuid m))"

definition symmetric_decrypt :: "crypto \<Rightarrow> machine \<Rightarrow> bytes \<Rightarrow> bytes option" where
  "symmetric_decrypt cr m data =
     (case open_secretbox_payload cr data (box_key (uuid m)) of
        Some v \<Rightarrow> Some v
      | None \<Rightarrow>
          if mobile m then None
          else (case existing_pk m of
              Some pk \<Rightarrow> if pk \<noteq> uuid m then open_secretbox_payload cr data (box_key pk) else None
            | None \<Rightarrow> None))"

definition is_encrypted :: "crypto \<Rightarrow> bytes \<Rightarrow> bool" where
  "is_encrypted cr v =
     (if length v \<le> VERSION_LEN \<or> \<not> starts_with_bytes v V00 then False
      else case b64_decode cr (drop VERSION_LEN v) of
          Some decoded \<Rightarrow> length decoded \<ge> MACBYTES
        | None \<Rightarrow> False)"

definition encrypt_value :: "crypto \<Rightarrow> machine \<Rightarrow> bytes \<Rightarrow> bytes \<Rightarrow> bytes option" where
  "encrypt_value cr m nonce v =
     (if v \<noteq> [] then Some (b64_encode cr (symmetric_encrypt cr m nonce v)) else None)"

definition decrypt_value :: "crypto \<Rightarrow> machine \<Rightarrow> bytes \<Rightarrow> bytes option" where
  "decrypt_value cr m v =
     (if v \<noteq> [] then Option.bind (b64_decode cr v) (symmetric_decrypt cr m) else None)"

definition encrypt_str_or_original :: "crypto \<Rightarrow> machine \<Rightarrow> bytes \<Rightarrow> bytes \<Rightarrow> bytes \<Rightarrow> nat \<Rightarrow> bytes" where
  "encrypt_str_or_original cr m nonce s version max_len =
     (if is_encrypted cr s then s
      else if chars_count s > max_len then []
      else if version = V00 then
        (case encrypt_value cr m nonce s of Some e \<Rightarrow> version @ e | None \<Rightarrow> s)
      else s)"

definition decrypt_str_or_original :: "crypto \<Rightarrow> machine \<Rightarrow> bytes \<Rightarrow> bytes \<Rightarrow> bytes \<times> bool \<times> bool" where
  "decrypt_str_or_original cr m s current_version =
     (case (if length s > VERSION_LEN \<and> starts_with_bytes s V00 then decrypt_value cr m (drop VERSION_LEN s) else None) of
        Some v \<Rightarrow> (utf8_lossy cr v, True, V00 \<noteq> current_version)
      | None \<Rightarrow> (s, False, s \<noteq> [] \<and> \<not> is_encrypted cr s))"

definition encrypt_vec_or_original :: "crypto \<Rightarrow> machine \<Rightarrow> bytes \<Rightarrow> bytes \<Rightarrow> bytes \<Rightarrow> nat \<Rightarrow> bytes" where
  "encrypt_vec_or_original cr m nonce v version max_len =
     (if is_encrypted cr v then v
      else if length v > max_len then []
      else if version = V00 then
        (case encrypt_value cr m nonce v of Some e \<Rightarrow> version @ e | None \<Rightarrow> v)
      else v)"

definition decrypt_vec_or_original :: "crypto \<Rightarrow> machine \<Rightarrow> bytes \<Rightarrow> bytes \<Rightarrow> bytes \<times> bool \<times> bool" where
  "decrypt_vec_or_original cr m v current_version =
     (case (if length v > VERSION_LEN \<and> take VERSION_LEN v = V00 then decrypt_value cr m (drop VERSION_LEN v) else None) of
        Some d \<Rightarrow> (d, True, V00 \<noteq> current_version)
      | None \<Rightarrow> (v, False, v \<noteq> [] \<and> \<not> is_encrypted cr v))"

section \<open>The permanent password\<close>

definition compute_permanent_password_h1 :: "crypto \<Rightarrow> bytes \<Rightarrow> bytes \<Rightarrow> bytes" where
  "compute_permanent_password_h1 cr password salt = take H1_LEN (sha256 cr (password @ salt))"

definition encode_permanent_password_storage_from_h1 :: "crypto \<Rightarrow> bytes \<Rightarrow> bytes" where
  "encode_permanent_password_storage_from_h1 cr h1 = V00 @ b64_encode cr h1"

definition encrypt_permanent_password_storage :: "crypto \<Rightarrow> machine \<Rightarrow> bytes \<Rightarrow> bytes \<Rightarrow> bytes option" where
  "encrypt_permanent_password_storage cr m nonce storage =
     (if chars_count storage > ENCRYPT_MAX_LEN then None
      else Some (V01 @ b64_encode cr (symmetric_encrypt cr m nonce storage)))"

definition encode_permanent_password_encrypted_storage_from_h1 :: "crypto \<Rightarrow> machine \<Rightarrow> bytes \<Rightarrow> bytes \<Rightarrow> bytes option" where
  "encode_permanent_password_encrypted_storage_from_h1 cr m nonce h1 =
     encrypt_permanent_password_storage cr m nonce (encode_permanent_password_storage_from_h1 cr h1)"

definition decode_password_h1_after_prefix :: "crypto \<Rightarrow> bytes \<Rightarrow> bytes \<Rightarrow> bytes option" where
  "decode_password_h1_after_prefix cr storage prefix =
     (if starts_with_bytes storage prefix then
        (case b64_decode cr (drop (length prefix) storage) of
           Some v \<Rightarrow> if length v \<noteq> H1_LEN then None else Some v
         | None \<Rightarrow> None)
      else None)"

definition decode_permanent_password_h1_from_hashed_storage :: "crypto \<Rightarrow> bytes \<Rightarrow> bytes option" where
  "decode_permanent_password_h1_from_hashed_storage cr storage = decode_password_h1_after_prefix cr storage V00"

definition decrypt_permanent_password_str_or_original :: "crypto \<Rightarrow> machine \<Rightarrow> bytes \<Rightarrow> bytes \<times> bool \<times> bool" where
  "decrypt_permanent_password_str_or_original cr m storage =
     (case (if length storage > VERSION_LEN \<and> starts_with_bytes storage V01
            then Option.bind (b64_decode cr (drop VERSION_LEN storage)) (symmetric_decrypt cr m) else None) of
        Some v \<Rightarrow> (utf8_lossy cr v, True, False)
      | None \<Rightarrow> (storage, False, storage \<noteq> []))"

definition decode_permanent_password_h1_from_storage :: "crypto \<Rightarrow> machine \<Rightarrow> bytes \<Rightarrow> bytes option" where
  "decode_permanent_password_h1_from_storage cr m storage =
     (if starts_with_bytes storage V01 then
        (let (hashed_storage, decrypted, _) = decrypt_permanent_password_str_or_original cr m storage in
         if \<not> decrypted then None else decode_permanent_password_h1_from_hashed_storage cr hashed_storage)
      else None)"

definition decode_preset_password_h1_from_storage :: "crypto \<Rightarrow> bytes \<Rightarrow> bytes option" where
  "decode_preset_password_h1_from_storage cr storage = decode_password_h1_after_prefix cr storage V00"

definition local_storage_is_usable_for_auth :: "crypto \<Rightarrow> machine \<Rightarrow> bytes \<Rightarrow> bytes \<Rightarrow> bool" where
  "local_storage_is_usable_for_auth cr m storage salt =
     (if storage = [] then False
      else if decode_permanent_password_h1_from_storage cr m storage \<noteq> None then salt \<noteq> []
      else if starts_with_bytes storage V01 \<and> fst (snd (decrypt_permanent_password_str_or_original cr m storage)) then False
      else
        (let (_, decrypted, looks_like_plaintext) = decrypt_str_or_original cr m storage V00 in
         \<not> (starts_with_bytes storage V00 \<and> \<not> decrypted \<and> \<not> looks_like_plaintext)))"

definition preset_storage_is_usable_for_auth :: "crypto \<Rightarrow> bytes \<Rightarrow> bytes \<Rightarrow> bool" where
  "preset_storage_is_usable_for_auth cr storage salt =
     (if storage = [] then False
      else if salt = [] then True
      else decode_preset_password_h1_from_storage cr storage \<noteq> None)"

definition preset_storage_matches_plain :: "crypto \<Rightarrow> bytes \<Rightarrow> bytes \<Rightarrow> bytes \<Rightarrow> bool" where
  "preset_storage_matches_plain cr storage salt input =
     (if storage = [] \<or> input = [] then False
      else if salt = [] then storage = input
      else case decode_preset_password_h1_from_storage cr storage of
          None \<Rightarrow> False
        | Some stored_h1 \<Rightarrow> compute_permanent_password_h1 cr input salt = stored_h1)"

definition password_is_empty_or_not_hashed :: "crypto \<Rightarrow> machine \<Rightarrow> bytes \<Rightarrow> bool" where
  "password_is_empty_or_not_hashed cr m storage =
     (if storage = [] then True
      else if decode_permanent_password_h1_from_storage cr m storage \<noteq> None then False
      else if starts_with_bytes storage V01 then False
      else (let (_, decrypted, looks_like_plaintext) = decrypt_str_or_original cr m storage V00
            in decrypted \<or> looks_like_plaintext))"

section \<open>The configuration that keeps it\<close>

record config =
  cf_password :: bytes
  cf_salt :: bytes

record hard_settings =
  hs_password :: bytes
  hs_salt :: bytes
  hs_disable_change :: bool

datatype password_error = InvalidEncryptedHashStorage | HashStorageRequiresSalt | RefusingWithoutSalt | InvalidSyncPayload

definition ensure_permanent_password_hash_salt :: "config \<Rightarrow> password_error + unit" where
  "ensure_permanent_password_hash_salt c = (if cf_salt c = [] then Inl HashStorageRequiresSalt else Inr ())"

definition validate_or_decrypt_permanent_password_storage :: "crypto \<Rightarrow> machine \<Rightarrow> config \<Rightarrow> (password_error + unit) \<times> config" where
  "validate_or_decrypt_permanent_password_storage cr m c =
     (if cf_password c = [] then (Inr (), c)
      else if starts_with_bytes (cf_password c) V00 then
        (let (plain, decrypted, should_store) = decrypt_str_or_original cr m (cf_password c) V00 in
         if decrypted then (Inr (), c\<lparr>cf_password := plain\<rparr>)
         else if \<not> should_store then (Inl InvalidEncryptedHashStorage, c)
         else (Inr (), c))
      else
        (let (decrypted_storage, decrypted, _) = decrypt_permanent_password_str_or_original cr m (cf_password c) in
         if decrypted then
           (case ensure_permanent_password_hash_salt c of
              Inl e \<Rightarrow> (Inl e, c)
            | Inr _ \<Rightarrow>
                if decode_permanent_password_h1_from_hashed_storage cr decrypted_storage \<noteq> None then (Inr (), c)
                else (Inl InvalidEncryptedHashStorage, c))
         else (Inr (), c)))"

definition ensure_permanent_password_salt :: "bytes \<Rightarrow> config \<Rightarrow> config" where
  "ensure_permanent_password_salt auto c = (if cf_salt c = [] then c\<lparr>cf_salt := auto\<rparr> else c)"

definition prepare_config_for_store :: "crypto \<Rightarrow> machine \<Rightarrow> config \<Rightarrow> config" where
  "prepare_config_for_store cr m c =
     (case validate_or_decrypt_permanent_password_storage cr m c of
        (Inr _, c) \<Rightarrow> c
      | (Inl _, c) \<Rightarrow> c\<lparr>cf_password := [], cf_salt := []\<rparr>)"

definition keep_encrypted_storage_if_plaintext_unchanged :: "crypto \<Rightarrow> machine \<Rightarrow> bytes \<Rightarrow> bytes \<Rightarrow> bytes \<Rightarrow> bytes" where
  "keep_encrypted_storage_if_plaintext_unchanged cr m nonce plain stored =
     (let (stored_plain, encrypted, _) = decrypt_str_or_original cr m stored V00 in
      if encrypted \<and> stored_plain = plain then stored
      else encrypt_str_or_original cr m nonce plain V00 ENCRYPT_MAX_LEN)"

text \<open>What \<open>store\<close> writes of the password and the salt, given what the file holds.\<close>

definition config_store :: "crypto \<Rightarrow> machine \<Rightarrow> bytes \<Rightarrow> bytes \<Rightarrow> config \<Rightarrow> config" where
  "config_store cr m nonce stored_password c =
     (let c = prepare_config_for_store cr m c in
      if cf_password c \<noteq> [] \<and> decode_permanent_password_h1_from_storage cr m (cf_password c) = None
      then c\<lparr>cf_password := keep_encrypted_storage_if_plaintext_unchanged cr m nonce (cf_password c) stored_password\<rparr>
      else c)"

text \<open>\<open>load\<close>, as far as the password goes: an invalid storage is reported and kept.\<close>

definition config_load :: "crypto \<Rightarrow> machine \<Rightarrow> config \<Rightarrow> config" where
  "config_load cr m file = snd (validate_or_decrypt_permanent_password_storage cr m file)"

definition compute_permanent_password_storage_for_update ::
    "crypto \<Rightarrow> machine \<Rightarrow> bytes \<Rightarrow> bytes \<Rightarrow> config \<Rightarrow> bytes \<Rightarrow> bytes option \<times> config" where
  "compute_permanent_password_storage_for_update cr m nonce auto c password =
     (let c = ensure_permanent_password_salt auto c;
          h1 = compute_permanent_password_h1 cr password (cf_salt c)
      in (encode_permanent_password_encrypted_storage_from_h1 cr m nonce h1, c))"

text \<open>The flag tells whether the configuration was stored (and the trusted devices were cleared).\<close>

definition set_permanent_password ::
    "crypto \<Rightarrow> machine \<Rightarrow> hard_settings \<Rightarrow> bytes \<Rightarrow> bytes \<Rightarrow> bytes \<Rightarrow> config \<Rightarrow> bool \<times> bool \<times> config" where
  "set_permanent_password cr m hs nonce auto password c =
     (if hs_disable_change hs then (False, False, c)
      else if preset_storage_matches_plain cr (hs_password hs) (hs_salt hs) password \<and> cf_password c = [] then (True, False, c)
      else
        (let (stored, c) =
           (if password = [] then (Some [], c)
            else compute_permanent_password_storage_for_update cr m nonce auto c password)
         in case stored of
              None \<Rightarrow> (False, False, c)
            | Some stored \<Rightarrow>
                if stored = cf_password c then (True, False, c)
                else (True, True, c\<lparr>cf_password := stored\<rparr>)))"

definition apply_permanent_password_storage_for_sync ::
    "crypto \<Rightarrow> machine \<Rightarrow> bytes \<Rightarrow> bytes \<Rightarrow> config \<Rightarrow> (password_error + bool) \<times> config" where
  "apply_permanent_password_storage_for_sync cr m storage salt c =
     (if storage = [] then
        (if cf_password c = [] \<and> (salt = [] \<or> cf_salt c = salt) then (Inr False, c)
         else (Inr True, (if salt \<noteq> [] then c\<lparr>cf_password := [], cf_salt := salt\<rparr> else c\<lparr>cf_password := []\<rparr>)))
      else if salt = [] then (Inl RefusingWithoutSalt, c)
      else if decode_permanent_password_h1_from_storage cr m storage = None then (Inl InvalidSyncPayload, c)
      else if cf_password c = storage \<and> cf_salt c = salt then (Inr False, c)
      else (Inr True, c\<lparr>cf_password := storage, cf_salt := salt\<rparr>))"

definition has_permanent_password :: "crypto \<Rightarrow> machine \<Rightarrow> hard_settings \<Rightarrow> config \<Rightarrow> bool" where
  "has_permanent_password cr m hs c =
     (if cf_password c \<noteq> [] then local_storage_is_usable_for_auth cr m (cf_password c) (cf_salt c)
      else preset_storage_is_usable_for_auth cr (hs_password hs) (hs_salt hs))"

definition set_salt :: "crypto \<Rightarrow> machine \<Rightarrow> bytes \<Rightarrow> config \<Rightarrow> config" where
  "set_salt cr m salt c =
     (if salt = cf_salt c then c
      else if \<not> password_is_empty_or_not_hashed cr m (cf_password c) \<and> cf_salt c \<noteq> [] then c
      else c\<lparr>cf_salt := salt\<rparr>)"

definition get_salt :: "crypto \<Rightarrow> machine \<Rightarrow> bytes \<Rightarrow> config \<Rightarrow> bytes \<times> config" where
  "get_salt cr m auto c = (if cf_salt c = [] then (auto, set_salt cr m auto c) else (cf_salt c, c))"

definition get_effective_permanent_password_salt ::
    "crypto \<Rightarrow> machine \<Rightarrow> hard_settings \<Rightarrow> bytes \<Rightarrow> config \<Rightarrow> bytes \<times> config" where
  "get_effective_permanent_password_salt cr m hs auto c =
     (if cf_password c \<noteq> [] then
        (if local_storage_is_usable_for_auth cr m (cf_password c) (cf_salt c) then get_salt cr m auto c else ([], c))
      else if hs_salt hs \<noteq> [] then
        (if preset_storage_is_usable_for_auth cr (hs_password hs) (hs_salt hs) then (hs_salt hs, c) else ([], c))
      else get_salt cr m auto c)"

section \<open>Policy\<close>

datatype verification_method = OnlyUseTemporaryPassword | OnlyUsePermanentPassword | UseBothPasswords

datatype approve_mode = ApproveBoth | ApprovePassword | ApproveClick

definition verification_method :: "string \<Rightarrow> verification_method" where
  "verification_method option =
     (if option = ''use-temporary-password'' then OnlyUseTemporaryPassword
      else if option = ''use-permanent-password'' then OnlyUsePermanentPassword
      else UseBothPasswords)"

definition temporary_password_length :: "string \<Rightarrow> nat" where
  "temporary_password_length option = (if option = ''8'' then 8 else if option = ''10'' then 10 else 6)"

definition temporary_enabled :: "string \<Rightarrow> bool" where
  "temporary_enabled option \<longleftrightarrow> verification_method option \<noteq> OnlyUsePermanentPassword"

definition permanent_enabled :: "string \<Rightarrow> bool" where
  "permanent_enabled option \<longleftrightarrow> verification_method option \<noteq> OnlyUseTemporaryPassword"

definition approve_mode_of :: "string \<Rightarrow> approve_mode" where
  "approve_mode_of option =
     (if option = ''password'' then ApprovePassword else if option = ''click'' then ApproveClick else ApproveBoth)"

text \<open>The temporary password, and the state of its brute-force protection.\<close>

record temp_state =
  tp_password :: bytes
  tp_seen :: bytes
  tp_failures :: int

definition has_valid_password :: "crypto \<Rightarrow> machine \<Rightarrow> hard_settings \<Rightarrow> config \<Rightarrow> string \<Rightarrow> temp_state \<Rightarrow> bool" where
  "has_valid_password cr m hs c option tp \<longleftrightarrow>
     temporary_enabled option \<and> tp_password tp \<noteq> [] \<or> permanent_enabled option \<and> has_permanent_password cr m hs c"

text \<open>\<open>fresh\<close> is what \<open>update_temporary_password\<close> generates, should it be called.\<close>

definition check_update_temporary_password :: "string \<Rightarrow> bool \<Rightarrow> bytes \<Rightarrow> temp_state \<Rightarrow> temp_state" where
  "check_update_temporary_password option success fresh tp =
     (if \<not> temporary_enabled option then tp
      else if tp_password tp = [] then tp
      else
        (let tp = (if tp_seen tp \<noteq> tp_password tp then tp\<lparr>tp_seen := tp_password tp, tp_failures := 0\<rparr> else tp) in
         if success then tp\<lparr>tp_failures := 0\<rparr>
         else
           (let tp = tp\<lparr>tp_failures := wrap_i32 (tp_failures tp + 1)\<rparr> in
            if tp_failures tp < 10 then tp
            else tp\<lparr>tp_password := fresh, tp_seen := fresh, tp_failures := 0\<rparr>)))"

section \<open>Checking a login\<close>

text \<open>What the host sent to the peer before it logs in.\<close>

record login_hash =
  lh_salt :: bytes
  lh_challenge :: bytes

definition constant_time_eq :: "bytes \<Rightarrow> bytes \<Rightarrow> bool" where
  "constant_time_eq a b =
     (if length a \<noteq> length b then False
      else fold (\<lambda>i x. x OR (a ! i XOR b ! i)) [0..<length a] 0 = 0)"

definition verify_h1 :: "crypto \<Rightarrow> login_hash \<Rightarrow> bytes \<Rightarrow> bytes \<Rightarrow> bool" where
  "verify_h1 cr lh response h1 = constant_time_eq (sha256 cr (h1 @ lh_challenge lh)) response"

definition validate_password_plain :: "crypto \<Rightarrow> login_hash \<Rightarrow> bytes \<Rightarrow> bytes \<Rightarrow> bool" where
  "validate_password_plain cr lh response password =
     (if password = [] then False else verify_h1 cr lh response (sha256 cr (password @ lh_salt lh)))"

definition validate_password_storage :: "crypto \<Rightarrow> machine \<Rightarrow> login_hash \<Rightarrow> bytes \<Rightarrow> bytes \<Rightarrow> bool" where
  "validate_password_storage cr m lh response storage =
     (if storage = [] then False
      else case decode_permanent_password_h1_from_storage cr m storage of
          Some h1 \<Rightarrow> verify_h1 cr lh response h1
        | None \<Rightarrow> validate_password_plain cr lh response storage)"

definition validate_preset_password_storage :: "crypto \<Rightarrow> login_hash \<Rightarrow> bytes \<Rightarrow> bytes \<Rightarrow> bytes \<Rightarrow> bool" where
  "validate_preset_password_storage cr lh response storage salt =
     (if salt = [] then validate_password_plain cr lh response storage
      else case decode_preset_password_h1_from_storage cr storage of
          None \<Rightarrow> False
        | Some h1 \<Rightarrow> verify_h1 cr lh response h1)"

datatype primary_auth = TemporaryPassword | PermanentPassword

definition validate_permanent :: "crypto \<Rightarrow> machine \<Rightarrow> hard_settings \<Rightarrow> config \<Rightarrow> login_hash \<Rightarrow> bytes \<Rightarrow> bool" where
  "validate_permanent cr m hs c lh response =
     (if cf_password c \<noteq> [] then
        local_storage_is_usable_for_auth cr m (cf_password c) (cf_salt c) \<and>
        validate_password_storage cr m lh response (cf_password c)
      else
        preset_storage_is_usable_for_auth cr (hs_password hs) (hs_salt hs) \<and>
        validate_preset_password_storage cr lh response (hs_password hs) (hs_salt hs))"

text \<open>\<open>validate_password\<close>: which password was accepted, if any, and the state of the temporary one.\<close>

definition validate_password ::
    "crypto \<Rightarrow> machine \<Rightarrow> hard_settings \<Rightarrow> config \<Rightarrow> string \<Rightarrow> login_hash \<Rightarrow> bytes \<Rightarrow> bool \<Rightarrow> temp_state \<Rightarrow>
     primary_auth option \<times> temp_state" where
  "validate_password cr m hs c option lh response allow_permanent_password tp =
     (if temporary_enabled option \<and> validate_password_plain cr lh response (tp_password tp) then
        (Some TemporaryPassword, check_update_temporary_password option True [] tp)
      else if (permanent_enabled option \<or> allow_permanent_password) \<and> validate_permanent cr m hs c lh response then
        (Some PermanentPassword, tp)
      else (None, tp))"

section \<open>Properties\<close>

lemma fold_or_zero:
  "fold (\<lambda>i x. x OR f i) is (acc :: u8) = 0 \<longleftrightarrow> acc = 0 \<and> (\<forall>i \<in> set is. f i = 0)"
proof (induction "is" arbitrary: acc)
  case (Cons i "is")
  have "acc OR f i = 0 \<longleftrightarrow> acc = 0 \<and> f i = 0" by (auto simp: bit_eq_iff bit_or_iff)
  then show ?case using Cons by auto
qed simp

lemma constant_time_eq_iff: "constant_time_eq a b \<longleftrightarrow> a = b"
proof -
  have x: "p XOR q = 0 \<longleftrightarrow> p = q" for p q :: u8 by (auto simp: bit_eq_iff bit_xor_iff)
  show ?thesis
  proof (cases "length a = length b")
    case True
    then have "constant_time_eq a b \<longleftrightarrow> (\<forall>i \<in> set [0..<length a]. a ! i XOR b ! i = 0)"
      by (simp only: constant_time_eq_def fold_or_zero) simp
    also have "\<dots> \<longleftrightarrow> a = b" unfolding x list_eq_iff_nth_eq using True by auto
    finally show ?thesis .
  next
    case False
    then show ?thesis by (auto simp: constant_time_eq_def)
  qed
qed

text \<open>What is relied on of the primitives: a sealed box opens with its nonce and key and is sixteen
  bytes longer than its content, base64 reads back and stays within a small multiple of its input, a digest
  has 32 bytes, and text that is valid is not changed by the lossy decoding.\<close>

definition crypto_ok :: "crypto \<Rightarrow> bool" where
  "crypto_ok cr \<longleftrightarrow>
     (\<forall>d n k. length n = NONCEBYTES \<longrightarrow> length k = KEYBYTES \<longrightarrow> open_box cr (seal cr d n k) n k = Some d) \<and>
     (\<forall>d n k. length (seal cr d n k) = length d + MACBYTES) \<and>
     (\<forall>d. b64_decode cr (b64_encode cr d) = Some d) \<and>
     (\<forall>d. length (b64_encode cr d) \<le> 2 * length d + 4 \<and> (d \<noteq> [] \<longrightarrow> b64_encode cr d \<noteq> [])) \<and>
     (\<forall>d. length (sha256 cr d) = H1_LEN) \<and>
     (\<forall>d. utf8_lossy cr (V00 @ b64_encode cr d) = V00 @ b64_encode cr d)"

lemma length_box_key [simp]: "length (box_key k) = KEYBYTES"
  by (simp add: box_key_def)

lemma symmetric_roundtrip:
  assumes "crypto_ok cr" "length nonce = NONCEBYTES"
  shows "symmetric_decrypt cr m (symmetric_encrypt cr m nonce d) = Some d"
  using assms by (simp add: crypto_ok_def symmetric_encrypt_def symmetric_decrypt_def open_secretbox_payload_def)

text \<open>A secret survives being stored: a non-empty value within the length limit that does not
  itself look like an encrypted one is written encrypted, and reading it back gives the value, reports
  success and asks for no new store; a value that looks encrypted is left as it is.\<close>

theorem stored_secret_roundtrip:
  assumes "crypto_ok cr" and "length nonce = NONCEBYTES" and "s \<noteq> []" and "length s \<le> max_len" and "utf8_lossy cr s = s"
    and "\<not> is_encrypted cr s"
  shows "(let e = encrypt_str_or_original cr m nonce s V00 max_len; v = encrypt_vec_or_original cr m nonce s V00 max_len in
    is_encrypted cr e \<and> decrypt_str_or_original cr m e V00 = (s, True, False) \<and>
    decrypt_vec_or_original cr m v V00 = (s, True, False) \<and>
    encrypt_str_or_original cr m nonce e V00 max_len = e \<and> encrypt_vec_or_original cr m nonce v V00 max_len = v)"
proof -
  let ?e = "V00 @ b64_encode cr (symmetric_encrypt cr m nonce s)"
  have c: "chars_count s \<le> max_len" using assms(4) chars_count_le [of s] by simp
  have e: "encrypt_str_or_original cr m nonce s V00 max_len = ?e" "encrypt_vec_or_original cr m nonce s V00 max_len = ?e"
    using assms c by (simp_all add: encrypt_str_or_original_def encrypt_vec_or_original_def encrypt_value_def)
  have b: "b64_encode cr (symmetric_encrypt cr m nonce s) \<noteq> []" "length (symmetric_encrypt cr m nonce s) \<ge> MACBYTES"
    using assms(1) by (simp_all add: crypto_ok_def symmetric_encrypt_def)
  have d: "b64_decode cr (b64_encode cr (symmetric_encrypt cr m nonce s)) = Some (symmetric_encrypt cr m nonce s)"
    using assms(1) by (simp add: crypto_ok_def)
  have enc: "is_encrypted cr ?e"
    using b d by (simp add: is_encrypted_def V00_def starts_with_bytes_def)
  moreover have "decrypt_value cr m (b64_encode cr (symmetric_encrypt cr m nonce s)) = Some s"
    using b d symmetric_roundtrip [OF assms(1,2)] by (simp add: decrypt_value_def)
  then have "decrypt_str_or_original cr m ?e V00 = (s, True, False)" "decrypt_vec_or_original cr m ?e V00 = (s, True, False)"
    using b(1) assms(5) by (simp_all add: decrypt_str_or_original_def decrypt_vec_or_original_def V00_def starts_with_bytes_def)
  moreover have "encrypt_str_or_original cr m nonce ?e V00 max_len = ?e" "encrypt_vec_or_original cr m nonce ?e V00 max_len = ?e"
    using enc by (simp_all add: encrypt_str_or_original_def encrypt_vec_or_original_def)
  ultimately show ?thesis by (simp add: e Let_def)
qed

definition sample_crypto :: crypto where
  "sample_crypto = \<lparr>seal = (\<lambda>d n k. replicate 16 7 @ d), open_box = (\<lambda>c n k. if take 16 c = replicate 16 7 then Some (drop 16 c) else None),
     b64_encode = (\<lambda>d. d), b64_decode = Some, sha256 = (\<lambda>d. take 32 (d @ replicate 32 0)), utf8_lossy = (\<lambda>d. d)\<rparr>"

definition sample_machine :: machine where
  "sample_machine = \<lparr>uuid = [1, 2, 3], existing_pk = None, mobile = False\<rparr>"

lemma sample_crypto_ok: "crypto_ok sample_crypto"
  by (simp add: crypto_ok_def sample_crypto_def) linarith

theorem stored_secret_roundtrip_witness:
  "decrypt_str_or_original sample_crypto sample_machine
     (encrypt_str_or_original sample_crypto sample_machine (replicate 24 5) [97, 98] V00 128) V00 = ([97, 98], True, False)"
  using stored_secret_roundtrip [OF sample_crypto_ok, of "replicate 24 5" "[97, 98]" 128 sample_machine]
  by (simp add: Let_def is_encrypted_def, simp add: sample_crypto_def)

text \<open>The permanent password: from setting it to checking a login.\<close>

lemma h1_storage:
  assumes "crypto_ok cr" "length nonce = NONCEBYTES" "length h1 = H1_LEN"
  obtains storage where "encode_permanent_password_encrypted_storage_from_h1 cr m nonce h1 = Some storage"
    "starts_with_bytes storage V01" "decode_permanent_password_h1_from_storage cr m storage = Some h1" "storage \<noteq> []"
    "decrypt_permanent_password_str_or_original cr m storage = (encode_permanent_password_storage_from_h1 cr h1, True, False)"
proof -
  let ?hashed = "encode_permanent_password_storage_from_h1 cr h1"
  let ?storage = "V01 @ b64_encode cr (symmetric_encrypt cr m nonce ?hashed)"
  have "length (b64_encode cr h1) \<le> 2 * length h1 + 4" using assms(1) by (simp add: crypto_ok_def)
  then have "length ?hashed \<le> ENCRYPT_MAX_LEN"
    using assms(3) by (simp add: encode_permanent_password_storage_from_h1_def V00_def)
  then have "chars_count ?hashed \<le> ENCRYPT_MAX_LEN" using chars_count_le [of ?hashed] by simp
  then have e: "encode_permanent_password_encrypted_storage_from_h1 cr m nonce h1 = Some ?storage"
    by (simp add: encode_permanent_password_encrypted_storage_from_h1_def encrypt_permanent_password_storage_def)
  have p: "starts_with_bytes ?storage V01" by (simp add: starts_with_bytes_def)
  have "b64_encode cr (symmetric_encrypt cr m nonce ?hashed) \<noteq> []"
    using assms(1) by (simp add: crypto_ok_def symmetric_encrypt_def)
  then have l: "length ?storage > VERSION_LEN" by (simp add: V01_def)
  have lossy: "utf8_lossy cr ?hashed = ?hashed"
    using assms(1) by (simp add: crypto_ok_def encode_permanent_password_storage_from_h1_def)
  have "b64_decode cr (drop VERSION_LEN ?storage) = Some (symmetric_encrypt cr m nonce ?hashed)"
    using assms(1) by (simp add: crypto_ok_def V01_def)
  then have d: "decrypt_permanent_password_str_or_original cr m ?storage = (?hashed, True, False)"
    using l p lossy symmetric_roundtrip [OF assms(1,2)] by (simp add: decrypt_permanent_password_str_or_original_def)
  have "decode_permanent_password_h1_from_hashed_storage cr ?hashed = Some h1"
    using assms(1,3) by (simp add: crypto_ok_def decode_permanent_password_h1_from_hashed_storage_def
        decode_password_h1_after_prefix_def encode_permanent_password_storage_from_h1_def starts_with_bytes_def)
  then have "decode_permanent_password_h1_from_storage cr m ?storage = Some h1"
    using d p by (simp add: decode_permanent_password_h1_from_storage_def)
  then show ?thesis using that [OF e p _ _ d] by (simp add: V01_def)
qed

text \<open>(C27) Setting the permanent password works end to end: changing it succeeds, the salt the host
  then offers is not empty, and a login is accepted as the permanent password exactly when its response is the
  digest, under the challenge, of the salted password that was set; storing the configuration and loading
  it again keeps it.\<close>

theorem permanent_password_login:
  assumes "crypto_ok cr" and "length nonce = NONCEBYTES" and "auto \<noteq> []" and "password \<noteq> []"
    and "\<not> hs_disable_change hs" and "\<not> (preset_storage_matches_plain cr (hs_password hs) (hs_salt hs) password \<and> cf_password c = [])"
  shows "(let (ok, _, c') = set_permanent_password cr m hs nonce auto password c;
              (salt, c'') = get_effective_permanent_password_salt cr m hs auto c'
          in ok \<and> salt \<noteq> [] \<and> c'' = c' \<and> has_permanent_password cr m hs c' \<and>
             (validate_permanent cr m hs c' \<lparr>lh_salt = salt, lh_challenge = challenge\<rparr> response \<longleftrightarrow>
                response = sha256 cr (sha256 cr (password @ salt) @ challenge)) \<and>
             config_load cr m (config_store cr m nonce' stored c') = c')"
proof -
  let ?c = "ensure_permanent_password_salt auto c"
  let ?h1 = "sha256 cr (password @ cf_salt ?c)"
  have salt: "cf_salt ?c \<noteq> []" using assms(3) by (simp add: ensure_permanent_password_salt_def)
  have h1: "length ?h1 = H1_LEN" "compute_permanent_password_h1 cr password (cf_salt ?c) = ?h1"
    using assms(1) by (simp_all add: crypto_ok_def compute_permanent_password_h1_def)
  obtain storage where s: "encode_permanent_password_encrypted_storage_from_h1 cr m nonce ?h1 = Some storage"
    "starts_with_bytes storage V01" "decode_permanent_password_h1_from_storage cr m storage = Some ?h1" "storage \<noteq> []"
    "decrypt_permanent_password_str_or_original cr m storage = (encode_permanent_password_storage_from_h1 cr ?h1, True, False)"
    using h1_storage [OF assms(1,2) h1(1)] .
  let ?c' = "?c\<lparr>cf_password := storage\<rparr>"
  have same: "?c = ?c'" if "storage = cf_password ?c" using that by simp
  have set: "fst (set_permanent_password cr m hs nonce auto password c)"
    "snd (snd (set_permanent_password cr m hs nonce auto password c)) = ?c'"
    using assms(4-6) same
    by (auto simp: set_permanent_password_def compute_permanent_password_storage_for_update_def Let_def h1(2) s(1))
  have usable: "local_storage_is_usable_for_auth cr m storage (cf_salt ?c)"
    using s salt by (simp add: local_storage_is_usable_for_auth_def)
  have eff: "get_effective_permanent_password_salt cr m hs auto ?c' = (cf_salt ?c, ?c')"
    using s(4) salt usable by (simp add: get_effective_permanent_password_salt_def get_salt_def)
  have val: "validate_permanent cr m hs ?c' \<lparr>lh_salt = cf_salt ?c, lh_challenge = challenge\<rparr> response \<longleftrightarrow>
      response = sha256 cr (?h1 @ challenge)"
    using s(3,4) usable
    by (auto simp: validate_permanent_def validate_password_storage_def verify_h1_def constant_time_eq_iff)
  have "decode_permanent_password_h1_from_hashed_storage cr (encode_permanent_password_storage_from_h1 cr ?h1) \<noteq> None"
    using s(2,3,5) by (simp add: decode_permanent_password_h1_from_storage_def)
  moreover have "\<not> starts_with_bytes storage V00" using s(2) by (auto simp: starts_with_bytes_def V00_def V01_def)
  ultimately have ok: "validate_or_decrypt_permanent_password_storage cr m ?c' = (Inr (), ?c')"
    using s(4,5) salt by (simp add: validate_or_decrypt_permanent_password_storage_def ensure_permanent_password_hash_salt_def)
  then have "config_store cr m nonce' stored ?c' = ?c'"
    using s(3) by (simp add: config_store_def prepare_config_for_store_def)
  then have load: "config_load cr m (config_store cr m nonce' stored ?c') = ?c'" using ok by (simp add: config_load_def)
  obtain st where e: "set_permanent_password cr m hs nonce auto password c = (True, st, ?c')"
    using set by (cases "set_permanent_password cr m hs nonce auto password c") auto
  have has: "has_permanent_password cr m hs ?c'" using usable s(4) by (simp add: has_permanent_password_def)
  show ?thesis unfolding e Let_def prod.case eff using val load has salt by simp
qed

theorem permanent_password_login_witness:
  "(let hs = \<lparr>hs_password = [], hs_salt = [], hs_disable_change = False\<rparr>; c = \<lparr>cf_password = [], cf_salt = [9, 9]\<rparr>;
        (ok, _, c') = set_permanent_password sample_crypto sample_machine hs (replicate 24 5) [8] [97, 98] c;
        (salt, c'') = get_effective_permanent_password_salt sample_crypto sample_machine hs [8] c'
    in ok \<and> validate_permanent sample_crypto sample_machine hs c' \<lparr>lh_salt = salt, lh_challenge = [1]\<rparr>
         (sha256 sample_crypto (sha256 sample_crypto ([97, 98] @ salt) @ [1])))"
proof -
  let ?hs = "\<lparr>hs_password = [], hs_salt = [], hs_disable_change = False\<rparr>" and ?c = "\<lparr>cf_password = [], cf_salt = [9, 9]\<rparr>"
  have p: "\<not> (preset_storage_matches_plain sample_crypto (hs_password ?hs) (hs_salt ?hs) [97, 98] \<and> cf_password ?c = [])"
    by (simp add: preset_storage_matches_plain_def)
  obtain ok st c' where set: "set_permanent_password sample_crypto sample_machine ?hs (replicate 24 5) [8] [97, 98] ?c = (ok, st, c')"
    by (rule prod_cases3)
  obtain salt c'' where eff: "get_effective_permanent_password_salt sample_crypto sample_machine ?hs [8] c' = (salt, c'')"
    by fastforce
  show ?thesis
    using permanent_password_login [OF sample_crypto_ok _ _ _ _ p, of "replicate 24 5" "[8]" sample_machine "[1]"
        "sha256 sample_crypto (sha256 sample_crypto ([97, 98] @ salt) @ [1])" "[]" "[]"]
    unfolding Let_def set eff by (simp add: eff)
qed

text \<open>The temporary password cannot be guessed at leisure: with the temporary password in use,
  of any run of wrong logins the tenth in a row replaces it, and the nine before leave it alone.\<close>

theorem temporary_password_rotates:
  assumes "temporary_enabled option" and "tp_password tp \<noteq> []" and "tp_seen tp = tp_password tp" and "tp_failures tp = 0"
    and "length fresh = 9"
  shows "(let wrong = check_update_temporary_password option False; tp9 = fold wrong fresh tp in
    tp_password tp9 = tp_password tp \<and> wrong f tp9 = tp\<lparr>tp_password := f, tp_seen := f, tp_failures := 0\<rparr>)"
proof -
  have run: "int (length fs) + tp_failures tp < 10 \<Longrightarrow> 0 \<le> tp_failures tp \<Longrightarrow> tp_seen tp = tp_password tp \<Longrightarrow> tp_password tp \<noteq> [] \<Longrightarrow>
      fold (check_update_temporary_password option False) fs tp = tp\<lparr>tp_failures := tp_failures tp + int (length fs)\<rparr>" for fs tp
  proof (induction fs arbitrary: tp)
    case (Cons x xs)
    have "wrap_i32 (tp_failures tp + 1) = tp_failures tp + 1"
      using Cons.prems(1,2) by (intro wrap_i32_id) (simp_all add: i32_max_def)
    then have "check_update_temporary_password option False x tp = tp\<lparr>tp_failures := tp_failures tp + 1\<rparr>"
      using Cons.prems assms(1) by (simp add: check_update_temporary_password_def)
    then show ?case using Cons.IH [of "tp\<lparr>tp_failures := tp_failures tp + 1\<rparr>"] Cons.prems by (simp add: algebra_simps)
  qed simp
  have nine: "fold (check_update_temporary_password option False) fresh tp = tp\<lparr>tp_failures := 9\<rparr>"
    using run [of fresh tp] assms by simp
  have "wrap_i32 (9 + 1) = 10" by (subst wrap_i32_id) (simp_all add: i32_max_def)
  then show ?thesis using assms(1-3) by (simp add: nine Let_def check_update_temporary_password_def)
qed

theorem temporary_password_rotates_witness:
  "tp_password (fold (check_update_temporary_password ''use-both-passwords'' False) (replicate 9 [66])
     \<lparr>tp_password = [65], tp_seen = [65], tp_failures = 0\<rparr>) = [65]"
  using temporary_password_rotates [of "''use-both-passwords''" "\<lparr>tp_password = [65], tp_seen = [65], tp_failures = 0\<rparr>" "replicate 9 [66]" "[67]"]
  by (simp add: temporary_enabled_def verification_method_def Let_def)

end
