(* ===== verification/Messages.thy ===== *)
theory Messages
  imports RustStr
begin

text \<open>
  The messages a controlling peer sends, as the generated protobuf types of
  \<^verbatim>\<open>libs/hbb_common/protos/message.proto\<close> present them to \<^verbatim>\<open>src/server/connection.rs\<close>: \<open>oneof\<close> unions are
  optional values of a datatype, enumerations may hold a number the receiver does not know
  (\<open>EnumOrUnknown\<close>). Payloads that no modelled code looks into are left out.
\<close>

datatype 'e enum_or_unknown = Known 'e | Unknown int

definition enum_value :: "'e enum_or_unknown \<Rightarrow> 'e option" where
  "enum_value e = (case e of Known v \<Rightarrow> Some v | Unknown _ \<Rightarrow> None)"

lemma enum_value_Some: "enum_value e = Some v \<longleftrightarrow> e = Known v"
  by (cases e) (auto simp: enum_value_def)

lemma enum_value_None: "enum_value e = None \<longleftrightarrow> (\<exists>n. e = Unknown n)"
  by (cases e) (auto simp: enum_value_def)

lemma enum_value_simps [simp]: "enum_value (Known v) = Some v" "enum_value (Unknown n) = None"
  by (simp_all add: enum_value_def)

datatype image_quality = IQ_NotSet | IQ_Low | IQ_Balanced | IQ_Best

fun image_quality_value :: "image_quality \<Rightarrow> int" where
  "image_quality_value IQ_NotSet = 0"
| "image_quality_value IQ_Low = 2"
| "image_quality_value IQ_Balanced = 3"
| "image_quality_value IQ_Best = 4"

datatype bool_option = NotSet | No | Yes

type_synonym bool_field = "bool_option enum_or_unknown"

text \<open>\<open>supported_decoding\<close> is carried as its encoding: nothing here looks into it.\<close>

record option_message =
  image_quality :: "image_quality enum_or_unknown"
  lock_after_session_end :: bool_field
  show_remote_cursor :: bool_field
  privacy_mode :: bool_field
  block_input :: bool_field
  custom_image_quality :: int
  disable_audio :: bool_field
  disable_clipboard :: bool_field
  enable_file_transfer :: bool_field
  supported_decoding :: "bytes option"
  custom_fps :: int
  disable_keyboard :: bool_field
  follow_remote_cursor :: bool_field
  follow_remote_window :: bool_field
  disable_camera :: bool_field
  terminal_persistent :: bool_field
  show_my_cursor :: bool_field

definition option_new :: option_message where
  "option_new = \<lparr>image_quality = Known IQ_NotSet, lock_after_session_end = Known NotSet, show_remote_cursor = Known NotSet,
     privacy_mode = Known NotSet, block_input = Known NotSet, custom_image_quality = 0, disable_audio = Known NotSet,
     disable_clipboard = Known NotSet, enable_file_transfer = Known NotSet, supported_decoding = None, custom_fps = 0,
     disable_keyboard = Known NotSet, follow_remote_cursor = Known NotSet, follow_remote_window = Known NotSet,
     disable_camera = Known NotSet, terminal_persistent = Known NotSet, show_my_cursor = Known NotSet\<rparr>"

record os_login =
  os_username :: string
  os_password :: string

datatype login_union = FileTransferLogin string bool | ViewCameraLogin | TerminalLogin string
  | PortForwardLogin string int

record login_request =
  lr_username :: string
  lr_password :: bytes
  lr_my_id :: string
  lr_my_name :: string
  lr_my_platform :: string
  lr_option :: "option_message option"
  lr_union :: "login_union option"
  lr_session_id :: nat
  lr_version :: string
  lr_os_login :: os_login
  lr_hwid :: bytes

datatype misc = ChatMessage | SwitchDisplay | PermissionInfo | OptionMsg option_message | AudioFormat
  | CloseReason string | RefreshVideo | VideoReceived | BackNotification | RestartRemoteDevice | Uac
  | ForegroundWindowElevated | StopService | ElevationRequest | ElevationResponse | PortableServiceRunning
  | SwitchSidesRequest | SwitchBack | ChangeResolution | PluginRequest | PluginFailure | FullSpeedFps
  | AutoAdjustFps | ClientRecordStatus | CaptureDisplays | RefreshVideoDisplay | ToggleVirtualDisplay
  | TogglePrivacyMode | SupportedEncoding | SelectedSid | ChangeDisplayResolution | MessageQuery
  | FollowCurrentDisplay

datatype message = SignedId | PublicKey | TestDelay bool | VideoFrame | LoginRequest login_request | LoginResponse
  | Hash | MouseEvent | AudioFrame | CursorData | CursorPosition | CursorId | KeyEvent | Clipboard | FileAction
  | FileResponse | Misc "misc option" | Cliprdr | MessageBox | SwitchSidesResponse bytes "login_request option"
  | VoiceCallRequest | VoiceCallResponse | PeerInfo | PointerDeviceEvent | Auth2fa string bytes | MultiClipboards
  | ScreenshotRequest | ScreenshotResponse | TerminalAction | TerminalResponse

end
