(* ===== verification/Versions.thy ===== *)
theory Versions
  imports RustStr
begin

text \<open>
  Version strings, \<^verbatim>\<open>libs/hbb_common/src/lib.rs\<close>: the number the peers compare (\<open>get_version_number\<close>) and
  the version in the name of a release file (\<open>get_version_from_url\<close>). Sums and products of \<open>i64\<close> wrap.
\<close>

definition parse_i64 :: "string \<Rightarrow> int" where
  "parse_i64 s = (case parse_signed 9223372036854775807 s of Some n \<Rightarrow> n | None \<Rightarrow> 0)"

fun version_parts :: "string list \<Rightarrow> int \<times> int \<Rightarrow> int \<times> int" where
  "version_parts [] (n, l) = (n, l)"
| "version_parts (x # xs) (n, l) =
     (let l = parse_i64 x in version_parts xs (wrap_i64 (wrap_i64 (n * 1000) + l), l))"

definition get_version_number :: "string \<Rightarrow> int" where
  "get_version_number v =
     (let versions = split_char (CHR ''-'') v;
          n = (case versions of
                 [] \<Rightarrow> 0
               | v # _ \<Rightarrow> (let (n, l) = version_parts (split_char (CHR ''.'') v) (0, 0)
                          in wrap_i64 (wrap_i64 (n - l) + wrap_i64 (l * 10))))
      in case versions of
           _ # v # _ \<Rightarrow> wrap_i64 (n + parse_i64 v)
         | _ \<Rightarrow> n)"

definition rposition :: "char \<Rightarrow> string \<Rightarrow> nat option" where
  "rposition c s = (if c \<in> set s then Some (length (takeWhile (\<lambda>x. x \<noteq> c) (rev s))) else None)"

definition get_version_from_url :: "string \<Rightarrow> string" where
  "get_version_from_url url =
     (let n = length url in
      case rposition (CHR ''-'') url of
        Some a \<Rightarrow>
          (case rposition (CHR ''.'') url of
             Some b \<Rightarrow>
               if a > b then
                 (if parse_signed 2147483647 (drop (n - b) url) \<noteq> None then drop (n - a) url
                  else take (a - b - 1) (drop (n - a) url))
               else drop (n - a) url
           | None \<Rightarrow> [])
      | None \<Rightarrow> [])"

section \<open>Properties\<close>

text \<open>A version \<open>a.b.c\<close> or \<open>a.b.c-p\<close> as text.\<close>

definition version_str :: "nat \<Rightarrow> nat \<Rightarrow> nat \<Rightarrow> nat option \<Rightarrow> string" where
  "version_str a b c p = nat_to_str a @ ''.'' @ nat_to_str b @ ''.'' @ nat_to_str c @
     (case p of Some p \<Rightarrow> ''-'' @ nat_to_str p | None \<Rightarrow> [])"

lemma parse_i64_nat: "n \<le> 9223372036854775807 \<Longrightarrow> parse_i64 (nat_to_str n) = int n"
proof -
  assume n: "n \<le> 9223372036854775807"
  have "hd (nat_to_str n) \<noteq> CHR ''-''"
    using nat_to_str_chars [of "hd (nat_to_str n)" n] nat_to_str_digits [of n] not_digit(2) by (metis hd_in_set)
  then have "parse_signed 9223372036854775807 (nat_to_str n) = map_option int (parse_unsigned 9223372036854775807 (nat_to_str n))"
    unfolding parse_signed_def by (auto split: list.splits char.splits bool.splits)
  then show ?thesis using n by (simp add: parse_i64_def parse_unsigned_nat_to_str)
qed

lemma version_str_split:
  "split_char (CHR ''-'') (version_str a b c p) =
     (nat_to_str a @ ''.'' @ nat_to_str b @ ''.'' @ nat_to_str c) # (case p of Some p \<Rightarrow> [nat_to_str p] | None \<Rightarrow> [])"
proof -
  have n: "CHR ''-'' \<notin> set (nat_to_str n)" for n using nat_to_str_chars not_digit(2) by blast
  let ?v = "nat_to_str a @ ''.'' @ nat_to_str b @ ''.'' @ nat_to_str c"
  have v: "CHR ''-'' \<notin> set ?v" using n by simp
  show ?thesis
    using split_char_append [OF v, of "nat_to_str (the p)"] split_char_none [OF v] split_char_none [OF n]
    by (cases p) (simp_all add: version_str_def)
qed

lemma get_version_number_str:
  assumes "a < 1000000" "b < 1000" "c < 1000" "\<forall>q. p = Some q \<longrightarrow> q < 1000"
  shows "get_version_number (version_str a b c p) =
    int a * 1000000 + int b * 1000 + int c * 10 + (case p of Some q \<Rightarrow> int q | None \<Rightarrow> 0)"
proof -
  have dots: "split_char (CHR ''.'') (nat_to_str a @ ''.'' @ nat_to_str b @ ''.'' @ nat_to_str c)
      = [nat_to_str a, nat_to_str b, nat_to_str c]"
    using split_char_append [OF no_dot_nat_to_str] split_char_none [OF no_dot_nat_to_str] by simp
  have w: "wrap_i64 x = x" if "0 \<le> x" "x \<le> 2000000000000" for x
    using that by (intro wrap_i64_id) (simp_all add: i64_min_def i64_max_def)
  have "version_parts [nat_to_str a, nat_to_str b, nat_to_str c] (0, 0)
      = (int a * 1000000 + int b * 1000 + int c, int c)"
    using assms(1-3) by (simp add: parse_i64_nat Let_def w algebra_simps)
  moreover have "get_version_number (version_str a b c p) =
      (let n = (let (n, l) = version_parts [nat_to_str a, nat_to_str b, nat_to_str c] (0, 0)
                in wrap_i64 (wrap_i64 (n - l) + wrap_i64 (l * 10)))
       in case p of Some q \<Rightarrow> wrap_i64 (n + parse_i64 (nat_to_str q)) | None \<Rightarrow> n)"
    unfolding get_version_number_def version_str_split by (cases p) (simp_all only: dots Let_def list.case option.case)
  ultimately show ?thesis
    using assms by (cases p) (simp_all add: Let_def w parse_i64_nat algebra_simps)
qed

text \<open>Comparing version numbers compares versions: for \<open>a.b.c\<close> with a patch below ten (or none,
  which counts as zero), middle parts below a thousand and last parts below a hundred, one number is
  smaller than another exactly when the version comes first in the order of its parts.\<close>

theorem version_number_order:
  assumes "a < 1000000" "b < 1000" "c < 100" "p < 10" and "a' < 1000000" "b' < 1000" "c' < 100" "p' < 10"
  shows "(get_version_number (version_str a b c (Some p)) < get_version_number (version_str a' b' c' (Some p')) \<longleftrightarrow>
      a < a' \<or> a = a' \<and> (b < b' \<or> b = b' \<and> (c < c' \<or> c = c' \<and> p < p'))) \<and>
    get_version_number (version_str a b c None) = get_version_number (version_str a b c (Some 0))"
proof -
  have n: "get_version_number (version_str a b c (Some p)) = int (a * 1000000 + b * 1000 + c * 10 + p)"
    "get_version_number (version_str a' b' c' (Some p')) = int (a' * 1000000 + b' * 1000 + c' * 10 + p')"
    using assms by (simp_all add: get_version_number_str)
  have "get_version_number (version_str a b c None) = get_version_number (version_str a b c (Some 0))"
    using assms by (simp add: get_version_number_str)
  moreover have "a * 1000000 + b * 1000 + c * 10 + p < a' * 1000000 + b' * 1000 + c' * 10 + p' \<longleftrightarrow>
      a < a' \<or> a = a' \<and> (b < b' \<or> b = b' \<and> (c < c' \<or> c = c' \<and> p < p'))"
    using assms by linarith
  ultimately show ?thesis unfolding n of_nat_less_iff by blast
qed

theorem version_number_order_witness:
  "get_version_number (version_str 1 1 10 (Some 0)) < get_version_number (version_str 1 2 3 (Some 1))"
  using version_number_order [of 1 1 10 0 1 2 3 1] by simp

text \<open>From a last part of a hundred on the order is lost: \<open>1.1.100\<close> and \<open>1.2.0\<close> have the same
  number.\<close>

theorem version_number_collision:
  "get_version_number (version_str 1 1 100 None) = get_version_number (version_str 1 2 0 None)"
  by (simp add: get_version_number_str)

end
