(* ===== verification/SessionScope.thy ===== *)
theory SessionScope
  imports Messages Versions
begin

text \<open>
  Session scopes, \<^verbatim>\<open>src/server/connection.rs\<close>: what an authorized session may send according to the kind
  it was authorized for (\<open>authorized_message_scope_violation\<close> and the \<open>is_*_scoped_*\<close> predicates), the
  part of an option message a limited session may set (\<open>scoped_login_option\<close>,
  \<open>scoped_update_option_message\<close>), and what options do to the connection (\<open>update_options\<close>).
\<close>

section \<open>Options by scope\<close>

datatype auth_conn_type = Remote | FileTransfer | PortForward | ViewCamera | Terminal

definition is_bool_option_not_set :: "bool_field \<Rightarrow> bool" where
  "is_bool_option_not_set f \<longleftrightarrow> enum_value f = Some NotSet"

definition option_has_non_view_camera_login_field :: "option_message \<Rightarrow> bool" where
  "option_has_non_view_camera_login_field o' \<longleftrightarrow>
     \<not> (is_bool_option_not_set (lock_after_session_end o') \<and> is_bool_option_not_set (show_remote_cursor o')
        \<and> is_bool_option_not_set (privacy_mode o') \<and> is_bool_option_not_set (block_input o')
        \<and> is_bool_option_not_set (disable_clipboard o') \<and> is_bool_option_not_set (enable_file_transfer o')
        \<and> is_bool_option_not_set (disable_keyboard o') \<and> is_bool_option_not_set (follow_remote_cursor o')
        \<and> is_bool_option_not_set (follow_remote_window o') \<and> is_bool_option_not_set (disable_camera o')
        \<and> is_bool_option_not_set (terminal_persistent o') \<and> is_bool_option_not_set (show_my_cursor o'))"

definition option_has_non_terminal_login_field :: "option_message \<Rightarrow> bool" where
  "option_has_non_terminal_login_field o' \<longleftrightarrow>
     enum_value (image_quality o') \<noteq> Some IQ_NotSet \<or> custom_image_quality o' \<noteq> 0 \<or> custom_fps o' \<noteq> 0
     \<or> supported_decoding o' \<noteq> None \<or> \<not> is_bool_option_not_set (lock_after_session_end o')
     \<or> \<not> is_bool_option_not_set (show_remote_cursor o') \<or> \<not> is_bool_option_not_set (privacy_mode o')
     \<or> \<not> is_bool_option_not_set (block_input o') \<or> \<not> is_bool_option_not_set (disable_audio o')
     \<or> \<not> is_bool_option_not_set (disable_clipboard o') \<or> \<not> is_bool_option_not_set (enable_file_transfer o')
     \<or> \<not> is_bool_option_not_set (disable_keyboard o') \<or> \<not> is_bool_option_not_set (follow_remote_cursor o')
     \<or> \<not> is_bool_option_not_set (follow_remote_window o') \<or> \<not> is_bool_option_not_set (disable_camera o')
     \<or> \<not> is_bool_option_not_set (show_my_cursor o')"

definition option_has_any_field :: "option_message \<Rightarrow> bool" where
  "option_has_any_field o' \<longleftrightarrow>
     option_has_non_terminal_login_field o' \<or> \<not> is_bool_option_not_set (terminal_persistent o')"

definition scoped_terminal_login_option :: "option_message \<Rightarrow> option_message option \<times> string option" where
  "scoped_terminal_login_option o' =
     (let (scoped, violation) =
            (case enum_value (terminal_persistent o') of
               Some v \<Rightarrow> (option_new\<lparr>terminal_persistent := Known v\<rparr>, False)
             | None \<Rightarrow> (option_new, True));
          violation = (if option_has_non_terminal_login_field o' then True else violation)
      in (if option_has_any_field scoped then Some scoped else None,
          if violation then Some ''login.option'' else None))"

definition scoped_view_camera_option :: "option_message \<Rightarrow> option_message option \<times> string option" where
  "scoped_view_camera_option o' =
     (let scoped = option_new;
          scoped = (if enum_value (image_quality o') \<noteq> None then scoped\<lparr>image_quality := image_quality o'\<rparr> else scoped);
          scoped = (if custom_image_quality o' \<ge> 0 then scoped\<lparr>custom_image_quality := custom_image_quality o'\<rparr> else scoped);
          scoped = (if custom_fps o' \<ge> 0 then scoped\<lparr>custom_fps := custom_fps o'\<rparr> else scoped);
          scoped = scoped\<lparr>supported_decoding := supported_decoding o'\<rparr>;
          scoped = (case enum_value (disable_audio o') of Some v \<Rightarrow> scoped\<lparr>disable_audio := Known v\<rparr> | None \<Rightarrow> scoped);
          violation = option_has_non_view_camera_login_field o'
      in (if option_has_any_field scoped then Some scoped else None,
          if violation then Some ''login.option'' else None))"

fun scoped_login_option :: "auth_conn_type \<Rightarrow> option_message \<Rightarrow> option_message option \<times> string option" where
  "scoped_login_option Remote o' = (Some o', None)"
| "scoped_login_option ViewCamera o' = scoped_view_camera_option o'"
| "scoped_login_option Terminal o' = scoped_terminal_login_option o'"
| "scoped_login_option FileTransfer o' = (None, if option_has_any_field o' then Some ''login.option'' else None)"
| "scoped_login_option PortForward o' = (None, if option_has_any_field o' then Some ''login.option'' else None)"

fun scoped_update_option_message :: "auth_conn_type option \<Rightarrow> option_message \<Rightarrow> option_message option" where
  "scoped_update_option_message (Some ViewCamera) o' = fst (scoped_view_camera_option o')"
| "scoped_update_option_message (Some Terminal) o' = fst (scoped_terminal_login_option o')"
| "scoped_update_option_message _ o' = None"

section \<open>Messages by scope\<close>

definition is_supported_decoding_only_option :: "option_message \<Rightarrow> bool" where
  "is_supported_decoding_only_option o' \<longleftrightarrow>
     supported_decoding o' \<noteq> None \<and> enum_value (image_quality o') = Some IQ_NotSet
     \<and> custom_image_quality o' = 0 \<and> custom_fps o' = 0
     \<and> is_bool_option_not_set (lock_after_session_end o') \<and> is_bool_option_not_set (show_remote_cursor o')
     \<and> is_bool_option_not_set (privacy_mode o') \<and> is_bool_option_not_set (block_input o')
     \<and> is_bool_option_not_set (disable_audio o') \<and> is_bool_option_not_set (disable_clipboard o')
     \<and> is_bool_option_not_set (enable_file_transfer o') \<and> is_bool_option_not_set (disable_keyboard o')
     \<and> is_bool_option_not_set (follow_remote_cursor o') \<and> is_bool_option_not_set (follow_remote_window o')
     \<and> is_bool_option_not_set (disable_camera o') \<and> is_bool_option_not_set (terminal_persistent o')
     \<and> is_bool_option_not_set (show_my_cursor o')"

definition is_connection_housekeeping_message :: "message option \<Rightarrow> bool" where
  "is_connection_housekeeping_message msg =
     (case msg of
        Some (LoginRequest _) \<Rightarrow> True
      | Some (TestDelay _) \<Rightarrow> True
      | Some (Misc (Some (CloseReason _))) \<Rightarrow> True
      | _ \<Rightarrow> False)"

definition is_render_broadcast_noop_compat_message :: "message option \<Rightarrow> bool" where
  "is_render_broadcast_noop_compat_message msg =
     (case msg of
        Some (Misc (Some RefreshVideo)) \<Rightarrow> True
      | Some (Misc (Some RefreshVideoDisplay)) \<Rightarrow> True
      | Some (Misc (Some (OptionMsg o'))) \<Rightarrow> is_supported_decoding_only_option o'
      | _ \<Rightarrow> False)"

definition is_text_clipboard_noop_compat_message :: "message option \<Rightarrow> bool" where
  "is_text_clipboard_noop_compat_message msg \<longleftrightarrow> msg = Some Clipboard \<or> msg = Some MultiClipboards"

text \<open>\<open>windows\<close> tells whether the host was built for Windows.\<close>

definition is_file_transfer_scoped_misc :: "bool \<Rightarrow> misc option \<Rightarrow> bool" where
  "is_file_transfer_scoped_misc windows misc \<longleftrightarrow> windows \<and> misc = Some SelectedSid"

definition is_file_transfer_scoped_message :: "bool \<Rightarrow> message option \<Rightarrow> bool" where
  "is_file_transfer_scoped_message windows msg =
     (case msg of
        Some FileAction \<Rightarrow> True
      | Some FileResponse \<Rightarrow> True
      | Some (Misc misc) \<Rightarrow> is_file_transfer_scoped_misc windows misc
      | _ \<Rightarrow> False)"

definition is_terminal_scoped_option :: "option_message \<Rightarrow> bool" where
  "is_terminal_scoped_option o' \<longleftrightarrow> snd (scoped_terminal_login_option o') = None"

definition is_terminal_scoped_misc :: "misc option \<Rightarrow> bool" where
  "is_terminal_scoped_misc misc =
     (case misc of
        Some ChatMessage \<Rightarrow> True
      | Some (OptionMsg o') \<Rightarrow> is_terminal_scoped_option o'
      | _ \<Rightarrow> False)"

definition is_terminal_scoped_message :: "message option \<Rightarrow> bool" where
  "is_terminal_scoped_message msg =
     (case msg of
        Some TerminalAction \<Rightarrow> True
      | Some (Misc misc) \<Rightarrow> is_terminal_scoped_misc misc
      | _ \<Rightarrow> False)"

definition is_view_camera_scoped_option :: "option_message \<Rightarrow> bool" where
  "is_view_camera_scoped_option o' \<longleftrightarrow> snd (scoped_view_camera_option o') = None"

definition is_view_camera_scoped_misc :: "bool \<Rightarrow> misc option \<Rightarrow> bool" where
  "is_view_camera_scoped_misc windows misc =
     (case misc of
        Some SwitchDisplay \<Rightarrow> True
      | Some CaptureDisplays \<Rightarrow> True
      | Some RefreshVideo \<Rightarrow> True
      | Some RefreshVideoDisplay \<Rightarrow> True
      | Some VideoReceived \<Rightarrow> True
      | Some ChatMessage \<Rightarrow> True
      | Some AudioFormat \<Rightarrow> True
      | Some ClientRecordStatus \<Rightarrow> True
      | Some MessageQuery \<Rightarrow> True
      | Some TogglePrivacyMode \<Rightarrow> True
      | Some ToggleVirtualDisplay \<Rightarrow> True
      | Some ChangeResolution \<Rightarrow> True
      | Some ChangeDisplayResolution \<Rightarrow> True
      | Some (OptionMsg o') \<Rightarrow> is_view_camera_scoped_option o'
      | Some SelectedSid \<Rightarrow> windows
      | _ \<Rightarrow> False)"

definition is_view_camera_scoped_message :: "bool \<Rightarrow> message option \<Rightarrow> bool" where
  "is_view_camera_scoped_message windows msg =
     (case msg of
        Some ScreenshotRequest \<Rightarrow> True
      | Some (Misc misc) \<Rightarrow> is_view_camera_scoped_misc windows misc
      | Some MouseEvent \<Rightarrow> True
      | Some PointerDeviceEvent \<Rightarrow> True
      | Some KeyEvent \<Rightarrow> True
      | Some AudioFrame \<Rightarrow> True
      | Some VoiceCallRequest \<Rightarrow> True
      | Some VoiceCallResponse \<Rightarrow> True
      | _ \<Rightarrow> False)"

definition misc_message_family :: "misc option \<Rightarrow> string" where
  "misc_message_family misc =
     (case misc of
        Some ChatMessage \<Rightarrow> ''misc.chat_message''
      | Some SwitchDisplay \<Rightarrow> ''misc.switch_display''
      | Some (OptionMsg _) \<Rightarrow> ''misc.option''
      | Some AudioFormat \<Rightarrow> ''misc.audio_format''
      | Some CaptureDisplays \<Rightarrow> ''misc.capture_displays''
      | Some ClientRecordStatus \<Rightarrow> ''misc.client_record_status''
      | Some TogglePrivacyMode \<Rightarrow> ''misc.toggle_privacy_mode''
      | Some ToggleVirtualDisplay \<Rightarrow> ''misc.toggle_virtual_display''
      | Some SelectedSid \<Rightarrow> ''misc.selected_sid''
      | Some ChangeResolution \<Rightarrow> ''misc.change_resolution''
      | Some ChangeDisplayResolution \<Rightarrow> ''misc.change_display_resolution''
      | Some MessageQuery \<Rightarrow> ''misc.message_query''
      | Some FollowCurrentDisplay \<Rightarrow> ''misc.follow_current_display''
      | Some _ \<Rightarrow> ''misc.other''
      | None \<Rightarrow> ''misc.empty'')"

definition message_family :: "message option \<Rightarrow> string" where
  "message_family msg =
     (case msg of
        Some MouseEvent \<Rightarrow> ''mouse_event''
      | Some AudioFrame \<Rightarrow> ''audio_frame''
      | Some PointerDeviceEvent \<Rightarrow> ''pointer_device_event''
      | Some KeyEvent \<Rightarrow> ''key_event''
      | Some Clipboard \<Rightarrow> ''clipboard''
      | Some FileAction \<Rightarrow> ''file_action''
      | Some FileResponse \<Rightarrow> ''file_response''
      | Some VoiceCallRequest \<Rightarrow> ''voice_call_request''
      | Some VoiceCallResponse \<Rightarrow> ''voice_call_response''
      | Some MultiClipboards \<Rightarrow> ''multi_clipboards''
      | Some ScreenshotRequest \<Rightarrow> ''screenshot_request''
      | Some ScreenshotResponse \<Rightarrow> ''screenshot_response''
      | Some TerminalAction \<Rightarrow> ''terminal_action''
      | Some TerminalResponse \<Rightarrow> ''terminal_response''
      | Some (Misc misc) \<Rightarrow> misc_message_family misc
      | Some _ \<Rightarrow> ''message.other''
      | None \<Rightarrow> ''empty'')"

definition noop_compat :: "auth_conn_type \<Rightarrow> message option \<Rightarrow> bool" where
  "noop_compat conn_type msg =
     (case conn_type of
        FileTransfer \<Rightarrow> is_render_broadcast_noop_compat_message msg \<or> is_text_clipboard_noop_compat_message msg
      | Terminal \<Rightarrow> is_render_broadcast_noop_compat_message msg \<or> is_text_clipboard_noop_compat_message msg
      | PortForward \<Rightarrow> is_render_broadcast_noop_compat_message msg
      | ViewCamera \<Rightarrow> is_text_clipboard_noop_compat_message msg
      | Remote \<Rightarrow> False)"

definition authorized_message_scope_violation :: "bool \<Rightarrow> auth_conn_type \<Rightarrow> message option \<Rightarrow> string option" where
  "authorized_message_scope_violation windows conn_type msg =
     (if is_connection_housekeeping_message msg then None
      else if noop_compat conn_type msg then None
      else
        (let allowed =
           (case conn_type of
              Remote \<Rightarrow> True
            | FileTransfer \<Rightarrow> is_file_transfer_scoped_message windows msg
            | PortForward \<Rightarrow> False
            | ViewCamera \<Rightarrow> is_view_camera_scoped_message windows msg
            | Terminal \<Rightarrow> is_terminal_scoped_message msg)
         in if \<not> allowed then Some (message_family msg) else None))"

definition authorized_scope_violation :: "bool \<Rightarrow> auth_conn_type option \<Rightarrow> message option \<Rightarrow> string option" where
  "authorized_scope_violation windows authed msg =
     (case authed of
        None \<Rightarrow> if \<not> is_connection_housekeeping_message msg then Some ''session.auth_type'' else None
      | Some conn_type \<Rightarrow> authorized_message_scope_violation windows conn_type msg)"

definition should_handle_render_broadcast_message :: "auth_conn_type option \<Rightarrow> bool" where
  "should_handle_render_broadcast_message authed \<longleftrightarrow> authed = Some Remote \<or> authed = Some ViewCamera"

definition should_handle_text_clipboard_message :: "auth_conn_type option \<Rightarrow> bool" where
  "should_handle_text_clipboard_message authed \<longleftrightarrow> authed = Some Remote"

end
