(* ===== verification/SessionOptions.thy ===== *)
theory SessionOptions
  imports SessionScope
begin

text \<open>
  What options do to a connection, \<^verbatim>\<open>src/server/connection.rs\<close>: \<open>update_options\<close>, one definition for each
  field it looks at, in its order; \<open>update_scoped_login_options\<close> and the \<open>Option\<close> message, which apply only
  the part the session's scope allows. What leaves the connection (subscriptions of services, orders to
  the input thread, privacy mode, the quality settings) is a list of effects.
\<close>

section \<open>State\<close>

text \<open>The build target, the permissions of the connection, and its switches.\<close>

record target =
  tg_windows :: bool
  tg_mobile :: bool
  tg_linux :: bool
  tg_unix_file_copy_paste :: bool

datatype service = NAME_CURSOR | NAME_POS | NAME_WINDOW_FOCUS | AUDIO_SERVICE | CLIPBOARD_SERVICE | FILE_CLIPBOARD_SERVICE

datatype option_effect = UserImageQuality int | UserCustomFps int | EncoderUpdate bytes | Subscribe service bool
  | ClipboardFileEnabled bool | TryEmptyFileClipboard | TurnOnPrivacy | TurnOffPrivacy | BlockOn | BlockOff
  | BlkOnFailed | BlkOffFailed | SetTerminalPersistent bool | RegisterWhiteboard | UnregisterWhiteboard
  | ShowMyCursorUnsupported string

record conn_options =
  co_authed :: "auth_conn_type option"
  co_server_alive :: bool
  co_version :: string
  co_keyboard :: bool
  co_clipboard :: bool
  co_audio :: bool
  co_file :: bool
  co_block_input :: bool
  co_voice_calling :: bool
  co_one_way_clipboard :: bool
  co_one_way_file :: bool
  co_lower_win10 :: bool
  co_whiteboard_supported :: bool
  co_lock_after_session_end :: bool
  co_show_remote_cursor :: bool
  co_follow_remote_cursor :: bool
  co_follow_remote_window :: bool
  co_disable_audio :: bool
  co_enable_file_transfer :: bool
  co_disable_clipboard :: bool
  co_disable_keyboard :: bool
  co_terminal_persistent :: bool
  co_show_my_cursor :: bool
  co_effects :: "option_effect list"

definition emit :: "option_effect list \<Rightarrow> conn_options \<Rightarrow> conn_options" where
  "emit es c = c\<lparr>co_effects := co_effects c @ es\<rparr>"

text \<open>Subscriptions reach the server only while it is alive.\<close>

definition subscribe :: "service \<Rightarrow> bool \<Rightarrow> conn_options \<Rightarrow> conn_options" where
  "subscribe s sub c = (if co_server_alive c then emit [Subscribe s sub] c else c)"

definition peer_keyboard_enabled :: "conn_options \<Rightarrow> bool" where
  "peer_keyboard_enabled c \<longleftrightarrow> co_keyboard c \<and> \<not> co_disable_keyboard c"

definition clipboard_enabled :: "conn_options \<Rightarrow> bool" where
  "clipboard_enabled c \<longleftrightarrow> co_clipboard c \<and> \<not> co_disable_clipboard c"

definition can_sub_clipboard_service :: "conn_options \<Rightarrow> bool" where
  "can_sub_clipboard_service c \<longleftrightarrow> clipboard_enabled c \<and> peer_keyboard_enabled c \<and> \<not> co_one_way_clipboard c"

definition audio_enabled :: "conn_options \<Rightarrow> bool" where
  "audio_enabled c \<longleftrightarrow> co_audio c \<and> \<not> co_disable_audio c"

definition file_transfer_enabled :: "conn_options \<Rightarrow> bool" where
  "file_transfer_enabled c \<longleftrightarrow> co_file c \<and> co_enable_file_transfer c"

definition can_sub_file_clipboard_service :: "conn_options \<Rightarrow> bool" where
  "can_sub_file_clipboard_service c \<longleftrightarrow> clipboard_enabled c \<and> file_transfer_enabled c \<and> \<not> co_one_way_file c"

section \<open>One definition per option\<close>

text \<open>A field that is set to a known value other than \<open>NotSet\<close> acts with the value \<open>q = Yes\<close>.\<close>

definition when_set :: "bool_field \<Rightarrow> (bool \<Rightarrow> conn_options \<Rightarrow> conn_options) \<Rightarrow> conn_options \<Rightarrow> conn_options" where
  "when_set f act c =
     (case enum_value f of Some q \<Rightarrow> if q \<noteq> NotSet then act (q = Yes) c else c | None \<Rightarrow> c)"

definition update_quality :: "option_message \<Rightarrow> conn_options \<Rightarrow> conn_options" where
  "update_quality o' c =
     (case enum_value (image_quality o') of
        Some q \<Rightarrow>
          (let iq = (if q = IQ_NotSet then (if custom_image_quality o' > 0 then custom_image_quality o' else - 1)
                     else image_quality_value q)
           in if iq > 0 then emit [UserImageQuality iq] c else c)
      | None \<Rightarrow> c)"

definition update_fps :: "option_message \<Rightarrow> conn_options \<Rightarrow> conn_options" where
  "update_fps o' c = (if custom_fps o' > 0 then emit [UserCustomFps (custom_fps o')] c else c)"

definition update_codec :: "option_message \<Rightarrow> conn_options \<Rightarrow> conn_options" where
  "update_codec o' c = (case supported_decoding o' of Some q \<Rightarrow> emit [EncoderUpdate q] c | None \<Rightarrow> c)"

definition update_lock :: "option_message \<Rightarrow> conn_options \<Rightarrow> conn_options" where
  "update_lock o' = when_set (lock_after_session_end o') (\<lambda>b c. c\<lparr>co_lock_after_session_end := b\<rparr>)"

definition update_show_remote_cursor :: "target \<Rightarrow> option_message \<Rightarrow> conn_options \<Rightarrow> conn_options" where
  "update_show_remote_cursor tg o' = (if tg_mobile tg then (\<lambda>c. c)
     else when_set (show_remote_cursor o') (\<lambda>b c.
       let c = c\<lparr>co_show_remote_cursor := b\<rparr>;
           c = subscribe NAME_CURSOR (peer_keyboard_enabled c \<or> co_show_remote_cursor c) c
       in subscribe NAME_POS (co_show_remote_cursor c) c))"

definition update_follow_remote_cursor :: "target \<Rightarrow> option_message \<Rightarrow> conn_options \<Rightarrow> conn_options" where
  "update_follow_remote_cursor tg o' = (if tg_mobile tg then (\<lambda>c. c)
     else when_set (follow_remote_cursor o') (\<lambda>b c. c\<lparr>co_follow_remote_cursor := b\<rparr>))"

definition update_follow_remote_window :: "option_message \<Rightarrow> conn_options \<Rightarrow> conn_options" where
  "update_follow_remote_window o' = when_set (follow_remote_window o') (\<lambda>b c.
     let c = c\<lparr>co_follow_remote_window := b\<rparr> in subscribe NAME_WINDOW_FOCUS (co_follow_remote_window c) c)"

definition update_audio :: "option_message \<Rightarrow> conn_options \<Rightarrow> conn_options" where
  "update_audio o' = when_set (disable_audio o') (\<lambda>b c.
     let c = c\<lparr>co_disable_audio := b\<rparr> in
     if co_authed c = Some ViewCamera then
       (if co_voice_calling c \<or> \<not> audio_enabled c then subscribe AUDIO_SERVICE (audio_enabled c) c else c)
     else subscribe AUDIO_SERVICE (audio_enabled c) c)"

definition update_file_transfer :: "target \<Rightarrow> option_message \<Rightarrow> conn_options \<Rightarrow> conn_options" where
  "update_file_transfer tg o' = (if \<not> (tg_windows tg \<or> tg_unix_file_copy_paste tg) then (\<lambda>c. c)
     else when_set (enable_file_transfer o') (\<lambda>b c.
       let c = c\<lparr>co_enable_file_transfer := b\<rparr>;
           c = (if tg_windows tg then emit [ClipboardFileEnabled (file_transfer_enabled c)] c else c);
           c = (if tg_unix_file_copy_paste tg \<and> \<not> co_enable_file_transfer c then emit [TryEmptyFileClipboard] c else c)
       in if tg_unix_file_copy_paste tg
          then subscribe FILE_CLIPBOARD_SERVICE (can_sub_file_clipboard_service c) c else c))"

definition update_clipboard :: "option_message \<Rightarrow> conn_options \<Rightarrow> conn_options" where
  "update_clipboard o' = when_set (disable_clipboard o') (\<lambda>b c.
     let c = c\<lparr>co_disable_clipboard := b\<rparr> in subscribe CLIPBOARD_SERVICE (can_sub_clipboard_service c) c)"

definition update_keyboard :: "target \<Rightarrow> option_message \<Rightarrow> conn_options \<Rightarrow> conn_options" where
  "update_keyboard tg o' = when_set (disable_keyboard o') (\<lambda>b c.
     let c = c\<lparr>co_disable_keyboard := b\<rparr>;
         c = subscribe CLIPBOARD_SERVICE (can_sub_clipboard_service c) c;
         c = (if tg_unix_file_copy_paste tg then subscribe FILE_CLIPBOARD_SERVICE (can_sub_file_clipboard_service c) c else c)
     in subscribe NAME_CURSOR (peer_keyboard_enabled c \<or> co_show_remote_cursor c) c)"

definition update_privacy :: "option_message \<Rightarrow> conn_options \<Rightarrow> conn_options" where
  "update_privacy o' c =
     (if get_version_number (co_version c) < get_version_number ''1.2.4'' then
        (case enum_value (privacy_mode o') of
           Some q \<Rightarrow> if co_keyboard c then
               (case q of Yes \<Rightarrow> emit [TurnOnPrivacy] c | No \<Rightarrow> emit [TurnOffPrivacy] c | NotSet \<Rightarrow> c)
             else c
         | None \<Rightarrow> c)
      else c)"

definition update_block_input :: "option_message \<Rightarrow> conn_options \<Rightarrow> conn_options" where
  "update_block_input o' c =
     (case enum_value (block_input o') of
        Some q \<Rightarrow>
          if co_keyboard c \<and> co_block_input c then
            (case q of Yes \<Rightarrow> emit [BlockOn] c | No \<Rightarrow> emit [BlockOff] c | NotSet \<Rightarrow> c)
          else if q \<noteq> NotSet then emit [if q = Yes then BlkOnFailed else BlkOffFailed] c
          else c
      | None \<Rightarrow> c)"

definition update_terminal :: "target \<Rightarrow> option_message \<Rightarrow> conn_options \<Rightarrow> conn_options" where
  "update_terminal tg o' = (if tg_mobile tg then (\<lambda>c. c)
     else when_set (terminal_persistent o') (\<lambda>b c. emit [SetTerminalPersistent b] (c\<lparr>co_terminal_persistent := b\<rparr>)))"

definition update_show_my_cursor :: "target \<Rightarrow> option_message \<Rightarrow> conn_options \<Rightarrow> conn_options" where
  "update_show_my_cursor tg o' = (if tg_mobile tg then (\<lambda>c. c)
     else when_set (show_my_cursor o') (\<lambda>b c.
       let c = c\<lparr>co_show_my_cursor := b\<rparr>;
           is_lower_win10 = tg_windows tg \<and> co_lower_win10 c;
           not_support_msg =
             (if is_lower_win10 then ''Windows 10 or greater is required.''
              else if tg_linux tg \<and> \<not> co_whiteboard_supported c
                then ''This feature is not supported on native Wayland, please install XWayland or switch to X11.''
              else [])
       in if b then (if not_support_msg = [] then emit [RegisterWhiteboard] c
                     else emit [ShowMyCursorUnsupported not_support_msg] c)
          else if not_support_msg = [] then emit [UnregisterWhiteboard] c else c))"

definition update_options :: "target \<Rightarrow> option_message \<Rightarrow> conn_options \<Rightarrow> conn_options" where
  "update_options tg o' c = fold (\<lambda>f c. f c)
     [update_quality o', update_fps o', update_codec o', update_lock o', update_show_remote_cursor tg o',
      update_follow_remote_cursor tg o', update_follow_remote_window o', update_audio o', update_file_transfer tg o',
      update_clipboard o', update_keyboard tg o', update_privacy o', update_block_input o', update_terminal tg o',
      update_show_my_cursor tg o'] c"

definition update_scoped_login_options :: "target \<Rightarrow> option_message option \<Rightarrow> conn_options \<Rightarrow> conn_options" where
  "update_scoped_login_options tg options_in_login c =
     (case options_in_login of
        None \<Rightarrow> c
      | Some o' \<Rightarrow> (case co_authed c of
            None \<Rightarrow> c
          | Some conn_type \<Rightarrow> (case fst (scoped_login_option conn_type o') of
                Some scoped \<Rightarrow> update_options tg scoped c
              | None \<Rightarrow> c)))"

text \<open>The \<open>Option\<close> message of an authorized connection.\<close>

definition on_option_message :: "target \<Rightarrow> option_message \<Rightarrow> conn_options \<Rightarrow> conn_options" where
  "on_option_message tg o' c =
     (if co_authed c = Some Remote then update_options tg o' c
      else case scoped_update_option_message (co_authed c) o' of
          Some scoped \<Rightarrow> update_options tg scoped c
        | None \<Rightarrow> c)"

section \<open>Properties\<close>

text \<open>Fields that are not set do nothing.\<close>

lemma when_set_not_set [simp]: "when_set (Known NotSet) act c = c"
  by (simp add: when_set_def)

lemma option_new_fields [simp]:
  "lock_after_session_end option_new = Known NotSet" "show_remote_cursor option_new = Known NotSet"
  "privacy_mode option_new = Known NotSet" "block_input option_new = Known NotSet"
  "disable_audio option_new = Known NotSet" "disable_clipboard option_new = Known NotSet"
  "enable_file_transfer option_new = Known NotSet" "disable_keyboard option_new = Known NotSet"
  "follow_remote_cursor option_new = Known NotSet" "follow_remote_window option_new = Known NotSet"
  "disable_camera option_new = Known NotSet" "terminal_persistent option_new = Known NotSet"
  "show_my_cursor option_new = Known NotSet" "image_quality option_new = Known IQ_NotSet"
  "custom_image_quality option_new = 0" "custom_fps option_new = 0" "supported_decoding option_new = None"
  by (simp_all add: option_new_def)

lemma update_unset:
  "lock_after_session_end o' = Known NotSet \<Longrightarrow> update_lock o' c = c"
  "show_remote_cursor o' = Known NotSet \<Longrightarrow> update_show_remote_cursor tg o' c = c"
  "follow_remote_cursor o' = Known NotSet \<Longrightarrow> update_follow_remote_cursor tg o' c = c"
  "follow_remote_window o' = Known NotSet \<Longrightarrow> update_follow_remote_window o' c = c"
  "disable_audio o' = Known NotSet \<Longrightarrow> update_audio o' c = c"
  "enable_file_transfer o' = Known NotSet \<Longrightarrow> update_file_transfer tg o' c = c"
  "disable_clipboard o' = Known NotSet \<Longrightarrow> update_clipboard o' c = c"
  "disable_keyboard o' = Known NotSet \<Longrightarrow> update_keyboard tg o' c = c"
  "privacy_mode o' = Known NotSet \<Longrightarrow> update_privacy o' c = c"
  "block_input o' = Known NotSet \<Longrightarrow> update_block_input o' c = c"
  "terminal_persistent o' = Known NotSet \<Longrightarrow> update_terminal tg o' c = c"
  "show_my_cursor o' = Known NotSet \<Longrightarrow> update_show_my_cursor tg o' c = c"
  "image_quality o' = Known IQ_NotSet \<Longrightarrow> custom_image_quality o' = 0 \<Longrightarrow> update_quality o' c = c"
  "custom_fps o' = 0 \<Longrightarrow> update_fps o' c = c" "supported_decoding o' = None \<Longrightarrow> update_codec o' c = c"
  by (simp_all add: update_lock_def update_show_remote_cursor_def update_follow_remote_cursor_def
      update_follow_remote_window_def update_audio_def update_file_transfer_def update_clipboard_def update_keyboard_def
      update_privacy_def update_block_input_def update_terminal_def update_show_my_cursor_def update_quality_def
      update_fps_def update_codec_def)

text \<open>The options a view-camera session may set, and those a terminal session may set.\<close>

definition camera_only :: "option_message \<Rightarrow> bool" where
  "camera_only o' \<longleftrightarrow> o' = option_new\<lparr>image_quality := image_quality o', custom_image_quality := custom_image_quality o',
     custom_fps := custom_fps o', supported_decoding := supported_decoding o', disable_audio := disable_audio o'\<rparr>"

definition terminal_only :: "option_message \<Rightarrow> bool" where
  "terminal_only o' \<longleftrightarrow> o' = option_new\<lparr>terminal_persistent := terminal_persistent o'\<rparr>"

lemma scoped_camera_only: "fst (scoped_view_camera_option o') = Some scoped \<Longrightarrow> camera_only scoped"
  by (auto simp: scoped_view_camera_option_def camera_only_def Let_def split: if_splits option.splits)

lemma scoped_terminal_only: "fst (scoped_terminal_login_option o') = Some scoped \<Longrightarrow> terminal_only scoped"
  by (auto simp: scoped_terminal_login_option_def terminal_only_def Let_def split: if_splits option.splits)

lemma update_options_camera:
  assumes "camera_only o'"
  shows "update_options tg o' c = update_audio o' (update_codec o' (update_fps o' (update_quality o' c)))"
proof -
  obtain iq ci cf sd da where o: "o' = option_new\<lparr>image_quality := iq, custom_image_quality := ci, custom_fps := cf,
      supported_decoding := sd, disable_audio := da\<rparr>"
    using assms unfolding camera_only_def by (rule that)
  show ?thesis unfolding o by (simp add: update_options_def update_unset)
qed

lemma update_options_terminal:
  assumes "terminal_only o'"
  shows "update_options tg o' c = update_terminal tg o' c"
proof -
  obtain tp where o: "o' = option_new\<lparr>terminal_persistent := tp\<rparr>" using assms unfolding terminal_only_def by (rule that)
  show ?thesis unfolding o by (simp add: update_options_def update_unset)
qed

text \<open>What a limited session may cause, and what of the connection it may not touch.\<close>

fun scope_allows :: "auth_conn_type \<Rightarrow> option_effect \<Rightarrow> bool" where
  "scope_allows ViewCamera e \<longleftrightarrow>
     (case e of UserImageQuality _ \<Rightarrow> True | UserCustomFps _ \<Rightarrow> True | EncoderUpdate _ \<Rightarrow> True
      | Subscribe s _ \<Rightarrow> s = AUDIO_SERVICE | _ \<Rightarrow> False)"
| "scope_allows Terminal e \<longleftrightarrow> (case e of SetTerminalPersistent _ \<Rightarrow> True | _ \<Rightarrow> False)"
| "scope_allows Remote e \<longleftrightarrow> True"
| "scope_allows FileTransfer e \<longleftrightarrow> False"
| "scope_allows PortForward e \<longleftrightarrow> False"

definition confined :: "auth_conn_type \<Rightarrow> conn_options \<Rightarrow> conn_options \<Rightarrow> bool" where
  "confined conn_type c c' \<longleftrightarrow>
     (\<exists>es audio persistent. list_all (scope_allows conn_type) es \<and>
        c' = c\<lparr>co_disable_audio := audio, co_terminal_persistent := persistent, co_effects := co_effects c @ es\<rparr> \<and>
        (conn_type \<noteq> ViewCamera \<longrightarrow> audio = co_disable_audio c) \<and>
        (conn_type \<noteq> Terminal \<longrightarrow> persistent = co_terminal_persistent c))"

lemma confined_refl: "confined conn_type c c"
  unfolding confined_def by (intro exI [of _ "[]"] exI [of _ "co_disable_audio c"] exI [of _ "co_terminal_persistent c"]) simp

lemma confined_trans: "confined t a b \<Longrightarrow> confined t b c \<Longrightarrow> confined t a c"
  unfolding confined_def
proof (elim exE conjE)
  fix es audio persistent es' audio' persistent'
  assume "list_all (scope_allows t) es" "list_all (scope_allows t) es'"
    "b = a\<lparr>co_disable_audio := audio, co_terminal_persistent := persistent, co_effects := co_effects a @ es\<rparr>"
    "c = b\<lparr>co_disable_audio := audio', co_terminal_persistent := persistent', co_effects := co_effects b @ es'\<rparr>"
    "t \<noteq> ViewCamera \<longrightarrow> audio = co_disable_audio a" "t \<noteq> Terminal \<longrightarrow> persistent = co_terminal_persistent a"
    "t \<noteq> ViewCamera \<longrightarrow> audio' = co_disable_audio b" "t \<noteq> Terminal \<longrightarrow> persistent' = co_terminal_persistent b"
  then show "\<exists>es audio persistent. list_all (scope_allows t) es \<and>
      c = a\<lparr>co_disable_audio := audio, co_terminal_persistent := persistent, co_effects := co_effects a @ es\<rparr> \<and>
      (t \<noteq> ViewCamera \<longrightarrow> audio = co_disable_audio a) \<and> (t \<noteq> Terminal \<longrightarrow> persistent = co_terminal_persistent a)"
    by (intro exI [of _ "es @ es'"] exI [of _ audio'] exI [of _ persistent']) simp
qed

lemma confined_emit: "list_all (scope_allows t) es \<Longrightarrow> confined t c (emit es c)"
  unfolding confined_def emit_def
  by (intro exI [of _ es] exI [of _ "co_disable_audio c"] exI [of _ "co_terminal_persistent c"]) simp

lemma confined_subscribe_audio: "confined ViewCamera c (subscribe AUDIO_SERVICE b c)"
  by (simp add: subscribe_def confined_refl confined_emit)

lemma confined_set_audio: "confined ViewCamera c (c\<lparr>co_disable_audio := b\<rparr>)"
  unfolding confined_def by (intro exI [of _ "[]"] exI [of _ b] exI [of _ "co_terminal_persistent c"]) simp

lemma confined_camera:
  assumes "camera_only o'"
  shows "confined ViewCamera c (update_options tg o' c)"
proof -
  have "confined ViewCamera c (update_quality o' c)" for c
    by (auto simp: update_quality_def Let_def confined_refl split: option.splits intro!: confined_emit)
  moreover have "confined ViewCamera c (update_fps o' c)" for c
    by (auto simp: update_fps_def confined_refl intro!: confined_emit)
  moreover have "confined ViewCamera c (update_codec o' c)" for c
    by (auto simp: update_codec_def confined_refl split: option.splits intro!: confined_emit)
  moreover have "confined ViewCamera c (update_audio o' c)" for c
    using confined_trans [OF confined_set_audio confined_subscribe_audio]
    by (auto simp: update_audio_def when_set_def Let_def confined_refl confined_set_audio split: option.splits)
  ultimately show ?thesis unfolding update_options_camera [OF assms] by (blast intro: confined_trans)
qed

lemma confined_terminal:
  assumes "terminal_only o'"
  shows "confined Terminal c (update_options tg o' c)"
proof -
  have "confined Terminal c (emit [SetTerminalPersistent b] (c\<lparr>co_terminal_persistent := b\<rparr>))" for b
    unfolding confined_def emit_def
    by (intro exI [of _ "[SetTerminalPersistent b]"] exI [of _ "co_disable_audio c"] exI [of _ b]) simp
  then show ?thesis unfolding update_options_terminal [OF assms]
    by (auto simp: update_terminal_def when_set_def confined_refl split: option.splits)
qed

text \<open>(C14) Options never widen a limited session: whatever option message a view-camera, terminal,
  file-transfer or port-forward session sends, at login or later, it changes no switch and causes no effect
  outside its kind (for view-camera the audio switch, quality, frame rate, codec and the audio service, for
  terminal the persistence of the terminal, nothing for the others).\<close>

theorem session_options_confined:
  assumes "co_authed c = Some conn_type" and "conn_type \<noteq> Remote"
  shows "confined conn_type c (on_option_message tg o' c) \<and>
    confined conn_type c (update_scoped_login_options tg (Some o') c)"
proof (cases conn_type)
  case Remote
  with assms show ?thesis by simp
next
  case ViewCamera
  then show ?thesis using assms
    by (auto simp: on_option_message_def update_scoped_login_options_def confined_refl split: option.splits
        intro!: confined_camera dest!: scoped_camera_only)
next
  case Terminal
  then show ?thesis using assms
    by (auto simp: on_option_message_def update_scoped_login_options_def confined_refl split: option.splits
        intro!: confined_terminal dest!: scoped_terminal_only)
qed (use assms in \<open>simp_all add: on_option_message_def update_scoped_login_options_def confined_refl\<close>)

definition sample_conn :: "auth_conn_type \<Rightarrow> conn_options" where
  "sample_conn t = \<lparr>co_authed = Some t, co_server_alive = True, co_version = ''1.4.0'', co_keyboard = True,
     co_clipboard = True, co_audio = True, co_file = True, co_block_input = True, co_voice_calling = False,
     co_one_way_clipboard = False, co_one_way_file = False, co_lower_win10 = False, co_whiteboard_supported = True,
     co_lock_after_session_end = False, co_show_remote_cursor = False, co_follow_remote_cursor = False,
     co_follow_remote_window = False, co_disable_audio = False, co_enable_file_transfer = False,
     co_disable_clipboard = False, co_disable_keyboard = False, co_terminal_persistent = False,
     co_show_my_cursor = False, co_effects = []\<rparr>"

theorem session_options_confined_witness:
  "confined Terminal (sample_conn Terminal)
    (on_option_message \<lparr>tg_windows = False, tg_mobile = False, tg_linux = False, tg_unix_file_copy_paste = True\<rparr>
      (option_new\<lparr>terminal_persistent := Known Yes, block_input := Known Yes\<rparr>) (sample_conn Terminal))"
  using session_options_confined [of "sample_conn Terminal" Terminal] by (simp add: sample_conn_def)

definition camera_clean :: "option_message \<Rightarrow> bool" where
  "camera_clean o' \<longleftrightarrow> camera_only o' \<and> enum_value (image_quality o') \<noteq> None \<and> custom_image_quality o' \<ge> 0 \<and>
     custom_fps o' \<ge> 0 \<and> enum_value (disable_audio o') \<noteq> None"

lemma scoped_camera_clean:
  assumes "scoped_view_camera_option o' = (Some scoped, v)"
  shows "camera_clean scoped \<and> option_has_any_field scoped"
proof -
  have "fst (scoped_view_camera_option o') = Some scoped" using assms by simp
  then have "camera_only scoped" by (rule scoped_camera_only)
  moreover have "option_has_any_field scoped" using assms by (simp add: scoped_view_camera_option_def Let_def split: if_splits)
  moreover have "enum_value (image_quality scoped) \<noteq> None" "custom_image_quality scoped \<ge> 0" "custom_fps scoped \<ge> 0"
    "enum_value (disable_audio scoped) \<noteq> None"
    using assms by (auto simp: scoped_view_camera_option_def Let_def split: if_splits option.splits)
  ultimately show ?thesis by (simp add: camera_clean_def)
qed

lemma scoped_camera_fixed:
  assumes "camera_clean o'" "option_has_any_field o'"
  shows "scoped_view_camera_option o' = (Some o', None)"
proof -
  obtain iq ci cf sd da where o: "o' = option_new\<lparr>image_quality := iq, custom_image_quality := ci, custom_fps := cf,
      supported_decoding := sd, disable_audio := da\<rparr>"
    using assms(1) unfolding camera_clean_def camera_only_def by (elim conjE) (rule that)
  obtain a q where aq: "da = Known a" "iq = Known q" "0 \<le> ci" "0 \<le> cf"
    using assms(1) by (auto simp: camera_clean_def o enum_value_Some)
  show ?thesis using assms(2) unfolding o aq(1,2)
    by (simp add: scoped_view_camera_option_def aq option_has_non_view_camera_login_field_def is_bool_option_not_set_def)
qed

text \<open>Scoping is a projection that loses nothing in scope: what it lets through passes again
  unchanged and without a violation, and a terminal option message that is not reported as a violation is
  applied as it is (or sets nothing at all).\<close>

theorem scoping_is_projection:
  "(\<forall>scoped v. scoped_login_option conn_type o' = (Some scoped, v) \<longrightarrow> scoped_login_option conn_type scoped = (Some scoped, None)) \<and>
   (is_terminal_scoped_option o' \<longrightarrow> scoped_update_option_message (Some Terminal) o' = (if option_has_any_field o' then Some o' else None))"
proof (intro conjI allI impI)
  fix scoped v
  assume s: "scoped_login_option conn_type o' = (Some scoped, v)"
  show "scoped_login_option conn_type scoped = (Some scoped, None)"
  proof (cases conn_type)
    case ViewCamera
    then have "scoped_view_camera_option o' = (Some scoped, v)" using s by simp
    then have "scoped_view_camera_option scoped = (Some scoped, None)"
      by (intro scoped_camera_fixed) (simp_all add: scoped_camera_clean)
    then show ?thesis using ViewCamera by simp
  next
    case Terminal
    then have "scoped_terminal_login_option o' = (Some scoped, v)" using s by simp
    then have "scoped_terminal_login_option scoped = (Some scoped, None)"
      by (auto simp: scoped_terminal_login_option_def Let_def option_has_any_field_def option_has_non_terminal_login_field_def
          is_bool_option_not_set_def split: if_splits option.splits)
    then show ?thesis using Terminal by simp
  qed (use s in auto)
next
  assume t: "is_terminal_scoped_option o'"
  then obtain v where v: "terminal_persistent o' = Known v" and n: "\<not> option_has_non_terminal_login_field o'"
    by (auto simp: is_terminal_scoped_option_def scoped_terminal_login_option_def Let_def enum_value_Some
        split: option.splits if_splits)
  then have "o' = option_new\<lparr>terminal_persistent := Known v\<rparr>"
    by (cases o') (auto simp: option_has_non_terminal_login_field_def is_bool_option_not_set_def enum_value_Some option_new_def)
  then show "scoped_update_option_message (Some Terminal) o' = (if option_has_any_field o' then Some o' else None)"
    using v by (simp add: scoped_terminal_login_option_def Let_def)
qed

theorem scoping_is_projection_witness:
  "scoped_login_option Terminal (option_new\<lparr>terminal_persistent := Known Yes\<rparr>)
     = (Some (option_new\<lparr>terminal_persistent := Known Yes\<rparr>), None)"
proof -
  have "scoped_login_option Terminal (option_new\<lparr>terminal_persistent := Known Yes, block_input := Known Yes\<rparr>)
      = (Some (option_new\<lparr>terminal_persistent := Known Yes\<rparr>), Some ''login.option'')"
    by (simp add: scoped_terminal_login_option_def option_has_any_field_def option_has_non_terminal_login_field_def
        is_bool_option_not_set_def Let_def)
  then show ?thesis using scoping_is_projection by blast
qed

end
