(* ===== verification/Login.thy ===== *)
theory Login
  imports LoginGuard Passwords SessionOptions Options
begin

text \<open>
  Authorization of a connection, \<^verbatim>\<open>src/server/connection.rs\<close>: the login request with its checks in order,
  the second factor, the change of sides, the terminal login, and the step that authorizes
  (\<open>on_message\<close> up to the handlers of an authorized connection, \<open>send_logon_response_and_keep_alive\<close> up to
  the registration of the connection, \<open>prepare_terminal_login_for_authorization\<close>, \<open>is_recent_session\<close>, the
  session table of \<open>raii\<close>). The host's settings and the answers of the operating system at the time of a
  message are the record \<open>host\<close>; what several connections share is the record \<open>world\<close>. A step returns
  whether the connection is kept.
\<close>

section \<open>State\<close>

record session_key =
  sk_peer_id :: string
  sk_name :: string
  sk_session_id :: nat

record session =
  ss_last_recv :: int
  ss_random_password :: bytes
  ss_tfa :: bool

record trusted_device =
  td_hwid :: bytes
  td_time :: int
  td_id :: string
  td_name :: string
  td_platform :: string

datatype terminal_user_token = SelfUser | CurrentLogonUser nat

datatype audit_primary_auth = AuditNone | AuditClick | AuditTemporaryPassword | AuditPermanentPassword | AuditSwitchSides

datatype audit_two_factor = TwoFactorNone | TwoFactorTotp | TwoFactorTrustedDevice

datatype conn_event = EvLoginError string | EvAlarm alarm_audit_type | EvStartCm bool | EvAuthorized auth_conn_type
  | EvCloseReason string | EvClosed string | EvDispatch "message option"

text \<open>A pending second factor is the check of its codes at this moment (\<open>totp_rs\<close>): \<open>None\<close> is an error.\<close>

record conn =
  cn_id :: int
  cn_ip :: string
  cn_hash :: login_hash
  cn_lr :: login_request
  cn_authorized :: bool
  cn_authed_type :: "auth_conn_type option"
  cn_require_2fa :: "(string \<Rightarrow> bool option) option"
  cn_from_switch :: bool
  cn_file_transfer :: "(string \<times> bool) option"
  cn_view_camera :: bool
  cn_terminal :: bool
  cn_terminal_persistent :: bool
  cn_terminal_service_id :: string
  cn_terminal_user_token :: "terminal_user_token option"
  cn_port_forward_address :: string
  cn_port_forward_socket :: bool
  cn_options_in_login :: "option_message option"
  cn_cm_started :: bool
  cn_scope_violations :: "string set"
  cn_primary_auth :: audit_primary_auth
  cn_two_factor :: audit_two_factor
  cn_events :: "conn_event list"

record world =
  wd_guard :: guard
  wd_temp :: temp_state
  wd_sessions :: "session_key \<rightharpoonup> session"
  wd_authed :: "(int \<times> auth_conn_type \<times> session_key) list"
  wd_switch_uuids :: "string \<rightharpoonup> int \<times> bytes"
  wd_trusted :: "trusted_device list"

record host =
  h_crypto :: crypto
  h_machine :: machine
  h_hard :: hard_settings
  h_config :: config
  h_options :: host_options
  h_id :: string
  h_direct_ip :: "string \<Rightarrow> bool"
  h_now :: int
  h_windows :: bool
  h_linux :: bool
  h_mobile :: bool
  h_installed :: bool
  h_prelogin :: bool
  h_is_logon :: bool
  h_logon_screen_password :: bool
  h_in_privacy_mode :: bool
  h_connect :: "string \<Rightarrow> bool"
  h_gate_free :: bool
  h_logon_user_admin :: "string \<Rightarrow> string \<Rightarrow> bool option"
  h_session_token :: "string + nat"
  h_service_specified_user :: "string \<Rightarrow> bool option"
  h_headless_allowed :: bool
  h_headless_username :: string
  h_start_desktop :: "string \<Rightarrow> string \<Rightarrow> string"
  h_fresh_password :: bytes
  h_scope_violation_alarm :: bool
  h_scope_violation_close :: bool

type_synonym state = "conn \<times> world"

definition event :: "conn_event \<Rightarrow> state \<Rightarrow> state" where
  "event e = (\<lambda>(c, w). (c\<lparr>cn_events := cn_events c @ [e]\<rparr>, w))"

definition send_login_error :: "string \<Rightarrow> state \<Rightarrow> state" where
  "send_login_error err = event (EvLoginError err)"

definition try_start_cm :: "state \<Rightarrow> bool \<Rightarrow> state" where
  "try_start_cm st authorized = event (EvStartCm authorized) st"

definition try_start_cm_ipc :: "state \<Rightarrow> state" where
  "try_start_cm_ipc = (\<lambda>(c, w). (c\<lparr>cn_cm_started := True\<rparr>, w))"

definition session_key_of :: "conn \<Rightarrow> session_key" where
  "session_key_of c = \<lparr>sk_peer_id = lr_my_id (cn_lr c), sk_name = lr_my_name (cn_lr c), sk_session_id = lr_session_id (cn_lr c)\<rparr>"

section \<open>Failures\<close>

definition effect_event :: "effect \<Rightarrow> conn_event" where
  "effect_event e = (case e of LoginError m \<Rightarrow> EvLoginError m | Alarm a \<Rightarrow> EvAlarm a)"

definition conn_check_failure :: "host \<Rightarrow> nat \<Rightarrow> failure_scope \<Rightarrow> state \<Rightarrow> ((entry \<times> int) \<times> bool) \<times> state" where
  "conn_check_failure h i scope = (\<lambda>(c, w).
     (let ((r, effs), g) = check_failure_with_scope (cn_ip c) (h_now h) i scope (wd_guard w)
      in (r, (c\<lparr>cn_events := cn_events c @ map effect_event effs\<rparr>, w\<lparr>wd_guard := g\<rparr>))))"

definition conn_update_failure :: "host \<Rightarrow> entry \<times> int \<Rightarrow> bool \<Rightarrow> nat \<Rightarrow> failure_scope \<Rightarrow> state \<Rightarrow> state" where
  "conn_update_failure h failure remove i scope = (\<lambda>(c, w).
     (c, w\<lparr>wd_guard := update_failure_with_scope (cn_ip c) (h_now h) failure remove i scope (wd_guard w)\<rparr>))"

section \<open>Sessions\<close>

definition update_or_insert_session :: "host \<Rightarrow> session_key \<Rightarrow> bytes option \<Rightarrow> bool option \<Rightarrow> world \<Rightarrow> world" where
  "update_or_insert_session h key password tfa w =
     w\<lparr>wd_sessions := (wd_sessions w)(key \<mapsto>
        (case wd_sessions w key of
           Some s \<Rightarrow> s\<lparr>ss_random_password := (case password of Some p \<Rightarrow> p | None \<Rightarrow> ss_random_password s),
                       ss_tfa := (case tfa of Some b \<Rightarrow> b | None \<Rightarrow> ss_tfa s)\<rparr>
         | None \<Rightarrow> \<lparr>ss_last_recv = h_now h, ss_random_password = (case password of Some p \<Rightarrow> p | None \<Rightarrow> []),
                    ss_tfa = (case tfa of Some b \<Rightarrow> b | None \<Rightarrow> False)\<rparr>))\<rparr>"

definition set_session_2fa :: "host \<Rightarrow> session_key \<Rightarrow> world \<Rightarrow> world" where
  "set_session_2fa h key w =
     w\<lparr>wd_sessions := (wd_sessions w)(key \<mapsto>
        (case wd_sessions w key of
           Some s \<Rightarrow> s\<lparr>ss_tfa := True\<rparr>
         | None \<Rightarrow> \<lparr>ss_last_recv = h_now h, ss_random_password = [], ss_tfa = True\<rparr>))\<rparr>"

definition check_remove_session :: "int \<Rightarrow> session_key \<Rightarrow> world \<Rightarrow> world" where
  "check_remove_session conn_id key w =
     (if wd_sessions w key \<noteq> None then
        (let is_remote = (\<exists>(i, t, k) \<in> set (wd_authed w). i = conn_id \<and> t = Remote);
             another_remote = (\<exists>(i, t, k) \<in> set (wd_authed w). i \<noteq> conn_id \<and> k = key \<and> t = Remote)
         in if is_remote \<or> \<not> another_remote then w\<lparr>wd_sessions := (wd_sessions w)(key := None)\<rparr> else w)
      else w)"

definition retain_recent :: "host \<Rightarrow> world \<Rightarrow> world" where
  "retain_recent h w = w\<lparr>wd_sessions := (\<lambda>k. case wd_sessions w k of
     Some s \<Rightarrow> if h_now h - ss_last_recv s < 30000 then Some s else None | None \<Rightarrow> None)\<rparr>"

text \<open>Whether the table, once the stale sessions are gone, lets this login pass.\<close>

definition recent_session :: "host \<Rightarrow> bool \<Rightarrow> conn \<Rightarrow> world \<Rightarrow> bool" where
  "recent_session h tfa c w =
     (case wd_sessions (retain_recent h w) (session_key_of c) of
        Some s \<Rightarrow> lr_password (cn_lr c) \<noteq> [] \<and>
          (tfa \<and> ss_tfa s \<or> \<not> tfa \<and> validate_password_plain (h_crypto h) (cn_hash c) (lr_password (cn_lr c)) (ss_random_password s))
      | None \<Rightarrow> False)"

definition is_recent_session :: "host \<Rightarrow> bool \<Rightarrow> state \<Rightarrow> bool \<times> state" where
  "is_recent_session h tfa = (\<lambda>(c, w).
     (if recent_session h tfa c w then
        (True, ((if tfa then c\<lparr>cn_two_factor := TwoFactorTotp\<rparr> else c\<lparr>cn_primary_auth := AuditTemporaryPassword\<rparr>), retain_recent h w))
      else (False, (c, retain_recent h w))))"

section \<open>Terminal logins\<close>

definition should_use_terminal_os_login_scope :: "host \<Rightarrow> bool \<Rightarrow> string \<Rightarrow> bool" where
  "should_use_terminal_os_login_scope h is_terminal username \<longleftrightarrow> h_windows h \<and> is_terminal \<and> trim username \<noteq> []"

definition handle_administrator_check :: "host \<Rightarrow> string \<Rightarrow> string \<Rightarrow> conn \<Rightarrow> string option \<times> conn" where
  "handle_administrator_check h username password c =
     (case h_logon_user_admin h username password of
        Some True \<Rightarrow> (None, c\<lparr>cn_terminal_user_token := Some SelfUser\<rparr>)
      | _ \<Rightarrow> (Some ''Incorrect username or password.'', c))"

definition handle_installed_user :: "host \<Rightarrow> conn \<Rightarrow> string option \<times> conn" where
  "handle_installed_user h c =
     (case h_session_token h of
        Inr token \<Rightarrow> (None, c\<lparr>cn_terminal_user_token := Some (CurrentLogonUser token)\<rparr>)
      | Inl err \<Rightarrow> (Some err, c))"

definition fill_terminal_user_token :: "host \<Rightarrow> string \<Rightarrow> string \<Rightarrow> conn \<Rightarrow> string option \<times> conn" where
  "fill_terminal_user_token h username password c =
     (if h_windows h then
        (if username \<noteq> [] then handle_administrator_check h username password c
         else if h_prelogin h then
           (Some ''No active console user logged on, please connect and logon first.'', c\<lparr>cn_terminal_user_token := None\<rparr>)
         else if h_installed h then handle_installed_user h c
         else (None, c\<lparr>cn_terminal_user_token := Some SelfUser\<rparr>))
      else (None, c\<lparr>cn_terminal_user_token := Some SelfUser\<rparr>))"

fun to_terminal_service_token :: "terminal_user_token \<Rightarrow> nat option" where
  "to_terminal_service_token SelfUser = None"
| "to_terminal_service_token (CurrentLogonUser t) = Some t"

definition service_user_mismatch :: "host \<Rightarrow> conn \<Rightarrow> bool" where
  "service_user_mismatch h c =
     (case (h_service_specified_user h (cn_terminal_service_id c), cn_terminal_user_token c) of
        (Some is_user, Some token) \<Rightarrow> is_user \<noteq> (to_terminal_service_token token \<noteq> None)
      | _ \<Rightarrow> False)"

text \<open>The second half, once the attempt is admitted: fill the token, settle the failure, compare users.\<close>

definition terminal_authorization :: "host \<Rightarrow> (entry \<times> int) option \<Rightarrow> string \<Rightarrow> state \<Rightarrow> bool option \<times> state" where
  "terminal_authorization h os_failure username = (\<lambda>(c, w).
     (let (err, c) = fill_terminal_user_token h username (os_password (lr_os_login (cn_lr c))) c in
      case err of
        Some msg \<Rightarrow>
          (let st = (case os_failure of Some f \<Rightarrow> conn_update_failure h f False 0 TerminalOsLogin (c, w) | None \<Rightarrow> (c, w))
           in (Some False, send_login_error msg st))
      | None \<Rightarrow>
          (let st = (case os_failure of Some f \<Rightarrow> conn_update_failure h f True 0 TerminalOsLogin (c, w) | None \<Rightarrow> (c, w)) in
           if service_user_mismatch h c then
             (Some False, send_login_error ''Terminal service user mismatch detected.'' st)
           else (None, if os_failure \<noteq> None then try_start_cm_ipc st else st))))"

definition prepare_terminal_login_for_authorization :: "host \<Rightarrow> state \<Rightarrow> bool option \<times> state" where
  "prepare_terminal_login_for_authorization h st =
     (let c = fst st in
      if h_mobile h \<or> \<not> cn_terminal c \<or> cn_terminal_user_token c \<noteq> None then (None, st)
      else
        (let username = trim (os_username (lr_os_login (cn_lr c))) in
         if should_use_terminal_os_login_scope h (cn_terminal c) username then
           (let ((failure, res), st) = conn_check_failure h 0 TerminalOsLogin st in
            if \<not> res then (Some False, st)
            else if \<not> h_gate_free h then
              (Some False, event (EvAlarm TerminalOsLoginConcurrency) (send_login_error ''Please try 1 minute later'' st))
            else terminal_authorization h (Some failure) username st)
         else terminal_authorization h None username st))"

section \<open>Authorizing\<close>

definition int_to_str :: "int \<Rightarrow> string" where
  "int_to_str i = (if i < 0 then CHR ''-'' # nat_to_str (nat (- i)) else nat_to_str (nat i))"

definition normalize_port_forward_target :: "string \<Rightarrow> int \<Rightarrow> string \<times> bool" where
  "normalize_port_forward_target host_name port =
     (let is_rdp = (host_name = ''RDP'' \<and> port = 0);
          (host_name, port) = (if is_rdp then (''localhost'', 3389) else (host_name, port));
          host_name = (if host_name = [] then ''localhost'' else host_name)
      in (host_name @ '':'' @ int_to_str port, is_rdp))"

definition connect_port_forward_if_needed :: "host \<Rightarrow> state \<Rightarrow> bool \<times> state" where
  "connect_port_forward_if_needed h = (\<lambda>(c, w).
     if cn_port_forward_socket c then (True, (c, w))
     else case lr_union (cn_lr c) of
         Some (PortForwardLogin host_name port) \<Rightarrow>
           (let (addr, is_rdp) = normalize_port_forward_target host_name port;
                c = c\<lparr>cn_port_forward_address := addr\<rparr>
            in if h_connect h addr then (True, (c\<lparr>cn_port_forward_socket := True\<rparr>, w))
               else (False, send_login_error (''Failed to access remote '' @ (if is_rdp then ''RDP'' else addr) @
                 ''. Please make sure it is reachable/open.'') (c, w)))
       | _ \<Rightarrow> (True, (c, w)))"

definition conn_kind :: "conn \<Rightarrow> auth_conn_type" where
  "conn_kind c =
     (if cn_file_transfer c \<noteq> None then FileTransfer
      else if cn_port_forward_socket c then PortForward
      else if cn_view_camera c then ViewCamera
      else if cn_terminal c then Terminal
      else Remote)"

definition normalize_conn_audit_auth_fields :: "conn \<Rightarrow> conn" where
  "normalize_conn_audit_auth_fields c =
     (if cn_primary_auth c = AuditClick \<or> cn_primary_auth c = AuditSwitchSides then c\<lparr>cn_two_factor := TwoFactorNone\<rparr> else c)"

definition authorize :: "state \<Rightarrow> state" where
  "authorize = (\<lambda>(c, w).
     (let kind = conn_kind c;
          c = normalize_conn_audit_auth_fields (c\<lparr>cn_authorized := True, cn_authed_type := Some kind\<rparr>)
      in event (EvAuthorized kind) (c, w\<lparr>wd_authed := wd_authed w @ [(cn_id c, kind, session_key_of c)]\<rparr>)))"

definition send_logon_response_and_keep_alive :: "host \<Rightarrow> state \<Rightarrow> bool \<times> state" where
  "send_logon_response_and_keep_alive h st =
     (if cn_authorized (fst st) then (True, st)
      else
        (let (blocked, st) =
           (if cn_require_2fa (fst st) \<noteq> None then
              (let (recent, st) = is_recent_session h True st in (\<not> recent \<and> \<not> cn_from_switch (fst st), st))
            else (False, st))
         in if blocked then (True, send_login_error ''2FA Required'' st)
            else
              (case prepare_terminal_login_for_authorization h st of
                 (Some keep_alive, st) \<Rightarrow> (keep_alive, st)
               | (None, st) \<Rightarrow>
                   (let (ok, st) = connect_port_forward_if_needed h st in
                    if \<not> ok then (False, st) else (True, authorize st)))))"

section \<open>Login requests\<close>

definition outdate :: "host \<Rightarrow> trusted_device \<Rightarrow> bool" where
  "outdate h d \<longleftrightarrow> td_time d + 90 * 24 * 60 * 60 * 1000 < h_now h"

definition enable_trusted_devices :: "host \<Rightarrow> bool" where
  "enable_trusted_devices h = option2bool ''enable-trusted-devices'' (ho_get (h_options h) ''enable-trusted-devices'')"

text \<open>The first device with the peer's hardware id, if it is still good for this peer.\<close>

definition trusted_device_of :: "host \<Rightarrow> world \<Rightarrow> login_request \<Rightarrow> bool" where
  "trusted_device_of h w lr =
     (lr_hwid lr \<noteq> [] \<and> enable_trusted_devices h \<and>
      (case find (\<lambda>d. td_hwid d = lr_hwid lr) (wd_trusted w) of
         Some d \<Rightarrow> \<not> outdate h d \<and> td_id d = lr_my_id lr \<and> td_name d = lr_my_name lr \<and> td_platform d = lr_my_platform lr
       | None \<Rightarrow> False))"

definition handle_login_request_without_validation :: "host \<Rightarrow> login_request \<Rightarrow> state \<Rightarrow> state" where
  "handle_login_request_without_validation h lr = (\<lambda>(c, w).
     (let c = c\<lparr>cn_lr := lr\<rparr>;
          c = (case lr_option lr of Some o' \<Rightarrow> c\<lparr>cn_options_in_login := Some o'\<rparr> | None \<Rightarrow> c)
      in if cn_require_2fa c \<noteq> None \<and> trusted_device_of h w lr
         then (c\<lparr>cn_two_factor := TwoFactorTrustedDevice, cn_require_2fa := None\<rparr>, w)
         else (c, w)))"

definition reset_session_scope_for_login :: "conn \<Rightarrow> conn" where
  "reset_session_scope_for_login c = c\<lparr>cn_file_transfer := None, cn_view_camera := False, cn_terminal := False,
     cn_port_forward_address := [], cn_terminal_persistent := False\<rparr>"

text \<open>The kind of session the peer asks for: its flag, or the message it is refused with.\<close>

definition login_scope :: "host \<Rightarrow> login_request \<Rightarrow> conn \<Rightarrow> string option \<times> conn" where
  "login_scope h lr c =
     (case lr_union lr of
        Some (FileTransferLogin dir show_hidden) \<Rightarrow>
          if \<not> permission (h_options h) ''enable-file-transfer'' then (Some ''No permission of file transfer'', c)
          else (None, c\<lparr>cn_file_transfer := Some (dir, show_hidden)\<rparr>)
      | Some ViewCameraLogin \<Rightarrow>
          if \<not> permission (h_options h) ''enable-camera'' then (Some ''No permission of viewing camera'', c)
          else (None, c\<lparr>cn_view_camera := True\<rparr>)
      | Some (TerminalLogin service_id) \<Rightarrow>
          if \<not> permission (h_options h) ''enable-terminal'' then (Some ''No permission of terminal'', c)
          else if h_windows h \<and> os_username (lr_os_login lr) \<noteq> [] \<and> \<not> h_installed h
            then (Some ''Supported only in the installed version.'', c)
          else (None, c\<lparr>cn_terminal := True,
                 cn_terminal_persistent := (case cn_options_in_login c of
                     Some o' \<Rightarrow> enum_value (terminal_persistent o') = Some Yes | None \<Rightarrow> cn_terminal_persistent c),
                 cn_terminal_service_id := service_id\<rparr>)
      | Some (PortForwardLogin host_name port) \<Rightarrow>
          if \<not> permission (h_options h) ''enable-tunnel'' then (Some ''No permission of IP tunneling'', c)
          else (None, c\<lparr>cn_port_forward_address := fst (normalize_port_forward_target host_name port)\<rparr>)
      | None \<Rightarrow> if h_in_privacy_mode h then (Some ''Someone turns on privacy mode, exit'', c) else (None, c))"

definition LOGIN_MSG_DESKTOP_SESSION_NOT_READY :: string where
  "LOGIN_MSG_DESKTOP_SESSION_NOT_READY = ''Desktop session not ready''"

definition LOGIN_MSG_PASSWORD_WRONG :: string where
  "LOGIN_MSG_PASSWORD_WRONG = ''Wrong Password''"

definition should_check_headless_before_desktop_start :: "host \<Rightarrow> string \<Rightarrow> bool" where
  "should_check_headless_before_desktop_start h username \<longleftrightarrow>
     h_headless_allowed h \<and> trim username \<noteq> [] \<and> h_headless_username h = []"

definition should_record_headless_failure :: "host \<Rightarrow> string \<Rightarrow> string \<Rightarrow> bool" where
  "should_record_headless_failure h username err_msg \<longleftrightarrow>
     h_headless_allowed h \<and> trim username \<noteq> [] \<and> err_msg = LOGIN_MSG_PASSWORD_WRONG"

definition try_start_desktop :: "host \<Rightarrow> login_request \<Rightarrow> string" where
  "try_start_desktop h lr =
     (if h_linux h \<and> h_headless_allowed h
      then h_start_desktop h (os_username (lr_os_login lr)) (os_password (lr_os_login lr)) else [])"

definition verification_option :: "host \<Rightarrow> string" where
  "verification_option h = ho_get (h_options h) ''verification-method''"

definition allow_logon_screen_password :: "host \<Rightarrow> bool" where
  "allow_logon_screen_password h \<longleftrightarrow> h_logon_screen_password h \<and> h_is_logon h"

text \<open>No password is asked for: the user at the host has to click.\<close>

definition click_only :: "host \<Rightarrow> world \<Rightarrow> bool" where
  "click_only h w \<longleftrightarrow>
     (let mode = approve_mode_of (ho_get (h_options h) ''approve-mode'') in
      mode = ApproveClick \<and> \<not> allow_logon_screen_password h \<or>
      mode = ApproveBoth \<and>
        \<not> has_valid_password (h_crypto h) (h_machine h) (h_hard h) (h_config h) (verification_option h) (wd_temp w))"

definition accepted_password :: "host \<Rightarrow> conn \<Rightarrow> world \<Rightarrow> primary_auth option \<times> temp_state" where
  "accepted_password h c w =
     validate_password (h_crypto h) (h_machine h) (h_hard h) (h_config h) (verification_option h) (cn_hash c)
       (lr_password (cn_lr c)) (allow_logon_screen_password h) (wd_temp w)"

definition conn_validate_password :: "host \<Rightarrow> state \<Rightarrow> bool \<times> state" where
  "conn_validate_password h = (\<lambda>(c, w).
     (let (auth, tp) = accepted_password h c w in
      case auth of
        Some TemporaryPassword \<Rightarrow>
          (True, (c\<lparr>cn_primary_auth := AuditTemporaryPassword\<rparr>,
             (update_or_insert_session h (session_key_of c) (Some (tp_password (wd_temp w))) (Some False) w)\<lparr>wd_temp := tp\<rparr>))
      | Some PermanentPassword \<Rightarrow> (True, (c\<lparr>cn_primary_auth := AuditPermanentPassword\<rparr>, w\<lparr>wd_temp := tp\<rparr>))
      | None \<Rightarrow> (False, (c, w\<lparr>wd_temp := tp\<rparr>))))"

text \<open>What follows a password (or a recent session) that was accepted.\<close>

definition login_accepted :: "host \<Rightarrow> string \<Rightarrow> state \<Rightarrow> bool \<times> state" where
  "login_accepted h err_msg st =
     (if err_msg = [] then
        (let (keep, st) = send_logon_response_and_keep_alive h st in
         if \<not> keep then (False, st) else (True, try_start_cm st (cn_authorized (fst st))))
      else (True, send_login_error err_msg st))"

definition login_terminal_then_cm :: "host \<Rightarrow> login_request \<Rightarrow> (state \<Rightarrow> state) \<Rightarrow> state \<Rightarrow> bool \<times> state" where
  "login_terminal_then_cm h lr k st =
     (if \<not> h_mobile h \<and> should_use_terminal_os_login_scope h (cn_terminal (fst st)) (os_username (lr_os_login lr)) then
        (case prepare_terminal_login_for_authorization h st of
           (Some keep_alive, st) \<Rightarrow> (keep_alive, st)
         | (None, st) \<Rightarrow> (True, k (try_start_cm st False)))
      else (True, k (try_start_cm st False)))"

definition login_with_password :: "host \<Rightarrow> login_request \<Rightarrow> string \<Rightarrow> state \<Rightarrow> bool \<times> state" where
  "login_with_password h lr err_msg st =
     (let ((failure, res), st) = conn_check_failure h 0 Default st in
      if \<not> res then (True, st)
      else
        (let (ok, st) = conn_validate_password h st in
         if \<not> ok then
           (let st = conn_update_failure h failure False 0 Default st;
                st = (fst st, (snd st)\<lparr>wd_temp :=
                  check_update_temporary_password (verification_option h) False (h_fresh_password h) (wd_temp (snd st))\<rparr>)
            in if err_msg = [] then (True, try_start_cm (send_login_error LOGIN_MSG_PASSWORD_WRONG st) False)
               else (True, send_login_error ''Desktop session not ready, password wrong'' st))
         else login_accepted h err_msg (conn_update_failure h failure True 0 Default st)))"

definition login_decision :: "host \<Rightarrow> login_request \<Rightarrow> string \<Rightarrow> state \<Rightarrow> bool \<times> state" where
  "login_decision h lr err_msg st =
     (if click_only h (snd st) then
        login_terminal_then_cm h lr
          (\<lambda>st. if get_version_number (lr_version lr) \<ge> get_version_number ''1.2.0''
                then send_login_error ''No Password Access'' st else st) st
      else
        (let (recent, st) = is_recent_session h False st in
         if recent then login_accepted h err_msg st
         else if lr_password lr = [] then
           (if err_msg = [] then login_terminal_then_cm h lr (\<lambda>st. st) st
            else (True, send_login_error ''Desktop session not ready, password empty'' st))
         else login_with_password h lr err_msg st))"

definition login_desktop :: "host \<Rightarrow> login_request \<Rightarrow> state \<Rightarrow> bool \<times> state" where
  "login_desktop h lr st =
     (let username = os_username (lr_os_login lr);
          (go, st) = (if h_linux h \<and> should_check_headless_before_desktop_start h username
                      then (let ((_, res), st) = conn_check_failure h 0 Default st in (res, st)) else (True, st))
      in if \<not> go then (True, st)
         else
           (let err_msg = try_start_desktop h lr in
            if err_msg \<noteq> [] \<and> err_msg \<noteq> LOGIN_MSG_DESKTOP_SESSION_NOT_READY then
              (if h_linux h \<and> should_record_headless_failure h username err_msg then
                 (let ((failure, res), st) = conn_check_failure h 0 Default st in
                  if \<not> res then (True, st)
                  else (True, send_login_error err_msg (conn_update_failure h failure False 0 Default st)))
               else (True, send_login_error err_msg st))
            else login_decision h lr err_msg st))"

definition on_login_request :: "host \<Rightarrow> login_request \<Rightarrow> state \<Rightarrow> bool \<times> state" where
  "on_login_request h lr st =
     (let st = handle_login_request_without_validation h lr st in
      if cn_authorized (fst st) then (True, st)
      else
        (let (err, c) = login_scope h lr (reset_session_scope_for_login (fst st)); st = (c, snd st) in
         case err of
           Some msg \<Rightarrow> (False, send_login_error msg st)
         | None \<Rightarrow>
             if \<not> h_direct_ip h (lr_username lr) \<and> lr_username lr \<noteq> h_id h then (False, send_login_error ''Offline'' st)
             else if h_windows h \<and> cn_terminal c \<and> trim (os_username (lr_os_login lr)) = [] \<and> h_prelogin h then
               (False, send_login_error ''No active console user logged on, please connect and logon first.'' st)
             else
               (let st = (if \<not> h_mobile h \<and> \<not> should_use_terminal_os_login_scope h (cn_terminal c) (os_username (lr_os_login lr))
                          then try_start_cm_ipc st else st)
                in login_desktop h lr st)))"

section \<open>The second factor and the change of sides\<close>

definition add_trusted_device :: "trusted_device \<Rightarrow> trusted_device list \<Rightarrow> trusted_device list" where
  "add_trusted_device d ds = filter (\<lambda>x. td_hwid x \<noteq> td_hwid d) ds @ [d]"

definition on_auth_2fa :: "host \<Rightarrow> string \<Rightarrow> bytes \<Rightarrow> state \<Rightarrow> bool \<times> state" where
  "on_auth_2fa h code hwid st =
     (let ((failure, res), st) = conn_check_failure h 1 Default st in
      if \<not> res then (True, st)
      else case cn_require_2fa (fst st) of
          None \<Rightarrow> (True, st)
        | Some totp \<Rightarrow> (case totp code of
              None \<Rightarrow> (True, st)
            | Some False \<Rightarrow> (True, send_login_error ''Wrong 2FA Code'' (conn_update_failure h failure False 1 Default st))
            | Some True \<Rightarrow>
                (let (c, w) = conn_update_failure h failure True 1 Default st;
                     c = c\<lparr>cn_require_2fa := None, cn_two_factor := TwoFactorTotp\<rparr>;
                     w = set_session_2fa h (session_key_of c) w;
                     (keep, st) = send_logon_response_and_keep_alive h (c, w)
                 in if \<not> keep then (False, st)
                    else
                      (let (c, w) = try_start_cm st (cn_authorized (fst st)) in
                       (True, (c, if hwid \<noteq> [] \<and> enable_trusted_devices h
                          then w\<lparr>wd_trusted := add_trusted_device \<lparr>td_hwid = hwid, td_time = h_now h, td_id = lr_my_id (cn_lr c),
                                 td_name = lr_my_name (cn_lr c), td_platform = lr_my_platform (cn_lr c)\<rparr> (wd_trusted w)\<rparr>
                          else w))))))"

definition retain_fresh_uuids :: "host \<Rightarrow> (string \<rightharpoonup> int \<times> bytes) \<Rightarrow> (string \<rightharpoonup> int \<times> bytes)" where
  "retain_fresh_uuids h m = (\<lambda>k. case m k of Some (t, u) \<Rightarrow> if h_now h - t < 10000 then Some (t, u) else None | None \<Rightarrow> None)"

text \<open>A uuid is sixteen bytes. Mobile builds have no change of sides.\<close>

definition on_switch_sides_response :: "host \<Rightarrow> bytes \<Rightarrow> login_request option \<Rightarrow> state \<Rightarrow> bool \<times> state" where
  "on_switch_sides_response h u lr st =
     (case (if h_mobile h then None else lr) of
        None \<Rightarrow> (True, st)
      | Some lr \<Rightarrow>
          (let (c, w) = handle_login_request_without_validation h lr st;
               uuids = retain_fresh_uuids h (wd_switch_uuids w);
               uuid_old = uuids (lr_my_id lr);
               w = w\<lparr>wd_switch_uuids := uuids(lr_my_id lr := None)\<rparr>
           in if length u = 16 \<and> map_option snd uuid_old = Some u then
                (let (keep, st) = send_logon_response_and_keep_alive h
                        (c\<lparr>cn_from_switch := True, cn_primary_auth := AuditSwitchSides\<rparr>, w)
                 in if \<not> keep then (False, st)
                    else (True, try_start_cm_ipc (try_start_cm st (cn_authorized (fst st)))))
              else (True, (c, w))))"

section \<open>Messages\<close>

definition handle_authorized_scope_violation :: "host \<Rightarrow> string \<Rightarrow> state \<Rightarrow> bool \<times> state" where
  "handle_authorized_scope_violation h msg = (\<lambda>(c, w).
     (let is_first = (msg \<notin> cn_scope_violations c);
          st = (c\<lparr>cn_scope_violations := insert msg (cn_scope_violations c)\<rparr>, w);
          st = (if is_first \<and> h_scope_violation_alarm h then event (EvAlarm SessionScopeViolation) st else st)
      in if h_scope_violation_close h then
           (let (c, w) = event (EvCloseReason ''Connection not allowed'') st;
                w = check_remove_session (cn_id c) (session_key_of c) w
            in (False, event (EvClosed ''Session scope violation'') (c, w)))
         else (True, st)))"

text \<open>\<open>on_message\<close>; what an authorized connection accepts is handed to its handlers.\<close>

definition on_message :: "host \<Rightarrow> message option \<Rightarrow> state \<Rightarrow> bool \<times> state" where
  "on_message h msg st =
     (let c = fst st;
          violation = (if cn_authorized c then authorized_scope_violation (h_windows h) (cn_authed_type c) msg else None)
      in case msg of
           Some (Misc (Some (CloseReason _))) \<Rightarrow>
             (False, (fst (event (EvClosed ''Peer close'') st), check_remove_session (cn_id c) (session_key_of c) (snd st)))
         | Some (LoginRequest lr) \<Rightarrow> if cn_authorized c then (True, st) else on_login_request h lr st
         | _ \<Rightarrow>
             (case violation of
                Some v \<Rightarrow> handle_authorized_scope_violation h v st
              | None \<Rightarrow>
                  (case msg of
                     Some (Auth2fa code hwid) \<Rightarrow> on_auth_2fa h code hwid st
                   | Some (TestDelay _) \<Rightarrow> (True, st)
                   | Some (SwitchSidesResponse u lr) \<Rightarrow> on_switch_sides_response h u lr st
                   | _ \<Rightarrow> (True, if cn_authorized c then event (EvDispatch msg) st else st))))"

text \<open>The user at the host accepts the connection in the connection manager.\<close>

definition on_cm_authorize :: "host \<Rightarrow> state \<Rightarrow> bool \<times> state" where
  "on_cm_authorize h = (\<lambda>(c, w).
     (let (keep, st) = send_logon_response_and_keep_alive h (c\<lparr>cn_primary_auth := AuditClick, cn_require_2fa := None\<rparr>, w)
      in (keep \<and> \<not> cn_port_forward_socket (fst st), st)))"

section \<open>What the steps leave alone\<close>

text \<open>The part of a connection that decides about authorization.\<close>

definition auth_core :: "conn \<Rightarrow> login_hash \<times> login_request \<times> bool \<times> (string \<Rightarrow> bool option) option \<times> bool" where
  "auth_core c = (cn_hash c, cn_lr c, cn_authorized c, cn_require_2fa c, cn_from_switch c)"

lemma auth_core_event [simp]: "auth_core (fst (event e st)) = auth_core (fst st)" "snd (event e st) = snd st"
  by (simp_all add: event_def auth_core_def split: prod.splits)

lemma auth_core_sends [simp]:
  "auth_core (fst (send_login_error m st)) = auth_core (fst st)" "snd (send_login_error m st) = snd st"
  "auth_core (fst (try_start_cm st b)) = auth_core (fst st)" "snd (try_start_cm st b) = snd st"
  by (simp_all add: send_login_error_def try_start_cm_def)

lemma auth_core_cm_ipc [simp]: "auth_core (fst (try_start_cm_ipc st)) = auth_core (fst st)" "snd (try_start_cm_ipc st) = snd st"
  by (simp_all add: try_start_cm_ipc_def auth_core_def split: prod.splits)

lemma auth_core_check [simp]:
  "auth_core (fst (snd (conn_check_failure h i scope st))) = auth_core (fst st)"
  "wd_sessions (snd (snd (conn_check_failure h i scope st))) = wd_sessions (snd st)"
  "wd_temp (snd (snd (conn_check_failure h i scope st))) = wd_temp (snd st)"
  by (simp_all add: conn_check_failure_def auth_core_def Let_def split: prod.splits)

lemma auth_core_update [simp]:
  "auth_core (fst (conn_update_failure h f r i scope st)) = auth_core (fst st)"
  "wd_sessions (snd (conn_update_failure h f r i scope st)) = wd_sessions (snd st)"
  "wd_temp (snd (conn_update_failure h f r i scope st)) = wd_temp (snd st)"
  by (simp_all add: conn_update_failure_def auth_core_def split: prod.splits)

lemma auth_core_recent [simp]:
  "auth_core (fst (snd (is_recent_session h tfa st))) = auth_core (fst st)"
  "snd (snd (is_recent_session h tfa st)) = retain_recent h (snd st)"
  "fst (is_recent_session h tfa st) = recent_session h tfa (fst st) (snd st)"
  by (simp_all add: is_recent_session_def auth_core_def split: prod.splits)

lemma auth_core_fill [simp]: "auth_core (snd (fill_terminal_user_token h u p c)) = auth_core c"
  by (simp add: fill_terminal_user_token_def handle_administrator_check_def handle_installed_user_def auth_core_def
      split: option.splits bool.splits sum.splits)

lemma auth_core_terminal [simp]: "auth_core (fst (snd (terminal_authorization h f u st))) = auth_core (fst st)"
proof -
  obtain c w where st: "st = (c, w)" by (cases st)
  obtain err c' where f: "fill_terminal_user_token h u (os_password (lr_os_login (cn_lr c))) c = (err, c')" by fastforce
  have "auth_core c' = auth_core c" using auth_core_fill [of h u _ c] f by (metis snd_conv)
  then show ?thesis by (cases err; cases f) (simp_all add: terminal_authorization_def st f Let_def)
qed

lemma auth_core_prepare [simp]:
  "auth_core (fst (snd (prepare_terminal_login_for_authorization h st))) = auth_core (fst st)"
proof -
  obtain failure res st' where c: "conn_check_failure h 0 TerminalOsLogin st = ((failure, res), st')"
    by (metis prod.collapse)
  have "auth_core (fst st') = auth_core (fst st)" using auth_core_check(1) [of h 0 TerminalOsLogin st] c by simp
  then show ?thesis by (simp add: prepare_terminal_login_for_authorization_def Let_def c)
qed

lemma auth_core_connect [simp]: "auth_core (fst (snd (connect_port_forward_if_needed h st))) = auth_core (fst st)"
proof -
  have a: "auth_core (c\<lparr>cn_port_forward_address := x\<rparr>) = auth_core c" "auth_core (c\<lparr>cn_port_forward_socket := b\<rparr>) = auth_core c" for c x b
    by (simp_all add: auth_core_def)
  show ?thesis
    by (cases st) (simp add: connect_port_forward_if_needed_def Let_def a split: option.splits login_union.splits prod.splits)
qed

lemma auth_core_validate:
  "fst (conn_validate_password h st) \<longleftrightarrow> fst (accepted_password h (fst st) (snd st)) \<noteq> None"
  "auth_core (fst (snd (conn_validate_password h st))) = auth_core (fst st)"
  by (simp_all add: conn_validate_password_def auth_core_def Let_def split: prod.splits option.splits primary_auth.splits)

lemma auth_coreD: "auth_core c = auth_core c' \<Longrightarrow> cn_hash c = cn_hash c' \<and> cn_lr c = cn_lr c' \<and> cn_authorized c = cn_authorized c' \<and>
    cn_require_2fa c = cn_require_2fa c' \<and> cn_from_switch c = cn_from_switch c'"
  by (simp add: auth_core_def)

lemma recent_session_cong:
  assumes "auth_core c = auth_core c'" "wd_sessions w = wd_sessions w'"
  shows "recent_session h tfa c w = recent_session h tfa c' w'"
proof -
  have e: "cn_lr c = cn_lr c'" "cn_hash c = cn_hash c'" using assms(1) by (simp_all add: auth_core_def)
  have s: "wd_sessions (retain_recent h w) = wd_sessions (retain_recent h w')" by (simp add: retain_recent_def assms(2))
  show ?thesis unfolding recent_session_def session_key_of_def e s ..
qed

lemma accepted_password_cong:
  "auth_core c = auth_core c' \<Longrightarrow> wd_temp w = wd_temp w' \<Longrightarrow> accepted_password h c w = accepted_password h c' w'"
  by (simp add: accepted_password_def auth_core_def)

lemma retain_recent_idem: "wd_sessions (retain_recent h (retain_recent h w)) = wd_sessions (retain_recent h w)"
  by (rule ext) (simp add: retain_recent_def split: option.splits)

lemma retain_recent_temp [simp]: "wd_temp (retain_recent h w) = wd_temp w"
  by (simp add: retain_recent_def)

lemma recent_session_retain [simp]: "recent_session h tfa c (retain_recent h w) = recent_session h tfa c w"
  by (simp add: recent_session_def retain_recent_idem)

section \<open>Who gets authorized\<close>

definition second_factor_ok :: "host \<Rightarrow> conn \<Rightarrow> world \<Rightarrow> bool" where
  "second_factor_ok h c w \<longleftrightarrow> cn_require_2fa c = None \<or> recent_session h True c w \<or> cn_from_switch c"

lemma second_factor_cong:
  "auth_core c = auth_core c' \<Longrightarrow> wd_sessions w = wd_sessions w' \<Longrightarrow> second_factor_ok h c w = second_factor_ok h c' w'"
  using recent_session_cong [of c c' w w' h True] by (simp add: second_factor_ok_def auth_core_def)

lemma authorize_authorized [simp]: "cn_authorized (fst (authorize st))"
  by (simp add: authorize_def event_def normalize_conn_audit_auth_fields_def Let_def split: prod.splits)

lemma send_logon_needs_second_factor:
  assumes "\<not> cn_authorized (fst st)" "cn_authorized (fst (snd (send_logon_response_and_keep_alive h st)))"
  shows "second_factor_ok h (fst st) (snd st)"
proof (rule ccontr)
  assume "\<not> second_factor_ok h (fst st) (snd st)"
  then have r: "cn_require_2fa (fst st) \<noteq> None" "\<not> recent_session h True (fst st) (snd st)" "\<not> cn_from_switch (fst st)"
    by (auto simp: second_factor_ok_def)
  have "\<not> cn_from_switch (fst (snd (is_recent_session h True st)))"
    using r(3) auth_coreD [OF auth_core_recent(1)] by blast
  then have "snd (send_logon_response_and_keep_alive h st) = send_login_error ''2FA Required'' (snd (is_recent_session h True st))"
    using assms(1) r by (simp add: send_logon_response_and_keep_alive_def Let_def case_prod_beta)
  then have "auth_core (fst (snd (send_logon_response_and_keep_alive h st))) = auth_core (fst st)" by simp
  then show False using assms by (simp add: auth_core_def)
qed

lemma login_accepted_needs_second_factor:
  assumes "\<not> cn_authorized (fst st)" "cn_authorized (fst (snd (login_accepted h err st)))"
  shows "second_factor_ok h (fst st) (snd st)"
proof (cases "err = []")
  case True
  then have "auth_core (fst (snd (login_accepted h err st))) = auth_core (fst (snd (send_logon_response_and_keep_alive h st)))"
    by (simp add: login_accepted_def case_prod_beta)
  then have "cn_authorized (fst (snd (send_logon_response_and_keep_alive h st)))" using assms(2) by (simp add: auth_core_def)
  then show ?thesis using assms(1) by (rule send_logon_needs_second_factor [rotated])
next
  case False
  then have "auth_core (fst (snd (login_accepted h err st))) = auth_core (fst st)" by (simp add: login_accepted_def)
  then show ?thesis using assms by (simp add: auth_core_def)
qed

lemma login_terminal_then_cm_core:
  assumes "\<And>st. auth_core (fst (k st)) = auth_core (fst st)"
  shows "auth_core (fst (snd (login_terminal_then_cm h lr k st))) = auth_core (fst st)"
  using auth_core_prepare [of h st]
  by (simp add: login_terminal_then_cm_def assms case_prod_beta split: option.splits)

text \<open>Checking the password may touch the session table, but never turns a missing second factor into
  a present one.\<close>

lemma validate_second_factor:
  assumes "second_factor_ok h (fst (snd (conn_validate_password h st))) (snd (snd (conn_validate_password h st)))"
  shows "second_factor_ok h (fst st) (snd st)"
proof -
  obtain c w where st: "st = (c, w)" by (cases st)
  obtain auth tp where a: "accepted_password h c w = (auth, tp)" by fastforce
  show ?thesis
  proof (cases "auth = Some TemporaryPassword")
    case True
    let ?c = "c\<lparr>cn_primary_auth := AuditTemporaryPassword\<rparr>"
    let ?w = "(update_or_insert_session h (session_key_of c) (Some (tp_password (wd_temp w))) (Some False) w)\<lparr>wd_temp := tp\<rparr>"
    have "\<not> recent_session h True ?c ?w"
      by (simp add: recent_session_def retain_recent_def session_key_of_def update_or_insert_session_def split: option.splits)
    moreover have "snd (conn_validate_password h st) = (?c, ?w)" using st a True by (simp add: conn_validate_password_def)
    ultimately show ?thesis using assms st by (auto simp: second_factor_ok_def)
  next
    case False
    then have "wd_sessions (snd (snd (conn_validate_password h st))) = wd_sessions (snd st)"
      using st a by (auto simp: conn_validate_password_def split: option.splits primary_auth.splits)
    then show ?thesis using assms second_factor_cong [OF auth_core_validate(2) [of h st]] by blast
  qed
qed

definition password_ok :: "host \<Rightarrow> conn \<Rightarrow> world \<Rightarrow> bool" where
  "password_ok h c w \<longleftrightarrow> lr_password (cn_lr c) \<noteq> [] \<and> fst (accepted_password h c w) \<noteq> None"

lemma login_with_password_needs:
  assumes "\<not> cn_authorized (fst st)" "cn_authorized (fst (snd (login_with_password h lr err st)))"
  shows "fst (accepted_password h (fst st) (snd st)) \<noteq> None \<and> second_factor_ok h (fst st) (snd st)"
proof -
  obtain failure res st1 where ck: "conn_check_failure h 0 Default st = ((failure, res), st1)" by (metis prod.collapse)
  have c1: "auth_core (fst st1) = auth_core (fst st)" "wd_sessions (snd st1) = wd_sessions (snd st)" "wd_temp (snd st1) = wd_temp (snd st)"
    using auth_core_check [of h 0 Default st] ck by simp_all
  obtain ok st2 where v: "conn_validate_password h st1 = (ok, st2)" by (cases "conn_validate_password h st1")
  have ok: "ok \<longleftrightarrow> fst (accepted_password h (fst st) (snd st)) \<noteq> None"
    using auth_core_validate(1) [of h st1] v accepted_password_cong [OF c1(1,3)] by simp
  have c2: "auth_core (fst st2) = auth_core (fst st)" using auth_core_validate(2) [of h st1] v c1(1) by simp
  have "res \<and> ok"
  proof (rule ccontr)
    assume "\<not> (res \<and> ok)"
    then have "auth_core (fst (snd (login_with_password h lr err st))) = auth_core (fst st)"
      using c1 c2 by (auto simp: login_with_password_def ck v Let_def)
    then show False using assms by (simp add: auth_core_def)
  qed
  let ?st3 = "conn_update_failure h failure True 0 Default st2"
  have "login_with_password h lr err st = login_accepted h err ?st3"
    using \<open>res \<and> ok\<close> by (simp add: login_with_password_def ck v)
  moreover have "\<not> cn_authorized (fst ?st3)"
    using assms(1) c2 auth_coreD [of "fst ?st3" "fst st"] by simp
  ultimately have "second_factor_ok h (fst ?st3) (snd ?st3)"
    using assms(2) login_accepted_needs_second_factor by metis
  then have "second_factor_ok h (fst st2) (snd st2)"
    using second_factor_cong [of "fst ?st3" "fst st2" "snd ?st3" "snd st2"] by simp
  then have "second_factor_ok h (fst st1) (snd st1)" using validate_second_factor [of h st1] v by simp
  then have "second_factor_ok h (fst st) (snd st)" using second_factor_cong [OF c1(1,2)] by simp
  then show ?thesis using ok \<open>res \<and> ok\<close> by simp
qed

lemma login_decision_needs:
  assumes "\<not> cn_authorized (fst st)" "cn_authorized (fst (snd (login_decision h lr err st)))" "cn_lr (fst st) = lr"
  shows "\<not> click_only h (snd st) \<and> (recent_session h False (fst st) (snd st) \<or> password_ok h (fst st) (snd st)) \<and>
    second_factor_ok h (fst st) (snd st)"
proof -
  have unchanged: False if "auth_core (fst (snd (login_decision h lr err st))) = auth_core (fst st)"
    using that assms(1,2) by (simp add: auth_core_def)
  let ?k = "\<lambda>st. if get_version_number (lr_version lr) \<ge> get_version_number ''1.2.0'' then send_login_error ''No Password Access'' st else st"
  have click: "\<not> click_only h (snd st)"
  proof
    assume "click_only h (snd st)"
    then have "auth_core (fst (snd (login_decision h lr err st))) = auth_core (fst st)"
      by (simp add: login_decision_def login_terminal_then_cm_core)
    then show False by (rule unchanged)
  qed
  let ?st1 = "snd (is_recent_session h False st)"
  have c1: "auth_core (fst ?st1) = auth_core (fst st)" "snd ?st1 = retain_recent h (snd st)" by simp_all
  have na: "\<not> cn_authorized (fst ?st1)" using assms(1) c1(1) by (simp add: auth_core_def)
  have sf: "second_factor_ok h (fst ?st1) (snd ?st1) \<longleftrightarrow> second_factor_ok h (fst st) (snd st)"
    using recent_session_cong [OF c1(1), of "snd st" "snd st" h True] c1(1)
    by (simp add: second_factor_ok_def auth_core_def c1(2))
  show ?thesis
  proof (cases "recent_session h False (fst st) (snd st)")
    case True
    then have "login_decision h lr err st = login_accepted h err ?st1"
      using click by (simp add: login_decision_def case_prod_beta)
    then show ?thesis using login_accepted_needs_second_factor [OF na, of h err] assms(2) sf click True by simp
  next
    case False
    have "lr_password lr \<noteq> []"
    proof
      assume "lr_password lr = []"
      then have "auth_core (fst (snd (login_decision h lr err st))) = auth_core (fst st)"
        using click False by (simp add: login_decision_def case_prod_beta login_terminal_then_cm_core)
      then show False by (rule unchanged)
    qed
    then have "login_decision h lr err st = login_with_password h lr err ?st1"
      using click False by (simp add: login_decision_def case_prod_beta)
    then have "fst (accepted_password h (fst ?st1) (snd ?st1)) \<noteq> None \<and> second_factor_ok h (fst ?st1) (snd ?st1)"
      using login_with_password_needs [OF na, of h lr err] assms(2) by simp
    moreover have "accepted_password h (fst ?st1) (snd ?st1) = accepted_password h (fst st) (snd st)"
      by (rule accepted_password_cong) simp_all
    ultimately show ?thesis using sf click \<open>lr_password lr \<noteq> []\<close> assms(3) by (simp add: password_ok_def)
  qed
qed

lemma login_desktop_needs:
  assumes "\<not> cn_authorized (fst st)" "cn_authorized (fst (snd (login_desktop h lr st)))" "cn_lr (fst st) = lr"
  shows "\<not> click_only h (snd st) \<and> (recent_session h False (fst st) (snd st) \<or> password_ok h (fst st) (snd st)) \<and>
    second_factor_ok h (fst st) (snd st)"
proof -
  define st1 where "st1 = (if h_linux h \<and> should_check_headless_before_desktop_start h (os_username (lr_os_login lr))
    then snd (conn_check_failure h 0 Default st) else st)"
  have c1: "auth_core (fst st1) = auth_core (fst st)" "wd_sessions (snd st1) = wd_sessions (snd st)" "wd_temp (snd st1) = wd_temp (snd st)"
    by (simp_all add: st1_def)
  have "auth_core (fst (snd (login_desktop h lr st))) = auth_core (fst st) \<or>
      login_desktop h lr st = login_decision h lr (try_start_desktop h lr) st1"
    using c1 by (auto simp: login_desktop_def st1_def Let_def case_prod_beta)
  then have "login_desktop h lr st = login_decision h lr (try_start_desktop h lr) st1"
    using assms(1,2) by (auto simp: auth_core_def)
  then have "\<not> click_only h (snd st1) \<and> (recent_session h False (fst st1) (snd st1) \<or> password_ok h (fst st1) (snd st1)) \<and>
      second_factor_ok h (fst st1) (snd st1)"
    using assms c1(1) by (intro login_decision_needs [of st1 h lr "try_start_desktop h lr"]) (auto simp: auth_core_def)
  moreover have "click_only h (snd st1) = click_only h (snd st)"
    using c1(3) by (simp add: click_only_def has_valid_password_def Let_def)
  moreover have "password_ok h (fst st1) (snd st1) = password_ok h (fst st) (snd st)"
    using accepted_password_cong [OF c1(1,3)] c1(1) by (simp add: password_ok_def auth_core_def)
  ultimately show ?thesis using recent_session_cong [OF c1(1,2)] second_factor_cong [OF c1(1,2)] by simp
qed

text \<open>The connection as the checks of a login request see it.\<close>

definition after_request :: "host \<Rightarrow> login_request \<Rightarrow> conn \<Rightarrow> world \<Rightarrow> conn" where
  "after_request h lr c w = fst (handle_login_request_without_validation h lr (c, w))"

lemma handle_login_request_simps:
  "snd (handle_login_request_without_validation h lr (c, w)) = w"
  "auth_core (after_request h lr c w) =
     (cn_hash c, lr, cn_authorized c, if trusted_device_of h w lr then None else cn_require_2fa c, cn_from_switch c)"
  by (auto simp: after_request_def handle_login_request_without_validation_def auth_core_def Let_def split: option.splits)

lemma login_scope_core: "auth_core (snd (login_scope h lr (reset_session_scope_for_login c))) = auth_core c"
  by (simp add: login_scope_def reset_session_scope_for_login_def auth_core_def split: option.splits login_union.splits)

lemma on_login_request_needs:
  assumes "\<not> cn_authorized c" "cn_authorized (fst (snd (on_login_request h lr (c, w))))"
  defines "c1 \<equiv> after_request h lr c w"
  shows "\<not> click_only h w \<and> (recent_session h False c1 w \<or> password_ok h c1 w) \<and> second_factor_ok h c1 w"
proof -
  have h: "handle_login_request_without_validation h lr (c, w) = (c1, w)"
    using handle_login_request_simps(1) [of h lr c w] by (simp add: c1_def after_request_def prod_eq_iff)
  have na: "\<not> cn_authorized c1" and lr: "cn_lr c1 = lr"
    using handle_login_request_simps(2) [of h lr c w] assms(1) by (auto simp: c1_def auth_core_def)
  obtain err c2 where sc: "login_scope h lr (reset_session_scope_for_login c1) = (err, c2)" by fastforce
  have c2: "auth_core c2 = auth_core c1" using login_scope_core [of h lr c1] sc by simp
  define st3 where "st3 = (if \<not> h_mobile h \<and> \<not> should_use_terminal_os_login_scope h (cn_terminal c2) (os_username (lr_os_login lr))
    then try_start_cm_ipc (c2, w) else (c2, w))"
  have c3: "auth_core (fst st3) = auth_core c1" "snd st3 = w" using c2 by (simp_all add: st3_def)
  have "auth_core (fst (snd (on_login_request h lr (c, w)))) = auth_core c1 \<or> on_login_request h lr (c, w) = login_desktop h lr st3"
    using na c2 by (auto simp: on_login_request_def h sc Let_def st3_def split: option.splits)
  then have "on_login_request h lr (c, w) = login_desktop h lr st3" using assms(2) na by (auto simp: auth_core_def)
  then have "\<not> click_only h (snd st3) \<and> (recent_session h False (fst st3) (snd st3) \<or> password_ok h (fst st3) (snd st3)) \<and>
      second_factor_ok h (fst st3) (snd st3)"
    using assms(2) na lr c3(1) by (intro login_desktop_needs [of st3 h lr]) (auto simp: auth_core_def)
  moreover have "password_ok h (fst st3) (snd st3) = password_ok h c1 w"
    using accepted_password_cong [OF c3(1), of w w h] c3 by (simp add: password_ok_def auth_core_def)
  ultimately show ?thesis
    using recent_session_cong [OF c3(1), of w w h False] second_factor_cong [OF c3(1), of w w h] by (simp add: c3(2))
qed

lemma on_auth_2fa_needs:
  assumes "\<not> cn_authorized c" "cn_authorized (fst (snd (on_auth_2fa h code hwid (c, w))))"
  shows "(\<exists>totp. cn_require_2fa c = Some totp \<and> totp code = Some True) \<and>
    snd (fst (fst (check_failure_with_scope (cn_ip c) (h_now h) 1 Default (wd_guard w))))"
proof -
  obtain failure res st1 where ck: "conn_check_failure h 1 Default (c, w) = ((failure, res), st1)" by (metis prod.collapse)
  have c1: "auth_core (fst st1) = auth_core c" using auth_core_check(1) [of h 1 Default "(c, w)"] unfolding ck by simp
  have res: "res = snd (fst (fst (check_failure_with_scope (cn_ip c) (h_now h) 1 Default (wd_guard w))))"
    using ck by (simp add: conn_check_failure_def Let_def split: prod.splits)
  have unchanged: "auth_core (fst (snd (on_auth_2fa h code hwid (c, w)))) \<noteq> auth_core (fst st1)"
    using assms c1 by (auto simp: auth_core_def)
  have "res" using unchanged by (auto simp: on_auth_2fa_def ck Let_def split: if_splits simp del: One_nat_def)
  moreover obtain totp where t: "cn_require_2fa (fst st1) = Some totp"
    using unchanged \<open>res\<close> by (cases "cn_require_2fa (fst st1)") (auto simp: on_auth_2fa_def ck Let_def simp del: One_nat_def)
  moreover have "totp code = Some True"
    using unchanged \<open>res\<close> t by (cases "totp code") (auto simp: on_auth_2fa_def ck Let_def split: bool.splits simp del: One_nat_def)
  moreover have "cn_require_2fa c = cn_require_2fa (fst st1)" using c1 by (simp add: auth_core_def)
  ultimately show ?thesis using res by simp
qed

text \<open>(C1) Only evidence authorizes: a message that turns an unauthorized connection into an authorized
  one is a login request whose password (temporary, permanent, or that of a recent session) was accepted and
  whose second factor is not needed, known from a recent session, or waived by a trusted device; or a second
  factor code that was right and that the guard let through; or a change of sides with the uuid this host
  handed out at most ten seconds ago.\<close>

theorem authorization_needs_evidence:
  assumes "\<not> cn_authorized c" and "on_message h msg (c, w) = (keep, (c', w'))" and "cn_authorized c'"
  shows "(\<exists>lr. msg = Some (LoginRequest lr) \<and> \<not> click_only h w \<and>
            (recent_session h False (after_request h lr c w) w \<or> password_ok h (after_request h lr c w) w) \<and>
            second_factor_ok h (after_request h lr c w) w) \<or>
         (\<exists>code hwid totp. msg = Some (Auth2fa code hwid) \<and> cn_require_2fa c = Some totp \<and> totp code = Some True \<and>
            snd (fst (fst (check_failure_with_scope (cn_ip c) (h_now h) 1 Default (wd_guard w))))) \<or>
         (\<exists>u lr t. msg = Some (SwitchSidesResponse u (Some lr)) \<and> wd_switch_uuids w (lr_my_id lr) = Some (t, u) \<and> h_now h - t < 10000)"
proof -
  have m: "snd (on_message h msg (c, w)) = (c', w')" using assms(2) by simp
  have other: "cn_authorized (fst (snd (on_message h msg (c, w)))) = cn_authorized c"
    if "\<nexists>lr. msg = Some (LoginRequest lr)" "\<nexists>code hwid. msg = Some (Auth2fa code hwid)" "\<nexists>u lr. msg = Some (SwitchSidesResponse u lr)"
    using that assms(1) auth_coreD [OF auth_core_event(1)]
    by (auto simp: on_message_def Let_def split: option.splits message.splits misc.splits)
  then consider (login) lr where "msg = Some (LoginRequest lr)" | (tfa) code hwid where "msg = Some (Auth2fa code hwid)"
    | (switch) u lr where "msg = Some (SwitchSidesResponse u lr)"
    using assms m by fastforce
  then show ?thesis
  proof cases
    case login
    then have "on_message h msg (c, w) = on_login_request h lr (c, w)" using assms(1) by (simp add: on_message_def)
    then show ?thesis using on_login_request_needs [of c h lr w] assms m login by simp
  next
    case tfa
    then have "on_message h msg (c, w) = on_auth_2fa h code hwid (c, w)" using assms(1) by (simp add: on_message_def)
    then show ?thesis using on_auth_2fa_needs [of c h code hwid w] assms m tfa by auto
  next
    case switch
    then have e: "on_message h msg (c, w) = on_switch_sides_response h u lr (c, w)" using assms(1) by (simp add: on_message_def)
    then obtain lr' where lr: "lr = Some lr'" using assms m by (cases lr) (auto simp: on_switch_sides_response_def split: if_splits)
    obtain c1 where h1: "handle_login_request_without_validation h lr' (c, w) = (c1, w)"
      using handle_login_request_simps(1) [of h lr' c w] by (metis prod.collapse)
    have na: "\<not> cn_authorized c1"
      using handle_login_request_simps(2) [of h lr' c w] h1 assms(1) by (auto simp: after_request_def auth_core_def)
    have "map_option snd (retain_fresh_uuids h (wd_switch_uuids w) (lr_my_id lr')) = Some u"
    proof (rule ccontr)
      assume "map_option snd (retain_fresh_uuids h (wd_switch_uuids w) (lr_my_id lr')) \<noteq> Some u"
      then have "cn_authorized (fst (snd (on_switch_sides_response h u lr (c, w)))) = cn_authorized c1 \<or> h_mobile h"
        by (simp add: on_switch_sides_response_def lr h1 Let_def)
      then show False using e m na assms(1,3) by (auto simp: on_switch_sides_response_def)
    qed
    then show ?thesis using switch lr by (auto simp: retain_fresh_uuids_def split: option.splits if_splits)
  qed
qed

definition sample_lr :: login_request where
  "sample_lr = \<lparr>lr_username = ''123'', lr_password = [], lr_my_id = ''9'', lr_my_name = ''peer'', lr_my_platform = ''Linux'',
     lr_option = None, lr_union = None, lr_session_id = 1, lr_version = ''1.4.0'',
     lr_os_login = \<lparr>os_username = [], os_password = []\<rparr>, lr_hwid = []\<rparr>"

definition sample_unauthorized :: conn where
  "sample_unauthorized = \<lparr>cn_id = 7, cn_ip = ''10.0.0.9'', cn_hash = \<lparr>lh_salt = [1], lh_challenge = [2]\<rparr>, cn_lr = sample_lr,
     cn_authorized = False, cn_authed_type = None, cn_require_2fa = Some (\<lambda>code. Some (code = ''123456'')), cn_from_switch = False,
     cn_file_transfer = None, cn_view_camera = False, cn_terminal = False, cn_terminal_persistent = False,
     cn_terminal_service_id = [], cn_terminal_user_token = None, cn_port_forward_address = [], cn_port_forward_socket = False,
     cn_options_in_login = None, cn_cm_started = False, cn_scope_violations = {}, cn_primary_auth = AuditNone,
     cn_two_factor = TwoFactorNone, cn_events = []\<rparr>"

definition sample_world :: world where
  "sample_world = \<lparr>wd_guard = \<lparr>gd_tables = [\<lambda>_. None, \<lambda>_. None], gd_os = os_default\<rparr>,
     wd_temp = \<lparr>tp_password = [65], tp_seen = [65], tp_failures = 0\<rparr>, wd_sessions = (\<lambda>_. None), wd_authed = [],
     wd_switch_uuids = (\<lambda>_. None), wd_trusted = []\<rparr>"

definition sample_host :: host where
  "sample_host = \<lparr>h_crypto = sample_crypto, h_machine = sample_machine,
     h_hard = \<lparr>hs_password = [], hs_salt = [], hs_disable_change = False\<rparr>, h_config = \<lparr>cf_password = [], cf_salt = [1]\<rparr>,
     h_options = \<lparr>ho_get = (\<lambda>_. []), ho_desktop_flutter = True, ho_control = None\<rparr>, h_id = ''123'',
     h_direct_ip = (\<lambda>_. False), h_now = 600000, h_windows = False, h_linux = False, h_mobile = False, h_installed = True,
     h_prelogin = False, h_is_logon = False, h_logon_screen_password = False, h_in_privacy_mode = False,
     h_connect = (\<lambda>_. False), h_gate_free = True, h_logon_user_admin = (\<lambda>_ _. None), h_session_token = Inl [],
     h_service_specified_user = (\<lambda>_. None), h_headless_allowed = False, h_headless_username = [],
     h_start_desktop = (\<lambda>_ _. []), h_fresh_password = [66], h_scope_violation_alarm = True, h_scope_violation_close = True\<rparr>"

lemma check_table_empty [simp]: "check_table ip time (\<lambda>_. None) = ((((0, 0, 0), time), True), [])"
  by (simp add: check_table_def check_failure_ipv6_prefix_def entry_of_def split: option.splits)

lemma fresh_guard_admits:
  "snd (fst (fst (check_failure_with_scope ip now i Default \<lparr>gd_tables = [\<lambda>_. None, \<lambda>_. None], gd_os = os_default\<rparr>)))" if "i < 2"
proof -
  have "([\<lambda>_. None, \<lambda>_. None] :: failures list) ! i = (\<lambda>_. None)" using that by (cases i) auto
  then show ?thesis by (simp add: check_failure_with_scope_def)
qed

text \<open>A connection that asks for neither a terminal nor a port forward is authorized as soon as its second
  factor is settled.\<close>

lemma send_logon_without_factor:
  assumes "\<not> cn_authorized c" "cn_require_2fa c = None" "\<not> cn_terminal c" "\<nexists>host_name port. lr_union (cn_lr c) = Some (PortForwardLogin host_name port)"
  shows "send_logon_response_and_keep_alive h (c, w) = (True, authorize (c, w))"
  using assms
  by (auto simp: send_logon_response_and_keep_alive_def prepare_terminal_login_for_authorization_def connect_port_forward_if_needed_def
      split: option.splits login_union.splits)

text \<open>The second factor stands in for the first: on a connection that has sent no login request, or
  whose requests were all refused, one message with the current code of the second factor authorizes, whatever
  the passwords of the host are, whether or not it asks its user to click, and with no password checked. The
  permissions that only a login request is checked for are not asked either.\<close>

theorem totp_alone_authorizes:
  assumes "\<not> cn_authorized c" "cn_require_2fa c = Some totp" "totp code = Some True"
    and "snd (fst (fst (check_failure_with_scope (cn_ip c) (h_now h) 1 Default (wd_guard w))))"
    and "\<not> cn_terminal c" "\<nexists>host_name port. lr_union (cn_lr c) = Some (PortForwardLogin host_name port)"
  shows "fst (on_message h (Some (Auth2fa code hwid)) (c, w)) \<and>
    cn_authorized (fst (snd (on_message h (Some (Auth2fa code hwid)) (c, w)))) \<and>
    cn_authed_type (fst (snd (on_message h (Some (Auth2fa code hwid)) (c, w)))) = Some (conn_kind c)"
proof -
  obtain failure effs g where g: "check_failure_with_scope (cn_ip c) (h_now h) 1 Default (wd_guard w) = (((failure, True), effs), g)"
    using assms(4) by (metis prod.collapse)
  let ?c1 = "c\<lparr>cn_events := cn_events c @ map effect_event effs\<rparr>"
  let ?c2 = "?c1\<lparr>cn_require_2fa := None, cn_two_factor := TwoFactorTotp\<rparr>"
  have ck: "conn_check_failure h 1 Default (c, w) = ((failure, True), (?c1, w\<lparr>wd_guard := g\<rparr>))"
    using g by (simp add: conn_check_failure_def)
  have logon: "send_logon_response_and_keep_alive h (?c2, w') = (True, authorize (?c2, w'))" for w'
    using assms by (intro send_logon_without_factor) auto
  have "on_message h (Some (Auth2fa code hwid)) (c, w) = on_auth_2fa h code hwid (c, w)"
    using assms(1) by (simp add: on_message_def)
  moreover have "fst (on_auth_2fa h code hwid (c, w)) \<and> cn_authorized (fst (snd (on_auth_2fa h code hwid (c, w)))) \<and>
      cn_authed_type (fst (snd (on_auth_2fa h code hwid (c, w)))) = Some (conn_kind c)"
    unfolding on_auth_2fa_def ck Let_def prod.case
    by (simp add: assms(2,3) conn_update_failure_def logon authorize_def event_def try_start_cm_def Let_def conn_kind_def
        normalize_conn_audit_auth_fields_def)
  ultimately show ?thesis by simp
qed

theorem totp_alone_authorizes_witness:
  "cn_authorized (fst (snd (on_message sample_host (Some (Auth2fa ''123456'' [])) (sample_unauthorized, sample_world))))"
  using totp_alone_authorizes [of sample_unauthorized "\<lambda>code. Some (code = ''123456'')" "''123456''" sample_host sample_world "[]"]
    fresh_guard_admits [of 1]
  by (simp add: sample_unauthorized_def sample_world_def sample_lr_def)

definition sample_login :: "login_union option \<Rightarrow> login_request" where
  "sample_login u = sample_lr\<lparr>lr_password := 65 # 1 # replicate 30 0, lr_union := u\<rparr>"

lemma sample_login_authorizes:
  "cn_authorized (fst (snd (on_message sample_host (Some (LoginRequest (sample_login None)))
     (sample_unauthorized\<lparr>cn_require_2fa := None\<rparr>, sample_world))))"
proof -
  let ?c = "(sample_unauthorized\<lparr>cn_require_2fa := None, cn_lr := sample_login None, cn_cm_started := True\<rparr>)"
  have plain: "validate_password_plain sample_crypto \<lparr>lh_salt = [1], lh_challenge = [2]\<rparr> (65 # 1 # replicate 30 0) [65]"
    by code_simp
  have "on_message sample_host (Some (LoginRequest (sample_login None))) (sample_unauthorized\<lparr>cn_require_2fa := None\<rparr>, sample_world) =
      login_desktop sample_host (sample_login None) (?c, sample_world)"
    by (simp add: on_message_def on_login_request_def handle_login_request_without_validation_def trusted_device_of_def
      login_scope_def reset_session_scope_for_login_def should_use_terminal_os_login_scope_def try_start_cm_ipc_def
      sample_host_def sample_unauthorized_def sample_login_def sample_lr_def)
  also have "\<dots> = login_decision sample_host (sample_login None) [] (?c, sample_world)"
    by (simp add: login_desktop_def try_start_desktop_def sample_host_def)
  also have "\<dots> = login_with_password sample_host (sample_login None) [] (?c, sample_world)"
    by (simp add: login_decision_def click_only_def approve_mode_of_def has_valid_password_def verification_option_def
      temporary_enabled_def verification_method_def is_recent_session_def recent_session_def retain_recent_def
      sample_host_def sample_world_def sample_login_def)
  also have "cn_authorized (fst (snd \<dots>))"
    using plain
    by (simp add: login_with_password_def conn_check_failure_def check_failure_with_scope_def conn_validate_password_def accepted_password_def
      validate_password_def verification_option_def temporary_enabled_def verification_method_def login_accepted_def
      conn_update_failure_def update_failure_with_scope_def send_logon_without_factor authorize_def event_def try_start_cm_def Let_def
      normalize_conn_audit_auth_fields_def sample_unauthorized_def sample_host_def sample_world_def sample_login_def sample_lr_def)
  finally show ?thesis .
qed

theorem authorization_needs_evidence_witness:
  "password_ok sample_host (after_request sample_host (sample_login None) (sample_unauthorized\<lparr>cn_require_2fa := None\<rparr>) sample_world) sample_world"
proof -
  let ?c = "sample_unauthorized\<lparr>cn_require_2fa := None\<rparr>"
  obtain keep c' w' where m: "on_message sample_host (Some (LoginRequest (sample_login None))) (?c, sample_world) = (keep, (c', w'))"
    by (metis prod.collapse)
  have a: "cn_authorized c'" using sample_login_authorizes m by simp
  have n: "\<not> cn_authorized ?c" by (simp add: sample_unauthorized_def)
  have "\<not> recent_session sample_host False c0 sample_world" for c0
    by (simp add: recent_session_def retain_recent_def sample_world_def)
  then show ?thesis using authorization_needs_evidence [OF n m a] by simp
qed

section \<open>The kind of session\<close>

definition requested_kind :: "login_union option \<Rightarrow> auth_conn_type" where
  "requested_kind u = (case u of
     Some (FileTransferLogin _ _) \<Rightarrow> FileTransfer | Some ViewCameraLogin \<Rightarrow> ViewCamera
   | Some (TerminalLogin _) \<Rightarrow> Terminal | Some (PortForwardLogin _ _) \<Rightarrow> PortForward | None \<Rightarrow> Remote)"

definition request_permitted :: "host \<Rightarrow> login_union option \<Rightarrow> bool" where
  "request_permitted h u = (case u of
     Some (FileTransferLogin _ _) \<Rightarrow> permission (h_options h) ''enable-file-transfer''
   | Some ViewCameraLogin \<Rightarrow> permission (h_options h) ''enable-camera''
   | Some (TerminalLogin _) \<Rightarrow> permission (h_options h) ''enable-terminal''
   | Some (PortForwardLogin _ _) \<Rightarrow> permission (h_options h) ''enable-tunnel''
   | None \<Rightarrow> \<not> h_in_privacy_mode h)"

text \<open>The part of a connection that decides its kind, and the invariant it keeps from the login request on.\<close>

definition kind_core where
  "kind_core c = (cn_file_transfer c \<noteq> None, cn_view_camera c, cn_terminal c, lr_union (cn_lr c), cn_port_forward_socket c,
     cn_authorized c, cn_authed_type c)"

definition kind_inv :: "login_union option \<Rightarrow> conn \<Rightarrow> bool" where
  "kind_inv u c \<longleftrightarrow> lr_union (cn_lr c) = u \<and> (cn_file_transfer c \<noteq> None \<longleftrightarrow> requested_kind u = FileTransfer) \<and>
     (cn_view_camera c \<longleftrightarrow> requested_kind u = ViewCamera) \<and> (cn_terminal c \<longleftrightarrow> requested_kind u = Terminal) \<and>
     (cn_port_forward_socket c \<longrightarrow> requested_kind u = PortForward) \<and>
     (cn_authorized c \<longrightarrow> cn_authed_type c = Some (requested_kind u))"

lemma kind_inv_cong: "kind_core c = kind_core c' \<Longrightarrow> kind_inv u c = kind_inv u c'"
  by (simp add: kind_core_def kind_inv_def)

lemma kind_core_event [simp]:
  "kind_core (fst (event e st)) = kind_core (fst st)" "kind_core (fst (send_login_error m st)) = kind_core (fst st)"
  "kind_core (fst (try_start_cm st b)) = kind_core (fst st)" "kind_core (fst (try_start_cm_ipc st)) = kind_core (fst st)"
  by (simp_all add: event_def send_login_error_def try_start_cm_def try_start_cm_ipc_def kind_core_def split: prod.splits)

lemma kind_core_check [simp]:
  "kind_core (fst (snd (conn_check_failure h i scope st))) = kind_core (fst st)"
  "kind_core (fst (conn_update_failure h f r i scope st)) = kind_core (fst st)"
  "kind_core (fst (snd (is_recent_session h tfa st))) = kind_core (fst st)"
  "kind_core (fst (snd (conn_validate_password h st))) = kind_core (fst st)"
  by (simp_all add: conn_check_failure_def conn_update_failure_def is_recent_session_def conn_validate_password_def kind_core_def Let_def
      split: prod.splits option.splits primary_auth.splits)

lemma kind_core_fill: "kind_core (snd (fill_terminal_user_token h u p c)) = kind_core c"
  by (simp add: fill_terminal_user_token_def handle_administrator_check_def handle_installed_user_def kind_core_def
      split: option.splits sum.splits bool.splits)

lemma kind_core_terminal [simp]: "kind_core (fst (snd (terminal_authorization h f u st))) = kind_core (fst st)"
proof -
  obtain c w where st: "st = (c, w)" by (cases st)
  obtain err c1 where f: "fill_terminal_user_token h u (os_password (lr_os_login (cn_lr c))) c = (err, c1)" by fastforce
  have "kind_core c1 = kind_core c" using kind_core_fill [of h u "os_password (lr_os_login (cn_lr c))" c] f by simp
  then show ?thesis by (simp add: terminal_authorization_def st f Let_def split: option.splits)
qed

lemma kind_core_prepare [simp]: "kind_core (fst (snd (prepare_terminal_login_for_authorization h st))) = kind_core (fst st)"
proof -
  obtain failure res st' where c: "conn_check_failure h 0 TerminalOsLogin st = ((failure, res), st')"
    by (metis prod.collapse)
  have "kind_core (fst st') = kind_core (fst st)" using kind_core_check(1) [of h 0 TerminalOsLogin st] c by simp
  then show ?thesis by (simp add: prepare_terminal_login_for_authorization_def Let_def c)
qed

lemma kind_inv_connect:
  assumes "kind_inv u (fst st)" "connect_port_forward_if_needed h st = (ok, st')"
  shows "kind_inv u (fst st') \<and> (ok \<longrightarrow> requested_kind u = PortForward \<longrightarrow> cn_port_forward_socket (fst st')) \<and>
    cn_authorized (fst st') = cn_authorized (fst st)"
  using assms
  by (auto simp: connect_port_forward_if_needed_def kind_inv_def requested_kind_def send_login_error_def event_def Let_def
      split: prod.splits option.splits login_union.splits if_splits)

lemma kind_inv_authorize:
  assumes "kind_inv u (fst st)" "requested_kind u = PortForward \<longrightarrow> cn_port_forward_socket (fst st)"
  shows "kind_inv u (fst (authorize st))"
  using assms
  by (cases "requested_kind u") (auto simp: authorize_def kind_inv_def conn_kind_def normalize_conn_audit_auth_fields_def event_def Let_def split: prod.splits)

lemma kind_inv_prepared_connect:
  assumes "kind_inv u (fst st)"
  shows "kind_inv u (fst (snd (case prepare_terminal_login_for_authorization h st of
      (Some keep_alive, st) \<Rightarrow> (keep_alive, st)
    | (None, st) \<Rightarrow> (let (ok, st) = connect_port_forward_if_needed h st in if \<not> ok then (False, st) else (True, authorize st)))))"
proof -
  obtain r st1 where p: "prepare_terminal_login_for_authorization h st = (r, st1)"
    by (cases "prepare_terminal_login_for_authorization h st")
  obtain ok st2 where c: "connect_port_forward_if_needed h st1 = (ok, st2)" by (cases "connect_port_forward_if_needed h st1")
  have i: "kind_inv u (fst st1)"
    using kind_inv_cong [OF kind_core_prepare [of h st], of u] assms p by simp
  show ?thesis
    using i kind_inv_connect [OF i c] kind_inv_authorize [of u st2] by (auto simp: p c split: option.splits)
qed

lemma kind_inv_send_logon: "kind_inv u (fst st) \<Longrightarrow> kind_inv u (fst (snd (send_logon_response_and_keep_alive h st)))"
proof -
  assume i: "kind_inv u (fst st)"
  define r where "r = (if cn_require_2fa (fst st) \<noteq> None then
       (let (recent, st) = is_recent_session h True st in (\<not> recent \<and> \<not> cn_from_switch (fst st), st)) else (False, st))"
  obtain blocked st1 where r1: "r = (blocked, st1)" by (cases r)
  have "kind_core (fst (snd r)) = kind_core (fst st)" by (simp add: r_def case_prod_beta Let_def)
  then have "kind_core (fst st1) = kind_core (fst st)" using r1 by simp
  then have i1: "kind_inv u (fst st1)" using i kind_inv_cong by blast
  have "snd (send_logon_response_and_keep_alive h st) = st \<or>
      snd (send_logon_response_and_keep_alive h st) = send_login_error ''2FA Required'' st1 \<or>
      send_logon_response_and_keep_alive h st = (case prepare_terminal_login_for_authorization h st1 of
          (Some keep_alive, st) \<Rightarrow> (keep_alive, st)
        | (None, st) \<Rightarrow> (let (ok, st) = connect_port_forward_if_needed h st in if \<not> ok then (False, st) else (True, authorize st)))"
    unfolding send_logon_response_and_keep_alive_def r_def [symmetric] r1 by simp
  then show ?thesis
    using i i1 kind_inv_prepared_connect [OF i1, of h] kind_inv_cong [OF kind_core_event(2), of u "''2FA Required''" st1] by auto
qed

lemma kind_inv_login_accepted: "kind_inv u (fst st) \<Longrightarrow> kind_inv u (fst (snd (login_accepted h err st)))"
  using kind_inv_send_logon [of u st h]
  by (simp add: login_accepted_def case_prod_beta kind_inv_cong [OF kind_core_event(2)] kind_inv_cong [OF kind_core_event(3)])

lemma kind_inv_terminal_cm:
  assumes "\<And>st. kind_core (fst (k st)) = kind_core (fst st)" "kind_inv u (fst st)"
  shows "kind_inv u (fst (snd (login_terminal_then_cm h lr k st)))"
proof -
  have "kind_core (fst (snd (login_terminal_then_cm h lr k st))) = kind_core (fst st)"
    using kind_core_prepare [of h st] by (simp add: login_terminal_then_cm_def assms(1) case_prod_beta split: option.splits)
  then show ?thesis using assms(2) kind_inv_cong by blast
qed

lemma kind_inv_login_with_password:
  assumes "kind_inv u (fst st)" shows "kind_inv u (fst (snd (login_with_password h lr err st)))"
proof -
  obtain failure res st1 where ck: "conn_check_failure h 0 Default st = ((failure, res), st1)" by (metis prod.collapse)
  obtain ok st2 where v: "conn_validate_password h st1 = (ok, st2)" by (cases "conn_validate_password h st1")
  have k: "kind_core (fst st1) = kind_core (fst st)" "kind_core (fst st2) = kind_core (fst st)"
    using kind_core_check(1) [of h 0 Default st] kind_core_check(4) [of h st1] ck v by simp_all
  have "kind_core (fst (snd (login_with_password h lr err st))) = kind_core (fst st) \<or>
      login_with_password h lr err st = login_accepted h err (conn_update_failure h failure True 0 Default st2)"
    using k by (auto simp: login_with_password_def ck v Let_def)
  moreover have "kind_inv u (fst (conn_update_failure h failure True 0 Default st2))"
    using assms k kind_inv_cong [OF kind_core_check(2)] kind_inv_cong [OF k(2)] by simp
  ultimately show ?thesis using assms kind_inv_login_accepted kind_inv_cong by metis
qed

lemma kind_inv_login_decision:
  assumes "kind_inv u (fst st)" shows "kind_inv u (fst (snd (login_decision h lr err st)))"
proof -
  obtain recent st1 where r: "is_recent_session h False st = (recent, st1)" by (cases "is_recent_session h False st")
  have i: "kind_inv u (fst st1)" using kind_inv_cong [OF kind_core_check(3) [of h False st], of u] r assms by simp
  have k: "kind_core (fst (if b then send_login_error m s else s)) = kind_core (fst s)" for b m s by simp
  show ?thesis
    by (simp add: login_decision_def r kind_inv_terminal_cm assms i kind_inv_login_accepted kind_inv_login_with_password
        kind_inv_cong [OF kind_core_event(2)])
qed

lemma kind_inv_login_desktop:
  assumes "kind_inv u (fst st)" shows "kind_inv u (fst (snd (login_desktop h lr st)))"
proof -
  define st1 where "st1 = (if h_linux h \<and> should_check_headless_before_desktop_start h (os_username (lr_os_login lr))
    then snd (conn_check_failure h 0 Default st) else st)"
  have k: "kind_core (fst st1) = kind_core (fst st)" by (simp add: st1_def)
  then have i: "kind_inv u (fst st1)" using assms kind_inv_cong by blast
  have "kind_core (fst (snd (login_desktop h lr st))) = kind_core (fst st) \<or>
      login_desktop h lr st = login_decision h lr (try_start_desktop h lr) st1"
    using k by (auto simp: login_desktop_def st1_def Let_def case_prod_beta)
  then show ?thesis using assms kind_inv_login_decision [OF i] kind_inv_cong by metis
qed

text \<open>A request that passes \<open>login_scope\<close> is permitted, and its flags are those of its kind alone.\<close>

lemma login_scope_kind:
  assumes "login_scope h lr (reset_session_scope_for_login c) = (None, c')" "\<not> cn_authorized c" "\<not> cn_port_forward_socket c" "cn_lr c = lr"
  shows "kind_inv (lr_union lr) c' \<and> request_permitted h (lr_union lr)"
  using assms
  by (auto simp: login_scope_def reset_session_scope_for_login_def kind_inv_def requested_kind_def request_permitted_def
      split: option.splits login_union.splits if_splits)

text \<open>(C28) A login request is authorized for what it asked and nothing else: the kind the connection is
  authorized as is the kind of the request, and the host's permission for that kind was on. A connection gets the socket of a
  forwarded port only when it is authorized, so it has none before.\<close>

theorem authorized_as_requested:
  assumes "\<not> cn_authorized c" "\<not> cn_port_forward_socket c"
    and "on_message h (Some (LoginRequest lr)) (c, w) = (keep, (c', w'))" "cn_authorized c'"
  shows "cn_authed_type c' = Some (requested_kind (lr_union lr)) \<and> request_permitted h (lr_union lr)"
proof -
  have m: "on_login_request h lr (c, w) = (keep, (c', w'))" using assms(1,3) by (simp add: on_message_def)
  define c1 where "c1 = after_request h lr c w"
  have h: "handle_login_request_without_validation h lr (c, w) = (c1, w)"
    using handle_login_request_simps(1) [of h lr c w] by (simp add: c1_def after_request_def prod_eq_iff)
  have c1: "\<not> cn_authorized c1" "cn_lr c1 = lr" "\<not> cn_port_forward_socket c1"
    using h assms(1,2) by (auto simp: handle_login_request_without_validation_def Let_def split: option.splits if_splits)
  obtain err c2 where sc: "login_scope h lr (reset_session_scope_for_login c1) = (err, c2)" by fastforce
  define st3 where "st3 = (if \<not> h_mobile h \<and> \<not> should_use_terminal_os_login_scope h (cn_terminal c2) (os_username (lr_os_login lr))
    then try_start_cm_ipc (c2, w) else (c2, w))"
  have n2: "\<not> cn_authorized c2" using login_scope_core [of h lr c1] sc c1(1) by (auto simp: auth_core_def)
  have "cn_authorized (fst (send_login_error e (c2, w))) = cn_authorized c2" for e
    using auth_core_sends(1) [of e "(c2, w)"] by (simp add: auth_core_def)
  then have "cn_authorized (fst (snd (on_login_request h lr (c, w)))) = cn_authorized c2 \<or>
      err = None \<and> on_login_request h lr (c, w) = login_desktop h lr st3"
    using c1(1) by (simp add: on_login_request_def h sc Let_def st3_def split: option.splits)
  then have e: "err = None" and d: "on_login_request h lr (c, w) = login_desktop h lr st3"
    using m assms(4) n2 by simp_all
  have i: "kind_inv (lr_union lr) c2 \<and> request_permitted h (lr_union lr)"
    using login_scope_kind [of h lr c1 c2] sc e c1 by simp
  then have "kind_inv (lr_union lr) (fst st3)" using kind_inv_cong [OF kind_core_event(4) [of "(c2, w)"]] by (simp add: st3_def)
  then have "kind_inv (lr_union lr) c'" using kind_inv_login_desktop [of "lr_union lr" st3 h lr] m unfolding d by simp
  then show ?thesis using i assms(4) by (simp add: kind_inv_def)
qed

theorem authorized_as_requested_witness:
  "cn_authed_type (fst (snd (on_message sample_host (Some (LoginRequest (sample_login None)))
     (sample_unauthorized\<lparr>cn_require_2fa := None\<rparr>, sample_world)))) = Some Remote"
proof -
  let ?c = "sample_unauthorized\<lparr>cn_require_2fa := None\<rparr>"
  obtain keep c' w' where m: "on_message sample_host (Some (LoginRequest (sample_login None))) (?c, sample_world) = (keep, (c', w'))"
    by (metis prod.collapse)
  have a: "cn_authorized c'" using sample_login_authorizes m by simp
  show ?thesis using authorized_as_requested [OF _ _ m a] m
    by (simp add: requested_kind_def sample_unauthorized_def sample_login_def)
qed

section \<open>Messages of the login on an authorized connection\<close>

text \<open>A second factor or an answer to a change of sides that comes late changes what is remembered about the peer, the table of
  failures, the trusted devices and the uuids, but neither ends the connection nor changes the kind of its session.\<close>

definition authorized_core :: "conn \<Rightarrow> bool \<times> auth_conn_type option" where
  "authorized_core c = (cn_authorized c, cn_authed_type c)"

lemma authorized_core_simps [simp]:
  "authorized_core (fst (event e st)) = authorized_core (fst st)"
  "authorized_core (fst (send_login_error m st)) = authorized_core (fst st)"
  "authorized_core (fst (try_start_cm st b)) = authorized_core (fst st)"
  "authorized_core (fst (try_start_cm_ipc st)) = authorized_core (fst st)"
  "authorized_core (fst (snd (conn_check_failure h i scope st))) = authorized_core (fst st)"
  "authorized_core (fst (conn_update_failure h f r i scope st)) = authorized_core (fst st)"
  "authorized_core (fst (handle_login_request_without_validation h lr st)) = authorized_core (fst st)"
  by (simp_all add: authorized_core_def event_def send_login_error_def try_start_cm_def try_start_cm_ipc_def conn_check_failure_def
      conn_update_failure_def handle_login_request_without_validation_def Let_def split: prod.splits option.splits)

lemma authorized_stays: "cn_authorized (fst st) \<Longrightarrow> send_logon_response_and_keep_alive h st = (True, st)"
  by (simp add: send_logon_response_and_keep_alive_def)

lemma authorized_kind_kept:
  assumes "cn_authorized c" and "msg = Auth2fa code hwid \<or> msg = SwitchSidesResponse u lr"
    and "authorized_scope_violation (h_windows h) (cn_authed_type c) (Some msg) = None"
  shows "fst (on_message h (Some msg) (c, w)) \<and> authorized_core (fst (snd (on_message h (Some msg) (c, w)))) = authorized_core c"
  using assms(2)
proof
  assume m: "msg = Auth2fa code hwid"
  obtain f res c1 w1 where k: "conn_check_failure h 1 Default (c, w) = ((f, res), (c1, w1))" by (metis prod.collapse)
  have a1: "authorized_core c1 = authorized_core c" using authorized_core_simps(5)[of h 1 Default "(c, w)"] unfolding k by simp
  have "fst (on_auth_2fa h code hwid (c, w)) \<and> authorized_core (fst (snd (on_auth_2fa h code hwid (c, w)))) = authorized_core c"
  proof (cases "\<exists>totp. cn_require_2fa c1 = Some totp \<and> totp code = Some True")
    case True
    obtain c2 w2 where u: "conn_update_failure h f True 1 Default (c1, w1) = (c2, w2)" by fastforce
    have "authorized_core c2 = authorized_core c" using authorized_core_simps(6)[of h f True 1 Default "(c1, w1)"] a1 unfolding u by simp
    then show ?thesis using True assms(1) a1
      by (auto simp: on_auth_2fa_def k[simplified] u[simplified] Let_def authorized_stays authorized_core_def case_prod_beta try_start_cm_def event_def)
  qed (use a1 in \<open>auto simp: on_auth_2fa_def k[simplified] Let_def split: option.splits bool.splits\<close>)
  then show ?thesis using m assms(1,3) by (simp add: on_message_def)
next
  assume m: "msg = SwitchSidesResponse u lr"
  have "fst (on_switch_sides_response h u lr (c, w)) \<and> authorized_core (fst (snd (on_switch_sides_response h u lr (c, w)))) = authorized_core c"
  proof (cases "if h_mobile h then None else lr")
    case (Some lr')
    obtain c1 w1 where l: "handle_login_request_without_validation h lr' (c, w) = (c1, w1)" by fastforce
    have "authorized_core c1 = authorized_core c" using authorized_core_simps(7)[of h lr' "(c, w)"] l by simp
    then have a: "cn_authorized c1" "cn_authed_type c1 = cn_authed_type c" using assms(1) by (simp_all add: authorized_core_def)
    have s: "send_logon_response_and_keep_alive h (c1\<lparr>cn_from_switch := True, cn_primary_auth := AuditSwitchSides\<rparr>, w') =
        (True, (c1\<lparr>cn_from_switch := True, cn_primary_auth := AuditSwitchSides\<rparr>, w'))" for w'
      using a(1) by (simp add: authorized_stays)
    show ?thesis using Some assms(1) a
      by (simp add: on_switch_sides_response_def l Let_def s) (simp add: authorized_core_def)
  qed (simp add: on_switch_sides_response_def)
  then show ?thesis using m assms(1,3) by (simp add: on_message_def)
qed

end
