(* ===== verification/FileSystem.thy ===== *)
theory FileSystem
  imports RustStr
begin

text \<open>
  What the components use of \<open>std::path\<close> and \<open>std::fs\<close>. A path is its text; on Windows the backslash
  separates too. The file system is a map from locations (names from the root) to nodes: a directory, a
  regular file, which is the number of its contents, or a symbolic link with an absolute target. Looking a
  path up follows links as the kernel does, at most forty of them; an open file refers to its contents, not
  to its name. The operating system may refuse to open or create at the locations \<open>fs_denied\<close>.
\<close>

section \<open>Path text\<close>

definition is_sep :: "bool \<Rightarrow> char \<Rightarrow> bool" where
  "is_sep windows c \<longleftrightarrow> c = CHR ''/'' \<or> windows \<and> c = CHR 0x5C"

definition main_sep :: "bool \<Rightarrow> char" where
  "main_sep windows = (if windows then CHR 0x5C else CHR ''/'')"

datatype component = RootDir | CurDir | ParentDir | Normal string

definition rooted :: "bool \<Rightarrow> string \<Rightarrow> bool" where
  "rooted windows p \<longleftrightarrow> p \<noteq> [] \<and> is_sep windows (hd p)"

definition seg_component :: "bool \<Rightarrow> string \<Rightarrow> component list" where
  "seg_component first s =
     (if s = [] then [] else if s = ''.'' then (if first then [CurDir] else [])
      else if s = ''..'' then [ParentDir] else [Normal s])"

text \<open>\<open>Path::components\<close>; the drive prefixes of Windows are left to the text of the first segment.\<close>

definition components :: "bool \<Rightarrow> string \<Rightarrow> component list" where
  "components windows p =
     (let segs = split_on (is_sep windows) p
      in (if rooted windows p then [RootDir] else []) @ seg_component True (hd segs) @
         concat (map (seg_component False) (tl segs)))"

text \<open>The names a path walks through.\<close>

definition segments :: "bool \<Rightarrow> string \<Rightarrow> string list" where
  "segments windows p = filter (\<lambda>s. s \<noteq> [] \<and> s \<noteq> ''.'') (split_on (is_sep windows) p)"

definition path_push :: "bool \<Rightarrow> string \<Rightarrow> string \<Rightarrow> string" where
  "path_push windows p name =
     (if rooted windows name then name
      else if p = [] \<or> is_sep windows (last p) then p @ name
      else p @ main_sep windows # name)"

definition path_parent :: "bool \<Rightarrow> string \<Rightarrow> string list" where
  "path_parent windows p = butlast (segments windows p)"

section \<open>State\<close>

type_synonym loc = "string list"

datatype node = Dir | File nat | Link loc

datatype io_kind = NotFound | PermissionDenied | AlreadyExists | NotADirectory | IsADirectory | FilesystemLoop
  | BadDescriptor | InvalidRename | DirectoryNotEmpty

record fs =
  fs_windows :: bool
  fs_names :: "loc \<rightharpoonup> node"
  fs_data :: "nat \<rightharpoonup> bytes \<times> int"
  fs_next :: nat
  fs_cwd :: loc
  fs_now :: int
  fs_denied :: "loc \<Rightarrow> bool"

definition node_at :: "fs \<Rightarrow> loc \<Rightarrow> node option" where
  "node_at f l = (if l = [] then Some Dir else fs_names f l)"

section \<open>Looking paths up\<close>

function walk :: "nat \<Rightarrow> fs \<Rightarrow> loc \<Rightarrow> string list \<Rightarrow> io_kind + loc" where
  "walk n f at [] = Inr at"
| "walk n f at (s # ss) =
     (if s = ''..'' then walk n f (butlast at) ss
      else case node_at f (at @ [s]) of
          None \<Rightarrow> if ss = [] then Inr (at @ [s]) else Inl NotFound
        | Some Dir \<Rightarrow> walk n f (at @ [s]) ss
        | Some (File i) \<Rightarrow> if ss = [] then Inr (at @ [s]) else Inl NotADirectory
        | Some (Link t) \<Rightarrow> (case n of 0 \<Rightarrow> Inl FilesystemLoop | Suc m \<Rightarrow> walk m f [] (t @ ss)))"
  by pat_completeness auto
termination
  by (relation "measures [\<lambda>(n, _, _, _). n, \<lambda>(_, _, _, ss). length ss]") auto

definition start_at :: "fs \<Rightarrow> string \<Rightarrow> loc" where
  "start_at f p = (if rooted (fs_windows f) p then [] else fs_cwd f)"

definition resolve :: "fs \<Rightarrow> string \<Rightarrow> io_kind + loc" where
  "resolve f p = walk 40 f (start_at f p) (segments (fs_windows f) p)"

text \<open>The location of the last name itself, should it be a link.\<close>

definition locate :: "fs \<Rightarrow> string \<Rightarrow> io_kind + loc" where
  "locate f p =
     (let segs = segments (fs_windows f) p in
      if segs = [] \<or> last segs = ''..'' then resolve f p
      else case walk 40 f (start_at f p) (butlast segs) of
          Inl e \<Rightarrow> Inl e
        | Inr d \<Rightarrow> (case node_at f d of
              Some Dir \<Rightarrow> Inr (d @ [last segs])
            | Some _ \<Rightarrow> Inl NotADirectory
            | None \<Rightarrow> Inl NotFound))"

definition look :: "fs \<Rightarrow> io_kind + loc \<Rightarrow> io_kind + node" where
  "look f r = (case r of
     Inl e \<Rightarrow> Inl e
   | Inr l \<Rightarrow> (case node_at f l of Some n \<Rightarrow> Inr n | None \<Rightarrow> Inl NotFound))"

definition symlink_metadata :: "fs \<Rightarrow> string \<Rightarrow> io_kind + node" where
  "symlink_metadata f p = look f (locate f p)"

definition stat :: "fs \<Rightarrow> string \<Rightarrow> io_kind + node" where
  "stat f p = look f (resolve f p)"

definition path_exists :: "fs \<Rightarrow> string \<Rightarrow> bool" where
  "path_exists f p \<longleftrightarrow> (case stat f p of Inr _ \<Rightarrow> True | Inl _ \<Rightarrow> False)"

definition path_is_dir :: "fs \<Rightarrow> string \<Rightarrow> bool" where
  "path_is_dir f p \<longleftrightarrow> stat f p = Inr Dir"

text \<open>The number of the regular file a path leads to, and its length and modification time.\<close>

definition file_at :: "fs \<Rightarrow> string \<Rightarrow> nat option" where
  "file_at f p = (case stat f p of Inr (File i) \<Rightarrow> Some i | _ \<Rightarrow> None)"

definition content :: "fs \<Rightarrow> nat \<Rightarrow> bytes" where
  "content f i = (case fs_data f i of Some (d, _) \<Rightarrow> d | None \<Rightarrow> [])"

definition mtime :: "fs \<Rightarrow> nat \<Rightarrow> int" where
  "mtime f i = (case fs_data f i of Some (_, t) \<Rightarrow> t | None \<Rightarrow> 0)"

definition file_content :: "fs \<Rightarrow> string \<Rightarrow> bytes option" where
  "file_content f p = map_option (content f) (file_at f p)"

section \<open>Changing the file system\<close>

definition ends_with_sep :: "fs \<Rightarrow> string \<Rightarrow> bool" where
  "ends_with_sep f p \<longleftrightarrow> p \<noteq> [] \<and> is_sep (fs_windows f) (last p)"

definition new_file :: "fs \<Rightarrow> loc \<Rightarrow> nat \<times> fs" where
  "new_file f l = (fs_next f, f\<lparr>fs_names := (fs_names f)(l \<mapsto> File (fs_next f)),
     fs_data := (fs_data f)(fs_next f \<mapsto> ([], fs_now f)), fs_next := Suc (fs_next f)\<rparr>)"

text \<open>\<open>File::create\<close> truncates what it finds, \<open>OpenOptions\<close> with \<open>create\<close> and \<open>write\<close> does not.\<close>

definition open_at :: "bool \<Rightarrow> bool \<Rightarrow> fs \<Rightarrow> string \<Rightarrow> io_kind + nat \<times> fs" where
  "open_at create trunc f p =
     (case resolve f p of
        Inl e \<Rightarrow> Inl e
      | Inr l \<Rightarrow>
          if fs_denied f l then Inl PermissionDenied
          else (case node_at f l of
              None \<Rightarrow> if \<not> create then Inl NotFound
                else if ends_with_sep f p then Inl IsADirectory else Inr (new_file f l)
            | Some Dir \<Rightarrow> Inl IsADirectory
            | Some (Link _) \<Rightarrow> Inl FilesystemLoop
            | Some (File i) \<Rightarrow>
                if ends_with_sep f p then Inl NotADirectory
                else Inr (i, if trunc then f\<lparr>fs_data := (fs_data f)(i \<mapsto> ([], fs_now f))\<rparr> else f)))"

definition file_create :: "fs \<Rightarrow> string \<Rightarrow> io_kind + nat \<times> fs" where
  "file_create = open_at True True"

definition file_open :: "fs \<Rightarrow> string \<Rightarrow> io_kind + nat" where
  "file_open f p = (case open_at False False f p of Inl e \<Rightarrow> Inl e | Inr (i, _) \<Rightarrow> Inr i)"

definition file_open_write :: "fs \<Rightarrow> string \<Rightarrow> io_kind + nat \<times> fs" where
  "file_open_write = open_at True False"

definition write_at :: "nat \<Rightarrow> nat \<Rightarrow> bytes \<Rightarrow> fs \<Rightarrow> fs" where
  "write_at i pos d f =
     (if d = [] then f
      else f\<lparr>fs_data := (fs_data f)(i \<mapsto>
        (take pos (content f i @ replicate (pos - length (content f i)) 0) @ d @ drop (pos + length d) (content f i), fs_now f))\<rparr>)"

definition fs_remove_file :: "fs \<Rightarrow> string \<Rightarrow> io_kind option \<times> fs" where
  "fs_remove_file f p =
     (case locate f p of
        Inl e \<Rightarrow> (Some e, f)
      | Inr l \<Rightarrow> (case node_at f l of
            None \<Rightarrow> (Some NotFound, f)
          | Some Dir \<Rightarrow> (Some IsADirectory, f)
          | Some _ \<Rightarrow> (None, f\<lparr>fs_names := (fs_names f)(l := None)\<rparr>)))"

definition below :: "loc \<Rightarrow> loc \<Rightarrow> bool" where
  "below d l \<longleftrightarrow> take (length d) l = d"

definition move :: "loc \<Rightarrow> loc \<Rightarrow> (loc \<rightharpoonup> node) \<Rightarrow> (loc \<rightharpoonup> node)" where
  "move a b m = (\<lambda>l. if below b l then m (a @ drop (length b) l) else if below a l then None else m l)"

definition fs_rename :: "fs \<Rightarrow> string \<Rightarrow> string \<Rightarrow> io_kind option \<times> fs" where
  "fs_rename f p q =
     (case (locate f p, locate f q) of
        (Inl e, _) \<Rightarrow> (Some e, f)
      | (_, Inl e) \<Rightarrow> (Some e, f)
      | (Inr a, Inr b) \<Rightarrow>
          if a = b then (if node_at f a = None then (Some NotFound, f) else (None, f))
          else (case (node_at f a, node_at f b) of
              (None, _) \<Rightarrow> (Some NotFound, f)
            | (Some Dir, Some Dir) \<Rightarrow> (Some AlreadyExists, f)
            | (Some Dir, None) \<Rightarrow> if a = [] \<or> below a b then (Some InvalidRename, f)
                else (None, f\<lparr>fs_names := move a b (fs_names f)\<rparr>)
            | (Some Dir, Some _) \<Rightarrow> (Some NotADirectory, f)
            | (Some n, Some Dir) \<Rightarrow> (Some IsADirectory, f)
            | (Some n, _) \<Rightarrow> (None, f\<lparr>fs_names := (fs_names f)(a := None, b \<mapsto> n)\<rparr>)))"

text \<open>\<open>create_dir_all\<close>, along the names of the path.\<close>

fun mkdirs :: "fs \<Rightarrow> loc \<Rightarrow> string list \<Rightarrow> string list \<Rightarrow> io_kind option \<times> fs" where
  "mkdirs f at pre [] = (None, f)"
| "mkdirs f at pre (s # ss) =
     (case walk 40 f at (pre @ [s]) of
        Inl e \<Rightarrow> (Some e, f)
      | Inr l \<Rightarrow> (case node_at f l of
            Some Dir \<Rightarrow> mkdirs f at (pre @ [s]) ss
          | Some _ \<Rightarrow> (Some AlreadyExists, f)
          | None \<Rightarrow> if fs_denied f l then (Some PermissionDenied, f)
              else mkdirs (f\<lparr>fs_names := (fs_names f)(l \<mapsto> Dir)\<rparr>) at (pre @ [s]) ss))"

definition create_dir_all :: "fs \<Rightarrow> loc \<Rightarrow> string list \<Rightarrow> io_kind option \<times> fs" where
  "create_dir_all f at segs = mkdirs f at [] segs"

definition set_file_mtime :: "fs \<Rightarrow> string \<Rightarrow> int \<Rightarrow> fs" where
  "set_file_mtime f p t =
     (case file_at f p of Some i \<Rightarrow> f\<lparr>fs_data := (fs_data f)(i \<mapsto> (content f i, t))\<rparr> | None \<Rightarrow> f)"

end
