(* ===== verification/TransferPaths.thy ===== *)
theory TransferPaths
  imports FileSystem
begin

text \<open>
  The checks a file transfer makes on names and paths, \<^verbatim>\<open>libs/hbb_common/src/fs.rs\<close>:
  \<open>validate_file_name_no_traversal\<close>, \<open>validate_transfer_file_names\<close>, \<open>validate_fs_path_argument\<close>,
  \<open>validate_no_symlink_components\<close>, \<open>join_validated_path\<close> and the operations of the file manager that use
  them. An error is \<open>Some\<close>; a message that would quote the path or the system's error is a constructor.
\<close>

datatype fs_error = Bail string | Io io_kind | ComponentCheck string io_kind

record file_entry =
  fe_name :: string
  fe_size :: "64 word"
  fe_modified_time :: int

section \<open>Names\<close>

definition is_ascii_alphabetic :: "char \<Rightarrow> bool" where
  "is_ascii_alphabetic c \<longleftrightarrow> (let n = (of_char c :: nat) in 65 \<le> n \<and> n \<le> 90 \<or> 97 \<le> n \<and> n \<le> 122)"

definition validate_file_name_no_traversal :: "bool \<Rightarrow> string \<Rightarrow> fs_error option" where
  "validate_file_name_no_traversal windows name =
     (if CHR 0x00 \<in> set name then Some (Bail ''file name contains null bytes'')
      else if ''..'' \<in> set (filter (\<lambda>s. s \<noteq> []) (split_on (is_sep windows) name))
        then Some (Bail ''path traversal detected in file name'')
      else if windows \<and> (2 \<le> length name \<and> is_ascii_alphabetic (name ! 0) \<and> name ! 1 = CHR '':'')
        then Some (Bail ''absolute path detected in file name'')
      else if name \<noteq> [] \<and> (hd name = CHR ''/'' \<or> windows \<and> hd name = CHR 0x5C)
        then Some (Bail ''absolute path detected in file name'')
      else None)"

fun validate_each_name :: "bool \<Rightarrow> file_entry list \<Rightarrow> fs_error option" where
  "validate_each_name windows [] = None"
| "validate_each_name windows (e # es) =
     (if fe_name e = [] then Some (Bail ''empty file name in multi-file transfer'')
      else case validate_file_name_no_traversal windows (fe_name e) of
          Some err \<Rightarrow> Some err
        | None \<Rightarrow> validate_each_name windows es)"

definition validate_transfer_file_names :: "bool \<Rightarrow> file_entry list \<Rightarrow> fs_error option" where
  "validate_transfer_file_names windows files =
     (if length files = 1 \<and> fe_name (hd files) = [] then None else validate_each_name windows files)"

definition validate_fs_path_argument :: "string \<Rightarrow> string \<Rightarrow> fs_error option" where
  "validate_fs_path_argument path arg_name =
     (if path = [] then Some (Bail (arg_name @ '' cannot be empty''))
      else if CHR 0x00 \<in> set path then Some (Bail (arg_name @ '' contains null bytes''))
      else None)"

section \<open>Paths\<close>

fun check_components :: "fs \<Rightarrow> string \<Rightarrow> component list \<Rightarrow> fs_error option" where
  "check_components f current [] = None"
| "check_components f current (Normal seg # cs) =
     (let current = path_push (fs_windows f) current seg in
      case symlink_metadata f current of
        Inr (Link _) \<Rightarrow> Some (Bail ''symlink path component is not allowed'')
      | Inr _ \<Rightarrow> check_components f current cs
      | Inl NotFound \<Rightarrow> check_components f current cs
      | Inl e \<Rightarrow> Some (ComponentCheck current e))"
| "check_components f current (CurDir # cs) = check_components f current cs"
| "check_components f current (_ # cs) = Some (Bail ''invalid file name component'')"

definition validate_no_symlink_components :: "fs \<Rightarrow> string \<Rightarrow> string \<Rightarrow> fs_error option" where
  "validate_no_symlink_components f base name =
     (if name = [] then None else check_components f base (components (fs_windows f) name))"

definition transfer_join :: "bool \<Rightarrow> string \<Rightarrow> string \<Rightarrow> string" where
  "transfer_join windows p name = (if name = [] then p else path_push windows p name)"

definition join_validated_path :: "fs \<Rightarrow> string \<Rightarrow> string \<Rightarrow> fs_error + string" where
  "join_validated_path f base name =
     (case validate_file_name_no_traversal (fs_windows f) name of
        Some e \<Rightarrow> Inl e
      | None \<Rightarrow> (case validate_no_symlink_components f base name of
            Some e \<Rightarrow> Inl e
          | None \<Rightarrow> Inr (transfer_join (fs_windows f) base name)))"

definition get_ext :: "string \<Rightarrow> string" where
  "get_ext name = (case rsplit_once (CHR ''.'') name of Some (_, ext) \<Rightarrow> ext | None \<Rightarrow> [])"

definition is_compressed_file :: "string \<Rightarrow> bool" where
  "is_compressed_file name \<longleftrightarrow> get_ext name \<in> set [''xz'', ''gz'', ''zip'', ''7z'', ''rar'', ''bz2'', ''tgz'', ''png'', ''jpg'']"

section \<open>The file manager's operations\<close>

definition io_result :: "io_kind option \<times> fs \<Rightarrow> fs_error option \<times> fs" where
  "io_result r = (map_option Io (fst r), snd r)"

definition remove_file :: "fs \<Rightarrow> string \<Rightarrow> fs_error option \<times> fs" where
  "remove_file f file =
     (case validate_fs_path_argument file ''file path'' of
        Some e \<Rightarrow> (Some e, f)
      | None \<Rightarrow> io_result (fs_remove_file f file))"

definition create_dir :: "fs \<Rightarrow> string \<Rightarrow> fs_error option \<times> fs" where
  "create_dir f dir =
     (case validate_fs_path_argument dir ''directory path'' of
        Some e \<Rightarrow> (Some e, f)
      | None \<Rightarrow> io_result (create_dir_all f (start_at f dir) (segments (fs_windows f) dir)))"

text \<open>\<open>Path::parent\<close> of the text of a path: up to its last separator, and none for the root alone.\<close>

definition parent_text :: "bool \<Rightarrow> string \<Rightarrow> string option" where
  "parent_text windows p =
     (let t = rev (dropWhile (is_sep windows) (rev p));
          d = rev (dropWhile (\<lambda>c. \<not> is_sep windows c) (rev t))
      in if t = [] then None
         else Some (let e = rev (dropWhile (is_sep windows) (rev d)) in if e = [] \<and> d \<noteq> [] then [hd d] else e))"

definition rename_file :: "fs \<Rightarrow> string \<Rightarrow> string \<Rightarrow> fs_error option \<times> fs" where
  "rename_file f path new_name =
     (case validate_fs_path_argument path ''path'' of
        Some e \<Rightarrow> (Some e, f)
      | None \<Rightarrow>
          if new_name = [] then (Some (Bail ''new file name cannot be empty''), f)
          else case validate_file_name_no_traversal (fs_windows f) new_name of
              Some e \<Rightarrow> (Some e, f)
            | None \<Rightarrow>
                if path_exists f path then
                  (case parent_text (fs_windows f) path of
                     None \<Rightarrow> (Some (Bail (''Parent directoy of '' @ path @ '' not exists'')), f)
                   | Some dir \<Rightarrow> io_result (fs_rename f path (path_push (fs_windows f) dir new_name)))
                else (Some (Bail (path @ '' not exists'')), f))"

definition transform_windows_path :: "file_entry list \<Rightarrow> file_entry list" where
  "transform_windows_path es = map (\<lambda>e. e\<lparr>fe_name := map (\<lambda>c. if c = CHR 0x5C then CHR ''/'' else c) (fe_name e)\<rparr>) es"

section \<open>Properties\<close>

lemma is_sep_main [simp]: "is_sep w (main_sep w)"
  by (simp add: is_sep_def main_sep_def)

lemma segments_push:
  assumes "\<not> rooted w name"
  shows "segments w (path_push w p name) = segments w p @ segments w name"
proof -
  have sep: "segments w (q @ c # t) = segments w q @ segments w t" if "is_sep w c" for q c t
    using that by (simp add: segments_def split_on_append_sep)
  consider "p = []" | q c where "p = q @ [c]" by (cases p rule: rev_cases) auto
  then show ?thesis
  proof cases
    case 1
    then show ?thesis using assms by (simp add: path_push_def segments_def)
  next
    case 2
    then show ?thesis
      using assms sep [of "main_sep w" p name] sep [of c q name] sep [of c q "[]"]
      by (cases "is_sep w c") (auto simp: path_push_def segments_def)
  qed
qed

lemma rooted_push: "\<not> rooted w name \<Longrightarrow> rooted w (path_push w p name) = rooted w p"
  by (auto simp: path_push_def rooted_def hd_append)

lemma start_at_push: "\<not> rooted (fs_windows f) name \<Longrightarrow> start_at f (path_push (fs_windows f) p name) = start_at f p"
  by (simp add: start_at_def rooted_push)

lemma walk_append:
  assumes "walk n f at xs = Inr d" "node_at f d = Some Dir"
  shows "\<exists>m. walk n f at (xs @ ys) = walk m f d ys"
  using assms
proof (induction n f at xs rule: walk.induct)
  case (1 n f at)
  then show ?case by auto
next
  case (2 n f at s ss)
  show ?case
  proof (cases "s = ''..''")
    case True
    then show ?thesis using 2 by simp
  next
    case False
    then show ?thesis using 2 by (auto split: option.splits node.splits nat.splits if_splits)
  qed
qed

text \<open>What passes the checks is a relative path of plain names.\<close>

lemma validated_name:
  assumes "validate_file_name_no_traversal w name = None"
  shows "\<not> rooted w name" "''..'' \<notin> set (split_on (is_sep w) name)" "CHR 0x00 \<notin> set name"
  using assms by (auto simp: validate_file_name_no_traversal_def rooted_def is_sep_def split: if_splits)

lemma components_plain:
  assumes "\<not> rooted w name" "''..'' \<notin> set (split_on (is_sep w) name)"
  shows "\<exists>c \<in> {[], [CurDir]}. components w name = c @ map Normal (segments w name)"
proof -
  obtain s ss where s: "split_on (is_sep w) name = s # ss" by (cases "split_on (is_sep w) name") auto
  have rest: "concat (map (seg_component False) xs) = map Normal (filter (\<lambda>s. s \<noteq> [] \<and> s \<noteq> ''.'') xs)" if "''..'' \<notin> set xs" for xs
    using that by (induction xs) (auto simp: seg_component_def)
  show ?thesis using assms rest [of ss] by (auto simp: components_def segments_def s seg_component_def)
qed

lemma segments_plain:
  assumes "s \<in> set (segments w name)"
  shows "s \<noteq> []" "s \<noteq> ''.''" "\<not> rooted w s" "segments w s = [s]"
proof -
  have s: "s \<in> set (split_on (is_sep w) name)" "s \<noteq> []" "s \<noteq> ''.''" using assms by (auto simp: segments_def)
  then have "\<forall>c \<in> set s. \<not> is_sep w c" using split_on_pieces [OF s(1)] by simp
  then show "s \<noteq> []" "s \<noteq> ''.''" "\<not> rooted w s" "segments w s = [s]"
    using s by (auto simp: rooted_def segments_def split_on_none)
qed

lemma checked_walk:
  assumes "check_components f current (map Normal ss) = None" "resolve f current = Inr at" "node_at f at = Some Dir"
    and "\<forall>s \<in> set ss. s \<noteq> ''..'' \<and> \<not> rooted (fs_windows f) s \<and> segments (fs_windows f) s = [s]" "walk m f at ss = Inr l"
  shows "l = at @ ss"
  using assms
proof (induction ss arbitrary: current at m)
  case (Cons s ss)
  let ?w = "fs_windows f" let ?current = "path_push ?w current s"
  have s: "s \<noteq> ''..''" "\<not> rooted ?w s" "segments ?w s = [s]" using Cons.prems(4) by auto
  have segs: "segments ?w ?current = segments ?w current @ [s]" using segments_push [OF s(2)] s(3) by simp
  have "locate f ?current = Inr (at @ [s])"
    using Cons.prems(2,3) s(1) by (simp add: locate_def segs start_at_push [OF s(2)] resolve_def)
  then have meta: "symlink_metadata f ?current = (case node_at f (at @ [s]) of Some n \<Rightarrow> Inr n | None \<Rightarrow> Inl NotFound)"
    by (simp add: symlink_metadata_def look_def)
  obtain m' where m': "resolve f ?current = walk m' f at [s]"
    using walk_append [of 40 f "start_at f current" "segments ?w current" at "[s]"] Cons.prems(2,3)
    by (auto simp: resolve_def segs start_at_push [OF s(2)])
  show ?case
  proof (cases "node_at f (at @ [s])")
    case None
    then show ?thesis using Cons.prems(5) s(1) by (auto split: if_splits)
  next
    case (Some n)
    show ?thesis
    proof (cases n)
      case Dir
      have "check_components f ?current (map Normal ss) = None" using Cons.prems(1) meta Some Dir by (simp add: Let_def)
      moreover have "resolve f ?current = Inr (at @ [s])" using m' Some Dir s(1) by simp
      ultimately have "l = (at @ [s]) @ ss"
        using Some Dir Cons.prems(4,5) s(1) by (intro Cons.IH [of ?current "at @ [s]" m]) auto
      then show ?thesis by simp
    next
      case (File i)
      then show ?thesis using Cons.prems(5) Some s(1) by (auto split: if_splits)
    next
      case (Link t)
      then show ?thesis using Cons.prems(1) meta Some by (simp add: Let_def)
    qed
  qed
qed simp

text \<open>(C16) What a peer may name stays inside: if a name in a transfer passes the checks against the
  directory of the transfer, it has no null byte and no parent component, and the path it is joined to
  leads, links followed, to the place below that directory the name spells, or nowhere.\<close>

theorem accepted_names_stay_inside:
  assumes "join_validated_path f base name = Inr p" and "resolve f base = Inr d" and "node_at f d = Some Dir"
  shows "''..'' \<notin> set (segments (fs_windows f) name) \<and> CHR 0x00 \<notin> set name \<and>
    (case resolve f p of Inr l \<Rightarrow> l = d @ segments (fs_windows f) name | Inl _ \<Rightarrow> True)"
proof -
  let ?w = "fs_windows f"
  have v: "validate_file_name_no_traversal ?w name = None" and c: "validate_no_symlink_components f base name = None"
    and p: "p = transfer_join ?w base name"
    using assms(1) by (auto simp: join_validated_path_def split: option.splits)
  note n = validated_name [OF v]
  have dots: "''..'' \<notin> set (segments ?w name)" using n(2) by (auto simp: segments_def)
  have inside: "l = d @ segments ?w name" if "resolve f p = Inr l" for l
  proof (cases "name = []")
    case True
    then show ?thesis using that assms(2) by (simp add: p transfer_join_def segments_def)
  next
    case False
    obtain cs where cs: "cs \<in> {[], [CurDir]}" "components ?w name = cs @ map Normal (segments ?w name)"
      using components_plain [OF n(1,2)] by blast
    have check: "check_components f base (map Normal (segments ?w name)) = None"
      using c False cs by (auto simp: validate_no_symlink_components_def)
    obtain m where "resolve f p = walk m f d (segments ?w name)"
      using walk_append [of 40 f "start_at f base" "segments ?w base" d "segments ?w name"] assms(2,3) False n(1)
      by (auto simp: p transfer_join_def resolve_def segments_push start_at_push)
    then show ?thesis
      using that checked_walk [OF check assms(2,3), of m l] dots segments_plain [of _ ?w name] by auto
  qed
  show ?thesis using dots n(3) inside by (simp split: sum.splits)
qed

theorem accepted_names_stay_inside_witness:
  "join_validated_path \<lparr>fs_windows = False, fs_names = [[''t''] \<mapsto> Dir, [''l''] \<mapsto> Link [''t'']], fs_data = Map.empty, fs_next = 0, fs_cwd = [],
      fs_now = 0, fs_denied = (\<lambda>_. False)\<rparr> ''/l'' ''s/a'' = Inr ''/l/s/a'' \<and> ''..'' \<notin> set (segments False ''s/a'')"
proof -
  let ?f = "\<lparr>fs_windows = False, fs_names = [[''t''] \<mapsto> Dir, [''l''] \<mapsto> Link [''t'']], fs_data = Map.empty, fs_next = 0, fs_cwd = [],
      fs_now = 0, fs_denied = (\<lambda>_. False)\<rparr>"
  have "join_validated_path ?f ''/l'' ''s/a'' = Inr ''/l/s/a''" "resolve ?f ''/l'' = Inr [''t'']" "node_at ?f [''t''] = Some Dir"
    by code_simp+
  then show ?thesis using accepted_names_stay_inside [of ?f "''/l''" "''s/a''" "''/l/s/a''" "[''t'']"] by simp
qed

end
