(* ===== verification/Compress.thy ===== *)
theory Compress
  imports Prelude
begin

text \<open>
  \<^verbatim>\<open>libs/hbb_common/src/compress.rs\<close>: compression falls back to an empty result when zstd fails. The two
  functions of zstd are parameters.
\<close>

type_synonym codec = "bytes \<Rightarrow> bytes option"

definition compress :: "codec \<Rightarrow> bytes \<Rightarrow> bytes" where
  "compress zstd d = (case zstd d of Some r \<Rightarrow> r | None \<Rightarrow> [])"

definition decompress :: "codec \<Rightarrow> bytes \<Rightarrow> bytes" where
  "decompress unzstd d = (case unzstd d of Some r \<Rightarrow> r | None \<Rightarrow> [])"

text \<open>What is documented of zstd: it compresses any data, and decompressing gives the data back.\<close>

definition zstd_ok :: "codec \<Rightarrow> codec \<Rightarrow> bool" where
  "zstd_ok zstd unzstd \<longleftrightarrow> (\<forall>x. \<exists>r. zstd x = Some r \<and> unzstd r = Some x)"

lemma decompress_compress [simp]: "zstd_ok zstd unzstd \<Longrightarrow> decompress unzstd (compress zstd x) = x"
  by (auto simp: zstd_ok_def compress_def decompress_def dest!: spec [of _ x])

end
