(* ===== verification/TransferJobs.thy ===== *)
theory TransferJobs
  imports TransferPaths Compress
begin

text \<open>
  Transfer jobs, \<^verbatim>\<open>libs/hbb_common/src/fs.rs\<close> (\<open>TransferJob\<close>, \<open>handle_read_jobs\<close>,
  \<open>is_write_need_confirmation\<close>). The sending end reads files into blocks, the
  receiving end writes each file under its name with \<open>.download\<close> added and renames it when the next file
  starts or the job is done. What the code takes from other crates is the record \<open>transfer_env\<close>: the zstd
  codec, the JSON text of a digest, and how much one read returns.
\<close>

section \<open>Data\<close>

datatype job_type = Generic | Printer

datatype data_source = FilePath string | MemoryCursor bytes

datatype data_stream = FileStream nat nat bool | BufStream bytes nat

record file_digest =
  fd_size :: nat
  fd_modified :: int

record transfer_job =
  tj_id :: int
  tj_type :: job_type
  tj_source :: data_source
  tj_is_last_job :: bool
  tj_is_resume :: bool
  tj_file_num :: int
  tj_files :: "file_entry list"
  tj_stream :: "data_stream option"
  tj_total_size :: "64 word"
  tj_finished_size :: "64 word"
  tj_transferred :: "64 word"
  tj_overwrite_detection :: bool
  tj_confirmed :: bool
  tj_skipped :: bool
  tj_waiting :: bool
  tj_strategy :: "bool option"
  tj_digest :: file_digest

record file_block =
  bk_id :: int
  bk_file_num :: int
  bk_data :: bytes
  bk_compressed :: bool

record transfer_digest =
  dg_id :: int
  dg_file_num :: int
  dg_last_modified :: int
  dg_file_size :: nat
  dg_is_identical :: bool
  dg_transferred_size :: nat
  dg_is_resume :: bool

datatype confirm_union = Skip bool | OffsetBlk u32

record send_confirm =
  cq_id :: int
  cq_file_num :: int
  cq_union :: "confirm_union option"

datatype file_response = DigestResponse transfer_digest | BlockResponse file_block | ErrorResponse int fs_error int
  | SkippedResponse int int | DoneResponse int int

record transfer_env =
  te_zstd :: "bytes \<Rightarrow> bytes option"
  te_unzstd :: "bytes \<Rightarrow> bytes option"
  te_digest_text :: "file_digest \<Rightarrow> bytes"
  te_digest_parse :: "bytes \<Rightarrow> file_digest option"
  te_read_size :: "nat \<Rightarrow> nat"
  te_sync :: "nat \<Rightarrow> io_kind option"

text \<open>Modification times are kept in nanoseconds, messages carry whole seconds.\<close>

definition NANOS :: int where "NANOS = 1000000000"

text \<open>\<open>n as usize\<close> of an \<open>i32\<close>.\<close>

definition as_usize :: "int \<Rightarrow> nat" where
  "as_usize n = nat (n mod 18446744073709551616)"

definition new_write :: "int \<Rightarrow> job_type \<Rightarrow> data_source \<Rightarrow> int \<Rightarrow> bool \<Rightarrow> transfer_job" where
  "new_write job_id ty source file_num detection =
     \<lparr>tj_id = job_id, tj_type = ty, tj_source = source, tj_is_last_job = False, tj_is_resume = False, tj_file_num = file_num,
      tj_files = [], tj_stream = None, tj_total_size = 0, tj_finished_size = 0, tj_transferred = 0,
      tj_overwrite_detection = detection, tj_confirmed = False, tj_skipped = False, tj_waiting = False, tj_strategy = None,
      tj_digest = \<lparr>fd_size = 0, fd_modified = 0\<rparr>\<rparr>"

definition sum_sizes :: "file_entry list \<Rightarrow> 64 word" where
  "sum_sizes es = sum_list (map fe_size es)"

fun check_links :: "fs \<Rightarrow> string \<Rightarrow> file_entry list \<Rightarrow> fs_error option" where
  "check_links f base [] = None"
| "check_links f base (e # es) =
     (case validate_no_symlink_components f base (fe_name e) of Some err \<Rightarrow> Some err | None \<Rightarrow> check_links f base es)"

definition set_files :: "fs \<Rightarrow> file_entry list \<Rightarrow> transfer_job \<Rightarrow> fs_error option \<times> transfer_job" where
  "set_files f files job =
     (case validate_transfer_file_names (fs_windows f) files of
        Some e \<Rightarrow> (Some e, job)
      | None \<Rightarrow>
          (case (case tj_source job of FilePath base \<Rightarrow> check_links f base files | MemoryCursor _ \<Rightarrow> None) of
             Some e \<Rightarrow> (Some e, job)
           | None \<Rightarrow> (None, job\<lparr>tj_total_size := sum_sizes files, tj_files := files\<rparr>)))"

definition set_digest :: "nat \<Rightarrow> int \<Rightarrow> transfer_job \<Rightarrow> transfer_job" where
  "set_digest sz modified job = job\<lparr>tj_digest := \<lparr>fd_size = sz, fd_modified = modified\<rparr>\<rparr>"

definition set_finished_size_on_resume :: "transfer_job \<Rightarrow> transfer_job" where
  "set_finished_size_on_resume job =
     (if tj_is_resume job \<and> tj_file_num job > 0
      then job\<lparr>tj_finished_size := sum_sizes (take (as_usize (tj_file_num job)) (tj_files job))\<rparr> else job)"

section \<open>Writing\<close>

definition resolve_entry_path :: "fs \<Rightarrow> transfer_job \<Rightarrow> string \<Rightarrow> string \<Rightarrow> string option" where
  "resolve_entry_path f job base name =
     (if tj_type job = Generic then
        (case join_validated_path f base name of Inr path \<Rightarrow> Some path | Inl _ \<Rightarrow> None)
      else Some (transfer_join (fs_windows f) base name))"

definition download_path :: "string \<Rightarrow> string" where "download_path p = p @ ''.download''"
definition digest_path :: "string \<Rightarrow> string" where "digest_path p = p @ ''.digest''"

text \<open>The entry and the path of the current file of a job that keeps its files in a directory.\<close>

definition current_entry :: "fs \<Rightarrow> transfer_job \<Rightarrow> (file_entry \<times> string) option" where
  "current_entry f job =
     (if tj_type job = Printer then None
      else case tj_source job of
          MemoryCursor _ \<Rightarrow> None
        | FilePath p \<Rightarrow>
            if as_usize (tj_file_num job) < length (tj_files job) then
              (let entry = tj_files job ! as_usize (tj_file_num job)
               in map_option (\<lambda>path. (entry, path)) (resolve_entry_path f job p (fe_name entry)))
            else None)"

definition modify_time :: "fs \<Rightarrow> transfer_job \<Rightarrow> fs" where
  "modify_time f job =
     (case current_entry f job of
        None \<Rightarrow> f
      | Some (entry, path) \<Rightarrow>
          (let f = snd (fs_remove_file f (digest_path path));
               f = snd (fs_rename f (download_path path) path)
           in set_file_mtime f path (fe_modified_time entry * NANOS)))"

definition remove_download_file :: "fs \<Rightarrow> transfer_job \<Rightarrow> fs" where
  "remove_download_file f job =
     (case current_entry f job of
        None \<Rightarrow> f
      | Some (_, path) \<Rightarrow> snd (fs_remove_file (snd (fs_remove_file f (download_path path))) (digest_path path)))"

definition fs_write :: "fs \<Rightarrow> string \<Rightarrow> bytes \<Rightarrow> fs" where
  "fs_write f p d = (case file_create f p of Inl _ \<Rightarrow> f | Inr (i, f) \<Rightarrow> write_at i 0 d f)"

text \<open>The directory, digest and file of a file that starts.\<close>

definition open_download :: "transfer_env \<Rightarrow> fs \<Rightarrow> transfer_job \<Rightarrow> string \<Rightarrow> fs_error option \<times> transfer_job \<times> fs" where
  "open_download env f job path =
     (let f = snd (create_dir_all f (start_at f path) (path_parent (fs_windows f) path));
          (err, f) = (if path_exists f (digest_path path) then fs_remove_file f (digest_path path) else (None, f))
      in case err of
           Some e \<Rightarrow> (Some (Io e), job, f)
         | None \<Rightarrow>
             (case file_create f (download_path path) of
                Inl e \<Rightarrow> (Some (Io e), job, f)
              | Inr (i, f) \<Rightarrow>
                  (None, job\<lparr>tj_stream := Some (FileStream i 0 True)\<rparr>,
                   fs_write f (digest_path path) (te_digest_text env (tj_digest job)))))"

text \<open>\<open>sync_all\<close> of the file that was written before; what it returns is an argument.\<close>

definition sync_stream :: "transfer_env \<Rightarrow> transfer_job \<Rightarrow> io_kind option" where
  "sync_stream env job = (case tj_stream job of Some (FileStream i _ _) \<Rightarrow> te_sync env i | _ \<Rightarrow> None)"

definition start_file :: "transfer_env \<Rightarrow> fs \<Rightarrow> transfer_job \<Rightarrow> string \<Rightarrow> int \<Rightarrow> fs_error option \<times> transfer_job \<times> fs" where
  "start_file env f job p file_num =
     (let f = modify_time f job in
      case sync_stream env job of
        Some e \<Rightarrow> (Some (Io e), job, f)
      | None \<Rightarrow>
         let job = job\<lparr>tj_file_num := file_num\<rparr>; entry = tj_files job ! as_usize file_num
         in if tj_type job = Printer then
           (case file_create f p of
              Inl e \<Rightarrow> (Some (Io e), job, f)
            | Inr (i, f) \<Rightarrow> (None, job\<lparr>tj_stream := Some (FileStream i 0 True)\<rparr>, f))
         else
           (case join_validated_path f p (fe_name entry) of
              Inl e \<Rightarrow> (Some e, job, f)
            | Inr path \<Rightarrow> open_download env f job path))"

definition prepare_write :: "transfer_env \<Rightarrow> fs \<Rightarrow> transfer_job \<Rightarrow> file_block \<Rightarrow> fs_error option \<times> transfer_job \<times> fs" where
  "prepare_write env f job blk =
     (case tj_source job of
        FilePath p \<Rightarrow>
          if as_usize (bk_file_num blk) \<ge> length (tj_files job) then (Some (Bail ''Wrong file number''), job, f)
          else if as_usize (bk_file_num blk) \<noteq> as_usize (tj_file_num job) \<or> tj_stream job = None
            then start_file env f job p (bk_file_num blk)
          else (None, job, f)
      | MemoryCursor c \<Rightarrow>
          (None, if tj_stream job = None then job\<lparr>tj_stream := Some (BufStream c 0)\<rparr> else job, f))"

definition write_all :: "data_stream \<Rightarrow> bytes \<Rightarrow> fs \<Rightarrow> io_kind + data_stream \<times> fs" where
  "write_all s d f =
     (if d = [] then Inr (s, f)
      else case s of
          FileStream i pos writable \<Rightarrow>
            if writable then Inr (FileStream i (pos + length d) True, write_at i pos d f) else Inl BadDescriptor
        | BufStream b pos \<Rightarrow>
            Inr (BufStream (take pos (b @ replicate (pos - length b) 0) @ d @ drop (pos + length d) b) (pos + length d), f))"

definition append_block :: "transfer_env \<Rightarrow> file_block \<Rightarrow> transfer_job \<Rightarrow> fs \<Rightarrow> fs_error option \<times> transfer_job \<times> fs" where
  "append_block env blk job f =
     (let d = (if bk_compressed blk then decompress (te_unzstd env) (bk_data blk) else bk_data blk) in
      case tj_stream job of
        None \<Rightarrow> (Some (Bail (if bk_compressed blk then ''data stream is None'' else ''file is None'')), job, f)
      | Some s \<Rightarrow>
          (case write_all s d f of
             Inl e \<Rightarrow> (Some (Io e), job, f)
           | Inr (s, f) \<Rightarrow>
               (None, job\<lparr>tj_stream := Some s, tj_finished_size := tj_finished_size job + word_of_nat (length d),
                  tj_transferred := tj_transferred job + word_of_nat (length (bk_data blk))\<rparr>, f)))"

definition job_write :: "transfer_env \<Rightarrow> file_block \<Rightarrow> transfer_job \<times> fs \<Rightarrow> fs_error option \<times> transfer_job \<times> fs" where
  "job_write env blk = (\<lambda>(job, f).
     if bk_id blk \<noteq> tj_id job then (Some (Bail ''Wrong id''), job, f)
     else case prepare_write env f job blk of
         (Some e, job, f) \<Rightarrow> (Some e, job, f)
       | (None, job, f) \<Rightarrow> append_block env blk job f)"

section \<open>Reading\<close>

definition BUF_SIZE :: nat where "BUF_SIZE = 128 * 1024"

text \<open>The loop that fills the buffer: each read returns some of what is left of the data, nothing at its end.\<close>

function fill_buf :: "(nat \<Rightarrow> nat) \<Rightarrow> bytes \<Rightarrow> nat \<Rightarrow> bytes \<Rightarrow> bytes \<times> nat" where
  "fill_buf read_size d pos buf =
     (let n = min (read_size pos) (min (BUF_SIZE - length buf) (length d - pos));
          buf' = buf @ take n (drop pos d)
      in if n = 0 \<or> length buf' = BUF_SIZE then (buf', pos + n) else fill_buf read_size d (pos + n) buf')"
  by pat_completeness auto
termination
  by (relation "measure (\<lambda>(_, _, _, buf). BUF_SIZE - length buf)") (auto simp: min_def split: if_splits)

declare fill_buf.simps [simp del]

definition stream_fill :: "transfer_env \<Rightarrow> fs \<Rightarrow> data_stream \<Rightarrow> io_kind + bytes \<times> data_stream" where
  "stream_fill env f s =
     (case s of
        FileStream i pos writable \<Rightarrow>
          if writable then Inl BadDescriptor
          else (let (buf, pos) = fill_buf (te_read_size env) (content f i) pos [] in Inr (buf, FileStream i pos False))
      | BufStream b pos \<Rightarrow> (let (buf, pos) = fill_buf (te_read_size env) b pos [] in Inr (buf, BufStream b pos)))"

definition next_file :: "transfer_job \<Rightarrow> transfer_job" where
  "next_file job = job\<lparr>tj_file_num := wrap_i32 (tj_file_num job + 1), tj_stream := None, tj_confirmed := False, tj_waiting := False\<rparr>"

definition open_data_stream :: "fs \<Rightarrow> transfer_job \<Rightarrow> (fs_error + bool) \<times> transfer_job" where
  "open_data_stream f job =
     (case tj_source job of
        FilePath p \<Rightarrow>
          if as_usize (tj_file_num job) \<ge> length (tj_files job) then (Inr True, job\<lparr>tj_stream := None\<rparr>)
          else if tj_stream job = None then
            (case file_open f (transfer_join (fs_windows f) p (fe_name (tj_files job ! as_usize (tj_file_num job)))) of
               Inr i \<Rightarrow> (Inr False, job\<lparr>tj_stream := Some (FileStream i 0 False), tj_confirmed := False, tj_waiting := False\<rparr>)
             | Inl e \<Rightarrow> (Inl (Io e), job\<lparr>tj_file_num := wrap_i32 (tj_file_num job + 1), tj_confirmed := False, tj_waiting := False\<rparr>))
          else (Inr False, job)
      | MemoryCursor c \<Rightarrow>
          if tj_stream job = None
          then (Inr False, job\<lparr>tj_source := MemoryCursor [], tj_stream := Some (BufStream c 0)\<rparr>)
          else (Inr False, job))"

definition get_current_digest :: "fs \<Rightarrow> transfer_job \<Rightarrow> fs_error + int \<times> nat" where
  "get_current_digest f job =
     (case tj_stream job of
        None \<Rightarrow> Inl (Bail ''file is None'')
      | Some (FileStream i _ _) \<Rightarrow>
          if mtime f i < 0 then Inl (Bail ''second time provided was later than self'')
          else Inr (mtime f i div NANOS, length (content f i))
      | Some (BufStream _ _) \<Rightarrow> Inl (Bail ''No digest for buf stream''))"

definition asks_confirmation :: "transfer_job \<Rightarrow> bool" where
  "asks_confirmation job \<longleftrightarrow>
     tj_type job = Generic \<and> tj_overwrite_detection job \<and> \<not> tj_confirmed job \<and> \<not> tj_waiting job"

definition send_current_digest :: "fs \<Rightarrow> transfer_job \<Rightarrow> fs_error + transfer_digest" where
  "send_current_digest f job =
     (case get_current_digest f job of
        Inl e \<Rightarrow> Inl e
      | Inr (last_modified, file_size) \<Rightarrow>
          Inr \<lparr>dg_id = tj_id job, dg_file_num = tj_file_num job, dg_last_modified = last_modified, dg_file_size = file_size,
               dg_is_identical = False, dg_transferred_size = 0, dg_is_resume = tj_is_resume job\<rparr>)"

definition init_data_stream :: "fs \<Rightarrow> transfer_job \<Rightarrow> fs_error option \<times> transfer_job \<times> file_response list" where
  "init_data_stream f job =
     (case open_data_stream f job of
        (Inl e, job) \<Rightarrow> (Some e, job, [])
      | (Inr True, job) \<Rightarrow> (None, job, [])
      | (Inr False, job) \<Rightarrow>
          if asks_confirmation job then
            (case send_current_digest f job of
               Inl e \<Rightarrow> (Some e, job, [])
             | Inr dg \<Rightarrow> (None, job\<lparr>tj_waiting := True\<rparr>, [DigestResponse dg]))
          else (None, job, []))"

definition init_data_stream_for_cm :: "fs \<Rightarrow> transfer_job \<Rightarrow> (fs_error + (int \<times> nat) option) \<times> transfer_job" where
  "init_data_stream_for_cm f job =
     (case open_data_stream f job of
        (Inl e, job) \<Rightarrow> (Inl e, job)
      | (Inr True, job) \<Rightarrow> (Inr None, job)
      | (Inr False, job) \<Rightarrow>
          if asks_confirmation job then
            (case get_current_digest f job of
               Inl e \<Rightarrow> (Inl e, job)
             | Inr dg \<Rightarrow> (Inr (Some dg), job\<lparr>tj_waiting := True\<rparr>))
          else (Inr None, job))"

definition file_name_of :: "bool \<Rightarrow> string \<Rightarrow> string" where
  "file_name_of windows p = (case segments windows p of [] \<Rightarrow> [] | ss \<Rightarrow> if last ss = ''..'' then [] else last ss)"

text \<open>The name that decides whether a block is worth compressing.\<close>

definition read_name :: "fs \<Rightarrow> transfer_job \<Rightarrow> string" where
  "read_name f job =
     (case tj_source job of
        FilePath p \<Rightarrow>
          (let name = fe_name (tj_files job ! as_usize (tj_file_num job))
           in if length (tj_files job) = 1 \<and> name = [] then file_name_of (fs_windows f) p else name)
      | MemoryCursor _ \<Rightarrow> [])"

definition is_file_source :: "data_source \<Rightarrow> bool" where
  "is_file_source s = (case s of FilePath _ \<Rightarrow> True | MemoryCursor _ \<Rightarrow> False)"

definition pack_block :: "transfer_env \<Rightarrow> bool \<Rightarrow> bytes \<Rightarrow> bytes \<times> bool" where
  "pack_block env compressible buf =
     (let tmp = compress (te_zstd env) buf in
      if compressible \<and> length tmp < length buf then (tmp, True) else (buf, False))"

definition job_read :: "transfer_env \<Rightarrow> fs \<Rightarrow> transfer_job \<Rightarrow> (fs_error + file_block option) \<times> transfer_job" where
  "job_read env f job =
     (if tj_type job = Generic \<and> tj_overwrite_detection job \<and> \<not> tj_confirmed job then (Inr None, job)
      else if is_file_source (tj_source job) \<and> as_usize (tj_file_num job) \<ge> length (tj_files job)
        then (Inr None, job\<lparr>tj_stream := None\<rparr>)
      else case tj_stream job of
          None \<Rightarrow> (Inl (Bail ''data stream is None''), job)
        | Some s \<Rightarrow>
            (case stream_fill env f s of
               Inl e \<Rightarrow> (Inl (Io e), next_file job)
             | Inr (buf, s) \<Rightarrow>
                 if buf = [] then
                   (if is_file_source (tj_source job) then
                      (Inr (Some \<lparr>bk_id = tj_id job, bk_file_num = tj_file_num job, bk_data = [], bk_compressed = False\<rparr>), next_file job)
                    else (Inr None, job\<lparr>tj_stream := None\<rparr>))
                 else
                   (let (d, compressed) = pack_block env (is_file_source (tj_source job) \<and> \<not> is_compressed_file (read_name f job)) buf
                    in (Inr (Some \<lparr>bk_id = tj_id job, bk_file_num = tj_file_num job, bk_data = d, bk_compressed = compressed\<rparr>),
                        job\<lparr>tj_stream := Some s, tj_finished_size := tj_finished_size job + word_of_nat (length buf),
                            tj_transferred := tj_transferred job + word_of_nat (length d)\<rparr>))))"

section \<open>Confirmation\<close>

definition set_file_confirmed :: "bool \<Rightarrow> transfer_job \<Rightarrow> transfer_job" where
  "set_file_confirmed b job = job\<lparr>tj_confirmed := b, tj_skipped := False\<rparr>"

definition set_file_skipped :: "transfer_job \<Rightarrow> transfer_job" where
  "set_file_skipped job =
     (set_file_confirmed False (job\<lparr>tj_stream := None\<rparr>))\<lparr>tj_waiting := False, tj_file_num := wrap_i32 (tj_file_num job + 1), tj_skipped := True\<rparr>"

definition job_skipped :: "transfer_job \<Rightarrow> bool" where
  "job_skipped job \<longleftrightarrow> tj_skipped job \<and> length (tj_files job) = 1"

definition job_completed :: "transfer_job \<Rightarrow> bool" where
  "job_completed job \<longleftrightarrow> \<not> tj_overwrite_detection job \<or> \<not> tj_confirmed job \<and> \<not> tj_waiting job"

text \<open>\<open>None\<close> is the panic of an index out of range.\<close>

definition set_stream_offset :: "nat \<Rightarrow> nat \<Rightarrow> transfer_job \<times> fs \<Rightarrow> (transfer_job \<times> fs) option" where
  "set_stream_offset n offset = (\<lambda>(job, f).
     case tj_source job of
       MemoryCursor _ \<Rightarrow> Some (job, f)
     | FilePath p \<Rightarrow>
         if n \<ge> length (tj_files job) then None
         else Some (case resolve_entry_path f job p (fe_name (tj_files job ! n)) of
             None \<Rightarrow> (job, f)
           | Some path \<Rightarrow>
               (let opened = (if path_exists f (download_path path) \<and> path_exists f (digest_path path)
                              then (case file_open_write f (download_path path) of
                                  Inr (i, f) \<Rightarrow> Some (i, f, True) | Inl _ \<Rightarrow> None)
                              else if path_exists f path then (case file_open f path of Inr i \<Rightarrow> Some (i, f, False) | Inl _ \<Rightarrow> None)
                              else None)
                in case opened of
                     None \<Rightarrow> (job, f)
                   | Some (i, f, writable) \<Rightarrow>
                       (job\<lparr>tj_stream := Some (FileStream i offset writable),
                            tj_transferred := tj_transferred job + word_of_nat offset,
                            tj_finished_size := tj_finished_size job + word_of_nat offset\<rparr>, f))))"

definition job_confirm :: "send_confirm \<Rightarrow> transfer_job \<times> fs \<Rightarrow> (transfer_job \<times> fs) option" where
  "job_confirm r = (\<lambda>(job, f).
     if tj_file_num job \<noteq> cq_file_num r then Some (job, f)
     else case cq_union r of
         Some (Skip s) \<Rightarrow> Some ((if s then set_file_skipped job else set_file_confirmed True job), f)
       | Some (OffsetBlk offset) \<Rightarrow>
           (let job = set_file_confirmed True job
            in if offset > 0 then set_stream_offset (as_usize (cq_file_num r)) (unat offset) (job, f) else Some (job, f))
       | None \<Rightarrow> Some (job, f))"

section \<open>The jobs of a connection\<close>

fun remove_job :: "int \<Rightarrow> transfer_job list \<Rightarrow> transfer_job option \<times> transfer_job list" where
  "remove_job i [] = (None, [])"
| "remove_job i (j # js) =
     (if tj_id j = i then (Some j, js) else (let (r, js) = remove_job i js in (r, j # js)))"

definition get_job :: "int \<Rightarrow> transfer_job list \<Rightarrow> transfer_job option" where
  "get_job i js = find (\<lambda>j. tj_id j = i) js"

fun init_jobs :: "fs \<Rightarrow> transfer_job list \<Rightarrow> transfer_job list \<times> file_response list" where
  "init_jobs f [] = ([], [])"
| "init_jobs f (j # js) =
     (let (j, out) =
            (if tj_is_last_job j then (j, [])
             else case init_data_stream f j of
                 (Some e, j, out) \<Rightarrow> (j, out @ [ErrorResponse (tj_id j) e (tj_file_num j)])
               | (None, j, out) \<Rightarrow> (j, out));
          (js, outs) = init_jobs f js
      in (j # js, out @ outs))"

text \<open>One turn of the first job that is not left over from an earlier session: the message it sends, and
  whether it is over.\<close>

definition read_turn :: "transfer_env \<Rightarrow> fs \<Rightarrow> transfer_job \<Rightarrow> transfer_job \<times> file_response list \<times> bool" where
  "read_turn env f job =
     (case job_read env f job of
        (Inl e, job) \<Rightarrow> (job, [ErrorResponse (tj_id job) e (tj_file_num job)], False)
      | (Inr (Some blk), job) \<Rightarrow> (job, [BlockResponse blk], False)
      | (Inr None, job) \<Rightarrow>
          if job_completed job then
            (job, [if job_skipped job then SkippedResponse (tj_id job) (tj_file_num job)
                   else DoneResponse (tj_id job) (tj_file_num job)], True)
          else (job, [], False))"

fun first_turn :: "transfer_env \<Rightarrow> fs \<Rightarrow> transfer_job list \<Rightarrow> transfer_job list \<times> file_response list \<times> int list" where
  "first_turn env f [] = ([], [], [])"
| "first_turn env f (j # js) =
     (if tj_is_last_job j then (let (js, r) = first_turn env f js in (j # js, r))
      else (let (j, out, finished) = read_turn env f j in (j # js, out, if finished then [tj_id j] else [])))"

definition handle_read_jobs :: "transfer_env \<Rightarrow> fs \<Rightarrow> transfer_job list \<Rightarrow> transfer_job list \<times> file_response list" where
  "handle_read_jobs env f jobs =
     (let (jobs, out) = init_jobs f jobs;
          (jobs, out', finished) = first_turn env f jobs
      in (fold (\<lambda>i js. snd (remove_job i js)) finished jobs, out @ out'))"

section \<open>The check before overwriting\<close>

text \<open>How much of an interrupted transfer of the same file is there already; a directory in its place counts as nothing.\<close>

datatype digest_check = IsSame | NeedConfirm transfer_digest | NoSuchFile

definition resumable :: "transfer_env \<Rightarrow> fs \<Rightarrow> string \<Rightarrow> transfer_digest \<Rightarrow> nat option" where
  "resumable env f path dg =
     (if path_exists f (digest_path path) \<and> path_exists f (download_path path) then
        (case file_at f (digest_path path) of
           None \<Rightarrow> None
         | Some i \<Rightarrow> (case te_digest_parse env (content f i) of
               None \<Rightarrow> None
             | Some l \<Rightarrow>
                 if fd_modified l = dg_last_modified dg \<and> fd_size l = dg_file_size dg then
                   (case file_at f (download_path path) of
                      Some k \<Rightarrow> if length (content f k) > 0 then Some (length (content f k)) else None
                    | None \<Rightarrow> None)
                 else None))
      else None)"

definition is_write_need_confirmation :: "transfer_env \<Rightarrow> fs \<Rightarrow> bool \<Rightarrow> string \<Rightarrow> transfer_digest \<Rightarrow> digest_check" where
  "is_write_need_confirmation env f is_resume path dg =
     (case (if is_resume then resumable env f path dg else None) of
        Some transferred \<Rightarrow> NeedConfirm (dg\<lparr>dg_is_identical := True, dg_transferred_size := transferred, dg_is_resume := False\<rparr>)
      | None \<Rightarrow>
          (case file_at f path of
             Some i \<Rightarrow>
               NeedConfirm (dg\<lparr>dg_last_modified := mtime f i div NANOS, dg_file_size := length (content f i),
                 dg_is_identical := (dg_last_modified dg * NANOS = mtime f i \<and> dg_file_size dg = length (content f i)),
                 dg_transferred_size := 0, dg_is_resume := False\<rparr>)
           | None \<Rightarrow> NoSuchFile))"

end
