(* ===== verification/TransferProps.thy ===== *)
theory TransferProps
  imports TransferJobs
begin

text \<open>
  What transfer jobs achieve: files sent as blocks arrive whole under their names, nothing is sent before it
  is confirmed, an interrupted transfer resumes where it stopped; and where the code falls short of that.
  The first sections bring the operations of the file system down to locations: in an absolute path without
  parent components whose directories exist, each operation acts on the node at the path's own location.
\<close>

section \<open>Operations on locations\<close>

definition abs_path :: "fs \<Rightarrow> string \<Rightarrow> loc \<Rightarrow> bool" where
  "abs_path f p l \<longleftrightarrow> rooted (fs_windows f) p \<and> segments (fs_windows f) p = l \<and> ''..'' \<notin> set l \<and> l \<noteq> []"

definition dirs :: "fs \<Rightarrow> loc \<Rightarrow> bool" where
  "dirs f l \<longleftrightarrow> (\<forall>k < length l. node_at f (take k l) = Some Dir)"

definition no_link :: "fs \<Rightarrow> loc \<Rightarrow> bool" where
  "no_link f l \<longleftrightarrow> (\<forall>k \<le> length l. \<forall>t. node_at f (take k l) \<noteq> Some (Link t))"

lemma walk_dirs:
  assumes "\<forall>k < length ss. node_at f (at @ take k ss) = Some Dir" "''..'' \<notin> set ss" "\<forall>t. node_at f (at @ ss) \<noteq> Some (Link t)"
  shows "walk n f at ss = Inr (at @ ss)"
  using assms
proof (induction ss arbitrary: at)
  case (Cons s ss)
  have k: "node_at f ((at @ [s]) @ take k ss) = Some Dir" if "k < length ss" for k
    using Cons.prems(1) that by (auto dest: spec [of _ "Suc k"])
  show ?case
  proof (cases "ss = []")
    case True
    then show ?thesis using Cons.prems by (auto split: option.splits node.splits)
  next
    case False
    then have "node_at f (at @ [s]) = Some Dir" using k [of 0] by simp
    moreover have "walk n f (at @ [s]) ss = Inr ((at @ [s]) @ ss)" using Cons.prems k by (intro Cons.IH) auto
    ultimately show ?thesis using Cons.prems(2) by auto
  qed
qed simp

lemma walk_no_link:
  assumes "walk n f at ss = Inr l" "\<forall>k \<le> length ss. \<forall>t. node_at f (at @ take k ss) \<noteq> Some (Link t)" "''..'' \<notin> set ss"
  shows "l = at @ ss"
  using assms
proof (induction ss arbitrary: at)
  case (Cons s ss)
  have k: "node_at f ((at @ [s]) @ take k ss) \<noteq> Some (Link t)" if "k \<le> length ss" for k t
    using Cons.prems(2) that by (auto dest: spec [of _ "Suc k"])
  have l: "node_at f (at @ [s]) \<noteq> Some (Link t)" for t using k [of 0 t] by simp
  have "s \<noteq> ''..''" using Cons.prems(3) by auto
  then show ?case using Cons.prems(1,3) k l Cons.IH [of "at @ [s]"]
    by (auto split: option.splits node.splits if_splits)
qed simp

lemma resolve_abs:
  assumes "abs_path f p l" "dirs f l" "no_link f l"
  shows "resolve f p = Inr l"
  using assms walk_dirs [of l f "[]" 40]
  by (auto simp: resolve_def abs_path_def dirs_def no_link_def start_at_def dest: spec [of _ "length l"])

lemma resolve_abs_Inr:
  assumes "abs_path f p l" "no_link f l" "resolve f p = Inr l'"
  shows "l' = l"
  using assms walk_no_link [of 40 f "[]" l l'] by (auto simp: resolve_def abs_path_def no_link_def start_at_def)

lemma locate_abs:
  assumes "abs_path f p l" "dirs f l"
  shows "locate f p = Inr l"
proof -
  have l: "segments (fs_windows f) p = l" "l \<noteq> []" "''..'' \<notin> set l" "start_at f p = []"
    using assms(1) by (auto simp: abs_path_def start_at_def)
  then have k: "take k (butlast l) = take k l" if "k \<le> length (butlast l)" for k using that by (simp add: butlast_conv_take min_absorb1)
  have parent: "node_at f (butlast l) = Some Dir"
    using assms(2) l(2) by (auto simp: dirs_def butlast_conv_take dest: spec [of _ "length l - 1"])
  have "walk 40 f [] (butlast l) = Inr ([] @ butlast l)"
    using assms(2) l(2,3) parent k by (intro walk_dirs) (auto simp: dirs_def dest: in_set_butlastD)
  moreover have "last l \<noteq> ''..''" using l(2,3) last_in_set by metis
  ultimately show ?thesis using l parent by (simp add: locate_def)
qed

lemma locate_abs_Inr:
  assumes "abs_path f p l" "no_link f l" "locate f p = Inr l'"
  shows "l' = l"
proof -
  have l: "segments (fs_windows f) p = l" "l \<noteq> []" "''..'' \<notin> set l" "start_at f p = []"
    using assms(1) by (auto simp: abs_path_def start_at_def)
  have k: "take k (butlast l) = take k l" if "k \<le> length (butlast l)" for k using that by (simp add: butlast_conv_take min_absorb1)
  have "d = butlast l" if "walk 40 f [] (butlast l) = Inr d" for d
    using walk_no_link [OF that] assms(2) l(3) k by (auto simp: no_link_def dest: in_set_butlastD)
  moreover have "last l \<noteq> ''..''" using l(2,3) last_in_set by metis
  ultimately show ?thesis using assms(3) l
    by (auto simp: locate_def Let_def split: sum.splits option.splits node.splits)
qed

lemma remove_abs:
  assumes "abs_path f p l" "dirs f l" "fs_names f l = Some (File i)"
  shows "fs_remove_file f p = (None, f\<lparr>fs_names := (fs_names f)(l := None)\<rparr>)"
  using locate_abs [OF assms(1,2)] assms(1,3) by (simp add: fs_remove_file_def node_at_def abs_path_def)

lemma remove_absent:
  assumes "abs_path f p l" "no_link f l" "fs_names f l = None"
  shows "snd (fs_remove_file f p) = f"
proof -
  have "node_at f l = None" using assms(1,3) by (simp add: node_at_def abs_path_def)
  then show ?thesis using locate_abs_Inr [OF assms(1,2)] by (auto simp: fs_remove_file_def split: sum.splits)
qed

lemma rename_abs:
  assumes "abs_path f p a" "abs_path f q b" "dirs f a" "dirs f b" "fs_names f a = Some (File i)" "a \<noteq> b"
    and "fs_names f b = None \<or> (\<exists>k. fs_names f b = Some (File k))"
  shows "fs_rename f p q = (None, f\<lparr>fs_names := (fs_names f)(a := None, b \<mapsto> File i)\<rparr>)"
  using locate_abs [OF assms(1,3)] locate_abs [OF assms(2,4)] assms
  by (auto simp: fs_rename_def node_at_def abs_path_def)

lemma rename_absent:
  assumes "abs_path f p a" "no_link f a" "fs_names f a = None"
  shows "snd (fs_rename f p q) = f"
proof -
  have "node_at f a = None" using assms(1,3) by (simp add: node_at_def abs_path_def)
  then show ?thesis using locate_abs_Inr [OF assms(1,2)] by (auto simp: fs_rename_def split: sum.splits)
qed

lemma file_at_abs:
  assumes "abs_path f p l" "dirs f l" "fs_names f l = Some (File i)"
  shows "file_at f p = Some i"
proof -
  have "no_link f l"
    unfolding no_link_def
  proof (intro allI impI)
    fix k t assume "k \<le> length l"
    then show "node_at f (take k l) \<noteq> Some (Link t)"
      using assms by (cases "k = length l") (auto simp: dirs_def node_at_def abs_path_def)
  qed
  then show ?thesis using resolve_abs [OF assms(1,2)] assms(1,3)
    by (simp add: file_at_def stat_def look_def node_at_def abs_path_def)
qed

lemma file_at_absent:
  assumes "abs_path f p l" "no_link f l" "fs_names f l = None"
  shows "file_at f p = None" "path_exists f p = False"
proof -
  have "node_at f l = None" using assms(1,3) by (simp add: node_at_def abs_path_def)
  then have "\<exists>e. stat f p = Inl e"
    using resolve_abs_Inr [OF assms(1,2)] by (cases "resolve f p") (auto simp: stat_def look_def)
  then show "file_at f p = None" "path_exists f p = False" by (auto simp: file_at_def path_exists_def)
qed

lemma create_abs:
  assumes "abs_path f p l" "dirs f l" "no_link f l" "fs_names f l = None" "\<not> fs_denied f l" "\<not> ends_with_sep f p"
  shows "file_create f p = Inr (new_file f l)"
  using resolve_abs [OF assms(1-3)] assms by (simp add: file_create_def open_at_def node_at_def abs_path_def)

definition add_dirs :: "loc \<Rightarrow> (loc \<rightharpoonup> node) \<Rightarrow> (loc \<rightharpoonup> node)" where
  "add_dirs ss m = (\<lambda>l. if l \<noteq> [] \<and> take (length l) ss = l then Some Dir else m l)"

lemma mkdirs_abs:
  assumes "\<forall>k \<le> length (pre @ ss). node_at f (take k (pre @ ss)) \<in> {None, Some Dir}"
    and "\<forall>k \<le> length pre. node_at f (take k pre) = Some Dir"
    and "\<forall>k \<le> length (pre @ ss). \<not> fs_denied f (take k (pre @ ss))" "''..'' \<notin> set (pre @ ss)"
  shows "mkdirs f [] pre ss = (None, f\<lparr>fs_names := add_dirs (pre @ ss) (fs_names f)\<rparr>)"
  using assms
proof (induction ss arbitrary: pre f)
  case Nil
  have "add_dirs pre (fs_names f) = fs_names f"
  proof
    fix l
    show "add_dirs pre (fs_names f) l = fs_names f l"
      using Nil.prems(2) [rule_format, of "length l"] by (cases "length l \<le> length pre") (auto simp: add_dirs_def node_at_def split: if_splits)
  qed
  then show ?case by simp
next
  case (Cons s ss)
  let ?d = "pre @ [s]"
  have n: "node_at f ?d \<in> {None, Some Dir}" "\<not> fs_denied f ?d"
    using Cons.prems(1,3) by (auto dest: spec [of _ "Suc (length pre)"])
  have "walk 40 f [] ?d = Inr ([] @ ?d)"
    using Cons.prems(2,4) n(1) by (intro walk_dirs) (auto simp: less_Suc_eq_le)
  then have w: "walk 40 f [] ?d = Inr ?d" by simp
  define f' where "f' = (if node_at f ?d = None then f\<lparr>fs_names := (fs_names f)(?d \<mapsto> Dir)\<rparr> else f)"
  have step: "mkdirs f [] pre (s # ss) = mkdirs f' [] ?d ss" using w n by (auto simp: f'_def)
  have n': "node_at f' l = (if l = ?d then Some Dir else node_at f l)" for l
    using n(1) by (auto simp: f'_def node_at_def)
  have "mkdirs f' [] ?d ss = (None, f'\<lparr>fs_names := add_dirs (?d @ ss) (fs_names f')\<rparr>)"
  proof (rule Cons.IH)
    show "\<forall>k \<le> length (?d @ ss). node_at f' (take k (?d @ ss)) \<in> {None, Some Dir}" using Cons.prems(1) by (simp add: n')
    show "\<forall>k \<le> length ?d. node_at f' (take k ?d) = Some Dir"
      using Cons.prems(2) by (auto simp: n' le_Suc_eq)
    show "\<forall>k \<le> length (?d @ ss). \<not> fs_denied f' (take k (?d @ ss))" using Cons.prems(3) by (simp add: f'_def)
    show "''..'' \<notin> set (?d @ ss)" using Cons.prems(4) by simp
  qed
  moreover have "f'\<lparr>fs_names := add_dirs (?d @ ss) (fs_names f')\<rparr> = f\<lparr>fs_names := add_dirs (pre @ s # ss) (fs_names f)\<rparr>"
  proof -
    have "add_dirs (?d @ ss) (fs_names f') = add_dirs (pre @ s # ss) (fs_names f)"
      by (rule ext) (auto simp: add_dirs_def f'_def)
    then show ?thesis by (simp add: f'_def)
  qed
  ultimately show ?case using step by simp
qed

section \<open>The paths of a job\<close>

definition clean_name :: "bool \<Rightarrow> string \<Rightarrow> bool" where
  "clean_name w name \<longleftrightarrow> name \<noteq> [] \<and> validate_file_name_no_traversal w name = None \<and> split_on (is_sep w) name = segments w name"

definition suffixed :: "string \<Rightarrow> loc \<Rightarrow> loc" where
  "suffixed x ns = butlast ns @ [last ns @ x]"

definition base_path :: "fs \<Rightarrow> string \<Rightarrow> loc \<Rightarrow> bool" where
  "base_path f base d \<longleftrightarrow> rooted (fs_windows f) base \<and> segments (fs_windows f) base = d \<and> ''..'' \<notin> set d"

lemma split_push:
  assumes "\<not> rooted w name"
  shows "\<exists>xs. split_on (is_sep w) (path_push w p name) = xs @ split_on (is_sep w) name \<and>
    filter (\<lambda>s. s \<noteq> [] \<and> s \<noteq> ''.'') xs = segments w p"
proof -
  consider "p = []" | q c where "p = q @ [c]" by (cases p rule: rev_cases) auto
  then show ?thesis
  proof cases
    case 1
    then show ?thesis using assms by (auto simp: path_push_def segments_def)
  next
    case 2
    then show ?thesis using assms
      by (cases "is_sep w c")
        (auto simp: path_push_def segments_def split_on_append_sep split_on_append_sep [of "is_sep w" "main_sep w" "q @ [c]", simplified])
  qed
qed

lemma clean_name_segments:
  assumes "clean_name w name"
  shows "segments w name \<noteq> []" "''..'' \<notin> set (segments w name)" "\<not> rooted w name"
  using assms validated_name [of w name] unfolding clean_name_def by (metis split_on_not_Nil)+

lemma abs_path_push:
  assumes "base_path f base d" "clean_name (fs_windows f) name"
  defines "p \<equiv> path_push (fs_windows f) base name" and "ns \<equiv> segments (fs_windows f) name"
  shows "abs_path f p (d @ ns)"
    and "(\<forall>c \<in> set x. \<not> is_sep (fs_windows f) c) \<Longrightarrow> x \<noteq> [] \<Longrightarrow>
      abs_path f (p @ x) (d @ suffixed x ns) \<and> \<not> ends_with_sep f (p @ x)"
proof -
  let ?w = "fs_windows f"
  note n = clean_name_segments [OF assms(2)]
  have split: "split_on (is_sep ?w) name = ns" using assms(2) by (simp add: clean_name_def ns_def)
  obtain xs where xs: "split_on (is_sep ?w) p = xs @ ns" "filter (\<lambda>s. s \<noteq> [] \<and> s \<noteq> ''.'') xs = d"
    using split_push [OF n(3), of base] assms(1) split unfolding p_def by (auto simp: base_path_def)
  have ns: "ns \<noteq> []" "''..'' \<notin> set ns" "filter (\<lambda>s. s \<noteq> [] \<and> s \<noteq> ''.'') ns = ns"
    using n by (simp_all add: ns_def segments_def)
  have r: "rooted ?w p" "p \<noteq> []" using assms(1) rooted_push [OF n(3), of base] by (auto simp: p_def base_path_def rooted_def)
  show "abs_path f p (d @ ns)"
    using r ns xs assms(1) by (simp add: abs_path_def segments_def base_path_def)
  assume x: "\<forall>c \<in> set x. \<not> is_sep ?w c" "x \<noteq> []"
  have each: "s \<noteq> [] \<and> s \<noteq> ''.'' \<and> s \<noteq> ''..''" if "s \<in> set ns" for s
    using that n(2) by (auto simp: ns_def segments_def)
  have l: "last ns \<noteq> []" "last ns \<noteq> ''.''" "last ns \<noteq> ''..''" using each [of "last ns"] ns(1) by simp_all
  have "split_on (is_sep ?w) (p @ x) = xs @ butlast ns @ [last ns @ x]"
    using split_on_append_plain [OF x(1), of p] xs(1) ns(1) by (simp add: butlast_append)
  moreover have "filter (\<lambda>s. s \<noteq> [] \<and> s \<noteq> ''.'') (butlast ns) = butlast ns"
    using each by (auto intro!: filter_True dest: in_set_butlastD)
  moreover have dot: "last ns @ x \<noteq> ''.''" "last ns @ x \<noteq> ''..''" using l x(2) by (auto simp: append_eq_Cons_conv)
  ultimately have "segments ?w (p @ x) = d @ suffixed x ns"
    using xs(2) l(1) by (simp add: segments_def suffixed_def)
  moreover have "\<not> ends_with_sep f (p @ x)" using x by (simp add: ends_with_sep_def)
  moreover have "rooted ?w (p @ x)" using r by (simp add: rooted_def)
  ultimately show "abs_path f (p @ x) (d @ suffixed x ns) \<and> \<not> ends_with_sep f (p @ x)"
    using assms(1) ns(2) dot by (auto simp: abs_path_def base_path_def suffixed_def dest: in_set_butlastD)
qed

section \<open>The directory that receives\<close>

abbreviation dl :: "loc \<Rightarrow> loc" where "dl \<equiv> suffixed ''.download''"
abbreviation dg :: "loc \<Rightarrow> loc" where "dg \<equiv> suffixed ''.digest''"

definition targets :: "loc \<Rightarrow> loc set" where
  "targets ns = {ns, dl ns, dg ns}"

text \<open>No name of the transfer, with or without its two suffixes, is another one or a directory of one.\<close>

definition compatible :: "loc set \<Rightarrow> bool" where
  "compatible N \<longleftrightarrow> [] \<notin> N \<and> (\<forall>ns \<in> N. \<forall>ns' \<in> N. ns \<noteq> ns' \<longrightarrow> targets ns \<inter> targets ns' = {}) \<and>
     (\<forall>ns \<in> N. \<forall>t \<in> targets ns. \<forall>ns' \<in> N. \<forall>k < length ns'. t \<noteq> take k ns')"

text \<open>Below the directory there are files at the names of the transfer only, directories where its names
  need them, and no links; different names are different files.\<close>

definition node_ok :: "loc set \<Rightarrow> nat \<Rightarrow> loc \<Rightarrow> node option \<Rightarrow> bool" where
  "node_ok N b l n = (case n of
     None \<Rightarrow> True
   | Some Dir \<Rightarrow> (\<exists>ns \<in> N. \<exists>k < length ns. l = take k ns)
   | Some (File i) \<Rightarrow> (\<exists>ns \<in> N. l \<in> targets ns) \<and> i < b
   | Some (Link _) \<Rightarrow> False)"

lemma node_ok_simps [simp]:
  "node_ok N b l None" "node_ok N b l (Some Dir) \<longleftrightarrow> (\<exists>ns \<in> N. \<exists>k < length ns. l = take k ns)"
  "node_ok N b l (Some (File i)) \<longleftrightarrow> (\<exists>ns \<in> N. l \<in> targets ns) \<and> i < b" "\<not> node_ok N b l (Some (Link t))"
  by (simp_all add: node_ok_def)

lemma node_ok_mono: "node_ok N b l n \<Longrightarrow> b \<le> b' \<Longrightarrow> node_ok N b' l n"
  by (auto simp: node_ok_def split: option.splits node.splits)

definition dest_ok :: "loc \<Rightarrow> loc set \<Rightarrow> fs \<Rightarrow> bool" where
  "dest_ok d N f \<longleftrightarrow> d \<noteq> [] \<and> (\<forall>k \<le> length d. node_at f (take k d) = Some Dir) \<and> (\<forall>l. \<not> fs_denied f l) \<and>
     (\<forall>l. l \<noteq> [] \<longrightarrow> node_ok N (fs_next f) l (fs_names f (d @ l))) \<and>
     (\<forall>l l' i. fs_names f (d @ l) = Some (File i) \<longrightarrow> fs_names f (d @ l') = Some (File i) \<longrightarrow> l = l')"

lemma dest_okI:
  assumes "d \<noteq> []" "\<And>k. k \<le> length d \<Longrightarrow> node_at f (take k d) = Some Dir" "\<And>l. \<not> fs_denied f l"
    and "\<And>l. l \<noteq> [] \<Longrightarrow> node_ok N (fs_next f) l (fs_names f (d @ l))"
    and "\<And>l l' i. fs_names f (d @ l) = Some (File i) \<Longrightarrow> fs_names f (d @ l') = Some (File i) \<Longrightarrow> l = l'"
  shows "dest_ok d N f"
  using assms unfolding dest_ok_def by blast

lemma dest_okD:
  assumes "dest_ok d N f"
  shows "k \<le> length d \<Longrightarrow> node_at f (take k d) = Some Dir" "\<not> fs_denied f l"
    and "l \<noteq> [] \<Longrightarrow> node_ok N (fs_next f) l (fs_names f (d @ l))"
    and "fs_names f (d @ l) = Some (File i) \<Longrightarrow> fs_names f (d @ l') = Some (File i) \<Longrightarrow> l = l'"
    and "node_at f d = Some Dir" "d \<noteq> []"
proof -
  show "k \<le> length d \<Longrightarrow> node_at f (take k d) = Some Dir" for k using assms by (simp add: dest_ok_def)
  from this [of "length d"] show "node_at f d = Some Dir" by simp
qed (use assms in \<open>auto simp: dest_ok_def\<close>)

lemma take_below: "t \<noteq> [] \<Longrightarrow> take k d \<noteq> d @ t"
  by (metis append.right_neutral append_eq_append_conv2 append_take_drop_id same_append_eq append_is_Nil_conv)

lemma suffixed_props:
  "ns \<noteq> [] \<Longrightarrow> suffixed x ns \<noteq> []" "length (suffixed x ns) = Suc (length ns - 1)"
  "ns \<noteq> [] \<Longrightarrow> k < length ns \<Longrightarrow> take k (suffixed x ns) = take k ns"
  "ns \<noteq> [] \<Longrightarrow> x \<noteq> [] \<Longrightarrow> suffixed x ns \<noteq> ns"
proof -
  show "ns \<noteq> [] \<Longrightarrow> suffixed x ns \<noteq> []" "length (suffixed x ns) = Suc (length ns - 1)" by (simp_all add: suffixed_def)
  show "ns \<noteq> [] \<Longrightarrow> k < length ns \<Longrightarrow> take k (suffixed x ns) = take k ns"
    by (simp add: suffixed_def butlast_conv_take min_absorb1)
  assume "ns \<noteq> []" "x \<noteq> []"
  then have "last (suffixed x ns) \<noteq> last ns" by (simp add: suffixed_def)
  then show "suffixed x ns \<noteq> ns" by auto
qed

lemma dl_dg [simp]: "dl ns \<noteq> dg ns"
  by (simp add: suffixed_def)

lemma compatibleD:
  assumes "compatible N" "ns \<in> N" "t \<in> targets ns"
  shows "t \<noteq> []" "ns' \<in> N \<Longrightarrow> k < length ns' \<Longrightarrow> t \<noteq> take k ns'"
    and "ns' \<in> N \<Longrightarrow> ns' \<noteq> ns \<Longrightarrow> t' \<in> targets ns' \<Longrightarrow> t' \<noteq> t"
proof -
  have "ns \<noteq> []" using assms(1,2) by (auto simp: compatible_def)
  then show "t \<noteq> []" using assms(3) by (auto simp: targets_def suffixed_def)
  show "ns' \<in> N \<Longrightarrow> k < length ns' \<Longrightarrow> t \<noteq> take k ns'" using assms unfolding compatible_def by blast
  show "ns' \<in> N \<Longrightarrow> ns' \<noteq> ns \<Longrightarrow> t' \<in> targets ns' \<Longrightarrow> t' \<noteq> t" using assms unfolding compatible_def by blast
qed

lemma file_next:
  assumes "dest_ok d N f" "fs_names f (d @ l) = Some (File i)"
  shows "i < fs_next f"
  using dest_okD(3) [OF assms(1), of l] dest_okD(5) [OF assms(1)] assms(2)
    dest_okD(6) [OF assms(1)] by (cases "l = []") (auto simp: node_at_def split: if_splits)

lemma dest_ok_names:
  assumes "dest_ok d N f" "compatible N" "ns \<in> N"
  shows "k < length ns \<Longrightarrow> node_at f (d @ take k ns) \<in> {None, Some Dir}"
    and "t \<in> targets ns \<Longrightarrow> fs_names f (d @ t) = None \<or> (\<exists>i < fs_next f. fs_names f (d @ t) = Some (File i))"
    and "no_link f (d @ l)"
proof -
  have link: "node_at f (d @ l) \<noteq> Some (Link t)" for l t
    using dest_okD(3) [OF assms(1), of l] dest_okD(5) [OF assms(1)] by (cases "l = []") (auto simp: node_at_def split: if_splits)
  show "node_at f (d @ take k ns) \<in> {None, Some Dir}" if k: "k < length ns"
  proof (cases "node_at f (d @ take k ns)")
    case (Some n)
    show ?thesis
    proof (cases n)
      case (File i)
      then have ne: "take k ns \<noteq> []" using Some dest_okD(5) [OF assms(1)] by (auto simp del: take_eq_Nil)
      then have "fs_names f (d @ take k ns) = Some (File i)" using Some File by (auto simp: node_at_def split: if_splits)
      then obtain ns' where "ns' \<in> N" "take k ns \<in> targets ns'" using dest_okD(3) [OF assms(1) ne] by auto
      then show ?thesis using compatibleD(2) [OF assms(2) _ _ assms(3) k] by blast
    qed (use Some link in auto)
  qed simp
  show "fs_names f (d @ t) = None \<or> (\<exists>i < fs_next f. fs_names f (d @ t) = Some (File i))" if t: "t \<in> targets ns"
  proof (cases "fs_names f (d @ t)")
    case (Some n)
    have ok: "node_ok N (fs_next f) t (Some n)" using dest_okD(3) [OF assms(1) compatibleD(1) [OF assms(2,3) t]] Some by simp
    have "n \<noteq> Dir" using ok compatibleD(2) [OF assms(2,3) t] by (metis node_ok_simps(2))
    then show ?thesis using ok Some by (cases n) auto
  qed simp
  show "no_link f (d @ l)"
    unfolding no_link_def
  proof (intro allI impI)
    fix k t assume "k \<le> length (d @ l)"
    show "node_at f (take k (d @ l)) \<noteq> Some (Link t)"
      using dest_okD(1) [OF assms(1), of k] link [of "take (k - length d) l" t] by (cases "k \<le> length d") auto
  qed
qed

text \<open>What work on one file leaves alone: the other files of the transfer and every directory.\<close>

definition frame :: "loc \<Rightarrow> loc set \<Rightarrow> loc \<Rightarrow> fs \<Rightarrow> fs \<Rightarrow> bool" where
  "frame d N ns f f' \<longleftrightarrow> fs_windows f' = fs_windows f \<and> (\<forall>l. node_at f l = Some Dir \<longrightarrow> node_at f' l = Some Dir) \<and>
     (\<forall>ns' \<in> N. ns' \<noteq> ns \<longrightarrow> (\<forall>t \<in> targets ns'. fs_names f' (d @ t) = fs_names f (d @ t) \<and>
        (\<forall>i. fs_names f (d @ t) = Some (File i) \<longrightarrow> fs_data f' i = fs_data f i)))"

lemma frame_refl [simp]: "frame d N ns f f"
  by (simp add: frame_def)

lemma frame_trans: "frame d N ns f f' \<Longrightarrow> frame d N ns f' f'' \<Longrightarrow> frame d N ns f f''"
  by (auto simp: frame_def)

definition untouched :: "loc \<Rightarrow> loc \<Rightarrow> fs \<Rightarrow> bool" where
  "untouched d ns f \<longleftrightarrow> (\<forall>t \<in> targets ns. fs_names f (d @ t) = None)"

definition pending :: "loc \<Rightarrow> loc \<Rightarrow> bytes \<Rightarrow> nat \<Rightarrow> fs \<Rightarrow> bool" where
  "pending d ns p i f \<longleftrightarrow> dirs f (d @ ns) \<and> fs_names f (d @ ns) = None \<and> fs_names f (d @ dl ns) = Some (File i) \<and>
     (\<exists>t. fs_data f i = Some (p, t)) \<and> (\<exists>g. fs_names f (d @ dg ns) = Some (File g))"

definition finished :: "loc \<Rightarrow> loc \<Rightarrow> bytes \<Rightarrow> int \<Rightarrow> fs \<Rightarrow> bool" where
  "finished d ns p t f \<longleftrightarrow> dirs f (d @ ns) \<and> (\<exists>i. fs_names f (d @ ns) = Some (File i) \<and> fs_data f i = Some (p, t))"

lemma frame_untouched: "frame d N ns f f' \<Longrightarrow> ns' \<in> N \<Longrightarrow> ns' \<noteq> ns \<Longrightarrow> untouched d ns' f \<Longrightarrow> untouched d ns' f'"
  by (auto simp: frame_def untouched_def)

lemma frame_finished: "frame d N ns f f' \<Longrightarrow> ns' \<in> N \<Longrightarrow> ns' \<noteq> ns \<Longrightarrow> finished d ns' p t f \<Longrightarrow> finished d ns' p t f'"
  by (auto simp: frame_def finished_def dirs_def targets_def)

text \<open>The changes the operations make keep the directory in order.\<close>

lemma dest_ok_new:
  assumes "dest_ok d N f" "compatible N" "ns \<in> N" "t \<in> targets ns" "fs_names f (d @ t) = None"
  shows "dest_ok d N (snd (new_file f (d @ t)))" "frame d N ns f (snd (new_file f (d @ t)))"
proof -
  let ?f = "snd (new_file f (d @ t))"
  note t = compatibleD [OF assms(2-4)]
  have names: "fs_names ?f l = (if l = d @ t then Some (File (fs_next f)) else fs_names f l)" and nx: "fs_next ?f = Suc (fs_next f)"
    and data: "fs_data ?f i = (if i = fs_next f then Some ([], fs_now f) else fs_data f i)" for l i
    by (simp_all add: new_file_def)
  have node: "node_at ?f l = (if l = d @ t \<and> l \<noteq> [] then Some (File (fs_next f)) else node_at f l)" for l
    by (auto simp: node_at_def names)
  show "dest_ok d N ?f"
  proof (rule dest_okI)
    show "d \<noteq> []" by (rule dest_okD(6) [OF assms(1)])
    show "node_at ?f (take k d) = Some Dir" if "k \<le> length d" for k
      using dest_okD(1) [OF assms(1) that] take_below [OF t(1), of k d] by (auto simp: node)
    show "\<not> fs_denied ?f l" for l using dest_okD(2) [OF assms(1)] by (simp add: new_file_def)
    show "node_ok N (fs_next ?f) l (fs_names ?f (d @ l))" if "l \<noteq> []" for l
      using node_ok_mono [OF dest_okD(3) [OF assms(1) that], of "Suc (fs_next f)"] assms(3,4) by (auto simp: names nx)
    show "l = l'" if "fs_names ?f (d @ l) = Some (File i)" "fs_names ?f (d @ l') = Some (File i)" for l l' i
      using that dest_okD(4) [OF assms(1)] less_irrefl file_next [OF assms(1)] by (auto simp: names split: if_splits) (metis less_irrefl)+
  qed
  have other: "fs_names ?f (d @ t') = fs_names f (d @ t')" if "ns' \<in> N" "ns' \<noteq> ns" "t' \<in> targets ns'" for ns' t'
    using t(3) [OF that] by (simp add: names)
  show "frame d N ns f ?f"
    unfolding frame_def
  proof (intro conjI ballI impI allI)
    show "fs_windows ?f = fs_windows f" by (simp add: new_file_def)
    show "node_at ?f l = Some Dir" if "node_at f l = Some Dir" for l
      using that assms(5) t(1) by (auto simp: node) (auto simp: node_at_def)
    show "fs_names ?f (d @ t') = fs_names f (d @ t')" if "ns' \<in> N" "ns' \<noteq> ns" "t' \<in> targets ns'" for ns' t' by (rule other [OF that])
    show "fs_data ?f i = fs_data f i" if "fs_names f (d @ t') = Some (File i)" for t' i
      using file_next [OF assms(1) that] by (simp add: data)
  qed
qed

lemma dest_ok_data:
  assumes "dest_ok d N f" "compatible N" "ns \<in> N" "t \<in> targets ns" "fs_names f (d @ t) = Some (File i)"
  shows "dest_ok d N (f\<lparr>fs_data := (fs_data f)(i \<mapsto> x)\<rparr>)" "frame d N ns f (f\<lparr>fs_data := (fs_data f)(i \<mapsto> x)\<rparr>)"
proof -
  have n: "node_at (f\<lparr>fs_data := y\<rparr>) l = node_at f l" for y l by (simp add: node_at_def)
  show "dest_ok d N (f\<lparr>fs_data := (fs_data f)(i \<mapsto> x)\<rparr>)"
    by (rule dest_okI) (use dest_okD [OF assms(1)] in \<open>auto simp: n\<close>)
  have "t' = t" if "fs_names f (d @ t') = Some (File i)" for t' using dest_okD(4) [OF assms(1) that assms(5)] .
  then show "frame d N ns f (f\<lparr>fs_data := (fs_data f)(i \<mapsto> x)\<rparr>)"
    using compatibleD(3) [OF assms(2-4)] by (auto simp: frame_def n)
qed

lemma dest_ok_upd:
  assumes "dest_ok d N f" "compatible N" "ns \<in> N" "\<And>l. l \<notin> S \<Longrightarrow> m l = fs_names f l" "S \<subseteq> (\<lambda>t. d @ t) ` targets ns"
    and "\<And>l. l \<in> S \<Longrightarrow> m l = None \<or> (\<exists>i < fs_next f. m l = Some (File i) \<and> (\<forall>l'. m l' = Some (File i) \<longrightarrow> l' = l \<or> \<not> below d l'))"
    and "\<And>l. l \<in> S \<Longrightarrow> node_at f l \<noteq> Some Dir"
  shows "dest_ok d N (f\<lparr>fs_names := m\<rparr>)" "frame d N ns f (f\<lparr>fs_names := m\<rparr>)"
proof -
  let ?f = "f\<lparr>fs_names := m\<rparr>"
  have S: "\<exists>t \<in> targets ns. l = d @ t \<and> t \<noteq> []" if "l \<in> S" for l using assms(5) that compatibleD(1) [OF assms(2,3)] by blast
  have node: "node_at ?f l = node_at f l" if "l \<notin> S" for l using assms(4) [OF that] by (simp add: node_at_def)
  show "dest_ok d N ?f"
  proof (rule dest_okI)
    show "d \<noteq> []" by (rule dest_okD(6) [OF assms(1)])
    show "node_at ?f (take k d) = Some Dir" if "k \<le> length d" for k
      using dest_okD(1) [OF assms(1) that] node [of "take k d"] S [of "take k d"] take_below by metis
    show "\<not> fs_denied ?f l" for l using dest_okD(2) [OF assms(1)] by simp
    show "node_ok N (fs_next ?f) l (fs_names ?f (d @ l))" if "l \<noteq> []" for l
    proof (cases "d @ l \<in> S")
      case True
      then have "l \<in> targets ns" using S by fastforce
      then show ?thesis using assms(3) assms(6) [OF True] by auto
    next
      case False
      then show ?thesis using dest_okD(3) [OF assms(1) that] assms(4) [OF False] by simp
    qed
    show "l = l'" if "fs_names ?f (d @ l) = Some (File i)" "fs_names ?f (d @ l') = Some (File i)" for l l' i
    proof -
      have b: "below d (d @ x)" for x by (simp add: below_def)
      consider "d @ l \<in> S" | "d @ l' \<in> S" | "d @ l \<notin> S" "d @ l' \<notin> S" by blast
      then show ?thesis
      proof cases
        case 1
        then show ?thesis using that assms(6) [OF 1] b [of l'] by auto
      next
        case 2
        then show ?thesis using that assms(6) [OF 2] b [of l] by auto
      next
        case 3
        then show ?thesis using that assms(4) dest_okD(4) [OF assms(1)] by simp
      qed
    qed
  qed
  show "frame d N ns f ?f"
    unfolding frame_def
  proof (intro conjI ballI impI allI)
    show "node_at ?f l = Some Dir" if "node_at f l = Some Dir" for l
      using that assms(7) node by (cases "l \<in> S") auto
    show "fs_names ?f (d @ t') = fs_names f (d @ t')" if "ns' \<in> N" "ns' \<noteq> ns" "t' \<in> targets ns'" for ns' t'
      using compatibleD(3) [OF assms(2,3) _ that] S assms(4) [of "d @ t'"] by fastforce
  qed simp_all
qed

lemma dest_ok_dirs:
  assumes "dest_ok d N f" "compatible N" "ns \<in> N" "''..'' \<notin> set (d @ ns)"
  defines "f' \<equiv> f\<lparr>fs_names := add_dirs (d @ butlast ns) (fs_names f)\<rparr>"
  shows "create_dir_all f [] (d @ butlast ns) = (None, f')"
    and "dest_ok d N f'" "frame d N ns f f'" "dirs f' (d @ ns)" "t \<in> targets ns \<Longrightarrow> fs_names f' (d @ t) = fs_names f (d @ t)"
proof -
  have ns: "ns \<noteq> []" using assms(2,3) by (auto simp: compatible_def)
  have prefix: "node_at f (take k (d @ butlast ns)) \<in> {None, Some Dir}" for k
  proof (cases "k \<le> length d")
    case True
    then show ?thesis using dest_okD(1) [OF assms(1)] by simp
  next
    case False
    have "take (k - length d) (butlast ns) = take (min (k - length d) (length ns - 1)) ns" by (simp add: butlast_conv_take)
    then have "take k (d @ butlast ns) = d @ take (min (k - length d) (length ns - 1)) ns" using False by simp
    then show ?thesis using dest_ok_names(1) [OF assms(1-3), of "min (k - length d) (length ns - 1)"] ns by (simp add: min_less_iff_disj)
  qed
  show "create_dir_all f [] (d @ butlast ns) = (None, f')"
    using mkdirs_abs [of "[]" "d @ butlast ns" f] prefix dest_okD(2) [OF assms(1)] assms(4)
    by (auto simp: create_dir_all_def f'_def node_at_def dest: in_set_butlastD)
  have names: "fs_names f' (d @ l) = (if l \<noteq> [] \<and> take (length l) (butlast ns) = l then Some Dir else fs_names f (d @ l))" for l
    using dest_okD(5,6) [OF assms(1)] by (auto simp: f'_def add_dirs_def node_at_def)
  have node: "node_at f' l = (if take (length l) (d @ butlast ns) = l then Some Dir else node_at f l)" for l
    by (auto simp: f'_def add_dirs_def node_at_def)
  have pre: "\<exists>k < length ns. l = take k ns" if "take (length l) (butlast ns) = l" for l
  proof (intro exI conjI)
    have "length l \<le> length ns - 1" using that by (metis length_butlast length_take min.cobounded1)
    then show "length l < length ns" using ns by (cases ns) auto
    then show "l = take (length l) ns" using that by (simp add: butlast_conv_take min_absorb1)
  qed
  have tgt: "take (length t') (butlast ns) \<noteq> t'" if "t' \<in> targets ns'" "ns' \<in> N" for t' ns'
    using pre [of t'] compatibleD(2) [OF assms(2) that(2,1) assms(3)] by blast
  show "t \<in> targets ns \<Longrightarrow> fs_names f' (d @ t) = fs_names f (d @ t)" using tgt [OF _ assms(3)] by (simp add: names)
  show "dirs f' (d @ ns)"
    unfolding dirs_def
  proof (intro allI impI)
    fix k assume "k < length (d @ ns)"
    then have "take (length (take k (d @ ns))) (d @ butlast ns) = take k (d @ ns)"
      by (cases "k \<le> length d") (auto simp: butlast_conv_take min_def)
    then show "node_at f' (take k (d @ ns)) = Some Dir" by (simp add: node)
  qed
  have nx: "fs_windows f' = fs_windows f" "fs_data f' = fs_data f" "fs_next f' = fs_next f" by (simp_all add: f'_def)
  then show "frame d N ns f f'" using tgt by (auto simp: frame_def node names)
  show "dest_ok d N f'"
  proof (rule dest_okI)
    show "d \<noteq> []" by (rule dest_okD(6) [OF assms(1)])
    show "node_at f' (take k d) = Some Dir" if "k \<le> length d" for k using dest_okD(1) [OF assms(1) that] by (simp add: node)
    show "\<not> fs_denied f' l" for l using dest_okD(2) [OF assms(1)] by (simp add: f'_def)
    show "node_ok N (fs_next f') l (fs_names f' (d @ l))" if "l \<noteq> []" for l
      using dest_okD(3) [OF assms(1) that] pre [of l] assms(3) by (auto simp: names nx)
    show "l = l'" if "fs_names f' (d @ l) = Some (File i)" "fs_names f' (d @ l') = Some (File i)" for l l' i
      using dest_okD(4) [OF assms(1)] that by (auto simp: names split: if_splits)
  qed
qed

text \<open>A path of the job with the locations of its three names.\<close>

definition job_path :: "fs \<Rightarrow> loc \<Rightarrow> loc \<Rightarrow> string \<Rightarrow> bool" where
  "job_path f d ns p \<longleftrightarrow> abs_path f p (d @ ns) \<and> abs_path f (download_path p) (d @ dl ns) \<and> abs_path f (digest_path p) (d @ dg ns) \<and>
     \<not> ends_with_sep f (download_path p) \<and> \<not> ends_with_sep f (digest_path p)"

lemma job_path_push:
  assumes "base_path f base d" "clean_name (fs_windows f) name"
  shows "job_path f d (segments (fs_windows f) name) (path_push (fs_windows f) base name)"
  using abs_path_push(1) [OF assms] abs_path_push(2) [OF assms, of "''.download''"] abs_path_push(2) [OF assms, of "''.digest''"]
  by (simp add: job_path_def download_path_def digest_path_def is_sep_def)

lemma job_path_cong: "fs_windows f' = fs_windows f \<Longrightarrow> job_path f' d ns p = job_path f d ns p"
  by (simp add: job_path_def abs_path_def ends_with_sep_def)

lemma dirs_suffixed: "ns \<noteq> [] \<Longrightarrow> dirs f (d @ suffixed x ns) = dirs f (d @ ns)"
proof -
  assume "ns \<noteq> []"
  then have "length (suffixed x ns) = length ns" "k < length (d @ ns) \<Longrightarrow> take k (d @ suffixed x ns) = take k (d @ ns)" for k
    using suffixed_props(2) [of x ns] suffixed_props(3) [of ns _ x] by (cases ns; auto)+
  then show ?thesis unfolding dirs_def by (metis length_append)
qed

lemma frame_dirs: "frame d N ns f f' \<Longrightarrow> dirs f l \<Longrightarrow> dirs f' l"
  by (auto simp: frame_def dirs_def)

lemma open_ok:
  assumes "dest_ok d N f" "compatible N" "ns \<in> N" "job_path f d ns path" "untouched d ns f"
  shows "\<exists>i f'. open_download env f job path = (None, job\<lparr>tj_stream := Some (FileStream i 0 True)\<rparr>, f') \<and>
    dest_ok d N f' \<and> frame d N ns f f' \<and> pending d ns [] i f'"
proof -
  have p: "abs_path f path (d @ ns)" "abs_path f (download_path path) (d @ dl ns)" "abs_path f (digest_path path) (d @ dg ns)"
    "\<not> ends_with_sep f (download_path path)" "\<not> ends_with_sep f (digest_path path)"
    using assms(4) by (auto simp: job_path_def)
  have ns: "ns \<noteq> []" "''..'' \<notin> set (d @ ns)" "rooted (fs_windows f) path" "segments (fs_windows f) path = d @ ns"
    using assms(2,3) p(1) by (auto simp: compatible_def abs_path_def)
  have ne: "dl ns \<noteq> ns" "dg ns \<noteq> ns" "ns \<noteq> dl ns" "ns \<noteq> dg ns" "dg ns \<noteq> dl ns"
    using suffixed_props(4) [OF ns(1), of "''.download''"] suffixed_props(4) [OF ns(1), of "''.digest''"] dl_dg [of ns] dl_dg [of ns, symmetric]
    by (simp_all add: not_sym del: dl_dg)
  have tg: "ns \<in> targets ns" "dl ns \<in> targets ns" "dg ns \<in> targets ns" by (auto simp: targets_def)
  have un: "fs_names f (d @ t) = None" if "t \<in> targets ns" for t using assms(5) that by (simp add: untouched_def)
  define f1 where "f1 = f\<lparr>fs_names := add_dirs (d @ butlast ns) (fs_names f)\<rparr>"
  note d1 = dest_ok_dirs [OF assms(1-3) ns(2), folded f1_def]
  have un1: "fs_names f1 (d @ t) = None" if "t \<in> targets ns" for t using d1(5) [OF that] un [OF that] by simp
  have w1: "fs_windows f1 = fs_windows f" by (simp add: f1_def)
  have abs1: "abs_path f1 q l = abs_path f q l" "ends_with_sep f1 q = ends_with_sep f q" for q l
    by (simp_all add: abs_path_def ends_with_sep_def w1)
  have mk: "snd (create_dir_all f (start_at f path) (path_parent (fs_windows f) path)) = f1"
    using d1(1) ns by (simp add: path_parent_def start_at_def butlast_append)
  have nodg: "\<not> path_exists f1 (digest_path path)"
    using file_at_absent(2) [of f1 "digest_path path" "d @ dg ns"] p(3) dest_ok_names(3) [OF d1(2) assms(2,3)] un1 tg by (simp add: abs1)
  define f2 where "f2 = snd (new_file f1 (d @ dl ns))"
  have c2: "file_create f1 (download_path path) = Inr (fs_next f1, f2)"
    using create_abs [of f1 "download_path path" "d @ dl ns"] p dirs_suffixed [OF ns(1)] d1(4) dest_ok_names(3) [OF d1(2) assms(2,3)] un1 tg
      dest_okD(2) [OF d1(2)] by (simp add: abs1 f2_def new_file_def)
  note d2 = dest_ok_new [OF d1(2) assms(2,3) tg(2) un1 [OF tg(2)], folded f2_def]
  have w2: "fs_windows f2 = fs_windows f" using d2(2) w1 by (simp add: frame_def)
  have abs2: "abs_path f2 q l = abs_path f q l" "ends_with_sep f2 q = ends_with_sep f q" for q l
    by (simp_all add: abs_path_def ends_with_sep_def w2)
  have n2: "fs_names f2 (d @ dg ns) = None" "fs_names f2 (d @ ns) = None" "fs_names f2 (d @ dl ns) = Some (File (fs_next f1))"
    "fs_data f2 (fs_next f1) = Some ([], fs_now f1)" "fs_next f2 = Suc (fs_next f1)"
    using un1 tg ne by (auto simp: f2_def new_file_def)
  define f3 where "f3 = snd (new_file f2 (d @ dg ns))"
  have dirs2: "dirs f2 (d @ ns)" using frame_dirs [OF d2(2) d1(4)] .
  have c3: "file_create f2 (digest_path path) = Inr (fs_next f2, f3)"
    using create_abs [of f2 "digest_path path" "d @ dg ns"] p dirs_suffixed [OF ns(1)] dirs2 dest_ok_names(3) [OF d2(1) assms(2,3)] n2
      dest_okD(2) [OF d2(1)] by (simp add: abs2 f3_def new_file_def)
  note d3 = dest_ok_new [OF d2(1) assms(2,3) tg(3) n2(1), folded f3_def]
  have n3: "fs_names f3 (d @ dg ns) = Some (File (fs_next f2))" "fs_names f3 (d @ ns) = None" "fs_names f3 (d @ dl ns) = Some (File (fs_next f1))"
    "fs_data f3 (fs_next f1) = Some ([], fs_now f1)"
    using n2 ne by (auto simp: f3_def new_file_def)
  let ?text = "te_digest_text env (tj_digest job)"
  define f4 where "f4 = write_at (fs_next f2) 0 ?text f3"
  have f4: "dest_ok d N f4 \<and> frame d N ns f3 f4 \<and> fs_names f4 = fs_names f3 \<and> fs_data f4 (fs_next f1) = fs_data f3 (fs_next f1)"
  proof (cases "?text = []")
    case False
    then show ?thesis using dest_ok_data [OF d3(1) assms(2,3) tg(3) n3(1)] n2(5) by (simp add: f4_def write_at_def)
  qed (use d3(1) in \<open>simp add: f4_def write_at_def\<close>)
  have fr: "frame d N ns f f4" using d1(3) d2(2) d3(2) f4 frame_trans by blast
  have "dirs f4 (d @ ns)" using frame_dirs d1(4) d2(2) d3(2) f4 by blast
  then have "pending d ns [] (fs_next f1) f4" using f4 n3 by (simp add: pending_def)
  moreover have "open_download env f job path = (None, job\<lparr>tj_stream := Some (FileStream (fs_next f1) 0 True)\<rparr>, f4)"
    using nodg by (simp add: open_download_def mk c2 c3 fs_write_def f4_def Let_def)
  ultimately show ?thesis using f4 fr by blast
qed

lemma append_ok:
  assumes "dest_ok d N f" "compatible N" "ns \<in> N" "pending d ns p i f"
  shows "dest_ok d N (write_at i (length p) x f) \<and> frame d N ns f (write_at i (length p) x f) \<and> pending d ns (p @ x) i (write_at i (length p) x f)"
proof (cases "x = []")
  case False
  obtain t where t: "fs_data f i = Some (p, t)" "fs_names f (d @ dl ns) = Some (File i)" using assms(4) by (auto simp: pending_def)
  have "dl ns \<in> targets ns" by (simp add: targets_def)
  note d = dest_ok_data [OF assms(1-3) this t(2)]
  have w: "write_at i (length p) x f = f\<lparr>fs_data := (fs_data f)(i \<mapsto> (p @ x, fs_now f))\<rparr>"
    using False t(1) by (simp add: write_at_def content_def)
  have "pending d ns (p @ x) i (f\<lparr>fs_data := (fs_data f)(i \<mapsto> (p @ x, fs_now f))\<rparr>)"
    using assms(4) frame_dirs [OF d(2)] by (auto simp: pending_def)
  then show ?thesis unfolding w using d by blast
qed (use assms in \<open>simp add: write_at_def\<close>)

lemma finish_ok:
  fixes t :: int
  assumes "dest_ok d N f" "compatible N" "ns \<in> N" "job_path f d ns path" "pending d ns p i f"
  defines "f' \<equiv> set_file_mtime (snd (fs_rename (snd (fs_remove_file f (digest_path path))) (download_path path) path)) path t"
  shows "dest_ok d N f' \<and> frame d N ns f f' \<and> finished d ns p t f'"
proof -
  have p: "abs_path f path (d @ ns)" "abs_path f (download_path path) (d @ dl ns)" "abs_path f (digest_path path) (d @ dg ns)"
    using assms(4) by (auto simp: job_path_def)
  have ns: "ns \<noteq> []" using assms(2,3) by (auto simp: compatible_def)
  have ne: "dl ns \<noteq> ns" "dg ns \<noteq> ns" "dl ns \<noteq> dg ns"
    using suffixed_props(4) [OF ns, of "''.download''"] suffixed_props(4) [OF ns, of "''.digest''"] by simp_all
  have tg: "ns \<in> targets ns" "dl ns \<in> targets ns" "dg ns \<in> targets ns" by (auto simp: targets_def)
  obtain g t0 where st: "dirs f (d @ ns)" "fs_names f (d @ ns) = None" "fs_names f (d @ dl ns) = Some (File i)"
    "fs_data f i = Some (p, t0)" "fs_names f (d @ dg ns) = Some (File g)"
    using assms(5) by (auto simp: pending_def)
  define f1 where "f1 = f\<lparr>fs_names := (fs_names f)(d @ dg ns := None)\<rparr>"
  have r1: "snd (fs_remove_file f (digest_path path)) = f1"
    using remove_abs [OF p(3) _ st(5)] dirs_suffixed [OF ns] st(1) by (simp add: f1_def)
  have d1: "dest_ok d N f1" "frame d N ns f f1"
    unfolding f1_def using assms(1-3) tg st(5) dest_okD(6) [OF assms(1)]
    by (intro dest_ok_upd [where S = "{d @ dg ns}"]; auto simp: node_at_def)+
  have n1: "fs_names f1 (d @ ns) = None" "fs_names f1 (d @ dl ns) = Some (File i)" "fs_data f1 = fs_data f"
    using st ne by (auto simp: f1_def)
  have abs1: "abs_path f1 = abs_path f" by (intro ext) (simp add: abs_path_def f1_def)
  define f2 where "f2 = f1\<lparr>fs_names := (fs_names f1)(d @ dl ns := None, d @ ns \<mapsto> File i)\<rparr>"
  have dirs1: "dirs f1 (d @ ns)" using frame_dirs [OF d1(2) st(1)] .
  have r2: "snd (fs_rename f1 (download_path path) path) = f2"
    using rename_abs [of f1 "download_path path" "d @ dl ns" path "d @ ns" i] p dirs_suffixed [OF ns] dirs1 n1 ne
    by (simp add: abs1 f2_def)
  have only: "l' = d @ dl ns" if "fs_names f1 l' = Some (File i)" "below d l'" for l'
    using that dest_okD(4) [OF d1(1) n1(2), of "drop (length d) l'"] append_take_drop_id [of "length d" l'] by (simp add: below_def)
  have d2: "dest_ok d N f2" "frame d N ns f1 f2"
    unfolding f2_def using d1(1) assms(2,3) tg n1 only file_next [OF d1(1) n1(2)] dest_okD(6) [OF d1(1)]
    by (intro dest_ok_upd [where S = "{d @ dl ns, d @ ns}"]; auto simp: node_at_def split: if_splits)+
  have n2: "fs_names f2 (d @ ns) = Some (File i)" "fs_data f2 i = Some (p, t0)" using n1 st(4) by (auto simp: f2_def)
  have abs2: "abs_path f2 = abs_path f" by (intro ext) (simp add: abs_path_def f2_def f1_def)
  have dirs2: "dirs f2 (d @ ns)" using frame_dirs [OF d2(2) dirs1] .
  have f': "f' = f2\<lparr>fs_data := (fs_data f2)(i \<mapsto> (p, t))\<rparr>"
    using file_at_abs [of f2 path "d @ ns" i] p(1) dirs2 n2 by (simp add: f'_def r1 r2 set_file_mtime_def abs2 content_def)
  note d3 = dest_ok_data [OF d2(1) assms(2,3) tg(1) n2(1), of "(p, t)", folded f']
  have "finished d ns p t f'" using frame_dirs [OF d3(2) dirs2] n2(1) by (auto simp: finished_def f')
  then show ?thesis using d1 d2 d3 frame_trans by blast
qed

section \<open>Joining names\<close>

lemma walk_soft:
  assumes "\<forall>k \<le> length ss. node_at f (at @ take k ss) \<in> {None, Some Dir}" "''..'' \<notin> set ss"
  shows "walk n f at ss \<in> {Inr (at @ ss), Inl NotFound}"
  using assms
proof (induction ss arbitrary: at)
  case (Cons s ss)
  have k: "node_at f ((at @ [s]) @ take k ss) \<in> {None, Some Dir}" if "k \<le> length ss" for k
    using Cons.prems(1) [rule_format, of "Suc k"] that by simp
  have "walk n f (at @ [s]) ss \<in> {Inr ((at @ [s]) @ ss), Inl NotFound}" using Cons.prems(2) k by (intro Cons.IH) auto
  then show ?case using k [of 0] Cons.prems(2) by auto
qed simp

lemma metadata_soft:
  assumes "abs_path f p l" "\<forall>k < length l. node_at f (take k l) \<in> {None, Some Dir}" "\<forall>t. node_at f l \<noteq> Some (Link t)"
  shows "symlink_metadata f p = Inl NotFound \<or> (\<exists>n. symlink_metadata f p = Inr n \<and> (\<forall>t. n \<noteq> Link t))"
proof -
  have l: "segments (fs_windows f) p = l" "l \<noteq> []" "''..'' \<notin> set l" "start_at f p = []"
    using assms(1) by (auto simp: abs_path_def start_at_def)
  have k: "node_at f (take k (butlast l)) \<in> {None, Some Dir}" for k
  proof -
    have "min k (length l - 1) < length l" using l(2) by (cases l) auto
    then show ?thesis using assms(2) [rule_format, of "min k (length l - 1)"] by (simp add: butlast_conv_take take_take)
  qed
  have "walk 40 f [] (butlast l) \<in> {Inr (butlast l), Inl NotFound}"
    using walk_soft [of "butlast l" f "[]" 40] k l(3) in_set_butlastD [of "''..''" l] by auto
  moreover have "node_at f (butlast l) \<in> {None, Some Dir}" using k [of "length l"] by simp
  moreover have "last l \<noteq> ''..''" using l(2,3) last_in_set by metis
  ultimately have "locate f p \<in> {Inr l, Inl NotFound}" using l by (auto simp: locate_def)
  then show ?thesis using assms(3) by (auto simp: symlink_metadata_def look_def split: option.splits)
qed

lemma check_soft:
  assumes "rooted (fs_windows f) current" "segments (fs_windows f) current = c" "''..'' \<notin> set (c @ ss)"
    and "\<forall>k < length (c @ ss). node_at f (take k (c @ ss)) \<in> {None, Some Dir}" "\<forall>t. node_at f (c @ ss) \<noteq> Some (Link t)"
    and "\<forall>s \<in> set ss. \<not> rooted (fs_windows f) s \<and> segments (fs_windows f) s = [s]"
  shows "check_components f current (map Normal ss) = None"
  using assms
proof (induction ss arbitrary: current c)
  case (Cons s ss)
  let ?w = "fs_windows f" let ?current = "path_push ?w current s"
  have s: "\<not> rooted ?w s" "segments ?w s = [s]" using Cons.prems(6) by auto
  have segs: "segments ?w ?current = c @ [s]" "rooted ?w ?current"
    using segments_push [OF s(1)] rooted_push [OF s(1)] s(2) Cons.prems(1,2) by simp_all
  have k: "node_at f (take k (c @ [s])) \<in> {None, Some Dir}" if "k < length (c @ [s])" for k
    using Cons.prems(4) [rule_format, of k] that by simp
  have l: "node_at f (c @ [s]) \<noteq> Some (Link t)" for t
    using Cons.prems(5) Cons.prems(4) [rule_format, of "Suc (length c)"] by (cases ss) auto
  have "symlink_metadata f ?current = Inl NotFound \<or> (\<exists>n. symlink_metadata f ?current = Inr n \<and> (\<forall>t. n \<noteq> Link t))"
    using segs Cons.prems(3) k l by (intro metadata_soft [of f _ "c @ [s]"]) (auto simp: abs_path_def)
  moreover have "check_components f ?current (map Normal ss) = None"
    using segs Cons.prems by (intro Cons.IH [of ?current "c @ [s]"]) auto
  ultimately show ?case by (auto simp: Let_def split: node.splits)
qed simp

text \<open>An entry of the file list and where it goes: below the directory, or at the path itself when a single
  file has no name.\<close>

definition entry_at :: "fs \<Rightarrow> string \<Rightarrow> loc \<Rightarrow> loc \<Rightarrow> string \<Rightarrow> bool" where
  "entry_at f base d ns name \<longleftrightarrow> name = [] \<and> job_path f d ns base \<or>
     clean_name (fs_windows f) name \<and> base_path f base d \<and> ns = segments (fs_windows f) name"

lemma entry_at_cong: "fs_windows f' = fs_windows f \<Longrightarrow> entry_at f' base d ns name = entry_at f base d ns name"
  by (simp add: entry_at_def job_path_cong [of f'] base_path_def)

lemma join_ok:
  assumes "dest_ok d N f" "compatible N" "ns \<in> N" "entry_at f base d ns name"
  shows "validate_no_symlink_components f base name = None" "validate_file_name_no_traversal (fs_windows f) name = None"
    and "job_path f d ns (transfer_join (fs_windows f) base name)"
proof -
  let ?w = "fs_windows f"
  have "validate_no_symlink_components f base name = None \<and> validate_file_name_no_traversal ?w name = None \<and>
    job_path f d ns (transfer_join ?w base name)"
  proof (cases "name = []")
    case True
    then show ?thesis using assms(4)
      by (simp add: entry_at_def clean_name_def validate_no_symlink_components_def transfer_join_def validate_file_name_no_traversal_def)
  next
    case False
    then have e: "clean_name ?w name" "base_path f base d" "ns = segments ?w name" using assms(4) by (auto simp: entry_at_def)
    note n = clean_name_segments [OF e(1)]
    have v: "validate_file_name_no_traversal ?w name = None" using e(1) by (simp add: clean_name_def)
    note v' = validated_name [OF v]
    obtain cs where cs: "cs \<in> {[], [CurDir]}" "components ?w name = cs @ map Normal ns"
      using components_plain [OF v'(1,2)] e(3) by blast
    have k: "node_at f (take k (d @ ns)) \<in> {None, Some Dir}" if "k < length (d @ ns)" for k
      using that dest_okD(1) [OF assms(1), of k] dest_ok_names(1) [OF assms(1-3), of "k - length d"]
      by (cases "k \<le> length d") auto
    have l: "node_at f (d @ ns) \<noteq> Some (Link t)" for t
      using dest_ok_names(3) [OF assms(1-3), of ns] by (auto simp: no_link_def dest: spec [of _ "length (d @ ns)"])
    have "check_components f base (map Normal ns) = None"
      using e(2,3) n(2) k l segments_plain [of _ ?w name]
      by (intro check_soft [of f base d ns]) (auto simp: base_path_def)
    then have "validate_no_symlink_components f base name = None" using cs by (auto simp: validate_no_symlink_components_def)
    then show ?thesis using v job_path_push [OF e(2,1)] e(3) False by (simp add: transfer_join_def)
  qed
  then show "validate_no_symlink_components f base name = None" "validate_file_name_no_traversal ?w name = None"
    "job_path f d ns (transfer_join ?w base name)" by blast+
qed

lemma join_validated_ok:
  assumes "dest_ok d N f" "compatible N" "ns \<in> N" "entry_at f base d ns name"
  shows "join_validated_path f base name = Inr (transfer_join (fs_windows f) base name)"
  using join_ok [OF assms] by (simp add: join_validated_path_def)

end
