(* ===== verification/TransferServer.thy ===== *)
theory TransferServer
  imports TransferJobs
begin

text \<open>
  The end of a file transfer that writes: the commands of the connection manager (\<open>handle_fs\<close> in
  \<^verbatim>\<open>src/ui_cm_interface.rs\<close>, with its helpers), and how a connection turns the messages of the peer that
  sends into those commands (\<^verbatim>\<open>src/server/connection.rs\<close>). The commands that list directories are not part of
  this theory; the log of transfers is not modelled. \<open>None\<close> is a panic.
\<close>

datatype fs_command =
    NewWrite string int int "(string \<times> int) list" bool "64 word"
  | CancelWrite int
  | WriteDone int int
  | WriteError int int fs_error
  | WriteBlock file_block
  | CheckDigest transfer_digest bool
  | SendConfirm send_confirm
  | RemoveFile string int int
  | CreateDir string int
  | Rename int string string
  | CancelRead int
  | SendConfirmForRead int bool u32

datatype cm_message = CmDone int int | CmError int fs_error int | CmDigest transfer_digest bool | CmConfirm send_confirm

record cm_state =
  cm_write_jobs :: "transfer_job list"
  cm_read_jobs :: "transfer_job list"
  cm_fs :: fs

text \<open>A change made through \<open>get_job\<close>, to the first job with the number.\<close>

fun put_job :: "transfer_job \<Rightarrow> transfer_job list \<Rightarrow> transfer_job list" where
  "put_job j [] = []"
| "put_job j (k # ks) = (if tj_id k = tj_id j then j # ks else k # put_job j ks)"

definition handle_result :: "fs_error option \<times> fs \<Rightarrow> int \<Rightarrow> int \<Rightarrow> cm_state \<Rightarrow> (cm_state \<times> cm_message list) option" where
  "handle_result r i file_num st =
     Some (st\<lparr>cm_fs := snd r\<rparr>, [case fst r of Some e \<Rightarrow> CmError i e file_num | None \<Rightarrow> CmDone i file_num])"

definition fs_new_write :: "string \<Rightarrow> int \<Rightarrow> int \<Rightarrow> (string \<times> int) list \<Rightarrow> bool \<Rightarrow> 64 word \<Rightarrow> cm_state \<Rightarrow> cm_state \<times> cm_message list" where
  "fs_new_write path i file_num files detection bytes_sum st =
     (case set_files (cm_fs st) (map (\<lambda>(name, modified). \<lparr>fe_name = name, fe_size = 0, fe_modified_time = modified\<rparr>) files)
         (new_write i Generic (FilePath path) file_num detection) of
        (Some e, _) \<Rightarrow> (st, [CmError i e file_num])
      | (None, job) \<Rightarrow> (st\<lparr>cm_write_jobs := cm_write_jobs st @ [job\<lparr>tj_total_size := bytes_sum\<rparr>]\<rparr>, []))"

definition fs_write_block :: "transfer_env \<Rightarrow> file_block \<Rightarrow> cm_state \<Rightarrow> cm_state \<times> cm_message list" where
  "fs_write_block env blk st =
     (case get_job (bk_id blk) (cm_write_jobs st) of
        None \<Rightarrow> (st, [])
      | Some job \<Rightarrow>
          (case job_write env blk (job, cm_fs st) of
             (err, job, f) \<Rightarrow>
               (st\<lparr>cm_write_jobs := put_job job (cm_write_jobs st), cm_fs := f\<rparr>,
                case err of Some e \<Rightarrow> [CmError (bk_id blk) e (bk_file_num blk)] | None \<Rightarrow> [])))"

definition fs_check_digest :: "transfer_env \<Rightarrow> transfer_digest \<Rightarrow> bool \<Rightarrow> cm_state \<Rightarrow> cm_state \<times> cm_message list" where
  "fs_check_digest env dg is_upload st =
     (case get_job (dg_id dg) (cm_write_jobs st) of
        None \<Rightarrow> (st, [])
      | Some job \<Rightarrow>
          if as_usize (dg_file_num dg) \<ge> length (tj_files job) then (st, [])
          else case tj_source job of
              MemoryCursor _ \<Rightarrow> (st, [])
            | FilePath p \<Rightarrow>
                (let path = transfer_join (fs_windows (cm_fs st)) p (fe_name (tj_files job ! as_usize (dg_file_num dg)));
                     st' = st\<lparr>cm_write_jobs := put_job (set_digest (dg_file_size dg) (dg_last_modified dg) job) (cm_write_jobs st)\<rparr>;
                     req = (\<lambda>u. \<lparr>cq_id = dg_id dg, cq_file_num = dg_file_num dg, cq_union = Some u\<rparr>);
                     digest = \<lparr>dg_id = dg_id dg, dg_file_num = dg_file_num dg, dg_last_modified = dg_last_modified dg,
                       dg_file_size = dg_file_size dg, dg_is_identical = False, dg_transferred_size = 0, dg_is_resume = False\<rparr>
                 in (st', [case is_write_need_confirmation env (cm_fs st) (dg_is_resume dg) path digest of
                       IsSame \<Rightarrow> CmConfirm (req (Skip True))
                     | NeedConfirm d \<Rightarrow> CmDigest d is_upload
                     | NoSuchFile \<Rightarrow> CmConfirm (req (OffsetBlk 0))])))"

definition fs_confirm :: "send_confirm \<Rightarrow> cm_state \<Rightarrow> cm_state option" where
  "fs_confirm r st =
     (case get_job (cq_id r) (cm_write_jobs st) of
        None \<Rightarrow> Some st
      | Some job \<Rightarrow>
          (case job_confirm r (job, cm_fs st) of
             None \<Rightarrow> None
           | Some (job, f) \<Rightarrow> Some (st\<lparr>cm_write_jobs := put_job job (cm_write_jobs st), cm_fs := f\<rparr>)))"

definition fs_confirm_for_read :: "int \<Rightarrow> bool \<Rightarrow> u32 \<Rightarrow> cm_state \<Rightarrow> cm_state option" where
  "fs_confirm_for_read i skip offset st =
     (case get_job i (cm_read_jobs st) of
        None \<Rightarrow> Some st
      | Some job \<Rightarrow>
          (case job_confirm \<lparr>cq_id = i, cq_file_num = tj_file_num job, cq_union = Some (if skip then Skip True else OffsetBlk offset)\<rparr>
              (job, cm_fs st) of
             None \<Rightarrow> None
           | Some (job, f) \<Rightarrow> Some (st\<lparr>cm_read_jobs := put_job job (cm_read_jobs st), cm_fs := f\<rparr>)))"

fun handle_fs :: "transfer_env \<Rightarrow> fs_command \<Rightarrow> cm_state \<Rightarrow> (cm_state \<times> cm_message list) option" where
  "handle_fs env (NewWrite path i file_num files detection bytes_sum) st = Some (fs_new_write path i file_num files detection bytes_sum st)"
| "handle_fs env (CancelWrite i) st =
     (case remove_job i (cm_write_jobs st) of
        (Some job, js) \<Rightarrow> Some (st\<lparr>cm_write_jobs := js, cm_fs := remove_download_file (cm_fs st) job\<rparr>, [])
      | (None, _) \<Rightarrow> Some (st, []))"
| "handle_fs env (WriteDone i file_num) st =
     (case remove_job i (cm_write_jobs st) of
        (Some job, js) \<Rightarrow> Some (st\<lparr>cm_write_jobs := js, cm_fs := modify_time (cm_fs st) job\<rparr>, [CmDone i file_num])
      | (None, _) \<Rightarrow> Some (st, []))"
| "handle_fs env (WriteError i file_num err) st =
     (case remove_job i (cm_write_jobs st) of
        (Some job, js) \<Rightarrow> Some (st\<lparr>cm_write_jobs := js\<rparr>, [CmError (tj_id job) err file_num])
      | (None, _) \<Rightarrow> Some (st, []))"
| "handle_fs env (WriteBlock blk) st = Some (fs_write_block env blk st)"
| "handle_fs env (CheckDigest dg is_upload) st = Some (fs_check_digest env dg is_upload st)"
| "handle_fs env (SendConfirm r) st = map_option (\<lambda>st. (st, [])) (fs_confirm r st)"
| "handle_fs env (RemoveFile path i file_num) st = handle_result (remove_file (cm_fs st) path) i file_num st"
| "handle_fs env (CreateDir path i) st = handle_result (create_dir (cm_fs st) path) i 0 st"
| "handle_fs env (Rename i path new_name) st = handle_result (rename_file (cm_fs st) path new_name) i 0 st"
| "handle_fs env (CancelRead i) st =
     (case remove_job i (cm_read_jobs st) of
        (Some _, js) \<Rightarrow> Some (st\<lparr>cm_read_jobs := js\<rparr>, [])
      | (None, _) \<Rightarrow> Some (st, []))"
| "handle_fs env (SendConfirmForRead i skip offset) st = map_option (\<lambda>st. (st, [])) (fs_confirm_for_read i skip offset st)"

text \<open>What a connection does with the messages of a peer that sends files. The text of an error stands for
  itself: it is passed on.\<close>

definition on_file_response :: "file_response \<Rightarrow> fs_command" where
  "on_file_response r =
     (case r of
        BlockResponse blk \<Rightarrow> WriteBlock blk
      | DoneResponse i file_num \<Rightarrow> WriteDone i file_num
      | DigestResponse dg \<Rightarrow> CheckDigest dg True
      | ErrorResponse i e file_num \<Rightarrow> WriteError i file_num e
      | SkippedResponse i file_num \<Rightarrow> WriteError i file_num (Bail ''skipped''))"

fun run_commands :: "transfer_env \<Rightarrow> fs_command list \<Rightarrow> cm_state \<Rightarrow> (cm_state \<times> cm_message list) option" where
  "run_commands env [] st = Some (st, [])"
| "run_commands env (c # cs) st =
     (case handle_fs env c st of
        None \<Rightarrow> None
      | Some (st, out) \<Rightarrow> map_option (\<lambda>(st, out'). (st, out @ out')) (run_commands env cs st))"

text \<open>The sending end, called whenever its turn comes.\<close>

fun serve :: "transfer_env \<Rightarrow> fs \<Rightarrow> nat \<Rightarrow> transfer_job list \<Rightarrow> transfer_job list \<times> file_response list" where
  "serve env f 0 jobs = (jobs, [])"
| "serve env f (Suc n) jobs =
     (let (jobs, out) = handle_read_jobs env f jobs; (jobs, out') = serve env f n jobs in (jobs, out @ out'))"

lemma run_commands_append:
  "run_commands env (xs @ ys) st =
     (case run_commands env xs st of
        None \<Rightarrow> None
      | Some (st, out) \<Rightarrow> map_option (\<lambda>(st, out'). (st, out @ out')) (run_commands env ys st))"
  by (induction xs arbitrary: st) (auto split: option.splits simp: option.map_comp comp_def option.map_ident case_prod_unfold)

lemma serve_add: "serve env f (m + n) jobs =
    (let (jobs, out) = serve env f m jobs; (jobs, out') = serve env f n jobs in (jobs, out @ out'))"
  by (induction m arbitrary: jobs) (auto simp: Let_def case_prod_unfold)

end
