(* ===== verification/TransferClient.thy ===== *)
theory TransferClient
  imports TransferServer
begin

text \<open>
  The controlling end of file transfers, \<^verbatim>\<open>src/client/io_loop.rs\<close>: what it does with the digests, blocks,
  results and confirmations of the controlled end and with the answers of the user, and a transfer from the
  controlling to the controlled end as the exchange of the two over channels that keep the order of messages.
  \<open>None\<close> is a panic.
\<close>

section \<open>State and output\<close>

record client =
  cl_read_jobs :: "transfer_job list"
  cl_write_jobs :: "transfer_job list"
  cl_fs :: fs

datatype client_out = ConfirmOut send_confirm | AskOverride int int string bool bool | JobStatus int int "fs_error option"

text \<open>\<open>TransferJob::new_read\<close>; the files are what listing the source gave.\<close>

definition new_read :: "int \<Rightarrow> job_type \<Rightarrow> data_source \<Rightarrow> int \<Rightarrow> bool \<Rightarrow> fs_error + file_entry list \<Rightarrow> fs_error + transfer_job" where
  "new_read i ty source file_num detection listing =
     (case source of
        FilePath _ \<Rightarrow>
          (case listing of
             Inl e \<Rightarrow> Inl e
           | Inr files \<Rightarrow> Inr ((new_write i ty source file_num detection)\<lparr>tj_files := files, tj_total_size := sum_sizes files\<rparr>))
      | MemoryCursor c \<Rightarrow> Inr ((new_write i ty source file_num detection)\<lparr>tj_total_size := word_of_nat (length c)\<rparr>))"

section \<open>Confirmations\<close>

definition confirm_read :: "send_confirm \<Rightarrow> client \<Rightarrow> client option" where
  "confirm_read r cl =
     (case get_job (cq_id r) (cl_read_jobs cl) of
        None \<Rightarrow> Some cl
      | Some job \<Rightarrow>
          map_option (\<lambda>(job, f). cl\<lparr>cl_read_jobs := put_job job (cl_read_jobs cl), cl_fs := f\<rparr>) (job_confirm r (job, cl_fs cl)))"

definition confirm_write :: "send_confirm \<Rightarrow> client \<Rightarrow> client option" where
  "confirm_write r cl =
     (case get_job (cq_id r) (cl_write_jobs cl) of
        None \<Rightarrow> Some cl
      | Some job \<Rightarrow>
          map_option (\<lambda>(job, f). cl\<lparr>cl_write_jobs := put_job job (cl_write_jobs cl), cl_fs := f\<rparr>) (job_confirm r (job, cl_fs cl)))"

definition confirm_request :: "int \<Rightarrow> int \<Rightarrow> bool \<Rightarrow> u32 \<Rightarrow> send_confirm" where
  "confirm_request i file_num overwrite offset =
     \<lparr>cq_id = i, cq_file_num = file_num, cq_union = Some (if overwrite then OffsetBlk offset else Skip True)\<rparr>"

text \<open>What to do about a file that is there already: resume, follow the strategy the user chose, or ask. The
  offset of a confirmation is a \<open>u32\<close>.\<close>

definition decide :: "transfer_job \<Rightarrow> transfer_digest \<Rightarrow> (bool \<times> u32) option" where
  "decide job dg =
     (if dg_is_identical dg \<and> tj_is_resume job \<and> dg_transferred_size dg > 0 then Some (True, word_of_nat (dg_transferred_size dg))
      else map_option (\<lambda>overwrite. (overwrite, 0)) (tj_strategy job))"

definition entry_path :: "fs \<Rightarrow> transfer_job \<Rightarrow> int \<Rightarrow> string option" where
  "entry_path f job file_num =
     (if as_usize file_num \<ge> length (tj_files job) then None
      else case tj_source job of
          FilePath p \<Rightarrow> Some (transfer_join (fs_windows f) p (fe_name (tj_files job ! as_usize file_num)))
        | MemoryCursor _ \<Rightarrow> None)"

definition upload_digest :: "transfer_digest \<Rightarrow> client \<Rightarrow> (client \<times> client_out list) option" where
  "upload_digest dg cl =
     (case get_job (dg_id dg) (cl_read_jobs cl) of
        None \<Rightarrow> Some (cl, [])
      | Some job \<Rightarrow>
          (case entry_path (cl_fs cl) job (dg_file_num dg) of
             None \<Rightarrow> Some (cl, [])
           | Some read_path \<Rightarrow>
               (case decide job dg of
                  Some (overwrite, offset) \<Rightarrow>
                    (let req = confirm_request (dg_id dg) (dg_file_num dg) overwrite offset
                     in map_option (\<lambda>cl. (cl, [ConfirmOut req])) (confirm_read req cl))
                | None \<Rightarrow> Some (cl, [AskOverride (dg_id dg) (dg_file_num dg) read_path True (dg_is_identical dg)]))))"

definition download_digest :: "transfer_env \<Rightarrow> bool \<Rightarrow> transfer_digest \<Rightarrow> client \<Rightarrow> (client \<times> client_out list) option" where
  "download_digest env support_resume dg cl =
     (case get_job (dg_id dg) (cl_write_jobs cl) of
        None \<Rightarrow> Some (cl, [])
      | Some job \<Rightarrow>
          (case entry_path (cl_fs cl) job (dg_file_num dg) of
             None \<Rightarrow> Some (cl, [])
           | Some write_path \<Rightarrow>
               (let job = set_digest (dg_file_size dg) (dg_last_modified dg) job;
                    cl = cl\<lparr>cl_write_jobs := put_job job (cl_write_jobs cl)\<rparr>;
                    answer = (\<lambda>overwrite offset.
                      let req = confirm_request (dg_id dg) (dg_file_num dg) overwrite offset
                      in map_option (\<lambda>cl. (cl, [ConfirmOut req])) (confirm_write req cl))
                in case is_write_need_confirmation env (cl_fs cl) (support_resume \<and> tj_is_resume job) write_path dg of
                     IsSame \<Rightarrow> answer False 0
                   | NeedConfirm d \<Rightarrow>
                       (case decide job d of
                          Some (overwrite, offset) \<Rightarrow> answer overwrite offset
                        | None \<Rightarrow> Some (cl, [AskOverride (dg_id d) (dg_file_num d) write_path False (dg_is_identical d)]))
                   | NoSuchFile \<Rightarrow> answer True 0)))"

text \<open>The answer of the user; only a transfer to this end tells the other end about it.\<close>

definition set_strategy :: "bool \<Rightarrow> bool \<Rightarrow> int \<Rightarrow> transfer_job list \<Rightarrow> transfer_job list" where
  "set_strategy remember need_override i jobs =
     (case get_job i jobs of Some job \<Rightarrow> if remember then put_job (job\<lparr>tj_strategy := Some need_override\<rparr>) jobs else jobs | None \<Rightarrow> jobs)"

definition set_confirm_override_file :: "int \<Rightarrow> int \<Rightarrow> bool \<Rightarrow> bool \<Rightarrow> bool \<Rightarrow> client \<Rightarrow> (client \<times> client_out list) option" where
  "set_confirm_override_file i file_num need_override remember is_upload cl =
     (let req = confirm_request i file_num need_override 0 in
      if is_upload then
        map_option (\<lambda>cl. (cl, [])) (confirm_read req (cl\<lparr>cl_read_jobs := set_strategy remember need_override i (cl_read_jobs cl)\<rparr>))
      else if get_job i (cl_write_jobs cl) = None then Some (cl, [])
      else map_option (\<lambda>cl. (cl, [ConfirmOut req]))
             (confirm_write req (cl\<lparr>cl_write_jobs := set_strategy remember need_override i (cl_write_jobs cl)\<rparr>)))"

section \<open>Blocks and results\<close>

definition client_block :: "transfer_env \<Rightarrow> file_block \<Rightarrow> client \<Rightarrow> client" where
  "client_block env blk cl =
     (case get_job (bk_id blk) (cl_write_jobs cl) of
        None \<Rightarrow> cl
      | Some job \<Rightarrow>
          (case job_write env blk (job, cl_fs cl) of
             (_, job, f) \<Rightarrow> cl\<lparr>cl_write_jobs := put_job job (cl_write_jobs cl), cl_fs := f\<rparr>))"

definition job_error :: "transfer_job \<Rightarrow> fs_error option" where
  "job_error job = (if job_skipped job then Some (Bail ''skipped'') else None)"

definition client_done :: "int \<Rightarrow> int \<Rightarrow> client \<Rightarrow> client \<times> client_out list" where
  "client_done i file_num cl =
     (case remove_job i (cl_write_jobs cl) of
        (None, _) \<Rightarrow> (cl, [JobStatus i file_num None])
      | (Some job, js) \<Rightarrow>
          (cl\<lparr>cl_write_jobs := js, cl_fs := modify_time (cl_fs cl) job\<rparr>,
           if tj_type job = Generic then [JobStatus i file_num (job_error job)] else []))"

definition client_error :: "int \<Rightarrow> fs_error \<Rightarrow> int \<Rightarrow> client \<Rightarrow> client \<times> client_out list" where
  "client_error i e file_num cl =
     (let (w, ws) = remove_job i (cl_write_jobs cl);
          (r, rs) = (if w = None then remove_job i (cl_read_jobs cl) else (w, cl_read_jobs cl))
      in (cl\<lparr>cl_write_jobs := ws, cl_read_jobs := rs\<rparr>,
          case r of
            Some job \<Rightarrow> if tj_type job = Generic then [JobStatus i file_num (Some e)] else []
          | None \<Rightarrow> [JobStatus i file_num (Some e)]))"

text \<open>A message of the controlled end about a transfer to it.\<close>

definition on_cm_message :: "cm_message \<Rightarrow> client \<Rightarrow> (client \<times> client_out list) option" where
  "on_cm_message m cl =
     (case m of
        CmConfirm r \<Rightarrow> map_option (\<lambda>cl. (cl, [])) (confirm_read r cl)
      | CmDigest dg _ \<Rightarrow> upload_digest dg cl
      | CmDone i file_num \<Rightarrow> Some (client_done i file_num cl)
      | CmError i e file_num \<Rightarrow> Some (client_error i e file_num cl))"

section \<open>The exchange\<close>

record exchange =
  ex_client :: client
  ex_commands :: "fs_command list"
  ex_server :: cm_state
  ex_messages :: "cm_message list"
  ex_asked :: "(int \<times> int) list"

definition asked :: "client_out list \<Rightarrow> (int \<times> int) list" where
  "asked out = concat (map (\<lambda>x. case x of AskOverride i n _ _ _ \<Rightarrow> [(i, n)] | _ \<Rightarrow> []) out)"

definition confirms :: "client_out list \<Rightarrow> fs_command list" where
  "confirms out = concat (map (\<lambda>x. case x of ConfirmOut r \<Rightarrow> [SendConfirm r] | _ \<Rightarrow> []) out)"

definition client_turn :: "transfer_env \<Rightarrow> exchange \<Rightarrow> exchange" where
  "client_turn env x =
     (let (jobs, out) = handle_read_jobs env (cl_fs (ex_client x)) (cl_read_jobs (ex_client x))
      in x\<lparr>ex_client := (ex_client x)\<lparr>cl_read_jobs := jobs\<rparr>, ex_commands := ex_commands x @ map on_file_response out\<rparr>)"

definition server_turn :: "transfer_env \<Rightarrow> exchange \<Rightarrow> exchange option" where
  "server_turn env x =
     (case ex_commands x of
        [] \<Rightarrow> Some x
      | c # cs \<Rightarrow>
          map_option (\<lambda>(st, out). x\<lparr>ex_commands := cs, ex_server := st, ex_messages := ex_messages x @ out\<rparr>)
            (handle_fs env c (ex_server x)))"

definition client_hears :: "exchange \<Rightarrow> exchange option" where
  "client_hears x =
     (case ex_messages x of
        [] \<Rightarrow> Some x
      | m # ms \<Rightarrow>
          map_option (\<lambda>(cl, out). x\<lparr>ex_messages := ms, ex_client := cl, ex_asked := ex_asked x @ asked out,
              ex_commands := ex_commands x @ confirms out\<rparr>)
            (on_cm_message m (ex_client x)))"

definition user_answers :: "nat \<Rightarrow> bool \<Rightarrow> bool \<Rightarrow> exchange \<Rightarrow> exchange option" where
  "user_answers n need_override remember x =
     (if n \<ge> length (ex_asked x) then Some x
      else (case ex_asked x ! n of (i, file_num) \<Rightarrow>
        map_option (\<lambda>(cl, out). x\<lparr>ex_client := cl, ex_asked := take n (ex_asked x) @ drop (Suc n) (ex_asked x)\<rparr>)
          (set_confirm_override_file i file_num need_override remember True (ex_client x))))"

text \<open>The user sends files to the other end, which is told their names and times; between different systems
  the separators of the names are replaced.\<close>

definition told :: "file_entry list \<Rightarrow> (string \<times> int) list" where
  "told files = map (\<lambda>e. (fe_name e, fe_modified_time e)) files"

definition sent_names :: "exchange \<Rightarrow> file_entry list \<Rightarrow> file_entry list" where
  "sent_names x files =
     (if fs_windows (cl_fs (ex_client x)) \<and> \<not> fs_windows (cm_fs (ex_server x)) then transform_windows_path files else files)"

definition send_files :: "int \<Rightarrow> string \<Rightarrow> string \<Rightarrow> int \<Rightarrow> bool \<Rightarrow> fs_error + file_entry list \<Rightarrow> exchange \<Rightarrow> exchange \<times> client_out list" where
  "send_files i path to file_num od listing x =
     (case new_read i Generic (FilePath path) file_num od listing of
        Inl e \<Rightarrow> (x, [JobStatus i (-1) (Some e)])
      | Inr job \<Rightarrow>
          (x\<lparr>ex_client := (ex_client x)\<lparr>cl_read_jobs := cl_read_jobs (ex_client x) @ [job]\<rparr>,
             ex_commands := ex_commands x @
               [NewWrite to i file_num (told (sent_names x (tj_files job))) od (tj_total_size job)]\<rparr>, []))"

inductive step :: "transfer_env \<Rightarrow> exchange \<Rightarrow> exchange \<Rightarrow> bool" for env where
  turn: "cl_read_jobs (ex_client x) \<noteq> [] \<Longrightarrow> step env x (client_turn env x)"
| serve: "ex_commands x \<noteq> [] \<Longrightarrow> server_turn env x = Some y \<Longrightarrow> step env x y"
| hear: "ex_messages x \<noteq> [] \<Longrightarrow> client_hears x = Some y \<Longrightarrow> step env x y"
| answer: "n < length (ex_asked x) \<Longrightarrow> user_answers n need_override remember x = Some y \<Longrightarrow> step env x y"

abbreviation steps :: "transfer_env \<Rightarrow> exchange \<Rightarrow> exchange \<Rightarrow> bool" where
  "steps env \<equiv> (step env)\<^sup>*\<^sup>*"

end
