(* ===== verification/TransferUpload.thy ===== *)
theory TransferUpload
  imports TransferProps TransferClient
begin

text \<open>
  A whole transfer, from the files the sending end reads to the files the receiving end leaves behind. The
  receiving end is in one of three kinds of state: no block yet, in the middle of a file, or done; the sending
  end is at the start of a file or in the middle of one.
\<close>

section \<open>The receiving end\<close>

definition layout :: "fs \<Rightarrow> string \<Rightarrow> loc \<Rightarrow> file_entry list \<Rightarrow> loc list \<Rightarrow> bool" where
  "layout f base d es nss \<longleftrightarrow> length nss = length es \<and> distinct nss \<and> compatible (set nss) \<and> length es < 2 ^ 31 \<and>
     (\<forall>j < length es. entry_at f base d (nss ! j) (fe_name (es ! j)))"

lemma layout_cong: "fs_windows f' = fs_windows f \<Longrightarrow> layout f' base d es nss = layout f base d es nss"
  by (simp add: layout_def entry_at_cong [of f'])

definition receives :: "string \<Rightarrow> file_entry list \<Rightarrow> transfer_job \<Rightarrow> bool" where
  "receives base es job \<longleftrightarrow> tj_type job = Generic \<and> tj_source job = FilePath base \<and> tj_files job = es"

text \<open>The files before number \<open>k\<close> have arrived, those after it have not been touched.\<close>

definition around :: "loc \<Rightarrow> file_entry list \<Rightarrow> loc list \<Rightarrow> bytes list \<Rightarrow> nat \<Rightarrow> nat \<Rightarrow> fs \<Rightarrow> bool" where
  "around d es nss cs k k' f \<longleftrightarrow> dest_ok d (set nss) f \<and>
     (\<forall>j < k. finished d (nss ! j) (cs ! j) (fe_modified_time (es ! j) * NANOS) f) \<and>
     (\<forall>j. k' \<le> j \<longrightarrow> j < length es \<longrightarrow> untouched d (nss ! j) f)"

definition writing :: "string \<Rightarrow> loc \<Rightarrow> file_entry list \<Rightarrow> loc list \<Rightarrow> bytes list \<Rightarrow> nat \<Rightarrow> bytes \<Rightarrow> transfer_job \<Rightarrow> fs \<Rightarrow> bool" where
  "writing base d es nss cs k p job f \<longleftrightarrow> layout f base d es nss \<and> receives base es job \<and> k < length es \<and>
     tj_file_num job = int k \<and> around d es nss cs k (Suc k) f \<and>
     (\<exists>i. tj_stream job = Some (FileStream i (length p) True) \<and> pending d (nss ! k) p i f)"

definition fresh :: "string \<Rightarrow> loc \<Rightarrow> file_entry list \<Rightarrow> loc list \<Rightarrow> transfer_job \<Rightarrow> fs \<Rightarrow> bool" where
  "fresh base d es nss job f \<longleftrightarrow> layout f base d es nss \<and> receives base es job \<and>
     tj_file_num job = 0 \<and> tj_stream job = None \<and> around d es nss [] 0 0 f"

lemma as_usize_int [simp]: "k < 2 ^ 64 \<Longrightarrow> as_usize (int k) = k"
  by (simp add: as_usize_def)

lemma layoutD:
  assumes "layout f base d es nss" "j < length es"
  shows "nss ! j \<in> set nss" "compatible (set nss)" "entry_at f base d (nss ! j) (fe_name (es ! j))" "as_usize (int j) = j"
    and "i < length es \<Longrightarrow> i \<noteq> j \<Longrightarrow> nss ! i \<noteq> nss ! j"
  using assms by (auto simp: layout_def nth_eq_iff_index_eq)

lemma frame_around:
  assumes "layout f base d es nss" "k < length es" "around d es nss cs k' (Suc k) f" "k' \<le> k"
    and "frame d (set nss) (nss ! k) f f'" "dest_ok d (set nss) f'"
  shows "around d es nss cs k' (Suc k) f'"
  unfolding around_def
proof (intro conjI allI impI)
  note n = layoutD [OF assms(1)]
  show "dest_ok d (set nss) f'" by (rule assms(6))
  show "finished d (nss ! j) (cs ! j) (fe_modified_time (es ! j) * NANOS) f'" if "j < k'" for j
    using frame_finished [OF assms(5) n(1) n(5)] assms(2-4) that by (simp add: around_def)
  show "untouched d (nss ! j) f'" if "Suc k \<le> j" "j < length es" for j
    using frame_untouched [OF assms(5) n(1) n(5)] assms(2-4) that by (simp add: around_def)
qed

lemma current_entry_ok:
  assumes "layout f base d es nss" "receives base es job" "k < length es" "tj_file_num job = int k" "dest_ok d (set nss) f"
  defines "path \<equiv> transfer_join (fs_windows f) base (fe_name (es ! k))"
  shows "current_entry f job = Some (es ! k, path)" "job_path f d (nss ! k) path"
  using join_validated_ok [OF assms(5) layoutD(2,1,3) [OF assms(1,3)]] join_ok(3) [OF assms(5) layoutD(2,1,3) [OF assms(1,3)]]
    assms(2-4) layoutD(4) [OF assms(1,3)]
  by (simp_all add: current_entry_def receives_def resolve_entry_path_def path_def Let_def)

lemma modify_pending:
  assumes "writing base d es nss cs k (cs ! k) job f"
  shows "around d es nss cs (Suc k) (Suc k) (modify_time f job)" "fs_windows (modify_time f job) = fs_windows f"
proof -
  have w: "layout f base d es nss" "receives base es job" "k < length es" "tj_file_num job = int k"
    and a: "around d es nss cs k (Suc k) f" and "\<exists>i. pending d (nss ! k) (cs ! k) i f"
    using assms by (auto simp: writing_def)
  then obtain i where p: "pending d (nss ! k) (cs ! k) i f" by blast
  have ok: "dest_ok d (set nss) f" using a by (simp add: around_def)
  note e = current_entry_ok [OF w ok] and n = layoutD [OF w(1,3)]
  let ?f = "modify_time f job"
  have f: "dest_ok d (set nss) ?f \<and> frame d (set nss) (nss ! k) f ?f \<and>
    finished d (nss ! k) (cs ! k) (fe_modified_time (es ! k) * NANOS) ?f"
    using finish_ok [OF ok n(2,1) e(2) p] by (simp add: modify_time_def e(1) Let_def)
  have "around d es nss cs k (Suc k) ?f" using frame_around [OF w(1,3) a] f by blast
  then show "around d es nss cs (Suc k) (Suc k) ?f" using f by (auto simp: around_def less_Suc_eq)
  show "fs_windows ?f = fs_windows f" using f by (simp add: frame_def)
qed

lemma modify_untouched:
  assumes "layout f base d es nss" "receives base es job" "k < length es" "tj_file_num job = int k" "dest_ok d (set nss) f"
    and "untouched d (nss ! k) f"
  shows "modify_time f job = f"
proof -
  note e = current_entry_ok [OF assms(1-5)] and n = layoutD [OF assms(1,3)]
  have u: "fs_names f (d @ t) = None" if "t \<in> targets (nss ! k)" for t using assms(6) that by (simp add: untouched_def)
  note l = dest_ok_names(3) [OF assms(5) n(2,1)]
  have p: "snd (fs_remove_file f (digest_path (transfer_join (fs_windows f) base (fe_name (es ! k))))) = f"
    "snd (fs_rename f (download_path (transfer_join (fs_windows f) base (fe_name (es ! k)))) q) = f"
    "file_at f (transfer_join (fs_windows f) base (fe_name (es ! k))) = None" for q
    using e(2) u l remove_absent rename_absent file_at_absent(1) unfolding job_path_def by (metis insertCI targets_def)+
  show ?thesis using p by (simp add: modify_time_def e(1) set_file_mtime_def)
qed

definition sync_ok :: "transfer_env \<Rightarrow> bool" where
  "sync_ok env \<longleftrightarrow> (\<forall>i. te_sync env i = None)"

lemma sync_stream_ok [simp]: "sync_ok env \<Longrightarrow> sync_stream env job = None"
  by (auto simp: sync_ok_def sync_stream_def split: option.split data_stream.split)

lemma start_ok:
  assumes "layout f base d es nss" "receives base es job" "k < length es" "modify_time f job = f1"
    and "around d es nss cs k k f1" "fs_windows f1 = fs_windows f" and "sync_ok env"
  shows "\<exists>i f'. start_file env f job base (int k) =
      (None, job\<lparr>tj_file_num := int k, tj_stream := Some (FileStream i 0 True)\<rparr>, f') \<and>
    writing base d es nss cs k [] (job\<lparr>tj_file_num := int k, tj_stream := Some (FileStream i 0 True)\<rparr>) f'"
proof -
  have l1: "layout f1 base d es nss" using assms(1) layout_cong [OF assms(6)] by simp
  have ok: "dest_ok d (set nss) f1" "untouched d (nss ! k) f1" using assms(3,5) by (auto simp: around_def)
  note n = layoutD [OF l1 assms(3)]
  let ?path = "transfer_join (fs_windows f1) base (fe_name (es ! k))"
  let ?job = "job\<lparr>tj_file_num := int k\<rparr>"
  have path: "join_validated_path f1 base (fe_name (es ! k)) = Inr ?path" "job_path f1 d (nss ! k) ?path"
    using join_validated_ok [OF ok(1) n(2,1,3)] join_ok(3) [OF ok(1) n(2,1,3)] by simp_all
  obtain i f' where o: "open_download env f1 ?job ?path = (None, ?job\<lparr>tj_stream := Some (FileStream i 0 True)\<rparr>, f')"
    "dest_ok d (set nss) f'" "frame d (set nss) (nss ! k) f1 f'" "pending d (nss ! k) [] i f'"
    using open_ok [OF ok(1) n(2,1) path(2) ok(2)] by blast
  have s: "start_file env f job base (int k) = (None, ?job\<lparr>tj_stream := Some (FileStream i 0 True)\<rparr>, f')"
    using assms(2,4,7) path(1) o(1) n(4) by (simp add: start_file_def receives_def Let_def)
  have "around d es nss cs k (Suc k) f1" using assms(5) by (auto simp: around_def)
  then have "around d es nss cs k (Suc k) f'" using frame_around [OF l1 assms(3) _ _ o(3,2)] by blast
  moreover have "layout f' base d es nss" using l1 layout_cong [of f' f1] o(3) by (simp add: frame_def)
  ultimately show ?thesis using s o(4) assms(2,3) by (auto simp: writing_def receives_def)
qed

text \<open>What a block adds to its file.\<close>

definition decoded :: "transfer_env \<Rightarrow> file_block \<Rightarrow> bytes" where
  "decoded env blk = (if bk_compressed blk then decompress (te_unzstd env) (bk_data blk) else bk_data blk)"

lemma append_block_ok:
  assumes "writing base d es nss cs k p job f"
  shows "\<exists>job' f'. append_block env blk job f = (None, job', f') \<and> tj_id job' = tj_id job \<and>
    writing base d es nss cs k (p @ decoded env blk) job' f'"
proof -
  obtain i where w: "layout f base d es nss" "receives base es job" "k < length es" "tj_file_num job = int k"
    and a: "around d es nss cs k (Suc k) f" and p: "tj_stream job = Some (FileStream i (length p) True)" "pending d (nss ! k) p i f"
    using assms by (auto simp: writing_def)
  have ok: "dest_ok d (set nss) f" using a by (simp add: around_def)
  note n = layoutD [OF w(1,3)]
  let ?x = "decoded env blk"
  let ?f = "write_at i (length p) ?x f"
  let ?job = "job\<lparr>tj_stream := Some (FileStream i (length (p @ ?x)) True), tj_finished_size := tj_finished_size job + word_of_nat (length ?x),
    tj_transferred := tj_transferred job + word_of_nat (length (bk_data blk))\<rparr>"
  note f = append_ok [OF ok n(2,1) p(2), of ?x]
  have "write_all (FileStream i (length p) True) ?x f = Inr (FileStream i (length (p @ ?x)) True, ?f)"
    by (simp add: write_all_def write_at_def)
  then have "append_block env blk job f = (None, ?job, ?f)"
    using p(1) unfolding append_block_def decoded_def [symmetric] by (simp add: Let_def)
  moreover have "writing base d es nss cs k (p @ ?x) ?job ?f"
    using f w frame_around [OF w(1,3) a _ conjunct1 [OF conjunct2 [OF f]]] layout_cong [of ?f f]
    by (auto simp: writing_def receives_def frame_def)
  ultimately show ?thesis by auto
qed

lemma write_ok:
  assumes "bk_id blk = tj_id job" "bk_file_num blk = int k"
    and "writing base d es nss cs k p job f \<or> p = [] \<and> fresh base d es nss job f \<and> es \<noteq> [] \<and> k = 0 \<or>
      p = [] \<and> k < length es \<and> (\<exists>k'. k = Suc k' \<and> writing base d es nss cs k' (cs ! k') job f)"
    and "sync_ok env \<or> writing base d es nss cs k p job f"
  shows "\<exists>job' f'. job_write env blk (job, f) = (None, job', f') \<and> tj_id job' = tj_id job \<and>
    writing base d es nss cs k (p @ decoded env blk) job' f'"
proof -
  have "\<exists>job' f'. prepare_write env f job blk = (None, job', f') \<and> tj_id job' = tj_id job \<and> writing base d es nss cs k p job' f'"
  proof (cases "writing base d es nss cs k p job f")
    case w: True
    then have "k < length es" "layout f base d es nss" by (auto simp: writing_def)
    then show ?thesis using w assms(2) layoutD(4) [of f base d es nss k] by (auto simp: writing_def prepare_write_def receives_def)
  next
    case False
    then have sync: "sync_ok env" using assms(4) by blast
    show ?thesis using assms(3) False
  proof (elim disjE conjE exE)
    assume w: "p = []" "fresh base d es nss job f" "es \<noteq> []" "k = 0"
    then have l: "layout f base d es nss" "receives base es job" "tj_file_num job = int 0" "0 < length es" "around d es nss cs 0 0 f"
      "tj_stream job = None"
      by (auto simp: fresh_def around_def)
    then have "modify_time f job = f" by (intro modify_untouched [OF l(1,2,4,3)]) (auto simp: around_def)
    from start_ok [OF l(1,2,4) this l(5) _ sync] show ?thesis
      using w l(2,4,6) assms(2) layoutD(4) [OF l(1,4)] by (auto simp: prepare_write_def receives_def)
  next
    fix k' assume w: "p = []" "k < length es" "k = Suc k'" "writing base d es nss cs k' (cs ! k') job f"
    then have l: "layout f base d es nss" "receives base es job" "k' < length es" "tj_file_num job = int k'" by (auto simp: writing_def)
    from start_ok [OF l(1,2) w(2) refl _ _ sync] modify_pending [OF w(4)] w(3)
    obtain i f' where "start_file env f job base (int k) = (None, job\<lparr>tj_file_num := int k, tj_stream := Some (FileStream i 0 True)\<rparr>, f')"
      "writing base d es nss cs k [] (job\<lparr>tj_file_num := int k, tj_stream := Some (FileStream i 0 True)\<rparr>) f'" by blast
    then show ?thesis
      using w l assms(2) layoutD(4) [OF l(1) w(2)] layoutD(4) [OF l(1,3)] by (auto simp: prepare_write_def receives_def)
  qed blast
  qed
  then obtain job' f' where j: "prepare_write env f job blk = (None, job', f')" "tj_id job' = tj_id job"
    "writing base d es nss cs k p job' f'" by blast
  show ?thesis using append_block_ok [OF j(3), of env blk] assms(1) j by (auto simp: job_write_def)
qed

text \<open>The receiving end has the first \<open>k\<close> files, or those and \<open>p\<close> of the next.\<close>

definition caught_up :: "string \<Rightarrow> loc \<Rightarrow> file_entry list \<Rightarrow> loc list \<Rightarrow> bytes list \<Rightarrow> nat \<Rightarrow> transfer_job \<Rightarrow> fs \<Rightarrow> bool" where
  "caught_up base d es nss cs k job f \<longleftrightarrow> k \<le> length es \<and>
     (if k = 0 then fresh base d es nss job f else writing base d es nss cs (k - 1) (cs ! (k - 1)) job f)"

definition got :: "string \<Rightarrow> loc \<Rightarrow> file_entry list \<Rightarrow> loc list \<Rightarrow> bytes list \<Rightarrow> nat \<Rightarrow> bytes \<Rightarrow> transfer_job \<Rightarrow> fs \<Rightarrow> bool" where
  "got base d es nss cs k p job f \<longleftrightarrow> k < length es \<and>
     (writing base d es nss cs k p job f \<or> p = [] \<and> caught_up base d es nss cs k job f)"

lemma caught_up_layout: "caught_up base d es nss cs k job f \<Longrightarrow> layout f base d es nss \<and> receives base es job \<and> dest_ok d (set nss) f"
  by (auto simp: caught_up_def fresh_def writing_def around_def split: if_splits)

lemma caught_up_untouched:
  assumes "caught_up base d es nss cs k job f" "k < length es"
  shows "untouched d (nss ! k) f"
  using assms by (auto simp: caught_up_def fresh_def writing_def around_def split: if_splits)

lemma caught_up_digest: "caught_up base d es nss cs k (set_digest n m job) f = caught_up base d es nss cs k job f"
  by (simp add: caught_up_def fresh_def writing_def receives_def set_digest_def)

lemma write_got:
  assumes "got base d es nss cs k p job f" "bk_id blk = tj_id job" "bk_file_num blk = int k"
    and "sync_ok env \<or> writing base d es nss cs k p job f"
  shows "\<exists>job' f'. job_write env blk (job, f) = (None, job', f') \<and> tj_id job' = tj_id job \<and>
    writing base d es nss cs k (p @ decoded env blk) job' f'"
proof (rule write_ok [OF assms(2,3)])
  show "writing base d es nss cs k p job f \<or> p = [] \<and> fresh base d es nss job f \<and> es \<noteq> [] \<and> k = 0 \<or>
      p = [] \<and> k < length es \<and> (\<exists>k'. k = Suc k' \<and> writing base d es nss cs k' (cs ! k') job f)"
    using assms(1) by (cases k) (auto simp: got_def caught_up_def)
qed (rule assms(4))

definition all_there :: "string \<Rightarrow> file_entry list \<Rightarrow> bytes list \<Rightarrow> fs \<Rightarrow> bool" where
  "all_there base es cs f \<longleftrightarrow>
     (\<forall>k < length es. \<exists>i. file_at f (transfer_join (fs_windows f) base (fe_name (es ! k))) = Some i \<and>
        fs_data f i = Some (cs ! k, fe_modified_time (es ! k) * NANOS))"

lemma around_all_there:
  assumes "around d es nss cs (length es) (length es) f" "layout f base d es nss"
  shows "all_there base es cs f"
  unfolding all_there_def
proof (intro allI impI)
  fix k assume k: "k < length es"
  note n = layoutD [OF assms(2) k]
  have ok: "dest_ok d (set nss) f" "finished d (nss ! k) (cs ! k) (fe_modified_time (es ! k) * NANOS) f"
    using assms(1) k by (auto simp: around_def)
  let ?p = "transfer_join (fs_windows f) base (fe_name (es ! k))"
  have p: "abs_path f ?p (d @ nss ! k)" using join_ok(3) [OF ok(1) n(2,1,3)] by (simp add: job_path_def)
  obtain i where i: "dirs f (d @ nss ! k)" "fs_names f (d @ nss ! k) = Some (File i)"
    "fs_data f i = Some (cs ! k, fe_modified_time (es ! k) * NANOS)"
    using ok(2) by (auto simp: finished_def)
  show "\<exists>i. file_at f ?p = Some i \<and> fs_data f i = Some (cs ! k, fe_modified_time (es ! k) * NANOS)"
    using file_at_abs [OF p i(1,2)] i(3) by blast
qed

lemma write_done_ok:
  assumes "caught_up base d es nss cs (length es) job f"
  shows "all_there base es cs (modify_time f job)"
proof (cases "es = []")
  case False
  then obtain k where k: "length es = Suc k" by (cases es) auto
  then have w: "writing base d es nss cs k (cs ! k) job f" using assms by (simp add: caught_up_def)
  note m = modify_pending [OF w]
  have "layout (modify_time f job) base d es nss" using w layout_cong [OF m(2)] by (simp add: writing_def)
  then show ?thesis using around_all_there m(1) k by metis
qed (simp add: all_there_def)

section \<open>The receiving end's commands\<close>

abbreviation cm :: "transfer_job list \<Rightarrow> transfer_job \<Rightarrow> fs \<Rightarrow> cm_state" where
  "cm rs job f \<equiv> \<lparr>cm_write_jobs = [job], cm_read_jobs = rs, cm_fs = f\<rparr>"

lemma block_command:
  assumes "got base d es nss cs k p job f" "bk_id blk = tj_id job" "bk_file_num blk = int k"
    and "sync_ok env \<or> writing base d es nss cs k p job f"
  shows "\<exists>job' f'. handle_fs env (WriteBlock blk) (cm rs job f) = Some (cm rs job' f', []) \<and> tj_id job' = tj_id job \<and>
    writing base d es nss cs k (p @ decoded env blk) job' f'"
  using write_got [OF assms] assms(2) by (auto simp: fs_write_block_def get_job_def)

lemma digest_command:
  assumes "caught_up base d es nss cs k job f" "k < length es" "dg_id dig = tj_id job" "dg_file_num dig = int k" "\<not> dg_is_resume dig"
  shows "\<exists>job'. handle_fs env (CheckDigest dig u) (cm rs job f) =
      Some (cm rs job' f, [CmConfirm \<lparr>cq_id = tj_id job, cq_file_num = int k, cq_union = Some (OffsetBlk 0)\<rparr>]) \<and>
    tj_id job' = tj_id job \<and> caught_up base d es nss cs k job' f"
proof -
  note l = caught_up_layout [OF assms(1)]
  then have r: "receives base es job" "dest_ok d (set nss) f" and lay: "layout f base d es nss" by blast+
  note n = layoutD [OF lay assms(2)]
  let ?path = "transfer_join (fs_windows f) base (fe_name (es ! k))"
  have "fs_names f (d @ nss ! k) = None" using caught_up_untouched [OF assms(1,2)] by (simp add: untouched_def targets_def)
  then have "file_at f ?path = None"
    using file_at_absent(1) join_ok(3) [OF r(2) n(2,1,3)] dest_ok_names(3) [OF r(2) n(2,1)] unfolding job_path_def by blast
  then have "is_write_need_confirmation env f False ?path dig' = NoSuchFile" for dig' by (simp add: is_write_need_confirmation_def)
  then have "handle_fs env (CheckDigest dig u) (cm rs job f) = Some (cm rs (set_digest (dg_file_size dig) (dg_last_modified dig) job) f,
      [CmConfirm \<lparr>cq_id = tj_id job, cq_file_num = int k, cq_union = Some (OffsetBlk 0)\<rparr>])"
    using r(1) assms(2-5) n(4) by (simp add: fs_check_digest_def get_job_def receives_def Let_def set_digest_def)
  then show ?thesis using assms(1) caught_up_digest by (auto simp: set_digest_def)
qed

lemma done_command:
  assumes "caught_up base d es nss cs (length es) job f"
  shows "\<exists>f'. handle_fs env (WriteDone (tj_id job) n) (cm rs job f) =
      Some (\<lparr>cm_write_jobs = [], cm_read_jobs = rs, cm_fs = f'\<rparr>, [CmDone (tj_id job) n]) \<and> all_there base es cs f'"
  using write_done_ok [OF assms] by auto

section \<open>The sending end\<close>

lemma fill_buf_eq:
  assumes "\<forall>p. rs p \<ge> 1" "length buf \<le> BUF_SIZE" "pos \<le> length c"
  shows "fill_buf rs c pos buf =
    (buf @ take (BUF_SIZE - length buf) (drop pos c), pos + length (take (BUF_SIZE - length buf) (drop pos c)))"
  using assms
proof (induction rs c pos buf rule: fill_buf.induct)
  case (1 rs c pos buf)
  define n where "n = min (rs pos) (min (BUF_SIZE - length buf) (length c - pos))"
  have n: "n \<le> BUF_SIZE - length buf" "n \<le> length c - pos" by (auto simp: n_def)
  let ?buf = "buf @ take n (drop pos c)"
  have len: "length ?buf = length buf + n" using n by simp
  have step: "fill_buf rs c pos buf =
      (if n = 0 \<or> length ?buf = BUF_SIZE then (?buf, pos + n) else fill_buf rs c (pos + n) ?buf)"
    unfolding n_def by (subst fill_buf.simps) (simp only: Let_def)
  show ?case
  proof (cases "n = 0 \<or> length ?buf = BUF_SIZE")
    case True
    then have "fill_buf rs c pos buf = (?buf, pos + n)" by (simp only: step if_True)
    moreover have "take (BUF_SIZE - length buf) (drop pos c) = take n (drop pos c)"
    proof (cases "n = 0")
      case True
      then have "BUF_SIZE - length buf = 0 \<or> length c - pos = 0" using 1(2) [rule_format, of pos] by (auto simp: n_def min_def split: if_splits)
      then show ?thesis using True by auto
    next
      case False
      then have "BUF_SIZE - length buf = n" using True len by simp
      then show ?thesis by simp
    qed
    ultimately show ?thesis using n by simp
  next
    case False
    then have "fill_buf rs c pos buf = fill_buf rs c (pos + n) ?buf" by (simp only: step if_False)
    also have "\<dots> = (?buf @ take (BUF_SIZE - length ?buf) (drop (pos + n) c),
        (pos + n) + length (take (BUF_SIZE - length ?buf) (drop (pos + n) c)))"
    proof (rule 1(1) [OF n_def refl False 1(2)])
      show "length ?buf \<le> BUF_SIZE" using n(1) 1(3) len by linarith
      show "pos + n \<le> length c" using n(2) 1(4) by linarith
    qed
    also have "\<dots> = (buf @ take (BUF_SIZE - length buf) (drop pos c), pos + length (take (BUF_SIZE - length buf) (drop pos c)))"
    proof -
      have "take (BUF_SIZE - length buf) (drop pos c) = take n (drop pos c) @ take (BUF_SIZE - length ?buf) (drop (pos + n) c)"
      proof -
        have "BUF_SIZE - length buf = n + (BUF_SIZE - length ?buf)" using n(1) len by linarith
        then show ?thesis using take_add [of n "BUF_SIZE - length ?buf" "drop pos c"] by (simp add: add.commute)
      qed
      then show ?thesis using n by simp
    qed
    finally show ?thesis .
  qed
qed

definition sends :: "int \<Rightarrow> string \<Rightarrow> file_entry list \<Rightarrow> nat \<Rightarrow> transfer_job \<Rightarrow> bool" where
  "sends i src files k job \<longleftrightarrow> tj_id job = i \<and> tj_type job = Generic \<and> tj_source job = FilePath src \<and> tj_files job = files \<and>
     tj_overwrite_detection job \<and> \<not> tj_is_last_job job \<and> \<not> tj_is_resume job \<and> \<not> tj_skipped job \<and> tj_file_num job = int k \<and>
     length files < 2 ^ 31"

definition opens :: "fs \<Rightarrow> string \<Rightarrow> file_entry list \<Rightarrow> nat list \<Rightarrow> bool" where
  "opens g src files inos \<longleftrightarrow> length inos = length files \<and>
     (\<forall>k < length files. file_open g (transfer_join (fs_windows g) src (fe_name (files ! k))) = Inr (inos ! k) \<and> 0 \<le> mtime g (inos ! k))"

text \<open>Where the sending end is: before a file, waiting for its confirmation, or in the middle of it.\<close>

definition at_start :: "int \<Rightarrow> string \<Rightarrow> file_entry list \<Rightarrow> nat \<Rightarrow> transfer_job \<Rightarrow> bool" where
  "at_start i src files k job \<longleftrightarrow> sends i src files k job \<and> k \<le> length files \<and> tj_stream job = None \<and>
     \<not> tj_confirmed job \<and> \<not> tj_waiting job"

definition at_wait :: "int \<Rightarrow> string \<Rightarrow> file_entry list \<Rightarrow> nat \<Rightarrow> nat \<Rightarrow> transfer_job \<Rightarrow> bool" where
  "at_wait i src files ino k job \<longleftrightarrow> sends i src files k job \<and> k < length files \<and> tj_stream job = Some (FileStream ino 0 False) \<and>
     \<not> tj_confirmed job \<and> tj_waiting job"

definition at_send :: "int \<Rightarrow> string \<Rightarrow> file_entry list \<Rightarrow> nat \<Rightarrow> nat \<Rightarrow> nat \<Rightarrow> transfer_job \<Rightarrow> bool" where
  "at_send i src files ino k pos job \<longleftrightarrow> sends i src files k job \<and> k < length files \<and> tj_stream job = Some (FileStream ino pos False) \<and>
     tj_confirmed job"

lemma sendsD:
  assumes "sends i src files k job" "k \<le> length files"
  shows "as_usize (tj_file_num job) = k" "k < length files \<Longrightarrow> wrap_i32 (tj_file_num job + 1) = int (Suc k)"
proof -
  have k: "k < 2 ^ 31" "tj_file_num job = int k" using assms by (auto simp: sends_def)
  then show "as_usize (tj_file_num job) = k" by simp
  assume "k < length files"
  then have "Suc k < 2 ^ 31" using assms by (simp add: sends_def)
  then show "wrap_i32 (tj_file_num job + 1) = int (Suc k)" using k(2) by (simp add: wrap_i32_def signed_take_bit_int_eq_self)
qed

lemma turn_start:
  assumes "at_start i src files k job" "opens g src files inos" "k < length files"
  shows "\<exists>job' dig. handle_read_jobs env g [job] = ([job'], [DigestResponse dig]) \<and> at_wait i src files (inos ! k) k job' \<and>
    dg_id dig = i \<and> dg_file_num dig = int k \<and> \<not> dg_is_resume dig"
proof -
  note s = sendsD(1) [of i src files k job] and o = assms(2) [unfolded opens_def]
  have j: "tj_id job = i" "tj_type job = Generic" "tj_source job = FilePath src" "tj_files job = files" "tj_overwrite_detection job"
    "\<not> tj_is_last_job job" "\<not> tj_is_resume job" "\<not> tj_skipped job" "tj_file_num job = int k" "as_usize (int k) = k"
    "tj_stream job = None" "\<not> tj_confirmed job" "\<not> tj_waiting job" "length files < 2 ^ 31"
    using assms(1) s by (auto simp: at_start_def sends_def)
  have "\<not> mtime g (inos ! k) < 0" using o assms(3) by (simp add: not_less)
  then show ?thesis
    using j assms(3) o
    by (simp add: handle_read_jobs_def init_data_stream_def open_data_stream_def asks_confirmation_def send_current_digest_def
        get_current_digest_def read_turn_def job_read_def job_completed_def at_wait_def sends_def Let_def)
qed

lemma turn_end:
  assumes "at_start i src files (length files) job"
  shows "handle_read_jobs env g [job] = ([], [DoneResponse i (int (length files))])"
proof -
  note s = sendsD(1) [of i src files "length files" job]
  have j: "tj_id job = i" "tj_type job = Generic" "tj_source job = FilePath src" "tj_files job = files" "tj_overwrite_detection job"
    "\<not> tj_is_last_job job" "\<not> tj_is_resume job" "\<not> tj_skipped job" "tj_file_num job = int (length files)"
    "as_usize (int (length files)) = length files" "tj_stream job = None" "\<not> tj_confirmed job" "\<not> tj_waiting job"
    using assms s by (auto simp: at_start_def sends_def)
  then show ?thesis
    by (simp add: handle_read_jobs_def init_data_stream_def open_data_stream_def read_turn_def job_read_def job_completed_def
        job_skipped_def Let_def)
qed

lemma turn_wait:
  assumes "at_wait i src files ino k job"
  shows "handle_read_jobs env g [job] = ([job], [])"
proof -
  note s = sendsD(1) [of i src files k job]
  have j: "tj_type job = Generic" "tj_source job = FilePath src" "tj_files job = files" "tj_overwrite_detection job"
    "\<not> tj_is_last_job job" "tj_file_num job = int k" "as_usize (int k) = k" "k < length files"
    "tj_stream job = Some (FileStream ino 0 False)" "\<not> tj_confirmed job" "tj_waiting job"
    using assms s by (auto simp: at_wait_def sends_def)
  then show ?thesis
    by (simp add: handle_read_jobs_def init_data_stream_def open_data_stream_def asks_confirmation_def read_turn_def job_read_def
        job_completed_def Let_def)
qed

text \<open>What the code relies on of zstd and of reading a file: what is compressed can be decompressed, and a
  read returns nothing only at the end.\<close>

definition env_ok :: "transfer_env \<Rightarrow> bool" where
  "env_ok env \<longleftrightarrow> zstd_ok (te_zstd env) (te_unzstd env) \<and> (\<forall>p. te_read_size env p \<ge> 1) \<and> sync_ok env"

lemma pack_decoded:
  assumes "env_ok env" "pack_block env b buf = (x, c)"
  shows "decoded env \<lparr>bk_id = i, bk_file_num = n, bk_data = x, bk_compressed = c\<rparr> = buf"
proof -
  have "zstd_ok (te_zstd env) (te_unzstd env)" using assms(1) by (simp add: env_ok_def)
  then show ?thesis using assms(2) by (auto simp: pack_block_def decoded_def Let_def split: if_splits)
qed

lemma turn_send:
  assumes "at_send i src files ino k pos job" "env_ok env" "pos \<le> length (content g ino)"
  shows "\<exists>job' blk. handle_read_jobs env g [job] = ([job'], [BlockResponse blk]) \<and> bk_id blk = i \<and> bk_file_num blk = int k \<and>
    decoded env blk = take BUF_SIZE (drop pos (content g ino)) \<and>
    (if pos = length (content g ino) then at_start i src files (Suc k) job'
     else at_send i src files ino k (pos + length (decoded env blk)) job')"
proof -
  note s = sendsD [of i src files k job]
  have j: "tj_id job = i" "tj_type job = Generic" "tj_source job = FilePath src" "tj_files job = files" "tj_overwrite_detection job"
    "\<not> tj_is_last_job job" "\<not> tj_is_resume job" "\<not> tj_skipped job" "tj_file_num job = int k" "as_usize (int k) = k" "k < length files"
    "wrap_i32 (int k + 1) = int (Suc k)" "tj_stream job = Some (FileStream ino pos False)" "tj_confirmed job" "length files < 2 ^ 31"
    using assms(1) s by (auto simp: at_send_def sends_def)
  let ?buf = "take BUF_SIZE (drop pos (content g ino))"
  have fill: "stream_fill env g (FileStream ino pos False) = Inr (?buf, FileStream ino (pos + length ?buf) False)"
    using fill_buf_eq [of "te_read_size env" "[]" pos "content g ino"] assms(2,3) by (simp add: stream_fill_def env_ok_def)
  have init: "init_data_stream g job = (None, job, [])"
    using j by (simp add: init_data_stream_def open_data_stream_def asks_confirmation_def)
  have turn: "handle_read_jobs env g [job] = ([job'], [BlockResponse blk])" if "job_read env g job = (Inr (Some blk), job')" for blk job'
    using j that by (simp add: handle_read_jobs_def init read_turn_def)
  show ?thesis
  proof (cases "pos = length (content g ino)")
    case True
    let ?blk = "\<lparr>bk_id = tj_id job, bk_file_num = tj_file_num job, bk_data = [], bk_compressed = False\<rparr>"
    have "job_read env g job = (Inr (Some ?blk), next_file job)"
      using j fill True by (simp add: job_read_def is_file_source_def)
    note t = turn [OF this]
    have "at_start i src files (Suc k) (next_file job)" using j by (simp add: at_start_def sends_def next_file_def)
    then show ?thesis using t True j(1,9) by (intro exI [of _ "next_file job"] exI [of _ ?blk]) (simp add: decoded_def)
  next
    case False
    then have ne: "?buf \<noteq> []" using assms(3) by (simp add: BUF_SIZE_def)
    obtain x c where x: "pack_block env (\<not> is_compressed_file (read_name g job)) ?buf = (x, c)" by fastforce
    let ?blk = "\<lparr>bk_id = tj_id job, bk_file_num = tj_file_num job, bk_data = x, bk_compressed = c\<rparr>"
    let ?job = "job\<lparr>tj_stream := Some (FileStream ino (pos + length ?buf) False),
      tj_finished_size := tj_finished_size job + word_of_nat (length ?buf), tj_transferred := tj_transferred job + word_of_nat (length x)\<rparr>"
    have "job_read env g job = (Inr (Some ?blk), ?job)"
      using j fill ne x by (simp add: job_read_def is_file_source_def)
    note t = turn [OF this]
    have "decoded env ?blk = ?buf" by (rule pack_decoded [OF assms(2) x])
    moreover have "at_send i src files ino k (pos + length ?buf) ?job" using j by (simp add: at_send_def sends_def)
    ultimately show ?thesis using t False j(1,9) by (intro exI [of _ ?job] exI [of _ ?blk]) (simp del: length_take)
  qed
qed

section \<open>Resuming\<close>

lemma open_write_abs:
  assumes "abs_path f p l" "dirs f l" "no_link f l" "fs_names f l = Some (File i)" "\<not> fs_denied f l" "\<not> ends_with_sep f p"
  shows "file_open_write f p = Inr (i, f)"
  using resolve_abs [OF assms(1-3)] assms by (simp add: file_open_write_def open_at_def node_at_def abs_path_def)

lemma file_exists: "file_at f p = Some i \<Longrightarrow> path_exists f p"
  by (auto simp: file_at_def path_exists_def split: sum.splits node.splits)

lemma confirm_resumes:
  assumes "layout f base d es nss" "receives base es job" "k < length es" "tj_file_num job = int k" "around d es nss cs k (Suc k) f"
    and "pending d (nss ! k) p i f" "p \<noteq> []" "length p < 4294967296"
  shows "\<exists>job'. job_confirm \<lparr>cq_id = tj_id job, cq_file_num = int k, cq_union = Some (OffsetBlk (word_of_nat (length p)))\<rparr> (job, f) = Some (job', f) \<and>
    tj_id job' = tj_id job \<and> writing base d es nss cs k p job' f"
proof -
  have ok: "dest_ok d (set nss) f" using assms(5) by (simp add: around_def)
  note n = layoutD [OF assms(1,3)]
  let ?path = "transfer_join (fs_windows f) base (fe_name (es ! k))"
  have j: "job_path f d (nss ! k) ?path" "join_validated_path f base (fe_name (es ! k)) = Inr ?path"
    using join_ok(3) [OF ok n(2,1,3)] join_validated_ok [OF ok n(2,1,3)] by auto
  have ns: "nss ! k \<noteq> []" using n(1,2) by (auto simp: compatible_def)
  obtain g where s: "dirs f (d @ nss ! k)" "fs_names f (d @ dl (nss ! k)) = Some (File i)" "fs_names f (d @ dg (nss ! k)) = Some (File g)"
    using assms(6) by (auto simp: pending_def)
  have e: "file_at f (download_path ?path) = Some i" "file_at f (digest_path ?path) = Some g"
    using file_at_abs j(1) s dirs_suffixed [OF ns] unfolding job_path_def by blast+
  have o: "file_open_write f (download_path ?path) = Inr (i, f)"
    using open_write_abs j(1) s dirs_suffixed [OF ns] dest_ok_names(3) [OF ok n(2,1)] dest_okD(2) [OF ok] unfolding job_path_def by blast
  have off: "unat (word_of_nat (length p) :: u32) = length p" using assms(8) by (simp add: unat_of_nat)
  then have "0 < unat (word_of_nat (length p) :: u32)" using assms(7) by simp
  then have off0: "0 < (word_of_nat (length p) :: u32)" by (simp add: unat_gt_0 word_neq_0_conv)
  let ?job = "(set_file_confirmed True job)\<lparr>tj_stream := Some (FileStream i (length p) True),
    tj_transferred := tj_transferred job + word_of_nat (length p), tj_finished_size := tj_finished_size job + word_of_nat (length p)\<rparr>"
  have "job_confirm \<lparr>cq_id = tj_id job, cq_file_num = int k, cq_union = Some (OffsetBlk (word_of_nat (length p)))\<rparr> (job, f) = Some (?job, f)"
    using assms(2-4,7,8) n(4) j(2) e [THEN file_exists] o off off0
    by (simp add: job_confirm_def set_stream_offset_def receives_def set_file_confirmed_def resolve_entry_path_def Let_def)
  moreover have "writing base d es nss cs k p ?job f"
    using assms by (auto simp: writing_def receives_def set_file_confirmed_def)
  ultimately show ?thesis by (auto simp: set_file_confirmed_def)
qed

lemma blocks_command:
  assumes "writing base d es nss cs k p job f" "\<forall>b \<in> set blks. bk_id b = tj_id job \<and> bk_file_num b = int k"
  shows "\<exists>job' f'. run_commands env (map WriteBlock blks) (cm rs job f) = Some (cm rs job' f', []) \<and> tj_id job' = tj_id job \<and>
    writing base d es nss cs k (p @ concat (map (decoded env) blks)) job' f'"
  using assms
proof (induction blks arbitrary: p job f)
  case (Cons b bs)
  have "got base d es nss cs k p job f" using Cons.prems(1) by (simp add: got_def writing_def)
  from block_command [OF this, of b env rs] Cons.prems(1,2) obtain job' f'
    where b: "handle_fs env (WriteBlock b) (cm rs job f) = Some (cm rs job' f', [])" "tj_id job' = tj_id job"
      "writing base d es nss cs k (p @ decoded env b) job' f'" by auto
  have "\<forall>b \<in> set bs. bk_id b = tj_id job' \<and> bk_file_num b = int k" using Cons.prems(2) b(2) by simp
  from Cons.IH [OF b(3) this]
  obtain job2 f2 where "run_commands env (map WriteBlock bs) (cm rs job' f') = Some (cm rs job2 f2, [])" "tj_id job2 = tj_id job'"
    "writing base d es nss cs k ((p @ decoded env b) @ concat (map (decoded env) bs)) job2 f2"
    by blast
  then show ?case using b(1,2) by simp
qed simp

lemma finished_content:
  assumes "layout f base d es nss" "k < length es" "around d es nss cs (Suc k) (Suc k) f"
  shows "file_content f (transfer_join (fs_windows f) base (fe_name (es ! k))) = Some (cs ! k)"
proof -
  note n = layoutD [OF assms(1,2)]
  have ok: "dest_ok d (set nss) f" "finished d (nss ! k) (cs ! k) (fe_modified_time (es ! k) * NANOS) f"
    using assms(3) by (auto simp: around_def)
  show ?thesis using file_at_abs [of f] join_ok(3) [OF ok(1) n(2,1,3)] ok(2)
    by (fastforce simp: finished_def job_path_def file_content_def content_def)
qed

text \<open>(C32) A resumed file is whole in the end: if a first part of a file, not empty and below 4 GiB, which is what the offset of
  a confirmation can tell, is there under its name with \<open>.download\<close> added beside its digest, and the transfer is confirmed to go
  on behind it, the blocks of the rest complete the file under its name. The names of the job are as in \<open>layout\<close>: none of them
  is another one with \<open>.download\<close> or \<open>.digest\<close> added, and none a directory of another.\<close>

theorem resumed_file_is_whole:
  assumes "layout f base d es nss" and "receives base es job" and "k < length es" and "tj_file_num job = int k"
    and "around d es nss cs k (Suc k) f" and "pending d (nss ! k) p i f" and "p \<noteq> []" and "length p < 4294967296"
    and "\<forall>b \<in> set blks. bk_id b = tj_id job \<and> bk_file_num b = int k" and "p @ concat (map (decoded env) blks) = cs ! k"
  shows "\<exists>st. run_commands env
      (SendConfirm \<lparr>cq_id = tj_id job, cq_file_num = int k, cq_union = Some (OffsetBlk (word_of_nat (length p)))\<rparr> # map WriteBlock blks @ [WriteDone (tj_id job) n])
      (cm rs job f) = Some (st, [CmDone (tj_id job) n]) \<and>
    file_content (cm_fs st) (transfer_join (fs_windows (cm_fs st)) base (fe_name (es ! k))) = Some (cs ! k)"
proof -
  obtain job1 where c: "job_confirm \<lparr>cq_id = tj_id job, cq_file_num = int k, cq_union = Some (OffsetBlk (word_of_nat (length p)))\<rparr> (job, f) = Some (job1, f)"
    "tj_id job1 = tj_id job" "writing base d es nss cs k p job1 f"
    using confirm_resumes [OF assms(1-8)] by blast
  obtain job2 f2 where b: "run_commands env (map WriteBlock blks) (cm rs job1 f) = Some (cm rs job2 f2, [])" "tj_id job2 = tj_id job"
    "writing base d es nss cs k (cs ! k) job2 f2"
    using blocks_command [OF c(3), of blks env rs] assms(9,10) c(2) by auto
  let ?f = "modify_time f2 job2"
  note m = modify_pending [OF b(3)]
  have l: "layout f2 base d es nss" using b(3) by (simp add: writing_def)
  have "file_content ?f (transfer_join (fs_windows ?f) base (fe_name (es ! k))) = Some (cs ! k)"
    using finished_content [of ?f base d es nss k cs] l layout_cong [OF m(2)] m assms(3) by simp
  then show ?thesis using c(1,2) b(1,2) by (auto simp: run_commands_append fs_confirm_def get_job_def)
qed

text \<open>A directory with the first two bytes of a file of three.\<close>

definition half_done :: fs where
  "half_done = \<lparr>fs_windows = False, fs_names = [[''t''] \<mapsto> Dir, [''t'', ''a.download''] \<mapsto> File 0, [''t'', ''a.digest''] \<mapsto> File 1],
     fs_data = [0 \<mapsto> ([1, 2], 7), 1 \<mapsto> ([], 7)], fs_next = 2, fs_cwd = [], fs_now = 10, fs_denied = (\<lambda>_. False)\<rparr>"

definition half_entry :: file_entry where
  "half_entry = \<lparr>fe_name = ''a'', fe_size = 3, fe_modified_time = 5\<rparr>"

definition half_job :: transfer_job where
  "half_job = (new_write 4 Generic (FilePath ''/t'') 0 True)\<lparr>tj_files := [half_entry], tj_is_resume := True\<rparr>"

lemma half_done_ok:
  "layout half_done ''/t'' [''t''] [half_entry] [[''a'']]" "around [''t''] [half_entry] [[''a'']] [[1, 2, 3]] 0 (Suc 0) half_done"
  "pending [''t''] [''a''] [1, 2] 0 half_done"
proof -
  show "layout half_done ''/t'' [''t''] [half_entry] [[''a'']]"
    by (simp add: layout_def compatible_def targets_def suffixed_def entry_at_def clean_name_def validate_file_name_no_traversal_def
        is_sep_def segments_def base_path_def rooted_def half_done_def half_entry_def)
  have "dest_ok [''t''] {[''a'']} half_done"
  proof (rule dest_okI)
    show "node_at half_done (take k [''t'']) = Some Dir" if "k \<le> length [''t'']" for k
      using that by (cases k) (auto simp: node_at_def half_done_def)
    show "node_ok {[''a'']} (fs_next half_done) l (fs_names half_done ([''t''] @ l))" if "l \<noteq> []" for l
      using that by (auto simp: half_done_def targets_def suffixed_def)
    show "l = l'" if "fs_names half_done ([''t''] @ l) = Some (File i)" "fs_names half_done ([''t''] @ l') = Some (File i)" for l l' i
      using that by (auto simp: half_done_def split: if_splits)
  qed (simp_all add: half_done_def)
  then show "around [''t''] [half_entry] [[''a'']] [[1, 2, 3]] 0 (Suc 0) half_done" by (simp add: around_def)
  show "pending [''t''] [''a''] [1, 2] 0 half_done"
    by (auto simp: pending_def half_done_def dirs_def node_at_def suffixed_def less_Suc_eq numeral_2_eq_2)
qed

theorem resumed_file_is_whole_witness:
  "\<exists>st. run_commands \<lparr>te_zstd = Some, te_unzstd = Some, te_digest_text = (\<lambda>_. []), te_digest_parse = (\<lambda>_. None), te_read_size = (\<lambda>_. 1), te_sync = (\<lambda>_. None)\<rparr>
      [SendConfirm \<lparr>cq_id = 4, cq_file_num = 0, cq_union = Some (OffsetBlk 2)\<rparr>,
       WriteBlock \<lparr>bk_id = 4, bk_file_num = 0, bk_data = [3], bk_compressed = True\<rparr>, WriteDone 4 1] (cm [] half_job half_done) =
      Some (st, [CmDone 4 1]) \<and>
    file_content (cm_fs st) (transfer_join (fs_windows (cm_fs st)) ''/t'' ''a'') = Some [1, 2, 3]"
  using resumed_file_is_whole [OF half_done_ok(1) _ _ _ half_done_ok(2), of half_job "[1, 2]" 0
      "[\<lparr>bk_id = 4, bk_file_num = 0, bk_data = [3], bk_compressed = True\<rparr>]"
      "\<lparr>te_zstd = Some, te_unzstd = Some, te_digest_text = (\<lambda>_. []), te_digest_parse = (\<lambda>_. None), te_read_size = (\<lambda>_. 1), te_sync = (\<lambda>_. None)\<rparr>" 1 "[]"]
    half_done_ok(3)
  by (simp add: half_job_def half_entry_def new_write_def receives_def decoded_def decompress_def numeral_2_eq_2)

end
