(* ===== verification/TransferExchange.thy ===== *)
theory TransferExchange
  imports TransferUpload
begin

text \<open>
  A transfer from the controlling to the controlled end, whatever the order in which the two ends take their
  turns: an invariant of the exchange, that it never panics, that the files are all there once the sending
  end is through and its messages have been worked off, and that it always can get there.
\<close>

section \<open>The invariant\<close>

text \<open>A transfer: the files of the sending end and where each opens, the directory of the receiving end.\<close>

record transfer =
  tr_env :: transfer_env
  tr_id :: int
  tr_g :: fs
  tr_src :: string
  tr_files :: "file_entry list"
  tr_inos :: "nat list"
  tr_sent :: "file_entry list"
  tr_base :: string
  tr_dir :: loc
  tr_names :: "loc list"
  tr_reads :: "transfer_job list"

abbreviation tr_contents :: "transfer \<Rightarrow> bytes list" where
  "tr_contents t \<equiv> map (content (tr_g t)) (tr_inos t)"

text \<open>The entries the receiving end makes of the names and times it is told.\<close>

definition entries :: "(string \<times> int) list \<Rightarrow> file_entry list" where
  "entries fs = map (\<lambda>(name, modified). \<lparr>fe_name = name, fe_size = 0, fe_modified_time = modified\<rparr>) fs"

abbreviation tr_es :: "transfer \<Rightarrow> file_entry list" where
  "tr_es t \<equiv> entries (told (tr_sent t))"

definition proper :: "transfer \<Rightarrow> bool" where
  "proper t \<longleftrightarrow> env_ok (tr_env t) \<and> opens (tr_g t) (tr_src t) (tr_files t) (tr_inos t) \<and> length (tr_files t) < 2 ^ 31 \<and>
     length (tr_sent t) = length (tr_files t)"

abbreviation tr_up :: "transfer \<Rightarrow> nat \<Rightarrow> transfer_job \<Rightarrow> fs \<Rightarrow> bool" where
  "tr_up t \<equiv> caught_up (tr_base t) (tr_dir t) (tr_es t) (tr_names t) (tr_contents t)"

abbreviation tr_got :: "transfer \<Rightarrow> nat \<Rightarrow> bytes \<Rightarrow> transfer_job \<Rightarrow> fs \<Rightarrow> bool" where
  "tr_got t \<equiv> got (tr_base t) (tr_dir t) (tr_es t) (tr_names t) (tr_contents t)"

abbreviation confirmation :: "transfer \<Rightarrow> nat \<Rightarrow> cm_message" where
  "confirmation t k \<equiv> CmConfirm \<lparr>cq_id = tr_id t, cq_file_num = int k, cq_union = Some (OffsetBlk 0)\<rparr>"

text \<open>The sending end, the receiving end once it has worked off its commands, and the messages on their way
  back by then fit together.\<close>

definition in_step :: "transfer \<Rightarrow> transfer_job list \<Rightarrow> cm_state \<Rightarrow> cm_message list \<Rightarrow> bool" where
  "in_step t jobs st ms \<longleftrightarrow>
     (\<exists>k sj wj f. jobs = [sj] \<and> st = cm (tr_reads t) wj f \<and> tj_id wj = tr_id t \<and>
        (at_start (tr_id t) (tr_src t) (tr_files t) k sj \<and> tr_up t k wj f \<and> ms = [] \<or>
         at_wait (tr_id t) (tr_src t) (tr_files t) (tr_inos t ! k) k sj \<and> tr_up t k wj f \<and> ms = [confirmation t k] \<or>
         (\<exists>pos \<le> length (content (tr_g t) (tr_inos t ! k)). at_send (tr_id t) (tr_src t) (tr_files t) (tr_inos t ! k) k pos sj \<and>
            tr_got t k (take pos (content (tr_g t) (tr_inos t ! k))) wj f \<and> ms = []))) \<or>
     jobs = [] \<and> cm_write_jobs st = [] \<and> all_there (tr_base t) (tr_es t) (tr_contents t) (cm_fs st) \<and>
       (ms = [] \<or> (\<exists>n. ms = [CmDone (tr_id t) n]))"

definition exchange_ok :: "transfer \<Rightarrow> exchange \<Rightarrow> bool" where
  "exchange_ok t x \<longleftrightarrow> cl_fs (ex_client x) = tr_g t \<and> cl_write_jobs (ex_client x) = [] \<and> ex_asked x = [] \<and>
     (\<exists>st ms. run_commands (tr_env t) (ex_commands x) (ex_server x) = Some (st, ms) \<and>
        in_step t (cl_read_jobs (ex_client x)) st (ex_messages x @ ms))"

lemma entries_told [simp]: "length (entries (told es)) = length es" "k < length es \<Longrightarrow> fe_name (entries (told es) ! k) = fe_name (es ! k)"
  "k < length es \<Longrightarrow> fe_modified_time (entries (told es) ! k) = fe_modified_time (es ! k)"
  by (simp_all add: entries_def told_def)

text \<open>How much is left to do for the sending end.\<close>

definition todo :: "transfer \<Rightarrow> transfer_job list \<Rightarrow> nat" where
  "todo t jobs =
     (case jobs of
        [] \<Rightarrow> 0
      | sj # _ \<Rightarrow>
          Suc (sum_list (map (\<lambda>j. length (content (tr_g t) (tr_inos t ! j)) + 3) [nat (tj_file_num sj)..<length (tr_files t)])) -
            (if tj_confirmed sj then 2 + (case tj_stream sj of Some (FileStream _ pos _) \<Rightarrow> pos | _ \<Rightarrow> 0)
             else if tj_waiting sj then 1 else 0))"

definition todo_from :: "transfer \<Rightarrow> nat \<Rightarrow> nat" where
  "todo_from t k = sum_list (map (\<lambda>j. length (content (tr_g t) (tr_inos t ! j)) + 3) [k..<length (tr_files t)])"

lemma todo_from_step: "k < length (tr_files t) \<Longrightarrow> todo_from t k = length (content (tr_g t) (tr_inos t ! k)) + 3 + todo_from t (Suc k)"
  by (simp add: todo_from_def upt_conv_Cons)

lemma todo_phases:
  "todo t [] = 0"
  "at_start i src files k sj \<Longrightarrow> todo t [sj] = Suc (todo_from t k)"
  "at_wait i src files ino k sj \<Longrightarrow> todo t [sj] = todo_from t k"
  "at_send i src files ino k pos sj \<Longrightarrow> todo t [sj] = Suc (todo_from t k) - (2 + pos)"
  by (simp_all add: todo_def todo_from_def at_start_def at_wait_def at_send_def sends_def)

text \<open>A turn of the sending end moves the pair on.\<close>

lemma turn_in_step:
  assumes "proper t" "in_step t jobs st ms" "jobs \<noteq> []"
  shows "\<exists>jobs' out st' ms'. handle_read_jobs (tr_env t) (tr_g t) jobs = (jobs', out) \<and>
    run_commands (tr_env t) (map on_file_response out) st = Some (st', ms') \<and> in_step t jobs' st' (ms @ ms') \<and>
    (ms = [] \<longrightarrow> todo t jobs' < todo t jobs)"
proof -
  obtain k sj wj f where j: "jobs = [sj]" "st = cm (tr_reads t) wj f" "tj_id wj = tr_id t"
    and c: "at_start (tr_id t) (tr_src t) (tr_files t) k sj \<and> tr_up t k wj f \<and> ms = [] \<or>
         at_wait (tr_id t) (tr_src t) (tr_files t) (tr_inos t ! k) k sj \<and> tr_up t k wj f \<and> ms = [confirmation t k] \<or>
         (\<exists>pos \<le> length (content (tr_g t) (tr_inos t ! k)). at_send (tr_id t) (tr_src t) (tr_files t) (tr_inos t ! k) k pos sj \<and>
            tr_got t k (take pos (content (tr_g t) (tr_inos t ! k))) wj f \<and> ms = [])"
    using assms(2,3) unfolding in_step_def by blast
  have pr: "env_ok (tr_env t)" "opens (tr_g t) (tr_src t) (tr_files t) (tr_inos t)" "length (tr_sent t) = length (tr_files t)" using assms(1) by (auto simp: proper_def)
  from c show ?thesis
  proof (elim disjE exE conjE)
    assume a: "at_start (tr_id t) (tr_src t) (tr_files t) k sj" "tr_up t k wj f" "ms = []"
    show ?thesis
    proof (cases "k < length (tr_files t)")
      case True
      obtain sj' dig where s: "handle_read_jobs (tr_env t) (tr_g t) [sj] = ([sj'], [DigestResponse dig])"
        "at_wait (tr_id t) (tr_src t) (tr_files t) (tr_inos t ! k) k sj'"
        "dg_id dig = tj_id wj" "dg_file_num dig = int k" "\<not> dg_is_resume dig"
        using turn_start [OF a(1) pr(2) True, of "tr_env t"] j(3) by auto
      from digest_command [OF a(2) _ s(3-5), of "tr_env t" True "tr_reads t"] True obtain wj'
        where w: "handle_fs (tr_env t) (CheckDigest dig True) st = Some (cm (tr_reads t) wj' f, [confirmation t k])"
          "tj_id wj' = tr_id t" "tr_up t k wj' f"
        using j pr(3) by auto
      have "todo t [sj'] < todo t [sj]" using todo_phases(2) [OF a(1), of t] todo_phases(3) [OF s(2), of t] by simp
      then show ?thesis using s(1,2) w a(3) j(1) by (auto simp: on_file_response_def in_step_def)
    next
      case False
      then have k: "k = length (tr_files t)" using a(1) by (simp add: at_start_def)
      note s = turn_end [OF a(1) [unfolded k], of "tr_env t" "tr_g t"]
      from done_command [of "tr_base t" "tr_dir t" "tr_es t" "tr_names t" "tr_contents t" wj f "tr_env t" "int (length (tr_files t))" "tr_reads t"]
      obtain f' where "handle_fs (tr_env t) (WriteDone (tr_id t) (int (length (tr_files t)))) st =
          Some (\<lparr>cm_write_jobs = [], cm_read_jobs = tr_reads t, cm_fs = f'\<rparr>, [CmDone (tr_id t) (int (length (tr_files t)))])"
        "all_there (tr_base t) (tr_es t) (tr_contents t) f'"
        using a(2) k j pr(3) by auto
      then show ?thesis using s a(3) j(1) todo_phases(2) [OF a(1), of t] by (auto simp: on_file_response_def in_step_def todo_phases(1))
    qed
  next
    assume a: "at_wait (tr_id t) (tr_src t) (tr_files t) (tr_inos t ! k) k sj" "tr_up t k wj f" "ms = [confirmation t k]"
    show ?thesis using turn_wait [OF a(1), of "tr_env t" "tr_g t"] assms(2) j(1) a(3) by simp
  next
    fix pos assume a: "pos \<le> length (content (tr_g t) (tr_inos t ! k))" "at_send (tr_id t) (tr_src t) (tr_files t) (tr_inos t ! k) k pos sj"
      "tr_got t k (take pos (content (tr_g t) (tr_inos t ! k))) wj f" "ms = []"
    let ?c = "content (tr_g t) (tr_inos t ! k)"
    have k: "k < length (tr_files t)" "tr_contents t ! k = ?c" using a(2) pr(2) by (auto simp: at_send_def opens_def)
    obtain sj' blk where s: "handle_read_jobs (tr_env t) (tr_g t) [sj] = ([sj'], [BlockResponse blk])" "bk_id blk = tj_id wj"
      "bk_file_num blk = int k" "decoded (tr_env t) blk = take BUF_SIZE (drop pos ?c)"
      "if pos = length ?c then at_start (tr_id t) (tr_src t) (tr_files t) (Suc k) sj'
       else at_send (tr_id t) (tr_src t) (tr_files t) (tr_inos t ! k) k (pos + length (decoded (tr_env t) blk)) sj'"
      using turn_send [OF a(2) pr(1) a(1)] j(3) by auto
    from block_command [OF a(3) s(2,3), of "tr_env t" "tr_reads t"] pr(1) obtain wj' f'
      where w: "handle_fs (tr_env t) (WriteBlock blk) st = Some (cm (tr_reads t) wj' f', [])" "tj_id wj' = tr_id t"
        "writing (tr_base t) (tr_dir t) (tr_es t) (tr_names t) (tr_contents t) k (take pos ?c @ decoded (tr_env t) blk) wj' f'"
      using j by (auto simp: env_ok_def)
    let ?pos = "pos + length (decoded (tr_env t) blk)"
    have p: "take pos ?c @ decoded (tr_env t) blk = take ?pos ?c"
      using a(1) s(4) by (simp add: take_add [symmetric] min_def)
    have p2: "?pos \<le> length ?c" using a(1) s(4) by simp
    have run: "run_commands (tr_env t) (map on_file_response [BlockResponse blk]) st = Some (cm (tr_reads t) wj' f', [])"
      using w(1) by (simp add: on_file_response_def)
    have "in_step t [sj'] (cm (tr_reads t) wj' f') []"
    proof (cases "pos = length ?c")
      case True
      then have "tr_up t (Suc k) wj' f'" using w(3) k s(4) pr(3) by (simp add: caught_up_def)
      then show ?thesis using s(5) True w(2) by (auto simp: in_step_def)
    next
      case False
      then have "tr_got t k (take ?pos ?c) wj' f'" using w(3) k pr(3) by (simp add: got_def p)
      then show ?thesis using s(5) False w(2) p2 unfolding in_step_def by fastforce
    qed
    moreover have "todo t [sj'] < todo t [sj]"
    proof (cases "pos = length ?c")
      case True
      then have "todo t [sj'] = Suc (todo_from t (Suc k))" using s(5) todo_phases(2) by simp
      then show ?thesis using todo_phases(4) [OF a(2), of t] todo_from_step [OF k(1)] True by simp
    next
      case False
      then have "todo t [sj'] = Suc (todo_from t k) - (2 + ?pos)" using s(5) todo_phases(4) by simp
      moreover have "length (decoded (tr_env t) blk) > 0" using s(4) a(1) False by (simp add: BUF_SIZE_def)
      ultimately show ?thesis using todo_phases(4) [OF a(2), of t] todo_from_step [OF k(1)] p2 by linarith
    qed
    ultimately show ?thesis using s(1) run a(4) j(1) by auto
  qed
qed

section \<open>Every step keeps it\<close>

lemma exchange_turn:
  assumes "proper t" "exchange_ok t x" "cl_read_jobs (ex_client x) \<noteq> []"
  shows "exchange_ok t (client_turn (tr_env t) x)"
proof -
  obtain st ms where r: "run_commands (tr_env t) (ex_commands x) (ex_server x) = Some (st, ms)"
    "in_step t (cl_read_jobs (ex_client x)) st (ex_messages x @ ms)" and g: "cl_fs (ex_client x) = tr_g t"
    using assms(2) by (auto simp: exchange_ok_def)
  obtain jobs out st' ms' where h: "handle_read_jobs (tr_env t) (tr_g t) (cl_read_jobs (ex_client x)) = (jobs, out)"
    "run_commands (tr_env t) (map on_file_response out) st = Some (st', ms')" "in_step t jobs st' ((ex_messages x @ ms) @ ms')"
    using turn_in_step [OF assms(1) r(2) assms(3)] by blast
  show ?thesis using assms(2) r h by (simp add: exchange_ok_def client_turn_def g run_commands_append)
qed

lemma exchange_serve:
  assumes "exchange_ok t x"
  shows "\<exists>y. server_turn (tr_env t) x = Some y \<and> exchange_ok t y"
proof (cases "ex_commands x")
  case Nil
  then show ?thesis using assms by (simp add: server_turn_def)
next
  case (Cons c cs)
  obtain st ms where r: "run_commands (tr_env t) (c # cs) (ex_server x) = Some (st, ms)"
    "in_step t (cl_read_jobs (ex_client x)) st (ex_messages x @ ms)"
    using assms Cons by (auto simp: exchange_ok_def)
  then obtain st' out ms' where h: "handle_fs (tr_env t) c (ex_server x) = Some (st', out)"
    "run_commands (tr_env t) cs st' = Some (st, ms')" "ms = out @ ms'"
    by (auto split: option.splits)
  show ?thesis using assms Cons r(2) h by (simp add: exchange_ok_def server_turn_def)
qed

lemma in_step_messages:
  assumes "in_step t jobs st (m # ms)"
  shows "(\<exists>k sj wj f. jobs = [sj] \<and> st = cm (tr_reads t) wj f \<and> tj_id wj = tr_id t \<and> m = confirmation t k \<and> ms = [] \<and>
      at_wait (tr_id t) (tr_src t) (tr_files t) (tr_inos t ! k) k sj \<and> tr_up t k wj f) \<or>
    (jobs = [] \<and> (\<exists>n. m = CmDone (tr_id t) n) \<and> ms = [])"
  using assms unfolding in_step_def by auto

lemma exchange_hear:
  assumes "exchange_ok t x" "proper t"
  shows "\<exists>y. client_hears x = Some y \<and> exchange_ok t y \<and> ex_commands y = ex_commands x \<and> ex_messages y = tl (ex_messages x) \<and>
    todo t (cl_read_jobs (ex_client y)) \<le> todo t (cl_read_jobs (ex_client x))"
proof (cases "ex_messages x")
  case Nil
  then show ?thesis using assms(1) by (simp add: client_hears_def)
next
  case (Cons m ms)
  obtain st ms' where r: "run_commands (tr_env t) (ex_commands x) (ex_server x) = Some (st, ms')"
    "in_step t (cl_read_jobs (ex_client x)) st (m # ms @ ms')" and cl: "cl_fs (ex_client x) = tr_g t"
    "cl_write_jobs (ex_client x) = []" "ex_asked x = []"
    using assms(1) Cons by (auto simp: exchange_ok_def)
  from in_step_messages [OF r(2)] show ?thesis
  proof (elim disjE exE conjE)
    fix k sj wj f
    assume a: "cl_read_jobs (ex_client x) = [sj]" "st = cm (tr_reads t) wj f" "tj_id wj = tr_id t" "m = confirmation t k" "ms @ ms' = []"
      "at_wait (tr_id t) (tr_src t) (tr_files t) (tr_inos t ! k) k sj" "tr_up t k wj f"
    let ?sj = "set_file_confirmed True sj"
    have s: "tj_id sj = tr_id t" "tj_file_num sj = int k" "k < length (tr_files t)"
      using a(6) by (auto simp: at_wait_def sends_def)
    have conf: "on_cm_message m (ex_client x) = Some ((ex_client x)\<lparr>cl_read_jobs := [?sj]\<rparr>, [])"
      using a(1,4) s by (simp add: on_cm_message_def confirm_read_def get_job_def job_confirm_def set_file_confirmed_def Let_def)
    have snd: "at_send (tr_id t) (tr_src t) (tr_files t) (tr_inos t ! k) k 0 ?sj"
      using a(6) by (simp add: at_send_def at_wait_def sends_def set_file_confirmed_def)
    moreover have "tr_got t k [] wj f" using a(7) s(3) assms(2) by (simp add: got_def proper_def)
    ultimately have "in_step t [?sj] st []" using a(2,3) unfolding in_step_def by fastforce
    moreover have "todo t [?sj] \<le> todo t [sj]" using todo_phases(3) [OF a(6), of t] todo_phases(4) [OF snd, of t] by simp
    ultimately show ?thesis using conf a(1,5) r(1) cl Cons by (simp add: client_hears_def exchange_ok_def asked_def confirms_def)
  next
    fix n assume a: "cl_read_jobs (ex_client x) = []" "m = CmDone (tr_id t) n" "ms @ ms' = []"
    have "in_step t [] st []" using r(2) a(1) by (auto simp: in_step_def)
    then show ?thesis using a r(1) cl Cons
      by (simp add: client_hears_def exchange_ok_def on_cm_message_def client_done_def asked_def confirms_def)
  qed
qed

lemma exchange_step:
  assumes "proper t" "exchange_ok t x" "step (tr_env t) x y"
  shows "exchange_ok t y"
  using assms(3)
proof (cases rule: step.cases)
  case turn
  then show ?thesis using exchange_turn [OF assms(1,2)] by simp
next
  case serve
  then show ?thesis using exchange_serve [OF assms(2)] by auto
next
  case hear
  then show ?thesis using exchange_hear [OF assms(2,1)] by auto
next
  case (answer n need_override remember)
  then show ?thesis using assms(2) by (simp add: exchange_ok_def)
qed

lemma exchange_steps:
  assumes "proper t" "exchange_ok t x" "steps (tr_env t) x y"
  shows "exchange_ok t y"
  using assms(3,2) by (induction rule: rtranclp_induct) (auto intro: exchange_step [OF assms(1)])

section \<open>It starts there\<close>

text \<open>An empty directory that may be written, and names that are usable there.\<close>

definition empty_dir :: "fs \<Rightarrow> string \<Rightarrow> loc \<Rightarrow> bool" where
  "empty_dir f base d \<longleftrightarrow> base_path f base d \<and> d \<noteq> [] \<and> (\<forall>k \<le> length d. node_at f (take k d) = Some Dir) \<and>
     (\<forall>l. l \<noteq> [] \<longrightarrow> fs_names f (d @ l) = None) \<and> (\<forall>l. \<not> fs_denied f l)"

definition usable_names :: "bool \<Rightarrow> string list \<Rightarrow> bool" where
  "usable_names w names \<longleftrightarrow> (\<forall>n \<in> set names. clean_name w n) \<and> distinct (map (segments w) names) \<and>
     compatible (set (map (segments w) names)) \<and> length names < 2 ^ 31"

lemma empty_dir_dest_ok:
  assumes "empty_dir f base d"
  shows "dest_ok d N f"
proof (rule dest_okI)
  have e: "fs_names f (d @ l) = None" if "l \<noteq> []" for l using assms that by (simp add: empty_dir_def)
  show "d \<noteq> []" "\<And>k. k \<le> length d \<Longrightarrow> node_at f (take k d) = Some Dir" "\<And>l. \<not> fs_denied f l"
    using assms by (simp_all add: empty_dir_def)
  show "node_ok N (fs_next f) l (fs_names f (d @ l))" if "l \<noteq> []" for l using e [OF that] by simp
  show "l = l'" if "fs_names f (d @ l) = Some (File i)" "fs_names f (d @ l') = Some (File i)" for l l' i
    using that e [of l] e [of l'] by (cases "l = []"; cases "l' = []") auto
qed

definition begin_upload :: "int \<Rightarrow> fs \<Rightarrow> string \<Rightarrow> file_entry list \<Rightarrow> string \<Rightarrow> transfer_job list \<Rightarrow> fs \<Rightarrow> exchange" where
  "begin_upload i g src files base rs f =
     fst (send_files i src base 0 True (Inr files)
       \<lparr>ex_client = \<lparr>cl_read_jobs = [], cl_write_jobs = [], cl_fs = g\<rparr>, ex_commands = [],
        ex_server = \<lparr>cm_write_jobs = [], cm_read_jobs = rs, cm_fs = f\<rparr>, ex_messages = [], ex_asked = []\<rparr>)"

definition peer_names :: "fs \<Rightarrow> fs \<Rightarrow> file_entry list \<Rightarrow> file_entry list" where
  "peer_names g f files = (if fs_windows g \<and> \<not> fs_windows f then transform_windows_path files else files)"

lemma new_write_fresh:
  assumes "empty_dir f base d" "usable_names (fs_windows f) (map fe_name es)" "es \<noteq> []"
  defines "nss \<equiv> map (\<lambda>e. segments (fs_windows f) (fe_name e)) es"
  shows "layout f base d es nss" "validate_transfer_file_names (fs_windows f) es = None" "check_links f base es = None"
proof -
  let ?w = "fs_windows f"
  have c: "clean_name ?w (fe_name e)" if "e \<in> set es" for e using assms(2) that by (auto simp: usable_names_def)
  have b: "base_path f base d" using assms(1) by (simp add: empty_dir_def)
  show lay: "layout f base d es nss"
    using assms(2) c b by (auto simp: layout_def usable_names_def nss_def entry_at_def comp_def)
  have ok: "dest_ok d (set nss) f" by (rule empty_dir_dest_ok [OF assms(1)])
  have v: "validate_file_name_no_traversal ?w (fe_name e) = None \<and> validate_no_symlink_components f base (fe_name e) = None \<and> fe_name e \<noteq> []"
    if e: "e \<in> set es" for e
  proof -
    have "compatible (set nss)" "segments ?w (fe_name e) \<in> set nss" "entry_at f base d (segments ?w (fe_name e)) (fe_name e)"
      using lay e c [OF e] b by (auto simp: layout_def nss_def entry_at_def)
    from join_ok [OF ok this] show ?thesis using c [OF e] by (auto simp: clean_name_def)
  qed
  have "validate_each_name ?w es' = None" "check_links f base es' = None" if "set es' \<subseteq> set es" for es'
    using that v by (induction es') auto
  then show "validate_transfer_file_names ?w es = None" "check_links f base es = None"
    using v assms(3) by (auto simp: validate_transfer_file_names_def)
qed

lemma begin_upload_ok:
  fixes i :: int and rs :: "transfer_job list"
  assumes "env_ok env" "opens g src files inos" "empty_dir f base d" "files \<noteq> []"
    and "usable_names (fs_windows f) (map fe_name (peer_names g f files))"
  defines "sent \<equiv> peer_names g f files"
  defines "t \<equiv> \<lparr>tr_env = env, tr_id = i, tr_g = g, tr_src = src, tr_files = files, tr_inos = inos, tr_sent = sent, tr_base = base, tr_dir = d,
      tr_names = map (\<lambda>e. segments (fs_windows f) (fe_name e)) (entries (told sent)), tr_reads = rs\<rparr>"
  shows "proper t" "exchange_ok t (begin_upload i g src files base rs f)"
proof -
  have len: "length sent = length files" by (simp add: sent_def peer_names_def transform_windows_path_def)
  then show pr: "proper t" using assms(1,2,5) by (simp add: proper_def t_def usable_names_def sent_def [symmetric])
  let ?es = "entries (told sent)"
  have es: "map fe_name ?es = map fe_name sent" "?es \<noteq> []" using len assms(4) by (auto simp: entries_def told_def)
  note n = new_write_fresh [OF assms(3), of ?es, unfolded es, OF assms(5) [folded sent_def] es(2)]
  let ?job = "(new_write i Generic (FilePath base) 0 True)\<lparr>tj_files := ?es, tj_total_size := sum_sizes files\<rparr>"
  have new: "fs_new_write base i 0 (told sent) True (sum_sizes files) \<lparr>cm_write_jobs = [], cm_read_jobs = rs, cm_fs = f\<rparr> = (cm rs ?job f, [])"
    using n(2,3) by (simp add: fs_new_write_def set_files_def new_write_def entries_def)
  have "untouched d (tr_names t ! j) f" if "j < length ?es" for j
  proof -
    have "x \<noteq> []" if "x \<in> targets (tr_names t ! j)" for x
      using compatibleD(1) [OF layoutD(2,1) [OF n(1) \<open>j < length ?es\<close>]] that by (simp add: t_def)
    then show ?thesis using assms(3) by (simp add: untouched_def empty_dir_def)
  qed
  then have "fresh base d ?es (tr_names t) ?job f"
    using n(1) empty_dir_dest_ok [OF assms(3)] by (simp add: fresh_def receives_def new_write_def around_def t_def)
  then have "tr_up t 0 ?job f" by (simp add: caught_up_def t_def)
  moreover obtain sj where sj: "new_read i Generic (FilePath src) 0 True (Inr files) = Inr sj" "tj_files sj = files" "tj_total_size sj = sum_sizes files"
    and "at_start i src files 0 sj"
    using len assms(5) by (auto simp: sent_def [symmetric] new_read_def new_write_def at_start_def sends_def usable_names_def)
  ultimately have "in_step t [sj] (cm rs ?job f) []" by (auto simp: in_step_def t_def new_write_def)
  then show "exchange_ok t (begin_upload i g src files base rs f)"
    using sj new by (simp add: exchange_ok_def begin_upload_def send_files_def t_def sent_names_def sent_def peer_names_def)
qed

section \<open>It gets to the end\<close>

lemma drain_commands:
  assumes "proper t" "exchange_ok t x"
  shows "\<exists>y. steps (tr_env t) x y \<and> exchange_ok t y \<and> ex_commands y = [] \<and> ex_client y = ex_client x"
  using assms(2)
proof (induction "ex_commands x" arbitrary: x)
  case (Cons c cs)
  obtain y where y: "server_turn (tr_env t) x = Some y" "exchange_ok t y" using exchange_serve [OF Cons.prems] by blast
  have s: "ex_commands y = cs" "ex_client y = ex_client x" using y(1) Cons.hyps(2) [symmetric] by (auto simp: server_turn_def)
  have "step (tr_env t) x y" using y(1) Cons.hyps(2) by (intro step.serve) auto
  then show ?case using Cons.hyps(1) [OF s(1) [symmetric] y(2)] s(2) by (metis converse_rtranclp_into_rtranclp)
qed auto

lemma drain_messages:
  assumes "proper t" "exchange_ok t x" "ex_commands x = []"
  shows "\<exists>y. steps (tr_env t) x y \<and> exchange_ok t y \<and> ex_commands y = [] \<and> ex_messages y = [] \<and>
    todo t (cl_read_jobs (ex_client y)) \<le> todo t (cl_read_jobs (ex_client x))"
  using assms(2,3)
proof (induction "ex_messages x" arbitrary: x)
  case (Cons m ms)
  obtain y where y: "client_hears x = Some y" "exchange_ok t y" "ex_commands y = []" "ex_messages y = ms"
    "todo t (cl_read_jobs (ex_client y)) \<le> todo t (cl_read_jobs (ex_client x))"
    using exchange_hear [OF Cons.prems(1) assms(1)] Cons.prems(2) Cons.hyps(2) by (metis list.sel(3))
  have "step (tr_env t) x y" using y(1) Cons.hyps(2) by (intro step.hear) auto
  then show ?case using Cons.hyps(1) [OF y(4) [symmetric] y(2,3)] y(5) by (meson converse_rtranclp_into_rtranclp le_trans)
qed auto

lemma exchange_ends:
  assumes "proper t" "exchange_ok t x"
  shows "\<exists>y. steps (tr_env t) x y \<and> cl_read_jobs (ex_client y) = [] \<and> ex_commands y = [] \<and> ex_messages y = []"
  using assms(2)
proof (induction "todo t (cl_read_jobs (ex_client x))" arbitrary: x rule: less_induct)
  case less
  obtain x1 where x1: "steps (tr_env t) x x1" "exchange_ok t x1" "ex_commands x1 = []" "ex_client x1 = ex_client x"
    using drain_commands [OF assms(1) less.prems] by blast
  obtain x2 where x2: "steps (tr_env t) x1 x2" "exchange_ok t x2" "ex_commands x2 = []" "ex_messages x2 = []"
    "todo t (cl_read_jobs (ex_client x2)) \<le> todo t (cl_read_jobs (ex_client x))"
    using drain_messages [OF assms(1) x1(2,3)] x1(4) by auto
  show ?case
  proof (cases "cl_read_jobs (ex_client x2) = []")
    case True
    then show ?thesis using x1(1) x2 by (meson rtranclp_trans)
  next
    case False
    let ?y = "client_turn (tr_env t) x2"
    have i: "in_step t (cl_read_jobs (ex_client x2)) (ex_server x2) []" "cl_fs (ex_client x2) = tr_g t"
      using x2(2-4) by (auto simp: exchange_ok_def)
    have "todo t (cl_read_jobs (ex_client ?y)) < todo t (cl_read_jobs (ex_client x2))"
      using turn_in_step [OF assms(1) i(1) False] i(2) by (auto simp: client_turn_def)
    then obtain z where "steps (tr_env t) ?y z" "cl_read_jobs (ex_client z) = []" "ex_commands z = []" "ex_messages z = []"
      using less.hyps [of ?y] exchange_turn [OF assms(1) x2(2) False] x2(5) by (metis order_less_le_trans)
    moreover have "step (tr_env t) x2 ?y" using False by (rule step.turn)
    ultimately show ?thesis using x1(1) x2(1) by (meson converse_rtranclp_into_rtranclp rtranclp_trans)
  qed
qed

lemma exchange_all_there:
  assumes "exchange_ok t x" "cl_read_jobs (ex_client x) = []" "ex_commands x = []"
  shows "all_there (tr_base t) (tr_es t) (tr_contents t) (cm_fs (ex_server x))"
  using assms by (auto simp: exchange_ok_def in_step_def)

section \<open>Properties\<close>

lemma all_there_content:
  "\<lbrakk>all_there base es cs f; k < length es\<rbrakk> \<Longrightarrow> file_content f (transfer_join (fs_windows f) base (fe_name (es ! k))) = Some (cs ! k)"
  by (auto simp: all_there_def file_content_def content_def)

text \<open>(C3) Files sent arrive: when files are sent into an empty directory where nothing is denied, then however the turns of the
  two ends interleave, once the sending end has finished and its messages have been worked off, every file is in the
  directory under its name with exactly the bytes read. The names, as the receiving end gets them, are relative without
  \<open>..\<close>, distinct, none is a directory of another, and none is another one with \<open>.download\<close> or \<open>.digest\<close> added (without this a
  finished file can be overwritten, as in theory \<open>TransferFaults\<close>). Every file sent can be opened and was not changed before 1970, a sync of a
  file does not fail, and what the receiving end has written is in the file. Modification times are left out: the last file's is
  set while its last write may still be under way.\<close>

theorem upload_delivers:
  assumes "env_ok env" and "opens g src files inos" and "empty_dir f base d" and "files \<noteq> []"
    and "usable_names (fs_windows f) (map fe_name (peer_names g f files))"
    and "steps env (begin_upload i g src files base rs f) x" and "cl_read_jobs (ex_client x) = []" and "ex_commands x = []"
    and "k < length files"
  shows "file_content (cm_fs (ex_server x)) (transfer_join (fs_windows (cm_fs (ex_server x))) base (fe_name (peer_names g f files ! k)))
    = Some (content g (inos ! k))"
proof -
  have a: "all_there base (entries (told (peer_names g f files))) (map (content g) inos) (cm_fs (ex_server x))"
    using exchange_all_there [OF exchange_steps [OF begin_upload_ok [OF assms(1-5)]] assms(7,8)] assms(6) by simp
  have "length inos = length files" "length (peer_names g f files) = length files"
    using assms(2) by (simp_all add: opens_def peer_names_def transform_windows_path_def)
  then show ?thesis using all_there_content [OF a, of k] assms(9) by (simp add: entries_def told_def)
qed

text \<open>(C15) A transfer never gets stuck: in whatever state the exchange gets, no end panics on what it has to
  handle next, and it can go on to a state where the sending end has finished and nothing is on its way.\<close>

theorem upload_can_finish:
  assumes "env_ok env" and "opens g src files inos" and "empty_dir f base d" and "files \<noteq> []"
    and "usable_names (fs_windows f) (map fe_name (peer_names g f files))"
    and "steps env (begin_upload i g src files base rs f) x"
  shows "server_turn env x \<noteq> None \<and> client_hears x \<noteq> None \<and>
    (\<exists>y. steps env x y \<and> cl_read_jobs (ex_client y) = [] \<and> ex_commands y = [] \<and> ex_messages y = [])"
proof -
  note b = begin_upload_ok [OF assms(1-5), where i = i and rs = rs]
  let ?t = "\<lparr>tr_env = env, tr_id = i, tr_g = g, tr_src = src, tr_files = files, tr_inos = inos, tr_sent = peer_names g f files,
    tr_base = base, tr_dir = d, tr_names = map (\<lambda>e. segments (fs_windows f) (fe_name e)) (entries (told (peer_names g f files))), tr_reads = rs\<rparr>"
  have ok: "exchange_ok ?t x" using exchange_steps [OF b] assms(6) by simp
  show ?thesis using exchange_serve [OF ok] exchange_hear [OF ok b(1)] exchange_ends [OF b(1) ok] by auto
qed

text \<open>Two files on one system, sent into an empty directory of another.\<close>

definition demo_env :: transfer_env where
  "demo_env = \<lparr>te_zstd = Some, te_unzstd = Some, te_digest_text = (\<lambda>_. [123, 125]), te_digest_parse = (\<lambda>_. None), te_read_size = (\<lambda>_. 4096), te_sync = (\<lambda>_. None)\<rparr>"

definition demo_source :: fs where
  "demo_source = \<lparr>fs_windows = True, fs_names = [[''d''] \<mapsto> Dir, [''d'', ''a''] \<mapsto> File 0, [''d'', ''s''] \<mapsto> Dir, [''d'', ''s'', ''b''] \<mapsto> File 1],
     fs_data = [0 \<mapsto> ([104, 105], 7), 1 \<mapsto> ([], 8)], fs_next = 2, fs_cwd = [], fs_now = 9, fs_denied = (\<lambda>_. False)\<rparr>"

definition demo_target :: fs where
  "demo_target = \<lparr>fs_windows = False, fs_names = [[''t''] \<mapsto> Dir], fs_data = Map.empty, fs_next = 0, fs_cwd = [], fs_now = 10, fs_denied = (\<lambda>_. False)\<rparr>"

definition demo_files :: "file_entry list" where
  "demo_files = [\<lparr>fe_name = ''a'', fe_size = 2, fe_modified_time = 5\<rparr>, \<lparr>fe_name = ''s'' @ [CHR 0x5C] @ ''b'', fe_size = 0, fe_modified_time = 6\<rparr>]"

lemma demo_ok:
  "env_ok demo_env" "opens demo_source ''/d'' demo_files [0, 1]" "empty_dir demo_target ''/t'' [''t'']"
  "usable_names (fs_windows demo_target) (map fe_name (peer_names demo_source demo_target demo_files))" "demo_files \<noteq> []"
proof -
  show "env_ok demo_env" by (simp add: env_ok_def sync_ok_def demo_env_def zstd_ok_def)
  show "opens demo_source ''/d'' demo_files [0, 1]"
    unfolding opens_def by (simp add: demo_files_def demo_source_def All_less_Suc file_open_def open_at_def resolve_def transfer_join_def
        path_push_def rooted_def is_sep_def main_sep_def segments_def start_at_def node_at_def ends_with_sep_def mtime_def)
  show "empty_dir demo_target ''/t'' [''t'']"
    by (auto simp: empty_dir_def base_path_def demo_target_def rooted_def segments_def is_sep_def node_at_def le_Suc_eq)
  show "usable_names (fs_windows demo_target) (map fe_name (peer_names demo_source demo_target demo_files))"
    by (simp add: usable_names_def demo_target_def demo_source_def demo_files_def peer_names_def transform_windows_path_def clean_name_def
        validate_file_name_no_traversal_def is_sep_def segments_def compatible_def targets_def suffixed_def All_less_Suc)
qed (simp add: demo_files_def)

theorem upload_delivers_witness:
  "\<exists>x. steps demo_env (begin_upload 1 demo_source ''/d'' demo_files ''/t'' [] demo_target) x \<and> cl_read_jobs (ex_client x) = [] \<and>
    ex_commands x = [] \<and> file_content (cm_fs (ex_server x)) (transfer_join (fs_windows (cm_fs (ex_server x))) ''/t'' ''a'') = Some [104, 105] \<and>
    file_content (cm_fs (ex_server x)) (transfer_join (fs_windows (cm_fs (ex_server x))) ''/t'' ''s/b'') = Some []"
proof -
  note b = begin_upload_ok [OF demo_ok(1-3,5,4), where i = 1 and rs = "[]"]
  obtain x where x: "steps demo_env (begin_upload 1 demo_source ''/d'' demo_files ''/t'' [] demo_target) x"
    "cl_read_jobs (ex_client x) = []" "ex_commands x = []"
    using exchange_ends [OF b] by auto
  have n: "map fe_name (peer_names demo_source demo_target demo_files) = [''a'', ''s/b'']" "length demo_files = 2"
    by (simp_all add: peer_names_def demo_source_def demo_target_def demo_files_def transform_windows_path_def)
  then have "fe_name (peer_names demo_source demo_target demo_files ! 0) = ''a''" "fe_name (peer_names demo_source demo_target demo_files ! 1) = ''s/b''"
    by (auto simp: map_eq_Cons_conv)
  then show ?thesis
    using upload_delivers [OF demo_ok(1-3,5,4) x, of 0] upload_delivers [OF demo_ok(1-3,5,4) x, of 1] x n(2)
    by (auto simp: content_def demo_source_def)
qed

theorem upload_can_finish_witness:
  "\<exists>y. steps demo_env (begin_upload 1 demo_source ''/d'' demo_files ''/t'' [] demo_target) y \<and> cl_read_jobs (ex_client y) = [] \<and>
    ex_commands y = [] \<and> ex_messages y = []"
  using upload_can_finish [OF demo_ok(1-3,5,4) rtranclp.rtrancl_refl, of 1 "[]"] by blast

end
