(* ===== verification/TransferFaults.thy ===== *)
theory TransferFaults
  imports TransferClient
begin

text \<open>
  Where transfers fall short: sequences of commands and blocks after which a file is not what was sent, or
  the process that writes has panicked.
\<close>

section \<open>Set-up\<close>

text \<open>A directory given by its nodes and the contents of its files, the digest text of one of them, and what
  the commands of a peer leave of a file.\<close>

definition fault_env :: transfer_env where
  "fault_env = \<lparr>te_zstd = Some, te_unzstd = Some, te_digest_text = (\<lambda>_. []),
     te_digest_parse = (\<lambda>b. if b = [123, 125] then Some \<lparr>fd_size = 5, fd_modified = 6\<rparr> else None), te_read_size = (\<lambda>_. 4096), te_sync = (\<lambda>_. None)\<rparr>"

definition fault_fs :: "(loc \<times> node) list \<Rightarrow> bytes list \<Rightarrow> loc list \<Rightarrow> fs" where
  "fault_fs names files denied = \<lparr>fs_windows = False, fs_names = map_of names,
     fs_data = (\<lambda>i. if i < length files then Some (files ! i, 0) else None), fs_next = length files, fs_cwd = [], fs_now = 10,
     fs_denied = (\<lambda>l. l \<in> set denied)\<rparr>"

definition run_on :: "fs \<Rightarrow> fs_command list \<Rightarrow> (cm_state \<times> cm_message list) option" where
  "run_on f cs = run_commands fault_env cs \<lparr>cm_write_jobs = [], cm_read_jobs = [], cm_fs = f\<rparr>"

definition file_after :: "string \<Rightarrow> (cm_state \<times> cm_message list) option \<Rightarrow> (bytes option \<times> cm_message list) option" where
  "file_after p r = map_option (\<lambda>(st, out). (file_content (cm_fs st) p, out)) r"

definition raw_block :: "int \<Rightarrow> bytes \<Rightarrow> fs_command" where
  "raw_block n b = WriteBlock \<lparr>bk_id = 1, bk_file_num = n, bk_data = b, bk_compressed = False\<rparr>"

section \<open>Faults\<close>

text \<open>A job that resumes with two files that were interrupted, its first file written: the digest check of the second file says
  that three bytes are there, the confirmation to go on after them is ignored because the job still counts the
  first file, and the block that follows starts the file anew, so that it ends without its first three bytes.\<close>

theorem resume_of_second_file_loses_start:
  "file_after ''/t/b'' (run_commands fault_env
      [CheckDigest \<lparr>dg_id = 1, dg_file_num = 1, dg_last_modified = 6, dg_file_size = 5, dg_is_identical = False,
         dg_transferred_size = 0, dg_is_resume = True\<rparr> True,
       SendConfirm \<lparr>cq_id = 1, cq_file_num = 1, cq_union = Some (OffsetBlk 3)\<rparr>, raw_block 1 [4, 5], WriteDone 1 2]
      \<lparr>cm_write_jobs = [(new_write 1 Generic (FilePath ''/t'') 0 True)\<lparr>tj_stream := Some (FileStream 2 1 True),
           tj_files := [\<lparr>fe_name = ''a'', fe_size = 1, fe_modified_time = 5\<rparr>, \<lparr>fe_name = ''b'', fe_size = 5, fe_modified_time = 6\<rparr>]\<rparr>],
       cm_read_jobs = [],
       cm_fs = fault_fs [([''t''], Dir), ([''t'', ''a.download''], File 2), ([''t'', ''b.download''], File 0), ([''t'', ''b.digest''], File 1)]
         [[1, 2, 3], [123, 125], [9]] []\<rparr>) =
    Some (Some [4, 5],
      [CmDigest \<lparr>dg_id = 1, dg_file_num = 1, dg_last_modified = 6, dg_file_size = 5, dg_is_identical = True,
         dg_transferred_size = 3, dg_is_resume = False\<rparr> True, CmDone 1 2])"
  by code_simp

text \<open>When a file cannot be created, the block is reported as an error but the next block of that
  file goes to the end of the file before it, which is complete already.\<close>

theorem failed_create_spoils_previous_file:
  "file_after ''/t/a'' (run_on (fault_fs [([''t''], Dir)] [] [[''t'', ''b.download'']])
      [NewWrite ''/t'' 1 0 [(''a'', 5), (''b'', 6)] True 6, raw_block 0 [1, 2], raw_block 0 [], raw_block 1 [3], raw_block 1 [4]]) =
    Some (Some [1, 2, 4], [CmError 1 (Io PermissionDenied) 1])"
  by code_simp

text \<open>The first block of a transfer puts a left-over \<open>.download\<close> file in the place of the finished file of
  that name, before the transfer has anything to replace it with.\<close>

theorem stale_download_replaces_file:
  "file_after ''/t/a'' (run_on (fault_fs [([''t''], Dir), ([''t'', ''a''], File 0), ([''t'', ''a.download''], File 1)] [[1, 2, 3], [9]] [])
      [NewWrite ''/t'' 1 0 [(''a'', 5)] True 3, raw_block 0 [7], CancelWrite 1]) = Some (Some [9], [])"
  by code_simp







text \<open>A peer that announces a transfer of no files and confirms an offset makes the process that writes
  panic, whatever the directory, the numbers and the offset.\<close>

theorem offset_without_files_panics:
  assumes "0 < k"
  shows "run_commands env [NewWrite path i n [] detection s, SendConfirm \<lparr>cq_id = i, cq_file_num = n, cq_union = Some (OffsetBlk k)\<rparr>]
     \<lparr>cm_write_jobs = [], cm_read_jobs = rs, cm_fs = f\<rparr> = None"
  using assms by (simp add: fs_new_write_def set_files_def validate_transfer_file_names_def new_write_def fs_confirm_def get_job_def job_confirm_def
      set_file_confirmed_def set_stream_offset_def Let_def)

end
