(* ===== verification/FileListing.thy ===== *)
theory FileListing
  imports TransferJobs
begin

text \<open>
  Listing directories, \<^verbatim>\<open>libs/hbb_common/src/fs.rs\<close>: \<open>read_dir\<close>, the files below a directory
  (\<open>get_recursive_files\<close>) and its empty directories (\<open>get_empty_dirs_recursive\<close>). What the operating system
  tells beyond theory \<open>FileSystem\<close> is the record \<open>listing_env\<close>: the names in a directory in the order it
  returns them (those that are text; the code skips the others), the modification times of directories and
  links in seconds, and on Windows the hidden attribute and the drives. The recursion takes the depth it may go
  to; the theorem says that the depth of the file system is enough.
\<close>

section \<open>One directory\<close>

datatype file_type = FtDir | FtDirLink | FtDirDrive | FtFile | FtFileLink

record dir_entry =
  de_entry :: file_entry
  de_type :: file_type
  de_hidden :: bool

record listing_env =
  le_names :: "loc \<Rightarrow> string list"
  le_time :: "loc \<Rightarrow> int"
  le_hidden :: "loc \<Rightarrow> bool"
  le_drives :: "32 word"

definition path_is_file :: "fs \<Rightarrow> string \<Rightarrow> bool" where
  "path_is_file f p \<longleftrightarrow> file_at f p \<noteq> None"

text \<open>Seconds since the epoch, \<open>0\<close> for times before it.\<close>

definition modified_secs :: "fs \<Rightarrow> nat \<Rightarrow> int" where
  "modified_secs f i = max 0 (mtime f i div NANOS)"

definition drive_entries :: "32 word \<Rightarrow> dir_entry list" where
  "drive_entries drives =
     map (\<lambda>i. \<lparr>de_entry = \<lparr>fe_name = [char_of (65 + i :: nat), CHR '':''], fe_size = 0, fe_modified_time = 0\<rparr>, de_type = FtDirDrive,
            de_hidden = False\<rparr>) (filter (bit drives) [0..<32])"

definition is_hidden_name :: "listing_env \<Rightarrow> fs \<Rightarrow> loc \<Rightarrow> string \<Rightarrow> bool" where
  "is_hidden_name env f l name \<longleftrightarrow> (if fs_windows f then le_hidden env (l @ [name]) else hd name = CHR ''.'')"

text \<open>One name of the directory at location \<open>l\<close>, reached by \<open>path\<close>; \<open>None\<close> is \<open>continue\<close>.\<close>

definition entry_of :: "listing_env \<Rightarrow> fs \<Rightarrow> string \<Rightarrow> loc \<Rightarrow> bool \<Rightarrow> string \<Rightarrow> dir_entry option" where
  "entry_of env f path l include_hidden name =
     (let p = path_push (fs_windows f) path name in
      if name = [] then None
      else case symlink_metadata f p of
          Inl _ \<Rightarrow> None
        | Inr meta \<Rightarrow>
            let is_hidden = is_hidden_name env f l name;
                (ty, sz) =
                  (if path_is_dir f p then (case meta of Link _ \<Rightarrow> (FtDirLink, 0) | _ \<Rightarrow> (FtDir, 0))
                   else case meta of
                       Link _ \<Rightarrow> (FtFileLink, 0)
                     | File i \<Rightarrow> (FtFile, word_of_nat (length (content f i)))
                     | Dir \<Rightarrow> (FtFile, 0));
                modified_time = (case meta of File i \<Rightarrow> modified_secs f i | _ \<Rightarrow> le_time env (l @ [name]))
            in if is_hidden \<and> \<not> include_hidden then None
               else Some \<lparr>de_entry = \<lparr>fe_name = name, fe_size = sz, fe_modified_time = modified_time\<rparr>, de_type = ty, de_hidden = is_hidden\<rparr>)"

definition read_dir :: "listing_env \<Rightarrow> fs \<Rightarrow> string \<Rightarrow> bool \<Rightarrow> fs_error + dir_entry list" where
  "read_dir env f path include_hidden =
     (if fs_windows f \<and> path = ''/'' then Inr (drive_entries (le_drives env))
      else case resolve f path of
          Inl e \<Rightarrow> Inl (Io e)
        | Inr l \<Rightarrow>
            if fs_denied f l then Inl (Io PermissionDenied)
            else case node_at f l of
                Some Dir \<Rightarrow> Inr (List.map_filter (entry_of env f path l include_hidden) (le_names env l))
              | Some _ \<Rightarrow> Inl (Io NotADirectory)
              | None \<Rightarrow> Inl (Io NotFound))"

section \<open>Everything below a directory\<close>

text \<open>\<open>None\<close> is a directory deeper than the bound.\<close>

fun read_dir_recursive :: "nat \<Rightarrow> listing_env \<Rightarrow> fs \<Rightarrow> string \<Rightarrow> string \<Rightarrow> bool \<Rightarrow> (fs_error + file_entry list) option" where
  "read_dir_recursive 0 env f path prefix include_hidden = None"
| "read_dir_recursive (Suc n) env f path prefix include_hidden =
     (if path_is_dir f path then
        (case read_dir env f path include_hidden of
           Inl e \<Rightarrow> Some (Inl e)
         | Inr es \<Rightarrow>
             map_option (\<lambda>fss. Inr (concat fss)) (those (map (\<lambda>e.
               let name = fe_name (de_entry e) in
               case de_type e of
                 FtFile \<Rightarrow> Some [(de_entry e)\<lparr>fe_name := path_push (fs_windows f) prefix name\<rparr>]
               | FtDir \<Rightarrow>
                   map_option (\<lambda>r. case r of Inl _ \<Rightarrow> [] | Inr tmp \<Rightarrow> tmp)
                     (read_dir_recursive n env f (path_push (fs_windows f) path name) (path_push (fs_windows f) prefix name) include_hidden)
               | _ \<Rightarrow> Some []) es)))
      else case file_at f path of
          Some i \<Rightarrow> Some (Inr [\<lparr>fe_name = [], fe_size = word_of_nat (length (content f i)), fe_modified_time = modified_secs f i\<rparr>])
        | None \<Rightarrow> Some (Inl (Bail ''Not exists'')))"

definition get_recursive_files :: "nat \<Rightarrow> listing_env \<Rightarrow> fs \<Rightarrow> string \<Rightarrow> bool \<Rightarrow> (fs_error + file_entry list) option" where
  "get_recursive_files n env f path include_hidden = read_dir_recursive n env f path [] include_hidden"

text \<open>A \<open>FileDirectory\<close> is its path and its entries; the prefix of the source is not used.\<close>

fun read_empty_dirs_recursive :: "nat \<Rightarrow> listing_env \<Rightarrow> fs \<Rightarrow> string \<Rightarrow> bool \<Rightarrow> (fs_error + (string \<times> dir_entry list) list) option" where
  "read_empty_dirs_recursive 0 env f path include_hidden = None"
| "read_empty_dirs_recursive (Suc n) env f path include_hidden =
     (if path_is_dir f path then
        (case read_dir env f path include_hidden of
           Inl e \<Rightarrow> Some (Inl e)
         | Inr es \<Rightarrow>
             if es = [] then Some (Inr [(path, es)])
             else map_option (\<lambda>dss. Inr (concat dss)) (those (map (\<lambda>e.
               case de_type e of
                 FtDir \<Rightarrow>
                   map_option (\<lambda>r. case r of Inl _ \<Rightarrow> [] | Inr tmp \<Rightarrow> tmp)
                     (read_empty_dirs_recursive n env f (path_push (fs_windows f) path (fe_name (de_entry e))) include_hidden)
               | _ \<Rightarrow> Some []) es)))
      else if path_is_file f path then Some (Inr [])
      else Some (Inl (Bail ''Not exists'')))"

definition get_empty_dirs_recursive :: "nat \<Rightarrow> listing_env \<Rightarrow> fs \<Rightarrow> string \<Rightarrow> bool \<Rightarrow> (fs_error + (string \<times> dir_entry list) list) option" where
  "get_empty_dirs_recursive n env f path include_hidden = read_empty_dirs_recursive n env f path include_hidden"


section \<open>What a listing holds\<close>

text \<open>Names as the operating system allows them, and a listing that tells the truth.\<close>

definition plain_name :: "bool \<Rightarrow> string \<Rightarrow> bool" where
  "plain_name w s \<longleftrightarrow> s \<noteq> [] \<and> s \<noteq> ''.'' \<and> s \<noteq> ''..'' \<and> CHR 0x00 \<notin> set s \<and> (w \<longrightarrow> CHR '':'' \<notin> set s) \<and> (\<forall>c \<in> set s. \<not> is_sep w c)"

definition listing_ok :: "listing_env \<Rightarrow> fs \<Rightarrow> bool" where
  "listing_ok env f \<longleftrightarrow>
     (\<forall>l. node_at f l = Some Dir \<longrightarrow> distinct (le_names env l) \<and> set (le_names env l) = {s. node_at f (l @ [s]) \<noteq> None}) \<and>
     (\<forall>l s. node_at f (l @ [s]) \<noteq> None \<longrightarrow> plain_name (fs_windows f) s)"

definition depth_below :: "fs \<Rightarrow> nat \<Rightarrow> loc \<Rightarrow> bool" where
  "depth_below f n d \<longleftrightarrow> (\<forall>ss. node_at f (d @ ss) \<noteq> None \<longrightarrow> length ss < n)"

text \<open>The files the listing of directory \<open>d\<close> should have: those under directories that may be read, no name on the
  way being hidden unless hidden ones are asked for, and no link followed.\<close>

definition listed :: "listing_env \<Rightarrow> fs \<Rightarrow> bool \<Rightarrow> loc \<Rightarrow> string list \<Rightarrow> bool" where
  "listed env f h d ss \<longleftrightarrow> (\<exists>i. node_at f (d @ ss) = Some (File i)) \<and>
     (\<forall>k < length ss. node_at f (d @ take k ss) = Some Dir \<and> \<not> fs_denied f (d @ take k ss) \<and>
        (h \<or> \<not> is_hidden_name env f (d @ take k ss) (ss ! k)))"

definition entry_below :: "fs \<Rightarrow> string \<Rightarrow> loc \<Rightarrow> string list \<Rightarrow> file_entry" where
  "entry_below f prefix d ss =
     (case node_at f (d @ ss) of
        Some (File i) \<Rightarrow> \<lparr>fe_name = foldl (path_push (fs_windows f)) prefix ss, fe_size = word_of_nat (length (content f i)), fe_modified_time = modified_secs f i\<rparr>
      | _ \<Rightarrow> \<lparr>fe_name = [], fe_size = 0, fe_modified_time = 0\<rparr>)"

lemma plain_segments: "plain_name w s \<Longrightarrow> segments w s = [s] \<and> \<not> rooted w s"
  by (auto simp: plain_name_def segments_def rooted_def split_on_none)

lemma listed_Cons:
  assumes "node_at f d = Some Dir"
  shows "listed env f h d (s # ss) \<longleftrightarrow>
    \<not> fs_denied f d \<and> (h \<or> \<not> is_hidden_name env f d s) \<and> listed env f h (d @ [s]) ss"
  using assms unfolding listed_def by (auto simp: nth_Cons' less_Suc_eq_0_disj all_conj_distrib dest: spec [of _ "Suc _"])

text \<open>Where a name of a listed directory leads.\<close>

lemma name_located:
  assumes "resolve f path = Inr d" "node_at f d = Some Dir" "plain_name (fs_windows f) s"
  shows "locate f (path_push (fs_windows f) path s) = Inr (d @ [s])"
    and "node_at f (d @ [s]) \<noteq> None \<Longrightarrow> (\<forall>t. node_at f (d @ [s]) \<noteq> Some (Link t)) \<Longrightarrow> resolve f (path_push (fs_windows f) path s) = Inr (d @ [s])"
proof -
  have s: "segments (fs_windows f) s = [s]" "\<not> rooted (fs_windows f) s" using assms(3) plain_segments by auto
  have seg: "segments (fs_windows f) (path_push (fs_windows f) path s) = segments (fs_windows f) path @ [s]" "start_at f (path_push (fs_windows f) path s) = start_at f path"
    using segments_push [OF s(2)] s start_at_push by auto
  show "locate f (path_push (fs_windows f) path s) = Inr (d @ [s])"
    using assms s seg by (auto simp: locate_def resolve_def plain_name_def Let_def)
  obtain m where m: "walk 40 f (start_at f path) (segments (fs_windows f) path @ [s]) = walk m f d [s]"
    using walk_append assms(1,2) unfolding resolve_def by blast
  show "resolve f (path_push (fs_windows f) path s) = Inr (d @ [s])"
    if "node_at f (d @ [s]) \<noteq> None" "\<forall>t. node_at f (d @ [s]) \<noteq> Some (Link t)"
    using that m seg assms(3) unfolding resolve_def by (auto simp: plain_name_def split: node.splits)
qed

text \<open>What each name of a directory becomes.\<close>

lemma entry_cases:
  assumes "resolve f path = Inr d" "node_at f d = Some Dir" "plain_name (fs_windows f) s" "node_at f (d @ [s]) = Some nd"
  shows "entry_of env f path d h s =
    (if is_hidden_name env f d s \<and> \<not> h then None
     else Some \<lparr>de_entry = \<lparr>fe_name = s, fe_size = (case nd of File i \<Rightarrow> word_of_nat (length (content f i)) | _ \<Rightarrow> 0),
            fe_modified_time = (case nd of File i \<Rightarrow> modified_secs f i | _ \<Rightarrow> le_time env (d @ [s]))\<rparr>,
          de_type = (case nd of Dir \<Rightarrow> FtDir | File _ \<Rightarrow> FtFile
            | Link _ \<Rightarrow> if path_is_dir f (path_push (fs_windows f) path s) then FtDirLink else FtFileLink),
          de_hidden = is_hidden_name env f d s\<rparr>)"
proof -
  have "symlink_metadata f (path_push (fs_windows f) path s) = Inr nd"
    using name_located(1) [OF assms(1-3)] assms(4) by (simp add: symlink_metadata_def look_def)
  moreover have "path_is_dir f (path_push (fs_windows f) path s) \<longleftrightarrow> nd = Dir" if "\<forall>t. nd \<noteq> Link t"
    using name_located(2) [OF assms(1-3)] assms(4) that by (auto simp: path_is_dir_def stat_def look_def)
  ultimately show ?thesis using assms(3) by (auto simp: entry_of_def plain_name_def Let_def split: node.splits)
qed


lemma those_map_filter:
  assumes "\<forall>s \<in> set xs. case E s of None \<Rightarrow> F s = [] | Some e \<Rightarrow> G e = Some (F s)"
  shows "\<exists>ys. those (map G (List.map_filter E xs)) = Some ys \<and> concat ys = concat (map F xs)"
  using assms by (induction xs) (auto simp: map_filter_simps split: option.splits)

lemma distinct_concat_Cons:
  "distinct xs \<Longrightarrow> (\<And>s. s \<in> set xs \<Longrightarrow> distinct (sub s)) \<Longrightarrow> distinct (concat (map (\<lambda>s. map ((#) s) (sub s)) xs))"
  by (induction xs) (auto simp: distinct_map)

lemma entry_below_Cons: "entry_below f prefix d (s # ss) = entry_below f (path_push (fs_windows f) prefix s) (d @ [s]) ss"
  by (simp add: entry_below_def split: option.splits node.splits)

lemma depth_below_Cons: "depth_below f (Suc n) d \<Longrightarrow> depth_below f n (d @ [s])"
  unfolding depth_below_def by (auto dest: spec [of _ "s # _"])

lemma listed_none:
  assumes "node_at f l = Some (Link t) \<or> node_at f l = Some Dir \<and> fs_denied f l"
  shows "\<not> listed env f h l ss"
  using assms by (cases ss) (auto simp: listed_def)

lemma not_root_push: "plain_name w s \<Longrightarrow> \<not> (w \<and> path_push w path s = ''/'')"
proof -
  assume p: "plain_name w s"
  then have "s \<noteq> []" "\<not> is_sep w (last s)" by (auto simp: plain_name_def)
  moreover have "last (path_push w path s) = last s" using \<open>s \<noteq> []\<close> by (auto simp: path_push_def)
  ultimately show ?thesis by (auto simp: is_sep_def)
qed

text \<open>A listing is the files that should be there, once each.\<close>

lemma recursive_files:
  assumes ok: "listing_ok env f"
  shows "resolve f path = Inr d \<Longrightarrow> node_at f d = Some Dir \<Longrightarrow> \<not> fs_denied f d \<Longrightarrow> \<not> (fs_windows f \<and> path = ''/'') \<Longrightarrow> depth_below f n d \<Longrightarrow>
    \<exists>sss. read_dir_recursive n env f path prefix h = Some (Inr (map (entry_below f prefix d) sss)) \<and> distinct sss \<and> set sss = {ss. listed env f h d ss}"
proof (induction n arbitrary: path prefix d)
  case 0
  then show ?case by (auto simp: depth_below_def dest: spec [of _ "[]"])
next
  case (Suc n)
  let ?w = "fs_windows f" and ?names = "le_names env d" and ?E = "entry_of env f path d h"
  let ?G = "\<lambda>e. let name = fe_name (de_entry e) in
               case de_type e of
                 FtFile \<Rightarrow> Some [(de_entry e)\<lparr>fe_name := path_push ?w prefix name\<rparr>]
               | FtDir \<Rightarrow>
                   map_option (\<lambda>r. case r of Inl _ \<Rightarrow> [] | Inr tmp \<Rightarrow> tmp)
                     (read_dir_recursive n env f (path_push ?w path name) (path_push ?w prefix name) h)
               | _ \<Rightarrow> Some []"
  have names: "distinct ?names" "set ?names = {s. node_at f (d @ [s]) \<noteq> None}" "\<And>s. s \<in> set ?names \<Longrightarrow> plain_name ?w s"
    using ok Suc.prems(2) by (auto simp: listing_ok_def)
  have "\<forall>s \<in> set ?names. \<exists>sub. distinct sub \<and> set sub = {ss. listed env f h d (s # ss)} \<and>
      (case ?E s of None \<Rightarrow> sub = [] | Some e \<Rightarrow> ?G e = Some (map (entry_below f prefix d) (map ((#) s) sub)))"
  proof
    fix s assume s: "s \<in> set ?names"
    obtain nd where nd: "node_at f (d @ [s]) = Some nd" using names(2) s by auto
    note e = entry_cases [OF Suc.prems(1,2) names(3) [OF s] nd, of env h]
    note lC = listed_Cons [OF Suc.prems(2), of env h s]
    show "\<exists>sub. distinct sub \<and> set sub = {ss. listed env f h d (s # ss)} \<and>
      (case ?E s of None \<Rightarrow> sub = [] | Some e \<Rightarrow> ?G e = Some (map (entry_below f prefix d) (map ((#) s) sub)))" (is "\<exists>sub. ?good sub")
    proof (cases "is_hidden_name env f d s \<and> \<not> h")
      case True
      then show ?thesis using e lC by (intro exI [of _ "[]"]) auto
    next
      case False
      then have l: "listed env f h d (s # ss) \<longleftrightarrow> listed env f h (d @ [s]) ss" for ss using lC Suc.prems(3) by auto
      show ?thesis
      proof (cases nd)
        case (Link t)
        then show ?thesis using e False l listed_none [of f "d @ [s]" t env h] nd by (intro exI [of _ "[]"]) auto
      next
        case (File i)
        have "{ss. listed env f h (d @ [s]) ss} = {[]}" using nd File by (auto simp: listed_def)
        then show ?thesis using e False l File nd by (intro exI [of _ "[[]]"]) (simp add: entry_below_def Let_def)
      next
        case Dir
        let ?p = "path_push ?w path s"
        have r: "resolve f ?p = Inr (d @ [s])" using name_located(2) [OF Suc.prems(1,2) names(3) [OF s]] nd Dir by simp
        have nr: "\<not> (?w \<and> ?p = ''/'')" using not_root_push names(3) [OF s] by blast
        show ?thesis
        proof (cases "fs_denied f (d @ [s])")
          case True
          have "n \<noteq> 0" using depth_below_Cons [OF Suc.prems(5), of s] nd by (auto simp: depth_below_def)
          then obtain m where "n = Suc m" by (cases n) auto
          moreover have "read_dir env f ?p h = Inl (Io PermissionDenied)" using r True nr by (auto simp: read_dir_def)
          moreover have "path_is_dir f ?p" using r nd Dir by (simp add: path_is_dir_def stat_def look_def)
          ultimately have "read_dir_recursive n env f ?p (path_push ?w prefix s) h = Some (Inl (Io PermissionDenied))" by simp
          then show ?thesis using e False l Dir nd True listed_none [of f "d @ [s]" _ env h] by (intro exI [of _ "[]"]) (simp add: Let_def)
        next
          case denied: False
          obtain sss where "read_dir_recursive n env f ?p (path_push ?w prefix s) h = Some (Inr (map (entry_below f (path_push ?w prefix s) (d @ [s])) sss))"
              "distinct sss" "set sss = {ss. listed env f h (d @ [s]) ss}"
            using Suc.IH [OF r _ denied nr depth_below_Cons [OF Suc.prems(5)]] nd Dir by blast
          then show ?thesis using e False l Dir nd by (intro exI [of _ sss]) (simp add: Let_def entry_below_Cons comp_def)
        qed
      qed
    qed
  qed
  from bchoice [OF this] obtain sub where sub: "\<forall>s \<in> set ?names. distinct (sub s) \<and> set (sub s) = {ss. listed env f h d (s # ss)} \<and>
      (case ?E s of None \<Rightarrow> sub s = [] | Some e \<Rightarrow> ?G e = Some (map (entry_below f prefix d) (map ((#) s) (sub s))))" by (rule exE)
  let ?sss = "concat (map (\<lambda>s. map ((#) s) (sub s)) ?names)"
  have "\<forall>s \<in> set ?names. case ?E s of None \<Rightarrow> map (entry_below f prefix d) (map ((#) s) (sub s)) = []
      | Some e \<Rightarrow> ?G e = Some (map (entry_below f prefix d) (map ((#) s) (sub s)))" using sub by (fastforce split: option.splits)
  from those_map_filter [OF this] obtain ys where ys: "those (map ?G (List.map_filter ?E ?names)) = Some ys"
    "concat ys = map (entry_below f prefix d) ?sss" by (auto simp: map_concat comp_def)
  have "path_is_dir f path" using Suc.prems by (simp add: path_is_dir_def stat_def look_def)
  moreover have "read_dir env f path h = Inr (List.map_filter ?E ?names)" using Suc.prems unfolding read_dir_def by auto
  ultimately have "read_dir_recursive (Suc n) env f path prefix h = Some (Inr (map (entry_below f prefix d) ?sss))" using ys by simp
  moreover have "distinct ?sss" using distinct_concat_Cons [OF names(1)] sub by blast
  moreover have "set ?sss = {ss. listed env f h d ss}"
  proof -
    have "\<exists>s ss'. ss = s # ss' \<and> s \<in> set ?names" if "listed env f h d ss" for ss
    proof (cases ss)
      case Nil
      then show ?thesis using that Suc.prems(2) by (simp add: listed_def)
    next
      case (Cons s ss')
      have "node_at f (d @ [s]) \<noteq> None" using that Cons by (cases ss') (auto simp: listed_def dest: spec [of _ 1])
      then show ?thesis using Cons names(2) by auto
    qed
    then show ?thesis using sub by fastforce
  qed
  ultimately show ?case by blast
qed


text \<open>Names come apart again, so no two files share one, and a receiving end of the same kind accepts them.\<close>

lemma segments_joined:
  assumes "\<forall>s \<in> set ss. plain_name w s"
  shows "segments w (foldl (path_push w) p ss) = segments w p @ ss"
  using assms
proof (induction ss arbitrary: p)
  case (Cons s ss)
  have "segments w (path_push w p s) = segments w p @ [s]" using Cons.prems plain_segments [of w s] segments_push [of w s p] by simp
  then show ?case using Cons by simp
qed simp

lemma listed_plain:
  assumes "listing_ok env f" "listed env f h d ss" "s \<in> set ss"
  shows "plain_name (fs_windows f) s"
proof -
  obtain k where k: "k < length ss" "s = ss ! k" using assms(3) by (auto simp: in_set_conv_nth)
  have "node_at f (d @ take (Suc k) ss) \<noteq> None"
    using assms(2) k(1) by (cases "Suc k = length ss") (auto simp: listed_def dest: spec [of _ "Suc k"])
  then show ?thesis using assms(1) k by (auto simp: listing_ok_def take_Suc_conv_app_nth simp flip: append_assoc)
qed

lemma push_chars:
  assumes "plain_name w s" and q: "q \<noteq> [] \<and> \<not> rooted w q \<and> CHR 0x00 \<notin> set q \<and> (w \<longrightarrow> CHR '':'' \<notin> set q)"
  shows "path_push w q s \<noteq> [] \<and> \<not> rooted w (path_push w q s) \<and> CHR 0x00 \<notin> set (path_push w q s) \<and> (w \<longrightarrow> CHR '':'' \<notin> set (path_push w q s))"
proof -
  have s: "\<not> rooted w s" "CHR 0x00 \<notin> set s" "w \<longrightarrow> CHR '':'' \<notin> set s" using assms(1) plain_segments by (auto simp: plain_name_def)
  then have "set (path_push w q s) \<subseteq> insert (main_sep w) (set q \<union> set s)" by (auto simp: path_push_def)
  then show ?thesis using q s by (auto simp: rooted_push) (auto simp: path_push_def main_sep_def split: if_splits)
qed

lemma joined_chars:
  assumes "\<forall>s \<in> set ss. plain_name w s" "ss \<noteq> []"
  shows "foldl (path_push w) [] ss \<noteq> [] \<and> \<not> rooted w (foldl (path_push w) [] ss) \<and> CHR 0x00 \<notin> set (foldl (path_push w) [] ss) \<and>
    (w \<longrightarrow> CHR '':'' \<notin> set (foldl (path_push w) [] ss))"
  using assms
proof (induction ss rule: rev_induct)
  case (snoc s ss)
  have s: "plain_name w s" "\<not> rooted w s" using snoc.prems plain_segments by auto
  show ?case
  proof (cases "ss = []")
    case True
    then show ?thesis using s by (auto simp: path_push_def plain_name_def rooted_def)
  next
    case False
    then show ?thesis using push_chars [OF s(1), of "foldl (path_push w) [] ss"] snoc by simp
  qed
qed simp

lemma joined_valid:
  assumes "\<forall>s \<in> set ss. plain_name w s" "ss \<noteq> []"
  shows "validate_file_name_no_traversal w (foldl (path_push w) [] ss) = None"
proof -
  let ?n = "foldl (path_push w) [] ss"
  have "segments w ?n = ss" using segments_joined [OF assms(1), of "[]"] by (simp add: segments_def)
  then have "''..'' \<notin> set (segments w ?n)" using assms(1) by (auto simp: plain_name_def)
  then have "''..'' \<notin> set (filter (\<lambda>s. s \<noteq> []) (split_on (is_sep w) ?n))" by (auto simp: segments_def)
  moreover have "\<not> (w \<and> 2 \<le> length ?n \<and> is_ascii_alphabetic (?n ! 0) \<and> ?n ! 1 = CHR '':'')"
    using joined_chars [OF assms] by (metis nth_mem Suc_1 Suc_le_lessD)
  ultimately show ?thesis using joined_chars [OF assms] by (auto simp: validate_file_name_no_traversal_def rooted_def is_sep_def)
qed

lemma each_name_valid:
  "(\<And>e. e \<in> set es \<Longrightarrow> fe_name e \<noteq> [] \<and> validate_file_name_no_traversal w (fe_name e) = None) \<Longrightarrow> validate_each_name w es = None"
  by (induction es) auto

text \<open>Listing a directory for a transfer finds exactly the regular files below it, each once: those under
  directories that can be read, hidden names only when they are asked for, links not followed; with the name below
  the directory, the length and the modification time. The bound on the depth only has to exceed the depth of the
  file system, and a receiving end on the same kind of system accepts all the names.\<close>

theorem recursive_listing_exact:
  assumes "listing_ok env f" and "resolve f path = Inr d" and "node_at f d = Some Dir" and "\<not> fs_denied f d"
    and "\<not> (fs_windows f \<and> path = ''/'')" and "depth_below f n d"
  shows "\<exists>files. get_recursive_files n env f path h = Some (Inr files) \<and> distinct (map fe_name files) \<and>
    set files = {\<lparr>fe_name = foldl (path_push (fs_windows f)) [] ss, fe_size = word_of_nat (length (content f i)), fe_modified_time = modified_secs f i\<rparr>
      | ss i. listed env f h d ss \<and> node_at f (d @ ss) = Some (File i)} \<and>
    validate_transfer_file_names (fs_windows f) files = None"
proof -
  obtain sss where s: "read_dir_recursive n env f path [] h = Some (Inr (map (entry_below f [] d) sss))" "distinct sss" "set sss = {ss. listed env f h d ss}"
    using recursive_files [OF assms] by blast
  let ?files = "map (entry_below f [] d) sss"
  have one: "\<exists>i. node_at f (d @ ss) = Some (File i) \<and> entry_below f [] d ss =
      \<lparr>fe_name = foldl (path_push (fs_windows f)) [] ss, fe_size = word_of_nat (length (content f i)), fe_modified_time = modified_secs f i\<rparr>"
    if "listed env f h d ss" for ss using that by (auto simp: listed_def entry_below_def)
  have name: "fe_name (entry_below f [] d ss) = foldl (path_push (fs_windows f)) [] ss" if "listed env f h d ss" for ss using one [OF that] by auto
  have seg: "segments (fs_windows f) (fe_name (entry_below f [] d ss)) = ss" if "listed env f h d ss" for ss
    using segments_joined [of ss "fs_windows f" "[]"] listed_plain [OF assms(1) that] name [OF that] by (simp add: segments_def)
  have "inj_on (\<lambda>ss. fe_name (entry_below f [] d ss)) (set sss)" using seg s(3) by (intro inj_onI) (metis mem_Collect_eq)
  then have "distinct (map fe_name ?files)" using s(2) by (simp add: comp_def distinct_map)
  moreover have "set ?files = {\<lparr>fe_name = foldl (path_push (fs_windows f)) [] ss, fe_size = word_of_nat (length (content f i)), fe_modified_time = modified_secs f i\<rparr>
      | ss i. listed env f h d ss \<and> node_at f (d @ ss) = Some (File i)}" using one s(3) by (auto simp: image_iff) (metis, force)
  moreover have "validate_each_name (fs_windows f) ?files = None"
  proof (rule each_name_valid)
    fix e assume "e \<in> set ?files"
    then obtain ss where ss: "listed env f h d ss" "e = entry_below f [] d ss" using s(3) by auto
    have "ss \<noteq> []" using ss(1) assms(3) by (auto simp: listed_def)
    then show "fe_name e \<noteq> [] \<and> validate_file_name_no_traversal (fs_windows f) (fe_name e) = None"
      using joined_valid joined_chars listed_plain [OF assms(1) ss(1)] name [OF ss(1)] ss(2) by metis
  qed
  ultimately show ?thesis using s(1) by (auto simp: get_recursive_files_def validate_transfer_file_names_def)
qed


text \<open>A file system that is a finite table, and the listing of it.\<close>

definition table_fs :: "(loc \<times> node) list \<Rightarrow> fs" where
  "table_fs t = \<lparr>fs_windows = False, fs_names = map_of t, fs_data = [0 \<mapsto> ([1, 2, 3], 7000000000), 1 \<mapsto> ([], 0)], fs_next = 2,
     fs_cwd = [], fs_now = 0, fs_denied = (\<lambda>_. False)\<rparr>"

definition table_listing :: "(loc \<times> node) list \<Rightarrow> listing_env" where
  "table_listing t = \<lparr>le_names = (\<lambda>l. map last (filter (\<lambda>k. butlast k = l) (map fst t))), le_time = (\<lambda>_. 0), le_hidden = (\<lambda>_. False), le_drives = 0\<rparr>"

lemma table_listing_ok:
  assumes "distinct (map fst t)" "\<forall>k \<in> set (map fst t). k \<noteq> [] \<and> plain_name False (last k)"
  shows "listing_ok (table_listing t) (table_fs t)"
proof -
  have n: "node_at (table_fs t) (l @ [s]) = map_of t (l @ [s])" for l s by (simp add: node_at_def table_fs_def)
  have k: "k = butlast k @ [last k]" if "k \<in> set (map fst t)" for k using assms(2) that by auto
  have "inj_on last (set (filter (\<lambda>k. butlast k = l) (map fst t)))" for l
  proof (rule inj_onI)
    fix x y assume "x \<in> set (filter (\<lambda>k. butlast k = l) (map fst t))" "y \<in> set (filter (\<lambda>k. butlast k = l) (map fst t))" "last x = last y"
    then show "x = y" using k [of x] k [of y] by auto
  qed
  then have "distinct (map last (filter (\<lambda>k. butlast k = l) (map fst t)))" for l
    using distinct_filter [OF assms(1)] unfolding distinct_map by blast
  then have "distinct (le_names (table_listing t) l)" for l by (simp add: table_listing_def)
  moreover have "set (le_names (table_listing t) l) = {s. map_of t (l @ [s]) \<noteq> None}" for l
  proof -
    have "set (le_names (table_listing t) l) = last ` {k \<in> set (map fst t). butlast k = l}" by (simp add: table_listing_def)
    also have "\<dots> = {s. l @ [s] \<in> set (map fst t)}"
    proof
      show "last ` {k \<in> set (map fst t). butlast k = l} \<subseteq> {s. l @ [s] \<in> set (map fst t)}"
      proof
        fix s assume "s \<in> last ` {k \<in> set (map fst t). butlast k = l}"
        then obtain x where x: "x \<in> set (map fst t)" "butlast x = l" "s = last x" by blast
        then have "l @ [s] = x" using k [OF x(1)] by simp
        then show "s \<in> {s. l @ [s] \<in> set (map fst t)}" using x(1) by simp
      qed
      show "{s. l @ [s] \<in> set (map fst t)} \<subseteq> last ` {k \<in> set (map fst t). butlast k = l}"
      proof
        fix s assume "s \<in> {s. l @ [s] \<in> set (map fst t)}"
        then show "s \<in> last ` {k \<in> set (map fst t). butlast k = l}" by (intro image_eqI [of _ _ "l @ [s]"]) simp_all
      qed
    qed
    also have "\<dots> = {s. map_of t (l @ [s]) \<noteq> None}" unfolding map_of_eq_None_iff by simp
    finally show ?thesis .
  qed
  moreover have "plain_name False s" if "map_of t (l @ [s]) \<noteq> None" for l s
    using that assms(2) by (metis last_snoc map_of_eq_None_iff set_map)
  ultimately show ?thesis unfolding listing_ok_def n by (simp add: table_fs_def)
qed

definition demo_tree :: "(loc \<times> node) list" where
  "demo_tree = [([''d''], Dir), ([''d'', ''a''], File 0), ([''d'', ''s''], Dir), ([''d'', ''s'', ''b''], File 1), ([''d'', ''l''], Link [''d'']), ([''d'', ''.h''], File 0)]"

theorem recursive_listing_exact_witness:
  "get_recursive_files 3 (table_listing demo_tree) (table_fs demo_tree) ''/d'' False =
     Some (Inr [\<lparr>fe_name = ''a'', fe_size = 3, fe_modified_time = 7\<rparr>, \<lparr>fe_name = ''s/b'', fe_size = 0, fe_modified_time = 0\<rparr>]) \<and>
   (\<exists>files. get_recursive_files 3 (table_listing demo_tree) (table_fs demo_tree) ''/d'' True = Some (Inr files) \<and> distinct (map fe_name files))"
proof -
  have ok: "listing_ok (table_listing demo_tree) (table_fs demo_tree)"
    by (rule table_listing_ok) (simp_all add: demo_tree_def plain_name_def is_sep_def)
  have "resolve (table_fs demo_tree) ''/d'' = Inr [''d'']" by code_simp
  moreover have "node_at (table_fs demo_tree) [''d''] = Some Dir" by code_simp
  moreover have "depth_below (table_fs demo_tree) 3 [''d'']"
    by (auto simp: depth_below_def node_at_def table_fs_def demo_tree_def split: if_splits)
  ultimately have "\<exists>files. get_recursive_files 3 (table_listing demo_tree) (table_fs demo_tree) ''/d'' True = Some (Inr files) \<and> distinct (map fe_name files)"
    using recursive_listing_exact [OF ok, of "''/d''" "[''d'']" 3 True] by (simp add: table_fs_def) blast
  moreover have "get_recursive_files 3 (table_listing demo_tree) (table_fs demo_tree) ''/d'' False =
     Some (Inr [\<lparr>fe_name = ''a'', fe_size = 3, fe_modified_time = 7\<rparr>, \<lparr>fe_name = ''s/b'', fe_size = 0, fe_modified_time = 0\<rparr>])" by code_simp
  ultimately show ?thesis by blast
qed

end
