(* ===== verification/TransferCm.thy ===== *)
theory TransferCm
  imports FileListing TransferClient Versions
begin

text \<open>
  Files from the controlled to the controlling end. A connection (\<^verbatim>\<open>src/server/connection.rs\<close>) reads them itself;
  on Windows it has the connection manager (\<^verbatim>\<open>src/ui_cm_interface.rs\<close>) read them and passes on what comes back.
  The comments ask that the two stay in step: here both are modelled, with the connection's answer to every file
  action, and compared. \<open>show_error\<close> is the text of an error, \<open>listing\<close> what listing the path gave (theory
  \<open>FileListing\<close>).
\<close>

section \<open>The limit on the number of files\<close>

definition DEFAULT_MAX_VALIDATED_FILES :: nat where "DEFAULT_MAX_VALIDATED_FILES = 10000"
definition NO_LIMIT_FILE_COUNT :: nat where "NO_LIMIT_FILE_COUNT = 18446744073709551615"

definition get_max_validated_files :: "string \<Rightarrow> nat" where
  "get_max_validated_files opt =
     (let c = (case parse_unsigned NO_LIMIT_FILE_COUNT (trim opt) of Some n \<Rightarrow> n | None \<Rightarrow> NO_LIMIT_FILE_COUNT)
      in if c = 0 then DEFAULT_MAX_VALIDATED_FILES else c)"

definition check_file_count_limit :: "string \<Rightarrow> nat \<Rightarrow> fs_error option" where
  "check_file_count_limit opt file_count =
     (let max_files = get_max_validated_files opt in
      if file_count > max_files then
        Some (Bail (''file transfer rejected: too many files ('' @ nat_to_str file_count @ '' files exceeds limit of '' @ nat_to_str max_files
          @ ''). Adjust 'file-transfer-max-files' option to increase limit.''))
      else None)"

section \<open>State and messages\<close>

text \<open>What the controlling end is sent: the list of a job's files, or a response.\<close>

datatype host_message = HostDir int string "file_entry list" | HostFile file_response

datatype cm_data =
    ReadJobInitResult int "fs_error + string \<times> file_entry list"
  | FileBlockFromCM file_block
  | FileReadDone int int
  | FileReadError int int fs_error
  | FileDigestFromCM transfer_digest
  | AllFilesResult int string "fs_error + file_entry list"

datatype cm_command = FsCommand fs_command | CmReadEmptyDirs string bool | CmReadDir string bool | CmRemoveDir string int bool
  | CmReadFile string int int bool bool | CmReadAllFiles string int bool

text \<open>\<open>hc_file_transfer\<close> tells whether the session is one for files, \<open>hc_cm_sends\<close> whether the connection manager
  reads files (\<open>need_fs_cm_send_files\<close>).\<close>

record host_files =
  hc_file_transfer :: bool
  hc_cm_sends :: bool
  hc_version :: string
  hc_one_way :: bool
  hc_max_files :: string
  hc_delayed_read_dir :: "(string \<times> bool) option"
  hc_printer_data :: "(string \<times> bytes) list"
  hc_read_jobs :: "transfer_job list"
  hc_cm_read_job_ids :: "int list"
  hc_file_transferred :: bool

section \<open>Reading by the connection\<close>

definition process_new_read_job :: "transfer_job \<Rightarrow> string \<Rightarrow> host_files \<Rightarrow> host_files \<times> host_message list" where
  "process_new_read_job job path h =
     (h\<lparr>hc_read_jobs := hc_read_jobs h @ [job]\<rparr>, [HostDir (tj_id job) path (tj_files job)])"

definition create_and_start_read_job ::
  "int \<Rightarrow> job_type \<Rightarrow> data_source \<Rightarrow> int \<Rightarrow> bool \<Rightarrow> string \<Rightarrow> bool \<Rightarrow> fs_error + file_entry list \<Rightarrow> host_files \<Rightarrow> host_files \<times> host_message list" where
  "create_and_start_read_job i ty source file_num detection path check_limit listing h =
     (case new_read i ty source file_num detection listing of
        Inl e \<Rightarrow> (h, [HostFile (ErrorResponse i e 0)])
      | Inr job \<Rightarrow>
          (case (if check_limit then check_file_count_limit (hc_max_files h) (length (tj_files job)) else None) of
             Some msg \<Rightarrow> (h, [HostFile (ErrorResponse i msg (- 1))])
           | None \<Rightarrow> process_new_read_job job path h))"

section \<open>Reading by the connection manager\<close>

definition start_read_job ::
  "(fs_error \<Rightarrow> string) \<Rightarrow> string \<Rightarrow> string \<Rightarrow> int \<Rightarrow> int \<Rightarrow> bool \<Rightarrow> fs_error + file_entry list \<Rightarrow> transfer_job list \<Rightarrow> transfer_job list \<times> cm_data list" where
  "start_read_job show_error max_files path file_num i detection listing read_jobs =
     (case new_read i Generic (FilePath path) file_num detection listing of
        Inr job \<Rightarrow>
          (case check_file_count_limit max_files (length (tj_files job)) of
             Some msg \<Rightarrow> (read_jobs, [ReadJobInitResult i (Inl msg)])
           | None \<Rightarrow> (read_jobs @ [job], [ReadJobInitResult i (Inr (path, tj_files job))]))
      | Inl e \<Rightarrow> (read_jobs, [ReadJobInitResult i (Inl (Bail (''validation failed: '' @ show_error e)))]))"

definition init_read_job_for_cm :: "fs \<Rightarrow> transfer_job \<Rightarrow> fs_error option \<times> transfer_job \<times> cm_data list" where
  "init_read_job_for_cm f job =
     (case init_data_stream_for_cm f job of
        (Inl e, job) \<Rightarrow> (Some e, job, [])
      | (Inr (Some (last_modified, file_size)), job) \<Rightarrow>
          (None, job, [FileDigestFromCM \<lparr>dg_id = tj_id job, dg_file_num = tj_file_num job, dg_last_modified = last_modified, dg_file_size = file_size,
             dg_is_identical = False, dg_transferred_size = 0, dg_is_resume = tj_is_resume job\<rparr>])
      | (Inr None, job) \<Rightarrow> (None, job, []))"

text \<open>One turn of a job that could be initialized: what it sends, and whether it is over.\<close>

definition cm_read_turn :: "transfer_env \<Rightarrow> fs \<Rightarrow> transfer_job \<Rightarrow> transfer_job \<times> cm_data list \<times> bool" where
  "cm_read_turn env f job =
     (case job_read env f job of
        (Inl e, job) \<Rightarrow> (job, [FileReadError (tj_id job) (tj_file_num job) e], True)
      | (Inr (Some blk), job) \<Rightarrow> (job, [FileBlockFromCM blk], False)
      | (Inr None, job) \<Rightarrow>
          if job_completed job then
            (job, [case job_error job of
                 Some e \<Rightarrow> FileReadError (tj_id job) (tj_file_num job) e
               | None \<Rightarrow> FileReadDone (tj_id job) (tj_file_num job)], True)
          else (job, [], False))"

fun cm_jobs_turn :: "transfer_env \<Rightarrow> fs \<Rightarrow> transfer_job list \<Rightarrow> transfer_job list \<times> cm_data list \<times> int list" where
  "cm_jobs_turn env f [] = ([], [], [])"
| "cm_jobs_turn env f (j # js) =
     (if tj_is_last_job j then (let (js, r) = cm_jobs_turn env f js in (j # js, r))
      else case init_read_job_for_cm f j of
          (Some e, j, out) \<Rightarrow>
            (let (js, out', finished) = cm_jobs_turn env f js
             in (j # js, out @ [FileReadError (tj_id j) (tj_file_num j) e] @ out', tj_id j # finished))
        | (None, j, out) \<Rightarrow>
            (let (j, out', finished) = cm_read_turn env f j in (j # js, out @ out', if finished then [tj_id j] else [])))"

definition handle_read_jobs_tick :: "transfer_env \<Rightarrow> fs \<Rightarrow> transfer_job list \<Rightarrow> transfer_job list \<times> cm_data list" where
  "handle_read_jobs_tick env f jobs =
     (let (jobs, out, finished) = cm_jobs_turn env f jobs in (fold (\<lambda>i js. snd (remove_job i js)) finished jobs, out))"

definition read_all_files :: "string \<Rightarrow> string \<Rightarrow> int \<Rightarrow> fs_error + file_entry list \<Rightarrow> cm_data" where
  "read_all_files max_files path i listing =
     AllFilesResult i path
       (case listing of
          Inl e \<Rightarrow> Inl e
        | Inr files \<Rightarrow> (case check_file_count_limit max_files (length files) of Some msg \<Rightarrow> Inl msg | None \<Rightarrow> Inr files))"

text \<open>What the connection makes of the connection manager's data; data of a job it does not wait for is dropped.\<close>

fun on_cm_data :: "cm_data \<Rightarrow> host_files \<Rightarrow> host_files \<times> host_message list" where
  "on_cm_data (ReadJobInitResult i r) h =
     (if i \<notin> set (hc_cm_read_job_ids h) then (h, [])
      else case r of
          Inl e \<Rightarrow> (h\<lparr>hc_cm_read_job_ids := removeAll i (hc_cm_read_job_ids h)\<rparr>, [HostFile (ErrorResponse i e 0)])
        | Inr (path, files) \<Rightarrow> (h\<lparr>hc_file_transferred := True\<rparr>, [HostDir i path files]))"
| "on_cm_data (FileBlockFromCM blk) h =
     (if bk_id blk \<notin> set (hc_cm_read_job_ids h) then (h, []) else (h, [HostFile (BlockResponse blk)]))"
| "on_cm_data (FileReadDone i file_num) h =
     (if i \<notin> set (hc_cm_read_job_ids h) then (h, [])
      else (h\<lparr>hc_cm_read_job_ids := removeAll i (hc_cm_read_job_ids h)\<rparr>, [HostFile (DoneResponse i file_num)]))"
| "on_cm_data (FileReadError i file_num e) h =
     (if i \<notin> set (hc_cm_read_job_ids h) then (h, [])
      else (h\<lparr>hc_cm_read_job_ids := removeAll i (hc_cm_read_job_ids h)\<rparr>, [HostFile (ErrorResponse i e file_num)]))"
| "on_cm_data (FileDigestFromCM dg) h =
     (if dg_id dg \<notin> set (hc_cm_read_job_ids h) then (h, []) else (h, [HostFile (DigestResponse dg)]))"
| "on_cm_data (AllFilesResult i path r) h =
     (h, [case r of Inl e \<Rightarrow> HostFile (ErrorResponse i e (- 1)) | Inr files \<Rightarrow> HostDir i path files])"

fun on_all_cm_data :: "cm_data list \<Rightarrow> host_files \<Rightarrow> host_files \<times> host_message list" where
  "on_all_cm_data [] h = (h, [])"
| "on_all_cm_data (d # ds) h = (let (h, out) = on_cm_data d h; (h, out') = on_all_cm_data ds h in (h, out @ out'))"


section \<open>File actions\<close>

datatype file_action =
    ReadEmptyDirsAction string bool
  | ReadDirAction string bool
  | AllFilesAction int string bool
  | SendAction int string job_type int bool
  | ReceiveAction int string int "(string \<times> int) list" "64 word"
  | RemoveDirAction int string bool
  | RemoveFileAction int string int
  | CreateAction int string
  | CancelAction int
  | SendConfirmAction send_confirm
  | RenameAction int string string

definition can_enable_overwrite_detection :: "int \<Rightarrow> bool" where
  "can_enable_overwrite_detection version \<longleftrightarrow> version \<ge> get_version_number ''1.1.10''"

text \<open>The job number of an action that a host refuses when files may only go one way.\<close>

definition one_way_job :: "file_action \<Rightarrow> int option" where
  "one_way_job fa =
     (case fa of
        SendAction i _ _ _ _ \<Rightarrow> Some i
      | RemoveFileAction i _ _ \<Rightarrow> Some i
      | RenameAction i _ _ \<Rightarrow> Some i
      | CreateAction i _ \<Rightarrow> Some i
      | RemoveDirAction i _ _ \<Rightarrow> Some i
      | _ \<Rightarrow> None)"

definition send_action :: "int \<Rightarrow> string \<Rightarrow> job_type \<Rightarrow> int \<Rightarrow> bool \<Rightarrow> (string \<Rightarrow> bool \<Rightarrow> fs_error + file_entry list) \<Rightarrow> host_files \<Rightarrow>
    host_files \<times> host_message list \<times> cm_command list" where
  "send_action i path ty file_num include_hidden listing h =
     (case ty of
        Generic \<Rightarrow>
          (let od = can_enable_overwrite_detection (get_version_number (hc_version h)) in
           if hc_cm_sends h then
             (h\<lparr>hc_cm_read_job_ids := push_new i (hc_cm_read_job_ids h), hc_file_transferred := True\<rparr>, [], [CmReadFile path i file_num include_hidden od])
           else (let (h, out) = create_and_start_read_job i ty (FilePath path) file_num od path True (listing path include_hidden) h
                 in (h\<lparr>hc_file_transferred := True\<rparr>, out, [])))
      | Printer \<Rightarrow>
          (case find (\<lambda>(p, _). p = path) (hc_printer_data h) of
             None \<Rightarrow> (h, [], [])
           | Some (p, d) \<Rightarrow>
               (let h = h\<lparr>hc_printer_data := remove1 (p, d) (hc_printer_data h)\<rparr>;
                    (h, out) = create_and_start_read_job i ty (MemoryCursor d) file_num True path False (Inr []) h
                in (h\<lparr>hc_file_transferred := True\<rparr>, out, []))))"

definition all_files_action :: "int \<Rightarrow> string \<Rightarrow> bool \<Rightarrow> (string \<Rightarrow> bool \<Rightarrow> fs_error + file_entry list) \<Rightarrow> host_files \<Rightarrow>
    host_files \<times> host_message list \<times> cm_command list" where
  "all_files_action i path include_hidden listing h =
     (if hc_cm_sends h then (h, [], [CmReadAllFiles path i include_hidden])
      else case listing path include_hidden of
          Inl e \<Rightarrow> (h, [HostFile (ErrorResponse i e (- 1))], [])
        | Inr files \<Rightarrow>
            (case check_file_count_limit (hc_max_files h) (length files) of
               Some msg \<Rightarrow> (h, [HostFile (ErrorResponse i msg (- 1))], [])
             | None \<Rightarrow> (h, [HostDir i path files], [])))"

definition cancel_action :: "int \<Rightarrow> host_files \<Rightarrow> host_files \<times> host_message list \<times> cm_command list" where
  "cancel_action i h =
     (h\<lparr>hc_cm_read_job_ids := removeAll i (hc_cm_read_job_ids h), hc_read_jobs := snd (remove_job i (hc_read_jobs h))\<rparr>, [],
      [FsCommand (CancelWrite i), FsCommand (CancelRead i)])"

text \<open>The confirmation goes to the job it belongs to: one the connection reads, one the connection manager reads, or
  one it writes. \<open>None\<close> is a panic.\<close>

definition confirm_action :: "send_confirm \<Rightarrow> host_files \<times> fs \<Rightarrow> ((host_files \<times> fs) \<times> cm_command list) option" where
  "confirm_action r = (\<lambda>(h, f).
     case get_job (cq_id r) (hc_read_jobs h) of
       Some job \<Rightarrow>
         map_option (\<lambda>(job, f). ((h\<lparr>hc_read_jobs := put_job job (hc_read_jobs h)\<rparr>, f), [])) (job_confirm r (job, f))
     | None \<Rightarrow>
         Some ((h, f),
           if cq_id r \<in> set (hc_cm_read_job_ids h) then
             [FsCommand (SendConfirmForRead (cq_id r) (cq_union r = Some (Skip True)) (case cq_union r of Some (OffsetBlk n) \<Rightarrow> n | _ \<Rightarrow> 0))]
           else [FsCommand (SendConfirm r)]))"

fun act :: "file_action \<Rightarrow> (string \<Rightarrow> bool \<Rightarrow> fs_error + file_entry list) \<Rightarrow> host_files \<times> fs \<Rightarrow>
    ((host_files \<times> fs) \<times> host_message list \<times> cm_command list) option" where
  "act (ReadEmptyDirsAction path hidden) listing s = Some (s, [], [CmReadEmptyDirs path hidden])"
| "act (ReadDirAction path hidden) listing s = Some (s, [], [CmReadDir path hidden])"
| "act (AllFilesAction i path hidden) listing s = (let (h, r) = all_files_action i path hidden listing (fst s) in Some ((h, snd s), r))"
| "act (SendAction i path ty file_num hidden) listing s = (let (h, r) = send_action i path ty file_num hidden listing (fst s) in Some ((h, snd s), r))"
| "act (ReceiveAction i path file_num files total_size) listing s =
     Some (((fst s)\<lparr>hc_file_transferred := True\<rparr>, snd s), [],
       [FsCommand (NewWrite path i file_num files (can_enable_overwrite_detection (get_version_number (hc_version (fst s)))) total_size)])"
| "act (RemoveDirAction i path recursive) listing s = Some (s, [], [CmRemoveDir path i recursive])"
| "act (RemoveFileAction i path file_num) listing s = Some (s, [], [FsCommand (RemoveFile path i file_num)])"
| "act (CreateAction i path) listing s = Some (s, [], [FsCommand (CreateDir path i)])"
| "act (CancelAction i) listing s = (let (h, r) = cancel_action i (fst s) in Some ((h, snd s), r))"
| "act (SendConfirmAction r) listing s = map_option (\<lambda>(s, cmds). (s, [], cmds)) (confirm_action r s)"
| "act (RenameAction i path new_name) listing s = Some (s, [], [FsCommand (Rename i path new_name)])"

definition on_file_action :: "file_action \<Rightarrow> (string \<Rightarrow> bool \<Rightarrow> fs_error + file_entry list) \<Rightarrow> host_files \<times> fs \<Rightarrow>
    ((host_files \<times> fs) \<times> host_message list \<times> cm_command list) option" where
  "on_file_action fa listing = (\<lambda>(h, f).
     if \<not> (hc_file_transfer h \<or> (case fa of SendAction _ _ Printer _ _ \<Rightarrow> True | _ \<Rightarrow> False)) then Some ((h, f), [], [])
     else if hc_delayed_read_dir h \<noteq> None then
       Some ((case fa of ReadDirAction path hidden \<Rightarrow> h\<lparr>hc_delayed_read_dir := Some (path, hidden)\<rparr> | _ \<Rightarrow> h, f), [], [])
     else case (if hc_one_way h then one_way_job fa else None) of
         Some i \<Rightarrow> Some ((h, f), [HostFile (ErrorResponse i (Bail ''one-way-file-transfer-tip'') 0)], [])
       | None \<Rightarrow> act fa listing (h, f))"


section \<open>A host at work\<close>

text \<open>Everything that reaches the controlling end, and the commands as the connection manager carries them out: the
  file commands of theory \<open>TransferServer\<close>, listings, and the jobs it reads. \<open>env_of\<close> gives the listing of the
  file system as it is, \<open>depth\<close> the bound on its depth.\<close>

datatype host_out = ToClient host_message | FromCm cm_message | DirListing string "dir_entry list"
  | EmptyDirs string "(string \<times> dir_entry list) list"

record file_host =
  fh_env :: transfer_env
  fh_show_error :: "fs_error \<Rightarrow> string"
  fh_listing :: "fs \<Rightarrow> listing_env"
  fh_depth :: nat
  fh_home :: string

definition listing_of :: "file_host \<Rightarrow> fs \<Rightarrow> string \<Rightarrow> bool \<Rightarrow> fs_error + file_entry list" where
  "listing_of w f path hidden =
     (case get_recursive_files (fh_depth w) (fh_listing w f) f path hidden of Some r \<Rightarrow> r | None \<Rightarrow> Inl (Io FilesystemLoop))"

text \<open>Removing a directory, if it is empty; and recursively, which removes links and empty directories and reports no
  error.\<close>

definition fs_remove_dir :: "(fs \<Rightarrow> listing_env) \<Rightarrow> fs \<Rightarrow> string \<Rightarrow> io_kind option \<times> fs" where
  "fs_remove_dir env_of f p =
     (case locate f p of
        Inl e \<Rightarrow> (Some e, f)
      | Inr l \<Rightarrow> (case node_at f l of
            None \<Rightarrow> (Some NotFound, f)
          | Some Dir \<Rightarrow> if le_names (env_of f) l = [] \<and> l \<noteq> [] then (None, f\<lparr>fs_names := (fs_names f)(l := None)\<rparr>) else (Some DirectoryNotEmpty, f)
          | Some _ \<Rightarrow> (Some NotADirectory, f)))"

fun remove_all_empty_dir :: "nat \<Rightarrow> (fs \<Rightarrow> listing_env) \<Rightarrow> fs \<Rightarrow> string \<Rightarrow> fs_error option \<times> fs" where
  "remove_all_empty_dir 0 env_of f path = (None, f)"
| "remove_all_empty_dir (Suc n) env_of f path =
     (case read_dir (env_of f) f path True of
        Inl e \<Rightarrow> (Some e, f)
      | Inr es \<Rightarrow>
          (let f = fold (\<lambda>e f.
                 let p = path_push (fs_windows f) path (fe_name (de_entry e)) in
                 case de_type e of
                   FtDir \<Rightarrow> snd (remove_all_empty_dir n env_of f p)
                 | FtDirLink \<Rightarrow> snd (fs_remove_file f p)
                 | FtFileLink \<Rightarrow> snd (fs_remove_file f p)
                 | _ \<Rightarrow> f) es f
           in (None, snd (fs_remove_dir env_of f path))))"

definition remove_dir :: "file_host \<Rightarrow> string \<Rightarrow> bool \<Rightarrow> fs \<Rightarrow> fs_error option \<times> fs" where
  "remove_dir w path recursive f =
     (if recursive then remove_all_empty_dir (fh_depth w) (fh_listing w) f path
      else io_result (fs_remove_dir (fh_listing w) f path))"

type_synonym host_state = "host_files \<times> cm_state"

definition run_cm_command :: "file_host \<Rightarrow> cm_command \<Rightarrow> host_state \<Rightarrow> (host_state \<times> host_out list) option" where
  "run_cm_command w c = (\<lambda>(h, cm).
     case c of
       FsCommand c \<Rightarrow> map_option (\<lambda>(cm, out). ((h, cm), map FromCm out)) (handle_fs (fh_env w) c cm)
     | CmReadEmptyDirs dir hidden \<Rightarrow>
         Some ((h, cm), case get_empty_dirs_recursive (fh_depth w) (fh_listing w (cm_fs cm)) (cm_fs cm) dir hidden of
             Some (Inr fds) \<Rightarrow> [EmptyDirs dir fds] | _ \<Rightarrow> [])
     | CmReadDir dir hidden \<Rightarrow>
         (let path = (if dir = [] then fh_home w else dir) in
          Some ((h, cm), case FileListing.read_dir (fh_listing w (cm_fs cm)) (cm_fs cm) path hidden of Inr es \<Rightarrow> [DirListing path es] | Inl _ \<Rightarrow> []))
     | CmRemoveDir path i recursive \<Rightarrow>
         map_option (\<lambda>(cm, out). ((h, cm), map FromCm out)) (handle_result (remove_dir w path recursive (cm_fs cm)) i 0 cm)
     | CmReadFile path i file_num hidden od \<Rightarrow>
         (let (jobs, ds) = start_read_job (fh_show_error w) (hc_max_files h) path file_num i od (listing_of w (cm_fs cm) path hidden) (cm_read_jobs cm);
              (h, out) = on_all_cm_data ds h
          in Some ((h, cm\<lparr>cm_read_jobs := jobs\<rparr>), map ToClient out))
     | CmReadAllFiles path i hidden \<Rightarrow>
         (let (h, out) = on_cm_data (read_all_files (hc_max_files h) path i (listing_of w (cm_fs cm) path hidden)) h
          in Some ((h, cm), map ToClient out)))"

fun run_cm_commands :: "file_host \<Rightarrow> cm_command list \<Rightarrow> host_state \<Rightarrow> (host_state \<times> host_out list) option" where
  "run_cm_commands w [] s = Some (s, [])"
| "run_cm_commands w (c # cs) s =
     (case run_cm_command w c s of
        None \<Rightarrow> None
      | Some (s, out) \<Rightarrow> map_option (\<lambda>(s, out'). (s, out @ out')) (run_cm_commands w cs s))"

text \<open>A file action of the peer, and the timers of the connection and of the connection manager.\<close>

definition host_action :: "file_host \<Rightarrow> file_action \<Rightarrow> host_state \<Rightarrow> (host_state \<times> host_out list) option" where
  "host_action w fa = (\<lambda>(h, cm).
     case on_file_action fa (listing_of w (cm_fs cm)) (h, cm_fs cm) of
       None \<Rightarrow> None
     | Some ((h, f), out, cmds) \<Rightarrow>
         map_option (\<lambda>(s, out'). (s, map ToClient out @ out')) (run_cm_commands w cmds (h, cm\<lparr>cm_fs := f\<rparr>)))"

definition host_tick :: "file_host \<Rightarrow> host_state \<Rightarrow> host_state \<times> host_out list" where
  "host_tick w = (\<lambda>(h, cm).
     let (jobs, out) = handle_read_jobs (fh_env w) (cm_fs cm) (hc_read_jobs h);
         h = h\<lparr>hc_read_jobs := jobs\<rparr>;
         (cm_jobs, ds) = handle_read_jobs_tick (fh_env w) (cm_fs cm) (cm_read_jobs cm);
         (h, out') = on_all_cm_data ds h
     in ((h, cm\<lparr>cm_read_jobs := cm_jobs\<rparr>), map (\<lambda>r. ToClient (HostFile r)) out @ map ToClient out'))"


section \<open>The two ways to read are the same\<close>

text \<open>The peer asks for files and answers the digests it is sent, with any numbers it likes; the timers run.\<close>

datatype read_event = Tick | Answer send_confirm

definition current_job :: "host_state \<Rightarrow> transfer_job option" where
  "current_job = (\<lambda>(h, cm). case hc_read_jobs h @ cm_read_jobs cm of [] \<Rightarrow> None | j # _ \<Rightarrow> Some j)"

definition read_event_step :: "file_host \<Rightarrow> read_event \<Rightarrow> host_state \<Rightarrow> (host_state \<times> host_out list) option" where
  "read_event_step w ev s =
     (case ev of
        Tick \<Rightarrow> Some (host_tick w s)
      | Answer r \<Rightarrow> host_action w (SendConfirmAction r) s)"

text \<open>An answer to the job says something, and about the file the job is at.\<close>

definition apt :: "read_event \<Rightarrow> host_state \<Rightarrow> bool" where
  "apt ev s =
     (case ev of
        Tick \<Rightarrow> True
      | Answer r \<Rightarrow>
          (case current_job s of
             None \<Rightarrow> True
           | Some j \<Rightarrow> \<not> (cq_id r = tj_id j \<and> (cq_file_num r \<noteq> tj_file_num j \<or> cq_union r = None))))"

fun apt_events :: "file_host \<Rightarrow> read_event list \<Rightarrow> host_state \<Rightarrow> bool" where
  "apt_events w [] s = True"
| "apt_events w (ev # evs) s = (apt ev s \<and> (case read_event_step w ev s of None \<Rightarrow> True | Some (s, _) \<Rightarrow> apt_events w evs s))"

fun read_events :: "file_host \<Rightarrow> read_event list \<Rightarrow> host_state \<Rightarrow> (host_state \<times> host_out list) option" where
  "read_events w [] s = Some (s, [])"
| "read_events w (ev # evs) s =
     (case read_event_step w ev s of
        None \<Rightarrow> None
      | Some (s, out) \<Rightarrow> map_option (\<lambda>(s, out'). (s, out @ out')) (read_events w evs s))"

definition request_files :: "file_host \<Rightarrow> int \<Rightarrow> string \<Rightarrow> int \<Rightarrow> bool \<Rightarrow> read_event list \<Rightarrow> host_state \<Rightarrow> (host_state \<times> host_out list) option" where
  "request_files w i path file_num hidden evs s =
     (case host_action w (SendAction i path Generic file_num hidden) s of
        None \<Rightarrow> None
      | Some (s, out) \<Rightarrow> map_option (\<lambda>(s, out'). (s, out @ out')) (read_events w evs s))"

definition apt_request :: "file_host \<Rightarrow> int \<Rightarrow> string \<Rightarrow> int \<Rightarrow> bool \<Rightarrow> read_event list \<Rightarrow> host_state \<Rightarrow> bool" where
  "apt_request w i path file_num hidden evs s =
     (case host_action w (SendAction i path Generic file_num hidden) s of None \<Rightarrow> True | Some (s, _) \<Rightarrow> apt_events w evs s)"

text \<open>The same message: a skipped file is an error with the text \<open>skipped\<close>.\<close>

fun on_wire :: "host_out \<Rightarrow> host_out" where
  "on_wire (ToClient (HostFile (SkippedResponse i file_num))) = ToClient (HostFile (ErrorResponse i (Bail ''skipped'') file_num))"
| "on_wire out = out"

fun is_error :: "host_out \<Rightarrow> bool" where
  "is_error (ToClient (HostFile (ErrorResponse _ _ _))) \<longleftrightarrow> True"
| "is_error _ \<longleftrightarrow> False"

lemma init_for_cm:
  "init_data_stream f j =
     (case init_data_stream_for_cm f j of
        (Inl e, j') \<Rightarrow> (Some e, j', [])
      | (Inr None, j') \<Rightarrow> (None, j', [])
      | (Inr (Some (lm, sz)), j') \<Rightarrow> (None, j', [DigestResponse \<lparr>dg_id = tj_id j', dg_file_num = tj_file_num j', dg_last_modified = lm, dg_file_size = sz,
           dg_is_identical = False, dg_transferred_size = 0, dg_is_resume = tj_is_resume j'\<rparr>]))"
  by (auto simp: init_data_stream_def init_data_stream_for_cm_def send_current_digest_def split: sum.splits bool.splits prod.splits)

lemma open_keeps: "snd (open_data_stream f j) = j' \<Longrightarrow> tj_id j' = tj_id j \<and> tj_is_last_job j' = tj_is_last_job j \<and> tj_type j' = tj_type j"
  by (auto simp: open_data_stream_def split: data_source.splits sum.splits if_splits)

lemma init_for_cm_keeps:
  "snd (init_data_stream_for_cm f j) = j' \<Longrightarrow> tj_id j' = tj_id j \<and> tj_is_last_job j' = tj_is_last_job j \<and> tj_type j' = tj_type j"
proof -
  assume j: "snd (init_data_stream_for_cm f j) = j'"
  obtain r k where k: "open_data_stream f j = (r, k)" by (cases "open_data_stream f j")
  have "j' = k \<or> j' = k\<lparr>tj_waiting := True\<rparr>"
    using j unfolding init_data_stream_for_cm_def k by (auto split: sum.splits bool.splits if_splits)
  then show ?thesis using open_keeps [of f j k] k by auto
qed

lemma read_keeps:
  "job_read env f j = (r, j') \<Longrightarrow> tj_id j' = tj_id j \<and> tj_is_last_job j' = tj_is_last_job j \<and> tj_type j' = tj_type j \<and>
     (\<forall>b. r = Inr (Some b) \<longrightarrow> bk_id b = tj_id j)"
  by (auto simp: job_read_def next_file_def Let_def split: if_splits option.splits sum.splits prod.splits)

lemma offset_keeps:
  assumes "set_stream_offset n offset (j, f) = Some (j', f')"
  shows "tj_id j' = tj_id j \<and> tj_is_last_job j' = tj_is_last_job j \<and> tj_type j' = tj_type j"
proof (cases "tj_source j")
  case (FilePath p)
  then have n: "n < length (tj_files j)" using assms by (simp add: set_stream_offset_def split: if_splits)
  show ?thesis
  proof (cases "resolve_entry_path f j p (fe_name (tj_files j ! n))")
    case None
    then show ?thesis using assms FilePath n by (simp add: set_stream_offset_def)
  next
    case (Some path)
    then show ?thesis using assms FilePath n unfolding set_stream_offset_def
      by (cases "(if path_exists f (download_path path) \<and> path_exists f (digest_path path)
                  then (case file_open_write f (download_path path) of Inr (i, f) \<Rightarrow> Some (i, f, True) | Inl _ \<Rightarrow> None)
                  else if path_exists f path then (case file_open f path of Inr i \<Rightarrow> Some (i, f, False) | Inl _ \<Rightarrow> None) else None)") auto
  qed
qed (use assms in \<open>simp add: set_stream_offset_def\<close>)

lemma confirm_keeps:
  assumes "job_confirm r (j, f) = Some (j', f')"
  shows "tj_id j' = tj_id j \<and> tj_is_last_job j' = tj_is_last_job j \<and> tj_type j' = tj_type j"
  using assms offset_keeps [of _ _ "set_file_confirmed True j" f j' f'] unfolding job_confirm_def Let_def
  by (simp add: set_file_confirmed_def set_file_skipped_def split: if_splits option.splits confirm_union.splits) auto


lemma job_error_skipped: "job_error j = (if job_skipped j then Some (Bail ''skipped'') else None)"
  by (rule job_error_def)

text \<open>A turn of one job.\<close>

lemma one_job_tick:
  assumes "\<not> tj_is_last_job j" "hc_cm_read_job_ids h = [tj_id j]"
    and d: "handle_read_jobs env f [j] = (jobs, out)" and clean: "\<forall>r \<in> set out. \<forall>i e n. r \<noteq> ErrorResponse i e n"
    and c: "handle_read_jobs_tick env f [j] = (jobs', ds)" and o: "on_all_cm_data ds h = (h', out')"
  shows "jobs' = jobs \<and> map (\<lambda>m. on_wire (ToClient m)) out' = map (\<lambda>r. on_wire (ToClient (HostFile r))) out \<and>
    (jobs = [] \<and> h' = h\<lparr>hc_cm_read_job_ids := []\<rparr> \<or> (\<exists>k. jobs = [k] \<and> \<not> tj_is_last_job k \<and> tj_id k = tj_id j \<and> h' = h))"
proof -
  obtain r k where i: "init_data_stream_for_cm f j = (r, k)" by (cases "init_data_stream_for_cm f j")
  have k: "tj_id k = tj_id j" "\<not> tj_is_last_job k" using init_for_cm_keeps [of f j k] i assms(1) by auto
  obtain q m where q: "job_read env f k = (q, m)" by (cases "job_read env f k")
  have m: "tj_id m = tj_id j" "\<not> tj_is_last_job m" "\<And>b. q = Inr (Some b) \<Longrightarrow> bk_id b = tj_id j"
    using read_keeps [OF q] k by auto
  obtain D where D: "r = Inr D"
  proof (cases r)
    case (Inl e)
    then have "ErrorResponse (tj_id k) e (tj_file_num k) \<in> set out"
      using d assms(1) i by (auto simp: handle_read_jobs_def init_for_cm Let_def split: prod.splits)
    then show ?thesis using clean by blast
  qed
  define E where "E = (case D of None \<Rightarrow> [] | Some (lm, sz) \<Rightarrow> [\<lparr>dg_id = tj_id k, dg_file_num = tj_file_num k, dg_last_modified = lm, dg_file_size = sz,
           dg_is_identical = False, dg_transferred_size = 0, dg_is_resume = tj_is_resume k\<rparr>])"
  have i1: "init_jobs f [j] = ([k], map DigestResponse E)" using assms(1) i D by (auto simp: init_for_cm E_def split: option.splits)
  have i2: "init_read_job_for_cm f j = (None, k, map FileDigestFromCM E)" using i D by (auto simp: init_read_job_for_cm_def E_def split: option.splits)
  have E: "on_all_cm_data (map FileDigestFromCM E @ ds') h = (let (h, out) = on_all_cm_data ds' h in (h, map (\<lambda>d. HostFile (DigestResponse d)) E @ out))" for ds'
    using k(1) assms(2) by (auto simp: E_def Let_def split: option.splits prod.splits)
  have "fst (read_turn env f k) = m" using q by (auto simp: read_turn_def split: sum.splits option.splits)
  then obtain out1 fin where t: "read_turn env f k = (m, out1, fin)" by (cases "read_turn env f k") auto
  have d1: "out = map DigestResponse E @ out1" "jobs = (if fin then [] else [m])"
    using d i1 t k(2) m(1) by (auto simp: handle_read_jobs_def Let_def)
  show ?thesis
  proof (cases q)
    case (Inl e)
    then show ?thesis using t q clean d1(1) by (auto simp: read_turn_def)
  next
    case (Inr b)
    show ?thesis
    proof (cases b)
      case (Some blk)
      have "out1 = [BlockResponse blk]" "\<not> fin" using t q Inr Some by (auto simp: read_turn_def)
      moreover have "cm_read_turn env f k = (m, [FileBlockFromCM blk], False)" using q Inr Some by (simp add: cm_read_turn_def)
      ultimately show ?thesis using c o d1 i2 E [of "[FileBlockFromCM blk]"] m(3) Inr Some assms(1,2) m(1,2)
        by (auto simp: handle_read_jobs_tick_def Let_def comp_def)
    next
      case None
      note rn = q [unfolded Inr None]
      show ?thesis
      proof (cases "job_completed m")
        case False
        then have "out1 = []" "\<not> fin" "cm_read_turn env f k = (m, [], False)" using t rn by (auto simp: read_turn_def cm_read_turn_def)
        then show ?thesis using c o d1 i2 E [of "[]"] assms(1) m(1,2) by (auto simp: handle_read_jobs_tick_def Let_def comp_def)
      next
        case True
        define last_data where "last_data = (if job_skipped m then FileReadError (tj_id m) (tj_file_num m) (Bail ''skipped'') else FileReadDone (tj_id m) (tj_file_num m))"
        have "out1 = [if job_skipped m then SkippedResponse (tj_id m) (tj_file_num m) else DoneResponse (tj_id m) (tj_file_num m)]" "fin"
          "cm_read_turn env f k = (m, [last_data], True)"
          using True t rn by (auto simp: read_turn_def cm_read_turn_def job_error_skipped last_data_def)
        then show ?thesis using c o d1 i2 E [of "[last_data]"] assms(1,2) m(1)
          by (auto simp: handle_read_jobs_tick_def Let_def comp_def last_data_def split: if_splits)
      qed
    qed
  qed
qed


text \<open>Two hosts in the same state, but for where the job is read.\<close>

definition same_read :: "host_state \<Rightarrow> host_state \<Rightarrow> bool" where
  "same_read = (\<lambda>(h, c) (h', c').
     hc_file_transfer h \<and> hc_file_transfer h' \<and> hc_delayed_read_dir h = None \<and> hc_delayed_read_dir h' = None \<and>
     cm_write_jobs c = [] \<and> cm_write_jobs c' = [] \<and> cm_fs c = cm_fs c' \<and> cm_read_jobs c = [] \<and> hc_read_jobs h' = [] \<and>
     hc_cm_read_job_ids h = [] \<and> hc_read_jobs h = cm_read_jobs c' \<and>
     (cm_read_jobs c' = [] \<and> hc_cm_read_job_ids h' = [] \<or>
      (\<exists>j. cm_read_jobs c' = [j] \<and> \<not> tj_is_last_job j \<and> hc_cm_read_job_ids h' = [tj_id j])))"

lemma no_jobs_tick [simp]: "handle_read_jobs env f [] = ([], [])" "handle_read_jobs_tick env f [] = ([], [])"
  by (simp_all add: handle_read_jobs_def handle_read_jobs_tick_def)

lemma ids_kept: "hc_read_jobs h = js \<Longrightarrow> h\<lparr>hc_read_jobs := js\<rparr> = h" "cm_read_jobs c = js \<Longrightarrow> c\<lparr>cm_read_jobs := js\<rparr> = c"
  by auto

lemma tick_same:
  assumes "same_read s s'" "host_tick w s = (t, out)" "list_all (\<lambda>r. \<not> is_error r) out"
  shows "\<exists>t' out'. host_tick w s' = (t', out') \<and> same_read t t' \<and> map on_wire out' = map on_wire out"
proof -
  obtain h c h' c' where s: "s = (h, c)" "s' = (h', c')" by (metis surj_pair)
  note r = assms(1) [unfolded s same_read_def, simplified]
  show ?thesis
  proof (cases "cm_read_jobs c'")
    case Nil
    then have "t = (h, c)" "out = []" "host_tick w s' = ((h', c'), [])"
      using assms(2) r unfolding s by (auto simp: host_tick_def Let_def ids_kept)
    then show ?thesis using assms(1) s by simp
  next
    case (Cons j js)
    then have j: "cm_read_jobs c' = [j]" "hc_read_jobs h = [j]" "\<not> tj_is_last_job j" "hc_cm_read_job_ids h' = [tj_id j]" using r by auto
    obtain jobs o1 where d: "handle_read_jobs (fh_env w) (cm_fs c) [j] = (jobs, o1)" by (cases "handle_read_jobs (fh_env w) (cm_fs c) [j]")
    obtain jobs' ds where e: "handle_read_jobs_tick (fh_env w) (cm_fs c) [j] = (jobs', ds)" by (cases "handle_read_jobs_tick (fh_env w) (cm_fs c) [j]")
    obtain h2 o2 where o: "on_all_cm_data ds h' = (h2, o2)" by (cases "on_all_cm_data ds h'")
    have t: "t = (h\<lparr>hc_read_jobs := jobs\<rparr>, c)" "out = map (\<lambda>r. ToClient (HostFile r)) o1"
      using assms(2) r d j unfolding s by (auto simp: host_tick_def Let_def ids_kept)
    have "\<forall>r \<in> set o1. \<forall>i e n. r \<noteq> ErrorResponse i e n"
      using assms(3) unfolding t by (auto simp: list_all_iff)
    note one = one_job_tick [OF j(3,4) d this e o]
    have "host_tick w s' = ((h2, c'\<lparr>cm_read_jobs := jobs\<rparr>), map ToClient o2)"
      using r j e o one unfolding s by (auto simp: host_tick_def Let_def ids_kept)
    moreover have "same_read t (h2, c'\<lparr>cm_read_jobs := jobs\<rparr>)" using r j one unfolding t same_read_def by auto
    moreover have "map on_wire (map ToClient o2) = map on_wire out" using one unfolding t by (simp add: comp_def)
    ultimately show ?thesis by blast
  qed
qed

lemma confirm_same:
  "job_confirm \<lparr>cq_id = i, cq_file_num = n, cq_union = Some (if u = Skip True then Skip True else OffsetBlk (case u of OffsetBlk k \<Rightarrow> k | _ \<Rightarrow> 0))\<rparr> s =
   job_confirm \<lparr>cq_id = i, cq_file_num = n, cq_union = Some u\<rparr> s"
  by (cases u) (auto simp: job_confirm_def Let_def split: prod.splits)

text \<open>An answer that belongs to no job changes nothing.\<close>

lemma stray_answer:
  assumes "hc_file_transfer h" "cm_write_jobs c = []" "get_job (cq_id r) (hc_read_jobs h) = None" "cq_id r \<notin> set (hc_cm_read_job_ids h)"
  shows "host_action w (SendConfirmAction r) (h, c) = Some ((h, c), [])"
  using assms unfolding host_action_def on_file_action_def
  by (simp add: one_way_job_def confirm_action_def run_cm_command_def fs_confirm_def get_job_def)

lemma answer_same:
  assumes "same_read s s'" "apt (Answer r) s"
  shows "case read_event_step w (Answer r) s of
      None \<Rightarrow> read_event_step w (Answer r) s' = None
    | Some (t, out) \<Rightarrow> \<exists>t' out'. read_event_step w (Answer r) s' = Some (t', out') \<and> same_read t t' \<and> map on_wire out' = map on_wire out"
proof -
  obtain h c h' c' where s: "s = (h, c)" "s' = (h', c')" by (metis surj_pair)
  note sr = assms(1) [unfolded s same_read_def, simplified]
  show ?thesis
  proof (cases "\<exists>j. cm_read_jobs c' = [j] \<and> cq_id r = tj_id j")
    case False
    then have "get_job (cq_id r) (hc_read_jobs h) = None" "cq_id r \<notin> set (hc_cm_read_job_ids h')"
      using sr by (auto simp: get_job_def)
    then have "read_event_step w (Answer r) s = Some (s, [])" "read_event_step w (Answer r) s' = Some (s', [])"
      unfolding s read_event_step_def using sr stray_answer [of h c r w] stray_answer [of h' c' r w] by (auto simp: get_job_def)
    then show ?thesis using assms(1) by simp
  next
    case True
    then obtain j where j: "cm_read_jobs c' = [j]" "hc_read_jobs h = [j]" "\<not> tj_is_last_job j" "hc_cm_read_job_ids h' = [tj_id j]" "cq_id r = tj_id j"
      using sr by auto
    obtain u where u: "cq_union r = Some u" "cq_file_num r = tj_file_num j"
      using assms(2) sr j unfolding s by (auto simp: apt_def current_job_def)
    have r: "r = \<lparr>cq_id = tj_id j, cq_file_num = tj_file_num j, cq_union = Some u\<rparr>" using j(5) u by simp
    have d: "read_event_step w (Answer r) s =
        map_option (\<lambda>(k, f). ((h\<lparr>hc_read_jobs := put_job k [j]\<rparr>, c\<lparr>cm_fs := f\<rparr>), [])) (job_confirm r (j, cm_fs c))"
      using sr j unfolding s read_event_step_def host_action_def on_file_action_def
      by (simp add: one_way_job_def confirm_action_def get_job_def option.map_comp comp_def case_prod_unfold split: option.splits)
    have e: "read_event_step w (Answer r) s' =
        map_option (\<lambda>(k, f). ((h', c'\<lparr>cm_read_jobs := put_job k [j], cm_fs := f\<rparr>), [])) (job_confirm r (j, cm_fs c))"
      using sr j(1-4) confirm_same [of "tj_id j" "tj_file_num j" u "(j, cm_fs c)"]
      unfolding s r read_event_step_def host_action_def on_file_action_def
      by (simp add: one_way_job_def confirm_action_def get_job_def run_cm_command_def fs_confirm_for_read_def option.map_comp comp_def case_prod_unfold split: option.splits)
    show ?thesis
    proof (cases "job_confirm r (j, cm_fs c)")
      case None
      then show ?thesis using d e by simp
    next
      case (Some kf)
      obtain k f where "kf = (k, f)" by fastforce
      then show ?thesis using Some d e sr j confirm_keeps [of r j "cm_fs c" k f] by (auto simp: same_read_def)
    qed
  qed
qed

text \<open>An answer for another file than the one the job is at: a connection that reads itself ignores it, the connection manager
  takes it for the file it is at.\<close>

lemma other_answer_differs:
  assumes "hc_file_transfer h" "hc_delayed_read_dir h = None" "cq_id r = tj_id j" "cq_file_num r \<noteq> tj_file_num j" "cq_union r = Some (Skip True)"
  shows "host_action w (SendConfirmAction r) (h\<lparr>hc_read_jobs := [j], hc_cm_read_job_ids := []\<rparr>, c\<lparr>cm_read_jobs := []\<rparr>) =
      Some ((h\<lparr>hc_read_jobs := [j], hc_cm_read_job_ids := []\<rparr>, c\<lparr>cm_read_jobs := []\<rparr>), [])"
    "host_action w (SendConfirmAction r) (h\<lparr>hc_read_jobs := [], hc_cm_read_job_ids := [tj_id j]\<rparr>, c\<lparr>cm_read_jobs := [j]\<rparr>) =
      Some ((h\<lparr>hc_read_jobs := [], hc_cm_read_job_ids := [tj_id j]\<rparr>, c\<lparr>cm_read_jobs := [set_file_skipped j]\<rparr>), [])"
  using assms unfolding host_action_def on_file_action_def
  by (simp_all add: one_way_job_def confirm_action_def get_job_def run_cm_command_def fs_confirm_for_read_def job_confirm_def set_file_skipped_def set_file_confirmed_def)

lemma events_same:
  "same_read s s' \<Longrightarrow> read_events w evs s = Some (t, out) \<Longrightarrow> list_all (\<lambda>r. \<not> is_error r) out \<Longrightarrow> apt_events w evs s \<Longrightarrow>
   \<exists>t' out'. read_events w evs s' = Some (t', out') \<and> same_read t t' \<and> map on_wire out' = map on_wire out"
proof (induction evs arbitrary: s s' t out)
  case Nil
  then show ?case by simp
next
  case (Cons ev evs)
  obtain s1 o1 o2 where s1: "read_event_step w ev s = Some (s1, o1)" "read_events w evs s1 = Some (t, o2)" "out = o1 @ o2"
    using Cons.prems(2) by (auto split: option.splits)
  have "\<exists>s1' o1'. read_event_step w ev s' = Some (s1', o1') \<and> same_read s1 s1' \<and> map on_wire o1' = map on_wire o1"
  proof (cases ev)
    case Tick
    then show ?thesis using tick_same [OF Cons.prems(1), of w s1 o1] s1(1,3) Cons.prems(3) by (auto simp: read_event_step_def)
  next
    case (Answer r)
    then show ?thesis using answer_same [OF Cons.prems(1), of r w] s1(1) Cons.prems(4) by simp
  qed
  then obtain s1' o1' where a: "read_event_step w ev s' = Some (s1', o1')" "same_read s1 s1'" "map on_wire o1' = map on_wire o1" by blast
  obtain t' o2' where b: "read_events w evs s1' = Some (t', o2')" "same_read t t'" "map on_wire o2' = map on_wire o2"
    using Cons.IH [OF a(2) s1(2)] Cons.prems(3,4) s1(1,3) by auto
  then show ?case using a b s1(3) by auto
qed

definition idle_host :: "host_state \<Rightarrow> bool" where
  "idle_host = (\<lambda>(h, c). hc_file_transfer h \<and> hc_delayed_read_dir h = None \<and> \<not> hc_one_way h \<and> hc_read_jobs h = [] \<and> hc_cm_read_job_ids h = [] \<and>
     cm_write_jobs c = [] \<and> cm_read_jobs c = [])"

lemma new_read_fields:
  "new_read i ty source n det l = Inr job \<Longrightarrow> tj_id job = i \<and> \<not> tj_is_last_job job"
  by (auto simp: new_read_def new_write_def split: data_source.splits sum.splits)

text \<open>(C7) It makes no difference to the peer who reads, for one request on a host that reads and writes nothing else: whatever
  files are asked for, however the timers and the answers interleave, as long as every answer to the job is about the file the
  job is at and a connection that reads the files itself reports no error, a connection manager that reads them has the peer
  sent the same messages in the same order and is left with the same job. For an answer about another file the two differ
  (\<open>other_answer_differs\<close>).\<close>

theorem cm_reads_like_connection:
  assumes "idle_host (h, c)" and "\<not> hc_cm_sends h"
    and "request_files w i path file_num hidden evs (h, c) = Some (t, out)" and "list_all (\<lambda>r. \<not> is_error r) out"
    and "apt_request w i path file_num hidden evs (h, c)"
  shows "\<exists>t' out'. request_files w i path file_num hidden evs (h\<lparr>hc_cm_sends := True\<rparr>, c) = Some (t', out') \<and>
    map on_wire out' = map on_wire out \<and> cm_read_jobs (snd t') = hc_read_jobs (fst t) \<and> cm_fs (snd t') = cm_fs (snd t)"
proof -
  let ?od = "can_enable_overwrite_detection (get_version_number (hc_version h))" and ?l = "listing_of w (cm_fs c) path hidden"
  note idle = assms(1) [unfolded idle_host_def, simplified]
  obtain job where job: "new_read i Generic (FilePath path) file_num ?od ?l = Inr job" "check_file_count_limit (hc_max_files h) (length (tj_files job)) = None"
  proof (cases "new_read i Generic (FilePath path) file_num ?od ?l")
    case (Inl e)
    then show ?thesis using assms idle unfolding request_files_def host_action_def on_file_action_def
      by (auto simp: one_way_job_def send_action_def create_and_start_read_job_def Let_def)
  next
    case (Inr j)
    then show ?thesis using that assms idle unfolding request_files_def host_action_def on_file_action_def
      by (auto simp: one_way_job_def send_action_def create_and_start_read_job_def Let_def split: option.splits)
  qed
  let ?h = "h\<lparr>hc_read_jobs := [job], hc_file_transferred := True\<rparr>"
  let ?h' = "h\<lparr>hc_cm_sends := True, hc_cm_read_job_ids := [i], hc_file_transferred := True\<rparr>" and ?c' = "c\<lparr>cm_read_jobs := [job]\<rparr>"
  have d: "host_action w (SendAction i path Generic file_num hidden) (h, c) = Some ((?h, c), [ToClient (HostDir i path (tj_files job))])"
    using assms(2) idle job new_read_fields [OF job(1)] unfolding host_action_def on_file_action_def
    by (simp add: one_way_job_def send_action_def create_and_start_read_job_def process_new_read_job_def Let_def)
  have e: "host_action w (SendAction i path Generic file_num hidden) (h\<lparr>hc_cm_sends := True\<rparr>, c) = Some ((?h', ?c'), [ToClient (HostDir i path (tj_files job))])"
    using idle job unfolding host_action_def on_file_action_def
    by (simp add: one_way_job_def send_action_def run_cm_command_def start_read_job_def push_new_def Let_def)
  have "same_read (?h, c) (?h', ?c')" using idle new_read_fields [OF job(1)] by (simp add: same_read_def)
  moreover obtain o2 where o2: "read_events w evs (?h, c) = Some (t, o2)" "out = ToClient (HostDir i path (tj_files job)) # o2"
    using assms(3) d by (auto simp: request_files_def)
  moreover have "list_all (\<lambda>r. \<not> is_error r) o2" using assms(4) o2 by simp
  moreover have "apt_events w evs (?h, c)" using assms(5) d by (simp add: apt_request_def)
  ultimately obtain t' o2' where "read_events w evs (?h', ?c') = Some (t', o2')" "same_read t t'" "map on_wire o2' = map on_wire o2"
    using events_same by blast
  then show ?thesis using e o2 by (auto simp: request_files_def same_read_def case_prod_unfold)
qed


text \<open>A host with the files of \<open>demo_tree\<close>; the operating system may refuse to open some of them.\<close>

definition plain_env :: transfer_env where
  "plain_env = \<lparr>te_zstd = (\<lambda>_. None), te_unzstd = (\<lambda>_. None), te_digest_text = (\<lambda>_. []), te_digest_parse = (\<lambda>_. None), te_read_size = (\<lambda>_. 1), te_sync = (\<lambda>_. None)\<rparr>"

definition demo_host :: file_host where
  "demo_host = \<lparr>fh_env = plain_env, fh_show_error = (\<lambda>_. []), fh_listing = (\<lambda>_. table_listing demo_tree), fh_depth = 3, fh_home = ''/''\<rparr>"

definition demo_files :: host_files where
  "demo_files = \<lparr>hc_file_transfer = True, hc_cm_sends = False, hc_version = ''1.1.10'', hc_one_way = False, hc_max_files = [], hc_delayed_read_dir = None,
     hc_printer_data = [], hc_read_jobs = [], hc_cm_read_job_ids = [], hc_file_transferred = False\<rparr>"

definition demo_cm :: "loc list \<Rightarrow> cm_state" where
  "demo_cm denied = \<lparr>cm_write_jobs = [], cm_read_jobs = [], cm_fs = (table_fs demo_tree)\<lparr>fs_denied := (\<lambda>l. l \<in> set denied)\<rparr>\<rparr>"

definition demo_entries :: "file_entry list" where
  "demo_entries = [\<lparr>fe_name = ''a'', fe_size = 3, fe_modified_time = 7\<rparr>, \<lparr>fe_name = ''s/b'', fe_size = 0, fe_modified_time = 0\<rparr>]"

definition demo_started :: host_files where
  "demo_started = demo_files\<lparr>hc_read_jobs := [(new_write 5 Generic (FilePath ''/d'') 0 True)\<lparr>tj_files := demo_entries, tj_total_size := sum_sizes demo_entries\<rparr>],
     hc_file_transferred := True\<rparr>"

lemma demo_limit: "check_file_count_limit [] 2 = None"
proof -
  have "trim [] = []" by code_simp
  then show ?thesis by (simp add: check_file_count_limit_def get_max_validated_files_def NO_LIMIT_FILE_COUNT_def parse_unsigned_def parse_digits_def)
qed

lemma demo_start:
  assumes "denied = [] \<or> denied = [[''d'', ''a'']]"
  shows "host_action demo_host (SendAction 5 ''/d'' Generic 0 False) (demo_files, demo_cm denied) = Some ((demo_started, demo_cm denied), [ToClient (HostDir 5 ''/d'' demo_entries)])"
proof -
  have "listing_of demo_host (cm_fs (demo_cm [])) ''/d'' False = Inr demo_entries" by code_simp
  moreover have "listing_of demo_host (cm_fs (demo_cm [[''d'', ''a'']])) ''/d'' False = Inr demo_entries" by code_simp
  ultimately have l: "listing_of demo_host (cm_fs (demo_cm denied)) ''/d'' False = Inr demo_entries" using assms by auto
  have od: "can_enable_overwrite_detection (get_version_number ''1.1.10'')" by (simp add: can_enable_overwrite_detection_def)
  have "check_file_count_limit [] (Suc (Suc 0)) = None" using demo_limit by (simp add: numeral_2_eq_2)
  then show ?thesis using l od unfolding host_action_def on_file_action_def
    by (simp add: demo_files_def demo_started_def one_way_job_def send_action_def create_and_start_read_job_def process_new_read_job_def
        new_read_def demo_entries_def new_write_def)
qed

definition demo_skip :: "int \<Rightarrow> read_event" where
  "demo_skip n = Answer \<lparr>cq_id = 5, cq_file_num = n, cq_union = Some (Skip True)\<rparr>"

lemma demo_run:
  "map_option snd (read_events demo_host [Tick, demo_skip 0, Tick, demo_skip 1, Tick] (demo_started, demo_cm [])) = Some
    [ToClient (HostFile (DigestResponse \<lparr>dg_id = 5, dg_file_num = 0, dg_last_modified = 7, dg_file_size = 3, dg_is_identical = False, dg_transferred_size = 0, dg_is_resume = False\<rparr>)),
     ToClient (HostFile (DigestResponse \<lparr>dg_id = 5, dg_file_num = 1, dg_last_modified = 0, dg_file_size = 0, dg_is_identical = False, dg_transferred_size = 0, dg_is_resume = False\<rparr>)),
     ToClient (HostFile (DoneResponse 5 2))]"
  by code_simp


theorem cm_reads_like_connection_witness:
  "\<exists>t out. request_files demo_host 5 ''/d'' 0 False [Tick, demo_skip 0, Tick, demo_skip 1, Tick] (demo_files\<lparr>hc_cm_sends := True\<rparr>, demo_cm []) = Some (t, out) \<and>
    length out = 4 \<and> cm_read_jobs (snd t) = []"
proof -
  let ?evs = "[Tick, demo_skip 0, Tick, demo_skip 1, Tick]"
  obtain t out where r: "read_events demo_host ?evs (demo_started, demo_cm []) = Some (t, out)" "length out = 3" "list_all (\<lambda>r. \<not> is_error r) out"
    using demo_run by fastforce
  have "map_option (\<lambda>r. hc_read_jobs (fst (fst r))) (read_events demo_host ?evs (demo_started, demo_cm [])) = Some []" by code_simp
  then have "hc_read_jobs (fst t) = []" unfolding r(1) by simp
  have req: "request_files demo_host 5 ''/d'' 0 False ?evs (demo_files, demo_cm []) = Some (t, ToClient (HostDir 5 ''/d'' demo_entries) # out)"
    using demo_start [of "[]"] unfolding request_files_def by (simp only: simp_thms option.case prod.case r(1) option.map append.simps)
  have idle: "idle_host (demo_files, demo_cm [])" "\<not> hc_cm_sends demo_files" by (simp_all add: idle_host_def demo_files_def demo_cm_def)
  have "list_all (\<lambda>r. \<not> is_error r) (ToClient (HostDir 5 ''/d'' demo_entries) # out)" using r(3) by simp
  moreover have "apt_events demo_host ?evs (demo_started, demo_cm [])" by code_simp
  then have "apt_request demo_host 5 ''/d'' 0 False ?evs (demo_files, demo_cm [])"
    using demo_start [of "[]"] unfolding apt_request_def by (simp only: simp_thms option.case prod.case)
  ultimately obtain t' out' where
    c: "request_files demo_host 5 ''/d'' 0 False ?evs (demo_files\<lparr>hc_cm_sends := True\<rparr>, demo_cm []) = Some (t', out')"
       "map on_wire out' = map on_wire (ToClient (HostDir 5 ''/d'' demo_entries) # out)" "cm_read_jobs (snd t') = hc_read_jobs (fst t)"
    using cm_reads_like_connection [OF idle req] by blast
  have "length out' = 4" using c(2) r(2) by (metis length_map length_Cons numeral_3_eq_3 eval_nat_numeral(2) semiring_norm(26,27))
  with \<open>hc_read_jobs (fst t) = []\<close> show ?thesis using c(1,3) by (intro exI [of _ t'] exI [of _ out']) simp
qed

text \<open>One file that cannot be opened ends the transfer: the connection reports the error and, in the same turn, that
  the job is done, although the next file has not been sent; and so does the connection manager, without the
  second message.\<close>

theorem unreadable_file_ends_transfer:
  "map_option snd (read_events demo_host [Tick] (demo_started, demo_cm [[''d'', ''a'']])) = Some
    [ToClient (HostFile (ErrorResponse 5 (Io PermissionDenied) 1)), ToClient (HostFile (DoneResponse 5 1))] \<and>
   map_option (\<lambda>r. hc_read_jobs (fst (fst r))) (read_events demo_host [Tick] (demo_started, demo_cm [[''d'', ''a'']])) = Some [] \<and>
   map fe_name (concat (map tj_files (hc_read_jobs demo_started))) = [''a'', ''s/b'']"
proof -
  have "map_option snd (read_events demo_host [Tick] (demo_started, demo_cm [[''d'', ''a'']])) = Some
    [ToClient (HostFile (ErrorResponse 5 (Io PermissionDenied) 1)), ToClient (HostFile (DoneResponse 5 1))]" by code_simp
  moreover have "map_option (\<lambda>r. hc_read_jobs (fst (fst r))) (read_events demo_host [Tick] (demo_started, demo_cm [[''d'', ''a'']])) = Some []" by code_simp
  moreover have "map fe_name (concat (map tj_files (hc_read_jobs demo_started))) = [''a'', ''s/b'']" by code_simp
  ultimately show ?thesis by blast
qed


section \<open>Removing directories\<close>

text \<open>A file system with links and directories removed, but no file.\<close>

definition thinner :: "fs \<Rightarrow> fs \<Rightarrow> bool" where
  "thinner f' f \<longleftrightarrow> fs_windows f' = fs_windows f \<and> fs_cwd f' = fs_cwd f \<and> fs_data f' = fs_data f \<and>
     (\<forall>l x. node_at f' l = Some x \<longrightarrow> node_at f l = Some x) \<and> (\<forall>l i. node_at f l = Some (File i) \<longrightarrow> node_at f' l = Some (File i))"

lemma thinner_refl [simp]: "thinner f f"
  by (simp add: thinner_def)

lemma thinnerD:
  assumes "thinner f' f"
  shows "fs_windows f' = fs_windows f" "fs_cwd f' = fs_cwd f" "fs_data f' = fs_data f" "node_at f' l = Some x \<Longrightarrow> node_at f l = Some x"
    "node_at f l = Some (File i) \<Longrightarrow> node_at f' l = Some (File i)"
  using assms unfolding thinner_def by blast+

lemma thinner_trans:
  assumes a: "thinner f'' f'" and b: "thinner f' f"
  shows "thinner f'' f"
proof (unfold thinner_def, intro conjI allI impI)
  fix l x assume "node_at f'' l = Some x"
  then show "node_at f l = Some x" by (rule thinnerD(4) [OF b thinnerD(4) [OF a]])
next
  fix l i assume "node_at f l = Some (File i)"
  then show "node_at f'' l = Some (File i)" by (rule thinnerD(5) [OF a thinnerD(5) [OF b]])
qed (simp_all only: thinnerD(1-3) [OF a] thinnerD(1-3) [OF b])

lemma thinner_remove:
  assumes "thinner f' f" "node_at f' l = Some x" "\<forall>i. x \<noteq> File i" "l \<noteq> []"
  shows "thinner (f'\<lparr>fs_names := (fs_names f')(l := None)\<rparr>) f"
proof -
  have n: "node_at (f'\<lparr>fs_names := (fs_names f')(l := None)\<rparr>) k = (if k = l then None else node_at f' k)" for k
    using assms(4) by (simp add: node_at_def)
  have not_file: "node_at f l \<noteq> Some (File i)" for i using thinnerD(4) [OF assms(1,2)] assms(3) by simp
  show ?thesis
  proof (unfold thinner_def n, intro conjI allI impI)
    fix k y assume "(if k = l then None else node_at f' k) = Some y"
    then show "node_at f k = Some y" using thinnerD(4) [OF assms(1)] by (simp split: if_splits)
  next
    fix k i assume "node_at f k = Some (File i)"
    then show "(if k = l then None else node_at f' k) = Some (File i)" using thinnerD(5) [OF assms(1)] not_file by auto
  qed (simp_all add: thinnerD(1-3) [OF assms(1)])
qed

lemma walk_thinner:
  assumes "thinner f' f" "walk n f' at ss = Inr d" "node_at f' d \<noteq> None"
  shows "walk n f at ss = Inr d"
  using assms
proof (induction n f' at ss rule: walk.induct)
  case (2 n f' at s ss)
  have keep: "node_at f' l = Some x \<Longrightarrow> node_at f l = Some x" for l x using 2(4) by (rule thinnerD(4))
  show ?case
  proof (cases "s = ''..''")
    case True
    then show ?thesis using 2 by simp
  next
    case False
    show ?thesis
    proof (cases "node_at f' (at @ [s])")
      case None
      then show ?thesis using 2(5,6) False by (auto split: if_splits)
    next
      case (Some x)
      then show ?thesis using 2 False keep [OF Some] by (cases x) (auto split: nat.splits if_splits)
    qed
  qed
qed simp

lemma locate_thinner:
  assumes "thinner f' f" "locate f' p = Inr l" "node_at f' l \<noteq> None"
  shows "locate f p = Inr l"
proof -
  have w: "fs_windows f' = fs_windows f" "start_at f' p = start_at f p" using thinnerD(1,2) [OF assms(1)] by (auto simp: start_at_def)
  show ?thesis
  proof (cases "segments (fs_windows f) p = [] \<or> last (segments (fs_windows f) p) = ''..''")
    case True
    then show ?thesis using assms walk_thinner [OF assms(1)] w by (simp add: locate_def resolve_def Let_def)
  next
    case False
    then obtain d where d: "walk 40 f' (start_at f p) (butlast (segments (fs_windows f) p)) = Inr d" "node_at f' d = Some Dir" "l = d @ [last (segments (fs_windows f) p)]"
      using assms(2) w by (auto simp: locate_def Let_def split: sum.splits option.splits node.splits)
    have "walk 40 f (start_at f p) (butlast (segments (fs_windows f) p)) = Inr d" using walk_thinner [OF assms(1) d(1)] d(2) by simp
    moreover have "node_at f d = Some Dir" using thinnerD(4) [OF assms(1) d(2)] .
    ultimately show ?thesis using False d(3) by (simp add: locate_def)
  qed
qed

lemma remove_link_thinner:
  assumes "thinner f' f" "symlink_metadata f p = Inr (Link t)"
  shows "thinner (snd (fs_remove_file f' p)) f"
proof (cases "locate f' p")
  case (Inr l)
  show ?thesis
  proof (cases "node_at f' l")
    case (Some x)
    have "node_at f l = Some x" "locate f p = Inr l" using thinnerD(4) [OF assms(1) Some] locate_thinner [OF assms(1) Inr] Some by auto
    then have "x = Link t" using assms(2) by (simp add: symlink_metadata_def look_def)
    moreover have "l \<noteq> []" using Some \<open>x = Link t\<close> by (auto simp: node_at_def)
    ultimately show ?thesis using Inr Some thinner_remove [OF assms(1)] by (simp add: fs_remove_file_def)
  qed (use assms(1) Inr in \<open>simp add: fs_remove_file_def\<close>)
qed (use assms(1) in \<open>simp add: fs_remove_file_def\<close>)

lemma remove_dir_thinner: "thinner f' f \<Longrightarrow> thinner (snd (fs_remove_dir env_of f' p)) f"
  using thinner_remove [of f' f] by (auto simp: fs_remove_dir_def split: sum.splits option.splits node.splits)

lemma link_entries:
  assumes "read_dir env f path h = Inr es" "e \<in> set es" "de_type e = FtDirLink \<or> de_type e = FtFileLink"
  shows "\<exists>t. symlink_metadata f (path_push (fs_windows f) path (fe_name (de_entry e))) = Inr (Link t)"
proof (cases "fs_windows f \<and> path = ''/''")
  case True
  then show ?thesis using assms by (auto simp: read_dir_def drive_entries_def)
next
  case False
  then obtain l name where "entry_of env f path l h name = Some e"
    using assms(1,2) unfolding read_dir_def by (auto simp: map_filter_def split: sum.splits if_splits option.splits node.splits)
  then show ?thesis using assms(3) by (auto simp: entry_of_def Let_def split: if_splits sum.splits node.splits)
qed

lemma remove_all_thinner: "thinner (snd (remove_all_empty_dir n env_of f path)) f"
proof (induction n arbitrary: f path)
  case (Suc n)
  show ?case
  proof (cases "read_dir (env_of f) f path True")
    case (Inr es)
    let ?step = "\<lambda>e f. let p = path_push (fs_windows f) path (fe_name (de_entry e)) in
                 case de_type e of
                   FtDir \<Rightarrow> snd (remove_all_empty_dir n env_of f p)
                 | FtDirLink \<Rightarrow> snd (fs_remove_file f p)
                 | FtFileLink \<Rightarrow> snd (fs_remove_file f p)
                 | _ \<Rightarrow> f"
    have "set xs \<subseteq> set es \<Longrightarrow> thinner f' f \<Longrightarrow> thinner (fold ?step xs f') f" for xs f'
    proof (induction xs arbitrary: f')
      case (Cons e xs)
      have w: "fs_windows f' = fs_windows f" using thinnerD(1) [OF Cons.prems(2)] .
      have "thinner (?step e f') f"
        using Cons.prems Suc.IH [of f'] thinner_trans [OF _ Cons.prems(2)] remove_link_thinner [OF Cons.prems(2)] link_entries [OF Inr, of e] w
        by (cases "de_type e") (auto simp: Let_def)
      then show ?case using Cons by simp
    qed simp
    then have "thinner (fold ?step es f) f" by simp
    then show ?thesis using Inr remove_dir_thinner by (simp add: Let_def)
  qed simp
qed simp

text \<open>Removing a directory deletes no file: whether it is asked for recursively or not, and however the links in it
  lead, every regular file of the host is where it was, with its contents.\<close>

theorem remove_dir_keeps_files:
  "fs_data (snd (remove_dir w path recursive f)) = fs_data f \<and>
   (node_at (snd (remove_dir w path recursive f)) l = Some (File i) \<longleftrightarrow> node_at f l = Some (File i))"
proof -
  have "thinner (snd (remove_dir w path recursive f)) f"
    using remove_all_thinner remove_dir_thinner [OF thinner_refl] by (auto simp: remove_dir_def io_result_def)
  then show ?thesis using thinnerD(3-5) by blast
qed

end
