(* ===== verification/MacScreen.thy ===== *)
theory MacScreen
  imports Prelude
begin

text \<open>
  The native half of privacy mode on macOS (\<^verbatim>\<open>src/platform/macos.mm\<close>, \<open>MacSetPrivacyMode\<close> and what it calls): local input
  is blocked by an event tap, displays are blacked out through their gamma tables, displays that come and go are followed by
  a callback, a monitor blacks out again what the system restored, and a display that cannot be blacked out shuts the mode
  down from the main queue. Every entry point takes the mutex, so it is one step here; that a step waits for the main queue
  while it holds the mutex is left out. What the system answers is an argument: whether an event tap can be created and, for
  each display that is online, its UUID, the capacity of its gamma table, whether the table can be read, with how many
  samples, set to black and set back. Gamma tables are not modelled but which displays are black; \<open>ms_black\<close> is the state of
  the hardware, the other fields are the static variables.
\<close>

section \<open>State\<close>

record gamma_display =
  gd_id :: nat
  gd_uuid :: string
  gd_capacity :: nat
  gd_read :: bool
  gd_samples :: nat
  gd_black :: bool
  gd_restore :: bool

record screen_os =
  so_tap :: bool
  so_displays :: "gamma_display list"

record mac_screen =
  ms_active :: bool
  ms_shutdown_requested :: bool
  ms_last_reconfig :: nat
  ms_monitor :: bool
  ms_gammas :: "(string \<times> nat) list"
  ms_tap :: bool
  ms_callback :: bool
  ms_black :: "nat list"

definition mac_screen_init :: mac_screen where
  "mac_screen_init = \<lparr>ms_active = False, ms_shutdown_requested = False, ms_last_reconfig = 0, ms_monitor = False, ms_gammas = [],
     ms_tap = False, ms_callback = False, ms_black = []\<rparr>"

definition DISPLAY_RECONFIG_MONITOR_DURATION_MS :: nat where "DISPLAY_RECONFIG_MONITOR_DURATION_MS = 5000"

section \<open>Gamma tables\<close>

definition FindDisplayIdByUUID :: "screen_os \<Rightarrow> string \<Rightarrow> gamma_display option" where
  "FindDisplayIdByUUID os uuid = find (\<lambda>d. gd_uuid d = uuid) (so_displays os)"

definition restore_gamma :: "screen_os \<Rightarrow> string \<times> nat \<Rightarrow> bool \<times> nat list \<Rightarrow> bool \<times> nat list" where
  "restore_gamma os = (\<lambda>(uuid, samples) (ok, black).
     case FindDisplayIdByUUID os uuid of
       None \<Rightarrow> (ok, black)
     | Some d \<Rightarrow> if 0 < samples then (if gd_restore d then (ok, removeAll (gd_id d) black) else (False, black)) else (ok, black))"

definition RestoreAllGammas :: "screen_os \<Rightarrow> mac_screen \<Rightarrow> bool \<times> mac_screen" where
  "RestoreAllGammas os s =
     (let (ok, black) = fold (restore_gamma os) (ms_gammas s) (True, ms_black s) in (ok, s\<lparr>ms_black := black\<rparr>))"

text \<open>The system sets the gamma tables of all displays to those of their profiles.\<close>

definition CGDisplayRestoreColorSyncSettings :: "mac_screen \<Rightarrow> mac_screen" where
  "CGDisplayRestoreColorSyncSettings s = s\<lparr>ms_black := []\<rparr>"

definition ApplyBlackoutToDisplay :: "gamma_display \<Rightarrow> mac_screen \<Rightarrow> bool \<times> mac_screen" where
  "ApplyBlackoutToDisplay d s =
     (if 0 < gd_capacity d \<and> gd_black d then (True, s\<lparr>ms_black := List.insert (gd_id d) (ms_black s)\<rparr>) else (False, s))"

definition ApplyBlackoutToAllDisplays :: "screen_os \<Rightarrow> mac_screen \<Rightarrow> mac_screen" where
  "ApplyBlackoutToAllDisplays os s = fold (\<lambda>d s. snd (ApplyBlackoutToDisplay d s)) (so_displays os) s"

definition IsDisplayBlackedOut :: "gamma_display \<Rightarrow> mac_screen \<Rightarrow> bool" where
  "IsDisplayBlackedOut d s \<longleftrightarrow> gd_capacity d = 0 \<or> \<not> gd_read d \<or> gd_id d \<in> set (ms_black s)"

definition save_gamma :: "gamma_display \<Rightarrow> mac_screen \<Rightarrow> mac_screen" where
  "save_gamma d s =
     (if gd_uuid d \<notin> fst ` set (ms_gammas s) \<and> 0 < gd_capacity d \<and> gd_read d
      then s\<lparr>ms_gammas := ms_gammas s @ [(gd_uuid d, gd_samples d)]\<rparr> else s)"

section \<open>Turning it off and on\<close>

definition TurnOffPrivacyModeInternal :: "screen_os \<Rightarrow> mac_screen \<Rightarrow> bool \<times> mac_screen" where
  "TurnOffPrivacyModeInternal os s =
     (if \<not> ms_active s then (True, s)
      else
        (let (restoreSuccess, s) = RestoreAllGammas os (s\<lparr>ms_callback := False, ms_tap := False\<rparr>);
             s = CGDisplayRestoreColorSyncSettings s
         in (restoreSuccess, s\<lparr>ms_gammas := [], ms_active := False, ms_shutdown_requested := False, ms_last_reconfig := 0, ms_monitor := False\<rparr>)))"

text \<open>The displays in turn, with the numbers of attempts and successes; a display without a UUID aborts.\<close>

fun blackout_displays :: "gamma_display list \<Rightarrow> nat \<Rightarrow> nat \<Rightarrow> mac_screen \<Rightarrow> (nat \<times> nat) option \<times> mac_screen" where
  "blackout_displays [] attempts successes s = (Some (attempts, successes), s)"
| "blackout_displays (d # ds) attempts successes s =
     (if gd_uuid d = [] then (None, s)
      else
        (let s = save_gamma d s in
         if gd_uuid d \<in> fst ` set (ms_gammas s) \<and> 0 < gd_capacity d then
           (if gd_black d then blackout_displays ds (attempts + 1) (successes + 1) (s\<lparr>ms_black := List.insert (gd_id d) (ms_black s)\<rparr>)
            else blackout_displays ds (attempts + 1) successes s)
         else blackout_displays ds attempts successes s))"

definition blackout_cleanup :: "screen_os \<Rightarrow> mac_screen \<Rightarrow> mac_screen" where
  "blackout_cleanup os s =
     (let (ok, s) = RestoreAllGammas os (s\<lparr>ms_callback := False, ms_tap := False\<rparr>);
          s = (if ok then s else CGDisplayRestoreColorSyncSettings s)
      in s\<lparr>ms_gammas := []\<rparr>)"

definition MacSetPrivacyMode :: "screen_os \<Rightarrow> bool \<Rightarrow> mac_screen \<Rightarrow> bool \<times> mac_screen" where
  "MacSetPrivacyMode os on s =
     (if \<not> on then TurnOffPrivacyModeInternal os s
      else if ms_active s then (True, s)
      else if \<not> (ms_tap s \<or> so_tap os) then (False, s)
      else
        (let (counts, s) = blackout_displays (so_displays os) 0 0 (s\<lparr>ms_tap := True, ms_callback := True\<rparr>) in
         case counts of
           None \<Rightarrow> (False, blackout_cleanup os s)
         | Some (attempts, successes) \<Rightarrow>
             if 0 < attempts \<and> successes < attempts then (False, blackout_cleanup os s) else (True, s\<lparr>ms_active := True\<rparr>)))"

section \<open>Displays that change while it is on\<close>

definition ScheduleAsyncPrivacyModeShutdown :: "mac_screen \<Rightarrow> mac_screen" where
  "ScheduleAsyncPrivacyModeShutdown s = s\<lparr>ms_shutdown_requested := True\<rparr>"

definition deferred_shutdown :: "screen_os \<Rightarrow> mac_screen \<Rightarrow> mac_screen" where
  "deferred_shutdown os s =
     (let s = (if ms_shutdown_requested s \<and> ms_active s then snd (TurnOffPrivacyModeInternal os s) else s)
      in s\<lparr>ms_shutdown_requested := False\<rparr>)"

definition ScheduleDelayedBlackoutReapplication :: "nat \<Rightarrow> mac_screen \<Rightarrow> mac_screen" where
  "ScheduleDelayedBlackoutReapplication now s = s\<lparr>ms_last_reconfig := now, ms_monitor := True\<rparr>"

text \<open>One run of the monitor's block.\<close>

definition RunBlackoutMonitor :: "screen_os \<Rightarrow> nat \<Rightarrow> mac_screen \<Rightarrow> mac_screen" where
  "RunBlackoutMonitor os now s =
     (if \<not> ms_active s then s\<lparr>ms_monitor := False\<rparr>
      else
        (let s = (if \<exists>d \<in> set (so_displays os). \<not> IsDisplayBlackedOut d s then ApplyBlackoutToAllDisplays os s else s)
         in if now < ms_last_reconfig s + DISPLAY_RECONFIG_MONITOR_DURATION_MS then s else s\<lparr>ms_monitor := False\<rparr>))"

record display_flags =
  df_begin :: bool
  df_add :: bool
  df_remove :: bool
  df_set_mode :: bool

definition display_added :: "nat \<Rightarrow> gamma_display \<Rightarrow> mac_screen \<Rightarrow> mac_screen" where
  "display_added now d s =
     (if gd_uuid d = [] then ScheduleAsyncPrivacyModeShutdown s
      else if gd_uuid d \<notin> fst ` set (ms_gammas s) \<and> \<not> (0 < gd_capacity d \<and> gd_read d) then ScheduleAsyncPrivacyModeShutdown s
      else
        (case ApplyBlackoutToDisplay d (save_gamma d s) of
           (False, s) \<Rightarrow> ScheduleAsyncPrivacyModeShutdown s
         | (True, s) \<Rightarrow> ScheduleDelayedBlackoutReapplication now s))"

definition DisplayReconfigurationCallback :: "nat \<Rightarrow> gamma_display \<Rightarrow> display_flags \<Rightarrow> mac_screen \<Rightarrow> mac_screen" where
  "DisplayReconfigurationCallback now d flags s =
     (if df_begin flags then s
      else if \<not> ms_active s then s
      else if df_add flags then display_added now d s
      else if df_remove flags then ScheduleDelayedBlackoutReapplication now s
      else if df_set_mode flags then ScheduleDelayedBlackoutReapplication now s
      else s)"

text \<open>What happens to the screen by itself: a display changes, the blocks of the main queue run, and the system restores the
  gamma tables of some displays. The callback is called only while it is registered.\<close>

datatype screen_event = DisplayChange nat gamma_display display_flags | DeferredShutdown | MonitorTick nat | GammaRestored "nat list"

fun screen_step :: "screen_os \<Rightarrow> screen_event \<Rightarrow> mac_screen \<Rightarrow> mac_screen" where
  "screen_step os (DisplayChange now d flags) s = (if ms_callback s then DisplayReconfigurationCallback now d flags s else s)"
| "screen_step os DeferredShutdown s = deferred_shutdown os s"
| "screen_step os (MonitorTick now) s = (if ms_monitor s then RunBlackoutMonitor os now s else s)"
| "screen_step os (GammaRestored ids) s = s\<lparr>ms_black := filter (\<lambda>i. i \<notin> set ids) (ms_black s)\<rparr>"

section \<open>What is left behind\<close>

text \<open>While the mode is not active, nothing of it is left: input is not blocked, no display is black, no table is kept.\<close>

definition screen_ok :: "mac_screen \<Rightarrow> bool" where
  "screen_ok s \<longleftrightarrow> (\<not> ms_active s \<longrightarrow> \<not> ms_tap s \<and> \<not> ms_callback s \<and> ms_gammas s = [] \<and> ms_black s = [])"

text \<open>What is asked of the system's answers: no two displays that are online have the same UUID, and a table that can be read
  has samples.\<close>

definition os_ok :: "screen_os \<Rightarrow> bool" where
  "os_ok os \<longleftrightarrow> distinct (map gd_uuid (so_displays os)) \<and> list_all (\<lambda>d. gd_read d \<longrightarrow> 0 < gd_samples d) (so_displays os)"

text \<open>Every display that is online takes its table back.\<close>

definition shows_again :: "screen_os \<Rightarrow> bool" where
  "shows_again os \<longleftrightarrow> list_all gd_restore (so_displays os)"

lemma find_display_in: "FindDisplayIdByUUID os u = Some d \<Longrightarrow> d \<in> set (so_displays os) \<and> gd_uuid d = u"
  by (auto simp: FindDisplayIdByUUID_def find_Some_iff)

lemma find_display:
  assumes "os_ok os" "d \<in> set (so_displays os)"
  shows "FindDisplayIdByUUID os (gd_uuid d) = Some d"
proof (cases "FindDisplayIdByUUID os (gd_uuid d)")
  case None
  then show ?thesis using assms(2) by (auto simp: FindDisplayIdByUUID_def find_None_iff)
next
  case (Some e)
  then have "e \<in> set (so_displays os)" "gd_uuid e = gd_uuid d" using find_display_in by blast+
  then have "e = d" using assms by (auto simp: os_ok_def distinct_map inj_on_def)
  then show ?thesis using Some by simp
qed

lemma restore_fold_ok: "shows_again os \<Longrightarrow> fst (fold (restore_gamma os) gs (ok, black)) = ok"
proof (induction gs arbitrary: ok black)
  case (Cons g gs)
  then show ?case
    using find_display_in[of os "fst g"] by (cases g) (auto simp: restore_gamma_def shows_again_def list_all_iff split: option.split)
qed simp

lemma restore_fold_false: "\<not> fst (fold (restore_gamma os) gs (False, black))"
proof (induction gs arbitrary: black)
  case (Cons g gs)
  then show ?case by (cases g) (simp add: restore_gamma_def split: option.split)
qed simp

lemma restore_fold_subset: "set (snd (fold (restore_gamma os) gs (ok, black))) \<subseteq> set black"
proof (induction gs arbitrary: ok black)
  case (Cons g gs)
  obtain ok' b' where r: "restore_gamma os g (ok, black) = (ok', b')" by fastforce
  then have "set b' \<subseteq> set black" by (cases g) (auto simp: restore_gamma_def split: option.splits if_splits)
  then show ?case using Cons[of ok' b'] r by simp
qed simp

text \<open>A restore that reports success has set back every display whose table was kept.\<close>

lemma restore_fold_black:
  assumes "fst (fold (restore_gamma os) gs (ok, black))" "(u, n) \<in> set gs" "0 < n" "FindDisplayIdByUUID os u = Some d"
  shows "gd_id d \<notin> set (snd (fold (restore_gamma os) gs (ok, black)))"
  using assms(1,2)
proof (induction gs arbitrary: ok black)
  case (Cons g gs)
  obtain ok' b' where r: "restore_gamma os g (ok, black) = (ok', b')" by fastforce
  show ?case
  proof (cases "g = (u, n)")
    case True
    show ?thesis
    proof (cases "gd_restore d")
      case True
      then have "b' = removeAll (gd_id d) black" using r assms(3,4) \<open>g = (u, n)\<close> by (simp add: restore_gamma_def)
      then show ?thesis using restore_fold_subset[of os gs ok' b'] r by auto
    next
      case False
      then have "\<not> ok'" using r assms(3,4) \<open>g = (u, n)\<close> by (simp add: restore_gamma_def)
      then show ?thesis using restore_fold_false[of os gs b'] Cons.prems(1) r by (cases ok') simp_all
    qed
  next
    case False
    then show ?thesis using Cons.IH[of ok' b'] Cons.prems r by simp
  qed
qed simp

text \<open>While displays are blacked out, each black one is online and its table is kept.\<close>

definition kept :: "gamma_display list \<Rightarrow> mac_screen \<Rightarrow> bool" where
  "kept ds s \<longleftrightarrow> (\<forall>i \<in> set (ms_black s). \<exists>d \<in> set ds. gd_id d = i \<and> gd_uuid d \<in> fst ` set (ms_gammas s)) \<and>
     (\<forall>(u, n) \<in> set (ms_gammas s). 0 < n)"

lemma kept_save:
  assumes "kept ds s" "gd_read d \<longrightarrow> 0 < gd_samples d"
  shows "kept ds (save_gamma d s)"
  using assms by (fastforce simp: kept_def save_gamma_def)

lemma kept_black:
  "\<lbrakk>kept ds s; d \<in> set ds; gd_uuid d \<in> fst ` set (ms_gammas s)\<rbrakk> \<Longrightarrow> kept ds (s\<lparr>ms_black := List.insert (gd_id d) (ms_black s)\<rparr>)"
  by (auto simp: kept_def)

lemma blackout_kept:
  assumes "kept all s" "set ds \<subseteq> set all" "list_all (\<lambda>d. gd_read d \<longrightarrow> 0 < gd_samples d) all"
  shows "kept all (snd (blackout_displays ds a k s))"
  using assms(1,2)
proof (induction ds arbitrary: a k s)
  case (Cons d ds)
  have d: "d \<in> set all" "gd_read d \<longrightarrow> 0 < gd_samples d" using Cons.prems(2) assms(3) by (auto simp: list_all_iff)
  note sv = kept_save[OF Cons.prems(1) d(2)]
  show ?case using Cons.IH Cons.prems sv kept_black[OF sv d(1)] by (simp add: Let_def)
qed simp

lemma blackout_cleanup_ok:
  assumes "os_ok os" "kept (so_displays os) s" "\<not> ms_active s"
  shows "screen_ok (blackout_cleanup os s) \<and> \<not> ms_active (blackout_cleanup os s)"
proof -
  obtain ok black where f: "fold (restore_gamma os) (ms_gammas s) (True, ms_black s) = (ok, black)" by fastforce
  have "black = []" if ok
  proof (rule ccontr)
    assume "black \<noteq> []"
    then obtain i where i: "i \<in> set black" by (meson hd_in_set)
    then have "i \<in> set (ms_black s)" using restore_fold_subset[of os "ms_gammas s" True "ms_black s"] f by auto
    then obtain d n where d: "d \<in> set (so_displays os)" "gd_id d = i" "(gd_uuid d, n) \<in> set (ms_gammas s)" "0 < n"
      using assms(2) unfolding kept_def by fastforce
    show False
      using restore_fold_black[of os "ms_gammas s" True "ms_black s", OF _ d(3,4) find_display[OF assms(1) d(1)]] f i that d(2) by simp
  qed
  then show ?thesis
    using f assms(3) by (auto simp: blackout_cleanup_def RestoreAllGammas_def CGDisplayRestoreColorSyncSettings_def screen_ok_def Let_def)
qed

lemma blackout_active: "ms_active (snd (blackout_displays ds a k s)) = ms_active s"
  by (induction ds arbitrary: a k s) (simp_all add: save_gamma_def Let_def)

lemma turn_off_screen:
  shows "\<not> ms_active (snd (TurnOffPrivacyModeInternal os s))"
    "screen_ok s \<Longrightarrow> screen_ok (snd (TurnOffPrivacyModeInternal os s))"
    "shows_again os \<Longrightarrow> fst (TurnOffPrivacyModeInternal os s)"
    "ms_black (snd (TurnOffPrivacyModeInternal os s)) = (if ms_active s then [] else ms_black s)"
  using restore_fold_ok[of os "ms_gammas s" True "ms_black s"]
  by (auto simp: TurnOffPrivacyModeInternal_def RestoreAllGammas_def CGDisplayRestoreColorSyncSettings_def screen_ok_def Let_def split: prod.splits)

lemma set_on_screen:
  assumes "os_ok os" "screen_ok s"
  shows "screen_ok (snd (MacSetPrivacyMode os True s))" "fst (MacSetPrivacyMode os True s) = ms_active (snd (MacSetPrivacyMode os True s))"
proof -
  let ?s = "s\<lparr>ms_tap := True, ms_callback := True\<rparr>"
  obtain counts s' where b: "blackout_displays (so_displays os) 0 0 ?s = (counts, s')" by fastforce
  have k: "kept (so_displays os) s'" "\<not> ms_active s'" if "\<not> ms_active s"
  proof -
    have "kept (so_displays os) ?s" using assms(2) that by (simp add: kept_def screen_ok_def)
    from blackout_kept[OF this order.refl, of 0 0] assms(1) b show "kept (so_displays os) s'" by (simp add: os_ok_def)
    show "\<not> ms_active s'" using blackout_active[of "so_displays os" 0 0 ?s] b that by simp
  qed
  have on: "screen_ok (s'\<lparr>ms_active := True\<rparr>)" by (simp add: screen_ok_def)
  show "screen_ok (snd (MacSetPrivacyMode os True s))" "fst (MacSetPrivacyMode os True s) = ms_active (snd (MacSetPrivacyMode os True s))"
    using blackout_cleanup_ok[OF assms(1) k] on assms(2) b by (auto simp: MacSetPrivacyMode_def split: option.split)
qed

text \<open>Nothing that happens by itself turns the mode on.\<close>

lemma blackout_all_same [simp]:
  "ms_active (ApplyBlackoutToAllDisplays os s) = ms_active s" "ms_last_reconfig (ApplyBlackoutToAllDisplays os s) = ms_last_reconfig s"
proof -
  have "ms_active (fold (\<lambda>d s. snd (ApplyBlackoutToDisplay d s)) ds s) = ms_active s \<and>
      ms_last_reconfig (fold (\<lambda>d s. snd (ApplyBlackoutToDisplay d s)) ds s) = ms_last_reconfig s" for ds
    by (induction ds arbitrary: s) (simp_all add: ApplyBlackoutToDisplay_def)
  then show "ms_active (ApplyBlackoutToAllDisplays os s) = ms_active s" "ms_last_reconfig (ApplyBlackoutToAllDisplays os s) = ms_last_reconfig s"
    by (simp_all add: ApplyBlackoutToAllDisplays_def)
qed

lemma screen_step_active: "ms_active (screen_step os e s) \<Longrightarrow> ms_active s"
  using turn_off_screen(1)[of os s]
  by (cases e) (auto simp: DisplayReconfigurationCallback_def display_added_def ScheduleAsyncPrivacyModeShutdown_def
      ScheduleDelayedBlackoutReapplication_def ApplyBlackoutToDisplay_def save_gamma_def RunBlackoutMonitor_def deferred_shutdown_def Let_def
      split: if_splits)

lemma screen_step_ok:
  assumes "screen_ok s"
  shows "screen_ok (screen_step os e s)"
proof (cases "ms_active s")
  case False
  then have "\<not> ms_active (screen_step os e s)" using screen_step_active by blast
  with False assms show ?thesis
    by (cases e) (auto simp: screen_ok_def DisplayReconfigurationCallback_def RunBlackoutMonitor_def deferred_shutdown_def Let_def)
next
  case True
  show ?thesis
  proof (cases e)
    case DeferredShutdown
    then show ?thesis using turn_off_screen(2)[OF assms, of os] True by (auto simp: deferred_shutdown_def screen_ok_def Let_def)
  qed (use True in \<open>auto simp: screen_ok_def DisplayReconfigurationCallback_def display_added_def ScheduleAsyncPrivacyModeShutdown_def
      ScheduleDelayedBlackoutReapplication_def ApplyBlackoutToDisplay_def save_gamma_def RunBlackoutMonitor_def Let_def\<close>)
qed

end
