(* ===== verification/PrivacyMode.thy ===== *)
theory PrivacyMode
  imports MacScreen
begin

text \<open>
  Privacy mode hides the host's screen from whoever sits at it: \<^verbatim>\<open>src/privacy_mode.rs\<close> with the implementation of
  macOS (\<^verbatim>\<open>src/privacy_mode/macos.rs\<close>), and what connections do with it (\<^verbatim>\<open>src/server/connection.rs\<close>): turning it
  on and off at a peer's request, when its permission is revoked and when the connection ends. What the trait
  \<open>PrivacyMode\<close> asks of an implementation is the locale \<open>privacy_mode_impl\<close>. The native half of the implementation is
  theory \<open>MacScreen\<close>; what the operating system answers during a call is the argument \<open>os\<close>.
\<close>

section \<open>The implementation of macOS\<close>

definition INVALID_PRIVACY_MODE_CONN_ID :: int where "INVALID_PRIVACY_MODE_CONN_ID = 0"
definition OCCUPIED :: string where "OCCUPIED = ''Privacy occupied by another one.''"
definition TURN_OFF_OTHER_ID :: string where "TURN_OFF_OTHER_ID = ''Failed to turn off privacy mode that belongs to someone else.''"

text \<open>The default methods of the trait, given \<open>pre_conn_id\<close>.\<close>

definition check_on_conn_id :: "int \<Rightarrow> int \<Rightarrow> string + bool" where
  "check_on_conn_id pre conn_id =
     (if pre = conn_id then Inr True else if pre \<noteq> INVALID_PRIVACY_MODE_CONN_ID then Inl OCCUPIED else Inr False)"

definition check_off_conn_id :: "int \<Rightarrow> int \<Rightarrow> string option" where
  "check_off_conn_id pre conn_id =
     (if pre \<noteq> INVALID_PRIVACY_MODE_CONN_ID \<and> conn_id \<noteq> INVALID_PRIVACY_MODE_CONN_ID \<and> pre \<noteq> conn_id then Some TURN_OFF_OTHER_ID else None)"

text \<open>An implementation together with the native state, which outlives it.\<close>

record mac_impl =
  mi_key :: string
  mi_conn_id :: int
  mi_screen :: mac_screen

definition MAC_PRIVACY_MODE_IMPL :: string where "MAC_PRIVACY_MODE_IMPL = ''privacy_mode_impl_macos''"

definition mac_clear :: "screen_os \<Rightarrow> mac_impl \<Rightarrow> mac_impl" where
  "mac_clear os m = m\<lparr>mi_screen := snd (MacSetPrivacyMode os False (mi_screen m)), mi_conn_id := 0\<rparr>"

definition mac_turn_on :: "screen_os \<Rightarrow> int \<Rightarrow> mac_impl \<Rightarrow> (string + bool) \<times> mac_impl" where
  "mac_turn_on os conn_id m =
     (case check_on_conn_id (mi_conn_id m) conn_id of
        Inl e \<Rightarrow> (Inl e, m)
      | Inr True \<Rightarrow> (Inr True, m)
      | Inr False \<Rightarrow>
          (let (success, s) = MacSetPrivacyMode os True (mi_screen m); m = m\<lparr>mi_screen := s\<rparr>
           in if \<not> success then (Inl ''Failed to turn on privacy mode'', m) else (Inr True, m\<lparr>mi_conn_id := conn_id\<rparr>)))"

definition mac_turn_off :: "screen_os \<Rightarrow> int \<Rightarrow> mac_impl \<Rightarrow> string option \<times> mac_impl" where
  "mac_turn_off os conn_id m =
     (case check_off_conn_id (mi_conn_id m) conn_id of
        Some e \<Rightarrow> (Some e, m)
      | None \<Rightarrow>
          (let (success, s) = MacSetPrivacyMode os False (mi_screen m); m = m\<lparr>mi_screen := s\<rparr>
           in if \<not> success then (Some ''Failed to turn off privacy mode'', m) else (None, m\<lparr>mi_conn_id := 0\<rparr>)))"

section \<open>The mode of the host\<close>

text \<open>The keys of the implementations: those that are supported, those that can be created, the default, and the one the
  options name.\<close>

record privacy_env =
  pe_supported :: "string list"
  pe_creators :: "string list"
  pe_default :: string
  pe_option :: string

definition mac_env :: "string \<Rightarrow> privacy_env" where
  "mac_env opt = \<lparr>pe_supported = [MAC_PRIVACY_MODE_IMPL], pe_creators = [MAC_PRIVACY_MODE_IMPL], pe_default = MAC_PRIVACY_MODE_IMPL, pe_option = opt\<rparr>"

type_synonym privacy = "mac_impl option"

definition new_impl :: "mac_screen \<Rightarrow> string \<Rightarrow> mac_impl" where
  "new_impl screen key = \<lparr>mi_key = key, mi_conn_id = 0, mi_screen = screen\<rparr>"

definition get_supported_impl :: "privacy_env \<Rightarrow> string \<Rightarrow> string" where
  "get_supported_impl env key =
     (if key \<in> set (pe_supported env) then key
      else if pe_option env \<in> set (pe_supported env) then pe_option env
      else pe_default env)"

text \<open>\<open>PRIVACY_MODE\<close> as it is created on its first use.\<close>

definition privacy_init :: "privacy_env \<Rightarrow> privacy" where
  "privacy_init env =
     (let cur = (if pe_option env \<in> set (pe_supported env) then pe_option env else pe_default env)
      in if cur \<in> set (pe_creators env) then Some (new_impl mac_screen_init cur) else None)"

definition cur_impl_key :: "privacy \<Rightarrow> string" where
  "cur_impl_key p = (case p of Some m \<Rightarrow> mi_key m | None \<Rightarrow> [])"

text \<open>Replacing the implementation clears the old one, and dropping it clears it again.\<close>

definition replace_impl :: "screen_os \<Rightarrow> string \<Rightarrow> privacy \<Rightarrow> privacy" where
  "replace_impl os key p =
     Some (new_impl (case p of Some m \<Rightarrow> mi_screen (mac_clear os (mac_clear os m)) | None \<Rightarrow> mac_screen_init) key)"

definition impl_turn_on :: "screen_os \<Rightarrow> int \<Rightarrow> privacy \<Rightarrow> (string + bool) option \<times> privacy" where
  "impl_turn_on os conn_id p =
     (case p of None \<Rightarrow> (None, p) | Some m \<Rightarrow> (let (r, m) = mac_turn_on os conn_id m in (Some r, Some m)))"

definition turn_on_privacy_sync :: "privacy_env \<Rightarrow> screen_os \<Rightarrow> string \<Rightarrow> int \<Rightarrow> privacy \<Rightarrow> (string + bool) option \<times> privacy" where
  "turn_on_privacy_sync env os impl_key conn_id p =
     (let key = get_supported_impl env impl_key;
          switch_then_on =
            (if cur_impl_key p \<noteq> key then
               (if key \<in> set (pe_creators env) then impl_turn_on os conn_id (replace_impl os key p) else (Some (Inl (''Unsupported privacy mode: '' @ key)), p))
             else impl_turn_on os conn_id p)
      in case p of
           None \<Rightarrow> switch_then_on
         | Some m \<Rightarrow>
             (case check_on_conn_id (mi_conn_id m) conn_id of
                Inl e \<Rightarrow> (Some (Inl e), p)
              | Inr True \<Rightarrow> if cur_impl_key p = key then (Some (Inr True), p) else switch_then_on
              | Inr False \<Rightarrow> switch_then_on))"

definition turn_off_privacy :: "screen_os \<Rightarrow> int \<Rightarrow> privacy \<Rightarrow> (string option) option \<times> privacy" where
  "turn_off_privacy os conn_id p =
     (case p of None \<Rightarrow> (None, p) | Some m \<Rightarrow> (let (r, m) = mac_turn_off os conn_id m in (Some r, Some m)))"

definition get_privacy_mode_conn_id :: "privacy \<Rightarrow> int option" where
  "get_privacy_mode_conn_id p = map_option mi_conn_id p"

definition is_in_privacy_mode :: "privacy \<Rightarrow> bool" where
  "is_in_privacy_mode p \<longleftrightarrow> (case p of Some m \<Rightarrow> mi_conn_id m \<noteq> INVALID_PRIVACY_MODE_CONN_ID | None \<Rightarrow> False)"

definition is_privacy_mode_supported :: "privacy_env \<Rightarrow> bool" where
  "is_privacy_mode_supported env \<longleftrightarrow> pe_default env \<noteq> []"

section \<open>Connections\<close>

datatype privacy_state = PrvOnFailedDenied | PrvNotSupported | PrvOnSucceeded | PrvOnFailed | PrvOnFailedPlugin
  | PrvOffSucceeded | PrvOffFailed | PrvOffByPeer

text \<open>A notification: the state, its details and the implementation's key.\<close>

type_synonym notification = "privacy_state \<times> string \<times> string"

record privacy_conn =
  pc_remote :: bool
  pc_privacy_mode :: bool

definition UNSUPPORTED_DETAILS :: string where
  "UNSUPPORTED_DETAILS = ''Unsupported. 1 Multi-screen is not supported. 2 Please confirm the license is activated.''"

definition turn_off_privacy_result_to_msg :: "(string option) option \<Rightarrow> string \<Rightarrow> notification" where
  "turn_off_privacy_result_to_msg r impl_key =
     (case r of
        Some None \<Rightarrow> (PrvOffSucceeded, [], impl_key)
      | Some (Some e) \<Rightarrow> (PrvOffFailed, e, impl_key)
      | None \<Rightarrow> (PrvOffFailed, ''Not supported'', impl_key))"

definition conn_turn_on :: "privacy_env \<Rightarrow> screen_os \<Rightarrow> int \<Rightarrow> privacy_conn \<Rightarrow> string \<Rightarrow> privacy \<Rightarrow> notification \<times> privacy" where
  "conn_turn_on env os i c impl_key p =
     (if \<not> pc_remote c \<or> \<not> pc_privacy_mode c then ((PrvOnFailedDenied, [], impl_key), p)
      else if \<not> is_privacy_mode_supported env then ((PrvNotSupported, UNSUPPORTED_DETAILS, impl_key), p)
      else case turn_on_privacy_sync env os impl_key i p of
          (Some (Inr True), p) \<Rightarrow> ((PrvOnSucceeded, [], impl_key), p)
        | (Some (Inr False), p) \<Rightarrow> ((PrvOnFailedPlugin, [], impl_key), p)
        | (Some (Inl e), p) \<Rightarrow>
            ((PrvOnFailed, e, impl_key),
             if is_in_privacy_mode p then snd (turn_off_privacy os INVALID_PRIVACY_MODE_CONN_ID p) else p)
        | (None, p) \<Rightarrow> ((PrvOffFailed, ''Not supported'', impl_key), p))"

definition conn_turn_off :: "privacy_env \<Rightarrow> screen_os \<Rightarrow> int \<Rightarrow> string \<Rightarrow> privacy \<Rightarrow> notification \<times> privacy" where
  "conn_turn_off env os i impl_key p =
     (if \<not> is_privacy_mode_supported env then ((PrvNotSupported, UNSUPPORTED_DETAILS, impl_key), p)
      else (let (r, p) = turn_off_privacy os i p in (turn_off_privacy_result_to_msg r impl_key, p)))"

definition toggle_privacy_mode :: "privacy_env \<Rightarrow> screen_os \<Rightarrow> int \<Rightarrow> privacy_conn \<Rightarrow> bool \<Rightarrow> string \<Rightarrow> privacy \<Rightarrow> notification \<times> privacy" where
  "toggle_privacy_mode env os i c on impl_key p = (if on then conn_turn_on env os i c impl_key p else conn_turn_off env os i impl_key p)"

text \<open>The connection manager switches the permission: it is revoked only once privacy mode is off.\<close>

definition switch_privacy_permission :: "screen_os \<Rightarrow> int \<Rightarrow> bool \<Rightarrow> privacy_conn \<times> privacy \<Rightarrow> notification list \<times> privacy_conn \<times> privacy" where
  "switch_privacy_permission os i enabled = (\<lambda>(c, p).
     if \<not> enabled \<and> is_in_privacy_mode p \<and> get_privacy_mode_conn_id p = Some i then
       (case turn_off_privacy os i p of
          (Some None, p') \<Rightarrow> ([(PrvOffByPeer, [], cur_impl_key p)], c\<lparr>pc_privacy_mode := enabled\<rparr>, p')
        | (r, p') \<Rightarrow> ([turn_off_privacy_result_to_msg r (cur_impl_key p)], c, p'))
     else ([], c\<lparr>pc_privacy_mode := enabled\<rparr>, p))"

text \<open>The end of a connection.\<close>

definition close_privacy :: "screen_os \<Rightarrow> int \<Rightarrow> privacy \<Rightarrow> privacy" where
  "close_privacy os i p = (if get_privacy_mode_conn_id p = Some i then snd (turn_off_privacy os i p) else p)"

text \<open>No further connection for the desktop is let in while privacy mode is on.\<close>

definition check_privacy_mode_on :: "privacy \<Rightarrow> bool" where
  "check_privacy_mode_on p \<longleftrightarrow> \<not> is_in_privacy_mode p"

section \<open>What an implementation promises\<close>

text \<open>The contract of the trait \<open>PrivacyMode\<close> as its callers rely on it: who owns the mode, that the screen is hidden only
  for an owner, and that a failed request leaves the owner.\<close>

locale privacy_mode_impl =
  fixes turn_on :: "'o \<Rightarrow> int \<Rightarrow> 's \<Rightarrow> (string + bool) \<times> 's"
    and turn_off :: "'o \<Rightarrow> int \<Rightarrow> 's \<Rightarrow> string option \<times> 's"
    and pre_conn_id :: "'s \<Rightarrow> int"
    and hides :: "'s \<Rightarrow> bool"
    and impl_ok :: "'s \<Rightarrow> bool"
    and answers_ok :: "'o \<Rightarrow> bool"
  assumes on_taken: "\<lbrakk>pre_conn_id s \<noteq> 0; pre_conn_id s \<noteq> i\<rbrakk> \<Longrightarrow> turn_on os i s = (Inl OCCUPIED, s)"
    and on_failed: "turn_on os i s = (Inl e, s') \<Longrightarrow> pre_conn_id s' = pre_conn_id s"
    and on_failed_hides: "\<lbrakk>answers_ok os; impl_ok s; turn_on os i s = (Inl e, s'); hides s'\<rbrakk> \<Longrightarrow> hides s"
    and on_done: "turn_on os i s = (Inr True, s') \<Longrightarrow> pre_conn_id s' = i"
    and on_never_false: "turn_on os i s \<noteq> (Inr False, s')"
    and off_taken: "\<lbrakk>pre_conn_id s \<noteq> 0; i \<noteq> 0; pre_conn_id s \<noteq> i\<rbrakk> \<Longrightarrow> turn_off os i s = (Some TURN_OFF_OTHER_ID, s)"
    and off_failed: "turn_off os i s = (Some e, s') \<Longrightarrow> pre_conn_id s' = pre_conn_id s"
    and off_done: "turn_off os i s = (None, s') \<Longrightarrow> pre_conn_id s' = 0"
    and off_hides: "\<lbrakk>turn_off os i s = (r, s'); pre_conn_id s = 0 \<or> i = 0 \<or> pre_conn_id s = i\<rbrakk> \<Longrightarrow> \<not> hides s'"
    and on_keeps: "\<lbrakk>answers_ok os; impl_ok s\<rbrakk> \<Longrightarrow> impl_ok (snd (turn_on os i s))"
    and off_keeps: "impl_ok s \<Longrightarrow> impl_ok (snd (turn_off os i s))"
begin

text \<open>A request to turn the mode on either makes the caller the owner or leaves the owner as it was.\<close>

lemma on_cases:
  obtains (granted) s' where "turn_on os i s = (Inr True, s')" "pre_conn_id s' = i" "pre_conn_id s = 0 \<or> pre_conn_id s = i"
  | (refused) e s' where "turn_on os i s = (Inl e, s')" "pre_conn_id s' = pre_conn_id s"
proof (cases "turn_on os i s")
  case (Pair r s')
  show thesis
  proof (cases r)
    case (Inl e)
    then show thesis using refused on_failed Pair by blast
  next
    case (Inr b)
    with Pair on_never_false have "turn_on os i s = (Inr True, s')" by (cases b) auto
    moreover from this have "pre_conn_id s = 0 \<or> pre_conn_id s = i" using on_taken[of s i os] by auto
    ultimately show thesis using granted on_done by blast
  qed
qed

text \<open>Nobody but the owner, or a caller that names no connection, turns it off.\<close>

lemma off_cases:
  obtains (released) s' where "turn_off os i s = (None, s')" "pre_conn_id s' = 0" "\<not> hides s'"
  | (failed) e s' where "turn_off os i s = (Some e, s')" "pre_conn_id s' = pre_conn_id s" "\<not> hides s'"
  | (refused) e where "turn_off os i s = (Some e, s)"
proof (cases "pre_conn_id s \<noteq> 0 \<and> i \<noteq> 0 \<and> pre_conn_id s \<noteq> i")
  case True
  then show thesis using off_taken refused by blast
next
  case False
  obtain r s' where p: "turn_off os i s = (r, s')" by fastforce
  with False have "\<not> hides s'" using off_hides by blast
  then show thesis using p released failed off_done off_failed by (cases r) blast+
qed

text \<open>The screen is hidden for the owner: the mode's owner may be any connection \<open>P\<close> holds of, and only then it hides.\<close>

lemma on_owned:
  assumes "answers_ok os" "impl_ok s" "hides s \<longrightarrow> pre_conn_id s \<noteq> 0 \<and> P (pre_conn_id s)" "P i" "i \<noteq> 0"
  shows "hides (snd (turn_on os i s)) \<longrightarrow> pre_conn_id (snd (turn_on os i s)) \<noteq> 0 \<and> P (pre_conn_id (snd (turn_on os i s)))"
  by (rule on_cases[of os i s]) (use assms on_failed_hides[OF assms(1,2), of i] in auto)

lemma off_owned:
  assumes "hides s \<longrightarrow> pre_conn_id s \<noteq> 0 \<and> P (pre_conn_id s)"
  shows "hides (snd (turn_off os i s)) \<longrightarrow> pre_conn_id (snd (turn_off os i s)) \<noteq> 0 \<and> P (pre_conn_id (snd (turn_off os i s)))"
  by (rule off_cases[of os i s]) (use assms in auto)

lemma owner_after_on: "pre_conn_id (snd (turn_on os i s)) \<in> {pre_conn_id s, i}"
  by (rule on_cases[of os i s]) auto

lemma owner_after_off: "pre_conn_id (snd (turn_off os i s)) \<in> {pre_conn_id s, 0}"
  by (rule off_cases[of os i s]) auto

end

definition mac_hides :: "mac_impl \<Rightarrow> bool" where
  "mac_hides m \<longleftrightarrow> ms_active (mi_screen m)"

definition mac_ok :: "mac_impl \<Rightarrow> bool" where
  "mac_ok m \<longleftrightarrow> screen_ok (mi_screen m)"

lemmas mac_defs = mac_turn_on_def mac_turn_off_def mac_clear_def check_on_conn_id_def
  check_off_conn_id_def INVALID_PRIVACY_MODE_CONN_ID_def mac_ok_def mac_hides_def Let_def

lemma set_off: "MacSetPrivacyMode os False s = TurnOffPrivacyModeInternal os s"
  by (simp add: MacSetPrivacyMode_def)

lemma mac_turn_on_hides:
  assumes "os_ok os" "mac_ok m"
  shows "mac_ok (snd (mac_turn_on os i m))" "\<lbrakk>mac_turn_on os i m = (Inl e, m'); mac_hides m'\<rbrakk> \<Longrightarrow> mac_hides m"
  using set_on_screen[OF assms(1), of "mi_screen m"] assms(2)
  by (auto simp: mac_defs split: if_splits prod.splits)

lemma mac_turn_off_hides:
  shows "mac_ok m \<Longrightarrow> mac_ok (snd (mac_turn_off os i m))"
    "\<lbrakk>mac_turn_off os i m = (r, m'); mi_conn_id m = 0 \<or> i = 0 \<or> mi_conn_id m = i\<rbrakk> \<Longrightarrow> \<not> mac_hides m'"
  using turn_off_screen(1,2)[where os = os and s = "mi_screen m"]
  by (auto simp: mac_defs set_off split: if_splits prod.splits)

interpretation mac: privacy_mode_impl mac_turn_on mac_turn_off mi_conn_id mac_hides mac_ok os_ok
proof
  show "\<lbrakk>os_ok os; mac_ok m; mac_turn_on os i m = (Inl e, m'); mac_hides m'\<rbrakk> \<Longrightarrow> mac_hides m" for os i m e m'
    using mac_turn_on_hides(2) by blast
  show "\<lbrakk>os_ok os; mac_ok m\<rbrakk> \<Longrightarrow> mac_ok (snd (mac_turn_on os i m))" for os m i using mac_turn_on_hides(1) .
  show "mac_ok m \<Longrightarrow> mac_ok (snd (mac_turn_off os i m))" for os m i using mac_turn_off_hides(1) .
  show "\<lbrakk>mac_turn_off os i m = (r, m'); mi_conn_id m = 0 \<or> i = 0 \<or> mi_conn_id m = i\<rbrakk> \<Longrightarrow> \<not> mac_hides m'" for os i m r m'
    using mac_turn_off_hides(2) .
qed (auto simp: mac_defs split: if_splits prod.splits)

section \<open>All connections of a host\<close>

text \<open>The mode is shared by every connection. An event carries what the operating system answers while it is handled; the
  screen has events of its own.\<close>

record privacy_host =
  ph_mode :: privacy
  ph_conns :: "int \<rightharpoonup> privacy_conn"

datatype privacy_event =
    PvAuthorized int privacy_conn
  | PvToggle int bool string
  | PvPermission int bool
  | PvClosed int
  | PvScreen screen_event

definition privacy_start :: "privacy_env \<Rightarrow> privacy_host" where
  "privacy_start env = \<lparr>ph_mode = privacy_init env, ph_conns = Map.empty\<rparr>"

text \<open>Connections have positive identifiers, never used twice at a time.\<close>

fun privacy_step :: "privacy_env \<Rightarrow> screen_os \<Rightarrow> privacy_event \<Rightarrow> privacy_host \<Rightarrow> notification list \<times> privacy_host" where
  "privacy_step env os (PvAuthorized i c) h =
     (if i \<le> 0 \<or> ph_conns h i \<noteq> None then ([], h) else ([], h\<lparr>ph_conns := (ph_conns h)(i \<mapsto> c)\<rparr>))"
| "privacy_step env os (PvToggle i on key) h =
     (case ph_conns h i of
        None \<Rightarrow> ([], h)
      | Some c \<Rightarrow> (let (n, p) = toggle_privacy_mode env os i c on key (ph_mode h) in ([n], h\<lparr>ph_mode := p\<rparr>)))"
| "privacy_step env os (PvPermission i enabled) h =
     (case ph_conns h i of
        None \<Rightarrow> ([], h)
      | Some c \<Rightarrow> (let (ns, c, p) = switch_privacy_permission os i enabled (c, ph_mode h)
                   in (ns, h\<lparr>ph_mode := p, ph_conns := (ph_conns h)(i \<mapsto> c)\<rparr>)))"
| "privacy_step env os (PvClosed i) h =
     (case ph_conns h i of
        None \<Rightarrow> ([], h)
      | Some c \<Rightarrow> ([], h\<lparr>ph_mode := close_privacy os i (ph_mode h), ph_conns := (ph_conns h)(i := None)\<rparr>))"
| "privacy_step env os (PvScreen e) h =
     ([], h\<lparr>ph_mode := map_option (\<lambda>m. m\<lparr>mi_screen := screen_step os e (mi_screen m)\<rparr>) (ph_mode h)\<rparr>)"

fun privacy_run :: "privacy_env \<Rightarrow> (screen_os \<times> privacy_event) list \<Rightarrow> privacy_host \<Rightarrow> privacy_host" where
  "privacy_run env [] h = h"
| "privacy_run env ((os, e) # es) h = privacy_run env es (snd (privacy_step env os e h))"

text \<open>The mode seen from outside. The screen is hidden only for an owner that is a connection for the desktop, still there and
  still with the permission; with \<open>strict\<close> the owner is such a connection whether the screen is hidden or not.\<close>

definition may_own :: "(int \<rightharpoonup> privacy_conn) \<Rightarrow> int \<Rightarrow> bool" where
  "may_own cs i \<longleftrightarrow> (case cs i of None \<Rightarrow> False | Some c \<Rightarrow> pc_remote c \<and> pc_privacy_mode c)"

definition impl_owned :: "bool \<Rightarrow> (int \<rightharpoonup> privacy_conn) \<Rightarrow> mac_impl \<Rightarrow> bool" where
  "impl_owned strict cs m \<longleftrightarrow> mac_ok m \<and> (mac_hides m \<longrightarrow> mi_conn_id m \<noteq> 0 \<and> may_own cs (mi_conn_id m)) \<and>
     (strict \<and> mi_conn_id m \<noteq> 0 \<longrightarrow> may_own cs (mi_conn_id m))"

definition owned_by :: "bool \<Rightarrow> (int \<rightharpoonup> privacy_conn) \<Rightarrow> privacy \<Rightarrow> bool" where
  "owned_by strict cs p \<longleftrightarrow> (case p of None \<Rightarrow> True | Some m \<Rightarrow> impl_owned strict cs m)"

definition host_owned :: "bool \<Rightarrow> privacy_host \<Rightarrow> bool" where
  "host_owned strict h \<longleftrightarrow> owned_by strict (ph_conns h) (ph_mode h) \<and> ph_conns h 0 = None"

text \<open>The answers that each of the two needs.\<close>

definition answers_for :: "bool \<Rightarrow> screen_os \<Rightarrow> bool" where
  "answers_for strict os \<longleftrightarrow> os_ok os \<and> (strict \<longrightarrow> shows_again os)"

lemma impl_owned_off: "impl_owned strict cs m \<Longrightarrow> impl_owned strict cs (snd (mac_turn_off os i m))"
  using mac.owner_after_off[of os i m] mac.off_keeps[of m os i] mac.off_owned[of m "may_own cs" os i]
  by (auto simp: impl_owned_def)

lemma impl_owned_on:
  assumes "os_ok os" "impl_owned strict cs m" "may_own cs i" "i \<noteq> 0"
  shows "impl_owned strict cs (snd (mac_turn_on os i m))"
  using mac.owner_after_on[of os i m] mac.on_keeps[OF assms(1), of m i] mac.on_owned[OF assms(1), of m "may_own cs" i] assms(2-4)
  by (auto simp: impl_owned_def)

lemma owned_by_turn_off: "owned_by strict cs p \<Longrightarrow> owned_by strict cs (snd (turn_off_privacy os i p))"
  using impl_owned_off by (auto simp: owned_by_def turn_off_privacy_def split_def Let_def split: option.splits)

lemma clear_screen: "screen_ok (mi_screen m) \<Longrightarrow> screen_ok (mi_screen (mac_clear os m)) \<and> \<not> ms_active (mi_screen (mac_clear os m))"
  using turn_off_screen(1,2)[where os = os and s = "mi_screen m"] by (simp add: mac_clear_def set_off)

lemma owned_by_replace: "owned_by strict cs p \<Longrightarrow> owned_by strict cs (replace_impl os key p)"
  using clear_screen
  by (auto simp: owned_by_def impl_owned_def mac_ok_def mac_hides_def replace_impl_def new_impl_def mac_screen_init_def screen_ok_def
      split: option.splits)

lemma owned_by_turn_on:
  assumes "os_ok os" "owned_by strict cs p" "may_own cs i" "i \<noteq> 0"
  shows "owned_by strict cs (snd (turn_on_privacy_sync env os key i p))"
proof -
  have on: "owned_by strict cs (snd (impl_turn_on os i q))" if "owned_by strict cs q" for q
    using that impl_owned_on[OF assms(1) _ assms(3,4)] by (cases q) (simp_all add: owned_by_def impl_turn_on_def split_def Let_def)
  note rep = owned_by_replace[OF assms(2)]
  show ?thesis
    using assms(2) on[OF assms(2)] on[OF rep]
    by (auto simp: turn_on_privacy_sync_def Let_def split: option.split sum.split bool.split)
qed

lemma owned_by_conn_turn_on:
  assumes "os_ok os" "owned_by strict cs p" "cs i = Some c" "i \<noteq> 0"
  shows "owned_by strict cs (snd (conn_turn_on env os i c key p))"
proof (cases "pc_remote c \<and> pc_privacy_mode c")
  case True
  with assms(3) have "may_own cs i" by (simp add: may_own_def)
  note * = owned_by_turn_on[OF assms(1,2) this assms(4), of env key]
  obtain r q where rq: "turn_on_privacy_sync env os key i p = (r, q)" by fastforce
  have "owned_by strict cs q" using * rq by simp
  then show ?thesis
    using True rq assms(2) owned_by_turn_off[of strict cs q os INVALID_PRIVACY_MODE_CONN_ID]
    by (simp add: conn_turn_on_def split: option.split sum.split bool.split)
next
  case False
  with assms(2) show ?thesis by (auto simp: conn_turn_on_def)
qed

lemma owned_by_conn_turn_off: "owned_by strict cs p \<Longrightarrow> owned_by strict cs (snd (conn_turn_off env os i key p))"
  using owned_by_turn_off[of strict cs p os i] by (auto simp: conn_turn_off_def split: prod.splits)

text \<open>Once the owner's mode is turned off, the table of connections may change in any way at its entry, if the mode has no owner
  then or its owner is not asked for.\<close>

lemma turn_off_released:
  assumes "owned_by strict cs p" "get_privacy_mode_conn_id p = Some i" "turn_off_privacy os i p = (r, p')"
  shows "r = Some None \<or> \<not> strict \<Longrightarrow> owned_by strict cs' p'" "shows_again os \<Longrightarrow> r = Some None"
proof -
  obtain m where m: "p = Some m" "mi_conn_id m = i" using assms(2) by (auto simp: get_privacy_mode_conn_id_def)
  obtain e m' where off: "mac_turn_off os i m = (e, m')" by fastforce
  have p': "p' = Some m'" "r = Some e" using assms(3) m off by (simp_all add: turn_off_privacy_def)
  have k: "mac_ok m'" using mac.off_keeps[of m os i] assms(1) m off by (simp add: owned_by_def impl_owned_def)
  have h: "\<not> mac_hides m'" using mac.off_hides[OF off] m by blast
  have o: "e = None \<Longrightarrow> mi_conn_id m' = 0" using mac.off_done off by blast
  show "r = Some None \<or> \<not> strict \<Longrightarrow> owned_by strict cs' p'" using p' k h o by (auto simp: owned_by_def impl_owned_def)
  show "shows_again os \<Longrightarrow> r = Some None"
    using p' off m turn_off_screen(3)[where os = os and s = "mi_screen m"] by (auto simp: mac_defs set_off split: prod.splits if_splits)
qed

lemma owned_by_cong: "\<lbrakk>owned_by strict cs p; \<And>m. p = Some m \<Longrightarrow> may_own cs (mi_conn_id m) \<Longrightarrow> may_own cs' (mi_conn_id m)\<rbrakk> \<Longrightarrow> owned_by strict cs' p"
  by (cases p) (auto simp: owned_by_def impl_owned_def)

lemma switch_permission_owned:
  assumes "answers_for strict os" "owned_by strict cs p" "cs i = Some c" "i \<noteq> 0"
    and "switch_privacy_permission os i enabled (c, p) = (ns, c', p')"
  shows "owned_by strict (cs(i \<mapsto> c')) p'"
proof (cases "\<not> enabled \<and> is_in_privacy_mode p \<and> get_privacy_mode_conn_id p = Some i")
  case True
  obtain r q where t: "turn_off_privacy os i p = (r, q)" by fastforce
  note rel = turn_off_released[OF assms(2) conjunct2[OF conjunct2[OF True]] t]
  have "owned_by strict (cs(i \<mapsto> c')) q"
    using rel assms(1) by (auto simp: answers_for_def)
  then show ?thesis using assms(5) True t by (auto simp: switch_privacy_permission_def split: option.splits)
next
  case False
  then have e: "c' = c\<lparr>pc_privacy_mode := enabled\<rparr>" "p' = p" using assms(5) by (auto simp: switch_privacy_permission_def)
  have "may_own (cs(i \<mapsto> c')) (mi_conn_id m)" if "p = Some m" "may_own cs (mi_conn_id m)" for m
  proof (cases "mi_conn_id m = i")
    case True
    then have enabled using False that assms(4) by (auto simp: is_in_privacy_mode_def get_privacy_mode_conn_id_def INVALID_PRIVACY_MODE_CONN_ID_def)
    then show ?thesis using that(2) True assms(3) e by (simp add: may_own_def)
  qed (use that(2) in \<open>simp add: may_own_def\<close>)
  then show ?thesis using owned_by_cong[OF assms(2)] e(2) by blast
qed

lemma close_owned:
  assumes "answers_for strict os" "owned_by strict cs p"
  shows "owned_by strict (cs(i := None)) (close_privacy os i p)"
proof (cases "get_privacy_mode_conn_id p = Some i")
  case True
  obtain r q where t: "turn_off_privacy os i p = (r, q)" by fastforce
  from turn_off_released[OF assms(2) True t] True t assms(1) show ?thesis by (auto simp: close_privacy_def answers_for_def)
next
  case False
  have "may_own (cs(i := None)) (mi_conn_id m)" if "p = Some m" "may_own cs (mi_conn_id m)" for m
    using False that by (auto simp: may_own_def get_privacy_mode_conn_id_def)
  then have "owned_by strict (cs(i := None)) p" using owned_by_cong[OF assms(2)] by blast
  then show ?thesis using False by (simp add: close_privacy_def)
qed

lemma screen_event_owned:
  "owned_by strict cs p \<Longrightarrow> owned_by strict cs (map_option (\<lambda>m. m\<lparr>mi_screen := screen_step os e (mi_screen m)\<rparr>) p)"
  using screen_step_active screen_step_ok by (cases p) (auto simp: owned_by_def impl_owned_def mac_ok_def mac_hides_def)

lemma privacy_step_owned:
  assumes "answers_for strict os" "host_owned strict h"
  shows "host_owned strict (snd (privacy_step env os e h))"
proof (cases e)
  case (PvAuthorized i c)
  have "owned_by strict ((ph_conns h)(i \<mapsto> c)) (ph_mode h)" if "ph_conns h i = None"
    by (rule owned_by_cong[of strict "ph_conns h"]) (use assms(2) that in \<open>auto simp: host_owned_def may_own_def\<close>)
  with PvAuthorized assms(2) show ?thesis by (auto simp: host_owned_def)
next
  case (PvToggle i on key)
  show ?thesis
  proof (cases "ph_conns h i")
    case (Some c)
    then have "i \<noteq> 0" using assms(2) by (auto simp: host_owned_def)
    with assms Some have "owned_by strict (ph_conns h) (snd (toggle_privacy_mode env os i c on key (ph_mode h)))"
      by (simp add: toggle_privacy_mode_def host_owned_def answers_for_def owned_by_conn_turn_on owned_by_conn_turn_off)
    with PvToggle Some assms(2) show ?thesis by (auto simp: host_owned_def split: prod.splits)
  qed (use PvToggle assms(2) in simp)
next
  case (PvPermission i enabled)
  show ?thesis
  proof (cases "ph_conns h i")
    case (Some c)
    then have "i \<noteq> 0" using assms(2) by (auto simp: host_owned_def)
    with PvPermission Some assms switch_permission_owned[of strict os "ph_conns h" "ph_mode h" i c] show ?thesis
      by (auto simp: host_owned_def split: prod.splits)
  qed (use PvPermission assms(2) in simp)
next
  case (PvClosed i)
  with close_owned[OF assms(1), of "ph_conns h" "ph_mode h" i] assms(2) show ?thesis by (auto simp: host_owned_def split: option.splits)
next
  case (PvScreen ev)
  with screen_event_owned assms(2) show ?thesis by (simp add: host_owned_def)
qed

lemma privacy_start_owned: "host_owned strict (privacy_start env)"
  by (simp add: host_owned_def privacy_start_def privacy_init_def owned_by_def impl_owned_def new_impl_def mac_ok_def mac_hides_def
      mac_screen_init_def screen_ok_def Let_def)

lemma privacy_run_owned:
  "\<lbrakk>list_all (\<lambda>(os, e). answers_for strict os) es; host_owned strict h\<rbrakk> \<Longrightarrow> host_owned strict (privacy_run env es h)"
proof (induction es arbitrary: h)
  case (Cons x es)
  then show ?case using privacy_step_owned by (cases x) auto
qed simp

text \<open>(C13) Whatever connections ask for, in whatever order, however they come, lose the permission and go, and whatever
  displays are plugged in, removed and restored meanwhile: if a display is black or local input is blocked, then privacy mode has an
  owner, and the owner is a connection for the desktop that is still there and has the permission; nobody else leaves the
  screen hidden behind. Here the displays that are online have different UUIDs and a gamma table that can be read has samples. If
  besides every display takes its gamma table back, then every owner is such a connection, hidden screen or not. The
  converse does not hold: the owner may own a screen that is shown (\<open>failed_hot_plug_keeps_owner\<close>).\<close>

theorem privacy_has_live_owner:
  assumes "list_all (\<lambda>(os, e). os_ok os) es"
    and "ph_mode (privacy_run env es (privacy_start env)) = Some m"
  shows "(ms_black (mi_screen m) \<noteq> [] \<or> ms_tap (mi_screen m) \<longrightarrow> mi_conn_id m \<noteq> 0 \<and>
      (\<exists>c. ph_conns (privacy_run env es (privacy_start env)) (mi_conn_id m) = Some c \<and> pc_remote c \<and> pc_privacy_mode c)) \<and>
    (list_all (\<lambda>(os, e). shows_again os) es \<and> mi_conn_id m \<noteq> 0 \<longrightarrow>
      (\<exists>c. ph_conns (privacy_run env es (privacy_start env)) (mi_conn_id m) = Some c \<and> pc_remote c \<and> pc_privacy_mode c))"
proof -
  have run: "list_all (\<lambda>(os, e). answers_for strict os) es \<Longrightarrow> host_owned strict (privacy_run env es (privacy_start env))" for strict
    by (rule privacy_run_owned[OF _ privacy_start_owned])
  have "host_owned False (privacy_run env es (privacy_start env))" using run[of False] assms(1) by (simp add: answers_for_def)
  moreover have "host_owned True (privacy_run env es (privacy_start env))" if "list_all (\<lambda>(os, e). shows_again os) es"
    using run[of True] assms(1) that by (simp add: answers_for_def list_all_iff split_def)
  ultimately show ?thesis
    using assms(2) by (auto simp: host_owned_def owned_by_def impl_owned_def mac_ok_def mac_hides_def screen_ok_def may_own_def split: option.splits)
qed

definition sample_display :: gamma_display where
  "sample_display = \<lparr>gd_id = 1, gd_uuid = ''A'', gd_capacity = 256, gd_read = True, gd_samples = 256, gd_black = True, gd_restore = True\<rparr>"

definition sample_os :: screen_os where
  "sample_os = \<lparr>so_tap = True, so_displays = [sample_display]\<rparr>"

theorem privacy_has_live_owner_witness:
  "\<exists>m. ph_mode (privacy_run (mac_env []) [(sample_os, PvAuthorized 1001 \<lparr>pc_remote = True, pc_privacy_mode = True\<rparr>), (sample_os, PvToggle 1001 True [])]
        (privacy_start (mac_env []))) = Some m \<and> ms_black (mi_screen m) = [1] \<and> mi_conn_id m \<noteq> 0"
proof -
  let ?es = "[(sample_os, PvAuthorized 1001 \<lparr>pc_remote = True, pc_privacy_mode = True\<rparr>), (sample_os, PvToggle 1001 True [])]"
  let ?s = "\<lparr>ms_active = True, ms_shutdown_requested = False, ms_last_reconfig = 0, ms_monitor = False, ms_gammas = [(''A'', 256)],
     ms_tap = True, ms_callback = True, ms_black = [1]\<rparr>"
  let ?m = "\<lparr>mi_key = MAC_PRIVACY_MODE_IMPL, mi_conn_id = 1001, mi_screen = ?s\<rparr>"
  have ok: "list_all (\<lambda>(os, e). os_ok os) ?es" by (simp add: os_ok_def sample_os_def sample_display_def)
  have run: "ph_mode (privacy_run (mac_env []) ?es (privacy_start (mac_env []))) = Some ?m"
    by code_simp
  from privacy_has_live_owner[OF ok run] run show ?thesis by simp
qed

text \<open>(C30) A display that is plugged in while the mode is on and has no gamma table to black it out with ends the mode by itself,
  once the main queue runs the shutdown: every display is shown and local input let through, and the connection that turned
  the mode on still owns it and is not told. When it asks for the mode again the answer is success, and nothing is hidden.\<close>

theorem failed_hot_plug_keeps_owner:
  assumes "mi_conn_id m = i" "ms_active (mi_screen m)" "ms_callback (mi_screen m)" "gd_capacity d = 0"
    and "gd_uuid d \<notin> fst ` set (ms_gammas (mi_screen m))" "\<not> df_begin flags" "df_add flags"
    and "s = screen_step os' DeferredShutdown (screen_step os (DisplayChange now d flags) (mi_screen m))"
  shows "\<not> ms_active s \<and> ms_black s = [] \<and> \<not> ms_tap s \<and> mac_turn_on os'' i (m\<lparr>mi_screen := s\<rparr>) = (Inr True, m\<lparr>mi_screen := s\<rparr>)"
  using assms
  by (auto simp: DisplayReconfigurationCallback_def display_added_def ScheduleAsyncPrivacyModeShutdown_def deferred_shutdown_def
      TurnOffPrivacyModeInternal_def RestoreAllGammas_def CGDisplayRestoreColorSyncSettings_def mac_turn_on_def check_on_conn_id_def
      Let_def split: prod.splits)

theorem failed_hot_plug_keeps_owner_witness:
  "let bad = sample_display\<lparr>gd_id := 2, gd_uuid := ''B'', gd_capacity := 0\<rparr>; flags = \<lparr>df_begin = False, df_add = True, df_remove = False, df_set_mode = False\<rparr>;
       on = snd (MacSetPrivacyMode sample_os True mac_screen_init);
       m = \<lparr>mi_key = MAC_PRIVACY_MODE_IMPL, mi_conn_id = 1001, mi_screen = on\<rparr>;
       s = screen_step sample_os DeferredShutdown (screen_step sample_os (DisplayChange 5 bad flags) on)
   in ms_black on = [1] \<and> ms_black s = [] \<and> fst (mac_turn_on sample_os 1001 (m\<lparr>mi_screen := s\<rparr>)) = Inr True"
proof -
  let ?bad = "sample_display\<lparr>gd_id := 2, gd_uuid := ''B'', gd_capacity := 0\<rparr>"
  let ?flags = "\<lparr>df_begin = False, df_add = True, df_remove = False, df_set_mode = False\<rparr>"
  let ?on = "snd (MacSetPrivacyMode sample_os True mac_screen_init)"
  let ?m = "\<lparr>mi_key = MAC_PRIVACY_MODE_IMPL, mi_conn_id = 1001, mi_screen = ?on\<rparr>"
  have on: "ms_active ?on" "ms_callback ?on" "fst ` set (ms_gammas ?on) = {''A''}" "ms_black ?on = [1]"
    by (simp_all add: MacSetPrivacyMode_def mac_screen_init_def sample_os_def sample_display_def save_gamma_def Let_def)
  show ?thesis
    using failed_hot_plug_keeps_owner[of ?m 1001 ?bad ?flags _ sample_os sample_os 5 sample_os, OF _ _ _ _ _ _ _ refl] on by (simp add: Let_def)
qed

text \<open>A display whose gamma table cannot be read is not blacked out, and turning the mode on succeeds without it.\<close>

lemma unread_display_stays_shown:
  assumes "\<not> ms_active s" "ms_gammas s = []" "so_tap os" "so_displays os = [d]" "gd_uuid d \<noteq> []" "\<not> gd_read d"
  shows "fst (MacSetPrivacyMode os True s)" "ms_black (snd (MacSetPrivacyMode os True s)) = ms_black s"
  using assms by (simp_all add: MacSetPrivacyMode_def save_gamma_def)

text \<open>A display that does not take its table back leaves a connection that is gone as the owner, until somebody asks for the mode.\<close>

lemma failed_restore_keeps_owner:
  assumes "mi_conn_id m = i" "i \<noteq> 0" "\<not> fst (MacSetPrivacyMode os False (mi_screen m))"
  shows "get_privacy_mode_conn_id (close_privacy os i (Some m)) = Some i"
  using assms by (auto simp: close_privacy_def get_privacy_mode_conn_id_def turn_off_privacy_def mac_turn_off_def check_off_conn_id_def
      split: prod.splits)

text \<open>A peer's request to leave privacy mode when another connection owns it is answered with a failure and changes
  nothing: whatever the operating system would do, the owner keeps the mode and the screen stays hidden.\<close>

theorem others_cannot_leave_privacy_mode:
  assumes "is_privacy_mode_supported env" "mi_conn_id m \<noteq> 0" "i \<noteq> 0" "mi_conn_id m \<noteq> i"
  shows "toggle_privacy_mode env os i c False key (Some m) = ((PrvOffFailed, TURN_OFF_OTHER_ID, key), Some m)"
  using assms mac.off_taken[of m i os]
  by (simp add: toggle_privacy_mode_def conn_turn_off_def turn_off_privacy_def turn_off_privacy_result_to_msg_def)

theorem others_cannot_leave_privacy_mode_witness:
  "toggle_privacy_mode (mac_env []) sample_os 1002 \<lparr>pc_remote = True, pc_privacy_mode = True\<rparr> False []
     (Some \<lparr>mi_key = MAC_PRIVACY_MODE_IMPL, mi_conn_id = 1001, mi_screen = mac_screen_init\<rparr>) =
   ((PrvOffFailed, TURN_OFF_OTHER_ID, []), Some \<lparr>mi_key = MAC_PRIVACY_MODE_IMPL, mi_conn_id = 1001, mi_screen = mac_screen_init\<rparr>)"
  using others_cannot_leave_privacy_mode[of "mac_env []" "\<lparr>mi_key = MAC_PRIVACY_MODE_IMPL, mi_conn_id = 1001, mi_screen = mac_screen_init\<rparr>" 1002
      sample_os "\<lparr>pc_remote = True, pc_privacy_mode = True\<rparr>" "[]"]
  by (simp add: is_privacy_mode_supported_def mac_env_def MAC_PRIVACY_MODE_IMPL_def)

text \<open>(C33) A request to enter it, though, ends it: asked by a second connection for the desktop while the first owns the
  mode, the host answers that the mode is occupied and, handling that error, turns it off without naming a connection,
  which an implementation accepts from anyone. The first connection's displays are shown again, no display is left black, and
  it is not told.\<close>

theorem second_request_ends_privacy_mode:
  assumes "is_privacy_mode_supported env" "mi_conn_id m \<noteq> 0" "mi_conn_id m \<noteq> i" "shows_again os"
    and "pc_remote c" "pc_privacy_mode c"
  shows "let s = snd (MacSetPrivacyMode os False (mi_screen m)) in
    toggle_privacy_mode env os i c True key (Some m) = ((PrvOnFailed, OCCUPIED, key), Some (m\<lparr>mi_conn_id := 0, mi_screen := s\<rparr>)) \<and>
    \<not> ms_active s \<and> ms_black s = (if ms_active (mi_screen m) then [] else ms_black (mi_screen m))"
proof -
  obtain r s where off: "MacSetPrivacyMode os False (mi_screen m) = (r, s)" by fastforce
  have "r" "\<not> ms_active s" "ms_black s = (if ms_active (mi_screen m) then [] else ms_black (mi_screen m))"
    using turn_off_screen(1,3,4)[where os = os and s = "mi_screen m"] assms(4) off by (simp_all add: set_off)
  then show ?thesis
    using assms off
    by (simp add: toggle_privacy_mode_def conn_turn_on_def turn_on_privacy_sync_def turn_off_privacy_def is_in_privacy_mode_def mac_defs)
qed

theorem second_request_ends_privacy_mode_witness:
  "let m = \<lparr>mi_key = MAC_PRIVACY_MODE_IMPL, mi_conn_id = 1001, mi_screen = snd (MacSetPrivacyMode sample_os True mac_screen_init)\<rparr>;
       (n, p) = toggle_privacy_mode (mac_env []) sample_os 1002 \<lparr>pc_remote = True, pc_privacy_mode = True\<rparr> True [] (Some m)
   in n = (PrvOnFailed, OCCUPIED, []) \<and> get_privacy_mode_conn_id p = Some 0"
  using second_request_ends_privacy_mode[of "mac_env []"
      "\<lparr>mi_key = MAC_PRIVACY_MODE_IMPL, mi_conn_id = 1001, mi_screen = snd (MacSetPrivacyMode sample_os True mac_screen_init)\<rparr>" 1002
      sample_os "\<lparr>pc_remote = True, pc_privacy_mode = True\<rparr>" "[]"]
  by (simp add: is_privacy_mode_supported_def mac_env_def MAC_PRIVACY_MODE_IMPL_def shows_again_def sample_os_def sample_display_def
      get_privacy_mode_conn_id_def Let_def)

end
