(* ===== verification/SessionDispatch.thy ===== *)
theory SessionDispatch
  imports SessionOptions TransferCm
begin

text \<open>
  What an authorized connection does with the messages of its peer: the second half of \<open>on_message\<close>
  (\<^verbatim>\<open>src/server/connection.rs\<close>) in the builds for macOS and Linux, with the handlers it calls: mouse, keyboard,
  clipboards, displays and their resolution, refreshes and their limiter, voice calls, restarts and terminals; and
  the permissions the connection manager switches. What leaves the connection is a list of effects. File actions
  are carried out in theory \<open>TransferCm\<close>, options in \<open>SessionOptions\<close>, privacy mode in \<open>PrivacyMode\<close>, the
  subscriptions of displays in \<open>Services\<close>, a second factor or an answer to a change of sides that reaches an
  authorized connection in \<open>Login\<close>, whose lemma \<open>authorized_kind_kept\<close> shows that neither changes the session; here it is
  decided whether they get there.
\<close>

section \<open>Messages with their contents\<close>

text \<open>Keys as \<open>rdev\<close> names them, as far as they are told apart.\<close>

datatype rdev_key = ShiftLeft | ShiftRight | ControlLeft | ControlRight | MetaLeft | MetaRight | AltKey | AltGr | OtherKey nat

datatype key_union = ControlKey int | Chr u32 | Unicode u32 | Seq string | Win2winHotkey u32

datatype keyboard_mode = Legacy | MapMode | Translate | Auto

record key_event =
  ke_down :: bool
  ke_press :: bool
  ke_union :: "key_union option"
  ke_mode :: "keyboard_mode enum_or_unknown"

record mouse_event =
  me_mask :: int
  me_x :: int
  me_y :: int

datatype clip_message = CliprdrFiles "(string \<times> nat) list" | CliprdrRequest nat | CliprdrNone

datatype peer_misc =
    PmSwitchDisplay int int int
  | PmCaptureDisplays "int list" "int list" "int list"
  | PmTogglePrivacyMode string bool
  | PmOption option_message
  | PmRefreshVideo bool
  | PmRefreshVideoDisplay int
  | PmVideoReceived
  | PmRestartRemoteDevice
  | PmAudioFormat u32 u32
  | PmSwitchSidesRequest bytes
  | PmChangeResolution int int
  | PmChangeDisplayResolution int int int
  | PmAutoAdjustFps u32
  | PmClientRecordStatus bool
  | PmMessageQuery int
  | PmOther misc

datatype peer_message =
    PeerMouse mouse_event
  | PeerPointer bytes
  | PeerKey key_event
  | PeerClipboard bytes
  | PeerMultiClipboards "bytes list"
  | PeerCliprdr clip_message
  | PeerFileAction file_action
  | PeerFileResponse bytes
  | PeerMisc "peer_misc option"
  | PeerAudioFrame bytes
  | PeerVoiceCallRequest bool int
  | PeerScreenshot int string
  | PeerTerminalAction bytes
  | PeerOther message

text \<open>The message without its contents, as the scope check sees it.\<close>

fun misc_kind :: "peer_misc \<Rightarrow> misc" where
  "misc_kind (PmSwitchDisplay _ _ _) = SwitchDisplay"
| "misc_kind (PmCaptureDisplays _ _ _) = CaptureDisplays"
| "misc_kind (PmTogglePrivacyMode _ _) = TogglePrivacyMode"
| "misc_kind (PmOption o') = OptionMsg o'"
| "misc_kind (PmRefreshVideo _) = RefreshVideo"
| "misc_kind (PmRefreshVideoDisplay _) = RefreshVideoDisplay"
| "misc_kind PmVideoReceived = VideoReceived"
| "misc_kind PmRestartRemoteDevice = RestartRemoteDevice"
| "misc_kind (PmAudioFormat _ _) = AudioFormat"
| "misc_kind (PmSwitchSidesRequest _) = SwitchSidesRequest"
| "misc_kind (PmChangeResolution _ _) = ChangeResolution"
| "misc_kind (PmChangeDisplayResolution _ _ _) = ChangeDisplayResolution"
| "misc_kind (PmAutoAdjustFps _) = AutoAdjustFps"
| "misc_kind (PmClientRecordStatus _) = ClientRecordStatus"
| "misc_kind (PmMessageQuery _) = MessageQuery"
| "misc_kind (PmOther m) = m"

fun message_kind :: "peer_message \<Rightarrow> message" where
  "message_kind (PeerMouse _) = MouseEvent"
| "message_kind (PeerPointer _) = PointerDeviceEvent"
| "message_kind (PeerKey _) = KeyEvent"
| "message_kind (PeerClipboard _) = Clipboard"
| "message_kind (PeerMultiClipboards _) = MultiClipboards"
| "message_kind (PeerCliprdr _) = Cliprdr"
| "message_kind (PeerFileAction _) = FileAction"
| "message_kind (PeerFileResponse _) = FileResponse"
| "message_kind (PeerMisc m) = Misc (map_option misc_kind m)"
| "message_kind (PeerAudioFrame _) = AudioFrame"
| "message_kind (PeerVoiceCallRequest _ _) = VoiceCallRequest"
| "message_kind (PeerScreenshot _ _) = ScreenshotRequest"
| "message_kind (PeerTerminalAction _) = TerminalAction"
| "message_kind (PeerOther m) = m"

section \<open>State and effects\<close>

datatype dispatch_effect =
    FxClickTime int
  | FxMoveTime int
  | FxMouse mouse_event bool bool
  | FxPointer bytes
  | FxKey key_event bool
  | FxSetClipboard "bytes list"
  | FxAuditReceived "(string \<times> nat) list"
  | FxServeClip nat
  | FxFileAction file_action
  | FxFileResponse bytes
  | FxSwitchDisplay nat
  | FxCaptureDisplays "nat list" "nat list" "nat list"
  | FxDisplayChanged nat
  | FxRecordResolution string "int \<times> int" "int \<times> int"
  | FxChangeResolution string int int
  | FxTogglePrivacy string bool
  | FxOption option_effect
  | FxRefresh "nat option"
  | FxVideoReceived
  | FxReboot
  | FxAudioThread u32 u32
  | FxAudioFrame bytes
  | FxSwitchSides bytes
  | FxAutoAdjustFps u32
  | FxClientRecord bool
  | FxVoiceCallIncoming
  | FxStartVoiceCall
  | FxCloseVoiceCall
  | FxVoiceCallResponse int bool
  | FxScreenshot nat string
  | FxTerminal bytes
  | FxPermission string bool
  | FxKeyRelease rdev_key
  | FxLockScreen
  | FxTestDelay
  | FxNetworkDelay u32
  | FxLogin message
  | FxClosed string

text \<open>A display of the host as the resolution change sees it, and as the coordinates of the mouse are adjusted on macOS
  (\<open>Retina\<close>; its scale is a whole number there, so that \<open>f64\<close> divides exactly).\<close>

record host_display =
  hd_name :: string
  hd_virtual :: bool
  hd_x :: int
  hd_y :: int
  hd_width :: int
  hd_height :: int
  hd_scale :: nat

record dispatch_conn =
  dc_options :: conn_options
  dc_view_camera :: bool
  dc_file_transfer :: bool
  dc_port_forward_socket :: bool
  dc_terminal_token :: bool
  dc_restart :: bool
  dc_recording :: bool
  dc_audio_sender :: bool
  dc_voice_call_request :: "int option"
  dc_pressed_modifiers :: "rdev_key list"
  dc_display_idx :: nat
  dc_retina :: "host_display list"
  dc_auto_disconnect :: "int option"
  dc_last_test_delay :: "int option"
  dc_network_delay :: u32

type_synonym refresh_limiter = "(int \<times> int) list"

record dispatch_env =
  de_target :: target
  de_now :: int
  de_rdev_key :: "u32 \<Rightarrow> rdev_key"
  de_displays :: "host_display list option"
  de_close_on_violation :: bool

section \<open>Keyboard and mouse\<close>

definition MOUSE_TYPE_MASK :: int where "MOUSE_TYPE_MASK = 7"

definition mouse_type :: "mouse_event \<Rightarrow> int" where "mouse_type e = me_mask e mod (MOUSE_TYPE_MASK + 1)"

definition is_left_up :: "mouse_event \<Rightarrow> bool" where
  "is_left_up e \<longleftrightarrow> me_mask e div 8 = 1 \<and> mouse_type e = 2"

text \<open>Return is control key 27, Enter of the number pad 72.\<close>

definition is_enter :: "key_event \<Rightarrow> bool" where
  "is_enter e \<longleftrightarrow> (case ke_union e of Some (ControlKey v) \<Rightarrow> v = 27 \<or> v = 72 | _ \<Rightarrow> False)"

text \<open>Alt, Shift, Control, Meta and their right-hand twins.\<close>

definition is_modifier_event :: "key_event \<Rightarrow> bool" where
  "is_modifier_event e \<longleftrightarrow> (case ke_union e of Some (ControlKey v) \<Rightarrow> v \<in> {1, 29, 4, 23, 75, 73, 74, 64} | _ \<Rightarrow> False)"

fun is_modifier_key :: "rdev_key \<Rightarrow> bool" where
  "is_modifier_key (OtherKey _) = False"
| "is_modifier_key _ = True"

definition chr_or_default :: "key_event \<Rightarrow> u32" where
  "chr_or_default e = (case ke_union e of Some (Chr c) \<Rightarrow> c | _ \<Rightarrow> 0)"

definition modifier_of_event :: "(u32 \<Rightarrow> rdev_key) \<Rightarrow> key_event \<Rightarrow> rdev_key option" where
  "modifier_of_event rdev e =
     (let key = (case enum_value (ke_mode e) of
            Some MapMode \<Rightarrow> Some (rdev (chr_or_default e))
          | Some Translate \<Rightarrow> (case ke_union e of Some (Chr code) \<Rightarrow> Some (rdev (and code 0xFFFF)) | _ \<Rightarrow> None)
          | _ \<Rightarrow> None)
      in case key of Some k \<Rightarrow> if is_modifier_key k then Some k else None | None \<Rightarrow> None)"

definition is_press :: "target \<Rightarrow> rdev_key option \<Rightarrow> key_event \<Rightarrow> bool" where
  "is_press tg key e \<longleftrightarrow>
     (if tg_linux tg then (ke_press e \<or> ke_down e) \<and> \<not> (is_modifier_event e \<or> key \<noteq> None) else ke_press e)"

definition track_modifier :: "rdev_key option \<Rightarrow> bool \<Rightarrow> rdev_key list \<Rightarrow> rdev_key list" where
  "track_modifier key press ks =
     (case key of None \<Rightarrow> ks | Some k \<Rightarrow> if press then List.insert k ks else removeAll k ks)"

definition update_auto_disconnect_timer :: "int \<Rightarrow> dispatch_conn \<Rightarrow> dispatch_conn" where
  "update_auto_disconnect_timer now c = c\<lparr>dc_auto_disconnect := map_option (\<lambda>_. now) (dc_auto_disconnect c)\<rparr>"

abbreviation kind_of :: "dispatch_conn \<Rightarrow> auth_conn_type option" where
  "kind_of c \<equiv> co_authed (dc_options c)"

definition on_key_event :: "dispatch_env \<Rightarrow> key_event \<Rightarrow> dispatch_conn \<Rightarrow> dispatch_conn \<times> dispatch_effect list" where
  "on_key_event env e c =
     (if kind_of c = Some ViewCamera then (c, [])
      else
        (let (c, fx) =
           (if peer_keyboard_enabled (dc_options c) then
              (let key = modifier_of_event (de_rdev_key env) e; press = is_press (de_target env) key e
               in (c\<lparr>dc_pressed_modifiers := track_modifier key press (dc_pressed_modifiers c)\<rparr>,
                   (if is_enter e then [FxClickTime (de_now env)] else []) @ [FxMoveTime (de_now env)] @
                   [FxKey e (press \<and> (case ke_union e of Some (Unicode _) \<Rightarrow> False | Some (Seq _) \<Rightarrow> False | _ \<Rightarrow> True))]))
            else (c, []))
         in (update_auto_disconnect_timer (de_now env) c, fx)))"

text \<open>The coordinates of an absolute mouse event on a display of macOS whose pixels are scaled.\<close>

definition retina_on_mouse_event :: "host_display list \<Rightarrow> nat \<Rightarrow> mouse_event \<Rightarrow> mouse_event" where
  "retina_on_mouse_event ds current e =
     (if mouse_type e \<in> {3, 4, 5} then e
      else if current \<ge> length ds then e
      else
        (let d = ds ! current; s = int (hd_scale d) in
         if s > 1 \<and> me_x e \<ge> hd_x d \<and> me_y e \<ge> hd_y d \<and> me_x e < hd_x d + hd_width d \<and> me_y e < hd_y d + hd_height d
         then e\<lparr>me_x := hd_x d + (me_x e - hd_x d) div s, me_y := hd_y d + (me_y e - hd_y d) div s\<rparr>
         else e))"

definition retina_on_cursor_pos :: "host_display list \<Rightarrow> nat \<Rightarrow> int \<times> int \<Rightarrow> (int \<times> int) option" where
  "retina_on_cursor_pos ds current = (\<lambda>(x, y).
     if current \<ge> length ds then None
     else
       (let d = ds ! current; s = int (hd_scale d) in
        if s > 1 \<and> x \<ge> hd_x d \<and> y \<ge> hd_y d \<and> (x - hd_x d) * s < hd_width d \<and> (y - hd_y d) * s < hd_height d
        then Some (hd_x d + (x - hd_x d) * s, hd_y d + (y - hd_y d) * s)
        else None))"

definition on_mouse_event :: "dispatch_env \<Rightarrow> mouse_event \<Rightarrow> dispatch_conn \<Rightarrow> dispatch_conn \<times> dispatch_effect list" where
  "on_mouse_event env e c =
     (if kind_of c = Some ViewCamera then (c, [])
      else
        (let adjusted = (if tg_linux (de_target env) then e else retina_on_mouse_event (dc_retina c) (dc_display_idx c) e);
             show_cursor = co_show_my_cursor (dc_options c)
         in (update_auto_disconnect_timer (de_now env) c,
             if peer_keyboard_enabled (dc_options c) then
               [if is_left_up e then FxClickTime (de_now env) else FxMoveTime (de_now env), FxMouse adjusted True show_cursor]
             else if show_cursor then [FxMouse adjusted False True] else [])))"

definition on_pointer_event :: "dispatch_env \<Rightarrow> bytes \<Rightarrow> dispatch_conn \<Rightarrow> dispatch_conn \<times> dispatch_effect list" where
  "on_pointer_event env e c =
     (if kind_of c = Some ViewCamera then (c, [])
      else (update_auto_disconnect_timer (de_now env) c,
            if peer_keyboard_enabled (dc_options c) then [FxMoveTime (de_now env), FxPointer e] else []))"

text \<open>When the connection is dropped.\<close>

definition release_pressed_modifiers :: "dispatch_conn \<Rightarrow> dispatch_conn \<times> dispatch_effect list" where
  "release_pressed_modifiers c = (c\<lparr>dc_pressed_modifiers := []\<rparr>, map FxKeyRelease (dc_pressed_modifiers c))"

section \<open>Clipboards and files\<close>

definition on_clipboard :: "bytes list \<Rightarrow> dispatch_conn \<Rightarrow> dispatch_effect list" where
  "on_clipboard cbs c =
     (if should_handle_text_clipboard_message (kind_of c) \<and> clipboard_enabled (dc_options c) then [FxSetClipboard cbs] else [])"

definition is_support_file_copy_paste :: "string \<Rightarrow> bool" where
  "is_support_file_copy_paste ver \<longleftrightarrow> get_version_number ver \<ge> get_version_number ''1.3.8''"

text \<open>Messages of the file clipboard are handled in builds with the feature.\<close>

definition on_cliprdr :: "target \<Rightarrow> clip_message \<Rightarrow> dispatch_conn \<Rightarrow> dispatch_effect list" where
  "on_cliprdr tg m c =
     (if \<not> tg_unix_file_copy_paste tg then []
      else case m of
          CliprdrFiles fs \<Rightarrow> [FxAuditReceived fs]
        | CliprdrRequest r \<Rightarrow> if is_support_file_copy_paste (co_version (dc_options c)) then [FxServeClip r] else []
        | CliprdrNone \<Rightarrow> [])"

definition on_file_action_message :: "file_action \<Rightarrow> dispatch_conn \<Rightarrow> dispatch_effect list" where
  "on_file_action_message fa c =
     (if dc_file_transfer c \<or> (case fa of SendAction _ _ Printer _ _ \<Rightarrow> True | _ \<Rightarrow> False) then [FxFileAction fa] else [])"

section \<open>Displays\<close>

text \<open>\<open>i32 as usize\<close> extends the sign; \<open>usize as i64\<close> reinterprets it.\<close>

definition usize_of_i32 :: "int \<Rightarrow> nat" where "usize_of_i32 i = nat (i mod 18446744073709551616)"

definition refresh_key :: "nat option \<Rightarrow> int" where
  "refresh_key display = (case display of Some d \<Rightarrow> wrap_i64 (int d) | None \<Rightarrow> - 1)"

text \<open>The limiter is shared by all connections: one refresh of a key every 1500 ms.\<close>

definition limit_refresh :: "int \<Rightarrow> int \<Rightarrow> refresh_limiter \<Rightarrow> bool \<times> refresh_limiter" where
  "limit_refresh now key m =
     (case map_of m key of
        Some t \<Rightarrow> if now - t < 1500 then (False, m) else (True, AList.update key now m)
      | None \<Rightarrow> (True, AList.update key now m))"

definition refresh_video_display :: "int \<Rightarrow> nat option \<Rightarrow> refresh_limiter \<Rightarrow> refresh_limiter \<times> dispatch_effect list" where
  "refresh_video_display now display m =
     (let (go, m) = limit_refresh now (refresh_key display) m in (m, if go then [FxRefresh display] else []))"

definition change_resolution :: "dispatch_env \<Rightarrow> nat option \<Rightarrow> int \<Rightarrow> int \<Rightarrow> dispatch_conn \<Rightarrow> dispatch_effect list" where
  "change_resolution env d w h c =
     (if \<not> co_keyboard (dc_options c) then []
      else case de_displays env of
          None \<Rightarrow> []
        | Some displays \<Rightarrow>
            (let idx = (case d of Some i \<Rightarrow> i | None \<Rightarrow> dc_display_idx c) in
             if idx \<ge> length displays then []
             else
               (let disp = displays ! idx in
                if tg_linux (de_target env) then
                  [FxRecordResolution (hd_name disp) (hd_width disp, hd_height disp) (w, h), FxChangeResolution (hd_name disp) w h]
                else if hd_virtual disp then [FxChangeResolution (hd_name disp) w h]
                else [])))"

text \<open>\<open>de_displays\<close> is also what a message about a changed display is made from.\<close>

definition display_changed :: "dispatch_env \<Rightarrow> nat \<Rightarrow> dispatch_effect list" where
  "display_changed env idx =
     (case de_displays env of Some ds \<Rightarrow> if idx < length ds then [FxDisplayChanged idx] else [] | None \<Rightarrow> [])"

definition handle_switch_display :: "dispatch_env \<Rightarrow> int \<Rightarrow> int \<Rightarrow> int \<Rightarrow> dispatch_conn \<Rightarrow> dispatch_conn \<times> dispatch_effect list" where
  "handle_switch_display env display w h c =
     (let idx = usize_of_i32 display in
      if dc_display_idx c = idx then (c, [])
      else
        (let (c, fx) =
           (if co_server_alive (dc_options c) then
              (let c = c\<lparr>dc_display_idx := idx\<rparr> in
               (c, FxSwitchDisplay idx #
                  (if tg_linux (de_target env) \<and> \<not> dc_view_camera c \<and> w \<noteq> 0 \<and> h \<noteq> 0 then change_resolution env None w h c else [])))
            else (c, []))
         in (c, fx @ display_changed env (dc_display_idx c))))"

section \<open>Voice calls\<close>

definition handle_voice_call :: "bool \<Rightarrow> dispatch_conn \<Rightarrow> dispatch_conn \<times> dispatch_effect list" where
  "handle_voice_call accepted c =
     (case dc_voice_call_request c of
        None \<Rightarrow> (c, [])
      | Some ts \<Rightarrow>
          (let c = c\<lparr>dc_voice_call_request := None, dc_options := (dc_options c)\<lparr>co_voice_calling := accepted\<rparr>\<rparr>
           in (c, [if accepted then FxStartVoiceCall else FxCloseVoiceCall, FxVoiceCallResponse ts accepted] @
               (if kind_of c = Some ViewCamera \<and> co_server_alive (dc_options c)
                then [FxOption (Subscribe AUDIO_SERVICE (audio_enabled (dc_options c) \<and> accepted))] else []))))"

definition close_voice_call :: "dispatch_conn \<Rightarrow> dispatch_conn \<times> dispatch_effect list" where
  "close_voice_call c =
     (c\<lparr>dc_options := (dc_options c)\<lparr>co_voice_calling := False\<rparr>\<rparr>,
      FxCloseVoiceCall # (if kind_of c = Some ViewCamera \<and> co_server_alive (dc_options c) then [FxOption (Subscribe AUDIO_SERVICE False)] else []))"

definition on_voice_call_request :: "dispatch_env \<Rightarrow> bool \<Rightarrow> int \<Rightarrow> dispatch_conn \<Rightarrow> dispatch_conn \<times> dispatch_effect list" where
  "on_voice_call_request env is_connect ts c =
     (if is_connect then (c\<lparr>dc_voice_call_request := Some (if ts \<noteq> 0 then ts else de_now env)\<rparr>, [FxVoiceCallIncoming])
      else close_voice_call c)"

section \<open>Messages\<close>

text \<open>Options: the effects of theory \<open>SessionOptions\<close> that this message adds.\<close>

definition on_option :: "dispatch_env \<Rightarrow> option_message \<Rightarrow> dispatch_conn \<Rightarrow> dispatch_conn \<times> dispatch_effect list" where
  "on_option env o' c =
     (let opts = on_option_message (de_target env) o' ((dc_options c)\<lparr>co_effects := []\<rparr>)
      in (c\<lparr>dc_options := opts\<lparr>co_effects := []\<rparr>\<rparr>, map FxOption (co_effects opts)))"

type_synonym dispatch_state = "dispatch_conn \<times> refresh_limiter"

definition stay :: "refresh_limiter \<Rightarrow> dispatch_conn \<times> dispatch_effect list \<Rightarrow> bool \<times> dispatch_state \<times> dispatch_effect list" where
  "stay m = (\<lambda>(c, fx). (True, (c, m), fx))"

text \<open>The end of a connection: the screen is locked if the peer asked for it and has the permission for the keyboard, the
  socket of a forwarded port is let go.\<close>

definition on_close :: "string \<Rightarrow> bool \<Rightarrow> dispatch_conn \<Rightarrow> dispatch_conn \<times> dispatch_effect list" where
  "on_close reason lock c =
     (c\<lparr>dc_port_forward_socket := False\<rparr>,
      (if lock \<and> co_lock_after_session_end (dc_options c) \<and> co_keyboard (dc_options c) then [FxLockScreen] else []) @ [FxClosed reason])"

definition close_with :: "string \<Rightarrow> bool \<Rightarrow> dispatch_state \<Rightarrow> bool \<times> dispatch_state \<times> dispatch_effect list" where
  "close_with reason lock = (\<lambda>(c, m). (let (c, fx) = on_close reason lock c in (False, (c, m), fx)))"

text \<open>A test of the delay is sent back, or answers the host's own; \<open>as_millis() as u32\<close> wraps.\<close>

definition on_test_delay :: "dispatch_env \<Rightarrow> bool \<Rightarrow> dispatch_conn \<Rightarrow> dispatch_conn \<times> dispatch_effect list" where
  "on_test_delay env from_client c =
     (if from_client then (c, [FxTestDelay])
      else case dc_last_test_delay c of
          None \<Rightarrow> (c, [])
        | Some tm \<Rightarrow>
            (let delay = word_of_int (de_now env - tm)
             in (c\<lparr>dc_last_test_delay := None, dc_network_delay := delay\<rparr>, [FxNetworkDelay delay])))"

text \<open>A switch of sides starts a connection back to the peer and ends this one.\<close>

fun on_misc :: "dispatch_env \<Rightarrow> peer_misc \<Rightarrow> dispatch_state \<Rightarrow> bool \<times> dispatch_state \<times> dispatch_effect list" where
  "on_misc env (PmSwitchDisplay d w h) (c, m) = stay m (handle_switch_display env d w h c)"
| "on_misc env (PmCaptureDisplays add sub to) (c, m) =
     stay m (c, [FxCaptureDisplays (map usize_of_i32 add) (map usize_of_i32 sub) (map usize_of_i32 to)])"
| "on_misc env (PmTogglePrivacyMode key on) (c, m) = stay m (c, if \<not> dc_view_camera c then [FxTogglePrivacy key on] else [])"
| "on_misc env (PmOption o') (c, m) = stay m (on_option env o' c)"
| "on_misc env (PmRefreshVideo r) (c, m) =
     (if should_handle_render_broadcast_message (kind_of c) then
        (let (m, fx) = (if r then refresh_video_display (de_now env) None m else (m, []))
         in (True, (update_auto_disconnect_timer (de_now env) c, m), fx))
      else (True, (c, m), []))"
| "on_misc env (PmRefreshVideoDisplay d) (c, m) =
     (if should_handle_render_broadcast_message (kind_of c) then
        (let (m, fx) = refresh_video_display (de_now env) (Some (usize_of_i32 d)) m
         in (True, (update_auto_disconnect_timer (de_now env) c, m), fx))
      else (True, (c, m), []))"
| "on_misc env PmVideoReceived (c, m) = stay m (c, [FxVideoReceived])"
| "on_misc env PmRestartRemoteDevice (c, m) = stay m (c, if dc_restart c then [FxReboot] else [])"
| "on_misc env (PmAudioFormat rate channels) (c, m) =
     stay m (if \<not> co_disable_audio (dc_options c) then (c\<lparr>dc_audio_sender := True\<rparr>, [FxAudioThread rate channels]) else (c, []))"
| "on_misc env (PmSwitchSidesRequest u) (c, m) =
     (if length u = 16 then (let (c, fx) = on_close ''switch sides'' False c in (False, (c, m), FxSwitchSides u # fx))
      else (True, (c, m), []))"
| "on_misc env (PmChangeResolution w h) (c, m) = stay m (c, if \<not> dc_view_camera c then change_resolution env None w h c else [])"
| "on_misc env (PmChangeDisplayResolution d w h) (c, m) =
     stay m (c, if \<not> dc_view_camera c then change_resolution env (Some (usize_of_i32 d)) w h c else [])"
| "on_misc env (PmAutoAdjustFps fps) (c, m) = stay m (c, [FxAutoAdjustFps fps])"
| "on_misc env (PmClientRecordStatus b) (c, m) = stay m (c, [FxClientRecord b])"
| "on_misc env (PmMessageQuery d) (c, m) = stay m (c, display_changed env (usize_of_i32 d))"
| "on_misc env (PmOther _) (c, m) = stay m (c, [])"

fun dispatch :: "dispatch_env \<Rightarrow> peer_message \<Rightarrow> dispatch_state \<Rightarrow> bool \<times> dispatch_state \<times> dispatch_effect list" where
  "dispatch env (PeerMouse e) (c, m) = stay m (on_mouse_event env e c)"
| "dispatch env (PeerPointer e) (c, m) = stay m (on_pointer_event env e c)"
| "dispatch env (PeerKey e) (c, m) = stay m (on_key_event env e c)"
| "dispatch env (PeerClipboard cb) (c, m) = stay m (c, on_clipboard [cb] c)"
| "dispatch env (PeerMultiClipboards cbs) (c, m) = stay m (c, on_clipboard cbs c)"
| "dispatch env (PeerCliprdr clip) (c, m) = stay m (c, on_cliprdr (de_target env) clip c)"
| "dispatch env (PeerFileAction fa) (c, m) = stay m (c, on_file_action_message fa c)"
| "dispatch env (PeerFileResponse fr) (c, m) = stay m (c, [FxFileResponse fr])"
| "dispatch env (PeerMisc (Some misc)) (c, m) = on_misc env misc (c, m)"
| "dispatch env (PeerMisc None) (c, m) = stay m (c, [])"
| "dispatch env (PeerAudioFrame f) (c, m) =
     stay m (c, if \<not> co_disable_audio (dc_options c) \<and> dc_audio_sender c then [FxAudioFrame f] else [])"
| "dispatch env (PeerVoiceCallRequest is_connect ts) (c, m) = stay m (on_voice_call_request env is_connect ts c)"
| "dispatch env (PeerScreenshot d sid) (c, m) =
     (let (m, fx) = refresh_video_display (de_now env) (Some (usize_of_i32 d)) m
      in (True, (c, m), FxScreenshot (usize_of_i32 d) sid # fx))"
| "dispatch env (PeerTerminalAction a) (c, m) = stay m (c, if dc_terminal_token c then [FxTerminal a] else [])"
| "dispatch env (PeerOther _) (c, m) = stay m (c, [])"

text \<open>A second factor, a test of the delay and an answer to a change of sides are handled whether the session is authorized or
  not; then a session that forwards a port handles no message.\<close>

definition on_scoped_message :: "dispatch_env \<Rightarrow> peer_message \<Rightarrow> dispatch_state \<Rightarrow> bool \<times> dispatch_state \<times> dispatch_effect list" where
  "on_scoped_message env msg st =
     (case msg of
        PeerOther (Auth2fa code hwid) \<Rightarrow> (True, st, [FxLogin (Auth2fa code hwid)])
      | PeerOther (TestDelay from_client) \<Rightarrow> stay (snd st) (on_test_delay env from_client (fst st))
      | PeerOther (SwitchSidesResponse u lr) \<Rightarrow> (True, st, [FxLogin (SwitchSidesResponse u lr)])
      | _ \<Rightarrow> if dc_port_forward_socket (fst st) then (True, st, []) else dispatch env msg st)"

text \<open>A reason for closing comes before everything else, a login request is ignored; then comes the scope check.\<close>

definition on_authorized_message :: "dispatch_env \<Rightarrow> peer_message \<Rightarrow> dispatch_state \<Rightarrow> bool \<times> dispatch_state \<times> dispatch_effect list" where
  "on_authorized_message env msg st =
     (case message_kind msg of
        Misc (Some (CloseReason _)) \<Rightarrow> close_with ''Peer close'' True st
      | LoginRequest _ \<Rightarrow> (True, st, [])
      | k \<Rightarrow>
          (case authorized_scope_violation False (kind_of (fst st)) (Some k) of
             Some v \<Rightarrow> if de_close_on_violation env then close_with ''Session scope violation'' True st else (True, st, [])
           | None \<Rightarrow> on_scoped_message env msg st))"

text \<open>The messages of a peer until the connection ends.\<close>

fun peer_run :: "(dispatch_env \<times> peer_message) list \<Rightarrow> dispatch_state \<Rightarrow> dispatch_state \<times> dispatch_effect list" where
  "peer_run [] st = (st, [])"
| "peer_run ((env, msg) # ms) st =
     (case on_authorized_message env msg st of
        (True, st, fx) \<Rightarrow> (let (st, fx') = peer_run ms st in (st, fx @ fx'))
      | (False, st, fx) \<Rightarrow> (st, fx))"

section \<open>Permissions switched at the host\<close>

definition switch_permission :: "target \<Rightarrow> string \<Rightarrow> bool \<Rightarrow> dispatch_conn \<Rightarrow> dispatch_conn \<times> dispatch_effect list" where
  "switch_permission tg name enabled c =
     (let subs = (\<lambda>o' ss. if co_server_alive o' then map FxOption ss else []) in
      if name = ''keyboard'' then
        (let o' = (dc_options c)\<lparr>co_keyboard := enabled\<rparr> in
         (c\<lparr>dc_options := o'\<rparr>, FxPermission name enabled # subs o'
            ([Subscribe CLIPBOARD_SERVICE (can_sub_clipboard_service o')] @
             (if tg_unix_file_copy_paste tg then [Subscribe FILE_CLIPBOARD_SERVICE (can_sub_file_clipboard_service o')] else []) @
             [Subscribe NAME_CURSOR (enabled \<or> co_show_remote_cursor o')])))
      else if name = ''clipboard'' then
        (let o' = (dc_options c)\<lparr>co_clipboard := enabled\<rparr> in
         (c\<lparr>dc_options := o'\<rparr>, FxPermission name enabled # subs o' [Subscribe CLIPBOARD_SERVICE (can_sub_clipboard_service o')]))
      else if name = ''audio'' then
        (let o' = (dc_options c)\<lparr>co_audio := enabled\<rparr> in
         (c\<lparr>dc_options := o'\<rparr>, FxPermission name enabled #
            (if co_authed o' = None then []
             else if co_authed o' = Some ViewCamera \<and> \<not> (co_voice_calling o' \<or> \<not> audio_enabled o') then []
             else subs o' [Subscribe AUDIO_SERVICE (audio_enabled o')])))
      else if name = ''file'' then
        (let o' = (dc_options c)\<lparr>co_file := enabled\<rparr> in
         (c\<lparr>dc_options := o'\<rparr>, FxPermission name enabled #
            (if tg_unix_file_copy_paste tg then
               (if \<not> enabled then [FxOption TryEmptyFileClipboard] else []) @
               subs o' [Subscribe FILE_CLIPBOARD_SERVICE (can_sub_file_clipboard_service o')]
             else [])))
      else if name = ''restart'' then (c\<lparr>dc_restart := enabled\<rparr>, [FxPermission name enabled])
      else if name = ''recording'' then (c\<lparr>dc_recording := enabled\<rparr>, [FxPermission name enabled])
      else if name = ''block_input'' then (c\<lparr>dc_options := (dc_options c)\<lparr>co_block_input := enabled\<rparr>\<rparr>, [FxPermission name enabled])
      else (c, []))"

section \<open>What a peer may cause\<close>

text \<open>The part of the options that no peer changes: the kind of session and the permissions.\<close>

definition opt_core :: "conn_options \<Rightarrow> auth_conn_type option \<times> bool \<times> bool \<times> bool \<times> bool \<times> bool" where
  "opt_core o' = (co_authed o', co_keyboard o', co_clipboard o', co_audio o', co_file o', co_block_input o')"

definition opt_permitted :: "auth_conn_type option \<times> bool \<times> bool \<times> bool \<times> bool \<times> bool \<Rightarrow> option_effect \<Rightarrow> bool" where
  "opt_permitted = (\<lambda>(kind, keyboard, clipboard, audio, file, block_input) e.
     (case kind of Some t \<Rightarrow> scope_allows t e | None \<Rightarrow> False) \<and>
     (case e of
        Subscribe s True \<Rightarrow> (s = CLIPBOARD_SERVICE \<longrightarrow> keyboard \<and> clipboard) \<and> (s = FILE_CLIPBOARD_SERVICE \<longrightarrow> clipboard \<and> file) \<and>
          (s = AUDIO_SERVICE \<longrightarrow> audio)
      | ClipboardFileEnabled True \<Rightarrow> file
      | TurnOnPrivacy \<Rightarrow> keyboard | TurnOffPrivacy \<Rightarrow> keyboard
      | BlockOn \<Rightarrow> keyboard \<and> block_input | BlockOff \<Rightarrow> keyboard \<and> block_input
      | _ \<Rightarrow> True))"

definition opts_ok :: "auth_conn_type option \<times> bool \<times> bool \<times> bool \<times> bool \<times> bool \<Rightarrow> conn_options \<Rightarrow> bool" where
  "opts_ok k o' \<longleftrightarrow> opt_core o' = k \<and> list_all (opt_permitted k) (co_effects o')"




text \<open>Switches of the peer are outside the core.\<close>

lemma opts_ok_switches [simp]:
  "opts_ok k (o'\<lparr>co_lock_after_session_end := b\<rparr>) = opts_ok k o'" "opts_ok k (o'\<lparr>co_show_remote_cursor := b\<rparr>) = opts_ok k o'"
  "opts_ok k (o'\<lparr>co_follow_remote_cursor := b\<rparr>) = opts_ok k o'" "opts_ok k (o'\<lparr>co_follow_remote_window := b\<rparr>) = opts_ok k o'"
  "opts_ok k (o'\<lparr>co_disable_audio := b\<rparr>) = opts_ok k o'" "opts_ok k (o'\<lparr>co_enable_file_transfer := b\<rparr>) = opts_ok k o'"
  "opts_ok k (o'\<lparr>co_disable_clipboard := b\<rparr>) = opts_ok k o'" "opts_ok k (o'\<lparr>co_disable_keyboard := b\<rparr>) = opts_ok k o'"
  "opts_ok k (o'\<lparr>co_terminal_persistent := b\<rparr>) = opts_ok k o'" "opts_ok k (o'\<lparr>co_show_my_cursor := b\<rparr>) = opts_ok k o'"
  by (simp_all add: opts_ok_def opt_core_def)









text \<open>What no message of a peer changes.\<close>

definition host_grants :: "dispatch_conn \<Rightarrow> (auth_conn_type option \<times> bool \<times> bool \<times> bool \<times> bool \<times> bool) \<times> bool \<times> bool \<times> bool \<times> bool" where
  "host_grants c = (opt_core (dc_options c), dc_restart c, dc_view_camera c, dc_file_transfer c, dc_terminal_token c)"





lemmas scope_defs = authorized_scope_violation_def authorized_message_scope_violation_def noop_compat_def
  is_connection_housekeeping_message_def is_render_broadcast_noop_compat_message_def is_text_clipboard_noop_compat_message_def
  is_file_transfer_scoped_message_def is_file_transfer_scoped_misc_def is_terminal_scoped_message_def is_terminal_scoped_misc_def
  is_view_camera_scoped_message_def is_view_camera_scoped_misc_def

text \<open>The kinds of session that get a message past the scope check.\<close>

definition in_scope :: "dispatch_conn \<Rightarrow> peer_message \<Rightarrow> bool" where
  "in_scope c msg \<longleftrightarrow> authorized_scope_violation False (kind_of c) (Some (message_kind msg)) = None"








lemma grants_simps [simp]:
  "host_grants (update_auto_disconnect_timer now c) = host_grants c"
  "host_grants (c\<lparr>dc_pressed_modifiers := ks\<rparr>) = host_grants c" "host_grants (c\<lparr>dc_display_idx := i\<rparr>) = host_grants c"
  "host_grants (c\<lparr>dc_port_forward_socket := b\<rparr>) = host_grants c" "host_grants (c\<lparr>dc_last_test_delay := t\<rparr>) = host_grants c"
  "host_grants (c\<lparr>dc_network_delay := d\<rparr>) = host_grants c"
  "host_grants (c\<lparr>dc_audio_sender := b\<rparr>) = host_grants c" "host_grants (c\<lparr>dc_voice_call_request := t\<rparr>) = host_grants c"
  "host_grants (c\<lparr>dc_options := o'\<rparr>) = host_grants c \<longleftrightarrow> opt_core o' = opt_core (dc_options c)"
  "opt_core (o'\<lparr>co_voice_calling := b\<rparr>) = opt_core o'" "opt_core (o'\<lparr>co_effects := es\<rparr>) = opt_core o'"
  by (simp_all add: host_grants_def update_auto_disconnect_timer_def opt_core_def)
















text \<open>The three ways to go on with a message.\<close>

lemma authorized_message_cases:
  obtains (close) r where "on_authorized_message env msg (c, m) = close_with r True (c, m)"
    | (ignored) "on_authorized_message env msg (c, m) = (True, (c, m), [])"
    | (scoped) "in_scope c msg" "on_authorized_message env msg (c, m) = on_scoped_message env msg (c, m)"
proof -
  have rest: thesis if "on_authorized_message env msg (c, m) =
      (case authorized_scope_violation False (kind_of c) (Some (message_kind msg)) of
         Some v \<Rightarrow> if de_close_on_violation env then close_with ''Session scope violation'' True (c, m) else (True, (c, m), [])
       | None \<Rightarrow> on_scoped_message env msg (c, m))"
    using that close ignored scoped by (cases "authorized_scope_violation False (kind_of c) (Some (message_kind msg))")
       (auto simp: in_scope_def split: if_splits)
  show thesis
  proof (cases "message_kind msg")
    case (Misc o')
    show thesis
    proof (cases o')
      case (Some mi)
      show thesis
        by (cases mi) (use Misc Some close rest in \<open>simp_all add: on_authorized_message_def\<close>)
    qed (use Misc rest in \<open>simp add: on_authorized_message_def\<close>)
  qed (use ignored rest in \<open>simp_all add: on_authorized_message_def\<close>)
qed



text \<open>What the permissions of the host stand for, written down independently of the handlers: the effects that must not happen
  while a permission is withheld.\<close>

datatype grant = GrantKeyboard | GrantClipboard | GrantAudio | GrantFile | GrantBlockInput | GrantRestart

fun granted :: "dispatch_conn \<Rightarrow> grant \<Rightarrow> bool" where
  "granted c GrantKeyboard = co_keyboard (dc_options c)"
| "granted c GrantClipboard = co_clipboard (dc_options c)"
| "granted c GrantAudio = co_audio (dc_options c)"
| "granted c GrantFile = co_file (dc_options c)"
| "granted c GrantBlockInput = co_block_input (dc_options c)"
| "granted c GrantRestart = dc_restart c"






definition sample_dispatch :: "auth_conn_type \<Rightarrow> dispatch_conn" where
  "sample_dispatch t = \<lparr>dc_options = (sample_conn t)\<lparr>co_keyboard := False, co_clipboard := False, co_file := False\<rparr>,
     dc_view_camera = (t = ViewCamera), dc_file_transfer = (t = FileTransfer), dc_port_forward_socket = (t = PortForward),
     dc_terminal_token = (t = Terminal), dc_restart = False, dc_recording = False, dc_audio_sender = False,
     dc_voice_call_request = None, dc_pressed_modifiers = [], dc_display_idx = 0, dc_retina = [], dc_auto_disconnect = None,
     dc_last_test_delay = None, dc_network_delay = 0\<rparr>"

definition sample_env :: "bool \<Rightarrow> dispatch_env" where
  "sample_env linux = \<lparr>de_target = \<lparr>tg_windows = False, tg_mobile = False, tg_linux = linux, tg_unix_file_copy_paste = True\<rparr>,
     de_now = 1000, de_rdev_key = (\<lambda>k. if k = 42 then ShiftLeft else OtherKey 0), de_displays = None, de_close_on_violation = False\<rparr>"


text \<open>With every permission withheld, the effects that no permission guards.\<close>

lemma effects_without_permission:
  assumes "kind_of c = Some Remote" "\<not> dc_port_forward_socket c" "\<not> dc_view_camera c" "\<And>g. \<not> granted c g" "\<not> co_disable_audio (dc_options c)"
    and "tg_unix_file_copy_paste (de_target env)" "is_support_file_copy_paste (co_version (dc_options c))"
  shows "snd (snd (on_authorized_message env (PeerCliprdr (CliprdrRequest r)) (c, m))) = [FxServeClip r]"
    "snd (snd (on_authorized_message env (PeerFileResponse b) (c, m))) = [FxFileResponse b]"
    "snd (snd (on_authorized_message env (PeerMisc (Some (PmTogglePrivacyMode key on))) (c, m))) = [FxTogglePrivacy key on]"
    "snd (snd (on_authorized_message env (PeerMisc (Some (PmAudioFormat rate ch))) (c, m))) = [FxAudioThread rate ch]"
    "hd (snd (snd (on_authorized_message env (PeerScreenshot d sid) (c, m)))) = FxScreenshot (usize_of_i32 d) sid"
  using assms by (simp_all add: on_authorized_message_def on_scoped_message_def scope_defs stay_def on_cliprdr_def split: prod.split)

section \<open>Modifiers, the file clipboard and audio\<close>

lemma on_misc_modifiers: "dc_pressed_modifiers (fst (fst (snd (on_misc env misc (c, m))))) = dc_pressed_modifiers c"
  by (cases misc) (auto simp: stay_def handle_switch_display_def on_option_def on_close_def update_auto_disconnect_timer_def Let_def split: prod.split)

text \<open>A key that is held down is not a click.\<close>

definition held_only :: "dispatch_env \<times> peer_message \<Rightarrow> bool" where
  "held_only = (\<lambda>(env, msg). case msg of PeerKey e \<Rightarrow> tg_linux (de_target env) \<or> \<not> ke_press e | _ \<Rightarrow> True)"

lemma key_event_modifiers:
  "held_only (env, PeerKey e) \<Longrightarrow> dc_pressed_modifiers c = [] \<Longrightarrow> dc_pressed_modifiers (fst (on_key_event env e c)) = []"
  by (auto simp: held_only_def on_key_event_def track_modifier_def is_press_def update_auto_disconnect_timer_def Let_def split: option.split)

lemma dispatch_modifiers:
  "\<lbrakk>held_only (env, msg); dc_pressed_modifiers c = []\<rbrakk> \<Longrightarrow> dc_pressed_modifiers (fst (fst (snd (dispatch env msg (c, m))))) = []"
proof (cases msg)
  case (PeerKey e)
  assume "held_only (env, msg)" "dc_pressed_modifiers c = []"
  with PeerKey key_event_modifiers show ?thesis by (auto simp: stay_def split: prod.split) (metis fst_conv)
next
  case (PeerMisc misc)
  assume "dc_pressed_modifiers c = []"
  with PeerMisc on_misc_modifiers show ?thesis by (cases misc) (auto simp: stay_def)
qed (auto simp: stay_def on_mouse_event_def on_pointer_event_def on_voice_call_request_def
    close_voice_call_def update_auto_disconnect_timer_def Let_def split: option.split prod.split)

lemma scoped_modifiers:
  assumes "held_only (env, msg)" "dc_pressed_modifiers c = []"
  shows "dc_pressed_modifiers (fst (fst (snd (on_scoped_message env msg (c, m))))) = []"
proof -
  have other: "dc_pressed_modifiers (fst (fst (snd (dispatch env msg (c, m))))) = []"
    using dispatch_modifiers[OF assms] .
  show ?thesis
  proof (cases msg)
    case (PeerOther m')
    then show ?thesis
      by (cases m') (use PeerOther other assms(2) in
          \<open>auto simp: on_scoped_message_def stay_def on_test_delay_def Let_def simp del: dispatch.simps split: option.split\<close>)
  qed (use other assms(2) in \<open>simp_all add: on_scoped_message_def del: dispatch.simps\<close>)
qed

lemma message_modifiers:
  assumes "held_only (env, msg)" "dc_pressed_modifiers c = []"
  shows "dc_pressed_modifiers (fst (fst (snd (on_authorized_message env msg (c, m))))) = []"
  by (rule authorized_message_cases[of env msg c m])
     (use scoped_modifiers[OF assms] assms(2) in \<open>simp_all add: close_with_def on_close_def\<close>)

text \<open>The set of modifiers that a connection releases when it is dropped stays empty while keys are held down and let go:
  on Linux whatever the peer sends, because a modifier is never taken for a press, and on macOS as long as no modifier
  is sent as a click. So a modifier the peer holds when the connection breaks stays pressed at the host.\<close>

theorem held_modifiers_not_released:
  assumes "list_all held_only ms" "dc_pressed_modifiers c = []" "peer_run ms (c, m) = ((c', m'), fx)"
  shows "release_pressed_modifiers c' = (c', [])"
proof -
  have "dc_pressed_modifiers c' = []" using assms
  proof (induction ms arbitrary: c m fx)
    case (Cons x ms)
    obtain env msg where x: "x = (env, msg)" by fastforce
    obtain keep c1 m1 fx1 where s: "on_authorized_message env msg (c, m) = (keep, (c1, m1), fx1)" by (metis prod.exhaust)
    have "dc_pressed_modifiers c1 = []" using message_modifiers[of env msg c m] Cons.prems(1,2) x s by simp
    then show ?case using Cons x s by (cases keep) (auto split: prod.splits)
  qed simp
  then show ?thesis by (simp add: release_pressed_modifiers_def)
qed

definition shift_down :: key_event where
  "shift_down = \<lparr>ke_down = True, ke_press = False, ke_union = Some (Chr 42), ke_mode = Known MapMode\<rparr>"

definition keyboard_conn :: dispatch_conn where
  "keyboard_conn = (sample_dispatch Remote)\<lparr>dc_options := sample_conn Remote\<rparr>"

theorem held_modifiers_not_released_witness:
  "\<exists>c' m'. peer_run [(sample_env False, PeerKey shift_down)] (keyboard_conn, []) = ((c', m'), [FxMoveTime 1000, FxKey shift_down False]) \<and>
     release_pressed_modifiers c' = (c', [])"
proof -
  let ?ms = "[(sample_env False, PeerKey shift_down)]"
  obtain c' m' fx where r: "peer_run ?ms (keyboard_conn, []) = ((c', m'), fx)" by (metis prod.exhaust)
  have "release_pressed_modifiers c' = (c', [])"
    by (rule held_modifiers_not_released[OF _ _ r])
       (simp_all add: held_only_def shift_down_def keyboard_conn_def sample_dispatch_def)
  moreover have "fx = [FxMoveTime 1000, FxKey shift_down False]"
    using r by (simp add: on_authorized_message_def on_scoped_message_def scope_defs keyboard_conn_def sample_dispatch_def sample_conn_def sample_env_def stay_def
        on_key_event_def peer_keyboard_enabled_def is_press_def is_enter_def shift_down_def Let_def)
  ultimately show ?thesis using r by blast
qed

text \<open>(C40) The file clipboard does not ask for a permission: in a desktop session that has neither the permission for the
  clipboard nor the one for files, a request for the files on the host's clipboard is served, if the host was built with
  the file clipboard and the peer's version has it. Text for the clipboard is refused at the same time.\<close>

theorem file_clipboard_unchecked:
  assumes "kind_of c = Some Remote" "\<not> dc_port_forward_socket c" "tg_unix_file_copy_paste (de_target env)"
    and "is_support_file_copy_paste (co_version (dc_options c))" "\<not> co_file (dc_options c)" "\<not> co_clipboard (dc_options c)"
  shows "peer_run [(env, PeerClipboard text), (env, PeerCliprdr (CliprdrRequest r))] (c, m) = ((c, m), [FxServeClip r])"
  using assms
  by (simp add: on_authorized_message_def on_scoped_message_def scope_defs stay_def on_clipboard_def on_cliprdr_def clipboard_enabled_def)

definition clip_conn :: dispatch_conn where
  "clip_conn = (sample_dispatch Remote)\<lparr>dc_options := (dc_options (sample_dispatch Remote))\<lparr>co_version := ''1.3.8''\<rparr>\<rparr>"

theorem file_clipboard_unchecked_witness:
  "peer_run [(sample_env True, PeerClipboard []), (sample_env True, PeerCliprdr (CliprdrRequest 7))] (clip_conn, []) =
   ((clip_conn, []), [FxServeClip 7])"
  by (rule file_clipboard_unchecked)
     (simp_all add: clip_conn_def sample_dispatch_def sample_conn_def sample_env_def is_support_file_copy_paste_def)

text \<open>Nor does playing the peer's sound wait for a voice call to be accepted: a desktop session that was never in a
  voice call starts the host's audio thread with a format message and plays the frames that follow.\<close>

theorem audio_without_voice_call:
  assumes "kind_of c = Some Remote" "\<not> dc_port_forward_socket c" "\<not> co_disable_audio (dc_options c)"
    and "\<not> co_voice_calling (dc_options c)" "dc_voice_call_request c = None"
  shows "snd (peer_run [(env, PeerMisc (Some (PmAudioFormat rate channels))), (env', PeerAudioFrame f)] (c, m)) =
    [FxAudioThread rate channels, FxAudioFrame f]"
  using assms by (simp add: on_authorized_message_def on_scoped_message_def scope_defs stay_def)

theorem audio_without_voice_call_witness:
  "snd (peer_run [(sample_env True, PeerMisc (Some (PmAudioFormat 48000 2))), (sample_env True, PeerAudioFrame [1])] (sample_dispatch Remote, [])) =
   [FxAudioThread 48000 2, FxAudioFrame [1]]"
  by (rule audio_without_voice_call) (simp_all add: sample_dispatch_def sample_conn_def)

section \<open>Refreshes\<close>

text \<open>The refreshes asked for by any connections, as the shared limiter lets them through: time and key.\<close>

fun limit_run :: "(int \<times> int) list \<Rightarrow> refresh_limiter \<Rightarrow> (int \<times> int) list" where
  "limit_run [] m = []"
| "limit_run ((now, key) # rs) m = (let (go, m) = limit_refresh now key m in (if go then [(now, key)] else []) @ limit_run rs m)"

lemma limit_run_spaced:
  assumes "sorted (map fst rs)"
  shows "\<forall>(t, k) \<in> set (limit_run rs m). (\<forall>t0. map_of m k = Some t0 \<longrightarrow> t - t0 \<ge> 1500)"
    and "sorted_wrt (\<lambda>(t, k) (t', k'). k = k' \<longrightarrow> t' - t \<ge> 1500) (limit_run rs m)"
proof -
  have "(\<forall>(t, k) \<in> set (limit_run rs m). (\<forall>t0. map_of m k = Some t0 \<longrightarrow> t - t0 \<ge> 1500)) \<and>
    sorted_wrt (\<lambda>(t, k) (t', k'). k = k' \<longrightarrow> t' - t \<ge> 1500) (limit_run rs m)"
    using assms
  proof (induction rs arbitrary: m)
    case (Cons r rs)
    obtain now key where r: "r = (now, key)" by fastforce
    have IH: "\<forall>(t, k) \<in> set (limit_run rs m'). (\<forall>t0. map_of m' k = Some t0 \<longrightarrow> t - t0 \<ge> 1500)"
      "sorted_wrt (\<lambda>(t, k) (t', k'). k = k' \<longrightarrow> t' - t \<ge> 1500) (limit_run rs m')" for m'
      using Cons.IH[of m'] Cons.prems by auto
    show ?case
    proof (cases "fst (limit_refresh now key m)")
      case True
      then have l: "limit_refresh now key m = (True, AList.update key now m)" "\<And>t0. map_of m key = Some t0 \<Longrightarrow> now - t0 \<ge> 1500"
        by (auto simp: limit_refresh_def split: option.splits if_splits)
      have u: "map_of (AList.update key now m) = (map_of m)(key \<mapsto> now)" by (rule update_conv')
      let ?rest = "limit_run rs (AList.update key now m)"
      have same: "t - now \<ge> 1500" if "(t, key) \<in> set ?rest" for t using IH(1)[of "AList.update key now m"] that u by fastforce
      have other: "t - t0 \<ge> 1500" if "(t, k) \<in> set ?rest" "k \<noteq> key" "map_of m k = Some t0" for t k t0
        using IH(1)[of "AList.update key now m"] that u by fastforce
      have old: "t - t0 \<ge> 1500" if "(t, k) \<in> set ?rest" "map_of m k = Some t0" for t k t0
        using same[of t] other[OF that(1) _ that(2)] l(2)[of t0] that by (cases "k = key") auto
      have "limit_run (r # rs) m = (now, key) # ?rest" by (simp add: r l(1))
      then show ?thesis using same old l(2) IH(2)[of "AList.update key now m"] by auto
    next
      case False
      then have "limit_refresh now key m = (False, m)" by (auto simp: limit_refresh_def split: option.splits if_splits)
      then show ?thesis using IH[of m] by (simp add: r)
    qed
  qed simp
  then show "\<forall>(t, k) \<in> set (limit_run rs m). (\<forall>t0. map_of m k = Some t0 \<longrightarrow> t - t0 \<ge> 1500)"
    "sorted_wrt (\<lambda>(t, k) (t', k'). k = k' \<longrightarrow> t' - t \<ge> 1500) (limit_run rs m)" by auto
qed

text \<open>However often peers ask for a refresh, two that are let through for the same display, or two for all displays, are
  at least 1.5 seconds apart, and one that is asked for 1.5 seconds after the last is let through. The two kinds do not
  limit each other: a display may be refreshed by itself right after all of them.\<close>

theorem refreshes_spaced:
  assumes "sorted (map fst rs)"
  shows "sorted_wrt (\<lambda>(t, k) (t', k'). k = k' \<longrightarrow> t' - t \<ge> 1500) (limit_run rs []) \<and>
    (map_of m k = Some t \<longrightarrow> fst (limit_refresh (t + 1500) k m)) \<and>
    snd (refresh_video_display (now + 1) (Some 0) (fst (refresh_video_display now None []))) = [FxRefresh (Some 0)]"
proof -
  have "refresh_key (Some 0) = 0" by (simp add: refresh_key_def wrap_i64_def)
  then show ?thesis
    using limit_run_spaced(2)[OF assms, of "[]"]
    by (auto simp: limit_refresh_def refresh_video_display_def refresh_key_def[of None] split: option.split)
qed

theorem refreshes_spaced_witness:
  "limit_run [(0, 0), (500, 0), (1600, 0), (1700, 1)] [] = [(0, 0), (1600, 0), (1700, 1)] \<and>
   sorted_wrt (\<lambda>(t, k) (t', k'). k = k' \<longrightarrow> t' - t \<ge> 1500) (limit_run [(0, 0), (500, 0), (1600, 0), (1700, 1)] [])"
  using refreshes_spaced[of "[(0, 0), (500, 0), (1600, 0), (1700, 1)]" "[]" 0 0 0] by (simp add: limit_refresh_def)

section \<open>Coordinates on macOS\<close>

text \<open>On a scaled display the position of the cursor that the host reports and the mouse event that the peer sends for that
  point match: sending a reported position back puts the pointer where it was.\<close>

theorem retina_roundtrip:
  assumes "retina_on_cursor_pos ds current (x, y) = Some (x', y')" "mouse_type e \<notin> {3, 4, 5}"
  shows "retina_on_mouse_event ds current (e\<lparr>me_x := x', me_y := y'\<rparr>) = e\<lparr>me_x := x, me_y := y\<rparr>"
  using assms by (auto simp: retina_on_cursor_pos_def retina_on_mouse_event_def mouse_type_def Let_def split: if_splits)

theorem retina_roundtrip_witness:
  "retina_on_mouse_event [\<lparr>hd_name = [], hd_virtual = False, hd_x = 100, hd_y = 0, hd_width = 2880, hd_height = 1800, hd_scale = 2\<rparr>] 0
     \<lparr>me_mask = 0, me_x = 300, me_y = 14\<rparr> = \<lparr>me_mask = 0, me_x = 200, me_y = 7\<rparr>"
  using retina_roundtrip[of "[\<lparr>hd_name = [], hd_virtual = False, hd_x = 100, hd_y = 0, hd_width = 2880, hd_height = 1800, hd_scale = 2\<rparr>]" 0
      200 7 300 14 "\<lparr>me_mask = 0, me_x = 0, me_y = 0\<rparr>"]
  by (simp add: retina_on_cursor_pos_def mouse_type_def MOUSE_TYPE_MASK_def)

end
