(* ===== verification/ClipboardFormat.thy ===== *)
theory ClipboardFormat
  imports NetAddr FileSystem
begin

text \<open>
  Files on the clipboard, \<^verbatim>\<open>libs/clipboard/src/platform/unix\<close>: the descriptors of the copied files as they are sent
  (\<^verbatim>\<open>local_file.rs\<close>) and read (\<^verbatim>\<open>filetype.rs\<close>), and the end that holds the files and serves their contents by
  ranges (\<^verbatim>\<open>serv_files.rs\<close>). UTF-16 is the crate \<open>utf16string\<close>: an encoder and a decoder, with the laws \<open>utf16_ok\<close>.
  Panics are \<open>None\<close>.
\<close>

section \<open>Descriptors\<close>

definition FLAGS_FD_ATTRIBUTES :: u32 where "FLAGS_FD_ATTRIBUTES = 0x04"
definition FLAGS_FD_SIZE :: u32 where "FLAGS_FD_SIZE = 0x40"
definition FLAGS_FD_LAST_WRITE :: u32 where "FLAGS_FD_LAST_WRITE = 0x20"
definition FLAGS_FD_PROGRESSUI :: u32 where "FLAGS_FD_PROGRESSUI = 0x4000"
definition FLAGS_FD_UNIX_MODE :: u32 where "FLAGS_FD_UNIX_MODE = 0x08"
definition LDAP_EPOCH_DELTA :: int where "LDAP_EPOCH_DELTA = 116444772610000000"

definition PERM_READ :: int where "PERM_READ = 0x124"
definition PERM_RW :: int where "PERM_RW = 0x1A4"
definition PERM_SELF_RO :: int where "PERM_SELF_RO = 0x100"
definition PERM_RWX :: int where "PERM_RWX = 0x1ED"

datatype cliprdr_error = CliprdrName | CliprdrInit | CliprdrOutOfMemory | ClipboardInternalError | ClipboardOccupied | ConversionFailure
  | OpenClipboard | FileError string | InvalidRequest string | CommonError string | UnknownError nat

datatype clipboard_file =
    NotifyCallback string string string
  | MonitorReady
  | FormatList "(int \<times> string) list"
  | FormatListResponse int
  | FormatDataRequest int
  | FormatDataResponse int bytes
  | FileContentsRequest int int int int int int bool int
  | FileContentsResponse int int bytes
  | TryEmpty
  | ClipFiles "(string \<times> int) list"

datatype clip_kind = ClipFile | ClipDirectory

text \<open>Times are nanoseconds since 1970. The four times of a description are the same.\<close>

record file_description =
  fd_conn_id :: int
  fd_name :: string
  fd_kind :: clip_kind
  fd_last_modified :: int
  fd_size :: int
  fd_perm :: int

text \<open>A file of this end. Its handle is the position of the open file.\<close>

record local_file =
  lf_relative_root :: "string list"
  lf_path :: "string list"
  lf_handle :: "nat option"
  lf_offset :: nat
  lf_size :: nat
  lf_last_write_time :: int
  lf_is_dir :: bool
  lf_perm :: u32
  lf_read_only :: bool
  lf_hidden :: bool
  lf_system :: bool
  lf_archive :: bool
  lf_normal :: bool

record utf16 =
  u16_encode :: "string \<Rightarrow> bytes"
  u16_decode :: "bytes \<Rightarrow> string option"

text \<open>What is encoded reads back, zero units after it are NUL characters, and every character takes a whole number of units.\<close>

definition utf16_ok :: "utf16 \<Rightarrow> bool" where
  "utf16_ok u \<longleftrightarrow> (\<forall>s k. u16_decode u (u16_encode u s @ replicate (2 * k) 0) = Some (s @ replicate k (CHR 0x00))) \<and>
     (\<forall>s. even (length (u16_encode u s)))"

definition put_le32 :: "u32 \<Rightarrow> bytes" where "put_le32 w = le_bytes 4 (unat w)"
definition put_u64_le :: "int \<Rightarrow> bytes" where "put_u64_le n = le_bytes 8 (nat n)"
definition get_u32_le :: "bytes \<Rightarrow> u32" where "get_u32_le bs = word_of_nat (le_value (take 4 bs))"
definition get_u64_le :: "bytes \<Rightarrow> int" where "get_u64_le bs = int (le_value (take 8 bs))"

fun join_slash :: "string list \<Rightarrow> string" where
  "join_slash [] = []"
| "join_slash [s] = s"
| "join_slash (s # ss) = s @ ''/'' @ join_slash ss"

definition path_text :: "string list \<Rightarrow> string" where "path_text path = ''/'' @ join_slash path"

text \<open>The path as it is sent: relative to the directory of the first copied path if it is below it.\<close>

definition strip_root :: "string list \<Rightarrow> string list \<Rightarrow> string" where
  "strip_root root path =
     (if take (length root) path = root then join_slash (drop (length root) path)
      else path_text path)"

definition flag :: "bool \<Rightarrow> u32 \<Rightarrow> u32" where "flag b w = (if b then w else 0)"

definition file_attributes :: "local_file \<Rightarrow> u32" where
  "file_attributes l = or (flag (lf_read_only l) 0x1) (or (flag (lf_hidden l) 0x2) (or (flag (lf_system l) 0x4)
     (or (flag (lf_is_dir l) 0x10) (or (flag (lf_archive l) 0x20) (flag (lf_normal l) 0x80)))))"

definition bin_flags :: u32 where
  "bin_flags = or FLAGS_FD_SIZE (or FLAGS_FD_LAST_WRITE (or FLAGS_FD_ATTRIBUTES (or FLAGS_FD_PROGRESSUI FLAGS_FD_UNIX_MODE)))"

definition win32_time :: "local_file \<Rightarrow> int" where
  "win32_time l = (max 0 (lf_last_write_time l) mod 18446744073709551616) div 100 + LDAP_EPOCH_DELTA"

text \<open>A name of more than 520 bytes makes the length of the padding underflow.\<close>

definition as_bin :: "utf16 \<Rightarrow> local_file \<Rightarrow> bytes option" where
  "as_bin u l =
     (let name = u16_encode u (strip_root (lf_relative_root l) (lf_path l)) in
      if length name > 520 then None
      else Some (put_le32 bin_flags @ replicate 32 0 @ put_le32 (file_attributes l) @ replicate 12 0 @ put_le32 (lf_perm l) @
        put_u64_le (win32_time l) @ put_le32 (word_of_nat (lf_size l div 4294967296)) @ put_le32 (word_of_nat (lf_size l)) @
        name @ replicate (520 - length name) 0))"

definition parsed_perm :: "u32 \<Rightarrow> u32 \<Rightarrow> u32 \<Rightarrow> int" where
  "parsed_perm flags attributes perm =
     (if and flags FLAGS_FD_UNIX_MODE \<noteq> 0 then int (unat perm mod 65536)
      else if attributes = 0x80 then PERM_RWX
      else if and attributes 0x01 \<noteq> 0 then PERM_READ
      else if and attributes 0x02 \<noteq> 0 then PERM_SELF_RO
      else if and attributes 0x10 \<noteq> 0 then PERM_RWX
      else PERM_RW)"

definition parsed_time :: "u32 \<Rightarrow> int \<Rightarrow> int" where
  "parsed_time flags t =
     (if and flags FLAGS_FD_LAST_WRITE \<noteq> 0 \<and> t \<ge> LDAP_EPOCH_DELTA then (t - LDAP_EPOCH_DELTA) * 100 mod 18446744073709551616 else 0)"

definition trim_end_nul :: "string \<Rightarrow> string" where
  "trim_end_nul s = rev (dropWhile (\<lambda>c. c = CHR 0x00) (rev s))"

definition parsed_name :: "string \<Rightarrow> string" where
  "parsed_name s = trim_end_nul (map (\<lambda>c. if c = CHR 0x5C then CHR ''/'' else c) s)"

definition parse_file_descriptor :: "utf16 \<Rightarrow> int \<Rightarrow> bytes \<Rightarrow> cliprdr_error + file_description" where
  "parse_file_descriptor u conn_id bs =
     (let flags = get_u32_le bs; attributes = get_u32_le (drop 36 bs); perm = get_u32_le (drop 52 bs);
          last_write_time = get_u64_le (drop 56 bs);
          high = get_u32_le (drop 64 bs); low = get_u32_le (drop 68 bs); block = take 520 (drop 72 bs)
      in case u16_decode u block of
           None \<Rightarrow> Inl ConversionFailure
         | Some wstr \<Rightarrow>
             if and flags FLAGS_FD_ATTRIBUTES = 0 then Inl (InvalidRequest ''file description must have valid attributes'')
             else Inr \<lparr>fd_conn_id = conn_id, fd_name = parsed_name wstr,
               fd_kind = (if and attributes 0x10 \<noteq> 0 then ClipDirectory else ClipFile),
               fd_last_modified = parsed_time flags last_write_time,
               fd_size = int (unat high) * 4294967296 + int (unat low), fd_perm = parsed_perm flags attributes perm\<rparr>)"

fun parse_descriptors :: "utf16 \<Rightarrow> int \<Rightarrow> nat \<Rightarrow> bytes \<Rightarrow> cliprdr_error + file_description list" where
  "parse_descriptors u conn_id 0 bs = Inr []"
| "parse_descriptors u conn_id (Suc n) bs =
     (case parse_file_descriptor u conn_id bs of
        Inl e \<Rightarrow> Inl e
      | Inr d \<Rightarrow> (case parse_descriptors u conn_id n (drop 592 bs) of Inl e \<Rightarrow> Inl e | Inr ds \<Rightarrow> Inr (d # ds)))"

definition parse_file_descriptors :: "utf16 \<Rightarrow> int \<Rightarrow> bytes \<Rightarrow> cliprdr_error + file_description list" where
  "parse_file_descriptors u conn_id pdu =
     (if length pdu < 4 then Inl (InvalidRequest ''file descriptor request with infficient length'')
      else
        (let count = unat (get_u32_le pdu); data = drop 4 pdu in
         if data = [] \<and> count = 0 then Inr []
         else if length data \<noteq> 592 * count then Inl (InvalidRequest ''file descriptor request with invalid length'')
         else parse_descriptors u conn_id count data))"

fun build_bins :: "utf16 \<Rightarrow> local_file list \<Rightarrow> bytes option" where
  "build_bins u [] = Some []"
| "build_bins u (l # ls) = (case as_bin u l of None \<Rightarrow> None | Some b \<Rightarrow> map_option ((@) b) (build_bins u ls))"

definition build_file_list_pdu :: "utf16 \<Rightarrow> local_file list \<Rightarrow> bytes option" where
  "build_file_list_pdu u ls = map_option ((@) (put_le32 (word_of_nat (length ls)))) (build_bins u ls)"

section \<open>A list of files reads back\<close>

lemma length_put [simp]: "length (put_le32 w) = 4" "length (put_u64_le n) = 8"
  by (simp_all add: put_le32_def put_u64_le_def)

lemma get_put_le32 [simp]: "get_u32_le (put_le32 w @ bs) = w"
proof -
  have "unat w < 256 ^ 4" using unsigned_less[of w] by simp
  then show ?thesis by (simp add: get_u32_le_def put_le32_def le_value_bytes)
qed

lemma get_put_u64 [simp]: "\<lbrakk>0 \<le> n; n < 18446744073709551616\<rbrakk> \<Longrightarrow> get_u64_le (put_u64_le n @ bs) = n"
  by (simp add: get_u64_le_def put_u64_le_def le_value_bytes nat_less_iff)

text \<open>What the reader gets for a file.\<close>

definition description_of :: "int \<Rightarrow> local_file \<Rightarrow> file_description" where
  "description_of conn_id l = \<lparr>fd_conn_id = conn_id, fd_name = strip_root (lf_relative_root l) (lf_path l),
     fd_kind = (if lf_is_dir l then ClipDirectory else ClipFile),
     fd_last_modified = max 0 (lf_last_write_time l) div 100 * 100,
     fd_size = int (lf_size l), fd_perm = int (unat (lf_perm l) mod 65536)\<rparr>"

definition sendable :: "utf16 \<Rightarrow> local_file \<Rightarrow> bool" where
  "sendable u l \<longleftrightarrow> length (u16_encode u (strip_root (lf_relative_root l) (lf_path l))) \<le> 520 \<and>
     list_all (\<lambda>c. c \<noteq> CHR 0x00 \<and> c \<noteq> CHR 0x5C) (strip_root (lf_relative_root l) (lf_path l)) \<and>
     lf_size l < 18446744073709551616 \<and> lf_last_write_time l < 18446744073709551616 - 100"

lemma bin_flags_set: "and bin_flags FLAGS_FD_ATTRIBUTES \<noteq> 0" "and bin_flags FLAGS_FD_UNIX_MODE \<noteq> 0" "and bin_flags FLAGS_FD_LAST_WRITE \<noteq> 0"
  by (simp_all add: bin_flags_def FLAGS_FD_ATTRIBUTES_def FLAGS_FD_SIZE_def FLAGS_FD_LAST_WRITE_def FLAGS_FD_PROGRESSUI_def FLAGS_FD_UNIX_MODE_def)

lemma flag_and: "and (flag b w) v = flag b (and w v)"
  by (simp add: flag_def)

lemma directory_flag: "and (file_attributes l) 0x10 \<noteq> 0 \<longleftrightarrow> lf_is_dir l"
proof -
  have "and (file_attributes l) 0x10 = flag (lf_is_dir l) 0x10"
  proof -
    have z: "and (0x1 :: u32) 0x10 = 0" "and (0x2 :: u32) 0x10 = 0" "and (0x4 :: u32) 0x10 = 0" "and (0x20 :: u32) 0x10 = 0"
      "and (0x80 :: u32) 0x10 = 0" "and (0x10 :: u32) 0x10 = 0x10" "\<And>b. flag b 0 = 0" by (simp_all add: flag_def)
    show ?thesis unfolding file_attributes_def bit.conj_disj_distrib2 flag_and z by (simp only: or.left_neutral or.right_neutral)
  qed
  then show ?thesis by (simp add: flag_def)
qed

lemma trim_end_nul_append [simp]:
  "list_all (\<lambda>c. c \<noteq> CHR 0x00 \<and> c \<noteq> CHR 0x5C) s \<Longrightarrow> trim_end_nul (s @ replicate k (CHR 0x00)) = s"
proof -
  assume s: "list_all (\<lambda>c. c \<noteq> CHR 0x00 \<and> c \<noteq> CHR 0x5C) s"
  have "dropWhile (\<lambda>c. c = CHR 0x00) (replicate k (CHR 0x00) @ rev s) = dropWhile (\<lambda>c. c = CHR 0x00) (rev s)"
    by (rule dropWhile_append2) simp
  moreover have "dropWhile (\<lambda>c. c = CHR 0x00) (rev s) = rev s"
    using s by (cases s rule: rev_cases) simp_all
  ultimately show ?thesis by (simp add: trim_end_nul_def)
qed

lemma parsed_name_padded:
  "list_all (\<lambda>c. c \<noteq> CHR 0x00 \<and> c \<noteq> CHR 0x5C) s \<Longrightarrow> parsed_name (s @ replicate k (CHR 0x00)) = s"
proof -
  assume s: "list_all (\<lambda>c. c \<noteq> CHR 0x00 \<and> c \<noteq> CHR 0x5C) s"
  then have "map (\<lambda>c. if c = CHR 0x5C then CHR ''/'' else c) s = s" by (induction s) simp_all
  with s show ?thesis by (simp add: parsed_name_def)
qed

lemma parsed_time_win32:
  assumes "lf_last_write_time l < 18446744073709551616 - 100"
  shows "parsed_time bin_flags (win32_time l) = max 0 (lf_last_write_time l) div 100 * 100"
    "0 \<le> win32_time l" "win32_time l < 18446744073709551616"
proof -
  let ?t = "max 0 (lf_last_write_time l)"
  have t: "0 \<le> ?t" "?t < 18446744073709551616" using assms by auto
  then have w: "win32_time l = ?t div 100 + LDAP_EPOCH_DELTA" by (simp add: win32_time_def)
  have "0 \<le> ?t div 100 * 100" "?t div 100 * 100 \<le> ?t" by simp_all
  with t have "?t div 100 * 100 mod 18446744073709551616 = ?t div 100 * 100" by (intro mod_pos_pos_trivial) linarith+
  then show "parsed_time bin_flags (win32_time l) = ?t div 100 * 100"
    using t by (simp add: parsed_time_def w bin_flags_set)
  show "0 \<le> win32_time l" "win32_time l < 18446744073709551616" using t by (simp_all add: w LDAP_EPOCH_DELTA_def)
qed

lemma parsed_size:
  assumes "n < 18446744073709551616"
  shows "int (unat (word_of_nat (n div 4294967296) :: u32)) * 4294967296 + int (unat (word_of_nat n :: u32)) = int n"
proof -
  have "n div 4294967296 < 4294967296" using assms by (simp add: less_mult_imp_div_less)
  then have "unat (word_of_nat (n div 4294967296) :: u32) = n div 4294967296" by (simp add: unat_of_nat take_bit_eq_mod)
  moreover have "unat (word_of_nat n :: u32) = n mod 4294967296" by (simp add: unat_of_nat take_bit_eq_mod)
  ultimately have "int (unat (word_of_nat (n div 4294967296) :: u32)) * 4294967296 + int (unat (word_of_nat n :: u32)) =
      int (n div 4294967296 * 4294967296 + n mod 4294967296)" by (simp only: of_nat_add of_nat_mult of_nat_numeral)
  also have "\<dots> = int n" by (simp only: div_mult_mod_eq)
  finally show ?thesis .
qed

lemma as_bin_length: "as_bin u l = Some b \<Longrightarrow> length b = 592"
  by (auto simp: as_bin_def Let_def split: if_splits)

lemma parse_as_bin:
  assumes u: "utf16_ok u" and s: "sendable u l" and b: "as_bin u l = Some b"
  shows "parse_file_descriptor u conn_id (b @ rest) = Inr (description_of conn_id l)"
proof -
  let ?s = "strip_root (lf_relative_root l) (lf_path l)"
  let ?n = "u16_encode u ?s"
  let ?size = "put_le32 (word_of_nat (lf_size l div 4294967296)) @ put_le32 (word_of_nat (lf_size l))"
  have n: "length ?n \<le> 520" "even (length ?n)" using s u by (simp_all add: sendable_def utf16_ok_def)
  then obtain k where k: "520 - length ?n = 2 * k" by (metis dvd_diff_nat even_numeral evenE)
  have bs: "b @ rest = put_le32 bin_flags @ replicate 32 0 @ put_le32 (file_attributes l) @ replicate 12 0 @ put_le32 (lf_perm l) @
      put_u64_le (win32_time l) @ ?size @ (?n @ replicate (2 * k) 0) @ rest"
    using b n by (simp add: as_bin_def Let_def k split: if_splits)
  have len: "length (?n @ replicate (2 * k) 0) = 520" using n k by simp
  have block: "take 520 (drop 72 (b @ rest)) = ?n @ replicate (2 * k) 0" unfolding bs using len by simp
  have "get_u32_le (b @ rest) = bin_flags" "get_u32_le (drop 36 (b @ rest)) = file_attributes l"
    "get_u32_le (drop 52 (b @ rest)) = lf_perm l" "get_u64_le (drop 56 (b @ rest)) = win32_time l"
    "get_u32_le (drop 64 (b @ rest)) = word_of_nat (lf_size l div 4294967296)" "get_u32_le (drop 68 (b @ rest)) = word_of_nat (lf_size l)"
    unfolding bs using parsed_time_win32(2,3)[of l] s by (simp_all add: sendable_def)
  moreover have "u16_decode u (take 520 (drop 72 (b @ rest))) = Some (?s @ replicate k (CHR 0x00))"
    using u unfolding block utf16_ok_def by blast
  moreover have "parsed_name (?s @ replicate k (CHR 0x00)) = ?s" using s by (simp add: sendable_def parsed_name_padded)
  ultimately show ?thesis
    using s parsed_size[of "lf_size l"] parsed_time_win32(1)[of l] bin_flags_set
    by (simp add: parse_file_descriptor_def Let_def description_of_def sendable_def parsed_perm_def directory_flag)
qed

lemma build_bins_length: "build_bins u ls = Some bs \<Longrightarrow> length bs = 592 * length ls"
  by (induction ls arbitrary: bs) (auto split: option.splits dest: as_bin_length)

lemma parse_build_bins:
  "\<lbrakk>utf16_ok u; list_all (sendable u) ls; build_bins u ls = Some bs\<rbrakk> \<Longrightarrow>
   parse_descriptors u conn_id (length ls) (bs @ rest) = Inr (map (description_of conn_id) ls)"
proof (induction ls arbitrary: bs)
  case (Cons l ls)
  then obtain b bs' where b: "as_bin u l = Some b" "build_bins u ls = Some bs'" "bs = b @ bs'" by (auto split: option.splits)
  have "parse_file_descriptor u conn_id (b @ bs' @ rest) = Inr (description_of conn_id l)"
    using parse_as_bin[OF Cons.prems(1) _ b(1)] Cons.prems(2) by simp
  moreover have "parse_descriptors u conn_id (length ls) (bs' @ rest) = Inr (map (description_of conn_id) ls)"
    using Cons b(2) by simp
  ultimately show ?case using b(3) as_bin_length[OF b(1)] by simp
qed simp

lemma build_bins_sendable: "list_all (sendable u) ls \<Longrightarrow> \<exists>bs. build_bins u ls = Some bs"
  by (induction ls) (auto simp: sendable_def as_bin_def Let_def)

lemma file_list_reads_back:
  assumes "utf16_ok u" "list_all (sendable u) ls" "length ls < 4294967296"
  shows "\<exists>pdu. build_file_list_pdu u ls = Some pdu \<and> parse_file_descriptors u conn_id pdu = Inr (map (description_of conn_id) ls)"
proof -
  obtain bs where bs: "build_bins u ls = Some bs" using build_bins_sendable[OF assms(2)] by blast
  have c: "unat (word_of_nat (length ls) :: u32) = length ls" using assms(3) by (simp add: unat_of_nat take_bit_eq_mod)
  let ?pdu = "put_le32 (word_of_nat (length ls)) @ bs"
  have "parse_file_descriptors u conn_id ?pdu = Inr (map (description_of conn_id) ls)"
  proof (cases "ls = []")
    case True
    then show ?thesis using bs get_put_le32[of 0 "[]"] by (simp add: parse_file_descriptors_def)
  next
    case False
    then have "bs \<noteq> []" using build_bins_length[OF bs] by auto
    then show ?thesis
      using parse_build_bins[OF assms(1,2) bs, of conn_id "[]"] build_bins_length[OF bs] c by (simp add: parse_file_descriptors_def Let_def)
  qed
  then show ?thesis using bs by (simp add: build_file_list_pdu_def)
qed

text \<open>(C20) A list of copied files that can be sent reads back at the other end: every entry with its path below the directory
  that was copied from, its kind, its size, the low 16 bits of its permissions and its time, rounded down to 100 ns and with times
  before 1970 as zero, in the order of the list. It can be sent if it has fewer than \<open>2^32\<close> entries and each of them has a
  path of at most 260 UTF-16 units without a backslash or a zero character, and a size and a time that fit into 64 bits. A longer path makes the
  host panic whatever else was copied (\<open>long_name_panics\<close>). UTF-16 is encoded and decoded by a library (\<open>utf16_ok\<close>).\<close>

theorem file_list_roundtrip:
  assumes "utf16_ok u" "list_all (sendable u) ls" "length ls < 4294967296"
  shows "\<exists>pdu. build_file_list_pdu u ls = Some pdu \<and> parse_file_descriptors u conn_id pdu = Inr (map (description_of conn_id) ls)"
  using assms by (rule file_list_reads_back)

text \<open>UTF-16 on the characters below U+0100.\<close>

fun latin_decode :: "bytes \<Rightarrow> string option" where
  "latin_decode [] = Some []"
| "latin_decode [_] = None"
| "latin_decode (a # b # bs) = (if b = 0 then map_option ((#) (char_of (unat a))) (latin_decode bs) else None)"

definition latin_utf16 :: utf16 where
  "latin_utf16 = \<lparr>u16_encode = (\<lambda>s. concat (map (\<lambda>c. [word_of_nat (of_char c), 0]) s)), u16_decode = latin_decode\<rparr>"

lemma latin_length [simp]: "length (u16_encode latin_utf16 s) = 2 * length s"
  by (induction s) (simp_all add: latin_utf16_def)

lemma latin_zeros: "latin_decode (replicate (2 * k) 0) = Some (replicate k (CHR 0x00))"
  by (induction k) (simp_all add: char_of_def)

lemma latin_ok: "utf16_ok latin_utf16"
proof -
  have "latin_decode (concat (map (\<lambda>c. [word_of_nat (of_char c), 0]) s) @ replicate (2 * k) 0) = Some (s @ replicate k (CHR 0x00))" for s k
    by (induction s) (simp_all add: latin_zeros unat_of_nat char_of_take_bit_eq)
  then show ?thesis unfolding utf16_ok_def by (simp add: latin_utf16_def flip: latin_length)
      (metis dvd_triv_left latin_length latin_utf16_def utf16.select_convs(1))
qed

definition sample_file :: "string list \<Rightarrow> bool \<Rightarrow> nat \<Rightarrow> local_file" where
  "sample_file path dir n = \<lparr>lf_relative_root = [''home''], lf_path = ''home'' # path, lf_handle = None, lf_offset = 0, lf_size = n,
     lf_last_write_time = 1700000000123456789, lf_is_dir = dir, lf_perm = 0x81A4, lf_read_only = False, lf_hidden = False,
     lf_system = False, lf_archive = False, lf_normal = \<not> dir\<rparr>"

theorem file_list_roundtrip_witness:
  "\<exists>pdu. build_file_list_pdu latin_utf16 [sample_file [''d''] True 4096, sample_file [''d'', ''a.txt''] False 5] = Some pdu \<and>
    parse_file_descriptors latin_utf16 7 pdu =
      Inr [\<lparr>fd_conn_id = 7, fd_name = ''d'', fd_kind = ClipDirectory, fd_last_modified = 1700000000123456700, fd_size = 4096, fd_perm = 0x81A4\<rparr>,
           \<lparr>fd_conn_id = 7, fd_name = ''d/a.txt'', fd_kind = ClipFile, fd_last_modified = 1700000000123456700, fd_size = 5, fd_perm = 0x81A4\<rparr>]"
proof -
  let ?ls = "[sample_file [''d''] True 4096, sample_file [''d'', ''a.txt''] False 5]"
  have "list_all (sendable latin_utf16) ?ls" by (simp add: sendable_def sample_file_def strip_root_def)
  from file_list_roundtrip[OF latin_ok this, of 7] show ?thesis
    by (simp add: description_of_def sample_file_def strip_root_def)
qed

text \<open>A copied file whose path is longer than 260 UTF-16 units stops the list from being built: the padding of its name
  has a negative length, and the thread that builds the list panics, whatever else was copied.\<close>

theorem long_name_panics:
  assumes "l \<in> set ls" "length (u16_encode u (strip_root (lf_relative_root l) (lf_path l))) > 520"
  shows "build_file_list_pdu u ls = None"
proof -
  have "build_bins u ls = None" using assms by (induction ls) (auto simp: as_bin_def Let_def split: option.splits)
  then show ?thesis by (simp add: build_file_list_pdu_def)
qed

theorem long_name_panics_witness:
  "build_file_list_pdu latin_utf16 [sample_file [''a.txt''] False 5, sample_file [replicate 200 CHR ''d'', replicate 60 CHR ''e''] False 5] = None"
  by (rule long_name_panics[of "sample_file [replicate 200 CHR ''d'', replicate 60 CHR ''e''] False 5"])
     (simp_all add: sample_file_def strip_root_def)

text \<open>The start of 1970 in units of 100 ns since 1601 is 134774 days. The constant that the code uses is 3661 seconds more, so
  the time of a file that is sent to a reader that follows the specification is an hour, a minute and a second too late.\<close>

theorem epoch_delta_off:
  assumes "0 \<le> lf_last_write_time l" "lf_last_write_time l < 18446744073709551616"
  shows "win32_time l - 134774 * 86400 * 10000000 = lf_last_write_time l div 100 + 3661 * 10000000"
  using assms by (simp add: win32_time_def LDAP_EPOCH_DELTA_def)

theorem epoch_delta_off_witness:
  "win32_time (sample_file [] False 0) - 134774 * 86400 * 10000000 = 1700000000123456789 div 100 + 3661 * 10000000"
  using epoch_delta_off[of "sample_file [] False 0"] by (simp add: sample_file_def)

end
