(* ===== verification/ClipboardServe.thy ===== *)
theory ClipboardServe
  imports ClipboardFormat
begin

text \<open>
  The end that holds copied files, \<^verbatim>\<open>libs/clipboard/src/platform/unix/serv_files.rs\<close> and \<^verbatim>\<open>local_file.rs\<close>: the list of
  files, their handles, and the answers to requests for a size or a range. The files themselves are the argument
  \<open>disk\<close>: the contents of the file at a path, \<open>None\<close> for what cannot be opened, and which paths are regular files; they
  do not change while they are served. Panics are \<open>None\<close>.
\<close>

section \<open>Reading a file\<close>

record disk =
  dk_read :: "string list \<rightharpoonup> bytes"
  dk_is_file :: "string list \<Rightarrow> bool"

definition load_handle :: "disk \<Rightarrow> local_file \<Rightarrow> cliprdr_error + local_file" where
  "load_handle disk l =
     (if \<not> lf_is_dir l \<and> lf_handle l = None then
        (case dk_read disk (lf_path l) of None \<Rightarrow> Inl (FileError (path_text (lf_path l))) | Some _ \<Rightarrow> Inr (l\<lparr>lf_handle := Some 0\<rparr>))
      else Inr l)"

definition invalidate_handle :: "local_file \<Rightarrow> local_file" where
  "invalidate_handle l = l\<lparr>lf_offset := 0, lf_handle := None\<rparr>"

text \<open>The bytes from the position of the handle: all that were asked for, or an error.\<close>

definition read_exact_at :: "disk \<Rightarrow> nat \<Rightarrow> nat \<Rightarrow> local_file \<Rightarrow> (cliprdr_error + bytes) \<times> local_file" where
  "read_exact_at disk n offset l =
     (case load_handle disk l of
        Inl e \<Rightarrow> (Inl e, l)
      | Inr l \<Rightarrow>
          (case lf_handle l of
             None \<Rightarrow> (Inl (FileError (path_text (lf_path l))), l)
           | Some here \<Rightarrow>
               (let pos = (if offset \<noteq> lf_offset l then offset else here);
                    buf = take n (drop pos (case dk_read disk (lf_path l) of Some c \<Rightarrow> c | None \<Rightarrow> []))
                in if length buf < n then (Inl (FileError (path_text (lf_path l))), invalidate_handle l)
                   else if offset + n \<ge> lf_size l then (Inr buf, l\<lparr>lf_offset := 0, lf_handle := None\<rparr>)
                   else (Inr buf, l\<lparr>lf_offset := offset + n, lf_handle := Some (pos + n)\<rparr>))))"

section \<open>The copied files\<close>

record clip_files =
  cf_files :: "string list"
  cf_sigs :: "(int \<times> int option \<times> bool) list"
  cf_file_list :: "local_file list"
  cf_first_file_index :: "nat option"
  cf_files_pdu :: bytes

definition clear_files :: "clip_files \<Rightarrow> clip_files" where
  "clear_files cf = \<lparr>cf_files = [], cf_sigs = [], cf_file_list = [], cf_first_file_index = None, cf_files_pdu = []\<rparr>"

text \<open>The position of the first entry that is no directory.\<close>

fun first_file :: "nat \<Rightarrow> local_file list \<Rightarrow> nat option" where
  "first_file i [] = None"
| "first_file i (l # ls) = (if lf_is_dir l then first_file (Suc i) ls else Some i)"

text \<open>\<open>list\<close> is what \<open>construct_file_list\<close> returns for the paths, \<open>sigs\<close> their sizes, times and kinds now. The list is kept
  when nothing has changed and no directory was copied.\<close>

definition sync_files :: "utf16 \<Rightarrow> string list \<Rightarrow> (int \<times> int option \<times> bool) list \<Rightarrow> cliprdr_error + local_file list \<Rightarrow> clip_files \<Rightarrow>
    ((cliprdr_error option) \<times> clip_files) option" where
  "sync_files u files sigs found cf =
     (if cf_files cf = files \<and> cf_sigs cf = sigs \<and> \<not> list_ex (\<lambda>(_, _, d). d) sigs then Some (None, cf)
      else case found of
          Inl e \<Rightarrow> Some (Some e, cf)
        | Inr ls \<Rightarrow>
            (case build_file_list_pdu u ls of
               None \<Rightarrow> None
             | Some pdu \<Rightarrow> Some (None, \<lparr>cf_files = files, cf_sigs = sigs, cf_file_list = ls, cf_first_file_index = first_file 0 ls, cf_files_pdu = pdu\<rparr>)))"

datatype contents_request = SizeRequest int nat | RangeRequest int nat nat nat

definition get_files_for_audit :: "disk \<Rightarrow> contents_request \<Rightarrow> clip_files \<Rightarrow> clipboard_file option" where
  "get_files_for_audit disk r cf =
     (case r of
        RangeRequest _ idx offset _ \<Rightarrow>
          if Some idx = cf_first_file_index cf \<and> offset = 0 then
            (let files = map (\<lambda>l. (path_text (lf_path l), int (lf_size l))) (filter (\<lambda>l. dk_is_file disk (lf_path l)) (cf_file_list cf))
             in if files = [] then None else Some (ClipFiles files))
          else None
      | SizeRequest _ _ \<Rightarrow> None)"

text \<open>After an answer the next file of the list is opened.\<close>

fun reload_next :: "disk \<Rightarrow> local_file list \<Rightarrow> (cliprdr_error option) \<times> local_file list" where
  "reload_next disk [] = (None, [])"
| "reload_next disk (l # ls) =
     (if lf_is_dir l then (let (e, ls) = reload_next disk ls in (e, l # ls))
      else case load_handle disk l of Inl e \<Rightarrow> (Some e, l # ls) | Inr l \<Rightarrow> (None, l # ls))"

definition hot_reload :: "disk \<Rightarrow> nat \<Rightarrow> clipboard_file \<Rightarrow> local_file list \<Rightarrow> (cliprdr_error + clipboard_file) \<times> local_file list" where
  "hot_reload disk idx resp ls =
     (let (e, rest) = reload_next disk (drop (Suc idx) ls)
      in (case e of Some err \<Rightarrow> Inl err | None \<Rightarrow> Inr resp, take (Suc idx) ls @ rest))"

text \<open>\<open>offset + length\<close> wraps, and a buffer longer than \<open>isize::MAX\<close> panics.\<close>

definition range_size :: "nat \<Rightarrow> nat \<Rightarrow> nat \<Rightarrow> nat option" where
  "range_size sz offset len =
     (let n = (if (offset + len) mod 18446744073709551616 > sz then sz - offset else len)
      in if n \<ge> 9223372036854775808 then None else Some n)"

definition serve_file_contents :: "disk \<Rightarrow> contents_request \<Rightarrow> local_file list \<Rightarrow> ((cliprdr_error + clipboard_file) \<times> local_file list) option" where
  "serve_file_contents disk r ls =
     (case r of
        SizeRequest stream idx \<Rightarrow>
          if idx \<ge> length ls then Some (Inl (InvalidRequest ''invalid file index''), ls)
          else Some (hot_reload disk idx (FileContentsResponse 1 stream (le_bytes 8 (lf_size (ls ! idx)))) ls)
      | RangeRequest stream idx offset len \<Rightarrow>
          if idx \<ge> length ls then Some (Inl (InvalidRequest ''invalid file index''), ls)
          else if offset > lf_size (ls ! idx) then Some (Inl (InvalidRequest ''invalid reading offset''), ls)
          else
            (case range_size (lf_size (ls ! idx)) offset len of
               None \<Rightarrow> None
             | Some n \<Rightarrow>
                 (case read_exact_at disk n offset (ls ! idx) of
                    (Inl e, l) \<Rightarrow> Some (Inl e, ls[idx := l])
                  | (Inr buf, l) \<Rightarrow> Some (hot_reload disk idx (FileContentsResponse 1 stream buf) (ls[idx := l])))))"

text \<open>The numbers of a request are \<open>i32\<close> on the wire; \<open>as u64\<close> and \<open>as usize\<close> extend the sign.\<close>

definition u64_of_i32 :: "int \<Rightarrow> 64 word" where "u64_of_i32 i = word_of_int i"

definition request_of :: "int \<Rightarrow> int \<Rightarrow> int \<Rightarrow> int \<Rightarrow> int \<Rightarrow> int \<Rightarrow> cliprdr_error + contents_request" where
  "request_of stream list_index dw_flags low high cb =
     (if dw_flags = 1 then Inr (SizeRequest stream (unat (u64_of_i32 list_index)))
      else if dw_flags = 2 then
        Inr (RangeRequest stream (unat (u64_of_i32 list_index)) (unat (or (push_bit 32 (u64_of_i32 high)) (u64_of_i32 low))) (unat (u64_of_i32 cb)))
      else Inl (InvalidRequest ''got invalid FileContentsRequest''))"

definition read_file_contents :: "disk \<Rightarrow> int \<Rightarrow> int \<Rightarrow> int \<Rightarrow> int \<Rightarrow> int \<Rightarrow> int \<Rightarrow> clip_files \<Rightarrow>
    ((cliprdr_error + clipboard_file) list \<times> clip_files) option" where
  "read_file_contents disk stream list_index dw_flags low high cb cf =
     (case request_of stream list_index dw_flags low high cb of
        Inl e \<Rightarrow> Some ([Inl e], cf)
      | Inr r \<Rightarrow>
          (case serve_file_contents disk r (cf_file_list cf) of
             None \<Rightarrow> None
           | Some (res, ls) \<Rightarrow>
               Some ((case get_files_for_audit disk r cf of Some a \<Rightarrow> [Inr a] | None \<Rightarrow> []) @ [res], cf\<lparr>cf_file_list := ls\<rparr>)))"

text \<open>How both readers (\<^verbatim>\<open>fuse/cs.rs\<close>, \<^verbatim>\<open>macos/paste_task.rs\<close>) put an offset and a size into a request.\<close>

definition position_high :: "nat \<Rightarrow> int" where "position_high offset = wrap_i32 (int (offset div 4294967296))"
definition position_low :: "nat \<Rightarrow> int" where "position_low offset = wrap_i32 (int (offset mod 4294967296))"

lemma position_code [code]: "position_high offset = wrap_i32 (int offset div 4294967296)" "position_low offset = wrap_i32 (int offset mod 4294967296)"
  by (simp_all add: position_high_def position_low_def zdiv_int zmod_int)

section \<open>Requests on the wire\<close>

lemma u64_of_nonneg: "0 \<le> i \<Longrightarrow> i < 4294967296 \<Longrightarrow> unat (u64_of_i32 i) = nat i"
  by (simp add: u64_of_i32_def unsigned_of_int take_bit_int_eq_self)

lemma or_halves_nat:
  assumes "l < 4294967296"
  shows "or (push_bit 32 h) l = h * 4294967296 + (l :: nat)"
proof -
  have "take_bit 32 l = l" using assms by (simp add: take_bit_nat_eq_self)
  then have "bit l n \<Longrightarrow> \<not> 32 \<le> n" for n by (metis bit_take_bit_iff not_le)
  then have "and (push_bit 32 h) l = 0" by (intro bit_eqI) (auto simp: bit_simps)
  then have "or (push_bit 32 h) l = push_bit 32 h + l" by (simp add: disjunctive_add_eq_or)
  then show ?thesis by (simp add: push_bit_eq_mult)
qed

lemma or_halves:
  assumes "h < 2147483648" "l < 4294967296"
  shows "unat (or (push_bit 32 (word_of_nat h)) (word_of_nat l) :: 64 word) = h * 4294967296 + l"
proof -
  have l: "unat (word_of_nat l :: 64 word) = l" using assms(2) by (simp add: unat_of_nat take_bit_nat_eq_self)
  have h: "unat (word_of_nat h :: 64 word) = h" using assms(1) by (simp add: unat_of_nat take_bit_nat_eq_self)
  have "unat (push_bit 32 (word_of_nat h) :: 64 word) = take_bit 64 (push_bit 32 h)" by (simp only: unsigned_push_bit_eq h len_num0 len_num1 len_bit0 len_bit1) simp
  also have "\<dots> = push_bit 32 h" using assms(1) by (intro take_bit_nat_eq_self) (simp add: push_bit_eq_mult)
  finally show ?thesis using or_halves_nat[OF assms(2), of h] by (simp only: unsigned_or_eq l)
qed

text \<open>The offset arrives if bit 31 of it is not set. Otherwise the low half comes out negative, and the offset too large.\<close>

definition offset_survives :: "nat \<Rightarrow> bool" where
  "offset_survives o' \<longleftrightarrow> o' < 9223372036854775808 \<and> o' mod 4294967296 < 2147483648"

lemma position_nonneg:
  "o' < 9223372036854775808 \<Longrightarrow> position_high o' = int (o' div 4294967296)"
  "o' mod 4294967296 < 2147483648 \<Longrightarrow> position_low o' = int (o' mod 4294967296)"
  by (auto simp: position_high_def position_low_def i32_max_def intro!: wrap_i32_id)

lemma request_survives:
  assumes "offset_survives o'" "idx < 2147483648" "n < 2147483648"
  shows "request_of stream (int idx) 2 (position_low o') (position_high o') (int n) = Inr (RangeRequest stream idx o' n)"
proof -
  have "o' div 4294967296 < 2147483648" using assms(1) by (auto simp: offset_survives_def)
  then have "unat (or (push_bit 32 (word_of_nat (o' div 4294967296))) (word_of_nat (o' mod 4294967296)) :: 64 word) = o'"
    using or_halves[of "o' div 4294967296" "o' mod 4294967296"] by simp
  then show ?thesis
    using assms u64_of_nonneg[of "int idx"] u64_of_nonneg[of "int n"]
    by (simp add: request_of_def position_nonneg offset_survives_def u64_of_i32_def)
qed

lemma wrap_i32_negative:
  assumes "2147483648 \<le> i" "i < 4294967296"
  shows "wrap_i32 i = i - 4294967296"
proof -
  have q: "i div 2147483648 = 1" using assms by (intro int_div_pos_eq[of _ _ _ "i - 2147483648"]) auto
  then have "bit i 31" by (simp add: bit_iff_odd)
  moreover have "take_bit 32 i = i" using assms by (simp add: take_bit_int_eq_self)
  ultimately show ?thesis by (simp add: wrap_i32_def signed_take_bit_eq_take_bit_minus)
qed

lemma request_lost:
  assumes "o' < 9223372036854775808" "o' mod 4294967296 \<ge> 2147483648"
  shows "\<exists>idx' off n'. request_of stream idx 2 (position_low o') (position_high o') cb = Inr (RangeRequest stream idx' off n') \<and>
    off \<ge> 9223372036854775808"
proof -
  let ?l = "u64_of_i32 (position_low o')" and ?h = "push_bit 32 (u64_of_i32 (position_high o'))"
  let ?i = "int (o' mod 4294967296)"
  have i: "2147483648 \<le> ?i" "?i < 4294967296" using assms(2) by simp_all
  have low: "position_low o' = ?i - 4294967296" unfolding position_low_def by (rule wrap_i32_negative[OF i])
  have "(?i - 4294967296) div 9223372036854775808 = - 1"
    using i by (intro int_div_pos_eq[of _ _ _ "?i - 4294967296 + 9223372036854775808"]) auto
  then have "bit (?i - 4294967296) 63" by (simp add: bit_iff_odd)
  then have "bit ?l 63" unfolding u64_of_i32_def low by (simp only: bit_word_of_int_iff) simp
  then have b: "bit (or ?h ?l) 63" by (simp add: bit_simps)
  have "unat (or ?h ?l) \<ge> 2 ^ 63"
  proof (rule ccontr)
    assume "\<not> 2 ^ 63 \<le> unat (or ?h ?l)"
    then have "take_bit 63 (unat (or ?h ?l)) = unat (or ?h ?l)" by (simp add: take_bit_nat_eq_self)
    then have "\<not> bit (unat (or ?h ?l)) 63" by (metis bit_take_bit_iff less_irrefl)
    with b show False by (simp add: bit_unsigned_iff)
  qed
  then show ?thesis by (simp add: request_of_def)
qed

section \<open>Ranges are those of the files\<close>

text \<open>A file of the list can be read, its size is that of its contents, and its handle is where the offset says.\<close>

definition lf_ok :: "disk \<Rightarrow> local_file \<Rightarrow> bool" where
  "lf_ok disk l \<longleftrightarrow> (if lf_is_dir l then lf_handle l = None else (\<exists>c. dk_read disk (lf_path l) = Some c \<and> length c = lf_size l)) \<and>
     (case lf_handle l of None \<Rightarrow> lf_offset l = 0 | Some p \<Rightarrow> p = lf_offset l)"

definition lf_same :: "local_file \<Rightarrow> local_file \<Rightarrow> bool" where
  "lf_same l l' \<longleftrightarrow> lf_path l' = lf_path l \<and> lf_size l' = lf_size l \<and> lf_is_dir l' = lf_is_dir l"

definition range_of :: "disk \<Rightarrow> local_file \<Rightarrow> nat \<Rightarrow> nat \<Rightarrow> bytes" where
  "range_of disk l offset n = take n (drop offset (case dk_read disk (lf_path l) of Some c \<Rightarrow> c | None \<Rightarrow> []))"

lemma load_handle_ok:
  assumes "lf_ok disk l"
  shows "\<exists>l'. load_handle disk l = Inr l' \<and> lf_ok disk l' \<and> lf_same l l' \<and> (\<not> lf_is_dir l \<longrightarrow> lf_handle l' = Some (lf_offset l'))"
proof (cases "\<not> lf_is_dir l \<and> lf_handle l = None")
  case True
  then obtain c where "dk_read disk (lf_path l) = Some c" using assms by (auto simp: lf_ok_def)
  with True have "load_handle disk l = Inr (l\<lparr>lf_handle := Some 0\<rparr>)" by (simp add: load_handle_def)
  moreover have "lf_ok disk (l\<lparr>lf_handle := Some 0\<rparr>)" "lf_offset l = 0" using assms True by (auto simp: lf_ok_def)
  ultimately show ?thesis by (simp add: lf_same_def)
next
  case False
  then show ?thesis using assms by (auto simp: load_handle_def lf_ok_def lf_same_def)
qed

lemma read_exact_at_ok:
  assumes ok: "lf_ok disk l" and f: "\<not> lf_is_dir l" and r: "offset + n \<le> lf_size l"
  shows "\<exists>l'. read_exact_at disk n offset l = (Inr (range_of disk l offset n), l') \<and> lf_ok disk l' \<and> lf_same l l'"
proof -
  obtain l1 where l1: "load_handle disk l = Inr l1" "lf_ok disk l1" "lf_same l l1" "lf_handle l1 = Some (lf_offset l1)"
    using load_handle_ok[OF ok] f by blast
  obtain c where c: "dk_read disk (lf_path l) = Some c" "length c = lf_size l" using ok f by (auto simp: lf_ok_def)
  have p: "lf_path l1 = lf_path l" "lf_size l1 = lf_size l" "\<not> lf_is_dir l1" using l1(3) f by (simp_all add: lf_same_def)
  have pos: "(if offset \<noteq> lf_offset l1 then offset else lf_offset l1) = offset" by simp
  have "length (take n (drop offset c)) = n" using r c(2) by simp
  then show ?thesis
    using l1(1,2,4) p c r f
    by (auto simp: read_exact_at_def pos Let_def range_of_def lf_ok_def lf_same_def)
qed

lemma read_directory: "\<lbrakk>lf_ok disk l; lf_is_dir l\<rbrakk> \<Longrightarrow> read_exact_at disk n offset l = (Inl (FileError (path_text (lf_path l))), l)"
  by (simp add: read_exact_at_def load_handle_def lf_ok_def)

definition files_ok :: "disk \<Rightarrow> local_file list \<Rightarrow> bool" where
  "files_ok disk ls \<longleftrightarrow> list_all (lf_ok disk) ls \<and> list_all (\<lambda>l. lf_size l < 9223372036854775808) ls"

lemma lf_same_refl [simp]: "lf_same l l" by (simp add: lf_same_def)

lemma lf_same_trans: "lf_same a b \<Longrightarrow> lf_same b c \<Longrightarrow> lf_same a c" by (simp add: lf_same_def)

lemma reload_next_ok:
  "list_all (lf_ok disk) ls \<Longrightarrow> \<exists>ls'. reload_next disk ls = (None, ls') \<and> list_all (lf_ok disk) ls' \<and> list_all2 lf_same ls ls'"
proof (induction ls)
  case (Cons l ls)
  then show ?case using load_handle_ok[of disk l] by (auto simp: list_all2_refl split: prod.splits)
qed simp

lemma hot_reload_ok:
  assumes "list_all (lf_ok disk) ls"
  shows "\<exists>ls'. hot_reload disk idx resp ls = (Inr resp, ls') \<and> list_all (lf_ok disk) ls' \<and> list_all2 lf_same ls ls'"
proof -
  have "list_all (lf_ok disk) (drop (Suc idx) ls)" using assms by (auto simp: list_all_iff dest: in_set_dropD)
  from reload_next_ok[OF this] obtain rest where r: "reload_next disk (drop (Suc idx) ls) = (None, rest)"
    "list_all (lf_ok disk) rest" "list_all2 lf_same (drop (Suc idx) ls) rest" by blast
  have "list_all2 lf_same (take (Suc idx) ls @ drop (Suc idx) ls) (take (Suc idx) ls @ rest)"
    using r(3) by (intro list_all2_appendI) (simp_all add: list_all2_refl)
  then have "list_all2 lf_same ls (take (Suc idx) ls @ rest)" by simp
  moreover have "list_all (lf_ok disk) (take (Suc idx) ls @ rest)" using assms r(2) by (auto simp: list_all_iff dest: in_set_takeD)
  ultimately show ?thesis using r(1) by (simp add: hot_reload_def)
qed

text \<open>The answer to a request in terms of the files alone.\<close>

fun answer :: "disk \<Rightarrow> local_file list \<Rightarrow> contents_request \<Rightarrow> cliprdr_error + clipboard_file" where
  "answer disk ls (SizeRequest stream idx) =
     (if idx \<ge> length ls then Inl (InvalidRequest ''invalid file index'') else Inr (FileContentsResponse 1 stream (le_bytes 8 (lf_size (ls ! idx)))))"
| "answer disk ls (RangeRequest stream idx offset n) =
     (if idx \<ge> length ls then Inl (InvalidRequest ''invalid file index'')
      else if offset > lf_size (ls ! idx) then Inl (InvalidRequest ''invalid reading offset'')
      else if lf_is_dir (ls ! idx) then Inl (FileError (path_text (lf_path (ls ! idx))))
      else Inr (FileContentsResponse 1 stream (range_of disk (ls ! idx) offset n)))"

lemma served_answer_same: "list_all2 lf_same ls ls' \<Longrightarrow> answer disk ls' r = answer disk ls r"
  by (cases r) (auto simp: list_all2_conv_all_nth lf_same_def range_of_def)

lemma files_ok_same: "\<lbrakk>list_all2 lf_same ls ls'; list_all (\<lambda>l. lf_size l < k) ls\<rbrakk> \<Longrightarrow> list_all (\<lambda>l. lf_size l < k) ls'"
  by (auto simp: list_all2_conv_all_nth list_all_length lf_same_def)

fun small_range :: "contents_request \<Rightarrow> bool" where
  "small_range (RangeRequest _ _ _ n) \<longleftrightarrow> n < 9223372036854775808"
| "small_range _ \<longleftrightarrow> True"

lemma serve_ok:
  assumes ok: "files_ok disk ls" and r: "small_range r"
  shows "\<exists>ls'. serve_file_contents disk r ls = Some (answer disk ls r, ls') \<and> files_ok disk ls' \<and> list_all2 lf_same ls ls'"
proof (cases r)
  case (SizeRequest stream idx)
  show ?thesis
  proof (cases "idx \<ge> length ls")
    case False
    then show ?thesis
      using SizeRequest ok hot_reload_ok[of disk ls idx "FileContentsResponse 1 stream (le_bytes 8 (lf_size (ls ! idx)))"] files_ok_same
      by (auto simp: serve_file_contents_def files_ok_def)
  qed (use SizeRequest ok in \<open>simp add: serve_file_contents_def list_all2_refl\<close>)
next
  case (RangeRequest stream idx offset n)
  show ?thesis
  proof (cases "idx \<ge> length ls \<or> offset > lf_size (ls ! idx)")
    case True
    then show ?thesis using RangeRequest ok by (auto simp: serve_file_contents_def list_all2_refl)
  next
    case False
    let ?l = "ls ! idx"
    have l: "lf_ok disk ?l" "lf_size ?l < 9223372036854775808" using ok False by (simp_all add: files_ok_def list_all_length)
    let ?m = "if offset + n > lf_size ?l then lf_size ?l - offset else n"
    have m: "range_size (lf_size ?l) offset n = Some ?m" using False l(2) r RangeRequest by (auto simp: range_size_def Let_def)
    show ?thesis
    proof (cases "lf_is_dir ?l")
      case True
      then show ?thesis using False m RangeRequest ok l by (auto simp: serve_file_contents_def read_directory list_all2_refl)
    next
      case f: False
      have "offset + ?m \<le> lf_size ?l" using False by auto
      then obtain l' where l': "read_exact_at disk ?m offset ?l = (Inr (range_of disk ?l offset ?m), l')" "lf_ok disk l'" "lf_same ?l l'"
        using read_exact_at_ok[OF l(1) f] by blast
      obtain c where "dk_read disk (lf_path ?l) = Some c" "length c = lf_size ?l" using l(1) f by (auto simp: lf_ok_def)
      then have rg: "range_of disk ?l offset ?m = range_of disk ?l offset n" by (simp add: range_of_def)
      have upd: "list_all (lf_ok disk) (ls[idx := l'])" "list_all2 lf_same ls (ls[idx := l'])"
        using ok False l'(2,3) by (simp_all add: files_ok_def list_all_length list_all2_conv_all_nth nth_list_update split: if_split)
      obtain ls' where h: "hot_reload disk idx (FileContentsResponse 1 stream (range_of disk ?l offset n)) (ls[idx := l']) =
          (Inr (FileContentsResponse 1 stream (range_of disk ?l offset n)), ls')" "list_all (lf_ok disk) ls'" "list_all2 lf_same (ls[idx := l']) ls'"
        using hot_reload_ok[OF upd(1)] by blast
      have "list_all2 lf_same ls ls'" by (rule list_all2_trans[OF lf_same_trans upd(2) h(3)])
      moreover have "serve_file_contents disk r ls = Some (answer disk ls r, ls')"
        using False f m l'(1) rg h(1) RangeRequest by (simp add: serve_file_contents_def del: nth_list_update)
      ultimately show ?thesis using h(2) ok files_ok_same[of ls ls'] by (auto simp: files_ok_def)
    qed
  qed
qed

text \<open>A sequence of requests for ranges as a reader sends them: stream, index, offset and size.\<close>

fun read_run :: "disk \<Rightarrow> (int \<times> nat \<times> nat \<times> nat) list \<Rightarrow> clip_files \<Rightarrow> ((cliprdr_error + clipboard_file) list list \<times> clip_files) option" where
  "read_run disk [] cf = Some ([], cf)"
| "read_run disk ((stream, idx, offset, n) # rs) cf =
     (case read_file_contents disk stream (int idx) 2 (position_low offset) (position_high offset) (int n) cf of
        None \<Rightarrow> None
      | Some (out, cf) \<Rightarrow> map_option (\<lambda>(outs, cf). (out # outs, cf)) (read_run disk rs cf))"

definition readable_request :: "int \<times> nat \<times> nat \<times> nat \<Rightarrow> bool" where
  "readable_request = (\<lambda>(stream, idx, offset, n). offset_survives offset \<and> idx < 2147483648 \<and> n < 2147483648)"

lemma read_run_ok:
  assumes "files_ok disk (cf_file_list cf)" "list_all readable_request reqs"
  shows "\<exists>outs cf'. read_run disk reqs cf = Some (outs, cf') \<and>
    map last outs = map (\<lambda>(stream, idx, offset, n). answer disk (cf_file_list cf) (RangeRequest stream idx offset n)) reqs"
  using assms
proof (induction reqs arbitrary: cf)
  case (Cons q reqs)
  obtain stream idx offset n where q: "q = (stream, idx, offset, n)" by (cases q)
  have r: "request_of stream (int idx) 2 (position_low offset) (position_high offset) (int n) = Inr (RangeRequest stream idx offset n)"
    using Cons.prems(2) q by (intro request_survives) (auto simp: readable_request_def)
  obtain ls' where s: "serve_file_contents disk (RangeRequest stream idx offset n) (cf_file_list cf) =
      Some (answer disk (cf_file_list cf) (RangeRequest stream idx offset n), ls')" "files_ok disk ls'" "list_all2 lf_same (cf_file_list cf) ls'"
    using serve_ok[OF Cons.prems(1), of "RangeRequest stream idx offset n"] Cons.prems(2) q by (auto simp: readable_request_def)
  let ?cf = "cf\<lparr>cf_file_list := ls'\<rparr>"
  obtain outs cf' where "read_run disk reqs ?cf = Some (outs, cf')"
    "map last outs = map (\<lambda>(stream, idx, offset, n). answer disk ls' (RangeRequest stream idx offset n)) reqs"
    using Cons.IH[of ?cf] s(2) Cons.prems(2) by auto
  then show ?case using r s(1) by (simp add: q read_file_contents_def served_answer_same[OF s(3)] del: answer.simps)
qed simp

text \<open>(C19) In whatever order a reader asks for ranges of the copied files, forwards, backwards, overlapping or switching between
  files, each answer is the range of the file it asked for, cut at its end, or the error for that request, and does not
  depend on the requests before: the handles that are kept open between them never show. The conditions: each request is
  readable, that is, bit 31 of its offset is clear and the offset is below \<open>2^63\<close>, its index and its size are below \<open>2^31\<close>;
  and the list is sound, that is, every file of it can be opened, its contents have the size in the list, below \<open>2^63\<close>, and a
  handle that is open is where its offset says. Each condition is needed: offsets with bit 31 set are refused
  (\<open>upper_half_unreadable\<close>), a negative size makes the host panic (\<open>negative_size_panics\<close>), and a file that cannot be opened takes
  the answers for the one before it away (\<open>unreadable_file_blocks_previous\<close>).\<close>

theorem served_ranges_exact:
  assumes "files_ok disk (cf_file_list cf)" "list_all readable_request reqs"
  shows "\<exists>outs cf'. read_run disk reqs cf = Some (outs, cf') \<and>
    map last outs = map (\<lambda>(stream, idx, offset, n). answer disk (cf_file_list cf) (RangeRequest stream idx offset n)) reqs"
  using assms by (rule read_run_ok)

definition sample_disk :: disk where
  "sample_disk = \<lparr>dk_read = [[''home'', ''a''] \<mapsto> [1, 2, 3, 4, 5]], dk_is_file = (\<lambda>p. p = [''home'', ''a''])\<rparr>"

definition sample_clip :: clip_files where
  "sample_clip = \<lparr>cf_files = [''/home/a''], cf_sigs = [], cf_file_list = [sample_file [''a''] False 5], cf_first_file_index = Some 0, cf_files_pdu = []\<rparr>"

theorem served_ranges_exact_witness:
  "\<exists>outs cf'. read_run sample_disk [(1, 0, 3, 2), (2, 0, 1, 9)] sample_clip = Some (outs, cf') \<and>
     map last outs = [Inr (FileContentsResponse 1 1 [4, 5]), Inr (FileContentsResponse 1 2 [2, 3, 4, 5])]"
proof -
  have ok: "files_ok sample_disk (cf_file_list sample_clip)"
    by (simp add: files_ok_def lf_ok_def sample_clip_def sample_disk_def sample_file_def)
  have rq: "list_all readable_request [(1, 0, 3, 2), (2, 0, 1, 9)]" by (simp add: readable_request_def offset_survives_def)
  from served_ranges_exact[OF ok rq] show ?thesis
    by (simp add: range_of_def sample_clip_def sample_disk_def sample_file_def)
qed

section \<open>Requests that go wrong\<close>

text \<open>No file can be read between 2 and 4 GiB (nor in the second half of any further 4 GiB): a request for an offset whose
  bit 31 is set is refused as lying behind the end of the file, whatever the file's size, because the low half of the
  offset is sent as a negative number and its sign is spread over the high half.\<close>

theorem upper_half_unreadable:
  assumes "offset < 9223372036854775808" "offset mod 4294967296 \<ge> 2147483648" "idx < length (cf_file_list cf)" "idx < 2147483648"
    and "files_ok disk (cf_file_list cf)"
  shows "\<exists>out. read_file_contents disk stream (int idx) 2 (position_low offset) (position_high offset) cb cf =
    Some (out @ [Inl (InvalidRequest ''invalid reading offset'')], cf)"
proof -
  obtain idx' off n' where r: "request_of stream (int idx) 2 (position_low offset) (position_high offset) cb = Inr (RangeRequest stream idx' off n')"
    "off \<ge> 9223372036854775808" using request_lost[OF assms(1,2)] by blast
  have "idx' = idx" using r(1) u64_of_nonneg[of "int idx"] assms(4) by (simp add: request_of_def)
  moreover have "lf_size (cf_file_list cf ! idx) < off" using assms(3,5) r(2) by (fastforce simp: files_ok_def list_all_length)
  ultimately show ?thesis using r assms(3) by (simp add: read_file_contents_def serve_file_contents_def)
qed

theorem upper_half_unreadable_witness:
  "\<exists>out. read_file_contents sample_disk 1 (int 0) 2 (position_low 2147483648) (position_high 2147483648) 4096 sample_clip =
     Some (out @ [Inl (InvalidRequest ''invalid reading offset'')], sample_clip)"
  by (rule upper_half_unreadable) (simp_all add: files_ok_def lf_ok_def sample_clip_def sample_disk_def sample_file_def)

text \<open>A peer can make the host panic with one request: a range of negative size at a positive offset of any file. The sum of
  offset and size wraps around, passes as lying in the file, and the buffer is asked for with a size no buffer can have.\<close>

theorem negative_size_panics:
  assumes "idx < length (cf_file_list cf)" "idx < 2147483648" "0 < offset" "offset \<le> lf_size (cf_file_list cf ! idx)"
    and "offset < 2147483648" "- 2147483648 \<le> cb" "cb < 0" "int offset + cb \<ge> 0"
  shows "read_file_contents disk stream (int idx) 2 (position_low offset) (position_high offset) cb cf = None"
proof -
  have n: "unat (u64_of_i32 cb) = nat (cb + 18446744073709551616)"
  proof -
    have "take_bit 64 cb = cb + 18446744073709551616"
      using assms(6,7) by (simp add: take_bit_eq_mod) (smt (verit) mod_add_self2 mod_pos_pos_trivial)
    then show ?thesis by (simp add: u64_of_i32_def unsigned_of_int)
  qed
  have o': "offset_survives offset" using assms(5) by (simp add: offset_survives_def)
  have "request_of stream (int idx) 2 (position_low offset) (position_high offset) 0 = Inr (RangeRequest stream idx offset 0)"
    using request_survives[OF o' assms(2), of 0 stream] by simp
  then have r: "request_of stream (int idx) 2 (position_low offset) (position_high offset) cb = Inr (RangeRequest stream idx offset (nat (cb + 18446744073709551616)))"
    by (simp add: request_of_def n)
  have "(offset + nat (cb + 18446744073709551616)) mod 18446744073709551616 = nat (int offset + cb)"
  proof -
    have "offset + nat (cb + 18446744073709551616) = nat (int offset + cb) + 18446744073709551616" using assms(6,8) by linarith
    then show ?thesis using assms(5,7) by simp
  qed
  then have "range_size (lf_size (cf_file_list cf ! idx)) offset (nat (cb + 18446744073709551616)) = None"
    using assms(4,6,7) by (auto simp: range_size_def Let_def)
  then show ?thesis using r assms(1,4) by (simp add: read_file_contents_def serve_file_contents_def)
qed

theorem negative_size_panics_witness:
  "read_file_contents sample_disk 1 (int 0) 2 (position_low 1) (position_high 1) (- 1) sample_clip = None"
  by (rule negative_size_panics) (simp_all add: sample_clip_def sample_file_def)

text \<open>A file that cannot be opened takes the one before it with it: every range of the file before is answered with the error
  of opening the next one, although it was read.\<close>

theorem unreadable_file_blocks_previous:
  assumes "files_ok disk [l]" "\<not> lf_is_dir l" "\<not> lf_is_dir l'" "lf_handle l' = None" "dk_read disk (lf_path l') = None"
    and "offset \<le> lf_size l" "n < 9223372036854775808"
  shows "\<exists>ls'. serve_file_contents disk (RangeRequest stream 0 offset n) (l # l' # ls) = Some (Inl (FileError (path_text (lf_path l'))), ls')"
proof -
  have l: "lf_ok disk l" "lf_size l < 9223372036854775808" using assms(1) by (simp_all add: files_ok_def)
  let ?m = "if offset + n > lf_size l then lf_size l - offset else n"
  have m: "range_size (lf_size l) offset n = Some ?m" using assms(6,7) l(2) by (auto simp: range_size_def Let_def)
  have "offset + ?m \<le> lf_size l" using assms(6) by auto
  then obtain k where "read_exact_at disk ?m offset l = (Inr (range_of disk l offset ?m), k)" using read_exact_at_ok[OF l(1) assms(2)] by blast
  then show ?thesis
    using m assms(3-6) by (simp add: serve_file_contents_def hot_reload_def load_handle_def)
qed

theorem unreadable_file_blocks_previous_witness:
  "\<exists>ls'. serve_file_contents sample_disk (RangeRequest 1 0 0 5) [sample_file [''a''] False 5, sample_file [''b''] False 5] =
     Some (Inl (FileError ''/home/b''), ls')"
  using unreadable_file_blocks_previous[of sample_disk "sample_file [''a''] False 5" "sample_file [''b''] False 5" 0 5 1 "[]"]
  by (simp add: files_ok_def lf_ok_def sample_disk_def sample_file_def path_text_def)

end
