(* ===== verification/ClipboardFuse.thy ===== *)
theory ClipboardFuse
  imports ClipboardServe
begin

text \<open>
  The end that pastes copied files on Linux, \<^verbatim>\<open>libs/clipboard/src/platform/unix/fuse/cs.rs\<close> and the file lists of
  \<^verbatim>\<open>fuse/mod.rs\<close>: the tree of nodes built from the peer's list, the calls of the read-only file system on it, the
  handles of the open files, and the exchange of a request for contents with its retries. Every call holds the lock
  of the server, so the calls are a sequence. Access times are left out. A read takes the replies that arrive in time
  for it from a list; its end is the timeout.
\<close>

section \<open>The nodes\<close>

definition FUSE_ROOT_ID :: nat where "FUSE_ROOT_ID = 1"
definition READ_RETRY :: nat where "READ_RETRY = 3"
definition MAX_NAME_LEN :: nat where "MAX_NAME_LEN = 255"
definition BLOCK_SIZE :: int where "BLOCK_SIZE = 4 * 1024 * 1024"

record inode_attributes =
  ia_inode :: nat
  ia_size :: int
  ia_last_modified :: int
  ia_kind :: clip_kind
  ia_perm :: int

text \<open>The numbers of the open handles of a node, and whether it is being collected.\<close>

record file_handles =
  fh_handlers :: "nat list"
  fh_gc :: bool

record fuse_node =
  fn_conn_id :: int
  fn_index :: nat
  fn_parent :: "nat option"
  fn_name :: string
  fn_attributes :: inode_attributes
  fn_children :: "nat list"
  fn_handles :: file_handles

definition no_handles :: file_handles where
  "no_handles = \<lparr>fh_handlers = [], fh_gc = False\<rparr>"

definition attributes_of :: "nat \<Rightarrow> file_description \<Rightarrow> inode_attributes" where
  "attributes_of inode d = \<lparr>ia_inode = inode, ia_size = fd_size d, ia_last_modified = fd_last_modified d, ia_kind = fd_kind d, ia_perm = fd_perm d\<rparr>"

definition from_description :: "nat \<Rightarrow> file_description \<Rightarrow> fuse_node" where
  "from_description inode d = \<lparr>fn_conn_id = fd_conn_id d, fn_index = inode - 2, fn_parent = None, fn_name = fd_name d,
     fn_attributes = attributes_of inode d, fn_children = [], fn_handles = no_handles\<rparr>"

definition new_root :: "int \<Rightarrow> fuse_node" where
  "new_root now = \<lparr>fn_conn_id = 0, fn_index = 0, fn_parent = None, fn_name = ''/'',
     fn_attributes = \<lparr>ia_inode = FUSE_ROOT_ID, ia_size = 0, ia_last_modified = now, ia_kind = ClipDirectory, ia_perm = PERM_RWX\<rparr>,
     fn_children = [], fn_handles = no_handles\<rparr>"

text \<open>\<open>Path::parent\<close> and \<open>Path::file_name\<close> on the components of a path; paths are equal when their components are.\<close>

definition path_up :: "component list \<Rightarrow> component list option" where
  "path_up cs = (if cs = [] \<or> last cs = RootDir then None else Some (butlast cs))"

definition file_name :: "component list \<Rightarrow> string option" where
  "file_name cs = (if cs = [] then None else case last cs of Normal s \<Rightarrow> Some s | _ \<Rightarrow> None)"

text \<open>One file of the list: its node, the change of its parent, and the directories known so far.\<close>

type_synonym sub_roots = "component list \<rightharpoonup> nat"

definition add_file :: "file_description \<Rightarrow> fuse_node list \<times> sub_roots \<Rightarrow> cliprdr_error + fuse_node list \<times> sub_roots" where
  "add_file d = (\<lambda>(tree, roots).
     (let name = components False (fd_name d);
          inode = length tree + FUSE_ROOT_ID;
          up = (case path_up name of Some p \<Rightarrow> (case roots p of Some i \<Rightarrow> i | None \<Rightarrow> FUSE_ROOT_ID) | None \<Rightarrow> FUSE_ROOT_ID);
          tree = tree[up - 1 := (tree ! (up - 1))\<lparr>fn_children := fn_children (tree ! (up - 1)) @ [inode]\<rparr>]
      in case file_name name of
           None \<Rightarrow> Inl (FileError (fd_name d))
         | Some base \<Rightarrow>
             Inr (tree @ [(from_description inode (d\<lparr>fd_name := base\<rparr>))\<lparr>fn_parent := Some up\<rparr>],
                  if fd_kind d = ClipDirectory then roots(name \<mapsto> inode) else roots)))"

fun add_files :: "file_description list \<Rightarrow> fuse_node list \<times> sub_roots \<Rightarrow> cliprdr_error + fuse_node list" where
  "add_files [] (tree, roots) = Inr tree"
| "add_files (d # ds) st = (case add_file d st of Inl e \<Rightarrow> Inl e | Inr st \<Rightarrow> add_files ds st)"

definition build_tree :: "int \<Rightarrow> file_description list \<Rightarrow> cliprdr_error + fuse_node list" where
  "build_tree now files = add_files files ([new_root now], [[RootDir] \<mapsto> FUSE_ROOT_ID, [] \<mapsto> FUSE_ROOT_ID])"

section \<open>Handles\<close>

text \<open>\<open>slice::binary_search\<close>: the position of the value.\<close>

function search_from :: "nat list \<Rightarrow> nat \<Rightarrow> nat \<Rightarrow> nat \<Rightarrow> nat" where
  "search_from xs x base sz =
     (if sz \<le> 1 then base
      else let half = sz div 2; mid = base + half
           in search_from xs x (if xs ! mid > x then base else mid) (sz - half))"
  by pat_completeness auto
termination by (relation "measure (\<lambda>(xs, x, base, sz). sz)") auto

declare search_from.simps [simp del]

definition binary_search :: "nat list \<Rightarrow> nat \<Rightarrow> nat option" where
  "binary_search xs x =
     (if xs = [] then None
      else let base = search_from xs x 0 (length xs) in if xs ! base = x then Some base else None)"

definition have_handler :: "nat \<Rightarrow> fuse_node \<Rightarrow> bool" where
  "have_handler fh n \<longleftrightarrow> binary_search (fh_handlers (fn_handles n)) fh \<noteq> None"

definition marked :: "fuse_node \<Rightarrow> bool" where
  "marked n \<longleftrightarrow> fh_gc (fn_handles n)"

text \<open>A handle for a node that is being collected is a panic, \<open>None\<close>.\<close>

definition add_handler :: "nat \<Rightarrow> fuse_node \<Rightarrow> fuse_node option" where
  "add_handler fh n =
     (if marked n then None
      else Some (n\<lparr>fn_handles := (fn_handles n)\<lparr>fh_handlers := fh_handlers (fn_handles n) @ [fh]\<rparr>\<rparr>))"

definition unregister_handler :: "nat \<Rightarrow> fuse_node \<Rightarrow> fuse_node option" where
  "unregister_handler fh n =
     (case binary_search (fh_handlers (fn_handles n)) fh of
        None \<Rightarrow> None
      | Some idx \<Rightarrow>
          Some (n\<lparr>fn_handles := (fn_handles n)\<lparr>fh_handlers := take idx (fh_handlers (fn_handles n)) @ drop (Suc idx) (fh_handlers (fn_handles n))\<rparr>\<rparr>))"

section \<open>Calls of the file system\<close>

datatype errno = ENAMETOOLONG | ENOENT | ENOTDIR | EBUSY | EBADF | ENFILE | EIO

record fuse_server =
  fz_generation :: nat
  fz_files :: "fuse_node list"
  fz_counter :: nat

definition fuse_new :: fuse_server where
  "fuse_new = \<lparr>fz_generation = 0, fz_files = [], fz_counter = 0\<rparr>"

text \<open>\<open>files.get(ino as usize - 1)\<close>.\<close>

definition node_of :: "nat \<Rightarrow> fuse_server \<Rightarrow> fuse_node option" where
  "node_of ino z = (if 1 \<le> ino \<and> ino \<le> length (fz_files z) then Some (fz_files z ! (ino - 1)) else None)"

definition set_node :: "nat \<Rightarrow> fuse_node \<Rightarrow> fuse_server \<Rightarrow> fuse_server" where
  "set_node ino n z = z\<lparr>fz_files := (fz_files z)[ino - 1 := n]\<rparr>"

definition load_file_list :: "int \<Rightarrow> file_description list \<Rightarrow> fuse_server \<Rightarrow> cliprdr_error option \<times> fuse_server" where
  "load_file_list now files z =
     (case build_tree now files of
        Inl e \<Rightarrow> (Some e, z)
      | Inr tree \<Rightarrow> (None, z\<lparr>fz_files := tree, fz_generation := Suc (fz_generation z)\<rparr>))"

definition fuse_init :: "int \<Rightarrow> fuse_server \<Rightarrow> fuse_server" where
  "fuse_init now z = (if fz_files z = [] then z\<lparr>fz_files := [new_root now]\<rparr> else z)"

text \<open>The answer names the node and the generation.\<close>

definition fuse_lookup :: "nat \<Rightarrow> string \<Rightarrow> fuse_server \<Rightarrow> errno + inode_attributes \<times> nat" where
  "fuse_lookup up name z =
     (if length name > MAX_NAME_LEN then Inl ENAMETOOLONG
      else case node_of up z of
          None \<Rightarrow> Inl ENOENT
        | Some n \<Rightarrow>
            if ia_kind (fn_attributes n) \<noteq> ClipDirectory then Inl ENOTDIR
            else (case find (\<lambda>i. fn_name (fz_files z ! (i - 1)) = name) (fn_children n) of
                    Some i \<Rightarrow> Inr (fn_attributes (fz_files z ! (i - 1)), fz_generation z)
                  | None \<Rightarrow> Inl ENOENT))"

definition alloc_fd :: "fuse_server \<Rightarrow> nat \<times> fuse_server" where
  "alloc_fd z = (fz_counter z, z\<lparr>fz_counter := (fz_counter z + 1) mod 18446744073709551616\<rparr>)"

definition open_node :: "nat \<Rightarrow> fuse_node \<Rightarrow> fuse_server \<Rightarrow> ((errno + nat) \<times> fuse_server) option" where
  "open_node ino n z =
     (if marked n then Some (Inl EBUSY, z)
      else let (fh, z) = alloc_fd z in map_option (\<lambda>n. (Inr fh, set_node ino n z)) (add_handler fh n))"

definition fuse_opendir :: "nat \<Rightarrow> fuse_server \<Rightarrow> ((errno + nat) \<times> fuse_server) option" where
  "fuse_opendir ino z =
     (case node_of ino z of
        None \<Rightarrow> Some (Inl ENOENT, z)
      | Some n \<Rightarrow> if ia_kind (fn_attributes n) \<noteq> ClipDirectory then Some (Inl ENOTDIR, z) else open_node ino n z)"

text \<open>The entries of a directory from an offset on; the kernel takes as many as fit.\<close>

definition dir_entries :: "nat \<Rightarrow> fuse_node \<Rightarrow> fuse_server \<Rightarrow> (nat \<times> clip_kind \<times> string) list" where
  "dir_entries ino n z =
     (ino, ClipDirectory, ''.'') # (case fn_parent n of Some p \<Rightarrow> [(p, ClipDirectory, ''..'')] | None \<Rightarrow> []) @
     map (\<lambda>i. let c = fz_files z ! (i - 1) in (i, ia_kind (fn_attributes c), fn_name c)) (fn_children n)"

definition fuse_readdir :: "nat \<Rightarrow> nat \<Rightarrow> nat \<Rightarrow> fuse_server \<Rightarrow> errno + (nat \<times> clip_kind \<times> string) list" where
  "fuse_readdir ino fh offset z =
     (case node_of ino z of
        None \<Rightarrow> Inl ENOENT
      | Some n \<Rightarrow>
          if \<not> have_handler fh n then Inl EBADF
          else if ia_kind (fn_attributes n) \<noteq> ClipDirectory then Inl ENOTDIR
          else Inr (drop offset (dir_entries ino n z)))"

definition fuse_releasedir :: "nat \<Rightarrow> nat \<Rightarrow> fuse_server \<Rightarrow> errno option \<times> fuse_server" where
  "fuse_releasedir ino fh z =
     (case node_of ino z of
        None \<Rightarrow> (Some ENOENT, z)
      | Some n \<Rightarrow>
          if ia_kind (fn_attributes n) \<noteq> ClipDirectory then (Some ENOTDIR, z)
          else if \<not> have_handler fh n then (Some EBADF, z)
          else (None, case unregister_handler fh n of Some n \<Rightarrow> set_node ino n z | None \<Rightarrow> z))"

definition fuse_open :: "nat \<Rightarrow> fuse_server \<Rightarrow> ((errno + nat) \<times> fuse_server) option" where
  "fuse_open ino z =
     (case node_of ino z of
        None \<Rightarrow> Some (Inl ENOENT, z)
      | Some n \<Rightarrow> if ia_kind (fn_attributes n) \<noteq> ClipFile then Some (Inl ENFILE, z) else open_node ino n z)"

definition fuse_release :: "nat \<Rightarrow> nat \<Rightarrow> fuse_server \<Rightarrow> errno option \<times> fuse_server" where
  "fuse_release ino fh z =
     (case node_of ino z of
        None \<Rightarrow> (Some ENOENT, z)
      | Some n \<Rightarrow> (case unregister_handler fh n of None \<Rightarrow> (Some EBADF, z) | Some n \<Rightarrow> (None, set_node ino n z)))"

text \<open>\<open>blocks\<close> of the attributes that the kernel gets, and of all files.\<close>

definition attr_blocks :: "inode_attributes \<Rightarrow> int" where
  "attr_blocks a = (if ia_size a mod BLOCK_SIZE = 0 then ia_size a div BLOCK_SIZE else ia_size a div BLOCK_SIZE + 1)"

definition fuse_getattr :: "nat \<Rightarrow> fuse_server \<Rightarrow> errno + inode_attributes \<times> int" where
  "fuse_getattr ino z =
     (case node_of ino z of None \<Rightarrow> Inl ENOENT | Some n \<Rightarrow> Inr (fn_attributes n, attr_blocks (fn_attributes n)))"

definition fuse_statfs :: "fuse_server \<Rightarrow> int" where
  "fuse_statfs z = fold (\<lambda>n b. b + (ia_size (fn_attributes n) div BLOCK_SIZE + of_bool (ia_size (fn_attributes n) mod BLOCK_SIZE \<noteq> 0))) (fz_files z) 0"

text \<open>The names below the root; without a root this panics.\<close>

definition list_root :: "fuse_server \<Rightarrow> string list option" where
  "list_root z =
     (if fz_files z = [] then None else Some (map (\<lambda>i. fn_name (fz_files z ! (i - 1))) (fn_children (fz_files z ! 0))))"

section \<open>Reading\<close>

text \<open>The request for a range of a file.\<close>

definition node_request :: "int \<Rightarrow> fuse_node \<Rightarrow> nat \<Rightarrow> nat \<Rightarrow> clipboard_file" where
  "node_request stream n offset sz =
     FileContentsRequest stream (wrap_i32 (int (fn_index n))) 2 (position_low offset) (position_high offset) (wrap_i32 (int sz)) False 0"

text \<open>The loop over the replies: what is read, how often the request is sent again, and the replies left. \<open>up k\<close> says
  whether the channel of the connection takes the message when it is sent for the \<open>k\<close>-th time again.\<close>

fun await_reply :: "(nat \<Rightarrow> bool) \<Rightarrow> int \<Rightarrow> nat \<Rightarrow> clipboard_file list \<Rightarrow> bytes option \<times> nat \<times> clipboard_file list" where
  "await_reply up stream retry [] = (None, 0, [])"
| "await_reply up stream retry (FileContentsResponse flags s data # rs) =
     (if s \<noteq> stream then await_reply up stream retry rs
      else if and flags 1 = 0 then
        (if retry + 1 > READ_RETRY \<or> \<not> up (retry + 1) then (None, 0, rs)
         else let (r, k, rest) = await_reply up stream (retry + 1) rs in (r, Suc k, rest))
      else (Some data, 0, rs))"
| "await_reply up stream retry (_ # rs) = (None, 0, rs)"

text \<open>The bytes, the messages sent to the peer, and the replies left.\<close>

definition read_node :: "(nat \<Rightarrow> bool) \<Rightarrow> int \<Rightarrow> fuse_node \<Rightarrow> nat \<Rightarrow> nat \<Rightarrow> clipboard_file list \<Rightarrow> bytes option \<times> clipboard_file list \<times> clipboard_file list" where
  "read_node up stream n offset sz rx =
     (if \<not> up 0 then (None, [], rx)
      else let (r, k, rest) = await_reply up stream 0 rx in (r, replicate (Suc k) (node_request stream n offset sz), rest))"

definition fuse_read :: "(nat \<Rightarrow> bool) \<Rightarrow> int \<Rightarrow> nat \<Rightarrow> nat \<Rightarrow> nat \<Rightarrow> nat \<Rightarrow> clipboard_file list \<Rightarrow> fuse_server \<Rightarrow>
    (errno + bytes) \<times> clipboard_file list \<times> clipboard_file list" where
  "fuse_read up stream ino fh offset sz rx z =
     (case node_of ino z of
        None \<Rightarrow> (Inl ENOENT, [], rx)
      | Some n \<Rightarrow>
          if \<not> have_handler fh n then (Inl EBADF, [], rx)
          else if ia_kind (fn_attributes n) \<noteq> ClipFile then (Inl ENFILE, [], rx)
          else if marked n then (Inl EBUSY, [], rx)
          else let (r, out, rest) = read_node up stream n offset sz rx
               in (case r of Some bs \<Rightarrow> Inr bs | None \<Rightarrow> Inl EIO, out, rest))"

section \<open>The handles are sorted\<close>

lemma search_from_finds:
  assumes "sorted_wrt (<) xs" "1 \<le> sz" "base + sz \<le> length xs"
  shows "search_from xs x base sz < base + sz \<and> (\<forall>p. base \<le> p \<and> p < base + sz \<and> xs ! p = x \<longrightarrow> search_from xs x base sz = p)"
  using assms
proof (induction xs x base sz rule: search_from.induct)
  case (1 xs x base sz)
  show ?case
  proof (cases "sz \<le> 1")
    case True
    with "1.prems" show ?thesis by (auto simp: search_from.simps)
  next
    case False
    define half mid base' where d: "half = sz div 2" "mid = base + half" "base' = (if xs ! mid > x then base else mid)"
    have h: "1 \<le> half" "half < sz" "half \<le> sz - half" using False by (auto simp: d(1))
    have step: "search_from xs x base sz = search_from xs x base' (sz - half)"
      using False by (subst search_from.simps) (simp add: Let_def d)
    have "base' = base \<or> base' = mid" by (simp add: d(3))
    then have b: "base' + (sz - half) \<le> base + sz" using h(2) d(2) by linarith
    have ih: "search_from xs x base' (sz - half) < base' + (sz - half)"
        "\<And>p. base' \<le> p \<Longrightarrow> p < base' + (sz - half) \<Longrightarrow> xs ! p = x \<Longrightarrow> search_from xs x base' (sz - half) = p"
      using "1.IH"[OF False d(1) d(2) "1.prems"(1)] h b "1.prems"(3) unfolding d(3)[symmetric] by simp_all
    have "base' \<le> p \<and> p < base' + (sz - half)" if p: "base \<le> p" "p < base + sz" "xs ! p = x" for p
    proof (cases "xs ! mid > x")
      case True
      have "p < mid"
      proof (rule ccontr)
        assume "\<not> p < mid"
        then have "mid = p \<or> xs ! mid < xs ! p" using p "1.prems"(3) sorted_wrt_nth_less[OF "1.prems"(1), of mid p] by linarith
        then show False using True p(3) by auto
      qed
      moreover have "base' = base" using True by (simp only: d(3) if_True)
      ultimately show ?thesis using p(1) h(3) d(2) by linarith
    next
      case m: False
      have "mid \<le> p"
      proof (rule ccontr)
        assume "\<not> mid \<le> p"
        then have "xs ! p < xs ! mid" using "1.prems"(3) h by (intro sorted_wrt_nth_less[OF "1.prems"(1)]) (simp_all add: d(2))
        then show False using m p(3) by simp
      qed
      moreover have "base' = mid" using m by (simp only: d(3) if_False)
      ultimately show ?thesis using p(2) h(2) d(2) by linarith
    qed
    then have "\<forall>p. base \<le> p \<and> p < base + sz \<and> xs ! p = x \<longrightarrow> search_from xs x base' (sz - half) = p" using ih(2) by blast
    moreover have "search_from xs x base' (sz - half) < base + sz" using ih(1) b by linarith
    ultimately show ?thesis unfolding step by blast
  qed
qed

lemma binary_search_iff:
  assumes "sorted_wrt (<) xs"
  shows "binary_search xs x = Some i \<longleftrightarrow> i < length xs \<and> xs ! i = x"
proof (cases "xs = []")
  case False
  then have l: "1 \<le> length xs" "0 + length xs \<le> length xs" by (simp_all add: Suc_leI)
  have f: "search_from xs x 0 (length xs) < length xs" using search_from_finds[OF assms l] by simp
  have g: "search_from xs x 0 (length xs) = p" if "p < length xs" "xs ! p = x" for p
    using search_from_finds[OF assms l, of x] that by (metis add_0 le0)
  show ?thesis
  proof
    assume "binary_search xs x = Some i"
    then show "i < length xs \<and> xs ! i = x" using f False by (auto simp: binary_search_def Let_def split: if_splits)
  next
    assume i: "i < length xs \<and> xs ! i = x"
    then show "binary_search xs x = Some i" using False g[of i] by (simp add: binary_search_def Let_def)
  qed
qed (simp add: binary_search_def)

lemma have_handler_iff: "sorted_wrt (<) (fh_handlers (fn_handles n)) \<Longrightarrow> have_handler fh n \<longleftrightarrow> fh \<in> set (fh_handlers (fn_handles n))"
  by (auto simp: have_handler_def binary_search_iff in_set_conv_nth)

lemma strict_remove:
  assumes "sorted_wrt (<) (xs :: nat list)" "i < length xs"
  shows "sorted_wrt (<) (take i xs @ drop (Suc i) xs)" "set (take i xs @ drop (Suc i) xs) = set xs - {xs ! i}"
proof -
  define a b where ab: "a = take i xs" "b = drop (Suc i) xs"
  have x: "xs = a @ xs ! i # b" unfolding ab by (rule id_take_nth_drop[OF assms(2)])
  have s: "sorted_wrt (<) (a @ xs ! i # b)" using assms(1) x by metis
  then have "sorted_wrt (<) (a @ b)" "set (a @ b) = set (a @ xs ! i # b) - {xs ! i}" by (auto simp: sorted_wrt_append)
  then show "sorted_wrt (<) (take i xs @ drop (Suc i) xs)" "set (take i xs @ drop (Suc i) xs) = set xs - {xs ! i}"
    using x unfolding ab by metis+
qed

section \<open>What the kernel may do\<close>

datatype fuse_op =
    OpLoad int "file_description list"
  | OpInit int
  | OpOpendir nat
  | OpOpen nat
  | OpReleasedir nat nat
  | OpRelease nat nat

datatype fuse_reply = FuseOk | FuseOpened nat | FuseError errno | ListRefused cliprdr_error

definition opened_reply :: "errno + nat \<Rightarrow> fuse_reply" where
  "opened_reply r = (case r of Inl e \<Rightarrow> FuseError e | Inr fh \<Rightarrow> FuseOpened fh)"

definition ok_reply :: "errno option \<Rightarrow> fuse_reply" where
  "ok_reply r = (case r of Some e \<Rightarrow> FuseError e | None \<Rightarrow> FuseOk)"

text \<open>The calls that change the server and the lists of files it is given; \<open>None\<close> is a panic.\<close>

fun fuse_step :: "fuse_op \<Rightarrow> fuse_server \<Rightarrow> (fuse_reply \<times> fuse_server) option" where
  "fuse_step (OpLoad now ds) z =
     (case load_file_list now ds z of (Some e, z) \<Rightarrow> Some (ListRefused e, z) | (None, z) \<Rightarrow> Some (FuseOk, z))"
| "fuse_step (OpInit now) z = Some (FuseOk, fuse_init now z)"
| "fuse_step (OpOpendir ino) z = map_option (\<lambda>(r, z). (opened_reply r, z)) (fuse_opendir ino z)"
| "fuse_step (OpOpen ino) z = map_option (\<lambda>(r, z). (opened_reply r, z)) (fuse_open ino z)"
| "fuse_step (OpReleasedir ino fh) z = (let (r, z) = fuse_releasedir ino fh z in Some (ok_reply r, z))"
| "fuse_step (OpRelease ino fh) z = (let (r, z) = fuse_release ino fh z in Some (ok_reply r, z))"

fun fuse_run :: "fuse_op list \<Rightarrow> fuse_server \<Rightarrow> (fuse_reply list \<times> fuse_server) option" where
  "fuse_run [] z = Some ([], z)"
| "fuse_run (a # as) z =
     (case fuse_step a z of None \<Rightarrow> None | Some (r, z) \<Rightarrow> map_option (\<lambda>(rs, z). (r # rs, z)) (fuse_run as z))"

text \<open>The specification: which handles are open on which node, from the calls and their answers alone. Closing ends a
  handle, a new list ends all.\<close>

fun live_step :: "fuse_op \<Rightarrow> fuse_reply \<Rightarrow> (nat \<times> nat) set \<Rightarrow> (nat \<times> nat) set" where
  "live_step (OpOpen ino) (FuseOpened fh) L = insert (ino, fh) L"
| "live_step (OpOpendir ino) (FuseOpened fh) L = insert (ino, fh) L"
| "live_step (OpRelease ino fh) FuseOk L = L - {(ino, fh)}"
| "live_step (OpReleasedir ino fh) FuseOk L = L - {(ino, fh)}"
| "live_step (OpLoad now ds) FuseOk L = {}"
| "live_step _ _ L = L"

definition live_handles :: "fuse_op list \<Rightarrow> fuse_reply list \<Rightarrow> (nat \<times> nat) set \<Rightarrow> (nat \<times> nat) set" where
  "live_handles as rs L = fold (\<lambda>(a, r). live_step a r) (zip as rs) L"

definition handles_ok :: "nat \<Rightarrow> fuse_node \<Rightarrow> bool" where
  "handles_ok k n \<longleftrightarrow> sorted_wrt (<) (fh_handlers (fn_handles n)) \<and> (\<forall>h \<in> set (fh_handlers (fn_handles n)). h < k) \<and> \<not> fh_gc (fn_handles n)"

text \<open>Handles are sorted and older than the counter, no node is marked, and the handles are those of the specification.\<close>

definition fuse_inv :: "(nat \<times> nat) set \<Rightarrow> fuse_server \<Rightarrow> bool" where
  "fuse_inv L z \<longleftrightarrow> list_all (handles_ok (fz_counter z)) (fz_files z) \<and>
     (\<forall>ino fh. (ino, fh) \<in> L \<longleftrightarrow> (\<exists>n. node_of ino z = Some n \<and> fh \<in> set (fh_handlers (fn_handles n))))"

lemma list_all_update: "\<lbrakk>list_all P xs; u < length xs \<Longrightarrow> P x\<rbrakk> \<Longrightarrow> list_all P (xs[u := x])"
  by (cases "u < length xs") (auto simp: list_all_length nth_list_update)

lemma add_file_handles:
  assumes "list_all (\<lambda>n. fn_handles n = no_handles) tree" "add_file d (tree, roots) = Inr (tree', roots')"
  shows "list_all (\<lambda>n. fn_handles n = no_handles) tree'"
proof -
  obtain u cs n where "tree' = tree[u := (tree ! u)\<lparr>fn_children := cs\<rparr>] @ [n]" "fn_handles n = no_handles"
    using assms(2) by (auto simp: add_file_def Let_def from_description_def split: option.splits)
  moreover have "list_all (\<lambda>n. fn_handles n = no_handles) (tree[u := (tree ! u)\<lparr>fn_children := cs\<rparr>])"
    using assms(1) by (intro list_all_update) (simp_all add: list_all_length)
  ultimately show ?thesis by simp
qed

lemma add_files_handles:
  "\<lbrakk>list_all (\<lambda>n. fn_handles n = no_handles) tree; add_files ds (tree, roots) = Inr tree'\<rbrakk> \<Longrightarrow> list_all (\<lambda>n. fn_handles n = no_handles) tree'"
proof (induction ds arbitrary: tree roots)
  case (Cons d ds)
  then show ?case using add_file_handles by (cases "add_file d (tree, roots)") fastforce+
qed simp

lemma build_tree_handles: "build_tree now ds = Inr tree \<Longrightarrow> list_all (\<lambda>n. fn_handles n = no_handles) tree"
  unfolding build_tree_def by (rule add_files_handles) (simp_all add: new_root_def)

lemma node_of_set_node [simp]:
  "node_of ino z = Some n \<Longrightarrow> node_of j (set_node ino m z) = (if j = ino then Some m else node_of j z)"
  by (auto simp: node_of_def set_node_def split: if_splits)

lemma node_of_counter [simp]: "node_of j (z\<lparr>fz_counter := k\<rparr>) = node_of j z"
  by (simp add: node_of_def)

lemma set_node_counter [simp]: "fz_counter (set_node ino n z) = fz_counter z"
  by (simp add: set_node_def)

lemma node_handles_ok: "\<lbrakk>fuse_inv L z; node_of ino z = Some n\<rbrakk> \<Longrightarrow> handles_ok (fz_counter z) n"
  by (auto simp: fuse_inv_def node_of_def list_all_length split: if_splits)

lemma fuse_inv_set_node:
  assumes "fuse_inv L z" "node_of ino z = Some n" "handles_ok (fz_counter z) m"
  shows "fuse_inv {(j, fh). (if j = ino then fh \<in> set (fh_handlers (fn_handles m)) else (j, fh) \<in> L)} (set_node ino m z)"
proof -
  have "list_all (handles_ok (fz_counter z)) (fz_files (set_node ino m z))"
    using assms by (auto simp: fuse_inv_def set_node_def list_all_iff dest!: subsetD[OF set_update_subset_insert])
  then show ?thesis using assms(1,2) by (auto simp: fuse_inv_def)
qed

lemma fuse_inv_counter: "\<lbrakk>fuse_inv L z; fz_counter z \<le> k\<rbrakk> \<Longrightarrow> fuse_inv L (z\<lparr>fz_counter := k\<rparr>)"
  by (fastforce simp: fuse_inv_def handles_ok_def list_all_iff)

lemma open_node_inv:
  assumes "fuse_inv L z" "node_of ino z = Some n" "fz_counter z + 1 < 18446744073709551616"
  shows "\<exists>z'. open_node ino n z = Some (Inr (fz_counter z), z') \<and> fuse_inv (insert (ino, fz_counter z) L) z' \<and> fz_counter z' = fz_counter z + 1"
proof -
  let ?k = "fz_counter z" let ?z = "z\<lparr>fz_counter := fz_counter z + 1\<rparr>"
  let ?m = "n\<lparr>fn_handles := (fn_handles n)\<lparr>fh_handlers := fh_handlers (fn_handles n) @ [?k]\<rparr>\<rparr>"
  have n: "handles_ok ?k n" by (rule node_handles_ok[OF assms(1,2)])
  then have m: "handles_ok (fz_counter ?z) ?m" by (auto simp: handles_ok_def sorted_wrt_append)
  have "fuse_inv {(j, fh). if j = ino then fh \<in> set (fh_handlers (fn_handles ?m)) else (j, fh) \<in> L} (set_node ino ?m ?z)"
    using fuse_inv_set_node[OF fuse_inv_counter[OF assms(1), of "?k + 1"], of ino n ?m] assms(2) m by simp
  moreover have "{(j, fh). if j = ino then fh \<in> set (fh_handlers (fn_handles ?m)) else (j, fh) \<in> L} = insert (ino, ?k) L"
    using assms(1,2) by (auto simp: fuse_inv_def split: if_splits)
  moreover have "open_node ino n z = Some (Inr ?k, set_node ino ?m ?z)"
    using n assms(3) by (simp add: open_node_def marked_def handles_ok_def alloc_fd_def add_handler_def)
  ultimately show ?thesis by auto
qed

lemma unregister_inv:
  assumes "fuse_inv L z" "node_of ino z = Some n"
  shows "unregister_handler fh n = None \<longleftrightarrow> (ino, fh) \<notin> L" "have_handler fh n \<longleftrightarrow> (ino, fh) \<in> L"
    "unregister_handler fh n = Some m \<Longrightarrow> fuse_inv (L - {(ino, fh)}) (set_node ino m z)"
proof -
  let ?hs = "fh_handlers (fn_handles n)"
  have n: "handles_ok (fz_counter z) n" by (rule node_handles_ok[OF assms(1,2)])
  then have s: "sorted_wrt (<) ?hs" by (simp add: handles_ok_def)
  have L: "(ino, h) \<in> L \<longleftrightarrow> h \<in> set ?hs" for h using assms by (simp add: fuse_inv_def)
  show "have_handler fh n \<longleftrightarrow> (ino, fh) \<in> L" by (simp add: L have_handler_iff[OF s])
  then show "unregister_handler fh n = None \<longleftrightarrow> (ino, fh) \<notin> L" by (auto simp: unregister_handler_def have_handler_def split: option.splits)
  assume "unregister_handler fh n = Some m"
  then obtain i where "binary_search ?hs fh = Some i" and m: "m = n\<lparr>fn_handles := (fn_handles n)\<lparr>fh_handlers := take i ?hs @ drop (Suc i) ?hs\<rparr>\<rparr>"
    by (auto simp: unregister_handler_def split: option.splits)
  then have i: "i < length ?hs" "?hs ! i = fh" by (simp_all add: binary_search_iff[OF s])
  note r = strict_remove[OF s i(1)]
  have "handles_ok (fz_counter z) m" using n r(1) by (auto simp: m handles_ok_def dest: in_set_takeD in_set_dropD)
  then have "fuse_inv {(j, h). if j = ino then h \<in> set (fh_handlers (fn_handles m)) else (j, h) \<in> L} (set_node ino m z)"
    by (rule fuse_inv_set_node[OF assms])
  moreover have "set (fh_handlers (fn_handles m)) = set ?hs - {fh}" using r(2) i(2) by (simp add: m)
  then have "{(j, h). if j = ino then h \<in> set (fh_handlers (fn_handles m)) else (j, h) \<in> L} = L - {(ino, fh)}"
    using L by (auto split: if_splits)
  ultimately show "fuse_inv (L - {(ino, fh)}) (set_node ino m z)" by simp
qed

lemma load_inv:
  assumes "fuse_inv L z" "build_tree now ds = Inr tree"
  shows "fuse_inv {} (z\<lparr>fz_files := tree, fz_generation := k\<rparr>)"
proof -
  have t: "list_all (\<lambda>n. fn_handles n = no_handles) tree" by (rule build_tree_handles[OF assms(2)])
  then have "list_all (handles_ok (fz_counter z)) tree" by (auto simp: list_all_iff handles_ok_def no_handles_def)
  moreover have "fn_handles n = no_handles" if "node_of ino (z\<lparr>fz_files := tree, fz_generation := k\<rparr>) = Some n" for ino n
    using t that by (auto simp: node_of_def list_all_length split: if_splits)
  ultimately show ?thesis by (auto simp: fuse_inv_def no_handles_def)
qed

lemma init_inv: "fuse_inv L z \<Longrightarrow> fuse_inv L (fuse_init now z)"
proof (cases "fz_files z = []")
  case True
  assume i: "fuse_inv L z"
  moreover have "node_of ino z = None" for ino using True by (simp add: node_of_def)
  ultimately have "L = {}" by (auto simp: fuse_inv_def)
  then show ?thesis using True by (auto simp: fuse_inv_def fuse_init_def node_of_def new_root_def no_handles_def handles_ok_def)
qed (simp add: fuse_init_def)

lemma fuse_step_inv:
  assumes "fuse_inv L z" "fz_counter z + 1 < 18446744073709551616"
  shows "\<exists>r z'. fuse_step a z = Some (r, z') \<and> fuse_inv (live_step a r L) z' \<and> fz_counter z' \<le> fz_counter z + 1"
proof (cases a)
  case (OpLoad now ds)
  then show ?thesis using assms(1) load_inv[OF assms(1), of now ds]
    by (cases "build_tree now ds") (simp_all add: load_file_list_def)
next
  case (OpInit now)
  then show ?thesis using init_inv[OF assms(1), of now] by (simp add: fuse_init_def)
next
  case (OpOpendir ino)
  show ?thesis
  proof (cases "node_of ino z")
    case (Some n)
    then show ?thesis using open_node_inv[OF assms(1) Some assms(2)] OpOpendir assms(1) by (auto simp: fuse_opendir_def opened_reply_def)
  qed (use OpOpendir assms(1) in \<open>simp add: fuse_opendir_def opened_reply_def\<close>)
next
  case (OpOpen ino)
  show ?thesis
  proof (cases "node_of ino z")
    case (Some n)
    then show ?thesis using open_node_inv[OF assms(1) Some assms(2)] OpOpen assms(1) by (auto simp: fuse_open_def opened_reply_def)
  qed (use OpOpen assms(1) in \<open>simp add: fuse_open_def opened_reply_def\<close>)
next
  case (OpReleasedir ino fh)
  show ?thesis
  proof (cases "node_of ino z")
    case (Some n)
    note u = unregister_inv[OF assms(1) Some]
    show ?thesis
    proof (cases "unregister_handler fh n")
      case None
      then show ?thesis using u(1,2)[of fh] OpReleasedir Some assms(1) by (simp add: fuse_releasedir_def ok_reply_def)
    next
      case m: (Some m)
      then show ?thesis using u(1,2)[of fh] u(3)[OF m] OpReleasedir Some assms(1) by (auto simp: fuse_releasedir_def ok_reply_def)
    qed
  qed (use OpReleasedir assms(1) in \<open>simp add: fuse_releasedir_def ok_reply_def\<close>)
next
  case (OpRelease ino fh)
  show ?thesis
  proof (cases "node_of ino z")
    case (Some n)
    then show ?thesis using unregister_inv(3)[OF assms(1) Some, of fh] OpRelease assms(1)
      by (cases "unregister_handler fh n") (simp_all add: fuse_release_def ok_reply_def)
  qed (use OpRelease assms(1) in \<open>simp add: fuse_release_def ok_reply_def\<close>)
qed

lemma fuse_run_inv:
  assumes "fuse_inv L z" "fz_counter z + length as < 18446744073709551616"
  shows "\<exists>rs z'. fuse_run as z = Some (rs, z') \<and> length rs = length as \<and> fuse_inv (live_handles as rs L) z'"
  using assms
proof (induction as arbitrary: L z)
  case (Cons a as)
  then obtain r z' where s: "fuse_step a z = Some (r, z')" "fuse_inv (live_step a r L) z'" "fz_counter z' \<le> fz_counter z + 1"
    using fuse_step_inv[of L z a] by auto
  then obtain rs y where "fuse_run as z' = Some (rs, y)" "length rs = length as" "fuse_inv (live_handles as rs (live_step a r L)) y"
    using Cons.IH[OF s(2)] Cons.prems(2) by fastforce
  then show ?case using s(1) by (simp add: live_handles_def)
qed (simp add: live_handles_def)

lemma fuse_inv_new: "fuse_inv {} fuse_new"
  by (simp add: fuse_inv_def fuse_new_def node_of_def)

text \<open>(C17) The open handles are exactly those the calls and their answers say: however files and directories are opened
  and closed and lists of files replaced, no call panics, and a handle is taken for a node if and only if it was given
  out for that node after the last new list and has not been closed. In particular a handle from an earlier list never
  reads a file of a later one, and the binary search over the handles is right.\<close>

theorem fuse_handles_exact:
  assumes "length as < 18446744073709551616"
  shows "\<exists>rs z. fuse_run as fuse_new = Some (rs, z) \<and>
    (\<forall>ino fh n. node_of ino z = Some n \<longrightarrow> (have_handler fh n \<longleftrightarrow> (ino, fh) \<in> live_handles as rs {}) \<and> \<not> marked n)"
proof -
  have "fz_counter fuse_new + length as < 18446744073709551616" using assms by (simp add: fuse_new_def)
  then obtain rs z where r: "fuse_run as fuse_new = Some (rs, z)" "fuse_inv (live_handles as rs {}) z"
    using fuse_run_inv[OF fuse_inv_new, of as] by auto
  have "(have_handler fh n \<longleftrightarrow> (ino, fh) \<in> live_handles as rs {}) \<and> \<not> marked n" if "node_of ino z = Some n" for ino fh n
    using unregister_inv(2)[OF r(2) that] node_handles_ok[OF r(2) that] by (simp add: marked_def handles_ok_def)
  then show ?thesis using r(1) by auto
qed

definition sample_descriptions :: "file_description list" where
  "sample_descriptions = [
     \<lparr>fd_conn_id = 1, fd_name = ''d'', fd_kind = ClipDirectory, fd_last_modified = 0, fd_size = 0, fd_perm = 493\<rparr>,
     \<lparr>fd_conn_id = 1, fd_name = ''d/a'', fd_kind = ClipFile, fd_last_modified = 0, fd_size = 5, fd_perm = 420\<rparr>]"

definition sample_calls :: "fuse_op list" where
  "sample_calls = [OpInit 0, OpLoad 0 sample_descriptions, OpOpendir 1, OpOpen 3, OpOpen 3, OpRelease 3 1]"

lemma sample_tree: "build_tree 0 sample_descriptions = Inr [(new_root 0)\<lparr>fn_children := [2]\<rparr>,
    (from_description 2 (sample_descriptions ! 0))\<lparr>fn_parent := Some 1, fn_children := [3]\<rparr>,
    (from_description 3 ((sample_descriptions ! 1)\<lparr>fd_name := ''a''\<rparr>))\<lparr>fn_parent := Some 2\<rparr>]"
  by (simp add: build_tree_def sample_descriptions_def add_file_def components_def seg_component_def rooted_def is_sep_def path_up_def
    file_name_def FUSE_ROOT_ID_def from_description_def attributes_of_def new_root_def Let_def)

lemma sample_run: "\<exists>z. fuse_run sample_calls fuse_new = Some ([FuseOk, FuseOk, FuseOpened 0, FuseOpened 1, FuseOpened 2, FuseOk], z) \<and> length (fz_files z) = 3"
  by (simp add: sample_calls_def fuse_new_def fuse_init_def load_file_list_def sample_tree[unfolded sample_descriptions_def] fuse_opendir_def fuse_open_def fuse_release_def
    node_of_def open_node_def alloc_fd_def marked_def add_handler_def opened_reply_def ok_reply_def set_node_def unregister_handler_def
    binary_search_def search_from.simps new_root_def from_description_def attributes_of_def no_handles_def sample_descriptions_def Let_def)

theorem fuse_handles_exact_witness:
  "\<exists>z n. map_option snd (fuse_run sample_calls fuse_new) = Some z \<and> node_of 3 z = Some n \<and> have_handler 2 n \<and> \<not> have_handler 1 n"
proof -
  have "length sample_calls < 18446744073709551616" by (simp add: sample_calls_def)
  then obtain rs z where r: "fuse_run sample_calls fuse_new = Some (rs, z)"
    "\<And>ino fh n. node_of ino z = Some n \<Longrightarrow> have_handler fh n \<longleftrightarrow> (ino, fh) \<in> live_handles sample_calls rs {}"
    using fuse_handles_exact[of sample_calls] by blast
  have rs: "rs = [FuseOk, FuseOk, FuseOpened 0, FuseOpened 1, FuseOpened 2, FuseOk]" and "length (fz_files z) = 3" using sample_run r(1) by auto
  then have "node_of 3 z = Some (fz_files z ! 2)" by (simp add: node_of_def)
  then show ?thesis using r rs by (auto simp: live_handles_def sample_calls_def)
qed

section \<open>The tree\<close>

definition comps :: "file_description \<Rightarrow> component list" where "comps d = components False (fd_name d)"

text \<open>The node of the \<open>k\<close>-th file: it carries the file's data and index, its name is the last component, and its parent
  comes before it and is a directory.\<close>

definition fuse_node_ok :: "file_description list \<Rightarrow> fuse_node list \<Rightarrow> nat \<Rightarrow> bool" where
  "fuse_node_ok ds tree k \<longleftrightarrow>
     (let n = tree ! Suc k; d = ds ! k in
      fn_index n = k \<and> fn_conn_id n = fd_conn_id d \<and> fn_attributes n = attributes_of (k + 2) d \<and> file_name (comps d) = Some (fn_name n) \<and>
      (case fn_parent n of None \<Rightarrow> False | Some p \<Rightarrow> 1 \<le> p \<and> p \<le> Suc k \<and> ia_kind (fn_attributes (tree ! (p - 1))) = ClipDirectory))"

text \<open>The children of a node are the nodes whose parent it is, in the order of the list.\<close>

definition tree_ok :: "file_description list \<Rightarrow> fuse_node list \<Rightarrow> bool" where
  "tree_ok ds tree \<longleftrightarrow> length tree = Suc (length ds) \<and>
     fn_attributes (tree ! 0) = \<lparr>ia_inode = 1, ia_size = 0, ia_last_modified = ia_last_modified (fn_attributes (tree ! 0)), ia_kind = ClipDirectory, ia_perm = PERM_RWX\<rparr> \<and>
     list_all (fuse_node_ok ds tree) [0..<length ds] \<and>
     list_all (\<lambda>q. fn_children (tree ! q) = map (\<lambda>k. k + 2) (filter (\<lambda>k. fn_parent (tree ! Suc k) = Some (Suc q)) [0..<length ds])) [0..<length tree]"

definition roots_ok :: "file_description list \<Rightarrow> sub_roots \<Rightarrow> bool" where
  "roots_ok ds roots \<longleftrightarrow> roots [] = Some 1 \<and> (\<forall>p i. roots p = Some i \<longrightarrow>
     i = 1 \<or> (\<exists>j < length ds. i = j + 2 \<and> comps (ds ! j) = p \<and> fd_kind (ds ! j) = ClipDirectory))"

lemma fuse_node_ok_append:
  assumes "fuse_node_ok ds tree k" "k < length ds" "length tree = Suc (length ds)"
    and "\<And>q. q < length tree \<Longrightarrow> \<exists>cs. tree' ! q = (tree ! q)\<lparr>fn_children := cs\<rparr>"
  shows "fuse_node_ok (ds @ [d]) tree' k"
proof -
  obtain p where p: "fn_parent (tree ! Suc k) = Some p" "1 \<le> p" "p \<le> Suc k" "ia_kind (fn_attributes (tree ! (p - 1))) = ClipDirectory"
    using assms(1) by (auto simp: fuse_node_ok_def Let_def split: option.splits)
  obtain cs where n: "tree' ! Suc k = (tree ! Suc k)\<lparr>fn_children := cs\<rparr>" using assms(2,3) assms(4)[of "Suc k"] by auto
  have "p - 1 < length tree" using p(3) assms(2,3) by linarith
  then obtain cs' where "tree' ! (p - 1) = (tree ! (p - 1))\<lparr>fn_children := cs'\<rparr>" using assms(4) by blast
  then show ?thesis using assms(1,2) p n by (simp add: fuse_node_ok_def Let_def nth_append)
qed

lemma tree_ok_parent:
  "\<lbrakk>tree_ok ds tree; k < length ds\<rbrakk> \<Longrightarrow>
   \<exists>p. fn_parent (tree ! Suc k) = Some p \<and> 1 \<le> p \<and> p \<le> Suc k \<and> ia_kind (fn_attributes (tree ! (p - 1))) = ClipDirectory"
  by (simp add: tree_ok_def list_all_iff fuse_node_ok_def Let_def split: option.splits) fastforce

lemma tree_ok_node:
  "\<lbrakk>tree_ok ds tree; k < length ds\<rbrakk> \<Longrightarrow> fn_index (tree ! Suc k) = k \<and> fn_conn_id (tree ! Suc k) = fd_conn_id (ds ! k) \<and>
   fn_attributes (tree ! Suc k) = attributes_of (k + 2) (ds ! k) \<and> file_name (comps (ds ! k)) = Some (fn_name (tree ! Suc k))"
  by (simp add: tree_ok_def list_all_iff fuse_node_ok_def Let_def)

lemma tree_ok_children:
  "\<lbrakk>tree_ok ds tree; q \<le> length ds\<rbrakk> \<Longrightarrow>
   fn_children (tree ! q) = map (\<lambda>k. k + 2) (filter (\<lambda>k. fn_parent (tree ! Suc k) = Some (Suc q)) [0..<length ds])"
  by (simp add: tree_ok_def list_all_iff)

lemma add_file_ok:
  assumes t: "tree_ok ds tree" and r: "roots_ok ds roots" and a: "add_file d (tree, roots) = Inr (tree', roots')"
  shows "tree_ok (ds @ [d]) tree' \<and> roots_ok (ds @ [d]) roots'"
proof -
  let ?m = "length ds"
  define up where "up = (case path_up (comps d) of Some p \<Rightarrow> (case roots p of Some i \<Rightarrow> i | None \<Rightarrow> FUSE_ROOT_ID) | None \<Rightarrow> FUSE_ROOT_ID)"
  have len: "length tree = Suc ?m" using t by (simp add: tree_ok_def)
  let ?old = "tree[up - 1 := (tree ! (up - 1))\<lparr>fn_children := fn_children (tree ! (up - 1)) @ [?m + 2]\<rparr>]"
  obtain base where b: "file_name (comps d) = Some base"
    and tree': "tree' = ?old @ [(from_description (?m + 2) (d\<lparr>fd_name := base\<rparr>))\<lparr>fn_parent := Some up\<rparr>]"
    and roots': "roots' = (if fd_kind d = ClipDirectory then roots(comps d \<mapsto> ?m + 2) else roots)"
    using a len by (auto simp: add_file_def Let_def up_def comps_def FUSE_ROOT_ID_def split: option.splits)
  have "up = 1 \<or> (\<exists>j < ?m. up = j + 2 \<and> fd_kind (ds ! j) = ClipDirectory)"
    using r unfolding up_def roots_ok_def FUSE_ROOT_ID_def by (auto split: option.splits)
  then have up: "1 \<le> up" "up \<le> Suc ?m" "ia_kind (fn_attributes (tree ! (up - 1))) = ClipDirectory"
    using t by (auto simp: tree_ok_def list_all_iff fuse_node_ok_def Let_def attributes_of_def) (metis inode_attributes.select_convs(4))
  have old: "\<exists>cs. tree' ! q = (tree ! q)\<lparr>fn_children := cs\<rparr>" if "q < length tree" for q
    using that by (cases "q = up - 1") (auto simp: tree' nth_append nth_list_update intro: exI[of _ "fn_children (tree ! q)"])
  have new: "tree' ! Suc ?m = (from_description (?m + 2) (d\<lparr>fd_name := base\<rparr>))\<lparr>fn_parent := Some up\<rparr>"
    using len by (simp add: tree' nth_append)
  have "fuse_node_ok (ds @ [d]) tree' k" if "k < ?m" for k
    using t that len by (intro fuse_node_ok_append[OF _ that len old]) (auto simp: tree_ok_def list_all_iff)
  moreover have "up - 1 < length tree" using up(1,2) len by linarith
  then obtain cs where "tree' ! (up - 1) = (tree ! (up - 1))\<lparr>fn_children := cs\<rparr>" using old by blast
  then have "fuse_node_ok (ds @ [d]) tree' ?m" using up b by (simp add: fuse_node_ok_def Let_def new from_description_def attributes_of_def)
  ultimately have nodes: "list_all (fuse_node_ok (ds @ [d]) tree') [0..<length (ds @ [d])]" by (simp add: list_all_iff less_Suc_eq)
  have parents: "fn_parent (tree' ! Suc k) = fn_parent (tree ! Suc k)" if "k < ?m" for k using old[of "Suc k"] that len by auto
  have "fn_children (tree' ! q) = map (\<lambda>k. k + 2) (filter (\<lambda>k. fn_parent (tree' ! Suc k) = Some (Suc q)) [0..<Suc ?m])" if "q < Suc (Suc ?m)" for q
  proof -
    have f: "filter (\<lambda>k. fn_parent (tree' ! Suc k) = Some (Suc q)) [0..<?m] = filter (\<lambda>k. fn_parent (tree ! Suc k) = Some (Suc q)) [0..<?m]"
      using parents by (intro filter_cong) auto
    show ?thesis
    proof (cases "q = Suc ?m")
      case True
      have "fn_parent (tree ! Suc k) \<noteq> Some (Suc q)" if "k < ?m" for k
        using tree_ok_parent[OF t that] that True by auto
      then have "filter (\<lambda>k. fn_parent (tree' ! Suc k) = Some (Suc q)) [0..<?m] = []" unfolding f by (simp add: filter_empty_conv)
      then show ?thesis using True up by (simp add: new from_description_def)
    next
      case False
      then have q: "q < length tree" using that len by simp
      then have "fn_children (tree ! q) = map (\<lambda>k. k + 2) (filter (\<lambda>k. fn_parent (tree ! Suc k) = Some (Suc q)) [0..<?m])"
        using t by (auto simp: tree_ok_def list_all_iff)
      moreover have "fn_children (tree' ! q) = fn_children (tree ! q) @ (if Suc q = up then [?m + 2] else [])"
        using q up(1) by (auto simp: tree' nth_append nth_list_update)
      moreover have "fn_parent (tree' ! Suc ?m) = Some up" by (simp add: new)
      ultimately show ?thesis using f by auto
    qed
  qed
  then have "list_all (\<lambda>q. fn_children (tree' ! q) = map (\<lambda>k. k + 2) (filter (\<lambda>k. fn_parent (tree' ! Suc k) = Some (Suc q)) [0..<length (ds @ [d])])) [0..<length tree']"
    using len by (simp add: list_all_iff tree')
  moreover have "fn_attributes (tree' ! 0) = fn_attributes (tree ! 0)" using old[of 0] len by auto
  ultimately have "tree_ok (ds @ [d]) tree'" using t nodes len by (simp add: tree_ok_def tree')
  moreover have "comps d \<noteq> []" using b by (auto simp: file_name_def)
  then have "roots_ok (ds @ [d]) roots'" using r unfolding roots_ok_def roots'
    by (auto simp: nth_append less_Suc_eq split: if_splits)
  ultimately show ?thesis by simp
qed

lemma add_files_ok:
  "\<lbrakk>tree_ok ds tree; roots_ok ds roots; add_files es (tree, roots) = Inr tree'\<rbrakk> \<Longrightarrow> tree_ok (ds @ es) tree'"
proof (induction es arbitrary: ds tree roots)
  case (Cons e es)
  from Cons.prems(3) obtain tr rs where a: "add_file e (tree, roots) = Inr (tr, rs)" "add_files es (tr, rs) = Inr tree'"
    by (auto split: sum.splits)
  then show ?case using Cons.IH[of "ds @ [e]" tr rs] add_file_ok[OF Cons.prems(1,2) a(1)] by simp
qed simp

lemma build_tree_ok: "build_tree now ds = Inr tree \<Longrightarrow> tree_ok ds tree"
proof -
  assume "build_tree now ds = Inr tree"
  moreover have "tree_ok [] [new_root now]" by (simp add: tree_ok_def new_root_def FUSE_ROOT_ID_def)
  moreover have "roots_ok [] [[RootDir] \<mapsto> FUSE_ROOT_ID, [] \<mapsto> FUSE_ROOT_ID]" by (simp add: roots_ok_def FUSE_ROOT_ID_def fun_upd_def)
  ultimately show ?thesis unfolding build_tree_def using add_files_ok[of "[]"] by (metis append_Nil)
qed

text \<open>A name that a directory may list: one component of a path.\<close>

definition single_name :: "string \<Rightarrow> bool" where
  "single_name s \<longleftrightarrow> s \<noteq> [] \<and> s \<noteq> ''.'' \<and> s \<noteq> ''..'' \<and> CHR ''/'' \<notin> set s"

lemma seg_component_Normal: "Normal s \<in> set (seg_component b x) \<longleftrightarrow> s = x \<and> x \<noteq> [] \<and> x \<noteq> ''.'' \<and> x \<noteq> ''..''"
  by (auto simp: seg_component_def)

lemma component_plain: "Normal s \<in> set (components False p) \<Longrightarrow> single_name s"
proof -
  assume n: "Normal s \<in> set (components False p)"
  obtain x xs where x: "split_on (is_sep False) p = x # xs" by (cases "split_on (is_sep False) p") auto
  then have s: "s \<in> set (split_on (is_sep False) p)" "s \<noteq> []" "s \<noteq> ''.''" "s \<noteq> ''..''"
    using n by (auto simp: components_def seg_component_Normal split: if_splits)
  then have "CHR ''/'' \<notin> set s" using split_on_pieces[OF s(1)] by (auto simp: is_sep_def)
  then show ?thesis using s by (simp add: single_name_def)
qed

lemma file_name_plain: "file_name (comps d) = Some s \<Longrightarrow> single_name s"
proof -
  assume "file_name (comps d) = Some s"
  then have "comps d \<noteq> []" "last (comps d) = Normal s" by (auto simp: file_name_def split: if_splits component.splits)
  then have "Normal s \<in> set (components False (fd_name d))" using last_in_set unfolding comps_def by metis
  then show ?thesis by (rule component_plain)
qed

text \<open>(C18) Whatever names a peer puts into its list of files, the tree built from it is one: node \<open>k + 2\<close> is the \<open>k\<close>-th
  file of the list with its size, kind and permissions, its name is a single component, so no name leaves the
  directory it is listed in, its parent is a directory that comes before it, so that every way up ends at the root, and
  the children of a node are those whose parent it is.\<close>

theorem tree_well_formed:
  assumes "build_tree now ds = Inr tree"
  shows "tree_ok ds tree \<and> list_all (\<lambda>n. single_name (fn_name n)) (tl tree)"
proof -
  have t: "tree_ok ds tree" by (rule build_tree_ok[OF assms])
  have "single_name (fn_name (tree ! Suc k))" if "k < length ds" for k
    using tree_ok_node[OF t that] file_name_plain by blast
  then have "list_all (\<lambda>n. single_name (fn_name n)) (tl tree)" using t by (auto simp: list_all_length nth_tl tree_ok_def)
  with t show ?thesis by simp
qed

theorem tree_well_formed_witness:
  "\<exists>tree. build_tree 0 sample_descriptions = Inr tree \<and> tree_ok sample_descriptions tree \<and> map fn_name tree = [''/'', ''d'', ''a'']"
  by (intro exI conjI, rule sample_tree, rule conjunct1[OF tree_well_formed[OF sample_tree]])
    (simp add: new_root_def from_description_def sample_descriptions_def)

section \<open>Paths below the mount point\<close>

definition is_normal :: "component \<Rightarrow> bool" where
  "is_normal c = (case c of Normal s \<Rightarrow> length s \<le> MAX_NAME_LEN | _ \<Rightarrow> False)"

text \<open>A list as the other end makes it: each name once, below the directory that was copied from, and every directory
  before its contents.\<close>

definition copied_entry :: "file_description list \<Rightarrow> file_description \<Rightarrow> bool" where
  "copied_entry before d \<longleftrightarrow> comps d \<noteq> [] \<and> list_all is_normal (comps d) \<and> list_all (\<lambda>e. comps e \<noteq> comps d) before \<and>
     (butlast (comps d) = [] \<or> list_ex (\<lambda>e. fd_kind e = ClipDirectory \<and> comps e = butlast (comps d)) before)"

fun copied_list :: "file_description list \<Rightarrow> file_description list \<Rightarrow> bool" where
  "copied_list before [] \<longleftrightarrow> True"
| "copied_list before (d # ds) \<longleftrightarrow> copied_entry before d \<and> copied_list (before @ [d]) ds"

text \<open>The path of a node.\<close>

definition path_of :: "file_description list \<Rightarrow> nat \<Rightarrow> component list" where
  "path_of ds p = (if p = 1 then [] else comps (ds ! (p - 2)))"

definition parents_ok :: "file_description list \<Rightarrow> fuse_node list \<Rightarrow> bool" where
  "parents_ok ds tree \<longleftrightarrow> (\<forall>k < length ds. \<exists>p. fn_parent (tree ! Suc k) = Some p \<and> path_of ds p = butlast (comps (ds ! k)))"

definition dirs_known :: "file_description list \<Rightarrow> sub_roots \<Rightarrow> bool" where
  "dirs_known ds roots \<longleftrightarrow> (\<forall>k < length ds. fd_kind (ds ! k) = ClipDirectory \<longrightarrow> roots (comps (ds ! k)) = Some (k + 2))"

lemma copied_entry_name:
  assumes "copied_entry ds d"
  obtains s where "file_name (comps d) = Some s" "length s \<le> MAX_NAME_LEN" "comps d = butlast (comps d) @ [Normal s]" "path_up (comps d) = Some (butlast (comps d))"
proof -
  have n: "comps d \<noteq> []" "is_normal (last (comps d))" using assms by (auto simp: copied_entry_def list_all_iff)
  then obtain s where s: "last (comps d) = Normal s" "length s \<le> MAX_NAME_LEN" by (auto simp: is_normal_def split: component.splits)
  then show ?thesis using n append_butlast_last_id[OF n(1)] that[of s] by (simp add: file_name_def path_up_def)
qed

lemma add_file_parents:
  assumes t: "tree_ok ds tree" "roots_ok ds roots" and d: "dirs_known ds roots" "parents_ok ds tree" and c: "copied_entry ds e"
  shows "\<exists>tree' roots'. add_file e (tree, roots) = Inr (tree', roots') \<and> dirs_known (ds @ [e]) roots' \<and> parents_ok (ds @ [e]) tree'"
proof -
  obtain s where s: "file_name (comps e) = Some s" "path_up (comps e) = Some (butlast (comps e))" using copied_entry_name[OF c] by metis
  let ?m = "length ds"
  define up where "up = (case roots (butlast (comps e)) of Some i \<Rightarrow> i | None \<Rightarrow> FUSE_ROOT_ID)"
  have len: "length tree = Suc ?m" using t(1) by (simp add: tree_ok_def)
  define tree' where "tree' = tree[up - 1 := (tree ! (up - 1))\<lparr>fn_children := fn_children (tree ! (up - 1)) @ [?m + 2]\<rparr>] @
    [(from_description (?m + 2) (e\<lparr>fd_name := s\<rparr>))\<lparr>fn_parent := Some up\<rparr>]"
  define roots' where "roots' = (if fd_kind e = ClipDirectory then roots(comps e \<mapsto> ?m + 2) else roots)"
  have a: "add_file e (tree, roots) = Inr (tree', roots')"
    using s len by (simp add: add_file_def Let_def up_def tree'_def roots'_def comps_def FUSE_ROOT_ID_def)
  have old: "fn_parent (tree' ! Suc k) = fn_parent (tree ! Suc k)" if "k < ?m" for k
    using that len by (cases "up - 1 = Suc k") (simp_all add: tree'_def nth_append)
  have new: "fn_parent (tree' ! Suc ?m) = Some up" using len by (simp add: tree'_def nth_append)
  have up: "(up = 1 \<and> butlast (comps e) = []) \<or> (\<exists>j < ?m. up = j + 2 \<and> comps (ds ! j) = butlast (comps e))"
  proof (cases "butlast (comps e) = []")
    case True
    then show ?thesis using t(2) by (simp add: up_def roots_ok_def)
  next
    case False
    then have "list_ex (\<lambda>x. fd_kind x = ClipDirectory \<and> comps x = butlast (comps e)) ds" using c by (simp add: copied_entry_def)
    then obtain j where "j < ?m" "fd_kind (ds ! j) = ClipDirectory" "comps (ds ! j) = butlast (comps e)"
      by (auto simp: list_ex_length)
    then show ?thesis using d(1) by (auto simp: up_def dirs_known_def)
  qed
  have "\<exists>p. fn_parent (tree' ! Suc k) = Some p \<and> path_of (ds @ [e]) p = butlast (comps ((ds @ [e]) ! k))" if k: "k < Suc ?m" for k
  proof (cases "k = ?m")
    case True
    then show ?thesis using new up by (auto simp: path_of_def nth_append)
  next
    case False
    then have k: "k < ?m" using k by simp
    then obtain p where p: "fn_parent (tree ! Suc k) = Some p" "path_of ds p = butlast (comps (ds ! k))" using d(2) by (auto simp: parents_ok_def)
    moreover have "1 \<le> p" "p \<le> Suc k" using tree_ok_parent[OF t(1) k] p(1) by auto
    then have "path_of (ds @ [e]) p = path_of ds p" using k by (auto simp: path_of_def nth_append)
    ultimately show ?thesis using old[OF k] k by (simp add: nth_append)
  qed
  then have "parents_ok (ds @ [e]) tree'" by (simp add: parents_ok_def)
  moreover have "comps (ds ! k) \<noteq> comps e" if "k < ?m" for k using c that by (simp add: copied_entry_def list_all_length)
  then have "dirs_known (ds @ [e]) roots'" using d(1) by (auto simp: dirs_known_def roots'_def nth_append less_Suc_eq)
  ultimately show ?thesis using a by blast
qed

lemma add_files_parents:
  "\<lbrakk>tree_ok ds tree; roots_ok ds roots; dirs_known ds roots; parents_ok ds tree; copied_list ds es\<rbrakk> \<Longrightarrow>
   \<exists>tree'. add_files es (tree, roots) = Inr tree' \<and> parents_ok (ds @ es) tree'"
proof (induction es arbitrary: ds tree roots)
  case (Cons e es)
  then obtain tr rs where a: "add_file e (tree, roots) = Inr (tr, rs)" "dirs_known (ds @ [e]) rs" "parents_ok (ds @ [e]) tr"
    using add_file_parents[of ds tree roots e] by auto
  then show ?case using Cons.IH[of "ds @ [e]" tr rs] add_file_ok[OF Cons.prems(1,2) a(1)] Cons.prems(5) by simp
qed simp

lemma build_tree_parents: "copied_list [] ds \<Longrightarrow> \<exists>tree. build_tree now ds = Inr tree \<and> parents_ok ds tree"
  unfolding build_tree_def
  using add_files_parents[of "[]" "[new_root now]" "[[RootDir] \<mapsto> FUSE_ROOT_ID, [] \<mapsto> FUSE_ROOT_ID]" ds]
  by (simp add: tree_ok_def roots_ok_def new_root_def FUSE_ROOT_ID_def dirs_known_def parents_ok_def fun_upd_def)

text \<open>A path is looked up name by name.\<close>

fun fuse_walk :: "nat \<Rightarrow> string list \<Rightarrow> fuse_server \<Rightarrow> nat option" where
  "fuse_walk ino [] z = Some ino"
| "fuse_walk ino (s # ss) z = (case fuse_lookup ino s z of Inl _ \<Rightarrow> None | Inr (a, _) \<Rightarrow> fuse_walk (ia_inode a) ss z)"

lemma fuse_walk_snoc:
  "fuse_walk ino (ss @ [s]) z =
   (case fuse_walk ino ss z of None \<Rightarrow> None | Some i \<Rightarrow> (case fuse_lookup i s z of Inl _ \<Rightarrow> None | Inr (a, _) \<Rightarrow> Some (ia_inode a)))"
  by (induction ss arbitrary: ino) (auto split: sum.splits)

lemma copied_list_nth:
  "\<lbrakk>copied_list before ds; k < length ds\<rbrakk> \<Longrightarrow> copied_entry (before @ take k ds) (ds ! k)"
proof (induction ds arbitrary: before k)
  case (Cons d ds)
  then show ?case by (cases k) (auto dest: Cons.IH[of "before @ [d]"])
qed simp

lemma copied_distinct: "\<lbrakk>copied_list [] ds; j < length ds; k < length ds; comps (ds ! j) = comps (ds ! k)\<rbrakk> \<Longrightarrow> j = k"
proof (rule ccontr)
  have ne: "comps (ds ! a) \<noteq> comps (ds ! b)" if c: "copied_list [] ds" "b < length ds" "a < b" for a b
    using copied_list_nth[OF c(1,2)] c(2,3) by (auto simp: copied_entry_def list_all_length)
  assume "copied_list [] ds" "j < length ds" "k < length ds" "comps (ds ! j) = comps (ds ! k)" "j \<noteq> k"
  then show False using ne[of k j] ne[of j k] by (auto simp: neq_iff)
qed

text \<open>A lookup finds the one child with that name.\<close>

lemma fuse_lookup_child:
  assumes z: "fz_files z = tree" "tree_ok ds tree" "parents_ok ds tree" "copied_list [] ds"
    and k: "k < length ds" "fn_parent (tree ! Suc k) = Some p"
  shows "fuse_lookup p (fn_name (tree ! Suc k)) z = Inr (attributes_of (k + 2) (ds ! k), fz_generation z)"
proof -
  let ?name = "fn_name (tree ! Suc k)"
  have p: "1 \<le> p" "p \<le> Suc k" "ia_kind (fn_attributes (tree ! (p - 1))) = ClipDirectory" using tree_ok_parent[OF z(2) k(1)] k(2) by auto
  have len: "length tree = Suc (length ds)" using z(2) by (simp add: tree_ok_def)
  have nm: "file_name (comps (ds ! k)) = Some ?name" using tree_ok_node[OF z(2) k(1)] by simp
  have short: "length ?name \<le> MAX_NAME_LEN" using copied_entry_name[OF copied_list_nth[OF z(4) k(1)]] nm by (metis option.inject)
  have ch: "fn_children (tree ! (p - 1)) = map (\<lambda>j. j + 2) (filter (\<lambda>j. fn_parent (tree ! Suc j) = Some p) [0..<length ds])"
    using tree_ok_children[OF z(2), of "p - 1"] p(1,2) k(1) by simp
  have same: "j = k" if j: "j < length ds" "fn_parent (tree ! Suc j) = Some p" "fn_name (tree ! Suc j) = ?name" for j
  proof -
    have c: "comps (ds ! i) = butlast (comps (ds ! i)) @ [Normal (fn_name (tree ! Suc i))]" if "i < length ds" for i
      using copied_entry_name[OF copied_list_nth[OF z(4) that]] tree_ok_node[OF z(2) that] by (metis option.inject)
    have "path_of ds p = butlast (comps (ds ! j))" "path_of ds p = butlast (comps (ds ! k))"
      using z(3) j k by (force simp: parents_ok_def)+
    then have "comps (ds ! j) = comps (ds ! k)" using c[OF j(1)] c[OF k(1)] j(3) by simp
    then show ?thesis using copied_distinct[OF z(4) j(1) k(1)] by simp
  qed
  have "find (\<lambda>i. fn_name (tree ! (i - 1)) = ?name) (fn_children (tree ! (p - 1))) = Some (k + 2)"
  proof -
    have "k + 2 \<in> set (fn_children (tree ! (p - 1)))" unfolding ch using k by simp
    then have "find (\<lambda>i. fn_name (tree ! (i - 1)) = ?name) (fn_children (tree ! (p - 1))) \<noteq> None"
      by (auto simp: find_None_iff intro!: exI[of _ "k + 2"])
    then obtain i where i: "find (\<lambda>i. fn_name (tree ! (i - 1)) = ?name) (fn_children (tree ! (p - 1))) = Some i" by blast
    then have "i \<in> set (fn_children (tree ! (p - 1)))" "fn_name (tree ! (i - 1)) = ?name" by (auto simp: find_Some_iff)
    then have "i = k + 2" unfolding ch using same by auto
    then show ?thesis using i by simp
  qed
  moreover have "node_of p z = Some (tree ! (p - 1))" using z(1) p k(1) len by (simp add: node_of_def)
  ultimately show ?thesis using short p(3) z(1) tree_ok_node[OF z(2) k(1)] by (simp add: fuse_lookup_def)
qed

lemma fuse_lookup_parent:
  assumes z: "fz_files z = tree" "tree_ok ds tree" and l: "fuse_lookup p s z = Inr (a, g)"
  shows "\<exists>k < length ds. ia_inode a = k + 2 \<and> fn_parent (tree ! Suc k) = Some p \<and> fn_name (tree ! Suc k) = s"
proof -
  have len: "length tree = Suc (length ds)" using z(2) by (simp add: tree_ok_def)
  obtain n i where n: "node_of p z = Some n" and i: "find (\<lambda>i. fn_name (tree ! (i - 1)) = s) (fn_children n) = Some i" "a = fn_attributes (tree ! (i - 1))"
    using l z(1) by (auto simp: fuse_lookup_def split: if_splits option.splits)
  then have p: "1 \<le> p" "p \<le> Suc (length ds)" "n = tree ! (p - 1)" using z(1) len by (auto simp: node_of_def split: if_splits)
  have "i \<in> set (fn_children n)" "fn_name (tree ! (i - 1)) = s" using i(1) by (auto simp: find_Some_iff)
  then obtain k where "k < length ds" "i = k + 2" "fn_parent (tree ! Suc k) = Some p"
    using tree_ok_children[OF z(2), of "p - 1"] p by auto
  then show ?thesis using i(2) \<open>fn_name (tree ! (i - 1)) = s\<close> tree_ok_node[OF z(2)] by (auto simp: attributes_of_def)
qed

lemma fuse_walk_path:
  assumes z: "fz_files z = tree" "tree_ok ds tree" "parents_ok ds tree" "copied_list [] ds"
    and k: "k < length ds" "comps (ds ! k) = map Normal p"
  shows "fuse_walk 1 p z = Some (k + 2)"
  using k
proof (induction p arbitrary: k rule: rev_induct)
  case Nil
  then show ?case using copied_list_nth[OF z(4) Nil(1)] by (simp add: copied_entry_def)
next
  case (snoc s p)
  have s: "fn_name (tree ! Suc k) = s" using tree_ok_node[OF z(2) snoc.prems(1)] snoc.prems(2) by (simp add: file_name_def)
  obtain i where i: "fn_parent (tree ! Suc k) = Some i" "path_of ds i = map Normal p"
    using z(3) snoc.prems by (auto simp: parents_ok_def)
  have r: "1 \<le> i" "i \<le> Suc k" using tree_ok_parent[OF z(2) snoc.prems(1)] i(1) by auto
  have "fuse_walk 1 p z = Some i"
  proof (cases "i = 1")
    case True
    then show ?thesis using i(2) by (simp add: path_of_def)
  next
    case False
    then obtain j where "i = j + 2" using r(1) by (metis One_nat_def Suc_1 add.commute le_Suc_ex le_antisym not_less_eq_eq)
    then show ?thesis using snoc.IH[of j] i(2) r snoc.prems(1) by (simp add: path_of_def)
  qed
  then show ?case using fuse_lookup_child[OF z snoc.prems(1) i(1)] s by (simp add: fuse_walk_snoc attributes_of_def)
qed

lemma fuse_walk_only:
  assumes z: "fz_files z = tree" "tree_ok ds tree" "parents_ok ds tree" "copied_list [] ds" and w: "fuse_walk 1 p z = Some ino"
  shows "(p = [] \<and> ino = 1) \<or> (\<exists>k < length ds. ino = k + 2 \<and> comps (ds ! k) = map Normal p)"
  using w
proof (induction p arbitrary: ino rule: rev_induct)
  case (snoc s p)
  then obtain i a g where i: "fuse_walk 1 p z = Some i" "fuse_lookup i s z = Inr (a, g)" "ino = ia_inode a"
    by (auto simp: fuse_walk_snoc split: option.splits sum.splits)
  then obtain k where k: "k < length ds" "ino = k + 2" "fn_parent (tree ! Suc k) = Some i" "fn_name (tree ! Suc k) = s"
    using fuse_lookup_parent[OF z(1,2) i(2)] by auto
  have "path_of ds i = map Normal p" using snoc.IH[OF i(1)] by (auto simp: path_of_def)
  moreover have "path_of ds i = butlast (comps (ds ! k))" using z(3) k(1,3) by (force simp: parents_ok_def)
  moreover have "comps (ds ! k) = butlast (comps (ds ! k)) @ [Normal s]"
    using copied_entry_name[OF copied_list_nth[OF z(4) k(1)]] tree_ok_node[OF z(2) k(1)] k(4) by (metis option.inject)
  ultimately show ?case using k(1,2) by auto
qed simp

text \<open>Below the mount point there is exactly what was copied: a path leads to node \<open>k + 2\<close> if and only if it is the
  path of the \<open>k\<close>-th file of the peer's list, so reading it asks the peer for that file, and no other path leads
  anywhere.\<close>

theorem fuse_paths_exact:
  assumes "copied_list [] ds"
  shows "\<exists>z'. load_file_list now ds z = (None, z') \<and>
    (\<forall>p ino. fuse_walk 1 p z' = Some ino \<longleftrightarrow> (p = [] \<and> ino = 1) \<or> (\<exists>k < length ds. ino = k + 2 \<and> comps (ds ! k) = map Normal p))"
proof -
  obtain tree where t: "build_tree now ds = Inr tree" "parents_ok ds tree" using build_tree_parents[OF assms] by blast
  let ?z = "z\<lparr>fz_files := tree, fz_generation := Suc (fz_generation z)\<rparr>"
  have z: "fz_files ?z = tree" "tree_ok ds tree" using build_tree_ok[OF t(1)] by simp_all
  have "fuse_walk 1 p ?z = Some ino \<longleftrightarrow> (p = [] \<and> ino = 1) \<or> (\<exists>k < length ds. ino = k + 2 \<and> comps (ds ! k) = map Normal p)" for p ino
    using fuse_walk_path[OF z t(2) assms] fuse_walk_only[OF z t(2) assms] by auto
  then show ?thesis using t(1) by (simp add: load_file_list_def)
qed

theorem fuse_paths_exact_witness:
  "\<exists>z. load_file_list 0 sample_descriptions fuse_new = (None, z) \<and> fuse_walk 1 [''d'', ''a''] z = Some 3 \<and> fuse_walk 1 [''..'', ''a''] z = None"
proof -
  have c: "map comps sample_descriptions = [[Normal ''d''], [Normal ''d'', Normal ''a'']]"
    by (simp add: sample_descriptions_def comps_def components_def seg_component_def rooted_def is_sep_def)
  have l: "copied_list [] sample_descriptions"
    using c by (simp add: sample_descriptions_def copied_entry_def is_normal_def MAX_NAME_LEN_def)
  obtain z where z: "load_file_list 0 sample_descriptions fuse_new = (None, z)"
    "\<And>p ino. fuse_walk 1 p z = Some ino \<longleftrightarrow> (p = [] \<and> ino = 1) \<or>
      (\<exists>k < length sample_descriptions. ino = k + 2 \<and> comps (sample_descriptions ! k) = map Normal p)"
    using fuse_paths_exact[OF l, of 0 fuse_new] by blast
  have n: "length sample_descriptions = 2" "comps (sample_descriptions ! 0) = [Normal ''d'']" "comps (sample_descriptions ! 1) = [Normal ''d'', Normal ''a'']"
    using c by (simp_all add: sample_descriptions_def)
  have "fuse_walk 1 [''d'', ''a''] z = Some 3" unfolding z(2) using n by (intro disjI2 exI[of _ 1]) simp
  moreover have "fuse_walk 1 [''..'', ''a''] z \<noteq> Some ino" for ino unfolding z(2) using n by (auto dest!: less_2_cases)
  ultimately show ?thesis using z(1) by blast
qed

end
