(* ===== verification/ClipboardExchange.thy ===== *)
theory ClipboardExchange
  imports ClipboardFuse
begin

text \<open>
  The messages of the file clipboard between two ends, \<^verbatim>\<open>src/clipboard_file.rs\<close> in the build for Linux, with the
  context of the mounted file system (\<^verbatim>\<open>libs/clipboard/src/platform/unix/fuse/mod.rs\<close>): how lists of files and their
  contents get from the end that copied them to the end that pastes them. What the operating system answers when the
  file system is mounted is an argument, and so are the sizes of files by their path.
\<close>

section \<open>Messages\<close>

datatype cliprdr =
    CrReady
  | CrFormatList "(int \<times> string) list"
  | CrFormatListResponse int
  | CrFormatDataRequest int
  | CrFormatDataResponse int bytes
  | CrFileContentsRequest int int int int int int bool int
  | CrFileContentsResponse int int bytes
  | CrTryEmpty
  | CrFiles "(string \<times> int) list"

datatype clip_msg = ClipMessageBox string string string string | ClipCliprdr cliprdr

text \<open>A file of size 0 is announced with the size it has now, or not at all.\<close>

fun clip_2_msg :: "(string \<Rightarrow> int option) \<Rightarrow> clipboard_file \<Rightarrow> clip_msg" where
  "clip_2_msg sizes (NotifyCallback ty title text) = ClipMessageBox ty title text []"
| "clip_2_msg sizes MonitorReady = ClipCliprdr CrReady"
| "clip_2_msg sizes (FormatList fs) = ClipCliprdr (CrFormatList fs)"
| "clip_2_msg sizes (FormatListResponse flags) = ClipCliprdr (CrFormatListResponse flags)"
| "clip_2_msg sizes (FormatDataRequest i) = ClipCliprdr (CrFormatDataRequest i)"
| "clip_2_msg sizes (FormatDataResponse flags data) = ClipCliprdr (CrFormatDataResponse flags data)"
| "clip_2_msg sizes (FileContentsRequest stream idx flags low high cb have_id clip_id) =
     ClipCliprdr (CrFileContentsRequest stream idx flags low high cb have_id clip_id)"
| "clip_2_msg sizes (FileContentsResponse flags stream data) = ClipCliprdr (CrFileContentsResponse flags stream data)"
| "clip_2_msg sizes TryEmpty = ClipCliprdr CrTryEmpty"
| "clip_2_msg sizes (ClipFiles fs) =
     ClipCliprdr (CrFiles (List.map_filter (\<lambda>(f, s). if s = 0 then map_option (Pair f) (sizes f) else Some (f, s)) fs))"

fun msg_2_clip :: "cliprdr option \<Rightarrow> clipboard_file option" where
  "msg_2_clip (Some CrReady) = Some MonitorReady"
| "msg_2_clip (Some (CrFormatList fs)) = Some (FormatList fs)"
| "msg_2_clip (Some (CrFormatListResponse flags)) = Some (FormatListResponse flags)"
| "msg_2_clip (Some (CrFormatDataRequest i)) = Some (FormatDataRequest i)"
| "msg_2_clip (Some (CrFormatDataResponse flags data)) = Some (FormatDataResponse flags data)"
| "msg_2_clip (Some (CrFileContentsRequest stream idx flags low high cb have_id clip_id)) =
     Some (FileContentsRequest stream idx flags low high cb have_id clip_id)"
| "msg_2_clip (Some (CrFileContentsResponse flags stream data)) = Some (FileContentsResponse flags stream data)"
| "msg_2_clip (Some CrTryEmpty) = Some TryEmpty"
| "msg_2_clip _ = None"

section \<open>The mounted file system\<close>

datatype mount_point_state = HealthyMount | NotMounted | StaleMount | UnknownMount

text \<open>\<open>metadata\<close> of the mount point, as far as it is looked at, and the contents of \<^verbatim>\<open>/proc/self/mountinfo\<close>.\<close>

datatype metadata_result = MetadataOk | NotConnected | MetadataMissing | MetadataError

fun fifth_field :: "string \<Rightarrow> string option" where
  "fifth_field line =
     (let fs = filter (\<lambda>s. s \<noteq> []) (split_on is_space line) in if length fs < 5 then None else Some (fs ! 4))"

definition is_mount_point_listed :: "string \<Rightarrow> string \<Rightarrow> bool" where
  "is_mount_point_listed mount_point mountinfo = list_ex (\<lambda>l. fifth_field l = Some mount_point) (str_lines mountinfo)"

definition inspect_mount_point :: "string \<Rightarrow> metadata_result \<Rightarrow> string option \<Rightarrow> mount_point_state" where
  "inspect_mount_point mount_point md mountinfo =
     (case md of
        MetadataOk \<Rightarrow>
          (case mountinfo of
             Some m \<Rightarrow> if is_mount_point_listed mount_point m then HealthyMount else NotMounted
           | None \<Rightarrow> UnknownMount)
      | NotConnected \<Rightarrow> StaleMount
      | MetadataMissing \<Rightarrow> NotMounted
      | MetadataError \<Rightarrow> UnknownMount)"

definition validate_after_cleanup :: "mount_point_state \<Rightarrow> cliprdr_error option" where
  "validate_after_cleanup s =
     (case s of NotMounted \<Rightarrow> None | HealthyMount \<Rightarrow> Some ClipboardOccupied | StaleMount \<Rightarrow> Some CliprdrInit | UnknownMount \<Rightarrow> Some CliprdrInit)"

record fuse_context =
  fc_server :: fuse_server
  fc_rx :: "clipboard_file list"
  fc_mount_point :: string
  fc_conn_id :: int

text \<open>What is found at the mount point: of the context that is there, before a new mount, and after a stale mount was
  cleaned up; and whether the directory can be prepared and the file system be mounted on it.\<close>

record mount_env =
  mv_context :: mount_point_state
  mv_before :: mount_point_state
  mv_after :: mount_point_state
  mv_prepared :: bool
  mv_mounted :: bool

definition mount_new :: "mount_env \<Rightarrow> string \<Rightarrow> cliprdr_error option \<times> fuse_context option" where
  "mount_new env mount_point =
     (case (case mv_before env of
              HealthyMount \<Rightarrow> Some ClipboardOccupied
            | StaleMount \<Rightarrow> validate_after_cleanup (mv_after env)
            | UnknownMount \<Rightarrow> Some CliprdrInit
            | NotMounted \<Rightarrow> None) of
        Some e \<Rightarrow> (Some e, None)
      | None \<Rightarrow>
          if \<not> mv_prepared env \<or> \<not> mv_mounted env then (Some CliprdrInit, None)
          else (None, Some \<lparr>fc_server = fuse_new, fc_rx = [], fc_mount_point = mount_point, fc_conn_id = 0\<rparr>))"

definition init_fuse_context :: "mount_env \<Rightarrow> string \<Rightarrow> fuse_context option \<Rightarrow> cliprdr_error option \<times> fuse_context option" where
  "init_fuse_context env mount_point ctx =
     (case ctx of
        None \<Rightarrow> mount_new env mount_point
      | Some c \<Rightarrow>
          (case mv_context env of
             HealthyMount \<Rightarrow> (None, Some c)
           | UnknownMount \<Rightarrow> (Some CliprdrInit, Some c)
           | _ \<Rightarrow> mount_new env mount_point))"

text \<open>The paths of what is below the root of a new list; the list of an unknown or broken kind changes nothing.\<close>

definition urls_of :: "utf16 \<Rightarrow> int \<Rightarrow> bytes \<Rightarrow> int \<Rightarrow> fuse_context \<Rightarrow> ((cliprdr_error + string list) \<times> fuse_context) option" where
  "urls_of u now data conn_id c =
     (case parse_file_descriptors u conn_id data of
        Inl e \<Rightarrow> Some (Inl e, c)
      | Inr files \<Rightarrow>
          (case load_file_list now files (fc_server c) of
             (Some e, _) \<Rightarrow> Some (Inl e, c)
           | (None, z) \<Rightarrow>
               (case list_root z of
                  None \<Rightarrow> None
                | Some paths \<Rightarrow> Some (Inr (map (path_push False (fc_mount_point c)) paths), c\<lparr>fc_server := z, fc_conn_id := conn_id\<rparr>))))"

definition format_data_response_to_urls :: "utf16 \<Rightarrow> int \<Rightarrow> bytes \<Rightarrow> int \<Rightarrow> fuse_context option \<Rightarrow>
    ((cliprdr_error + string list) \<times> fuse_context option) option" where
  "format_data_response_to_urls u now data conn_id ctx =
     (case ctx of None \<Rightarrow> Some (Inl CliprdrInit, None) | Some c \<Rightarrow> map_option (\<lambda>(r, c). (r, Some c)) (urls_of u now data conn_id c))"

definition handle_file_content_response :: "clipboard_file \<Rightarrow> fuse_context option \<Rightarrow> cliprdr_error option \<times> fuse_context option" where
  "handle_file_content_response clip ctx =
     (case ctx of None \<Rightarrow> (Some CliprdrInit, None) | Some c \<Rightarrow> (None, Some (c\<lparr>fc_rx := fc_rx c @ [clip]\<rparr>)))"

definition empty_local_files :: "int \<Rightarrow> int \<Rightarrow> fuse_context option \<Rightarrow> bool \<times> fuse_context option" where
  "empty_local_files now conn_id ctx =
     (case ctx of
        None \<Rightarrow> (False, None)
      | Some c \<Rightarrow>
          if conn_id \<noteq> 0 \<and> fc_conn_id c \<noteq> conn_id then (False, Some c)
          else (True, Some (c\<lparr>fc_server := snd (load_file_list now [] (fc_server c))\<rparr>)))"

section \<open>An end of the clipboard\<close>

definition FILEDESCRIPTOR_FORMAT_ID :: int where "FILEDESCRIPTOR_FORMAT_ID = 49334"
definition FILEDESCRIPTORW_FORMAT_NAME :: string where "FILEDESCRIPTORW_FORMAT_NAME = ''FileGroupDescriptorW''"
definition FILECONTENTS_FORMAT_ID :: int where "FILECONTENTS_FORMAT_ID = 49267"
definition FILECONTENTS_FORMAT_NAME :: string where "FILECONTENTS_FORMAT_NAME = ''FileContents''"

text \<open>The table of formats has the two entries below; it is never changed.\<close>

definition get_local_format :: "int \<Rightarrow> string option" where
  "get_local_format remote_id =
     map_of [(FILEDESCRIPTOR_FORMAT_ID, FILEDESCRIPTORW_FORMAT_NAME), (FILECONTENTS_FORMAT_ID, FILECONTENTS_FORMAT_NAME)] remote_id"

definition get_format_list :: clipboard_file where
  "get_format_list = FormatList [
     (FILEDESCRIPTOR_FORMAT_ID, case get_local_format FILEDESCRIPTOR_FORMAT_ID of Some s \<Rightarrow> s | None \<Rightarrow> FILEDESCRIPTORW_FORMAT_NAME),
     (FILECONTENTS_FORMAT_ID, case get_local_format FILECONTENTS_FORMAT_ID of Some s \<Rightarrow> s | None \<Rightarrow> FILECONTENTS_FORMAT_NAME)]"

record clip_env =
  ev_disk :: disk
  ev_utf16 :: utf16
  ev_len :: "string \<Rightarrow> int option"
  ev_mount :: mount_env
  ev_mount_point :: string
  ev_now :: int

record clip_end =
  ce_files :: clip_files
  ce_fuse :: "fuse_context option"

text \<open>What the desktop's clipboard is told: the paths to paste, or that the pasted ones are gone.\<close>

datatype clip_effect = SetFileUrls "string list" | EmptyFileUrls

definition resp_file_contents_fail :: "int \<Rightarrow> clipboard_file" where
  "resp_file_contents_fail stream = FileContentsResponse 2 stream []"

definition resp_format_data_failure :: clipboard_file where
  "resp_format_data_failure = FormatDataResponse 2 []"

definition serve_format_data_response :: "clip_env \<Rightarrow> int \<Rightarrow> int \<Rightarrow> bytes \<Rightarrow> clip_end \<Rightarrow> (clip_effect list \<times> clip_end) option" where
  "serve_format_data_response env conn_id flags data e =
     (if flags \<noteq> 1 then Some ([], e)
      else case init_fuse_context (ev_mount env) (ev_mount_point env) (ce_fuse e) of
          (Some _, ctx) \<Rightarrow> Some ([], e\<lparr>ce_fuse := ctx\<rparr>)
        | (None, ctx) \<Rightarrow>
            (case format_data_response_to_urls (ev_utf16 env) (ev_now env) data conn_id ctx of
               None \<Rightarrow> None
             | Some (Inl _, ctx) \<Rightarrow> Some ([], e\<lparr>ce_fuse := ctx\<rparr>)
             | Some (Inr urls, ctx) \<Rightarrow> Some (if urls = [] then [] else [SetFileUrls urls], e\<lparr>ce_fuse := ctx\<rparr>)))"

text \<open>The answers, what the clipboard is told and the end after it; \<open>None\<close> is a panic.\<close>

fun serve_clip_messages :: "clip_env \<Rightarrow> int \<Rightarrow> clipboard_file \<Rightarrow> clip_end \<Rightarrow> (clip_msg list \<times> clip_effect list \<times> clip_end) option" where
  "serve_clip_messages env conn_id (FormatList fs) e =
     (if \<not> list_ex (\<lambda>(_, name). name = FILECONTENTS_FORMAT_NAME) fs then Some ([], [], e)
      else case find (\<lambda>(_, name). name = FILEDESCRIPTORW_FORMAT_NAME) fs of
          None \<Rightarrow> Some ([], [], e)
        | Some (i, _) \<Rightarrow> Some ([clip_2_msg (ev_len env) (FormatDataRequest i)], [], e))"
| "serve_clip_messages env conn_id (FormatDataRequest _) e =
     (let data = cf_files_pdu (ce_files e)
      in Some ([clip_2_msg (ev_len env) (if data \<noteq> [] then FormatDataResponse 1 data else resp_format_data_failure)], [], e))"
| "serve_clip_messages env conn_id (FormatDataResponse flags data) e =
     map_option (\<lambda>(fx, e). ([], fx, e)) (serve_format_data_response env conn_id flags data e)"
| "serve_clip_messages env conn_id (FileContentsRequest stream idx flags low high cb _ _) e =
     map_option (\<lambda>(res, cf). (map (\<lambda>r. clip_2_msg (ev_len env) (case r of Inr clip \<Rightarrow> clip | Inl _ \<Rightarrow> resp_file_contents_fail stream)) res,
                              [], e\<lparr>ce_files := cf\<rparr>))
       (read_file_contents (ev_disk env) stream idx flags low high cb (ce_files e))"
| "serve_clip_messages env conn_id (FileContentsResponse flags stream data) e =
     Some ([], [], e\<lparr>ce_fuse := snd (handle_file_content_response (FileContentsResponse flags stream data) (ce_fuse e))\<rparr>)"
| "serve_clip_messages env conn_id TryEmpty e =
     (let (emptied, ctx) = empty_local_files (ev_now env) conn_id (ce_fuse e)
      in Some ([], if emptied then [EmptyFileUrls] else [], e\<lparr>ce_fuse := ctx\<rparr>))"
| "serve_clip_messages env conn_id _ e = Some ([], [], e)"

text \<open>The messages of the peer in turn; message boxes and what is no request or answer are for other parts.\<close>

fun clip_deliver :: "clip_env \<Rightarrow> int \<Rightarrow> clip_msg list \<Rightarrow> clip_end \<Rightarrow> (clip_msg list \<times> clip_effect list \<times> clip_end) option" where
  "clip_deliver env conn_id [] e = Some ([], [], e)"
| "clip_deliver env conn_id (ClipMessageBox _ _ _ _ # ms) e = clip_deliver env conn_id ms e"
| "clip_deliver env conn_id (ClipCliprdr m # ms) e =
     (case msg_2_clip (Some m) of
        None \<Rightarrow> clip_deliver env conn_id ms e
      | Some clip \<Rightarrow>
          (case serve_clip_messages env conn_id clip e of
             None \<Rightarrow> None
           | Some (out, fx, e) \<Rightarrow> map_option (\<lambda>(out', fx', e). (out @ out', fx @ fx', e)) (clip_deliver env conn_id ms e)))"

section \<open>Copy and paste\<close>

text \<open>The messages of the fuse server go to the peer as they are: the request of a read, the answer of the other end, and
  what the read then gets.\<close>

definition read_remote :: "clip_env \<Rightarrow> clip_env \<Rightarrow> int \<Rightarrow> int \<Rightarrow> nat \<Rightarrow> nat \<Rightarrow> nat \<Rightarrow> nat \<Rightarrow> clip_end \<Rightarrow> clip_end \<Rightarrow>
    ((errno + bytes) \<times> clip_end \<times> clip_end) option" where
  "read_remote henv cenv conn_id stream ino fh offset sz host client =
     (case ce_fuse client of
        None \<Rightarrow> None
      | Some c \<Rightarrow>
          (let (_, reqs, _) = fuse_read (\<lambda>_. True) stream ino fh offset sz [] (fc_server c) in
           case clip_deliver henv conn_id (map (clip_2_msg (ev_len cenv)) reqs) host of
             None \<Rightarrow> None
           | Some (answers, _, host) \<Rightarrow>
               (case clip_deliver cenv conn_id answers client of
                  None \<Rightarrow> None
                | Some (_, _, client) \<Rightarrow>
                    map_option (\<lambda>c. let (r, _, rest) = fuse_read (\<lambda>_. True) stream ino fh offset sz (fc_rx c) (fc_server c)
                                     in (r, host, client\<lparr>ce_fuse := Some (c\<lparr>fc_rx := rest\<rparr>)\<rparr>)) (ce_fuse client))))"

text \<open>The host announces its files, the client asks for the list, and gets it.\<close>

definition announce :: "clip_env \<Rightarrow> clip_env \<Rightarrow> int \<Rightarrow> clip_end \<Rightarrow> clip_end \<Rightarrow> (clip_effect list \<times> clip_end \<times> clip_end) option" where
  "announce henv cenv conn_id host client =
     (case clip_deliver cenv conn_id [clip_2_msg (ev_len henv) get_format_list] client of
        None \<Rightarrow> None
      | Some (asked, _, client) \<Rightarrow>
          (case clip_deliver henv conn_id asked host of
             None \<Rightarrow> None
           | Some (answers, _, host) \<Rightarrow>
               map_option (\<lambda>(_, fx, client). (fx, host, client)) (clip_deliver cenv conn_id answers client)))"

lemma formats_distinct [simp]: "FILEDESCRIPTORW_FORMAT_NAME \<noteq> FILECONTENTS_FORMAT_NAME" "FILECONTENTS_FORMAT_ID \<noteq> FILEDESCRIPTOR_FORMAT_ID"
  by (simp_all add: FILEDESCRIPTORW_FORMAT_NAME_def FILECONTENTS_FORMAT_NAME_def FILEDESCRIPTOR_FORMAT_ID_def FILECONTENTS_FORMAT_ID_def)

lemma format_list_asks:
  "clip_deliver env conn_id [clip_2_msg sizes get_format_list] e = Some ([ClipCliprdr (CrFormatDataRequest FILEDESCRIPTOR_FORMAT_ID)], [], e)"
  by (simp add: get_format_list_def get_local_format_def)

definition descriptions :: "int \<Rightarrow> local_file list \<Rightarrow> file_description list" where
  "descriptions conn_id ls = map (description_of conn_id) ls"

text \<open>An end that copied \<open>ls\<close>, and an end that can paste.\<close>

definition host_has :: "clip_env \<Rightarrow> local_file list \<Rightarrow> clip_end \<Rightarrow> bool" where
  "host_has env ls e \<longleftrightarrow> cf_file_list (ce_files e) = ls \<and> build_file_list_pdu (ev_utf16 env) ls = Some (cf_files_pdu (ce_files e))"

lemma announce_loads:
  assumes u: "utf16_ok (ev_utf16 henv)" "ev_utf16 cenv = ev_utf16 henv"
    and h: "host_has henv ls host" "list_all (sendable (ev_utf16 henv)) ls" "length ls < 4294967296"
    and c: "copied_list [] (descriptions conn_id ls)" "init_fuse_context (ev_mount cenv) (ev_mount_point cenv) (ce_fuse client) = (None, Some ctx)"
  shows "\<exists>z fx. load_file_list (ev_now cenv) (descriptions conn_id ls) (fc_server ctx) = (None, z) \<and>
    announce henv cenv conn_id host client = Some (fx, host, client\<lparr>ce_fuse := Some (ctx\<lparr>fc_server := z, fc_conn_id := conn_id\<rparr>)\<rparr>)"
proof -
  obtain tree where t: "build_tree (ev_now cenv) (descriptions conn_id ls) = Inr tree" using build_tree_parents[OF c(1)] by blast
  have ne: "tree \<noteq> []" using build_tree_ok[OF t] by (auto simp: tree_ok_def)
  obtain pdu where p: "cf_files_pdu (ce_files host) = pdu" "build_file_list_pdu (ev_utf16 henv) ls = Some pdu" using h(1) by (simp add: host_has_def)
  have ps: "parse_file_descriptors (ev_utf16 henv) conn_id pdu = Inr (descriptions conn_id ls)"
    using file_list_reads_back[OF u(1) h(2,3), of conn_id] p(2) by (simp add: descriptions_def)
  obtain bs where "pdu = put_le32 (word_of_nat (length ls)) @ bs" using p(2) by (auto simp: build_file_list_pdu_def)
  then have "4 \<le> length pdu" by simp
  then have "pdu \<noteq> []" by auto
  then show ?thesis
    using p(1) ps t ne c(2) u(2)
    by (simp add: announce_def format_list_asks serve_format_data_response_def format_data_response_to_urls_def urls_of_def load_file_list_def list_root_def)
qed

text \<open>Replies that were left over by earlier reads.\<close>

definition stale :: "int \<Rightarrow> clipboard_file \<Rightarrow> bool" where
  "stale stream r = (case r of FileContentsResponse _ s _ \<Rightarrow> s \<noteq> stream | _ \<Rightarrow> False)"

lemma await_reply_stale:
  "\<lbrakk>list_all (stale stream) old; and flags 1 \<noteq> 0\<rbrakk> \<Longrightarrow> await_reply up stream retry (old @ FileContentsResponse flags stream data # rs) = (Some data, 0, rs)"
proof (induction old)
  case (Cons r old)
  then show ?case by (cases r) (simp_all add: stale_def)
qed simp

lemma clip_deliver_audit:
  "clip_deliver env conn_id (map (clip_2_msg sizes) ((case a of Some fs \<Rightarrow> [ClipFiles fs] | None \<Rightarrow> []) @ [FileContentsResponse flags stream data])) e =
   Some ([], [], e\<lparr>ce_fuse := snd (handle_file_content_response (FileContentsResponse flags stream data) (ce_fuse e))\<rparr>)"
  by (simp split: option.split)

lemma audit_is_files: "\<exists>a. get_files_for_audit disk r cf = map_option ClipFiles a"
  by (cases r) (auto simp: get_files_for_audit_def Let_def intro: exI[of _ None] exI[of _ "Some x" for x])

lemma host_answers:
  assumes f: "files_ok (ev_disk env) (cf_file_list (ce_files e))" and k: "k < length (cf_file_list (ce_files e))" "k < 2147483648"
    and l: "\<not> lf_is_dir (cf_file_list (ce_files e) ! k)" "offset \<le> lf_size (cf_file_list (ce_files e) ! k)"
    and o: "offset_survives offset" "n < 2147483648"
  shows "\<exists>a ls'. serve_clip_messages env conn_id (FileContentsRequest stream (int k) 2 (position_low offset) (position_high offset) (int n) False 0) e =
      Some (map (clip_2_msg (ev_len env)) ((case a of Some fs \<Rightarrow> [ClipFiles fs] | None \<Rightarrow> []) @
              [FileContentsResponse 1 stream (range_of (ev_disk env) (cf_file_list (ce_files e) ! k) offset n)]),
            [], e\<lparr>ce_files := (ce_files e)\<lparr>cf_file_list := ls'\<rparr>\<rparr>) \<and>
    files_ok (ev_disk env) ls' \<and> list_all2 lf_same (cf_file_list (ce_files e)) ls'"
proof -
  let ?ls = "cf_file_list (ce_files e)" let ?r = "RangeRequest stream k offset n"
  have r: "request_of stream (int k) 2 (position_low offset) (position_high offset) (int n) = Inr ?r" using o k(2) by (intro request_survives)
  obtain ls' where s: "serve_file_contents (ev_disk env) ?r ?ls = Some (answer (ev_disk env) ?ls ?r, ls')" "files_ok (ev_disk env) ls'" "list_all2 lf_same ?ls ls'"
    using serve_ok[OF f, of ?r] o(2) by auto
  have a: "answer (ev_disk env) ?ls ?r = Inr (FileContentsResponse 1 stream (range_of (ev_disk env) (?ls ! k) offset n))" using k(1) l by simp
  obtain au where "get_files_for_audit (ev_disk env) ?r (ce_files e) = map_option ClipFiles au" using audit_is_files by blast
  then show ?thesis using r s a by (intro exI[of _ au] exI[of _ ls']) (simp add: read_file_contents_def split: option.split)
qed

lemma fuse_read_asks:
  assumes "node_of ino z = Some n" "have_handler fh n" "ia_kind (fn_attributes n) = ClipFile" "\<not> marked n" "fn_index n < 2147483648" "sz < 2147483648"
  shows "fuse_read (\<lambda>_. True) stream ino fh offset sz [] z =
    (Inl EIO, [FileContentsRequest stream (int (fn_index n)) 2 (position_low offset) (position_high offset) (int sz) False 0], [])"
  using assms by (simp add: fuse_read_def read_node_def node_request_def wrap_i32_id i32_max_def)

lemma fuse_read_gets:
  assumes "node_of ino z = Some n" "have_handler fh n" "ia_kind (fn_attributes n) = ClipFile" "\<not> marked n" "list_all (stale stream) old"
  shows "\<exists>out. fuse_read (\<lambda>_. True) stream ino fh offset sz (old @ [FileContentsResponse 1 stream data]) z = (Inr data, out, [])"
  using assms await_reply_stale[OF assms(5), of 1 "\<lambda>_. True" 0 data "[]"] by (simp add: fuse_read_def read_node_def)

lemma read_remote_delivers:
  assumes c: "ce_fuse client = Some ctx" "node_of ino (fc_server ctx) = Some n" "have_handler fh n" "ia_kind (fn_attributes n) = ClipFile" "\<not> marked n"
      "list_all (stale stream) (fc_rx ctx)"
    and h: "files_ok (ev_disk henv) (cf_file_list (ce_files host))" "fn_index n < length (cf_file_list (ce_files host))" "fn_index n < 2147483648"
      "\<not> lf_is_dir (cf_file_list (ce_files host) ! fn_index n)" "offset \<le> lf_size (cf_file_list (ce_files host) ! fn_index n)"
    and o: "offset_survives offset" "sz < 2147483648"
  shows "\<exists>ls'. read_remote henv cenv conn_id stream ino fh offset sz host client =
      Some (Inr (range_of (ev_disk henv) (cf_file_list (ce_files host) ! fn_index n) offset sz),
            host\<lparr>ce_files := (ce_files host)\<lparr>cf_file_list := ls'\<rparr>\<rparr>, client\<lparr>ce_fuse := Some (ctx\<lparr>fc_rx := []\<rparr>)\<rparr>) \<and>
    files_ok (ev_disk henv) ls' \<and> list_all2 lf_same (cf_file_list (ce_files host)) ls'"
proof -
  let ?data = "range_of (ev_disk henv) (cf_file_list (ce_files host) ! fn_index n) offset sz"
  obtain a ls' where s: "serve_clip_messages henv conn_id (FileContentsRequest stream (int (fn_index n)) 2 (position_low offset) (position_high offset) (int sz) False 0) host =
      Some (map (clip_2_msg (ev_len henv)) ((case a of Some fs \<Rightarrow> [ClipFiles fs] | None \<Rightarrow> []) @ [FileContentsResponse 1 stream ?data]),
            [], host\<lparr>ce_files := (ce_files host)\<lparr>cf_file_list := ls'\<rparr>\<rparr>)"
    and l: "files_ok (ev_disk henv) ls'" "list_all2 lf_same (cf_file_list (ce_files host)) ls'"
    using host_answers[OF h o] by blast
  obtain out where g: "fuse_read (\<lambda>_. True) stream ino fh offset sz (fc_rx ctx @ [FileContentsResponse 1 stream ?data]) (fc_server ctx) = (Inr ?data, out, [])"
    using fuse_read_gets[OF c(2-6)] by blast
  have d: "clip_deliver henv conn_id (map (clip_2_msg (ev_len cenv)) [FileContentsRequest stream (int (fn_index n)) 2 (position_low offset) (position_high offset) (int sz) False 0]) host =
      Some (map (clip_2_msg (ev_len henv)) ((case a of Some fs \<Rightarrow> [ClipFiles fs] | None \<Rightarrow> []) @ [FileContentsResponse 1 stream ?data]),
            [], host\<lparr>ce_files := (ce_files host)\<lparr>cf_file_list := ls'\<rparr>\<rparr>)"
    using s by (simp del: serve_clip_messages.simps map_append)
  show ?thesis using l
    by (auto simp add: read_remote_def c(1) fuse_read_asks[OF c(2-5) h(3) o(2)] d clip_deliver_audit handle_file_content_response_def g
        simp del: list.map map_append)
qed

text \<open>(C8) What is pasted is what was copied, at the offsets that can be asked for: after the host has announced its files, a
  path below the mount point of the client leads to a node for each file, opening it gives a handle, and reading from the
  handle at an offset, in one request and its answer over the messages of the connection, gives the bytes of the host's file
  at that offset. This is for files, not for directories, and under these conditions. The list is as a host makes it: fewer
  than \<open>2^31\<close> entries, each path once, below the directory that was copied from and after its own directory
  (\<open>copied_list\<close>), of at most 260 UTF-16 units without a backslash or a zero character (\<open>sendable\<close>; a longer one makes the
  host panic, \<open>long_name_panics\<close>). The files of the list can be opened and their contents have the size that was announced
  (\<open>files_ok\<close>). Bit 31 of the offset is clear (\<open>offset_survives\<close>; from 2 to 4 GiB, and in the second half of any further 4 GiB,
  every request is refused, \<open>upper_half_unreadable\<close>) and the offset is not behind the end of the file, and fewer than \<open>2^31\<close> bytes
  are asked for. The mount succeeds, and replies that are left over are those of other streams: they do not disturb the
  read.\<close>

theorem pasted_files_are_copied:
  assumes "utf16_ok (ev_utf16 henv)" "ev_utf16 cenv = ev_utf16 henv"
    and "host_has henv ls host" "list_all (sendable (ev_utf16 henv)) ls" "length ls < 2147483648" "files_ok (ev_disk henv) ls"
    and "copied_list [] (descriptions conn_id ls)" "init_fuse_context (ev_mount cenv) (ev_mount_point cenv) (ce_fuse client) = (None, Some ctx)"
    and "list_all (stale stream) (fc_rx ctx)"
    and "k < length ls" "\<not> lf_is_dir (ls ! k)" "comps (descriptions conn_id ls ! k) = map Normal p"
    and "offset \<le> lf_size (ls ! k)" "offset_survives offset" "sz < 2147483648"
  shows "\<exists>fx client1 c fh z host' client'.
    announce henv cenv conn_id host client = Some (fx, host, client1) \<and> ce_fuse client1 = Some c \<and>
    fuse_walk 1 p (fc_server c) = Some (k + 2) \<and> fuse_open (k + 2) (fc_server c) = Some (Inr fh, z) \<and>
    read_remote henv cenv conn_id stream (k + 2) fh offset sz host (client1\<lparr>ce_fuse := Some (c\<lparr>fc_server := z\<rparr>)\<rparr>) =
      Some (Inr (range_of (ev_disk henv) (ls ! k) offset sz), host', client')"
proof -
  let ?ds = "descriptions conn_id ls"
  obtain z fx where l: "load_file_list (ev_now cenv) ?ds (fc_server ctx) = (None, z)"
    "announce henv cenv conn_id host client = Some (fx, host, client\<lparr>ce_fuse := Some (ctx\<lparr>fc_server := z, fc_conn_id := conn_id\<rparr>)\<rparr>)"
    using announce_loads[OF assms(1-4) _ assms(7,8)] assms(5) by auto
  obtain tree where t: "build_tree (ev_now cenv) ?ds = Inr tree" "parents_ok ?ds tree" using build_tree_parents[OF assms(7)] by blast
  then have z: "fz_files z = tree" using l(1) by (auto simp: load_file_list_def)
  have len: "length ?ds = length ls" by (simp add: descriptions_def)
  have tok: "tree_ok ?ds tree" by (rule build_tree_ok[OF t(1)])
  have walk: "fuse_walk 1 p z = Some (k + 2)" using fuse_walk_path[OF z tok t(2) assms(7)] assms(10,12) len by simp
  let ?n = "tree ! Suc k" let ?fh = "fz_counter z"
  have n: "fn_index ?n = k" "ia_kind (fn_attributes ?n) = ClipFile" "fn_handles ?n = no_handles" "Suc k < length tree"
    using tree_ok_node[OF tok, of k] build_tree_handles[OF t(1)] assms(10,11) len tok
    by (simp_all add: attributes_of_def descriptions_def description_of_def list_all_length tree_ok_def)
  let ?m = "?n\<lparr>fn_handles := \<lparr>fh_handlers = [?fh], fh_gc = False\<rparr>\<rparr>"
  obtain z' where op: "fuse_open (k + 2) z = Some (Inr ?fh, z')" "node_of (k + 2) z' = Some ?m"
    using z n by (simp add: fuse_open_def node_of_def open_node_def marked_def no_handles_def alloc_fd_def add_handler_def set_node_def)
  have m: "have_handler ?fh ?m" "\<not> marked ?m" "fn_index ?m = k" "ia_kind (fn_attributes ?m) = ClipFile"
    using n(1,2) by (simp_all add: have_handler_def binary_search_def search_from.simps marked_def)
  have "cf_file_list (ce_files host) = ls" using assms(3) by (simp add: host_has_def)
  then obtain host' client' where "read_remote henv cenv conn_id stream (k + 2) ?fh offset sz host
      (client\<lparr>ce_fuse := Some (ctx\<lparr>fc_server := z, fc_conn_id := conn_id\<rparr>)\<rparr>\<lparr>ce_fuse := Some (ctx\<lparr>fc_server := z, fc_conn_id := conn_id\<rparr>\<lparr>fc_server := z'\<rparr>)\<rparr>) =
      Some (Inr (range_of (ev_disk henv) (ls ! k) offset sz), host', client')"
    using read_remote_delivers[of "client\<lparr>ce_fuse := Some (ctx\<lparr>fc_server := z, fc_conn_id := conn_id\<rparr>\<lparr>fc_server := z'\<rparr>)\<rparr>"
        "ctx\<lparr>fc_server := z, fc_conn_id := conn_id\<rparr>\<lparr>fc_server := z'\<rparr>" "k + 2" ?m ?fh stream henv host offset sz cenv conn_id]
      op(2) m assms(5,6,9-15) by auto
  then show ?thesis using l(2) walk op(1)
    by (intro exI[of _ fx] exI[of _ "client\<lparr>ce_fuse := Some (ctx\<lparr>fc_server := z, fc_conn_id := conn_id\<rparr>)\<rparr>"]
        exI[of _ "ctx\<lparr>fc_server := z, fc_conn_id := conn_id\<rparr>"] exI[of _ ?fh] exI[of _ z'] exI[of _ host'] exI[of _ client']) simp
qed

definition clip_sample_env :: clip_env where
  "clip_sample_env = \<lparr>ev_disk = sample_disk, ev_utf16 = latin_utf16, ev_len = (\<lambda>_. None),
     ev_mount = \<lparr>mv_context = NotMounted, mv_before = NotMounted, mv_after = NotMounted, mv_prepared = True, mv_mounted = True\<rparr>,
     ev_mount_point = ''/run/c'', ev_now = 0\<rparr>"

definition clip_sample_host :: clip_end where
  "clip_sample_host = \<lparr>ce_files = sample_clip\<lparr>cf_files_pdu := the (build_file_list_pdu latin_utf16 [sample_file [''a''] False 5])\<rparr>, ce_fuse = None\<rparr>"

definition clip_sample_client :: clip_end where
  "clip_sample_client = \<lparr>ce_files = clear_files sample_clip, ce_fuse = None\<rparr>"

lemma sample_sendable: "sendable latin_utf16 (sample_file [''a''] False 5)"
  by (simp add: sendable_def sample_file_def strip_root_def)

lemma sample_ends:
  "host_has clip_sample_env [sample_file [''a''] False 5] clip_sample_host" "files_ok sample_disk [sample_file [''a''] False 5]"
  "comps (descriptions 7 [sample_file [''a''] False 5] ! 0) = [Normal ''a'']" "copied_list [] (descriptions 7 [sample_file [''a''] False 5])"
proof -
  obtain pdu where "build_file_list_pdu latin_utf16 [sample_file [''a''] False 5] = Some pdu"
    using file_list_reads_back[OF latin_ok, of "[sample_file [''a''] False 5]" 7] sample_sendable by auto
  then show "host_has clip_sample_env [sample_file [''a''] False 5] clip_sample_host" by (simp add: host_has_def clip_sample_host_def sample_clip_def clip_sample_env_def)
  show "files_ok sample_disk [sample_file [''a''] False 5]" by (simp add: files_ok_def lf_ok_def sample_disk_def sample_file_def)
  show c: "comps (descriptions 7 [sample_file [''a''] False 5] ! 0) = [Normal ''a'']"
    by (simp add: comps_def descriptions_def description_of_def sample_file_def strip_root_def components_def seg_component_def rooted_def is_sep_def)
  then show "copied_list [] (descriptions 7 [sample_file [''a''] False 5])"
    by (simp add: descriptions_def copied_entry_def is_normal_def MAX_NAME_LEN_def)
qed

theorem pasted_files_are_copied_witness:
  "\<exists>fx client1 c fh z host' client'.
    announce clip_sample_env clip_sample_env 7 clip_sample_host clip_sample_client = Some (fx, clip_sample_host, client1) \<and> ce_fuse client1 = Some c \<and>
    fuse_walk 1 [''a''] (fc_server c) = Some 2 \<and> fuse_open 2 (fc_server c) = Some (Inr fh, z) \<and>
    read_remote clip_sample_env clip_sample_env 7 99 2 fh 1 3 clip_sample_host (client1\<lparr>ce_fuse := Some (c\<lparr>fc_server := z\<rparr>)\<rparr>) = Some (Inr [2, 3, 4], host', client')"
proof -
  let ?l = "sample_file [''a''] False 5"
  have r: "range_of (ev_disk clip_sample_env) ([?l] ! 0) 1 3 = [2, 3, 4]"
    by (simp add: range_of_def clip_sample_env_def sample_disk_def sample_file_def numeral_eq_Suc)
  have i: "init_fuse_context (ev_mount clip_sample_env) (ev_mount_point clip_sample_env) (ce_fuse clip_sample_client) =
      (None, Some \<lparr>fc_server = fuse_new, fc_rx = [], fc_mount_point = ''/run/c'', fc_conn_id = 0\<rparr>)"
    by (simp add: init_fuse_context_def mount_new_def clip_sample_env_def clip_sample_client_def)
  show ?thesis
    using pasted_files_are_copied[OF _ _ sample_ends(1) _ _ _ sample_ends(4) i, of 99 0 "[''a'']" 1 3] latin_ok sample_sendable sample_ends(2,3) r
    by (simp add: clip_sample_env_def[THEN arg_cong[of _ _ ev_utf16]] clip_sample_env_def[THEN arg_cong[of _ _ ev_disk]] sample_file_def offset_survives_def numeral_2_eq_2)
qed

end
