(* ===== verification/ClipboardPaste.thy ===== *)
theory ClipboardPaste
  imports ClipboardServe
begin

text \<open>
  The end that pastes copied files on macOS, \<^verbatim>\<open>libs/clipboard/src/platform/unix/macos/paste_task.rs\<close>: the task that
  fetches the files of a list one after the other, in blocks, into temporary files beside their places, and its worker
  thread. The file system is that of theory \<open>FileSystem\<close>. A path that is built anew has one separator between its
  names; extended attributes and creation times are left out, and what is written is in the file at once.
\<close>

section \<open>State\<close>

definition RECV_RETRY_TIMES :: nat where "RECV_RETRY_TIMES = 3"
definition DOWNLOAD_EXTENSION :: string where "DOWNLOAD_EXTENSION = ''rddownload''"
definition RECEIVE_WAIT_TIMEOUT :: int where "RECEIVE_WAIT_TIMEOUT = 5000"
definition PASTE_BLOCK :: int where "PASTE_BLOCK = 4 * 1024 * 1024"
definition INVALID_FILE_INDEX :: int where "INVALID_FILE_INDEX = -1"

text \<open>A handle is the number of the open file and the position in it.\<close>

record paste_task =
  pt_list_index :: int
  pt_offset :: int
  pt_total_size :: int
  pt_current_size :: int
  pt_last_sent :: int
  pt_dl_index :: int
  pt_dl_size :: int
  pt_dl_path :: string
  pt_dl_current :: int
  pt_handle :: "(nat \<times> nat) option"
  pt_error :: "cliprdr_error option"
  pt_canceled :: bool
  pt_target_dir :: string
  pt_files :: "file_description list"

definition paste_finished :: "paste_task \<Rightarrow> bool" where
  "paste_finished t \<longleftrightarrow> pt_canceled t \<or> pt_error t \<noteq> None \<or> pt_list_index t \<ge> int (length (pt_files t))"

section \<open>Names\<close>

definition last_name :: "string \<Rightarrow> string option" where
  "last_name p = (case rev (components False p) of Normal s # _ \<Rightarrow> Some s | _ \<Rightarrow> None)"

text \<open>\<open>Path::file_stem\<close> and \<open>Path::extension\<close>.\<close>

definition stem_ext :: "string \<Rightarrow> string \<times> string option" where
  "stem_ext name =
     (case rsplit_once (CHR ''.'') name of
        Some (a, b) \<Rightarrow> if a = [] then (name, None) else (a, Some b)
      | None \<Rightarrow> (name, None))"

definition rebuilt :: "string \<Rightarrow> string list \<Rightarrow> string" where
  "rebuilt p segs = (if rooted False p then ''/'' else []) @ join_slash segs"

definition with_file_name :: "string \<Rightarrow> string \<Rightarrow> string" where
  "with_file_name p name = rebuilt p ((if last_name p = None then segments False p else butlast (segments False p)) @ [name])"

definition numbered_name :: "string \<Rightarrow> clip_kind \<Rightarrow> nat \<Rightarrow> string" where
  "numbered_name path kind i =
     (case (kind, map_option stem_ext (last_name path)) of
        (ClipFile, Some (stem, Some ext)) \<Rightarrow> with_file_name path (stem @ ''-'' @ nat_to_str i @ ''.'' @ ext)
      | _ \<Rightarrow> path @ '' ('' @ nat_to_str i @ '')'')"

fun first_free :: "fs \<Rightarrow> string \<Rightarrow> clip_kind \<Rightarrow> nat \<Rightarrow> nat \<Rightarrow> string option" where
  "first_free f path kind i 0 = None"
| "first_free f path kind i (Suc n) =
     (let p = numbered_name path kind i in if \<not> path_exists f p then Some p else first_free f path kind (Suc i) n)"

definition get_first_filename :: "fs \<Rightarrow> string \<Rightarrow> clip_kind \<Rightarrow> string option" where
  "get_first_filename f path kind = (if \<not> path_exists f path then Some path else first_free f path kind 1 9999998)"

definition get_new_filename :: "fs \<Rightarrow> string \<Rightarrow> file_description \<Rightarrow> string option" where
  "get_new_filename f target d =
     (let p = path_push False target (fd_name d) in if path_exists f p then get_first_filename f p (fd_kind d) else Some p)"

section \<open>The task\<close>

text \<open>\<open>create_dir_all\<close> of a path, its error ignored or not.\<close>

definition make_dirs :: "fs \<Rightarrow> string \<Rightarrow> io_kind option \<times> fs" where
  "make_dirs f p = create_dir_all f (start_at f p) (segments False p)"

definition on_cancelled :: "paste_task \<Rightarrow> fs \<Rightarrow> paste_task \<times> fs" where
  "on_cancelled t f = (t\<lparr>pt_handle := None\<rparr>, snd (fs_remove_file f (pt_dl_path t)))"

definition on_error :: "cliprdr_error \<Rightarrow> paste_task \<Rightarrow> fs \<Rightarrow> paste_task \<times> fs" where
  "on_error e t f = on_cancelled (t\<lparr>pt_error := Some e\<rparr>) f"

definition on_done :: "paste_task \<Rightarrow> fs \<Rightarrow> paste_task \<times> fs" where
  "on_done t f =
     (if pt_handle t = None \<or> pt_dl_index t = INVALID_FILE_INDEX then (t, f)
      else
        let t = t\<lparr>pt_handle := None\<rparr>; i = nat (pt_dl_index t) in
        if i \<ge> length (pt_files t) then (t, f)
        else (case get_new_filename f (pt_target_dir t) (pt_files t ! i) of
                None \<Rightarrow> (t, f)
              | Some p \<Rightarrow>
                  (t\<lparr>pt_dl_path := [], pt_dl_index := INVALID_FILE_INDEX\<rparr>,
                   case fs_rename f (pt_dl_path t) p of
                     (None, f) \<Rightarrow> set_file_mtime f p (fd_last_modified (pt_files t ! i))
                   | (Some _, f) \<Rightarrow> f)))"

definition on_finished :: "paste_task \<Rightarrow> fs \<Rightarrow> paste_task \<times> fs" where
  "on_finished t f =
     (let (t, f) = (if pt_error t \<noteq> None then on_cancelled t f else on_done t f)
      in (if pt_current_size t \<noteq> pt_total_size t then t\<lparr>pt_error := Some (InvalidRequest ''Failed to download all files'')\<rparr> else t, f))"

definition open_new_writer :: "file_description \<Rightarrow> paste_task \<Rightarrow> fs \<Rightarrow> cliprdr_error option \<times> paste_task \<times> fs" where
  "open_new_writer d t f =
     (case get_first_filename f (path_push False (pt_target_dir t) (fd_name d) @ ''.'' @ DOWNLOAD_EXTENSION) (fd_kind d) of
        None \<Rightarrow> (Some (CommonError ''Failed to get download file path''), t, f)
      | Some p \<Rightarrow>
          if segments False p = [] then (Some (CommonError ''Failed to get parent of the download file path''), t, f)
          else
            (let up = rebuilt p (butlast (segments False p)) in
             case (if path_exists f up then (None, f) else make_dirs f up) of
               (Some _, f) \<Rightarrow> (Some (FileError up), t, f)
             | (None, f) \<Rightarrow>
                 (case file_create f p of
                    Inl _ \<Rightarrow> (None, t\<lparr>pt_error := Some (FileError p)\<rparr>, f)
                  | Inr (i, f) \<Rightarrow>
                      (None, t\<lparr>pt_dl_index := pt_list_index t, pt_dl_size := fd_size d, pt_dl_path := p, pt_dl_current := 0, pt_handle := Some (i, 0)\<rparr>, f))))"

text \<open>An empty file: what cannot be created is left out.\<close>

definition create_empty :: "file_description \<Rightarrow> string \<Rightarrow> fs \<Rightarrow> fs" where
  "create_empty d target f =
     (case get_new_filename f target d of
        None \<Rightarrow> f
      | Some p \<Rightarrow>
          (case file_create f p of
             Inl _ \<Rightarrow> f
           | Inr (i, f) \<Rightarrow> f\<lparr>fs_data := (fs_data f)(i \<mapsto> (content f i, fd_last_modified d))\<rparr>))"

text \<open>The loop of \<open>update_next\<close> over the files from index \<open>i\<close> on.\<close>

fun next_paste :: "int \<Rightarrow> file_description list \<Rightarrow> paste_task \<Rightarrow> fs \<Rightarrow> cliprdr_error option \<times> paste_task \<times> fs" where
  "next_paste i [] t f = (None, t, f)"
| "next_paste i (d # ds) t f =
     (case fd_kind d of
        ClipFile \<Rightarrow>
          if fd_size d = 0 then next_paste (i + 1) ds t (create_empty d (pt_target_dir t) f)
          else open_new_writer d (t\<lparr>pt_list_index := i, pt_offset := 0\<rparr>) f
      | ClipDirectory \<Rightarrow>
          (let p = path_push False (pt_target_dir t) (fd_name d)
           in next_paste (i + 1) ds t (if path_exists f p then f else snd (make_dirs f p))))"

definition close_if_idle :: "paste_task \<Rightarrow> paste_task" where
  "close_if_idle t =
     (if pt_handle t = None then t\<lparr>pt_list_index := int (length (pt_files t)), pt_offset := 0, pt_dl_size := 0, pt_dl_current := 0\<rparr> else t)"

text \<open>The sizes are \<open>u64\<close> and wrap.\<close>

definition update_next :: "int \<Rightarrow> paste_task \<Rightarrow> fs \<Rightarrow> cliprdr_error option \<times> paste_task \<times> fs" where
  "update_next sz t f =
     (if paste_finished t then (None, t, f)
      else
        let t = t\<lparr>pt_current_size := (pt_current_size t + sz) mod 18446744073709551616\<rparr>;
            is_start = (pt_list_index t = -1)
        in if is_start \<or> (pt_offset t + sz) mod 18446744073709551616 \<ge> pt_dl_size t then
             (let (t, f) = (if is_start then (t, f) else on_done t f);
                  i = pt_list_index t + 1
              in case next_paste i (drop (nat i) (pt_files t)) t f of
                   (Some e, t, f) \<Rightarrow> (Some e, t, f)
                 | (None, t, f) \<Rightarrow> (None, close_if_idle t, f))
           else (None, close_if_idle (t\<lparr>pt_offset := (pt_offset t + sz) mod 18446744073709551616,
                                       pt_dl_current := (pt_dl_current t + sz) mod 18446744073709551616\<rparr>), f))"

text \<open>The request for the next block of the current file.\<close>

definition send_request :: "int \<Rightarrow> paste_task \<Rightarrow> (cliprdr_error + clipboard_file option) \<times> paste_task" where
  "send_request now t =
     (if paste_finished t then (Inr None, t)
      else if \<not> (0 \<le> pt_list_index t \<and> pt_list_index t < int (length (pt_files t))) then (Inl (InvalidRequest ''Invalid file index''), t)
      else
        let d = pt_files t ! nat (pt_list_index t);
            cb = min PASTE_BLOCK ((fd_size d - pt_offset t) mod 18446744073709551616)
        in (Inr (Some (FileContentsRequest (pt_list_index t) (pt_list_index t) 2 (position_low (nat (pt_offset t))) (position_high (nat (pt_offset t)))
              (wrap_i32 cb) False 0)), t\<lparr>pt_last_sent := now\<rparr>))"

text \<open>The request is sent, or its error ends the task.\<close>

definition ask :: "int \<Rightarrow> paste_task \<Rightarrow> fs \<Rightarrow> clipboard_file option \<times> paste_task \<times> fs" where
  "ask now t f =
     (case send_request now t of
        (Inr r, t) \<Rightarrow> (r, t, f)
      | (Inl e, t) \<Rightarrow> (None, on_error e t f))"

definition new_task :: "int \<Rightarrow> string \<Rightarrow> file_description list \<Rightarrow> paste_task" where
  "new_task now target files = \<lparr>pt_list_index = -1, pt_offset = 0, pt_total_size = sum_list (map fd_size files) mod 18446744073709551616,
     pt_current_size = 0, pt_last_sent = now, pt_dl_index = INVALID_FILE_INDEX, pt_dl_size = 0, pt_dl_path = [], pt_dl_current = 0,
     pt_handle = None, pt_error = None, pt_canceled = False, pt_target_dir = target, pt_files = files\<rparr>"

text \<open>The error of the first \<open>update_next\<close> is ignored.\<close>

definition start_task :: "int \<Rightarrow> string \<Rightarrow> file_description list \<Rightarrow> fs \<Rightarrow> clipboard_file option \<times> paste_task \<times> fs" where
  "start_task now target files f =
     (case update_next 0 (new_task now target files) f of
        (_, t, f) \<Rightarrow> if paste_finished t then (None, on_finished t f) else ask now t f)"

definition paste_start :: "int \<Rightarrow> string \<Rightarrow> file_description list \<Rightarrow> paste_task option \<Rightarrow> fs \<Rightarrow>
    clipboard_file option \<times> paste_task option \<times> fs" where
  "paste_start now target files old f =
     (case old of
        Some t \<Rightarrow> if \<not> paste_finished t then (None, Some t, f) else (case start_task now target files f of (r, t, f) \<Rightarrow> (r, Some t, f))
      | None \<Rightarrow> (case start_task now target files f of (r, t, f) \<Rightarrow> (r, Some t, f)))"

definition paste_cancel :: "paste_task \<Rightarrow> fs \<Rightarrow> paste_task \<times> fs" where
  "paste_cancel t f = on_cancelled (t\<lparr>pt_canceled := True\<rparr>) f"

text \<open>A block of a file: \<open>written\<close> says whether it can be written.\<close>

definition take_block :: "bool \<Rightarrow> bytes \<Rightarrow> paste_task \<Rightarrow> fs \<Rightarrow> cliprdr_error option \<times> paste_task \<times> fs" where
  "take_block written data t f =
     (case pt_handle t of
        None \<Rightarrow> (Some (FileError (pt_dl_path t)), t, f)
      | Some (i, pos) \<Rightarrow>
          if data \<noteq> [] \<and> \<not> written then (Some (FileError (pt_dl_path t)), t, f)
          else update_next (int (length data)) (t\<lparr>pt_handle := Some (i, pos + length data)\<rparr>) (write_at i pos data f))"

text \<open>The worker goes on after an answer: it asks for more, or ends the task.\<close>

definition worker_go :: "int \<Rightarrow> nat \<Rightarrow> paste_task \<Rightarrow> fs \<Rightarrow> clipboard_file option \<times> nat \<times> paste_task \<times> fs" where
  "worker_go now retry t f =
     (if \<not> paste_finished t then (case ask now t f of (r, t, f) \<Rightarrow> (r, retry, t, f)) else (None, 0, on_finished t f))"

text \<open>The worker: it takes an answer (connection, flags, stream, data), or finds that none came in time. It counts the
  failed answers of the tasks.\<close>

definition worker_answer :: "int \<Rightarrow> bool \<Rightarrow> int \<Rightarrow> int \<Rightarrow> int \<Rightarrow> bytes \<Rightarrow> nat \<Rightarrow> paste_task \<Rightarrow> fs \<Rightarrow>
    clipboard_file option \<times> nat \<times> paste_task \<times> fs" where
  "worker_answer now written conn_id flags stream data retry t f =
     (if paste_finished t \<or> stream \<noteq> pt_list_index t then (None, retry, t, f)
      else if flags \<noteq> 1 then
        worker_go now (retry + 1) (if retry + 1 > RECV_RETRY_TIMES then t\<lparr>pt_error := Some (InvalidRequest ''Failed to read file contents'')\<rparr> else t) f
      else if \<not> (0 \<le> stream \<and> stream < int (length (pt_files t))) then (None, retry, t, f)
      else if fd_conn_id (pt_files t ! nat stream) \<noteq> conn_id then (None, retry, t, f)
      else (case take_block written data t f of
              (Some e, t, f) \<Rightarrow> (case on_error e t f of (t, f) \<Rightarrow> worker_go now retry t f)
            | (None, t, f) \<Rightarrow> worker_go now retry t f))"

definition worker_timeout :: "int \<Rightarrow> nat \<Rightarrow> paste_task \<Rightarrow> fs \<Rightarrow> nat \<times> paste_task \<times> fs" where
  "worker_timeout now retry t f =
     (if \<not> paste_finished t \<and> now - pt_last_sent t > RECEIVE_WAIT_TIMEOUT
      then (0, on_finished (t\<lparr>pt_error := Some (InvalidRequest ''Failed to read file contents'')\<rparr>) f)
      else (retry, t, f))"

section \<open>Requests stay inside the files\<close>

definition sizes_ok :: "file_description list \<Rightarrow> bool" where
  "sizes_ok ds = list_all (\<lambda>d. 0 \<le> fd_size d \<and> fd_size d < 18446744073709551616) ds"

text \<open>The current file: it has bytes left, and an open handle is one of it.\<close>

definition file_ready :: "paste_task \<Rightarrow> bool" where
  "file_ready t \<longleftrightarrow> 0 \<le> pt_list_index t \<and> pt_list_index t < int (length (pt_files t)) \<and>
     (let d = pt_files t ! nat (pt_list_index t) in
      fd_kind d = ClipFile \<and> 0 \<le> pt_offset t \<and> pt_offset t < fd_size d \<and>
      (pt_handle t \<noteq> None \<longrightarrow> pt_dl_size t = fd_size d \<and> pt_dl_index t = pt_list_index t))"

definition paste_ok :: "paste_task \<Rightarrow> bool" where
  "paste_ok t \<longleftrightarrow> sizes_ok (pt_files t) \<and> (paste_finished t \<or> file_ready t)"

text \<open>What the loop over the files does not touch.\<close>

definition same_task :: "paste_task \<Rightarrow> paste_task \<Rightarrow> bool" where
  "same_task t t' \<longleftrightarrow> pt_files t' = pt_files t \<and> pt_total_size t' = pt_total_size t \<and> pt_current_size t' = pt_current_size t \<and>
     pt_canceled t' = pt_canceled t"

lemma same_task_refl [simp]: "same_task t t" by (simp add: same_task_def)

lemma same_task_trans: "same_task a b \<Longrightarrow> same_task b c \<Longrightarrow> same_task a c" by (simp add: same_task_def)

lemma open_new_writer_ready:
  assumes "open_new_writer d t f = (e, t', f')" "pt_handle t = None" "0 \<le> pt_list_index t" "pt_list_index t < int (length (pt_files t))"
    and "pt_files t ! nat (pt_list_index t) = d" "fd_kind d = ClipFile" "pt_offset t = 0" "0 < fd_size d"
  shows "same_task t t' \<and> file_ready t' \<and> pt_list_index t' = pt_list_index t \<and> pt_offset t' = 0"
  using assms by (auto simp: open_new_writer_def file_ready_def same_task_def Let_def split: option.splits if_splits prod.splits sum.splits)

lemma next_paste_ready:
  "\<lbrakk>next_paste i ds t f = (e, t', f'); 0 \<le> i; ds = drop (nat i) (pt_files t); pt_handle t = None; sizes_ok (pt_files t)\<rbrakk> \<Longrightarrow>
   same_task t t' \<and> ((e = None \<and> t' = t) \<or> (file_ready t' \<and> i \<le> pt_list_index t' \<and> pt_offset t' = 0 \<and>
     (\<forall>j. i \<le> j \<and> j < pt_list_index t' \<longrightarrow> fd_kind (pt_files t ! nat j) = ClipFile \<longrightarrow> fd_size (pt_files t ! nat j) = 0)))"
proof (induction i ds t f rule: next_paste.induct)
  case (2 i d ds t f)
  have "drop (nat i) (pt_files t) \<noteq> []" unfolding "2.prems"(3)[symmetric] by simp
  then have i: "nat i < length (pt_files t)" by simp
  have "d # ds = pt_files t ! nat i # drop (Suc (nat i)) (pt_files t)" by (rule trans[OF "2.prems"(3) Cons_nth_drop_Suc[OF i, symmetric]])
  moreover have "nat (i + 1) = Suc (nat i)" using "2.prems"(2) by simp
  ultimately have d: "pt_files t ! nat i = d" "drop (nat (i + 1)) (pt_files t) = ds" by simp_all
  have sz: "0 \<le> fd_size d" using "2.prems"(5) i d(1) by (auto simp: sizes_ok_def list_all_length)
  have later: ?case if ih: "same_task t t' \<and> ((e = None \<and> t' = t) \<or> (file_ready t' \<and> i + 1 \<le> pt_list_index t' \<and> pt_offset t' = 0 \<and>
      (\<forall>j. i + 1 \<le> j \<and> j < pt_list_index t' \<longrightarrow> fd_kind (pt_files t ! nat j) = ClipFile \<longrightarrow> fd_size (pt_files t ! nat j) = 0)))"
    and skipped: "fd_kind d = ClipFile \<longrightarrow> fd_size d = 0"
  proof -
    have "fd_size (pt_files t ! nat j) = 0" if "i \<le> j" "j < pt_list_index t'" "fd_kind (pt_files t ! nat j) = ClipFile"
      "\<forall>j. i + 1 \<le> j \<and> j < pt_list_index t' \<longrightarrow> fd_kind (pt_files t ! nat j) = ClipFile \<longrightarrow> fd_size (pt_files t ! nat j) = 0" for j
      using that skipped d(1) by (cases "j = i") auto
    then show ?thesis using ih by auto
  qed
  show ?case
  proof (cases "fd_kind d")
    case ClipFile
    show ?thesis
    proof (cases "fd_size d = 0")
      case True
      have "next_paste (i + 1) ds t (create_empty d (pt_target_dir t) f) = (e, t', f')" using "2.prems"(1) ClipFile True by simp
      from "2.IH"(1)[OF ClipFile True this _ d(2)[symmetric] "2.prems"(4,5)] show ?thesis using "2.prems"(2) True by (intro later) simp_all
    next
      case False
      let ?t = "t\<lparr>pt_list_index := i, pt_offset := 0\<rparr>"
      have "open_new_writer d ?t f = (e, t', f')" using "2.prems"(1) ClipFile False by simp
      then have "same_task ?t t' \<and> file_ready t' \<and> pt_list_index t' = pt_list_index ?t \<and> pt_offset t' = 0"
        using i d(1) sz False ClipFile "2.prems"(2,4) by (intro open_new_writer_ready[of d ?t f e t' f']) auto
      then show ?thesis by (simp add: same_task_def)
    qed
  next
    case ClipDirectory
    let ?p = "path_push False (pt_target_dir t) (fd_name d)"
    have "next_paste (i + 1) ds t (if path_exists f ?p then f else snd (make_dirs f ?p)) = (e, t', f')"
      using "2.prems"(1) ClipDirectory by (simp only: next_paste.simps clip_kind.case Let_def)
    from "2.IH"(2)[OF ClipDirectory refl this _ d(2)[symmetric] "2.prems"(4,5)] show ?thesis using "2.prems"(2) ClipDirectory by (intro later) simp_all
  qed
qed simp

lemma on_done_closes:
  assumes "on_done t f = (t', f')" "file_ready t"
  shows "same_task t t' \<and> pt_handle t' = None \<and> pt_list_index t' = pt_list_index t \<and> pt_error t' = pt_error t"
  using assms by (cases "pt_handle t")
    (auto simp: on_done_def file_ready_def same_task_def INVALID_FILE_INDEX_def Let_def split: if_splits option.splits prod.splits)

lemma close_idle_finished: "pt_handle t = None \<Longrightarrow> paste_finished (close_if_idle t)"
  by (simp add: close_if_idle_def paste_finished_def)

lemma close_if_idle_same [simp]: "same_task t (close_if_idle t)"
  by (simp add: close_if_idle_def same_task_def)

lemma close_if_idle_ready: "paste_ok t \<Longrightarrow> paste_ok (close_if_idle t)"
  by (auto simp: close_if_idle_def paste_ok_def paste_finished_def)

text \<open>Going on to the next file from a state without a handle.\<close>

lemma go_on_ok:
  assumes "next_paste i (drop (nat i) (pt_files t)) t f = (e, t', f')" "0 \<le> i" "pt_handle t = None" "sizes_ok (pt_files t)"
  shows "same_task t t' \<and> (case e of Some _ \<Rightarrow> paste_ok t' | None \<Rightarrow> paste_ok (close_if_idle t'))"
proof -
  have n: "same_task t t'" "(e = None \<and> t' = t) \<or> file_ready t'" using next_paste_ready[OF assms(1,2) refl assms(3,4)] by blast+
  then have "sizes_ok (pt_files t')" using assms(4) by (simp add: same_task_def)
  then show ?thesis using n assms(3) close_idle_finished[of t] close_if_idle_ready[of t']
    by (auto simp: paste_ok_def close_if_idle_def split: option.split)
qed

lemma update_next_ok:
  assumes u: "update_next sz t f = (e, t', f')" and t: "paste_ok t \<or> (pt_list_index t = -1 \<and> pt_handle t = None \<and> sizes_ok (pt_files t))" and sz: "0 \<le> sz"
  shows "paste_ok t' \<and> pt_files t' = pt_files t"
proof (cases "paste_finished t")
  case True
  then show ?thesis using u t by (auto simp: update_next_def paste_ok_def)
next
  case nf: False
  let ?t = "t\<lparr>pt_current_size := (pt_current_size t + sz) mod 18446744073709551616\<rparr>"
  have so: "sizes_ok (pt_files ?t)" using t by (auto simp: paste_ok_def)
  show ?thesis
  proof (cases "pt_list_index t = -1 \<or> (pt_offset t + sz) mod 18446744073709551616 \<ge> pt_dl_size t")
    case True
    obtain t1 f1 where d: "(if pt_list_index t = -1 then (?t, f) else on_done ?t f) = (t1, f1)" by fastforce
    have t1: "pt_handle t1 = None" "pt_list_index t1 = pt_list_index t" "pt_files t1 = pt_files t"
    proof -
      have "pt_handle t1 = None \<and> pt_list_index t1 = pt_list_index t \<and> pt_files t1 = pt_files t"
      proof (cases "pt_list_index t = -1")
        case True
        then show ?thesis using d t nf by (auto simp: paste_ok_def file_ready_def)
      next
        case False
        then have "file_ready ?t" using t nf by (auto simp: paste_ok_def file_ready_def Let_def)
        then show ?thesis using on_done_closes[of ?t f t1 f1] d False by (simp add: same_task_def)
      qed
      then show "pt_handle t1 = None" "pt_list_index t1 = pt_list_index t" "pt_files t1 = pt_files t" by simp_all
    qed
    obtain e2 t2 f2 where n: "next_paste (pt_list_index t1 + 1) (drop (nat (pt_list_index t1 + 1)) (pt_files t1)) t1 f1 = (e2, t2, f2)" by (cases rule: prod_cases3)
    have "0 \<le> pt_list_index t1 + 1" using t nf t1(2) by (auto simp: paste_ok_def file_ready_def)
    then have g: "same_task t1 t2" "case e2 of Some _ \<Rightarrow> paste_ok t2 | None \<Rightarrow> paste_ok (close_if_idle t2)"
      using go_on_ok[OF n _ t1(1)] so t1(3) by simp_all
    have "update_next sz t f = (case e2 of Some e \<Rightarrow> (Some e, t2, f2) | None \<Rightarrow> (None, close_if_idle t2, f2))"
      using nf True d n by (simp add: update_next_def Let_def split: option.split)
    then show ?thesis using u g t1(3) close_if_idle_same[of t2] by (auto simp: same_task_def split: option.splits)
  next
    case False
    let ?t' = "?t\<lparr>pt_offset := (pt_offset t + sz) mod 18446744073709551616, pt_dl_current := (pt_dl_current t + sz) mod 18446744073709551616\<rparr>"
    have e: "(e, t', f') = (None, close_if_idle ?t', f)" using u nf False by (simp add: update_next_def Let_def)
    have r: "file_ready t" using t nf False by (auto simp: paste_ok_def)
    have "paste_ok (close_if_idle ?t')"
    proof (cases "pt_handle t")
      case None
      then show ?thesis using so close_idle_finished[of ?t'] by (simp add: paste_ok_def close_if_idle_def)
    next
      case (Some h)
      then have "file_ready ?t'" using r False by (auto simp: file_ready_def Let_def)
      then show ?thesis using so by (intro close_if_idle_ready) (simp add: paste_ok_def)
    qed
    then show ?thesis using e by (simp add: close_if_idle_def)
  qed
qed

text \<open>A request inside a file of the list: at least one byte, at most a block, not past the end.\<close>

definition in_range :: "file_description list \<Rightarrow> clipboard_file \<Rightarrow> bool" where
  "in_range ds r \<longleftrightarrow> (\<exists>idx offset cb. r = FileContentsRequest (int idx) (int idx) 2 (position_low offset) (position_high offset) (int cb) False 0 \<and>
     idx < length ds \<and> fd_kind (ds ! idx) = ClipFile \<and> 1 \<le> cb \<and> int cb \<le> PASTE_BLOCK \<and> int offset + int cb \<le> fd_size (ds ! idx))"

lemma ask_ok:
  assumes "ask now t f = (r, t', f')" "paste_ok t"
  shows "paste_ok t' \<and> pt_files t' = pt_files t \<and> (case r of Some q \<Rightarrow> in_range (pt_files t) q | None \<Rightarrow> True)"
proof (cases "paste_finished t")
  case True
  then show ?thesis using assms by (auto simp: ask_def send_request_def)
next
  case False
  then have r: "file_ready t" using assms(2) by (simp add: paste_ok_def)
  let ?i = "nat (pt_list_index t)" let ?d = "pt_files t ! ?i"
  have i: "int ?i = pt_list_index t" "?i < length (pt_files t)" using r by (auto simp: file_ready_def)
  have d: "fd_kind ?d = ClipFile" "0 \<le> pt_offset t" "pt_offset t < fd_size ?d" using r by (simp_all add: file_ready_def Let_def)
  have s: "fd_size ?d < 18446744073709551616" using assms(2) i(2) by (auto simp: paste_ok_def sizes_ok_def list_all_length)
  have m: "(fd_size ?d - pt_offset t) mod 18446744073709551616 = fd_size ?d - pt_offset t" using d s by (intro mod_pos_pos_trivial) auto
  let ?cb = "min PASTE_BLOCK (fd_size ?d - pt_offset t)"
  have cb: "1 \<le> ?cb" "?cb \<le> PASTE_BLOCK" "wrap_i32 ?cb = ?cb" using d by (auto simp: PASTE_BLOCK_def i32_max_def intro!: wrap_i32_id)
  have eq: "r = Some (FileContentsRequest (int ?i) (int ?i) 2 (position_low (nat (pt_offset t))) (position_high (nat (pt_offset t))) (int (nat ?cb)) False 0)"
    "t' = t\<lparr>pt_last_sent := now\<rparr>"
    using assms(1) False i cb(1,3) m by (auto simp: ask_def send_request_def Let_def)
  have "in_range (pt_files t) (FileContentsRequest (int ?i) (int ?i) 2 (position_low (nat (pt_offset t))) (position_high (nat (pt_offset t))) (int (nat ?cb)) False 0)"
    unfolding in_range_def using i(2) d cb by (intro exI[of _ ?i] exI[of _ "nat (pt_offset t)"] exI[of _ "nat ?cb"]) auto
  moreover have "paste_ok t'" using assms(2) eq(2) by (simp add: paste_ok_def paste_finished_def file_ready_def)
  ultimately show ?thesis using eq by simp
qed

lemma on_cancelled_same: "on_cancelled t f = (t', f') \<Longrightarrow> same_task t t' \<and> pt_error t' = pt_error t \<and> pt_list_index t' = pt_list_index t"
  by (auto simp: on_cancelled_def same_task_def)

lemma on_done_same: "on_done t f = (t', f') \<Longrightarrow> same_task t t' \<and> pt_error t' = pt_error t \<and> pt_list_index t' = pt_list_index t"
  by (auto simp: on_done_def same_task_def Let_def split: if_splits option.splits prod.splits)

lemma finished_same: "\<lbrakk>same_task t t'; pt_error t' = pt_error t; pt_list_index t' = pt_list_index t\<rbrakk> \<Longrightarrow> paste_finished t' = paste_finished t"
  by (simp add: same_task_def paste_finished_def)

lemma on_finished_ok:
  assumes "on_finished t f = (t', f')" "paste_finished t"
  shows "same_task t t' \<and> paste_finished t' \<and> (pt_error t' = None \<longrightarrow> pt_error t = None \<and> pt_current_size t = pt_total_size t)"
proof -
  obtain t1 f1 where o: "(if pt_error t \<noteq> None then on_cancelled t f else on_done t f) = (t1, f1)" by fastforce
  then have s: "same_task t t1" "pt_error t1 = pt_error t" "pt_list_index t1 = pt_list_index t"
    using on_cancelled_same on_done_same by (metis (full_types))+
  have "t' = (if pt_current_size t1 \<noteq> pt_total_size t1 then t1\<lparr>pt_error := Some (InvalidRequest ''Failed to download all files'')\<rparr> else t1)"
    using assms(1) o by (simp add: on_finished_def)
  then show ?thesis using s finished_same[OF s] assms(2) by (auto simp: same_task_def paste_finished_def)
qed

lemma on_error_ok: "on_error e t f = (t', f') \<Longrightarrow> same_task t t' \<and> paste_finished t' \<and> pt_error t' = Some e"
  by (auto simp: on_error_def on_cancelled_def same_task_def paste_finished_def)

lemma finished_ok: "\<lbrakk>paste_finished t; same_task s t; sizes_ok (pt_files s)\<rbrakk> \<Longrightarrow> paste_ok t"
  by (simp add: paste_ok_def same_task_def)

text \<open>What happens to a task: answers, the passing of time, and that the user cancels it.\<close>

datatype paste_event = EvAnswer int bool int int int bytes | EvTimeout int | EvCancel

fun paste_step :: "paste_event \<Rightarrow> nat \<times> paste_task \<times> fs \<Rightarrow> clipboard_file option \<times> nat \<times> paste_task \<times> fs" where
  "paste_step (EvAnswer now written conn_id flags stream data) (retry, t, f) = worker_answer now written conn_id flags stream data retry t f"
| "paste_step (EvTimeout now) (retry, t, f) = (None, worker_timeout now retry t f)"
| "paste_step EvCancel (retry, t, f) = (None, retry, paste_cancel t f)"

fun paste_run :: "paste_event list \<Rightarrow> nat \<times> paste_task \<times> fs \<Rightarrow> clipboard_file list \<times> nat \<times> paste_task \<times> fs" where
  "paste_run [] s = ([], s)"
| "paste_run (e # es) s =
     (let (r, s) = paste_step e s; (rs, s) = paste_run es s in ((case r of Some q \<Rightarrow> [q] | None \<Rightarrow> []) @ rs, s))"

lemma worker_answer_cases:
  assumes "worker_answer now written conn_id flags stream data retry t f = (r, retry', t', f')"
  obtains (ignored) "r = None" "t' = t"
    | (failed) retry1 t1 f1 where "\<not> paste_finished t" "t1 = t \<or> (\<exists>e. t1 = t\<lparr>pt_error := Some e\<rparr>)" "worker_go now retry1 t1 f1 = (r, retry', t', f')"
    | (broken) e t1 f1 t2 f2 where "\<not> paste_finished t" "stream = pt_list_index t" "take_block written data t f = (Some e, t1, f1)" "on_error e t1 f1 = (t2, f2)"
        "worker_go now retry t2 f2 = (r, retry', t', f')"
    | (block) t1 f1 where "\<not> paste_finished t" "stream = pt_list_index t" "take_block written data t f = (None, t1, f1)" "worker_go now retry t1 f1 = (r, retry', t', f')"
proof -
  consider "paste_finished t \<or> stream \<noteq> pt_list_index t" | "\<not> paste_finished t" "stream = pt_list_index t" "flags \<noteq> 1"
    | "\<not> paste_finished t" "stream = pt_list_index t" "flags = 1" by blast
  then show ?thesis
  proof cases
    case 1
    then show ?thesis using assms ignored by (simp add: worker_answer_def)
  next
    case 2
    let ?t1 = "if retry + 1 > RECV_RETRY_TIMES then t\<lparr>pt_error := Some (InvalidRequest ''Failed to read file contents'')\<rparr> else t"
    have "worker_go now (retry + 1) ?t1 f = (r, retry', t', f')" using assms 2 by (simp add: worker_answer_def)
    moreover have "?t1 = t \<or> (\<exists>e. ?t1 = t\<lparr>pt_error := Some e\<rparr>)" by auto
    ultimately show ?thesis using failed[OF 2(1)] by blast
  next
    case 3
    then show ?thesis using assms ignored broken block
      by (cases "take_block written data t f") (auto simp: worker_answer_def split: if_splits option.splits prod.splits)
  qed
qed

lemma take_block_ok:
  assumes "take_block written data t f = (e, t', f')" "paste_ok t"
  shows "paste_ok t' \<and> pt_files t' = pt_files t"
proof (cases "pt_handle t")
  case None
  then show ?thesis using assms by (simp add: take_block_def)
next
  case (Some h)
  obtain i pos where h: "h = (i, pos)" by (cases h)
  let ?t = "t\<lparr>pt_handle := Some (i, pos + length data)\<rparr>"
  have "paste_ok ?t" using assms(2) Some by (auto simp: paste_ok_def paste_finished_def file_ready_def Let_def)
  then show ?thesis
    using assms update_next_ok[of "int (length data)" ?t "write_at i pos data f" e t' f'] by (auto simp: take_block_def Some h split: if_splits)
qed

lemma worker_go_ok:
  assumes "worker_go now retry t f = (r, retry', t', f')" "paste_ok t"
  shows "paste_ok t' \<and> pt_files t' = pt_files t \<and> (case r of Some q \<Rightarrow> in_range (pt_files t) q | None \<Rightarrow> True)"
proof (cases "paste_finished t")
  case True
  then have "r = None" "on_finished t f = (t', f')" using assms(1) by (simp_all add: worker_go_def)
  then show ?thesis using on_finished_ok[OF _ True, of f t' f'] finished_ok[of t' t] assms(2) by (auto simp: paste_ok_def same_task_def)
next
  case False
  then have "ask now t f = (r, t', f')" using assms(1) by (auto simp: worker_go_def split: prod.splits)
  then show ?thesis by (rule ask_ok[OF _ assms(2)])
qed

lemma paste_step_ok:
  assumes "paste_step ev (retry, t, f) = (r, retry', t', f')" "paste_ok t"
  shows "paste_ok t' \<and> pt_files t' = pt_files t \<and> (case r of Some q \<Rightarrow> in_range (pt_files t) q | None \<Rightarrow> True)"
proof (cases ev)
  case (EvAnswer now written conn_id flags stream data)
  then have "worker_answer now written conn_id flags stream data retry t f = (r, retry', t', f')" using assms(1) by simp
  then show ?thesis
  proof (cases rule: worker_answer_cases)
    case ignored
    then show ?thesis using assms(2) by simp
  next
    case (failed retry1 t1 f1)
    then have "paste_ok t1" "pt_files t1 = pt_files t" using assms(2) by (auto simp: paste_ok_def paste_finished_def)
    then show ?thesis using worker_go_ok[OF failed(3)] by (cases r) simp_all
  next
    case (broken e t1 f1 t2 f2)
    have "same_task t1 t2" "paste_finished t2" using on_error_ok[OF broken(4)] by simp_all
    moreover have "paste_ok t1" "pt_files t1 = pt_files t" using take_block_ok[OF broken(3) assms(2)] by simp_all
    ultimately have "paste_ok t2" "pt_files t2 = pt_files t" using finished_ok[of t2 t1] by (simp_all add: paste_ok_def same_task_def)
    then show ?thesis using worker_go_ok[OF broken(5)] by (cases r) simp_all
  next
    case (block t1 f1)
    then show ?thesis using take_block_ok[OF block(3) assms(2)] worker_go_ok[OF block(4)] by (cases r) simp_all
  qed
next
  case (EvTimeout now)
  show ?thesis
  proof (cases "\<not> paste_finished t \<and> now - pt_last_sent t > RECEIVE_WAIT_TIMEOUT")
    case True
    let ?t = "t\<lparr>pt_error := Some (InvalidRequest ''Failed to read file contents'')\<rparr>"
    have o: "on_finished ?t f = (t', f')" "r = None" using assms(1) EvTimeout True by (auto simp: worker_timeout_def)
    have "paste_finished ?t" by (simp add: paste_finished_def)
    from on_finished_ok[OF o(1) this] show ?thesis using finished_ok[of t' ?t] assms(2) o(2) by (auto simp: paste_ok_def same_task_def)
  next
    case False
    then show ?thesis using assms EvTimeout by (auto simp: worker_timeout_def)
  qed
next
  case EvCancel
  then show ?thesis using assms by (auto simp: paste_cancel_def on_cancelled_def paste_ok_def paste_finished_def)
qed

lemma paste_run_ok:
  "\<lbrakk>paste_run evs (retry, t, f) = (rs, retry', t', f'); paste_ok t\<rbrakk> \<Longrightarrow> paste_ok t' \<and> pt_files t' = pt_files t \<and> list_all (in_range (pt_files t)) rs"
proof (induction evs arbitrary: retry t f rs)
  case (Cons ev evs)
  obtain r retry1 t1 f1 where s: "paste_step ev (retry, t, f) = (r, retry1, t1, f1)" by (cases "paste_step ev (retry, t, f)")
  obtain rs1 where m: "paste_run evs (retry1, t1, f1) = (rs1, retry', t', f')" "rs = (case r of Some q \<Rightarrow> [q] | None \<Rightarrow> []) @ rs1"
    using Cons.prems(1) s by (auto split: prod.splits)
  show ?case using paste_step_ok[OF s Cons.prems(2)] Cons.IH[OF m(1)] m(2) by (auto split: option.splits)
qed simp

lemma start_task_ok:
  assumes "start_task now target ds f = (r, t, f')" "sizes_ok ds"
  shows "paste_ok t \<and> pt_files t = ds \<and> (case r of Some q \<Rightarrow> in_range ds q | None \<Rightarrow> True)"
proof -
  obtain e t1 f1 where u: "update_next 0 (new_task now target ds) f = (e, t1, f1)" by (cases rule: prod_cases3)
  then have t1: "paste_ok t1" "pt_files t1 = ds" using update_next_ok[OF u] assms(2) by (simp_all add: new_task_def)
  show ?thesis
  proof (cases "paste_finished t1")
    case True
    then have "r = None" "on_finished t1 f1 = (t, f')" using assms(1) u by (simp_all add: start_task_def)
    then show ?thesis using on_finished_ok[OF _ True, of f1 t f'] finished_ok[of t t1] t1 by (auto simp: paste_ok_def same_task_def)
  next
    case False
    then have "ask now t1 f1 = (r, t, f')" using assms(1) u by (simp add: start_task_def)
    from ask_ok[OF this t1(1)] show ?thesis using t1(2) by (cases r) simp_all
  qed
qed

text \<open>(C21) Whatever a peer answers, in whatever order, and whatever fails at the file system: every request of a paste is
  for at least one byte and at most a block of a file of the list, and ends inside that file; the difference of size and
  offset never goes below zero.\<close>

theorem paste_requests_in_range:
  assumes "sizes_ok ds" "start_task now target ds f = (r, t, f1)" "paste_run evs (0, t, f1) = (rs, retry, t', f2)"
  shows "list_all (in_range ds) ((case r of Some q \<Rightarrow> [q] | None \<Rightarrow> []) @ rs)"
  using start_task_ok[OF assms(2,1)] paste_run_ok[OF assms(3)] by (auto split: option.split)

section \<open>Folders\<close>

definition file_bytes :: "file_description list \<Rightarrow> int" where
  "file_bytes ds = sum_list (map (\<lambda>d. if fd_kind d = ClipFile then fd_size d else 0) ds)"

lemma file_bytes_Suc: "i < length ds \<Longrightarrow> file_bytes (take (Suc i) ds) = file_bytes (take i ds) + (if fd_kind (ds ! i) = ClipFile then fd_size (ds ! i) else 0)"
  by (simp add: file_bytes_def take_Suc_conv_app_nth)

lemma file_bytes_nonneg: "sizes_ok ds \<Longrightarrow> 0 \<le> file_bytes ds"
  by (auto simp: file_bytes_def sizes_ok_def list_all_iff intro!: sum_list_nonneg)

lemma file_bytes_take: "sizes_ok ds \<Longrightarrow> file_bytes (take i ds) \<le> file_bytes ds"
proof -
  assume s: "sizes_ok ds"
  have "file_bytes ds = file_bytes (take i ds) + file_bytes (drop i ds)"
    by (simp add: file_bytes_def flip: sum_list_append map_append)
  moreover have "sizes_ok (drop i ds)" using s by (auto simp: sizes_ok_def list_all_iff dest: in_set_dropD)
  ultimately show ?thesis using file_bytes_nonneg[of "drop i ds"] by simp
qed

lemma file_bytes_skip:
  "\<lbrakk>i \<le> j; j \<le> length ds; \<forall>k. i \<le> k \<and> k < j \<longrightarrow> fd_kind (ds ! k) = ClipFile \<longrightarrow> fd_size (ds ! k) = 0\<rbrakk> \<Longrightarrow>
   file_bytes (take j ds) = file_bytes (take i ds)"
proof (induction j)
  case (Suc j)
  show ?case
  proof (cases "i = Suc j")
    case False
    then have "file_bytes (take j ds) = file_bytes (take i ds)" using Suc by simp
    then show ?thesis using Suc.prems False by (simp add: file_bytes_Suc)
  qed simp
qed simp

text \<open>The bytes counted so far are those of the files before the current one and its offset.\<close>

definition counted :: "paste_task \<Rightarrow> bool" where
  "counted t \<longleftrightarrow> 0 \<le> pt_current_size t \<and> pt_current_size t \<le> file_bytes (pt_files t) \<and>
     (\<not> paste_finished t \<longrightarrow> pt_current_size t = file_bytes (take (nat (pt_list_index t)) (pt_files t)) + pt_offset t)"

lemma go_on_counted:
  assumes n: "next_paste i (drop (nat i) (pt_files t)) t f = (e, t', f')" and i: "0 \<le> i" and h: "pt_handle t = None" and s: "sizes_ok (pt_files t)"
    and c: "pt_current_size t = file_bytes (take (nat i) (pt_files t))"
  shows "counted (case e of Some _ \<Rightarrow> t' | None \<Rightarrow> close_if_idle t')"
proof -
  have b: "0 \<le> pt_current_size t" "pt_current_size t \<le> file_bytes (pt_files t)"
    using c file_bytes_take[OF s] file_bytes_nonneg[of "take (nat i) (pt_files t)"] s by (auto simp: sizes_ok_def list_all_iff dest: in_set_takeD)
  have m: "same_task t t'" "(e = None \<and> t' = t) \<or> (file_ready t' \<and> i \<le> pt_list_index t' \<and> pt_offset t' = 0 \<and>
     (\<forall>j. i \<le> j \<and> j < pt_list_index t' \<longrightarrow> fd_kind (pt_files t ! nat j) = ClipFile \<longrightarrow> fd_size (pt_files t ! nat j) = 0))"
    using next_paste_ready[OF n i refl h s] by blast+
  from m(2) show ?thesis
  proof
    assume "e = None \<and> t' = t"
    then show ?thesis using b close_idle_finished[OF h] close_if_idle_same[of t] by (simp add: counted_def same_task_def)
  next
    assume r: "file_ready t' \<and> i \<le> pt_list_index t' \<and> pt_offset t' = 0 \<and>
      (\<forall>j. i \<le> j \<and> j < pt_list_index t' \<longrightarrow> fd_kind (pt_files t ! nat j) = ClipFile \<longrightarrow> fd_size (pt_files t ! nat j) = 0)"
    have li: "pt_list_index t' < int (length (pt_files t))" using r m(1) by (simp add: file_ready_def same_task_def)
    have "file_bytes (take (nat (pt_list_index t')) (pt_files t)) = file_bytes (take (nat i) (pt_files t))"
    proof (rule file_bytes_skip)
      show "nat i \<le> nat (pt_list_index t')" using r by (blast intro: nat_mono)
      show "nat (pt_list_index t') \<le> length (pt_files t)" using li by linarith
      show "\<forall>k. nat i \<le> k \<and> k < nat (pt_list_index t') \<longrightarrow> fd_kind (pt_files t ! k) = ClipFile \<longrightarrow> fd_size (pt_files t ! k) = 0"
      proof (intro allI impI)
        fix k assume k: "nat i \<le> k \<and> k < nat (pt_list_index t')" "fd_kind (pt_files t ! k) = ClipFile"
        then have "i \<le> int k" "int k < pt_list_index t'" by auto
        then show "fd_size (pt_files t ! k) = 0" using r k(2) by (metis nat_int)
      qed
    qed
    then have t': "counted t'" using r b c m(1) by (simp add: counted_def same_task_def)
    have "counted (close_if_idle t')"
    proof (cases "pt_handle t' = None")
      case True
      then show ?thesis using t' close_idle_finished[OF True] close_if_idle_same[of t'] by (simp add: counted_def same_task_def)
    next
      case False
      then show ?thesis using t' by (auto simp: close_if_idle_def)
    qed
    then show ?thesis using t' by (simp split: option.split)
  qed
qed

lemma small_mod: "\<lbrakk>0 \<le> x; x < 18446744073709551616\<rbrakk> \<Longrightarrow> x mod 18446744073709551616 = (x :: int)"
  by (rule mod_pos_pos_trivial)

lemma update_next_counted:
  assumes u: "update_next sz t f = (e, t', f')" and nf: "\<not> paste_finished t" and sz: "0 \<le> sz"
    and t: "pt_list_index t = -1 \<and> pt_handle t = None \<and> sz = 0 \<and> pt_current_size t = 0 \<or>
      paste_ok t \<and> counted t \<and> pt_handle t \<noteq> None \<and> pt_offset t + sz \<le> fd_size (pt_files t ! nat (pt_list_index t))"
    and s: "sizes_ok (pt_files t)" "file_bytes (pt_files t) < 18446744073709551616"
  shows "counted t' \<and> pt_total_size t' = pt_total_size t \<and> pt_canceled t' = pt_canceled t"
proof (cases "pt_list_index t = -1")
  case True
  then have i: "pt_handle t = None" "sz = 0" "pt_current_size t = 0" using t nf by (auto simp: paste_ok_def file_ready_def)
  obtain e2 t2 f2 where n: "next_paste 0 (drop (nat 0) (pt_files t)) (t\<lparr>pt_current_size := 0\<rparr>) f = (e2, t2, f2)" by (cases rule: prod_cases3)
  have "counted (case e2 of Some _ \<Rightarrow> t2 | None \<Rightarrow> close_if_idle t2)"
    using go_on_counted[of 0 "t\<lparr>pt_current_size := 0\<rparr>" f e2 t2 f2] n i s(1) by (simp add: file_bytes_def)
  moreover have "same_task (t\<lparr>pt_current_size := 0\<rparr>) t2"
    using next_paste_ready[of 0 _ "t\<lparr>pt_current_size := 0\<rparr>" f e2 t2 f2] n i s(1) by simp
  moreover have "update_next sz t f = (case e2 of Some e \<Rightarrow> (Some e, t2, f2) | None \<Rightarrow> (None, close_if_idle t2, f2))"
    using nf True n i by (simp add: update_next_def Let_def split: option.split)
  ultimately show ?thesis using u close_if_idle_same[of t2] by (auto simp: same_task_def split: option.splits)
next
  case False
  let ?i = "nat (pt_list_index t)" let ?d = "pt_files t ! ?i"
  have p: "paste_ok t" "counted t" "pt_handle t \<noteq> None" "pt_offset t + sz \<le> fd_size ?d" using t False by auto
  have r: "file_ready t" using p(1) nf by (simp add: paste_ok_def)
  have d: "fd_kind ?d = ClipFile" "0 \<le> pt_offset t" "pt_offset t < fd_size ?d" "pt_dl_size t = fd_size ?d" "?i < length (pt_files t)" "0 \<le> pt_list_index t"
    using r p(3) by (auto simp: file_ready_def Let_def)
  have size: "fd_size ?d < 18446744073709551616" using s(1) d(5) by (simp add: sizes_ok_def list_all_length)
  have cur: "pt_current_size t = file_bytes (take ?i (pt_files t)) + pt_offset t" "0 \<le> pt_current_size t" using p(2) nf by (simp_all add: counted_def)
  have le: "file_bytes (take (Suc ?i) (pt_files t)) \<le> file_bytes (pt_files t)" using file_bytes_take[OF s(1)] .
  have Suc: "file_bytes (take (Suc ?i) (pt_files t)) = file_bytes (take ?i (pt_files t)) + fd_size ?d" using file_bytes_Suc[OF d(5)] d(1) by simp
  have m: "(pt_current_size t + sz) mod 18446744073709551616 = pt_current_size t + sz" "(pt_offset t + sz) mod 18446744073709551616 = pt_offset t + sz"
    using cur le Suc p(4) sz s(2) size d(2) by (auto intro!: small_mod)
  let ?t = "t\<lparr>pt_current_size := pt_current_size t + sz\<rparr>"
  show ?thesis
  proof (cases "pt_offset t + sz \<ge> pt_dl_size t")
    case True
    obtain t1 f1 where o: "on_done ?t f = (t1, f1)" by fastforce
    have "file_ready ?t" using r by (simp add: file_ready_def Let_def)
    then have t1: "same_task ?t t1" "pt_handle t1 = None" "pt_list_index t1 = pt_list_index t" using on_done_closes[OF o] by simp_all
    obtain e2 t2 f2 where n: "next_paste (pt_list_index t1 + 1) (drop (nat (pt_list_index t1 + 1)) (pt_files t1)) t1 f1 = (e2, t2, f2)" by (cases rule: prod_cases3)
    have i: "0 \<le> pt_list_index t1 + 1" "nat (pt_list_index t1 + 1) = Suc ?i" using d(6) t1(3) by simp_all
    have "pt_current_size t1 = file_bytes (take (nat (pt_list_index t1 + 1)) (pt_files t1))"
      using t1(1) cur(1) Suc True d(4) p(4) unfolding i(2) by (simp add: same_task_def)
    then have "counted (case e2 of Some _ \<Rightarrow> t2 | None \<Rightarrow> close_if_idle t2)" "same_task t1 t2"
      using go_on_counted[OF n i(1) t1(2)] next_paste_ready[OF n i(1) refl t1(2)] s(1) t1(1) by (simp_all add: same_task_def)
    moreover have "update_next sz t f = (case e2 of Some e \<Rightarrow> (Some e, t2, f2) | None \<Rightarrow> (None, close_if_idle t2, f2))"
      using nf True False o n m by (simp add: update_next_def Let_def split: option.split)
    ultimately show ?thesis using u t1(1) close_if_idle_same[of t2] by (auto simp: same_task_def split: option.splits)
  next
    case lt: False
    have "t' = t\<lparr>pt_current_size := pt_current_size t + sz, pt_offset := pt_offset t + sz, pt_dl_current := (pt_dl_current t + sz) mod 18446744073709551616\<rparr>"
      using u nf lt False m p(3) by (auto simp: update_next_def Let_def close_if_idle_def)
    then show ?thesis using cur le Suc sz p(4) nf by (simp add: counted_def paste_finished_def)
  qed
qed

text \<open>A peer that sends no more than it was asked for.\<close>

fun honest :: "paste_event list \<Rightarrow> nat \<times> paste_task \<times> fs \<Rightarrow> bool" where
  "honest [] s \<longleftrightarrow> True"
| "honest (ev # evs) (retry, t, f) \<longleftrightarrow>
     (case ev of
        EvAnswer _ _ _ flags stream data \<Rightarrow>
          \<not> paste_finished t \<and> stream = pt_list_index t \<longrightarrow> pt_offset t + int (length data) \<le> fd_size (pt_files t ! nat (pt_list_index t))
      | _ \<Rightarrow> True) \<and>
     honest evs (snd (paste_step ev (retry, t, f)))"

text \<open>The task of a list with a folder that has a size: it counts right, is not cancelled, and has failed when it is over.\<close>

definition doomed :: "file_description list \<Rightarrow> paste_task \<Rightarrow> bool" where
  "doomed ds t \<longleftrightarrow> pt_files t = ds \<and> paste_ok t \<and> counted t \<and> pt_total_size t = sum_list (map fd_size ds) \<and> \<not> pt_canceled t \<and>
     (paste_finished t \<longrightarrow> pt_error t \<noteq> None)"

definition sized_folder :: "file_description list \<Rightarrow> bool" where
  "sized_folder ds \<longleftrightarrow> sizes_ok ds \<and> sum_list (map fd_size ds) < 18446744073709551616 \<and> list_ex (\<lambda>d. fd_kind d = ClipDirectory \<and> fd_size d \<noteq> 0) ds"

lemma sized_folder_sum:
  assumes "sized_folder ds"
  shows "file_bytes ds < sum_list (map fd_size ds)" "file_bytes ds < 18446744073709551616" "sizes_ok ds"
proof -
  have "file_bytes ds < sum_list (map fd_size ds)"
    if "sizes_ok ds" "list_ex (\<lambda>d. fd_kind d = ClipDirectory \<and> fd_size d \<noteq> 0) ds" for ds
    using that
  proof (induction ds)
    case (Cons d ds)
    have le: "file_bytes es \<le> sum_list (map fd_size es)" if "sizes_ok es" for es
      using that by (induction es) (auto simp: file_bytes_def sizes_ok_def)
    have "sizes_ok ds" "0 \<le> fd_size d" using Cons.prems(1) by (simp_all add: sizes_ok_def)
    then show ?case using Cons le[of ds] by (cases "fd_kind d = ClipDirectory \<and> fd_size d \<noteq> 0") (auto simp: file_bytes_def)
  qed simp
  then show "file_bytes ds < sum_list (map fd_size ds)" using assms by (simp add: sized_folder_def)
  then show "file_bytes ds < 18446744073709551616" "sizes_ok ds" using assms by (simp_all add: sized_folder_def)
qed

text \<open>A task that counts right and is ended or goes on.\<close>

lemma ended_doomed:
  assumes "sized_folder ds" "on_finished t f = (t', f')" "paste_finished t" "pt_files t = ds" "pt_total_size t = sum_list (map fd_size ds)"
    and "\<not> pt_canceled t" "0 \<le> pt_current_size t" "pt_current_size t \<le> file_bytes ds"
  shows "doomed ds t'"
proof -
  have "same_task t t'" "paste_finished t'" "pt_error t' = None \<longrightarrow> pt_current_size t = pt_total_size t" using on_finished_ok[OF assms(2,3)] by simp_all
  then show ?thesis using assms sized_folder_sum[OF assms(1)] by (auto simp: doomed_def same_task_def paste_ok_def counted_def)
qed

lemma ask_doomed: "\<lbrakk>ask now t f = (r, t', f'); \<not> paste_finished t; doomed ds t\<rbrakk> \<Longrightarrow> doomed ds t'"
proof -
  assume a: "ask now t f = (r, t', f')" "\<not> paste_finished t" "doomed ds t"
  then have "file_ready t" by (simp add: doomed_def paste_ok_def)
  then have "t' = t\<lparr>pt_last_sent := now\<rparr>" using a(1,2) by (auto simp: ask_def send_request_def file_ready_def Let_def)
  then show ?thesis using a(3) by (auto simp: doomed_def paste_ok_def counted_def paste_finished_def file_ready_def)
qed

lemma worker_go_doomed:
  assumes "sized_folder ds" "worker_go now retry t f = (r, retry', t', f')"
    and "pt_files t = ds" "pt_total_size t = sum_list (map fd_size ds)" "\<not> pt_canceled t" "counted t" "paste_ok t"
  shows "doomed ds t'"
proof (cases "paste_finished t")
  case True
  then have "on_finished t f = (t', f')" using assms(2) by (simp add: worker_go_def)
  then show ?thesis using ended_doomed[OF assms(1) _ True assms(3-5)] assms(3,6) by (simp add: counted_def)
next
  case False
  then have "ask now t f = (r, t', f')" using assms(2) by (auto simp: worker_go_def split: prod.splits)
  moreover have "doomed ds t" using assms(3-7) False by (simp add: doomed_def)
  ultimately show ?thesis using ask_doomed False by blast
qed

lemma take_block_counted:
  assumes "sized_folder ds" "take_block written data t f = (e, t', f')" "\<not> paste_finished t" "doomed ds t"
    and "pt_offset t + int (length data) \<le> fd_size (pt_files t ! nat (pt_list_index t))"
  shows "counted t' \<and> pt_total_size t' = pt_total_size t \<and> pt_canceled t' = pt_canceled t \<and> pt_files t' = ds"
proof (cases "pt_handle t")
  case None
  then show ?thesis using assms by (auto simp: take_block_def doomed_def)
next
  case (Some h)
  obtain i pos where h: "h = (i, pos)" by (cases h)
  let ?t = "t\<lparr>pt_handle := Some (i, pos + length data)\<rparr>"
  have t: "\<not> paste_finished ?t" "paste_ok ?t" "counted ?t" "pt_files ?t = ds"
    using assms(3,4) Some by (auto simp: doomed_def paste_ok_def counted_def paste_finished_def file_ready_def Let_def)
  show ?thesis
  proof (cases "data \<noteq> [] \<and> \<not> written")
    case True
    then show ?thesis using assms(2,4) Some h by (auto simp: take_block_def doomed_def)
  next
    case False
    then have u: "update_next (int (length data)) ?t (write_at i pos data f) = (e, t', f')" using assms(2) Some h by (auto simp: take_block_def)
    have "counted t' \<and> pt_total_size t' = pt_total_size ?t \<and> pt_canceled t' = pt_canceled ?t"
      using update_next_counted[OF u t(1)] t assms(5) sized_folder_sum[OF assms(1)] by simp
    moreover have "pt_files t' = ds" using update_next_ok[OF u] t by simp
    ultimately show ?thesis by simp
  qed
qed

lemma paste_step_doomed:
  assumes F: "sized_folder ds" and s: "paste_step ev (retry, t, f) = (r, retry', t', f')" and d: "doomed ds t" and e: "ev \<noteq> EvCancel"
    and h: "honest (ev # evs) (retry, t, f)"
  shows "doomed ds t'"
proof (cases ev)
  case (EvAnswer now written conn_id flags stream data)
  have w: "worker_answer now written conn_id flags stream data retry t f = (r, retry', t', f')" using s EvAnswer by simp
  have fits: "pt_offset t + int (length data) \<le> fd_size (pt_files t ! nat (pt_list_index t))" if "\<not> paste_finished t" "stream = pt_list_index t"
    using h EvAnswer that by simp
  from w show ?thesis
  proof (cases rule: worker_answer_cases)
    case ignored
    then show ?thesis using d by simp
  next
    case (failed retry1 t1 f1)
    then have "pt_files t1 = ds" "pt_total_size t1 = sum_list (map fd_size ds)" "\<not> pt_canceled t1" "counted t1" "paste_ok t1"
      using d by (auto simp: doomed_def counted_def paste_ok_def paste_finished_def)
    then show ?thesis by (rule worker_go_doomed[OF F failed(3)])
  next
    case (broken e t1 f1 t2 f2)
    have c: "counted t1 \<and> pt_total_size t1 = pt_total_size t \<and> pt_canceled t1 = pt_canceled t \<and> pt_files t1 = ds"
      by (rule take_block_counted[OF F broken(3,1) d fits[OF broken(1,2)]])
    have o: "same_task t1 t2" "paste_finished t2" using on_error_ok[OF broken(4)] by simp_all
    then have "pt_files t2 = ds" "pt_total_size t2 = sum_list (map fd_size ds)" "\<not> pt_canceled t2" "counted t2" "paste_ok t2"
      using c d by (auto simp: doomed_def counted_def paste_ok_def same_task_def)
    then show ?thesis by (rule worker_go_doomed[OF F broken(5)])
  next
    case (block t1 f1)
    have c: "counted t1 \<and> pt_total_size t1 = pt_total_size t \<and> pt_canceled t1 = pt_canceled t \<and> pt_files t1 = ds"
      by (rule take_block_counted[OF F block(3,1) d fits[OF block(1,2)]])
    moreover have "paste_ok t1" using take_block_ok[OF block(3)] d by (simp add: doomed_def)
    ultimately have "pt_files t1 = ds" "pt_total_size t1 = sum_list (map fd_size ds)" "\<not> pt_canceled t1" "counted t1" "paste_ok t1"
      using d by (simp_all add: doomed_def)
    then show ?thesis by (rule worker_go_doomed[OF F block(4)])
  qed
next
  case (EvTimeout now)
  show ?thesis
  proof (cases "\<not> paste_finished t \<and> now - pt_last_sent t > RECEIVE_WAIT_TIMEOUT")
    case True
    let ?t = "t\<lparr>pt_error := Some (InvalidRequest ''Failed to read file contents'')\<rparr>"
    have o: "on_finished ?t f = (t', f')" using s EvTimeout True by (simp add: worker_timeout_def)
    show ?thesis using d by (intro ended_doomed[OF F o]) (auto simp: doomed_def paste_finished_def counted_def)
  next
    case False
    then show ?thesis using s EvTimeout d by (auto simp: worker_timeout_def)
  qed
qed (use e in simp)

lemma paste_run_doomed:
  "\<lbrakk>sized_folder ds; paste_run evs (retry, t, f) = (rs, retry', t', f'); doomed ds t; EvCancel \<notin> set evs; honest evs (retry, t, f)\<rbrakk> \<Longrightarrow> doomed ds t'"
proof (induction evs arbitrary: retry t f rs)
  case (Cons ev evs)
  obtain r retry1 t1 f1 where s: "paste_step ev (retry, t, f) = (r, retry1, t1, f1)" by (cases "paste_step ev (retry, t, f)")
  obtain rs1 where m: "paste_run evs (retry1, t1, f1) = (rs1, retry', t', f')" using Cons.prems(2) s by (auto split: prod.splits)
  have "doomed ds t1" using paste_step_doomed[OF Cons.prems(1) s Cons.prems(3) _ Cons.prems(5)] Cons.prems(4) by auto
  then show ?case using Cons.IH[OF Cons.prems(1) m] Cons.prems(4,5) s by simp
qed simp

lemma start_task_doomed:
  assumes F: "sized_folder ds" and s: "start_task now target ds f = (r, t, f')"
  shows "doomed ds t"
proof -
  note F' = sized_folder_sum[OF F]
  let ?n = "new_task now target ds"
  have total: "pt_total_size ?n = sum_list (map fd_size ds)"
    using F file_bytes_nonneg[OF F'(3)] F'(1) by (simp add: new_task_def sized_folder_def small_mod)
  have nf: "\<not> paste_finished ?n" using F by (auto simp: paste_finished_def new_task_def sized_folder_def)
  obtain e t1 f1 where u: "update_next 0 ?n f = (e, t1, f1)" by (cases rule: prod_cases3)
  have t1: "paste_ok t1" "pt_files t1 = ds" using update_next_ok[OF u] F'(3) by (simp_all add: new_task_def)
  have c: "counted t1" "pt_total_size t1 = sum_list (map fd_size ds)" "\<not> pt_canceled t1"
    using update_next_counted[OF u nf] F' total by (simp_all add: new_task_def)
  show ?thesis
  proof (cases "paste_finished t1")
    case True
    then have "on_finished t1 f1 = (t, f')" using s u by (simp add: start_task_def)
    then show ?thesis using ended_doomed[OF F _ True t1(2) c(2,3)] c(1) t1(2) by (simp add: counted_def)
  next
    case False
    then have "ask now t1 f1 = (r, t, f')" using s u by (simp add: start_task_def)
    then show ?thesis using ask_doomed False t1 c by (auto simp: doomed_def)
  qed
qed

text \<open>Pasting a folder always ends in an error: the size of a folder, which Linux and macOS report as that of its
  entry, is part of the total, but only the bytes of files are counted as received. So a paste of any list with such a
  folder is reported as failed when it is over, though every file was written.\<close>

theorem folder_paste_reports_failure:
  assumes "sized_folder ds" "start_task now target ds f = (r, t, f1)" "paste_run evs (0, t, f1) = (rs, retry, t', f2)"
    and "EvCancel \<notin> set evs" "honest evs (0, t, f1)" "paste_finished t'"
  shows "pt_error t' \<noteq> None"
  using paste_run_doomed[OF assms(1,3) start_task_doomed[OF assms(1,2)] assms(4,5)] assms(6) by (simp add: doomed_def)

definition paste_fs :: fs where
  "paste_fs = \<lparr>fs_windows = False, fs_names = [[''t''] \<mapsto> Dir], fs_data = Map.empty, fs_next = 0, fs_cwd = [], fs_now = 9, fs_denied = (\<lambda>_. False)\<rparr>"

definition folder_list :: "file_description list" where
  "folder_list = [
     \<lparr>fd_conn_id = 1, fd_name = ''d'', fd_kind = ClipDirectory, fd_last_modified = 0, fd_size = 4096, fd_perm = 493\<rparr>,
     \<lparr>fd_conn_id = 1, fd_name = ''d/a'', fd_kind = ClipFile, fd_last_modified = 5, fd_size = 3, fd_perm = 420\<rparr>]"

definition folder_run :: "clipboard_file list \<times> nat \<times> paste_task \<times> fs" where
  "folder_run = (case start_task 0 ''/t'' folder_list paste_fs of (r, t, f) \<Rightarrow> paste_run [EvAnswer 0 True 1 1 1 [7, 8, 9]] (0, t, f))"

lemma folder_run_result:
  "(case folder_run of (rs, retry, t, f) \<Rightarrow> paste_finished t \<and> file_content f ''/t/d/a'' = Some [7, 8, 9])"
  by code_simp

lemma folder_honest:
  "(case start_task 0 ''/t'' folder_list paste_fs of (r, t, f) \<Rightarrow> honest [EvAnswer 0 True 1 1 1 [7, 8, 9]] (0, t, f))"
  by code_simp

theorem folder_paste_reports_failure_witness:
  "(case folder_run of (rs, retry, t, f) \<Rightarrow> pt_error t \<noteq> None \<and> file_content f ''/t/d/a'' = Some [7, 8, 9])"
proof -
  obtain r t f where s: "start_task 0 ''/t'' folder_list paste_fs = (r, t, f)" by (cases rule: prod_cases3)
  obtain rs retry t' f2 where p: "paste_run [EvAnswer 0 True 1 1 1 [7, 8, 9]] (0, t, f) = (rs, retry, t', f2)" by (cases rule: prod_cases4)
  have F: "sized_folder folder_list" by (simp add: sized_folder_def sizes_ok_def folder_list_def)
  have "paste_finished t'" "file_content f2 ''/t/d/a'' = Some [7, 8, 9]"
    using folder_run_result s p unfolding folder_run_def by (simp_all del: paste_run.simps)
  then show ?thesis
    using folder_paste_reports_failure[OF F s p] folder_honest s p unfolding folder_run_def by (simp del: paste_run.simps honest.simps)
qed

theorem paste_requests_in_range_witness:
  "\<exists>r t f rs retry t' f'. start_task 0 ''/t'' folder_list paste_fs = (r, t, f) \<and>
    paste_run [EvAnswer 0 True 1 2 1 [], EvAnswer 0 True 1 1 1 [7]] (0, t, f) = (rs, retry, t', f') \<and>
    list_all (in_range folder_list) ((case r of Some q \<Rightarrow> [q] | None \<Rightarrow> []) @ rs)"
proof -
  obtain r t f where s: "start_task 0 ''/t'' folder_list paste_fs = (r, t, f)" by (cases rule: prod_cases3)
  obtain rs retry t' f2 where p: "paste_run [EvAnswer 0 True 1 2 1 [], EvAnswer 0 True 1 1 1 [7]] (0, t, f) = (rs, retry, t', f2)" by (cases rule: prod_cases4)
  have "sizes_ok folder_list" by (simp add: sizes_ok_def folder_list_def)
  then show ?thesis using paste_requests_in_range[OF _ s p] s p by blast
qed

section \<open>Names that leave the folder\<close>

text \<open>The file that is pasted into a folder is the peer's choice: an absolute name is taken as it is.\<close>

lemma push_absolute: "rooted False name \<Longrightarrow> path_push False target name = name"
  by (simp add: path_push_def)

text \<open>(C39) The name of a pasted file is not checked: a peer that sends an absolute name has its bytes written at that place,
  whatever folder the user pastes into. The file is first made beside its place and then renamed to it.\<close>

theorem pasted_name_escapes:
  assumes "rooted False (fd_name d)" "fd_kind d = ClipFile" "0 < fd_size d" "fd_size d < 18446744073709551616" "int (length data) = fd_size d"
    and "\<not> path_exists f (fd_name d @ ''.rddownload'')" "segments False (fd_name d @ ''.rddownload'') \<noteq> []"
    and "path_exists f (rebuilt (fd_name d @ ''.rddownload'') (butlast (segments False (fd_name d @ ''.rddownload''))))"
    and "file_create f (fd_name d @ ''.rddownload'') = Inr (i, f1)" "\<not> path_exists (write_at i 0 data f1) (fd_name d)"
    and "fs_rename (write_at i 0 data f1) (fd_name d @ ''.rddownload'') (fd_name d) = (None, f2)"
  shows "\<exists>q t retry t'. start_task now target [d] f = (Some q, t, f1) \<and>
    worker_answer now True (fd_conn_id d) 1 0 data 0 t f1 = (None, retry, t', set_file_mtime f2 (fd_name d) (fd_last_modified d)) \<and>
    paste_finished t' \<and> pt_error t' = None"
proof -
  have o: "open_new_writer d (new_task now target [d]\<lparr>pt_list_index := 0, pt_offset := 0\<rparr>) f =
      (None, new_task now target [d]\<lparr>pt_list_index := 0, pt_offset := 0\<rparr>\<lparr>pt_dl_index := 0, pt_dl_size := fd_size d,
         pt_dl_path := fd_name d @ ''.rddownload'', pt_dl_current := 0, pt_handle := Some (i, 0)\<rparr>, f1)"
    using assms by (simp add: open_new_writer_def new_task_def push_absolute get_first_filename_def DOWNLOAD_EXTENSION_def)
  let ?t = "new_task now target [d]\<lparr>pt_list_index := 0, pt_offset := 0\<rparr>\<lparr>pt_dl_index := 0, pt_dl_size := fd_size d,
         pt_dl_path := fd_name d @ ''.rddownload'', pt_dl_current := 0, pt_handle := Some (i, 0)\<rparr>"
  have u: "update_next 0 (new_task now target [d]) f = (None, ?t, f1)"
    using o assms(2-4) by (simp add: update_next_def paste_finished_def new_task_def close_if_idle_def Let_def)
  have s: "\<exists>q. start_task now target [d] f = (Some q, ?t, f1)"
    using u by (auto simp: start_task_def ask_def send_request_def paste_finished_def new_task_def Let_def)
  have nm: "get_new_filename (write_at i 0 data f1) target d = Some (fd_name d)" using assms(1,10) by (simp add: get_new_filename_def push_absolute)
  have "\<exists>retry t'. worker_answer now True (fd_conn_id d) 1 0 data 0 ?t f1 = (None, retry, t', set_file_mtime f2 (fd_name d) (fd_last_modified d)) \<and>
      paste_finished t' \<and> pt_error t' = None"
    using assms(2-5,11) nm
    by (simp add: worker_answer_def take_block_def update_next_def paste_finished_def new_task_def on_done_def INVALID_FILE_INDEX_def
        close_if_idle_def worker_go_def on_finished_def Let_def)
  then show ?thesis using s by blast
qed

definition escaping_file :: file_description where
  "escaping_file = \<lparr>fd_conn_id = 1, fd_name = ''/e/x'', fd_kind = ClipFile, fd_last_modified = 5, fd_size = 2, fd_perm = 420\<rparr>"

definition escape_fs :: fs where
  "escape_fs = paste_fs\<lparr>fs_names := [[''t''] \<mapsto> Dir, [''e''] \<mapsto> Dir]\<rparr>"

lemma escape_ready:
  "(case file_create escape_fs ''/e/x.rddownload'' of
      Inl _ \<Rightarrow> False
    | Inr (i, f1) \<Rightarrow>
        let f = write_at i 0 [7, 8] f1; (e, f2) = fs_rename f ''/e/x.rddownload'' ''/e/x''
        in \<not> path_exists f ''/e/x'' \<and> e = None \<and> file_content (set_file_mtime f2 ''/e/x'' 5) ''/e/x'' = Some [7, 8])"
  "\<not> path_exists escape_fs ''/e/x.rddownload''" "segments False ''/e/x.rddownload'' \<noteq> []"
  "path_exists escape_fs (rebuilt ''/e/x.rddownload'' (butlast (segments False ''/e/x.rddownload'')))"
  by (code_simp)+

theorem pasted_name_escapes_witness:
  "\<exists>q t f1 retry t' f'. start_task 0 ''/t'' [escaping_file] escape_fs = (Some q, t, f1) \<and>
    worker_answer 0 True 1 1 0 [7, 8] 0 t f1 = (None, retry, t', f') \<and> pt_target_dir t = ''/t'' \<and> file_content f' ''/e/x'' = Some [7, 8]"
proof -
  obtain i f1 f2 where f: "file_create escape_fs ''/e/x.rddownload'' = Inr (i, f1)" "\<not> path_exists (write_at i 0 [7, 8] f1) ''/e/x''"
    "fs_rename (write_at i 0 [7, 8] f1) ''/e/x.rddownload'' ''/e/x'' = (None, f2)" "file_content (set_file_mtime f2 ''/e/x'' 5) ''/e/x'' = Some [7, 8]"
    using escape_ready(1) by (auto simp: Let_def split: sum.splits prod.splits)
  have d: "rooted False ''/e/x''" by (simp add: rooted_def is_sep_def)
  obtain q t retry t' where r: "start_task 0 ''/t'' [escaping_file] escape_fs = (Some q, t, f1)"
    "worker_answer 0 True 1 1 0 [7, 8] 0 t f1 = (None, retry, t', set_file_mtime f2 ''/e/x'' 5)"
    using pasted_name_escapes[of escaping_file "[7, 8]" escape_fs i f1 f2 0 "''/t''"] f escape_ready(2-4) d by (auto simp: escaping_file_def)
  moreover have "pt_target_dir (fst (snd (start_task 0 ''/t'' [escaping_file] escape_fs))) = ''/t''" by code_simp
  ultimately show ?thesis using f(4) by auto
qed

end
