(* ===== verification/InputService.thy ===== *)
theory InputService
  imports SessionDispatch
begin

text \<open>
  The simulation of a peer's keyboard and mouse at the host, \<^verbatim>\<open>src/server/input_service.rs\<close>, with the input thread of a
  connection (\<open>handle_input\<close> of \<^verbatim>\<open>src/server/connection.rs\<close>): on X11, on Wayland through the RemoteDesktop portal or
  through uinput, and on macOS. What reaches the device is a list of events with their times. The device is an argument:
  whether it says that a key is down after these events, and whether it can press a key. Sleeps are left out, and the
  main queue of macOS is taken to run its closures at once, in order.
\<close>

section \<open>The device\<close>

datatype platform = X11 | Portal | Uinput | MacOs

text \<open>Keys of the \<open>enigo\<close> crate as far as they are told apart; the others go by their number.\<close>

datatype ekey = KShift | KRightShift | KControl | KRightControl | KAlt | KRightAlt | KMeta | KRWin | KCapsLock | KNumLock
  | KNamed int | KLayout nat | KRaw nat

datatype dev_event =
    KeyDown ekey
  | KeyUp ekey
  | RawPress nat
  | RawRelease nat
  | KeyText string
  | MouseTo int int
  | MouseBy int int
  | ButtonDown int
  | ButtonUp int
  | ScrollX int bool
  | ScrollY int bool
  | SetFlags "ekey list"
  | SetClipboard string
  | ClearRemapped
  | LockScreen
  | BoardCursor int int int u32 int string

datatype keys_down = RdevKey nat | EnigoKey nat

text \<open>How a key code counts for the lock keys: skipped, of the number pad, or other.\<close>

datatype led_class = LedSkipped | LedNumpad | LedOther

record input_env =
  ie_platform :: platform
  ie_now :: int
  ie_state :: "(int \<times> dev_event) list \<Rightarrow> ekey \<Rightarrow> bool"
  ie_key_ok :: "ekey \<Rightarrow> bool"
  ie_virtual :: bool
  ie_caps_code :: nat
  ie_key_code :: "u32 \<Rightarrow> nat"
  ie_clip_ok :: bool
  ie_upper :: "string \<Rightarrow> string"
  ie_led_class :: "u32 \<Rightarrow> led_class"
  ie_cursor :: "(int \<times> int) option"

record latest_input =
  li_conn :: int
  li_time :: int
  li_x :: int
  li_y :: int

record input_state =
  is_events :: "(int \<times> dev_event) list"
  is_keys_down :: "(keys_down \<times> int) list"
  is_exiting :: bool
  is_capslock_down :: bool
  is_last_legacy :: bool
  is_relative :: "int list"
  is_latest :: latest_input
  is_clip_records :: "(int \<times> nat list) list"

record input_key = key_event +
  ik_modifiers :: "int list"

record input_mouse = mouse_event +
  im_modifiers :: "int list"

definition KEY_CHAR_START :: nat where "KEY_CHAR_START = 9999"

definition dev_emit :: "input_env \<Rightarrow> dev_event \<Rightarrow> input_state \<Rightarrow> input_state" where
  "dev_emit env ev s = s\<lparr>is_events := is_events s @ [(ie_now env, ev)]\<rparr>"

definition get_key_state :: "input_env \<Rightarrow> ekey \<Rightarrow> input_state \<Rightarrow> bool" where
  "get_key_state env k s = ie_state env (is_events s) k"

definition key_down :: "input_env \<Rightarrow> ekey \<Rightarrow> input_state \<Rightarrow> input_state" where
  "key_down env k s = (if ie_key_ok env k then dev_emit env (KeyDown k) s else s)"

definition key_up :: "input_env \<Rightarrow> ekey \<Rightarrow> input_state \<Rightarrow> input_state" where
  "key_up env k s = dev_emit env (KeyUp k) s"

definition key_click :: "input_env \<Rightarrow> ekey \<Rightarrow> input_state \<Rightarrow> input_state" where
  "key_click env k s = key_up env k (key_down env k s)"

definition get_modifier_state :: "input_env \<Rightarrow> ekey \<Rightarrow> input_state \<Rightarrow> bool" where
  "get_modifier_state env k s =
     (get_key_state env k s \<or>
      (case k of
         KShift \<Rightarrow> get_key_state env KRightShift s
       | KControl \<Rightarrow> get_key_state env KRightControl s
       | KAlt \<Rightarrow> get_key_state env KRightAlt s
       | KMeta \<Rightarrow> get_key_state env KRWin s
       | KRightShift \<Rightarrow> get_key_state env KShift s
       | KRightControl \<Rightarrow> get_key_state env KControl s
       | KRightAlt \<Rightarrow> get_key_state env KAlt s
       | KRWin \<Rightarrow> get_key_state env KMeta s
       | _ \<Rightarrow> False))"

text \<open>\<open>KEY_MAP\<close>: the keys from Alt to RAlt; Menu is Alt.\<close>

definition control_key_value_to_key :: "int \<Rightarrow> ekey option" where
  "control_key_value_to_key v =
     (if v = 1 \<or> v = 45 then Some KAlt
      else if v = 3 then Some KCapsLock
      else if v = 4 then Some KControl
      else if v = 23 then Some KMeta
      else if v = 29 then Some KShift
      else if v = 63 then Some KNumLock
      else if v = 64 then Some KRWin
      else if v = 73 then Some KRightShift
      else if v = 74 then Some KRightControl
      else if v = 75 then Some KRightAlt
      else if 2 \<le> v \<and> v \<le> 72 then Some (KNamed v)
      else None)"

text \<open>\<open>char::from_u32(v).unwrap_or('\0')\<close>.\<close>

definition char_value_to_key :: "nat \<Rightarrow> ekey" where
  "char_value_to_key v = KLayout (if v < 55296 \<or> (57344 \<le> v \<and> v < 1114112) then v else 0)"

definition record_key_to_key :: "nat \<Rightarrow> ekey option" where
  "record_key_to_key r =
     (if r < KEY_CHAR_START then control_key_value_to_key (int r) else Some (char_value_to_key (wrap_u32 (r - KEY_CHAR_START))))"

section \<open>Keys that are down\<close>

definition record_pressed_key :: "input_env \<Rightarrow> keys_down \<Rightarrow> bool \<Rightarrow> input_state \<Rightarrow> input_state" where
  "record_pressed_key env r down s =
     s\<lparr>is_keys_down := (if down then [(r, ie_now env)] else []) @ filter (\<lambda>(r', _). r' \<noteq> r) (is_keys_down s)\<rparr>"

definition simulate_raw :: "input_env \<Rightarrow> dev_event \<Rightarrow> input_state \<Rightarrow> input_state" where
  "simulate_raw env ev s = (if ie_platform env = MacOs \<and> \<not> ie_virtual env then s else dev_emit env ev s)"

definition release_record_key :: "input_env \<Rightarrow> keys_down \<Rightarrow> input_state \<Rightarrow> input_state" where
  "release_record_key env r s =
     (case r of
        RdevKey c \<Rightarrow> simulate_raw env (RawRelease c) s
      | EnigoKey n \<Rightarrow> (case record_key_to_key n of Some k \<Rightarrow> key_up env k s | None \<Rightarrow> s))"

definition fix_key_down_timeout :: "input_env \<Rightarrow> bool \<Rightarrow> input_state \<Rightarrow> input_state" where
  "fix_key_down_timeout env force s =
     fold (\<lambda>(r, t) s. if force \<or> ie_now env - t \<ge> 360000 then release_record_key env r (record_pressed_key env r False s) else s) (is_keys_down s) s"

definition fix_key_down_timeout_at_exit :: "input_env \<Rightarrow> input_state \<Rightarrow> input_state" where
  "fix_key_down_timeout_at_exit env s = (if is_exiting s then s else fix_key_down_timeout env True (s\<lparr>is_exiting := True\<rparr>))"

definition release_device_modifiers :: "input_env \<Rightarrow> input_state \<Rightarrow> input_state" where
  "release_device_modifiers env s =
     fold (\<lambda>k s. if get_modifier_state env k s then key_up env k s else s)
       [KShift, KControl, KAlt, KMeta, KRightShift, KRightControl, KRightAlt, KRWin] s"

section \<open>Modifiers\<close>

definition fix_modifier :: "input_env \<Rightarrow> int list \<Rightarrow> int \<Rightarrow> ekey \<Rightarrow> input_state \<Rightarrow> input_state" where
  "fix_modifier env mods key0 key1 s = (if get_modifier_state env key1 s \<and> key0 \<notin> set mods then key_up env key1 s else s)"

text \<open>The number of the key that is pressed itself, the class and the key, in the order of the code.\<close>

definition modifier_table :: "(int \<times> int \<times> ekey) list" where
  "modifier_table = [(29, 29, KShift), (73, 29, KRightShift), (1, 1, KAlt), (75, 1, KRightAlt), (4, 4, KControl), (74, 4, KRightControl),
     (23, 23, KMeta), (64, 23, KRWin)]"

definition fix_modifiers :: "input_env \<Rightarrow> int list \<Rightarrow> int \<Rightarrow> input_state \<Rightarrow> input_state" where
  "fix_modifiers env mods ck s = fold (\<lambda>(own, key0, key1) s. if ck \<noteq> own then fix_modifier env mods key0 key1 s else s) modifier_table s"

definition get_control_key_value :: "input_key \<Rightarrow> int" where
  "get_control_key_value e = (case ke_union e of Some (ControlKey v) \<Rightarrow> v | _ \<Rightarrow> -1)"

definition has_hotkey_modifiers :: "platform \<Rightarrow> input_key \<Rightarrow> bool" where
  "has_hotkey_modifiers p e = list_ex (\<lambda>v. v \<in> {4, 74, 23, 64} \<or> p \<noteq> MacOs \<and> v \<in> {1, 75}) (ik_modifiers e)"

text \<open>The key code of \<open>RAlt\<close> is looked up as a raw key.\<close>

definition is_altgr_pressed :: "input_state \<Rightarrow> bool" where
  "is_altgr_pressed s \<longleftrightarrow> RdevKey 75 \<in> fst ` set (is_keys_down s)"

fun press_modifiers :: "input_env \<Rightarrow> int list \<Rightarrow> input_state \<Rightarrow> ekey list \<times> input_state" where
  "press_modifiers env [] s = ([], s)"
| "press_modifiers env (v # vs) s =
     (case control_key_value_to_key v of
        None \<Rightarrow> press_modifiers env vs s
      | Some k \<Rightarrow>
          if get_modifier_state env k s \<or> k = KAlt \<and> is_altgr_pressed s then press_modifiers env vs s
          else (let (ks, s) = press_modifiers env vs (key_down env k s) in (k # ks, s)))"

definition add_flags_to_enigo :: "input_env \<Rightarrow> int list \<Rightarrow> input_state \<Rightarrow> input_state" where
  "add_flags_to_enigo env mods s = dev_emit env (SetFlags (List.map_filter control_key_value_to_key mods)) s"

text \<open>The modifiers that have to be released again.\<close>

definition sync_modifiers :: "input_env \<Rightarrow> input_key \<Rightarrow> input_state \<Rightarrow> ekey list \<times> input_state" where
  "sync_modifiers env e s =
     (let s = (if ie_platform env = MacOs then add_flags_to_enigo env (ik_modifiers e) s else s) in
      if \<not> ke_down e then ([], s)
      else
        let s = fix_modifiers env (ik_modifiers e) (get_control_key_value e) s
        in if ie_platform env = MacOs then ([], s) else press_modifiers env (ik_modifiers e) s)"

definition release_keys :: "input_env \<Rightarrow> ekey list \<Rightarrow> input_state \<Rightarrow> input_state" where
  "release_keys env ks s = fold (key_up env) ks s"

definition is_hotkey_modifier_pressed :: "input_env \<Rightarrow> input_state \<Rightarrow> bool" where
  "is_hotkey_modifier_pressed env s = list_ex (\<lambda>k. get_modifier_state env k s) [KControl, KRightControl, KAlt, KRightAlt, KMeta, KRWin]"

text \<open>On X11 the release goes through \<open>rdev\<close>, to the same key.\<close>

definition release_shift_for_char_input :: "input_env \<Rightarrow> input_state \<Rightarrow> input_state" where
  "release_shift_for_char_input env s =
     (if is_hotkey_modifier_pressed env s then s
      else
        let s = (if get_modifier_state env KShift s then key_up env KShift s else s)
        in if get_modifier_state env KRightShift s then key_up env KRightShift s else s)"

section \<open>Text\<close>

text \<open>\<open>char::try_from(u32)\<close>.\<close>

definition is_scalar :: "nat \<Rightarrow> bool" where
  "is_scalar v \<longleftrightarrow> v < 55296 \<or> (57344 \<le> v \<and> v < 1114112)"

text \<open>\<open>char::to_string\<close>, as the bytes of UTF-8.\<close>

definition utf8_of_char :: "nat \<Rightarrow> nat list" where
  "utf8_of_char v =
     (if v < 128 then [v]
      else if v < 2048 then [192 + v div 64, 128 + v mod 64]
      else if v < 65536 then [224 + v div 4096, 128 + v div 64 mod 64, 128 + v mod 64]
      else [240 + v div 262144, 128 + v div 4096 mod 64, 128 + v div 64 mod 64, 128 + v mod 64])"

definition char_string :: "nat \<Rightarrow> string" where
  "char_string v = map char_of (utf8_of_char v)"

text \<open>\<open>str::chars\<close>: the characters of valid UTF-8; what is cut short is left out.\<close>

fun chars_of_utf8 :: "nat list \<Rightarrow> nat list" where
  "chars_of_utf8 [] = []"
| "chars_of_utf8 (a # bs) =
     (if a < 128 then a # chars_of_utf8 bs
      else if a < 224 then
        (case bs of b # bs' \<Rightarrow> ((a - 192) * 64 + (b - 128)) # chars_of_utf8 bs' | _ \<Rightarrow> [])
      else if a < 240 then
        (case bs of b # c # bs' \<Rightarrow> ((a - 224) * 4096 + (b - 128) * 64 + (c - 128)) # chars_of_utf8 bs' | _ \<Rightarrow> [])
      else
        (case bs of b # c # d # bs' \<Rightarrow> ((a - 240) * 262144 + (b - 128) * 4096 + (c - 128) * 64 + (d - 128)) # chars_of_utf8 bs' | _ \<Rightarrow> []))"

definition string_chars :: "string \<Rightarrow> nat list" where
  "string_chars t = chars_of_utf8 (map of_char t)"

definition is_ascii_printable :: "nat \<Rightarrow> bool" where
  "is_ascii_printable c \<longleftrightarrow> 32 \<le> c \<and> c \<le> 126"

definition key_sequence :: "input_env \<Rightarrow> string \<Rightarrow> input_state \<Rightarrow> input_state" where
  "key_sequence env t s = dev_emit env (KeyText t) s"

subsection \<open>Text through the clipboard, with uinput\<close>

definition WAYLAND_CLIPBOARD_INPUT_FILTER_WINDOW :: int where "WAYLAND_CLIPBOARD_INPUT_FILTER_WINDOW = 1000"

definition WAYLAND_CLIPBOARD_INPUT_MAX_RECORDS :: nat where "WAYLAND_CLIPBOARD_INPUT_MAX_RECORDS = 256"

definition WAYLAND_CLIPBOARD_INPUT_MAX_TEXT_CHARS :: nat where "WAYLAND_CLIPBOARD_INPUT_MAX_TEXT_CHARS = 1024"

definition XKB_KEY_INSERT :: nat where "XKB_KEY_INSERT = 118"

definition cleanup_wayland_clipboard_input_records :: "int \<Rightarrow> (int \<times> nat list) list \<Rightarrow> (int \<times> nat list) list" where
  "cleanup_wayland_clipboard_input_records now rs =
     (let rs = filter (\<lambda>(t, _). now - t \<le> WAYLAND_CLIPBOARD_INPUT_FILTER_WINDOW) rs
      in drop (length rs - WAYLAND_CLIPBOARD_INPUT_MAX_RECORDS) rs)"

definition get_wayland_clipboard_input_normalized_text :: "string \<Rightarrow> nat list option" where
  "get_wayland_clipboard_input_normalized_text t =
     (let n = take WAYLAND_CLIPBOARD_INPUT_MAX_TEXT_CHARS (string_chars t) in if n = [] then None else Some n)"

definition record_wayland_clipboard_input :: "input_env \<Rightarrow> string \<Rightarrow> input_state \<Rightarrow> (int \<times> nat list) option \<times> input_state" where
  "record_wayland_clipboard_input env t s =
     (if t = [] \<or> ie_platform env = X11 then (None, s)
      else
        case get_wayland_clipboard_input_normalized_text t of
          None \<Rightarrow> (None, s)
        | Some n \<Rightarrow>
            (Some (ie_now env, n),
             s\<lparr>is_clip_records := cleanup_wayland_clipboard_input_records (ie_now env) (is_clip_records s) @ [(ie_now env, n)]\<rparr>))"

text \<open>\<open>rposition\<close> and \<open>remove\<close>: the last one that is equal.\<close>

definition remove_last :: "'a \<Rightarrow> 'a list \<Rightarrow> 'a list" where
  "remove_last x xs = rev (remove1 x (rev xs))"

definition rollback_wayland_clipboard_input_record :: "input_env \<Rightarrow> int \<times> nat list \<Rightarrow> input_state \<Rightarrow> input_state" where
  "rollback_wayland_clipboard_input_record env r s =
     s\<lparr>is_clip_records := remove_last r (cleanup_wayland_clipboard_input_records (ie_now env) (is_clip_records s))\<rparr>"

definition is_recent_wayland_clipboard_input :: "input_env \<Rightarrow> string \<Rightarrow> input_state \<Rightarrow> bool \<times> input_state" where
  "is_recent_wayland_clipboard_input env t s =
     (if t = [] \<or> ie_platform env = X11 then (False, s)
      else
        case get_wayland_clipboard_input_normalized_text t of
          None \<Rightarrow> (False, s)
        | Some n \<Rightarrow>
            let rs = cleanup_wayland_clipboard_input_records (ie_now env) (is_clip_records s)
            in (list_ex (\<lambda>(_, n'). n' = n) rs, s\<lparr>is_clip_records := rs\<rparr>))"

definition set_clipboard_for_paste_sync :: "input_env \<Rightarrow> string \<Rightarrow> input_state \<Rightarrow> bool \<times> input_state" where
  "set_clipboard_for_paste_sync env t s =
     (let (r, s) = record_wayland_clipboard_input env t s in
      if ie_clip_ok env then (True, dev_emit env (SetClipboard t) s)
      else (False, case r of Some r \<Rightarrow> rollback_wayland_clipboard_input_record env r s | None \<Rightarrow> s))"

definition input_text_via_clipboard_server :: "input_env \<Rightarrow> string \<Rightarrow> input_state \<Rightarrow> input_state" where
  "input_text_via_clipboard_server env t s =
     (if t = [] then s
      else
        let (ok, s) = set_clipboard_for_paste_sync env t s in
        if \<not> ok then s
        else if \<not> ie_key_ok env KShift then s
        else
          let s = key_down env KShift s in
          if \<not> ie_key_ok env (KRaw XKB_KEY_INSERT) then key_up env KShift s
          else key_up env KShift (key_up env (KRaw XKB_KEY_INSERT) (key_down env (KRaw XKB_KEY_INSERT) s)))"

section \<open>Keys\<close>

definition process_control_key :: "input_env \<Rightarrow> int \<Rightarrow> bool \<Rightarrow> input_state \<Rightarrow> input_state" where
  "process_control_key env v down s =
     (case control_key_value_to_key v of Some k \<Rightarrow> if down then key_down env k s else key_up env k s | None \<Rightarrow> s)"

definition need_to_uppercase :: "input_env \<Rightarrow> input_state \<Rightarrow> bool" where
  "need_to_uppercase env s \<longleftrightarrow> get_modifier_state env KShift s \<or> get_modifier_state env KCapsLock s"

definition process_chr :: "input_env \<Rightarrow> nat \<Rightarrow> bool \<Rightarrow> bool \<Rightarrow> input_state \<Rightarrow> input_state" where
  "process_chr env chr down hotkey s =
     (if ie_platform env = Uinput \<and> \<not> is_hotkey_modifier_pressed env s then
        (if is_scalar chr then
           if is_ascii_printable chr then (if down then key_down env (KLayout chr) s else key_up env (KLayout chr) s)
           else if down then input_text_via_clipboard_server env (char_string chr) s
           else s
         else s)
      else if ie_platform env = MacOs \<and> \<not> hotkey then
        (if down \<and> is_scalar chr then key_sequence env (char_string chr) s else s)
      else
        let k = char_value_to_key chr in
        if down then
          if ie_key_ok env k then key_down env k s
          else if is_scalar chr then
            key_sequence env (if need_to_uppercase env s then ie_upper env (char_string chr) else char_string chr) s
          else s
        else key_up env k s)"

definition process_unicode :: "input_env \<Rightarrow> nat \<Rightarrow> input_state \<Rightarrow> input_state" where
  "process_unicode env chr s =
     (if \<not> is_scalar chr then s
      else if ie_platform env = Uinput \<and> \<not> is_ascii_printable chr then input_text_via_clipboard_server env (char_string chr) s
      else key_sequence env (char_string chr) s)"

definition process_seq :: "input_env \<Rightarrow> string \<Rightarrow> input_state \<Rightarrow> input_state" where
  "process_seq env t s =
     (if ie_platform env = Uinput \<and> \<not> list_all is_ascii_printable (string_chars t) then input_text_via_clipboard_server env t s
      else key_sequence env t s)"

text \<open>The lock of the screen is a thread of its own.\<close>

definition is_function_key :: "int \<Rightarrow> bool" where
  "is_function_key v \<longleftrightarrow> v = 100 \<or> v = 101"

definition spawn_function_key :: "input_env \<Rightarrow> int \<Rightarrow> input_state \<Rightarrow> input_state" where
  "spawn_function_key env v s = (if v = 101 then dev_emit env LockScreen s else s)"

text \<open>\<open>ck.value() as u64\<close>.\<close>

definition control_record :: "int \<Rightarrow> nat" where
  "control_record v = nat (v mod 18446744073709551616)"

definition char_record :: "nat \<Rightarrow> nat" where
  "char_record chr = chr + KEY_CHAR_START"

definition legacy_keyboard_mode :: "input_env \<Rightarrow> input_key \<Rightarrow> input_state \<Rightarrow> input_state" where
  "legacy_keyboard_mode env e s =
     (let (to_release, s) = sync_modifiers env e s; down = ke_down e;
          unshift = (if ie_platform env = MacOs then id else release_shift_for_char_input env);
          end_keys = (if ie_platform env = MacOs then id else release_keys env to_release) in
      case ke_union e of
        Some (ControlKey v) \<Rightarrow>
          if is_function_key v then spawn_function_key env v s
          else end_keys (process_control_key env v down (record_pressed_key env (EnigoKey (control_record v)) down s))
      | Some (Chr c) \<Rightarrow>
          end_keys (process_chr env (unat c) down (has_hotkey_modifiers (ie_platform env) e)
            (record_pressed_key env (EnigoKey (char_record (unat c))) down (unshift s)))
      | Some (Unicode c) \<Rightarrow> end_keys (process_unicode env (unat c) (unshift s))
      | Some (Seq t) \<Rightarrow> end_keys (process_seq env t s)
      | _ \<Rightarrow> end_keys s)"

definition sim_rdev_rawkey_position :: "input_env \<Rightarrow> nat \<Rightarrow> bool \<Rightarrow> input_state \<Rightarrow> input_state" where
  "sim_rdev_rawkey_position env code down s =
     simulate_raw env (if down then RawPress code else RawRelease code) (record_pressed_key env (RdevKey code) down s)"

definition wayland_send_raw_key :: "input_env \<Rightarrow> u32 \<Rightarrow> bool \<Rightarrow> input_state \<Rightarrow> input_state" where
  "wayland_send_raw_key env c down s =
     (let k = KRaw (unat c mod 65536) in if down then key_down env k s else key_up env k s)"

text \<open>\<open>evt.chr()\<close> is 0 for another kind of key.\<close>

definition event_chr :: "input_key \<Rightarrow> u32" where
  "event_chr e = (case ke_union e of Some (Chr c) \<Rightarrow> c | _ \<Rightarrow> 0)"

definition is_wayland :: "platform \<Rightarrow> bool" where
  "is_wayland p \<longleftrightarrow> p = Portal \<or> p = Uinput"

definition map_keyboard_mode :: "input_env \<Rightarrow> input_key \<Rightarrow> input_state \<Rightarrow> input_state" where
  "map_keyboard_mode env e s =
     (if is_wayland (ie_platform env) then wayland_send_raw_key env (event_chr e) (ke_down e) s
      else sim_rdev_rawkey_position env (ie_key_code env (event_chr e)) (ke_down e) s)"

definition translate_seq :: "input_env \<Rightarrow> string \<Rightarrow> input_state \<Rightarrow> input_state" where
  "translate_seq env t s =
     (let click_all = fold (\<lambda>c. key_click env (KLayout c)) (string_chars t) in
      case ie_platform env of
        Portal \<Rightarrow> key_sequence env t (release_shift_for_char_input env s)
      | Uinput \<Rightarrow>
          if is_hotkey_modifier_pressed env s then click_all s
          else
            let s = release_shift_for_char_input env s in
            if list_all is_ascii_printable (string_chars t) then key_sequence env t s
            else input_text_via_clipboard_server env t s
      | MacOs \<Rightarrow> key_sequence env t s
      | X11 \<Rightarrow> click_all (release_shift_for_char_input env s))"

definition translate_keyboard_mode :: "input_env \<Rightarrow> input_key \<Rightarrow> input_state \<Rightarrow> input_state" where
  "translate_keyboard_mode env e s =
     (case ke_union e of
        Some (Seq t) \<Rightarrow> translate_seq env t s
      | Some (Chr _) \<Rightarrow> map_keyboard_mode env e s
      | _ \<Rightarrow> s)"

section \<open>Lock keys\<close>

definition skip_led_sync_control_key :: "platform \<Rightarrow> int \<Rightarrow> bool" where
  "skip_led_sync_control_key p v \<longleftrightarrow> p \<noteq> MacOs \<and> v \<in> {4, 74, 23, 29, 73, 1, 75, 31, 27}"

definition is_numpad_control_key :: "int \<Rightarrow> bool" where
  "is_numpad_control_key v \<longleftrightarrow> (33 \<le> v \<and> v \<le> 42) \<or> v = 72"

definition is_legacy_mode :: "input_key \<Rightarrow> bool" where
  "is_legacy_mode e = (case ke_mode e of Known m \<Rightarrow> m = Legacy | Unknown _ \<Rightarrow> True)"

definition press_capslock :: "input_env \<Rightarrow> input_state \<Rightarrow> input_state" where
  "press_capslock env s = (if ie_virtual env then dev_emit env (RawPress (ie_caps_code env)) s\<lparr>is_capslock_down := True\<rparr> else s)"

definition release_capslock :: "input_env \<Rightarrow> input_state \<Rightarrow> input_state" where
  "release_capslock env s = (if ie_virtual env then dev_emit env (RawRelease (ie_caps_code env)) s\<lparr>is_capslock_down := False\<rparr> else s)"

text \<open>Whether the capital lock and the number lock were switched, to be switched back at the end.\<close>

definition new_lock_modes :: "input_env \<Rightarrow> input_key \<Rightarrow> bool \<Rightarrow> input_state \<Rightarrow> (bool \<times> bool) \<times> input_state" where
  "new_lock_modes env e numpad s =
     (let caps = 3 \<in> set (ik_modifiers e); num = 63 \<in> set (ik_modifiers e) in
      if ie_platform env = MacOs then
        ((False, False),
         if caps \<and> \<not> (ie_virtual env \<and> is_capslock_down s) then press_capslock env s
         else if \<not> caps \<and> ie_virtual env \<and> is_capslock_down s then release_capslock env s
         else s)
      else
        let caps_changed = (caps \<noteq> get_key_state env KCapsLock s);
            s = (if caps_changed then key_click env KCapsLock s else s);
            num_changed = (numpad \<and> num \<noteq> get_key_state env KNumLock s);
            s = (if num_changed then key_click env KNumLock s else s)
        in ((caps_changed, num_changed), s))"

definition drop_lock_modes :: "input_env \<Rightarrow> bool \<times> bool \<Rightarrow> input_state \<Rightarrow> input_state" where
  "drop_lock_modes env h s =
     (if ie_platform env = Uinput \<or> ie_platform env = MacOs then s
      else
        let s = (if fst h then key_click env KCapsLock s else s)
        in if snd h then key_click env KNumLock s else s)"

definition lock_mode_handler :: "input_env \<Rightarrow> input_key \<Rightarrow> input_state \<Rightarrow> (bool \<times> bool) option \<times> input_state" where
  "lock_mode_handler env e s =
     (let new = (\<lambda>numpad. let (h, s) = new_lock_modes env e numpad s in (Some h, s)) in
      case ke_union e of
        Some (Unicode _) \<Rightarrow> new False
      | Some (Seq _) \<Rightarrow> new False
      | Some (ControlKey v) \<Rightarrow> if skip_led_sync_control_key (ie_platform env) v then (None, s) else new (is_numpad_control_key v)
      | Some (Chr c) \<Rightarrow>
          if is_legacy_mode e then new False
          else if ie_platform env \<noteq> MacOs \<and> ie_led_class env c = LedSkipped then (None, s)
          else new (ie_led_class env c = LedNumpad)
      | _ \<Rightarrow> (None, s))"

text \<open>On macOS the last mode decides whether \<open>enigo\<close> ignores the flags of the modifiers.\<close>

definition set_last_legacy_mode :: "input_env \<Rightarrow> bool \<Rightarrow> input_state \<Rightarrow> input_state" where
  "set_last_legacy_mode env v s = (if ie_platform env = MacOs then s\<lparr>is_last_legacy := v\<rparr> else s)"

definition keyboard_mode_keys :: "input_env \<Rightarrow> input_key \<Rightarrow> input_state \<Rightarrow> input_state" where
  "keyboard_mode_keys env e s =
     (case ke_mode e of
        Known MapMode \<Rightarrow> map_keyboard_mode env e (set_last_legacy_mode env False s)
      | Known Translate \<Rightarrow> translate_keyboard_mode env e (set_last_legacy_mode env False s)
      | _ \<Rightarrow> legacy_keyboard_mode env e (set_last_legacy_mode env True s))"

text \<open>One event. The test of \<open>EXITING\<close> and what follows are one step; in the program the exit may run between them.\<close>

definition handle_key :: "input_env \<Rightarrow> input_key \<Rightarrow> input_state \<Rightarrow> input_state" where
  "handle_key env e s =
     (if is_exiting s then s
      else
        let (h, s) = lock_mode_handler env e s; s = keyboard_mode_keys env e s
        in case h of Some h \<Rightarrow> drop_lock_modes env h s | None \<Rightarrow> s)"

definition lock_screen :: "input_env \<Rightarrow> input_state \<Rightarrow> input_state" where
  "lock_screen env s =
     (let e = (if ie_platform env = MacOs
               then \<lparr>ke_down = True, ke_press = False, ke_union = Some (Chr 113), ke_mode = Known Legacy, ik_modifiers = [23, 4]\<rparr>
               else \<lparr>ke_down = True, ke_press = False, ke_union = Some (Chr 108), ke_mode = Known Legacy, ik_modifiers = [23]\<rparr>)
      in handle_key env (e\<lparr>ke_down := False\<rparr>) (handle_key env e s))"

section \<open>Mouse\<close>

text \<open>\<open>-x\<close> on 32 bits.\<close>

definition neg_i32 :: "int \<Rightarrow> int" where
  "neg_i32 x = (if x = - 2147483648 then x else - x)"

definition clamp_int :: "int \<Rightarrow> int \<Rightarrow> int \<Rightarrow> int" where
  "clamp_int lo hi x = max lo (min hi x)"

definition MAX_RELATIVE_MOUSE_DELTA :: int where "MAX_RELATIVE_MOUSE_DELTA = 10000"

definition mouse_buttons :: "input_mouse \<Rightarrow> int" where
  "mouse_buttons e = me_mask e div 8"

definition mouse_kind :: "input_mouse \<Rightarrow> int" where
  "mouse_kind e = me_mask e mod (MOUSE_TYPE_MASK + 1)"

definition is_mouse_button :: "int \<Rightarrow> bool" where
  "is_mouse_button b \<longleftrightarrow> b \<in> {1, 2, 4, 8, 16}"

definition set_relative_mouse_active :: "int \<Rightarrow> bool \<Rightarrow> input_state \<Rightarrow> input_state" where
  "set_relative_mouse_active conn on s =
     s\<lparr>is_relative := (if on then List.insert conn (is_relative s) else removeAll conn (is_relative s))\<rparr>"

definition is_relative_mouse_active :: "int \<Rightarrow> input_state \<Rightarrow> bool" where
  "is_relative_mouse_active conn s \<longleftrightarrow> conn \<in> set (is_relative s)"

definition update_latest_input_cursor_time :: "input_env \<Rightarrow> int \<Rightarrow> input_state \<Rightarrow> input_state" where
  "update_latest_input_cursor_time env conn s = s\<lparr>is_latest := (is_latest s)\<lparr>li_conn := conn, li_time := ie_now env\<rparr>\<rparr>"

fun press_mouse_modifiers :: "input_env \<Rightarrow> int list \<Rightarrow> input_state \<Rightarrow> ekey list \<times> input_state" where
  "press_mouse_modifiers env [] s = ([], s)"
| "press_mouse_modifiers env (v # vs) s =
     (case control_key_value_to_key v of
        None \<Rightarrow> press_mouse_modifiers env vs s
      | Some k \<Rightarrow>
          if k = KCapsLock \<or> k = KNumLock \<or> get_modifier_state env k s then press_mouse_modifiers env vs s
          else (let (ks, s) = press_mouse_modifiers env vs (key_down env k s) in (k # ks, s)))"

definition mouse_down_modifiers :: "input_env \<Rightarrow> int list \<Rightarrow> input_state \<Rightarrow> ekey list \<times> input_state" where
  "mouse_down_modifiers env mods s =
     (let s = fix_modifiers env mods 0 s in
      if ie_platform env = MacOs then ([], add_flags_to_enigo env mods s) else press_mouse_modifiers env mods s)"

definition mouse_scroll :: "input_env \<Rightarrow> input_mouse \<Rightarrow> input_state \<Rightarrow> input_state" where
  "mouse_scroll env e s =
     (let x = neg_i32 (me_x e); y = neg_i32 (me_y e); pad = (mouse_kind e = 4) in
      if ie_platform env = MacOs then
        let (x, y) = (if \<not> pad \<and> 29 \<in> set (im_modifiers e) then (y, 0) else (x, y));
            s = (if x \<noteq> 0 then dev_emit env (ScrollX x pad) s else s)
        in if y \<noteq> 0 then dev_emit env (ScrollY y pad) s else s
      else
        let s = (if y \<noteq> 0 then dev_emit env (ScrollY y False) s else s)
        in if x \<noteq> 0 then dev_emit env (ScrollX x False) s else s)"

definition mouse_action :: "input_env \<Rightarrow> input_mouse \<Rightarrow> int \<Rightarrow> input_state \<Rightarrow> input_state" where
  "mouse_action env e conn s =
     (let t = mouse_kind e; b = mouse_buttons e in
      if t = 0 then
        (dev_emit env (MouseTo (me_x e) (me_y e)) (set_relative_mouse_active conn False s))
          \<lparr>is_latest := \<lparr>li_conn = conn, li_time = ie_now env, li_x = me_x e, li_y = me_y e\<rparr>\<rparr>
      else if t = 5 then
        let c = clamp_int (- MAX_RELATIVE_MOUSE_DELTA) MAX_RELATIVE_MOUSE_DELTA;
            s = dev_emit env (MouseBy (c (me_x e)) (c (me_y e))) (set_relative_mouse_active conn True s)
        in case ie_cursor env of
             Some (x, y) \<Rightarrow> s\<lparr>is_latest := \<lparr>li_conn = conn, li_time = ie_now env, li_x = x, li_y = y\<rparr>\<rparr>
           | None \<Rightarrow> s
      else if t = 1 then (if is_mouse_button b then dev_emit env (ButtonDown b) s else s)
      else if t = 2 then (if is_mouse_button b then dev_emit env (ButtonUp b) s else s)
      else if t = 3 \<or> t = 4 then mouse_scroll env e s
      else s)"

definition handle_mouse_simulation :: "input_env \<Rightarrow> input_mouse \<Rightarrow> int \<Rightarrow> input_state \<Rightarrow> input_state" where
  "handle_mouse_simulation env e conn s =
     (if is_exiting s then s
      else
        let (to_release, s) = (if mouse_kind e = 1 then mouse_down_modifiers env (im_modifiers e) s else ([], s))
        in release_keys env to_release (mouse_action env e conn s))"

definition handle_mouse_show_cursor :: "input_env \<Rightarrow> input_mouse \<Rightarrow> int \<Rightarrow> string \<Rightarrow> u32 \<Rightarrow> input_state \<Rightarrow> input_state" where
  "handle_mouse_show_cursor env e conn username argb s =
     (if mouse_kind e = 0 then dev_emit env (BoardCursor conn (me_x e) (me_y e) argb 0 username) s
      else if mouse_kind e = 2 \<and> mouse_buttons e = 1 then
        let (x, y) = (if me_x e = 0 \<and> me_y e = 0 then (li_x (is_latest s), li_y (is_latest s)) else (me_x e, me_y e))
        in dev_emit env (BoardCursor conn x y argb 1 username) s
      else s)"

definition handle_mouse :: "input_env \<Rightarrow> input_mouse \<Rightarrow> int \<Rightarrow> string \<Rightarrow> u32 \<Rightarrow> bool \<Rightarrow> bool \<Rightarrow> input_state \<Rightarrow> input_state" where
  "handle_mouse env e conn username argb simulate show_cursor s =
     (let s = (if simulate then handle_mouse_simulation env e conn s else s) in
      if show_cursor \<and> \<not> is_relative_mouse_active conn s \<and> mouse_kind e \<noteq> 5 then handle_mouse_show_cursor env e conn username argb s
      else s)"

section \<open>The input thread\<close>

text \<open>A key that is clicked goes down and up.\<close>

definition handle_key_message :: "input_env \<Rightarrow> input_key \<Rightarrow> bool \<Rightarrow> input_state \<Rightarrow> input_state" where
  "handle_key_message env e press s =
     (let e = e\<lparr>ke_press := False\<rparr>; e = (if press then e\<lparr>ke_down := True\<rparr> else e); s = handle_key env e s
      in if press then handle_key env (e\<lparr>ke_down := False\<rparr>) s else s)"

text \<open>The virtual input of macOS is made anew.\<close>

definition reset_input :: "input_env \<Rightarrow> input_state \<Rightarrow> input_state" where
  "reset_input env s = (if ie_platform env = MacOs then s\<lparr>is_capslock_down := False\<rparr> else s)"

definition clear_remapped_keycode :: "input_env \<Rightarrow> input_state \<Rightarrow> input_state" where
  "clear_remapped_keycode env s = (if ie_platform env = MacOs then s else dev_emit env ClearRemapped s)"

datatype input_op =
    MouseStep input_mouse int string u32 bool bool
  | KeyStep input_key bool
  | LockStep
  | ThreadStart
  | ThreadEnd
  | TimeoutStep
  | CursorReset
  | ConnClosed int
  | ReleaseModifiers
  | ClipboardText string
  | ExitStep

fun input_step :: "input_env \<Rightarrow> input_op \<Rightarrow> input_state \<Rightarrow> input_state" where
  "input_step env (MouseStep e conn user argb simulate show_cursor) s = handle_mouse env e conn user argb simulate show_cursor s"
| "input_step env (KeyStep e press) s = handle_key_message env e press s"
| "input_step env LockStep s = lock_screen env s"
| "input_step env ThreadStart s = reset_input env s"
| "input_step env ThreadEnd s = clear_remapped_keycode env s"
| "input_step env TimeoutStep s = fix_key_down_timeout env False s"
| "input_step env CursorReset s = fix_key_down_timeout env True s"
| "input_step env (ConnClosed conn) s = set_relative_mouse_active conn False s"
| "input_step env ReleaseModifiers s = release_device_modifiers env s"
| "input_step env (ClipboardText t) s = snd (is_recent_wayland_clipboard_input env t s)"
| "input_step env ExitStep s = fix_key_down_timeout_at_exit env s"

text \<open>Each step has its own time and its own answers of the device.\<close>

definition run_inputs :: "(input_env \<times> input_op) list \<Rightarrow> input_state \<Rightarrow> input_state" where
  "run_inputs ops s = fold (\<lambda>(env, op). input_step env op) ops s"

definition input_init :: input_state where
  "input_init = \<lparr>is_events = [], is_keys_down = [], is_exiting = False, is_capslock_down = False, is_last_legacy = True, is_relative = [],
     is_latest = \<lparr>li_conn = 0, li_time = 0, li_x = 0, li_y = 0\<rparr>, is_clip_records = []\<rparr>"

end
