(* ===== verification/InputProps.thy ===== *)
theory InputProps
  imports InputService
begin

text \<open>
  What the input service guarantees of the keys it presses for a peer. A key is held when its last event at the
  device was a press. On X11 every held key is recorded, so that none is held after the exit of the host and none
  longer than six minutes without its record being renewed; the ways in which keys get stuck elsewhere follow.
\<close>

section \<open>Held keys\<close>

datatype device_key = ByEnigo ekey | ByRdev nat

fun held_step :: "dev_event \<Rightarrow> device_key set \<Rightarrow> device_key set" where
  "held_step (KeyDown k) H = insert (ByEnigo k) H"
| "held_step (KeyUp k) H = H - {ByEnigo k}"
| "held_step (RawPress c) H = insert (ByRdev c) H"
| "held_step (RawRelease c) H = H - {ByRdev c}"
| "held_step _ H = H"

definition held_keys :: "input_state \<Rightarrow> device_key set" where
  "held_keys s = fold (\<lambda>(_, ev). held_step ev) (is_events s) {}"

fun record_key :: "keys_down \<Rightarrow> device_key option" where
  "record_key (RdevKey c) = Some (ByRdev c)"
| "record_key (EnigoKey n) = map_option ByEnigo (record_key_to_key n)"

definition recorded_keys :: "input_state \<Rightarrow> device_key set" where
  "recorded_keys s = {k. \<exists>(r, t) \<in> set (is_keys_down s). record_key r = Some k}"

text \<open>Every held key is recorded, or one of \<open>A\<close>, which are yet to be released.\<close>

definition held_within :: "device_key set \<Rightarrow> input_state \<Rightarrow> bool" where
  "held_within A s \<longleftrightarrow> held_keys s \<subseteq> recorded_keys s \<union> A"

text \<open>What holds no more keys and touches neither the records nor the end of the host.\<close>

definition calm :: "input_state \<Rightarrow> input_state \<Rightarrow> bool" where
  "calm s s' \<longleftrightarrow> held_keys s' \<subseteq> held_keys s \<and> is_keys_down s' = is_keys_down s \<and> is_exiting s' = is_exiting s"

named_theorems calms

lemma held_dev_emit [simp]: "held_keys (dev_emit env ev s) = held_step ev (held_keys s)"
  by (simp add: held_keys_def dev_emit_def)

lemma dev_emit_same [simp]:
  "is_keys_down (dev_emit env ev s) = is_keys_down s" "is_exiting (dev_emit env ev s) = is_exiting s"
  "is_clip_records (dev_emit env ev s) = is_clip_records s"
  by (simp_all add: dev_emit_def)

lemma held_keys_cong: "is_events s = is_events s' \<Longrightarrow> held_keys s = held_keys s'"
  by (simp add: held_keys_def)

lemma recorded_keys_cong: "is_keys_down s = is_keys_down s' \<Longrightarrow> recorded_keys s = recorded_keys s'"
  by (simp add: recorded_keys_def)

lemma calm_refl [simp, calms]: "calm s s"
  by (simp add: calm_def)

lemma calm_trans: "\<lbrakk>calm s t; calm t u\<rbrakk> \<Longrightarrow> calm s u"
  by (auto simp: calm_def)

lemma calm_held_within: "\<lbrakk>calm s s'; held_within A s\<rbrakk> \<Longrightarrow> held_within A s'"
  by (auto simp: calm_def held_within_def recorded_keys_def)

lemma calm_fold: "\<lbrakk>\<And>x s. x \<in> set xs \<Longrightarrow> calm s (f x s)\<rbrakk> \<Longrightarrow> calm s (fold f xs s)"
proof (induction xs arbitrary: s)
  case (Cons x xs)
  have "calm s (f x s)" "calm (f x s) (fold f xs (f x s))"
    by (use Cons in simp_all)
  then show ?case
    by (auto intro: calm_trans)
qed simp

lemma calm_emit [calms]:
  "calm s (key_up env k s)" "calm s (key_sequence env t s)" "calm s (key_click env k s)"
  by (auto simp: calm_def key_up_def key_down_def key_click_def key_sequence_def)

lemma calm_after [calms]:
  "calm s t \<Longrightarrow> calm s (key_up env k t)" "calm s t \<Longrightarrow> calm s (key_sequence env x t)" "calm s t \<Longrightarrow> calm s (key_click env k t)"
  by (rule calm_trans, assumption, rule calm_emit)+

lemma calm_if: "\<lbrakk>b \<Longrightarrow> calm s t; \<not> b \<Longrightarrow> calm s u\<rbrakk> \<Longrightarrow> calm s (if b then t else u)"
  by simp

lemma calm_modifiers [calms]:
  "calm s (fix_modifiers env mods ck s)" "calm s (release_device_modifiers env s)" "calm s (release_keys env ks s)"
proof -
  show "calm s (fix_modifiers env mods ck s)"
    unfolding fix_modifiers_def by (rule calm_fold) (auto simp: fix_modifier_def calms)
  show "calm s (release_device_modifiers env s)"
    unfolding release_device_modifiers_def by (rule calm_fold) (simp add: calms)
  show "calm s (release_keys env ks s)"
    unfolding release_keys_def by (rule calm_fold) (simp add: calms)
qed

lemma calm_shift [calms]: "calm s (release_shift_for_char_input env s)"
  by (auto simp: release_shift_for_char_input_def Let_def calms intro: calm_trans)

lemma calm_lock_modes:
  assumes "ie_platform env \<noteq> MacOs"
  shows "calm s (snd (lock_mode_handler env e s))" "calm s (drop_lock_modes env h s)"
proof -
  have new: "calm s (snd (new_lock_modes env e np s))" for np
    using assms by (auto simp: new_lock_modes_def Let_def calms intro: calm_trans)
  then show "calm s (snd (lock_mode_handler env e s))"
    by (auto simp: lock_mode_handler_def Let_def case_prod_beta split: option.split key_union.split)
  show "calm s (drop_lock_modes env h s)"
    by (auto simp: drop_lock_modes_def Let_def calms intro: calm_trans)
qed

lemma held_release_keys: "held_keys (release_keys env ks s) = held_keys s - ByEnigo ` set ks"
  by (induction ks arbitrary: s) (auto simp: release_keys_def key_up_def)

lemma press_modifiers_held:
  "press_modifiers env vs s = (ks, s') \<Longrightarrow>
     held_keys s' \<subseteq> held_keys s \<union> ByEnigo ` set ks \<and> is_keys_down s' = is_keys_down s \<and> is_exiting s' = is_exiting s"
proof (induction env vs s arbitrary: ks s' rule: press_modifiers.induct)
  case (2 env v vs s)
  then show ?case
    by (fastforce simp: key_down_def split: option.splits if_splits prod.splits)
qed simp

lemma press_mouse_modifiers_held:
  "press_mouse_modifiers env vs s = (ks, s') \<Longrightarrow>
     held_keys s' \<subseteq> held_keys s \<union> ByEnigo ` set ks \<and> is_keys_down s' = is_keys_down s \<and> is_exiting s' = is_exiting s"
proof (induction env vs s arbitrary: ks s' rule: press_mouse_modifiers.induct)
  case (2 env v vs s)
  then show ?case
    by (fastforce simp: key_down_def split: option.splits if_splits prod.splits)
qed simp

section \<open>Keys on X11\<close>

lemma held_within_mono: "\<lbrakk>held_within A s; A \<subseteq> B\<rbrakk> \<Longrightarrow> held_within B s"
  by (auto simp: held_within_def)

lemma recorded_record:
  "recorded_keys (record_pressed_key env r down s) \<union> set_option (record_key r) \<supseteq> recorded_keys s"
  by (auto simp: recorded_keys_def record_pressed_key_def)

lemma recorded_record_down [simp]:
  "recorded_keys (record_pressed_key env r True s) = recorded_keys s \<union> set_option (record_key r)"
  by (auto simp: recorded_keys_def record_pressed_key_def)

lemma record_pressed_key_same [simp]:
  "held_keys (record_pressed_key env r down s) = held_keys s" "is_exiting (record_pressed_key env r down s) = is_exiting s"
  by (simp_all add: record_pressed_key_def held_keys_def)

text \<open>A press whose key is the one recorded, and a release of that key.\<close>

lemma held_within_press:
  assumes "held_within A s" "held_keys s' \<subseteq> held_keys s \<union> set_option (record_key r)"
    "is_keys_down s' = is_keys_down (record_pressed_key env r True s)"
  shows "held_within A s'"
proof -
  have "recorded_keys s' = recorded_keys s \<union> set_option (record_key r)"
    using recorded_keys_cong[OF assms(3)] by simp
  then show ?thesis
    using assms(1,2) by (auto simp: held_within_def)
qed

lemma held_within_release:
  assumes "held_within A s" "held_keys s' \<subseteq> held_keys s - set_option (record_key r)"
    "is_keys_down s' = is_keys_down (record_pressed_key env r False s)"
  shows "held_within A s'"
proof -
  have "recorded_keys s \<subseteq> recorded_keys s' \<union> set_option (record_key r)"
    using recorded_record[of s env r False] recorded_keys_cong[OF assms(3)] by auto
  then show ?thesis
    using assms(1,2) by (auto simp: held_within_def)
qed

lemma control_key_range: "control_key_value_to_key v = Some k \<Longrightarrow> 0 \<le> v \<and> v < 76"
  by (auto simp: control_key_value_to_key_def split: if_splits)

lemma record_control: "control_key_value_to_key v = Some k \<Longrightarrow> record_key (EnigoKey (control_record v)) = Some (ByEnigo k)"
  using control_key_range[of v k] by (auto simp: control_record_def record_key_to_key_def KEY_CHAR_START_def nat_less_iff)

lemma record_char: "record_key (EnigoKey (char_record (unat (c :: u32)))) = Some (ByEnigo (char_value_to_key (unat c)))"
  using unat_u32_less[of c] by (simp add: char_record_def record_key_to_key_def)

text \<open>The control keys of the protocol have numbers below the records of characters.\<close>

lemma record_no_control:
  "\<lbrakk>control_key_value_to_key v = None; 0 \<le> v; v < 9999\<rbrakk> \<Longrightarrow> record_key (EnigoKey (control_record v)) = None"
  by (simp add: control_record_def record_key_to_key_def KEY_CHAR_START_def nat_less_iff)

declare record_key.simps(2) [simp del]

lemma control_key_within:
  assumes "held_within A s" "0 \<le> v" "v < 9999"
  shows "held_within A (process_control_key env v down (record_pressed_key env (EnigoKey (control_record v)) down s))"
    (is "held_within A ?s'")
proof -
  let ?r = "EnigoKey (control_record v)"
  have kd: "is_keys_down ?s' = is_keys_down (record_pressed_key env ?r down s)"
    by (auto simp: process_control_key_def key_down_def key_up_def split: option.split)
  have key: "record_key ?r = map_option ByEnigo (control_key_value_to_key v)"
    using record_control[of v] record_no_control[OF _ assms(2,3)] by (cases "control_key_value_to_key v") auto
  show ?thesis
  proof (cases down)
    case True
    have "held_keys ?s' \<subseteq> held_keys s \<union> set_option (record_key ?r)"
      using True by (auto simp: process_control_key_def key key_down_def split: option.splits)
    then show ?thesis
      using held_within_press[OF assms(1)] kd True by simp
  next
    case False
    have "held_keys ?s' \<subseteq> held_keys s - set_option (record_key ?r)"
      using False by (auto simp: process_control_key_def key key_up_def split: option.splits)
    then show ?thesis
      using held_within_release[OF assms(1)] kd False by simp
  qed
qed

lemma chr_within:
  assumes "held_within A s" "ie_platform env = X11"
  shows "held_within A (process_chr env (unat c) down hot (record_pressed_key env (EnigoKey (char_record (unat (c :: u32)))) down s))"
    (is "held_within A ?s'")
proof -
  let ?r = "EnigoKey (char_record (unat c))"
  have kd: "is_keys_down ?s' = is_keys_down (record_pressed_key env ?r down s)"
    using assms(2) by (auto simp: process_chr_def Let_def key_down_def key_up_def key_sequence_def)
  show ?thesis
  proof (cases down)
    case True
    have "held_keys ?s' \<subseteq> held_keys s \<union> set_option (record_key ?r)"
      using True assms(2) by (auto simp: process_chr_def Let_def record_char key_down_def key_sequence_def)
    then show ?thesis
      using held_within_press[OF assms(1)] kd True by simp
  next
    case False
    have "held_keys ?s' \<subseteq> held_keys s - set_option (record_key ?r)"
      using False assms(2) by (auto simp: process_chr_def Let_def record_char key_up_def)
    then show ?thesis
      using held_within_release[OF assms(1)] kd False by simp
  qed
qed

lemma raw_within:
  assumes "held_within A s" "ie_platform env = X11"
  shows "held_within A (sim_rdev_rawkey_position env c down s)" (is "held_within A ?s'")
proof (cases down)
  case True
  show ?thesis
    by (rule held_within_press[OF assms(1), where r = "RdevKey c" and env = env])
      (use True assms(2) in \<open>auto simp: sim_rdev_rawkey_position_def simulate_raw_def\<close>)
next
  case False
  show ?thesis
    by (rule held_within_release[OF assms(1), where r = "RdevKey c" and env = env])
      (use False assms(2) in \<open>auto simp: sim_rdev_rawkey_position_def simulate_raw_def\<close>)
qed

lemma sync_modifiers_within:
  assumes "sync_modifiers env e s = (ks, s')" "held_within {} s" "ie_platform env = X11"
  shows "held_within (ByEnigo ` set ks) s'"
proof (cases "ke_down e")
  case False
  then show ?thesis
    using assms by (auto simp: sync_modifiers_def)
next
  case True
  let ?t = "fix_modifiers env (ik_modifiers e) (get_control_key_value e) s"
  have "press_modifiers env (ik_modifiers e) ?t = (ks, s')"
    using assms True by (simp add: sync_modifiers_def)
  from press_modifiers_held[OF this] calm_held_within[OF calm_modifiers(1) assms(2)]
  show ?thesis
    by (fastforce simp: held_within_def recorded_keys_def)
qed

lemma release_within: "held_within (ByEnigo ` set ks) s \<Longrightarrow> held_within {} (release_keys env ks s)"
  using calm_modifiers(3)[of s env ks] by (auto simp: held_within_def held_release_keys calm_def recorded_keys_def)

text \<open>The events for which the guarantee holds: known control keys, and none that locks the screen with modifiers.\<close>

definition plain_key :: "input_key \<Rightarrow> bool" where
  "plain_key e =
     (case ke_union e of Some (ControlKey v) \<Rightarrow> 0 \<le> v \<and> v < 9999 \<and> (is_function_key v \<longrightarrow> ik_modifiers e = []) | _ \<Rightarrow> True)"

lemma sync_no_modifiers: "\<lbrakk>ik_modifiers e = []; ie_platform env = X11; sync_modifiers env e s = (ks, s')\<rbrakk> \<Longrightarrow> ks = []"
  by (auto simp: sync_modifiers_def split: if_splits)

lemma legacy_within:
  assumes "held_within {} s" "ie_platform env = X11" "plain_key e"
  shows "held_within {} (legacy_keyboard_mode env e s)"
proof -
  obtain ks s1 where sync: "sync_modifiers env e s = (ks, s1)"
    by fastforce
  note h1 = sync_modifiers_within[OF sync assms(1,2)]
  note h2 = calm_held_within[OF calm_shift h1, of env]
  show ?thesis
  proof (cases "ke_union e")
    case None
    then show ?thesis
      using release_within[OF h1] assms(2) sync by (simp add: legacy_keyboard_mode_def Let_def)
  next
    case (Some u)
    show ?thesis
    proof (cases u)
      case (ControlKey v)
      then have v: "0 \<le> v" "v < 9999" "is_function_key v \<Longrightarrow> ks = []"
        using assms(3) Some sync_no_modifiers[OF _ assms(2) sync] by (auto simp: plain_key_def)
      have "held_within (ByEnigo ` set ks) (spawn_function_key env v s1)"
        using h1 by (auto simp: spawn_function_key_def held_within_def recorded_keys_def)
      then show ?thesis
        using v(3) release_within[OF control_key_within[OF h1 v(1,2)]] assms(2) sync Some ControlKey
        by (auto simp: legacy_keyboard_mode_def Let_def)
    next
      case (Chr c)
      then show ?thesis
        using release_within[OF chr_within[OF h2 assms(2)]] assms(2) sync Some by (simp add: legacy_keyboard_mode_def Let_def)
    next
      case (Unicode c)
      have "calm (release_shift_for_char_input env s1) (process_unicode env (unat c) (release_shift_for_char_input env s1))"
        using assms(2) by (simp add: process_unicode_def calms)
      from release_within[OF calm_held_within[OF this h2]] show ?thesis
        using assms(2) sync Some Unicode by (simp add: legacy_keyboard_mode_def Let_def)
    next
      case (Seq t)
      have "calm s1 (process_seq env t s1)"
        using assms(2) by (simp add: process_seq_def calms)
      from release_within[OF calm_held_within[OF this h1]] show ?thesis
        using assms(2) sync Some Seq by (simp add: legacy_keyboard_mode_def Let_def)
    next
      case (Win2winHotkey c)
      then show ?thesis
        using release_within[OF h1] assms(2) sync Some by (simp add: legacy_keyboard_mode_def Let_def)
    qed
  qed
qed

lemma map_mode_within:
  "\<lbrakk>held_within {} s; ie_platform env = X11\<rbrakk> \<Longrightarrow> held_within {} (map_keyboard_mode env e s)"
  by (simp add: map_keyboard_mode_def is_wayland_def raw_within)

lemma translate_mode_within:
  assumes "held_within {} s" "ie_platform env = X11"
  shows "held_within {} (translate_keyboard_mode env e s)"
proof -
  have "calm s (translate_seq env t s)" for t
    using assms(2) calm_trans[OF calm_shift calm_fold[where f = "\<lambda>c. key_click env (KLayout c)"]] by (simp add: translate_seq_def calms)
  then show ?thesis
    using calm_held_within[OF _ assms(1)] map_mode_within[OF assms]
    by (auto simp: translate_keyboard_mode_def assms(1) split: option.split key_union.split)
qed

lemma handle_key_within:
  assumes "held_within {} s" "ie_platform env = X11" "plain_key e"
  shows "held_within {} (handle_key env e s)"
proof (cases "is_exiting s")
  case True
  then show ?thesis
    using assms(1) by (simp add: handle_key_def)
next
  case False
  obtain h s1 where lm: "lock_mode_handler env e s = (h, s1)"
    by fastforce
  have "held_within {} s1"
    using calm_held_within[OF calm_lock_modes(1) assms(1), of env e] assms(2) lm by simp
  then have "held_within {} (keyboard_mode_keys env e s1)"
    using assms(2,3) map_mode_within translate_mode_within legacy_within
    by (simp add: keyboard_mode_keys_def set_last_legacy_mode_def split: enum_or_unknown.split keyboard_mode.split)
  then show ?thesis
    using False lm calm_held_within[OF calm_lock_modes(2)] assms(2) by (auto simp: handle_key_def Let_def split: option.split)
qed

lemma ik_modifiers_same [simp]:
  "ik_modifiers (e\<lparr>ke_press := p\<rparr>) = ik_modifiers e" "ik_modifiers (e\<lparr>ke_down := d\<rparr>) = ik_modifiers e"
  by (cases e; simp)+

lemma key_message_within:
  assumes "held_within {} s" "ie_platform env = X11" "plain_key e"
  shows "held_within {} (handle_key_message env e press s)"
proof -
  have "plain_key (e\<lparr>ke_press := p, ke_down := d\<rparr>)" "plain_key (e\<lparr>ke_press := p\<rparr>)" for p d
    using assms(3) by (auto simp: plain_key_def split: option.splits key_union.splits)
  then show ?thesis
    using handle_key_within[OF _ assms(2)] assms(1) by (simp add: handle_key_message_def Let_def)
qed

section \<open>Mouse and releases\<close>

lemma calm_mouse_action: "calm s (mouse_action env e conn s)"
proof -
  have h: "held_keys (s'\<lparr>is_latest := l\<rparr>) = held_keys s'" "held_keys (set_relative_mouse_active conn b s') = held_keys s'" for s' l b
    by (simp_all add: held_keys_def set_relative_mouse_active_def)
  show ?thesis
    by (auto simp: mouse_action_def mouse_scroll_def Let_def calm_def h split: option.split)
      (auto simp: set_relative_mouse_active_def)
qed

lemma calm_show_cursor: "calm s (handle_mouse_show_cursor env e conn u a s)"
  by (auto simp: handle_mouse_show_cursor_def Let_def calm_def case_prod_beta)

text \<open>The modifiers pressed for a click are released after it.\<close>

lemma mouse_simulation_calm:
  assumes "ie_platform env \<noteq> MacOs"
  shows "calm s (handle_mouse_simulation env e conn s)"
proof -
  obtain ks s1 where m: "(if mouse_kind e = 1 then mouse_down_modifiers env (im_modifiers e) s else ([], s)) = (ks, s1)"
    by fastforce
  have s1: "held_keys s1 \<subseteq> held_keys s \<union> ByEnigo ` set ks \<and> is_keys_down s1 = is_keys_down s \<and> is_exiting s1 = is_exiting s"
  proof (cases "mouse_kind e = 1")
    case True
    then have "press_mouse_modifiers env (im_modifiers e) (fix_modifiers env (im_modifiers e) 0 s) = (ks, s1)"
      using m assms by (simp add: mouse_down_modifiers_def)
    from press_mouse_modifiers_held[OF this] calm_modifiers(1)[of s env "im_modifiers e" 0] show ?thesis
      by (auto simp: calm_def)
  qed (use m in simp)
  then have "calm s (release_keys env ks (mouse_action env e conn s1))"
    using calm_mouse_action[of s1 env e conn] calm_modifiers(3)[of "mouse_action env e conn s1" env ks]
    by (auto simp: calm_def held_release_keys)
  then show ?thesis
    using m by (simp add: handle_mouse_simulation_def)
qed

lemma handle_mouse_calm: "ie_platform env \<noteq> MacOs \<Longrightarrow> calm s (handle_mouse env e conn u a sim show s)"
  using mouse_simulation_calm[of env s e conn] calm_show_cursor[of "handle_mouse_simulation env e conn s" env e conn u a]
    calm_show_cursor[of s env e conn u a]
  by (auto simp: handle_mouse_def Let_def intro: calm_trans)

lemma release_record_key_X11:
  assumes "ie_platform env = X11"
  shows "held_keys (release_record_key env r s) = held_keys s - set_option (record_key r)"
    and "is_keys_down (release_record_key env r s) = is_keys_down s"
    and "is_exiting (release_record_key env r s) = is_exiting s"
  using assms by (cases r; auto simp: release_record_key_def simulate_raw_def key_up_def record_key.simps split: option.split)+

definition release_old :: "input_env \<Rightarrow> bool \<Rightarrow> keys_down \<times> int \<Rightarrow> input_state \<Rightarrow> input_state" where
  "release_old env force = (\<lambda>(r, t) s.
     if force \<or> ie_now env - t \<ge> 360000 then release_record_key env r (record_pressed_key env r False s) else s)"

lemma fix_key_down_timeout_fold: "fix_key_down_timeout env force s = fold (release_old env force) (is_keys_down s) s"
  by (simp add: fix_key_down_timeout_def release_old_def)

lemma release_old_fold:
  assumes "ie_platform env = X11" "held_within {} s"
  shows "held_within {} (fold (release_old env force) rs s) \<and>
    is_exiting (fold (release_old env force) rs s) = is_exiting s \<and>
    held_keys (fold (release_old env force) rs s) \<subseteq> held_keys s \<and>
    set (is_keys_down (fold (release_old env force) rs s)) =
      {(r, t) \<in> set (is_keys_down s). \<not> (\<exists>t'. (r, t') \<in> set rs \<and> (force \<or> ie_now env - t' \<ge> 360000))}"
  using assms(2)
proof (induction rs arbitrary: s)
  case (Cons x rs)
  obtain r t where x: "x = (r, t)"
    by fastforce
  let ?s1 = "release_old env force x s"
  have w: "held_within {} ?s1"
    using Cons.prems held_within_release[OF Cons.prems(1), of ?s1 r env] release_record_key_X11[OF assms(1)]
    by (auto simp: release_old_def x)
  have ex: "is_exiting ?s1 = is_exiting s" and hl: "held_keys ?s1 \<subseteq> held_keys s"
    using release_record_key_X11[OF assms(1)] by (auto simp: release_old_def x)
  have kd: "set (is_keys_down ?s1) = {(r', t') \<in> set (is_keys_down s). \<not> (r' = r \<and> (force \<or> ie_now env - t \<ge> 360000))}"
    using release_record_key_X11[OF assms(1)] by (auto simp: release_old_def x record_pressed_key_def)
  show ?case
    using Cons.IH[OF w] ex hl kd x by auto
qed simp

section \<open>The whole host\<close>

definition key_inv :: "input_state \<Rightarrow> bool" where
  "key_inv s \<longleftrightarrow> held_within {} s \<and> (is_exiting s \<longrightarrow> held_keys s = {})"

fun plain_op :: "input_op \<Rightarrow> bool" where
  "plain_op (KeyStep e _) = plain_key e"
| "plain_op _ = True"

definition plain_run :: "(input_env \<times> input_op) list \<Rightarrow> bool" where
  "plain_run ops = list_all (\<lambda>(env, op). ie_platform env = X11 \<and> plain_op op) ops"

lemma calm_key_inv: "\<lbrakk>calm s s'; key_inv s\<rbrakk> \<Longrightarrow> key_inv s'"
  using calm_held_within[of s s' "{}"] by (auto simp: key_inv_def calm_def)

lemma exiting_key: "is_exiting s \<Longrightarrow> handle_key env e s = s"
  by (simp add: handle_key_def)

lemma sync_exiting: "ie_platform env = X11 \<Longrightarrow> is_exiting (snd (sync_modifiers env e s)) = is_exiting s"
  using press_modifiers_held[of env "ik_modifiers e" "fix_modifiers env (ik_modifiers e) (get_control_key_value e) s"]
    calm_modifiers(1)[of s env "ik_modifiers e" "get_control_key_value e"]
  by (cases "press_modifiers env (ik_modifiers e) (fix_modifiers env (ik_modifiers e) (get_control_key_value e) s)")
    (auto simp: sync_modifiers_def calm_def)

lemma key_exiting [simp]:
  "is_exiting (key_up env k s) = is_exiting s" "is_exiting (key_down env k s) = is_exiting s"
  "is_exiting (key_sequence env t s) = is_exiting s" "is_exiting (release_keys env ks s) = is_exiting s"
  "is_exiting (release_shift_for_char_input env s) = is_exiting s" "is_exiting (spawn_function_key env v s) = is_exiting s"
  "is_exiting (process_control_key env v down s) = is_exiting s" "is_exiting (simulate_raw env ev s) = is_exiting s"
  using calm_modifiers(3)[of s env ks] calm_shift[of s env]
  by (auto simp: key_up_def key_down_def key_sequence_def calm_def spawn_function_key_def process_control_key_def simulate_raw_def
      split: option.split)

lemma mode_exiting:
  assumes "ie_platform env = X11"
  shows "is_exiting (keyboard_mode_keys env e s) = is_exiting s"
proof -
  have m: "is_exiting (map_keyboard_mode env e s) = is_exiting s" for s
    using assms by (simp add: map_keyboard_mode_def is_wayland_def sim_rdev_rawkey_position_def)
  have "calm s (fold (\<lambda>c. key_click env (KLayout c)) cs (release_shift_for_char_input env s))" for cs s
    using calm_trans[OF calm_shift calm_fold[where f = "\<lambda>c. key_click env (KLayout c)"]] by (simp add: calms)
  then have t: "is_exiting (translate_keyboard_mode env e s) = is_exiting s" for s
    using assms m by (auto simp: translate_keyboard_mode_def translate_seq_def calm_def split: option.split key_union.split)
  have l: "is_exiting (legacy_keyboard_mode env e s) = is_exiting s" for s
    using assms sync_exiting[OF assms, of e s]
    by (cases "sync_modifiers env e s")
      (simp add: legacy_keyboard_mode_def Let_def process_chr_def process_unicode_def process_seq_def split: option.split key_union.split)
  show ?thesis
    using assms m t l by (simp add: keyboard_mode_keys_def set_last_legacy_mode_def split: enum_or_unknown.split keyboard_mode.split)
qed

lemma handle_key_exiting:
  assumes "ie_platform env = X11"
  shows "is_exiting (handle_key env e s) = is_exiting s"
proof -
  obtain h s1 where lm: "lock_mode_handler env e s = (h, s1)"
    by fastforce
  have "is_exiting s1 = is_exiting s"
    using calm_lock_modes(1)[of env s e] assms lm by (simp add: calm_def)
  moreover have "is_exiting (drop_lock_modes env h' t) = is_exiting t" for h' t
    using calm_lock_modes(2)[of env t h'] assms by (simp add: calm_def)
  ultimately show ?thesis
    using mode_exiting[OF assms, of e s1] lm by (simp add: handle_key_def Let_def split: option.split)
qed

lemma handle_key_inv: "\<lbrakk>key_inv s; ie_platform env = X11; plain_key e\<rbrakk> \<Longrightarrow> key_inv (handle_key env e s)"
  using handle_key_within[of s env e] handle_key_exiting[of env e s] by (auto simp: key_inv_def exiting_key)

lemma key_message_inv:
  assumes "key_inv s" "ie_platform env = X11" "plain_key e"
  shows "key_inv (handle_key_message env e press s)"
proof -
  have "plain_key (e\<lparr>ke_press := p, ke_down := d\<rparr>)" "plain_key (e\<lparr>ke_press := p\<rparr>)" for p d
    using assms(3) by (auto simp: plain_key_def split: option.splits key_union.splits)
  then show ?thesis
    using handle_key_inv[OF _ assms(2)] assms(1) by (simp add: handle_key_message_def Let_def)
qed

lemma fix_timeout_inv:
  assumes "key_inv s" "ie_platform env = X11"
  shows "key_inv (fix_key_down_timeout env force s)"
  using release_old_fold[OF assms(2), of s force "is_keys_down s"] assms(1)
  by (auto simp: key_inv_def fix_key_down_timeout_fold)

lemma exit_inv:
  assumes "key_inv s" "ie_platform env = X11"
  shows "key_inv (fix_key_down_timeout_at_exit env s)" "held_keys (fix_key_down_timeout_at_exit env s) = {}"
proof -
  let ?s1 = "s\<lparr>is_exiting := True\<rparr>"
  have "held_within {} ?s1"
    using assms(1) by (simp add: key_inv_def held_within_def held_keys_def recorded_keys_def)
  from release_old_fold[OF assms(2) this, of True "is_keys_down s"]
  have "recorded_keys (fix_key_down_timeout env True ?s1) = {}" "held_within {} (fix_key_down_timeout env True ?s1)"
    by (auto simp: fix_key_down_timeout_fold recorded_keys_def)
  then show empty: "held_keys (fix_key_down_timeout_at_exit env s) = {}"
    using assms(1) by (auto simp: fix_key_down_timeout_at_exit_def key_inv_def held_within_def)
  then show "key_inv (fix_key_down_timeout_at_exit env s)"
    by (simp add: key_inv_def held_within_def)
qed

lemma input_step_inv:
  assumes "key_inv s" "ie_platform env = X11" "plain_op op"
  shows "key_inv (input_step env op s)"
proof (cases op)
  case (MouseStep e conn u a sim disp)
  then show ?thesis
    using calm_key_inv[OF handle_mouse_calm assms(1)] assms(2) by simp
next
  case (KeyStep e press)
  then show ?thesis
    using key_message_inv[OF assms(1,2)] assms(3) by simp
next
  case LockStep
  have "plain_key \<lparr>ke_down = d, ke_press = False, ke_union = Some (Chr 108), ke_mode = Known Legacy, ik_modifiers = [23]\<rparr>" for d
    by (simp add: plain_key_def)
  with LockStep show ?thesis
    using handle_key_inv[OF _ assms(2)] assms(1,2) by (simp add: lock_screen_def Let_def)
next
  case (ConnClosed conn)
  have "calm s (set_relative_mouse_active conn False s)"
    by (simp add: calm_def set_relative_mouse_active_def held_keys_def)
  with ConnClosed show ?thesis
    using calm_key_inv assms(1) by simp
next
  case (ClipboardText t)
  with assms show ?thesis
    by (simp add: is_recent_wayland_clipboard_input_def)
next
  case ReleaseModifiers
  then show ?thesis
    using calm_key_inv[OF calm_modifiers(2) assms(1)] by simp
next
  case ThreadEnd
  have "calm s (dev_emit env ClearRemapped s)"
    by (simp add: calm_def)
  with ThreadEnd show ?thesis
    using calm_key_inv assms(1,2) by (simp add: clear_remapped_keycode_def)
qed (use assms fix_timeout_inv exit_inv in \<open>simp_all add: reset_input_def\<close>)

lemma run_inputs_inv: "\<lbrakk>key_inv s; plain_run ops\<rbrakk> \<Longrightarrow> key_inv (run_inputs ops s)"
proof (induction ops arbitrary: s)
  case (Cons x ops)
  then show ?case
    using input_step_inv[of s "fst x" "snd x"] by (auto simp: run_inputs_def plain_run_def)
qed (simp add: run_inputs_def)

lemma key_inv_init: "key_inv input_init"
  by (simp add: key_inv_def held_within_def held_keys_def input_init_def)

lemma fix_timeout_exiting:
  assumes "key_inv s" "ie_platform env = X11"
  shows "is_exiting (fix_key_down_timeout env force s) = is_exiting s"
  using release_old_fold[OF assms(2), of s force "is_keys_down s"] assms(1) by (auto simp: key_inv_def fix_key_down_timeout_fold)

lemma exit_exiting:
  assumes "key_inv s" "ie_platform env = X11"
  shows "is_exiting (fix_key_down_timeout_at_exit env s)"
proof -
  have "held_within {} (s\<lparr>is_exiting := True\<rparr>)"
    using assms(1) by (simp add: key_inv_def held_within_def held_keys_def recorded_keys_def)
  from release_old_fold[OF assms(2) this, of True "is_keys_down s"] show ?thesis
    by (simp add: fix_key_down_timeout_at_exit_def fix_key_down_timeout_fold)
qed

text \<open>The exit is never taken back.\<close>

lemma input_step_exiting:
  assumes "is_exiting s" "key_inv s" "ie_platform env = X11"
  shows "is_exiting (input_step env op s)"
proof (cases op)
  case (MouseStep e conn u a sim disp)
  then show ?thesis
    using handle_mouse_calm[of env s e conn u a sim disp] assms by (simp add: calm_def)
next
  case ReleaseModifiers
  then show ?thesis
    using calm_modifiers(2)[of s env] assms by (simp add: calm_def)
qed (use assms exit_exiting fix_timeout_exiting in \<open>simp_all add: handle_key_message_def Let_def lock_screen_def exiting_key reset_input_def
      clear_remapped_keycode_def set_relative_mouse_active_def is_recent_wayland_clipboard_input_def\<close>)

lemma run_exiting: "\<lbrakk>is_exiting s; key_inv s; plain_run ops\<rbrakk> \<Longrightarrow> is_exiting (run_inputs ops s)"
proof (induction ops arbitrary: s)
  case (Cons x ops)
  then show ?case
    using input_step_inv[of s "fst x" "snd x"] input_step_exiting[of s "fst x" "snd x"] by (auto simp: run_inputs_def plain_run_def)
qed (simp add: run_inputs_def)

section \<open>What the input service guarantees\<close>

text \<open>(C12) On X11, once the host has exited through its handler, no key is held that a peer's events pressed before, keys
  of every mode, keys inside clicks of the mouse and the lock of the screen, and none that comes after presses a key again,
  under two conditions. First, the events are plain: a control key is a number below 9999, and one that locks the screen or
  sends Ctrl-Alt-Del carries no modifiers; with modifiers these are pressed and neither recorded nor released
  (\<open>function_key_leaves_modifiers\<close>). Second, an event is handled before the exit begins or after it: the test of \<open>EXITING\<close>
  and the press are one step here, and an event that has passed the test when the exit runs presses its key after the
  release (\<open>in_flight_key_stays\<close>).\<close>

theorem keys_released_at_exit:
  assumes "plain_run ops" "plain_run ops'" "ie_platform env = X11"
  shows "held_keys (run_inputs (ops @ (env, ExitStep) # ops') input_init) = {}"
proof -
  let ?s = "run_inputs ops input_init" and ?t = "run_inputs (ops @ (env, ExitStep) # ops') input_init"
  have t: "?t = run_inputs ops' (fix_key_down_timeout_at_exit env ?s)"
    by (simp add: run_inputs_def)
  have inv: "key_inv ?s"
    by (rule run_inputs_inv[OF key_inv_init assms(1)])
  note ex = exit_inv[OF inv assms(3)]
  have "is_exiting (fix_key_down_timeout_at_exit env ?s)"
    by (rule exit_exiting[OF inv assms(3)])
  then have "is_exiting ?t"
    unfolding t by (rule run_exiting[OF _ ex(1) assms(2)])
  moreover have "key_inv ?t"
    unfolding t by (rule run_inputs_inv[OF ex(1) assms(2)])
  ultimately show ?thesis
    by (simp add: key_inv_def)
qed

definition input_sample_env :: "platform \<Rightarrow> int \<Rightarrow> input_env" where
  "input_sample_env p now = \<lparr>ie_platform = p, ie_now = now,
     ie_state = (\<lambda>evs k. ByEnigo k \<in> fold (\<lambda>(_, ev). held_step ev) evs {}), ie_key_ok = (\<lambda>_. True), ie_virtual = True, ie_caps_code = 57,
     ie_key_code = unat, ie_clip_ok = True, ie_upper = id, ie_led_class = (\<lambda>_. LedOther), ie_cursor = None\<rparr>"

definition input_sample_key :: "keyboard_mode \<Rightarrow> key_union \<Rightarrow> bool \<Rightarrow> int list \<Rightarrow> input_key" where
  "input_sample_key m u down mods = \<lparr>ke_down = down, ke_press = False, ke_union = Some u, ke_mode = Known m, ik_modifiers = mods\<rparr>"

theorem keys_released_at_exit_witness:
  "held_keys (run_inputs [(input_sample_env X11 5, KeyStep (input_sample_key MapMode (Chr 38) True []) False)] input_init) = {ByRdev 38} \<and>
   held_keys (run_inputs ([(input_sample_env X11 5, KeyStep (input_sample_key MapMode (Chr 38) True []) False)] @
      (input_sample_env X11 9, ExitStep) # [(input_sample_env X11 10, KeyStep (input_sample_key MapMode (Chr 38) True []) False)]) input_init) = {}"
proof
  show "held_keys (run_inputs [(input_sample_env X11 5, KeyStep (input_sample_key MapMode (Chr 38) True []) False)] input_init) = {ByRdev 38}"
    by code_simp
  show "held_keys (run_inputs ([(input_sample_env X11 5, KeyStep (input_sample_key MapMode (Chr 38) True []) False)] @
      (input_sample_env X11 9, ExitStep) # [(input_sample_env X11 10, KeyStep (input_sample_key MapMode (Chr 38) True []) False)]) input_init) = {}"
    by (rule keys_released_at_exit) (simp_all add: plain_run_def plain_key_def input_sample_key_def input_sample_env_def)
qed

text \<open>(C36) On X11, if a peer's events are plain, that is, its control keys have numbers below 9999 and those that lock the
  screen or send Ctrl-Alt-Del carry no modifiers (such modifiers stay down without a record, \<open>function_key_leaves_modifiers\<close>),
  and each event is handled before or after the periodic check and not during it, then after the check every key still held
  has a record that was made less than six minutes ago: a plain key whose release never came does not stay down.\<close>

theorem stale_keys_released:
  assumes "plain_run ops" "ie_platform env = X11"
    and "k \<in> held_keys (run_inputs (ops @ [(env, TimeoutStep)]) input_init)"
  shows "\<exists>r t. (r, t) \<in> set (is_keys_down (run_inputs (ops @ [(env, TimeoutStep)]) input_init)) \<and> record_key r = Some k \<and>
    ie_now env - t < 360000"
proof -
  let ?s = "run_inputs ops input_init" and ?t = "run_inputs (ops @ [(env, TimeoutStep)]) input_init"
  have t: "?t = fix_key_down_timeout env False ?s"
    by (simp add: run_inputs_def)
  have inv: "key_inv ?s"
    by (rule run_inputs_inv[OF key_inv_init assms(1)])
  then have w: "held_within {} ?s"
    by (simp add: key_inv_def)
  note fold = release_old_fold[OF assms(2) w, of False "is_keys_down ?s", folded fix_key_down_timeout_fold, folded t]
  obtain r u where r: "(r, u) \<in> set (is_keys_down ?t)" "record_key r = Some k"
    using assms(3) fold by (auto simp: held_within_def recorded_keys_def)
  then have "ie_now env - u < 360000"
    using fold by force
  with r show ?thesis
    by blast
qed

theorem stale_keys_released_witness:
  "\<exists>r t. (r, t) \<in> set (is_keys_down (run_inputs ([(input_sample_env X11 5, KeyStep (input_sample_key MapMode (Chr 38) True []) False)] @
      [(input_sample_env X11 9, TimeoutStep)]) input_init)) \<and> record_key r = Some (ByRdev 38) \<and> ie_now (input_sample_env X11 9) - t < 360000"
proof (rule stale_keys_released)
  show "ByRdev 38 \<in> held_keys (run_inputs ([(input_sample_env X11 5, KeyStep (input_sample_key MapMode (Chr 38) True []) False)] @
      [(input_sample_env X11 9, TimeoutStep)]) input_init)"
    by code_simp
qed (simp_all add: plain_run_def plain_key_def input_sample_key_def input_sample_env_def)

section \<open>Keys that get stuck\<close>

text \<open>The steps that are to release what a peer left behind.\<close>

definition is_release_op :: "input_op \<Rightarrow> bool" where
  "is_release_op op \<longleftrightarrow> op \<in> {TimeoutStep, CursorReset, ThreadEnd, ExitStep}"

lemma release_ops_no_records:
  "\<lbrakk>is_keys_down s = []; list_all (\<lambda>(_, op). is_release_op op) ops\<rbrakk> \<Longrightarrow> held_keys (run_inputs ops s) = held_keys s"
proof (induction ops arbitrary: s)
  case (Cons x ops)
  obtain env op where x: "x = (env, op)"
    by fastforce
  have "is_keys_down (input_step env op s) = [] \<and> held_keys (input_step env op s) = held_keys s"
    using Cons.prems x by (auto simp: is_release_op_def fix_key_down_timeout_def fix_key_down_timeout_at_exit_def
        clear_remapped_keycode_def held_keys_cong[of "s\<lparr>is_exiting := True\<rparr>" s] split: if_splits)
  then show ?case
    using Cons x by (simp add: run_inputs_def)
qed (simp add: run_inputs_def)

lemma key_click_other: "k \<noteq> k' \<Longrightarrow> ByEnigo k \<in> held_keys (key_click env k' s) \<longleftrightarrow> ByEnigo k \<in> held_keys s"
  by (simp add: key_click_def key_up_def key_down_def)

text \<open>(C37) On Wayland, with either backend, a key pressed by its code is not recorded: when its release never comes, neither the
  periodic check, nor the end of the connection, nor the exit of the host releases it, in contrast to X11.\<close>

theorem wayland_keys_stay_down:
  assumes "is_wayland (ie_platform env)" "ie_key_ok env (KRaw (unat c mod 65536))" "list_all (\<lambda>(_, op). is_release_op op) ops"
  shows "ByEnigo (KRaw (unat c mod 65536)) \<in>
    held_keys (run_inputs ((env, KeyStep (input_sample_key MapMode (Chr c) True mods) False) # ops) input_init)"
proof -
  let ?e = "input_sample_key MapMode (Chr c) True mods\<lparr>ke_press := False\<rparr>" and ?k = "KRaw (unat c mod 65536)"
  let ?s = "handle_key env ?e input_init"
  have p: "ie_platform env \<noteq> MacOs"
    using assms(1) by (auto simp: is_wayland_def)
  obtain h s1 where lm: "lock_mode_handler env ?e input_init = (h, s1)"
    by fastforce
  have mode: "keyboard_mode_keys env ?e s1 = key_down env ?k s1"
    using assms(1) p by (simp add: keyboard_mode_keys_def input_sample_key_def map_keyboard_mode_def wayland_send_raw_key_def event_chr_def
        set_last_legacy_mode_def Let_def)
  have drop: "ByEnigo ?k \<in> held_keys t \<Longrightarrow> ByEnigo ?k \<in> held_keys (drop_lock_modes env h' t)" for h' t
    by (simp add: drop_lock_modes_def Let_def key_click_other)
  have kd: "is_keys_down (drop_lock_modes env h' t) = is_keys_down t" for h' t
    using calm_lock_modes(2)[OF p, of t h'] by (simp add: calm_def)
  have "is_keys_down s1 = []"
    using calm_lock_modes(1)[OF p, of input_init ?e] lm by (simp add: calm_def input_init_def)
  then have "is_keys_down ?s = []" "ByEnigo ?k \<in> held_keys ?s"
    using lm mode drop kd assms(2) by (auto simp: handle_key_def Let_def key_down_def input_init_def split: option.split)
  moreover have "run_inputs ((env, KeyStep (input_sample_key MapMode (Chr c) True mods) False) # ops) input_init = run_inputs ops ?s"
    by (simp add: run_inputs_def handle_key_message_def)
  ultimately show ?thesis
    using release_ops_no_records[OF _ assms(3)] by simp
qed

theorem wayland_keys_stay_down_witness:
  "ByEnigo (KRaw (unat (38 :: u32) mod 65536)) \<in>
    held_keys (run_inputs ((input_sample_env Portal 5, KeyStep (input_sample_key MapMode (Chr 38) True []) False) #
      [(input_sample_env Portal 500000, TimeoutStep), (input_sample_env Portal 500001, CursorReset), (input_sample_env Portal 500002, ExitStep)]) input_init)"
  by (rule wayland_keys_stay_down) (simp_all add: is_wayland_def input_sample_env_def is_release_op_def)

lemma fold_fixed: "\<lbrakk>\<And>x. x \<in> set xs \<Longrightarrow> f x s = s\<rbrakk> \<Longrightarrow> fold f xs s = s"
  by (induction xs) auto

text \<open>On X11, the modifiers pressed for a key that locks the screen stay down: the handler returns before it releases them.\<close>

lemma function_key_leaves_modifiers:
  assumes "ie_platform env = X11" "ie_key_ok env KControl" "\<And>evs k. ie_state env evs k = (ByEnigo k \<in> fold (\<lambda>(_, ev). held_step ev) evs {})"
  defines "s \<equiv> legacy_keyboard_mode env (input_sample_key Legacy (ControlKey 101) True [4]) input_init"
  shows "ByEnigo KControl \<in> held_keys s" "is_keys_down s = []"
proof -
  have "\<not> get_key_state env k input_init" for k
    by (simp add: get_key_state_def assms(3) input_init_def)
  then have no: "\<not> get_modifier_state env k input_init" for k
    by (simp add: get_modifier_state_def split: ekey.split)
  have unfixed: "fix_modifiers env mods ck input_init = input_init" for mods ck
    unfolding fix_modifiers_def by (rule fold_fixed) (auto simp: fix_modifier_def no)
  have "sync_modifiers env (input_sample_key Legacy (ControlKey 101) True [4]) input_init = ([KControl], key_down env KControl input_init)"
    using assms(1) no by (simp add: sync_modifiers_def input_sample_key_def unfixed control_key_value_to_key_def)
  then have "s = spawn_function_key env 101 (key_down env KControl input_init)"
    by (simp add: s_def legacy_keyboard_mode_def input_sample_key_def is_function_key_def)
  then show "ByEnigo KControl \<in> held_keys s" "is_keys_down s = []"
    using assms(2) by (simp_all add: spawn_function_key_def key_down_def input_init_def)
qed

text \<open>An event that passed the test of \<open>EXITING\<close> before the exit and presses its key after the release of the recorded keys:
  the key stays down.\<close>

lemma in_flight_key_stays:
  "held_keys (handle_key (input_sample_env X11 9) (input_sample_key MapMode (Chr 38) True [])
     ((fix_key_down_timeout_at_exit (input_sample_env X11 8) input_init)\<lparr>is_exiting := False\<rparr>)) = {ByRdev 38}"
  by code_simp

text \<open>On macOS, a letter whose modifier is released first is never released itself, and its record is gone.\<close>

lemma process_chr_macos_up:
  "ie_platform env = MacOs \<Longrightarrow> process_chr env chr False False s = s"
  by (simp add: process_chr_def)

lemma macos_hotkey_letter_stuck:
  fixes c :: u32
  assumes "ie_platform env = MacOs" "ie_key_ok env (char_value_to_key (unat c))"
  defines "r \<equiv> EnigoKey (char_record (unat c))"
  defines "s \<equiv> process_chr env (unat c) False False (record_pressed_key env r False
     (process_chr env (unat c) True True (record_pressed_key env r True input_init)))"
  shows "ByEnigo (char_value_to_key (unat c)) \<in> held_keys s" "is_keys_down s = []"
  using assms(1,2) by (auto simp: s_def process_chr_def Let_def key_down_def record_pressed_key_def input_init_def dev_emit_def held_keys_def)

text \<open>The key code 75, a function key of X11, is taken for the right Alt key: while it is down, Alt is not pressed for a key.\<close>

lemma altgr_by_key_number: "is_altgr_pressed (sim_rdev_rawkey_position env c True s) \<longleftrightarrow> c = 75 \<or> is_altgr_pressed s"
  by (auto simp: is_altgr_pressed_def sim_rdev_rawkey_position_def simulate_raw_def record_pressed_key_def image_iff Bex_def)

section \<open>Text through the clipboard\<close>

lemma base64_digits:
  fixes v :: nat
  shows "\<lbrakk>v = x * 64 + d; x = y * 64 + c; y = a * 64 + b\<rbrakk> \<Longrightarrow>
    y * 4096 + c * 64 + d = v \<and> a * 262144 + b * 4096 + c * 64 + d = v"
  by simp

lemma chars_of_utf8_char:
  assumes "v < 1114112"
  shows "chars_of_utf8 (utf8_of_char v @ bs) = v # chars_of_utf8 bs"
proof -
  have q: "v div 64 div 64 = v div 4096" "v div 4096 div 64 = v div 262144"
    by (simp_all flip: div_mult2_eq)
  have e1: "v div 64 * 64 + v mod 64 = v"
    by (rule div_mult_mod_eq)
  have e: "v div 4096 * 4096 + v div 64 mod 64 * 64 + v mod 64 = v \<and>
      v div 262144 * 262144 + v div 4096 mod 64 * 4096 + v div 64 mod 64 * 64 + v mod 64 = v"
    by (rule base64_digits[OF e1[symmetric] div_mult_mod_eq[of "v div 64" 64, symmetric, unfolded q]
          div_mult_mod_eq[of "v div 4096" 64, symmetric, unfolded q]])
  have lt: "v < 2048 \<Longrightarrow> v div 64 < 32" "v < 65536 \<Longrightarrow> v div 4096 < 16"
    by (simp_all add: less_mult_imp_div_less)
  show ?thesis
    using lt e1 e by (auto simp: utf8_of_char_def)
qed

lemma utf8_bytes: "v < 1114112 \<Longrightarrow> b \<in> set (utf8_of_char v) \<Longrightarrow> b < 256"
  by (auto simp: utf8_of_char_def split: if_splits)

text \<open>A character is one character of its text.\<close>

lemma string_chars_char_string: "is_scalar v \<Longrightarrow> string_chars (char_string v) = [v]"
proof -
  assume "is_scalar v"
  then have v: "v < 1114112"
    by (auto simp: is_scalar_def)
  have "map (of_char \<circ> char_of) (utf8_of_char v) = utf8_of_char v"
    by (rule map_idI) (use utf8_bytes[OF v] in auto)
  then show ?thesis
    using chars_of_utf8_char[OF v, of "[]"] by (simp add: string_chars_def char_string_def)
qed

lemma cleanup_bounds: "length (cleanup_wayland_clipboard_input_records now rs) \<le> 256"
  by (simp add: cleanup_wayland_clipboard_input_records_def Let_def WAYLAND_CLIPBOARD_INPUT_MAX_RECORDS_def)

lemma record_bounds:
  assumes "record_wayland_clipboard_input env t s = (Some r, s')"
  shows "length (is_clip_records s') \<le> 257" "length (snd r) \<le> 1024" "is_clip_records s' \<noteq> []" "List.last (is_clip_records s') = r"
  using assms cleanup_bounds[of "ie_now env" "is_clip_records s"]
  by (auto simp: record_wayland_clipboard_input_def get_wayland_clipboard_input_normalized_text_def Let_def
      WAYLAND_CLIPBOARD_INPUT_MAX_TEXT_CHARS_def split: if_splits)

text \<open>Text that was typed through the clipboard is known as such for a second, so that it is not sent back to the peer.\<close>

lemma recorded_text_is_recent:
  assumes "record_wayland_clipboard_input env t s = (Some r, s')" "ie_platform env' \<noteq> X11" "ie_now env' - ie_now env \<le> 1000"
  shows "fst (is_recent_wayland_clipboard_input env' t s')"
proof -
  let ?c = "cleanup_wayland_clipboard_input_records (ie_now env) (is_clip_records s)"
  obtain n where n: "get_wayland_clipboard_input_normalized_text t = Some n" "t \<noteq> []" "is_clip_records s' = ?c @ [(ie_now env, n)]"
    using assms(1) by (auto simp: record_wayland_clipboard_input_def split: if_splits option.splits)
  have "(ie_now env, n) \<in> set (cleanup_wayland_clipboard_input_records (ie_now env') (?c @ [(ie_now env, n)]))"
    using assms(3) by (simp add: cleanup_wayland_clipboard_input_records_def Let_def WAYLAND_CLIPBOARD_INPUT_FILTER_WINDOW_def
        WAYLAND_CLIPBOARD_INPUT_MAX_RECORDS_def)
  then show ?thesis
    using n assms(2) by (force simp: is_recent_wayland_clipboard_input_def Let_def list_ex_iff)
qed

text \<open>Relative moves of the mouse are clamped.\<close>

lemma relative_move_clamped:
  assumes "is_events (mouse_action env e conn s) = is_events s @ evs" "(t, MouseBy dx dy) \<in> set evs"
  shows "\<bar>dx\<bar> \<le> 10000 \<and> \<bar>dy\<bar> \<le> 10000"
  using assms by (auto simp: mouse_action_def mouse_scroll_def Let_def dev_emit_def set_relative_mouse_active_def clamp_int_def
      MAX_RELATIVE_MOUSE_DELTA_def split: if_splits option.splits)

end
