(* ===== verification/TerminalBuffer.thy ===== *)
theory TerminalBuffer
  imports Prelude
begin

text \<open>
  The output of a terminal on its way to the client, \<^verbatim>\<open>src/server/terminal_service.rs\<close>: the buffer that keeps
  the recent output for a reconnection (\<open>OutputBuffer\<close>), and the accumulator that keeps the bytes of one
  character together (\<open>find_utf8_split_point\<close>, \<open>Utf8ChunkAccumulator\<close>). The buffer is compared with a
  reference: a history of bytes, cut into lines, whose oldest lines are dropped.
\<close>

unbundle bit_operations_syntax

section \<open>The output buffer\<close>

definition MAX_OUTPUT_BUFFER_SIZE :: nat where "MAX_OUTPUT_BUFFER_SIZE = 1024 * 1024"
definition MAX_BUFFER_LINES :: nat where "MAX_BUFFER_LINES = 10000"

record output_buffer =
  ob_lines :: "bytes list"
  ob_total_size :: nat
  ob_last_line_incomplete :: bool

definition ob_new :: output_buffer where
  "ob_new = \<lparr>ob_lines = [], ob_total_size = 0, ob_last_line_incomplete = False\<rparr>"

abbreviation newline :: u8 where "newline \<equiv> 10"

definition push_line :: "bytes \<Rightarrow> output_buffer \<Rightarrow> output_buffer" where
  "push_line l b = b\<lparr>ob_total_size := ob_total_size b + length l, ob_lines := ob_lines b @ [l]\<rparr>"

text \<open>The loop over the pieces between newlines; the last piece is told apart.\<close>

fun push_lines :: "bool \<Rightarrow> bytes list \<Rightarrow> output_buffer \<Rightarrow> output_buffer" where
  "push_lines ends_nl [] b = b"
| "push_lines ends_nl [line] b =
     (let b = (if \<not> ends_nl \<and> line \<noteq> [] then b\<lparr>ob_last_line_incomplete := True\<rparr> else b)
      in if line \<noteq> [] then push_line (if ends_nl then line @ [newline] else line) b else b)"
| "push_lines ends_nl (line # next # lines) b = push_lines ends_nl (next # lines) (push_line (line @ [newline]) b)"

function ob_trim :: "output_buffer \<Rightarrow> output_buffer" where
  "ob_trim b =
     (if ob_total_size b > MAX_OUTPUT_BUFFER_SIZE \<or> length (ob_lines b) > MAX_BUFFER_LINES then
        (case ob_lines b of
           [] \<Rightarrow> b\<lparr>ob_total_size := 0, ob_last_line_incomplete := False\<rparr>
         | removed # ls \<Rightarrow>
             ob_trim (b\<lparr>ob_lines := ls,
               ob_total_size := (if length removed > ob_total_size b then sum_list (map length ls) else ob_total_size b - length removed),
               ob_last_line_incomplete := (if ls = [] then False else ob_last_line_incomplete b)\<rparr>))
      else b)"
  by pat_completeness auto
termination
  by (relation "measure (\<lambda>b. length (ob_lines b))") auto

declare ob_trim.simps [simp del]

definition extend_last :: "bytes \<Rightarrow> output_buffer \<Rightarrow> output_buffer" where
  "extend_last d b = b\<lparr>ob_lines := butlast (ob_lines b) @ [last (ob_lines b) @ d], ob_total_size := ob_total_size b + length d\<rparr>"

definition ob_append_rest :: "bytes \<Rightarrow> output_buffer \<Rightarrow> output_buffer" where
  "ob_append_rest remaining b =
     ob_trim (push_lines (remaining \<noteq> [] \<and> last remaining = newline) (split_on (\<lambda>x. x = newline) remaining) b)"

definition ob_append :: "output_buffer \<Rightarrow> bytes \<Rightarrow> output_buffer" where
  "ob_append b data =
     (if data = [] then b
      else if ob_last_line_incomplete b \<and> ob_lines b \<noteq> [] then
        (if newline \<in> set data then
           (let n = length (takeWhile (\<lambda>x. x \<noteq> newline) data) + 1
            in ob_append_rest (drop n data) ((extend_last (take n data) b)\<lparr>ob_last_line_incomplete := False\<rparr>))
         else extend_last data b)
      else ob_append_rest data b)"

text \<open>A byte that continues a character.\<close>

definition is_cont :: "u8 \<Rightarrow> bool" where
  "is_cont b \<longleftrightarrow> b AND 0xC0 = 0x80"

fun skip_cont :: "nat \<Rightarrow> bytes \<Rightarrow> bytes" where
  "skip_cont 0 d = d"
| "skip_cont (Suc n) [] = []"
| "skip_cont (Suc n) (b # d) = (if is_cont b then skip_cont n d else b # d)"

text \<open>The chunks to send, newest first.\<close>

fun recent_chunks :: "nat \<Rightarrow> nat \<Rightarrow> bytes list \<Rightarrow> bytes list" where
  "recent_chunks max_bytes sz [] = []"
| "recent_chunks max_bytes sz (line # ls) =
     (if sz + length line > max_bytes then
        (if sz = 0 \<and> length line > max_bytes then
           (let tail = skip_cont 3 (drop (length line - max_bytes) line) in if tail \<noteq> [] then [tail] else [])
         else [])
      else line # recent_chunks max_bytes (sz + length line) ls)"

definition get_recent :: "output_buffer \<Rightarrow> nat \<Rightarrow> bytes" where
  "get_recent b max_bytes = (if max_bytes = 0 then [] else concat (rev (recent_chunks max_bytes 0 (rev (ob_lines b)))))"

section \<open>The reference\<close>

text \<open>A history cut after each newline, and the history after its oldest lines have been dropped.\<close>

fun lines_of :: "bytes \<Rightarrow> bytes list" where
  "lines_of [] = []"
| "lines_of (x # xs) =
     (if x = newline then [x] # lines_of xs
      else case lines_of xs of [] \<Rightarrow> [[x]] | l # ls \<Rightarrow> (x # l) # ls)"

definition ob_history :: "output_buffer \<Rightarrow> bytes" where
  "ob_history b = concat (ob_lines b)"

definition of_history :: "bytes \<Rightarrow> output_buffer" where
  "of_history h = \<lparr>ob_lines = lines_of h, ob_total_size = length h, ob_last_line_incomplete = (h \<noteq> [] \<and> last h \<noteq> newline)\<rparr>"

definition ob_ok :: "output_buffer \<Rightarrow> bool" where
  "ob_ok b \<longleftrightarrow> b = of_history (ob_history b)"

fun drop_oldest :: "bytes list \<Rightarrow> bytes" where
  "drop_oldest [] = []"
| "drop_oldest (l # ls) =
     (if length (concat (l # ls)) > MAX_OUTPUT_BUFFER_SIZE \<or> length (l # ls) > MAX_BUFFER_LINES then drop_oldest ls else concat (l # ls))"

lemma concat_cut [simp]: "concat (lines_of h) = h"
  by (induction h) (auto split: list.splits)

lemma cut_eq_Nil [simp]: "lines_of h = [] \<longleftrightarrow> h = []"
  by (cases h) (auto split: list.splits)

lemma cut_plain: "newline \<notin> set l \<Longrightarrow> l \<noteq> [] \<Longrightarrow> lines_of l = [l]"
proof (induction l)
  case (Cons x l)
  then show ?case by (cases "l = []") auto
qed simp

lemma cut_line: "newline \<notin> set l \<Longrightarrow> lines_of (l @ newline # xs) = (l @ [newline]) # lines_of xs"
  by (induction l) auto

text \<open>A line end or the start of the data.\<close>

lemma cut_append: "h = [] \<or> last h = newline \<Longrightarrow> lines_of (h @ d) = lines_of h @ lines_of d"
proof (induction h)
  case (Cons x h)
  then show ?case by (cases "h = []") (auto split: list.splits)
qed simp

lemma cut_lines:
  "l \<in> set (butlast (lines_of h)) \<Longrightarrow> last l = newline"
  "h \<noteq> [] \<Longrightarrow> last (lines_of h) \<noteq> [] \<and> last (last (lines_of h)) = last h \<and> newline \<notin> set (butlast (last (lines_of h)))"
  "l \<in> set (lines_of h) \<Longrightarrow> l \<noteq> [] \<and> newline \<notin> set (butlast l)"
proof -
  show each: "l \<in> set (lines_of h) \<Longrightarrow> l \<noteq> [] \<and> newline \<notin> set (butlast l)" for l h
    by (induction h arbitrary: l) (auto split: list.splits if_splits)
  show "l \<in> set (butlast (lines_of h)) \<Longrightarrow> last l = newline" for l
  proof (induction h arbitrary: l)
    case (Cons x h)
    then show ?case using each [of "[]" h] by (cases "lines_of h") (auto split: if_splits)
  qed simp
  show "h \<noteq> [] \<Longrightarrow> last (lines_of h) \<noteq> [] \<and> last (last (lines_of h)) = last h \<and> newline \<notin> set (butlast (last (lines_of h)))"
  proof (induction h)
    case (Cons x h)
    then show ?case by (cases "h = []"; cases "lines_of h") (auto split: if_splits)
  qed simp
qed

lemma concat_drop: "concat (drop n (lines_of h)) = drop (length (concat (take n (lines_of h)))) h"
  by (metis append_eq_conv_conj append_take_drop_id concat_append concat_cut)

text \<open>What remains of a history is history again.\<close>

lemma cut_drop: "lines_of (concat (drop n (lines_of h))) = drop n (lines_of h)"
proof (induction h arbitrary: n)
  case (Cons x h)
  show ?case
  proof (cases n)
    case 0
    then show ?thesis by (simp del: lines_of.simps)
  next
    case (Suc m)
    then show ?thesis using Cons.IH [of m] Cons.IH [of n] by (cases "lines_of h") (auto split: if_splits)
  qed
qed simp

section \<open>The buffer is the reference\<close>

lemma trim_of_history:
  "ob_trim (of_history h) = of_history (drop_oldest (lines_of h))"
proof (induction "lines_of h" arbitrary: h)
  case Nil
  then have "h = []" by (metis cut_eq_Nil)
  then show ?case by (subst ob_trim.simps) (simp add: of_history_def MAX_OUTPUT_BUFFER_SIZE_def MAX_BUFFER_LINES_def)
next
  case (Cons l ls)
  have h: "lines_of h = l # ls" "h = l @ concat ls" using Cons.hyps(2) by (simp, metis concat.simps(2) concat_cut)
  let ?over = "length h > MAX_OUTPUT_BUFFER_SIZE \<or> length (lines_of h) > MAX_BUFFER_LINES"
  show ?case
  proof (cases ?over)
    case True
    have c: "lines_of (concat ls) = ls" using cut_drop [of 1 h] h(1) by simp
    have last: "last (concat ls) = last h" if "ls \<noteq> []"
      using that c h(2) by (metis cut_eq_Nil last_appendR)
    have "ob_trim (of_history h) = ob_trim (of_history (concat ls))"
    proof -
      have "concat ls = [] \<longleftrightarrow> ls = []" using c by (metis cut_eq_Nil)
      then show ?thesis using True h last c by (subst ob_trim.simps) (auto simp: of_history_def)
    qed
    also have "\<dots> = of_history (drop_oldest ls)" using Cons.hyps(1) [of "concat ls"] c by simp
    finally show ?thesis using True h by simp
  next
    case False
    then show ?thesis using h by (subst ob_trim.simps) (auto simp: of_history_def)
  qed
qed

lemma push_lines_cut:
  "push_lines (r \<noteq> [] \<and> last r = newline) (split_on (\<lambda>x. x = newline) r) b =
     b\<lparr>ob_lines := ob_lines b @ lines_of r, ob_total_size := ob_total_size b + length r,
       ob_last_line_incomplete := (ob_last_line_incomplete b \<or> r \<noteq> [] \<and> last r \<noteq> newline)\<rparr>"
proof (induction "length r" arbitrary: r b rule: less_induct)
  case less
  show ?case
  proof (cases "newline \<in> set r")
    case False
    then have "split_on (\<lambda>x. x = newline) r = [r]" "r \<noteq> [] \<Longrightarrow> last r \<noteq> newline" by (auto intro!: split_on_none dest: last_in_set)
    then show ?thesis using False by (cases "r = []") (auto simp: cut_plain push_line_def)
  next
    case True
    then obtain l xs where r: "r = l @ newline # xs" "newline \<notin> set l" using split_list_first by metis
    have "split_on (\<lambda>x. x = newline) l = [l]" using r(2) by (auto intro!: split_on_none)
    then have s: "split_on (\<lambda>x. x = newline) r = l # split_on (\<lambda>x. x = newline) xs"
      using split_on_append_sep [of "\<lambda>x. x = newline" newline l xs] r by simp
    obtain y ys where y: "split_on (\<lambda>x. x = newline) xs = y # ys" by (cases "split_on (\<lambda>x. x = newline) xs") auto
    have nl: "(r \<noteq> [] \<and> last r = newline) = (if xs = [] then True else xs \<noteq> [] \<and> last xs = newline)" using r by auto
    show ?thesis
    proof (cases "xs = []")
      case True
      then show ?thesis using r s by (simp add: push_line_def cut_plain cut_line)
    next
      case False
      then have "push_lines (r \<noteq> [] \<and> last r = newline) (split_on (\<lambda>x. x = newline) r) b =
          push_lines (xs \<noteq> [] \<and> last xs = newline) (split_on (\<lambda>x. x = newline) xs) (push_line (l @ [newline]) b)"
        using nl y by (simp add: s)
      also have "\<dots> = b\<lparr>ob_lines := ob_lines b @ lines_of r, ob_total_size := ob_total_size b + length r,
       ob_last_line_incomplete := (ob_last_line_incomplete b \<or> r \<noteq> [] \<and> last r \<noteq> newline)\<rparr>"
        using less [of xs "push_line (l @ [newline]) b"] r False by (simp add: push_line_def cut_line add.commute)
      finally show ?thesis .
    qed
  qed
qed

lemma append_rest_ok:
  assumes "b = of_history h" "h = [] \<or> last h = newline" "r \<noteq> []"
  shows "ob_append_rest r b = of_history (drop_oldest (lines_of (h @ r)))"
proof -
  have "ob_append_rest r b = ob_trim (of_history (h @ r))"
    using assms unfolding ob_append_rest_def push_lines_cut by (auto simp: of_history_def cut_append)
  then show ?thesis by (simp add: trim_of_history)
qed

lemma extend_last_ok:
  assumes "h \<noteq> []" "last h \<noteq> newline"
  shows "extend_last d (of_history h) = \<lparr>ob_lines = butlast (lines_of h) @ [last (lines_of h) @ d], ob_total_size = length (h @ d),
    ob_last_line_incomplete = True\<rparr>"
  using assms by (simp add: extend_last_def of_history_def)

lemma cut_extend:
  assumes "h \<noteq> []" "last h \<noteq> newline" "newline \<notin> set d"
  shows "lines_of (h @ d) = butlast (lines_of h) @ [last (lines_of h) @ d]"
    "lines_of (h @ d @ [newline]) = butlast (lines_of h) @ [last (lines_of h) @ d @ [newline]]"
proof -
  let ?p = "concat (butlast (lines_of h))" and ?l = "last (lines_of h)"
  have h: "h = ?p @ ?l" using assms(1) concat_cut [of h] by (metis append_butlast_last_id concat.simps(1,2) concat_append append_Nil2 cut_eq_Nil)
  note c = cut_lines(2) [OF assms(1)]
  have l: "newline \<notin> set ?l" using c assms(2) append_butlast_last_id [of ?l] by (metis Un_iff empty_iff empty_set insert_iff list.simps(15) set_append)
  have p: "?p = [] \<or> last ?p = newline"
  proof (cases "butlast (lines_of h) = []")
    case False
    then have "last ?p = last (last (butlast (lines_of h)))"
      using cut_lines(3) [of "last (butlast (lines_of h))" h] in_set_butlastD [OF last_in_set [OF False]]
      by (metis append_butlast_last_id concat.simps(1,2) concat_append append_Nil2 last_appendR)
    then show ?thesis using cut_lines(1) [OF last_in_set [OF False]] by simp
  qed simp
  have b: "lines_of ?p = butlast (lines_of h)"
    using cut_append [OF p, of ?l] cut_plain [OF l] c h by (metis butlast_snoc)
  have "?l \<noteq> []" using c by simp
  then show "lines_of (h @ d) = butlast (lines_of h) @ [?l @ d]"
    using cut_append [OF p, of "?l @ d"] cut_plain [of "?l @ d"] l assms(3) b by (subst h) simp
  show "lines_of (h @ d @ [newline]) = butlast (lines_of h) @ [?l @ d @ [newline]]"
    using cut_append [OF p, of "?l @ d @ [newline]"] cut_line [of "?l @ d" "[]"] l assms(3) b by (subst h) simp
qed

definition over_limit :: "bytes \<Rightarrow> bool" where
  "over_limit h \<longleftrightarrow> length h > MAX_OUTPUT_BUFFER_SIZE \<or> length (lines_of h) > MAX_BUFFER_LINES"

text \<open>What the buffer keeps when data arrives: everything while the data only prolongs a line, otherwise
  everything but as many of the oldest lines as the limits demand.\<close>

definition keep :: "bytes \<Rightarrow> bytes \<Rightarrow> bytes" where
  "keep h d =
     (if d = [] \<or> h \<noteq> [] \<and> last h \<noteq> newline \<and> newline \<notin> set d then h @ d
      else drop_oldest (lines_of (h @ d)))"

lemma append_is_keep: "ob_append (of_history h) d = of_history (keep h d)"
proof -
  consider "d = []" | "d \<noteq> []" "h = [] \<or> last h = newline" | "d \<noteq> []" "h \<noteq> []" "last h \<noteq> newline" "newline \<notin> set d"
    | "d \<noteq> []" "h \<noteq> []" "last h \<noteq> newline" "newline \<in> set d" by blast
  then show ?thesis
  proof cases
    case 2
    then have "\<not> (ob_last_line_incomplete (of_history h) \<and> ob_lines (of_history h) \<noteq> [])" by (auto simp: of_history_def)
    then show ?thesis using 2 append_rest_ok [OF refl 2(2,1)] by (auto simp: ob_append_def keep_def)
  next
    case 3
    then show ?thesis using extend_last_ok [of h d] cut_extend(1) [OF 3(2-4)]
      by (auto simp: ob_append_def keep_def of_history_def dest: last_in_set)
  next
    case 4
    define n where "n = length (takeWhile (\<lambda>x. x \<noteq> newline) d) + 1"
    obtain l xs where r: "d = l @ newline # xs" "newline \<notin> set l" using split_list_first [OF 4(4)] by metis
    have "takeWhile (\<lambda>x. x \<noteq> newline) d = l" using r by (simp add: takeWhile_append takeWhile_eq_all_conv)
    then have t: "take n d = l @ [newline]" "drop n d = xs" using r(1) by (simp_all add: n_def)
    let ?h = "h @ l @ [newline]"
    have b: "(extend_last (take n d) (of_history h))\<lparr>ob_last_line_incomplete := False\<rparr> = of_history ?h"
      using cut_extend(2) [OF 4(2,3) r(2)] 4(2) by (simp add: t extend_last_def of_history_def)
    have "ob_append (of_history h) d = ob_append_rest xs (of_history ?h)"
      using 4 unfolding b [symmetric] t(2) [symmetric] n_def by (simp add: ob_append_def of_history_def Let_def)
    also have "\<dots> = of_history (drop_oldest (lines_of (?h @ xs)))"
    proof (cases "xs = []")
      case True
      then have "ob_append_rest xs (of_history ?h) = ob_trim (of_history ?h)" by (simp add: ob_append_rest_def)
      then show ?thesis using True by (simp add: trim_of_history)
    next
      case False
      then show ?thesis using append_rest_ok [OF refl, of ?h xs] by simp
    qed
    finally show ?thesis using 4 r by (simp add: keep_def)
  qed (simp add: ob_append_def keep_def)
qed

lemma of_history_history [simp]: "ob_history (of_history h) = h"
  by (simp add: ob_history_def of_history_def)

definition run_appends :: "bytes list \<Rightarrow> output_buffer" where
  "run_appends ds = foldl ob_append ob_new ds"

lemma run_appends_keep: "run_appends ds = of_history (foldl keep [] ds)"
proof -
  have "ob_new = of_history []" by (simp add: ob_new_def of_history_def)
  then have "foldl ob_append ob_new ds = of_history (foldl keep [] ds)"
    using append_is_keep by (induction ds rule: rev_induct) simp_all
  then show ?thesis by (simp add: run_appends_def)
qed

lemma drop_oldest_suffix: "\<exists>n. drop_oldest ls = concat (drop n ls)"
proof (induction ls)
  case (Cons l ls)
  then obtain n where "drop_oldest ls = concat (drop n ls)" by blast
  then have "drop_oldest (l # ls) \<in> {concat (drop (Suc n) (l # ls)), concat (drop 0 (l # ls))}" by simp
  then show ?case by blast
qed simp

lemma drop_oldest_within: "\<not> over_limit (drop_oldest (lines_of h))"
proof (induction "lines_of h" arbitrary: h)
  case Nil
  then show ?case by (metis concat.simps(1) concat_cut drop_oldest.simps(1) MAX_BUFFER_LINES_def MAX_OUTPUT_BUFFER_SIZE_def
        over_limit_def lines_of.simps(1) list.size(3) not_less0)
next
  case (Cons l ls)
  have c: "lines_of (concat ls) = ls" using cut_drop [of 1 h] Cons.hyps(2) [symmetric] by simp
  have h: "h = l @ concat ls" using Cons.hyps(2) by (metis concat.simps(2) concat_cut)
  show ?case
    using Cons.hyps(1) [of "concat ls"] c Cons.hyps(2) [symmetric] h by (auto simp: over_limit_def)
qed

text \<open>(C23) The output buffer implements its reference: after any sequence of appends it holds exactly the
  lines, the size and the flag of a history that is a final part of everything appended, and the whole of it
  as long as that stays within the limits.\<close>

theorem output_buffer_refines_history:
  "\<exists>h pre. concat ds = pre @ h \<and> run_appends ds = of_history h \<and> (pre = [] \<or> over_limit (concat ds))"
proof -
  have "\<exists>pre. x = pre @ drop_oldest (lines_of x)" for x
    using drop_oldest_suffix [of "lines_of x"] concat_drop [of _ x] by (metis append_take_drop_id)
  then have keep_suffix: "\<exists>pre. h @ d = pre @ keep h d" for h d by (simp add: keep_def)
  have small: "drop_oldest (lines_of h) = h" if "\<not> over_limit h" for h
    using that concat_cut [of h] by (cases "lines_of h") (auto simp: over_limit_def)
  have mono: "\<not> over_limit h" if "\<not> over_limit (h @ d)" for h d
  proof -
    have "length (lines_of h) \<le> length (lines_of (h @ d))"
    proof (induction h)
      case (Cons x h)
      then show ?case by (cases "lines_of h"; cases "lines_of (h @ d)") auto
    qed simp
    then show ?thesis using that by (auto simp: over_limit_def)
  qed
  have "\<exists>pre. concat ds = pre @ foldl keep [] ds \<and> (\<not> over_limit (concat ds) \<longrightarrow> pre = [])"
  proof (induction ds rule: rev_induct)
    case (snoc d ds)
    then obtain pre where pre: "concat ds = pre @ foldl keep [] ds" "\<not> over_limit (concat ds) \<longrightarrow> pre = []" by blast
    obtain q where q: "foldl keep [] ds @ d = q @ keep (foldl keep [] ds) d" using keep_suffix by blast
    have "q = []" if "\<not> over_limit (concat (ds @ [d]))"
    proof -
      have "pre = []" using pre(2) mono [of "concat ds" d] that by simp
      then have "keep (foldl keep [] ds) d = foldl keep [] ds @ d" using small that pre(1) by (simp add: keep_def)
      then show ?thesis using q by simp
    qed
    moreover have "pre = []" if "\<not> over_limit (concat (ds @ [d]))" using pre(2) mono [of "concat ds" d] that by simp
    ultimately show ?case using pre(1) q by (intro exI [of _ "pre @ q"]) auto
  qed simp
  then show ?thesis using run_appends_keep by blast
qed

text \<open>What a reconnecting client is sent is the end of what the buffer holds.\<close>

lemma skip_cont_suffix: "\<exists>pre. d = pre @ skip_cont n d"
proof (induction n d rule: skip_cont.induct)
  case (3 n b d)
  show ?case
  proof (cases "is_cont b")
    case True
    then obtain pre where "b # d = (b # pre) @ skip_cont n d" using 3 by auto
    then show ?thesis using True by (metis skip_cont.simps(3))
  qed simp
qed auto

lemma recent_chunks_suffix:
  assumes "sz \<le> n"
  shows "\<exists>pre. concat (rev ls) = pre @ concat (rev (recent_chunks n sz ls)) \<and> sz + length (concat (rev (recent_chunks n sz ls))) \<le> n"
  using assms
proof (induction n sz ls rule: recent_chunks.induct)
  case (2 n sz line ls)
  let ?tail = "skip_cont 3 (drop (length line - n) line)"
  have tail: "\<exists>pre. line = pre @ ?tail" "length line > n \<Longrightarrow> length ?tail \<le> n"
  proof -
    obtain pre where "drop (length line - n) line = pre @ ?tail" using skip_cont_suffix by blast
    then show "\<exists>pre. line = pre @ ?tail" "length line > n \<Longrightarrow> length ?tail \<le> n"
      by (metis append.assoc append_take_drop_id, metis diff_diff_cancel length_append length_drop less_imp_le_nat le_add2)
  qed
  show ?case
  proof (cases "sz + length line > n")
    case True
    show ?thesis
    proof (cases "sz = 0 \<and> length line > n \<and> ?tail \<noteq> []")
      case t: True
      obtain pre where "line = pre @ ?tail" using tail(1) by blast
      then show ?thesis using t tail(2) True by (intro exI [of _ "concat (rev ls) @ pre"]) (simp add: Let_def)
    next
      case False
      then show ?thesis using True 2(2) by (auto simp: Let_def)
    qed
  next
    case False
    then show ?thesis using 2 by auto
  qed
qed simp

lemma recent_chunks_all: "sz + length (concat ls) \<le> n \<Longrightarrow> recent_chunks n sz ls = ls"
  by (induction n sz ls rule: recent_chunks.induct) auto

lemma get_recent_suffix:
  "\<exists>pre. ob_history b = pre @ get_recent b n" "length (get_recent b n) \<le> n"
  "0 < n \<Longrightarrow> length (ob_history b) \<le> n \<Longrightarrow> get_recent b n = ob_history b"
proof -
  show "\<exists>pre. ob_history b = pre @ get_recent b n" "length (get_recent b n) \<le> n"
    using recent_chunks_suffix [of 0 n "rev (ob_lines b)"] by (auto simp: get_recent_def ob_history_def)
  assume "0 < n" "length (ob_history b) \<le> n"
  then show "get_recent b n = ob_history b"
    using recent_chunks_all [of 0 "rev (ob_lines b)" n]
    by (simp add: get_recent_def ob_history_def length_concat rev_map [symmetric] sum_list_rev)
qed

text \<open>The limit of one mebibyte does not hold: output without a newline is kept in full however long it
  gets; and when the newline comes at last, the whole buffer is emptied.\<close>

theorem endless_line_is_kept:
  "ob_total_size (run_appends (replicate n [46])) = n \<and> ob_lines (run_appends (replicate (MAX_OUTPUT_BUFFER_SIZE + n) [46] @ [[newline]])) = []"
proof -
  have k: "foldl keep [] (replicate n [46]) = replicate n 46" for n
  proof (induction n)
    case (Suc n)
    have "foldl keep [] (replicate (Suc n) [46]) = keep (replicate n 46) [46]"
      using Suc by (simp only: replicate_Suc replicate_append_same [symmetric] foldl_append) simp
    also have "\<dots> = replicate (Suc n) 46"
      by (cases n) (simp_all add: keep_def replicate_append_same MAX_OUTPUT_BUFFER_SIZE_def MAX_BUFFER_LINES_def)
    finally show ?case .
  qed simp
  have "newline \<notin> set (replicate m (46 :: u8))" for m by auto
  from cut_line [OF this, of _ "[]"] have c: "lines_of (replicate m 46 @ [newline]) = [replicate m 46 @ [newline]]" for m by simp
  have "keep (replicate (MAX_OUTPUT_BUFFER_SIZE + n) 46) [newline] = []"
    unfolding keep_def by (simp add: c)
  then show ?thesis by (simp add: run_appends_keep k of_history_def)
qed

section \<open>Characters\<close>

text \<open>How many bytes the character with this first byte has, \<open>0\<close> for none; and the strict check of
  \<open>str::from_utf8\<close>, which also refuses overlong forms, surrogates and what is above the last code point.\<close>

definition seq_len :: "u8 \<Rightarrow> nat" where
  "seq_len b = (if b AND 0xE0 = 0xC0 then 2 else if b AND 0xF0 = 0xE0 then 3 else if b AND 0xF8 = 0xF0 then 4 else 0)"

definition char_len :: "u8 \<Rightarrow> nat" where
  "char_len b = (if b AND 0x80 = 0 then 1 else if b < 0xC2 \<or> b > 0xF4 then 0 else seq_len b)"

definition second_ok :: "u8 \<Rightarrow> u8 \<Rightarrow> bool" where
  "second_ok b c \<longleftrightarrow> (b = 0xE0 \<longrightarrow> c \<ge> 0xA0) \<and> (b = 0xED \<longrightarrow> c \<le> 0x9F) \<and> (b = 0xF0 \<longrightarrow> c \<ge> 0x90) \<and> (b = 0xF4 \<longrightarrow> c \<le> 0x8F)"

function valid_utf8 :: "bytes \<Rightarrow> bool" where
  "valid_utf8 [] = True"
| "valid_utf8 (b # d) =
     (let n = char_len b in
      n > 0 \<and> length d \<ge> n - 1 \<and> list_all is_cont (take (n - 1) d) \<and> (n > 1 \<longrightarrow> second_ok b (hd d)) \<and> valid_utf8 (drop (n - 1) d))"
  by pat_completeness auto
termination
  by (relation "measure length") auto

fun scan_back :: "nat \<Rightarrow> nat \<Rightarrow> bytes \<Rightarrow> nat" where
  "scan_back len k [] = len"
| "scan_back len k (b # bs) =
     (if b AND 0x80 = 0 then len
      else if is_cont b then scan_back len (Suc k) bs
      else if seq_len b = 0 then len
      else if Suc k \<ge> seq_len b then len
      else len - Suc k)"

definition find_utf8_split_point :: "bytes \<Rightarrow> nat" where
  "find_utf8_split_point buf = scan_back (length buf) 0 (take 3 (rev buf))"

definition push_chunk :: "bytes \<Rightarrow> bytes \<Rightarrow> bytes \<times> bytes option" where
  "push_chunk remainder data =
     (if data = [] then (remainder, None)
      else
        let had_remainder = (remainder \<noteq> []);
            data = remainder @ data;
            split = find_utf8_split_point data
        in if split = length data then ([], Some data)
           else if \<not> had_remainder \<and> split > 0 \<and> \<not> valid_utf8 (take split data) then ([], Some data)
           else (drop split data, if take split data = [] then None else Some (take split data)))"

definition finish_chunks :: "bytes \<Rightarrow> bytes option" where
  "finish_chunks remainder = (if remainder = [] then None else Some remainder)"

text \<open>The chunks a reader passes on for what it reads, and what it keeps back.\<close>

fun push_all :: "bytes \<Rightarrow> bytes list \<Rightarrow> bytes list \<times> bytes" where
  "push_all r [] = ([], r)"
| "push_all r (d # ds) =
     (let (r, c) = push_chunk r d; (cs, r) = push_all r ds
      in (case c of Some x \<Rightarrow> x # cs | None \<Rightarrow> cs, r))"

lemma mask_sub: "b AND m = v \<Longrightarrow> m AND k = k \<Longrightarrow> b AND k = v AND (k :: u8)"
  by (metis and.assoc)

lemma seq_len_lead:
  assumes "seq_len b > 0"
  shows "b AND 0x80 \<noteq> 0" "\<not> is_cont b"
proof -
  consider "b AND 0xE0 = 0xC0" | "b AND 0xF0 = 0xE0" | "b AND 0xF8 = 0xF0" using assms by (auto simp: seq_len_def split: if_splits)
  then have c: "b AND 0xC0 = 0xC0"
    using mask_sub [of b "0xE0" "0xC0" "0xC0"] mask_sub [of b "0xF0" "0xE0" "0xC0"] mask_sub [of b "0xF8" "0xF0" "0xC0"] by cases simp_all
  then have "b AND 0x80 = 0xC0 AND 0x80" by (rule mask_sub) simp
  then show "b AND 0x80 \<noteq> 0" by simp
  show "\<not> is_cont b" using c by (simp add: is_cont_def)
qed

lemma is_cont_high: "is_cont b \<Longrightarrow> b AND 0x80 \<noteq> 0"
  using mask_sub [of b "0xC0" "0x80" "0x80"] by (simp add: is_cont_def)

text \<open>The start of a character whose end is missing.\<close>

definition partial :: "bytes \<Rightarrow> bool" where
  "partial t \<longleftrightarrow> t \<noteq> [] \<and> length t < char_len (hd t) \<and> list_all is_cont (tl t)"

lemma char_len_cases: "char_len b \<le> 4" "char_len b > 1 \<Longrightarrow> seq_len b = char_len b" "char_len b = 1 \<Longrightarrow> b AND 0x80 = 0"
  by (auto simp: char_len_def seq_len_def split: if_splits)

lemma valid_append: "valid_utf8 x \<Longrightarrow> valid_utf8 (x @ y) = valid_utf8 y"
proof (induction x rule: valid_utf8.induct)
  case (2 b d)
  define n where "n = char_len b"
  have v: "n > 0" "n - 1 \<le> length d" "list_all is_cont (take (n - 1) d)" "n > 1 \<longrightarrow> second_ok b (hd d)" "valid_utf8 (drop (n - 1) d)"
    using 2(2) by (simp_all add: Let_def n_def)
  have "valid_utf8 (drop (n - 1) d @ y) = valid_utf8 y" using 2(1) [OF n_def] v by simp
  moreover have "n > 1 \<Longrightarrow> hd (d @ y) = hd d" using v(2) by (cases d) auto
  ultimately show ?case using v by (simp add: Let_def n_def [symmetric])
qed simp

lemma valid_prefix:
  assumes "valid_utf8 (x @ y)"
  shows "\<exists>v t. x = v @ t \<and> valid_utf8 v \<and> (t = [] \<or> partial t) \<and> valid_utf8 (t @ y)"
  using assms
proof (induction "length x" arbitrary: x rule: less_induct)
  case less
  show ?case
  proof (cases x)
    case Nil
    then show ?thesis using less.prems by simp
  next
    case (Cons b d)
    define n where "n = char_len b"
    have v: "n > 0" "n - 1 \<le> length (d @ y)" "list_all is_cont (take (n - 1) (d @ y))" "n > 1 \<longrightarrow> second_ok b (hd (d @ y))"
      "valid_utf8 (drop (n - 1) (d @ y))"
      using less.prems unfolding Cons by (simp_all add: Let_def n_def)
    show ?thesis
    proof (cases "length d < n - 1")
      case True
      then have "partial x" using v(3) by (simp add: Cons partial_def n_def list_all_iff)
      then show ?thesis using less.prems by (intro exI [of _ "[]"] exI [of _ x]) simp
    next
      case False
      let ?c = "b # take (n - 1) d"
      have x: "x = ?c @ drop (n - 1) d" by (simp add: Cons)
      have "valid_utf8 ?c"
        using v False by (cases d) (auto simp: Let_def n_def [symmetric] min_def take_Cons' split: if_splits)
      moreover have lt: "length (drop (n - 1) d) < length x" "valid_utf8 (drop (n - 1) d @ y)"
        using v(5) False by (simp_all add: Cons less_Suc_eq_le)
      moreover obtain w t where w: "drop (n - 1) d = w @ t" "valid_utf8 w" "t = [] \<or> partial t" "valid_utf8 (t @ y)"
        using less.hyps [OF lt] by blast
      ultimately have "valid_utf8 (?c @ w)" using valid_append by blast
      moreover have "x = (?c @ w) @ t" by (subst x, subst w(1)) simp
      ultimately show ?thesis using w(3,4) by blast
    qed
  qed
qed

lemma scan_conts:
  assumes "list_all is_cont cs" "length cs < 3"
  shows "scan_back len k (take (3 - 0) (rev (b # cs) @ rs)) = scan_back len (k + length cs) (take (3 - length cs) (b # rs))"
proof -
  have "scan_back len k (xs @ ys) = scan_back len (k + length xs) ys" if "list_all is_cont xs" for xs ys k
    using that is_cont_high by (induction xs arbitrary: k) auto
  from this [of "rev cs"] show ?thesis using assms by simp
qed

lemma scan_char:
  assumes "valid_utf8 (b # cs)" "char_len b = Suc (length cs)"
  shows "find_utf8_split_point (v @ b # cs) = length (v @ b # cs)"
proof -
  let ?len = "length (v @ b # cs)"
  have c: "list_all is_cont cs" using assms by (simp add: Let_def)
  show ?thesis
  proof (cases "length cs < 3")
    case True
    have "find_utf8_split_point (v @ b # cs) = scan_back ?len (length cs) (take (3 - length cs) (b # rev v))"
      using scan_conts [OF c True, of ?len 0 b "rev v"] by (simp add: find_utf8_split_point_def)
    also have "\<dots> = ?len"
    proof (cases "cs = []")
      case True
      then show ?thesis using char_len_cases(3) [of b] assms(2) by simp
    next
      case False
      then have "seq_len b = Suc (length cs)" using char_len_cases(2) [of b] assms(2) by (cases cs) auto
      moreover have "3 - length cs = Suc (2 - length cs)" using True by simp
      ultimately show ?thesis using seq_len_lead [of b] by simp
    qed
    finally show ?thesis .
  next
    case False
    then have "length cs = 3" using assms(2) char_len_cases(1) [of b] by simp
    then have r: "take 3 (rev (v @ b # cs)) = rev cs" by simp
    have "scan_back len k xs = len" if "list_all is_cont xs" for xs len k
      using that is_cont_high by (induction xs arbitrary: k) auto
    then show ?thesis using c unfolding find_utf8_split_point_def r by (simp only: list_all_rev)
  qed
qed

lemma scan_partial:
  assumes "partial t"
  shows "find_utf8_split_point (v @ t) = length v"
proof -
  obtain b cs where t: "t = b # cs" using assms by (cases t) (auto simp: partial_def)
  have c: "list_all is_cont cs" "Suc (length cs) < char_len b" using assms by (auto simp: t partial_def)
  then have l: "length cs < 3" "seq_len b = char_len b" using char_len_cases [of b] by auto
  have s: "3 - length cs = Suc (2 - length cs)" using l(1) by simp
  have "find_utf8_split_point (v @ t) = scan_back (length (v @ t)) (length cs) (take (3 - length cs) (b # rev v))"
    using scan_conts [OF c(1) l(1), of "length (v @ t)" 0 b "rev v"] by (simp add: find_utf8_split_point_def t)
  also have "\<dots> = length v" using seq_len_lead [of b] l c(2) s by (simp add: t)
  finally show ?thesis .
qed

lemma valid_last_char:
  assumes "valid_utf8 x" "x \<noteq> []"
  shows "\<exists>v b cs. x = v @ b # cs \<and> valid_utf8 (b # cs) \<and> char_len b = Suc (length cs)"
  using assms
proof (induction "length x" arbitrary: x rule: less_induct)
  case less
  obtain b d where x: "x = b # d" using less.prems(2) by (cases x) auto
  define n where "n = char_len b"
  have v: "n > 0" "n - 1 \<le> length d" "list_all is_cont (take (n - 1) d)" "n > 1 \<longrightarrow> second_ok b (hd d)" "valid_utf8 (drop (n - 1) d)"
    using less.prems(1) by (simp_all add: x Let_def n_def)
  show ?case
  proof (cases "drop (n - 1) d = []")
    case True
    then have "char_len b = Suc (length d)" using v(1,2) by (simp add: n_def)
    then show ?thesis using less.prems(1) x by (intro exI [of _ "[]"]) auto
  next
    case False
    have "length (drop (n - 1) d) < length x" by (simp add: x less_Suc_eq_le)
    then obtain w c cs where "drop (n - 1) d = w @ c # cs" "valid_utf8 (c # cs)" "char_len c = Suc (length cs)"
      using less.hyps [OF _ v(5) False] by blast
    moreover have "x = (b # take (n - 1) d) @ drop (n - 1) d" by (simp add: x)
    ultimately show ?thesis by (metis append.assoc)
  qed
qed

lemma split_point:
  assumes "valid_utf8 v" "t = [] \<or> partial t"
  shows "find_utf8_split_point (v @ t) = length v"
proof (cases "t = []")
  case True
  then show ?thesis
    using valid_last_char [OF assms(1)] scan_char by (cases "v = []") (auto simp: find_utf8_split_point_def)
qed (use scan_partial assms in blast)

lemma push_chunk_bytes:
  assumes "push_chunk r d = (r', c)"
  shows "(case c of Some x \<Rightarrow> x | None \<Rightarrow> []) @ r' = r @ d" "length r \<le> 3 \<Longrightarrow> length r' \<le> 3"
proof -
  have scan: "len - (k + length bs) \<le> scan_back len k bs" for len k bs
    by (induction len k bs rule: scan_back.induct) auto
  have "length x - 3 \<le> find_utf8_split_point x" for x
    using scan [of "length x" 0 "take 3 (rev x)"] by (simp add: find_utf8_split_point_def)
  then have "length (drop (find_utf8_split_point x) x) \<le> 3" for x by (metis length_drop diff_le_mono2 diff_diff_cancel le_diff_conv add.commute)
  then have "length r' \<le> 3 \<or> r' = r" using assms unfolding push_chunk_def Let_def by (auto split: if_splits simp del: drop_append length_drop)
  then show "length r \<le> 3 \<Longrightarrow> length r' \<le> 3" by auto
  show "(case c of Some x \<Rightarrow> x | None \<Rightarrow> []) @ r' = r @ d"
    using assms unfolding push_chunk_def Let_def
    by (auto split: if_splits simp del: drop_append take_append)
qed

lemma push_all_bytes:
  "push_all r ds = (cs, r') \<Longrightarrow> concat cs @ r' = r @ concat ds \<and> (length r \<le> 3 \<longrightarrow> length r' \<le> 3)"
proof (induction ds arbitrary: r cs)
  case (Cons d ds)
  obtain r1 c where c: "push_chunk r d = (r1, c)" by fastforce
  obtain cs1 where cs1: "push_all r1 ds = (cs1, r')" "cs = (case c of Some x \<Rightarrow> x # cs1 | None \<Rightarrow> cs1)"
    using Cons.prems c by (auto split: prod.splits)
  show ?case using Cons.IH [OF cs1(1)] push_chunk_bytes [OF c] cs1(2) by (auto split: option.splits)
qed simp

lemma push_chunk_valid:
  assumes "push_chunk r d = (r', c)" "r = [] \<or> partial r" "valid_utf8 (r @ d @ y)"
  shows "(r' = [] \<or> partial r') \<and> (case c of Some x \<Rightarrow> valid_utf8 x | None \<Rightarrow> True) \<and> valid_utf8 (r' @ y)"
proof (cases "d = []")
  case True
  then show ?thesis using assms by (auto simp: push_chunk_def)
next
  case False
  obtain v t where t: "r @ d = v @ t" "valid_utf8 v" "t = [] \<or> partial t" "valid_utf8 (t @ y)"
    using valid_prefix [of "r @ d" y] assms(3) by auto
  have s: "find_utf8_split_point (r @ d) = length v" using split_point [OF t(2,3)] t(1) by simp
  show ?thesis
    using assms(1) False s t unfolding push_chunk_def Let_def by (cases "t = []") (auto split: if_splits)
qed

lemma push_all_valid:
  assumes "push_all r ds = (cs, r')" "r = [] \<or> partial r" "valid_utf8 (r @ concat ds)"
  shows "list_all valid_utf8 cs \<and> r' = []"
  using assms
proof (induction ds arbitrary: r cs)
  case Nil
  have "r = []"
  proof (rule ccontr)
    assume "r \<noteq> []"
    then obtain b d where r: "r = b # d" "Suc (length d) < char_len b" using Nil by (cases r) (auto simp: partial_def)
    then show False using Nil by (auto simp: Let_def)
  qed
  then show ?case using Nil by simp
next
  case (Cons d ds)
  obtain r1 c where c: "push_chunk r d = (r1, c)" by fastforce
  obtain cs1 where cs1: "push_all r1 ds = (cs1, r')" "cs = (case c of Some x \<Rightarrow> x # cs1 | None \<Rightarrow> cs1)"
    using Cons.prems(1) c by (auto split: prod.splits)
  have "valid_utf8 (r @ d @ concat ds)" using Cons.prems(3) by simp
  note v = push_chunk_valid [OF c Cons.prems(2) this]
  show ?case using Cons.IH [OF cs1(1)] v cs1(2) by (auto split: option.splits)
qed

text \<open>The accumulator passes every byte on, in order, keeping at most three back; and however the output
  of a terminal is cut into reads, if it is UTF-8 text then every chunk passed on is UTF-8 text by itself and
  nothing is kept back at the end.\<close>

theorem chunks_keep_characters:
  assumes "push_all [] ds = (cs, r)"
  shows "concat cs @ r = concat ds \<and> length r \<le> 3 \<and> (valid_utf8 (concat ds) \<longrightarrow> list_all valid_utf8 cs \<and> r = [])"
  using push_all_bytes [OF assms] push_all_valid [OF assms] by simp

theorem chunks_keep_characters_witness:
  "push_all [] [[0x61, 0xE2], [0x82], [0xAC, 0x62]] = ([[0x61], [0xE2, 0x82, 0xAC, 0x62]], []) \<and>
   list_all valid_utf8 [[0x61 :: u8], [0xE2, 0x82, 0xAC, 0x62]]"
proof -
  have p: "push_all [] [[0x61, 0xE2], [0x82], [0xAC, 0x62]] = ([[0x61], [0xE2, 0x82, 0xAC, 0x62]], [])" by code_simp
  have "valid_utf8 (concat [[0x61, 0xE2], [0x82], [0xAC, 0x62]])" by code_simp
  then show ?thesis using chunks_keep_characters [OF p] p by simp
qed

section \<open>The interface of a replay buffer\<close>

text \<open>What the terminal sessions rely on: a buffer holds the end of what went into it and gives the end of
  what it holds.\<close>

locale replay_buffer =
  fixes app :: "'b \<Rightarrow> bytes \<Rightarrow> 'b" and recent :: "'b \<Rightarrow> nat \<Rightarrow> bytes" and hist :: "'b \<Rightarrow> bytes" and ok :: "'b \<Rightarrow> bool"
  assumes app_ok: "ok b \<Longrightarrow> ok (app b d)"
    and app_end: "ok b \<Longrightarrow> \<exists>pre. hist b @ d = pre @ hist (app b d)"
    and recent_end: "\<exists>pre. hist b = pre @ recent b n"
    and recent_bound: "length (recent b n) \<le> n"
begin

lemma feed_ok: "ok b \<Longrightarrow> ok (foldl app b ds)"
  by (induction ds arbitrary: b) (auto intro: app_ok)

lemma feed_end:
  assumes "ok b" "out = pre @ hist b"
  shows "\<exists>pre. out @ concat ds = pre @ hist (foldl app b ds)"
  using assms
proof (induction ds arbitrary: b out pre)
  case (Cons d ds)
  obtain p where "hist b @ d = p @ hist (app b d)" using app_end [OF Cons.prems(1)] by blast
  then have "out @ d = (pre @ p) @ hist (app b d)" using Cons.prems(2) by simp
  from Cons.IH [OF app_ok [OF Cons.prems(1)] this] show ?case by simp
qed auto

lemma replay_end:
  assumes "ok b" "out = pre @ hist b"
  shows "\<exists>pre. out @ concat ds = pre @ recent (foldl app b ds) n"
proof -
  obtain p where "out @ concat ds = p @ hist (foldl app b ds)" using feed_end [OF assms] by blast
  moreover obtain q where "hist (foldl app b ds) = q @ recent (foldl app b ds) n" using recent_end by blast
  ultimately show ?thesis by (metis append.assoc)
qed

end

interpretation ob: replay_buffer ob_append get_recent ob_history ob_ok
proof unfold_locales
  fix b d n
  have h: "ob_append b d = of_history (keep (ob_history b) d)" if "ob_ok b"
    using that append_is_keep [of "ob_history b" d] by (simp add: ob_ok_def)
  show "ob_ok b \<Longrightarrow> ob_ok (ob_append b d)" using h by (simp add: ob_ok_def)
  have "\<exists>pre. x = pre @ drop_oldest (lines_of x)" for x
    using drop_oldest_suffix [of "lines_of x"] concat_drop [of _ x] by (metis append_take_drop_id)
  then show "ob_ok b \<Longrightarrow> \<exists>pre. ob_history b @ d = pre @ ob_history (ob_append b d)" using h by (simp add: keep_def)
  show "\<exists>pre. ob_history b = pre @ get_recent b n" "length (get_recent b n) \<le> n" using get_recent_suffix by blast+
qed

end
