(* ===== verification/TerminalSessions.thy ===== *)
theory TerminalSessions
  imports TerminalBuffer Compress
begin

text \<open>
  Terminal sessions and the services that keep them over a reconnection,
  \<^verbatim>\<open>src/server/terminal_service.rs\<close> as on systems other than Windows: opening, reconnecting, polling for
  output, resizing, closing, and the registry of services. What the operating system decides is an argument:
  whether a shell could be started, whether a resize or a kill worked, the clock, and which sessions are
  locked by another thread. A channel is the list of what is in it.
\<close>

section \<open>State\<close>

definition MAX_SERVICES :: nat where "MAX_SERVICES = 100"
definition SERVICE_IDLE_TIMEOUT :: nat where "SERVICE_IDLE_TIMEOUT = 3600000"
definition CHANNEL_BUFFER_SIZE :: nat where "CHANNEL_BUFFER_SIZE = 500"
definition COMPRESS_THRESHOLD :: nat where "COMPRESS_THRESHOLD = 512"
definition DEFAULT_RECONNECT_BUFFER_BYTES :: nat where "DEFAULT_RECONNECT_BUFFER_BYTES = 8 * 1024"
definition MAX_SIGWINCH_PHASE_ATTEMPTS :: nat where "MAX_SIGWINCH_PHASE_ATTEMPTS = 3"

datatype sigwinch_phase = Idle | TempResize nat | Restore nat

datatype sigwinch_action = DoTempResize | DoRestore

datatype session_state = Closed | Active "bytes option" sigwinch_phase

text \<open>The child is absent, running, or has exited with a code; the pseudo terminal has a size.\<close>

record terminal_session =
  ts_last_activity :: nat
  ts_pty :: "(nat \<times> nat) option"
  ts_child :: "int option option"
  ts_input_tx :: "bytes list option"
  ts_output_rx :: "bytes list option"
  ts_reader_finished :: "bool option"
  ts_output_buffer :: output_buffer
  ts_pid :: nat
  ts_rows :: nat
  ts_cols :: nat
  ts_closed_message_sent :: bool
  ts_state :: session_state

record terminal_service =
  sv_id :: string
  sv_sessions :: "(int \<times> terminal_session) list"
  sv_last_activity :: nat
  sv_is_persistent :: bool
  sv_needs_session_sync :: bool
  sv_is_specified_user :: bool

record terminal_opened =
  to_terminal_id :: int
  to_message :: string
  to_pid :: nat
  to_service_id :: string
  to_replay :: bool
  to_persistent_sessions :: "int list"

datatype terminal_response = TermData int bytes bool | TermClosed int int | TermOpened terminal_opened | TermError string

datatype terminal_action = OpenTerminal int nat nat | ResizeTerminal int nat nat | TerminalInput int bytes | CloseTerminal int

record term_os =
  os_now :: nat
  os_zstd :: codec
  os_shell :: "nat option"
  os_resize_ok :: bool
  os_kill_ok :: bool
  os_busy :: "int \<Rightarrow> bool"

definition as_u16 :: "nat \<Rightarrow> nat" where "as_u16 n = n mod 65536"

definition session_new :: "nat \<Rightarrow> nat \<Rightarrow> nat \<Rightarrow> terminal_session" where
  "session_new now rows cols =
     \<lparr>ts_last_activity = now, ts_pty = None, ts_child = None, ts_input_tx = None, ts_output_rx = None, ts_reader_finished = None,
      ts_output_buffer = ob_new, ts_pid = 0, ts_rows = rows, ts_cols = cols, ts_closed_message_sent = False, ts_state = Closed\<rparr>"

section \<open>Output\<close>

text \<open>What the reader thread does with a read, and with the end of the output.\<close>

definition try_send_output :: "bytes \<Rightarrow> bytes list \<Rightarrow> bytes list" where
  "try_send_output d q = (if length q < CHANNEL_BUFFER_SIZE then q @ [d] else q)"

definition create_terminal_data_response :: "codec \<Rightarrow> int \<Rightarrow> bytes \<Rightarrow> terminal_response" where
  "create_terminal_data_response zstd tid d =
     (if length d > COMPRESS_THRESHOLD then
        (let c = compress zstd d in if length c < length d then TermData tid c True else TermData tid d False)
      else TermData tid d False)"

definition sigwinch_begin :: "sigwinch_phase \<Rightarrow> sigwinch_phase \<times> sigwinch_action option" where
  "sigwinch_begin p =
     (case p of
        TempResize retries \<Rightarrow> if retries = 0 then (Idle, None) else (TempResize (retries - 1), Some DoTempResize)
      | Restore retries \<Rightarrow> if retries = 0 then (Idle, None) else (Restore (retries - 1), Some DoRestore)
      | Idle \<Rightarrow> (Idle, None))"

definition do_sigwinch_resize :: "bool \<Rightarrow> nat \<Rightarrow> nat \<Rightarrow> (nat \<times> nat) option \<Rightarrow> sigwinch_action \<Rightarrow> bool \<times> (nat \<times> nat) option" where
  "do_sigwinch_resize ok rows cols pty action =
     (if rows = 0 \<or> cols = 0 then (False, pty)
      else
        let target = (case action of DoTempResize \<Rightarrow> if rows > 2 then rows - 1 else rows + 1 | DoRestore \<Rightarrow> rows)
        in case pty of None \<Rightarrow> (False, None) | Some _ \<Rightarrow> if ok then (True, Some (target, cols)) else (False, pty))"

definition sigwinch_end :: "bool \<Rightarrow> sigwinch_action \<Rightarrow> sigwinch_phase \<Rightarrow> sigwinch_phase" where
  "sigwinch_end ok action p =
     (if ok then (case action of DoTempResize \<Rightarrow> Restore MAX_SIGWINCH_PHASE_ATTEMPTS | DoRestore \<Rightarrow> Idle) else p)"

definition session_ended :: "terminal_session \<Rightarrow> bool" where
  "session_ended s \<longleftrightarrow> \<not> ts_closed_message_sent s \<and>
     (ts_reader_finished s = Some True \<or> (case ts_child s of Some (Some _) \<Rightarrow> True | _ \<Rightarrow> False))"

text \<open>One session in \<open>read_outputs\<close>: what it answers, and whether it has ended.\<close>

definition poll_session :: "term_os \<Rightarrow> int \<Rightarrow> terminal_session \<Rightarrow> terminal_session \<times> terminal_response list \<times> bool" where
  "poll_session os tid s =
     (let ended = session_ended s;
          received = (case ts_output_rx s of Some q \<Rightarrow> q | None \<Rightarrow> []);
          s = s\<lparr>ts_closed_message_sent := (ts_closed_message_sent s \<or> ended), ts_output_rx := map_option (\<lambda>_. []) (ts_output_rx s),
                ts_output_buffer := foldl ob_append (ts_output_buffer s) received\<rparr>
      in case ts_state s of
           Closed \<Rightarrow> (s, [], ended)
         | Active pending sigwinch \<Rightarrow>
             (let (phase, action) = sigwinch_begin sigwinch;
                  replay = (case pending of Some b \<Rightarrow> if b = [] then [] else [create_terminal_data_response (os_zstd os) tid b] | None \<Rightarrow> []);
                  s = (if received \<noteq> [] then s\<lparr>ts_last_activity := os_now os\<rparr> else s);
                  (ok, pty) = (case action of
                      Some a \<Rightarrow> do_sigwinch_resize (os_resize_ok os) (ts_rows s) (ts_cols s) (ts_pty s) a
                    | None \<Rightarrow> (False, ts_pty s));
                  phase = (case action of Some a \<Rightarrow> sigwinch_end ok a phase | None \<Rightarrow> phase)
              in (s\<lparr>ts_state := Active None phase, ts_pty := pty\<rparr>,
                  replay @ map (create_terminal_data_response (os_zstd os) tid) received, ended)))"

fun poll_all :: "term_os \<Rightarrow> (int \<times> terminal_session) list \<Rightarrow> (int \<times> terminal_session) list \<times> terminal_response list \<times> int list" where
  "poll_all os [] = ([], [], [])"
| "poll_all os ((tid, s) # ss) =
     (let (s, out, ended) = (if os_busy os tid then (s, [], False) else poll_session os tid s);
          (ss, outs, closed) = poll_all os ss
      in ((tid, s) # ss, out @ outs, (if ended then [tid] else []) @ closed))"

definition exit_code :: "terminal_session \<Rightarrow> int" where
  "exit_code s = (case ts_child s of Some (Some c) \<Rightarrow> c | _ \<Rightarrow> 0)"

text \<open>A session that has ended is removed, whether the service is persistent or not.\<close>

fun close_ended :: "bool \<Rightarrow> int list \<Rightarrow> (int \<times> terminal_session) list \<Rightarrow> (int \<times> terminal_session) list \<times> terminal_response list" where
  "close_ended persistent [] ss = (ss, [])"
| "close_ended persistent (tid # tids) ss =
     (let (ss, code) =
            (case map_of ss tid of
               None \<Rightarrow> (ss, 0)
             | Some s \<Rightarrow>
                 if \<not> persistent then (AList.delete tid ss, exit_code s)
                 else (if ts_closed_message_sent s then AList.delete tid ss else AList.update tid (s\<lparr>ts_child := None\<rparr>) ss, exit_code s));
          (ss, out) = close_ended persistent tids ss
      in (ss, TermClosed tid code # out))"

definition read_outputs :: "term_os \<Rightarrow> bool \<Rightarrow> terminal_service \<Rightarrow> terminal_service \<times> terminal_response list" where
  "read_outputs os persistent sv =
     (let (ss, out, closed) = poll_all os (sv_sessions sv);
          (ss, out') = close_ended persistent closed ss
      in (sv\<lparr>sv_sessions := ss\<rparr>, out @ out'))"

section \<open>Actions of the client\<close>

definition keys :: "(int \<times> 'a) list \<Rightarrow> int list" where
  "keys xs = map fst xs"

definition remap_lowest :: "int \<Rightarrow> terminal_service \<Rightarrow> terminal_service" where
  "remap_lowest tid sv =
     (if tid \<notin> set (keys (sv_sessions sv)) \<and> sv_needs_session_sync sv \<and> sv_sessions sv \<noteq> [] then
        (let lowest = Min (set (keys (sv_sessions sv))) in
         case map_of (sv_sessions sv) lowest of
           Some s \<Rightarrow> sv\<lparr>sv_sessions := AList.update tid s (AList.delete lowest (sv_sessions sv))\<rparr>
         | None \<Rightarrow> sv)
      else sv)"

definition reconnect_session :: "terminal_session \<Rightarrow> terminal_session \<times> bool" where
  "reconnect_session s =
     (let q = (case ts_output_rx s of Some q \<Rightarrow> q | None \<Rightarrow> []);
          s = s\<lparr>ts_output_rx := map_option (drop CHANNEL_BUFFER_SIZE) (ts_output_rx s),
                ts_output_buffer := foldl ob_append (ts_output_buffer s) (take CHANNEL_BUFFER_SIZE q)\<rparr>;
          buffer = get_recent (ts_output_buffer s) DEFAULT_RECONNECT_BUFFER_BYTES
      in (s\<lparr>ts_state := Active (if buffer \<noteq> [] then Some buffer else None) (TempResize MAX_SIGWINCH_PHASE_ATTEMPTS)\<rparr>, buffer \<noteq> []))"

definition open_new :: "term_os \<Rightarrow> int \<Rightarrow> nat \<Rightarrow> nat \<Rightarrow> terminal_service \<Rightarrow> terminal_service \<times> terminal_response option" where
  "open_new os tid rows cols sv =
     (case os_shell os of
        None \<Rightarrow> (sv, None)
      | Some pid \<Rightarrow>
          (let s = (session_new (os_now os) (as_u16 rows) (as_u16 cols))\<lparr>ts_pid := pid, ts_pty := Some (as_u16 rows, as_u16 cols),
                 ts_child := Some None, ts_input_tx := Some [], ts_output_rx := Some [], ts_reader_finished := Some False,
                 ts_state := Active None Idle\<rparr>;
               others = (if sv_needs_session_sync sv then keys (sv_sessions sv) else [])
           in (sv\<lparr>sv_needs_session_sync := False, sv_sessions := AList.update tid s (sv_sessions sv)\<rparr>,
               Some (TermOpened \<lparr>to_terminal_id = tid, to_message = ''Terminal opened'', to_pid = pid, to_service_id = sv_id sv,
                 to_replay = False, to_persistent_sessions = others\<rparr>))))"

definition handle_open :: "term_os \<Rightarrow> string \<Rightarrow> int \<Rightarrow> nat \<Rightarrow> nat \<Rightarrow> terminal_service \<Rightarrow> terminal_service \<times> terminal_response option" where
  "handle_open os service_id tid rows cols sv =
     (let sv = remap_lowest tid sv in
      case map_of (sv_sessions sv) tid of
        Some s \<Rightarrow>
          (let (s, has_pending) = reconnect_session s;
               others = (if sv_needs_session_sync sv \<and> length (sv_sessions sv) > 1
                 then filter (\<lambda>i. i \<noteq> tid) (keys (sv_sessions sv)) else [])
           in (sv\<lparr>sv_needs_session_sync := False, sv_sessions := AList.update tid s (sv_sessions sv)\<rparr>,
               Some (TermOpened \<lparr>to_terminal_id = tid,
                 to_message = (if has_pending then ''Reconnected to existing terminal with pending output'' else ''Reconnected to existing terminal''),
                 to_pid = ts_pid s, to_service_id = service_id, to_replay = has_pending, to_persistent_sessions = others\<rparr>)))
      | None \<Rightarrow> open_new os tid rows cols sv)"

definition handle_resize :: "term_os \<Rightarrow> int \<Rightarrow> nat \<Rightarrow> nat \<Rightarrow> terminal_service \<Rightarrow> terminal_service" where
  "handle_resize os tid rows cols sv =
     (case map_of (sv_sessions sv) tid of
        None \<Rightarrow> sv
      | Some s \<Rightarrow>
          (let s = s\<lparr>ts_last_activity := os_now os, ts_rows := as_u16 rows, ts_cols := as_u16 cols,
                 ts_pty := (if os_resize_ok os then map_option (\<lambda>_. (as_u16 rows, as_u16 cols)) (ts_pty s) else ts_pty s)\<rparr>
           in sv\<lparr>sv_sessions := AList.update tid s (sv_sessions sv)\<rparr>))"

definition handle_data :: "term_os \<Rightarrow> int \<Rightarrow> bytes \<Rightarrow> terminal_service \<Rightarrow> terminal_service" where
  "handle_data os tid d sv =
     (case map_of (sv_sessions sv) tid of
        None \<Rightarrow> sv
      | Some s \<Rightarrow>
          sv\<lparr>sv_sessions := AList.update tid (s\<lparr>ts_last_activity := os_now os, ts_input_tx := map_option (\<lambda>q. q @ [d]) (ts_input_tx s)\<rparr>)
            (sv_sessions sv)\<rparr>)"

definition handle_close :: "term_os \<Rightarrow> int \<Rightarrow> terminal_service \<Rightarrow> terminal_service \<times> terminal_response option" where
  "handle_close os tid sv =
     (case map_of (sv_sessions sv) tid of
        None \<Rightarrow> (sv, None)
      | Some s \<Rightarrow>
          (sv\<lparr>sv_sessions := AList.delete tid (sv_sessions sv)\<rparr>,
           if ts_child s = None then Some (TermClosed tid 0)
           else if os_kill_ok os then Some (TermClosed tid (-1)) else None))"

section \<open>The registry\<close>

type_synonym registry = "(string \<times> terminal_service) list"

definition reset_status :: "bool \<Rightarrow> terminal_service \<Rightarrow> terminal_service" where
  "reset_status persistent sv =
     sv\<lparr>sv_is_persistent := persistent, sv_needs_session_sync := True,
        sv_sessions := map (\<lambda>(i, s). (i, s\<lparr>ts_state := Closed\<rparr>)) (sv_sessions sv)\<rparr>"

definition service_new :: "nat \<Rightarrow> string \<Rightarrow> bool \<Rightarrow> bool \<Rightarrow> terminal_service" where
  "service_new now i persistent specified =
     \<lparr>sv_id = i, sv_sessions = [], sv_last_activity = now, sv_is_persistent = persistent, sv_needs_session_sync = False,
      sv_is_specified_user = specified\<rparr>"

definition get_or_create_service :: "nat \<Rightarrow> string \<Rightarrow> bool \<Rightarrow> bool \<Rightarrow> registry \<Rightarrow> registry option" where
  "get_or_create_service now i persistent specified reg =
     (if map_of reg i = None \<and> length reg \<ge> MAX_SERVICES then None
      else
        let sv = (case map_of reg i of Some sv \<Rightarrow> sv | None \<Rightarrow> service_new now i persistent specified)
        in Some (AList.update i (reset_status persistent sv) reg))"

definition remove_service :: "string \<Rightarrow> registry \<Rightarrow> registry" where
  "remove_service i reg = AList.delete i reg"

definition idle_service :: "nat \<Rightarrow> terminal_service \<Rightarrow> bool" where
  "idle_service now sv \<longleftrightarrow>
     \<not> sv_is_persistent sv \<and> now - sv_last_activity sv > SERVICE_IDLE_TIMEOUT \<or>
     sv_is_persistent sv \<and> sv_sessions sv = [] \<and> now - sv_last_activity sv > SERVICE_IDLE_TIMEOUT * 2"

definition cleanup_inactive_services :: "nat \<Rightarrow> registry \<Rightarrow> registry" where
  "cleanup_inactive_services now reg =
     fold remove_service (map fst (filter (\<lambda>(_, sv). idle_service now sv) reg)) reg"

definition set_persistent :: "string \<Rightarrow> bool \<Rightarrow> registry \<Rightarrow> registry option" where
  "set_persistent i persistent reg =
     (case map_of reg i of Some sv \<Rightarrow> Some (AList.update i (sv\<lparr>sv_is_persistent := persistent\<rparr>) reg) | None \<Rightarrow> None)"

definition on_disconnect :: "bool \<Rightarrow> string \<Rightarrow> registry \<Rightarrow> registry" where
  "on_disconnect persistent i reg = (if persistent then reg else remove_service i reg)"

text \<open>\<open>TerminalServiceProxy::handle_action\<close>; an error of an action gives no answer here.\<close>

definition handle_action :: "term_os \<Rightarrow> string \<Rightarrow> terminal_action \<Rightarrow> registry \<Rightarrow> registry \<times> terminal_response option" where
  "handle_action os i action reg =
     (case map_of reg i of
        None \<Rightarrow> (reg, Some (TermError (''Terminal service '' @ i @ '' not found'')))
      | Some sv \<Rightarrow>
          (let sv = sv\<lparr>sv_last_activity := os_now os\<rparr>;
               (sv, r) = (case action of
                   OpenTerminal tid rows cols \<Rightarrow> handle_open os i tid rows cols sv
                 | ResizeTerminal tid rows cols \<Rightarrow> (handle_resize os tid rows cols sv, None)
                 | TerminalInput tid d \<Rightarrow> (handle_data os tid d sv, None)
                 | CloseTerminal tid \<Rightarrow> handle_close os tid sv)
           in (AList.update i sv reg, r)))"

end
