(* ===== verification/TerminalProps.thy ===== *)
theory TerminalProps
  imports TerminalSessions
begin

text \<open>
  What a terminal keeps over a reconnection: the client gets the end of the output and everything after it,
  the redraw of the screen settles, and the registry stays within its limit.
\<close>

section \<open>One terminal\<close>

text \<open>A session with its reader thread: the bytes held back, what went into the channel, and what the client
  has been sent since it last connected.\<close>

record terminal =
  tm_session :: terminal_session
  tm_remainder :: bytes
  tm_output :: bytes
  tm_client :: bytes

datatype term_event = ReadOutput bytes | EndOfOutput | Poll bool nat | Reconnect | Disconnect

definition poll_os :: "codec \<Rightarrow> bool \<Rightarrow> nat \<Rightarrow> term_os" where
  "poll_os zstd ok now = \<lparr>os_now = now, os_zstd = zstd, os_shell = None, os_resize_ok = ok, os_kill_ok = True, os_busy = (\<lambda>_. False)\<rparr>"

definition response_bytes :: "codec \<Rightarrow> terminal_response \<Rightarrow> bytes" where
  "response_bytes unzstd r = (case r of TermData _ d c \<Rightarrow> if c then decompress unzstd d else d | _ \<Rightarrow> [])"

definition channel_of :: "terminal_session \<Rightarrow> bytes list" where
  "channel_of s = (case ts_output_rx s of Some q \<Rightarrow> q | None \<Rightarrow> [])"

text \<open>A chunk goes into the channel or, when that is full, is dropped.\<close>

definition reader_sends :: "bytes \<Rightarrow> terminal \<Rightarrow> terminal" where
  "reader_sends d t =
     (let q = channel_of (tm_session t); q' = try_send_output d q
      in t\<lparr>tm_session := (tm_session t)\<lparr>ts_output_rx := Some q'\<rparr>, tm_output := tm_output t @ concat (drop (length q) q')\<rparr>)"

fun term_step :: "codec \<Rightarrow> codec \<Rightarrow> term_event \<Rightarrow> terminal \<Rightarrow> terminal" where
  "term_step z u (ReadOutput d) t =
     (let (r, c) = push_chunk (tm_remainder t) d; t = t\<lparr>tm_remainder := r\<rparr>
      in case c of Some x \<Rightarrow> reader_sends x t | None \<Rightarrow> t)"
| "term_step z u EndOfOutput t =
     (case finish_chunks (tm_remainder t) of
        Some x \<Rightarrow> reader_sends x (t\<lparr>tm_remainder := []\<rparr>)
      | None \<Rightarrow> t)"
| "term_step z u (Poll ok now) t =
     (let (s, out, _) = poll_session (poll_os z ok now) 1 (tm_session t)
      in t\<lparr>tm_session := s, tm_client := tm_client t @ concat (map (response_bytes u) out)\<rparr>)"
| "term_step z u Reconnect t = t\<lparr>tm_session := fst (reconnect_session (tm_session t)), tm_client := []\<rparr>"
| "term_step z u Disconnect t = t\<lparr>tm_session := (tm_session t)\<lparr>ts_state := Closed\<rparr>\<rparr>"

definition term_run :: "codec \<Rightarrow> codec \<Rightarrow> term_event list \<Rightarrow> terminal \<Rightarrow> terminal" where
  "term_run z u evs t = fold (term_step z u) evs t"

definition opened_terminal :: "nat \<Rightarrow> nat \<Rightarrow> nat \<Rightarrow> terminal" where
  "opened_terminal pid rows cols =
     \<lparr>tm_session = (session_new 0 rows cols)\<lparr>ts_pid := pid, ts_pty := Some (rows, cols), ts_child := Some None, ts_input_tx := Some [],
        ts_output_rx := Some [], ts_reader_finished := Some False, ts_state := Active None Idle\<rparr>,
      tm_remainder = [], tm_output = [], tm_client = []\<rparr>"

definition pending_of :: "terminal_session \<Rightarrow> bytes" where
  "pending_of s = (case ts_state s of Active (Some b) _ \<Rightarrow> b | _ \<Rightarrow> [])"

text \<open>What the client has, what is to be replayed and what is in the channel are together the end of the
  output.\<close>

definition contiguous :: "terminal \<Rightarrow> bool" where
  "contiguous t \<longleftrightarrow> (\<exists>pre. tm_output t = pre @ tm_client t @ pending_of (tm_session t) @ concat (channel_of (tm_session t)))"

definition term_ok :: "terminal \<Rightarrow> bool" where
  "term_ok t \<longleftrightarrow> ob_ok (ts_output_buffer (tm_session t)) \<and> ts_output_rx (tm_session t) \<noteq> None \<and>
     length (channel_of (tm_session t)) \<le> CHANNEL_BUFFER_SIZE \<and>
     length (pending_of (tm_session t)) \<le> DEFAULT_RECONNECT_BUFFER_BYTES \<and>
     (\<exists>pre. tm_output t = pre @ ob_history (ts_output_buffer (tm_session t)) @ concat (channel_of (tm_session t))) \<and>
     (ts_state (tm_session t) \<noteq> Closed \<longrightarrow> contiguous t)"

lemma response_bytes_create [simp]:
  "zstd_ok z u \<Longrightarrow> response_bytes u (create_terminal_data_response z i d) = d"
  by (simp add: create_terminal_data_response_def response_bytes_def Let_def)

lemma reader_sends_ok:
  assumes "term_ok t"
  shows "term_ok (reader_sends d t)"
proof -
  let ?s = "tm_session t"
  have c: "channel_of (?s\<lparr>ts_output_rx := Some q\<rparr>) = q" for q by (simp add: channel_of_def)
  show ?thesis
    using assms by (auto simp: term_ok_def reader_sends_def try_send_output_def Let_def contiguous_def pending_of_def c)
qed

lemma poll_parts:
  fixes ok now z i s
  defines "r \<equiv> poll_session (poll_os z ok now) i s"
  shows "ts_output_buffer (fst r) = foldl ob_append (ts_output_buffer s) (channel_of s)"
    "channel_of (fst r) = []" "ts_output_rx (fst r) = map_option (\<lambda>_. []) (ts_output_rx s)" "pending_of (fst r) = []"
    "ts_state (fst r) = Closed \<longleftrightarrow> ts_state s = Closed"
    "zstd_ok z u \<Longrightarrow> ts_state s \<noteq> Closed \<Longrightarrow> concat (map (response_bytes u) (fst (snd r))) = pending_of s @ concat (channel_of s)"
proof -
  have m: "concat (map (response_bytes u \<circ> create_terminal_data_response z i) ds) = concat ds" if "zstd_ok z u" for ds
    using that by (induction ds) auto
  show "ts_output_buffer (fst r) = foldl ob_append (ts_output_buffer s) (channel_of s)"
    "channel_of (fst r) = []" "ts_output_rx (fst r) = map_option (\<lambda>_. []) (ts_output_rx s)" "pending_of (fst r) = []"
    "ts_state (fst r) = Closed \<longleftrightarrow> ts_state s = Closed"
    unfolding r_def
    by (auto simp: poll_session_def Let_def channel_of_def pending_of_def split: session_state.splits option.splits prod.splits)
  show "zstd_ok z u \<Longrightarrow> ts_state s \<noteq> Closed \<Longrightarrow> concat (map (response_bytes u) (fst (snd r))) = pending_of s @ concat (channel_of s)"
    unfolding r_def
    by (auto simp: poll_session_def Let_def channel_of_def pending_of_def poll_os_def m split: session_state.splits option.splits prod.splits)
qed

lemma term_step_ok:
  assumes "zstd_ok z u" "term_ok t"
  shows "term_ok (term_step z u ev t)"
proof (cases ev)
  case (ReadOutput d)
  have "term_ok (t\<lparr>tm_remainder := r\<rparr>)" for r using assms(2) by (simp add: term_ok_def contiguous_def)
  then show ?thesis using reader_sends_ok ReadOutput by (auto simp: Let_def split: prod.splits option.splits)
next
  case EndOfOutput
  have "term_ok (t\<lparr>tm_remainder := r\<rparr>)" for r using assms(2) by (simp add: term_ok_def contiguous_def)
  then show ?thesis using reader_sends_ok assms(2) EndOfOutput by (auto split: option.splits)
next
  case (Poll ok now)
  let ?s = "tm_session t"
  let ?r = "poll_session (poll_os z ok now) 1 ?s"
  have t: "term_step z u ev t = t\<lparr>tm_session := fst ?r, tm_client := tm_client t @ concat (map (response_bytes u) (fst (snd ?r)))\<rparr>"
    by (simp add: Poll case_prod_unfold Let_def)
  note p = poll_parts [where z = z and ok = ok and now = now and i = 1 and s = ?s]
  obtain pre where pre: "tm_output t = pre @ ob_history (ts_output_buffer ?s) @ concat (channel_of ?s)" and b: "ob_ok (ts_output_buffer ?s)"
    using assms(2) by (auto simp: term_ok_def)
  have "\<exists>pre. tm_output t = pre @ ob_history (foldl ob_append (ts_output_buffer ?s) (channel_of ?s))"
    using ob.feed_end [OF b, of "pre @ ob_history (ts_output_buffer ?s)" pre "channel_of ?s"] pre by simp
  then have "\<exists>pre. tm_output (term_step z u ev t) = pre @ ob_history (ts_output_buffer (fst ?r)) @ concat (channel_of (fst ?r))"
    by (simp add: t p(1,2))
  moreover have "contiguous (term_step z u ev t)" if "ts_state (fst ?r) \<noteq> Closed"
  proof -
    have "ts_state ?s \<noteq> Closed" using that p(5) by blast
    then show ?thesis using assms(2) p(6) [OF assms(1)] by (simp add: t contiguous_def p(2,4) term_ok_def)
  qed
  moreover have "ob_ok (ts_output_buffer (fst ?r))" "ts_output_rx (fst ?r) \<noteq> None"
    using ob.feed_ok [OF b, of "channel_of ?s"] assms(2) by (simp_all add: p(1,3) term_ok_def)
  moreover have sess: "tm_session (term_step z u ev t) = fst ?r" by (simp add: t)
  moreover have "length (channel_of (fst ?r)) \<le> CHANNEL_BUFFER_SIZE" "length (pending_of (fst ?r)) \<le> DEFAULT_RECONNECT_BUFFER_BYTES"
    unfolding p(2,4) by simp_all
  ultimately show ?thesis unfolding term_ok_def sess by blast
next
  case Reconnect
  let ?s = "tm_session t"
  obtain pre where pre: "tm_output t = pre @ ob_history (ts_output_buffer ?s) @ concat (channel_of ?s)" and b: "ob_ok (ts_output_buffer ?s)"
    using assms(2) by (auto simp: term_ok_def)
  have q: "length (channel_of ?s) \<le> CHANNEL_BUFFER_SIZE" "ts_output_rx ?s \<noteq> None" using assms(2) by (simp_all add: term_ok_def)
  then have q1: "ts_output_rx ?s = Some (channel_of ?s)" by (auto simp: channel_of_def)
  let ?b = "foldl ob_append (ts_output_buffer ?s) (channel_of ?s)"
  have out: "tm_output t = (pre @ ob_history (ts_output_buffer ?s)) @ concat (channel_of ?s)" using pre by simp
  have h: "\<exists>pre. tm_output t = pre @ ob_history ?b" "\<exists>pre. tm_output t = pre @ get_recent ?b n" for n
    using ob.feed_end [OF b, of _ pre "channel_of ?s"] ob.replay_end [OF b, of _ pre "channel_of ?s" n] unfolding out by blast+
  have r: "fst (reconnect_session ?s) = ?s\<lparr>ts_output_rx := Some [], ts_output_buffer := ?b,
      ts_state := Active (if get_recent ?b DEFAULT_RECONNECT_BUFFER_BYTES \<noteq> [] then Some (get_recent ?b DEFAULT_RECONNECT_BUFFER_BYTES) else None)
        (TempResize MAX_SIGWINCH_PHASE_ATTEMPTS)\<rparr>"
    using q(1) by (simp add: reconnect_session_def Let_def q1)
  show ?thesis
    using h ob.feed_ok [OF b] ob.recent_bound [of ?b DEFAULT_RECONNECT_BUFFER_BYTES]
    by (auto simp: Reconnect r term_ok_def contiguous_def channel_of_def pending_of_def split: if_splits)
next
  case Disconnect
  then show ?thesis using assms(2) by (auto simp: term_ok_def channel_of_def pending_of_def)
qed

lemma opened_terminal_ok: "term_ok (opened_terminal pid rows cols)"
proof -
  have "ob_ok ob_new" by (simp add: ob_ok_def ob_new_def of_history_def ob_history_def)
  then show ?thesis by (simp add: term_ok_def opened_terminal_def session_new_def channel_of_def pending_of_def contiguous_def ob_history_def ob_new_def)
qed

text \<open>(C24) Reconnecting loses nothing and repeats nothing: whatever the terminal prints and whenever the client
  disconnects and connects again, what a connected client has been sent since it connected, what is still to
  be replayed (at most 8 KiB) and what waits in the channel are together the uninterrupted end of what the
  reader thread could queue (a chunk that finds the channel full is dropped before that).\<close>

theorem reconnect_is_contiguous:
  assumes "zstd_ok z u" and "ts_state (tm_session (term_run z u evs (opened_terminal pid rows cols))) \<noteq> Closed"
  shows "contiguous (term_run z u evs (opened_terminal pid rows cols)) \<and>
    length (pending_of (tm_session (term_run z u evs (opened_terminal pid rows cols)))) \<le> DEFAULT_RECONNECT_BUFFER_BYTES"
proof -
  have "term_ok (fold (term_step z u) evs t)" if "term_ok t" for t
    using that term_step_ok [OF assms(1)] by (induction evs arbitrary: t) auto
  then show ?thesis using opened_terminal_ok assms(2) unfolding term_run_def term_ok_def by blast
qed

theorem reconnect_is_contiguous_witness:
  "let t = term_run Some Some [ReadOutput [104, 105], Disconnect, ReadOutput [33], Reconnect, ReadOutput [63], Poll True 5] (opened_terminal 7 24 80)
   in tm_client t = [104, 105, 33, 63] \<and> contiguous t"
proof -
  let ?t = "term_run Some Some [ReadOutput [104, 105], Disconnect, ReadOutput [33], Reconnect, ReadOutput [63], Poll True 5] (opened_terminal 7 24 80)"
  have c: "tm_client ?t = [104, 105, 33, 63]" "ts_state (tm_session ?t) \<noteq> Closed"
    by (simp_all add: term_run_def opened_terminal_def session_new_def push_chunk_def find_utf8_split_point_def reader_sends_def channel_of_def
        try_send_output_def CHANNEL_BUFFER_SIZE_def reconnect_session_def get_recent_def DEFAULT_RECONNECT_BUFFER_BYTES_def ob_append_def
        ob_append_rest_def push_line_def ob_trim.simps MAX_OUTPUT_BUFFER_SIZE_def MAX_BUFFER_LINES_def ob_new_def extend_last_def
        poll_session_def poll_os_def response_bytes_def create_terminal_data_response_def COMPRESS_THRESHOLD_def sigwinch_begin_def
        do_sigwinch_resize_def sigwinch_end_def MAX_SIGWINCH_PHASE_ATTEMPTS_def session_ended_def Let_def)
  have "zstd_ok Some Some" by (simp add: zstd_ok_def)
  from reconnect_is_contiguous [OF this, of "[ReadOutput [104, 105], Disconnect, ReadOutput [33], Reconnect, ReadOutput [63], Poll True 5]" 7 24 80]
  show ?thesis using c by (simp add: Let_def)
qed

section \<open>The redraw\<close>

definition phase_of :: "terminal_session \<Rightarrow> sigwinch_phase" where
  "phase_of s = (case ts_state s of Active _ p \<Rightarrow> p | Closed \<Rightarrow> Idle)"

definition poll_only :: "term_os \<Rightarrow> terminal_session \<Rightarrow> terminal_session" where
  "poll_only os s = fst (poll_session os 1 s)"

fun phase_rank :: "sigwinch_phase \<Rightarrow> nat" where
  "phase_rank Idle = 0"
| "phase_rank (Restore r) = r + 1"
| "phase_rank (TempResize r) = r + MAX_SIGWINCH_PHASE_ATTEMPTS + 2"

lemma poll_rank: "phase_rank (phase_of (poll_only os s)) \<le> phase_rank (phase_of s) - 1"
proof (cases "ts_state s")
  case (Active pending p)
  then show ?thesis
    by (cases p) (auto simp: poll_only_def poll_session_def phase_of_def sigwinch_begin_def sigwinch_end_def MAX_SIGWINCH_PHASE_ATTEMPTS_def Let_def
        split: prod.splits sigwinch_action.splits)
qed (simp add: poll_only_def poll_session_def phase_of_def Let_def)

lemma polls_rank: "phase_rank (phase_of (fold poll_only oss s)) \<le> phase_rank (phase_of s) - length oss"
proof (induction oss arbitrary: s)
  case (Cons os oss)
  show ?case using Cons.IH [of "poll_only os s"] poll_rank [of os s] by simp
qed simp

lemma phase_rank_0: "phase_rank p = 0 \<Longrightarrow> p = Idle"
  by (cases p) auto

text \<open>The redraw after a reconnection settles: after eight polls at most, whether the resizes work or not,
  the terminal is left alone; and when the first two work, the pseudo terminal was resized to another height
  and ends at the size of the session.\<close>

theorem redraw_settles:
  assumes "length oss \<ge> 8"
  shows "phase_of (fold poll_only oss (fst (reconnect_session s))) = Idle \<and>
    (os_resize_ok os1 \<and> os_resize_ok os2 \<and> ts_rows s > 0 \<and> ts_cols s > 0 \<and> ts_pty s \<noteq> None \<longrightarrow>
      (\<exists>r. r \<noteq> ts_rows s \<and> ts_pty (poll_only os1 (fst (reconnect_session s))) = Some (r, ts_cols s)) \<and>
      ts_pty (poll_only os2 (poll_only os1 (fst (reconnect_session s)))) = Some (ts_rows s, ts_cols s) \<and>
      phase_of (poll_only os2 (poll_only os1 (fst (reconnect_session s)))) = Idle)"
proof -
  let ?s = "fst (reconnect_session s)"
  have st: "\<exists>b. ts_state ?s = Active b (TempResize 3)" "ts_rows ?s = ts_rows s" "ts_cols ?s = ts_cols s" "ts_pty ?s = ts_pty s"
    by (auto simp: reconnect_session_def Let_def MAX_SIGWINCH_PHASE_ATTEMPTS_def)
  then have "phase_rank (phase_of ?s) \<le> 8" by (auto simp: phase_of_def MAX_SIGWINCH_PHASE_ATTEMPTS_def)
  then have "phase_rank (phase_of (fold poll_only oss ?s)) = 0" using polls_rank [of oss ?s] assms by simp
  moreover have "(\<exists>r. r \<noteq> ts_rows s \<and> ts_pty (poll_only os1 ?s) = Some (r, ts_cols s)) \<and>
      ts_pty (poll_only os2 (poll_only os1 ?s)) = Some (ts_rows s, ts_cols s) \<and> phase_of (poll_only os2 (poll_only os1 ?s)) = Idle"
    if a: "os_resize_ok os1" "os_resize_ok os2" "ts_rows s > 0" "ts_cols s > 0" "ts_pty s \<noteq> None"
  proof -
    let ?r = "if ts_rows s > 2 then ts_rows s - 1 else ts_rows s + 1"
    have one: "ts_state (poll_only os1 ?s) = Active None (Restore 3)" "ts_pty (poll_only os1 ?s) = Some (?r, ts_cols s)"
      "ts_rows (poll_only os1 ?s) = ts_rows s" "ts_cols (poll_only os1 ?s) = ts_cols s"
      using a st by (auto simp: poll_only_def poll_session_def sigwinch_begin_def do_sigwinch_resize_def sigwinch_end_def
          MAX_SIGWINCH_PHASE_ATTEMPTS_def Let_def split: option.splits)
    have two: "ts_state (poll_only os2 s1) = Active None Idle" "ts_pty (poll_only os2 s1) = Some (ts_rows s1, ts_cols s1)"
      if "ts_state s1 = Active None (Restore 3)" "ts_pty s1 = Some x" "ts_rows s1 > 0" "ts_cols s1 > 0" for s1 x
      using a(2) that by (auto simp: poll_only_def poll_session_def sigwinch_begin_def do_sigwinch_resize_def sigwinch_end_def Let_def)
    show ?thesis using one two [OF one(1,2)] a(3,4) by (auto simp: phase_of_def)
  qed
  ultimately show ?thesis using phase_rank_0 by blast
qed

theorem redraw_settles_witness:
  "phase_of (fold poll_only (replicate 8 (poll_os Some False 0)) (fst (reconnect_session (tm_session (opened_terminal 7 24 80))))) = Idle \<and>
   ts_pty (poll_only (poll_os Some True 0) (poll_only (poll_os Some True 0) (fst (reconnect_session (tm_session (opened_terminal 7 24 80)))))) = Some (24, 80)"
proof -
  have "length (replicate 8 (poll_os Some False 0)) \<ge> 8" by simp
  from redraw_settles [OF this, of "tm_session (opened_terminal 7 24 80)" "poll_os Some True 0" "poll_os Some True 0"]
  show ?thesis by (simp add: poll_os_def opened_terminal_def session_new_def)
qed

section \<open>The registry\<close>

datatype registry_event = Create nat string bool bool | Remove string | Cleanup nat | SetPersistent string bool
  | ActionOn term_os string terminal_action | PollService term_os bool string

definition registry_step :: "registry_event \<Rightarrow> registry \<Rightarrow> registry" where
  "registry_step ev reg =
     (case ev of
        Create now i p u \<Rightarrow> (case get_or_create_service now i p u reg of Some r \<Rightarrow> r | None \<Rightarrow> reg)
      | Remove i \<Rightarrow> remove_service i reg
      | Cleanup now \<Rightarrow> cleanup_inactive_services now reg
      | SetPersistent i p \<Rightarrow> (case set_persistent i p reg of Some r \<Rightarrow> r | None \<Rightarrow> reg)
      | ActionOn os i a \<Rightarrow> fst (handle_action os i a reg)
      | PollService os persistent i \<Rightarrow> (case map_of reg i of Some sv \<Rightarrow> AList.update i (fst (read_outputs os persistent sv)) reg | None \<Rightarrow> reg))"

definition registry_ok :: "registry \<Rightarrow> bool" where
  "registry_ok reg \<longleftrightarrow> length reg \<le> MAX_SERVICES \<and> distinct (map fst reg)"

lemma update_length: "map_of reg i \<noteq> None \<Longrightarrow> length (AList.update i v reg) = length reg"
  by (induction reg) auto

lemma update_length_new: "length (AList.update i v reg) \<le> Suc (length reg)"
  by (induction reg) auto

lemma delete_ok: "registry_ok reg \<Longrightarrow> registry_ok (AList.delete i reg)"
  using AList.length_delete_le [of i reg] by (auto simp: registry_ok_def AList.distinct_delete intro: le_trans)

lemma cleanup_ok: "registry_ok reg \<Longrightarrow> registry_ok (fold remove_service is' reg)"
  by (induction is' arbitrary: reg) (auto simp: remove_service_def intro: delete_ok)

lemma registry_step_ok:
  assumes "registry_ok reg"
  shows "registry_ok (registry_step ev reg)"
proof -
  have u: "registry_ok (AList.update i v reg)" if "map_of reg i \<noteq> None \<or> length reg < MAX_SERVICES" for i v
  proof -
    have "length (AList.update i v reg) \<le> MAX_SERVICES"
      using assms that update_length [of reg i v] update_length_new [of i v reg] by (cases "map_of reg i = None") (auto simp: registry_ok_def)
    then show ?thesis using assms by (simp add: registry_ok_def AList.distinct_update)
  qed
  show ?thesis
    using assms u delete_ok cleanup_ok
    by (cases ev) (auto simp: registry_step_def get_or_create_service_def set_persistent_def handle_action_def remove_service_def
        cleanup_inactive_services_def Let_def split: option.splits prod.splits)
qed

text \<open>Whatever services are created, used, left idle and removed, there are never more than one hundred of
  them, each under its own name; and cleaning up removes exactly the idle ones.\<close>

theorem registry_bounded:
  "registry_ok (fold registry_step evs []) \<and>
   map_of (cleanup_inactive_services now (fold registry_step evs [])) i =
     (case map_of (fold registry_step evs []) i of Some sv \<Rightarrow> if idle_service now sv then None else Some sv | None \<Rightarrow> None)"
proof -
  let ?reg = "fold registry_step evs []"
  have ok: "registry_ok ?reg"
  proof -
    have "registry_ok (fold registry_step evs reg)" if "registry_ok reg" for reg
      using that by (induction evs arbitrary: reg) (auto intro: registry_step_ok)
    moreover have "registry_ok []" by (simp add: registry_ok_def)
    ultimately show ?thesis by blast
  qed
  let ?idle = "map fst (filter (\<lambda>(_, sv). idle_service now sv) ?reg)"
  have "map_of (fold remove_service is' reg) i = (if i \<in> set is' then None else map_of reg i)" for is' reg
    by (induction is' arbitrary: reg) (auto simp: remove_service_def AList.delete_conv')
  from this [of ?idle ?reg]
  have m: "map_of (cleanup_inactive_services now ?reg) i = (if i \<in> set ?idle then None else map_of ?reg i)"
    unfolding cleanup_inactive_services_def .
  have e: "i \<in> set ?idle \<longleftrightarrow> (case map_of ?reg i of Some sv \<Rightarrow> idle_service now sv | None \<Rightarrow> False)"
  proof (cases "map_of ?reg i")
    case None
    then have "i \<notin> fst ` set ?reg" by (simp add: map_of_eq_None_iff)
    then show ?thesis using None by auto
  next
    case (Some sv)
    have u: "sv' = sv" if "(i, sv') \<in> set ?reg" for sv'
      using ok that map_of_SomeD [OF Some] eq_key_imp_eq_value [of ?reg i sv' sv] by (simp add: registry_ok_def)
    have "i \<in> set ?idle \<longleftrightarrow> (\<exists>sv'. (i, sv') \<in> set ?reg \<and> idle_service now sv')" by force
    then show ?thesis using map_of_SomeD [OF Some] Some u by (metis option.simps(5))
  qed
  show ?thesis using ok unfolding m e by (cases "map_of ?reg i") simp_all
qed

end
