(* ===== verification/Services.thy ===== *)
theory Services
  imports Options
begin

text \<open>
  Services and their subscribers, \<^verbatim>\<open>src/server/service.rs\<close>, and the server that connects them with the
  connections, \<^verbatim>\<open>src/server.rs\<close> and the \<open>CaptureDisplays\<close> and \<open>SwitchDisplay\<close> messages of
  \<^verbatim>\<open>src/server/connection.rs\<close>. A subscriber is its connection's number; the tables are lists in iteration
  order. What a service sends is returned as the list of receivers. The locale \<open>subscription\<close> is what the server
  relies on: the trait \<open>Service\<close>.
\<close>

section \<open>A service\<close>

record service =
  si_name :: string
  si_subscribes :: "int list"
  si_new_subscribes :: "int list"
  si_active :: bool
  si_need_snapshot :: bool
  si_options :: "(string \<times> string) list"

definition HIBERNATE_TIMEOUT :: nat where "HIBERNATE_TIMEOUT = 30"
definition MAX_ERROR_TIMEOUT :: nat where "MAX_ERROR_TIMEOUT = 1000"
definition SERVICE_OPTION_VALUE_TRUE :: string where "SERVICE_OPTION_VALUE_TRUE = ''1''"
definition SERVICE_OPTION_VALUE_FALSE :: string where "SERVICE_OPTION_VALUE_FALSE = ''0''"

definition service_tmpl_new :: "string \<Rightarrow> bool \<Rightarrow> service" where
  "service_tmpl_new name need_snapshot =
     \<lparr>si_name = name, si_subscribes = [], si_new_subscribes = [], si_active = True, si_need_snapshot = need_snapshot, si_options = []\<rparr>"

definition has_subscribes :: "service \<Rightarrow> bool" where
  "has_subscribes s \<longleftrightarrow> si_subscribes s \<noteq> [] \<or> si_new_subscribes s \<noteq> []"

definition swap_new_subscribes :: "service \<Rightarrow> service" where
  "swap_new_subscribes s = s\<lparr>si_subscribes := fold push_new (si_new_subscribes s) (si_subscribes s), si_new_subscribes := []\<rparr>"

definition is_subed :: "service \<Rightarrow> int \<Rightarrow> bool" where
  "is_subed s i \<longleftrightarrow> i \<in> set (si_subscribes s) \<or> i \<in> set (si_new_subscribes s)"

definition on_subscribe :: "int \<Rightarrow> service \<Rightarrow> service" where
  "on_subscribe i s =
     (if i \<in> set (si_subscribes s) then s
      else if si_need_snapshot s then s\<lparr>si_new_subscribes := push_new i (si_new_subscribes s)\<rparr>
      else s\<lparr>si_subscribes := push_new i (si_subscribes s)\<rparr>)"

definition on_unsubscribe :: "int \<Rightarrow> service \<Rightarrow> service" where
  "on_unsubscribe i s =
     (if i \<in> set (si_subscribes s) then s\<lparr>si_subscribes := removeAll i (si_subscribes s)\<rparr>
      else s\<lparr>si_new_subscribes := removeAll i (si_new_subscribes s)\<rparr>)"

definition service_join :: "service \<Rightarrow> service" where
  "service_join s = s\<lparr>si_active := False\<rparr>"

definition get_option :: "service \<Rightarrow> string \<Rightarrow> string option" where
  "get_option s opt = map_of (si_options s) opt"

definition set_option :: "string \<Rightarrow> string \<Rightarrow> service \<Rightarrow> service" where
  "set_option opt val s = s\<lparr>si_options := AList.update opt val (si_options s)\<rparr>"

definition service_ok :: "service \<Rightarrow> bool" where
  "service_ok s \<longleftrightarrow> si_active s \<and> has_subscribes s"

definition is_option_true :: "service \<Rightarrow> string \<Rightarrow> bool" where
  "is_option_true s opt \<longleftrightarrow> get_option s opt = Some SERVICE_OPTION_VALUE_TRUE"

definition set_option_bool :: "string \<Rightarrow> bool \<Rightarrow> service \<Rightarrow> service" where
  "set_option_bool opt val s = set_option opt (if val then SERVICE_OPTION_VALUE_TRUE else SERVICE_OPTION_VALUE_FALSE) s"

text \<open>Who receives a message: \<open>send_shared\<close>, \<open>send_to\<close>, \<open>send_to_others\<close> and \<open>send_without\<close>; \<open>send_video_frame\<close>
  returns the receivers; a snapshot sends to the new subscribers.\<close>

definition send_shared :: "service \<Rightarrow> int list" where
  "send_shared s = si_subscribes s"

definition send_to :: "int \<Rightarrow> service \<Rightarrow> int list" where
  "send_to i s = (if i \<in> set (si_subscribes s) then [i] else [])"

definition send_to_others :: "int \<Rightarrow> service \<Rightarrow> int list" where
  "send_to_others i s = filter (\<lambda>j. j \<noteq> i) (si_subscribes s)"

definition send_video_frame :: "service \<Rightarrow> int list" where
  "send_video_frame s = si_subscribes s"

definition send_without :: "int \<Rightarrow> service \<Rightarrow> int list" where
  "send_without i s = filter (\<lambda>j. i \<noteq> j) (si_subscribes s)"

definition send_new_subscribes :: "service \<Rightarrow> int list" where
  "send_new_subscribes s = si_new_subscribes s"

text \<open>The callback is given whether there were subscribers before; whatever it answers, the new subscribers
  have become subscribers when it returns.\<close>

definition snapshot :: "(bool \<Rightarrow> 'r) \<Rightarrow> 'r \<Rightarrow> service \<Rightarrow> 'r \<times> service" where
  "snapshot callback unchanged s =
     (if si_new_subscribes s \<noteq> [] then (callback (si_subscribes s \<noteq> []), swap_new_subscribes s) else (unchanged, s))"

text \<open>The pause after an error in \<open>ServiceTmpl::run\<close>, from the time the service ran.\<close>

definition next_error_timeout :: "nat \<Rightarrow> nat \<Rightarrow> nat" where
  "next_error_timeout elapsed error_timeout =
     (let t = (if elapsed > MAX_ERROR_TIMEOUT then HIBERNATE_TIMEOUT else error_timeout * 2)
      in if t > MAX_ERROR_TIMEOUT then MAX_ERROR_TIMEOUT else t)"

section \<open>The server\<close>

datatype video_source = Monitor | Camera

fun service_name_prefix :: "video_source \<Rightarrow> string" where
  "service_name_prefix Monitor = ''monitor''"
| "service_name_prefix Camera = ''camera''"

definition get_service_name :: "video_source \<Rightarrow> nat \<Rightarrow> string" where
  "get_service_name source idx = service_name_prefix source @ nat_to_str idx"

definition is_video_service_name :: "string \<Rightarrow> bool" where
  "is_video_service_name name \<longleftrightarrow> starts_with name (service_name_prefix Monitor) \<or> starts_with name (service_name_prefix Camera)"

definition PRIMARY_CAMERA_IDX :: nat where "PRIMARY_CAMERA_IDX = 0"

text \<open>The primary display's index, and whether there is a camera, are the machine's. \<open>sr_retina\<close> is
  \<open>ENABLE_RETINA\<close> on macOS.\<close>

record machine =
  mc_primary :: nat
  mc_camera :: bool
  mc_macos :: bool

record server =
  sr_connections :: "int list"
  sr_services :: "(string \<times> service) list"
  sr_id_count :: int
  sr_retina :: bool

definition server_new :: "int \<Rightarrow> service list \<Rightarrow> server" where
  "server_new random services =
     \<lparr>sr_connections = [], sr_services = map (\<lambda>s. (si_name s, s)) services,
      sr_id_count = (if random < 0 then - ((- random) mod 1000) else random mod 1000) + 1000, sr_retina = True\<rparr>"

definition server_contains :: "server \<Rightarrow> string \<Rightarrow> bool" where
  "server_contains sv name \<longleftrightarrow> map_of (sr_services sv) name \<noteq> None"

definition add_service :: "service \<Rightarrow> server \<Rightarrow> server" where
  "add_service s sv = sv\<lparr>sr_services := AList.update (si_name s) s (sr_services sv)\<rparr>"

definition video_service_new :: "video_source \<Rightarrow> nat \<Rightarrow> service" where
  "video_service_new source idx = service_tmpl_new (get_service_name source idx) True"

definition update_enable_retina :: "machine \<Rightarrow> server \<Rightarrow> server" where
  "update_enable_retina mc sv =
     (if mc_macos mc
      then sv\<lparr>sr_retina := (length (filter (\<lambda>(name, s). is_video_service_name name \<and> service_ok s) (sr_services sv)) < 2)\<rparr>
      else sv)"

definition try_add_video_service :: "video_source \<Rightarrow> nat \<Rightarrow> server \<Rightarrow> server" where
  "try_add_video_service source idx sv =
     (if server_contains sv (get_service_name source idx) then sv else add_service (video_service_new source idx) sv)"

definition try_add_primary_camera_service :: "machine \<Rightarrow> server \<Rightarrow> server" where
  "try_add_primary_camera_service mc sv = (if \<not> mc_camera mc then sv else try_add_video_service Camera PRIMARY_CAMERA_IDX sv)"

definition try_add_primay_video_service :: "machine \<Rightarrow> server \<Rightarrow> server" where
  "try_add_primay_video_service mc sv = try_add_video_service Monitor (mc_primary mc) sv"

definition insert_connection :: "int \<Rightarrow> server \<Rightarrow> server" where
  "insert_connection i sv = sv\<lparr>sr_connections := push_new i (sr_connections sv)\<rparr>"

definition map_services :: "(string \<Rightarrow> service \<Rightarrow> service) \<Rightarrow> server \<Rightarrow> server" where
  "map_services f sv = sv\<lparr>sr_services := map (\<lambda>(name, s). (name, f name s)) (sr_services sv)\<rparr>"

definition add_camera_connection :: "machine \<Rightarrow> int \<Rightarrow> server \<Rightarrow> server" where
  "add_camera_connection mc i sv =
     insert_connection i
       (if mc_camera mc then map_services (\<lambda>name s. if name = get_service_name Camera PRIMARY_CAMERA_IDX then on_subscribe i s else s) sv else sv)"

definition add_connection :: "machine \<Rightarrow> int \<Rightarrow> string list \<Rightarrow> server \<Rightarrow> server" where
  "add_connection mc i noperms sv =
     insert_connection i (update_enable_retina mc
       (map_services (\<lambda>_ s. let name = si_name s in
          if is_video_service_name name \<and> name \<noteq> get_service_name Monitor (mc_primary mc) then s
          else if name \<notin> set noperms then on_subscribe i s else s) sv))"

definition remove_connection :: "machine \<Rightarrow> int \<Rightarrow> server \<Rightarrow> server" where
  "remove_connection mc i sv =
     update_enable_retina mc ((map_services (\<lambda>_ s. on_unsubscribe i s) sv)\<lparr>sr_connections := removeAll i (sr_connections sv)\<rparr>)"

definition close_connections :: "server \<Rightarrow> int list" where
  "close_connections sv = sr_connections sv"

definition subscribe :: "machine \<Rightarrow> string \<Rightarrow> int \<Rightarrow> bool \<Rightarrow> server \<Rightarrow> server" where
  "subscribe mc name i sub sv =
     (case map_of (sr_services sv) name of
        None \<Rightarrow> sv
      | Some s \<Rightarrow>
          if is_subed s i = sub then sv
          else update_enable_retina mc
            (sv\<lparr>sr_services := AList.update name (if sub then on_subscribe i s else on_unsubscribe i s) (sr_services sv)\<rparr>))"

definition get_new_id :: "server \<Rightarrow> int \<times> server" where
  "get_new_id sv = (let n = wrap_i32 (sr_id_count sv + 1) in (n, sv\<lparr>sr_id_count := n\<rparr>))"

definition set_video_service_opt :: "(video_source \<times> nat) option \<Rightarrow> string \<Rightarrow> string \<Rightarrow> server \<Rightarrow> server" where
  "set_video_service_opt display opt value sv =
     map_services (\<lambda>k s.
       if (case display of Some (source, d) \<Rightarrow> k \<noteq> get_service_name source d | None \<Rightarrow> False) then s
       else if is_video_service_name k then set_option opt value s else s) sv"

definition get_subbed_displays_count :: "int \<Rightarrow> server \<Rightarrow> nat" where
  "get_subbed_displays_count i sv =
     length (filter (\<lambda>k. is_video_service_name k \<and> (case map_of (sr_services sv) k of Some s \<Rightarrow> is_subed s i | None \<Rightarrow> False))
       (map fst (sr_services sv)))"

definition capture_displays :: "machine \<Rightarrow> int \<Rightarrow> video_source \<Rightarrow> nat list \<Rightarrow> bool \<Rightarrow> bool \<Rightarrow> server \<Rightarrow> server" where
  "capture_displays mc i source displays incl excl sv =
     fold (\<lambda>name sv.
         if is_video_service_name name then
           (if name \<in> set (map (get_service_name source) displays)
            then (if incl then subscribe mc name i True sv else sv)
            else (if excl then subscribe mc name i False sv else sv))
         else sv)
       (map fst (sr_services sv)) sv"

section \<open>The messages of a viewer\<close>

definition NAME_WINDOW_FOCUS :: string where "NAME_WINDOW_FOCUS = ''window_focus''"

text \<open>What a connection keeps for it: its number, what it shows and whether it follows the focused window.\<close>

record viewer =
  vw_id :: int
  vw_source :: video_source
  vw_display :: nat
  vw_multi_ui :: bool
  vw_follow_window :: bool
  vw_multi_ui_client :: bool

definition conn_capture_displays :: "machine \<Rightarrow> nat list \<Rightarrow> nat list \<Rightarrow> nat list \<Rightarrow> viewer \<times> server \<Rightarrow> viewer \<times> server" where
  "conn_capture_displays mc add sub sets vs =
     (case vs of (v, sv) \<Rightarrow>
        let sv = fold (try_add_video_service (vw_source v)) add sv;
            sv = fold (try_add_video_service (vw_source v)) sets sv;
            sv = (if add \<noteq> [] then capture_displays mc (vw_id v) (vw_source v) add True False sv
                  else if sub \<noteq> [] then capture_displays mc (vw_id v) (vw_source v) sub False True sv
                  else capture_displays mc (vw_id v) (vw_source v) sets True True sv);
            v = v\<lparr>vw_multi_ui := (get_subbed_displays_count (vw_id v) sv > 1)\<rparr>
        in (v, if vw_follow_window v then subscribe mc NAME_WINDOW_FOCUS (vw_id v) (\<not> vw_multi_ui v) sv else sv))"

definition switch_display_to :: "machine \<Rightarrow> nat \<Rightarrow> viewer \<times> server \<Rightarrow> viewer \<times> server" where
  "switch_display_to mc idx vs =
     (case vs of (v, sv) \<Rightarrow>
        let new_name = get_service_name (vw_source v) idx;
            old_name = get_service_name (vw_source v) (vw_display v);
            sv = (if idx \<noteq> mc_primary mc then try_add_video_service (vw_source v) idx sv else sv);
            sv = (if \<not> vw_multi_ui_client v then subscribe mc old_name (vw_id v) False sv else sv);
            sv = subscribe mc new_name (vw_id v) True sv
        in (v\<lparr>vw_display := idx\<rparr>, sv))"

section \<open>What the server relies on\<close>

text \<open>The contract of the trait \<open>Service\<close>: subscribing and unsubscribing decide for the connection named and for
  no other.\<close>

locale subscription =
  fixes subed :: "'s \<Rightarrow> int \<Rightarrow> bool" and sub :: "int \<Rightarrow> 's \<Rightarrow> 's" and unsub :: "int \<Rightarrow> 's \<Rightarrow> 's" and wf :: "'s \<Rightarrow> bool"
  assumes sub_wf: "wf s \<Longrightarrow> wf (sub i s)" and unsub_wf: "wf s \<Longrightarrow> wf (unsub i s)"
    and sub_subed: "wf s \<Longrightarrow> subed (sub i s) j \<longleftrightarrow> j = i \<or> subed s j"
    and unsub_subed: "wf s \<Longrightarrow> subed (unsub i s) j \<longleftrightarrow> j \<noteq> i \<and> subed s j"
begin

lemma set_wf: "wf s \<Longrightarrow> wf (if b then sub i s else unsub i s)"
  using sub_wf unsub_wf by simp

lemma set_subed: "wf s \<Longrightarrow> subed (if b then sub i s else unsub i s) j \<longleftrightarrow> (if j = i then b else subed s j)"
  using sub_subed unsub_subed by auto

lemma all_wf: "list_all (\<lambda>(k, s). wf s) ss \<Longrightarrow> list_all (\<lambda>(k, s). wf s) (map (\<lambda>(k, s). (k, if P k s then sub i s else s)) ss)"
  "list_all (\<lambda>(k, s). wf s) ss \<Longrightarrow> list_all (\<lambda>(k, s). wf s) (map (\<lambda>(k, s). (k, unsub i s)) ss)"
  using sub_wf unsub_wf by (auto simp: list_all_iff)

end

definition service_wf :: "service \<Rightarrow> bool" where
  "service_wf s \<longleftrightarrow> distinct (si_subscribes s) \<and> distinct (si_new_subscribes s) \<and> set (si_subscribes s) \<inter> set (si_new_subscribes s) = {} \<and>
     (si_need_snapshot s \<or> si_new_subscribes s = [])"

lemma on_subscribe_wf: "service_wf s \<Longrightarrow> service_wf (on_subscribe i s)"
  by (auto simp: service_wf_def on_subscribe_def)

lemma on_unsubscribe_wf: "service_wf s \<Longrightarrow> service_wf (on_unsubscribe i s)"
  by (auto simp: service_wf_def on_unsubscribe_def distinct_removeAll)

lemma swap_wf: "service_wf s \<Longrightarrow> service_wf (swap_new_subscribes s)"
  by (simp add: service_wf_def swap_new_subscribes_def distinct_fold_push_new)

lemma swap_subed: "is_subed (swap_new_subscribes s) i = is_subed s i"
  by (auto simp: is_subed_def swap_new_subscribes_def set_fold_push_new)

lemma swap_name: "si_name (swap_new_subscribes s) = si_name s"
  by (simp add: swap_new_subscribes_def)

interpretation svc: subscription is_subed on_subscribe on_unsubscribe service_wf
proof unfold_locales
  fix s i j
  assume wf: "service_wf s"
  show "service_wf (on_subscribe i s)" using wf by (rule on_subscribe_wf)
  show "service_wf (on_unsubscribe i s)" using wf by (rule on_unsubscribe_wf)
  show "is_subed (on_subscribe i s) j \<longleftrightarrow> j = i \<or> is_subed s j" by (auto simp: is_subed_def on_subscribe_def)
  show "is_subed (on_unsubscribe i s) j \<longleftrightarrow> j \<noteq> i \<and> is_subed s j" using wf by (auto simp: is_subed_def on_unsubscribe_def service_wf_def)
qed

section \<open>Who is subscribed to what\<close>

definition server_wf :: "server \<Rightarrow> bool" where
  "server_wf sv \<longleftrightarrow> distinct (map fst (sr_services sv)) \<and> list_all (\<lambda>(k, s). si_name s = k \<and> service_wf s) (sr_services sv)"

definition subscribed :: "server \<Rightarrow> string \<Rightarrow> int \<Rightarrow> bool" where
  "subscribed sv name i \<longleftrightarrow> (case map_of (sr_services sv) name of Some s \<Rightarrow> is_subed s i | None \<Rightarrow> False)"

definition service_names :: "server \<Rightarrow> string set" where
  "service_names sv = set (map fst (sr_services sv))"

lemma map_of_key: "map_of ss k = Some y \<Longrightarrow> k \<in> fst ` set ss"
  by (force dest: map_of_SomeD)

lemma retina_services [simp]: "sr_services (update_enable_retina mc sv) = sr_services sv" "sr_connections (update_enable_retina mc sv) = sr_connections sv"
  by (simp_all add: update_enable_retina_def)

lemma insert_connection_services [simp]: "sr_services (insert_connection i sv) = sr_services sv"
  by (simp add: insert_connection_def)

lemma wf_lookup: "server_wf sv \<Longrightarrow> map_of (sr_services sv) name = Some s \<Longrightarrow> si_name s = name \<and> service_wf s"
  by (fastforce simp: server_wf_def list_all_iff dest: map_of_SomeD)

lemma set_service_wf:
  assumes "server_wf sv" "si_name s = name" "service_wf s"
  shows "server_wf (sv\<lparr>sr_services := AList.update name s (sr_services sv)\<rparr>)"
proof -
  have "set (AList.update name s ss) \<subseteq> insert (name, s) (set ss)" for ss :: "(string \<times> service) list"
    by (induction ss) auto
  then show ?thesis using assms by (auto simp: server_wf_def list_all_iff distinct_update dest!: subsetD)
qed

lemma on_subscribe_name [simp]: "si_name (on_subscribe i s) = si_name s" "si_name (on_unsubscribe i s) = si_name s"
  "si_name (set_option opt val s) = si_name s"
  by (simp_all add: on_subscribe_def on_unsubscribe_def set_option_def)

lemma set_option_subed [simp]: "is_subed (set_option opt val s) i = is_subed s i" "service_wf (set_option opt val s) = service_wf s"
  by (simp_all add: is_subed_def set_option_def service_wf_def)

lemma server_wf_cong: "sr_services sv = sr_services sv' \<Longrightarrow> server_wf sv = server_wf sv'"
  by (simp add: server_wf_def)

lemma subscribe_wf: "server_wf sv \<Longrightarrow> server_wf (subscribe mc name i b sv)"
proof (cases "map_of (sr_services sv) name")
  case (Some s)
  assume wf: "server_wf sv"
  then have s: "si_name s = name" "service_wf s" using wf_lookup Some by auto
  have "server_wf (sv\<lparr>sr_services := AList.update name (if b then on_subscribe i s else on_unsubscribe i s) (sr_services sv)\<rparr>)"
    using set_service_wf [OF wf, of "if b then on_subscribe i s else on_unsubscribe i s" name] s svc.set_wf [OF s(2)] by simp
  then show ?thesis using wf Some by (simp add: subscribe_def server_wf_cong [OF retina_services(1)])
qed (simp add: subscribe_def)

lemma subscribe_names [simp]: "service_names (subscribe mc name i b sv) = service_names sv"
  by (auto simp: subscribe_def service_names_def dom_update split: option.splits dest: map_of_key)

lemma subscribe_subscribed:
  assumes "server_wf sv"
  shows "subscribed (subscribe mc name i b sv) n j \<longleftrightarrow> (if n = name \<and> j = i \<and> name \<in> service_names sv then b else subscribed sv n j)"
proof (cases "map_of (sr_services sv) name")
  case None
  then have "name \<notin> service_names sv" by (simp add: service_names_def map_of_eq_None_iff)
  then show ?thesis using None by (auto simp: subscribe_def)
next
  case (Some s)
  then have n: "name \<in> service_names sv" using map_of_SomeD [OF Some] by (force simp: service_names_def)
  have s: "service_wf s" using wf_lookup assms Some by blast
  show ?thesis
  proof (cases "is_subed s i = b")
    case True
    then show ?thesis using Some n by (auto simp: subscribe_def subscribed_def)
  next
    case False
    then show ?thesis using Some n svc.set_subed [OF s, of b i j] by (auto simp: subscribe_def subscribed_def update_conv')
  qed
qed

lemma try_add_names: "service_names (try_add_video_service source d sv) = insert (get_service_name source d) (service_names sv)"
  by (auto simp: try_add_video_service_def server_contains_def add_service_def service_names_def video_service_new_def service_tmpl_new_def dom_update
      dest: map_of_key)

lemma try_add_keeps:
  assumes "server_wf sv"
  shows "server_wf (try_add_video_service source d sv)" "subscribed (try_add_video_service source d sv) n j = subscribed sv n j"
proof -
  let ?s = "video_service_new source d"
  have s: "si_name ?s = get_service_name source d" "service_wf ?s" "\<not> is_subed ?s j"
    by (simp_all add: video_service_new_def service_tmpl_new_def service_wf_def is_subed_def)
  show "server_wf (try_add_video_service source d sv)"
    using assms set_service_wf [OF assms s(1,2)] s(1) by (simp add: try_add_video_service_def add_service_def)
  show "subscribed (try_add_video_service source d sv) n j = subscribed sv n j"
    using s by (auto simp: try_add_video_service_def add_service_def subscribed_def server_contains_def update_conv')
qed

lemma try_add_all:
  assumes "server_wf sv"
  shows "server_wf (fold (try_add_video_service source) ds sv) \<and> subscribed (fold (try_add_video_service source) ds sv) n j = subscribed sv n j \<and>
    service_names (fold (try_add_video_service source) ds sv) = service_names sv \<union> get_service_name source ` set ds"
  using assms by (induction ds arbitrary: sv) (auto simp: try_add_keeps try_add_names)

section \<open>Capturing displays\<close>

lemma video_name [simp]: "is_video_service_name (get_service_name source d)"
  by (cases source) (simp_all add: is_video_service_name_def get_service_name_def starts_with_def)

lemma nat_to_str_inj: "nat_to_str m = nat_to_str n \<Longrightarrow> m = n"
  by (metis option.inject parse_digits_nat_to_str)

lemma service_name_inj: "get_service_name source d = get_service_name source e \<longleftrightarrow> d = e"
  using nat_to_str_inj by (cases source) (auto simp: get_service_name_def)

lemma not_window_focus: "get_service_name source d \<noteq> NAME_WINDOW_FOCUS"
  by (cases source) (simp_all add: get_service_name_def NAME_WINDOW_FOCUS_def)

lemma capture_fold:
  fixes names :: "string set" and incl excl :: bool and mc :: machine and i :: int
  assumes "server_wf sv"
  defines "F \<equiv> (\<lambda>name sv. if is_video_service_name name then
         (if name \<in> names then (if incl then subscribe mc name i True sv else sv) else (if excl then subscribe mc name i False sv else sv)) else sv)"
  shows "server_wf (fold F ns sv) \<and> service_names (fold F ns sv) = service_names sv \<and>
    (subscribed (fold F ns sv) n j \<longleftrightarrow>
      (if n \<in> set ns \<and> j = i \<and> is_video_service_name n \<and> n \<in> service_names sv
       then (if n \<in> names then incl \<or> subscribed sv n j else \<not> excl \<and> subscribed sv n j) else subscribed sv n j))"
  using assms(1)
proof (induction ns arbitrary: sv)
  case (Cons m ns)
  have step: "server_wf (F m sv)" "service_names (F m sv) = service_names sv"
    "subscribed (F m sv) n j \<longleftrightarrow> (if n = m \<and> j = i \<and> is_video_service_name m \<and> m \<in> service_names sv
       then (if m \<in> names then incl \<or> subscribed sv n j else \<not> excl \<and> subscribed sv n j) else subscribed sv n j)"
    using Cons.prems by (auto simp: F_def subscribe_wf subscribe_subscribed)
  show ?case using Cons.IH [OF step(1)] step(2,3) by auto
qed simp

lemma capture_displays_spec:
  assumes "server_wf sv"
  shows "server_wf (capture_displays mc i source displays incl excl sv)"
    "service_names (capture_displays mc i source displays incl excl sv) = service_names sv"
    "subscribed (capture_displays mc i source displays incl excl sv) n j \<longleftrightarrow>
      (if j = i \<and> is_video_service_name n \<and> n \<in> service_names sv
       then (if n \<in> get_service_name source ` set displays then incl \<or> subscribed sv n j else \<not> excl \<and> subscribed sv n j)
       else subscribed sv n j)"
  using capture_fold [OF assms, of "get_service_name source ` set displays" incl mc i excl "map fst (sr_services sv)" n j]
  unfolding capture_displays_def set_map service_names_def by (simp_all split: if_splits)

lemma conn_capture_spec:
  assumes "server_wf sv" "conn_capture_displays mc add sub sets (v, sv) = (v', sv')"
  shows "server_wf sv' \<and>
    (subscribed sv' (get_service_name source d) j \<longleftrightarrow>
      (if j = vw_id v \<and> get_service_name source d \<in> service_names sv \<union> get_service_name (vw_source v) ` (set add \<union> set sets) then
         (let listed = (\<lambda>ds. get_service_name source d \<in> get_service_name (vw_source v) ` set ds) in
          if add \<noteq> [] then listed add \<or> subscribed sv (get_service_name source d) j
          else if sub \<noteq> [] then listed sub \<and> subscribed sv (get_service_name source d) j
          else listed sets)
       else subscribed sv (get_service_name source d) j))"
proof -
  let ?n = "get_service_name source d"
  define sv0 where "sv0 = fold (try_add_video_service (vw_source v)) sets (fold (try_add_video_service (vw_source v)) add sv)"
  have wf1: "server_wf (fold (try_add_video_service (vw_source v)) add sv)" using try_add_all [OF assms(1)] by blast
  note a0 = try_add_all [OF wf1, of "vw_source v" sets ?n j] try_add_all [OF assms(1), of "vw_source v" add ?n j]
  have wf0: "server_wf sv0" and s0: "subscribed sv0 ?n j = subscribed sv ?n j"
    and n0: "service_names sv0 = service_names sv \<union> get_service_name (vw_source v) ` (set add \<union> set sets)"
    using a0 by (auto simp: sv0_def)
  define sv1 where "sv1 = (if add \<noteq> [] then capture_displays mc (vw_id v) (vw_source v) add True False sv0
      else if sub \<noteq> [] then capture_displays mc (vw_id v) (vw_source v) sub False True sv0
      else capture_displays mc (vw_id v) (vw_source v) sets True True sv0)"
  have wf2: "server_wf sv1" using capture_displays_spec(1) [OF wf0] by (simp add: sv1_def)
  have s1: "subscribed sv1 ?n j \<longleftrightarrow> (if j = vw_id v \<and> ?n \<in> service_names sv0 then
         (let listed = (\<lambda>ds. ?n \<in> get_service_name (vw_source v) ` set ds) in
          if add \<noteq> [] then listed add \<or> subscribed sv0 ?n j else if sub \<noteq> [] then listed sub \<and> subscribed sv0 ?n j else listed sets)
       else subscribed sv0 ?n j)"
  proof -
    have c: "subscribed (capture_displays mc (vw_id v) (vw_source v) ds incl excl sv0) ?n j \<longleftrightarrow> (if j = vw_id v \<and> ?n \<in> service_names sv0
       then (if ?n \<in> get_service_name (vw_source v) ` set ds then incl \<or> subscribed sv0 ?n j else \<not> excl \<and> subscribed sv0 ?n j)
       else subscribed sv0 ?n j)" for ds incl excl
      using capture_displays_spec(3) [OF wf0, of mc "vw_id v" "vw_source v" ds incl excl ?n j] by simp
    show ?thesis
      using c [of add True False] c [of sub False True] c [of sets True True]
      by (cases "add = []"; cases "sub = []"; cases "j = vw_id v") (simp_all add: sv1_def)
  qed
  have sv': "sv' = (if vw_follow_window v then subscribe mc NAME_WINDOW_FOCUS (vw_id v) (\<not> get_subbed_displays_count (vw_id v) sv1 > 1) sv1 else sv1)"
    using assms(2) by (auto simp: conn_capture_displays_def sv1_def sv0_def Let_def)
  have "server_wf sv'" "subscribed sv' ?n j = subscribed sv1 ?n j"
    using wf2 subscribe_wf subscribe_subscribed [OF wf2, of mc NAME_WINDOW_FOCUS "vw_id v" _ ?n j] not_window_focus unfolding sv' by auto
  then show ?thesis using s1 unfolding s0 n0 by (auto simp: Let_def)
qed

lemma unknown_not_subscribed: "n \<notin> service_names sv \<Longrightarrow> \<not> subscribed sv n j"
  by (auto simp: subscribed_def service_names_def split: option.splits dest: map_of_key)

lemma listed_iff: "get_service_name source d \<in> get_service_name source' ` ds \<longleftrightarrow> source = source' \<and> d \<in> ds"
proof (cases "source = source'")
  case False
  then have "get_service_name source d \<noteq> get_service_name source' e" for e
    by (cases source; cases source') (simp_all add: get_service_name_def)
  then show ?thesis using False by auto
qed (auto simp: service_name_inj)

lemma conn_capture_iff:
  assumes "server_wf sv"
  shows "subscribed (snd (conn_capture_displays mc add sub sets (v, sv))) (get_service_name source d) j \<longleftrightarrow>
    (if j = vw_id v then
       (if add \<noteq> [] then source = vw_source v \<and> d \<in> set add \<or> subscribed sv (get_service_name source d) j
        else if sub \<noteq> [] then source = vw_source v \<and> d \<in> set sub \<and> subscribed sv (get_service_name source d) j
        else source = vw_source v \<and> d \<in> set sets)
     else subscribed sv (get_service_name source d) j)"
proof -
  obtain v' sv' where e: "conn_capture_displays mc add sub sets (v, sv) = (v', sv')" by fastforce
  have u: "\<not> subscribed sv (get_service_name source d) j" if "get_service_name source d \<notin> service_names sv"
    using that by (rule unknown_not_subscribed)
  show ?thesis using conn_capture_spec [OF assms e, of source d j] u unfolding e Let_def listed_iff Un_iff snd_conv by auto
qed

text \<open>A viewer captures exactly what it asks for: after the message that sets its displays it is subscribed
  to those displays of its source and to no other video; after the message that adds displays, to those and what
  it had; and no other connection's subscriptions change.\<close>

theorem capture_displays_exact:
  assumes "server_wf sv"
  shows "(subscribed (snd (conn_capture_displays mc [] [] sets (v, sv))) (get_service_name source d) (vw_id v) \<longleftrightarrow> source = vw_source v \<and> d \<in> set sets) \<and>
    (add \<noteq> [] \<longrightarrow> (subscribed (snd (conn_capture_displays mc add sub sets (v, sv))) (get_service_name source d) (vw_id v) \<longleftrightarrow>
       source = vw_source v \<and> d \<in> set add \<or> subscribed sv (get_service_name source d) (vw_id v))) \<and>
    (j \<noteq> vw_id v \<longrightarrow> subscribed (snd (conn_capture_displays mc add sub sets (v, sv))) (get_service_name source d) j =
       subscribed sv (get_service_name source d) j)"
  using conn_capture_iff [OF assms] by simp

theorem capture_displays_exact_witness:
  "subscribed (snd (conn_capture_displays \<lparr>mc_primary = 0, mc_camera = False, mc_macos = True\<rparr> [] [] [1]
     (\<lparr>vw_id = 7, vw_source = Monitor, vw_display = 0, vw_multi_ui = False, vw_follow_window = False, vw_multi_ui_client = True\<rparr>, server_new 5 [])))
     (get_service_name Monitor 1) 7"
proof -
  have "server_wf (server_new 5 [])" by (simp add: server_wf_def server_new_def)
  from capture_displays_exact [OF this, of "\<lparr>mc_primary = 0, mc_camera = False, mc_macos = True\<rparr>" "[1]"
      "\<lparr>vw_id = 7, vw_source = Monitor, vw_display = 0, vw_multi_ui = False, vw_follow_window = False, vw_multi_ui_client = True\<rparr>" Monitor 1]
  show ?thesis by simp
qed

text \<open>The message that takes displays off does the opposite: it unsubscribes the viewer from every video
  that is \<^emph>\<open>not\<close> listed and keeps the listed ones.\<close>

theorem capture_sub_keeps_listed:
  assumes "server_wf sv" and "sub \<noteq> []"
  shows "subscribed (snd (conn_capture_displays mc [] sub sets (v, sv))) (get_service_name (vw_source v) d) (vw_id v) \<longleftrightarrow>
    d \<in> set sub \<and> subscribed sv (get_service_name (vw_source v) d) (vw_id v)"
  using conn_capture_iff [OF assms(1)] assms(2) by simp

theorem capture_sub_keeps_listed_witness:
  "let mc = \<lparr>mc_primary = 0, mc_camera = False, mc_macos = True\<rparr>;
       v = \<lparr>vw_id = 7, vw_source = Monitor, vw_display = 0, vw_multi_ui = False, vw_follow_window = False, vw_multi_ui_client = True\<rparr>;
       sv = snd (conn_capture_displays mc [] [] [0, 1] (v, server_new 5 []))
   in subscribed (snd (conn_capture_displays mc [] [1] [] (v, sv))) (get_service_name Monitor 1) 7 \<and>
      \<not> subscribed (snd (conn_capture_displays mc [] [1] [] (v, sv))) (get_service_name Monitor 0) 7"
proof -
  let ?mc = "\<lparr>mc_primary = 0, mc_camera = False, mc_macos = True\<rparr>"
  let ?v = "\<lparr>vw_id = 7, vw_source = Monitor, vw_display = 0, vw_multi_ui = False, vw_follow_window = False, vw_multi_ui_client = True\<rparr>"
  let ?sv = "snd (conn_capture_displays ?mc [] [] [0, 1] (?v, server_new 5 []))"
  have wf: "server_wf (server_new 5 [])" by (simp add: server_wf_def server_new_def)
  have "server_wf ?sv" using conn_capture_spec [OF wf, of ?mc "[]" "[]" "[0, 1]" ?v] by (metis prod.collapse)
  from capture_sub_keeps_listed [OF this, of "[1]" ?mc "[]" ?v] conn_capture_iff [OF wf, of ?mc "[]" "[]" "[0, 1]" ?v Monitor _ 7]
  show ?thesis by (simp add: Let_def)
qed

section \<open>A connection that has closed\<close>

text \<open>What happens to a server, and the connection it happens for; \<open>Snapshot\<close> is what a service's own thread
  does to its subscribers.\<close>

datatype server_op =
    AddConnection int "string list" | AddCameraConnection int | RemoveConnection int | Subscribe string int bool
  | Capture viewer "nat list" "nat list" "nat list" | SwitchDisplay viewer nat | SetVideoOpt "(video_source \<times> nat) option" string string
  | AddVideo video_source nat | Snapshot string

fun op_connection :: "server_op \<Rightarrow> int option" where
  "op_connection (AddConnection i _) = Some i"
| "op_connection (AddCameraConnection i) = Some i"
| "op_connection (RemoveConnection i) = Some i"
| "op_connection (Subscribe _ i _) = Some i"
| "op_connection (Capture v _ _ _) = Some (vw_id v)"
| "op_connection (SwitchDisplay v _) = Some (vw_id v)"
| "op_connection _ = None"

fun server_step :: "machine \<Rightarrow> server_op \<Rightarrow> server \<Rightarrow> server" where
  "server_step mc (AddConnection i noperms) sv = add_connection mc i noperms sv"
| "server_step mc (AddCameraConnection i) sv = add_camera_connection mc i sv"
| "server_step mc (RemoveConnection i) sv = remove_connection mc i sv"
| "server_step mc (Subscribe name i b) sv = subscribe mc name i b sv"
| "server_step mc (Capture v add sub sets) sv = snd (conn_capture_displays mc add sub sets (v, sv))"
| "server_step mc (SwitchDisplay v d) sv = snd (switch_display_to mc d (v, sv))"
| "server_step mc (SetVideoOpt display opt value) sv = set_video_service_opt display opt value sv"
| "server_step mc (AddVideo source d) sv = try_add_video_service source d sv"
| "server_step mc (Snapshot name) sv = map_services (\<lambda>k s. if k = name then swap_new_subscribes s else s) sv"

definition keeps :: "int \<Rightarrow> server \<Rightarrow> server \<Rightarrow> bool" where
  "keeps i sv sv' \<longleftrightarrow> server_wf sv' \<and> (\<forall>name. subscribed sv' name i = subscribed sv name i) \<and> (i \<in> set (sr_connections sv') \<longleftrightarrow> i \<in> set (sr_connections sv))"

lemma keeps_trans: "keeps i sv sv' \<Longrightarrow> keeps i sv' sv'' \<Longrightarrow> keeps i sv sv''"
  by (simp add: keeps_def)

lemma keeps_wf: "keeps i sv sv' \<Longrightarrow> server_wf sv'"
  by (simp add: keeps_def)

lemma map_services_keeps:
  assumes "server_wf sv" and "\<And>k s. service_wf s \<Longrightarrow> si_name (f k s) = si_name s \<and> service_wf (f k s) \<and> is_subed (f k s) i = is_subed s i"
  shows "keeps i sv (map_services f sv)"
proof -
  have "map_of (map (\<lambda>(k, s). (k, f k s)) ss) name = map_option (f name) (map_of ss name)" for ss name by (induction ss) auto
  then have "subscribed (map_services f sv) name i = subscribed sv name i" for name
    using assms wf_lookup by (auto simp: subscribed_def map_services_def split: option.splits)
  moreover have "server_wf (map_services f sv)"
    using assms by (auto simp: server_wf_def map_services_def list_all_iff split_beta comp_def)
  ultimately show ?thesis by (simp add: keeps_def map_services_def)
qed

lemma keeps_retina: "keeps i sv sv' \<Longrightarrow> keeps i sv (update_enable_retina mc sv')"
  by (simp add: keeps_def subscribed_def server_wf_cong [OF retina_services(1)])

lemma subscribe_connections [simp]: "sr_connections (subscribe mc name i b sv) = sr_connections sv"
  by (simp add: subscribe_def split: option.splits)

lemma subscribe_keeps: "server_wf sv \<Longrightarrow> i \<noteq> j \<Longrightarrow> keeps i sv (subscribe mc name j b sv)"
  by (simp add: keeps_def subscribe_wf subscribe_subscribed)

lemma try_add_connections [simp]: "sr_connections (try_add_video_service source d sv) = sr_connections sv"
  by (simp add: try_add_video_service_def add_service_def)

lemma try_add_keeps_all: "server_wf sv \<Longrightarrow> keeps i sv (try_add_video_service source d sv)"
  by (simp add: keeps_def try_add_keeps)

lemma fold_keeps: "(\<And>x sv. server_wf sv \<Longrightarrow> keeps i sv (f x sv)) \<Longrightarrow> server_wf sv \<Longrightarrow> keeps i sv (fold f xs sv)"
proof (induction xs arbitrary: sv)
  case (Cons x xs)
  then have one: "keeps i sv (f x sv)" by blast
  then have "keeps i (f x sv) (fold f xs (f x sv))" using Cons by (simp add: keeps_def)
  then show ?case using one keeps_trans by simp
qed (simp add: keeps_def)

lemma capture_keeps: "server_wf sv \<Longrightarrow> i \<noteq> j \<Longrightarrow> keeps i sv (capture_displays mc j source ds incl excl sv)"
  unfolding capture_displays_def by (rule fold_keeps) (auto simp: subscribe_keeps, auto simp: keeps_def)

lemma conn_capture_keeps:
  assumes "server_wf sv" "i \<noteq> vw_id v"
  shows "keeps i sv (snd (conn_capture_displays mc add sub sets (v, sv)))"
proof -
  let ?add = "fold (try_add_video_service (vw_source v))"
  have k1: "keeps i sv (?add sets (?add add sv))"
    using fold_keeps [of i "try_add_video_service (vw_source v)"] try_add_keeps_all assms(1) keeps_trans keeps_def by (metis (no_types, lifting))
  then have wf: "server_wf (?add sets (?add add sv))" by (simp add: keeps_def)
  let ?cap = "if add \<noteq> [] then capture_displays mc (vw_id v) (vw_source v) add True False (?add sets (?add add sv))
      else if sub \<noteq> [] then capture_displays mc (vw_id v) (vw_source v) sub False True (?add sets (?add add sv))
      else capture_displays mc (vw_id v) (vw_source v) sets True True (?add sets (?add add sv))"
  have k2: "keeps i sv ?cap"
    using keeps_trans [OF k1 capture_keeps [OF wf assms(2)]] by presburger
  moreover have "keeps i ?cap (subscribe mc NAME_WINDOW_FOCUS (vw_id v) b ?cap)" for b
    using subscribe_keeps [OF keeps_wf [OF k2] assms(2)] .
  ultimately have "keeps i sv (if vw_follow_window v then subscribe mc NAME_WINDOW_FOCUS (vw_id v) b ?cap else ?cap)" for b
    using keeps_trans by presburger
  moreover have "snd (conn_capture_displays mc add sub sets (v, sv)) =
      (if vw_follow_window v then subscribe mc NAME_WINDOW_FOCUS (vw_id v) (\<not> get_subbed_displays_count (vw_id v) ?cap > 1) ?cap else ?cap)"
    by (simp add: conn_capture_displays_def Let_def)
  ultimately show ?thesis by (simp only:)
qed

lemma server_step_keeps:
  assumes "server_wf sv" "op_connection op \<noteq> Some i"
  shows "keeps i sv (server_step mc op sv)"
proof (cases op)
  case (AddConnection j noperms)
  then have j: "i \<noteq> j" using assms(2) by auto
  have "keeps i sv (map_services (\<lambda>_ s. let name = si_name s in
      if is_video_service_name name \<and> name \<noteq> get_service_name Monitor (mc_primary mc) then s
      else if name \<notin> set noperms then on_subscribe j s else s) sv)"
    by (rule map_services_keeps) (use assms j in \<open>auto simp: Let_def on_subscribe_wf svc.sub_subed\<close>)
  then have "keeps i sv (update_enable_retina mc (map_services (\<lambda>_ s. let name = si_name s in
      if is_video_service_name name \<and> name \<noteq> get_service_name Monitor (mc_primary mc) then s
      else if name \<notin> set noperms then on_subscribe j s else s) sv))" by (rule keeps_retina)
  then show ?thesis using AddConnection j by (auto simp: add_connection_def keeps_def subscribed_def insert_connection_def server_wf_def)
next
  case (AddCameraConnection j)
  then have j: "i \<noteq> j" using assms(2) by auto
  have "keeps i sv (map_services (\<lambda>name s. if name = get_service_name Camera PRIMARY_CAMERA_IDX then on_subscribe j s else s) sv)"
    by (rule map_services_keeps) (use assms j in \<open>auto simp: on_subscribe_wf svc.sub_subed\<close>)
  then show ?thesis using AddCameraConnection j assms(1)
    by (auto simp: add_camera_connection_def keeps_def subscribed_def insert_connection_def server_wf_def)
next
  case (RemoveConnection j)
  then have j: "i \<noteq> j" using assms(2) by auto
  have "keeps i sv (map_services (\<lambda>_ s. on_unsubscribe j s) sv)"
    by (rule map_services_keeps) (use assms j in \<open>auto simp: on_unsubscribe_wf svc.unsub_subed\<close>)
  then have "keeps i sv ((map_services (\<lambda>_ s. on_unsubscribe j s) sv)\<lparr>sr_connections := removeAll j (sr_connections sv)\<rparr>)"
    using j by (auto simp: keeps_def subscribed_def server_wf_def)
  then show ?thesis using RemoveConnection by (simp add: remove_connection_def keeps_retina map_services_def)
next
  case (Subscribe name j b)
  then show ?thesis using subscribe_keeps assms by auto
next
  case (Capture v add sub sets)
  then show ?thesis using conn_capture_keeps assms by auto
next
  case (SwitchDisplay v d)
  then have v: "i \<noteq> vw_id v" using assms(2) by auto
  let ?sv1 = "if d \<noteq> mc_primary mc then try_add_video_service (vw_source v) d sv else sv"
  let ?sv2 = "if \<not> vw_multi_ui_client v then subscribe mc (get_service_name (vw_source v) (vw_display v)) (vw_id v) False ?sv1 else ?sv1"
  have k1: "keeps i sv ?sv1" using try_add_keeps_all assms(1) by (simp add: keeps_def)
  then have "keeps i ?sv1 ?sv2" using subscribe_keeps [OF _ v] by (simp add: keeps_def)
  then have k2: "keeps i sv ?sv2" using k1 keeps_trans by blast
  then have "keeps i ?sv2 (subscribe mc (get_service_name (vw_source v) d) (vw_id v) True ?sv2)" using subscribe_keeps [OF keeps_wf v] by blast
  then have "keeps i sv (subscribe mc (get_service_name (vw_source v) d) (vw_id v) True ?sv2)" using k2 keeps_trans by blast
  then show ?thesis using SwitchDisplay by (simp only: server_step.simps switch_display_to_def Let_def prod.case snd_conv)
next
  case (SetVideoOpt display opt val)
  then show ?thesis unfolding SetVideoOpt server_step.simps set_video_service_opt_def
    by (intro map_services_keeps) (use assms(1) in \<open>auto split: option.splits\<close>)
next
  case (AddVideo source d)
  then show ?thesis using try_add_keeps_all assms(1) by simp
next
  case (Snapshot name)
  then show ?thesis unfolding Snapshot server_step.simps
    by (intro map_services_keeps) (use assms(1) in \<open>auto simp: swap_wf swap_subed swap_name\<close>)
qed

text \<open>(C25) A closed connection is gone: once it is removed, whatever other connections, viewers and service
  threads do, no service has it among its subscribers, old or new, so nothing is sent to it again.\<close>

theorem removed_connection_is_gone:
  assumes "server_wf sv" and "list_all (\<lambda>op. op_connection op \<noteq> Some i) ops"
  shows "\<not> subscribed (fold (server_step mc) ops (remove_connection mc i sv)) name i \<and>
    i \<notin> set (sr_connections (fold (server_step mc) ops (remove_connection mc i sv)))"
proof -
  let ?sv0 = "(map_services (\<lambda>_ s. on_unsubscribe i s) sv)\<lparr>sr_connections := removeAll i (sr_connections sv)\<rparr>"
  have m: "map_of (map (\<lambda>(k, s). (k, on_unsubscribe i s)) ss) n = map_option (on_unsubscribe i) (map_of ss n)" for ss n by (induction ss) auto
  have wf: "server_wf (remove_connection mc i sv)"
  proof -
    have "server_wf ?sv0" using assms(1) on_unsubscribe_wf by (auto simp: server_wf_def map_services_def list_all_iff split_beta comp_def)
    then show ?thesis by (simp add: remove_connection_def server_wf_cong [OF retina_services(1)])
  qed
  have gone: "\<not> subscribed (remove_connection mc i sv) n i" for n
    using assms(1) wf_lookup svc.unsub_subed by (auto simp: subscribed_def remove_connection_def map_services_def m split: option.splits)
  have "keeps i s (fold (server_step mc) ops s)" if "server_wf s" for s
    using that assms(2)
  proof (induction ops arbitrary: s)
    case (Cons op ops)
    then have "keeps i s (server_step mc op s)" using server_step_keeps by simp
    then show ?case using Cons keeps_trans by (fastforce simp: keeps_def)
  qed (simp add: keeps_def)
  from this [OF wf] show ?thesis using gone by (simp add: keeps_def remove_connection_def)
qed

theorem removed_connection_is_gone_witness:
  "let mc = \<lparr>mc_primary = 0, mc_camera = False, mc_macos = True\<rparr>;
       sv = add_connection mc 7 [] (server_new 5 [service_tmpl_new ''audio'' False])
   in subscribed sv ''audio'' 7 \<and> \<not> subscribed (fold (server_step mc) [AddConnection 8 []] (remove_connection mc 7 sv)) ''audio'' 7"
proof -
  let ?mc = "\<lparr>mc_primary = 0, mc_camera = False, mc_macos = True\<rparr>"
  let ?sv = "add_connection ?mc 7 [] (server_new 5 [service_tmpl_new ''audio'' False])"
  have "subscribed ?sv ''audio'' 7" by code_simp
  moreover have "server_wf ?sv" by code_simp
  ultimately show ?thesis using removed_connection_is_gone [of ?sv 7 "[AddConnection 8 []]" ?mc "''audio''"] by (simp add: Let_def)
qed

text \<open>Connection numbers repeat only after the whole range of \<open>i32\<close>.\<close>

fun new_ids :: "nat \<Rightarrow> server \<Rightarrow> int list" where
  "new_ids 0 sv = []"
| "new_ids (Suc n) sv = (let (i, sv) = get_new_id sv in i # new_ids n sv)"

lemma new_ids_nth: "k < n \<Longrightarrow> new_ids n sv ! k = wrap_i32 (sr_id_count sv + int k + 1)"
proof (induction n arbitrary: k sv)
  case (Suc n)
  have w: "wrap_i32 (wrap_i32 a + b) = wrap_i32 (a + b)" for a b by (simp add: wrap_i32_def signed_take_bit_eq_take_bit_shift take_bit_eq_mod mod_simps algebra_simps)
  show ?case
  proof (cases k)
    case (Suc k')
    then show ?thesis using Suc.IH [of k'] Suc.prems w [of "sr_id_count sv + 1" "int k' + 1"] by (simp add: get_new_id_def Let_def algebra_simps)
  qed (simp add: get_new_id_def Let_def)
qed simp

end
