(* ===== verification/VideoLoop.thy ===== *)
theory VideoLoop
  imports Services
begin

text \<open>
  The loop that captures, encodes and sends one display, \<^verbatim>\<open>src/server/video_service.rs\<close> (\<open>run\<close>,
  \<open>handle_one_frame\<close>, \<open>VideoFrameController\<close>), as on macOS, interleaved with viewers that subscribe and
  unsubscribe. The loop's thread is cut where it takes the service's lock: between two of its steps any other
  thread may act. What the screen, the encoder, the quality control and the clock answer in an iteration is the
  record \<open>loop_input\<close>. A frame is the number of its encoder and its index among the frames of that encoder.
\<close>

section \<open>State\<close>

datatype video_pc = Stopped | Top | SnapTest | SnapOld | SnapSwap bool | Encode | Send

type_synonym frame = "nat \<times> nat"

text \<open>\<open>vl_encoder\<close> counts the encoders created, \<open>vl_index\<close> the frames the current one has put out;
  \<open>vl_restarts\<close> is \<open>NO_FIRST_FRAME_RESTARTS\<close>; the log is what was sent to whom.\<close>

record video_loop =
  vl_service :: service
  vl_pc :: video_pc
  vl_encoder :: nat
  vl_index :: nat
  vl_first_frame :: bool
  vl_encode_fail :: nat
  vl_repeat_encode :: nat
  vl_sent_any :: bool
  vl_have_yuv :: bool
  vl_restarts :: nat
  vl_log :: "(int \<times> frame) list"

datatype capture = ValidFrame | InvalidFrame | WouldBlock | CaptureError

datatype encode_result = Encoded | EncodeFailed bool

record loop_input =
  li_elapsed :: nat
  li_qos_switch :: bool
  li_codec_changed :: bool
  li_i444_changed :: bool
  li_privacy_changed :: bool
  li_check_displays :: bool
  li_display_changed :: bool
  li_topology_changed :: bool
  li_settled_changed :: bool
  li_frame_dropped :: bool
  li_capture :: capture
  li_latency_free :: bool
  li_hardware :: bool
  li_encode :: encode_result

definition OPTION_REFRESH :: string where "OPTION_REFRESH = ''refresh''"
definition repeat_encode_max :: nat where "repeat_encode_max = 10"
definition max_fail_times :: nat where "max_fail_times = 3"

section \<open>The steps of the loop\<close>

text \<open>\<open>run\<close> up to its loop, entered when the service has subscribers and the encoder could be set up.\<close>

definition loop_start :: "video_loop \<Rightarrow> video_loop" where
  "loop_start s =
     (if si_active (vl_service s) \<and> has_subscribes (vl_service s) then
        s\<lparr>vl_pc := Top, vl_encoder := vl_encoder s + 1, vl_index := 0, vl_first_frame := True, vl_encode_fail := 0,
          vl_repeat_encode := 0, vl_sent_any := False, vl_have_yuv := False,
          vl_service := (if is_option_true (vl_service s) OPTION_REFRESH then set_option_bool OPTION_REFRESH False (vl_service s) else vl_service s)\<rparr>
      else s)"

text \<open>\<open>bail!\<close>: the thread leaves \<open>run\<close> and comes back with a new capturer and encoder.\<close>

definition bail :: "video_loop \<Rightarrow> video_loop" where
  "bail s = s\<lparr>vl_pc := Stopped\<rparr>"

text \<open>\<open>try_broadcast_display_changed\<close>: when the display has changed all subscribers, new ones too, are told, and
  the loop is left.\<close>

definition try_broadcast_display_changed :: "bool \<Rightarrow> video_loop \<Rightarrow> bool \<times> video_loop" where
  "try_broadcast_display_changed changed s =
     (if changed then (True, s\<lparr>vl_service := snd (snapshot (\<lambda>_. ()) () (vl_service s))\<rparr>) else (False, s))"

text \<open>An encoder that delays frames is fed the last picture again when there is no new one. A frame is dropped and the loop left
  (\<open>li_frame_dropped\<close>) when a screenshot is asked of a texture, when the encoder was changed for one, and when the
  frame cannot be converted.\<close>

definition capture_step :: "loop_input \<Rightarrow> video_loop \<Rightarrow> video_loop" where
  "capture_step i s =
     (case li_capture i of
        ValidFrame \<Rightarrow>
          if li_frame_dropped i then bail (s\<lparr>vl_repeat_encode := 0\<rparr>)
          else s\<lparr>vl_repeat_encode := 0, vl_have_yuv := True, vl_pc := SnapTest\<rparr>
      | InvalidFrame \<Rightarrow> s\<lparr>vl_repeat_encode := 0\<rparr>
      | WouldBlock \<Rightarrow>
          if \<not> li_latency_free i \<and> vl_have_yuv s \<and> vl_repeat_encode s < repeat_encode_max
          then s\<lparr>vl_repeat_encode := vl_repeat_encode s + 1, vl_pc := SnapTest\<rparr> else s
      | CaptureError \<Rightarrow> bail (snd (try_broadcast_display_changed (li_display_changed i) s)))"

text \<open>A change of the topology waits until the displays have settled, tells the viewers if this one has changed by then, and
  leaves the loop in any case.\<close>

definition top_step :: "loop_input \<Rightarrow> video_loop \<Rightarrow> video_loop" where
  "top_step i s =
     (if \<not> service_ok (vl_service s) then s\<lparr>vl_pc := Stopped\<rparr>
      else
        let late = (\<not> vl_sent_any s \<and> li_elapsed i > 2000);
            n = vl_restarts s;
            s = (if vl_sent_any s then s\<lparr>vl_restarts := 0\<rparr> else if late then s\<lparr>vl_restarts := n + 1\<rparr> else s)
        in if late \<and> n < 3 then bail s
           else if li_qos_switch i then bail s
           else if is_option_true (vl_service s) OPTION_REFRESH then bail (snd (try_broadcast_display_changed (li_display_changed i) s))
           else if li_codec_changed i \<or> li_i444_changed i then bail s
           else if li_privacy_changed i then bail (snd (try_broadcast_display_changed (li_display_changed i) s))
           else
             let (changed, s) = (if li_check_displays i then try_broadcast_display_changed (li_display_changed i) s else (False, s))
             in if changed then bail s
                else if li_check_displays i \<and> li_topology_changed i then bail (snd (try_broadcast_display_changed (li_settled_changed i) s))
                else capture_step i s)"

text \<open>\<open>handle_one_frame\<close>: the snapshot, which makes the new subscribers subscribers and leaves the loop when there
  were others before, in three steps; then the encoder; then the frame is sent.\<close>

definition snap_test :: "video_loop \<Rightarrow> video_loop" where
  "snap_test s = s\<lparr>vl_pc := (if si_new_subscribes (vl_service s) \<noteq> [] then SnapOld else Encode)\<rparr>"

definition snap_old :: "video_loop \<Rightarrow> video_loop" where
  "snap_old s = s\<lparr>vl_pc := SnapSwap (si_subscribes (vl_service s) \<noteq> [])\<rparr>"

definition snap_swap :: "bool \<Rightarrow> video_loop \<Rightarrow> video_loop" where
  "snap_swap old s = s\<lparr>vl_service := swap_new_subscribes (vl_service s), vl_pc := (if old then Stopped else Encode)\<rparr>"

definition encode_step :: "loop_input \<Rightarrow> video_loop \<Rightarrow> video_loop" where
  "encode_step i s =
     (let first = vl_first_frame s; s = s\<lparr>vl_first_frame := False\<rparr> in
      case li_encode i of
        Encoded \<Rightarrow> s\<lparr>vl_encode_fail := 0, vl_pc := Send\<rparr>
      | EncodeFailed need_switch \<Rightarrow>
          let s = s\<lparr>vl_encode_fail := vl_encode_fail s + 1\<rparr>;
              give_up = (first \<and> li_latency_free i \<or> vl_encode_fail s \<ge> max_fail_times);
              s = (if give_up then s\<lparr>vl_encode_fail := 0\<rparr> else s)
          in if give_up \<and> li_hardware i then bail s
             else if need_switch then bail s
             else s\<lparr>vl_pc := Top\<rparr>)"

definition send_step :: "video_loop \<Rightarrow> video_loop" where
  "send_step s =
     (let receivers = send_video_frame (vl_service s) in
      s\<lparr>vl_log := vl_log s @ map (\<lambda>i. (i, (vl_encoder s, vl_index s))) receivers, vl_index := vl_index s + 1,
        vl_sent_any := (vl_sent_any s \<or> receivers \<noteq> []), vl_pc := Top\<rparr>)"

definition thread_step :: "loop_input \<Rightarrow> video_loop \<Rightarrow> video_loop" where
  "thread_step i s =
     (case vl_pc s of
        Stopped \<Rightarrow> loop_start s
      | Top \<Rightarrow> top_step i s
      | SnapTest \<Rightarrow> snap_test s
      | SnapOld \<Rightarrow> snap_old s
      | SnapSwap old \<Rightarrow> snap_swap old s
      | Encode \<Rightarrow> encode_step i s
      | Send \<Rightarrow> send_step s)"

section \<open>Interleaving\<close>

datatype video_event = Thread loop_input | Join int | Leave int | Refresh

definition video_event_step :: "video_event \<Rightarrow> video_loop \<Rightarrow> video_loop" where
  "video_event_step ev s =
     (case ev of
        Thread i \<Rightarrow> thread_step i s
      | Join c \<Rightarrow> s\<lparr>vl_service := on_subscribe c (vl_service s)\<rparr>
      | Leave c \<Rightarrow> s\<lparr>vl_service := on_unsubscribe c (vl_service s)\<rparr>
      | Refresh \<Rightarrow> s\<lparr>vl_service := set_option OPTION_REFRESH SERVICE_OPTION_VALUE_TRUE (vl_service s)\<rparr>)"

inductive video_run :: "video_event list \<Rightarrow> video_loop \<Rightarrow> video_loop \<Rightarrow> bool" where
  init: "video_run [] s s"
| step: "video_run evs s s' \<Longrightarrow> video_run (evs @ [ev]) s (video_event_step ev s')"

inductive_cases video_run_snocE: "video_run (evs @ [ev]) s s'"

definition video_loop_new :: "video_source \<Rightarrow> nat \<Rightarrow> video_loop" where
  "video_loop_new source idx =
     \<lparr>vl_service = video_service_new source idx, vl_pc = Stopped, vl_encoder = 0, vl_index = 0, vl_first_frame = True, vl_encode_fail = 0,
      vl_repeat_encode = 0, vl_sent_any = False, vl_have_yuv = False, vl_restarts = 0, vl_log = []\<rparr>"

section \<open>What a viewer can decode\<close>

text \<open>A frame can be decoded by a viewer if it is the first of its encoder or follows the frame the viewer was
  sent last.\<close>

definition last_frame :: "int \<Rightarrow> (int \<times> frame) list \<Rightarrow> frame option" where
  "last_frame i log = map_of (rev log) i"

definition follows :: "frame \<Rightarrow> frame option \<Rightarrow> bool" where
  "follows f prev \<longleftrightarrow> snd f = 0 \<or> prev = Some (fst f, snd f - 1)"

fun gapless_from :: "(int \<times> frame) list \<Rightarrow> (int \<times> frame) list \<Rightarrow> bool" where
  "gapless_from before [] \<longleftrightarrow> True"
| "gapless_from before ((i, f) # log) \<longleftrightarrow> follows f (last_frame i before) \<and> gapless_from (before @ [(i, f)]) log"

definition gapless :: "(int \<times> frame) list \<Rightarrow> bool" where
  "gapless log = gapless_from [] log"

lemma gapless_from_append: "gapless_from before (xs @ ys) \<longleftrightarrow> gapless_from before xs \<and> gapless_from (before @ xs) ys"
  by (induction xs arbitrary: before) auto

lemma last_frame_append: "last_frame i (xs @ ys) = (case last_frame i ys of Some f \<Rightarrow> Some f | None \<Rightarrow> last_frame i xs)"
  by (auto simp: last_frame_def map_add_def split: option.splits)

lemma last_frame_sent: "last_frame i (map (\<lambda>j. (j, f)) js) = (if i \<in> set js then Some f else None)"
  by (induction js) (auto simp: last_frame_def map_add_def split: option.splits)

lemma gapless_send:
  assumes "gapless log" "distinct js" "\<And>i. i \<in> set js \<Longrightarrow> follows f (last_frame i log)"
  shows "gapless (log @ map (\<lambda>j. (j, f)) js)"
proof -
  have "gapless_from (log @ map (\<lambda>j. (j, f)) sent) (map (\<lambda>j. (j, f)) js)" if "distinct (sent @ js)" "\<And>i. i \<in> set js \<Longrightarrow> follows f (last_frame i log)" for sent
    using that
  proof (induction js arbitrary: sent)
    case (Cons j js)
    have "last_frame j (log @ map (\<lambda>j. (j, f)) sent) = last_frame j log" using Cons.prems(1) by (simp add: last_frame_append last_frame_sent)
    then show ?case using Cons.prems Cons.IH [of "sent @ [j]"] by simp
  qed simp
  from this [of "[]"] show ?thesis using assms by (simp add: gapless_def gapless_from_append)
qed

section \<open>As long as one viewer stays\<close>

definition stream_inv :: "int \<Rightarrow> video_loop \<Rightarrow> bool" where
  "stream_inv w s \<longleftrightarrow>
     service_wf (vl_service s) \<and> si_need_snapshot (vl_service s) \<and> is_subed (vl_service s) w \<and> gapless (vl_log s) \<and>
     (vl_pc s \<noteq> Stopped \<longrightarrow> (\<forall>i \<in> set (si_subscribes (vl_service s)). follows (vl_encoder s, vl_index s) (last_frame i (vl_log s)))) \<and>
     (vl_pc s \<noteq> Stopped \<and> vl_index s > 0 \<longrightarrow> w \<in> set (si_subscribes (vl_service s))) \<and>
     (vl_pc s \<in> {Encode, Send} \<longrightarrow> w \<in> set (si_subscribes (vl_service s))) \<and>
     (vl_pc s = SnapSwap False \<longrightarrow> vl_index s = 0)"

lemma follows_0 [simp]: "follows (e, 0) f"
  by (simp add: follows_def)

lemma need_snapshot_kept [simp]:
  "si_need_snapshot (swap_new_subscribes s) = si_need_snapshot s" "si_need_snapshot (set_option opt val s) = si_need_snapshot s"
  "si_need_snapshot (set_option_bool opt b s) = si_need_snapshot s" "si_need_snapshot (on_subscribe c s) = si_need_snapshot s"
  "si_need_snapshot (on_unsubscribe c s) = si_need_snapshot s"
  by (simp_all add: swap_new_subscribes_def set_option_def set_option_bool_def on_subscribe_def on_unsubscribe_def)

lemma set_option_bool_subed [simp]:
  "is_subed (set_option_bool opt b s) i = is_subed s i" "service_wf (set_option_bool opt b s) = service_wf s"
  by (simp_all add: set_option_bool_def)

text \<open>Leaving the loop keeps the invariant whatever the subscribers are then.\<close>

lemma bail_inv:
  assumes "service_wf (vl_service s)" "si_need_snapshot (vl_service s)" "is_subed (vl_service s) w" "gapless (vl_log s)"
  shows "stream_inv w (bail s)"
  using assms by (simp add: stream_inv_def bail_def)

lemma stream_inv_base:
  "stream_inv w s \<Longrightarrow> service_wf (vl_service s) \<and> si_need_snapshot (vl_service s) \<and> is_subed (vl_service s) w \<and> gapless (vl_log s)"
  by (simp add: stream_inv_def)

lemma broadcast_base:
  assumes "stream_inv w s" "try_broadcast_display_changed changed s = (b, s')"
  shows "stream_inv w (bail s')" "\<not> b \<Longrightarrow> s' = s"
proof -
  have "service_wf (vl_service s') \<and> si_need_snapshot (vl_service s') \<and> is_subed (vl_service s') w \<and> gapless (vl_log s')"
    using assms stream_inv_base [OF assms(1)] swap_wf swap_subed by (auto simp: try_broadcast_display_changed_def snapshot_def split: if_splits)
  then show "stream_inv w (bail s')" using bail_inv by blast
  show "\<not> b \<Longrightarrow> s' = s" using assms(2) by (auto simp: try_broadcast_display_changed_def split: if_splits)
qed

lemma bail_stream: "stream_inv w s \<Longrightarrow> stream_inv w (bail s)"
  using bail_inv stream_inv_base by blast

lemma capture_inv:
  assumes "stream_inv w s" "vl_pc s = Top"
  shows "stream_inv w (capture_step i s)"
proof (cases "li_capture i")
  case CaptureError
  then show ?thesis using broadcast_base(1) [OF assms(1)] by (cases "try_broadcast_display_changed (li_display_changed i) s") (simp add: capture_step_def)
qed (use assms in \<open>auto simp: capture_step_def stream_inv_def bail_def\<close>)

lemma top_inv:
  assumes "stream_inv w s" "vl_pc s = Top"
  shows "stream_inv w (top_step i s)"
proof -
  define s1 where "s1 = (if vl_sent_any s then s\<lparr>vl_restarts := 0\<rparr>
    else if \<not> vl_sent_any s \<and> li_elapsed i > 2000 then s\<lparr>vl_restarts := vl_restarts s + 1\<rparr> else s)"
  have s1: "stream_inv w s1" "vl_pc s1 = Top" using assms by (auto simp: s1_def stream_inv_def)
  obtain c s2 where b: "try_broadcast_display_changed (li_display_changed i) s1 = (c, s2)" by fastforce
  have "stream_inv w (s\<lparr>vl_pc := Stopped\<rparr>)" using bail_stream [OF assms(1)] by (simp add: bail_def)
  moreover have "stream_inv w (bail (s\<lparr>vl_restarts := Suc (vl_restarts s)\<rparr>))"
    using stream_inv_base [OF assms(1)] by (intro bail_inv) simp_all
  moreover have "stream_inv w (bail s1)" "stream_inv w (bail s2)" "stream_inv w (capture_step i s1)" "\<not> c \<Longrightarrow> s2 = s1"
    using bail_stream [OF s1(1)] broadcast_base [OF s1(1) b] capture_inv [OF s1] by auto
  moreover have "stream_inv w (bail (snd (try_broadcast_display_changed (li_settled_changed i) s1)))"
    using broadcast_base(1) [OF s1(1)] by (metis prod.collapse)
  ultimately show ?thesis by (auto simp: top_step_def Let_def s1_def [symmetric] b)
qed

lemma encode_inv: "stream_inv w s \<Longrightarrow> vl_pc s = Encode \<Longrightarrow> stream_inv w (encode_step i s)"
  by (auto simp: stream_inv_def encode_step_def bail_def Let_def split: encode_result.splits)

lemma send_inv:
  assumes "stream_inv w s" "vl_pc s = Send"
  shows "stream_inv w (send_step s)"
proof -
  let ?f = "(vl_encoder s, vl_index s)"
  let ?subs = "si_subscribes (vl_service s)"
  have "gapless (vl_log s @ map (\<lambda>i. (i, ?f)) ?subs)"
    by (rule gapless_send) (use assms in \<open>auto simp: stream_inv_def service_wf_def\<close>)
  moreover have "follows (vl_encoder s, Suc (vl_index s)) (last_frame i (vl_log s @ map (\<lambda>i. (i, ?f)) ?subs))" if "i \<in> set ?subs" for i
    using that by (simp add: last_frame_append last_frame_sent follows_def)
  ultimately show ?thesis using assms by (simp add: stream_inv_def send_step_def send_video_frame_def Let_def)
qed

lemma thread_inv:
  assumes "stream_inv w s"
  shows "stream_inv w (thread_step i s)"
proof (cases "vl_pc s")
  case Stopped
  then show ?thesis using assms by (simp add: thread_step_def loop_start_def stream_inv_def)
next
  case SnapTest
  then show ?thesis using assms by (auto simp: thread_step_def snap_test_def stream_inv_def is_subed_def)
next
  case SnapOld
  then show ?thesis using assms by (auto simp: thread_step_def snap_old_def stream_inv_def)
next
  case (SnapSwap old)
  then show ?thesis
  proof (cases old)
    case True
    then show ?thesis using assms SnapSwap by (simp add: thread_step_def snap_swap_def stream_inv_def swap_wf swap_subed)
  next
    case False
    then have "w \<in> set (si_subscribes (swap_new_subscribes (vl_service s)))"
      using assms by (auto simp: stream_inv_def is_subed_def swap_new_subscribes_def set_fold_push_new)
    then show ?thesis using assms SnapSwap False by (simp add: thread_step_def snap_swap_def stream_inv_def swap_wf swap_subed)
  qed
qed (use assms top_inv encode_inv send_inv in \<open>auto simp: thread_step_def\<close>)

lemma video_event_inv:
  assumes "stream_inv w s" "ev \<noteq> Leave w"
  shows "stream_inv w (video_event_step ev s)"
proof (cases ev)
  case (Thread i)
  then show ?thesis using thread_inv assms(1) by (simp add: video_event_step_def)
next
  case (Join c)
  have "si_subscribes (on_subscribe c (vl_service s)) = si_subscribes (vl_service s)" using assms(1) by (auto simp: stream_inv_def on_subscribe_def)
  then show ?thesis using Join assms(1) by (auto simp: video_event_step_def stream_inv_def on_subscribe_wf svc.sub_subed)
next
  case (Leave c)
  then have c: "c \<noteq> w" using assms(2) by auto
  have "set (si_subscribes (on_unsubscribe c (vl_service s))) = set (si_subscribes (vl_service s)) - {c}" by (auto simp: on_unsubscribe_def)
  then show ?thesis using Leave assms(1) c by (auto simp: video_event_step_def stream_inv_def on_unsubscribe_wf svc.unsub_subed)
next
  case Refresh
  then show ?thesis using assms(1) by (simp add: video_event_step_def stream_inv_def) (auto simp: set_option_def)
qed

lemma video_run_inv: "video_run evs s0 s \<Longrightarrow> stream_inv w s0 \<Longrightarrow> Leave w \<notin> set evs \<Longrightarrow> stream_inv w s"
  by (induction rule: video_run.induct) (auto intro: video_event_inv)

text \<open>(C5) Every viewer can decode what it is sent: from the moment a viewer joins a stopped video loop and for as
  long as it stays, whoever else joins and leaves and whenever they do, whatever the screen and the encoder do,
  each frame sent to any viewer is the first of its encoder or follows the frame that viewer was sent last.\<close>

theorem viewers_start_with_first_frame:
  assumes "video_run evs ((video_loop_new source d)\<lparr>vl_service := on_subscribe w (video_service_new source d)\<rparr>) s" and "Leave w \<notin> set evs"
  shows "gapless (vl_log s)"
proof -
  let ?s0 = "(video_loop_new source d)\<lparr>vl_service := on_subscribe w (video_service_new source d)\<rparr>"
  have "stream_inv w ?s0"
    by (simp add: stream_inv_def video_loop_new_def video_service_new_def service_tmpl_new_def on_subscribe_def service_wf_def is_subed_def gapless_def)
  with video_run_inv assms have "stream_inv w s" by blast
  then show ?thesis by (simp add: stream_inv_def)
qed

lemma video_run_fold: "video_run evs s (fold video_event_step evs s)"
proof (induction evs rule: rev_induct)
  case (snoc ev evs)
  then show ?case using video_run.step by simp
qed (simp add: video_run.init)

text \<open>A screen that gives a picture each time and an encoder that works.\<close>

definition steady :: loop_input where
  "steady = \<lparr>li_elapsed = 0, li_qos_switch = False, li_codec_changed = False, li_i444_changed = False, li_privacy_changed = False,
     li_check_displays = False, li_display_changed = False, li_topology_changed = False, li_settled_changed = False, li_frame_dropped = False, li_capture = ValidFrame, li_latency_free = True,
     li_hardware = False, li_encode = Encoded\<rparr>"

definition joined_loop :: "int \<Rightarrow> video_loop" where
  "joined_loop w = (video_loop_new Monitor 0)\<lparr>vl_service := on_subscribe w (video_service_new Monitor 0)\<rparr>"

theorem viewers_start_with_first_frame_witness:
  "let s = fold video_event_step (replicate 7 (Thread steady) @ [Join 2] @ replicate 10 (Thread steady)) (joined_loop 1)
   in vl_log s = [(1, (1, 0)), (1, (2, 0)), (2, (2, 0))] \<and> gapless (vl_log s)"
proof -
  let ?evs = "replicate 7 (Thread steady) @ [Join 2] @ replicate 10 (Thread steady)"
  have log: "vl_log (fold video_event_step ?evs (joined_loop 1)) = [(1, (1, 0)), (1, (2, 0)), (2, (2, 0))]" by code_simp
  have "Leave 1 \<notin> set ?evs" by auto
  from viewers_start_with_first_frame [OF video_run_fold [of ?evs "joined_loop 1", unfolded joined_loop_def] this]
  show ?thesis using log by (simp add: Let_def joined_loop_def)
qed

text \<open>When the only viewer leaves and another joins before the loop looks again, the loop goes on with its
  encoder: the new viewer's first frame is one from the middle of the stream, which it cannot decode.\<close>

theorem handover_starts_mid_stream:
  "vl_log (fold video_event_step (replicate 11 (Thread steady) @ [Leave 1, Join 2] @ replicate 6 (Thread steady)) (joined_loop 1)) =
     [(1, (1, 0)), (1, (1, 1)), (2, (1, 2))] \<and>
   \<not> gapless [(1, (1, 0)), (1, (1, 1)), (2, (1, 2))]"
proof
  show "vl_log (fold video_event_step (replicate 11 (Thread steady) @ [Leave 1, Join 2] @ replicate 6 (Thread steady)) (joined_loop 1)) =
     [(1, (1, 0)), (1, (1, 1)), (2, (1, 2))]" by code_simp
  show "\<not> gapless [(1, (1, 0)), (1, (1, 1)), (2, (1, 2))]" by (simp add: gapless_def follows_def last_frame_def)
qed

section \<open>Waiting for the viewers\<close>

text \<open>\<open>VideoFrameController\<close> and the end of an iteration: the loop waits until as many viewers have fetched the
  frame as it was sent to, three seconds at most. A round of waiting is what came in (nothing when it timed out
  after 300 ms) and how long it took. The result is the viewers counted and the time spent; \<open>None\<close> means the
  rounds given are not enough.\<close>

record frame_controller =
  fc_cur :: nat
  fc_send_conn_ids :: "int list"

definition fc_reset :: "frame_controller \<Rightarrow> frame_controller" where
  "fc_reset fc = fc\<lparr>fc_send_conn_ids := []\<rparr>"

definition set_send :: "nat \<Rightarrow> int list \<Rightarrow> frame_controller \<times> int list option \<Rightarrow> frame_controller \<times> int list option" where
  "set_send tm conn_ids fd =
     (if conn_ids \<noteq> [] then ((fst fd)\<lparr>fc_cur := tm, fc_send_conn_ids := conn_ids\<rparr>, Some conn_ids) else fd)"

definition try_wait_next :: "frame_controller \<Rightarrow> int list \<Rightarrow> int list \<Rightarrow> int list" where
  "try_wait_next fc arrived fetched = (if fc_send_conn_ids fc = [] then fetched else fold push_new arrived fetched)"

definition WAIT_MILLIS :: nat where "WAIT_MILLIS = 3000"

fun wait_frame :: "frame_controller \<Rightarrow> (nat \<times> int list) list \<Rightarrow> nat \<Rightarrow> int list \<Rightarrow> (int list \<times> nat) option" where
  "wait_frame fc rounds elapsed fetched =
     (if elapsed < WAIT_MILLIS then
        (case rounds of
           [] \<Rightarrow> None
         | (dt, arrived) # rounds \<Rightarrow>
             let fetched = try_wait_next fc arrived fetched in
             if length fetched \<ge> length (fc_send_conn_ids fc) then Some (fetched, elapsed + dt)
             else wait_frame fc rounds (elapsed + dt) fetched)
      else Some (fetched, elapsed))"

declare wait_frame.simps [simp del]

lemma wait_frame_Nil: "wait_frame fc [] elapsed fetched = (if elapsed < WAIT_MILLIS then None else Some (fetched, elapsed))"
  by (subst wait_frame.simps) simp

lemma wait_frame_Cons:
  "wait_frame fc ((dt, arrived) # rounds) elapsed fetched =
     (if elapsed < WAIT_MILLIS then
        (if length (try_wait_next fc arrived fetched) \<ge> length (fc_send_conn_ids fc) then Some (try_wait_next fc arrived fetched, elapsed + dt)
         else wait_frame fc rounds (elapsed + dt) (try_wait_next fc arrived fetched))
      else Some (fetched, elapsed))"
  by (subst wait_frame.simps) (simp add: Let_def)

lemma try_wait_next_set: "fc_send_conn_ids fc \<noteq> [] \<Longrightarrow> set (try_wait_next fc arrived fetched) = set arrived \<union> set fetched"
  by (auto simp: try_wait_next_def set_fold_push_new)

lemma try_wait_next_distinct: "distinct fetched \<Longrightarrow> distinct (try_wait_next fc arrived fetched)"
  by (simp add: try_wait_next_def distinct_fold_push_new)

lemma wait_frame_returns:
  assumes "elapsed + sum_list (map fst rounds) \<ge> WAIT_MILLIS"
  shows "\<exists>r. wait_frame fc rounds elapsed fetched = Some r"
  using assms
proof (induction rounds arbitrary: elapsed fetched)
  case Nil
  then show ?case by (simp add: wait_frame_Nil)
next
  case (Cons r rounds)
  obtain dt arrived where r: "r = (dt, arrived)" by (cases r)
  show ?case using Cons.IH [of "elapsed + dt"] Cons.prems by (simp add: r wait_frame_Cons)
qed

lemma wait_frame_result:
  assumes "wait_frame fc rounds elapsed fetched = Some (ids, t)" "list_all (\<lambda>(dt, arrived). dt \<le> 300 \<and> set arrived \<subseteq> A) rounds"
    "elapsed < WAIT_MILLIS + 300" "set fetched \<subseteq> A" "distinct fetched"
  shows "t < WAIT_MILLIS + 300 \<and> set ids \<subseteq> A \<and> distinct ids \<and> (length ids \<ge> length (fc_send_conn_ids fc) \<or> t \<ge> WAIT_MILLIS)"
  using assms
proof (induction rounds arbitrary: elapsed fetched)
  case Nil
  then show ?case by (auto simp: wait_frame_Nil split: if_splits)
next
  case (Cons r rounds)
  obtain dt arrived where r: "r = (dt, arrived)" by (cases r)
  show ?case
  proof (cases "elapsed < WAIT_MILLIS")
    case True
    let ?f = "try_wait_next fc arrived fetched"
    have f: "set ?f \<subseteq> A" "distinct ?f"
      using Cons.prems(2,4,5) r try_wait_next_distinct by (auto simp: try_wait_next_def set_fold_push_new)
    have dt: "elapsed + dt < WAIT_MILLIS + 300" using True Cons.prems(2) r by simp
    show ?thesis
    proof (cases "length ?f \<ge> length (fc_send_conn_ids fc)")
      case enough: True
      then show ?thesis using Cons.prems(1) True r f dt by (simp add: wait_frame_Cons)
    next
      case False
      then have "wait_frame fc rounds (elapsed + dt) ?f = Some (ids, t)"
        using Cons.prems(1) True r by (simp add: wait_frame_Cons)
      then show ?thesis using Cons.IH [OF _ _ dt f] Cons.prems(2) by simp
    qed
  next
    case False
    then show ?thesis using Cons.prems r by (auto simp: wait_frame_Cons)
  qed
qed

text \<open>The loop never waits for a frame much longer than three seconds: given rounds that make up three seconds
  it returns, before 3.3 seconds; and if only the viewers the frame was sent to answer while it waits, it either has
  heard from every one of them or has waited the three seconds.\<close>

theorem frame_wait_bounded:
  assumes "sum_list (map fst rounds) \<ge> WAIT_MILLIS" and "list_all (\<lambda>(dt, arrived). dt \<le> 300 \<and> set arrived \<subseteq> set (fc_send_conn_ids fc)) rounds"
    and "distinct (fc_send_conn_ids fc)"
  shows "\<exists>ids t. wait_frame fc rounds 0 [] = Some (ids, t) \<and> t < 3300 \<and> (set ids = set (fc_send_conn_ids fc) \<or> t \<ge> 3000)"
proof -
  obtain ids t where w: "wait_frame fc rounds 0 [] = Some (ids, t)" using wait_frame_returns [of 0 rounds fc "[]"] assms(1) by auto
  have r: "t < WAIT_MILLIS + 300 \<and> set ids \<subseteq> set (fc_send_conn_ids fc) \<and> distinct ids \<and> (length ids \<ge> length (fc_send_conn_ids fc) \<or> t \<ge> WAIT_MILLIS)"
    by (rule wait_frame_result [OF w assms(2)]) (simp_all add: WAIT_MILLIS_def)
  have "set ids = set (fc_send_conn_ids fc)" if "length ids \<ge> length (fc_send_conn_ids fc)"
    using r that assms(3) by (metis card_seteq distinct_card finite_set)
  then show ?thesis using w r by (auto simp: WAIT_MILLIS_def)
qed

theorem frame_wait_bounded_witness:
  "\<exists>ids t. wait_frame \<lparr>fc_cur = 0, fc_send_conn_ids = [1, 2]\<rparr> ((40, [2]) # replicate 10 (300, [])) 0 [] = Some (ids, t) \<and> t < 3300 \<and>
     (set ids = {1, 2} \<or> t \<ge> 3000)"
  using frame_wait_bounded [of "(40, [2]) # replicate 10 (300, [])" "\<lparr>fc_cur = 0, fc_send_conn_ids = [1, 2]\<rparr>"]
  by (simp add: WAIT_MILLIS_def sum_list_replicate list_all_iff)

text \<open>An answer is not tied to its frame: one that comes late, after the wait for its frame was given up, is
  taken for the next frame, and the loop goes on although nobody has fetched that one.\<close>

theorem late_answer_releases_next_frame:
  "wait_frame \<lparr>fc_cur = 0, fc_send_conn_ids = [v]\<rparr> (replicate 10 (300, [])) 0 [] = Some ([], 3000) \<and>
   wait_frame \<lparr>fc_cur = 3033, fc_send_conn_ids = [v]\<rparr> ((0, [v]) # rounds) 0 [] = Some ([v], 0)"
proof -
  have e: "wait_frame \<lparr>fc_cur = 0, fc_send_conn_ids = [v]\<rparr> (replicate n (300, [])) (3000 - 300 * n) [] = Some ([], 3000)" if "n \<le> 10" for n
    using that
  proof (induction n)
    case (Suc n)
    then have "3000 - 300 * Suc n + 300 = 3000 - 300 * n" "3000 - 300 * Suc n < (3000 :: nat)" by simp_all
    then show ?case using Suc by (simp add: wait_frame_Cons WAIT_MILLIS_def try_wait_next_def)
  qed (simp add: wait_frame_Nil WAIT_MILLIS_def)
  have "wait_frame \<lparr>fc_cur = 3033, fc_send_conn_ids = [v]\<rparr> ((0, [v]) # rounds) 0 [] = Some ([v], 0)"
    by (simp add: wait_frame_Cons WAIT_MILLIS_def try_wait_next_def push_new_def)
  then show ?thesis using e [of 10] by simp
qed

end
