(* ===== verification/VideoCodec.thy ===== *)
theory VideoCodec
  imports Messages Options Float32
begin

text \<open>
  The choice of the video codec, \<^verbatim>\<open>libs/scrap/src/common/codec.rs\<close> (\<open>Encoder::update\<close> and the other functions
  of \<open>Encoder\<close> that keep the chosen format, what a client announces and how its decoder takes a frame) and
  \<^verbatim>\<open>src/server/video_service.rs\<close> (\<open>get_encoder_config\<close>, \<open>setup_encoder\<close>). The peers' abilities are an association
  list in the iteration order of the \<open>HashMap\<close>. What the hardware libraries offer, the options and the size of
  the memory are the record \<open>codec_host\<close>; whether an encoder or decoder could be created is an argument. The peers' abilities and
  the chosen format have a lock each; setting up an encoder takes them one after the other and is one step here, so no viewer
  announces, joins or leaves while it runs (a loop that is running compares the format again in each of its rounds).
\<close>

section \<open>Data\<close>

datatype codec_format = VP8 | VP9 | AV1 | H264 | H265 | UnknownFormat

datatype prefer_codec = PreferAuto | PreferVP9 | PreferH264 | PreferH265 | PreferVP8 | PreferAV1

datatype chroma = I420 | I444

record codec_ability =
  ca_vp9 :: bool
  ca_av1 :: bool

record peer_decoding =
  pd_vp9 :: int
  pd_h264 :: int
  pd_h265 :: int
  pd_prefer :: "prefer_codec enum_or_unknown"
  pd_vp8 :: int
  pd_av1 :: int
  pd_i444 :: codec_ability
  pd_prefer_chroma :: "chroma enum_or_unknown"

definition decoding_default :: peer_decoding where
  "decoding_default = \<lparr>pd_vp9 = 0, pd_h264 = 0, pd_h265 = 0, pd_prefer = Known PreferAuto, pd_vp8 = 0, pd_av1 = 0,
     pd_i444 = \<lparr>ca_vp9 = False, ca_av1 = False\<rparr>, pd_prefer_chroma = Known I420\<rparr>"

datatype encoding_update = Update int peer_decoding | Remove int | NewOnlyVP9 int | Check

text \<open>The features of the build, the target, the options, what the hardware libraries offer, the rendezvous
  servers and the memory in bytes.\<close>

record codec_host =
  ch_vram :: bool
  ch_hwcodec :: bool
  ch_mediacodec :: bool
  ch_windows :: bool
  ch_ios :: bool
  ch_usize_bytes :: nat
  ch_option :: "string \<Rightarrow> string"
  ch_local_option :: "string \<Rightarrow> string"
  ch_vram_encoders :: "codec_format \<Rightarrow> nat"
  ch_hw_encoder :: "codec_format \<Rightarrow> string option"
  ch_vram_decoders :: "codec_format \<Rightarrow> nat"
  ch_hw_decoder :: "codec_format \<Rightarrow> bool"
  ch_media_decoder :: "codec_format \<Rightarrow> bool"
  ch_servers :: "string list"
  ch_total_memory :: int

record usable_encoding =
  ue_vp8 :: bool
  ue_av1 :: bool
  ue_h264 :: bool
  ue_h265 :: bool

text \<open>\<open>PEER_DECODINGS\<close>, \<open>ENCODE_CODEC_FORMAT\<close> and \<open>USABLE_ENCODING\<close>.\<close>

record encoder_state =
  es_decodings :: "(int \<times> peer_decoding) list"
  es_format :: codec_format
  es_usable :: "usable_encoding option"

definition encoder_init :: encoder_state where
  "encoder_init = \<lparr>es_decodings = [], es_format = VP9, es_usable = None\<rparr>"

section \<open>Options\<close>

definition disable_av1 :: "codec_host \<Rightarrow> bool" where
  "disable_av1 h \<longleftrightarrow> ch_usize_bytes h = 4"

definition enable_hwcodec_option :: "codec_host \<Rightarrow> bool" where
  "enable_hwcodec_option h \<longleftrightarrow> \<not> ch_ios h \<and> option2bool ''enable-hwcodec'' (ch_option h ''enable-hwcodec'')"

definition enable_directx_capture :: "codec_host \<Rightarrow> bool" where
  "enable_directx_capture h = option2bool ''enable-directx-capture'' (ch_option h ''enable-directx-capture'')"

definition allow_d3d_render :: "codec_host \<Rightarrow> bool" where
  "allow_d3d_render h = option2bool ''allow-d3d-render'' (ch_local_option h ''allow-d3d-render'')"

definition enable_vram_option :: "codec_host \<Rightarrow> bool \<Rightarrow> bool" where
  "enable_vram_option h encode =
     (if ch_windows h then
        (let enable = option2bool ''enable-hwcodec'' (ch_option h ''enable-hwcodec'') in
         if encode then enable \<and> enable_directx_capture h else enable \<and> allow_d3d_render h)
      else False)"

definition is_serverless_lan :: "string list \<Rightarrow> bool" where
  "is_serverless_lan servers =
     (if servers = [] then True
      else list_all (\<lambda>h. let host = hd (split_char (CHR '':'') h) in
        host = ''127.0.0.1'' \<or> host = ''localhost'' \<or> host = ''::1'') servers)"

section \<open>The negotiation\<close>

definition apply_update :: "encoding_update \<Rightarrow> (int \<times> peer_decoding) list \<Rightarrow> (int \<times> peer_decoding) list" where
  "apply_update u ds =
     (case u of
        Update i d \<Rightarrow> AList.update i d ds
      | Remove i \<Rightarrow> AList.delete i ds
      | NewOnlyVP9 i \<Rightarrow> AList.update i (decoding_default\<lparr>pd_vp9 := 1\<rparr>) ds
      | Check \<Rightarrow> ds)"

definition all_support :: "(peer_decoding \<Rightarrow> int) \<Rightarrow> (int \<times> peer_decoding) list \<Rightarrow> bool" where
  "all_support ability ds \<longleftrightarrow> ds \<noteq> [] \<and> list_all (\<lambda>(_, s). ability s > 0) ds"

text \<open>Whether the host can encode a hardware format all peers can decode: in video memory, and in main memory
  by the encoder of that name.\<close>

definition vram_encoding :: "codec_host \<Rightarrow> codec_format \<Rightarrow> bool \<Rightarrow> bool" where
  "vram_encoding h f supported \<longleftrightarrow> ch_vram h \<and> enable_vram_option h True \<and> supported \<and> ch_vram_encoders h f > 0"

definition hw_encoding :: "codec_host \<Rightarrow> codec_format \<Rightarrow> bool \<Rightarrow> string option" where
  "hw_encoding h f supported = (if ch_hwcodec h \<and> enable_hwcodec_option h \<and> supported then ch_hw_encoder h f else None)"

definition hardware_useable :: "codec_host \<Rightarrow> codec_format \<Rightarrow> bool \<Rightarrow> bool" where
  "hardware_useable h f supported \<longleftrightarrow> supported \<and> (vram_encoding h f supported \<or> hw_encoding h f supported \<noteq> None)"

definition usable_for :: "codec_host \<Rightarrow> (int \<times> peer_decoding) list \<Rightarrow> usable_encoding" where
  "usable_for h ds =
     \<lparr>ue_vp8 = all_support pd_vp8 ds, ue_av1 = all_support pd_av1 ds \<and> \<not> disable_av1 h,
      ue_h264 = hardware_useable h H264 (all_support pd_h264 ds), ue_h265 = hardware_useable h H265 (all_support pd_h265 ds)\<rparr>"

definition counts_as_preference :: "usable_encoding \<Rightarrow> prefer_codec enum_or_unknown \<Rightarrow> bool" where
  "counts_as_preference ue p \<longleftrightarrow>
     p = Known PreferVP9 \<or> p = Known PreferVP8 \<and> ue_vp8 ue \<or> p = Known PreferAV1 \<and> ue_av1 ue
     \<or> p = Known PreferH264 \<and> ue_h264 ue \<or> p = Known PreferH265 \<and> ue_h265 ue"

definition preferences :: "usable_encoding \<Rightarrow> (int \<times> peer_decoding) list \<Rightarrow> prefer_codec enum_or_unknown list" where
  "preferences ue ds = filter (counts_as_preference ue) (map (\<lambda>(_, s). pd_prefer s) ds)"

fun count_pref :: "'a \<Rightarrow> ('a \<times> nat) list \<Rightarrow> ('a \<times> nat) list" where
  "count_pref p [] = [(p, 1)]"
| "count_pref p ((q, n) # cs) = (if q = p then (q, n + 1) # cs else (q, n) # count_pref p cs)"

definition most_frequent :: "prefer_codec enum_or_unknown list \<Rightarrow> prefer_codec enum_or_unknown" where
  "most_frequent prefs =
     (let counts = fold count_pref prefs [];
          max_count = foldr (\<lambda>(_, n) m. max n m) counts 0
      in case find (\<lambda>(_, n). n = max_count) counts of Some (p, _) \<Rightarrow> p | None \<Rightarrow> Known PreferAuto)"

definition enum_value_or :: "'e enum_or_unknown \<Rightarrow> 'e \<Rightarrow> 'e" where
  "enum_value_or e d = (case enum_value e of Some v \<Rightarrow> v | None \<Rightarrow> d)"

definition auto_codec :: "codec_host \<Rightarrow> usable_encoding \<Rightarrow> codec_format" where
  "auto_codec h ue =
     (let av1_test = (ch_option h ''av1-test'' \<noteq> ''N'');
          f = (if ue_av1 ue \<and> av1_test \<and> \<not> is_serverless_lan (ch_servers h) then AV1 else VP9);
          f = (if ue_h264 ue then H264 else f);
          f = (if ue_h265 ue then H265 else f)
      in if (f = VP9 \<or> f = AV1) \<and> ue_vp8 ue \<and> ch_total_memory h \<le> 4 * 1024 * 1024 * 1024 then VP8 else f)"

definition chosen_format :: "codec_host \<Rightarrow> (int \<times> peer_decoding) list \<Rightarrow> codec_format" where
  "chosen_format h ds =
     (let ue = usable_for h ds;
          h264 = all_support pd_h264 ds;
          h265 = all_support pd_h265 ds
      in case enum_value_or (most_frequent (preferences ue ds)) PreferAuto of
           PreferVP8 \<Rightarrow> VP8
         | PreferVP9 \<Rightarrow> VP9
         | PreferAV1 \<Rightarrow> AV1
         | PreferH264 \<Rightarrow> if vram_encoding h H264 h264 \<or> hw_encoding h H264 h264 \<noteq> None then H264 else auto_codec h ue
         | PreferH265 \<Rightarrow> if vram_encoding h H265 h265 \<or> hw_encoding h H265 h265 \<noteq> None then H265 else auto_codec h ue
         | PreferAuto \<Rightarrow> auto_codec h ue)"

definition update :: "codec_host \<Rightarrow> encoding_update \<Rightarrow> encoder_state \<Rightarrow> encoder_state" where
  "update h u st =
     (let ds = apply_update u (es_decodings st)
      in \<lparr>es_decodings = ds, es_format = chosen_format h ds, es_usable = Some (usable_for h ds)\<rparr>)"

definition negotiated_codec :: "encoder_state \<Rightarrow> codec_format" where
  "negotiated_codec st = es_format st"

text \<open>What the host tells a peer it can encode; \<open>i444\<close> is always offered for VP9 and AV1.\<close>

definition supported_encoding :: "codec_host \<Rightarrow> usable_encoding" where
  "supported_encoding h =
     \<lparr>ue_vp8 = True, ue_av1 = (\<not> disable_av1 h),
      ue_h264 = (ch_hwcodec h \<and> enable_hwcodec_option h \<and> ch_hw_encoder h H264 \<noteq> None
        \<or> ch_vram h \<and> enable_vram_option h True \<and> ch_vram_encoders h H264 > 0),
      ue_h265 = (ch_hwcodec h \<and> enable_hwcodec_option h \<and> ch_hw_encoder h H265 \<noteq> None
        \<or> ch_vram h \<and> enable_vram_option h True \<and> ch_vram_encoders h H265 > 0)\<rparr>"

definition update_codec_on_login :: "codec_host \<Rightarrow> int \<Rightarrow> peer_decoding option option \<Rightarrow> encoder_state \<Rightarrow> encoder_state" where
  "update_codec_on_login h i login_option st =
     (case login_option of
        Some (Some q) \<Rightarrow> update h (Update i q) st
      | _ \<Rightarrow> update h (NewOnlyVP9 i) st)"

section \<open>The encoder\<close>

text \<open>An encoder configuration, without the picture size and the quality, which do not enter the choice.\<close>

datatype vpx_codec = VpxVP8 | VpxVP9

datatype encoder_cfg = CfgVPX vpx_codec "nat option" | CfgAOM "nat option" | CfgHWRAM string "nat option" | CfgVRAM codec_format "nat option"

text \<open>Whether a text contains another, and its lower case (ASCII).\<close>

fun contains :: "string \<Rightarrow> string \<Rightarrow> bool" where
  "contains [] p \<longleftrightarrow> p = []"
| "contains (c # s) p \<longleftrightarrow> starts_with (c # s) p \<or> contains s p"

definition to_lower :: "char \<Rightarrow> char" where
  "to_lower c = (let n = (of_char c :: nat) in if 65 \<le> n \<and> n \<le> 90 then char_of (n + 32) else c)"

definition hw_format :: "string \<Rightarrow> codec_format" where
  "hw_format name =
     (let name = map to_lower name in
      if contains name ''vp8'' then VP8
      else if contains name ''vp9'' then VP9
      else if contains name ''av1'' then AV1
      else if contains name ''h264'' then H264
      else H265)"

definition cfg_format :: "encoder_cfg \<Rightarrow> codec_format option" where
  "cfg_format cfg =
     (case cfg of
        CfgVPX VpxVP8 _ \<Rightarrow> Some VP8
      | CfgVPX VpxVP9 _ \<Rightarrow> Some VP9
      | CfgAOM _ \<Rightarrow> Some AV1
      | CfgHWRAM name _ \<Rightarrow> Some (hw_format name)
      | CfgVRAM f _ \<Rightarrow> if f = H264 \<or> f = H265 then Some f else None)"

definition set_fallback :: "encoder_cfg \<Rightarrow> encoder_state \<Rightarrow> encoder_state" where
  "set_fallback cfg st = (case cfg_format cfg of Some f \<Rightarrow> st\<lparr>es_format := f\<rparr> | None \<Rightarrow> st)"

definition use_i444 :: "encoder_cfg \<Rightarrow> encoder_state \<Rightarrow> bool" where
  "use_i444 cfg st =
     (let ds = map snd (es_decodings st);
          prefer_i444 = list_all (\<lambda>d. pd_prefer_chroma d = Known I444) ds;
          i444_useable = (case cfg of
              CfgVPX VpxVP8 _ \<Rightarrow> False
            | CfgVPX VpxVP9 _ \<Rightarrow> list_all (\<lambda>d. ca_vp9 (pd_i444 d)) ds
            | CfgAOM _ \<Rightarrow> list_all (\<lambda>d. ca_av1 (pd_i444 d)) ds
            | CfgHWRAM _ _ \<Rightarrow> False
            | CfgVRAM _ _ \<Rightarrow> False)
      in prefer_i444 \<and> i444_useable \<and> ds \<noteq> [])"

text \<open>\<open>get_encoder_config\<close>; with the \<open>vram\<close> feature the choice is made anew first. \<open>vram_try_get\<close> is what
  \<open>VRamEncoder::try_get\<close> answers for the capturing device.\<close>

definition get_encoder_config :: "codec_host \<Rightarrow> (codec_format \<Rightarrow> codec_format option) \<Rightarrow> bool \<Rightarrow> encoder_state \<Rightarrow> encoder_cfg \<times> encoder_state" where
  "get_encoder_config h vram_try_get record st =
     (let st = (if ch_vram h then update h Check st else st);
          keyframe_interval = (if record then Some 240 else None);
          negotiated = negotiated_codec st;
          cfg = (case negotiated of
              VP8 \<Rightarrow> CfgVPX VpxVP8 keyframe_interval
            | AV1 \<Rightarrow> CfgAOM keyframe_interval
            | VP9 \<Rightarrow> CfgVPX VpxVP9 keyframe_interval
            | UnknownFormat \<Rightarrow> CfgVPX VpxVP9 keyframe_interval
            | _ \<Rightarrow>
                (case (if ch_vram h then vram_try_get negotiated else None) of
                   Some f \<Rightarrow> CfgVRAM f keyframe_interval
                 | None \<Rightarrow>
                     (case (if ch_hwcodec h then ch_hw_encoder h negotiated else None) of
                        Some name \<Rightarrow> CfgHWRAM name keyframe_interval
                      | None \<Rightarrow> CfgVPX VpxVP9 keyframe_interval)))
      in (cfg, st))"

text \<open>\<open>Encoder::new\<close>: a hardware encoder that cannot be created is struck off the list of encoders, which
  makes the choice anew without it, and the format becomes VP9. \<open>None\<close> is the error.\<close>

definition without_hw_encoders :: "codec_host \<Rightarrow> codec_host" where
  "without_hw_encoders h = h\<lparr>ch_hw_encoder := (\<lambda>_. None)\<rparr>"

definition without_vram_encoders :: "codec_host \<Rightarrow> codec_host" where
  "without_vram_encoders h = h\<lparr>ch_vram_encoders := (\<lambda>_. 0)\<rparr>"

definition encoder_new :: "bool \<Rightarrow> encoder_cfg \<Rightarrow> codec_host \<times> encoder_state \<Rightarrow> bool \<times> codec_host \<times> encoder_state" where
  "encoder_new created cfg hst =
     (case hst of (h, st) \<Rightarrow>
        if created then (True, h, st)
        else case cfg of
            CfgHWRAM _ _ \<Rightarrow> (let h = without_hw_encoders h in (False, h, (update h Check st)\<lparr>es_format := VP9\<rparr>))
          | CfgVRAM _ _ \<Rightarrow> (let h = without_vram_encoders h in (False, h, (update h Check st)\<lparr>es_format := VP9\<rparr>))
          | _ \<Rightarrow> (False, h, st))"

record encoder_setup =
  su_cfg :: encoder_cfg
  su_format :: codec_format
  su_i444 :: bool

definition setup_encoder ::
  "(codec_format \<Rightarrow> codec_format option) \<Rightarrow> bool \<Rightarrow> bool \<Rightarrow> codec_host \<times> encoder_state \<Rightarrow> encoder_setup option \<times> codec_host \<times> encoder_state" where
  "setup_encoder vram_try_get record created hst =
     (case hst of (h, st) \<Rightarrow>
        let (cfg, st) = get_encoder_config h vram_try_get record st;
            st = set_fallback cfg st;
            codec_format = negotiated_codec st;
            i444 = use_i444 cfg st;
            (ok, h, st) = encoder_new created cfg (h, st)
        in (if ok then Some \<lparr>su_cfg = cfg, su_format = codec_format, su_i444 = i444\<rparr> else None, h, st))"

text \<open>How \<open>run\<close> starts: a second attempt with VP9 when the first fails.\<close>

definition start_encoder ::
  "(codec_format \<Rightarrow> codec_format option) \<Rightarrow> bool \<Rightarrow> bool \<Rightarrow> bool \<Rightarrow> codec_host \<times> encoder_state \<Rightarrow> encoder_setup option \<times> codec_host \<times> encoder_state" where
  "start_encoder vram_try_get record created created2 hst =
     (case setup_encoder vram_try_get record created hst of
        (Some su, hst) \<Rightarrow> (Some su, hst)
      | (None, h, st) \<Rightarrow> setup_encoder vram_try_get record created2 (h, set_fallback (CfgVPX VpxVP9 None) st))"

section \<open>The client's decoder\<close>

definition bit_or_int :: "int \<Rightarrow> bool \<Rightarrow> int" where
  "bit_or_int a b = (if b then or a 1 else or a 0)"

definition preference :: "(string \<Rightarrow> string option) \<Rightarrow> string option \<Rightarrow> prefer_codec \<times> chroma" where
  "preference peer_options i =
     (case i of
        None \<Rightarrow> (PreferAuto, I420)
      | Some [] \<Rightarrow> (PreferAuto, I420)
      | Some _ \<Rightarrow>
          (let codec = (case peer_options ''codec-preference'' of Some c \<Rightarrow> c | None \<Rightarrow> '''');
               codec = (if codec = ''vp8'' then PreferVP8 else if codec = ''vp9'' then PreferVP9 else if codec = ''av1'' then PreferAV1
                 else if codec = ''h264'' then PreferH264 else if codec = ''h265'' then PreferH265 else PreferAuto)
           in (codec, if peer_options ''i444'' = Some ''Y'' then I444 else I420)))"

definition mark_one :: "codec_format \<Rightarrow> peer_decoding \<Rightarrow> peer_decoding" where
  "mark_one f d =
     (case f of
        VP8 \<Rightarrow> d\<lparr>pd_vp8 := 0\<rparr>
      | VP9 \<Rightarrow> d\<lparr>pd_vp9 := 0\<rparr>
      | AV1 \<Rightarrow> d\<lparr>pd_av1 := 0\<rparr>
      | H264 \<Rightarrow> d\<lparr>pd_h264 := 0\<rparr>
      | H265 \<Rightarrow> d\<lparr>pd_h265 := 0\<rparr>
      | UnknownFormat \<Rightarrow> d)"

definition supported_decodings :: "codec_host \<Rightarrow> (string \<Rightarrow> string option) \<Rightarrow> string option \<Rightarrow> bool \<Rightarrow> codec_format list \<Rightarrow> peer_decoding" where
  "supported_decodings h peer_options i use_texture_render mark_unsupported =
     (let (prefer, prefer_chroma) = preference peer_options i;
          d = decoding_default\<lparr>pd_vp8 := 1, pd_vp9 := 1, pd_av1 := (if disable_av1 h then 0 else 1),
                pd_i444 := \<lparr>ca_vp9 = True, ca_av1 = True\<rparr>, pd_prefer := Known prefer, pd_prefer_chroma := Known prefer_chroma\<rparr>;
          d = (if ch_hwcodec h then d\<lparr>pd_h264 := bit_or_int (pd_h264 d) (ch_hw_decoder h H264), pd_h265 := bit_or_int (pd_h265 d) (ch_hw_decoder h H265)\<rparr> else d);
          d = (if ch_vram h \<and> enable_vram_option h False \<and> use_texture_render
               then d\<lparr>pd_h264 := bit_or_int (pd_h264 d) (ch_vram_decoders h H264 > 0), pd_h265 := bit_or_int (pd_h265 d) (ch_vram_decoders h H265 > 0)\<rparr> else d);
          d = (if ch_mediacodec h \<and> enable_hwcodec_option h
               then d\<lparr>pd_h264 := (if ch_media_decoder h H264 then 1 else 0), pd_h265 := (if ch_media_decoder h H265 then 1 else 0)\<rparr> else d)
      in fold mark_one mark_unsupported d)"

section \<open>The vote\<close>

lemma count_pref_map_of:
  "map_of (count_pref p cs) q = (if q = p then Some (case map_of cs p of Some n \<Rightarrow> n + 1 | None \<Rightarrow> 1) else map_of cs q)"
  by (induction cs) auto

lemma count_pref_keys: "fst ` set (count_pref p cs) = insert p (fst ` set cs)"
  by (induction p cs rule: count_pref.induct) auto

lemma count_pref_distinct: "distinct (map fst cs) \<Longrightarrow> distinct (map fst (count_pref p cs))"
proof (induction cs)
  case (Cons c cs)
  then show ?case using count_pref_keys [of p cs] by (cases c) (auto simp: image_iff)
qed simp

lemma counts_are_counts:
  "distinct (map fst (fold count_pref prefs [])) \<and>
   map_of (fold count_pref prefs []) p = (if p \<in> set prefs then Some (count_list prefs p) else None)"
proof (induction prefs arbitrary: p rule: rev_induct)
  case (snoc x prefs)
  have "count_list prefs x = 0" if "x \<notin> set prefs" using that by (simp add: count_list_0_iff)
  then show ?case using snoc [of p] snoc [of x] by (auto simp: count_pref_map_of count_pref_distinct)
qed simp

lemma max_count_spec:
  "(\<forall>(p, n) \<in> set cs. n \<le> foldr (\<lambda>(_, n) m. max n m) cs (0 :: nat)) \<and>
   (cs \<noteq> [] \<longrightarrow> (\<exists>(p, n) \<in> set cs. n = foldr (\<lambda>(_, n) m. max n m) cs 0))"
proof (induction cs)
  case (Cons c cs)
  obtain p n where c: "c = (p, n)" by (cases c)
  show ?case
  proof (cases "cs = [] \<or> n \<ge> foldr (\<lambda>(_, n) m. max n m) cs 0")
    case True
    then show ?thesis using Cons c by fastforce
  next
    case False
    then show ?thesis using Cons c by (fastforce simp: max_def)
  qed
qed simp

lemma most_frequent_spec:
  assumes "prefs \<noteq> []"
  shows "most_frequent prefs \<in> set prefs \<and> count_list prefs q \<le> count_list prefs (most_frequent prefs)"
proof -
  let ?cs = "fold count_pref prefs []"
  let ?m = "foldr (\<lambda>(_, n) m. max n m) ?cs 0"
  note c = counts_are_counts [of prefs]
  have "?cs \<noteq> []" using assms c [of "hd prefs"] by auto
  then obtain p0 where "(p0, ?m) \<in> set ?cs" using max_count_spec [of ?cs] by blast
  then have "find (\<lambda>(_, n). n = ?m) ?cs \<noteq> None" by (auto simp: find_None_iff)
  then obtain p n where f: "find (\<lambda>(_, n). n = ?m) ?cs = Some (p, n)" by fastforce
  then have pn: "(p, n) \<in> set ?cs" "n = ?m" by (auto simp: find_Some_iff set_conv_nth)
  then have "map_of ?cs p = Some n" using c [of p] map_of_is_SomeI [of ?cs p n] by blast
  then have p: "p \<in> set prefs" "n = count_list prefs p" using c [of p] by (auto split: if_splits)
  have "count_list prefs q \<le> n"
  proof (cases "q \<in> set prefs")
    case True
    then have "(q, count_list prefs q) \<in> set ?cs" using c [of q] map_of_SomeD by fastforce
    then show ?thesis using max_count_spec [of ?cs] pn(2) by fastforce
  qed (simp add: count_list_0_iff)
  moreover have "most_frequent prefs = p" using f by (simp add: most_frequent_def)
  ultimately show ?thesis using p by simp
qed

fun preferred_format :: "prefer_codec \<Rightarrow> codec_format" where
  "preferred_format PreferVP8 = VP8"
| "preferred_format PreferVP9 = VP9"
| "preferred_format PreferAV1 = AV1"
| "preferred_format PreferH264 = H264"
| "preferred_format PreferH265 = H265"
| "preferred_format PreferAuto = UnknownFormat"

lemma hardware_counts:
  "counts_as_preference (usable_for h ds) (Known PreferH264) \<Longrightarrow>
     vram_encoding h H264 (all_support pd_h264 ds) \<or> hw_encoding h H264 (all_support pd_h264 ds) \<noteq> None"
  "counts_as_preference (usable_for h ds) (Known PreferH265) \<Longrightarrow>
     vram_encoding h H265 (all_support pd_h265 ds) \<or> hw_encoding h H265 (all_support pd_h265 ds) \<noteq> None"
  by (auto simp: counts_as_preference_def usable_for_def hardware_useable_def)

lemma counted_preference:
  assumes "p \<in> set (preferences ue ds)"
  obtains q where "p = Known q" "q \<noteq> PreferAuto" "counts_as_preference ue (Known q)"
  using assms by (auto simp: preferences_def counts_as_preference_def)

lemma preferred_wins:
  assumes "counts_as_preference (usable_for h ds) (Known p)" and "most_frequent (preferences (usable_for h ds) ds) = Known p"
  shows "chosen_format h ds = preferred_format p"
  using assms hardware_counts [of h ds]
  by (cases p) (auto simp: chosen_format_def enum_value_or_def counts_as_preference_def Let_def)

lemma plurality:
  "(if preferences (usable_for h ds) ds = [] then chosen_format h ds = auto_codec h (usable_for h ds)
    else \<exists>p. Known p \<in> set (preferences (usable_for h ds) ds) \<and> chosen_format h ds = preferred_format p \<and>
      (\<forall>q. count_list (preferences (usable_for h ds) ds) q \<le> count_list (preferences (usable_for h ds) ds) (Known p)))"
proof (cases "preferences (usable_for h ds) ds = []")
  case True
  then show ?thesis by (simp add: chosen_format_def most_frequent_def enum_value_or_def Let_def)
next
  case False
  note m = most_frequent_spec [OF False]
  obtain p where p: "most_frequent (preferences (usable_for h ds) ds) = Known p" "counts_as_preference (usable_for h ds) (Known p)"
    using counted_preference m by metis
  then show ?thesis using m preferred_wins [OF p(2,1)] False by (metis (mono_tags))
qed

text \<open>The codec is the choice of most viewers: among the preferences for codecs that every viewer can
  decode and the host can encode (VP9 always counts), one with the most votes wins; viewers without a preference
  do not vote; and when nobody votes the host takes the best codec that is usable.\<close>

theorem plurality_decides:
  "(if preferences (usable_for h ds) ds = [] then chosen_format h ds = auto_codec h (usable_for h ds)
    else \<exists>p. Known p \<in> set (preferences (usable_for h ds) ds) \<and> chosen_format h ds = preferred_format p \<and>
      (\<forall>q. count_list (preferences (usable_for h ds) ds) q \<le> count_list (preferences (usable_for h ds) ds) (Known p)))"
  by (rule plurality)

section \<open>Every viewer can decode\<close>

fun can_decode :: "codec_format \<Rightarrow> peer_decoding \<Rightarrow> bool" where
  "can_decode VP8 d \<longleftrightarrow> pd_vp8 d > 0"
| "can_decode VP9 d \<longleftrightarrow> pd_vp9 d > 0"
| "can_decode AV1 d \<longleftrightarrow> pd_av1 d > 0"
| "can_decode H264 d \<longleftrightarrow> pd_h264 d > 0"
| "can_decode H265 d \<longleftrightarrow> pd_h265 d > 0"
| "can_decode UnknownFormat d \<longleftrightarrow> False"

definition suits_all :: "codec_format \<Rightarrow> (int \<times> peer_decoding) list \<Rightarrow> bool" where
  "suits_all f ds \<longleftrightarrow> f = VP9 \<or> ds \<noteq> [] \<and> list_all (can_decode f) (map snd ds)"

lemma all_support_suits:
  "all_support pd_vp8 ds \<Longrightarrow> suits_all VP8 ds" "all_support pd_av1 ds \<Longrightarrow> suits_all AV1 ds"
  "all_support pd_h264 ds \<Longrightarrow> suits_all H264 ds" "all_support pd_h265 ds \<Longrightarrow> suits_all H265 ds"
  by (auto simp: all_support_def suits_all_def list_all_iff)

lemma usable_suits:
  "ue_vp8 (usable_for h ds) \<Longrightarrow> suits_all VP8 ds" "ue_av1 (usable_for h ds) \<Longrightarrow> suits_all AV1 ds"
  "ue_h264 (usable_for h ds) \<Longrightarrow> suits_all H264 ds" "ue_h265 (usable_for h ds) \<Longrightarrow> suits_all H265 ds"
  using all_support_suits by (auto simp: usable_for_def hardware_useable_def)

lemma suits_VP9 [simp]: "suits_all VP9 ds"
  by (simp add: suits_all_def)

lemma auto_suits: "suits_all (auto_codec h (usable_for h ds)) ds"
  using usable_suits [of h ds] by (simp add: auto_codec_def Let_def)

lemma preferred_suits: "counts_as_preference (usable_for h ds) (Known p) \<Longrightarrow> suits_all (preferred_format p) ds"
  using usable_suits [of h ds] by (cases p) (auto simp: counts_as_preference_def)

lemma chosen_suits: "suits_all (chosen_format h ds) ds"
proof (cases "preferences (usable_for h ds) ds = []")
  case True
  then show ?thesis using plurality [of h ds] auto_suits by simp
next
  case False
  then obtain p where p: "Known p \<in> set (preferences (usable_for h ds) ds)" "chosen_format h ds = preferred_format p"
    using plurality [of h ds] by auto
  then show ?thesis using preferred_suits by (auto simp: preferences_def)
qed

text \<open>What the hardware libraries promise: an encoder's name tells its format, and a video memory encoder is of
  the format asked for.\<close>

definition hardware_ok :: "codec_host \<Rightarrow> (codec_format \<Rightarrow> codec_format option) \<Rightarrow> bool" where
  "hardware_ok h vram_try_get \<longleftrightarrow>
     (\<forall>f name. ch_hw_encoder h f = Some name \<longrightarrow> hw_format name = f) \<and> (\<forall>f g. vram_try_get f = Some g \<longrightarrow> g = f)"

text \<open>The chosen format suits every viewer, whatever was announced, removed or set up before.\<close>

datatype codec_event =
    EvUpdate codec_host encoding_update
  | EvStart codec_host "codec_format \<Rightarrow> codec_format option" bool bool bool

definition codec_step :: "codec_event \<Rightarrow> encoder_state \<Rightarrow> encoder_state" where
  "codec_step ev st =
     (case ev of
        EvUpdate h u \<Rightarrow> update h u st
      | EvStart h vt recording c1 c2 \<Rightarrow> snd (snd (start_encoder vt recording c1 c2 (h, st))))"

fun event_ok :: "codec_event \<Rightarrow> bool" where
  "event_ok (EvUpdate h u) \<longleftrightarrow> True"
| "event_ok (EvStart h vt recording c1 c2) \<longleftrightarrow> hardware_ok h vt"

definition format_ok :: "encoder_state \<Rightarrow> bool" where
  "format_ok st \<longleftrightarrow> suits_all (es_format st) (es_decodings st)"

lemma update_ok: "format_ok (update h u st)"
  using chosen_suits by (simp add: format_ok_def update_def Let_def)

lemma update_Check_decodings [simp]: "es_decodings (update h Check st) = es_decodings st"
  by (simp add: update_def apply_update_def Let_def)

lemma config_ok:
  assumes "get_encoder_config h vt recording st = (cfg, st')" "format_ok st" "hardware_ok h vt"
  shows "\<exists>f. cfg_format cfg = Some f \<and> suits_all f (es_decodings st') \<and> es_decodings st' = es_decodings st"
proof -
  have st': "st' = (if ch_vram h then update h Check st else st)" using assms(1) by (auto simp: get_encoder_config_def Let_def)
  then have ok: "format_ok st'" and ds: "es_decodings st' = es_decodings st" using assms(2) update_ok by auto
  have "cfg_format cfg = Some (negotiated_codec st') \<or> cfg_format cfg = Some VP9"
    using assms(1,3) st'
    by (cases "negotiated_codec st'") (auto simp: get_encoder_config_def cfg_format_def hardware_ok_def Let_def split: option.splits if_splits)
  then show ?thesis using ok ds by (auto simp: format_ok_def negotiated_codec_def)
qed

lemma setup_ok:
  assumes "setup_encoder vt recording created (h, st) = (r, h', st')" "format_ok st" "hardware_ok h vt"
  shows "format_ok st' \<and> hardware_ok h' vt \<and> es_decodings st' = es_decodings st \<and>
    (\<forall>su. r = Some su \<longrightarrow> cfg_format (su_cfg su) = Some (su_format su) \<and> es_format st' = su_format su \<and> su_i444 su = use_i444 (su_cfg su) st')"
proof -
  obtain cfg st1 where g: "get_encoder_config h vt recording st = (cfg, st1)" by fastforce
  from config_ok [OF this assms(2,3)] obtain f where f: "cfg_format cfg = Some f" "suits_all f (es_decodings st1)" "es_decodings st1 = es_decodings st" by blast
  let ?st2 = "st1\<lparr>es_format := f\<rparr>"
  have two: "set_fallback cfg st1 = ?st2" "format_ok ?st2" using f by (simp_all add: set_fallback_def format_ok_def)
  obtain ok h1 st3 where e: "encoder_new created cfg (h, ?st2) = (ok, h1, st3)" using prod_cases3 by blast
  have r: "r = (if ok then Some \<lparr>su_cfg = cfg, su_format = f, su_i444 = use_i444 cfg ?st2\<rparr> else None)" "h' = h1" "st' = st3"
    using assms(1) g two(1) e by (auto simp: setup_encoder_def negotiated_codec_def Let_def)
  have "ok \<longrightarrow> st3 = ?st2" "format_ok st3" "es_decodings st3 = es_decodings st" "hardware_ok h1 vt"
    using e two(2) f(3) assms(3)
    by (auto simp: encoder_new_def without_hw_encoders_def without_vram_encoders_def format_ok_def hardware_ok_def Let_def split: if_splits encoder_cfg.splits)
  then show ?thesis using r f(1) by auto
qed

lemma start_encoder_ok:
  assumes "start_encoder vt recording c1 c2 (h, st) = (r, h', st')" "format_ok st" "hardware_ok h vt"
  shows "format_ok st' \<and> es_decodings st' = es_decodings st \<and>
    (\<forall>su. r = Some su \<longrightarrow> cfg_format (su_cfg su) = Some (su_format su) \<and> es_format st' = su_format su \<and> su_i444 su = use_i444 (su_cfg su) st')"
proof -
  obtain r1 h1 st1 where one: "setup_encoder vt recording c1 (h, st) = (r1, h1, st1)" using prod_cases3 by blast
  note ok1 = setup_ok [OF one assms(2,3)]
  show ?thesis
  proof (cases r1)
    case None
    let ?st2 = "set_fallback (CfgVPX VpxVP9 None) st1"
    have "setup_encoder vt recording c2 (h1, ?st2) = (r, h', st')" using assms(1) one None by (simp add: start_encoder_def)
    moreover have "format_ok ?st2" "es_decodings ?st2 = es_decodings st" using ok1 by (simp_all add: set_fallback_def cfg_format_def format_ok_def)
    ultimately show ?thesis using setup_ok ok1 by metis
  next
    case (Some su)
    then show ?thesis using assms(1) one ok1 by (auto simp: start_encoder_def)
  qed
qed

lemma codec_step_ok: "format_ok st \<Longrightarrow> event_ok ev \<Longrightarrow> format_ok (codec_step ev st)"
proof (cases ev)
  case (EvStart h vt recording c1 c2)
  assume "format_ok st" "event_ok ev"
  then have "hardware_ok h vt" "format_ok st" using EvStart by simp_all
  moreover obtain r h' st' where "start_encoder vt recording c1 c2 (h, st) = (r, h', st')" using prod_cases3 by blast
  ultimately show ?thesis using start_encoder_ok [of vt recording c1 c2 h st r h' st'] EvStart by (simp add: codec_step_def)
qed (simp add: codec_step_def update_ok)

lemma codec_run_ok: "list_all event_ok evs \<Longrightarrow> format_ok (fold codec_step evs encoder_init)"
proof -
  have "format_ok (fold codec_step evs st)" if "format_ok st" "list_all event_ok evs" for st
    using that by (induction evs arbitrary: st) (auto simp: codec_step_ok)
  moreover have "format_ok encoder_init" by (simp add: format_ok_def encoder_init_def)
  ultimately show "list_all event_ok evs \<Longrightarrow> format_ok (fold codec_step evs encoder_init)" by blast
qed

text \<open>(C10) The encoder suits every viewer: whatever the viewers announced before, and whichever encoders failed,
  a video loop that starts has an encoder for VP9 or for a codec that every viewer announced it can decode; the
  format it notes is the one in force and the encoder's own, so the loop does not restart because of it; and full
  colour is used only when every viewer asked for it and can decode it.\<close>

theorem encoder_suits_every_viewer:
  assumes "list_all event_ok evs" and "hardware_ok h vt"
    and "start_encoder vt recording c1 c2 (h, fold codec_step evs encoder_init) = (Some su, h', st)"
  shows "suits_all (su_format su) (es_decodings st) \<and> es_decodings st = es_decodings (fold codec_step evs encoder_init) \<and>
    cfg_format (su_cfg su) = Some (su_format su) \<and> negotiated_codec st = su_format su \<and> use_i444 (su_cfg su) st = su_i444 su \<and>
    (su_i444 su \<longrightarrow> list_all (\<lambda>d. pd_prefer_chroma d = Known I444 \<and> (ca_vp9 (pd_i444 d) \<and> su_format su = VP9 \<or> ca_av1 (pd_i444 d) \<and> su_format su = AV1))
      (map snd (es_decodings st)))"
proof -
  note ok = start_encoder_ok [OF assms(3) codec_run_ok [OF assms(1)] assms(2)]
  have "list_all (\<lambda>d. pd_prefer_chroma d = Known I444 \<and> (ca_vp9 (pd_i444 d) \<and> su_format su = VP9 \<or> ca_av1 (pd_i444 d) \<and> su_format su = AV1))
      (map snd (es_decodings st))" if "use_i444 (su_cfg su) st"
    using that ok by (auto simp: use_i444_def cfg_format_def list_all_iff Let_def split: encoder_cfg.splits vpx_codec.splits)
  then show ?thesis using ok by (auto simp: format_ok_def negotiated_codec_def)
qed

definition sample_host :: codec_host where
  "sample_host = \<lparr>ch_vram = False, ch_hwcodec = True, ch_mediacodec = False, ch_windows = False, ch_ios = False, ch_usize_bytes = 8,
     ch_option = (\<lambda>_. ''''), ch_local_option = (\<lambda>_. ''''), ch_vram_encoders = (\<lambda>_. 0),
     ch_hw_encoder = (\<lambda>f. if f = H264 then Some ''h264_videotoolbox'' else if f = H265 then Some ''hevc_videotoolbox'' else None),
     ch_vram_decoders = (\<lambda>_. 0), ch_hw_decoder = (\<lambda>_. True), ch_media_decoder = (\<lambda>_. False), ch_servers = [''127.0.0.1''],
     ch_total_memory = 17179869184\<rparr>"

lemma start_encoder_hw:
  assumes "es_format st = H264"
  shows "start_encoder (\<lambda>_. None) False True True (sample_host, st) =
    (Some \<lparr>su_cfg = CfgHWRAM ''h264_videotoolbox'' None, su_format = H264, su_i444 = use_i444 (CfgHWRAM ''h264_videotoolbox'' None) st\<rparr>, sample_host, st)"
proof -
  have "st\<lparr>es_format := H264\<rparr> = st" using assms by (cases st) simp
  then have "use_i444 c (st\<lparr>es_format := H264\<rparr>) = use_i444 c st" for c by simp
  moreover have "hw_format ''h264_videotoolbox'' = H264" by code_simp
  ultimately show ?thesis using assms
    by (simp add: start_encoder_def setup_encoder_def get_encoder_config_def set_fallback_def cfg_format_def encoder_new_def negotiated_codec_def
        sample_host_def Let_def)
qed

theorem encoder_suits_every_viewer_witness:
  "let full = supported_decodings sample_host (\<lambda>_. None) (Some ''mac'') False [];
       st = fold codec_step [EvUpdate sample_host (Update 1 full), EvUpdate sample_host (Update 2 (mark_one H265 full))] encoder_init
   in negotiated_codec st = H264 \<and> suits_all H264 (es_decodings st)"
proof -
  let ?full = "supported_decodings sample_host (\<lambda>_. None) (Some ''mac'') False []"
  let ?evs = "[EvUpdate sample_host (Update 1 ?full), EvUpdate sample_host (Update 2 (mark_one H265 ?full))]"
  let ?st = "fold codec_step ?evs encoder_init"
  have hw: "hardware_ok sample_host (\<lambda>_. None)"
  proof -
    have "hw_format ''h264_videotoolbox'' = H264" "hw_format ''hevc_videotoolbox'' = H265" by (code_simp)+
    then show ?thesis by (auto simp: hardware_ok_def sample_host_def)
  qed
  have e: "es_format ?st = H264" "es_decodings ?st = [(1, ?full), (2, mark_one H265 ?full)]" by (code_simp)+
  have s: "start_encoder (\<lambda>_. None) False True True (sample_host, ?st) =
      (Some \<lparr>su_cfg = CfgHWRAM ''h264_videotoolbox'' None, su_format = H264, su_i444 = use_i444 (CfgHWRAM ''h264_videotoolbox'' None) ?st\<rparr>, sample_host, ?st)"
    using start_encoder_hw [of ?st] e(1) .
  show ?thesis using encoder_suits_every_viewer [OF _ hw s] e by (simp add: Let_def negotiated_codec_def)
qed

text \<open>The ability to decode VP9 is never looked at: the chosen codec is the same whatever the viewers announce
  about it, and a viewer that has marked VP9 as unsupported is still sent VP9.\<close>

theorem vp9_ability_ignored:
  "chosen_format h (map (\<lambda>(i, d). (i, d\<lparr>pd_vp9 := g i\<rparr>)) ds) = chosen_format h ds \<and>
   es_format (update h (Update 1 (decoding_default\<lparr>pd_vp8 := 0, pd_prefer := Known PreferVP8\<rparr>)) encoder_init) = VP9"
proof -
  let ?f = "\<lambda>(i, d). (i, d\<lparr>pd_vp9 := g i\<rparr>)"
  have a: "all_support s (map ?f ds) = all_support s ds" if "\<And>d v. s (d\<lparr>pd_vp9 := v\<rparr>) = s d" for s
    using that by (auto simp: all_support_def list_all_iff split_beta)
  have p: "map (\<lambda>(_, s). pd_prefer s) (map ?f ds) = map (\<lambda>(_, s). pd_prefer s) ds" by (induction ds) auto
  have u: "usable_for h (map ?f ds) = usable_for h ds" by (simp add: usable_for_def a)
  have a2: "all_support pd_h264 (map ?f ds) = all_support pd_h264 ds" "all_support pd_h265 (map ?f ds) = all_support pd_h265 ds" by (rule a; simp)+
  have "chosen_format h (map ?f ds) = chosen_format h ds"
    unfolding chosen_format_def preferences_def Let_def p u a2 by (rule refl)
  moreover have "es_format (update h (Update 1 (decoding_default\<lparr>pd_vp8 := 0, pd_prefer := Known PreferVP8\<rparr>)) encoder_init) = VP9"
    by (simp add: update_def apply_update_def encoder_init_def chosen_format_def preferences_def usable_for_def all_support_def decoding_default_def
        counts_as_preference_def most_frequent_def enum_value_or_def auto_codec_def hardware_useable_def Let_def)
  ultimately show ?thesis by blast
qed

end
