(* ===== verification/VideoClient.thy ===== *)
theory VideoClient
  imports VideoCodec VideoQos
begin

text \<open>
  How a client takes video frames: the message loop that queues them (\<^verbatim>\<open>src/client/io_loop.rs\<close>), the thread that
  decodes them and its handler (\<^verbatim>\<open>src/client.rs\<close>: \<open>start_video_thread\<close>, \<open>VideoHandler\<close>), and the control of the
  frame rate. Key frames go to the thread's channel, other frames into a queue of 120 with a token in the channel;
  a full queue loses its oldest frame. What a decoder makes of a frame is an argument.
\<close>

section \<open>Queueing\<close>

record cframe =
  cf_no :: int
  cf_key :: bool
  cf_format :: codec_format

datatype media_data = VideoQueue | VideoFrame cframe | ResetDecoder

definition VIDEO_QUEUE_SIZE :: nat where "VIDEO_QUEUE_SIZE = 120"

text \<open>\<open>vt_holding\<close>: the thread has read a token and not yet popped; \<open>vt_taken\<close> lists what it took and whether it
  was decoded, \<open>vt_displaced\<close> what the full queue lost, \<open>vt_refreshes\<close> the refreshes asked for.\<close>

record video_thread =
  vt_channel :: "media_data list"
  vt_queue :: "cframe list"
  vt_holding :: bool
  vt_discard :: bool
  vt_last_overflow_refresh :: "nat option"
  vt_taken :: "(cframe \<times> bool) list"
  vt_displaced :: "cframe list"
  vt_refreshes :: nat

definition new_video_thread :: video_thread where
  "new_video_thread = \<lparr>vt_channel = [], vt_queue = [], vt_holding = False, vt_discard = False, vt_last_overflow_refresh = None,
     vt_taken = [], vt_displaced = [], vt_refreshes = 0\<rparr>"

definition force_push :: "cframe \<Rightarrow> cframe list \<Rightarrow> cframe option \<times> cframe list" where
  "force_push f q = (if length q < VIDEO_QUEUE_SIZE then (None, q @ [f]) else (Some (hd q), tl q @ [f]))"

definition receive_frame :: "nat \<Rightarrow> cframe \<Rightarrow> video_thread \<Rightarrow> video_thread" where
  "receive_frame now f t =
     (if cf_key f then t\<lparr>vt_channel := vt_channel t @ [VideoFrame f]\<rparr>
      else case force_push f (vt_queue t) of
          (Some old, q) \<Rightarrow>
            let due = (case vt_last_overflow_refresh t of Some tm \<Rightarrow> now - tm \<ge> 1000 | None \<Rightarrow> True);
                t = t\<lparr>vt_queue := q, vt_displaced := vt_displaced t @ [old]\<rparr>
            in if due then t\<lparr>vt_last_overflow_refresh := Some now, vt_refreshes := vt_refreshes t + 1\<rparr> else t
        | (None, q) \<Rightarrow> t\<lparr>vt_queue := q, vt_channel := vt_channel t @ [VideoQueue]\<rparr>)"

text \<open>A refresh passes the message loop (\<open>handle_msg_from_ui\<close>) on its way to the host.\<close>

definition refresh_requested :: "video_thread \<Rightarrow> video_thread" where
  "refresh_requested t = t\<lparr>vt_discard := True\<rparr>"

text \<open>The thread: reading the channel, and popping the queue for a token.\<close>

definition thread_recv :: "video_thread \<Rightarrow> video_thread" where
  "thread_recv t =
     (if vt_holding t then t
      else case vt_channel t of
          [] \<Rightarrow> t
        | VideoFrame f # ch \<Rightarrow> t\<lparr>vt_channel := ch, vt_discard := False, vt_taken := vt_taken t @ [(f, True)]\<rparr>
        | VideoQueue # ch \<Rightarrow> t\<lparr>vt_channel := ch, vt_holding := True\<rparr>
        | ResetDecoder # ch \<Rightarrow> t\<lparr>vt_channel := ch\<rparr>)"

definition thread_pop :: "video_thread \<Rightarrow> video_thread" where
  "thread_pop t =
     (if \<not> vt_holding t then t
      else case vt_queue t of
          [] \<Rightarrow> t\<lparr>vt_holding := False\<rparr>
        | f # q \<Rightarrow> t\<lparr>vt_holding := False, vt_queue := q, vt_taken := vt_taken t @ [(f, \<not> vt_discard t)]\<rparr>)"

datatype thread_event = Receive nat cframe | RefreshRequested | Reset | Recv | Pop

definition thread_event_step :: "thread_event \<Rightarrow> video_thread \<Rightarrow> video_thread" where
  "thread_event_step ev t =
     (case ev of
        Receive now f \<Rightarrow> receive_frame now f t
      | RefreshRequested \<Rightarrow> refresh_requested t
      | Reset \<Rightarrow> t\<lparr>vt_channel := vt_channel t @ [ResetDecoder]\<rparr>
      | Recv \<Rightarrow> thread_recv t
      | Pop \<Rightarrow> thread_pop t)"

abbreviation thread_run :: "thread_event list \<Rightarrow> video_thread \<Rightarrow> video_thread" where
  "thread_run evs t \<equiv> fold thread_event_step evs t"

fun received :: "thread_event list \<Rightarrow> cframe list" where
  "received [] = []"
| "received (Receive now f # evs) = f # received evs"
| "received (_ # evs) = received evs"

text \<open>What the thread will take if nothing more arrives.\<close>

fun to_take :: "media_data list \<Rightarrow> cframe list \<Rightarrow> cframe list" where
  "to_take [] q = []"
| "to_take (VideoFrame f # ch) q = f # to_take ch q"
| "to_take (ResetDecoder # ch) q = to_take ch q"
| "to_take (VideoQueue # ch) [] = to_take ch []"
| "to_take (VideoQueue # ch) (f # q) = f # to_take ch q"

definition whole_channel :: "video_thread \<Rightarrow> media_data list" where
  "whole_channel t = (if vt_holding t then [VideoQueue] else []) @ vt_channel t"

definition waiting :: "video_thread \<Rightarrow> cframe list" where
  "waiting t = to_take (whole_channel t) (vt_queue t)"

definition tokens :: "media_data list \<Rightarrow> nat" where
  "tokens ch = count_list ch VideoQueue"

lemma tokens_simps [simp]:
  "tokens [] = 0" "tokens (VideoQueue # ch) = Suc (tokens ch)" "tokens (VideoFrame f # ch) = tokens ch" "tokens (ResetDecoder # ch) = tokens ch"
  "tokens (ch @ ch') = tokens ch + tokens ch'"
  by (simp_all add: tokens_def)

lemma to_take_append:
  "tokens ch = length q \<Longrightarrow> to_take (ch @ [VideoFrame f]) q = to_take ch q @ [f]"
  "tokens ch = length q \<Longrightarrow> to_take (ch @ [ResetDecoder]) q = to_take ch q"
  "tokens ch = length q \<Longrightarrow> to_take (ch @ [VideoQueue]) (q @ [f]) = to_take ch q @ [f]"
  by (induction ch q rule: to_take.induct) auto

definition thread_inv :: "video_thread \<Rightarrow> bool" where
  "thread_inv t \<longleftrightarrow> tokens (whole_channel t) = length (vt_queue t) \<and> length (vt_queue t) \<le> VIDEO_QUEUE_SIZE"

lemma whole_channel_append [simp]: "whole_channel (t\<lparr>vt_channel := vt_channel t @ xs\<rparr>) = whole_channel t @ xs"
  by (simp add: whole_channel_def)

lemma whole_channel_other [simp]:
  "whole_channel (t\<lparr>vt_queue := q\<rparr>) = whole_channel t" "whole_channel (t\<lparr>vt_discard := b\<rparr>) = whole_channel t"
  "whole_channel (t\<lparr>vt_displaced := d\<rparr>) = whole_channel t" "whole_channel (t\<lparr>vt_refreshes := n\<rparr>) = whole_channel t"
  "whole_channel (t\<lparr>vt_last_overflow_refresh := r\<rparr>) = whole_channel t" "whole_channel (t\<lparr>vt_taken := k\<rparr>) = whole_channel t"
  "whole_channel (t\<lparr>vt_queue := q, vt_channel := vt_channel t @ xs\<rparr>) = whole_channel t @ xs"
  by (simp_all add: whole_channel_def)

lemma force_push_cases:
  obtains "length q < VIDEO_QUEUE_SIZE" "force_push f q = (None, q @ [f])"
  | "length q \<ge> VIDEO_QUEUE_SIZE" "force_push f q = (Some (hd q), tl q @ [f])"
  by (cases "length q < VIDEO_QUEUE_SIZE") (auto simp: force_push_def)

lemma receive_inv:
  assumes "thread_inv t"
  shows "thread_inv (receive_frame now f t) \<and> vt_taken (receive_frame now f t) = vt_taken t \<and> (\<exists>d. vt_displaced (receive_frame now f t) = vt_displaced t @ d) \<and>
    (vt_displaced (receive_frame now f t) = vt_displaced t \<longrightarrow> waiting (receive_frame now f t) = waiting t @ [f])"
proof (cases "cf_key f")
  case True
  then show ?thesis using assms by (simp add: receive_frame_def thread_inv_def waiting_def to_take_append)
next
  case False
  show ?thesis
  proof (cases rule: force_push_cases [of "vt_queue t" f])
    case 1
    have "tokens (whole_channel t) = length (vt_queue t)" using assms by (simp add: thread_inv_def)
    then have "to_take (whole_channel t @ [VideoQueue]) (vt_queue t @ [f]) = waiting t @ [f]" unfolding waiting_def by (rule to_take_append)
    then show ?thesis using 1 False assms by (simp add: receive_frame_def thread_inv_def waiting_def)
  next
    case 2
    then have "length (vt_queue t) > 0" unfolding VIDEO_QUEUE_SIZE_def by linarith
    then show ?thesis using 2 False assms by (auto simp: receive_frame_def thread_inv_def Let_def VIDEO_QUEUE_SIZE_def)
  qed
qed

lemma recv_inv:
  assumes "thread_inv t"
  shows "thread_inv (thread_recv t) \<and> map fst (vt_taken (thread_recv t)) @ waiting (thread_recv t) = map fst (vt_taken t) @ waiting t \<and> vt_displaced (thread_recv t) = vt_displaced t"
proof (cases "vt_holding t")
  case False
  show ?thesis
  proof (cases "vt_channel t")
    case (Cons m ch)
    then show ?thesis using False assms by (cases m) (simp_all add: thread_recv_def thread_inv_def waiting_def whole_channel_def)
  qed (use assms False in \<open>simp add: thread_recv_def\<close>)
qed (use assms in \<open>simp add: thread_recv_def\<close>)

lemma pop_inv:
  assumes "thread_inv t"
  shows "thread_inv (thread_pop t) \<and> map fst (vt_taken (thread_pop t)) @ waiting (thread_pop t) = map fst (vt_taken t) @ waiting t \<and> vt_displaced (thread_pop t) = vt_displaced t"
proof (cases "vt_holding t")
  case True
  then obtain f q where "vt_queue t = f # q" using assms by (cases "vt_queue t") (auto simp: thread_inv_def whole_channel_def)
  then show ?thesis using True assms by (simp add: thread_pop_def thread_inv_def waiting_def whole_channel_def)
qed (use assms in \<open>simp add: thread_pop_def\<close>)

lemma thread_event_inv:
  assumes "thread_inv t"
  shows "thread_inv (thread_event_step ev t)" "\<exists>d. vt_displaced (thread_event_step ev t) = vt_displaced t @ d"
    "vt_displaced (thread_event_step ev t) = vt_displaced t \<Longrightarrow>
       map fst (vt_taken (thread_event_step ev t)) @ waiting (thread_event_step ev t) = map fst (vt_taken t) @ waiting t @ received [ev]"
proof -
  let ?t = "thread_event_step ev t"
  have "thread_inv ?t \<and> (\<exists>d. vt_displaced ?t = vt_displaced t @ d) \<and>
      (vt_displaced ?t = vt_displaced t \<longrightarrow> map fst (vt_taken ?t) @ waiting ?t = map fst (vt_taken t) @ waiting t @ received [ev])"
  proof (cases ev)
    case (Receive now f)
    then show ?thesis using receive_inv [OF assms, of now f] by (simp add: thread_event_step_def)
  next
    case RefreshRequested
    then show ?thesis using assms by (simp add: thread_event_step_def refresh_requested_def thread_inv_def waiting_def)
  next
    case Reset
    then show ?thesis using assms by (simp add: thread_event_step_def thread_inv_def waiting_def to_take_append)
  qed (use recv_inv [OF assms] pop_inv [OF assms] in \<open>simp_all add: thread_event_step_def\<close>)
  then show "thread_inv ?t" "\<exists>d. vt_displaced ?t = vt_displaced t @ d"
    "vt_displaced ?t = vt_displaced t \<Longrightarrow> map fst (vt_taken ?t) @ waiting ?t = map fst (vt_taken t) @ waiting t @ received [ev]" by auto
qed

lemma thread_run_inv:
  assumes "thread_inv t"
  shows "thread_inv (thread_run evs t) \<and> (\<exists>d. vt_displaced (thread_run evs t) = vt_displaced t @ d) \<and>
    (vt_displaced (thread_run evs t) = vt_displaced t \<longrightarrow>
      map fst (vt_taken (thread_run evs t)) @ waiting (thread_run evs t) = map fst (vt_taken t) @ waiting t @ received evs)"
  using assms
proof (induction evs arbitrary: t)
  case (Cons ev evs)
  let ?t = "thread_event_step ev t"
  note s = thread_event_inv [OF Cons.prems, of ev]
  have r: "received (ev # evs) = received [ev] @ received evs" by (cases ev) auto
  note ih = Cons.IH [OF s(1)]
  show ?case
  proof (intro conjI impI)
    show "thread_inv (thread_run (ev # evs) t)" using ih by simp
    show "\<exists>d. vt_displaced (thread_run (ev # evs) t) = vt_displaced t @ d" using ih s(2) by (metis append.assoc fold_simps(2))
    assume "vt_displaced (thread_run (ev # evs) t) = vt_displaced t"
    then have e: "vt_displaced (thread_run evs ?t) = vt_displaced t" by simp
    obtain d d' where d: "vt_displaced ?t = vt_displaced t @ d" "vt_displaced (thread_run evs ?t) = vt_displaced ?t @ d'" using ih s(2) by blast
    then have "vt_displaced t @ d @ d' = vt_displaced t" using e by simp
    then have "vt_displaced ?t = vt_displaced t" "vt_displaced (thread_run evs ?t) = vt_displaced ?t" using d by simp_all
    then show "map fst (vt_taken (thread_run (ev # evs) t)) @ waiting (thread_run (ev # evs) t) = map fst (vt_taken t) @ waiting t @ received (ev # evs)"
      using ih s(3) r by simp
  qed
qed simp

text \<open>(C22) Frames reach the decoder in the order they arrived: however the message loop and the decoding thread
  take turns, the queue holds 120 frames at most and there is a frame for every token; and as long as the queue has
  not overflowed, what the thread has taken and what it will take are exactly the frames received, in order.\<close>

theorem frames_taken_in_order:
  "tokens (whole_channel (thread_run evs new_video_thread)) = length (vt_queue (thread_run evs new_video_thread)) \<and>
   length (vt_queue (thread_run evs new_video_thread)) \<le> VIDEO_QUEUE_SIZE \<and>
   (vt_displaced (thread_run evs new_video_thread) = [] \<longrightarrow>
     map fst (vt_taken (thread_run evs new_video_thread)) @ waiting (thread_run evs new_video_thread) = received evs)"
proof -
  have "thread_inv new_video_thread" by (simp add: thread_inv_def new_video_thread_def whole_channel_def)
  from thread_run_inv [OF this, of evs] show ?thesis
    by (simp add: thread_inv_def new_video_thread_def waiting_def whole_channel_def)
qed

theorem frames_taken_in_order_witness:
  "let d = (\<lambda>n. \<lparr>cf_no = n, cf_key = (n = 0), cf_format = VP9\<rparr>);
       t = thread_run [Receive 0 (d 0), Receive 10 (d 1), Recv, Recv, Receive 20 (d 2), Pop] new_video_thread
   in map (cf_no \<circ> fst) (vt_taken t) = [0, 1] \<and> map fst (vt_taken t) @ waiting t = [d 0, d 1, d 2]"
proof -
  let ?d = "\<lambda>n. \<lparr>cf_no = n, cf_key = (n = 0), cf_format = VP9\<rparr>"
  let ?evs = "[Receive 0 (?d 0), Receive 10 (?d 1), Recv, Recv, Receive 20 (?d 2), Pop]"
  have "vt_displaced (thread_run ?evs new_video_thread) = []" "map (cf_no \<circ> fst) (vt_taken (thread_run ?evs new_video_thread)) = [0, 1]"
    by (simp_all add: thread_event_step_def receive_frame_def force_push_def VIDEO_QUEUE_SIZE_def thread_recv_def thread_pop_def new_video_thread_def)
  then show ?thesis using frames_taken_in_order [of ?evs] by (simp add: Let_def)
qed

section \<open>Refreshing\<close>

text \<open>What is taken before the next key frame.\<close>

definition before_key :: "(cframe \<times> bool) list \<Rightarrow> (cframe \<times> bool) list" where
  "before_key taken = takeWhile (\<lambda>(f, _). \<not> cf_key f) taken"

definition channel_keys :: "video_thread \<Rightarrow> bool" where
  "channel_keys t \<longleftrightarrow> list_all (\<lambda>m. case m of VideoFrame f \<Rightarrow> cf_key f | _ \<Rightarrow> True) (vt_channel t) \<and> list_all (\<lambda>f. \<not> cf_key f) (vt_queue t)"

lemma list_all_tl: "list_all P xs \<Longrightarrow> list_all P (tl xs)"
  by (cases xs) auto

lemma channel_keys_step:
  assumes "channel_keys t"
  shows "channel_keys (thread_event_step ev t)"
proof (cases ev)
  case (Receive now f)
  show ?thesis
  proof (cases rule: force_push_cases [of "vt_queue t" f])
    case 1
    then show ?thesis using assms Receive by (auto simp: thread_event_step_def receive_frame_def channel_keys_def)
  next
    case 2
    then show ?thesis using assms Receive by (auto simp: thread_event_step_def receive_frame_def channel_keys_def Let_def list_all_tl)
  qed
next
  case Recv
  show ?thesis
  proof (cases "vt_channel t")
    case (Cons m ch)
    then show ?thesis using assms Recv by (cases m) (simp_all add: thread_event_step_def thread_recv_def channel_keys_def)
  qed (use assms Recv in \<open>simp add: thread_event_step_def thread_recv_def\<close>)
next
  case Pop
  then show ?thesis using assms by (cases "vt_queue t") (auto simp: thread_event_step_def thread_pop_def channel_keys_def)
qed (use assms in \<open>auto simp: thread_event_step_def refresh_requested_def channel_keys_def\<close>)

lemma taken_grows: "\<exists>new. vt_taken (thread_event_step ev t) = vt_taken t @ new \<and> length new \<le> 1"
  by (cases ev)
    (auto simp: thread_event_step_def receive_frame_def refresh_requested_def thread_recv_def thread_pop_def Let_def
      split: list.splits media_data.splits if_splits prod.splits option.splits)

lemma discard_step:
  assumes "channel_keys t" "vt_discard t" "vt_taken (thread_event_step ev t) = vt_taken t @ new" "\<forall>(f, _) \<in> set new. \<not> cf_key f"
  shows "vt_discard (thread_event_step ev t) \<and> (\<forall>(f, b) \<in> set new. \<not> b)"
proof (cases ev)
  case Recv
  show ?thesis
  proof (cases "vt_holding t \<or> vt_channel t = []")
    case True
    then have "thread_recv t = t" by (auto simp: thread_recv_def split: list.splits)
    then show ?thesis using assms Recv by (simp add: thread_event_step_def)
  next
    case False
    then obtain m ch where c: "vt_channel t = m # ch" by (cases "vt_channel t") auto
    have "\<not> (\<exists>f. m = VideoFrame f)"
    proof
      assume "\<exists>f. m = VideoFrame f"
      then obtain f where f: "m = VideoFrame f" by blast
      then have "cf_key f" using assms(1) c by (simp add: channel_keys_def)
      moreover have "new = [(f, True)]" using assms(3) Recv c f False by (simp add: thread_event_step_def thread_recv_def)
      ultimately show False using assms(4) by simp
    qed
    then show ?thesis using assms Recv c False by (cases m) (simp_all add: thread_event_step_def thread_recv_def)
  qed
next
  case Pop
  then show ?thesis using assms by (auto simp: thread_event_step_def thread_pop_def split: list.splits if_splits)
next
  case (Receive now f)
  have "vt_taken (receive_frame now f t) = vt_taken t \<and> vt_discard (receive_frame now f t) = vt_discard t"
    by (auto simp: receive_frame_def Let_def split: option.splits prod.splits)
  then show ?thesis using assms Receive by (simp add: thread_event_step_def)
qed (use assms in \<open>auto simp: thread_event_step_def refresh_requested_def\<close>)

lemma discard_run:
  assumes "channel_keys t" "vt_discard t"
  shows "\<exists>new. vt_taken (thread_run evs t) = vt_taken t @ new \<and> (\<forall>(f, b) \<in> set (before_key new). \<not> b)"
  using assms
proof (induction evs arbitrary: t)
  case Nil
  then show ?case by (simp add: before_key_def)
next
  case (Cons ev evs)
  let ?t = "thread_event_step ev t"
  obtain n1 where n1: "vt_taken ?t = vt_taken t @ n1" "length n1 \<le> 1" using taken_grows by blast
  show ?case
  proof (cases "\<forall>(f, _) \<in> set n1. \<not> cf_key f")
    case True
    note d = discard_step [OF Cons.prems n1(1) True]
    obtain n2 where n2: "vt_taken (thread_run evs ?t) = vt_taken ?t @ n2" "\<forall>(f, b) \<in> set (before_key n2). \<not> b"
      using Cons.IH [OF channel_keys_step [OF Cons.prems(1)]] d by blast
    have "before_key (n1 @ n2) = n1 @ before_key n2" using True by (simp add: before_key_def)
    then show ?thesis using n1(1) n2 d by (intro exI [of _ "n1 @ n2"]) auto
  next
    case False
    then obtain f b where n: "n1 = [(f, b)]" "cf_key f" using n1(2) by (cases n1) auto
    have "\<exists>n2. vt_taken (thread_run evs s) = vt_taken s @ n2" for s
    proof (induction evs arbitrary: s)
      case (Cons e es)
      then show ?case using taken_grows [of e s] by (metis append.assoc fold_simps(2))
    qed simp
    then obtain n2 where "vt_taken (thread_run evs ?t) = vt_taken ?t @ n2" by blast
    then show ?thesis using n n1(1) by (intro exI [of _ "n1 @ n2"]) (simp add: before_key_def)
  qed
qed

text \<open>Nothing stale is shown after a refresh: once the client has asked for one, no frame is decoded until a
  key frame is, whatever was queued before and whatever arrives meanwhile.\<close>

theorem refresh_discards_until_key_frame:
  "\<exists>new. vt_taken (thread_run (RefreshRequested # evs) (thread_run before new_video_thread)) = vt_taken (thread_run before new_video_thread) @ new \<and>
     filter snd (before_key new) = []"
proof -
  let ?t = "thread_run before new_video_thread"
  have "channel_keys (thread_run before t)" if "channel_keys t" for t using that by (induction before arbitrary: t) (auto intro: channel_keys_step)
  moreover have "channel_keys new_video_thread" by (simp add: channel_keys_def new_video_thread_def)
  ultimately have k: "channel_keys (thread_event_step RefreshRequested ?t)" using channel_keys_step by blast
  have "vt_discard (thread_event_step RefreshRequested ?t)" "vt_taken (thread_event_step RefreshRequested ?t) = vt_taken ?t"
    by (simp_all add: thread_event_step_def refresh_requested_def)
  then show ?thesis using discard_run [OF k, of evs] by (fastforce simp: filter_empty_conv)
qed

text \<open>The thread takes what it has tokens for, and a key frame behind them.\<close>

definition drain :: "nat \<Rightarrow> thread_event list" where
  "drain n = concat (replicate n [Recv, Pop]) @ [Recv]"

lemma drain_run:
  assumes "vt_channel t = replicate (length q) VideoQueue @ [VideoFrame k]" "vt_queue t = q" "\<not> vt_holding t" "\<not> vt_discard t"
  shows "vt_taken (thread_run (drain (length q)) t) = vt_taken t @ map (\<lambda>f. (f, True)) (q @ [k])"
  using assms
proof (induction q arbitrary: t)
  case Nil
  then show ?case by (simp add: drain_def thread_event_step_def thread_recv_def)
next
  case (Cons f q)
  let ?t = "thread_pop (thread_recv t)"
  have t: "?t = t\<lparr>vt_channel := replicate (length q) VideoQueue @ [VideoFrame k], vt_queue := q, vt_holding := False, vt_taken := vt_taken t @ [(f, True)]\<rparr>"
    using Cons.prems by (simp add: thread_recv_def thread_pop_def)
  have "thread_run (drain (length (f # q))) t = thread_run (drain (length q)) ?t"
    by (simp add: drain_def thread_event_step_def)
  then show ?case using Cons.IH [of ?t] Cons.prems t by simp
qed

text \<open>(C35) A full queue breaks the order: when the queue is full, a key frame has come and waits in the channel, and one more
  frame comes, that frame takes the place of the oldest in the queue and with it a token sent before the key frame. Within a
  second of the last overflow that asked for a refresh no other one is asked for, so that, unless the queue is still being
  discarded for that one, the thread decodes the frame before the key frame it depends on.\<close>

theorem overflow_overtakes_key_frame:
  assumes "length (vt_queue t) = VIDEO_QUEUE_SIZE" and "vt_channel t = replicate VIDEO_QUEUE_SIZE VideoQueue" and "\<not> vt_holding t"
    and "vt_last_overflow_refresh t = Some tm" and "now' < tm + 1000" and "\<not> vt_discard t" and "cf_key k" and "\<not> cf_key d"
  shows "vt_refreshes (receive_frame now' d (receive_frame now k t)) = vt_refreshes t \<and>
    vt_taken (thread_run (drain VIDEO_QUEUE_SIZE) (receive_frame now' d (receive_frame now k t))) =
      vt_taken t @ map (\<lambda>f. (f, True)) (tl (vt_queue t) @ [d, k])"
proof -
  let ?t = "receive_frame now' d (receive_frame now k t)" and ?q = "tl (vt_queue t) @ [d]"
  have len: "length ?q = VIDEO_QUEUE_SIZE" using assms(1) by (simp add: VIDEO_QUEUE_SIZE_def)
  have t: "?t = t\<lparr>vt_channel := replicate VIDEO_QUEUE_SIZE VideoQueue @ [VideoFrame k], vt_queue := ?q, vt_displaced := vt_displaced t @ [hd (vt_queue t)]\<rparr>"
    using assms by (simp add: receive_frame_def force_push_def Let_def)
  have "vt_taken (thread_run (drain (length ?q)) ?t) = vt_taken ?t @ map (\<lambda>f. (f, True)) (?q @ [k])"
    by (rule drain_run) (use assms(3,6) t len in simp_all)
  then show ?thesis using t len by simp
qed

theorem overflow_overtakes_key_frame_witness:
  "let t = new_video_thread\<lparr>vt_queue := replicate 120 \<lparr>cf_no = 1, cf_key = False, cf_format = VP9\<rparr>, vt_channel := replicate 120 VideoQueue,
         vt_last_overflow_refresh := Some 3\<rparr>
   in vt_taken (thread_run (drain 120) (receive_frame 5 \<lparr>cf_no = 3, cf_key = False, cf_format = VP9\<rparr> (receive_frame 4 \<lparr>cf_no = 2, cf_key = True, cf_format = VP9\<rparr> t))) =
        map (\<lambda>f. (f, True)) (tl (vt_queue t) @ [\<lparr>cf_no = 3, cf_key = False, cf_format = VP9\<rparr>, \<lparr>cf_no = 2, cf_key = True, cf_format = VP9\<rparr>])"
proof -
  let ?t = "new_video_thread\<lparr>vt_queue := replicate 120 \<lparr>cf_no = 1, cf_key = False, cf_format = VP9\<rparr>, vt_channel := replicate 120 VideoQueue,
    vt_last_overflow_refresh := Some 3\<rparr>"
  have "length (vt_queue ?t) = VIDEO_QUEUE_SIZE" "vt_channel ?t = replicate VIDEO_QUEUE_SIZE VideoQueue" "\<not> vt_holding ?t"
    "vt_last_overflow_refresh ?t = Some 3" "(5 :: nat) < 3 + 1000" "\<not> vt_discard ?t"
    by (simp_all add: VIDEO_QUEUE_SIZE_def new_video_thread_def)
  note w = overflow_overtakes_key_frame [OF this, of "\<lparr>cf_no = 2, cf_key = True, cf_format = VP9\<rparr>" "\<lparr>cf_no = 3, cf_key = False, cf_format = VP9\<rparr>" 4,
    unfolded VIDEO_QUEUE_SIZE_def]
  have "vt_taken ?t = []" by (simp add: new_video_thread_def)
  with w show ?thesis unfolding Let_def by simp
qed

section \<open>Decoding\<close>

definition MAX_DECODE_FAIL_COUNTER :: nat where "MAX_DECODE_FAIL_COUNTER = 3"

record video_handler =
  vh_format :: codec_format
  vh_valid :: bool
  vh_fail_counter :: nat
  vh_first_frame :: bool

text \<open>Whether a decoder for a format can be created is \<open>create\<close>.\<close>

definition handler_new :: "(codec_format \<Rightarrow> bool) \<Rightarrow> codec_format \<Rightarrow> video_handler" where
  "handler_new create f = \<lparr>vh_format = f, vh_valid = create f, vh_fail_counter = 0, vh_first_frame = True\<rparr>"

definition handler_reset :: "(codec_format \<Rightarrow> bool) \<Rightarrow> codec_format option \<Rightarrow> video_handler \<Rightarrow> video_handler" where
  "handler_reset create f h =
     (let f = (case f of Some f \<Rightarrow> f | None \<Rightarrow> vh_format h)
      in h\<lparr>vh_format := f, vh_valid := create f, vh_fail_counter := 0, vh_first_frame := True\<rparr>)"

text \<open>A message without a frame, a picture, no picture yet, an error.\<close>

datatype decode_result = NoUnion | Picture | NoPicture | DecodeError

definition handle_frame :: "(codec_format \<Rightarrow> bool) \<Rightarrow> cframe \<Rightarrow> decode_result \<Rightarrow> video_handler \<Rightarrow> video_handler" where
  "handle_frame create f r h =
     (let h = (if cf_format f \<noteq> vh_format h then handler_reset create (Some (cf_format f)) h else h) in
      if r = NoUnion then h
      else
        let h = (if r = Picture then h\<lparr>vh_fail_counter := 0\<rparr>
                 else if vh_fail_counter h < usize_max then
                   (if vh_first_frame h \<and> vh_fail_counter h < MAX_DECODE_FAIL_COUNTER then h\<lparr>vh_fail_counter := MAX_DECODE_FAIL_COUNTER\<rparr>
                    else h\<lparr>vh_fail_counter := vh_fail_counter h + 1\<rparr>)
                 else h)
        in h\<lparr>vh_first_frame := False\<rparr>)"

text \<open>The body of the decoding thread for one frame. \<open>rejected\<close> is how many pictures in a row the interface has
  refused for their size. Times are seconds; \<open>dl_refreshes\<close> lists when a refresh was asked for, \<open>dl_updates\<close>
  counts the announcements sent to the host.\<close>

record decode_loop =
  dl_handler :: "video_handler option"
  dl_mismatch_since :: "nat option"
  dl_reset_on_key :: bool
  dl_last_mismatch_refresh :: "nat option"
  dl_mark_unsupported :: "codec_format list"
  dl_refreshes :: "nat list"
  dl_updates :: nat

definition size_mismatch :: "nat \<Rightarrow> nat \<Rightarrow> decode_loop \<Rightarrow> decode_loop" where
  "size_mismatch now rejected d =
     (if rejected = 0 then d\<lparr>dl_mismatch_since := None\<rparr>
      else if \<not> dl_reset_on_key d then
        (let since = (case dl_mismatch_since d of Some t \<Rightarrow> t | None \<Rightarrow> now);
             d = d\<lparr>dl_mismatch_since := Some since\<rparr>;
             cooled = (case dl_last_mismatch_refresh d of None \<Rightarrow> True | Some t \<Rightarrow> now - t \<ge> 5)
         in if rejected \<ge> 5 \<and> now - since \<ge> 1 \<and> cooled
            then d\<lparr>dl_refreshes := dl_refreshes d @ [now], dl_reset_on_key := True, dl_last_mismatch_refresh := Some now\<rparr>
            else d)
      else d)"

definition check_invalid :: "video_handler \<Rightarrow> decode_loop \<Rightarrow> decode_loop" where
  "check_invalid h d =
     (if (\<not> vh_valid h \<or> vh_fail_counter h \<ge> MAX_DECODE_FAIL_COUNTER) \<and> vh_format h \<notin> set (dl_mark_unsupported d)
      then d\<lparr>dl_mark_unsupported := dl_mark_unsupported d @ [vh_format h], dl_updates := dl_updates d + 1\<rparr> else d)"

definition decode_frame :: "(codec_format \<Rightarrow> bool) \<Rightarrow> nat \<Rightarrow> nat \<Rightarrow> cframe \<Rightarrow> decode_result \<Rightarrow> decode_loop \<Rightarrow> decode_loop" where
  "decode_frame create now rejected f r d =
     (let h = (case dl_handler d of Some h \<Rightarrow> h | None \<Rightarrow> handler_new create (cf_format f));
          format_changed = (vh_format h \<noteq> cf_format f);
          recreate = (\<not> format_changed \<and> dl_reset_on_key d \<and> cf_key f);
          d = (if format_changed \<or> recreate then d\<lparr>dl_reset_on_key := False, dl_mismatch_since := None\<rparr> else d);
          h = (if recreate then handler_reset create None h else h);
          h = handle_frame create f r h;
          d = d\<lparr>dl_handler := Some h\<rparr>;
          d = (case r of
              Picture \<Rightarrow> size_mismatch now rejected d
            | DecodeError \<Rightarrow> d\<lparr>dl_refreshes := dl_refreshes d @ [now]\<rparr>
            | _ \<Rightarrow> d)
      in check_invalid h d)"

text \<open>What the client announces with its marks.\<close>

definition update_supported_decodings :: "codec_host \<Rightarrow> (string \<Rightarrow> string option) \<Rightarrow> string option \<Rightarrow> bool \<Rightarrow> decode_loop \<Rightarrow> peer_decoding" where
  "update_supported_decodings h peer_options i texture d = supported_decodings h peer_options i texture (dl_mark_unsupported d)"

lemma mark_one_can: "\<not> can_decode f (mark_one f d)" "\<not> can_decode f d \<Longrightarrow> \<not> can_decode f (mark_one g d)"
  by (cases f; simp add: mark_one_def) (cases f; cases g; simp add: mark_one_def)

lemma marks_can: "f \<in> set fs \<Longrightarrow> \<not> can_decode f (fold mark_one fs d)"
proof (induction fs arbitrary: d)
  case (Cons g fs)
  have keep: "\<not> can_decode f (fold mark_one gs x)" if "\<not> can_decode f x" for gs x
    using that by (induction gs arbitrary: x) (auto simp: mark_one_can)
  show ?case using Cons keep mark_one_can by auto
qed simp

lemma update_mem: "(k, x) \<in> set (AList.update k x xs)"
  by (induction xs) auto

lemma marked_not_announced: "f \<in> set (dl_mark_unsupported d) \<Longrightarrow> \<not> can_decode f (update_supported_decodings h po i tex d)"
  using marks_can by (auto simp: update_supported_decodings_def supported_decodings_def Let_def split: prod.splits)

lemma size_mismatch_marks [simp]: "dl_mark_unsupported (size_mismatch now rejected d) = dl_mark_unsupported d"
  by (simp add: size_mismatch_def Let_def split: option.splits)

text \<open>A frame that is the first of its decoder: the first of the thread, one for a decoder that was made anew and has had no frame
  yet, one of another format, or the key frame that a decoder stuck on an old size is made anew for.\<close>

definition first_of_decoder :: "cframe \<Rightarrow> decode_loop \<Rightarrow> bool" where
  "first_of_decoder f d =
     (case dl_handler d of
        None \<Rightarrow> True
      | Some h \<Rightarrow> vh_first_frame h \<or> vh_format h \<noteq> cf_format f \<or> dl_reset_on_key d \<and> cf_key f)"

lemma handle_first_fail:
  assumes "r = NoPicture \<or> r = DecodeError" "vh_first_frame h \<or> vh_format h \<noteq> cf_format f"
  shows "MAX_DECODE_FAIL_COUNTER \<le> vh_fail_counter (handle_frame create f r h) \<and> vh_format (handle_frame create f r h) = cf_format f"
proof -
  have "(0 :: nat) < usize_max" "0 < MAX_DECODE_FAIL_COUNTER" "MAX_DECODE_FAIL_COUNTER \<le> usize_max"
    by (simp_all add: usize_max_def MAX_DECODE_FAIL_COUNTER_def)
  then show ?thesis using assms by (auto simp: handle_frame_def handler_reset_def Let_def)
qed

lemma handler_first_simps [simp]: "vh_first_frame (handler_new create g)" "vh_first_frame (handler_reset create g' h)"
  by (simp_all add: handler_new_def handler_reset_def Let_def)

lemma check_invalid_marks:
  "MAX_DECODE_FAIL_COUNTER \<le> vh_fail_counter h \<and> vh_format h = g \<Longrightarrow> g \<in> set (dl_mark_unsupported (check_invalid h d))"
  by (auto simp: check_invalid_def)

text \<open>(C26) One frame that cannot be decoded as the first of its decoder, whether that is the thread's first or one made anew
  after a reset, a change of the format or of the size, costs the codec: the client marks the format, announces it no longer,
  and from then on the host never chooses it while that viewer is connected, unless it is VP9.\<close>

theorem failed_first_frame_disables_codec:
  assumes "first_of_decoder f d" and "r = NoPicture \<or> r = DecodeError" and "cf_format f \<noteq> VP9"
  shows "cf_format f \<in> set (dl_mark_unsupported (decode_frame create now rejected f r d)) \<and>
    chosen_format host (AList.update v (update_supported_decodings h po i tex (decode_frame create now rejected f r d)) ds) \<noteq> cf_format f"
proof -
  let ?d = "decode_frame create now rejected f r d"
  have "cf_format f \<in> set (dl_mark_unsupported ?d)"
    unfolding decode_frame_def Let_def
    by (rule check_invalid_marks, rule handle_first_fail [OF assms(2)]) (use assms(1) in \<open>auto simp: first_of_decoder_def split: option.splits\<close>)
  moreover from this have n: "\<not> can_decode (cf_format f) (update_supported_decodings h po i tex ?d)" by (rule marked_not_announced)
  let ?ds = "AList.update v (update_supported_decodings h po i tex ?d) ds"
  have "\<not> list_all (can_decode (cf_format f)) (map snd ?ds)"
    using imageI [OF update_mem [of v "update_supported_decodings h po i tex ?d" ds], of snd] n unfolding list_all_iff set_map snd_conv by blast
  then have "\<not> suits_all (cf_format f) ?ds" using assms(3) unfolding suits_all_def by blast
  then have "chosen_format host ?ds \<noteq> cf_format f" using chosen_suits [of host ?ds] by metis
  ultimately show ?thesis by blast
qed

definition decode_loop_new :: decode_loop where
  "decode_loop_new = \<lparr>dl_handler = None, dl_mismatch_since = None, dl_reset_on_key = False, dl_last_mismatch_refresh = None,
     dl_mark_unsupported = [], dl_refreshes = [], dl_updates = 0\<rparr>"

theorem failed_first_frame_disables_codec_witness:
  "let d = decode_frame (\<lambda>_. True) 0 0 \<lparr>cf_no = 7, cf_key = False, cf_format = H264\<rparr> DecodeError decode_loop_new
   in H264 \<in> set (dl_mark_unsupported d) \<and>
      chosen_format sample_host (AList.update 1 (update_supported_decodings sample_host (\<lambda>_. None) None False d) []) \<noteq> H264"
  using failed_first_frame_disables_codec [where d = decode_loop_new and r = DecodeError and f = "\<lparr>cf_no = 7, cf_key = False, cf_format = H264\<rparr>"
      and create = "\<lambda>_. True" and now = 0 and rejected = 0 and host = sample_host and v = 1 and h = sample_host and po = "\<lambda>_. None"
      and i = None and tex = False and ds = "[]"]
  by (simp add: decode_loop_new_def first_of_decoder_def Let_def)

end
