(* ===== verification/FpsControl.thy ===== *)
theory FpsControl
  imports VideoQos
begin

text \<open>
  The client's control of the frame rate, \<^verbatim>\<open>src/client/io_loop.rs\<close> (\<open>fps_control\<close>) and \<^verbatim>\<open>src/client.rs\<close>
  (\<open>fps_calculate\<close>): it tells the host the rate it can decode, which the host takes as the user's frame rate
  (theory VideoQos), and asks for a refresh when a queue grows too long. Threads are listed in the iteration order
  of the map; times are milliseconds.
\<close>

record fps_thread =
  ft_queue_len :: nat
  ft_queue_capacity :: nat
  ft_decode_fps :: "nat option"
  ft_refresh_times :: nat
  ft_last_refresh :: "nat option"
  ft_idle_counter :: nat
  ft_inactive_counter :: nat

definition inactive_threshold :: nat where "inactive_threshold = 15"

section \<open>Measuring\<close>

text \<open>\<open>fps_calculate\<close>: frames to skip, frames and time counted, and the rate last found.\<close>

record fps_count =
  fq_skip :: nat
  fq_count :: nat
  fq_duration :: nat
  fq_fps :: "nat option"

definition fps_calculate :: "bool \<Rightarrow> nat \<Rightarrow> fps_count \<Rightarrow> fps_count" where
  "fps_calculate format_changed elapsed c =
     (let c = (if format_changed then c\<lparr>fq_count := 0, fq_duration := 0, fq_skip := 0\<rparr> else c) in
      if fq_skip c < 3 then c\<lparr>fq_skip := fq_skip c + 1\<rparr>
      else
        let c = c\<lparr>fq_duration := fq_duration c + elapsed, fq_count := fq_count c + 1\<rparr>;
            ms = fq_duration c;
            c = (if fq_count c mod 10 = 0 \<and> ms > 0 then c\<lparr>fq_fps := Some (fq_count c * 1000 div ms)\<rparr> else c)
        in if fq_count c \<ge> 30 then c\<lparr>fq_count := 0, fq_duration := 0\<rparr> else c)"

section \<open>Control\<close>

definition count_inactive :: "int \<Rightarrow> fps_thread \<Rightarrow> fps_thread" where
  "count_inactive real_fps t = t\<lparr>ft_inactive_counter := (if real_fps = 0 then ft_inactive_counter t + 1 else 0)\<rparr>"

definition effective_custom_fps :: "nat option \<Rightarrow> nat" where
  "effective_custom_fps custom = (let f = (case custom of Some f \<Rightarrow> f | None \<Rightarrow> 30) in if f < 5 \<or> f > 120 then 30 else f)"

text \<open>The least rate over the active threads; a thread without a rate comes first (\<open>None < Some\<close>).\<close>

fun min_option :: "nat option list \<Rightarrow> nat option option" where
  "min_option [] = None"
| "min_option (x # xs) =
     (case min_option xs of
        None \<Rightarrow> Some x
      | Some y \<Rightarrow> Some (case (x, y) of (Some a, Some b) \<Rightarrow> Some (min a b) | _ \<Rightarrow> None))"

definition min_decode_fps :: "fps_thread list \<Rightarrow> nat option" where
  "min_decode_fps ts =
     (case min_option (map ft_decode_fps (filter (\<lambda>t. ft_inactive_counter t < inactive_threshold) ts)) of Some (Some f) \<Rightarrow> Some f | _ \<Rightarrow> None)"

definition limited_fps :: "bool \<Rightarrow> nat \<Rightarrow> nat \<Rightarrow> nat" where
  "limited_fps direct decode_fps custom =
     (let l = (if direct then decode_fps * 9 div 10 else decode_fps * 4 div 5) in if l > custom then custom else l)"

definition fps_trending :: "nat \<Rightarrow> nat \<Rightarrow> fps_thread \<Rightarrow> bool option \<times> fps_thread" where
  "fps_trending last_auto limited t =
     (case ft_decode_fps t of
        None \<Rightarrow> (None, t)
      | Some decode_fps \<Rightarrow>
          let len = ft_queue_len t in
          if ft_inactive_counter t > inactive_threshold then (None, t)
          else if len > 1 \<and> last_auto > limited \<or> len > max 1 (decode_fps div 2) then (Some False, t\<lparr>ft_idle_counter := 0\<rparr>)
          else
            let t = (if len \<le> 1 then t\<lparr>ft_idle_counter := ft_idle_counter t + 1\<rparr> else t)
            in if len \<le> 1 \<and> ft_idle_counter t > 3 \<and> last_auto + 3 \<le> limited then (Some True, t)
               else (None, if len > 1 then t\<lparr>ft_idle_counter := 0\<rparr> else t))"

definition refresh_thread :: "nat \<Rightarrow> nat \<Rightarrow> fps_thread \<Rightarrow> bool \<times> fps_thread" where
  "refresh_thread now decode_fps t =
     (let tolerable = min decode_fps (ft_queue_capacity t div 2) in
      if ft_refresh_times t < 20 \<and> ft_queue_len t > tolerable
         \<and> (ft_refresh_times t = 0 \<or> (case ft_last_refresh t of Some tm \<Rightarrow> (now - tm) div 1000 > 10 | None \<Rightarrow> False))
      then (True, t\<lparr>ft_refresh_times := ft_refresh_times t + 1, ft_last_refresh := Some now\<rparr>)
      else (False, t))"

text \<open>The threads afterwards, the rate sent to the host and remembered, and which threads ask for a refresh.\<close>

definition fps_control ::
  "nat \<Rightarrow> bool \<Rightarrow> nat option \<Rightarrow> nat option \<Rightarrow> (int \<times> fps_thread) list \<Rightarrow> fps_thread list \<times> nat option \<times> bool list" where
  "fps_control now direct custom last_auto ts =
     (let ts = map (\<lambda>(real, t). count_inactive real t) ts;
          custom = effective_custom_fps custom;
          max_queue_len = foldr (\<lambda>t m. max (ft_queue_len t) m) ts 0
      in case min_decode_fps ts of
           None \<Rightarrow> (ts, None, map (\<lambda>_. False) ts)
         | Some decode_fps \<Rightarrow>
             let limited = limited_fps direct decode_fps custom;
                 trended = map (fps_trending (case last_auto of Some f \<Rightarrow> f | None \<Rightarrow> custom) limited) ts;
                 trendings = map fst trended;
                 ts = map snd trended;
                 should_decrease = (Some False \<in> set trendings);
                 should_increase = (\<not> should_decrease \<and> Some True \<in> set trendings);
                 auto_fps = (if should_decrease \<and> limited < max_queue_len then limited div 2 else limited);
                 auto_fps = (if auto_fps < 1 then 1 else auto_fps);
                 sent = (if (last_auto = None \<or> should_decrease \<or> should_increase) \<and> Some auto_fps \<noteq> last_auto then Some auto_fps else None);
                 refreshed = map (refresh_thread now decode_fps) ts
             in (map snd refreshed, sent, map fst refreshed))"

section \<open>Properties\<close>

lemma min_option_le:
  "min_option xs = Some (Some m) \<Longrightarrow> x \<in> set xs \<Longrightarrow> \<exists>f. x = Some f \<and> m \<le> f"
proof (induction xs arbitrary: m)
  case (Cons y ys)
  show ?case
  proof (cases "min_option ys")
    case None
    then have "ys = []" by (cases ys) (auto split: option.splits)
    then show ?thesis using Cons.prems None by auto
  next
    case (Some z)
    then obtain a b where "y = Some a" "z = Some b" "m = min a b" using Cons.prems(1) by (auto split: option.splits)
    then show ?thesis using Cons Some by fastforce
  qed
qed simp

lemma effective_range: "5 \<le> effective_custom_fps custom \<and> effective_custom_fps custom \<le> 120"
  by (simp add: effective_custom_fps_def Let_def)

text \<open>(C38) The rate a client asks for is one its decoders keep up with: it is at least 1 and at most 120, at most what
  the user set, and unless it is 1 below nine tenths of the rate of every active decoder; so the host accepts it as
  it is.\<close>

theorem auto_fps_sound:
  assumes "fps_control now direct custom last_auto ts = (ts', Some fps, refreshes)"
  shows "1 \<le> fps \<and> fps \<le> effective_custom_fps custom \<and>
    (\<forall>(real, t) \<in> set ts. ft_inactive_counter (count_inactive real t) < inactive_threshold \<longrightarrow> (\<exists>f. ft_decode_fps t = Some f \<and> (fps = 1 \<or> fps * 10 \<le> f * 9))) \<and>
    (map_of (users q) i = Some u \<longrightarrow> user_custom_fps i fps q = q\<lparr>users := AList.update i (u\<lparr>custom_fps := Some fps\<rparr>) (users q)\<rparr>)"
proof -
  let ?ts = "map (\<lambda>(real, t). count_inactive real t) ts"
  obtain m where m: "min_decode_fps ?ts = Some m" using assms by (auto simp: fps_control_def Let_def split: option.splits)
  let ?l = "limited_fps direct m (effective_custom_fps custom)"
  have l: "?l \<le> effective_custom_fps custom" "?l * 10 \<le> m * 9" by (auto simp: limited_fps_def Let_def)
  have f: "fps \<le> max 1 ?l" "1 \<le> fps" using assms m by (auto simp: fps_control_def Let_def split: if_splits)
  have d: "\<exists>f. ft_decode_fps t = Some f \<and> m \<le> f"
    if "(real, t) \<in> set ts" "ft_inactive_counter (count_inactive real t) < inactive_threshold" for real t
  proof -
    have "ft_decode_fps (count_inactive real t) \<in> set (map ft_decode_fps (filter (\<lambda>t. ft_inactive_counter t < inactive_threshold) ?ts))"
      using that by force
    moreover have "min_option (map ft_decode_fps (filter (\<lambda>t. ft_inactive_counter t < inactive_threshold) ?ts)) = Some (Some m)"
      using m by (auto simp: min_decode_fps_def split: option.splits)
    ultimately show ?thesis using min_option_le [of _ m "ft_decode_fps (count_inactive real t)"] by (simp add: count_inactive_def)
  qed
  have "fps \<le> effective_custom_fps custom" using f l(1) effective_range [of custom] by linarith
  moreover have "fps = 1 \<or> fps * 10 \<le> g * 9" if "m \<le> g" for g using f l(2) that by linarith
  moreover have "fps \<le> 120" using calculation(1) effective_range [of custom] by linarith
  ultimately show ?thesis using f(2) d by (fastforce simp: user_custom_fps_def MIN_FPS_def MAX_FPS_def)
qed

theorem auto_fps_sound_witness:
  "let t = \<lparr>ft_queue_len = 0, ft_queue_capacity = 120, ft_decode_fps = Some 20, ft_refresh_times = 0, ft_last_refresh = None, ft_idle_counter = 0,
         ft_inactive_counter = 0\<rparr>
   in fst (snd (fps_control 5000 True None None [(20, t)])) = Some 18 \<and> (18 :: nat) \<le> effective_custom_fps None"
proof -
  let ?t = "\<lparr>ft_queue_len = 0, ft_queue_capacity = 120, ft_decode_fps = Some 20, ft_refresh_times = 0, ft_last_refresh = None, ft_idle_counter = 0,
         ft_inactive_counter = 0\<rparr>"
  have "fst (snd (fps_control 5000 True None None [(20, ?t)])) = Some 18"
    by (simp add: fps_control_def count_inactive_def effective_custom_fps_def min_decode_fps_def inactive_threshold_def limited_fps_def fps_trending_def Let_def)
  then obtain ts rs where e: "fps_control 5000 True None None [(20, ?t)] = (ts, Some 18, rs)" by (metis prod.collapse)
  from auto_fps_sound [OF this] show ?thesis using e by (simp add: Let_def)
qed

lemma refresh_times_bounded: "ft_refresh_times t \<le> 20 \<Longrightarrow> ft_refresh_times (snd (refresh_thread now f t)) \<le> 20"
  by (simp add: refresh_thread_def Let_def)

end
