(* ===== verification/Spec2Isabelle.thy ===== *)
theory Spec2Isabelle
  imports SecureStream VideoQos LanDiscovery LoginAttempts Login TransferExchange TransferFaults TransferCm PrivacyMode SessionDispatch ClipboardExchange ClipboardPaste InputProps TerminalProps VideoLoop VideoClient FpsControl
begin

text \<open>
  \<^bold>\<open>Remote Display: a verification library for its engine.\<close>

  Remote Display shows and controls the desktop of one machine (the host, or controlled end) on another (the
  client, or controlling end), mostly inside a local network. Its engine is the Rust code under
  \<^verbatim>\<open>src/engine/rustdesk\<close>; file names below are relative to it. A host answers discovery pings, accepts
  connections, encrypts them, lets a peer log in, and then serves the kind of session that was asked for: the
  desktop, a camera, file transfers, a terminal or a port forward. A client finds hosts, logs in, decodes the
  video it is sent and runs the other half of a file transfer.

  Each component is one theory or a small group of them. Pure functions of the source are functions here;
  stateful ones take and return the state as a record; \<open>Result\<close> and panics are sums and options; threads that
  share state are steps that may be interleaved in any order, except where a theory says that a handler is one step. A \<open>HashMap\<close> is an association list without
  duplicate keys whose order stands for the iteration order, so what is proved for every list holds for every
  order. What lies outside the repository is an argument of the definitions that call it.

  \<^bold>\<open>Shared theories.\<close> \<open>Prelude\<close> (Rust's integer types, saturating and wrapping arithmetic, tables, lists),
  \<open>RustStr\<close> (the \<open>str\<close> operations in use, decimal numbers, IPv4 text), \<open>Float32\<close> (\<open>f32\<close> with IEEE rounding to
  nearest even), \<open>FileSystem\<close> (paths and a tree of files, directories and links; at most 40 links are followed,
  as the kernel does), \<open>Compress\<close> (\<^verbatim>\<open>libs/hbb_common/src/compress.rs\<close>), \<open>NetAddr\<close> and \<open>Ipv6Text\<close> (socket
  addresses, \<open>AddrMangle\<close> of \<^verbatim>\<open>libs/hbb_common/src/lib.rs\<close>), \<open>Versions\<close> (version numbers), \<open>Messages\<close> (the
  fields of the peers' messages that decisions read) and \<open>Options\<close> (options and permissions,
  \<^verbatim>\<open>libs/hbb_common/src/config.rs\<close>, \<^verbatim>\<open>src/server/connection.rs\<close>).

  \<^bold>\<open>The stream.\<close> \<open>BytesCodec\<close> models \<^verbatim>\<open>libs/hbb_common/src/bytes_codec.rs\<close>: a locale states what a framing has
  to promise, and its interpretation on the codec gives that any sequence of payloads comes out of the decoder as
  it went in, however the bytes are cut. \<open>SecureStream\<close> models \<^verbatim>\<open>libs/hbb_common/src/tcp.rs\<close>: two ends with the
  same key exchange messages in order, replayed, dropped and forged frames are errors, and the counters that make
  the nonces never repeat in one direction; a lemma records that the two directions use the same ones.

  \<^bold>\<open>Finding hosts.\<close> \<open>LanAddrs\<close> and \<open>LanDiscovery\<close> model \<^verbatim>\<open>src/lan.rs\<close>: which addresses a host advertises, which
  ones a client scans, the answer to a ping, the merge of replies into the stored peers, and the port scan as
  workers that share a queue: every address is tried exactly once whatever the schedule.

  \<^bold>\<open>Getting in.\<close> \<open>LoginGuard\<close> (\<^verbatim>\<open>src/server/login_failure_check.rs\<close> and the failure tables of
  \<^verbatim>\<open>src/server/connection.rs\<close>) is the guard against guessing, \<open>LoginAttempts\<close> lets the attempts of connections overlap, with
  each look at a table and each update a step: the guesses of an address and of its IPv6 neighbourhood are bounded by the limits
  plus the number of connections. \<open>Passwords\<close>
  (\<^verbatim>\<open>libs/hbb_common/src/password_security.rs\<close>, \<^verbatim>\<open>config.rs\<close>) has the stored secrets and the challenge and
  response. \<open>SessionScope\<close> and \<open>SessionOptions\<close> say what an authorized session of each kind may send and what an
  option message may change. \<open>Login\<close> is the login request with its checks in order: no run of messages
  authorizes a connection without evidence, what is authorized is what was asked for, and what comes late does not change it.

  \<^bold>\<open>Video of the host.\<close> \<open>VideoQos\<close> is \<^verbatim>\<open>src/server/video_qos.rs\<close>, with \<open>f32\<close> arithmetic: no sequence of its
  operations panics and rates stay within their limits. \<open>VideoCodec\<close> (\<^verbatim>\<open>libs/scrap/src/common/codec.rs\<close>) chooses
  a codec that all viewers can decode. \<open>Services\<close> (\<^verbatim>\<open>src/server/service.rs\<close>, \<^verbatim>\<open>src/server.rs\<close>) keeps who is
  subscribed to what; a locale states the contract of a set of subscribers. \<open>VideoLoop\<close>
  (\<^verbatim>\<open>src/server/video_service.rs\<close>) is the loop of one display, interleaved with viewers that come and go: every
  viewer starts with a first frame and gets all that follow, as long as one of them stays.

  \<^bold>\<open>Video of the client.\<close> \<open>VideoClient\<close> (\<^verbatim>\<open>src/client.rs\<close>, \<^verbatim>\<open>src/client/io_loop.rs\<close>) is the queue between the
  message loop and the decoding thread, in order until it overflows, and what a decoder's failures lead to, up to the
  host's next choice of a codec. \<open>FpsControl\<close> is the rate the client asks for.

  \<^bold>\<open>Files.\<close> \<open>TransferPaths\<close> and \<open>TransferJobs\<close> model \<^verbatim>\<open>libs/hbb_common/src/fs.rs\<close>, \<open>TransferServer\<close> the commands of
  \<^verbatim>\<open>src/ui_cm_interface.rs\<close>, \<open>TransferClient\<close> the client's half in \<^verbatim>\<open>src/client/io_loop.rs\<close>. Names that pass the
  checks stay inside the destination. \<open>TransferProps\<close>, \<open>TransferUpload\<close> and \<open>TransferExchange\<close> build up to the
  upload of any list of files: in every interleaving of the two ends nothing panics, whoever finishes has
  delivered the contents of every file, and it can always get there. The names are such that no file of the list is written under
  the name of another (\<open>usable_names\<close>), a sync does not fail, and a write that returned is in the file; times of modification
  are left out. \<open>TransferFaults\<close> has the runs that go wrong.
  \<open>FileListing\<close> has the directory listings, recursive ones with fuel above the depth of the tree, and \<open>TransferCm\<close>
  every file action of a peer: the files it asks for are read by the connection or by the connection manager, with
  the same messages for one request whose answers are about the file it is at, as long as nothing fails.

  \<^bold>\<open>Messages of a session.\<close> \<open>SessionDispatch\<close> is the second half of \<open>on_message\<close> in \<^verbatim>\<open>src/server/connection.rs\<close>: what
  an authorized peer's input, clipboards, displays, refreshes, calls and requests lead to. What each permission of
  the host stands for is written down apart from the handlers (\<open>guarded_by\<close>): none of it happens while the permission is
  withheld, no effect happens in a kind of session it does not belong to, and no message of the peer changes kind or
  permissions; lemmas name the effects that no permission guards.

  \<^bold>\<open>Input.\<close> \<open>InputService\<close> is \<^verbatim>\<open>src/server/input_service.rs\<close> with the key and mouse messages of the input thread: keys of
  the legacy, map and translate modes, modifiers, lock keys, the mouse and text that goes through the clipboard, on X11,
  Wayland and macOS, over a device whose answers are arguments. \<open>InputProps\<close> follows what the device holds down: on X11
  every held key is recorded, released at the exit of the host and by the periodic check once its record is six minutes old,
  if no key that locks the screen carries modifiers and every event is handled before or after the exit and the check; on
  Wayland keys sent by code are not recorded, and stay down.

  \<^bold>\<open>Copied files.\<close> \<open>ClipboardFormat\<close> and \<open>ClipboardServe\<close> (\<^verbatim>\<open>libs/clipboard/src/platform/unix\<close>) are the list of copied
  files on the wire and the end that serves their contents. \<open>ClipboardFuse\<close> (\<^verbatim>\<open>fuse/cs.rs\<close>) is the file system that a
  Linux desktop pastes from: its tree, its calls, its handles, which refine the set of what was opened and not closed.
  \<open>ClipboardExchange\<close> (\<^verbatim>\<open>src/clipboard_file.rs\<close>, \<^verbatim>\<open>fuse/mod.rs\<close>) joins both ends by their messages: what is pasted is
  what was copied, for paths of at most 260 UTF-16 units and offsets whose bit 31 is clear; lemmas show what happens to the
  others. \<open>ClipboardPaste\<close> (\<^verbatim>\<open>macos/paste_task.rs\<close>) is the task that macOS pastes with.

  \<^bold>\<open>Privacy mode.\<close> \<open>PrivacyMode\<close> models \<^verbatim>\<open>src/privacy_mode.rs\<close> and \<^verbatim>\<open>src/privacy_mode/macos.rs\<close> with the handlers of
  \<^verbatim>\<open>src/server/connection.rs\<close>, \<open>MacScreen\<close> the native half in \<^verbatim>\<open>src/platform/macos.mm\<close>: the contract of an implementation is
  a locale, and over all events, those of the displays included, the screen is hidden and local input blocked only for a connection that
  is there and allowed to have the mode. That an owner's screen is hidden does not hold; a theorem shows how it is lost.

  \<^bold>\<open>Terminals.\<close> \<open>TerminalBuffer\<close>, \<open>TerminalSessions\<close> and \<open>TerminalProps\<close> model \<^verbatim>\<open>src/server/terminal_service.rs\<close>:
  the replay buffer refines the history of the output, and a client that reconnects gets its end and everything
  after it without a gap.

  \<^bold>\<open>What is assumed of other code.\<close> Encryption and hashing are the record \<open>crypto\<close> or functions with the law that
  opening a sealed message gives it back and opening anything else fails; zstd returns what was compressed
  (\<open>zstd_ok\<close>); a read returns at least one byte until the end of the file; the JSON of a digest reads back; the
  channels between threads and peers keep their order; the name of a hardware encoder contains its format
  (\<open>hardware_ok\<close>); displays have UUIDs of their own (\<open>os_ok\<close>); UTF-16 text reads back (\<open>utf16_ok\<close>). Clocks, random values, what the operating system answers and what a user decides are arguments.
  Each property with such a hypothesis is followed by a concrete instance.

  \<^bold>\<open>Bounds.\<close> Widths are those of the source: words or integers with their wrap-around, saturation or panic written
  out. Fuel appears where the program has a bound of its own (40 links in a path) and in recursive listings, which
  the theorems give more of than the tree is deep. The client's queue holds
  120 frames, a transfer block 128 KiB, the wait for the viewers of a frame three seconds; the theorems are about
  those numbers and not smaller ones.

  \<^bold>\<open>Not modelled.\<close> Screen capture, the codecs and the backends of input are calls of other libraries and of the operating
  system. The transports other than TCP, the rendezvous client, the clipboard of text, audio, the configuration files as
  TOML, the helper processes of Windows and the user interfaces are left out; \<^verbatim>\<open>PROJECT.json\<close> lists every part
  with its reason. In the parts that are modelled: the branches of Windows and Linux of the video loop, its
  recordings and the contents of screenshots, the removal jobs of the client's file manager, privacy mode on Windows, the shell
  behind a terminal, the collection of the files below a copied directory, and the macOS pasteboard.
\<close>

end
